(* ===== verification/Prelude.thy ===== *)
theory Prelude
  imports Main "HOL-Library.Word"
begin

text \<open>
  Shared vocabulary of the development: the machine types, the error codes, the little-endian
  dword encoding both socket protocols use, generic lemmas on lists, maps and words, and the
  \<^theory_text>\<open>named_theorems\<close> collections the component theories add to.

  \<^item> \<open>frame_simps\<close>: equations saying which fields an operation leaves alone;
  \<^item> \<open>inv_intros\<close>: preservation lemmas of the component invariants.
\<close>

unbundle bit_operations_syntax

named_theorems frame_simps "fields an operation leaves unchanged"
named_theorems inv_intros "operations that preserve a component's invariant"

subsection \<open>Machine types and error codes\<close>

type_synonym u8 = "8 word"
type_synonym u16 = "16 word"
type_synonym u32 = "32 word"
type_synonym u64 = "64 word"
type_synonym bytes = "u8 list"

text \<open>The \<open>errno\<close> values the C sources set or test.\<close>

datatype errno = EIO | EINVAL | ENOENT | ENOMEM | ENODEV | ENOSYS | EBUSY | EMFILE
  | EINTR | EAGAIN | EPIPE | EBADF | EACCES | ECONNREFUSED

text \<open>
  The C convention \<^verbatim>\<open>return 0\<close> against \<^verbatim>\<open>errno = e; return -1\<close> (or, in the libdrm API,
  \<^verbatim>\<open>return -e\<close>) as a value.
\<close>

datatype rc = RC_OK | RC_ERR errno

definition rc_int :: "rc \<Rightarrow> int" where
  "rc_int r = (case r of RC_OK \<Rightarrow> 0 | RC_ERR _ \<Rightarrow> -1)"

lemma rc_int_simps [simp]: "rc_int RC_OK = 0" "rc_int (RC_ERR e) = -1"
  by (simp_all add: rc_int_def)

lemma rc_int_zero [simp]: "rc_int r = 0 \<longleftrightarrow> r = RC_OK"
  by (cases r) simp_all

subsection \<open>Little-endian dwords\<close>

text \<open>A \<^verbatim>\<open>uint32_t\<close> as it lies in memory (and so on the wire) on the little-endian targets.\<close>

definition le32 :: "u32 \<Rightarrow> bytes" where
  "le32 x = [ucast x, ucast (drop_bit 8 x), ucast (drop_bit 16 x), ucast (drop_bit 24 x)]"

fun un_le32 :: "bytes \<Rightarrow> u32" where
  "un_le32 [a, b, c, d] =
     ucast a OR push_bit 8 (ucast b) OR push_bit 16 (ucast c) OR push_bit 24 (ucast d)"
| "un_le32 _ = 0"

definition dwords :: "u32 list \<Rightarrow> bytes" where
  "dwords xs = concat (map le32 xs)"

lemma length_le32 [simp]: "length (le32 x) = 4"
  by (simp add: le32_def)

lemma dwords_Nil [simp]: "dwords [] = []"
  and dwords_Cons [simp]: "dwords (x # xs) = le32 x @ dwords xs"
  and dwords_append [simp]: "dwords (xs @ ys) = dwords xs @ dwords ys"
  by (simp_all add: dwords_def)

lemma length_dwords [simp]: "length (dwords xs) = 4 * length xs"
  by (induction xs) simp_all

lemma un_le32_le32 [simp]: "un_le32 (le32 x) = x"
  unfolding le32_def un_le32.simps
proof (rule bit_word_eqI)
  fix n
  assume n: "n < LENGTH(32)"
  consider "n < 8" | "8 \<le> n" "n < 16" | "16 \<le> n" "n < 24" | "24 \<le> n" "n < 32"
    using n by force
  then show "bit (ucast (ucast x :: u8) OR push_bit 8 (ucast (ucast (drop_bit 8 x) :: u8))
      OR push_bit 16 (ucast (ucast (drop_bit 16 x) :: u8))
      OR push_bit 24 (ucast (ucast (drop_bit 24 x) :: u8)) :: u32) n = bit x n"
    by cases (auto simp: bit_or_iff bit_push_bit_iff bit_ucast_iff bit_drop_bit_eq not_le)
qed

lemma le32_inject [simp]: "le32 x = le32 y \<longleftrightarrow> x = y"
  by (metis un_le32_le32)

text \<open>Splitting a byte string back into dwords: the reading side of the protocol.\<close>

fun un_dwords :: "nat \<Rightarrow> bytes \<Rightarrow> u32 list" where
  "un_dwords 0 bs = []"
| "un_dwords (Suc n) bs = un_le32 (take 4 bs) # un_dwords n (drop 4 bs)"

lemma un_dwords_dwords [simp]: "un_dwords (length xs) (dwords xs @ ys) = xs"
  by (induction xs) simp_all

lemma dwords_inject: "length xs = length ys \<Longrightarrow> dwords xs = dwords ys \<longleftrightarrow> xs = ys"
  by (induction xs ys rule: list_induct2) (auto simp: append_eq_append_conv)

subsection \<open>Strings as bytes\<close>

definition to_bytes :: "string \<Rightarrow> bytes" where
  "to_bytes s = map of_char s"

lemma length_to_bytes [simp]: "length (to_bytes s) = length s"
  by (simp add: to_bytes_def)

subsection \<open>Searching an array from the front\<close>

text \<open>
  The C loops \<^verbatim>\<open>for (i = 0; i < n; i++) if (P(a[i])) ...\<close> all look for the first index that
  satisfies a test.
\<close>

fun first_index :: "('a \<Rightarrow> bool) \<Rightarrow> 'a list \<Rightarrow> nat option" where
  "first_index P [] = None"
| "first_index P (x # xs) = (if P x then Some 0 else map_option Suc (first_index P xs))"

lemma first_index_None: "first_index P xs = None \<longleftrightarrow> (\<forall>x \<in> set xs. \<not> P x)"
  by (induction xs) auto

lemma first_index_SomeD:
  "first_index P xs = Some i \<Longrightarrow> i < length xs \<and> P (xs ! i) \<and> (\<forall>j < i. \<not> P (xs ! j))"
proof (induction xs arbitrary: i)
  case (Cons x xs)
  show ?case
  proof (cases "P x")
    case False
    with Cons.prems obtain k where k: "first_index P xs = Some k" "i = Suc k"
      by auto
    from Cons.IH [OF k(1)] k(2) False show ?thesis
      by (auto simp: less_Suc_eq_0_disj)
  qed (use Cons.prems in auto)
qed simp

lemma first_indexI:
  "\<lbrakk>i < length xs; P (xs ! i); \<And>j. j < i \<Longrightarrow> \<not> P (xs ! j)\<rbrakk> \<Longrightarrow> first_index P xs = Some i"
proof (induction xs arbitrary: i)
  case (Cons x xs)
  show ?case
  proof (cases i)
    case 0
    with Cons.prems show ?thesis by simp
  next
    case (Suc k)
    with Cons.prems(3) [of 0] have "\<not> P x" by simp
    moreover have "first_index P xs = Some k"
      using Cons.prems(1,2) Suc Cons.prems(3) [of "Suc _"] by (intro Cons.IH) auto
    ultimately show ?thesis using Suc by simp
  qed
qed simp

lemma first_index_unique:
  assumes "i < length xs" "P (xs ! i)" "\<And>j. j < length xs \<Longrightarrow> P (xs ! j) \<Longrightarrow> j = i"
  shows "first_index P xs = Some i"
proof (rule first_indexI)
  fix j
  assume "j < i"
  with assms(1) have "j < length xs" "j \<noteq> i" by simp_all
  with assms(3) show "\<not> P (xs ! j)" by blast
qed (use assms(1,2) in simp_all)

subsection \<open>Small facts on words\<close>

lemma unat_less_u32 [simp]: "unat (x :: u32) < 4294967296"
proof -
  have "unat x < 2 ^ LENGTH(32)" by (rule unsigned_less)
  then show ?thesis by simp
qed

lemma unat_eq_u32 [simp]: "unat (x :: u32) = unat y \<longleftrightarrow> x = y"
  by (auto dest: unsigned_word_eqI)

lemma unat_ucast_u64: "unat (ucast (x :: u32) :: u64) = unat x"
  by (simp add: unsigned_ucast_eq take_bit_nat_eq_self_iff less_trans [OF unat_less_u32])

lemma unat_Suc_u32: "unat (x :: u32) + 1 < 2 ^ 32 \<Longrightarrow> unat (x + 1) = unat x + 1"
  by (simp add: unat_word_ariths)

subsection \<open>C strings\<close>

definition NUL :: char where "NUL = CHR 0x00"

text \<open>\<^verbatim>\<open>strncmp(prefix, s, strlen(prefix)) == 0\<close>.\<close>

fun has_prefix :: "string \<Rightarrow> string \<Rightarrow> bool" where
  "has_prefix [] ys = True"
| "has_prefix (x # xs) [] = False"
| "has_prefix (x # xs) (y # ys) = (x = y \<and> has_prefix xs ys)"

text \<open>Skipping to the next NUL and over it shortens the rest of a buffer.\<close>

lemma drop_dropWhile_less: "length (dropWhile P xs) - Suc 0 < Suc (length xs)"
  using length_dropWhile_le [of P xs] by linarith

end
