(* ===== verification/World.thy ===== *)
theory World
  imports Prelude
begin

text \<open>
  The operating system as \<^verbatim>\<open>drm_shim.c\<close> sees it: the process's descriptor table, the vtest
  socket, the allocator and the environment. Each C library call the shim makes is a function on
  a \<open>world\<close>. The calls follow POSIX: \<open>dup\<close> and friends return the lowest free descriptor or
  fail when the table is full; \<open>write\<close> and \<open>read\<close> may transfer less than asked for and may be
  interrupted. What the kernel chooses is read from schedules in the state
  (\<open>wsched\<close>, \<open>rsched\<close>, \<open>alloc_sched\<close>): a finite list of short, interrupted or failed calls, after
  which calls transfer everything. So a theorem over all worlds is one over all finite patterns
  of interruption.
\<close>

subsection \<open>The state\<close>

text \<open>What an open descriptor refers to: \<open>fstat\<close> identity, \<open>/proc/self/fd\<close> link and size.\<close>

record finfo =
  fi_dev :: u64
  fi_ino :: u64
  fi_link :: string
  fi_size :: int

datatype wres = WN nat | WE errno   \<comment> \<open>result of one \<open>write\<close>: bytes taken (at most), or an error\<close>
datatype rres = RN nat | RE errno   \<comment> \<open>result of one \<open>read\<close>: \<open>RN k\<close> gives at most \<open>k + 1\<close> bytes\<close>

record world =
  fd_tab :: "int \<Rightarrow> finfo option"
  fd_limit :: nat
  env :: "string \<Rightarrow> string option"
  listening :: "string \<Rightarrow> bool"     \<comment> \<open>paths on which a vtest server accepts\<close>
  tx :: bytes                        \<comment> \<open>bytes the kernel took for the server, in order\<close>
  rx :: bytes                        \<comment> \<open>bytes the server will have sent, still unread\<close>
  rx_conns :: "bytes list"           \<comment> \<open>what the server sends on the connections to come\<close>
  rx_anc :: "finfo option list"      \<comment> \<open>the SCM_RIGHTS payloads of the coming \<open>recvmsg\<close> calls\<close>
  wsched :: "wres list"
  rsched :: "rres list"
  alloc_sched :: "bool list"         \<comment> \<open>whether the coming allocations succeed\<close>
  anon_ino :: u64                    \<comment> \<open>inode of the next anonymous file\<close>
  unmapped :: "(nat \<times> u32) list"     \<comment> \<open>\<open>munmap\<close> calls made\<close>

subsection \<open>Descriptors\<close>

text \<open>The kernel gives out the lowest free descriptor.\<close>

definition free_fd :: "world \<Rightarrow> nat option" where
  "free_fd w = first_index (\<lambda>i. fd_tab w (int i) = None) [0..<fd_limit w]"

definition install_fd :: "finfo \<Rightarrow> world \<Rightarrow> int \<times> world" where
  "install_fd fi w = (case free_fd w of
      None \<Rightarrow> (-1, w)
    | Some i \<Rightarrow> (int i, w\<lparr>fd_tab := (fd_tab w)(int i \<mapsto> fi)\<rparr>))"

definition sys_dup :: "int \<Rightarrow> world \<Rightarrow> int \<times> world" where
  "sys_dup fd w = (case fd_tab w fd of None \<Rightarrow> (-1, w) | Some fi \<Rightarrow> install_fd fi w)"

definition sys_close :: "int \<Rightarrow> world \<Rightarrow> world" where
  "sys_close fd w = w\<lparr>fd_tab := (fd_tab w)(fd := None)\<rparr>"

definition sys_fstat :: "int \<Rightarrow> world \<Rightarrow> (u64 \<times> u64) option" where
  "sys_fstat fd w = map_option (\<lambda>fi. (fi_dev fi, fi_ino fi)) (fd_tab w fd)"

definition sys_readlink :: "int \<Rightarrow> world \<Rightarrow> string option" where
  "sys_readlink fd w = map_option fi_link (fd_tab w fd)"

text \<open>\<open>lseek(fd, 0, SEEK_END)\<close>; negative for an unseekable or closed descriptor.\<close>

definition sys_lseek_end :: "int \<Rightarrow> world \<Rightarrow> int" where
  "sys_lseek_end fd w = (case fd_tab w fd of None \<Rightarrow> -1 | Some fi \<Rightarrow> fi_size fi)"

text \<open>\<open>eventfd\<close>, \<open>memfd_create\<close>: a descriptor for a fresh anonymous inode.\<close>

definition sys_anon :: "string \<Rightarrow> world \<Rightarrow> int \<times> world" where
  "sys_anon link w =
     install_fd \<lparr>fi_dev = 0, fi_ino = anon_ino w, fi_link = link, fi_size = 0\<rparr>
       (w\<lparr>anon_ino := anon_ino w + 1\<rparr>)"

lemma free_fd_SomeD: "free_fd w = Some i \<Longrightarrow> fd_tab w (int i) = None \<and> i < fd_limit w"
  by (auto simp: free_fd_def dest!: first_index_SomeD)

lemma free_fd_None_iff: "free_fd w = None \<longleftrightarrow> (\<forall>i < fd_limit w. fd_tab w (int i) \<noteq> None)"
  by (auto simp: free_fd_def first_index_None)

text \<open>A descriptor handed out was closed, is open now, and no other changed.\<close>

lemma install_fd_cases:
  assumes "install_fd fi w = (fd, w')"
  obtains (full) "fd = -1" "w' = w" "free_fd w = None"
  | (ok) "0 \<le> fd" "fd < int (fd_limit w)" "fd_tab w fd = None"
      "w' = w\<lparr>fd_tab := (fd_tab w)(fd \<mapsto> fi)\<rparr>"
proof (cases "free_fd w")
  case None
  with assms full show thesis by (auto simp: install_fd_def)
next
  case (Some i)
  with assms free_fd_SomeD [OF Some] ok show thesis by (auto simp: install_fd_def)
qed

lemma sys_dup_cases:
  assumes "sys_dup old w = (fd, w')"
  obtains (fail) "fd = -1" "w' = w"
  | (ok) fi where "0 \<le> fd" "fd_tab w old = Some fi" "fd_tab w fd = None"
      "w' = w\<lparr>fd_tab := (fd_tab w)(fd \<mapsto> fi)\<rparr>"
proof (cases "fd_tab w old")
  case None
  with assms fail show thesis by (auto simp: sys_dup_def)
next
  case (Some fi)
  with assms have "install_fd fi w = (fd, w')" by (simp add: sys_dup_def)
  then show thesis by (cases rule: install_fd_cases) (use fail ok Some in auto)
qed

subsection \<open>Allocation\<close>

definition sys_alloc :: "world \<Rightarrow> bool \<times> world" where
  "sys_alloc w = (case alloc_sched w of
      [] \<Rightarrow> (True, w) | b # bs \<Rightarrow> (b, w\<lparr>alloc_sched := bs\<rparr>))"

subsection \<open>The vtest socket\<close>

text \<open>One \<open>write(fd, p, left)\<close>: the bytes taken, or an error.\<close>

definition sys_write :: "bytes \<Rightarrow> world \<Rightarrow> (errno + nat) \<times> world" where
  "sys_write bs w = (case wsched w of
      [] \<Rightarrow> (Inr (length bs), w\<lparr>tx := tx w @ bs\<rparr>)
    | WN k # ws \<Rightarrow> (Inr (min k (length bs)),
        w\<lparr>tx := tx w @ take k bs, wsched := ws\<rparr>)
    | WE e # ws \<Rightarrow> (Inl e, w\<lparr>wsched := ws\<rparr>))"

text \<open>
  One \<open>read(fd, p, left)\<close>: the bytes received, none of them exactly at end of stream, or an error.
\<close>

definition sys_read :: "nat \<Rightarrow> world \<Rightarrow> (errno + bytes) \<times> world" where
  "sys_read count w = (case rsched w of
      [] \<Rightarrow> (Inr (take count (rx w)), w\<lparr>rx := drop count (rx w)\<rparr>)
    | RN k # rs \<Rightarrow>
        (let n = min (Suc k) count
         in (Inr (take n (rx w)), w\<lparr>rx := drop n (rx w), rsched := rs\<rparr>))
    | RE e # rs \<Rightarrow> (Inl e, w\<lparr>rsched := rs\<rparr>))"

lemma sys_write_cases:
  assumes "sys_write p w = (x, w')"
  obtains (all) "wsched w = []" "x = Inr (length p)" "w' = w\<lparr>tx := tx w @ p\<rparr>"
  | (some) k ws where "wsched w = WN k # ws" "x = Inr (min k (length p))"
      "w' = w\<lparr>tx := tx w @ take k p, wsched := ws\<rparr>"
  | (err) e ws where "wsched w = WE e # ws" "x = Inl e" "w' = w\<lparr>wsched := ws\<rparr>"
proof (cases "wsched w")
  case Nil
  with assms all show thesis by (simp add: sys_write_def)
next
  case (Cons y ws)
  with assms some err show thesis by (cases y) (auto simp: sys_write_def)
qed

lemma sys_read_cases:
  assumes "sys_read c w = (x, w')"
  obtains (all) "rsched w = []" "x = Inr (take c (rx w))" "w' = w\<lparr>rx := drop c (rx w)\<rparr>"
  | (some) n k rs where "rsched w = RN k # rs" "n = min (Suc k) c" "x = Inr (take n (rx w))"
      "w' = w\<lparr>rx := drop n (rx w), rsched := rs\<rparr>"
  | (err) e rs where "rsched w = RE e # rs" "x = Inl e" "w' = w\<lparr>rsched := rs\<rparr>"
proof (cases "rsched w")
  case Nil
  with assms all show thesis by (simp add: sys_read_def)
next
  case (Cons y rs)
  with assms some err show thesis by (cases y) (auto simp: sys_read_def Let_def)
qed

text \<open>A concrete world, for the witnesses: one open descriptor, a listening server, every call succeeds.\<close>

definition world0 :: world where
  "world0 = \<lparr>fd_tab = [0 \<mapsto> \<lparr>fi_dev = 0, fi_ino = 1, fi_link = ''/dev/null'', fi_size = 0\<rparr>],
     fd_limit = 64, env = Map.empty, listening = (\<lambda>p. p = ''/tmp/.virgl_test''),
     tx = [], rx = [], rx_conns = [], rx_anc = [], wsched = [], rsched = [], alloc_sched = [],
     anon_ino = 100, unmapped = []\<rparr>"

end
