(* ===== verification/Vtest.thy ===== *)
theory Vtest
  imports World
begin

text \<open>
  The vtest connection of \<^verbatim>\<open>drm_shim.c\<close>: blocking transfers over a stream socket, descriptor
  passing, the lazy connection and its handshake. The interface the ioctl handlers use is stated
  as two locales, \<open>framed_sink\<close> for the sending and \<open>framed_source\<close> for the receiving side, and
  both are interpreted on the code's own loops.
\<close>

subsection \<open>Interfaces\<close>

locale framed_sink =
  fixes send :: "bytes \<Rightarrow> 's \<Rightarrow> int \<times> 's"
    and sent :: "'s \<Rightarrow> bytes"
    and healthy :: "'s \<Rightarrow> bool"
  assumes send_prefix: "send bs s = (r, s') \<Longrightarrow>
      \<exists>n \<le> length bs. sent s' = sent s @ take n bs \<and> (r = 0 \<longrightarrow> n = length bs)"
    and send_range: "send bs s = (r, s') \<Longrightarrow> r = 0 \<or> r = -1"
    and send_healthy: "healthy s \<Longrightarrow> send bs s = (r, s') \<Longrightarrow> r = 0 \<and> healthy s'"
begin

lemma send_ok: "send bs s = (0, s') \<Longrightarrow> sent s' = sent s @ bs"
  using send_prefix by fastforce

lemma send_two_ok:
  "\<lbrakk>send bs s = (0, s1); send cs s1 = (0, s2)\<rbrakk> \<Longrightarrow> sent s2 = sent s @ bs @ cs"
  using send_ok [of bs s s1] send_ok [of cs s1 s2] by simp

lemma send_two_prefix:
  assumes "send bs s = (0, s1)" "send cs s1 = (r, s2)"
  shows "\<exists>n \<le> length (bs @ cs). sent s2 = sent s @ take n (bs @ cs)"
proof -
  from send_prefix [OF assms(2)] obtain n where
    "n \<le> length cs" "sent s2 = sent s1 @ take n cs" by blast
  with send_ok [OF assms(1)] show ?thesis
    by (intro exI [of _ "length bs + n"]) simp
qed

end

locale framed_source =
  fixes recv :: "nat \<Rightarrow> 's \<Rightarrow> bytes option \<times> 's"
    and incoming :: "'s \<Rightarrow> bytes"
    and healthy :: "'s \<Rightarrow> bool"
  assumes recv_ok: "recv n s = (Some bs, s') \<Longrightarrow>
      length bs = n \<and> incoming s = bs @ incoming s'"
    and recv_healthy: "\<lbrakk>healthy s; n \<le> length (incoming s)\<rbrakk> \<Longrightarrow>
      \<exists>bs s'. recv n s = (Some bs, s') \<and> healthy s'"
begin

lemma recv_exact:
  assumes "healthy s" "incoming s = bs @ rest" "length bs = n"
  shows "\<exists>s'. recv n s = (Some bs, s') \<and> healthy s' \<and> incoming s' = rest"
proof -
  from recv_healthy [OF assms(1), of n] assms(2,3) obtain cs s' where
    r: "recv n s = (Some cs, s')" "healthy s'" by auto
  from recv_ok [OF r(1)] assms(2,3) have "cs = bs \<and> incoming s' = rest"
    by (metis append_eq_append_conv)
  with r show ?thesis by blast
qed

end

subsection \<open>Blocking transfers\<close>

text \<open>\<^verbatim>\<open>vtest_block_write\<close>: \<open>write\<close> until everything is taken; \<open>EINTR\<close> is retried.\<close>

function vtest_block_write :: "bytes \<Rightarrow> world \<Rightarrow> int \<times> world" where
  "vtest_block_write p w =
     (if p = [] then (0, w)
      else (case sys_write p w of
          (Inl e, w') \<Rightarrow> if e = EINTR then vtest_block_write p w' else (-1, w')
        | (Inr n, w') \<Rightarrow> vtest_block_write (drop n p) w'))"
  by pat_completeness auto
termination
  by (relation "measure (\<lambda>(p, w). length p + length (wsched w))")
    (auto simp: sys_write_def min_def split: list.splits wres.splits if_splits)

text \<open>
  \<^verbatim>\<open>vtest_block_read\<close>: \<open>read\<close> until \<open>count\<close> bytes have come; \<open>EINTR\<close> is retried, end of stream
  and other errors give up. \<open>None\<close> is the result \<^verbatim>\<open>-1\<close>.
\<close>

function vtest_block_read :: "nat \<Rightarrow> world \<Rightarrow> bytes option \<times> world" where
  "vtest_block_read count w =
     (if count = 0 then (Some [], w)
      else (case sys_read count w of
          (Inl e, w') \<Rightarrow> if e = EINTR then vtest_block_read count w' else (None, w')
        | (Inr bs, w') \<Rightarrow>
            if bs = [] then (None, w')
            else (case vtest_block_read (count - length bs) w' of
                (Some cs, w'') \<Rightarrow> (Some (bs @ cs), w'')
              | (None, w'') \<Rightarrow> (None, w''))))"
  by pat_completeness auto
termination
  by (relation "measure (\<lambda>(c, w). c + length (rsched w))")
    (auto simp: sys_read_def Let_def split: list.splits rres.splits if_splits)

declare vtest_block_write.simps [simp del] vtest_block_read.simps [simp del]

definition soft_writes :: "world \<Rightarrow> bool" where
  "soft_writes w \<longleftrightarrow> (\<forall>e. WE e \<in> set (wsched w) \<longrightarrow> e = EINTR)"

definition soft_reads :: "world \<Rightarrow> bool" where
  "soft_reads w \<longleftrightarrow> (\<forall>e. RE e \<in> set (rsched w) \<longrightarrow> e = EINTR)"

text \<open>The loop's own induction: it ends, fails hard, is interrupted, or moves on.\<close>

lemma block_write_induct [consumes 1, case_names fin err intr step]:
  assumes "vtest_block_write p w = (r, w')"
    and fin: "\<And>w. P [] w 0 w"
    and err: "\<And>p w w' e. \<lbrakk>p \<noteq> []; sys_write p w = (Inl e, w'); e \<noteq> EINTR\<rbrakk> \<Longrightarrow> P p w (-1) w'"
    and intr: "\<And>p w w1 r w'. \<lbrakk>p \<noteq> []; sys_write p w = (Inl EINTR, w1); P p w1 r w'\<rbrakk> \<Longrightarrow> P p w r w'"
    and step: "\<And>p w n w1 r w'. \<lbrakk>p \<noteq> []; sys_write p w = (Inr n, w1); P (drop n p) w1 r w'\<rbrakk>
      \<Longrightarrow> P p w r w'"
  shows "P p w r w'"
  using assms(1)
proof (induction p w arbitrary: r w' rule: vtest_block_write.induct)
  case (1 p w)
  show ?case
  proof (cases "p = []")
    case True
    with "1.prems" fin show ?thesis by (simp add: vtest_block_write.simps)
  next
    case False
    obtain x w1 where sw: "sys_write p w = (x, w1)" by fastforce
    show ?thesis
    proof (cases x)
      case (Inl e)
      show ?thesis
      proof (cases "e = EINTR")
        case True
        with "1.prems" False sw Inl have "vtest_block_write p w1 = (r, w')"
          by (simp add: vtest_block_write.simps [of p w])
        from "1.IH"(1) [OF False sw [symmetric] Inl True this] show ?thesis
          using intr False sw Inl True by blast
      next
        case hard: False
        with "1.prems" False sw Inl have "r = -1" "w' = w1"
          by (simp_all add: vtest_block_write.simps [of p w])
        with err [OF False sw [unfolded Inl] hard] show ?thesis by simp
      qed
    next
      case (Inr n)
      with "1.prems" False sw have "vtest_block_write (drop n p) w1 = (r, w')"
        by (simp add: vtest_block_write.simps [of p w])
      from "1.IH"(2) [OF False sw [symmetric] Inr this] show ?thesis
        using step False sw Inr by blast
    qed
  qed
qed

lemma block_write_prefix:
  assumes "vtest_block_write p w = (r, w')"
  shows "\<exists>n \<le> length p. tx w' = tx w @ take n p \<and> (r = 0 \<longrightarrow> n = length p)"
  using assms
proof (induction rule: block_write_induct)
  case (step p w n w1 r w')
  then obtain m where m: "m \<le> length (drop n p)" "tx w' = tx w1 @ take m (drop n p)"
    "r = 0 \<longrightarrow> m = length (drop n p)" by blast
  from step(2) have "tx w1 = tx w @ take n p" "n \<le> length p"
    by (cases rule: sys_write_cases; simp add: min_def)+
  with m show ?case by (intro exI [of _ "n + m"]) (auto simp: take_add)
qed (auto elim!: sys_write_cases)

lemma block_write_range: "vtest_block_write p w = (r, w') \<Longrightarrow> r = 0 \<or> r = -1"
  by (induction rule: block_write_induct) auto

lemma block_write_soft:
  "vtest_block_write p w = (r, w') \<Longrightarrow> soft_writes w \<Longrightarrow> r = 0 \<and> soft_writes w'"
proof (induction rule: block_write_induct)
  case (err p w w' e)
  from err(2) show ?case using err by (cases rule: sys_write_cases) (auto simp: soft_writes_def)
next
  case (intr p w w1 r w')
  from intr(2) have "soft_writes w1"
    using intr.prems by (cases rule: sys_write_cases) (auto simp: soft_writes_def)
  with intr show ?case by blast
next
  case (step p w n w1 r w')
  from step(2) have "soft_writes w1"
    using step.prems by (cases rule: sys_write_cases) (auto simp: soft_writes_def)
  with step show ?case by blast
qed simp

text \<open>A transfer touches only its own stream and schedule.\<close>

lemma block_write_frame:
  assumes "vtest_block_write p w = (r, w')"
  shows "w' = w\<lparr>tx := tx w', wsched := wsched w'\<rparr>"
  using assms
proof (induction rule: block_write_induct)
  case (intr p w w1 r w')
  from intr(2) have "w1 = w\<lparr>tx := tx w1, wsched := wsched w1\<rparr>"
    by (cases rule: sys_write_cases) simp_all
  with intr.IH show ?case by (cases w; cases w1; cases w') simp
next
  case (step p w n w1 r w')
  from step(2) have "w1 = w\<lparr>tx := tx w1, wsched := wsched w1\<rparr>"
    by (cases rule: sys_write_cases) simp_all
  with step.IH show ?case by (cases w; cases w1; cases w') simp
qed (auto elim!: sys_write_cases)

lemma block_read_induct [consumes 1, case_names fin err intr eof step]:
  assumes "vtest_block_read c w = (res, w')"
    and fin: "\<And>w. P 0 w (Some []) w"
    and err: "\<And>c w w' e. \<lbrakk>c \<noteq> 0; sys_read c w = (Inl e, w'); e \<noteq> EINTR\<rbrakk> \<Longrightarrow> P c w None w'"
    and intr: "\<And>c w w1 res w'. \<lbrakk>c \<noteq> 0; sys_read c w = (Inl EINTR, w1); P c w1 res w'\<rbrakk>
      \<Longrightarrow> P c w res w'"
    and eof: "\<And>c w w'. \<lbrakk>c \<noteq> 0; sys_read c w = (Inr [], w')\<rbrakk> \<Longrightarrow> P c w None w'"
    and step: "\<And>c w bs w1 res w'. \<lbrakk>c \<noteq> 0; sys_read c w = (Inr bs, w1); bs \<noteq> [];
        P (c - length bs) w1 res w'\<rbrakk> \<Longrightarrow> P c w (map_option ((@) bs) res) w'"
  shows "P c w res w'"
  using assms(1)
proof (induction c w arbitrary: res w' rule: vtest_block_read.induct)
  case (1 c w)
  show ?case
  proof (cases "c = 0")
    case True
    with "1.prems" fin show ?thesis by (simp add: vtest_block_read.simps)
  next
    case False
    obtain x w1 where sr: "sys_read c w = (x, w1)" by fastforce
    show ?thesis
    proof (cases x)
      case (Inl e)
      show ?thesis
      proof (cases "e = EINTR")
        case True
        with "1.prems" False sr Inl have "vtest_block_read c w1 = (res, w')"
          by (simp add: vtest_block_read.simps [of c w])
        from "1.IH"(1) [OF False sr [symmetric] Inl True this] show ?thesis
          using intr False sr Inl True by blast
      next
        case hard: False
        with "1.prems" False sr Inl have "res = None" "w' = w1"
          by (simp_all add: vtest_block_read.simps [of c w])
        with err [OF False sr [unfolded Inl] hard] show ?thesis by simp
      qed
    next
      case (Inr bs)
      show ?thesis
      proof (cases "bs = []")
        case True
        with "1.prems" False sr Inr have "res = None" "w' = w1"
          by (simp_all add: vtest_block_read.simps [of c w])
        with eof [OF False sr [unfolded Inr True]] show ?thesis by simp
      next
        case ne: False
        obtain res1 w2 where rec: "vtest_block_read (c - length bs) w1 = (res1, w2)" by fastforce
        with "1.prems" False sr Inr ne have "res = map_option ((@) bs) res1" "w' = w2"
          by (auto simp: vtest_block_read.simps [of c w] split: option.splits)
        with step [OF False sr [unfolded Inr] ne "1.IH"(2) [OF False sr [symmetric] Inr ne rec]]
        show ?thesis by simp
      qed
    qed
  qed
qed

lemma block_read_ok:
  assumes "vtest_block_read c w = (Some bs, w')"
  shows "length bs = c \<and> rx w = bs @ rx w'"
proof -
  have "\<forall>bs. res = Some bs \<longrightarrow> length bs = c \<and> rx w = bs @ rx w'"
    if "vtest_block_read c w = (res, w')" for res
    using that
  proof (induction rule: block_read_induct)
    case (intr c w w1 res w')
    from intr(2) have "rx w1 = rx w" by (cases rule: sys_read_cases) simp_all
    with intr show ?case by simp
  next
    case (step c w bs w1 res w')
    from step(2) have "rx w = bs @ rx w1 \<and> length bs \<le> c"
      by (cases rule: sys_read_cases) auto
    with step show ?case by auto
  qed simp_all
  with assms show ?thesis by blast
qed

lemma block_read_soft:
  "vtest_block_read c w = (res, w') \<Longrightarrow> soft_reads w \<Longrightarrow> c \<le> length (rx w) \<Longrightarrow>
     res \<noteq> None \<and> soft_reads w'"
proof (induction rule: block_read_induct)
  case (err c w w' e)
  from err(2) show ?case using err by (cases rule: sys_read_cases) (auto simp: soft_reads_def)
next
  case (intr c w w1 res w')
  from intr(2) have "soft_reads w1 \<and> rx w1 = rx w"
    using intr.prems by (cases rule: sys_read_cases) (auto simp: soft_reads_def)
  with intr show ?case by simp
next
  case (eof c w w')
  from eof(2) show ?case using eof by (cases rule: sys_read_cases) auto
next
  case (step c w bs w1 res w')
  from step(2) have "soft_reads w1 \<and> rx w = bs @ rx w1"
    using step.prems by (cases rule: sys_read_cases) (auto simp: soft_reads_def)
  with step show ?case by auto
qed simp

lemma block_read_frame:
  assumes "vtest_block_read c w = (res, w')"
  shows "w' = w\<lparr>rx := rx w', rsched := rsched w'\<rparr>"
  using assms
proof (induction rule: block_read_induct)
  case (intr c w w1 res w')
  from intr(2) have "w1 = w\<lparr>rx := rx w1, rsched := rsched w1\<rparr>"
    by (cases rule: sys_read_cases) simp_all
  with intr.IH show ?case by (cases w; cases w1; cases w') simp
next
  case (step c w bs w1 res w')
  from step(2) have "w1 = w\<lparr>rx := rx w1, rsched := rsched w1\<rparr>"
    by (cases rule: sys_read_cases) simp_all
  with step.IH show ?case by (cases w; cases w1; cases w') simp
qed (auto elim!: sys_read_cases)

text \<open>The code's loops provide the interfaces.\<close>

interpretation vt_sink: framed_sink vtest_block_write tx soft_writes
proof unfold_locales
qed (use block_write_prefix block_write_range block_write_soft in blast)+

interpretation vt_source: framed_source vtest_block_read rx soft_reads
proof unfold_locales
  fix n w bs w'
  assume "vtest_block_read n w = (Some bs, w')"
  then show "length bs = n \<and> rx w = bs @ rx w'" by (rule block_read_ok)
next
  fix w n
  assume "soft_reads w" "n \<le> length (rx w)"
  moreover obtain res w' where r: "vtest_block_read n w = (res, w')" by fastforce
  ultimately have "res \<noteq> None \<and> soft_reads w'" by (intro block_read_soft [OF r])
  with r show "\<exists>bs w'. vtest_block_read n w = (Some bs, w') \<and> soft_reads w'" by blast
qed

lemma block_write_fields:
  assumes "vtest_block_write p w = (r, w')"
  shows "fd_tab w' = fd_tab w" "fd_limit w' = fd_limit w" "env w' = env w"
    "listening w' = listening w" "rx w' = rx w" "rx_conns w' = rx_conns w"
    "rx_anc w' = rx_anc w" "rsched w' = rsched w" "alloc_sched w' = alloc_sched w"
    "anon_ino w' = anon_ino w" "unmapped w' = unmapped w"
  by (subst block_write_frame [OF assms], simp)+

lemma block_read_fields:
  assumes "vtest_block_read c w = (res, w')"
  shows "fd_tab w' = fd_tab w" "fd_limit w' = fd_limit w" "env w' = env w"
    "listening w' = listening w" "tx w' = tx w" "rx_conns w' = rx_conns w"
    "rx_anc w' = rx_anc w" "wsched w' = wsched w" "alloc_sched w' = alloc_sched w"
    "anon_ino w' = anon_ino w" "unmapped w' = unmapped w"
  by (subst block_read_frame [OF assms], simp)+

lemma block_write_soft_reads: "vtest_block_write p w = (r, w') \<Longrightarrow> soft_reads w' = soft_reads w"
  by (simp add: soft_reads_def block_write_fields)

lemma block_read_soft_writes: "vtest_block_read c w = (r, w') \<Longrightarrow> soft_writes w' = soft_writes w"
  by (simp add: soft_writes_def block_read_fields)

subsection \<open>Receiving a descriptor\<close>

text \<open>
  One \<open>recvmsg\<close> with a one-byte buffer and room for one descriptor: it consumes a byte of the
  stream and the ancillary payload that came with it. When the descriptor table is full the kernel
  drops the payload.
\<close>

definition recvmsg_fd :: "world \<Rightarrow> int \<times> world" where
  "recvmsg_fd w = (case rx w of
      [] \<Rightarrow> (-1, w)
    | _ # bs \<Rightarrow> (case rx_anc w of
          [] \<Rightarrow> (-1, w\<lparr>rx := bs\<rparr>)
        | None # as \<Rightarrow> (-1, w\<lparr>rx := bs, rx_anc := as\<rparr>)
        | Some fi # as \<Rightarrow> install_fd fi (w\<lparr>rx := bs, rx_anc := as\<rparr>)))"

text \<open>\<^verbatim>\<open>vtest_recv_fd\<close>: interrupted calls are repeated.\<close>

function vtest_recv_fd :: "world \<Rightarrow> int \<times> world" where
  "vtest_recv_fd w = (case rsched w of
      RE e # rs \<Rightarrow>
        if e = EINTR then vtest_recv_fd (w\<lparr>rsched := rs\<rparr>) else (-1, w\<lparr>rsched := rs\<rparr>)
    | _ \<Rightarrow> recvmsg_fd (w\<lparr>rsched := tl (rsched w)\<rparr>))"
  by pat_completeness auto
termination
  by (relation "measure (\<lambda>w. length (rsched w))") auto

declare vtest_recv_fd.simps [simp del]

lemma recvmsg_fd_cases:
  assumes "recvmsg_fd w = (fd, w')"
  shows "fd = -1 \<and> fd_tab w' = fd_tab w \<or>
    (\<exists>fi. 0 \<le> fd \<and> fd_tab w fd = None \<and> fd_tab w' = (fd_tab w)(fd \<mapsto> fi)
        \<and> Some fi \<in> set (rx_anc w))"
  using assms
  by (auto simp: recvmsg_fd_def split: list.splits option.splits elim!: install_fd_cases)

lemma recv_fd_unfold:
  "vtest_recv_fd w = (fd, w') \<Longrightarrow>
     (\<exists>rs. fd = -1 \<and> w' = w\<lparr>rsched := rs\<rparr>) \<or> (\<exists>rs. recvmsg_fd (w\<lparr>rsched := rs\<rparr>) = (fd, w'))"
proof (induction w arbitrary: fd w' rule: vtest_recv_fd.induct)
  case (1 w)
  show ?case
  proof (cases "\<exists>rs. rsched w = RE EINTR # rs")
    case True
    then obtain rs where rs: "rsched w = RE EINTR # rs" by blast
    with "1.prems" have "vtest_recv_fd (w\<lparr>rsched := rs\<rparr>) = (fd, w')"
      by (simp add: vtest_recv_fd.simps [of w])
    from "1.IH" [OF rs refl refl this] show ?thesis by simp
  next
    case False
    with "1.prems" show ?thesis
      by (auto simp: vtest_recv_fd.simps [of w] split: list.splits rres.splits if_splits)
  qed
qed

lemma recv_fd_cases:
  assumes "vtest_recv_fd w = (fd, w')"
  shows "fd = -1 \<and> fd_tab w' = fd_tab w \<or>
    (\<exists>fi. 0 \<le> fd \<and> fd_tab w fd = None \<and> fd_tab w' = (fd_tab w)(fd \<mapsto> fi)
        \<and> Some fi \<in> set (rx_anc w))"
  using recv_fd_unfold [OF assms]
proof (elim disjE exE)
  fix rs
  assume "recvmsg_fd (w\<lparr>rsched := rs\<rparr>) = (fd, w')"
  from recvmsg_fd_cases [OF this] show ?thesis by simp
qed simp

lemma recvmsg_fd_frame:
  "recvmsg_fd w = (fd, w') \<Longrightarrow> tx w' = tx w \<and> wsched w' = wsched w \<and> unmapped w' = unmapped w
     \<and> alloc_sched w' = alloc_sched w"
  by (auto simp: recvmsg_fd_def split: list.splits option.splits elim!: install_fd_cases)

lemma recv_fd_frame:
  assumes "vtest_recv_fd w = (fd, w')"
  shows "tx w' = tx w \<and> wsched w' = wsched w \<and> unmapped w' = unmapped w
     \<and> alloc_sched w' = alloc_sched w"
  using recv_fd_unfold [OF assms] by (auto dest!: recvmsg_fd_frame)

subsection \<open>Connection and handshake\<close>

record conn =
  vtest_sock :: int
  vtest_protocol_version :: int

definition vtest_path :: "world \<Rightarrow> string" where
  "vtest_path w = (case env w ''VTEST_SOCK'' of
      Some (c # cs) \<Rightarrow> c # cs
    | _ \<Rightarrow> ''/tmp/.virgl_test'')"

text \<open>A new stream connection: nothing sent yet, and the server's next stream to read.\<close>

definition sys_connect :: "world \<Rightarrow> world" where
  "sys_connect w = (case rx_conns w of
      [] \<Rightarrow> w\<lparr>tx := [], rx := []\<rparr>
    | r # rs \<Rightarrow> w\<lparr>tx := [], rx := r, rx_conns := rs\<rparr>)"

definition vtest_connect :: "world \<Rightarrow> int \<times> world" where
  "vtest_connect w =
     (let path = vtest_path w;
          (sock, w1) = install_fd \<lparr>fi_dev = 0, fi_ino = 0, fi_link = ''socket:'', fi_size = -1\<rparr> w
      in if sock < 0 then (-1, w1)
         else if length path \<ge> 108 then (-1, sys_close sock w1)
         else if \<not> listening w1 path then (-1, sys_close sock w1)
         else (sock, sys_connect w1))"

definition VCMD_GET_CAPS :: u32 where "VCMD_GET_CAPS = 1"
definition VCMD_RESOURCE_UNREF :: u32 where "VCMD_RESOURCE_UNREF = 3"
definition VCMD_SUBMIT_CMD :: u32 where "VCMD_SUBMIT_CMD = 6"
definition VCMD_RESOURCE_BUSY_WAIT :: u32 where "VCMD_RESOURCE_BUSY_WAIT = 7"
definition VCMD_CREATE_RENDERER :: u32 where "VCMD_CREATE_RENDERER = 8"
definition VCMD_GET_CAPS2 :: u32 where "VCMD_GET_CAPS2 = 9"
definition VCMD_PING_PROTOCOL_VERSION :: u32 where "VCMD_PING_PROTOCOL_VERSION = 10"
definition VCMD_PROTOCOL_VERSION :: u32 where "VCMD_PROTOCOL_VERSION = 11"
definition VCMD_RESOURCE_CREATE2 :: u32 where "VCMD_RESOURCE_CREATE2 = 12"
definition VCMD_TRANSFER_GET2 :: u32 where "VCMD_TRANSFER_GET2 = 13"
definition VCMD_TRANSFER_PUT2 :: u32 where "VCMD_TRANSFER_PUT2 = 14"
definition VCMD_BUSY_WAIT_FLAG_WAIT :: u32 where "VCMD_BUSY_WAIT_FLAG_WAIT = 1"

lemmas VCMD_defs = VCMD_GET_CAPS_def VCMD_RESOURCE_UNREF_def VCMD_SUBMIT_CMD_def
  VCMD_RESOURCE_BUSY_WAIT_def VCMD_CREATE_RENDERER_def VCMD_GET_CAPS2_def
  VCMD_PING_PROTOCOL_VERSION_def VCMD_PROTOCOL_VERSION_def VCMD_RESOURCE_CREATE2_def
  VCMD_TRANSFER_GET2_def VCMD_TRANSFER_PUT2_def VCMD_BUSY_WAIT_FLAG_WAIT_def

text \<open>
  \<^verbatim>\<open>vtest_handshake\<close>: five writes and three reads, any failure of which is \<^verbatim>\<open>-1\<close>; the header
  of a reply is read but not examined. The result is the negotiated version, cast to \<^verbatim>\<open>int\<close>.
\<close>

definition vtest_handshake :: "world \<Rightarrow> int \<times> world" where
  "vtest_handshake w0 =
    (let name = to_bytes ''drm-shim'';
         name_len = of_nat (length name);
         (r1, w1) = vtest_block_write (dwords [name_len, VCMD_CREATE_RENDERER]) w0
     in if r1 < 0 then (-1, w1) else
     let (r2, w2) = vtest_block_write name w1
     in if r2 < 0 then (-1, w2) else
     let (r3, w3) = vtest_block_write (dwords [0, VCMD_PING_PROTOCOL_VERSION]) w2
     in if r3 < 0 then (-1, w3) else
     (case vtest_block_read 8 w3 of (None, w4) \<Rightarrow> (-1, w4) | (Some _, w4) \<Rightarrow>
     let (r5, w5) = vtest_block_write (dwords [1, VCMD_PROTOCOL_VERSION]) w4
     in if r5 < 0 then (-1, w5) else
     let (r6, w6) = vtest_block_write (dwords [3]) w5
     in if r6 < 0 then (-1, w6) else
     (case vtest_block_read 8 w6 of (None, w7) \<Rightarrow> (-1, w7) | (Some _, w7) \<Rightarrow>
     (case vtest_block_read 4 w7 of (None, w8) \<Rightarrow> (-1, w8) | (Some v, w8) \<Rightarrow>
       (sint (un_le32 v), w8)))))"

text \<open>\<^verbatim>\<open>vtest_ensure_connected\<close>: connect on first use.\<close>

definition vtest_ensure_connected :: "conn \<Rightarrow> world \<Rightarrow> int \<times> conn \<times> world" where
  "vtest_ensure_connected c w =
    (if vtest_sock c \<ge> 0 then (0, c, w)
     else let (sock, w1) = vtest_connect w
     in if sock < 0 then (-1, c, w1)
     else let (ver, w2) = vtest_handshake w1
     in if ver < 0 then (-1, c, sys_close sock w2)
     else (0, c\<lparr>vtest_sock := sock, vtest_protocol_version := ver\<rparr>, w2))"

subsection \<open>What the handshake says and hears\<close>

lemma soft_write_exact:
  assumes "soft_writes w"
  obtains w' where "vtest_block_write p w = (0, w')" "tx w' = tx w @ p" "rx w' = rx w"
    "soft_writes w'" "soft_reads w' = soft_reads w" "fd_tab w' = fd_tab w" "rx_anc w' = rx_anc w"
proof -
  obtain r w' where w: "vtest_block_write p w = (r, w')" by fastforce
  from block_write_soft [OF w assms] w have r: "vtest_block_write p w = (0, w')" "soft_writes w'"
    by simp_all
  show thesis
    by (rule that [OF r(1) vt_sink.send_ok [OF r(1)] _ r(2) block_write_soft_reads [OF w]])
      (use block_write_fields [OF w] in simp_all)
qed

lemma soft_read_exact:
  assumes "soft_reads w" "rx w = bs @ rest" "length bs = n"
  obtains w' where "vtest_block_read n w = (Some bs, w')" "rx w' = rest" "tx w' = tx w"
    "soft_reads w'" "soft_writes w' = soft_writes w" "fd_tab w' = fd_tab w" "rx_anc w' = rx_anc w"
proof -
  from vt_source.recv_exact [OF assms] obtain w' where
    r: "vtest_block_read n w = (Some bs, w')" "soft_reads w'" "rx w' = rest" by blast
  show thesis
    by (rule that [OF r(1,3) _ r(2) block_read_soft_writes [OF r(1)]])
      (use block_read_fields [OF r(1)] in simp_all)
qed

definition handshake_request :: bytes where
  "handshake_request = dwords [8, VCMD_CREATE_RENDERER] @ to_bytes ''drm-shim''
     @ dwords [0, VCMD_PING_PROTOCOL_VERSION] @ dwords [1, VCMD_PROTOCOL_VERSION, 3]"

lemma handshake_soft:
  assumes "soft_writes w" "soft_reads w"
    and rx: "rx w = ping @ hdr @ le32 v @ rest" "length ping = 8" "length hdr = 8"
  obtains w' where "vtest_handshake w = (sint v, w')" "tx w' = tx w @ handshake_request"
    "rx w' = rest" "soft_writes w'" "soft_reads w'" "fd_tab w' = fd_tab w" "rx_anc w' = rx_anc w"
proof -
  let ?name = "to_bytes ''drm-shim''"
  obtain w1 where w1: "vtest_block_write (dwords [8, VCMD_CREATE_RENDERER]) w = (0, w1)"
    "tx w1 = tx w @ dwords [8, VCMD_CREATE_RENDERER]" "rx w1 = rx w"
    "soft_writes w1" "soft_reads w1 = soft_reads w" "fd_tab w1 = fd_tab w" "rx_anc w1 = rx_anc w"
    by (rule soft_write_exact [OF assms(1)])
  obtain w2 where w2: "vtest_block_write ?name w1 = (0, w2)" "tx w2 = tx w1 @ ?name" "rx w2 = rx w1"
    "soft_writes w2" "soft_reads w2 = soft_reads w1" "fd_tab w2 = fd_tab w1" "rx_anc w2 = rx_anc w1"
    by (rule soft_write_exact [OF w1(4)])
  obtain w3 where w3: "vtest_block_write (dwords [0, VCMD_PING_PROTOCOL_VERSION]) w2 = (0, w3)"
    "tx w3 = tx w2 @ dwords [0, VCMD_PING_PROTOCOL_VERSION]" "rx w3 = rx w2"
    "soft_writes w3" "soft_reads w3 = soft_reads w2" "fd_tab w3 = fd_tab w2" "rx_anc w3 = rx_anc w2"
    by (rule soft_write_exact [OF w2(4)])
  have "soft_reads w3" "rx w3 = ping @ hdr @ le32 v @ rest"
    using w1 w2 w3 assms by simp_all
  from soft_read_exact [OF this rx(2)] obtain w4 where
    w4: "vtest_block_read 8 w3 = (Some ping, w4)" "rx w4 = hdr @ le32 v @ rest" "tx w4 = tx w3"
      "soft_reads w4" "soft_writes w4 = soft_writes w3" "fd_tab w4 = fd_tab w3" "rx_anc w4 = rx_anc w3"
    by blast
  have "soft_writes w4" using w4 w3 by simp
  from soft_write_exact [OF this] obtain w5 where
    w5: "vtest_block_write (dwords [1, VCMD_PROTOCOL_VERSION]) w4 = (0, w5)"
      "tx w5 = tx w4 @ dwords [1, VCMD_PROTOCOL_VERSION]" "rx w5 = rx w4" "soft_writes w5"
      "soft_reads w5 = soft_reads w4" "fd_tab w5 = fd_tab w4" "rx_anc w5 = rx_anc w4" by blast
  from soft_write_exact [OF w5(4)] obtain w6 where
    w6: "vtest_block_write (dwords [3]) w5 = (0, w6)" "tx w6 = tx w5 @ dwords [3]" "rx w6 = rx w5"
      "soft_writes w6" "soft_reads w6 = soft_reads w5" "fd_tab w6 = fd_tab w5" "rx_anc w6 = rx_anc w5"
    by blast
  have "soft_reads w6" "rx w6 = hdr @ le32 v @ rest" using w4 w5 w6 by simp_all
  from soft_read_exact [OF this rx(3)] obtain w7 where
    w7: "vtest_block_read 8 w6 = (Some hdr, w7)" "rx w7 = le32 v @ rest" "tx w7 = tx w6"
      "soft_reads w7" "soft_writes w7 = soft_writes w6" "fd_tab w7 = fd_tab w6" "rx_anc w7 = rx_anc w6"
    by blast
  from soft_read_exact [OF w7(4,2) length_le32] obtain w8 where
    w8: "vtest_block_read 4 w7 = (Some (le32 v), w8)" "rx w8 = rest" "tx w8 = tx w7"
      "soft_reads w8" "soft_writes w8 = soft_writes w7" "fd_tab w8 = fd_tab w7" "rx_anc w8 = rx_anc w7"
    by blast
  note steps = w1 w2 w3 w4 w5 w6 w7 w8
  have "vtest_handshake w = (sint v, w8)"
    unfolding vtest_handshake_def Let_def by (simp add: steps(1,8,15,22,29,36,43,50) del: dwords_Cons)
  moreover have "tx w8 = tx w @ handshake_request"
    by (simp add: steps handshake_request_def)
  ultimately show thesis
    by (rule that) (use steps in simp_all)
qed

lemma handshake_fd_tab: "vtest_handshake w = (v, w') \<Longrightarrow> fd_tab w' = fd_tab w"
  unfolding vtest_handshake_def Let_def
  by (auto split: prod.splits if_splits option.splits
      dest!: block_write_fields(1) block_read_fields(1))

lemma vtest_connect_cases:
  assumes "vtest_connect w = (sock, w')"
  shows "sock = -1 \<and> fd_tab w' = fd_tab w \<or>
    (\<exists>fi. 0 \<le> sock \<and> fd_tab w sock = None \<and> fd_tab w' = (fd_tab w)(sock \<mapsto> fi))"
proof -
  obtain s w1 where i:
    "install_fd \<lparr>fi_dev = 0, fi_ino = 0, fi_link = ''socket:'', fi_size = -1\<rparr> w = (s, w1)"
    by fastforce
  then show ?thesis
  proof (cases rule: install_fd_cases)
    case full
    with assms i show ?thesis by (simp add: vtest_connect_def)
  next
    case ok
    then have "(fd_tab w)(s := None) = fd_tab w" by auto
    with assms i ok show ?thesis
      by (auto simp: vtest_connect_def Let_def sys_close_def sys_connect_def
          split: if_splits list.splits)
  qed
qed

lemma ensure_connected_cases:
  assumes "vtest_ensure_connected c w = (r, c', w')"
  shows "0 \<le> vtest_sock c \<and> r = 0 \<and> c' = c \<and> w' = w
    \<or> vtest_sock c < 0 \<and> r = -1 \<and> c' = c \<and> fd_tab w' = fd_tab w
    \<or> vtest_sock c < 0 \<and> r = 0 \<and> 0 \<le> vtest_sock c' \<and> 0 \<le> vtest_protocol_version c'
       \<and> fd_tab w (vtest_sock c') = None
       \<and> (\<exists>fi. fd_tab w' = (fd_tab w)(vtest_sock c' \<mapsto> fi))"
proof (cases "vtest_sock c < 0")
  case True
  obtain sock w1 where k: "vtest_connect w = (sock, w1)" by fastforce
  obtain ver w2 where h: "vtest_handshake w1 = (ver, w2)" by fastforce
  from handshake_fd_tab [OF h] have w2: "fd_tab w2 = fd_tab w1" .
  from vtest_connect_cases [OF k] consider "sock = -1" "fd_tab w1 = fd_tab w"
    | fi where "0 \<le> sock" "fd_tab w sock = None" "fd_tab w1 = (fd_tab w)(sock \<mapsto> fi)"
    by blast
  then show ?thesis
  proof cases
    case 1
    with True k assms show ?thesis by (simp add: vtest_ensure_connected_def)
  next
    case 2
    then have "(fd_tab w)(sock := None) = fd_tab w" by auto
    with 2 True k h w2 assms show ?thesis
      by (auto simp: vtest_ensure_connected_def sys_close_def split: if_splits)
  qed
qed (use assms in \<open>simp add: vtest_ensure_connected_def\<close>)

subsection \<open>Properties\<close>

text \<open>
  However \<^verbatim>\<open>write\<close> is cut short or interrupted, \<^verbatim>\<open>vtest_block_write\<close> hands the kernel a
  prefix of the buffer, each byte once and in order; it returns 0 exactly when that is the whole
  buffer or -1 after a hard error, and it never returns -1 when the only errors are \<open>EINTR\<close>.
\<close>

theorem block_write_delivers:
  assumes "vtest_block_write p w = (r, w')"
  shows "(\<exists>n \<le> length p. tx w' = tx w @ take n p \<and> (r = 0 \<longrightarrow> n = length p))
    \<and> (r = 0 \<or> r = -1) \<and> (soft_writes w \<longrightarrow> r = 0)"
  using block_write_prefix [OF assms] block_write_range [OF assms] block_write_soft [OF assms]
  by blast

theorem block_write_delivers_witness:
  "\<exists>r w'. vtest_block_write [1, 2, 3] (world0\<lparr>wsched := [WN 1, WE EINTR, WN 0]\<rparr>) = (r, w')
     \<and> r = 0 \<and> tx w' = [1, 2, 3]"
proof -
  let ?w = "world0\<lparr>wsched := [WN 1, WE EINTR, WN 0]\<rparr>"
  obtain r w' where e: "vtest_block_write [1, 2, 3] ?w = (r, w')" by fastforce
  have "soft_writes ?w" by (simp add: soft_writes_def)
  moreover have "tx ?w = []" by (simp add: world0_def)
  ultimately have "r = 0 \<and> tx w' = [1, 2, 3]"
    using block_write_delivers [OF e] by auto
  with e show ?thesis by blast
qed

text \<open>
  C9: Against a server that answers with two 8-byte headers and a version dword, the handshake
  sends exactly \<open>CREATE_RENDERER\<close> with the byte-counted name, the ping and the request for version
  3, in this order, returns the server's version as a signed integer and leaves the rest of the
  stream unread, however the transfers are interrupted.
\<close>

theorem handshake_protocol:
  assumes "soft_writes w" "soft_reads w"
    and "rx w = ping @ hdr @ le32 v @ rest" "length ping = 8" "length hdr = 8"
  shows "\<exists>w'. vtest_handshake w = (sint v, w') \<and> rx w' = rest \<and> tx w' = tx w
     @ dwords [8, VCMD_CREATE_RENDERER] @ to_bytes ''drm-shim''
     @ dwords [0, VCMD_PING_PROTOCOL_VERSION] @ dwords [1, VCMD_PROTOCOL_VERSION, 3]"
  by (rule handshake_soft [OF assms]) (auto simp: handshake_request_def)

theorem handshake_protocol_witness:
  "\<exists>w'. vtest_handshake (world0\<lparr>rx := replicate 8 0 @ replicate 8 1 @ le32 3 @ [7],
       rsched := [RN 2, RE EINTR]\<rparr>) = (3, w') \<and> rx w' = [7]"
proof -
  let ?w = "world0\<lparr>rx := replicate 8 0 @ replicate 8 1 @ le32 3 @ [7], rsched := [RN 2, RE EINTR]\<rparr>"
  have "soft_writes ?w" "soft_reads ?w"
    by (simp_all add: soft_writes_def soft_reads_def world0_def)
  then have "\<exists>w'. vtest_handshake ?w = (sint (3 :: u32), w') \<and> rx w' = [7] \<and> tx w' = tx ?w
     @ dwords [8, VCMD_CREATE_RENDERER] @ to_bytes ''drm-shim''
     @ dwords [0, VCMD_PING_PROTOCOL_VERSION] @ dwords [1, VCMD_PROTOCOL_VERSION, 3]"
    by (rule handshake_protocol [where ping = "replicate 8 0" and hdr = "replicate 8 1"])
      (simp, simp_all only: length_replicate)
  then show ?thesis by auto
qed

text \<open>
  \<^verbatim>\<open>vtest_ensure_connected\<close> is idempotent once connected; a first call either records a
  non-negative socket and version and leaves exactly that one new descriptor open, or fails, records
  nothing and leaves the descriptor table as it was: no failure leaks the socket.
\<close>

theorem ensure_connected_no_leak:
  assumes "vtest_ensure_connected c w = (r, c', w')"
  shows "0 \<le> vtest_sock c \<and> r = 0 \<and> c' = c \<and> w' = w
    \<or> vtest_sock c < 0 \<and> r = -1 \<and> c' = c \<and> fd_tab w' = fd_tab w
    \<or> vtest_sock c < 0 \<and> r = 0 \<and> 0 \<le> vtest_sock c' \<and> 0 \<le> vtest_protocol_version c'
       \<and> fd_tab w (vtest_sock c') = None
       \<and> (\<exists>fi. fd_tab w' = (fd_tab w)(vtest_sock c' \<mapsto> fi))"
  by (rule ensure_connected_cases [OF assms])

definition conn0 :: conn where
  "conn0 = \<lparr>vtest_sock = -1, vtest_protocol_version = 0\<rparr>"

theorem ensure_connected_no_leak_witness:
  "\<exists>c' w'. vtest_ensure_connected conn0 world0 = (-1, c', w') \<and> c' = conn0 \<and> fd_tab w' = fd_tab world0"
proof -
  obtain r c' w' where e: "vtest_ensure_connected conn0 world0 = (r, c', w')"
    by (cases "vtest_ensure_connected conn0 world0")
  have sock: "vtest_connect world0 = (1, world0\<lparr>fd_tab := (fd_tab world0)
      (1 \<mapsto> \<lparr>fi_dev = 0, fi_ino = 0, fi_link = ''socket:'', fi_size = -1\<rparr>)\<rparr>)"
    by (simp add: vtest_connect_def install_fd_def free_fd_def world0_def vtest_path_def
        sys_connect_def upt_rec)
  have "fst (vtest_handshake (snd (vtest_connect world0))) = -1"
    unfolding sock
    by (simp add: vtest_handshake_def world0_def vtest_block_write.simps vtest_block_read.simps
        sys_write_def sys_read_def Let_def split: prod.splits)
  then have "r = -1"
    using e sock by (auto simp: vtest_ensure_connected_def conn0_def split: prod.splits if_splits)
  with ensure_connected_no_leak [OF e] e show ?thesis by (auto simp: conn0_def)
qed

end
