(* ===== verification/KeyedCache.thy ===== *)
theory KeyedCache
  imports Prelude
begin

text \<open>
  The contract of a fixed-size keyed cache, shared by the inode cache of \<^verbatim>\<open>drm_shim.c\<close> and the
  buffer registry of \<^verbatim>\<open>ahb_registry.c\<close>: storing binds one key, may evict another one, and
  changes nothing else. The lemmas are proved once for every provider.
\<close>

locale keyed_cache =
  fixes get :: "'c \<Rightarrow> 'k \<Rightarrow> 'v option"
    and put :: "'k \<Rightarrow> 'v \<Rightarrow> 'c \<Rightarrow> 'c"
    and victim :: "'c \<Rightarrow> 'k \<Rightarrow> 'k option"
    and inv :: "'c \<Rightarrow> bool"
  assumes put_get: "inv c \<Longrightarrow> get (put k v c) =
      (case victim c k of None \<Rightarrow> (get c)(k := Some v) | Some j \<Rightarrow> (get c)(j := None, k := Some v))"
    and victim_bound: "\<lbrakk>inv c; victim c k = Some j\<rbrakk> \<Longrightarrow> j \<noteq> k \<and> get c j \<noteq> None \<and> get c k = None"
    and inv_put: "inv c \<Longrightarrow> inv (put k v c)"
begin

lemma put_same: "inv c \<Longrightarrow> get (put k v c) k = Some v"
  by (simp add: put_get split: option.split)

lemma put_other: "\<lbrakk>inv c; j \<noteq> k; victim c k \<noteq> Some j\<rbrakk> \<Longrightarrow> get (put k v c) j = get c j"
  by (auto simp: put_get split: option.split)

lemma put_never_invents: "\<lbrakk>inv c; j \<noteq> k; get (put k v c) j = Some u\<rbrakk> \<Longrightarrow> get c j = Some u"
  by (auto simp: put_get split: option.splits if_splits)

text \<open>The bound keys grow by one, or one of them makes room.\<close>

lemma put_card:
  assumes "inv c" "finite (dom (get c))"
  shows "card (dom (get (put k v c))) = (if get c k = None \<and> victim c k = None
      then Suc (card (dom (get c))) else card (dom (get c)))"
proof (cases "victim c k")
  case None
  with assms show ?thesis by (auto simp: put_get card_insert_if domIff)
next
  case (Some j)
  with victim_bound [OF assms(1) Some] have "k \<notin> dom (get c)" "j \<in> dom (get c)" "j \<noteq> k"
    by auto
  moreover have "dom (get (put k v c)) = insert k (dom (get c) - {j})"
    using assms(1) Some by (auto simp: put_get)
  ultimately show ?thesis
    using assms(2) Some by (simp add: card_insert_if card_Suc_Diff1 del: card_Diff_insert)
qed

text \<open>Storing a list of bindings never produces a value that was not stored or present.\<close>

lemma put_all_sources:
  "inv c \<Longrightarrow> get (foldl (\<lambda>c (k, v). put k v c) c kvs) k = Some v \<Longrightarrow>
     get c k = Some v \<or> (k, v) \<in> set kvs"
proof (induction kvs arbitrary: c)
  case (Cons kv kvs)
  obtain j u where kv: "kv = (j, u)" by (cases kv)
  with Cons.prems have "get (put j u c) k = Some v \<or> (k, v) \<in> set kvs"
    by (intro Cons.IH) (simp_all add: inv_put)
  then show ?case
    using put_never_invents [OF Cons.prems(1), of k j u v] put_same [OF Cons.prems(1), of j u] kv
    by (cases "k = j") auto
qed simp

end

end
