(* ===== verification/BoTable.thy ===== *)
theory BoTable
  imports World
begin

text \<open>
  The buffer-object table of \<^verbatim>\<open>drm_shim.c\<close>: an array indexed by handle, grown by doubling, with
  handle 0 meaning a free slot. \<open>bo_table\<close> is the array (its length is \<^verbatim>\<open>bo_table_capacity\<close>) and
  \<open>bo_handle_next\<close> the counter of the same name. The contract the ioctl handlers rely on is the
  locale \<open>handle_table\<close>; it is interpreted on the code's table, read as a map from handles.
\<close>

subsection \<open>Interface\<close>

locale handle_table =
  fixes alloc :: "'t \<Rightarrow> ('k \<times> 't) option"
    and lookup :: "'t \<Rightarrow> 'k \<Rightarrow> 'v option"
    and update :: "'k \<Rightarrow> 'v \<Rightarrow> 't \<Rightarrow> 't"
    and free :: "'k \<Rightarrow> 't \<Rightarrow> 't"
    and blank :: "'k \<Rightarrow> 'v"
    and tag :: "'v \<Rightarrow> 'k"
    and inv :: "'t \<Rightarrow> bool"
  assumes alloc_fresh: "\<lbrakk>inv t; alloc t = Some (k, t')\<rbrakk> \<Longrightarrow> lookup t k = None"
    and alloc_lookup: "\<lbrakk>inv t; alloc t = Some (k, t')\<rbrakk> \<Longrightarrow> lookup t' = (lookup t)(k := Some (blank k))"
    and update_lookup: "\<lbrakk>inv t; lookup t k \<noteq> None; tag v = k\<rbrakk> \<Longrightarrow>
        lookup (update k v t) = (lookup t)(k := Some v)"
    and free_lookup: "inv t \<Longrightarrow> lookup (free k t) = (lookup t)(k := None)"
    and lookup_tag: "\<lbrakk>inv t; lookup t k = Some v\<rbrakk> \<Longrightarrow> tag v = k"
    and inv_alloc: "\<lbrakk>inv t; alloc t = Some (k, t')\<rbrakk> \<Longrightarrow> inv t'"
    and inv_update: "\<lbrakk>inv t; lookup t k \<noteq> None; tag v = k\<rbrakk> \<Longrightarrow> inv (update k v t)"
    and inv_free: "inv t \<Longrightarrow> inv (free k t)"
begin

text \<open>What a client may conclude about a table it allocates from, fills in and frees.\<close>

lemma alloc_update_lookup:
  assumes "inv t" "alloc t = Some (k, t')" "tag v = k"
  shows "lookup (update k v t') = (lookup t)(k := Some v)"
proof -
  note a = alloc_lookup [OF assms(1,2)]
  have "lookup t' k \<noteq> None" by (simp add: a)
  from update_lookup [OF inv_alloc [OF assms(1,2)] this assms(3)] show ?thesis
    by (simp add: a fun_upd_upd)
qed

lemma alloc_free_lookup:
  assumes "inv t" "alloc t = Some (k, t')"
  shows "lookup (free k t') = lookup t"
proof -
  have "lookup (free k t') = (lookup t)(k := None)"
    using free_lookup [OF inv_alloc [OF assms]] alloc_lookup [OF assms] by simp
  also have "\<dots> = lookup t"
    using alloc_fresh [OF assms] by (rule fun_upd_idem)
  finally show ?thesis .
qed

lemma free_others: "inv t \<Longrightarrow> j \<noteq> k \<Longrightarrow> lookup (free k t) j = lookup t j"
  by (simp add: free_lookup)

lemma tags_distinct:
  "\<lbrakk>inv t; lookup t j = Some v; lookup t k = Some v\<rbrakk> \<Longrightarrow> j = k"
  using lookup_tag by metis

end

subsection \<open>The table\<close>

text \<open>\<^verbatim>\<open>struct drm_shim_bo\<close>; \<open>mmap_ptr\<close> is an address, \<open>None\<close> for \<^verbatim>\<open>NULL\<close>.\<close>

record drm_shim_bo =
  bo_handle :: u32
  bo_res_handle :: u32
  bo_shm_fd :: int
  bo_size :: u32
  bo_stride :: u32
  bo_width :: u32
  bo_height :: u32
  bo_mmap_offset :: u64
  bo_mmap_ptr :: "nat option"
  bo_mapped :: bool
  bo_is_ahb :: bool

text \<open>The slot after \<^verbatim>\<open>memset(bo, 0, sizeof(*bo))\<close>, and after \<^verbatim>\<open>bo_alloc\<close>'s assignments.\<close>

definition zero_bo :: drm_shim_bo where
  "zero_bo = \<lparr>bo_handle = 0, bo_res_handle = 0, bo_shm_fd = 0, bo_size = 0, bo_stride = 0,
     bo_width = 0, bo_height = 0, bo_mmap_offset = 0, bo_mmap_ptr = None, bo_mapped = False,
     bo_is_ahb = False\<rparr>"

definition new_bo :: "u32 \<Rightarrow> drm_shim_bo" where
  "new_bo h = zero_bo\<lparr>bo_handle := h, bo_shm_fd := -1\<rparr>"

record bo_state =
  bo_table :: "drm_shim_bo list"
  bo_handle_next :: u32

definition bo_state0 :: bo_state where
  "bo_state0 = \<lparr>bo_table = [], bo_handle_next = 1\<rparr>"

text \<open>
  The growth loop \<^verbatim>\<open>while (new_cap <= h) new_cap *= 2\<close> in \<^verbatim>\<open>uint32_t\<close> arithmetic: \<open>None\<close> is not
  returning, which happens once the doubling wraps to 0.
\<close>

partial_function (option) grow_cap :: "u32 \<Rightarrow> u32 \<Rightarrow> u32 option" where
  "grow_cap new_cap h = (if new_cap \<le> h then grow_cap (new_cap * 2) h else Some new_cap)"

definition MAX_BO_TABLE_INITIAL :: u32 where "MAX_BO_TABLE_INITIAL = 1024"

text \<open>
  \<^verbatim>\<open>bo_alloc\<close>: the outer \<open>None\<close> is the growth loop not returning, the inner \<open>None\<close> the result
  \<^verbatim>\<open>NULL\<close> when \<^verbatim>\<open>realloc\<close> fails; the counter has moved on in either case.
\<close>

definition bo_alloc :: "bool \<Rightarrow> bo_state \<Rightarrow> (u32 option \<times> bo_state) option" where
  "bo_alloc realloc_ok s =
    (let h = bo_handle_next s;
         s1 = s\<lparr>bo_handle_next := h + 1\<rparr>;
         cap = of_nat (length (bo_table s)) :: u32
     in if cap \<le> h
        then (case grow_cap (if cap \<noteq> 0 then cap * 2 else MAX_BO_TABLE_INITIAL) h of
            None \<Rightarrow> None
          | Some new_cap \<Rightarrow>
              if realloc_ok
              then Some (Some h, s1\<lparr>bo_table :=
                     (bo_table s @ replicate (unat new_cap - length (bo_table s)) zero_bo)
                       [unat h := new_bo h]\<rparr>)
              else Some (None, s1))
        else Some (Some h, s1\<lparr>bo_table := (bo_table s)[unat h := new_bo h]\<rparr>))"

definition bo_lookup :: "bo_state \<Rightarrow> u32 \<Rightarrow> drm_shim_bo option" where
  "bo_lookup s h =
    (if h = 0 \<or> length (bo_table s) \<le> unat h then None
     else let bo = bo_table s ! unat h in if bo_handle bo = 0 then None else Some bo)"

text \<open>The linear scan of \<^verbatim>\<open>bo_lookup_by_offset\<close>, from slot 1 on.\<close>

definition bo_lookup_by_offset :: "bo_state \<Rightarrow> u64 \<Rightarrow> drm_shim_bo option" where
  "bo_lookup_by_offset s off =
    find (\<lambda>bo. bo_handle bo \<noteq> 0 \<and> bo_mapped bo \<and> bo_mmap_offset bo = off) (drop 1 (bo_table s))"

text \<open>Writing through the pointer a lookup returned, and clearing the slot.\<close>

definition bo_update :: "u32 \<Rightarrow> drm_shim_bo \<Rightarrow> bo_state \<Rightarrow> bo_state" where
  "bo_update h bo s = s\<lparr>bo_table := (bo_table s)[unat h := bo]\<rparr>"

definition bo_free :: "u32 \<Rightarrow> bo_state \<Rightarrow> bo_state" where
  "bo_free h s = (case bo_lookup s h of None \<Rightarrow> s | Some _ \<Rightarrow> bo_update h zero_bo s)"

subsection \<open>Invariant\<close>

text \<open>
  Every used slot holds its own index and lies below the counter; the capacity is 0 or a power of
  two times the initial one, within \<open>2^31\<close>. The last clause says the counter has not wrapped.
\<close>

definition slots_ok :: "drm_shim_bo list \<Rightarrow> u32 \<Rightarrow> bool" where
  "slots_ok tab n \<longleftrightarrow> (\<forall>i < length tab. bo_handle (tab ! i) \<noteq> 0 \<longrightarrow>
     unat (bo_handle (tab ! i)) = i \<and> i < unat n)"

lemma slots_ok_update:
  "\<lbrakk>slots_ok tab n; bo_handle v = 0 \<or> unat (bo_handle v) = i \<and> i < unat n\<rbrakk>
     \<Longrightarrow> slots_ok (tab[i := v]) n"
  unfolding slots_ok_def by (intro allI) (case_tac "ia = i"; auto)

lemma slots_okD:
  "\<lbrakk>slots_ok tab n; i < length tab; bo_handle (tab ! i) \<noteq> 0\<rbrakk>
     \<Longrightarrow> unat (bo_handle (tab ! i)) = i \<and> i < unat n"
  by (simp add: slots_ok_def)

definition bo_inv :: "bo_state \<Rightarrow> bool" where
  "bo_inv s \<longleftrightarrow> slots_ok (bo_table s) (bo_handle_next s)
     \<and> (bo_table s = [] \<or> (\<exists>k \<le> 21. length (bo_table s) = 1024 * 2 ^ k))
     \<and> bo_handle_next s \<noteq> 0"

lemma bo_inv_init: "bo_inv bo_state0"
  by (simp add: bo_inv_def slots_ok_def bo_state0_def)

lemma bo_lookup_Some_iff:
  "bo_lookup s h = Some bo \<longleftrightarrow>
     h \<noteq> 0 \<and> unat h < length (bo_table s) \<and> bo = bo_table s ! unat h \<and> bo_handle bo \<noteq> 0"
  by (auto simp: bo_lookup_def Let_def)

lemma bo_lookup_None_iff:
  "bo_lookup s h = None \<longleftrightarrow>
     h = 0 \<or> length (bo_table s) \<le> unat h \<or> bo_handle (bo_table s ! unat h) = 0"
  by (auto simp: bo_lookup_def Let_def)

lemma bo_lookup_slot:
  assumes "bo_inv s" "bo_lookup s h = Some bo"
  shows "bo_handle bo = h \<and> unat h < unat (bo_handle_next s)"
  using assms slots_okD [of "bo_table s" "bo_handle_next s" "unat h"]
  by (auto simp: bo_inv_def bo_lookup_Some_iff)

lemma bo_update_lookup:
  assumes "bo_lookup s h \<noteq> None" "bo_handle v = h"
  shows "bo_lookup (bo_update h v s) = (bo_lookup s)(h := Some v)"
proof
  fix j
  show "bo_lookup (bo_update h v s) j = ((bo_lookup s)(h := Some v)) j"
    using assms
    by (cases "j = h") (auto simp: bo_lookup_def bo_update_def nth_list_update Let_def)
qed

lemma bo_free_lookup: "bo_lookup (bo_free h s) = (bo_lookup s)(h := None)"
proof
  fix j
  show "bo_lookup (bo_free h s) j = ((bo_lookup s)(h := None)) j"
    by (cases "j = h") (auto simp: bo_free_def bo_lookup_def bo_update_def zero_bo_def
        nth_list_update Let_def split: option.splits)
qed

lemma bo_update_next [simp]: "bo_handle_next (bo_update h v s) = bo_handle_next s"
  and bo_update_length [simp]: "length (bo_table (bo_update h v s)) = length (bo_table s)"
  by (simp_all add: bo_update_def)

lemma bo_inv_update:
  assumes "bo_inv s" "bo_lookup s h \<noteq> None" "bo_handle v = h"
  shows "bo_inv (bo_update h v s)"
proof -
  from assms(2) obtain bo where "bo_lookup s h = Some bo" by blast
  from bo_lookup_slot [OF assms(1) this] assms(3) have "unat (bo_handle v) = unat h"
    "unat h < unat (bo_handle_next s)" by auto
  with assms(1) show ?thesis
    unfolding bo_inv_def bo_update_def by (auto intro: slots_ok_update)
qed

lemma bo_inv_free: "bo_inv s \<Longrightarrow> bo_inv (bo_free h s)"
  by (auto simp: bo_free_def bo_inv_def bo_update_def zero_bo_def intro!: slots_ok_update
      split: option.splits)

subsection \<open>Growth\<close>

lemma grow_cap_zero: "grow_cap 0 h = None"
proof (rule ccontr)
  assume "grow_cap 0 h \<noteq> None"
  then obtain r where "grow_cap 0 h = Some r" by blast
  have "(0 :: u32) \<noteq> 0"
  proof (rule grow_cap.raw_induct [where P = "\<lambda>c h r. c \<noteq> 0", OF _ \<open>grow_cap 0 h = Some r\<close>])
    fix f :: "u32 \<Rightarrow> u32 \<Rightarrow> u32 option" and c h r
    assume IH: "\<And>c h r. f c h = Some r \<Longrightarrow> c \<noteq> 0"
      and eq: "(if c \<le> h then f (c * 2) h else Some c) = Some r"
    show "c \<noteq> 0"
    proof
      assume "c = 0"
      with eq have "f 0 h = Some r" by simp
      from IH [OF this] show False by simp
    qed
  qed
  then show False by simp
qed

abbreviation cap_of :: "nat \<Rightarrow> u32" where
  "cap_of k \<equiv> of_nat (1024 * 2 ^ k)"

lemma cap_of_Suc: "cap_of k * 2 = cap_of (Suc k)"
  by simp

lemma unat_cap_of: "k \<le> 21 \<Longrightarrow> unat (cap_of k) = 1024 * 2 ^ k"
proof -
  assume "k \<le> 21"
  then have "(2 :: nat) ^ k \<le> 2 ^ 21" by (intro power_increasing) simp_all
  then have "1024 * 2 ^ k < (2 :: nat) ^ LENGTH(32)" by simp
  then show ?thesis by (simp only: unat_of_nat mod_less)
qed

text \<open>The loop returns a sufficient capacity for every handle below \<open>2^31\<close>.\<close>

lemma grow_cap_returns:
  assumes "k \<le> 21" "unat h < 2 ^ 31"
  shows "\<exists>m. k \<le> m \<and> m \<le> 21 \<and> grow_cap (cap_of k) h = Some (cap_of m) \<and> unat h < 1024 * 2 ^ m"
  using assms
proof (induction k rule: inc_induct)
  case base
  with unat_cap_of [of 21] have "\<not> cap_of 21 \<le> h" by (simp add: word_le_nat_alt)
  then have "grow_cap (cap_of 21) h = Some (cap_of 21)"
    by (simp only: grow_cap.simps [of "cap_of 21"] if_False)
  with base show ?case by (intro exI [of _ 21]) simp
next
  case (step k)
  show ?case
  proof (cases "cap_of k \<le> h")
    case True
    then have "grow_cap (cap_of k) h = grow_cap (cap_of (Suc k)) h"
      by (simp only: grow_cap.simps [of "cap_of k"] cap_of_Suc if_True)
    moreover from step obtain m where "Suc k \<le> m" "m \<le> 21"
      "grow_cap (cap_of (Suc k)) h = Some (cap_of m)" "unat h < 1024 * 2 ^ m" by blast
    ultimately show ?thesis by (intro exI [of _ m]) simp
  next
    case False
    then have "grow_cap (cap_of k) h = Some (cap_of k)"
      by (simp only: grow_cap.simps [of "cap_of k"] if_False)
    moreover from False have "unat h < 1024 * 2 ^ k"
      using unat_cap_of [of k] step.hyps by (simp add: word_le_nat_alt)
    ultimately show ?thesis using step.hyps by (intro exI [of _ k]) simp
  qed
qed

text \<open>From \<open>2^31\<close> on the doubling wraps to 0 before it passes the handle: the loop does not return.\<close>

lemma grow_cap_diverges:
  assumes "k \<le> 22" "2 ^ 31 \<le> unat h"
  shows "grow_cap (cap_of k) h = None"
  using assms
proof (induction k rule: inc_induct)
  case base
  have "cap_of 22 = 0" by simp
  then show ?case by (simp only: grow_cap_zero)
next
  case (step k)
  from step.hyps have "(2 :: nat) ^ k \<le> 2 ^ 21" by (intro power_increasing) simp_all
  with step.prems step.hyps unat_cap_of [of k] have "cap_of k \<le> h"
    by (simp add: word_le_nat_alt)
  then have "grow_cap (cap_of k) h = grow_cap (cap_of (Suc k)) h"
    by (simp only: grow_cap.simps [of "cap_of k"] cap_of_Suc if_True)
  with step show ?case by simp
qed

subsection \<open>Allocation\<close>

lemma bo_lookup_next_irrelevant [simp]: "bo_lookup (s\<lparr>bo_handle_next := n\<rparr>) = bo_lookup s"
  by (rule ext) (simp add: bo_lookup_def)

lemma bo_lookup_grow:
  "bo_lookup (s\<lparr>bo_table := bo_table s @ replicate n zero_bo\<rparr>) = bo_lookup s"
proof
  fix j
  show "bo_lookup (s\<lparr>bo_table := bo_table s @ replicate n zero_bo\<rparr>) j = bo_lookup s j"
    by (auto simp: bo_lookup_def nth_append zero_bo_def Let_def)
qed

lemma bo_lookup_write:
  assumes "h \<noteq> 0" "unat h < length (bo_table s)" "bo_handle v = h"
  shows "bo_lookup (s\<lparr>bo_table := (bo_table s)[unat h := v]\<rparr>) = (bo_lookup s)(h := Some v)"
proof
  fix j
  show "bo_lookup (s\<lparr>bo_table := (bo_table s)[unat h := v]\<rparr>) j = ((bo_lookup s)(h := Some v)) j"
    using assms by (cases "j = h") (auto simp: bo_lookup_def nth_list_update Let_def)
qed

lemma slots_ok_mono: "\<lbrakk>slots_ok tab m; unat m \<le> unat n\<rbrakk> \<Longrightarrow> slots_ok tab n"
  unfolding slots_ok_def by (meson less_le_trans)

lemma slots_ok_grow: "slots_ok tab n \<Longrightarrow> slots_ok (tab @ replicate k zero_bo) n"
  by (auto simp: slots_ok_def nth_append zero_bo_def)

lemma bo_fresh: "bo_inv s \<Longrightarrow> bo_lookup s (bo_handle_next s) = None"
  using bo_lookup_slot [of s "bo_handle_next s"] by (cases "bo_lookup s (bo_handle_next s)") auto

text \<open>The array a successful allocation leaves: long enough, and nothing but one slot written.\<close>

lemma bo_alloc_array:
  assumes inv: "bo_inv s" and small: "unat (bo_handle_next s) < 2 ^ 31"
  obtains n m where "\<And>ok. bo_alloc ok s = Some (if ok \<or> n = 0
      then (Some (bo_handle_next s), s\<lparr>bo_handle_next := bo_handle_next s + 1,
        bo_table := (bo_table s @ replicate n zero_bo)
          [unat (bo_handle_next s) := new_bo (bo_handle_next s)]\<rparr>)
      else (None, s\<lparr>bo_handle_next := bo_handle_next s + 1\<rparr>))"
    "unat (bo_handle_next s) < length (bo_table s) + n"
    "m \<le> 21" "length (bo_table s) + n = 1024 * 2 ^ m"
proof -
  let ?h = "bo_handle_next s" and ?len = "length (bo_table s)"
  from inv obtain k where len: "?len = 0 \<or> ?len = 1024 * 2 ^ k \<and> k \<le> 21"
    by (auto simp: bo_inv_def)
  then have cap: "?len = 0 \<or> (of_nat ?len :: u32) = cap_of k \<and> unat (cap_of k) = ?len"
    using unat_cap_of by metis
  show thesis
  proof (cases "(of_nat ?len :: u32) \<le> ?h")
    case False
    with len have l: "?len = 1024 * 2 ^ k" "k \<le> 21" by auto
    with cap False have "unat ?h < ?len" by (auto simp: word_le_nat_alt)
    with l False show thesis
      by (intro that [of 0 k]) (simp_all add: bo_alloc_def Let_def)
  next
    case True
    obtain j where j: "j \<le> 21" "?len \<le> 1024 * 2 ^ j"
      "(if (of_nat ?len :: u32) \<noteq> 0 then of_nat ?len * 2 else MAX_BO_TABLE_INITIAL) = cap_of j"
    proof (cases "?len = 0")
      case e: True
      show thesis by (rule that [of 0]) (simp_all add: e MAX_BO_TABLE_INITIAL_def)
    next
      case ne: False
      with len have l: "?len = 1024 * 2 ^ k" "k \<le> 21" by auto
      with cap ne True small have "1024 * 2 ^ k < (2 :: nat) ^ 31"
        by (auto simp: word_le_nat_alt)
      then have "(2 :: nat) ^ k < 2 ^ 21" by simp
      then have k: "k < 21" by (rule power_less_imp_less_exp [rotated]) simp
      from ne cap have "(of_nat ?len :: u32) = cap_of k" "unat (cap_of k) \<noteq> 0" by auto
      then have "(of_nat ?len :: u32) \<noteq> 0" by (metis unat_0)
      with \<open>of_nat ?len = cap_of k\<close> k l show thesis
        by (intro that [of "Suc k"]) simp_all
    qed
    from grow_cap_returns [OF j(1) small] obtain m where
      m: "j \<le> m" "m \<le> 21" "grow_cap (cap_of j) ?h = Some (cap_of m)" "unat ?h < 1024 * 2 ^ m"
      by blast
    from m(1) have "(2 :: nat) ^ j \<le> 2 ^ m" by (intro power_increasing) simp_all
    then have "1024 * 2 ^ j \<le> (1024 * 2 ^ m :: nat)" by (rule mult_le_mono2)
    with j(2) have le: "?len \<le> 1024 * 2 ^ m" by (rule order_trans)
    have ua: "unat (cap_of m) = 1024 * 2 ^ m" by (rule unat_cap_of [OF m(2)])
    have ne: "1024 * 2 ^ m \<noteq> ?len"
    proof
      assume eq: "1024 * 2 ^ m = ?len"
      from True have "cap_of m \<le> ?h" by (simp only: eq)
      with ua m(4) show False by (simp only: word_le_nat_alt)
    qed
    have n: "1024 * 2 ^ m - ?len \<noteq> 0" using le ne by simp
    have "bo_alloc ok s = Some (if ok \<or> 1024 * 2 ^ m - ?len = 0
      then (Some ?h, s\<lparr>bo_handle_next := ?h + 1,
        bo_table := (bo_table s @ replicate (1024 * 2 ^ m - ?len) zero_bo) [unat ?h := new_bo ?h]\<rparr>)
      else (None, s\<lparr>bo_handle_next := ?h + 1\<rparr>))" for ok
      using n by (cases ok) (simp_all only: bo_alloc_def Let_def True j(3) m(3) ua if_True if_False
          option.case simp_thms bo_state.simps)
    then show thesis
      by (rule that) (use m le in simp_all)
  qed
qed

lemma bo_next_not_wrapped:
  "unat (bo_handle_next s) < 2 ^ 31 \<Longrightarrow> unat (bo_handle_next s + 1) = unat (bo_handle_next s) + 1"
  by (rule unat_Suc_u32) simp

text \<open>Both outcomes of an allocation below \<open>2^31\<close>.\<close>

lemma bo_alloc_spec:
  assumes inv: "bo_inv s" and small: "unat (bo_handle_next s) < 2 ^ 31"
    and a: "bo_alloc ok s = Some (r, s')"
  shows "bo_handle_next s' = bo_handle_next s + 1 \<and> bo_inv s'
    \<and> (r = Some (bo_handle_next s)
         \<and> bo_lookup s' = (bo_lookup s)(bo_handle_next s := Some (new_bo (bo_handle_next s)))
       \<or> r = None \<and> \<not> ok \<and> bo_table s' = bo_table s)"
proof -
  let ?h = "bo_handle_next s"
  from inv have h: "?h \<noteq> 0" by (simp add: bo_inv_def)
  have next1: "unat (?h + 1) = unat ?h + 1" by (rule bo_next_not_wrapped [OF small])
  then have next0: "?h + 1 \<noteq> 0" by (metis Suc_eq_plus1 nat.distinct(1) unat_0)
  obtain n m where al: "\<And>ok. bo_alloc ok s = Some (if ok \<or> n = 0
      then (Some ?h, s\<lparr>bo_handle_next := ?h + 1,
        bo_table := (bo_table s @ replicate n zero_bo)[unat ?h := new_bo ?h]\<rparr>)
      else (None, s\<lparr>bo_handle_next := ?h + 1\<rparr>))"
    and len: "unat ?h < length (bo_table s) + n" "m \<le> 21" "length (bo_table s) + n = 1024 * 2 ^ m"
    by (rule bo_alloc_array [OF inv small]) (rule that, assumption+)
  show ?thesis
  proof (cases "ok \<or> n = 0")
    case True
    let ?g = "s\<lparr>bo_table := bo_table s @ replicate n zero_bo\<rparr>"
    from True al [of ok] a have r: "r = Some ?h"
      "s' = s\<lparr>bo_handle_next := ?h + 1,
        bo_table := (bo_table s @ replicate n zero_bo)[unat ?h := new_bo ?h]\<rparr>" by auto
    have "bo_lookup s' = bo_lookup (?g\<lparr>bo_table := (bo_table ?g)[unat ?h := new_bo ?h]\<rparr>)"
      by (rule ext) (simp add: r(2) bo_lookup_def)
    also have "\<dots> = (bo_lookup ?g)(?h := Some (new_bo ?h))"
      by (rule bo_lookup_write) (use h len(1) in \<open>simp_all add: new_bo_def\<close>)
    finally have look: "bo_lookup s' = (bo_lookup s)(?h := Some (new_bo ?h))"
      by (simp only: bo_lookup_grow)
    from inv have "slots_ok (bo_table s @ replicate n zero_bo) (?h + 1)"
      using next1 by (auto simp: bo_inv_def intro: slots_ok_grow slots_ok_mono)
    then have "slots_ok ((bo_table s @ replicate n zero_bo)[unat ?h := new_bo ?h]) (?h + 1)"
      by (rule slots_ok_update) (simp add: next1 new_bo_def)
    with r next0 len(2,3) have "bo_inv s'" by (auto simp: bo_inv_def)
    with r look show ?thesis by simp
  next
    case False
    with al [of ok] a have r: "r = None" "s' = s\<lparr>bo_handle_next := ?h + 1\<rparr>" by auto
    from inv next0 next1 have "bo_inv s'"
      unfolding r(2) by (auto simp: bo_inv_def intro: slots_ok_mono)
    with r False show ?thesis by simp
  qed
qed

lemma bo_alloc_returns:
  assumes "bo_inv s" "unat (bo_handle_next s) < 2 ^ 31"
  shows "\<exists>r s'. bo_alloc ok s = Some (r, s') \<and> (ok \<longrightarrow> r = Some (bo_handle_next s))"
  by (rule bo_alloc_array [OF assms]) auto

lemma bo_alloc_diverges:
  assumes inv: "bo_inv s" and big: "2 ^ 31 \<le> unat (bo_handle_next s)"
  shows "bo_alloc ok s = None"
proof -
  let ?h = "bo_handle_next s" and ?len = "length (bo_table s)"
  from inv obtain k where len: "?len = 0 \<or> ?len = 1024 * 2 ^ k \<and> k \<le> 21"
    by (auto simp: bo_inv_def)
  show ?thesis
  proof (cases "?len = 0")
    case True
    have "cap_of 0 = MAX_BO_TABLE_INITIAL" by (simp add: MAX_BO_TABLE_INITIAL_def)
    with grow_cap_diverges [OF _ big, of 0] True show ?thesis
      by (simp add: bo_alloc_def Let_def)
  next
    case False
    with len have l: "?len = 1024 * 2 ^ k" "k \<le> 21" by auto
    then have "(2 :: nat) ^ k \<le> 2 ^ 21" by (intro power_increasing) simp_all
    with l big unat_cap_of [OF l(2)] have le: "(of_nat ?len :: u32) \<le> ?h"
      by (simp only: l word_le_nat_alt) simp
    have "unat (cap_of k) \<noteq> 0" by (simp only: unat_cap_of [OF l(2)]) simp
    then have "(of_nat ?len :: u32) \<noteq> 0" by (metis l(1) unat_0)
    with le have "bo_alloc ok s = (case grow_cap (of_nat ?len * 2) ?h of None \<Rightarrow> None
        | Some c \<Rightarrow> bo_alloc ok s)"
      by (auto simp: bo_alloc_def Let_def split: option.splits)
    moreover have "grow_cap (of_nat ?len * 2) ?h = None"
      using grow_cap_diverges [of "Suc k", OF _ big] l(2) by (simp only: cap_of_Suc l(1))
    ultimately show ?thesis by simp
  qed
qed

text \<open>The table as the interface sees it: allocation succeeds while memory and handles last.\<close>

definition bo_take :: "bo_state \<Rightarrow> (u32 \<times> bo_state) option" where
  "bo_take s = (case bo_alloc True s of Some (Some h, s') \<Rightarrow> Some (h, s') | _ \<Rightarrow> None)"

lemma bo_take_alloc:
  assumes "bo_inv s" "bo_take s = Some (h, s')"
  shows "unat (bo_handle_next s) < 2 ^ 31 \<and> h = bo_handle_next s \<and> bo_alloc True s = Some (Some h, s')"
proof -
  from assms(2) have a: "bo_alloc True s = Some (Some h, s')"
    by (auto simp: bo_take_def split: option.splits)
  then have small: "unat (bo_handle_next s) < 2 ^ 31"
    using bo_alloc_diverges [OF assms(1)] by (cases "unat (bo_handle_next s) < 2 ^ 31") auto
  with bo_alloc_returns [OF assms(1) small, of True] a show ?thesis by auto
qed

interpretation bos: handle_table bo_take bo_lookup bo_update bo_free new_bo
  "bo_handle :: drm_shim_bo \<Rightarrow> u32" bo_inv
proof unfold_locales
  fix s h s'
  assume inv: "bo_inv s" and t: "bo_take s = Some (h, s')"
  from bo_take_alloc [OF this] have a: "unat (bo_handle_next s) < 2 ^ 31" "h = bo_handle_next s"
    "bo_alloc True s = Some (Some h, s')" by simp_all
  from bo_alloc_spec [OF inv a(1,3)] a(2)
  show "bo_lookup s h = None" "bo_lookup s' = (bo_lookup s)(h := Some (new_bo h))" "bo_inv s'"
    using bo_fresh [OF inv] by auto
next
  fix s h and v :: drm_shim_bo
  show "bo_lookup s h \<noteq> None \<Longrightarrow> bo_handle v = h \<Longrightarrow>
      bo_lookup (bo_update h v s) = (bo_lookup s)(h := Some v)"
    by (rule bo_update_lookup)
next
  fix s h and v :: drm_shim_bo
  assume "bo_inv s" "bo_lookup s h \<noteq> None" "bo_handle v = h"
  then show "bo_inv (bo_update h v s)" by (rule bo_inv_update)
next
  fix s h v
  assume "bo_inv s" "bo_lookup s h = Some v"
  then show "bo_handle v = h" by (simp add: bo_lookup_slot)
qed (simp_all add: bo_free_lookup bo_inv_free)

end
