(* ===== verification/InodeCache.thy ===== *)
theory InodeCache
  imports KeyedCache BoTable
begin

text \<open>
  The inode cache of \<^verbatim>\<open>drm_shim.c\<close>: 64 entries that remember, per (device, inode) of a shared
  buffer, the server's resource and its geometry after the local object is gone.
\<close>

record icache_entry =
  ic_inode :: u64
  ic_dev :: u64
  ic_res_handle :: u32
  ic_width :: u32
  ic_height :: u32
  ic_stride :: u32
  ic_size :: u32
  ic_is_ahb :: bool
  ic_valid :: bool

definition INODE_CACHE_SIZE :: nat where "INODE_CACHE_SIZE = 64"

definition zero_entry :: icache_entry where
  "zero_entry = \<lparr>ic_inode = 0, ic_dev = 0, ic_res_handle = 0, ic_width = 0, ic_height = 0,
     ic_stride = 0, ic_size = 0, ic_is_ahb = False, ic_valid = False\<rparr>"

definition inode_cache0 :: "icache_entry list" where
  "inode_cache0 = replicate INODE_CACHE_SIZE zero_entry"

definition ic_matches :: "u64 \<times> u64 \<Rightarrow> icache_entry \<Rightarrow> bool" where
  "ic_matches k e \<longleftrightarrow> ic_valid e \<and> ic_dev e = fst k \<and> ic_inode e = snd k"

text \<open>The search loop of \<^verbatim>\<open>inode_cache_store\<close>: index \<open>i\<close>, the slot found so far, what is left to scan.\<close>

fun inode_slot :: "u64 \<times> u64 \<Rightarrow> nat \<Rightarrow> nat option \<Rightarrow> icache_entry list \<Rightarrow> nat option" where
  "inode_slot k i slot [] = slot"
| "inode_slot k i slot (e # es) =
     (if ic_matches k e then Some i
      else inode_slot k (Suc i) (if \<not> ic_valid e \<and> slot = None then Some i else slot) es)"

definition inode_entry :: "u64 \<times> u64 \<Rightarrow> u32 \<Rightarrow> u32 \<Rightarrow> u32 \<Rightarrow> u32 \<Rightarrow> u32 \<Rightarrow> bool \<Rightarrow> icache_entry" where
  "inode_entry k res w h st sz ahb = \<lparr>ic_inode = snd k, ic_dev = fst k, ic_res_handle = res,
     ic_width = w, ic_height = h, ic_stride = st, ic_size = sz, ic_is_ahb = ahb, ic_valid = True\<rparr>"

text \<open>The store below the \<open>fstat\<close>: the slot found, or the first one, is overwritten.\<close>

definition icache_put :: "u64 \<times> u64 \<Rightarrow> icache_entry \<Rightarrow> icache_entry list \<Rightarrow> icache_entry list" where
  "icache_put k e c = (case inode_slot k 0 None c of None \<Rightarrow> c[0 := e] | Some i \<Rightarrow> c[i := e])"

definition inode_cache_store :: "int \<Rightarrow> u32 \<Rightarrow> u32 \<Rightarrow> u32 \<Rightarrow> u32 \<Rightarrow> u32 \<Rightarrow> bool \<Rightarrow> world
    \<Rightarrow> icache_entry list \<Rightarrow> icache_entry list" where
  "inode_cache_store fd res w h st sz ahb wd c =
    (if fd < 0 \<or> res = 0 then c
     else case sys_fstat fd wd of None \<Rightarrow> c
       | Some k \<Rightarrow> icache_put k (inode_entry k res w h st sz ahb) c)"

definition icache_get :: "icache_entry list \<Rightarrow> u64 \<times> u64 \<Rightarrow> icache_entry option" where
  "icache_get c k = find (ic_matches k) c"

text \<open>\<^verbatim>\<open>inode_cache_lookup\<close>: \<open>None\<close> is \<open>false\<close>; otherwise the object with the fields restored.\<close>

definition inode_cache_lookup :: "int \<Rightarrow> drm_shim_bo \<Rightarrow> world \<Rightarrow> icache_entry list
    \<Rightarrow> drm_shim_bo option" where
  "inode_cache_lookup fd bo wd c =
    (if fd < 0 then None
     else case sys_fstat fd wd of None \<Rightarrow> None
       | Some k \<Rightarrow> (case icache_get c k of None \<Rightarrow> None
           | Some e \<Rightarrow> Some (bo\<lparr>bo_res_handle := ic_res_handle e, bo_width := ic_width e,
               bo_height := ic_height e, bo_stride := ic_stride e, bo_size := ic_size e,
               bo_is_ahb := ic_is_ahb e\<rparr>)))"

subsection \<open>The slot a store takes\<close>

lemma inode_slot_spec:
  "inode_slot k i slot es = (case first_index (ic_matches k) es of
      Some j \<Rightarrow> Some (i + j)
    | None \<Rightarrow> (case slot of Some s \<Rightarrow> Some s
        | None \<Rightarrow> map_option ((+) i) (first_index (\<lambda>e. \<not> ic_valid e) es)))"
proof (induction es arbitrary: i slot)
  case (Cons e es)
  show ?case
    by (cases "ic_matches k e"; cases "ic_valid e"; cases slot)
      (auto simp: Cons.IH option.map_comp comp_def intro!: option.map_cong split: option.split)
qed (simp split: option.split)

lemma icache_put_spec:
  "icache_put k e c = (case first_index (ic_matches k) c of Some j \<Rightarrow> c[j := e]
     | None \<Rightarrow> (case first_index (\<lambda>e. \<not> ic_valid e) c of Some j \<Rightarrow> c[j := e] | None \<Rightarrow> c[0 := e]))"
  by (cases "first_index (ic_matches k) c"; cases "first_index (\<lambda>e. \<not> ic_valid e) c")
    (simp_all add: icache_put_def inode_slot_spec)

subsection \<open>Invariant and contract\<close>

definition icache_inv :: "icache_entry list \<Rightarrow> bool" where
  "icache_inv c \<longleftrightarrow> length c = INODE_CACHE_SIZE
     \<and> (\<forall>i < length c. \<forall>j < length c. ic_valid (c ! i) \<and> ic_valid (c ! j)
          \<and> ic_dev (c ! i) = ic_dev (c ! j) \<and> ic_inode (c ! i) = ic_inode (c ! j) \<longrightarrow> i = j)"

lemma icache_inv_init: "icache_inv inode_cache0"
  by (simp add: icache_inv_def inode_cache0_def zero_entry_def)

lemma icache_get_nth:
  assumes "icache_inv c" "i < length c" "ic_matches k (c ! i)"
  shows "icache_get c k = Some (c ! i)"
proof -
  have "j = i" if "j < length c" "ic_matches k (c ! j)" for j
    using assms that by (auto simp: icache_inv_def ic_matches_def)
  with assms(2,3) have "i < length c \<and> ic_matches k (c ! i) \<and> c ! i = c ! i
      \<and> (\<forall>j < i. \<not> ic_matches k (c ! j))" by (metis less_trans nat_neq_iff)
  then show ?thesis unfolding icache_get_def find_Some_iff by blast
qed

lemma icache_get_SomeD:
  "icache_get c k = Some e \<Longrightarrow> \<exists>i < length c. e = c ! i \<and> ic_matches k (c ! i)"
  by (auto simp: icache_get_def find_Some_iff)

lemma icache_get_None_iff: "icache_get c k = None \<longleftrightarrow> (\<forall>i < length c. \<not> ic_matches k (c ! i))"
  by (auto simp: icache_get_def find_None_iff in_set_conv_nth)

text \<open>Overwriting slot \<open>i\<close> with an entry for \<open>k\<close>, when no other slot holds \<open>k\<close>.\<close>

lemma icache_write:
  assumes inv: "icache_inv c" and i: "i < length c" and e: "ic_matches k e"
    and only: "\<And>j. j < length c \<Longrightarrow> ic_matches k (c ! j) \<Longrightarrow> j = i"
  shows "icache_inv (c[i := e])"
    and "icache_get (c[i := e]) k = Some e"
    and "j \<noteq> k \<Longrightarrow> icache_get (c[i := e]) j = (if ic_matches j (c ! i) then None else icache_get c j)"
proof -
  show inv': "icache_inv (c[i := e])"
    unfolding icache_inv_def length_list_update
  proof (intro conjI allI impI)
    fix a b
    assume ab: "a < length c" "b < length c" and m: "ic_valid (c[i := e] ! a) \<and> ic_valid (c[i := e] ! b)
      \<and> ic_dev (c[i := e] ! a) = ic_dev (c[i := e] ! b)
      \<and> ic_inode (c[i := e] ! a) = ic_inode (c[i := e] ! b)"
    consider "a = i" "b = i" | "a = i" "b \<noteq> i" | "a \<noteq> i" "b = i" | "a \<noteq> i" "b \<noteq> i" by blast
    then show "a = b"
    proof cases
      case 2
      with m e ab have "ic_matches k (c ! b)" by (auto simp: ic_matches_def)
      with only ab 2 show ?thesis by blast
    next
      case 3
      with m e ab have "ic_matches k (c ! a)" by (auto simp: ic_matches_def)
      with only ab 3 show ?thesis by blast
    next
      case 4
      with m ab inv show ?thesis by (simp add: icache_inv_def)
    qed simp
  qed (use inv in \<open>simp add: icache_inv_def\<close>)
  show "icache_get (c[i := e]) k = Some e"
    using icache_get_nth [OF inv', of i k] i e by simp
  assume ne: "j \<noteq> k"
  then have ej: "\<not> ic_matches j e" using e by (auto simp: ic_matches_def prod_eq_iff)
  show "icache_get (c[i := e]) j = (if ic_matches j (c ! i) then None else icache_get c j)"
  proof (cases "\<exists>a < length c. a \<noteq> i \<and> ic_matches j (c ! a)")
    case True
    then obtain a where a: "a < length c" "a \<noteq> i" "ic_matches j (c ! a)" by blast
    then have "\<not> ic_matches j (c ! i)" using inv i by (auto simp: icache_inv_def ic_matches_def)
    with a icache_get_nth [OF inv a(1,3)] icache_get_nth [OF inv', of a j] show ?thesis by simp
  next
    case False
    then have "icache_get (c[i := e]) j = None"
      unfolding icache_get_None_iff using ej i by (auto simp: nth_list_update)
    moreover from False have "\<not> ic_matches j (c ! i) \<Longrightarrow> icache_get c j = None"
      unfolding icache_get_None_iff by metis
    ultimately show ?thesis by simp
  qed
qed

definition icache_full :: "icache_entry list \<Rightarrow> bool" where
  "icache_full c \<longleftrightarrow> (\<forall>e \<in> set c. ic_valid e)"

text \<open>The key the store of \<open>k\<close> drops: that of the first entry, once every entry is in use.\<close>

definition icache_victim :: "icache_entry list \<Rightarrow> u64 \<times> u64 \<Rightarrow> (u64 \<times> u64) option" where
  "icache_victim c k = (if icache_get c k = None \<and> icache_full c
     then Some (ic_dev (c ! 0), ic_inode (c ! 0)) else None)"

lemma icache_put_contract:
  assumes inv: "icache_inv c" and e: "ic_matches k e"
  shows "icache_inv (icache_put k e c)
    \<and> icache_get (icache_put k e c) = (case icache_victim c k of None \<Rightarrow> (icache_get c)(k := Some e)
        | Some j \<Rightarrow> (icache_get c)(j := None, k := Some e))"
proof (cases "first_index (ic_matches k) c")
  case (Some i)
  from first_index_SomeD [OF Some] have i: "i < length c" "ic_matches k (c ! i)" by simp_all
  have only: "j = i" if "j < length c" "ic_matches k (c ! j)" for j
    using inv i that by (auto simp: icache_inv_def ic_matches_def)
  have v: "icache_victim c k = None"
    using icache_get_nth [OF inv i] by (simp add: icache_victim_def)
  have ne: "\<not> ic_matches j (c ! i)" if "j \<noteq> k" for j
    using i(2) that by (auto simp: ic_matches_def prod_eq_iff)
  note wr = icache_write [OF inv i(1) e only]
  have "icache_get (c[i := e]) = (icache_get c)(k := Some e)"
    by (rule ext) (use wr(2,3) ne in auto)
  with wr(1) v Some show ?thesis by (simp add: icache_put_spec)
next
  case None
  then have nomatch: "\<not> ic_matches k (c ! j)" if "j < length c" for j
    using that nth_mem [OF that] by (metis first_index_None)
  then have g: "icache_get c k = None" by (simp add: icache_get_None_iff)
  show ?thesis
  proof (cases "first_index (\<lambda>e. \<not> ic_valid e) c")
    case (Some i)
    from first_index_SomeD [OF Some] have i: "i < length c" "\<not> ic_valid (c ! i)" by simp_all
    then have v: "icache_victim c k = None" by (auto simp: icache_victim_def icache_full_def)
    note wr = icache_write [OF inv i(1) e] 
    have "icache_get (c[i := e]) = (icache_get c)(k := Some e)"
      by (rule ext) (use wr(2,3) nomatch i(2) in \<open>auto simp: ic_matches_def\<close>)
    with wr(1) nomatch v Some None show ?thesis by (simp add: icache_put_spec)
  next
    case none: None
    then have full: "icache_full c" by (auto simp: icache_full_def first_index_None)
    have i: "0 < length c" using inv by (simp add: icache_inv_def INODE_CACHE_SIZE_def)
    let ?j = "(ic_dev (c ! 0), ic_inode (c ! 0))"
    have v: "icache_victim c k = Some ?j" using g full by (simp add: icache_victim_def)
    have val: "ic_valid (c ! 0)" using full i by (auto simp: icache_full_def)
    have only: "j = 0" if "j < length c" "ic_matches k (c ! j)" for j
      using nomatch that by blast
    note wr = icache_write [OF inv i e only]
    have "ic_matches j (c ! 0) \<longleftrightarrow> j = ?j" for j
      using val by (auto simp: ic_matches_def prod_eq_iff)
    with wr(2,3) have "icache_get (c[0 := e]) j = ((icache_get c)(?j := None, k := Some e)) j" for j
      by (cases "j = k"; cases "j = ?j") simp_all
    then have "icache_get (c[0 := e]) = (icache_get c)(?j := None, k := Some e)" by (rule ext)
    with wr(1) nomatch v none None show ?thesis by (simp add: icache_put_spec)
  qed
qed

text \<open>The cache as the interface sees it: it stores what an entry says beyond its key.\<close>

definition icache_value :: "icache_entry \<Rightarrow> u32 \<times> u32 \<times> u32 \<times> u32 \<times> u32 \<times> bool" where
  "icache_value e = (ic_res_handle e, ic_width e, ic_height e, ic_stride e, ic_size e, ic_is_ahb e)"

fun entry_of :: "u64 \<times> u64 \<Rightarrow> u32 \<times> u32 \<times> u32 \<times> u32 \<times> u32 \<times> bool \<Rightarrow> icache_entry" where
  "entry_of k (res, w, h, st, sz, ahb) = inode_entry k res w h st sz ahb"

definition icache_find :: "icache_entry list \<Rightarrow> u64 \<times> u64
    \<Rightarrow> (u32 \<times> u32 \<times> u32 \<times> u32 \<times> u32 \<times> bool) option" where
  "icache_find c k = map_option icache_value (icache_get c k)"

lemma entry_of_matches [simp]: "ic_matches k (entry_of k v)"
  by (cases v) (simp add: ic_matches_def inode_entry_def)

lemma entry_of_value [simp]: "icache_value (entry_of k v) = v"
  by (cases v) (simp add: icache_value_def inode_entry_def)

interpretation icache: keyed_cache icache_find "\<lambda>k v. icache_put k (entry_of k v)"
  icache_victim icache_inv
proof unfold_locales
  fix c k v
  assume inv: "icache_inv c"
  from icache_put_contract [OF inv entry_of_matches, of k v]
  show "icache_inv (icache_put k (entry_of k v) c)"
    and "icache_find (icache_put k (entry_of k v) c) = (case icache_victim c k of
        None \<Rightarrow> (icache_find c)(k := Some v) | Some j \<Rightarrow> (icache_find c)(j := None, k := Some v))"
    by (auto simp: icache_find_def fun_eq_iff split: option.splits)
next
  fix c k j
  assume inv: "icache_inv c" and v: "icache_victim c k = Some j"
  then have full: "icache_get c k = None" "icache_full c"
    "j = (ic_dev (c ! 0), ic_inode (c ! 0))" by (auto simp: icache_victim_def split: if_splits)
  moreover have "0 < length c" using inv by (simp add: icache_inv_def INODE_CACHE_SIZE_def)
  ultimately have "ic_matches j (c ! 0)" by (auto simp: ic_matches_def icache_full_def)
  from icache_get_nth [OF inv \<open>0 < length c\<close> this] full(1)
  show "j \<noteq> k \<and> icache_find c j \<noteq> None \<and> icache_find c k = None"
    by (cases "j = k") (simp_all add: icache_find_def)
qed

end
