(* ===== verification/DrmFds.thy ===== *)
theory DrmFds
  imports Prelude
begin

text \<open>
  The table of DRM descriptors of \<^verbatim>\<open>drm_shim.c\<close>: \<open>drm_fds\<close> is kept as its live prefix, the
  \<^verbatim>\<open>drm_fd_count\<close> first cells of the array of \<^verbatim>\<open>MAX_DRM_FDS\<close>.
\<close>

definition MAX_DRM_FDS :: nat where "MAX_DRM_FDS = 32"

definition drm_fd_add :: "int \<Rightarrow> int list \<Rightarrow> int list" where
  "drm_fd_add fd fds =
    (if fd \<in> set fds then fds
     else if length fds < MAX_DRM_FDS then fds @ [fd] else fds)"

definition drm_fd_is_tracked :: "int \<Rightarrow> int list \<Rightarrow> bool" where
  "drm_fd_is_tracked fd fds \<longleftrightarrow> \<not> fd < 0 \<and> fd \<in> set fds"

text \<open>The last cell moves into the hole: \<^verbatim>\<open>drm_fds[i] = drm_fds[--drm_fd_count]\<close>.\<close>

definition drm_fd_remove :: "int \<Rightarrow> int list \<Rightarrow> int list" where
  "drm_fd_remove fd fds = (case first_index ((=) fd) fds of
      None \<Rightarrow> fds | Some i \<Rightarrow> butlast (fds[i := last fds]))"

definition fds_inv :: "int list \<Rightarrow> bool" where
  "fds_inv fds \<longleftrightarrow> distinct fds \<and> length fds \<le> MAX_DRM_FDS"

lemma fds_inv_Nil [inv_intros]: "fds_inv []"
  by (simp add: fds_inv_def)

lemma fds_inv_add [inv_intros]: "fds_inv fds \<Longrightarrow> fds_inv (drm_fd_add fd fds)"
  by (auto simp: fds_inv_def drm_fd_add_def)

lemma set_drm_fd_add:
  "set (drm_fd_add fd fds) = (if length fds < MAX_DRM_FDS then insert fd (set fds) else set fds)"
  by (auto simp: drm_fd_add_def)

lemma swap_out:
  assumes "distinct xs" "i < length xs"
  shows "distinct (butlast (xs[i := last xs])) \<and> set (butlast (xs[i := last xs])) = set xs - {xs ! i}"
proof -
  obtain ys z where xs: "xs = ys @ [z]" using assms(2) by (cases xs rule: rev_cases) auto
  show ?thesis
  proof (cases "i = length ys")
    case True
    with xs assms show ?thesis by auto
  next
    case False
    with xs assms have i: "i < length ys" "z \<notin> set ys" "distinct ys" by auto
    then have "distinct (ys[i := z]) \<and> set (ys[i := z]) = insert z (set ys - {ys ! i})"
      by (simp add: distinct_list_update set_update_distinct)
    with i xs show ?thesis by (auto simp: nth_append list_update_append)
  qed
qed

lemma fds_remove:
  assumes "fds_inv fds"
  shows "fds_inv (drm_fd_remove fd fds) \<and> set (drm_fd_remove fd fds) = set fds - {fd}"
proof (cases "first_index ((=) fd) fds")
  case None
  then have "fd \<notin> set fds" by (auto simp: first_index_None)
  with None assms show ?thesis by (simp add: drm_fd_remove_def)
next
  case (Some i)
  from first_index_SomeD [OF Some] have i: "i < length fds" "fd = fds ! i" by simp_all
  have "distinct fds" "length fds - 1 \<le> MAX_DRM_FDS" using assms
    by (auto simp: fds_inv_def intro: le_trans [OF diff_le_self])
  with swap_out [OF _ i(1)] Some i(2) show ?thesis
    by (simp add: drm_fd_remove_def fds_inv_def)
qed

text \<open>
  The descriptor table never holds a number twice nor more than 32 of them; adding tracks
  the descriptor exactly when it is not negative and a cell is free (or it is there already);
  removing, by moving the last cell into the hole, stops tracking that descriptor and no other.
\<close>

theorem drm_fd_table_ops:
  assumes "fds_inv fds"
  shows "fds_inv (drm_fd_add fd fds) \<and> fds_inv (drm_fd_remove fd fds)
    \<and> (\<forall>x. drm_fd_is_tracked x (drm_fd_add fd fds) \<longleftrightarrow>
         drm_fd_is_tracked x fds \<or> x = fd \<and> 0 \<le> fd \<and> length fds < 32)
    \<and> (\<forall>x. drm_fd_is_tracked x (drm_fd_remove fd fds) \<longleftrightarrow> drm_fd_is_tracked x fds \<and> x \<noteq> fd)"
  using fds_inv_add [OF assms, of fd] fds_remove [OF assms, of fd] set_drm_fd_add [of fd fds]
  by (auto simp: drm_fd_is_tracked_def MAX_DRM_FDS_def)

theorem drm_fd_table_ops_witness:
  "drm_fd_is_tracked 7 (drm_fd_remove 5 [5, 6, 7]) \<and> \<not> drm_fd_is_tracked 5 (drm_fd_remove 5 [5, 6, 7])"
proof -
  have "fds_inv [5, 6, 7]" by (simp add: fds_inv_def MAX_DRM_FDS_def)
  from drm_fd_table_ops [OF this, of 5]
  have "drm_fd_is_tracked x (drm_fd_remove 5 [5, 6, 7]) \<longleftrightarrow> drm_fd_is_tracked x [5, 6, 7] \<and> x \<noteq> 5" for x
    by blast
  from this [of 5] this [of 7] show ?thesis by (simp add: drm_fd_is_tracked_def)
qed

end
