(* ===== verification/DrmIoctl.thy ===== *)
theory DrmIoctl
  imports Vtest InodeCache DrmFds
begin

text \<open>
  The VIRTGPU ioctl handlers of \<^verbatim>\<open>drm_shim.c\<close> on the state the file keeps in its globals: the
  object table, the inode cache, the tracked descriptors, the vtest connection, and the world. A
  handler returns its \<^verbatim>\<open>errno\<close> result, the argument structure as the caller finds it, and the state.
  Log output is left out.
\<close>

record shim =
  sh_bos :: bo_state
  sh_inodes :: "icache_entry list"
  sh_fds :: "int list"
  sh_conn :: conn
  sh_w :: world

subsection \<open>Steps the handlers share\<close>

definition sh_connect :: "shim \<Rightarrow> int \<times> shim" where
  "sh_connect s = (let (r, c, w) = vtest_ensure_connected (sh_conn s) (sh_w s)
     in (r, s\<lparr>sh_conn := c, sh_w := w\<rparr>))"

text \<open>
  \<^verbatim>\<open>vtest_block_write(sock, hdr, 8) < 0 || vtest_block_write(sock, payload, ...) < 0\<close>, with the
  result \<open>True\<close> when both went through.
\<close>

definition vtest_command :: "u32 list \<Rightarrow> bytes \<Rightarrow> world \<Rightarrow> bool \<times> world" where
  "vtest_command hdr payload w =
    (let (r1, w1) = vtest_block_write (dwords hdr) w
     in if r1 < 0 then (False, w1)
     else let (r2, w2) = vtest_block_write payload w1 in (\<not> r2 < 0, w2))"

text \<open>Allocating an object: the allocator is asked only when the table must grow.\<close>

definition sh_bo_alloc :: "shim \<Rightarrow> (u32 option \<times> shim) option" where
  "sh_bo_alloc s =
    (let (ok, w) = (if of_nat (length (bo_table (sh_bos s))) \<le> bo_handle_next (sh_bos s)
                    then sys_alloc (sh_w s) else (True, sh_w s))
     in map_option (\<lambda>(h, b). (h, s\<lparr>sh_bos := b, sh_w := w\<rparr>)) (bo_alloc ok (sh_bos s)))"

text \<open>\<^verbatim>\<open>strstr(hay, needle) != NULL\<close>.\<close>

fun strstr :: "string \<Rightarrow> string \<Rightarrow> bool" where
  "strstr [] needle = (needle = [])"
| "strstr (y # ys) needle = (has_prefix needle (y # ys) \<or> strstr ys needle)"

text \<open>The \<^verbatim>\<open>/proc/self/fd\<close> test that tells a buffer from Android's allocator from a memfd.\<close>

definition fd_is_ahb :: "int \<Rightarrow> world \<Rightarrow> bool" where
  "fd_is_ahb fd w = (case sys_readlink fd w of None \<Rightarrow> False
     | Some link \<Rightarrow> link \<noteq> [] \<and> \<not> strstr (take 255 link) ''memfd:'')"

subsection \<open>Parameters and capabilities\<close>

definition VIRTGPU_PARAM_3D_FEATURES :: u64 where "VIRTGPU_PARAM_3D_FEATURES = 1"
definition VIRTGPU_PARAM_CAPSET_QUERY_FIX :: u64 where "VIRTGPU_PARAM_CAPSET_QUERY_FIX = 2"

text \<open>The result and the value stored through the argument's pointer.\<close>

definition shim_getparam :: "u64 \<Rightarrow> rc \<times> u64" where
  "shim_getparam param =
    (if param = VIRTGPU_PARAM_3D_FEATURES then (RC_OK, 1)
     else if param = VIRTGPU_PARAM_CAPSET_QUERY_FIX then (RC_OK, 1)
     else (RC_ERR EINVAL, 0))"

text \<open>Draining a reply for which there is no memory: chunks of at most 256 bytes, results ignored.\<close>

function caps_discard :: "nat \<Rightarrow> world \<Rightarrow> world" where
  "caps_discard left w =
    (if left = 0 then w
     else let chunk = min left 256 in caps_discard (left - chunk) (snd (vtest_block_read chunk w)))"
  by pat_completeness auto
termination by (relation "measure fst") (auto simp: Let_def)

declare caps_discard.simps [simp del]

record virtgpu_get_caps =
  gc_cap_set_id :: u32
  gc_size :: u32
  gc_buf :: bytes      \<comment> \<open>the memory at \<^verbatim>\<open>gc->addr\<close>\<close>

definition shim_get_caps :: "virtgpu_get_caps \<Rightarrow> shim \<Rightarrow> rc \<times> virtgpu_get_caps \<times> shim" where
  "shim_get_caps gc s0 =
    (let (r, s) = sh_connect s0
     in if r < 0 then (RC_ERR EIO, gc, s)
     else if gc_cap_set_id gc \<noteq> 1 \<and> gc_cap_set_id gc \<noteq> 2 then (RC_ERR EINVAL, gc, s)
     else
     let cmd_id = (if gc_cap_set_id gc = 1 then VCMD_GET_CAPS else VCMD_GET_CAPS2);
         (r1, w1) = vtest_block_write (dwords [0, cmd_id]) (sh_w s)
     in if r1 < 0 then (RC_ERR EIO, gc, s\<lparr>sh_w := w1\<rparr>)
     else (case vtest_block_read 8 w1 of
         (None, w2) \<Rightarrow> (RC_ERR EIO, gc, s\<lparr>sh_w := w2\<rparr>)
       | (Some hdr, w2) \<Rightarrow>
           let h0 = un_le32 (take 4 hdr);
               data_bytes = (if h0 > 0 then h0 - 1 else 0)
           in if data_bytes > 0
              then let (ok, w3) = sys_alloc w2
                in if \<not> ok
                   then (RC_ERR ENOMEM, gc, s\<lparr>sh_w := caps_discard (unat data_bytes) w3\<rparr>)
                   else (case vtest_block_read (unat data_bytes) w3 of
                       (None, w4) \<Rightarrow> (RC_ERR EIO, gc, s\<lparr>sh_w := w4\<rparr>)
                     | (Some tmp, w4) \<Rightarrow>
                         let copy_size = unat (if gc_size gc < data_bytes then gc_size gc else data_bytes)
                         in (RC_OK, gc\<lparr>gc_buf := take copy_size tmp @ drop copy_size (gc_buf gc)\<rparr>,
                             s\<lparr>sh_w := w4\<rparr>))
              else (RC_OK, gc, s\<lparr>sh_w := w2\<rparr>)))"

subsection \<open>Creating a resource\<close>

record virtgpu_resource_create =
  rcr_target :: u32
  rcr_format :: u32
  rcr_bind :: u32
  rcr_width :: u32
  rcr_height :: u32
  rcr_depth :: u32
  rcr_array_size :: u32
  rcr_last_level :: u32
  rcr_nr_samples :: u32
  rcr_bo_handle :: u32
  rcr_res_handle :: u32
  rcr_size :: u32
  rcr_stride :: u32

text \<open>\<^verbatim>\<open>payload[10]\<close>: the data size, raised to \<open>stride * height\<close> in 32-bit arithmetic.\<close>

definition create_data_size :: "virtgpu_resource_create \<Rightarrow> u32" where
  "create_data_size rc =
    (let stride_size = rcr_stride rc * rcr_height rc
     in if rcr_size rc > 0 \<and> stride_size > rcr_size rc then stride_size else rcr_size rc)"

definition create_payload :: "int \<Rightarrow> u32 \<Rightarrow> virtgpu_resource_create \<Rightarrow> u32 list" where
  "create_payload version handle rc =
    [if version \<ge> 3 then 0 else handle, rcr_target rc, rcr_format rc, rcr_bind rc, rcr_width rc,
     rcr_height rc, rcr_depth rc, rcr_array_size rc, rcr_last_level rc, rcr_nr_samples rc,
     create_data_size rc]"

text \<open>
  The server's answer: with version 3 a header and the resource id, otherwise nothing and the
  client's handle is the id.
\<close>

definition create_reply :: "int \<Rightarrow> u32 \<Rightarrow> world \<Rightarrow> u32 option \<times> world" where
  "create_reply version handle w =
    (if version \<ge> 3
     then (case vtest_block_read 8 w of
         (None, w1) \<Rightarrow> (None, w1)
       | (Some _, w1) \<Rightarrow> (case vtest_block_read 4 w1 of
             (None, w2) \<Rightarrow> (None, w2)
           | (Some res, w2) \<Rightarrow> (Some (un_le32 res), w2)))
     else (Some handle, w))"

text \<open>
  \<^verbatim>\<open>shim_resource_create\<close>; the outer \<open>None\<close> is \<^verbatim>\<open>bo_alloc\<close> not returning.
\<close>

definition shim_resource_create :: "virtgpu_resource_create \<Rightarrow> shim
    \<Rightarrow> (rc \<times> virtgpu_resource_create \<times> shim) option" where
  "shim_resource_create rc s00 =
    (let (r, s0) = sh_connect s00
     in if r < 0 then Some (RC_ERR EIO, rc, s0)
     else (case sh_bo_alloc s0 of
       None \<Rightarrow> None
     | Some (None, s) \<Rightarrow> Some (RC_ERR ENOMEM, rc, s)
     | Some (Some handle, s) \<Rightarrow>
         let version = vtest_protocol_version (sh_conn s);
             (ok, w1) = vtest_command [11, VCMD_RESOURCE_CREATE2]
               (dwords (create_payload version handle rc)) (sh_w s)
         in if \<not> ok then Some (RC_ERR EIO, rc, s\<lparr>sh_w := w1\<rparr>)
         else (case create_reply version handle w1 of
             (None, w2) \<Rightarrow> Some (RC_ERR EIO, rc, s\<lparr>sh_w := w2\<rparr>)
           | (Some res, w2) \<Rightarrow>
               let (shm_fd, w3) = (if rcr_size rc > 0 then vtest_recv_fd w2 else (-1, w2))
               in if rcr_size rc > 0 \<and> shm_fd < 0 then Some (RC_ERR EIO, rc, s\<lparr>sh_w := w3\<rparr>)
               else
               let size = create_data_size rc;
                   ahb = shm_fd \<ge> 0 \<and> fd_is_ahb shm_fd w3;
                   bos = (case bo_lookup (sh_bos s) handle of
                       None \<Rightarrow> sh_bos s
                     | Some bo \<Rightarrow> bo_update handle (bo\<lparr>bo_res_handle := res, bo_shm_fd := shm_fd,
                         bo_size := size, bo_stride := rcr_stride rc, bo_width := rcr_width rc,
                         bo_height := rcr_height rc, bo_is_ahb := ahb\<rparr>) (sh_bos s));
                   cached_ahb = (case bo_lookup bos handle of None \<Rightarrow> False | Some bo \<Rightarrow> bo_is_ahb bo);
                   inodes = (if shm_fd \<ge> 0 \<and> res \<noteq> 0
                     then inode_cache_store shm_fd res (rcr_width rc) (rcr_height rc)
                            (rcr_stride rc) size cached_ahb w3 (sh_inodes s)
                     else sh_inodes s)
               in Some (RC_OK, rc\<lparr>rcr_bo_handle := handle, rcr_res_handle := res\<rparr>,
                    s\<lparr>sh_bos := bos, sh_inodes := inodes, sh_w := w3\<rparr>))))"

subsection \<open>Mapping, submission and transfers\<close>

definition MMAP_OFFSET_BASE :: u64 where "MMAP_OFFSET_BASE = 0x10000000"
definition MMAP_OFFSET_STRIDE :: u64 where "MMAP_OFFSET_STRIDE = 0x100000"

text \<open>\<^verbatim>\<open>shim_map\<close>: the fake offset of an object, assigned on the first call.\<close>

definition shim_map :: "u32 \<Rightarrow> shim \<Rightarrow> (rc \<times> u64 option \<times> shim)" where
  "shim_map handle s = (case bo_lookup (sh_bos s) handle of
      None \<Rightarrow> (RC_ERR ENOENT, None, s)
    | Some bo \<Rightarrow>
        let bo' = (if bo_mapped bo then bo
              else bo\<lparr>bo_mmap_offset := MMAP_OFFSET_BASE + ucast (bo_handle bo) * MMAP_OFFSET_STRIDE,
                      bo_mapped := True\<rparr>)
        in (RC_OK, Some (bo_mmap_offset bo'), s\<lparr>sh_bos := bo_update handle bo' (sh_bos s)\<rparr>))"

definition VIRTGPU_EXECBUF_FENCE_FD_OUT :: u32 where "VIRTGPU_EXECBUF_FENCE_FD_OUT = 2"

record virtgpu_execbuffer =
  eb_flags :: u32
  eb_size :: u32
  eb_command :: bytes   \<comment> \<open>the memory at \<^verbatim>\<open>eb->command\<close>, as long as it may be accessed\<close>
  eb_fence_fd :: int

text \<open>
  \<^verbatim>\<open>shim_execbuffer\<close>: the command is padded to dwords in place. \<open>None\<close> is an access beyond the
  caller's memory.
\<close>

definition shim_execbuffer :: "virtgpu_execbuffer \<Rightarrow> shim \<Rightarrow> (rc \<times> virtgpu_execbuffer \<times> shim) option" where
  "shim_execbuffer eb s0 =
    (let (r, s) = sh_connect s0
     in if r < 0 then Some (RC_ERR EIO, eb, s)
     else
     let size_dwords = (eb_size eb + 3) div 4;
         padded_size = size_dwords * 4;
         n = unat (eb_size eb); m = unat padded_size
     in if length (eb_command eb) < m then None
     else
     let cmd = (if padded_size > eb_size eb
                then take n (eb_command eb) @ replicate (m - n) 0 @ drop m (eb_command eb)
                else eb_command eb);
         (ok, w1) = vtest_command [size_dwords, VCMD_SUBMIT_CMD] (take m cmd) (sh_w s)
     in if \<not> ok then Some (RC_ERR EIO, eb\<lparr>eb_command := cmd\<rparr>, s\<lparr>sh_w := w1\<rparr>)
     else if eb_flags eb AND VIRTGPU_EXECBUF_FENCE_FD_OUT \<noteq> 0
     then let (fd, w2) = sys_anon ''anon_inode:[eventfd]'' w1
       in Some (RC_OK, eb\<lparr>eb_command := cmd, eb_fence_fd := fd\<rparr>, s\<lparr>sh_w := w2\<rparr>)
     else Some (RC_OK, eb\<lparr>eb_command := cmd\<rparr>, s\<lparr>sh_w := w1\<rparr>))"

record virtgpu_transfer =
  t_bo_handle :: u32
  t_x :: u32
  t_y :: u32
  t_z :: u32
  t_w :: u32
  t_h :: u32
  t_d :: u32
  t_level :: u32
  t_offset :: u32

definition bo_res :: "shim \<Rightarrow> u32 \<Rightarrow> u32" where
  "bo_res s h = (case bo_lookup (sh_bos s) h of None \<Rightarrow> 0 | Some bo \<Rightarrow> bo_res_handle bo)"

definition transfer_payload :: "u32 \<Rightarrow> virtgpu_transfer \<Rightarrow> u32 list" where
  "transfer_payload res t = [res, t_level t, t_x t, t_y t, t_z t, t_w t, t_h t, t_d t, 0, t_offset t]"

definition shim_transfer :: "u32 \<Rightarrow> virtgpu_transfer \<Rightarrow> shim \<Rightarrow> rc \<times> shim" where
  "shim_transfer cmd t s0 =
    (let (r, s) = sh_connect s0
     in if r < 0 then (RC_ERR EIO, s)
     else let res = bo_res s (t_bo_handle t)
     in if res = 0 then (RC_ERR ENOENT, s)
     else let (ok, w) = vtest_command [10, cmd] (dwords (transfer_payload res t)) (sh_w s)
     in (if ok then RC_OK else RC_ERR EIO, s\<lparr>sh_w := w\<rparr>))"

definition shim_transfer_to_host :: "virtgpu_transfer \<Rightarrow> shim \<Rightarrow> rc \<times> shim" where
  "shim_transfer_to_host = shim_transfer VCMD_TRANSFER_PUT2"

definition shim_transfer_from_host :: "virtgpu_transfer \<Rightarrow> shim \<Rightarrow> rc \<times> shim" where
  "shim_transfer_from_host = shim_transfer VCMD_TRANSFER_GET2"

subsection \<open>Waiting, queries and release\<close>

definition VIRTGPU_WAIT_NOWAIT :: u32 where "VIRTGPU_WAIT_NOWAIT = 1"

definition shim_wait :: "u32 \<Rightarrow> u32 \<Rightarrow> shim \<Rightarrow> rc \<times> shim" where
  "shim_wait handle flags s0 =
    (let (r, s) = sh_connect s0
     in if r < 0 then (RC_ERR EIO, s)
     else let res = bo_res s handle
     in if res = 0 then (RC_ERR ENOENT, s)
     else
     let nowait = flags AND VIRTGPU_WAIT_NOWAIT \<noteq> 0;
         vtest_flags = (if \<not> nowait then VCMD_BUSY_WAIT_FLAG_WAIT else 0);
         (ok, w1) = vtest_command [2, VCMD_RESOURCE_BUSY_WAIT] (dwords [res, vtest_flags]) (sh_w s)
     in if \<not> ok then (RC_ERR EIO, s\<lparr>sh_w := w1\<rparr>)
     else (case vtest_block_read 8 w1 of
         (None, w2) \<Rightarrow> (RC_ERR EIO, s\<lparr>sh_w := w2\<rparr>)
       | (Some _, w2) \<Rightarrow> (case vtest_block_read 4 w2 of
             (None, w3) \<Rightarrow> (RC_ERR EIO, s\<lparr>sh_w := w3\<rparr>)
           | (Some busy, w3) \<Rightarrow>
               (if un_le32 busy \<noteq> 0 \<and> nowait then RC_ERR EBUSY else RC_OK, s\<lparr>sh_w := w3\<rparr>))))"

text \<open>\<^verbatim>\<open>shim_resource_info\<close>: the resource id, size and stride of an object.\<close>

definition shim_resource_info :: "u32 \<Rightarrow> shim \<Rightarrow> rc \<times> (u32 \<times> u32 \<times> u32) option" where
  "shim_resource_info handle s = (case bo_lookup (sh_bos s) handle of
      None \<Rightarrow> (RC_ERR ENOENT, None)
    | Some bo \<Rightarrow> (RC_OK, Some (bo_res_handle bo, bo_size bo, bo_stride bo)))"

text \<open>
  \<^verbatim>\<open>shim_gem_close\<close>: unmap, close, free the slot, and tell the server unless the buffer is
  Android's. The outcome of the two writes is ignored.
\<close>

definition shim_gem_close :: "u32 \<Rightarrow> shim \<Rightarrow> rc \<times> shim" where
  "shim_gem_close handle s = (case bo_lookup (sh_bos s) handle of
      None \<Rightarrow> (RC_OK, s)
    | Some bo \<Rightarrow>
        let w1 = (case bo_mmap_ptr bo of
                Some p \<Rightarrow> if bo_size bo > 0
                  then (sh_w s)\<lparr>unmapped := unmapped (sh_w s) @ [(p, bo_size bo)]\<rparr> else sh_w s
              | None \<Rightarrow> sh_w s);
            w2 = (if bo_shm_fd bo \<ge> 0 then sys_close (bo_shm_fd bo) w1 else w1);
            s1 = s\<lparr>sh_bos := bo_update handle zero_bo (sh_bos s), sh_w := w2\<rparr>
        in if bo_res_handle bo \<noteq> 0 \<and> \<not> bo_is_ahb bo \<and> vtest_sock (sh_conn s) \<ge> 0
           then let (_, w3) = vtest_block_write (dwords [1, VCMD_RESOURCE_UNREF]) w2;
                    (_, w4) = vtest_block_write (dwords [bo_res_handle bo]) w3
                in (RC_OK, s1\<lparr>sh_w := w4\<rparr>)
           else (RC_OK, s1))"

definition DRM_CAP_DUMB_BUFFER :: u64 where "DRM_CAP_DUMB_BUFFER = 1"
definition DRM_CAP_PRIME :: u64 where "DRM_CAP_PRIME = 5"
definition DRM_CAP_TIMESTAMP_MONOTONIC :: u64 where "DRM_CAP_TIMESTAMP_MONOTONIC = 6"
definition DRM_CAP_SYNCOBJ :: u64 where "DRM_CAP_SYNCOBJ = 0x13"
definition DRM_CAP_SYNCOBJ_TIMELINE :: u64 where "DRM_CAP_SYNCOBJ_TIMELINE = 0x14"
definition DRM_PRIME_CAP_IMPORT :: u64 where "DRM_PRIME_CAP_IMPORT = 1"
definition DRM_PRIME_CAP_EXPORT :: u64 where "DRM_PRIME_CAP_EXPORT = 2"

lemmas DRM_CAP_defs = DRM_CAP_DUMB_BUFFER_def DRM_CAP_PRIME_def DRM_CAP_TIMESTAMP_MONOTONIC_def
  DRM_CAP_SYNCOBJ_def DRM_CAP_SYNCOBJ_TIMELINE_def DRM_PRIME_CAP_IMPORT_def DRM_PRIME_CAP_EXPORT_def

definition shim_get_cap_ioctl :: "u64 \<Rightarrow> rc \<times> u64" where
  "shim_get_cap_ioctl capability =
    (if capability = DRM_CAP_PRIME then (RC_OK, DRM_PRIME_CAP_IMPORT OR DRM_PRIME_CAP_EXPORT)
     else if capability = DRM_CAP_SYNCOBJ \<or> capability = DRM_CAP_SYNCOBJ_TIMELINE then (RC_OK, 1)
     else if capability = DRM_CAP_TIMESTAMP_MONOTONIC then (RC_OK, 1)
     else (RC_OK, 0))"

text \<open>\<^verbatim>\<open>drmGetCap\<close>: the library's answer to the same question; the argument is whether \<open>value\<close> is given.\<close>

definition drmGetCap :: "u64 \<Rightarrow> bool \<Rightarrow> rc \<times> u64 option" where
  "drmGetCap capability value =
    (if \<not> value then (RC_ERR EINVAL, None)
     else if capability = DRM_CAP_PRIME then (RC_OK, Some (DRM_PRIME_CAP_IMPORT OR DRM_PRIME_CAP_EXPORT))
     else if capability = DRM_CAP_SYNCOBJ \<or> capability = DRM_CAP_SYNCOBJ_TIMELINE
       \<or> capability = DRM_CAP_DUMB_BUFFER then (RC_OK, Some 1)
     else if capability = DRM_CAP_TIMESTAMP_MONOTONIC then (RC_OK, Some 1)
     else (RC_ERR EINVAL, None))"

subsection \<open>Synchronising before an export\<close>

definition vtest_busy_wait_for_resource :: "u32 \<Rightarrow> conn \<Rightarrow> world \<Rightarrow> world" where
  "vtest_busy_wait_for_resource res c w =
    (if vtest_sock c < 0 \<or> res = 0 then w
     else let (ok, w1) = vtest_command [2, VCMD_RESOURCE_BUSY_WAIT]
            (dwords [res, VCMD_BUSY_WAIT_FLAG_WAIT]) w
     in if \<not> ok then w1
     else (case vtest_block_read 8 w1 of
         (None, w2) \<Rightarrow> w2 | (Some _, w2) \<Rightarrow> snd (vtest_block_read 4 w2)))"

definition vtest_transfer_get_for_export :: "u32 \<Rightarrow> u32 \<Rightarrow> u32 \<Rightarrow> conn \<Rightarrow> world \<Rightarrow> world" where
  "vtest_transfer_get_for_export res width height c w =
    (if vtest_sock c < 0 \<or> res = 0 then w
     else snd (vtest_command [10, VCMD_TRANSFER_GET2]
       (dwords [res, 0, 0, 0, 0, width, height, 1, 0, 0]) w))"

end
