(* ===== verification/DrmApi.thy ===== *)
theory DrmApi
  imports DrmIoctl
begin

text \<open>
  The rest of the DRM surface of \<^verbatim>\<open>drm_shim.c\<close>: sharing buffers by descriptor (PRIME), the
  fake device and version, and the dispatcher \<^verbatim>\<open>drmIoctl\<close>. A handler that may not come back (an
  access outside an object, or a loop that does not end) returns an option.
\<close>

subsection \<open>Exporting a buffer\<close>

definition dup_errno :: "int \<Rightarrow> world \<Rightarrow> errno" where
  "dup_errno fd w = (if fd_tab w fd = None then EBADF else EMFILE)"

text \<open>
  The diagnostic probe maps a page of the exported file and reads 256 bytes of it. On an empty
  memfd the mapping succeeds and the read is a bus error.
\<close>

definition shm_probe_faults :: "int \<Rightarrow> world \<Rightarrow> bool" where
  "shm_probe_faults fd w = (case fd_tab w fd of None \<Rightarrow> False
     | Some fi \<Rightarrow> fi_size fi = 0 \<and> has_prefix ''/memfd:'' (fi_link fi))"

definition shim_prime_handle_to_fd :: "u32 \<Rightarrow> shim \<Rightarrow> (rc \<times> int \<times> shim) option" where
  "shim_prime_handle_to_fd handle s = (case bo_lookup (sh_bos s) handle of
      None \<Rightarrow> Some (RC_ERR ENOENT, -1, s)
    | Some bo \<Rightarrow>
        let res = bo_res_handle bo; shm_fd = bo_shm_fd bo; c = sh_conn s
        in if bo_is_ahb bo \<and> shm_fd \<ge> 0
           then let w1 = vtest_busy_wait_for_resource res c (sh_w s);
                    (fd, w2) = sys_dup shm_fd w1
             in Some (if fd \<ge> 0 then RC_OK else RC_ERR (dup_errno shm_fd w1), fd, s\<lparr>sh_w := w2\<rparr>)
           else if shm_fd \<ge> 0
           then let w1 = vtest_transfer_get_for_export res (bo_width bo) (bo_height bo) c (sh_w s);
                    w2 = vtest_busy_wait_for_resource res c w1
             in if shm_probe_faults shm_fd w2 then None
                else let (fd, w3) = sys_dup shm_fd w2
                  in Some (if fd \<ge> 0 then RC_OK else RC_ERR (dup_errno shm_fd w2), fd, s\<lparr>sh_w := w3\<rparr>)
           else let (fd, w1) = sys_anon ''/memfd:drm-shim-prime (deleted)'' (sh_w s)
             in Some (if fd \<ge> 0 then RC_OK else RC_ERR EMFILE, fd, s\<lparr>sh_w := w1\<rparr>))"

text \<open>\<^verbatim>\<open>drmPrimeHandleToFD\<close>: the same steps behind a null check, reporting \<^verbatim>\<open>-errno\<close>.\<close>

definition drmPrimeHandleToFD :: "u32 \<Rightarrow> bool \<Rightarrow> shim \<Rightarrow> (rc \<times> int \<times> shim) option" where
  "drmPrimeHandleToFD handle prime_fd s =
    (if \<not> prime_fd then Some (RC_ERR EINVAL, -1, s) else shim_prime_handle_to_fd handle s)"

subsection \<open>Importing a buffer\<close>

text \<open>The scan of \<^verbatim>\<open>bo_find_by_inode\<close>; the outer \<open>None\<close> is an index beyond the table.\<close>

fun scan_inode :: "drm_shim_bo list \<Rightarrow> world \<Rightarrow> u64 \<times> u64 \<Rightarrow> nat list \<Rightarrow> drm_shim_bo option option" where
  "scan_inode tab w k [] = Some None"
| "scan_inode tab w k (i # is) =
     (if length tab \<le> i then None
      else let bo = tab ! i
        in if bo_handle bo \<noteq> 0 \<and> bo_shm_fd bo \<ge> 0 \<and> sys_fstat (bo_shm_fd bo) w = Some k
           then Some (Some bo) else scan_inode tab w k is)"

definition bo_find_by_inode :: "int \<Rightarrow> bo_state \<Rightarrow> world \<Rightarrow> drm_shim_bo option option" where
  "bo_find_by_inode fd b w = (case sys_fstat fd w of None \<Rightarrow> Some None
     | Some k \<Rightarrow> scan_inode (bo_table b) w k [1..<unat (bo_handle_next b)])"

definition shim_prime_fd_to_handle :: "int \<Rightarrow> shim \<Rightarrow> (rc \<times> u32 \<times> shim) option" where
  "shim_prime_fd_to_handle fd s0 =
    (let size = (if sys_lseek_end fd (sh_w s0) < 0 then 0 else sys_lseek_end fd (sh_w s0));
         ahb = fd_is_ahb fd (sh_w s0)
     in case bo_find_by_inode fd (sh_bos s0) (sh_w s0) of
       None \<Rightarrow> None
     | Some (Some existing) \<Rightarrow> Some (RC_OK, bo_handle existing, s0)
     | Some None \<Rightarrow> (case sh_bo_alloc s0 of
           None \<Rightarrow> None
         | Some (None, s) \<Rightarrow> Some (RC_ERR ENOMEM, 0, s)
         | Some (Some h, s) \<Rightarrow>
             let (dfd, w) = sys_dup fd (sh_w s);
                 bo = (new_bo h)\<lparr>bo_shm_fd := dfd, bo_size := of_int size, bo_res_handle := 0,
                        bo_is_ahb := ahb\<rparr>;
                 bo' = (case inode_cache_lookup fd bo w (sh_inodes s) of
                        None \<Rightarrow> bo | Some bo' \<Rightarrow> bo')
             in Some (RC_OK, h, s\<lparr>sh_bos := bo_update h bo' (sh_bos s), sh_w := w\<rparr>)))"

definition drmPrimeFDToHandle :: "int \<Rightarrow> bool \<Rightarrow> shim \<Rightarrow> (rc \<times> u32 \<times> shim) option" where
  "drmPrimeFDToHandle fd handle s =
    (if \<not> handle then Some (RC_ERR EINVAL, 0, s) else shim_prime_fd_to_handle fd s)"

subsection \<open>The fake device\<close>

text \<open>\<^verbatim>\<open>ALIGN_UP\<close> in \<^verbatim>\<open>size_t\<close> arithmetic, and the layout \<^verbatim>\<open>alloc_fake_device\<close> computes.\<close>

definition ALIGN_UP :: "u64 \<Rightarrow> u64 \<Rightarrow> u64" where
  "ALIGN_UP x align = (x + align - 1) AND NOT (align - 1)"

record device_layout =
  off_device :: u64
  off_nodes :: u64
  off_card_str :: u64
  off_render_str :: u64
  off_businfo :: u64
  off_devinfo :: u64
  off_compat_arr :: u64
  off_compat_str :: u64
  off_total :: u64

text \<open>
  The sizes of the libdrm structures on LP64 targets: \<^verbatim>\<open>drmDevice\<close> 32, a pointer 8,
  \<^verbatim>\<open>drmPlatformBusInfo\<close> 512 bytes of alignment 1, \<^verbatim>\<open>drmPlatformDeviceInfo\<close> one pointer.
\<close>

definition fake_device_layout :: "u64 \<Rightarrow> u64 \<Rightarrow> u64 \<Rightarrow> device_layout" where
  "fake_device_layout card_len render_len compat_len =
    (let t0 = 0; t1 = t0 + 32; t2 = t1 + 8 * 3; t3 = t2 + card_len; t4 = t3 + render_len;
         t5 = ALIGN_UP t4 1; t6 = t5 + 512; t7 = ALIGN_UP t6 8; t8 = t7 + 8;
         t9 = ALIGN_UP t8 8; t10 = t9 + 8 * 2; t11 = t10 + compat_len
     in \<lparr>off_device = t0, off_nodes = t1, off_card_str = t2, off_render_str = t3,
         off_businfo = t5, off_devinfo = t7, off_compat_arr = t9, off_compat_str = t10,
         off_total = t11\<rparr>)"

record fake_device =
  dev_available_nodes :: u32
  dev_primary :: string
  dev_render :: string
  dev_bustype :: nat
  dev_fullname :: string
  dev_compatible :: "string list"

definition DRM_SHIM_RENDER_NODE :: string where "DRM_SHIM_RENDER_NODE = ''/dev/dri/renderD128''"
definition DRM_SHIM_CARD_NODE :: string where "DRM_SHIM_CARD_NODE = ''/dev/dri/card0''"
definition DRM_SHIM_PLATFORM_NAME :: string where "DRM_SHIM_PLATFORM_NAME = ''virtio-gpu''"

definition alloc_fake_device :: "world \<Rightarrow> fake_device option \<times> world" where
  "alloc_fake_device w =
    (let (ok, w1) = sys_alloc w
     in if \<not> ok then (None, w1)
        else (Some \<lparr>dev_available_nodes = push_bit 2 1 OR push_bit 0 1,
                dev_primary = DRM_SHIM_CARD_NODE, dev_render = DRM_SHIM_RENDER_NODE,
                dev_bustype = 2, dev_fullname = DRM_SHIM_PLATFORM_NAME,
                dev_compatible = [DRM_SHIM_PLATFORM_NAME]\<rparr>, w1))"

text \<open>
  \<^verbatim>\<open>drmGetDevices2\<close>: the count, or a negative errno (\<open>Inl\<close>), and the array; \<open>None\<close> for the array
  is the count-only query.
\<close>

definition drmGetDevices2 :: "fake_device list option \<Rightarrow> int \<Rightarrow> world
    \<Rightarrow> (errno + nat) \<times> fake_device list option \<times> world" where
  "drmGetDevices2 devices max_devices w = (case devices of
      None \<Rightarrow> (Inr 1, None, w)
    | Some ds \<Rightarrow>
        if max_devices \<le> 0 then (Inr 1, devices, w)
        else (case alloc_fake_device w of
            (None, w1) \<Rightarrow> (Inl ENOMEM, devices, w1)
          | (Some d, w1) \<Rightarrow> (Inr 1, Some (ds[0 := d]), w1)))"

definition drmGetDevice2 :: "int \<Rightarrow> bool \<Rightarrow> shim \<Rightarrow> rc \<times> fake_device option \<times> shim" where
  "drmGetDevice2 fd device s =
    (if \<not> device then (RC_ERR EINVAL, None, s)
     else if \<not> drm_fd_is_tracked fd (sh_fds s) then (RC_ERR ENODEV, None, s)
     else (case alloc_fake_device (sh_w s) of
         (None, w) \<Rightarrow> (RC_ERR ENOMEM, None, s\<lparr>sh_w := w\<rparr>)
       | (Some d, w) \<Rightarrow> (RC_OK, Some d, s\<lparr>sh_w := w\<rparr>)))"

subsection \<open>Version\<close>

definition DRM_SHIM_DRIVER_NAME :: string where "DRM_SHIM_DRIVER_NAME = ''virtio_gpu''"
definition DRM_SHIM_DRIVER_DATE :: string where "DRM_SHIM_DRIVER_DATE = ''20260422''"
definition DRM_SHIM_DRIVER_DESC :: string where
  "DRM_SHIM_DRIVER_DESC = ''Coder virtio-gpu bridge (drm-shim)''"

text \<open>A caller's string buffer: the memory (\<open>None\<close> for \<^verbatim>\<open>NULL\<close>) and the length member.\<close>

type_synonym strbuf = "bytes option \<times> u64"

record drm_version =
  v_major :: int
  v_minor :: int
  v_patchlevel :: int
  v_name :: strbuf
  v_date :: strbuf
  v_desc :: strbuf

definition fill_strbuf :: "string \<Rightarrow> strbuf \<Rightarrow> strbuf" where
  "fill_strbuf str b = (case b of (mem, len) \<Rightarrow>
     let slen = of_nat (length str) :: u64;
         copy = unat (if len < slen then len else slen)
     in (if len > 0 then map_option (\<lambda>m. take copy (to_bytes str) @ drop copy m) mem else mem, slen))"

definition shim_version_ioctl :: "drm_version \<Rightarrow> drm_version" where
  "shim_version_ioctl v = v\<lparr>v_major := 0, v_minor := 1, v_patchlevel := 0,
     v_name := fill_strbuf DRM_SHIM_DRIVER_NAME (v_name v),
     v_date := fill_strbuf DRM_SHIM_DRIVER_DATE (v_date v),
     v_desc := fill_strbuf DRM_SHIM_DRIVER_DESC (v_desc v)\<rparr>"

text \<open>
  \<^verbatim>\<open>drmGetVersion\<close>: one allocation for the structure and one per string; a failed string
  frees everything and gives \<^verbatim>\<open>NULL\<close>.
\<close>

definition drmGetVersion :: "world \<Rightarrow> (int \<times> int \<times> int \<times> string \<times> string \<times> string) option \<times> world" where
  "drmGetVersion w =
    (let (ok, w1) = sys_alloc w
     in if \<not> ok then (None, w1)
        else let (name, w2) = sys_alloc w1; (date, w3) = sys_alloc w2; (desc, w4) = sys_alloc w3
        in if \<not> name \<or> \<not> date \<or> \<not> desc then (None, w4)
           else (Some (0, 1, 0, DRM_SHIM_DRIVER_NAME, DRM_SHIM_DRIVER_DATE, DRM_SHIM_DRIVER_DESC), w4))"

definition drmGetMagic :: "bool \<Rightarrow> rc \<times> u32 option" where
  "drmGetMagic magic = (if \<not> magic then (RC_ERR EINVAL, None) else (RC_OK, Some 0x434F4445))"

subsection \<open>Dispatch\<close>

text \<open>The ioctl requests with their argument structures, as they go in and come out.\<close>

datatype drm_request =
    REQ_GETPARAM u64 u64
  | REQ_GET_CAPS virtgpu_get_caps
  | REQ_RESOURCE_CREATE virtgpu_resource_create
  | REQ_MAP u32 "u64 option"
  | REQ_EXECBUFFER virtgpu_execbuffer
  | REQ_TRANSFER_TO_HOST virtgpu_transfer
  | REQ_TRANSFER_FROM_HOST virtgpu_transfer
  | REQ_WAIT u32 u32
  | REQ_RESOURCE_INFO u32 "(u32 \<times> u32 \<times> u32) option"
  | REQ_GEM_CLOSE u32
  | REQ_GET_CAP u64 u64
  | REQ_PRIME_HANDLE_TO_FD u32 int
  | REQ_PRIME_FD_TO_HANDLE int u32
  | REQ_VERSION drm_version
  | REQ_SET_VERSION
  | REQ_SET_CLIENT_CAP
  | REQ_GEM_OPEN
  | REQ_GEM_FLINK
  | REQ_OTHER u64

fun drmIoctl :: "drm_request \<Rightarrow> shim \<Rightarrow> (rc \<times> drm_request \<times> shim) option" where
  "drmIoctl (REQ_GETPARAM p v) s = (let (r, v') = shim_getparam p in Some (r, REQ_GETPARAM p v', s))"
| "drmIoctl (REQ_GET_CAPS gc) s =
     (let (r, gc', s') = shim_get_caps gc s in Some (r, REQ_GET_CAPS gc', s'))"
| "drmIoctl (REQ_RESOURCE_CREATE rc) s =
     map_option (\<lambda>(r, rc', s'). (r, REQ_RESOURCE_CREATE rc', s')) (shim_resource_create rc s)"
| "drmIoctl (REQ_MAP h off) s =
     (let (r, off', s') = shim_map h s
      in Some (r, REQ_MAP h (if off' = None then off else off'), s'))"
| "drmIoctl (REQ_EXECBUFFER eb) s =
     map_option (\<lambda>(r, eb', s'). (r, REQ_EXECBUFFER eb', s')) (shim_execbuffer eb s)"
| "drmIoctl (REQ_TRANSFER_TO_HOST t) s =
     (let (r, s') = shim_transfer_to_host t s in Some (r, REQ_TRANSFER_TO_HOST t, s'))"
| "drmIoctl (REQ_TRANSFER_FROM_HOST t) s =
     (let (r, s') = shim_transfer_from_host t s in Some (r, REQ_TRANSFER_FROM_HOST t, s'))"
| "drmIoctl (REQ_WAIT h f) s = (let (r, s') = shim_wait h f s in Some (r, REQ_WAIT h f, s'))"
| "drmIoctl (REQ_RESOURCE_INFO h i) s =
     (let (r, i') = shim_resource_info h s
      in Some (r, REQ_RESOURCE_INFO h (if i' = None then i else i'), s))"
| "drmIoctl (REQ_GEM_CLOSE h) s = (let (r, s') = shim_gem_close h s in Some (r, REQ_GEM_CLOSE h, s'))"
| "drmIoctl (REQ_GET_CAP c v) s = (let (r, v') = shim_get_cap_ioctl c in Some (r, REQ_GET_CAP c v', s))"
| "drmIoctl (REQ_PRIME_HANDLE_TO_FD h fd) s =
     map_option (\<lambda>(r, fd', s').
         (r, REQ_PRIME_HANDLE_TO_FD h (if r = RC_ERR ENOENT then fd else fd'), s'))
       (shim_prime_handle_to_fd h s)"
| "drmIoctl (REQ_PRIME_FD_TO_HANDLE fd h) s =
     map_option (\<lambda>(r, h', s'). (r, REQ_PRIME_FD_TO_HANDLE fd (if r = RC_OK then h' else h), s'))
       (shim_prime_fd_to_handle fd s)"
| "drmIoctl (REQ_VERSION v) s = Some (RC_OK, REQ_VERSION (shim_version_ioctl v), s)"
| "drmIoctl REQ_SET_VERSION s = Some (RC_OK, REQ_SET_VERSION, s)"
| "drmIoctl REQ_SET_CLIENT_CAP s = Some (RC_OK, REQ_SET_CLIENT_CAP, s)"
| "drmIoctl REQ_GEM_OPEN s = Some (RC_ERR ENOSYS, REQ_GEM_OPEN, s)"
| "drmIoctl REQ_GEM_FLINK s = Some (RC_ERR ENOSYS, REQ_GEM_FLINK, s)"
| "drmIoctl (REQ_OTHER n) s = Some (RC_OK, REQ_OTHER n, s)"

definition drmClose :: "int \<Rightarrow> shim \<Rightarrow> rc \<times> shim" where
  "drmClose fd s =
    (let s1 = s\<lparr>sh_fds := drm_fd_remove fd (sh_fds s)\<rparr>
     in (if fd_tab (sh_w s1) fd = None then RC_ERR EBADF else RC_OK, s1\<lparr>sh_w := sys_close fd (sh_w s1)\<rparr>))"

end
