(* ===== verification/DrmInvariant.thy ===== *)
theory DrmInvariant
  imports DrmApi
begin

text \<open>
  The invariant of the shim's state across every ioctl: the tables are well formed, and the
  descriptors the shim holds are its own, one owner each, all open. So closing an object closes a
  descriptor of that object and of nothing else.
\<close>

subsection \<open>Frames of the shared steps\<close>

lemma vtest_command_frame:
  assumes "vtest_command hdr p w = (ok, w')"
  shows "w' = w\<lparr>tx := tx w', wsched := wsched w'\<rparr>"
proof -
  obtain r1 w1 where w1: "vtest_block_write (dwords hdr) w = (r1, w1)" by fastforce
  obtain r2 w2 where w2: "vtest_block_write p w1 = (r2, w2)" by fastforce
  from assms w1 w2 have "w' = w1 \<or> w' = w2"
    by (auto simp: vtest_command_def Let_def split: if_splits)
  with block_write_frame [OF w1] block_write_frame [OF w2] show ?thesis
    by (cases w; cases w1; cases w2; cases w') auto
qed

lemma vtest_command_fields:
  assumes "vtest_command hdr p w = (ok, w')"
  shows "fd_tab w' = fd_tab w" "rx w' = rx w" "rx_anc w' = rx_anc w" "rsched w' = rsched w"
    "alloc_sched w' = alloc_sched w" "unmapped w' = unmapped w" "soft_reads w' = soft_reads w"
  unfolding soft_reads_def by (subst vtest_command_frame [OF assms], simp)+

lemma vtest_command_tab: "vtest_command hdr p w = (ok, w') \<Longrightarrow> fd_tab w' = fd_tab w"
  by (rule vtest_command_fields)

lemma create_reply_tab: "create_reply v h w = (r, w') \<Longrightarrow> fd_tab w' = fd_tab w"
  by (auto simp: create_reply_def split: prod.splits option.splits if_splits
      dest!: block_read_fields(1))

lemma caps_discard_tab: "fd_tab (caps_discard n w) = fd_tab w"
proof (induction n w rule: caps_discard.induct)
  case (1 n w)
  show ?case
  proof (cases "n = 0")
    case False
    obtain r w1 where "vtest_block_read (min n 256) w = (r, w1)" by fastforce
    with "1.IH" [OF False refl] False block_read_fields(1) [OF this] show ?thesis
      by (simp add: caps_discard.simps [of n w] Let_def)
  qed (simp add: caps_discard.simps)
qed

lemma sys_alloc_tab: "sys_alloc w = (ok, w') \<Longrightarrow> fd_tab w' = fd_tab w"
  by (auto simp: sys_alloc_def split: list.splits)

lemma busy_wait_tab: "fd_tab (vtest_busy_wait_for_resource res c w) = fd_tab w"
proof -
  have "fd_tab (snd (vtest_block_read n w')) = fd_tab w'" for n w'
    by (cases "vtest_block_read n w'") (simp add: block_read_fields(1))
  then show ?thesis
    by (auto simp: vtest_busy_wait_for_resource_def split: prod.splits option.splits
        dest!: vtest_command_tab block_read_fields(1))
qed

lemma transfer_get_tab: "fd_tab (vtest_transfer_get_for_export res a b c w) = fd_tab w"
  by (cases "vtest_command [10, VCMD_TRANSFER_GET2] (dwords [res, 0, 0, 0, 0, a, b, 1, 0, 0]) w")
    (auto simp: vtest_transfer_get_for_export_def dest!: vtest_command_tab)

subsection \<open>Ownership\<close>

definition fd_owner :: "bo_state \<Rightarrow> u32 \<Rightarrow> int option" where
  "fd_owner b h = (case bo_lookup b h of None \<Rightarrow> None
     | Some bo \<Rightarrow> if bo_shm_fd bo < 0 then None else Some (bo_shm_fd bo))"

definition owns :: "(u32 \<Rightarrow> int option) \<Rightarrow> int \<Rightarrow> (int \<Rightarrow> finfo option) \<Rightarrow> bool" where
  "owns own sock tab \<longleftrightarrow>
     (\<forall>h fd. own h = Some fd \<longrightarrow> tab fd \<noteq> None \<and> fd \<noteq> sock)
     \<and> (\<forall>h h' fd. own h = Some fd \<and> own h' = Some fd \<longrightarrow> h = h')
     \<and> (0 \<le> sock \<longrightarrow> tab sock \<noteq> None)"

lemma ownsI:
  assumes "\<And>h fd. own h = Some fd \<Longrightarrow> tab fd \<noteq> None"
    and "\<And>h fd. own h = Some fd \<Longrightarrow> fd \<noteq> sock"
    and "\<And>h h' fd. own h = Some fd \<Longrightarrow> own h' = Some fd \<Longrightarrow> h = h'"
    and "0 \<le> sock \<Longrightarrow> tab sock \<noteq> None"
  shows "owns own sock tab"
  unfolding owns_def using assms by blast

lemma ownsD:
  assumes "owns own sock tab"
  shows "own h = Some fd \<Longrightarrow> tab fd \<noteq> None" and "own h = Some fd \<Longrightarrow> fd \<noteq> sock"
    and "own h = Some fd \<Longrightarrow> own h' = Some fd \<Longrightarrow> h = h'" and "0 \<le> sock \<Longrightarrow> tab sock \<noteq> None"
  using assms unfolding owns_def by blast+

lemma map_le_Some: "m \<subseteq>\<^sub>m m' \<Longrightarrow> m x = Some y \<Longrightarrow> m' x = Some y"
  unfolding map_le_def dom_def by fastforce

lemma owns_mono:
  assumes o: "owns own sock tab" and le: "own' \<subseteq>\<^sub>m own" "tab \<subseteq>\<^sub>m tab'"
  shows "owns own' sock tab'"
proof (rule ownsI)
  fix h fd
  assume "own' h = Some fd"
  then have "own h = Some fd" by (rule map_le_Some [OF le(1)])
  from ownsD(1,2) [OF o this] show "fd \<noteq> sock" "tab' fd \<noteq> None"
    using map_le_Some [OF le(2)] by auto
next
  fix h h' fd
  assume "own' h = Some fd" "own' h' = Some fd"
  then show "h = h'" using ownsD(3) [OF o] map_le_Some [OF le(1)] by blast
next
  assume "0 \<le> sock"
  with ownsD(4) [OF o] map_le_Some [OF le(2)] show "tab' sock \<noteq> None" by auto
qed

lemma owns_closed_fd: "\<lbrakk>owns own sock tab; tab fd = None\<rbrakk> \<Longrightarrow> own h \<noteq> Some fd"
  using ownsD(1) by blast

lemma owns_new:
  assumes o: "owns own sock tab" and free: "tab fd = None" "0 \<le> fd"
  shows "owns (own(h := Some fd)) sock (tab(fd \<mapsto> fi))"
proof (rule ownsI)
  fix g fd'
  assume g: "(own(h := Some fd)) g = Some fd'"
  show "(tab(fd \<mapsto> fi)) fd' \<noteq> None"
    using g ownsD(1) [OF o] by (cases "g = h") auto
  show "fd' \<noteq> sock"
    using g ownsD(2,4) [OF o] free by (cases "g = h") auto
next
  fix g g' fd'
  assume "(own(h := Some fd)) g = Some fd'" "(own(h := Some fd)) g' = Some fd'"
  then show "g = g'"
    using owns_closed_fd [OF o free(1)] ownsD(3) [OF o] by (cases "g = h"; cases "g' = h") auto
qed (use ownsD(4) [OF o] in auto)

lemma owns_sock:
  assumes o: "owns own sock tab" and free: "tab fd = None"
  shows "owns own fd (tab(fd \<mapsto> fi))"
  by (rule ownsI) (use ownsD(1,3) [OF o] owns_closed_fd [OF o free] in auto)

lemma owns_close:
  assumes o: "owns own sock tab" and h: "own h = Some fd"
  shows "owns (own(h := None)) sock (tab(fd := None))"
proof (rule ownsI)
  fix g fd'
  assume g: "(own(h := None)) g = Some fd'"
  then have "g \<noteq> h" "own g = Some fd'" by (auto split: if_splits)
  with ownsD(3) [OF o h] have "fd' \<noteq> fd" by blast
  with ownsD(1,2) [OF o \<open>own g = Some fd'\<close>] show "(tab(fd := None)) fd' \<noteq> None" "fd' \<noteq> sock"
    by simp_all
next
  fix g g' fd'
  assume "(own(h := None)) g = Some fd'" "(own(h := None)) g' = Some fd'"
  then show "g = g'" using ownsD(3) [OF o] by (auto split: if_splits)
qed (use ownsD(2,4) [OF o] h in auto)

lemma owns_drop: "owns own sock tab \<Longrightarrow> owns (own(h := None)) sock tab"
  by (erule owns_mono) (auto simp: map_le_def)

lemma fd_owner_cong: "bo_lookup b = bo_lookup b' \<Longrightarrow> fd_owner b = fd_owner b'"
  by (rule ext) (simp add: fd_owner_def)

lemma fd_owner_upd:
  "bo_lookup b' = (bo_lookup b)(h := Some v) \<Longrightarrow>
     fd_owner b' = (fd_owner b)(h := if bo_shm_fd v < 0 then None else Some (bo_shm_fd v))"
  by (rule ext) (simp add: fd_owner_def)

lemma fd_owner_free: "bo_lookup b' = (bo_lookup b)(h := None) \<Longrightarrow> fd_owner b' = (fd_owner b)(h := None)"
  by (rule ext) (simp add: fd_owner_def)

definition shim_inv :: "shim \<Rightarrow> bool" where
  "shim_inv s \<longleftrightarrow> bo_inv (sh_bos s) \<and> icache_inv (sh_inodes s) \<and> fds_inv (sh_fds s)
     \<and> owns (fd_owner (sh_bos s)) (vtest_sock (sh_conn s)) (fd_tab (sh_w s))"

lemma shim_invI:
  "\<lbrakk>bo_inv (sh_bos s); icache_inv (sh_inodes s); fds_inv (sh_fds s);
    owns (fd_owner (sh_bos s)) (vtest_sock (sh_conn s)) (fd_tab (sh_w s))\<rbrakk> \<Longrightarrow> shim_inv s"
  by (simp add: shim_inv_def)

lemma shim_invD:
  assumes "shim_inv s"
  shows "bo_inv (sh_bos s)" "icache_inv (sh_inodes s)" "fds_inv (sh_fds s)"
    "owns (fd_owner (sh_bos s)) (vtest_sock (sh_conn s)) (fd_tab (sh_w s))"
  using assms by (simp_all add: shim_inv_def)

text \<open>A step that only grows the world's descriptor table keeps the invariant.\<close>

lemma shim_inv_world [inv_intros]:
  assumes "shim_inv s" "fd_tab (sh_w s) \<subseteq>\<^sub>m fd_tab w"
  shows "shim_inv (s\<lparr>sh_w := w\<rparr>)"
  using assms(1) owns_mono [OF shim_invD(4) [OF assms(1)] map_le_refl assms(2)]
  by (simp add: shim_inv_def)

lemma shim_inv_world_eq: "\<lbrakk>shim_inv s; fd_tab w = fd_tab (sh_w s)\<rbrakk> \<Longrightarrow> shim_inv (s\<lparr>sh_w := w\<rparr>)"
  by (rule shim_inv_world) simp_all

lemma install_fd_le: "install_fd fi w = (fd, w') \<Longrightarrow> fd_tab w \<subseteq>\<^sub>m fd_tab w'"
  by (erule install_fd_cases) (auto simp: map_le_def)

lemma sys_dup_le: "sys_dup fd w = (fd', w') \<Longrightarrow> fd_tab w \<subseteq>\<^sub>m fd_tab w'"
  by (erule sys_dup_cases) (auto simp: map_le_def)

lemma sys_anon_le: "sys_anon l w = (fd, w') \<Longrightarrow> fd_tab w \<subseteq>\<^sub>m fd_tab w'"
  unfolding sys_anon_def by (drule install_fd_le) simp

lemma sh_connect_spec:
  assumes "sh_connect s = (r, s')"
  shows "sh_bos s' = sh_bos s \<and> sh_inodes s' = sh_inodes s \<and> sh_fds s' = sh_fds s"
  using assms by (auto simp: sh_connect_def split: prod.splits)

lemma shim_inv_connect:
  assumes inv: "shim_inv s" and c: "sh_connect s = (r, s')"
  shows "shim_inv s'"
proof -
  obtain k w where e: "vtest_ensure_connected (sh_conn s) (sh_w s) = (r, k, w)"
    and s': "s' = s\<lparr>sh_conn := k, sh_w := w\<rparr>"
    using c by (auto simp: sh_connect_def split: prod.splits)
  note i = shim_invD [OF inv]
  from ensure_connected_cases [OF e]
  consider "k = sh_conn s" "fd_tab w = fd_tab (sh_w s)"
    | fi where "fd_tab (sh_w s) (vtest_sock k) = None"
        "fd_tab w = (fd_tab (sh_w s))(vtest_sock k \<mapsto> fi)" by blast
  then show ?thesis
    by cases (use i owns_sock [OF i(4)] in \<open>simp_all add: s' shim_inv_def\<close>)
qed

subsection \<open>Every handler keeps the invariant\<close>

lemma sh_bo_alloc_cases:
  assumes inv: "shim_inv s" and a: "sh_bo_alloc s = Some (r, s')"
  obtains (null) "r = None" "shim_inv s'"
      "fd_tab (sh_w s') = fd_tab (sh_w s)" "sh_conn s' = sh_conn s" "sh_inodes s' = sh_inodes s"
  | (ok) h where "r = Some h" "h = bo_handle_next (sh_bos s)" "shim_inv s'" "bo_lookup (sh_bos s) h = None"
      "bo_lookup (sh_bos s') = (bo_lookup (sh_bos s))(h := Some (new_bo h))"
      "fd_tab (sh_w s') = fd_tab (sh_w s)" "sh_conn s' = sh_conn s" "sh_inodes s' = sh_inodes s"
proof -
  note i = shim_invD [OF inv]
  obtain ok w where okw: "(if of_nat (length (bo_table (sh_bos s))) \<le> bo_handle_next (sh_bos s)
      then sys_alloc (sh_w s) else (True, sh_w s)) = (ok, w)" by fastforce
  then have w: "fd_tab w = fd_tab (sh_w s)" by (auto split: if_splits dest: sys_alloc_tab)
  from a okw obtain b where b: "bo_alloc ok (sh_bos s) = Some (r, b)" "s' = s\<lparr>sh_bos := b, sh_w := w\<rparr>"
    by (auto simp: sh_bo_alloc_def)
  have small: "unat (bo_handle_next (sh_bos s)) < 2 ^ 31"
    using bo_alloc_diverges [OF i(1)] b(1) by (cases "unat (bo_handle_next (sh_bos s)) < 2 ^ 31") auto
  let ?h = "bo_handle_next (sh_bos s)"
  from bo_alloc_spec [OF i(1) small b(1)] have binv: "bo_inv b" and
    "r = Some ?h \<and> bo_lookup b = (bo_lookup (sh_bos s))(?h := Some (new_bo ?h))
     \<or> r = None \<and> bo_table b = bo_table (sh_bos s)" by auto
  then show thesis
  proof (elim disjE conjE)
    assume r: "r = Some ?h" "bo_lookup b = (bo_lookup (sh_bos s))(?h := Some (new_bo ?h))"
    have "fd_owner b = (fd_owner (sh_bos s))(?h := None)"
      by (simp add: fd_owner_upd [OF r(2)] new_bo_def)
    then have "shim_inv s'"
      using binv i w owns_drop [OF i(4), of ?h] by (simp add: b(2) shim_inv_def)
    with r b(2) w bo_fresh [OF i(1)] show thesis by (intro ok) auto
  next
    assume r: "r = None" "bo_table b = bo_table (sh_bos s)"
    then have "bo_lookup b = bo_lookup (sh_bos s)" by (auto simp: bo_lookup_def fun_eq_iff)
    then have "fd_owner b = fd_owner (sh_bos s)" by (rule fd_owner_cong)
    then have "shim_inv s'" using binv i w by (simp add: b(2) shim_inv_def)
    with r b(2) w show thesis by (intro null) auto
  qed
qed

text \<open>Writing an object that holds no descriptor, or keeps the one it has.\<close>

lemma shim_inv_keep:
  assumes inv: "shim_inv s" and bo: "bo_lookup (sh_bos s) h = Some bo"
    and v: "bo_handle v = h" "bo_shm_fd v = bo_shm_fd bo"
  shows "shim_inv (s\<lparr>sh_bos := bo_update h v (sh_bos s)\<rparr>)"
proof -
  note i = shim_invD [OF inv]
  from bo have ne: "bo_lookup (sh_bos s) h \<noteq> None" by simp
  have "fd_owner (bo_update h v (sh_bos s)) = fd_owner (sh_bos s)"
    by (rule ext) (simp add: fd_owner_upd [OF bos.update_lookup [OF i(1) ne v(1)]],
      simp add: fd_owner_def bo v(2))
  with i bos.inv_update [OF i(1) ne v(1)] show ?thesis by (simp add: shim_inv_def)
qed

text \<open>Filling in a fresh object with a descriptor that was just opened for it.\<close>

lemma shim_inv_fill:
  assumes inv: "shim_inv s" and bo: "bo_lookup (sh_bos s) h = Some bo" "bo_shm_fd bo < 0"
    and v: "bo_handle v = h" and c: "icache_inv c"
    and fd: "bo_shm_fd v < 0 \<and> fd_tab w = fd_tab (sh_w s) \<or> 0 \<le> bo_shm_fd v
      \<and> fd_tab (sh_w s) (bo_shm_fd v) = None
      \<and> (\<exists>fi. fd_tab w = (fd_tab (sh_w s))(bo_shm_fd v \<mapsto> fi))"
  shows "shim_inv (s\<lparr>sh_bos := bo_update h v (sh_bos s), sh_inodes := c, sh_w := w\<rparr>)"
proof -
  note i = shim_invD [OF inv]
  from bo have ne: "bo_lookup (sh_bos s) h \<noteq> None" by simp
  note own = fd_owner_upd [OF bos.update_lookup [OF i(1) ne v]]
  from fd have "owns (fd_owner (bo_update h v (sh_bos s))) (vtest_sock (sh_conn s)) (fd_tab w)"
  proof (elim disjE conjE exE)
    assume "bo_shm_fd v < 0" "fd_tab w = fd_tab (sh_w s)"
    with owns_drop [OF i(4), of h] show ?thesis by (simp add: own)
  next
    fix fi
    assume "0 \<le> bo_shm_fd v" "fd_tab (sh_w s) (bo_shm_fd v) = None"
      "fd_tab w = (fd_tab (sh_w s))(bo_shm_fd v \<mapsto> fi)"
    with owns_new [OF i(4)] show ?thesis by (simp add: own)
  qed
  with i c bos.inv_update [OF i(1) ne v] show ?thesis by (simp add: shim_inv_def)
qed

lemma icache_inv_store:
  assumes "icache_inv c"
  shows "icache_inv (inode_cache_store fd res w h st sz ahb wd c)"
proof -
  have "icache_inv (icache_put k (entry_of k (res, w, h, st, sz, ahb)) c)" for k
    by (rule icache.inv_put [OF assms])
  with assms show ?thesis by (auto simp: inode_cache_store_def split: option.split)
qed

lemma shim_inv_get_caps:
  assumes inv: "shim_inv s" and e: "shim_get_caps gc s = (r, gc', s')"
  shows "shim_inv s'"
proof -
  obtain r0 s1 where c: "sh_connect s = (r0, s1)" by fastforce
  note i = shim_inv_connect [OF inv c]
  from e c have "s' = s1 \<or> (\<exists>w. s' = s1\<lparr>sh_w := w\<rparr> \<and> fd_tab w = fd_tab (sh_w s1))"
    by (auto simp: shim_get_caps_def Let_def caps_discard_tab split: prod.splits if_splits option.splits
        dest!: block_write_fields(1) block_read_fields(1) sys_alloc_tab)
  with i show ?thesis by (auto intro: shim_inv_world_eq)
qed

lemma shim_inv_resource_create:
  assumes inv: "shim_inv s00" and e: "shim_resource_create rc s00 = Some (r, rc', s')"
  shows "shim_inv s'"
proof -
  obtain r0 s0 where c: "sh_connect s00 = (r0, s0)" by fastforce
  note i0 = shim_inv_connect [OF inv c]
  show ?thesis
  proof (cases "r0 < 0")
    case True
    with e c i0 show ?thesis by (simp add: shim_resource_create_def)
  next
    case conn: False
    from e c conn obtain ro s where a: "sh_bo_alloc s0 = Some (ro, s)"
      by (auto simp: shim_resource_create_def split: option.splits)
    from i0 a show ?thesis
    proof (cases rule: sh_bo_alloc_cases)
      case null
      with e c conn a show ?thesis by (simp add: shim_resource_create_def)
    next
      case (ok h)
      let ?v = "vtest_protocol_version (sh_conn s)"
      obtain k w1 where w1: "vtest_command [11, VCMD_RESOURCE_CREATE2]
        (dwords (create_payload ?v h rc)) (sh_w s) = (k, w1)" by fastforce
      obtain q w2 where w2: "create_reply ?v h w1 = (q, w2)" by fastforce
      obtain fd w3 where w3: "(if rcr_size rc > 0 then vtest_recv_fd w2 else (-1, w2)) = (fd, w3)"
        by fastforce
      have t2: "fd_tab w1 = fd_tab (sh_w s)" "fd_tab w2 = fd_tab (sh_w s)"
        using vtest_command_tab [OF w1] create_reply_tab [OF w2] by simp_all
      have t3: "fd = -1 \<and> fd_tab w3 = fd_tab (sh_w s) \<or> 0 \<le> fd \<and> fd_tab (sh_w s) fd = None
        \<and> (\<exists>fi. fd_tab w3 = (fd_tab (sh_w s))(fd \<mapsto> fi))"
        using w3 t2 recv_fd_cases [of w2 fd w3] by (auto split: if_splits)
      have l: "bo_lookup (sh_bos s) h = Some (new_bo h)" by (simp add: ok)
      have done3: "shim_inv (s\<lparr>sh_bos := bo_update h v (sh_bos s), sh_inodes := ic, sh_w := w3\<rparr>)"
        if "icache_inv ic" "bo_handle v = h" "bo_shm_fd v = fd" for ic v
        using that t3 by (intro shim_inv_fill [OF ok(3) l]) (auto simp: new_bo_def zero_bo_def)
      have ic: "icache_inv (sh_inodes s)" using ok(3) by (rule shim_invD(2))
      show ?thesis
      proof (cases "k \<and> q \<noteq> None \<and> \<not> (rcr_size rc > 0 \<and> fd < 0)")
        case True
        have done3': "shim_inv (s\<lparr>sh_bos := bo_update h v (sh_bos s), sh_w := w3\<rparr>)"
          if "bo_handle v = h" "bo_shm_fd v = fd" for v
          using done3 [OF ic that] by simp
        have "bo_handle (new_bo h) = h" by (simp add: new_bo_def)
        with True e c conn a w1 w2 w3 l ok(1) show ?thesis
          by (auto simp: shim_resource_create_def Let_def ic split: if_splits
              intro!: done3 done3' icache_inv_store)
      next
        case False
        have w3': "fd_tab (sh_w s) \<subseteq>\<^sub>m fd_tab w3" using t3 by (auto simp: map_le_def)
        from False e c conn a w1 w2 w3 ok(1) consider "s' = s\<lparr>sh_w := w1\<rparr>" | "s' = s\<lparr>sh_w := w2\<rparr>"
          | "s' = s\<lparr>sh_w := w3\<rparr>"
          by (cases q) (auto simp: shim_resource_create_def split: if_splits)
        then show ?thesis
          by cases (use ok(3) t2 w3' in \<open>auto intro: shim_inv_world shim_inv_world_eq\<close>)
      qed
    qed
  qed
qed

lemma shim_inv_map:
  assumes inv: "shim_inv s" and e: "shim_map h s = (r, off, s')"
  shows "shim_inv s'"
proof (cases "bo_lookup (sh_bos s) h")
  case (Some bo)
  from bos.lookup_tag [OF shim_invD(1) [OF inv] Some] have "bo_handle bo = h" .
  with e Some shim_inv_keep [OF inv Some] show ?thesis
    by (auto simp: shim_map_def Let_def split: if_splits)
qed (use inv e in \<open>simp add: shim_map_def\<close>)

lemma shim_inv_execbuffer:
  assumes inv: "shim_inv s" and e: "shim_execbuffer eb s = Some (r, eb', s')"
  shows "shim_inv s'"
proof -
  obtain r0 s1 where c: "sh_connect s = (r0, s1)" by fastforce
  note i = shim_inv_connect [OF inv c]
  have "s' = s1 \<or> (\<exists>w. s' = s1\<lparr>sh_w := w\<rparr> \<and> fd_tab (sh_w s1) \<subseteq>\<^sub>m fd_tab w)"
  proof (cases "r0 < 0")
    case False
    let ?m = "unat ((eb_size eb + 3) div 4 * 4)"
    let ?cmd = "if (eb_size eb + 3) div 4 * 4 > eb_size eb
      then take (unat (eb_size eb)) (eb_command eb) @ replicate (?m - unat (eb_size eb)) 0
        @ drop ?m (eb_command eb) else eb_command eb"
    obtain k w1 where w1: "vtest_command [(eb_size eb + 3) div 4, VCMD_SUBMIT_CMD] (take ?m ?cmd)
        (sh_w s1) = (k, w1)" by fastforce
    obtain fd w2 where w2: "sys_anon ''anon_inode:[eventfd]'' w1 = (fd, w2)" by fastforce
    have "fd_tab (sh_w s1) \<subseteq>\<^sub>m fd_tab w1" "fd_tab (sh_w s1) \<subseteq>\<^sub>m fd_tab w2"
      using vtest_command_tab [OF w1] sys_anon_le [OF w2] by simp_all
    moreover from e have "length (eb_command eb) \<ge> ?m" using c False
      by (auto simp: shim_execbuffer_def Let_def split: if_splits)
    then have "s' = s1\<lparr>sh_w := w1\<rparr> \<or> s' = s1\<lparr>sh_w := w2\<rparr>"
      using e c False w1 w2 unfolding shim_execbuffer_def Let_def by (auto split: if_splits)
    ultimately show ?thesis by blast
  qed (use e c in \<open>simp add: shim_execbuffer_def\<close>)
  with i show ?thesis by (auto intro: shim_inv_world)
qed

lemma shim_inv_transfer:
  assumes inv: "shim_inv s" and e: "shim_transfer cmd t s = (r, s')"
  shows "shim_inv s'"
proof -
  obtain r0 s1 where c: "sh_connect s = (r0, s1)" by fastforce
  note i = shim_inv_connect [OF inv c]
  from e c have "s' = s1 \<or> (\<exists>w. s' = s1\<lparr>sh_w := w\<rparr> \<and> fd_tab w = fd_tab (sh_w s1))"
    by (auto simp: shim_transfer_def Let_def split: prod.splits if_splits dest!: vtest_command_tab)
  with i show ?thesis by (auto intro: shim_inv_world_eq)
qed

lemma shim_inv_wait:
  assumes inv: "shim_inv s" and e: "shim_wait h f s = (r, s')"
  shows "shim_inv s'"
proof -
  obtain r0 s1 where c: "sh_connect s = (r0, s1)" by fastforce
  note i = shim_inv_connect [OF inv c]
  from e c have "s' = s1 \<or> (\<exists>w. s' = s1\<lparr>sh_w := w\<rparr> \<and> fd_tab w = fd_tab (sh_w s1))"
    by (auto simp: shim_wait_def Let_def split: prod.splits if_splits option.splits
        dest!: vtest_command_tab block_read_fields(1))
  with i show ?thesis by (auto intro: shim_inv_world_eq)
qed

text \<open>Closing: the object's descriptor, if it has one, is closed with the object.\<close>

lemma gem_close_cases:
  assumes e: "shim_gem_close h s = (r, s')"
  obtains (unknown) "bo_lookup (sh_bos s) h = None" "r = RC_OK" "s' = s"
  | (closed) bo w where "bo_lookup (sh_bos s) h = Some bo" "r = RC_OK"
      "s' = s\<lparr>sh_bos := bo_free h (sh_bos s), sh_w := w\<rparr>"
      "fd_tab w = (if bo_shm_fd bo \<ge> 0 then (fd_tab (sh_w s))(bo_shm_fd bo := None)
         else fd_tab (sh_w s))"
proof (cases "bo_lookup (sh_bos s) h")
  case None
  with e show thesis by (intro unknown) (simp_all add: shim_gem_close_def)
next
  case (Some bo)
  let ?w1 = "case bo_mmap_ptr bo of Some p \<Rightarrow> if bo_size bo > 0
      then (sh_w s)\<lparr>unmapped := unmapped (sh_w s) @ [(p, bo_size bo)]\<rparr> else sh_w s | None \<Rightarrow> sh_w s"
  let ?w2 = "if bo_shm_fd bo \<ge> 0 then sys_close (bo_shm_fd bo) ?w1 else ?w1"
  obtain r3 w3 where w3: "vtest_block_write (dwords [1, VCMD_RESOURCE_UNREF]) ?w2 = (r3, w3)"
    by fastforce
  obtain r4 w4 where w4: "vtest_block_write (dwords [bo_res_handle bo]) w3 = (r4, w4)" by fastforce
  have "fd_tab ?w2 = (if bo_shm_fd bo \<ge> 0 then (fd_tab (sh_w s))(bo_shm_fd bo := None)
         else fd_tab (sh_w s))"
    by (simp add: sys_close_def split: option.split)
  moreover have "fd_tab w4 = fd_tab ?w2"
    using block_write_fields(1) [OF w3] block_write_fields(1) [OF w4] by simp
  moreover have "r = RC_OK \<and> (s' = s\<lparr>sh_bos := bo_free h (sh_bos s), sh_w := ?w2\<rparr>
      \<or> s' = s\<lparr>sh_bos := bo_free h (sh_bos s), sh_w := w4\<rparr>)"
  proof (cases "bo_res_handle bo \<noteq> 0 \<and> \<not> bo_is_ahb bo \<and> vtest_sock (sh_conn s) \<ge> 0")
    case True
    with e Some w3 w4 show ?thesis unfolding shim_gem_close_def Let_def by (simp add: bo_free_def)
  next
    case False
    with e Some show ?thesis unfolding shim_gem_close_def Let_def
      by (simp only: option.case if_False bo_free_def prod.inject) simp
  qed
  ultimately show thesis using closed [OF Some] by metis
qed

lemma shim_inv_gem_close:
  assumes inv: "shim_inv s" and e: "shim_gem_close h s = (r, s')"
  shows "shim_inv s'"
  using e
proof (cases rule: gem_close_cases)
  case unknown
  with inv show ?thesis by simp
next
  case (closed bo w)
  note i = shim_invD [OF inv]
  have own: "fd_owner (bo_free h (sh_bos s)) = (fd_owner (sh_bos s))(h := None)"
    by (rule fd_owner_free [OF bos.free_lookup [OF i(1)]])
  have "owns ((fd_owner (sh_bos s))(h := None)) (vtest_sock (sh_conn s)) (fd_tab w)"
  proof (cases "bo_shm_fd bo \<ge> 0")
    case True
    with closed(1) have "fd_owner (sh_bos s) h = Some (bo_shm_fd bo)" by (simp add: fd_owner_def)
    from owns_close [OF i(4) this] True closed(4) show ?thesis by simp
  qed (use closed(4) owns_drop [OF i(4)] in simp)
  with i bos.inv_free [OF i(1)] show ?thesis by (simp add: closed(3) shim_inv_def own)
qed

lemma shim_inv_prime_export:
  assumes inv: "shim_inv s" and e: "shim_prime_handle_to_fd h s = Some (r, fd, s')"
  shows "shim_inv s'"
proof -
  have "s' = s \<or> (\<exists>w. s' = s\<lparr>sh_w := w\<rparr> \<and> fd_tab (sh_w s) \<subseteq>\<^sub>m fd_tab w)"
    using e
    by (auto simp: shim_prime_handle_to_fd_def Let_def busy_wait_tab transfer_get_tab
        split: prod.splits if_splits option.splits dest!: sys_dup_le sys_anon_le)
  with inv show ?thesis by (auto intro: shim_inv_world)
qed

lemma inode_cache_lookup_keeps:
  "inode_cache_lookup fd bo w c = Some bo' \<Longrightarrow> bo_handle bo' = bo_handle bo \<and> bo_shm_fd bo' = bo_shm_fd bo"
  by (auto simp: inode_cache_lookup_def split: if_splits option.splits)

lemma shim_inv_prime_import:
  assumes inv: "shim_inv s0" and e: "shim_prime_fd_to_handle fd s0 = Some (r, k, s')"
  shows "shim_inv s'"
proof -
  consider (hit) "s' = s0" | (miss) ro s where "sh_bo_alloc s0 = Some (ro, s)"
      "bo_find_by_inode fd (sh_bos s0) (sh_w s0) = Some None"
    using e by (auto simp: shim_prime_fd_to_handle_def Let_def split: option.splits)
  then show ?thesis
  proof cases
    case hit
    with inv show ?thesis by simp
  next
    case (miss ro s)
    from inv miss(1) show ?thesis
    proof (cases rule: sh_bo_alloc_cases)
      case null
      with e miss show ?thesis by (simp add: shim_prime_fd_to_handle_def)
    next
      case (ok h)
      obtain dfd w where d: "sys_dup fd (sh_w s) = (dfd, w)" by fastforce
      have l: "bo_lookup (sh_bos s) h = Some (new_bo h)" by (simp add: ok)
      from d have t: "dfd < 0 \<and> fd_tab w = fd_tab (sh_w s) \<or> 0 \<le> dfd \<and> fd_tab (sh_w s) dfd = None
        \<and> (\<exists>fi. fd_tab w = (fd_tab (sh_w s))(dfd \<mapsto> fi))"
        by (cases rule: sys_dup_cases) auto
      have "shim_inv (s\<lparr>sh_bos := bo_update h v (sh_bos s), sh_inodes := sh_inodes s, sh_w := w\<rparr>)"
        if "bo_handle v = h" "bo_shm_fd v = dfd" for v
        using that t shim_invD(2) [OF ok(3)]
        by (intro shim_inv_fill [OF ok(3) l]) (auto simp: new_bo_def zero_bo_def)
      then have fill: "shim_inv (s\<lparr>sh_bos := bo_update h v (sh_bos s), sh_w := w\<rparr>)"
        if "bo_handle v = h" "bo_shm_fd v = dfd" for v using that by simp
      let ?n = "sys_lseek_end fd (sh_w s0)"
      let ?bo = "(new_bo h)\<lparr>bo_shm_fd := dfd, bo_size := of_int (if ?n < 0 then 0 else ?n),
        bo_res_handle := 0, bo_is_ahb := fd_is_ahb fd (sh_w s0)\<rparr>"
      let ?bo' = "case inode_cache_lookup fd ?bo w (sh_inodes s) of None \<Rightarrow> ?bo | Some bo' \<Rightarrow> bo'"
      have "s' = s\<lparr>sh_bos := bo_update h ?bo' (sh_bos s), sh_w := w\<rparr>"
        using e miss ok(1) d unfolding shim_prime_fd_to_handle_def Let_def
        by (auto split del: if_split)
      moreover have "bo_handle ?bo' = h" "bo_shm_fd ?bo' = dfd"
        using inode_cache_lookup_keeps [of fd ?bo w "sh_inodes s"]
        by (auto simp: new_bo_def split: option.splits)
      ultimately show ?thesis using fill by simp
    qed
  qed
qed

lemma drmIoctl_inv:
  assumes inv: "shim_inv s" and e: "drmIoctl req s = Some (r, req', s')"
  shows "shim_inv s'"
  using inv e
  by (cases req) (auto simp: shim_transfer_to_host_def shim_transfer_from_host_def
      split: prod.splits intro: shim_inv_get_caps [OF inv] shim_inv_resource_create [OF inv]
        shim_inv_map [OF inv] shim_inv_execbuffer [OF inv] shim_inv_transfer [OF inv]
        shim_inv_wait [OF inv] shim_inv_gem_close [OF inv] shim_inv_prime_export [OF inv]
        shim_inv_prime_import [OF inv])

subsection \<open>All runs\<close>

definition shim0 :: "world \<Rightarrow> shim" where
  "shim0 w = \<lparr>sh_bos = bo_state0, sh_inodes = inode_cache0, sh_fds = [],
     sh_conn = \<lparr>vtest_sock = -1, vtest_protocol_version = 0\<rparr>, sh_w = w\<rparr>"

text \<open>
  The process's steps: any request through the dispatcher, the two libdrm calls for sharing, and the
  application opening or closing descriptors of its own (it does not close those it was never given:
  the shim's socket and the shim's copies of buffer descriptors).
\<close>

definition shim_held :: "shim \<Rightarrow> int set" where
  "shim_held s = {fd. (\<exists>h. fd_owner (sh_bos s) h = Some fd) \<or> 0 \<le> fd \<and> fd = vtest_sock (sh_conn s)}"

inductive shim_step :: "shim \<Rightarrow> shim \<Rightarrow> bool" where
  request: "drmIoctl req s = Some (r, req', s') \<Longrightarrow> shim_step s s'"
| to_fd: "drmPrimeHandleToFD h p s = Some (r, fd, s') \<Longrightarrow> shim_step s s'"
| to_handle: "drmPrimeFDToHandle fd p s = Some (r, h, s') \<Longrightarrow> shim_step s s'"
| app_open: "\<lbrakk>install_fd fi (sh_w s) = (fd, w); fds_inv fds\<rbrakk> \<Longrightarrow> shim_step s (s\<lparr>sh_w := w, sh_fds := fds\<rparr>)"
| app_close: "fd \<notin> shim_held s \<Longrightarrow> shim_step s (snd (drmClose fd s))"

inductive_cases shim_stepE: "shim_step s s'"

lemma shim_inv0: "shim_inv (shim0 w)"
proof -
  have "fd_owner bo_state0 h = None" for h
    by (simp add: fd_owner_def bo_lookup_def bo_state0_def)
  then show ?thesis
    by (simp add: shim_inv_def shim0_def bo_inv_init icache_inv_init fds_inv_Nil owns_def)
qed

lemma shim_inv_drmClose:
  assumes "shim_inv s" "fd \<notin> shim_held s"
  shows "shim_inv (snd (drmClose fd s))"
proof -
  note i = shim_invD [OF assms(1)]
  have "owns (fd_owner (sh_bos s)) (vtest_sock (sh_conn s)) ((fd_tab (sh_w s))(fd := None))"
    using i(4) assms(2) unfolding owns_def shim_held_def by auto
  with i fds_remove [OF i(3), of fd] show ?thesis
    by (simp add: drmClose_def Let_def shim_inv_def sys_close_def)
qed

lemma shim_inv_step: "shim_step s s' \<Longrightarrow> shim_inv s \<Longrightarrow> shim_inv s'"
proof (induction rule: shim_step.induct)
  case (request req s r req' s')
  then show ?case by (blast intro: drmIoctl_inv)
next
  case (to_fd h p s r fd s')
  then show ?case by (auto simp: drmPrimeHandleToFD_def split: if_splits intro: shim_inv_prime_export)
next
  case (to_handle fd p s r h s')
  then show ?case by (auto simp: drmPrimeFDToHandle_def split: if_splits intro: shim_inv_prime_import)
next
  case (app_open fi s fd w fds)
  from shim_inv_world [OF app_open.prems install_fd_le [OF app_open.hyps(1)]] app_open.hyps(2)
  show ?case by (simp add: shim_inv_def)
next
  case (app_close fd s)
  then show ?case by (simp add: shim_inv_drmClose)
qed

lemma shim_inv_reach: "shim_step\<^sup>*\<^sup>* (shim0 w) s \<Longrightarrow> shim_inv s"
  by (induction rule: rtranclp_induct) (auto intro: shim_inv0 shim_inv_step)

end
