(* ===== verification/DrmProps.thy ===== *)
theory DrmProps
  imports DrmInvariant
begin

text \<open>What the DRM shim promises: properties of the tables, the handlers and whole runs.\<close>

lemma find_SomeD: "find P xs = Some x \<Longrightarrow> x \<in> set xs \<and> P x"
  by (induction xs) (auto split: if_splits)

subsection \<open>Object handles\<close>

text \<open>
  C8: Allocating an object below handle \<open>2^31\<close> always comes back; it returns a handle that was not in
  use and never was before, makes it a blank object without descriptor, and changes no other object,
  whether or not the table had to be doubled. When memory runs out it returns \<^verbatim>\<open>NULL\<close>, and the
  objects are unchanged although the handle is used up.
\<close>

theorem bo_alloc_fresh:
  assumes "bo_inv s" "unat (bo_handle_next s) < 2 ^ 31"
  shows "\<exists>r s'. bo_alloc ok s = Some (r, s') \<and> bo_inv s' \<and> bo_handle_next s' = bo_handle_next s + 1
    \<and> bo_lookup s (bo_handle_next s) = None
    \<and> (r = Some (bo_handle_next s)
         \<and> bo_lookup s' = (bo_lookup s)(bo_handle_next s := Some (new_bo (bo_handle_next s)))
       \<or> r = None \<and> \<not> ok \<and> bo_table s' = bo_table s)"
proof -
  from bo_alloc_returns [OF assms] obtain r s' where a: "bo_alloc ok s = Some (r, s')" by blast
  from bo_alloc_spec [OF assms a] bo_fresh [OF assms(1)] a show ?thesis by blast
qed

theorem bo_alloc_fresh_witness:
  "\<exists>s'. bo_alloc True bo_state0 = Some (Some 1, s') \<and> bo_lookup s' 1 = Some (new_bo 1)"
proof -
  have n: "bo_handle_next bo_state0 = 1" by (simp add: bo_state0_def)
  have "unat (bo_handle_next bo_state0) < 2 ^ 31" by (simp add: n)
  from bo_alloc_fresh [OF bo_inv_init this, of True] show ?thesis by (auto simp: n)
qed

text \<open>
  C11: From handle \<open>2^31\<close> on \<^verbatim>\<open>bo_alloc\<close> does not come back: the 32-bit doubling of the capacity
  wraps to 0 before it passes the handle, and the loop spins with the table's mutex held.
\<close>

theorem bo_alloc_hangs:
  assumes "bo_inv s" "2 ^ 31 \<le> unat (bo_handle_next s)"
  shows "bo_alloc ok s = None"
  by (rule bo_alloc_diverges [OF assms])

theorem bo_alloc_hangs_witness:
  "bo_alloc True \<lparr>bo_table = [], bo_handle_next = 0x80000000\<rparr> = None"
proof -
  let ?s = "\<lparr>bo_table = [], bo_handle_next = 0x80000000\<rparr>"
  have "bo_inv ?s" by (simp add: bo_inv_def slots_ok_def)
  moreover have "2 ^ 31 \<le> unat (bo_handle_next ?s)" by simp
  ultimately show ?thesis by (rule bo_alloc_hangs)
qed

subsection \<open>Fake mmap offsets\<close>

lemma mmap_offset_unat:
  "unat (MMAP_OFFSET_BASE + ucast (h :: u32) * MMAP_OFFSET_STRIDE) = 0x10000000 + unat h * 0x100000"
proof -
  have "unat h < 4294967296" by (rule unat_less_u32)
  then have b: "unat h * 1048576 < 18446744073709551616"
    "268435456 + unat h * 1048576 < 18446744073709551616" by linarith+
  then show ?thesis
    by (simp add: MMAP_OFFSET_BASE_def MMAP_OFFSET_STRIDE_def unat_word_ariths unat_ucast_u64)
qed

lemma mmap_offset_inject:
  "MMAP_OFFSET_BASE + ucast (h :: u32) * MMAP_OFFSET_STRIDE
     = MMAP_OFFSET_BASE + ucast (h' :: u32) * MMAP_OFFSET_STRIDE \<longleftrightarrow> h = h'"
  using mmap_offset_unat [of h] mmap_offset_unat [of h'] by (metis add_left_cancel mult_right_cancel
      unat_eq_u32 zero_neq_numeral)

text \<open>Offsets in use are those \<^verbatim>\<open>shim_map\<close> computes.\<close>

definition offsets_ok :: "bo_state \<Rightarrow> bool" where
  "offsets_ok b \<longleftrightarrow> (\<forall>h bo. bo_lookup b h = Some bo \<and> bo_mapped bo \<longrightarrow>
     bo_mmap_offset bo = MMAP_OFFSET_BASE + ucast h * MMAP_OFFSET_STRIDE)"

lemma lookup_by_offset:
  assumes inv: "bo_inv b" and off: "offsets_ok b"
    and bo: "bo_lookup b h = Some bo" "bo_mapped bo"
  shows "bo_lookup_by_offset b (MMAP_OFFSET_BASE + ucast h * MMAP_OFFSET_STRIDE) = Some bo"
proof -
  let ?o = "MMAP_OFFSET_BASE + ucast h * MMAP_OFFSET_STRIDE"
  let ?P = "\<lambda>bo. bo_handle bo \<noteq> 0 \<and> bo_mapped bo \<and> bo_mmap_offset bo = ?o"
  from bo(1) have h: "h \<noteq> 0" "unat h < length (bo_table b)" "bo = bo_table b ! unat h" "bo_handle bo \<noteq> 0"
    by (auto simp: bo_lookup_Some_iff)
  have at: "bo_table b ! j = bo" if j: "j < length (bo_table b)" "?P (bo_table b ! j)" for j
  proof -
    let ?c = "bo_table b ! j"
    have tag: "unat (bo_handle ?c) = j"
      using inv j slots_okD [of "bo_table b" "bo_handle_next b" j] by (simp add: bo_inv_def)
    then have l: "bo_lookup b (bo_handle ?c) = Some ?c"
      using j by (auto simp: bo_lookup_Some_iff)
    with off j(2) have "bo_mmap_offset ?c = MMAP_OFFSET_BASE + ucast (bo_handle ?c) * MMAP_OFFSET_STRIDE"
      unfolding offsets_ok_def by blast
    with j(2) have "?o = MMAP_OFFSET_BASE + ucast (bo_handle ?c) * MMAP_OFFSET_STRIDE" by metis
    then have "h = bo_handle ?c" by (simp only: mmap_offset_inject)
    with l bo(1) show ?thesis by simp
  qed
  have "?P bo" using h(4) bo off by (simp add: offsets_ok_def)
  moreover have "bo \<in> set (drop 1 (bo_table b))"
  proof -
    from h(1) have "0 < unat h" by (simp add: unat_gt_0)
    with h(2,3) have "bo = drop 1 (bo_table b) ! (unat h - 1)" "unat h - 1 < length (drop 1 (bo_table b))"
      by simp_all
    then show ?thesis by (metis nth_mem)
  qed
  ultimately have "find ?P (drop 1 (bo_table b)) \<noteq> None" unfolding find_None_iff by blast
  then obtain c where c: "find ?P (drop 1 (bo_table b)) = Some c" by blast
  from find_SomeD [OF this] have "c \<in> set (bo_table b)" "?P c"
    using in_set_dropD by fast+
  then obtain j where "j < length (bo_table b)" "bo_table b ! j = c" by (auto simp: in_set_conv_nth)
  with at \<open>?P c\<close> have "c = bo" by blast
  with c show ?thesis by (simp add: bo_lookup_by_offset_def)
qed

lemma shim_map_some:
  assumes inv: "bo_inv (sh_bos s)" and off: "offsets_ok (sh_bos s)" and bo: "bo_lookup (sh_bos s) h = Some bo"
  shows "\<exists>b v. shim_map h s = (RC_OK, Some (MMAP_OFFSET_BASE + ucast h * MMAP_OFFSET_STRIDE), s\<lparr>sh_bos := b\<rparr>)
    \<and> bo_inv b \<and> offsets_ok b \<and> bo_lookup b = (bo_lookup (sh_bos s))(h := Some v)
    \<and> bo_mapped v \<and> bo_shm_fd v = bo_shm_fd bo \<and> bo_handle v = h"
proof -
  from bos.lookup_tag [OF inv bo] have tag: "bo_handle bo = h" .
  let ?o = "MMAP_OFFSET_BASE + ucast h * MMAP_OFFSET_STRIDE"
  let ?bo = "if bo_mapped bo then bo else bo\<lparr>bo_mmap_offset := ?o, bo_mapped := True\<rparr>"
  let ?b = "bo_update h ?bo (sh_bos s)"
  have ne: "bo_lookup (sh_bos s) h \<noteq> None" and tag': "bo_handle ?bo = h" using bo tag by simp_all
  have o: "bo_mmap_offset ?bo = ?o" "bo_mapped ?bo" "bo_shm_fd ?bo = bo_shm_fd bo"
    using off bo by (auto simp: offsets_ok_def)
  have m: "shim_map h s = (RC_OK, Some ?o, s\<lparr>sh_bos := ?b\<rparr>)"
    using o by (auto simp: shim_map_def bo Let_def tag)
  note l = bos.update_lookup [OF inv ne tag']
  have "offsets_ok ?b" unfolding offsets_ok_def l using off o by (auto simp: offsets_ok_def)
  with m l o tag' bos.inv_update [OF inv ne tag'] show ?thesis by blast
qed

text \<open>
  The offset \<^verbatim>\<open>shim_map\<close> hands out is \<open>0x10000000 + handle * 1 MiB\<close> computed without overflow,
  the same on every call; the reverse lookup in \<^verbatim>\<open>mmap\<close> finds exactly the object it was
  issued for, since distinct handles have distinct offsets; and an unknown handle is \<open>ENOENT\<close>
  with nothing changed.
\<close>

theorem map_offset_roundtrip:
  assumes "bo_inv (sh_bos s)" "offsets_ok (sh_bos s)"
  shows "case shim_map h s of (r, off, s') \<Rightarrow>
    (case bo_lookup (sh_bos s) h of
       None \<Rightarrow> r = RC_ERR ENOENT \<and> off = None \<and> s' = s
     | Some bo \<Rightarrow> r = RC_OK
         \<and> map_option unat off = Some (0x10000000 + unat h * 0x100000)
         \<and> map_option bo_handle (bo_lookup_by_offset (sh_bos s') (the off)) = Some h
         \<and> offsets_ok (sh_bos s') \<and> fst (snd (shim_map h s')) = off)"
proof (cases "bo_lookup (sh_bos s) h")
  case (Some bo)
  from shim_map_some [OF assms Some] obtain b v where
    m: "shim_map h s = (RC_OK, Some (MMAP_OFFSET_BASE + ucast h * MMAP_OFFSET_STRIDE), s\<lparr>sh_bos := b\<rparr>)"
      "bo_inv b" "offsets_ok b" "bo_lookup b = (bo_lookup (sh_bos s))(h := Some v)" "bo_mapped v"
      "bo_handle v = h" by blast
  have l: "bo_lookup b h = Some v" by (simp add: m(4))
  from shim_map_some [of "s\<lparr>sh_bos := b\<rparr>", OF _ _ _] m(2,3) l
  have "fst (snd (shim_map h (s\<lparr>sh_bos := b\<rparr>))) = Some (MMAP_OFFSET_BASE + ucast h * MMAP_OFFSET_STRIDE)"
    by fastforce
  with m Some lookup_by_offset [OF m(2,3) l m(5)] show ?thesis
    by (simp add: mmap_offset_unat)
qed (simp add: shim_map_def)

text \<open>A concrete state: connected, with one object that holds the memfd open as descriptor 5.\<close>

definition memfd5 :: finfo where
  "memfd5 = \<lparr>fi_dev = 1, fi_ino = 42, fi_link = ''/memfd:virgl (deleted)'', fi_size = 4096\<rparr>"

definition world1 :: world where
  "world1 = world0\<lparr>fd_tab := [3 \<mapsto> \<lparr>fi_dev = 0, fi_ino = 0, fi_link = ''socket:'', fi_size = -1\<rparr>,
     5 \<mapsto> memfd5, 6 \<mapsto> memfd5]\<rparr>"

definition bo_one :: drm_shim_bo where
  "bo_one = (new_bo 1)\<lparr>bo_res_handle := 7, bo_shm_fd := 5, bo_size := 4096, bo_width := 32,
     bo_height := 32, bo_stride := 128\<rparr>"

definition bo_state1 :: bo_state where
  "bo_state1 = \<lparr>bo_table = (replicate 1024 zero_bo)[1 := bo_one], bo_handle_next = 2\<rparr>"

definition shim1 :: shim where
  "shim1 = \<lparr>sh_bos = bo_state1,
     sh_inodes = icache_put (1, 42) (entry_of (1, 42) (7, 32, 32, 128, 4096, False)) inode_cache0,
     sh_fds = [], sh_conn = \<lparr>vtest_sock = 3, vtest_protocol_version = 3\<rparr>, sh_w = world1\<rparr>"

lemma bo_one_simps [simp]: "bo_handle bo_one = 1" "bo_res_handle bo_one = 7" "bo_shm_fd bo_one = 5"
  "bo_mapped bo_one = False" "bo_is_ahb bo_one = False" "bo_width bo_one = 32" "bo_height bo_one = 32"
  "bo_size bo_one = 4096" "bo_stride bo_one = 128" "bo_mmap_ptr bo_one = None"
  by (simp_all add: bo_one_def new_bo_def zero_bo_def)

lemma bo_state1_lookup: "bo_lookup bo_state1 = [1 \<mapsto> bo_one]"
proof -
  have eq: "bo_state1 = \<lparr>bo_table = replicate 1024 zero_bo, bo_handle_next = 2\<rparr>
      \<lparr>bo_table := (bo_table \<lparr>bo_table = replicate 1024 zero_bo, bo_handle_next = 2\<rparr>)[unat (1 :: u32) := bo_one]\<rparr>"
    by (simp add: bo_state1_def)
  have "bo_lookup \<lparr>bo_table = replicate 1024 zero_bo, bo_handle_next = 2\<rparr> = Map.empty"
    by (rule ext) (simp add: bo_lookup_def Let_def zero_bo_def)
  then show ?thesis unfolding eq by (subst bo_lookup_write) simp_all
qed

lemma bo_state1_inv: "bo_inv bo_state1"
proof -
  have "slots_ok (replicate 1024 zero_bo) 2" by (simp add: slots_ok_def zero_bo_def)
  then have "slots_ok ((replicate 1024 zero_bo)[1 := bo_one]) 2"
    by (rule slots_ok_update) simp
  then show ?thesis by (simp add: bo_inv_def bo_state1_def)
qed

lemma shim1_fields: "sh_bos shim1 = bo_state1" "vtest_sock (sh_conn shim1) = 3"
  "vtest_protocol_version (sh_conn shim1) = 3" "sh_w shim1 = world1" "tx world1 = []" "rx world1 = []"
  "wsched world1 = []" "rsched world1 = []" "alloc_sched world1 = []" "bo_handle_next bo_state1 = 2"
  "length (bo_table bo_state1) = 1024"
  "fd_tab world1 5 = Some memfd5" "fd_tab world1 6 = Some memfd5" "fd_tab world1 0 = None"
  "fd_limit world1 = 64"
  by (simp_all add: shim1_def world1_def world0_def bo_state1_def)

lemma shim1_soft: "soft_writes world1" "soft_reads world1"
  by (simp_all add: soft_writes_def soft_reads_def shim1_fields)

lemma shim1_inv: "shim_inv shim1"
proof -
  have "fd_owner bo_state1 h = (if h = 1 then Some 5 else None)" for h
    by (simp add: fd_owner_def bo_state1_lookup)
  then have "owns (fd_owner bo_state1) 3 (fd_tab world1)"
    by (intro ownsI) (auto simp: world1_def split: if_splits)
  with icache.inv_put [OF icache_inv_init] show ?thesis
    by (simp add: shim_inv_def bo_state1_inv shim1_def fds_inv_Nil del: entry_of.simps)
qed

theorem map_offset_roundtrip_witness:
  "fst (snd (shim_map 1 shim1)) = Some 0x10100000 \<and> fst (shim_map 9 shim1) = RC_ERR ENOENT"
proof -
  have "offsets_ok (sh_bos shim1)" by (simp add: offsets_ok_def shim1_fields bo_state1_lookup)
  note p = map_offset_roundtrip [OF shim_invD(1) [OF shim1_inv] this]
  obtain r off s' where m: "shim_map 1 shim1 = (r, off, s')" by (cases "shim_map 1 shim1")
  from p [of 1] obtain z where z: "off = Some z" "unat z = 269484032"
    by (auto simp: m shim1_fields bo_state1_lookup)
  have "unat (0x10100000 :: u64) = 269484032" by simp
  with z(2) have "z = 0x10100000" by (metis unsigned_word_eqI)
  with z(1) have "off = Some 0x10100000" by simp
  moreover from p [of 9] have "fst (shim_map 9 shim1) = RC_ERR ENOENT"
    by (cases "shim_map 9 shim1") (simp add: shim1_fields bo_state1_lookup)
  ultimately show ?thesis by (simp add: m)
qed

subsection \<open>Requests on the wire\<close>

lemma vtest_command_wire:
  assumes "vtest_command hdr p w = (ok, w')"
  shows "\<exists>n \<le> length (dwords hdr @ p). tx w' = tx w @ take n (dwords hdr @ p)
    \<and> (ok \<longrightarrow> n = length (dwords hdr @ p))"
    and "soft_writes w \<Longrightarrow> ok \<and> soft_writes w'"
proof -
  obtain r1 w1 where w1: "vtest_block_write (dwords hdr) w = (r1, w1)" by fastforce
  obtain r2 w2 where w2: "vtest_block_write p w1 = (r2, w2)" by fastforce
  from block_write_range [OF w1] block_write_range [OF w2]
  have r: "r1 = 0 \<or> r1 = -1" "r2 = 0 \<or> r2 = -1" by simp_all
  show "\<exists>n \<le> length (dwords hdr @ p). tx w' = tx w @ take n (dwords hdr @ p)
      \<and> (ok \<longrightarrow> n = length (dwords hdr @ p))"
  proof (cases "r1 = 0")
    case True
    with assms w1 w2 have "ok \<longleftrightarrow> \<not> r2 < 0" "w' = w2" by (auto simp: vtest_command_def)
    with r True vt_sink.send_two_ok [of "dwords hdr" w w1 p w2]
      vt_sink.send_two_prefix [of "dwords hdr" w w1 p r2 w2] w1 w2
    show ?thesis by (cases "r2 = 0") auto
  next
    case False
    with assms w1 r have "\<not> ok" "w' = w1" by (auto simp: vtest_command_def)
    moreover from vt_sink.send_prefix [OF w1] obtain n where
      "n \<le> length (dwords hdr)" "tx w1 = tx w @ take n (dwords hdr)" by blast
    ultimately show ?thesis by (intro exI [of _ n]) simp
  qed
  assume "soft_writes w"
  with vt_sink.send_healthy w1 have "r1 = 0" "soft_writes w1" by blast+
  with vt_sink.send_healthy w2 have "r2 = 0" "soft_writes w2" by blast+
  with \<open>r1 = 0\<close> assms w1 w2 show "ok \<and> soft_writes w'" by (auto simp: vtest_command_def)
qed

lemma vtest_command_soft:
  assumes "soft_writes w"
  obtains w' where "vtest_command hdr p w = (True, w')" "tx w' = tx w @ dwords hdr @ p"
    "soft_writes w'" "rx w' = rx w" "soft_reads w' = soft_reads w" "fd_tab w' = fd_tab w"
    "rx_anc w' = rx_anc w" "rsched w' = rsched w" "alloc_sched w' = alloc_sched w"
    "w' = w\<lparr>tx := tx w', wsched := wsched w'\<rparr>"
proof -
  obtain ok w' where c: "vtest_command hdr p w = (ok, w')" by fastforce
  with vtest_command_wire [OF c] assms vtest_command_fields [OF c] vtest_command_frame [OF c]
  show thesis by (intro that [of w']) auto
qed

lemma sh_connect_connected: "0 \<le> vtest_sock (sh_conn s) \<Longrightarrow> sh_connect s = (0, s)"
  by (simp add: sh_connect_def vtest_ensure_connected_def)

lemma transfer_wire:
  assumes "0 \<le> vtest_sock (sh_conn s)" "shim_transfer cmd t s = (r, s')"
    and "frame = dwords ([10, cmd, bo_res s (t_bo_handle t), t_level t, t_x t, t_y t, t_z t, t_w t, t_h t,
           t_d t, 0, t_offset t])"
  shows "if bo_res s (t_bo_handle t) = 0 then r = RC_ERR ENOENT \<and> s' = s
    else s' = s\<lparr>sh_w := sh_w s'\<rparr> \<and> (r = RC_OK \<or> r = RC_ERR EIO) \<and> (soft_writes (sh_w s) \<longrightarrow> r = RC_OK)
      \<and> (\<exists>n \<le> length frame. tx (sh_w s') = tx (sh_w s) @ take n frame \<and> (r = RC_OK \<longrightarrow> n = length frame))"
proof (cases "bo_res s (t_bo_handle t) = 0")
  case True
  with assms(1,2) show ?thesis by (simp add: shim_transfer_def sh_connect_connected)
next
  case False
  let ?p = "dwords (transfer_payload (bo_res s (t_bo_handle t)) t)"
  obtain ok w where c: "vtest_command [10, cmd] ?p (sh_w s) = (ok, w)" by fastforce
  with False assms(1,2) have r: "r = (if ok then RC_OK else RC_ERR EIO)" "s' = s\<lparr>sh_w := w\<rparr>"
    by (auto simp: shim_transfer_def sh_connect_connected)
  have "frame = dwords [10, cmd] @ ?p" by (simp add: assms(3) transfer_payload_def)
  with vtest_command_wire [OF c] r False show ?thesis by auto
qed

text \<open>
  On a connected shim the two transfer requests put one frame on the wire, twelve dwords naming
  the server's resource, level, box and offset with data size 0; whatever the socket does the bytes
  sent are a prefix of that frame, all of it exactly on success, \<open>EIO\<close> is reported only after a hard
  socket error, and an object without a server resource gets \<open>ENOENT\<close> with nothing sent or changed.
\<close>

theorem transfer_frames:
  assumes "0 \<le> vtest_sock (sh_conn s)"
    and "(shim_transfer_to_host t s = (r, s') \<and> cmd = 14) \<or> (shim_transfer_from_host t s = (r, s') \<and> cmd = 13)"
    and "frame = dwords ([10, cmd, bo_res s (t_bo_handle t), t_level t, t_x t, t_y t, t_z t, t_w t, t_h t,
           t_d t, 0, t_offset t])"
  shows "if bo_res s (t_bo_handle t) = 0 then r = RC_ERR ENOENT \<and> s' = s
    else s' = s\<lparr>sh_w := sh_w s'\<rparr> \<and> (r = RC_OK \<or> r = RC_ERR EIO) \<and> (soft_writes (sh_w s) \<longrightarrow> r = RC_OK)
      \<and> (\<exists>n \<le> length frame. tx (sh_w s') = tx (sh_w s) @ take n frame \<and> (r = RC_OK \<longrightarrow> n = length frame))"
proof -
  from assms(2) have "shim_transfer cmd t s = (r, s')"
    by (auto simp: shim_transfer_to_host_def shim_transfer_from_host_def VCMD_defs)
  from transfer_wire [OF assms(1) this assms(3)] show ?thesis .
qed

definition transfer1 :: virtgpu_transfer where
  "transfer1 = \<lparr>t_bo_handle = 1, t_x = 0, t_y = 0, t_z = 0, t_w = 32, t_h = 32, t_d = 1, t_level = 0, t_offset = 0\<rparr>"

theorem transfer_frames_witness:
  "\<exists>s'. shim_transfer_to_host transfer1 shim1 = (RC_OK, s')
     \<and> tx (sh_w s') = dwords [10, 14, 7, 0, 0, 0, 0, 32, 32, 1, 0, 0]"
proof -
  obtain r s' where e: "shim_transfer_to_host transfer1 shim1 = (r, s')" by fastforce
  have res: "bo_res shim1 (t_bo_handle transfer1) = 7"
    by (simp add: bo_res_def shim1_fields bo_state1_lookup transfer1_def)
  have "0 \<le> vtest_sock (sh_conn shim1)" by (simp add: shim1_fields)
  from transfer_frames [OF this _ refl, of transfer1 r s' 14] e res
  have "r = RC_OK \<and> tx (sh_w s') = dwords [10, 14, 7, 0, 0, 0, 0, 32, 32, 1, 0, 0]"
    by (auto simp: shim1_fields shim1_soft transfer1_def)
  with e show ?thesis by blast
qed

subsection \<open>Closing, sharing and recovering objects\<close>

lemma gem_close_wire:
  assumes e: "shim_gem_close h s = (r, s')"
  shows "soft_writes (sh_w s) \<longrightarrow> tx (sh_w s') = tx (sh_w s) @
         (case bo_lookup (sh_bos s) h of None \<Rightarrow> []
          | Some bo \<Rightarrow> if bo_res_handle bo \<noteq> 0 \<and> \<not> bo_is_ahb bo \<and> 0 \<le> vtest_sock (sh_conn s)
              then dwords [1, VCMD_RESOURCE_UNREF, bo_res_handle bo] else [])"
proof (cases "bo_lookup (sh_bos s) h")
  case None
  with e show ?thesis by (auto simp: shim_gem_close_def)
next
  case (Some bo)
  let ?w1 = "case bo_mmap_ptr bo of Some p \<Rightarrow> if bo_size bo > 0
    then (sh_w s)\<lparr>unmapped := unmapped (sh_w s) @ [(p, bo_size bo)]\<rparr> else sh_w s | None \<Rightarrow> sh_w s"
  let ?w2 = "if bo_shm_fd bo \<ge> 0 then sys_close (bo_shm_fd bo) ?w1 else ?w1"
  have w2: "tx ?w2 = tx (sh_w s)" "soft_writes ?w2 = soft_writes (sh_w s)"
    by (auto simp: sys_close_def soft_writes_def split: option.split)
  show ?thesis
  proof (cases "bo_res_handle bo \<noteq> 0 \<and> \<not> bo_is_ahb bo \<and> 0 \<le> vtest_sock (sh_conn s)")
    case True
    show ?thesis
    proof
      assume "soft_writes (sh_w s)"
      with w2 have "soft_writes ?w2" by simp
      from soft_write_exact [OF this, of "dwords [1, VCMD_RESOURCE_UNREF]"] obtain w3 where
        w3: "vtest_block_write (dwords [1, VCMD_RESOURCE_UNREF]) ?w2 = (0, w3)"
        "tx w3 = tx ?w2 @ dwords [1, VCMD_RESOURCE_UNREF]" "soft_writes w3" by blast
      from soft_write_exact [OF w3(3), of "dwords [bo_res_handle bo]"] obtain w4 where
        w4: "vtest_block_write (dwords [bo_res_handle bo]) w3 = (0, w4)"
        "tx w4 = tx w3 @ dwords [bo_res_handle bo]" by blast
      have "sh_w s' = w4" using e True Some w3(1) w4(1) unfolding shim_gem_close_def Let_def by auto
      with w2 w3 w4 Some True show "tx (sh_w s') = tx (sh_w s) @ (case bo_lookup (sh_bos s) h of None \<Rightarrow> []
        | Some bo \<Rightarrow> if bo_res_handle bo \<noteq> 0 \<and> \<not> bo_is_ahb bo \<and> 0 \<le> vtest_sock (sh_conn s)
            then dwords [1, VCMD_RESOURCE_UNREF, bo_res_handle bo] else [])" by simp
    qed
  next
    case False
    then have "sh_w s' = ?w2" using e Some unfolding shim_gem_close_def Let_def
      by (simp only: option.case if_False prod.inject) auto
    with w2(1) have "tx (sh_w s') = tx (sh_w s)" by simp
    with False Some show ?thesis by auto
  qed
qed

text \<open>
  \<^verbatim>\<open>shim_gem_close\<close> never fails. It removes the named object and no other, and closes that
  object's descriptor and no other; every other object still has its descriptor open. On a healthy
  socket it sends exactly one \<open>RESOURCE_UNREF\<close> for the object's server resource, unless there is none,
  the buffer is Android's or nothing is connected: then it sends nothing. The inode cache is not touched.
\<close>

theorem gem_close_effect:
  assumes inv: "shim_inv s" and e: "shim_gem_close h s = (r, s')"
  shows "r = RC_OK \<and> bo_lookup (sh_bos s') = (bo_lookup (sh_bos s))(h := None)
    \<and> sh_inodes s' = sh_inodes s
    \<and> (\<forall>fd. fd_tab (sh_w s') fd = (if fd_owner (sh_bos s) h = Some fd then None else fd_tab (sh_w s) fd))
    \<and> (\<forall>h' fd. h' \<noteq> h \<and> fd_owner (sh_bos s) h' = Some fd \<longrightarrow> fd_tab (sh_w s') fd \<noteq> None)
    \<and> (soft_writes (sh_w s) \<longrightarrow> tx (sh_w s') = tx (sh_w s) @
         (case bo_lookup (sh_bos s) h of None \<Rightarrow> []
          | Some bo \<Rightarrow> if bo_res_handle bo \<noteq> 0 \<and> \<not> bo_is_ahb bo \<and> 0 \<le> vtest_sock (sh_conn s)
              then dwords [1, VCMD_RESOURCE_UNREF, bo_res_handle bo] else []))"
proof -
  note i = shim_invD [OF inv]
  have tab: "r = RC_OK \<and> bo_lookup (sh_bos s') = (bo_lookup (sh_bos s))(h := None)
      \<and> sh_inodes s' = sh_inodes s
      \<and> (\<forall>fd. fd_tab (sh_w s') fd = (if fd_owner (sh_bos s) h = Some fd then None else fd_tab (sh_w s) fd))"
    using e
  proof (cases rule: gem_close_cases)
    case unknown
    then show ?thesis by (auto simp: fd_owner_def)
  next
    case (closed bo w)
    then show ?thesis using bos.free_lookup [OF i(1), of h] by (auto simp: fd_owner_def)
  qed
  moreover have "\<forall>h' fd. h' \<noteq> h \<and> fd_owner (sh_bos s) h' = Some fd \<longrightarrow> fd_tab (sh_w s') fd \<noteq> None"
    using tab ownsD(1,3) [OF i(4)] by metis
  moreover note gem_close_wire [OF e]
  ultimately show ?thesis by blast
qed

theorem gem_close_effect_witness:
  "\<exists>s'. shim_gem_close 1 shim1 = (RC_OK, s') \<and> fd_tab (sh_w s') 5 = None
     \<and> fd_tab (sh_w s') 6 = Some memfd5 \<and> tx (sh_w s') = dwords [1, 3, 7]"
proof -
  obtain r s' where e: "shim_gem_close 1 shim1 = (r, s')" by fastforce
  have "fd_owner bo_state1 1 = Some 5" by (simp add: fd_owner_def bo_state1_lookup)
  with gem_close_effect [OF shim1_inv e] e show ?thesis
    by (auto simp: shim1_fields shim1_soft bo_state1_lookup VCMD_defs)
qed

text \<open>
  C4: In every run from the initial state, through any requests and any opening and closing of the
  application's own descriptors, each object's buffer descriptor is open, belongs to that
  object alone and is not the server's socket, and the socket is open while connected.
\<close>

theorem shim_descriptors_owned:
  assumes "shim_step\<^sup>*\<^sup>* (shim0 w) s"
  shows "(\<forall>h bo. bo_lookup (sh_bos s) h = Some bo \<and> 0 \<le> bo_shm_fd bo \<longrightarrow>
      fd_tab (sh_w s) (bo_shm_fd bo) \<noteq> None \<and> bo_shm_fd bo \<noteq> vtest_sock (sh_conn s))
    \<and> (\<forall>h h' bo bo'. bo_lookup (sh_bos s) h = Some bo \<and> bo_lookup (sh_bos s) h' = Some bo'
        \<and> 0 \<le> bo_shm_fd bo \<and> bo_shm_fd bo = bo_shm_fd bo' \<longrightarrow> h = h')
    \<and> (0 \<le> vtest_sock (sh_conn s) \<longrightarrow> fd_tab (sh_w s) (vtest_sock (sh_conn s)) \<noteq> None)"
proof -
  have o: "owns (fd_owner (sh_bos s)) (vtest_sock (sh_conn s)) (fd_tab (sh_w s))"
    by (rule shim_invD(4) [OF shim_inv_reach [OF assms]])
  have own: "fd_owner (sh_bos s) h = Some (bo_shm_fd bo)"
    if "bo_lookup (sh_bos s) h = Some bo" "0 \<le> bo_shm_fd bo" for h bo
    using that by (simp add: fd_owner_def)
  have A: "fd_tab (sh_w s) (bo_shm_fd bo) \<noteq> None \<and> bo_shm_fd bo \<noteq> vtest_sock (sh_conn s)"
    if "bo_lookup (sh_bos s) h = Some bo \<and> 0 \<le> bo_shm_fd bo" for h bo
    using ownsD(1,2) [OF o own] that by blast
  have B: "h = h'" if l: "bo_lookup (sh_bos s) h = Some bo \<and> bo_lookup (sh_bos s) h' = Some bo'
      \<and> 0 \<le> bo_shm_fd bo \<and> bo_shm_fd bo = bo_shm_fd bo'" for h h' bo bo'
  proof (rule ownsD(3) [OF o])
    from l show "fd_owner (sh_bos s) h = Some (bo_shm_fd bo)" by (intro own) simp_all
    from l show "fd_owner (sh_bos s) h' = Some (bo_shm_fd bo)" using own [of h' bo'] by simp
  qed
  show ?thesis
    by (intro conjI allI impI) (use A B ownsD(4) [OF o] in blast)+
qed

theorem shim_descriptors_owned_witness:
  "\<exists>s r h. shim_step\<^sup>*\<^sup>* (shim0 world0) s \<and> drmPrimeFDToHandle 0 True (shim0 world0) = Some (r, h, s)
     \<and> (\<forall>h bo. bo_lookup (sh_bos s) h = Some bo \<and> 0 \<le> bo_shm_fd bo \<longrightarrow>
          fd_tab (sh_w s) (bo_shm_fd bo) \<noteq> None)"
proof -
  let ?s0 = "shim0 world0"
  have b: "sh_bos ?s0 = bo_state0" "sh_w ?s0 = world0" by (simp_all add: shim0_def)
  have "bo_find_by_inode 0 bo_state0 world0 = Some None"
    by (simp add: bo_find_by_inode_def sys_fstat_def world0_def bo_state0_def)
  moreover have n: "bo_handle_next bo_state0 = 1" by (simp add: bo_state0_def)
  then have "unat (bo_handle_next bo_state0) < 2 ^ 31" by simp
  from bo_alloc_returns [OF bo_inv_init this, of True] n obtain b' where
    "bo_alloc True bo_state0 = Some (Some 1, b')" by auto
  then have "sh_bo_alloc ?s0 = Some (Some 1, ?s0\<lparr>sh_bos := b'\<rparr>)"
    by (simp add: sh_bo_alloc_def b n sys_alloc_def world0_def) (simp add: shim0_def world0_def)
  ultimately have "\<exists>s r h. drmPrimeFDToHandle 0 True ?s0 = Some (r, h, s)"
    by (simp add: drmPrimeFDToHandle_def shim_prime_fd_to_handle_def b Let_def split: prod.split)
  then obtain s r h where e: "drmPrimeFDToHandle 0 True ?s0 = Some (r, h, s)" by blast
  then have "shim_step\<^sup>*\<^sup>* ?s0 s" by (intro r_into_rtranclp shim_step.to_handle)
  with shim_descriptors_owned [OF this] e show ?thesis by blast
qed

end
