(* ===== verification/DrmShare.thy ===== *)
theory DrmShare
  imports DrmProps
begin

text \<open>
  Properties of the shim's buffer sharing and of the requests that transfer data: import after
  export, import after close, capability replies, command submission and resource creation.
\<close>

subsection \<open>Finding an object by its buffer\<close>

lemma scan_inode_hit:
  assumes "\<And>i. i \<in> set is \<Longrightarrow> i < length tab" and "i \<in> set is"
    and "bo_handle (tab ! i) \<noteq> 0" "bo_shm_fd (tab ! i) \<ge> 0" "sys_fstat (bo_shm_fd (tab ! i)) w = Some k"
    and "\<And>j. j \<in> set is \<Longrightarrow> bo_handle (tab ! j) \<noteq> 0 \<Longrightarrow> bo_shm_fd (tab ! j) \<ge> 0
      \<Longrightarrow> sys_fstat (bo_shm_fd (tab ! j)) w = Some k \<Longrightarrow> j = i"
  shows "scan_inode tab w k is = Some (Some (tab ! i))"
  using assms(1,2,6)
proof (induction "is")
  case (Cons j js)
  show ?case
  proof (cases "bo_handle (tab ! j) \<noteq> 0 \<and> bo_shm_fd (tab ! j) \<ge> 0 \<and> sys_fstat (bo_shm_fd (tab ! j)) w = Some k")
    case True
    with Cons.prems(3) [of j] have "j = i" by simp
    with True Cons.prems(1) [of j] show ?thesis by simp
  next
    case False
    with assms(3-5) Cons.prems(2) have "i \<in> set js" by auto
    with Cons False show ?thesis by (auto simp: not_le)
  qed
qed simp

lemma scan_inode_miss:
  assumes "\<And>i. i \<in> set is \<Longrightarrow> i < length tab"
    and "\<And>i. i \<in> set is \<Longrightarrow> bo_handle (tab ! i) \<noteq> 0 \<Longrightarrow> bo_shm_fd (tab ! i) \<ge> 0
      \<Longrightarrow> sys_fstat (bo_shm_fd (tab ! i)) w \<noteq> Some k"
  shows "scan_inode tab w k is = Some None"
  using assms
proof (induction "is")
  case (Cons j js)
  have "\<not> (bo_handle (tab ! j) \<noteq> 0 \<and> 0 \<le> bo_shm_fd (tab ! j) \<and> sys_fstat (bo_shm_fd (tab ! j)) w = Some k)"
    using Cons.prems(2) [of j] by auto
  moreover have "scan_inode tab w k js = Some None" by (rule Cons.IH) (use Cons.prems in auto)
  moreover have "j < length tab" using Cons.prems(1) by simp
  ultimately show ?case by (auto simp: Let_def not_le)
qed simp

lemma slot_lookup:
  assumes "bo_inv b" "i < length (bo_table b)" "bo_handle (bo_table b ! i) \<noteq> 0"
  shows "bo_lookup b (bo_handle (bo_table b ! i)) = Some (bo_table b ! i)
    \<and> unat (bo_handle (bo_table b ! i)) = i"
proof -
  from assms slots_okD [of "bo_table b" "bo_handle_next b" i]
  have "unat (bo_handle (bo_table b ! i)) = i" by (simp add: bo_inv_def)
  with assms show ?thesis by (auto simp: bo_lookup_Some_iff)
qed

text \<open>The object \<open>h\<close> is found when it is the only one that shares the descriptor's file.\<close>

lemma find_by_inode_hit:
  assumes inv: "bo_inv b" and cap: "unat (bo_handle_next b) \<le> length (bo_table b)"
    and bo: "bo_lookup b h = Some bo" "0 \<le> bo_shm_fd bo"
    and k: "sys_fstat fd w = Some k" "sys_fstat (bo_shm_fd bo) w = Some k"
    and only: "\<And>g c. bo_lookup b g = Some c \<Longrightarrow> 0 \<le> bo_shm_fd c
      \<Longrightarrow> sys_fstat (bo_shm_fd c) w = Some k \<Longrightarrow> g = h"
  shows "bo_find_by_inode fd b w = Some (Some bo)"
proof -
  let ?i = "unat h"
  from bo(1) have h: "h \<noteq> 0" "?i < length (bo_table b)" "bo = bo_table b ! ?i" "bo_handle bo \<noteq> 0"
    by (auto simp: bo_lookup_Some_iff)
  from bo_lookup_slot [OF inv bo(1)] have "?i < unat (bo_handle_next b)" by simp
  moreover from h(1) have "0 < ?i" by (simp add: unat_gt_0)
  ultimately have "?i \<in> set [1..<unat (bo_handle_next b)]" by simp
  moreover have "j = ?i" if "j \<in> set [1..<unat (bo_handle_next b)]" "bo_handle (bo_table b ! j) \<noteq> 0"
    "bo_shm_fd (bo_table b ! j) \<ge> 0" "sys_fstat (bo_shm_fd (bo_table b ! j)) w = Some k" for j
  proof -
    from that(1) cap have "j < length (bo_table b)" by simp
    from slot_lookup [OF inv this that(2)] only that(3,4) show ?thesis by metis
  qed
  moreover have "j < length (bo_table b)" if "j \<in> set [1..<unat (bo_handle_next b)]" for j
    using that cap by simp
  ultimately have "scan_inode (bo_table b) w k [1..<unat (bo_handle_next b)] = Some (Some (bo_table b ! ?i))"
    using h(4) bo(2) k(2) unfolding h(3) by (intro scan_inode_hit) blast+
  then show ?thesis by (simp add: bo_find_by_inode_def k(1) flip: h(3))
qed

lemma find_by_inode_miss:
  assumes inv: "bo_inv b" and cap: "unat (bo_handle_next b) \<le> length (bo_table b)"
    and none: "\<And>g c. bo_lookup b g = Some c \<Longrightarrow> 0 \<le> bo_shm_fd c \<Longrightarrow>
      sys_fstat (bo_shm_fd c) w \<noteq> sys_fstat fd w"
  shows "bo_find_by_inode fd b w = Some None"
proof (cases "sys_fstat fd w")
  case (Some k)
  have "scan_inode (bo_table b) w k [1..<unat (bo_handle_next b)] = Some None"
  proof (rule scan_inode_miss)
    fix i
    assume "i \<in> set [1..<unat (bo_handle_next b)]"
    with cap show i: "i < length (bo_table b)" by simp
    assume "bo_handle (bo_table b ! i) \<noteq> 0" "bo_shm_fd (bo_table b ! i) \<ge> 0"
    with slot_lookup [OF inv i] none Some show "sys_fstat (bo_shm_fd (bo_table b ! i)) w \<noteq> Some k"
      by metis
  qed
  with Some show ?thesis by (simp add: bo_find_by_inode_def)
qed (simp add: bo_find_by_inode_def)

lemma sys_fstat_cong: "fd_tab w fd = fd_tab w' fd \<Longrightarrow> sys_fstat fd w = sys_fstat fd w'"
  by (simp add: sys_fstat_def)

lemma export_shm_ok:
  assumes e: "shim_prime_handle_to_fd h s = Some (RC_OK, fd, s')"
    and bo: "bo_lookup (sh_bos s) h = Some bo" "0 \<le> bo_shm_fd bo"
  obtains fi w where "s' = s\<lparr>sh_w := w\<rparr>" "0 \<le> fd" "fd_tab (sh_w s) (bo_shm_fd bo) = Some fi"
    "fd_tab (sh_w s) fd = None" "fd_tab w = (fd_tab (sh_w s))(fd \<mapsto> fi)"
proof -
  from e bo obtain w1 w2 where d: "sys_dup (bo_shm_fd bo) w1 = (fd, w2)" "s' = s\<lparr>sh_w := w2\<rparr>" "0 \<le> fd"
    and w1: "fd_tab w1 = fd_tab (sh_w s)"
    by (auto simp: shim_prime_handle_to_fd_def Let_def busy_wait_tab transfer_get_tab
        split: prod.splits if_splits)
  from d(1) show thesis
  proof (cases rule: sys_dup_cases)
    case fail
    with d(3) show thesis by simp
  next
    case (ok fi)
    with d w1 show thesis by (intro that [of w2 fi]) simp_all
  qed
qed

text \<open>
  C6: Importing what was exported gives the same object back. When \<^verbatim>\<open>PRIME_HANDLE_TO_FD\<close> on an
  object with a buffer succeeds, \<^verbatim>\<open>PRIME_FD_TO_HANDLE\<close> on the descriptor it returned
  succeeds with the object's own handle and changes nothing: no second object, no second copy of
  the descriptor. (No other object may share the buffer's file, and no failed reallocation may
  have left the handle counter beyond the table.)
\<close>

theorem prime_roundtrip:
  assumes "shim_inv s" and "unat (bo_handle_next (sh_bos s)) \<le> length (bo_table (sh_bos s))"
    and "bo_lookup (sh_bos s) h = Some bo" "0 \<le> bo_shm_fd bo"
    and "\<forall>g c. bo_lookup (sh_bos s) g = Some c \<and> 0 \<le> bo_shm_fd c
      \<and> sys_fstat (bo_shm_fd c) (sh_w s) = sys_fstat (bo_shm_fd bo) (sh_w s) \<longrightarrow> g = h"
    and "shim_prime_handle_to_fd h s = Some (RC_OK, fd, s')"
  shows "shim_prime_fd_to_handle fd s' = Some (RC_OK, h, s')"
proof -
  note inv = shim_invD(1) [OF assms(1)] and o = shim_invD(4) [OF assms(1)]
  from export_shm_ok [OF assms(6,3,4)] obtain fi w where
    x: "s' = s\<lparr>sh_w := w\<rparr>" "0 \<le> fd" "fd_tab (sh_w s) (bo_shm_fd bo) = Some fi"
      "fd_tab (sh_w s) fd = None" "fd_tab w = (fd_tab (sh_w s))(fd \<mapsto> fi)" by metis
  have same: "sys_fstat (bo_shm_fd c) w = sys_fstat (bo_shm_fd c) (sh_w s)"
    if "bo_lookup (sh_bos s) g = Some c" "0 \<le> bo_shm_fd c" for g c
  proof -
    from that have "fd_owner (sh_bos s) g = Some (bo_shm_fd c)" by (simp add: fd_owner_def)
    with ownsD(1) [OF o] x(4) have "bo_shm_fd c \<noteq> fd" by metis
    with x(5) show ?thesis by (intro sys_fstat_cong) simp
  qed
  have k: "sys_fstat fd w = Some (fi_dev fi, fi_ino fi)"
    "sys_fstat (bo_shm_fd bo) (sh_w s) = Some (fi_dev fi, fi_ino fi)"
    using x(3,5) by (simp_all add: sys_fstat_def)
  have "bo_find_by_inode fd (sh_bos s) w = Some (Some bo)"
  proof (rule find_by_inode_hit [OF inv assms(2,3,4) k(1)])
    show "sys_fstat (bo_shm_fd bo) w = Some (fi_dev fi, fi_ino fi)"
      using same [OF assms(3,4)] k(2) by simp
    show "g = h" if "bo_lookup (sh_bos s) g = Some c" "0 \<le> bo_shm_fd c"
      "sys_fstat (bo_shm_fd c) w = Some (fi_dev fi, fi_ino fi)" for g c
      using assms(5) that same [OF that(1,2)] k(2) by auto
  qed
  with bos.lookup_tag [OF inv assms(3)] show ?thesis
    by (simp add: shim_prime_fd_to_handle_def x(1))
qed

lemma shim1_export: "\<exists>s'. shim_prime_handle_to_fd 1 shim1 = Some (RC_OK, 0, s')"
proof -
  let ?c = "sh_conn shim1"
  obtain w where w: "vtest_busy_wait_for_resource 7 ?c (vtest_transfer_get_for_export 7 32 32 ?c world1) = w"
    by blast
  have t: "fd_tab w = fd_tab world1" using w busy_wait_tab transfer_get_tab by metis
  have "fd_limit (snd (vtest_block_read n v)) = fd_limit v" for n v
    by (cases "vtest_block_read n v") (simp add: block_read_fields(2))
  then have lim: "fd_limit w = 64"
    using w by (auto simp: vtest_busy_wait_for_resource_def vtest_transfer_get_for_export_def
        vtest_command_def world1_def world0_def Let_def split: prod.splits if_splits option.splits
        dest!: block_write_fields(2) block_read_fields(2))
  have "free_fd w = Some 0"
    by (simp add: free_fd_def t lim upt_rec world1_def)
  then have "sys_dup 5 w = (0, w\<lparr>fd_tab := (fd_tab w)(0 \<mapsto> memfd5)\<rparr>)"
    by (simp add: sys_dup_def t shim1_fields install_fd_def)
  then show ?thesis
    by (simp add: shim_prime_handle_to_fd_def shim1_fields bo_state1_lookup w shm_probe_faults_def t
        memfd5_def)
qed

theorem prime_roundtrip_witness:
  "\<exists>s'. shim_prime_handle_to_fd 1 shim1 = Some (RC_OK, 0, s')
     \<and> shim_prime_fd_to_handle 0 s' = Some (RC_OK, 1, s')"
proof -
  from shim1_export obtain s' where e: "shim_prime_handle_to_fd 1 shim1 = Some (RC_OK, 0, s')" by blast
  have l: "bo_lookup (sh_bos shim1) 1 = Some bo_one" by (simp add: shim1_fields bo_state1_lookup)
  have "shim_prime_fd_to_handle 0 s' = Some (RC_OK, 1, s')"
    by (rule prime_roundtrip [OF shim1_inv _ l _ _ e])
      (auto simp: shim1_fields bo_state1_lookup split: if_splits)
  with e show ?thesis by blast
qed

lemma import_fresh:
  assumes inv: "shim_inv s" and e: "shim_prime_fd_to_handle fd s = Some (RC_OK, h, s')"
    and miss: "bo_find_by_inode fd (sh_bos s) (sh_w s) = Some None"
  shows "\<exists>dfd bo. h = bo_handle_next (sh_bos s) \<and> bo_lookup (sh_bos s) h = None
    \<and> (dfd < 0 \<and> fd_tab (sh_w s') = fd_tab (sh_w s)
       \<or> 0 \<le> dfd \<and> fd_tab (sh_w s) dfd = None \<and> fd_tab (sh_w s) fd \<noteq> None
         \<and> fd_tab (sh_w s') = (fd_tab (sh_w s))(dfd := fd_tab (sh_w s) fd))
    \<and> bo = (new_bo h)\<lparr>bo_shm_fd := dfd, bo_size := of_int (max 0 (sys_lseek_end fd (sh_w s))),
        bo_res_handle := 0, bo_is_ahb := fd_is_ahb fd (sh_w s)\<rparr>
    \<and> bo_lookup (sh_bos s') = (bo_lookup (sh_bos s))(h := Some
        (case inode_cache_lookup fd bo (sh_w s') (sh_inodes s) of None \<Rightarrow> bo | Some bo' \<Rightarrow> bo'))
    \<and> sh_inodes s' = sh_inodes s \<and> sh_conn s' = sh_conn s"
proof -
  from e miss obtain ro sa where a: "sh_bo_alloc s = Some (ro, sa)"
    by (auto simp: shim_prime_fd_to_handle_def Let_def split: option.splits)
  from inv a show ?thesis
  proof (cases rule: sh_bo_alloc_cases)
    case null
    with e miss a show ?thesis by (simp add: shim_prime_fd_to_handle_def)
  next
    case (ok g)
    obtain dfd w where d: "sys_dup fd (sh_w sa) = (dfd, w)" by fastforce
    define bo where "bo = (new_bo g)\<lparr>bo_shm_fd := dfd,
      bo_size := of_int (max 0 (sys_lseek_end fd (sh_w s))), bo_res_handle := 0,
      bo_is_ahb := fd_is_ahb fd (sh_w s)\<rparr>"
    let ?bo' = "case inode_cache_lookup fd bo w (sh_inodes sa) of None \<Rightarrow> bo | Some bo' \<Rightarrow> bo'"
    have m: "(if x < 0 then 0 else x) = max 0 x" for x :: int by simp
    from e miss a d ok(1) have r: "g = h" "s' = sa\<lparr>sh_bos := bo_update g ?bo' (sh_bos sa), sh_w := w\<rparr>"
      unfolding shim_prime_fd_to_handle_def Let_def bo_def m by (auto split del: if_split)
    have tag: "bo_handle ?bo' = g"
      using inode_cache_lookup_keeps [of fd bo w "sh_inodes sa"]
      by (auto simp: bo_def new_bo_def split: option.splits)
    have ne: "bo_lookup (sh_bos sa) g \<noteq> None" by (simp add: ok(5))
    note l = bos.update_lookup [OF shim_invD(1) [OF ok(3)] ne tag]
      bos.inv_update [OF shim_invD(1) [OF ok(3)] ne tag]
    from d have t: "dfd < 0 \<and> fd_tab w = fd_tab (sh_w s)
       \<or> 0 \<le> dfd \<and> fd_tab (sh_w s) dfd = None \<and> fd_tab (sh_w s) fd \<noteq> None
         \<and> fd_tab w = (fd_tab (sh_w s))(dfd := fd_tab (sh_w s) fd)"
      by (cases rule: sys_dup_cases) (simp_all add: ok)
    have "bo_lookup (sh_bos s') = (bo_lookup (sh_bos s))(h := Some ?bo')"
      using l(1) r ok(5) by (simp add: fun_upd_upd)
    with t r ok show ?thesis
      by (intro exI [of _ dfd] exI [of _ bo]) (simp add: bo_def)
  qed
qed

lemma placeholder_not_ahb: "fd_tab w fd = Some fi \<Longrightarrow> fi_link fi = ''/memfd:drm-shim-prime (deleted)'' \<Longrightarrow>
    \<not> fd_is_ahb fd w"
  by (simp add: fd_is_ahb_def sys_readlink_def)

text \<open>
  Sharing a placeholder on kills the process. An object without a buffer is exported as an
  empty memfd; when that descriptor is imported, exporting the new object maps the empty file
  for the diagnostic probe and reads it, which is a bus error: the request does not come back.
\<close>

theorem prime_reexport_faults:
  assumes "shim_inv s" and "unat (bo_handle_next (sh_bos s)) \<le> length (bo_table (sh_bos s))"
    and "bo_lookup (sh_bos s) h = Some bo" "bo_shm_fd bo < 0"
    and "shim_prime_handle_to_fd h s = Some (RC_OK, fd, s1)"
    and "\<forall>fd' fi. fd_tab (sh_w s) fd' = Some fi \<longrightarrow> (fi_dev fi, fi_ino fi) \<noteq> (0, anon_ino (sh_w s))"
    and "icache_get (sh_inodes s) (0, anon_ino (sh_w s)) = None"
    and "shim_prime_fd_to_handle fd s1 = Some (RC_OK, h2, s2)" "fd_owner (sh_bos s2) h2 \<noteq> None"
  shows "shim_prime_handle_to_fd h2 s2 = None"
proof -
  let ?fi = "\<lparr>fi_dev = 0, fi_ino = anon_ino (sh_w s),
    fi_link = ''/memfd:drm-shim-prime (deleted)'', fi_size = 0\<rparr>"
  have inv1: "shim_inv s1" by (rule shim_inv_prime_export [OF assms(1,5)])
  from assms(3-5) obtain w where w: "sys_anon ''/memfd:drm-shim-prime (deleted)'' (sh_w s) = (fd, w)"
    "s1 = s\<lparr>sh_w := w\<rparr>" "0 \<le> fd"
    by (auto simp: shim_prime_handle_to_fd_def Let_def split: prod.splits if_splits)
  from w(1) have t: "fd_tab (sh_w s) fd = None \<and> fd_tab w = (fd_tab (sh_w s))(fd \<mapsto> ?fi)"
    unfolding sys_anon_def using w(3) by (auto elim: install_fd_cases)
  have k: "sys_fstat fd w = Some (0, anon_ino (sh_w s))" using t by (simp add: sys_fstat_def)
  have miss: "bo_find_by_inode fd (sh_bos s1) (sh_w s1) = Some None"
  proof (rule find_by_inode_miss)
    fix g c
    assume c: "bo_lookup (sh_bos s1) g = Some c" "0 \<le> bo_shm_fd c"
    then have "fd_owner (sh_bos s) g = Some (bo_shm_fd c)" by (simp add: fd_owner_def w(2))
    from ownsD(1) [OF shim_invD(4) [OF assms(1)] this] obtain fi where
      "fd_tab (sh_w s) (bo_shm_fd c) = Some fi" by blast
    with assms(6) t have "sys_fstat (bo_shm_fd c) w \<noteq> Some (0, anon_ino (sh_w s))"
      by (auto simp: sys_fstat_def)
    with k show "sys_fstat (bo_shm_fd c) (sh_w s1) \<noteq> sys_fstat fd (sh_w s1)" by (simp add: w(2))
  qed (use assms(2) shim_invD(1) [OF inv1] w(2) in simp_all)
  from import_fresh [OF inv1 assms(8) miss] obtain dfd b where I:
      "dfd < 0 \<and> fd_tab (sh_w s2) = fd_tab (sh_w s1)
       \<or> 0 \<le> dfd \<and> fd_tab (sh_w s1) dfd = None \<and> fd_tab (sh_w s1) fd \<noteq> None
         \<and> fd_tab (sh_w s2) = (fd_tab (sh_w s1))(dfd := fd_tab (sh_w s1) fd)"
      "b = (new_bo h2)\<lparr>bo_shm_fd := dfd, bo_size := of_int (max 0 (sys_lseek_end fd (sh_w s1))),
        bo_res_handle := 0, bo_is_ahb := fd_is_ahb fd (sh_w s1)\<rparr>"
      "bo_lookup (sh_bos s2) = (bo_lookup (sh_bos s1))(h2 := Some
        (case inode_cache_lookup fd b (sh_w s2) (sh_inodes s1) of None \<Rightarrow> b | Some bo' \<Rightarrow> bo'))"
    by blast
  have i: "dfd < 0 \<and> fd_tab (sh_w s2) = fd_tab w
       \<or> 0 \<le> dfd \<and> fd_tab w dfd = None \<and> fd_tab w fd \<noteq> None \<and> fd_tab (sh_w s2) = (fd_tab w)(dfd := fd_tab w fd)"
    and b: "b = (new_bo h2)\<lparr>bo_shm_fd := dfd, bo_size := of_int (max 0 (sys_lseek_end fd w)),
        bo_res_handle := 0, bo_is_ahb := fd_is_ahb fd w\<rparr>"
    and l2: "bo_lookup (sh_bos s2) h2 = Some (case inode_cache_lookup fd b (sh_w s2) (sh_inodes s) of
         None \<Rightarrow> b | Some bo' \<Rightarrow> bo')"
    using I(1,2) by (simp_all add: w(2) I(3))
  have "\<not> dfd < 0"
    using inode_cache_lookup_keeps [of fd b "sh_w s2" "sh_inodes s"] l2 assms(9)
    by (auto simp: fd_owner_def b split: option.splits if_splits)
  with i t have "0 \<le> dfd" and t3: "fd_tab (sh_w s2) dfd = Some ?fi" "fd_tab (sh_w s2) fd = Some ?fi"
    by auto
  then have "inode_cache_lookup fd b (sh_w s2) (sh_inodes s) = None"
    using assms(7) by (simp add: inode_cache_lookup_def sys_fstat_def)
  with l2 have l: "bo_lookup (sh_bos s2) h2 = Some b" by simp
  have "\<not> fd_is_ahb fd w" by (rule placeholder_not_ahb [of w fd ?fi]) (simp_all add: t)
  then have "\<not> bo_is_ahb b" "bo_shm_fd b = dfd" by (simp_all add: b)
  moreover have "shm_probe_faults dfd (vtest_busy_wait_for_resource (bo_res_handle b) (sh_conn s2)
      (vtest_transfer_get_for_export (bo_res_handle b) (bo_width b) (bo_height b) (sh_conn s2) (sh_w s2)))"
    by (simp add: shm_probe_faults_def busy_wait_tab transfer_get_tab t3)
  ultimately show ?thesis using \<open>0 \<le> dfd\<close> by (simp add: shim_prime_handle_to_fd_def l Let_def)
qed

text \<open>The concrete state again, with an object 1 that has no buffer.\<close>

definition shim2 :: shim where
  "shim2 = shim1\<lparr>sh_bos := bo_update 1 (new_bo 1) bo_state1\<rparr>"

lemma shim2_lookup: "bo_lookup (sh_bos shim2) = [1 \<mapsto> new_bo 1]"
  using bos.update_lookup [OF bo_state1_inv, of 1 "new_bo 1"]
  by (simp add: shim2_def bo_state1_lookup new_bo_def)

lemma shim2_inv: "shim_inv shim2"
proof -
  have own: "fd_owner (sh_bos shim2) = Map.empty"
    by (rule ext) (simp add: fd_owner_def shim2_lookup new_bo_def)
  have "bo_inv (sh_bos shim2)"
    using bos.inv_update [OF bo_state1_inv, of 1 "new_bo 1"]
    by (simp add: shim2_def bo_state1_lookup new_bo_def)
  with shim1_inv show ?thesis
    by (simp add: shim_inv_def own owns_def) (simp add: shim2_def)
qed

lemma inode_cache0_get: "icache_get inode_cache0 k = None"
  by (simp add: icache_get_None_iff inode_cache0_def zero_entry_def ic_matches_def)

lemma inode_cache0_put:
  "icache_get (icache_put k (entry_of k v) inode_cache0) = [k \<mapsto> entry_of k v]"
proof -
  have "\<not> icache_full inode_cache0"
    by (simp add: icache_full_def inode_cache0_def INODE_CACHE_SIZE_def zero_entry_def)
  then have "icache_victim inode_cache0 k = None" by (simp add: icache_victim_def)
  with icache_put_contract [OF icache_inv_init entry_of_matches, of k v] show ?thesis
    by (simp add: fun_eq_iff inode_cache0_get)
qed

lemma shim1_icache:
  "icache_get (sh_inodes shim1) = [(1, 42) \<mapsto> entry_of (1, 42) (7, 32, 32, 128, 4096, False)]"
  by (simp add: shim1_def inode_cache0_put del: entry_of.simps)

theorem prime_reexport_faults_witness:
  "\<exists>s1 s2. shim_prime_handle_to_fd 1 shim2 = Some (RC_OK, 0, s1)
     \<and> shim_prime_fd_to_handle 0 s1 = Some (RC_OK, 2, s2) \<and> shim_prime_handle_to_fd 2 s2 = None"
proof -
  let ?fi = "\<lparr>fi_dev = 0, fi_ino = 100, fi_link = ''/memfd:drm-shim-prime (deleted)'', fi_size = 0\<rparr>"
  let ?w = "world1\<lparr>anon_ino := 101, fd_tab := (fd_tab world1)(0 \<mapsto> ?fi)\<rparr>"
  let ?s1 = "shim2\<lparr>sh_w := ?w\<rparr>"
  have f: "sh_w shim2 = world1" "bo_handle_next (sh_bos shim2) = 2" "length (bo_table (sh_bos shim2)) = 1024"
    "sh_inodes shim2 = sh_inodes shim1"
    by (simp_all add: shim2_def shim1_fields)
  have "sys_anon ''/memfd:drm-shim-prime (deleted)'' world1 = (0, ?w)"
    by (simp add: sys_anon_def install_fd_def free_fd_def upt_rec world1_def world0_def)
  then have e: "shim_prime_handle_to_fd 1 shim2 = Some (RC_OK, 0, ?s1)"
    by (simp add: shim_prime_handle_to_fd_def shim2_lookup new_bo_def f)
  have inv1: "shim_inv ?s1" by (rule shim_inv_prime_export [OF shim2_inv e])
  have miss: "bo_find_by_inode 0 (sh_bos shim2) ?w = Some None"
    by (rule find_by_inode_miss [OF shim_invD(1) [OF shim2_inv]])
      (auto simp: f shim2_lookup new_bo_def split: if_splits)
  have "free_fd ?w = Some 1"
    by (simp add: free_fd_def upt_rec world1_def world0_def)
  then have d: "sys_dup 0 ?w = (1, ?w\<lparr>fd_tab := (fd_tab ?w)(1 \<mapsto> ?fi)\<rparr>)"
    by (simp add: sys_dup_def install_fd_def)
  obtain s2 where i: "shim_prime_fd_to_handle 0 ?s1 = Some (RC_OK, 2, s2)"
    "fd_owner (sh_bos s2) 2 = Some 1"
  proof -
    let ?bo = "(new_bo 2)\<lparr>bo_shm_fd := 1, bo_size := 0, bo_res_handle := 0, bo_is_ahb := False\<rparr>"
    have a: "sh_bo_alloc ?s1 = Some (Some 2, ?s1\<lparr>sh_bos := (sh_bos shim2)\<lparr>bo_handle_next := 3,
        bo_table := (bo_table (sh_bos shim2))[2 := new_bo 2]\<rparr>\<rparr>)"
      by (simp add: sh_bo_alloc_def bo_alloc_def f Let_def)
    have "\<not> fd_is_ahb 0 ?w" by (rule placeholder_not_ahb [of _ _ ?fi]) simp_all
    moreover have "sys_lseek_end 0 ?w = 0" by (simp add: sys_lseek_end_def)
    moreover have "inode_cache_lookup 0 ?bo (?w\<lparr>fd_tab := (fd_tab ?w)(1 \<mapsto> ?fi)\<rparr>) (sh_inodes shim2) = None"
      using shim1_icache by (simp add: inode_cache_lookup_def sys_fstat_def f)
    ultimately have "shim_prime_fd_to_handle 0 ?s1 = Some (RC_OK, 2, ?s1\<lparr>sh_bos :=
        bo_update 2 ?bo ((sh_bos shim2)\<lparr>bo_handle_next := 3,
          bo_table := (bo_table (sh_bos shim2))[2 := new_bo 2]\<rparr>),
        sh_w := ?w\<lparr>fd_tab := (fd_tab ?w)(1 \<mapsto> ?fi)\<rparr>\<rparr>)"
      using miss a d by (simp add: shim_prime_fd_to_handle_def Let_def)
    then show thesis
      by (rule that) (simp add: fd_owner_def bo_lookup_def bo_update_def f new_bo_def)
  qed
  have "shim_prime_handle_to_fd 2 s2 = None"
  proof (rule prime_reexport_faults [OF shim2_inv _ _ _ e _ _ i(1)])
    show "icache_get (sh_inodes shim2) (0, anon_ino (sh_w shim2)) = None"
      using shim1_icache by (simp add: f world1_def world0_def)
  qed (auto simp: f shim2_lookup new_bo_def i(2) world1_def world0_def memfd5_def split: if_splits)
  with e i(1) show ?thesis by blast
qed

text \<open>After an object is closed, no table entry shares the inode only it had.\<close>

lemma close_find_miss:
  assumes "shim_inv s" "unat (bo_handle_next (sh_bos s)) \<le> length (bo_table (sh_bos s))"
    and "bo_lookup (sh_bos s) h = Some bo" "0 \<le> bo_shm_fd bo" "sys_fstat fd w = Some k"
    and only: "\<forall>g c. bo_lookup (sh_bos s) g = Some c \<and> 0 \<le> bo_shm_fd c
      \<and> sys_fstat (bo_shm_fd c) (sh_w s) = Some k \<longrightarrow> g = h"
    and w: "fd_tab w = (fd_tab (sh_w s))(bo_shm_fd bo := None)"
    and inv1: "bo_inv (bo_free h (sh_bos s))"
  shows "bo_find_by_inode fd (bo_free h (sh_bos s)) w = Some None"
proof (rule find_by_inode_miss [OF inv1])
  note i = shim_invD [OF assms(1)]
  have own: "fd_owner (sh_bos s) h = Some (bo_shm_fd bo)" using assms(3,4) by (simp add: fd_owner_def)
  fix g c
  assume c: "bo_lookup (bo_free h (sh_bos s)) g = Some c" "0 \<le> bo_shm_fd c"
  with bos.free_lookup [OF i(1), of h] have g: "g \<noteq> h" "bo_lookup (sh_bos s) g = Some c"
    by (auto split: if_splits)
  then have "fd_owner (sh_bos s) g = Some (bo_shm_fd c)" using c(2) by (simp add: fd_owner_def)
  with own ownsD(3) [OF i(4)] g(1) have "bo_shm_fd c \<noteq> bo_shm_fd bo" by metis
  then have "sys_fstat (bo_shm_fd c) w = sys_fstat (bo_shm_fd c) (sh_w s)"
    by (intro sys_fstat_cong) (simp add: w)
  with only g c(2) assms(5) show "sys_fstat (bo_shm_fd c) w \<noteq> sys_fstat fd w" by auto
qed (use assms(2) in \<open>simp add: bo_free_def split: option.split\<close>)

text \<open>
  C7: The inode cache outlives the object. When an object is closed and a descriptor the
  application still holds for the same file is imported, the new object has the handle of the server
  resource and the geometry the cache recorded, under a new local handle. For a buffer that is not
  Android's, closing has meanwhile told the server to drop that resource: the object the import
  returns then names a resource the server was asked to unreference.
\<close>

theorem reimport_after_close:
  assumes "shim_inv s" and "unat (bo_handle_next (sh_bos s)) \<le> length (bo_table (sh_bos s))"
    and "bo_lookup (sh_bos s) h = Some bo" "0 \<le> bo_shm_fd bo"
    and "sys_fstat (bo_shm_fd bo) (sh_w s) = Some k" "sys_fstat fd (sh_w s) = Some k" "0 \<le> fd"
    and "\<forall>g. fd_owner (sh_bos s) g \<noteq> Some fd"
    and "\<forall>g c. bo_lookup (sh_bos s) g = Some c \<and> 0 \<le> bo_shm_fd c
      \<and> sys_fstat (bo_shm_fd c) (sh_w s) = Some k \<longrightarrow> g = h"
    and "icache_find (sh_inodes s) k = Some (bo_res_handle bo, wd, ht, st, sz, ahb)"
    and "shim_gem_close h s = (r, s1)" "shim_prime_fd_to_handle fd s1 = Some (RC_OK, h2, s2)"
  shows "h2 \<noteq> h \<and> (\<exists>bo2. bo_lookup (sh_bos s2) h2 = Some bo2 \<and> bo_res_handle bo2 = bo_res_handle bo
      \<and> bo_width bo2 = wd \<and> bo_height bo2 = ht \<and> bo_stride bo2 = st \<and> bo_size bo2 = sz \<and> bo_is_ahb bo2 = ahb)
    \<and> (soft_writes (sh_w s) \<and> 0 \<le> vtest_sock (sh_conn s) \<and> bo_res_handle bo \<noteq> 0 \<and> \<not> bo_is_ahb bo
        \<longrightarrow> tx (sh_w s1) = tx (sh_w s) @ dwords [1, VCMD_RESOURCE_UNREF, bo_res_handle bo])"
proof -
  note i = shim_invD [OF assms(1)]
  have inv1: "shim_inv s1" by (rule shim_inv_gem_close [OF assms(1,11)])
  from assms(11) obtain w where s1: "s1 = s\<lparr>sh_bos := bo_free h (sh_bos s), sh_w := w\<rparr>"
    "fd_tab w = (fd_tab (sh_w s))(bo_shm_fd bo := None)"
    by (cases rule: gem_close_cases) (use assms(3,4) in auto)
  have len: "bo_handle_next (bo_free h (sh_bos s)) = bo_handle_next (sh_bos s)"
    "length (bo_table (bo_free h (sh_bos s))) = length (bo_table (sh_bos s))"
    by (simp_all add: bo_free_def split: option.split)
  have own: "fd_owner (sh_bos s) h = Some (bo_shm_fd bo)" using assms(3,4) by (simp add: fd_owner_def)
  with assms(8) have fd: "fd \<noteq> bo_shm_fd bo" by metis
  then have kfd: "sys_fstat fd w = Some k"
    using assms(6) s1(2) by (subst sys_fstat_cong [of _ _ "sh_w s"]) simp_all
  have "bo_find_by_inode fd (sh_bos s1) (sh_w s1) = Some None"
    using close_find_miss [OF assms(1-4) kfd assms(9) s1(2)] shim_invD(1) [OF inv1] by (simp add: s1(1))
  from import_fresh [OF inv1 assms(12) this] obtain dfd b where I:
    "h2 = bo_handle_next (sh_bos s1)"
    "dfd < 0 \<and> fd_tab (sh_w s2) = fd_tab (sh_w s1)
       \<or> 0 \<le> dfd \<and> fd_tab (sh_w s1) dfd = None \<and> fd_tab (sh_w s1) fd \<noteq> None
         \<and> fd_tab (sh_w s2) = (fd_tab (sh_w s1))(dfd := fd_tab (sh_w s1) fd)"
    "bo_lookup (sh_bos s2) = (bo_lookup (sh_bos s1))(h2 := Some
        (case inode_cache_lookup fd b (sh_w s2) (sh_inodes s1) of None \<Rightarrow> b | Some bo' \<Rightarrow> bo'))"
    by blast
  from I(2) have "fd_tab (sh_w s2) fd = fd_tab (sh_w s1) fd" by auto
  then have k2: "sys_fstat fd (sh_w s2) = Some k"
    using kfd by (subst sys_fstat_cong [of _ _ w]) (simp_all add: s1(1))
  from assms(10) obtain e where e: "icache_get (sh_inodes s) k = Some e"
    "icache_value e = (bo_res_handle bo, wd, ht, st, sz, ahb)" by (auto simp: icache_find_def)
  have "\<exists>bo2. inode_cache_lookup fd b (sh_w s2) (sh_inodes s1) = Some bo2 \<and> bo_res_handle bo2 = bo_res_handle bo
      \<and> bo_width bo2 = wd \<and> bo_height bo2 = ht \<and> bo_stride bo2 = st \<and> bo_size bo2 = sz \<and> bo_is_ahb bo2 = ahb"
    using e assms(7) by (simp add: inode_cache_lookup_def k2 s1(1) icache_value_def)
  then have "\<exists>bo2. bo_lookup (sh_bos s2) h2 = Some bo2 \<and> bo_res_handle bo2 = bo_res_handle bo
      \<and> bo_width bo2 = wd \<and> bo_height bo2 = ht \<and> bo_stride bo2 = st \<and> bo_size bo2 = sz \<and> bo_is_ahb bo2 = ahb"
    by (auto simp: I(3))
  moreover have "h2 \<noteq> h" using bo_fresh [OF i(1)] assms(3) by (auto simp: I(1) s1(1) len)
  moreover have "soft_writes (sh_w s) \<and> 0 \<le> vtest_sock (sh_conn s) \<and> bo_res_handle bo \<noteq> 0 \<and> \<not> bo_is_ahb bo
        \<longrightarrow> tx (sh_w s1) = tx (sh_w s) @ dwords [1, VCMD_RESOURCE_UNREF, bo_res_handle bo]"
    using gem_close_wire [OF assms(11)] assms(3) by simp
  ultimately show ?thesis by blast
qed

lemma import_succeeds:
  assumes "bo_find_by_inode fd (sh_bos s) (sh_w s) = Some None"
    and "unat (bo_handle_next (sh_bos s)) < length (bo_table (sh_bos s))"
    and "length (bo_table (sh_bos s)) < 2 ^ 32"
  shows "\<exists>s'. shim_prime_fd_to_handle fd s = Some (RC_OK, bo_handle_next (sh_bos s), s')"
proof -
  have "\<not> (of_nat (length (bo_table (sh_bos s))) :: u32) \<le> bo_handle_next (sh_bos s)"
    using assms(2,3) by (simp add: word_le_nat_alt unat_of_nat)
  then have "\<exists>b. sh_bo_alloc s = Some (Some (bo_handle_next (sh_bos s)), b)"
    by (simp add: sh_bo_alloc_def bo_alloc_def Let_def)
  with assms(1) show ?thesis
    by (auto simp: shim_prime_fd_to_handle_def Let_def split: prod.split)
qed

theorem reimport_after_close_witness:
  "\<exists>s1 s2 bo2. shim_gem_close 1 shim1 = (RC_OK, s1)
     \<and> shim_prime_fd_to_handle 6 s1 = Some (RC_OK, 2, s2)
     \<and> bo_lookup (sh_bos s2) 2 = Some bo2 \<and> bo_res_handle bo2 = 7 \<and> tx (sh_w s1) = dwords [1, 3, 7]"
proof -
  obtain r s1 where c: "shim_gem_close 1 shim1 = (r, s1)" by fastforce
  have l: "bo_lookup (sh_bos shim1) 1 = Some bo_one" by (simp add: shim1_fields bo_state1_lookup)
  from c obtain w where s1: "r = RC_OK" "s1 = shim1\<lparr>sh_bos := bo_free 1 bo_state1, sh_w := w\<rparr>"
    by (cases rule: gem_close_cases) (auto simp: shim1_fields bo_state1_lookup)
  have f: "bo_handle_next (sh_bos s1) = 2" "length (bo_table (sh_bos s1)) = 1024"
    by (simp_all add: s1 bo_free_def shim1_fields split: option.split)
  have "bo_lookup (sh_bos s1) g = None" for g
    using bos.free_lookup [OF bo_state1_inv, of 1] by (simp add: s1 bo_state1_lookup)
  then have "bo_find_by_inode 6 (sh_bos s1) (sh_w s1) = Some None"
    using shim_invD(1) [OF shim_inv_gem_close [OF shim1_inv c]]
    by (intro find_by_inode_miss) (simp_all add: f)
  from import_succeeds [OF this] f obtain s2 where
    i: "shim_prime_fd_to_handle 6 s1 = Some (RC_OK, 2, s2)" by auto
  have k: "sys_fstat 5 world1 = Some (1, 42)" "sys_fstat 6 world1 = Some (1, 42)"
    by (simp_all add: sys_fstat_def shim1_fields memfd5_def)
  have g: "icache_find (sh_inodes shim1) (1, 42) = Some (bo_res_handle bo_one, 32, 32, 128, 4096, False)"
    by (simp add: icache_find_def shim1_icache del: entry_of.simps)
  have own: "\<forall>g. fd_owner (sh_bos shim1) g \<noteq> Some 6"
    by (simp add: fd_owner_def shim1_fields bo_state1_lookup)
  have only: "\<forall>g c. bo_lookup (sh_bos shim1) g = Some c \<and> 0 \<le> bo_shm_fd c
      \<and> sys_fstat (bo_shm_fd c) (sh_w shim1) = Some (1, 42) \<longrightarrow> g = 1"
    by (simp add: shim1_fields bo_state1_lookup)
  have cap: "unat (bo_handle_next (sh_bos shim1)) \<le> length (bo_table (sh_bos shim1))"
    and p: "0 \<le> bo_shm_fd bo_one" "(0 :: int) \<le> 6"
    and k': "sys_fstat (bo_shm_fd bo_one) (sh_w shim1) = Some (1, 42)"
      "sys_fstat 6 (sh_w shim1) = Some (1, 42)"
    using k by (simp_all add: shim1_fields)
  from reimport_after_close [OF shim1_inv cap l p(1) k' p(2) own only g c i]
  have "\<exists>bo2. bo_lookup (sh_bos s2) 2 = Some bo2 \<and> bo_res_handle bo2 = 7"
    and "tx (sh_w s1) = tx (sh_w shim1) @ dwords [1, VCMD_RESOURCE_UNREF, 7]"
    by (auto simp: shim1_fields shim1_soft simp del: dwords_Cons)
  with c i s1(1) show ?thesis by (auto simp: shim1_fields VCMD_defs)
qed

end
