(* ===== verification/DrmData.thy ===== *)
theory DrmData
  imports DrmShare
begin

text \<open>
  Properties of the requests that move data or build structures: the capability reply, command
  submission, resource creation, waiting, and the layout of the fake device.
\<close>

subsection \<open>Capabilities\<close>

lemma discard_soft:
  "soft_reads w \<Longrightarrow> rx w = data @ rest \<Longrightarrow> length data = n \<Longrightarrow>
     rx (caps_discard n w) = rest \<and> soft_reads (caps_discard n w) \<and> tx (caps_discard n w) = tx w"
proof (induction n w arbitrary: data rule: caps_discard.induct)
  case (1 n w)
  show ?case
  proof (cases "n = 0")
    case True
    with "1.prems" show ?thesis by (simp add: caps_discard.simps)
  next
    case False
    let ?c = "min n 256"
    have "rx w = take ?c data @ drop ?c data @ rest" "length (take ?c data) = ?c"
      using "1.prems"(2,3) by simp_all
    from soft_read_exact [OF "1.prems"(1) this] obtain w1 where
      r: "vtest_block_read ?c w = (Some (take ?c data), w1)" "rx w1 = drop ?c data @ rest"
        "tx w1 = tx w" "soft_reads w1" by blast
    have "rx (caps_discard (n - ?c) w1) = rest \<and> soft_reads (caps_discard (n - ?c) w1)
      \<and> tx (caps_discard (n - ?c) w1) = tx w1"
      using "1.IH" [OF False refl, of "drop ?c data"] r "1.prems"(3) by simp
    with False r show ?thesis by (simp add: caps_discard.simps [of n w] Let_def)
  qed
qed

text \<open>
  A capability request on a healthy connection sends one empty command, reads exactly the
  server's reply whatever its size, and copies at most \<open>gc->size\<close> bytes to the caller, leaving
  the rest of the buffer alone. If the reply cannot be buffered the result is \<open>ENOMEM\<close>, the
  caller's buffer is untouched and the reply is still consumed, so that the stream stays in step.
\<close>

theorem get_caps_reply:
  assumes "0 \<le> vtest_sock (sh_conn s)" "soft_writes (sh_w s)" "soft_reads (sh_w s)"
    and "gc_cap_set_id gc = 1 \<or> gc_cap_set_id gc = 2"
    and "rx (sh_w s) = le32 (of_nat (Suc (length data))) @ le32 cid @ data @ rest"
    and "data \<noteq> []" "length data < 2 ^ 32 - 1"
  shows "\<exists>w'. rx w' = rest
    \<and> tx w' = tx (sh_w s) @ dwords [0, if gc_cap_set_id gc = 1 then VCMD_GET_CAPS else VCMD_GET_CAPS2]
    \<and> shim_get_caps gc s = (if fst (sys_alloc (sh_w s))
        then (RC_OK, gc\<lparr>gc_buf := take (min (unat (gc_size gc)) (length data)) data
               @ drop (min (unat (gc_size gc)) (length data)) (gc_buf gc)\<rparr>, s\<lparr>sh_w := w'\<rparr>)
        else (RC_ERR ENOMEM, gc, s\<lparr>sh_w := w'\<rparr>))"
proof -
  let ?cmd = "if gc_cap_set_id gc = 1 then VCMD_GET_CAPS else VCMD_GET_CAPS2"
  define N where "N = (of_nat (Suc (length data)) :: u32)"
  define D where "D = (of_nat (length data) :: u32)"
  let ?h = "le32 N @ le32 cid" and ?d = D
  have len: "unat ?d = length data" using assms(7) by (simp add: unat_of_nat D_def)
  have pos: "?d > 0" using len assms(6) by (metis length_0_conv unat_0 word_gt_0)
  have "Suc (length data) < 2 ^ 32" using assms(7) by linarith
  then have "unat (of_nat (Suc (length data)) :: u32) = Suc (length data)"
    by (simp only: unat_of_nat) simp
  then have "N \<noteq> 0" by (metis nat.distinct(1) unat_0 N_def)
  then have h0: "N > 0" by (simp only: word_gt_0)
  have ND: "N - 1 = D" by (simp add: N_def D_def)
  have data_bytes: "un_le32 (take 4 ?h) = N" by simp
  from soft_write_exact [OF assms(2)] obtain w1 where
    w1: "vtest_block_write (dwords [0, ?cmd]) (sh_w s) = (0, w1)"
      "tx w1 = tx (sh_w s) @ dwords [0, ?cmd]" "rx w1 = rx (sh_w s)" "soft_reads w1" using assms(3) by metis
  have "rx w1 = ?h @ data @ rest" "length ?h = 8" using w1(3) assms(5) by (simp_all add: N_def)
  from soft_read_exact [OF w1(4) this] obtain w2 where
    w2: "vtest_block_read 8 w1 = (Some ?h, w2)" "rx w2 = data @ rest" "tx w2 = tx w1" "soft_reads w2"
    by blast
  have "alloc_sched w2 = alloc_sched (sh_w s)"
    using block_write_fields(9) [OF w1(1)] block_read_fields(9) [OF w2(1)] by simp
  then obtain w3 where w3: "sys_alloc w2 = (fst (sys_alloc (sh_w s)), w3)" "rx w3 = rx w2" "tx w3 = tx w2"
    "soft_reads w3" using w2(4)
    by (cases "alloc_sched (sh_w s)") (auto simp: sys_alloc_def soft_reads_def)
  have "length data = unat ?d" using len by simp
  from soft_read_exact [OF w3(4) _ this, of rest] w3(2) w2(2) obtain w4 where
    w4: "vtest_block_read (unat ?d) w3 = (Some data, w4)" "rx w4 = rest" "tx w4 = tx w3" by auto
  have copy: "unat (if gc_size gc < ?d then gc_size gc else ?d) = min (unat (gc_size gc)) (length data)"
  proof -
    have "unat (if gc_size gc < ?d then gc_size gc else ?d)
        = (if unat (gc_size gc) < length data then unat (gc_size gc) else length data)"
      by (simp add: word_less_nat_alt len)
    then show ?thesis by (simp only: min_def) auto
  qed
  note conn = sh_connect_connected [OF assms(1)]
  have ids: "\<not> (gc_cap_set_id gc \<noteq> 1 \<and> gc_cap_set_id gc \<noteq> 2)" using assms(4) by simp
  show ?thesis
  proof (cases "fst (sys_alloc (sh_w s))")
    case True
    have "shim_get_caps gc s = (RC_OK, gc\<lparr>gc_buf := take (min (unat (gc_size gc)) (length data)) data
               @ drop (min (unat (gc_size gc)) (length data)) (gc_buf gc)\<rparr>, s\<lparr>sh_w := w4\<rparr>)"
      using conn ids w1(1) w2(1) data_bytes pos w3(1) True w4(1) copy
      unfolding shim_get_caps_def Let_def if_not_P [OF ids]
      by (simp add: h0 ND del: dwords_Cons split del: if_split cong: if_cong)
    with True w1 w2 w3 w4 show ?thesis by (intro exI [of _ w4]) (simp del: dwords_Cons)
  next
    case False
    have d: "rx (caps_discard (unat ?d) w3) = rest \<and> tx (caps_discard (unat ?d) w3) = tx w3"
      using discard_soft [OF w3(4), of data rest "unat ?d"] w3(2) w2(2) len by simp
    have "shim_get_caps gc s = (RC_ERR ENOMEM, gc, s\<lparr>sh_w := caps_discard (unat ?d) w3\<rparr>)"
      using conn ids w1(1) w2(1) data_bytes pos w3(1) False
      unfolding shim_get_caps_def Let_def if_not_P [OF ids]
      by (simp add: h0 ND del: dwords_Cons split del: if_split cong: if_cong)
    with False w1 w2 w3 d show ?thesis
      by (intro exI [of _ "caps_discard (unat ?d) w3"]) (simp del: dwords_Cons)
  qed
qed

theorem get_caps_reply_witness:
  "\<exists>w'. rx w' = [] \<and> shim_get_caps \<lparr>gc_cap_set_id = 1, gc_size = 2, gc_buf = [9, 9, 9]\<rparr>
      (shim1\<lparr>sh_w := world1\<lparr>rx := le32 4 @ le32 1 @ [1, 2, 3]\<rparr>\<rparr>)
     = (RC_OK, \<lparr>gc_cap_set_id = 1, gc_size = 2, gc_buf = [1, 2, 9]\<rparr>, shim1\<lparr>sh_w := w'\<rparr>)"
proof -
  let ?gc = "\<lparr>gc_cap_set_id = 1, gc_size = 2, gc_buf = [9, 9, 9]\<rparr>"
  let ?s = "shim1\<lparr>sh_w := world1\<lparr>rx := le32 4 @ le32 1 @ [1, 2, 3]\<rparr>\<rparr>"
  have a: "0 \<le> vtest_sock (sh_conn ?s)" "soft_writes (sh_w ?s)" "soft_reads (sh_w ?s)"
    "gc_cap_set_id ?gc = 1 \<or> gc_cap_set_id ?gc = 2" "[1, 2, 3 :: u8] \<noteq> []"
    "length [1, 2, 3 :: u8] < 2 ^ 32 - 1" "fst (sys_alloc (sh_w ?s))"
    by (simp_all add: shim1_fields soft_writes_def soft_reads_def sys_alloc_def)
  have rx: "rx (sh_w ?s) = le32 (of_nat (Suc (length [1, 2, 3 :: u8]))) @ le32 1 @ [1, 2, 3] @ []" by simp
  from get_caps_reply [OF a(1-4) rx a(5,6)] a(7) show ?thesis by auto
qed

subsection \<open>Command submission\<close>

text \<open>
  C10: Submitting a command of \<open>n\<close> bytes, not within 3 of \<open>2^32\<close>, sends one frame: the count
  of dwords rounded up, the command and zero bytes up to that count. The request writes the zeros
  into the caller's memory beyond the command, so memory that ends with the command is overrun,
  and leaves the memory after the padding alone. A fence descriptor is made only when asked for.
\<close>

theorem execbuffer_frame:
  assumes "0 \<le> vtest_sock (sh_conn s)" "soft_writes (sh_w s)"
    and "unat (eb_size eb) + 3 < 2 ^ 32" "n = unat (eb_size eb)" "m = (n + 3) div 4"
    and "cmd = take n (eb_command eb) @ replicate (4 * m - n) 0"
  shows "if length (eb_command eb) < 4 * m then shim_execbuffer eb s = None
    else \<exists>eb' s'. shim_execbuffer eb s = Some (RC_OK, eb', s')
      \<and> tx (sh_w s') = tx (sh_w s) @ dwords [of_nat m, VCMD_SUBMIT_CMD] @ cmd
      \<and> eb_command eb' = cmd @ drop (4 * m) (eb_command eb)
      \<and> (eb_flags eb AND VIRTGPU_EXECBUF_FENCE_FD_OUT = 0 \<longrightarrow>
           eb_fence_fd eb' = eb_fence_fd eb \<and> fd_tab (sh_w s') = fd_tab (sh_w s))"
proof -
  let ?d = "(eb_size eb + 3) div 4"
  have "unat (eb_size eb + 3) = n + 3" using assms(3,4) by (simp add: unat_word_ariths)
  then have d: "unat ?d = m" using assms(5) by (simp add: unat_div)
  have m4: "4 * m \<le> n + 3" "n \<le> 4 * m" using assms(5) by linarith+
  have "unat ?d * 4 < 2 ^ 32" using m4 assms(3,4) by (simp add: d)
  then have p: "unat (?d * 4) = 4 * m" using d by (simp add: unat_word_ariths)
  have dm: "?d = of_nat m" by (simp flip: d)
  note conn = sh_connect_connected [OF assms(1)]
  show ?thesis
  proof (cases "length (eb_command eb) < 4 * m")
    case True
    with conn p show ?thesis by (simp add: shim_execbuffer_def Let_def)
  next
    case False
    let ?c = "if ?d * 4 > eb_size eb then take (unat (eb_size eb)) (eb_command eb)
      @ replicate (4 * m - unat (eb_size eb)) 0 @ drop (4 * m) (eb_command eb) else eb_command eb"
    have c: "?c = cmd @ drop (4 * m) (eb_command eb)"
      using m4 False assms(4) by (auto simp: assms(6) word_less_nat_alt p)
    have "length cmd = 4 * m" using False m4 by (simp add: assms(6))
    then have tc: "take (4 * m) ?c = cmd" by (simp add: c)
    from vtest_command_soft [OF assms(2), of "[?d, VCMD_SUBMIT_CMD]" cmd] obtain w1 where
      w1: "vtest_command [?d, VCMD_SUBMIT_CMD] cmd (sh_w s) = (True, w1)"
        "tx w1 = tx (sh_w s) @ dwords [?d, VCMD_SUBMIT_CMD] @ cmd" "fd_tab w1 = fd_tab (sh_w s)"
      by blast
    obtain fd w2 where w2: "sys_anon ''anon_inode:[eventfd]'' w1 = (fd, w2)" by fastforce
    have tx2: "tx w2 = tx w1"
      using w2 by (auto simp: sys_anon_def install_fd_def split: option.splits)
    have "shim_execbuffer eb s = (if eb_flags eb AND VIRTGPU_EXECBUF_FENCE_FD_OUT \<noteq> 0
        then Some (RC_OK, eb\<lparr>eb_command := ?c, eb_fence_fd := fd\<rparr>, s\<lparr>sh_w := w2\<rparr>)
        else Some (RC_OK, eb\<lparr>eb_command := ?c\<rparr>, s\<lparr>sh_w := w1\<rparr>))"
      using conn p False w1(1) w2 tc unfolding shim_execbuffer_def Let_def p
      by (simp del: dwords_Cons split del: if_split cong: if_cong)
    with False c w1(2,3) tx2 show ?thesis
      by (simp add: dm del: dwords_Cons)
  qed
qed

definition exec1 :: virtgpu_execbuffer where
  "exec1 = \<lparr>eb_flags = 0, eb_size = 5, eb_command = [1, 2, 3, 4, 5, 6, 7, 8, 9], eb_fence_fd = -1\<rparr>"

theorem execbuffer_frame_witness:
  "\<exists>eb' s'. shim_execbuffer exec1 shim1 = Some (RC_OK, eb', s')
     \<and> tx (sh_w s') = dwords [2, 6] @ [1, 2, 3, 4, 5, 0, 0, 0]
     \<and> eb_command eb' = [1, 2, 3, 4, 5, 0, 0, 0, 9]"
proof -
  have a: "0 \<le> vtest_sock (sh_conn shim1)" "soft_writes (sh_w shim1)" "unat (eb_size exec1) + 3 < 2 ^ 32"
    by (simp_all add: shim1_fields shim1_soft exec1_def)
  have u: "unat (eb_size exec1) = 5" "(5 + 3) div 4 = (2 :: nat)" by (simp_all add: exec1_def)
  from execbuffer_frame [OF a refl refl refl] show ?thesis
    unfolding u by (simp add: exec1_def shim1_fields VCMD_defs numeral_eq_Suc del: dwords_Cons) blast
qed

subsection \<open>Resource creation\<close>

lemma recv_fd_soft:
  "\<lbrakk>soft_reads w; rx w = b # rest; rx_anc w = Some fi # anc; free_fd w = Some i\<rbrakk> \<Longrightarrow>
     \<exists>w'. vtest_recv_fd w = (int i, w') \<and> fd_tab w' = (fd_tab w)(int i \<mapsto> fi) \<and> rx w' = rest \<and> tx w' = tx w"
proof (induction w rule: vtest_recv_fd.induct)
  case (1 w)
  have free: "free_fd (w\<lparr>rsched := rs\<rparr>) = free_fd w"
    "free_fd (w\<lparr>rx := bs, rsched := rs, rx_anc := as\<rparr>) = free_fd w" for rs bs as
    by (simp_all add: free_fd_def)
  show ?case
  proof (cases "\<exists>rs. rsched w = RE EINTR # rs")
    case True
    then obtain rs where rs: "rsched w = RE EINTR # rs" by blast
    have "soft_reads (w\<lparr>rsched := rs\<rparr>)" using "1.prems"(1) rs by (auto simp: soft_reads_def)
    from "1.IH" [OF rs refl refl this] "1.prems" free rs show ?thesis
      by (simp add: vtest_recv_fd.simps [of w])
  next
    case False
    then have "vtest_recv_fd w = recvmsg_fd (w\<lparr>rsched := tl (rsched w)\<rparr>)"
      using "1.prems"(1)
      by (auto simp: vtest_recv_fd.simps [of w] soft_reads_def split: list.split rres.split)
    with "1.prems" show ?thesis
      by (simp add: recvmsg_fd_def install_fd_def free_fd_def fun_eq_iff)
  qed
qed

lemma sh_bo_alloc_ok:
  assumes "shim_inv s" "unat (bo_handle_next (sh_bos s)) < 2 ^ 31" "alloc_sched (sh_w s) = []"
  obtains b where "sh_bo_alloc s = Some (Some (bo_handle_next (sh_bos s)), s\<lparr>sh_bos := b\<rparr>)" "bo_inv b"
    "bo_lookup b = (bo_lookup (sh_bos s))(bo_handle_next (sh_bos s) := Some (new_bo (bo_handle_next (sh_bos s))))"
proof -
  note i = shim_invD(1) [OF assms(1)]
  from bo_alloc_returns [OF i assms(2), of True] obtain b where
    b: "bo_alloc True (sh_bos s) = Some (Some (bo_handle_next (sh_bos s)), b)" by auto
  from bo_alloc_spec [OF i assms(2) b] b show thesis
    by (intro that [of b]) (simp_all add: sh_bo_alloc_def sys_alloc_def assms(3))
qed

text \<open>The exchange of a creation on a socket with the reply waiting: the request goes out, the handle and the descriptor come in.\<close>

lemma create_exchange:
  assumes "soft_writes (sh_w s)" "soft_reads (sh_w s)" "3 \<le> vtest_protocol_version (sh_conn s)"
    and "rx (sh_w s) = hdr @ le32 res @ b # rest" "length hdr = 8"
    and "rx_anc (sh_w s) = Some fi # anc" "free_fd (sh_w s) = Some i"
  obtains w1 w3 w4 where "vtest_command [11, VCMD_RESOURCE_CREATE2] (dwords p) (sh_w s) = (True, w1)"
    "create_reply (vtest_protocol_version (sh_conn s)) h w1 = (Some res, w3)" "vtest_recv_fd w3 = (int i, w4)"
    "fd_tab w4 = (fd_tab (sh_w s))(int i \<mapsto> fi)" "rx w4 = rest"
    "tx w4 = tx (sh_w s) @ dwords [11, VCMD_RESOURCE_CREATE2] @ dwords p"
proof -
  from vtest_command_soft [OF assms(1), of "[11, VCMD_RESOURCE_CREATE2]" "dwords p"] obtain w1 where
    w1: "vtest_command [11, VCMD_RESOURCE_CREATE2] (dwords p) (sh_w s) = (True, w1)"
      "tx w1 = tx (sh_w s) @ dwords [11, VCMD_RESOURCE_CREATE2] @ dwords p"
      "rx w1 = rx (sh_w s)" "soft_reads w1" "fd_tab w1 = fd_tab (sh_w s)" "rx_anc w1 = rx_anc (sh_w s)"
      "w1 = (sh_w s)\<lparr>tx := tx w1, wsched := wsched w1\<rparr>" using assms(2) by metis
  have lim1: "fd_limit w1 = fd_limit (sh_w s)" by (subst w1(7)) simp
  from soft_read_exact [OF w1(4) _ assms(5)] w1(3) assms(4) obtain w2 where
    w2: "vtest_block_read 8 w1 = (Some hdr, w2)" "rx w2 = le32 res @ b # rest" "tx w2 = tx w1"
      "soft_reads w2" "fd_tab w2 = fd_tab w1" "rx_anc w2 = rx_anc w1" by metis
  from soft_read_exact [OF w2(4,2) length_le32] obtain w3 where
    w3: "vtest_block_read 4 w2 = (Some (le32 res), w3)" "rx w3 = b # rest" "tx w3 = tx w2"
      "soft_reads w3" "fd_tab w3 = fd_tab w2" "rx_anc w3 = rx_anc w2" by metis
  have "fd_limit w3 = fd_limit (sh_w s)"
    using lim1 block_read_fields(2) [OF w2(1)] block_read_fields(2) [OF w3(1)] by simp
  then have "free_fd w3 = Some i" using assms(7) w1(5) w2(5) w3(5) by (simp add: free_fd_def)
  moreover have "rx_anc w3 = Some fi # anc" using w1(6) w2(6) w3(6) assms(6) by simp
  ultimately obtain w4 where w4: "vtest_recv_fd w3 = (int i, w4)"
    "fd_tab w4 = (fd_tab w3)(int i \<mapsto> fi)" "rx w4 = rest" "tx w4 = tx w3"
    using recv_fd_soft [OF w3(4,2)] by blast
  have "create_reply (vtest_protocol_version (sh_conn s)) h w1 = (Some res, w3)"
    using assms(3) w2(1) w3(1) by (simp add: create_reply_def)
  then show thesis using that [OF w1(1) _ w4(1)] w4 w3 w2 w1 by simp
qed

text \<open>
  C5: Creating a resource over protocol 3 sends one frame with the caller's parameters, id 0 and the
  data size raised to \<open>stride * height\<close>, takes the id and one descriptor from the server's
  answer, and records them: the fresh handle now names an object with the server's id, the
  descriptor and the geometry, marked as Android's unless its link says memfd; no other object
  changes, the caller gets both ids, and the inode cache knows the file.
\<close>

theorem resource_create_v3:
  assumes "shim_inv s" "0 \<le> vtest_sock (sh_conn s)" "3 \<le> vtest_protocol_version (sh_conn s)"
    and "soft_writes (sh_w s)" "soft_reads (sh_w s)" "alloc_sched (sh_w s) = []"
    and "h = bo_handle_next (sh_bos s)" "unat h < 2 ^ 31" "rcr_size rc > 0" "res \<noteq> 0"
    and "rx (sh_w s) = hdr @ le32 res @ b # rest" "length hdr = 8"
    and "rx_anc (sh_w s) = Some fi # anc" "free_fd (sh_w s) = Some i"
    and "sz = (if rcr_stride rc * rcr_height rc > rcr_size rc then rcr_stride rc * rcr_height rc else rcr_size rc)"
    and "ahb \<longleftrightarrow> fi_link fi \<noteq> [] \<and> \<not> strstr (take 255 (fi_link fi)) ''memfd:''"
  shows "\<exists>s'. shim_resource_create rc s = Some (RC_OK, rc\<lparr>rcr_bo_handle := h, rcr_res_handle := res\<rparr>, s')
    \<and> bo_lookup (sh_bos s') = (bo_lookup (sh_bos s))(h \<mapsto> (new_bo h)\<lparr>bo_res_handle := res, bo_shm_fd := int i,
         bo_size := sz, bo_stride := rcr_stride rc, bo_width := rcr_width rc,
         bo_height := rcr_height rc, bo_is_ahb := ahb\<rparr>)
    \<and> fd_tab (sh_w s') = (fd_tab (sh_w s))(int i \<mapsto> fi) \<and> rx (sh_w s') = rest
    \<and> tx (sh_w s') = tx (sh_w s) @ dwords [11, VCMD_RESOURCE_CREATE2, 0, rcr_target rc, rcr_format rc,
         rcr_bind rc, rcr_width rc, rcr_height rc, rcr_depth rc, rcr_array_size rc, rcr_last_level rc,
         rcr_nr_samples rc, sz]
    \<and> icache_find (sh_inodes s') (fi_dev fi, fi_ino fi)
         = Some (res, rcr_width rc, rcr_height rc, rcr_stride rc, sz, ahb)"
proof -
  note inv = shim_invD [OF assms(1)]
  note conn = sh_connect_connected [OF assms(2)]
  obtain bs where a: "sh_bo_alloc s = Some (Some h, s\<lparr>sh_bos := bs\<rparr>)" "bo_inv bs"
    "bo_lookup bs = (bo_lookup (sh_bos s))(h := Some (new_bo h))"
    by (rule sh_bo_alloc_ok [OF assms(1) assms(8)[unfolded assms(7)] assms(6)]) (simp only: assms(7))
  let ?p = "create_payload (vtest_protocol_version (sh_conn s)) h rc"
  have sz: "create_data_size rc = sz" using assms(9) by (simp add: create_data_size_def assms(15) Let_def)
  have pl: "dwords [11, VCMD_RESOURCE_CREATE2] @ dwords ?p = dwords [11, VCMD_RESOURCE_CREATE2, 0,
      rcr_target rc, rcr_format rc, rcr_bind rc, rcr_width rc, rcr_height rc, rcr_depth rc,
      rcr_array_size rc, rcr_last_level rc, rcr_nr_samples rc, sz]"
    using assms(3) by (simp add: create_payload_def sz)
  from create_exchange [OF assms(4,5,3,11-14)] obtain w1 w3 w4 where
    w: "vtest_command [11, VCMD_RESOURCE_CREATE2] (dwords ?p) (sh_w s) = (True, w1)"
      "create_reply (vtest_protocol_version (sh_conn s)) h w1 = (Some res, w3)" "vtest_recv_fd w3 = (int i, w4)"
      "fd_tab w4 = (fd_tab (sh_w s))(int i \<mapsto> fi)" "rx w4 = rest"
      "tx w4 = tx (sh_w s) @ dwords [11, VCMD_RESOURCE_CREATE2] @ dwords ?p" .
  have ahb: "fd_is_ahb (int i) w4 = ahb"
    by (simp add: fd_is_ahb_def sys_readlink_def w(4) assms(16))
  let ?bo = "(new_bo h)\<lparr>bo_res_handle := res, bo_shm_fd := int i, bo_size := sz,
    bo_stride := rcr_stride rc, bo_width := rcr_width rc, bo_height := rcr_height rc, bo_is_ahb := ahb\<rparr>"
  let ?k = "(fi_dev fi, fi_ino fi)"
  let ?c = "icache_put ?k (inode_entry ?k res (rcr_width rc) (rcr_height rc) (rcr_stride rc) sz ahb)
    (sh_inodes s)"
  have lh: "bo_lookup bs h = Some (new_bo h)" by (simp add: a(3))
  have tag: "bo_handle ?bo = h" by (simp add: new_bo_def)
  have l: "bo_lookup (bo_update h ?bo bs) = (bo_lookup bs)(h := Some ?bo)"
    by (rule bos.update_lookup [OF a(2) _ tag]) (simp add: lh)
  have store: "inode_cache_store (int i) res (rcr_width rc) (rcr_height rc) (rcr_stride rc) sz ahb w4
      (sh_inodes s) = ?c"
    using assms(10) by (simp add: inode_cache_store_def sys_fstat_def w(4))
  have find: "icache_find ?c ?k = Some (res, rcr_width rc, rcr_height rc, rcr_stride rc, sz, ahb)"
    using icache.put_same [OF inv(2), of ?k "(res, rcr_width rc, rcr_height rc, rcr_stride rc, sz, ahb)"]
    by simp
  have "shim_resource_create rc s = Some (RC_OK, rc\<lparr>rcr_bo_handle := h, rcr_res_handle := res\<rparr>,
      s\<lparr>sh_bos := bo_update h ?bo bs, sh_inodes := ?c, sh_w := w4\<rparr>)"
    using conn a(1) w(1-3) assms(9,10) lh l ahb sz store
    unfolding shim_resource_create_def Let_def by (simp del: dwords_Cons)
  with l a(3) w(4-6) pl find show ?thesis
    by (intro exI [of _ "s\<lparr>sh_bos := bo_update h ?bo bs, sh_inodes := ?c, sh_w := w4\<rparr>"])
      (simp del: dwords_Cons dwords_append)
qed

definition create1 :: virtgpu_resource_create where
  "create1 = \<lparr>rcr_target = 2, rcr_format = 1, rcr_bind = 0, rcr_width = 64, rcr_height = 64, rcr_depth = 1,
     rcr_array_size = 1, rcr_last_level = 0, rcr_nr_samples = 0, rcr_bo_handle = 0, rcr_res_handle = 0,
     rcr_size = 100, rcr_stride = 256\<rparr>"

theorem resource_create_v3_witness:
  "\<exists>s'. shim_resource_create create1 (shim1\<lparr>sh_w := world1\<lparr>rx := replicate 8 0 @ le32 9 @ [0],
        rx_anc := [Some \<lparr>fi_dev = 3, fi_ino = 4, fi_link = ''/dmabuf:x'', fi_size = 16384\<rparr>]\<rparr>\<rparr>)
      = Some (RC_OK, create1\<lparr>rcr_bo_handle := 2, rcr_res_handle := 9\<rparr>, s')
     \<and> icache_find (sh_inodes s') (3, 4) = Some (9, 64, 64, 256, 16384, True)"
proof -
  let ?fi = "\<lparr>fi_dev = 3, fi_ino = 4, fi_link = ''/dmabuf:x'', fi_size = 16384\<rparr>"
  let ?w = "world1\<lparr>rx := replicate 8 0 @ le32 9 @ [0], rx_anc := [Some ?fi]\<rparr>"
  let ?s = "shim1\<lparr>sh_w := ?w\<rparr>"
  have inv: "shim_inv ?s" by (rule shim_inv_world_eq [OF shim1_inv]) (simp add: shim1_fields)
  have a: "0 \<le> vtest_sock (sh_conn ?s)" "3 \<le> vtest_protocol_version (sh_conn ?s)"
    "soft_writes (sh_w ?s)" "soft_reads (sh_w ?s)" "alloc_sched (sh_w ?s) = []"
    by (simp_all add: shim1_fields soft_writes_def soft_reads_def)
  have h: "2 = bo_handle_next (sh_bos ?s)" "unat (2 :: u32) < 2 ^ 31" "rcr_size create1 > 0" "(9 :: u32) \<noteq> 0"
    by (simp_all add: shim1_fields create1_def)
  have r: "rx (sh_w ?s) = replicate 8 0 @ le32 9 @ 0 # []" "length (replicate 8 (0 :: u8)) = 8"
    "rx_anc (sh_w ?s) = Some ?fi # []" "free_fd (sh_w ?s) = Some 0"
    by simp_all (simp add: free_fd_def upt_rec world1_def world0_def)
  have ahb: "True \<longleftrightarrow> fi_link ?fi \<noteq> [] \<and> \<not> strstr (take 255 (fi_link ?fi)) ''memfd:''" by simp
  have sz: "16384 = (if rcr_stride create1 * rcr_height create1 > rcr_size create1
      then rcr_stride create1 * rcr_height create1 else rcr_size create1)"
    by (simp add: create1_def)
  from resource_create_v3 [OF inv a h r sz ahb] show ?thesis
    by (auto simp: create1_def)
qed

subsection \<open>The fake device\<close>

lemma and_not_mask3: "y AND NOT (7 :: u64) = push_bit 3 (drop_bit 3 y)"
proof -
  have "(7 :: u64) = mask 3" by (simp add: mask_eq_exp_minus_1)
  moreover have "y AND NOT (mask 3) = push_bit 3 (drop_bit 3 y)"
    by (rule bit_word_eqI) (auto simp: bit_simps)
  ultimately show ?thesis by simp
qed

lemma align_up_unat:
  assumes "unat x + 7 < 2 ^ 64"
  shows "unat (ALIGN_UP x 8) = (unat x + 7) div 8 * 8"
proof -
  have u: "unat (x + 7) = unat x + 7" using assms by (simp add: unat_word_ariths)
  have "ALIGN_UP x 8 = (x + 7) AND NOT 7" by (simp add: ALIGN_UP_def add.commute)
  then have "ALIGN_UP x 8 = drop_bit 3 (x + 7) * 8"
    unfolding and_not_mask3 by (simp add: push_bit_eq_mult)
  moreover have "unat (drop_bit 3 (x + 7)) = (unat x + 7) div 8"
    by (simp add: drop_bit_eq_div unat_div u)
  moreover have "(unat x + 7) div 8 * 8 < 2 ^ 64"
    using assms by (meson div_times_less_eq_dividend le_less_trans)
  ultimately show ?thesis by (simp add: unat_word_ariths)
qed

lemma align_up_1 [simp]: "ALIGN_UP x 1 = x"
  by (simp add: ALIGN_UP_def)

text \<open>
  For string lengths below 1 MiB the parts of the one block the fake device is built in follow
  one another without overlap or 64-bit wrap-around, inside the size that is allocated, and the
  structures that hold pointers start at multiples of 8.
\<close>

theorem fake_device_layout_ok:
  assumes "unat card_len < 2 ^ 20" "unat render_len < 2 ^ 20" "unat compat_len < 2 ^ 20"
    and "l = fake_device_layout card_len render_len compat_len"
  shows "unat (off_device l) + 32 = unat (off_nodes l)
    \<and> unat (off_nodes l) + 24 = unat (off_card_str l)
    \<and> unat (off_card_str l) + unat card_len = unat (off_render_str l)
    \<and> unat (off_render_str l) + unat render_len \<le> unat (off_businfo l)
    \<and> unat (off_businfo l) + 512 \<le> unat (off_devinfo l)
    \<and> unat (off_devinfo l) + 8 \<le> unat (off_compat_arr l)
    \<and> unat (off_compat_arr l) + 16 = unat (off_compat_str l)
    \<and> unat (off_compat_str l) + unat compat_len = unat (off_total l)
    \<and> 8 dvd unat (off_nodes l) \<and> 8 dvd unat (off_devinfo l) \<and> 8 dvd unat (off_compat_arr l)"
proof -
  have small: "unat card_len < 1048576" "unat render_len < 1048576" "unat compat_len < 1048576"
    using assms(1-3) by simp_all
  have t3: "unat (32 + 24 + card_len) = 56 + unat card_len"
    using small by (simp add: unat_word_ariths)
  have t4: "unat (32 + 24 + card_len + render_len) = 56 + unat card_len + unat render_len"
    using t3 small by (simp add: unat_word_ariths)
  have t6: "unat (32 + 24 + card_len + render_len + 512) = 568 + unat card_len + unat render_len"
    using t4 small by (simp add: unat_word_ariths)
  let ?d = "ALIGN_UP (32 + 24 + card_len + render_len + 512) 8"
  let ?n = "(575 + unat card_len + unat render_len) div 8 * 8"
  have t7: "unat ?d = ?n"
  proof -
    have "unat (32 + 24 + card_len + render_len + 512) + 7 < 2 ^ 64"
      unfolding t6 using small by simp
    from align_up_unat [OF this] show ?thesis unfolding t6 by (simp add: algebra_simps)
  qed
  have n: "?n \<le> 575 + unat card_len + unat render_len" "568 + unat card_len + unat render_len \<le> ?n"
    by linarith+
  have t8: "unat (?d + 8) = ?n + 8" using t7 n small by (simp add: unat_word_ariths)
  let ?a = "ALIGN_UP (?d + 8) 8"
  have t9: "unat ?a = ?n + 8"
  proof -
    have "unat (?d + 8) + 7 < 2 ^ 64" unfolding t8 using n small by simp
    from align_up_unat [OF this] show ?thesis unfolding t8 by simp
  qed
  have t10: "unat (?a + 16) = ?n + 24" using t9 n small by (simp add: unat_word_ariths)
  have t11: "unat (?a + 16 + compat_len) = ?n + 24 + unat compat_len"
    using t10 n small by (simp add: unat_word_ariths)
  have l: "l = \<lparr>off_device = 0, off_nodes = 32, off_card_str = 32 + 24, off_render_str = 32 + 24 + card_len,
      off_businfo = 32 + 24 + card_len + render_len, off_devinfo = ?d, off_compat_arr = ?a,
      off_compat_str = ?a + 16, off_total = ?a + 16 + compat_len\<rparr>"
    by (simp add: assms(4) fake_device_layout_def Let_def)
  have "8 dvd ?n" "8 dvd ?n + 8" by simp_all
  with n show ?thesis unfolding l device_layout.simps t3 t4 t7 t9 t10 t11 by simp
qed

theorem fake_device_layout_ok_witness:
  "unat (off_devinfo (fake_device_layout 15 20 11)) + 8 \<le> unat (off_compat_arr (fake_device_layout 15 20 11))"
proof -
  have "unat (15 :: u64) < 2 ^ 20" "unat (20 :: u64) < 2 ^ 20" "unat (11 :: u64) < 2 ^ 20" by simp_all
  from fake_device_layout_ok [OF this refl] show ?thesis by blast
qed

end
