(* ===== verification/DrmIntercept.thy ===== *)
theory DrmIntercept
  imports DrmShare
begin

text \<open>
  The interposed C library calls of \<^verbatim>\<open>drm_shim.c\<close>: \<open>mmap\<close>, the \<open>open\<close> and \<open>stat\<close> families, \<open>ioctl\<close>,
  \<open>fcntl\<close>, \<open>dlsym\<close> and the two Wayland entry points, with the test that leaves Electron's helper
  processes alone. The real functions are parameters.
\<close>

subsection \<open>Electron's helper processes\<close>

text \<open>The scan of \<^verbatim>\<open>/proc/self/cmdline\<close>: what is left of the buffer from index \<open>i\<close> on.\<close>

function electron_scan :: "string \<Rightarrow> bool" where
  "electron_scan [] = False"
| "electron_scan (c # cs) =
     (if c = NUL then electron_scan cs
      else if has_prefix ''--type='' (c # cs) then \<not> has_prefix ''--type=gpu-process'' (c # cs)
      else electron_scan (drop 1 (dropWhile (\<lambda>x. x \<noteq> NUL) cs)))"
  by pat_completeness auto
termination
  by (relation "measure length") (auto simp: drop_dropWhile_less)

text \<open>
  \<^verbatim>\<open>is_electron_child\<close> without its cache: the environment variable and the first 4095 bytes of the
  command line (\<open>None\<close> when it cannot be opened).
\<close>

definition is_electron_child :: "(string \<Rightarrow> string option) \<Rightarrow> string option \<Rightarrow> bool" where
  "is_electron_child environ cmdline =
    (if environ ''ELECTRON_RUN_AS_NODE'' \<noteq> None then True
     else case cmdline of None \<Rightarrow> False | Some buf \<Rightarrow> electron_scan (take 4095 buf))"

subsection \<open>mmap\<close>

text \<open>\<open>real_mmap\<close> maps from a descriptor at an offset and returns the address, or fails.\<close>

type_synonym mmap_fn = "int \<Rightarrow> int \<Rightarrow> world \<Rightarrow> nat option"

definition shim_mmap :: "mmap_fn \<Rightarrow> int \<Rightarrow> int \<Rightarrow> shim \<Rightarrow> nat option \<times> shim" where
  "shim_mmap real_mmap fd offset s =
    (if drm_fd_is_tracked fd (sh_fds s) \<and> offset \<ge> sint MMAP_OFFSET_BASE
     then (case bo_lookup_by_offset (sh_bos s) (of_int offset) of
         None \<Rightarrow> (real_mmap fd offset (sh_w s), s)
       | Some bo \<Rightarrow>
           if bo_shm_fd bo \<ge> 0
           then let (shm_fd, w1) = sys_dup (bo_shm_fd bo) (sh_w s)
             in if shm_fd < 0 then (real_mmap fd offset w1, s\<lparr>sh_w := w1\<rparr>)
                else let ptr = real_mmap shm_fd 0 w1;
                         s1 = s\<lparr>sh_w := sys_close shm_fd w1\<rparr>
                  in (ptr, case (ptr, bo_lookup_by_offset (sh_bos s1) (of_int offset)) of
                        (Some p, Some bo) \<Rightarrow>
                          s1\<lparr>sh_bos := bo_update (bo_handle bo) (bo\<lparr>bo_mmap_ptr := Some p\<rparr>) (sh_bos s1)\<rparr>
                      | _ \<Rightarrow> s1)
           else (real_mmap fd offset (sh_w s), s))
     else (real_mmap fd offset (sh_w s), s))"

subsection \<open>open, stat\<close>

definition is_drm_path :: "string option \<Rightarrow> bool" where
  "is_drm_path pathname = (case pathname of None \<Rightarrow> False
     | Some p \<Rightarrow> p = ''/dev/dri/renderD128'' \<or> p = ''/dev/dri/card0'')"

text \<open>\<^verbatim>\<open>openat\<close> after the real call returned \<open>fd\<close>.\<close>

definition shim_openat :: "int \<Rightarrow> string option \<Rightarrow> int list \<Rightarrow> int \<times> int list" where
  "shim_openat fd pathname fds = (fd, if fd \<ge> 0 \<and> is_drm_path pathname then drm_fd_add fd fds else fds)"

record stat_buf =
  st_mode :: u32
  st_rdev :: u64

definition S_IFMT :: u32 where "S_IFMT = 0xF000"
definition S_IFCHR :: u32 where "S_IFCHR = 0x2000"

text \<open>\<open>makedev\<close> is the C library's.\<close>

definition drm_fake_stat_result :: "(nat \<Rightarrow> nat \<Rightarrow> u64) \<Rightarrow> stat_buf \<Rightarrow> stat_buf" where
  "drm_fake_stat_result makedev buf =
     buf\<lparr>st_mode := st_mode buf AND NOT S_IFMT OR S_IFCHR, st_rdev := makedev 226 128\<rparr>"

text \<open>The path-based calls, the descriptor-based calls and \<open>fstatat\<close>, after the real call.\<close>

definition shim_stat :: "(nat \<Rightarrow> nat \<Rightarrow> u64) \<Rightarrow> string option \<Rightarrow> int \<times> stat_buf \<Rightarrow> int \<times> stat_buf" where
  "shim_stat makedev pathname real = (case real of (ret, buf) \<Rightarrow>
     (ret, if ret = 0 \<and> is_drm_path pathname then drm_fake_stat_result makedev buf else buf))"

definition shim_fstat :: "(nat \<Rightarrow> nat \<Rightarrow> u64) \<Rightarrow> int list \<Rightarrow> int \<Rightarrow> int \<times> stat_buf \<Rightarrow> int \<times> stat_buf" where
  "shim_fstat makedev fds fd real = (case real of (ret, buf) \<Rightarrow>
     (ret, if ret = 0 \<and> drm_fd_is_tracked fd fds then drm_fake_stat_result makedev buf else buf))"

definition shim_fstatat :: "(nat \<Rightarrow> nat \<Rightarrow> u64) \<Rightarrow> int list \<Rightarrow> int \<Rightarrow> string option \<Rightarrow> bool
    \<Rightarrow> int \<times> stat_buf \<Rightarrow> int \<times> stat_buf" where
  "shim_fstatat makedev fds dirfd pathname at_empty_path real = (case real of (ret, buf) \<Rightarrow>
     if ret \<noteq> 0 then (ret, buf)
     else if is_drm_path pathname then (0, drm_fake_stat_result makedev buf)
     else if drm_fd_is_tracked dirfd fds \<and> pathname = Some [] \<and> at_empty_path
     then (0, drm_fake_stat_result makedev buf)
     else (ret, buf))"

text \<open>The versioned entry points of older C libraries, in both widths, repeat these.\<close>

definition shim_xstat :: "(nat \<Rightarrow> nat \<Rightarrow> u64) \<Rightarrow> string option \<Rightarrow> int \<times> stat_buf \<Rightarrow> int \<times> stat_buf" where
  "shim_xstat = shim_stat"

definition shim_fxstat :: "(nat \<Rightarrow> nat \<Rightarrow> u64) \<Rightarrow> int list \<Rightarrow> int \<Rightarrow> int \<times> stat_buf \<Rightarrow> int \<times> stat_buf" where
  "shim_fxstat = shim_fstat"

definition shim_xstat64 :: "(nat \<Rightarrow> nat \<Rightarrow> u64) \<Rightarrow> string option \<Rightarrow> int \<times> stat_buf \<Rightarrow> int \<times> stat_buf" where
  "shim_xstat64 = shim_stat"

definition shim_fxstat64 :: "(nat \<Rightarrow> nat \<Rightarrow> u64) \<Rightarrow> int list \<Rightarrow> int \<Rightarrow> int \<times> stat_buf \<Rightarrow> int \<times> stat_buf" where
  "shim_fxstat64 = shim_fstat"

definition shim_fxstatat :: "(nat \<Rightarrow> nat \<Rightarrow> u64) \<Rightarrow> int list \<Rightarrow> int \<Rightarrow> string option \<Rightarrow> bool
    \<Rightarrow> int \<times> stat_buf \<Rightarrow> int \<times> stat_buf" where
  "shim_fxstatat = shim_fstatat"

subsection \<open>ioctl, fcntl\<close>

definition shim_ioctl :: "(int \<Rightarrow> drm_request \<Rightarrow> shim \<Rightarrow> (rc \<times> drm_request \<times> shim) option)
    \<Rightarrow> int \<Rightarrow> drm_request \<Rightarrow> shim \<Rightarrow> (rc \<times> drm_request \<times> shim) option" where
  "shim_ioctl real_ioctl fd req s =
    (if drm_fd_is_tracked fd (sh_fds s) then drmIoctl req s else real_ioctl fd req s)"

datatype fcntl_cmd = F_DUPFD | F_DUPFD_CLOEXEC | F_SETFD | F_OTHER int

text \<open>The real \<open>fcntl\<close> is a function on the world; \<open>fn fd cmd arg\<close> returns a descriptor or \<open>-1\<close>.\<close>

definition shim_fcntl_impl :: "(int \<Rightarrow> fcntl_cmd \<Rightarrow> int \<Rightarrow> world \<Rightarrow> int \<times> world)
    \<Rightarrow> int \<Rightarrow> fcntl_cmd \<Rightarrow> int \<Rightarrow> shim \<Rightarrow> int \<times> shim" where
  "shim_fcntl_impl fn fd cmd arg s =
    (let (ret, w1) = fn fd cmd arg (sh_w s); s1 = s\<lparr>sh_w := w1\<rparr>
     in if ret < 0 \<and> cmd = F_DUPFD_CLOEXEC \<and> drm_fd_is_tracked fd (sh_fds s1)
        then let (ret2, w2) = fn fd F_DUPFD arg w1
          in if ret2 \<ge> 0
             then let (_, w3) = fn ret2 F_SETFD 1 w2
               in (ret2, s1\<lparr>sh_w := w3, sh_fds := drm_fd_add ret2 (sh_fds s1)\<rparr>)
             else (ret2, s1\<lparr>sh_w := w2\<rparr>)
        else if ret \<ge> 0 \<and> (cmd = F_DUPFD \<or> cmd = F_DUPFD_CLOEXEC) \<and> drm_fd_is_tracked fd (sh_fds s1)
        then (ret, s1\<lparr>sh_fds := drm_fd_add ret (sh_fds s1)\<rparr>)
        else (ret, s1))"

subsection \<open>dlsym and the Wayland entry points\<close>

definition redirected_symbols :: "string list" where
  "redirected_symbols = [''wl_proxy_add_listener'', ''wl_display_connect'', ''drmGetDevices2'',
     ''drmGetDevices'', ''drmFreeDevices'', ''drmGetDevice2'', ''drmGetDevice'', ''drmFreeDevice'',
     ''drmGetVersion'', ''drmFreeVersion'', ''drmGetCap'', ''drmIoctl'', ''drmGetMagic'',
     ''drmAuthMagic'', ''drmPrimeHandleToFD'', ''drmPrimeFDToHandle'', ''drmGetBusid'',
     ''drmFreeBusid'', ''drmClose'', ''drmGetNodeTypeFromFd'', ''drmGetRenderDeviceNameFromFd'',
     ''drmGetDeviceNameFromFd2'']"

datatype symbol = Shim string | Real nat

definition shim_dlsym :: "(string option \<Rightarrow> nat option) \<Rightarrow> bool \<Rightarrow> bool \<Rightarrow> string option \<Rightarrow> symbol option" where
  "shim_dlsym real_dlsym bootstrapped electron_child symbol =
    (if \<not> bootstrapped then None
     else if electron_child then map_option Real (real_dlsym symbol)
     else case symbol of
         Some name \<Rightarrow> if name \<in> set redirected_symbols then Some (Shim name)
                      else map_option Real (real_dlsym symbol)
       | None \<Rightarrow> map_option Real (real_dlsym symbol))"

definition MAX_TRACKED_SURFACES :: nat where "MAX_TRACKED_SURFACES = 16"

record wl_saved =
  saved_display :: "nat option"
  saved_surface :: "nat option"
  tracked_surfaces :: "nat list"

text \<open>\<^verbatim>\<open>wl_display_connect\<close> with the display the real function returned.\<close>

definition wl_display_connect :: "bool \<Rightarrow> nat option \<Rightarrow> wl_saved \<Rightarrow> nat option \<times> wl_saved" where
  "wl_display_connect electron_child display s =
    (if electron_child then (display, s)
     else (display, if display \<noteq> None \<and> saved_display s = None then s\<lparr>saved_display := display\<rparr> else s))"

text \<open>\<^verbatim>\<open>wl_proxy_add_listener\<close>: the class is known when \<open>wl_proxy_get_class\<close> could be resolved.\<close>

definition wl_proxy_add_listener :: "bool \<Rightarrow> nat option \<Rightarrow> string option \<Rightarrow> wl_saved \<Rightarrow> wl_saved" where
  "wl_proxy_add_listener electron_child proxy cls s =
    (if electron_child then s
     else case (proxy, cls) of
       (Some p, Some c) \<Rightarrow>
         if c = ''wl_surface''
         then let s1 = (if length (tracked_surfaces s) < MAX_TRACKED_SURFACES
                then s\<lparr>tracked_surfaces := tracked_surfaces s @ [p]\<rparr> else s)
           in if saved_surface s1 = None then s1\<lparr>saved_surface := Some p\<rparr> else s1
         else s
     | _ \<Rightarrow> s)"

subsection \<open>Properties\<close>

lemma has_prefix_append: "has_prefix p xs \<Longrightarrow> has_prefix p (xs @ ys)"
  by (induction p xs rule: has_prefix.induct) auto

lemma has_prefix_arg:
  "NUL \<notin> set p \<Longrightarrow> has_prefix p (xs @ NUL # ys) \<longleftrightarrow> has_prefix p xs"
  by (induction p xs rule: has_prefix.induct) (auto split: list.splits)

lemma electron_scan_args:
  "\<forall>a \<in> set args. NUL \<notin> set a \<Longrightarrow>
     electron_scan (concat (map (\<lambda>a. a @ [NUL]) args))
       = (case find (has_prefix ''--type='') args of None \<Rightarrow> False
          | Some a \<Rightarrow> \<not> has_prefix ''--type=gpu-process'' a)"
proof (induction args)
  case (Cons a args)
  let ?rest = "concat (map (\<lambda>a. a @ [NUL]) args)"
  show ?case
  proof (cases a)
    case Nil
    with Cons show ?thesis by simp
  next
    case (Cons c cs)
    have nul: "NUL \<notin> set ''--type=''" "NUL \<notin> set ''--type=gpu-process''" by (simp_all add: NUL_def)
    have a: "c \<noteq> NUL" "NUL \<notin> set cs" using Cons.prems Cons by auto
    have p: "has_prefix q (c # cs @ NUL # ?rest) = has_prefix q a" if "NUL \<notin> set q" for q
      using has_prefix_arg [OF that, of "c # cs" ?rest] Cons by simp
    have "dropWhile (\<lambda>x. x \<noteq> NUL) (cs @ NUL # ?rest) = NUL # ?rest"
      using a(2) by (subst dropWhile_append2) auto
    with Cons.IH Cons.prems a p [OF nul(1)] p [OF nul(2)] show ?thesis
      by (simp add: Cons del: has_prefix.simps)
  qed
qed simp

text \<open>
  On a command line of NUL-terminated arguments that fits the buffer, and without
  \<^verbatim>\<open>ELECTRON_RUN_AS_NODE\<close>, a process is taken for a helper exactly when its first argument
  that begins with \<^verbatim>\<open>--type=\<close> does not begin with \<^verbatim>\<open>--type=gpu-process\<close>.
\<close>

theorem electron_child_spec:
  assumes "\<forall>a \<in> set args. NUL \<notin> set a" and "cmdline = concat (map (\<lambda>a. a @ [NUL]) args)"
    and "length cmdline \<le> 4095" "environ ''ELECTRON_RUN_AS_NODE'' = None"
  shows "is_electron_child environ (Some cmdline) \<longleftrightarrow>
    (case find (has_prefix ''--type='') args of None \<Rightarrow> False
     | Some a \<Rightarrow> \<not> has_prefix ''--type=gpu-process'' a)"
  using electron_scan_args [OF assms(1)] assms(2-4) by (simp add: is_electron_child_def)

theorem electron_child_spec_witness:
  "is_electron_child Map.empty (Some (''code'' @ [NUL] @ ''--type=zygote'' @ [NUL]))
   \<and> \<not> is_electron_child Map.empty (Some (''code'' @ [NUL] @ ''--type=gpu-process'' @ [NUL]))"
proof -
  have n: "\<forall>a \<in> set [''code'', ''--type=zygote'']. NUL \<notin> set a"
    "\<forall>a \<in> set [''code'', ''--type=gpu-process'']. NUL \<notin> set a" by (simp_all add: NUL_def)
  show ?thesis
    using electron_child_spec [OF n(1) refl, of Map.empty] electron_child_spec [OF n(2) refl, of Map.empty]
    by simp
qed

lemma mmap_at:
  assumes tr: "drm_fd_is_tracked fd (sh_fds s)" and off: "sint MMAP_OFFSET_BASE \<le> offset"
    and at: "bo_lookup_by_offset (sh_bos s) (of_int offset) = Some bo" and fd: "0 \<le> bo_shm_fd bo"
    and open5: "fd_tab (sh_w s) (bo_shm_fd bo) = Some fi" and free: "free_fd (sh_w s) = Some d"
  shows "shim_mmap real_mmap fd offset s =
    (let ptr = real_mmap (int d) 0 ((sh_w s)\<lparr>fd_tab := (fd_tab (sh_w s))(int d \<mapsto> fi)\<rparr>)
     in (ptr, case ptr of None \<Rightarrow> s
        | Some p \<Rightarrow> s\<lparr>sh_bos := bo_update (bo_handle bo) (bo\<lparr>bo_mmap_ptr := Some p\<rparr>) (sh_bos s)\<rparr>))"
proof -
  let ?w1 = "(sh_w s)\<lparr>fd_tab := (fd_tab (sh_w s))(int d \<mapsto> fi)\<rparr>"
  have d: "sys_dup (bo_shm_fd bo) (sh_w s) = (int d, ?w1)"
    by (simp add: sys_dup_def open5 install_fd_def free)
  have "(fd_tab (sh_w s))(int d := None) = fd_tab (sh_w s)"
    using free_fd_SomeD [OF free] by auto
  then have c: "sys_close (int d) ?w1 = sh_w s" by (simp add: sys_close_def)
  show ?thesis
    using tr off at fd by (cases "real_mmap (int d) 0 ?w1") (simp_all add: shim_mmap_def d c Let_def)
qed

text \<open>
  Mapping an object through its fake offset reaches its buffer. After \<^verbatim>\<open>shim_map\<close>, \<open>mmap\<close> on
  a tracked descriptor at the offset it returned calls the real \<open>mmap\<close> at offset 0 on a duplicate of
  the object's own descriptor, closes the duplicate again, and records the address in that object,
  the one \<^verbatim>\<open>gem_close\<close> unmaps; any other call goes to the real function unchanged.
\<close>

theorem mmap_redirected:
  assumes "shim_inv s" "offsets_ok (sh_bos s)" "bo_lookup (sh_bos s) h = Some bo" "0 \<le> bo_shm_fd bo"
    and "shim_map h s = (r, Some off, s1)" "drm_fd_is_tracked fd (sh_fds s)" "free_fd (sh_w s) = Some d"
    and "shim_mmap real_mmap fd (uint off) s1 = (ptr, s2)" "\<not> drm_fd_is_tracked fd' (sh_fds s)"
  shows "ptr = real_mmap (int d) 0 ((sh_w s)\<lparr>fd_tab := (fd_tab (sh_w s))(int d := fd_tab (sh_w s) (bo_shm_fd bo))\<rparr>)
    \<and> sh_w s2 = sh_w s
    \<and> (ptr \<noteq> None \<longrightarrow> map_option bo_mmap_ptr (bo_lookup (sh_bos s2) h) = Some ptr)
    \<and> (\<forall>g. g \<noteq> h \<longrightarrow> bo_lookup (sh_bos s2) g = bo_lookup (sh_bos s) g)
    \<and> shim_mmap real_mmap fd' offset s = (real_mmap fd' offset (sh_w s), s)"
proof -
  note i = shim_invD [OF assms(1)]
  from shim_map_some [OF i(1) assms(2,3)] obtain b v where
    m: "shim_map h s = (RC_OK, Some (MMAP_OFFSET_BASE + ucast h * MMAP_OFFSET_STRIDE), s\<lparr>sh_bos := b\<rparr>)"
      "bo_inv b" "offsets_ok b" "bo_lookup b = (bo_lookup (sh_bos s))(h := Some v)" "bo_mapped v"
      "bo_shm_fd v = bo_shm_fd bo" "bo_handle v = h" by blast
  let ?o = "MMAP_OFFSET_BASE + ucast h * MMAP_OFFSET_STRIDE"
  have off: "off = ?o" "s1 = s\<lparr>sh_bos := b\<rparr>" using m(1) assms(5) by simp_all
  have lv: "bo_lookup b h = Some v" by (simp add: m(4))
  have at: "bo_lookup_by_offset (sh_bos s1) (of_int (uint off)) = Some v"
    using lookup_by_offset [OF m(2,3) lv m(5)] by (simp add: off)
  have "int (unat off) = 0x10000000 + int (unat h) * 0x100000"
    unfolding off(1) mmap_offset_unat by simp
  then have "uint off = 0x10000000 + int (unat h) * 0x100000" unfolding of_nat_unat .
  then have ge: "sint MMAP_OFFSET_BASE \<le> uint off"
    by (simp add: MMAP_OFFSET_BASE_def del: of_nat_unat)
  from assms(3,4) have "fd_owner (sh_bos s) h = Some (bo_shm_fd bo)" by (simp add: fd_owner_def)
  from ownsD(1) [OF i(4) this] obtain fi where fi: "fd_tab (sh_w s) (bo_shm_fd bo) = Some fi" by blast
  have mm: "shim_mmap real_mmap fd (uint off) s1 =
    (let ptr = real_mmap (int d) 0 ((sh_w s1)\<lparr>fd_tab := (fd_tab (sh_w s1))(int d \<mapsto> fi)\<rparr>)
     in (ptr, case ptr of None \<Rightarrow> s1
        | Some p \<Rightarrow> s1\<lparr>sh_bos := bo_update (bo_handle v) (v\<lparr>bo_mmap_ptr := Some p\<rparr>) (sh_bos s1)\<rparr>))"
    by (rule mmap_at [OF _ ge at]) (use assms(4,6,7) fi m(6) in \<open>simp_all add: off\<close>)
  have l: "bo_lookup (bo_update h (v\<lparr>bo_mmap_ptr := q\<rparr>) b) = (bo_lookup b)(h := Some (v\<lparr>bo_mmap_ptr := q\<rparr>))" for q
    by (rule bos.update_lookup [OF m(2)]) (simp_all add: lv m(7))
  show ?thesis
    using mm assms(8,9) fi by (cases ptr) (auto simp: Let_def off m(4,7) l shim_mmap_def)
qed

theorem mmap_redirected_witness:
  "\<exists>s1 s2. shim_map 1 (shim1\<lparr>sh_fds := [9]\<rparr>) = (RC_OK, Some 0x10100000, s1)
     \<and> shim_mmap (\<lambda>fd off w. if off = 0 \<and> fd_tab w fd = Some memfd5 then Some 77 else None) 9 0x10100000 s1
         = (Some 77, s2) \<and> fd_tab (sh_w s2) = fd_tab world1"
proof -
  let ?real = "\<lambda>fd off w. if off = 0 \<and> fd_tab w fd = Some memfd5 then Some 77 else None"
  let ?s = "shim1\<lparr>sh_fds := [9]\<rparr>"
  have inv: "shim_inv ?s" using shim1_inv by (simp add: shim_inv_def fds_inv_def MAX_DRM_FDS_def)
  have l: "bo_lookup (sh_bos ?s) 1 = Some bo_one" by (simp add: shim1_fields bo_state1_lookup)
  have off: "offsets_ok (sh_bos ?s)" by (simp add: offsets_ok_def shim1_fields bo_state1_lookup)
  from shim_map_some [OF shim_invD(1) [OF inv] off l] obtain s1 where
    m: "shim_map 1 ?s = (RC_OK, Some 0x10100000, s1)"
    by (auto simp: MMAP_OFFSET_BASE_def MMAP_OFFSET_STRIDE_def)
  obtain ptr s2 where mm: "shim_mmap ?real 9 (uint (0x10100000 :: u64)) s1 = (ptr, s2)"
    by (cases "shim_mmap ?real 9 (uint (0x10100000 :: u64)) s1")
  have t: "drm_fd_is_tracked 9 (sh_fds ?s)" "\<not> drm_fd_is_tracked 5 (sh_fds ?s)" "0 \<le> bo_shm_fd bo_one"
    by (simp_all add: drm_fd_is_tracked_def)
  have f: "free_fd (sh_w ?s) = Some 0" by (simp add: free_fd_def upt_rec shim1_fields world1_def world0_def)
  have "ptr = Some 77 \<and> sh_w s2 = world1"
    using mmap_redirected [OF inv off l t(3) m t(1) f mm t(2)] by (simp add: shim1_fields)
  with m mm show ?thesis by auto
qed

text \<open>
  A descriptor the application closes with plain \<open>close\<close> stays tracked: when its number is given
  to another file, \<open>ioctl\<close> on that file is answered by the shim, and the real \<open>ioctl\<close> is not called.
  Closing with \<^verbatim>\<open>drmClose\<close> does stop the tracking.
\<close>

theorem closed_fd_stays_tracked:
  assumes "fds_inv (sh_fds s)" and "length (sh_fds s) < 32" "0 \<le> fd"
    and "shim_openat fd (Some ''/dev/dri/renderD128'') (sh_fds s) = (fd, fds)"
    and "s1 = s\<lparr>sh_fds := fds, sh_w := sys_close fd w\<rparr>"
  shows "shim_ioctl real_ioctl fd req (s1\<lparr>sh_w := (sh_w s1)\<lparr>fd_tab := (fd_tab (sh_w s1))(fd \<mapsto> other)\<rparr>\<rparr>)
      = drmIoctl req (s1\<lparr>sh_w := (sh_w s1)\<lparr>fd_tab := (fd_tab (sh_w s1))(fd \<mapsto> other)\<rparr>\<rparr>)
    \<and> shim_ioctl real_ioctl fd req (snd (drmClose fd s1)) = real_ioctl fd req (snd (drmClose fd s1))"
proof -
  have fds: "fds = drm_fd_add fd (sh_fds s)"
    using assms(3,4) by (simp add: shim_openat_def is_drm_path_def)
  have "fd \<in> set fds" using assms(2) by (simp add: fds set_drm_fd_add MAX_DRM_FDS_def)
  moreover have "fd \<notin> set (drm_fd_remove fd fds)"
    using fds_remove [OF fds_inv_add [OF assms(1)], of fd fd] by (simp add: fds)
  ultimately show ?thesis
    using assms(3) by (simp add: shim_ioctl_def drm_fd_is_tracked_def assms(5) drmClose_def Let_def)
qed

theorem closed_fd_stays_tracked_witness:
  "\<exists>s. drm_fd_is_tracked 4 (sh_fds s) \<and> fd_tab (sh_w s) 4 = Some memfd5
    \<and> shim_ioctl (\<lambda>fd req s. None) 4 REQ_GEM_FLINK s = Some (RC_ERR ENOSYS, REQ_GEM_FLINK, s)"
proof -
  let ?s1 = "shim1\<lparr>sh_fds := [4], sh_w := sys_close 4 world1\<rparr>"
  have "shim_openat 4 (Some ''/dev/dri/renderD128'') (sh_fds shim1) = (4, [4])"
    by (simp add: shim_openat_def is_drm_path_def drm_fd_add_def shim1_def MAX_DRM_FDS_def)
  moreover have "fds_inv (sh_fds shim1)" "length (sh_fds shim1) < 32" by (simp_all add: shim1_def fds_inv_Nil)
  ultimately show ?thesis
    using closed_fd_stays_tracked [of shim1 4 "[4]" ?s1 world1 "\<lambda>fd req s. None" REQ_GEM_FLINK memfd5]
    by (intro exI [of _ "?s1\<lparr>sh_w := (sh_w ?s1)\<lparr>fd_tab := (fd_tab (sh_w ?s1))(4 \<mapsto> memfd5)\<rparr>\<rparr>"])
      (simp add: drm_fd_is_tracked_def)
qed

end
