(* ===== verification/KeycodeMap.thy ===== *)
theory KeycodeMap
  imports Prelude
begin

text \<open>
  The table of \<^verbatim>\<open>compositor/native/src/keycode_map.h\<close> from Android key codes to Linux key codes.
  The numeric \<^verbatim>\<open>KEY_*\<close> constants come from the kernel's \<^verbatim>\<open>input-event-codes.h\<close>, which is not part of
  the repository: a table entry is the constant's name, and its value is a parameter.
\<close>

definition ANDROID_KEYCODE_MAX :: nat where
  "ANDROID_KEYCODE_MAX = 304"

definition android_to_linux_keycode :: "(nat \<times> string) list" where
  "android_to_linux_keycode =
     [(7, ''KEY_0''), (8, ''KEY_1''), (9, ''KEY_2''), (10, ''KEY_3''), (11, ''KEY_4''),
      (12, ''KEY_5''), (13, ''KEY_6''), (14, ''KEY_7''), (15, ''KEY_8''), (16, ''KEY_9''),
      (17, ''KEY_NUMERIC_STAR''), (18, ''KEY_NUMERIC_POUND''), (19, ''KEY_UP''),
      (20, ''KEY_DOWN''), (21, ''KEY_LEFT''), (22, ''KEY_RIGHT''), (23, ''KEY_SELECT''),
      (24, ''KEY_VOLUMEUP''), (25, ''KEY_VOLUMEDOWN''), (26, ''KEY_POWER''), (29, ''KEY_A''),
      (30, ''KEY_B''), (31, ''KEY_C''), (32, ''KEY_D''), (33, ''KEY_E''), (34, ''KEY_F''),
      (35, ''KEY_G''), (36, ''KEY_H''), (37, ''KEY_I''), (38, ''KEY_J''), (39, ''KEY_K''),
      (40, ''KEY_L''), (41, ''KEY_M''), (42, ''KEY_N''), (43, ''KEY_O''), (44, ''KEY_P''),
      (45, ''KEY_Q''), (46, ''KEY_R''), (47, ''KEY_S''), (48, ''KEY_T''), (49, ''KEY_U''),
      (50, ''KEY_V''), (51, ''KEY_W''), (52, ''KEY_X''), (53, ''KEY_Y''), (54, ''KEY_Z''),
      (55, ''KEY_COMMA''), (56, ''KEY_DOT''), (57, ''KEY_LEFTALT''), (58, ''KEY_RIGHTALT''),
      (59, ''KEY_LEFTSHIFT''), (60, ''KEY_RIGHTSHIFT''), (61, ''KEY_TAB''), (62, ''KEY_SPACE''),
      (66, ''KEY_ENTER''), (67, ''KEY_BACKSPACE''), (68, ''KEY_GRAVE''), (69, ''KEY_MINUS''),
      (70, ''KEY_EQUAL''), (71, ''KEY_LEFTBRACE''), (72, ''KEY_RIGHTBRACE''),
      (73, ''KEY_BACKSLASH''), (74, ''KEY_SEMICOLON''), (75, ''KEY_APOSTROPHE''),
      (76, ''KEY_SLASH''), (92, ''KEY_PAGEUP''), (93, ''KEY_PAGEDOWN''), (111, ''KEY_ESC''),
      (112, ''KEY_DELETE''), (113, ''KEY_LEFTCTRL''), (114, ''KEY_RIGHTCTRL''),
      (115, ''KEY_CAPSLOCK''), (116, ''KEY_SCROLLLOCK''), (117, ''KEY_LEFTMETA''),
      (118, ''KEY_RIGHTMETA''), (120, ''KEY_SYSRQ''), (121, ''KEY_PAUSE''), (122, ''KEY_HOME''),
      (123, ''KEY_END''), (124, ''KEY_INSERT''), (131, ''KEY_F1''), (132, ''KEY_F2''),
      (133, ''KEY_F3''), (134, ''KEY_F4''), (135, ''KEY_F5''), (136, ''KEY_F6''),
      (137, ''KEY_F7''), (138, ''KEY_F8''), (139, ''KEY_F9''), (140, ''KEY_F10''),
      (141, ''KEY_F11''), (142, ''KEY_F12''), (143, ''KEY_NUMLOCK''), (144, ''KEY_KP0''),
      (145, ''KEY_KP1''), (146, ''KEY_KP2''), (147, ''KEY_KP3''), (148, ''KEY_KP4''),
      (149, ''KEY_KP5''), (150, ''KEY_KP6''), (151, ''KEY_KP7''), (152, ''KEY_KP8''),
      (153, ''KEY_KP9''), (154, ''KEY_KPSLASH''), (155, ''KEY_KPASTERISK''),
      (156, ''KEY_KPMINUS''), (157, ''KEY_KPPLUS''), (158, ''KEY_KPDOT''),
      (160, ''KEY_KPENTER'')]"

text \<open>An index without an initialiser is 0.\<close>

definition android_keycode_to_linux :: "(string \<Rightarrow> u16) \<Rightarrow> int \<Rightarrow> u16" where
  "android_keycode_to_linux key android_keycode =
     (if android_keycode < 0 \<or> android_keycode \<ge> int ANDROID_KEYCODE_MAX then 0
      else case map_of android_to_linux_keycode (nat android_keycode) of
             None \<Rightarrow> 0 | Some name \<Rightarrow> key name)"

lemma keycode_indices_distinct: "distinct (map fst android_to_linux_keycode)"
  by code_simp

lemma keycode_names_distinct: "distinct (map snd android_to_linux_keycode)"
  by (simp add: android_to_linux_keycode_def)

lemma keycode_indices_bounded: "\<forall>k \<in> set (map fst android_to_linux_keycode). k < ANDROID_KEYCODE_MAX"
  by code_simp

text \<open>
  The table has no duplicate and no out-of-range index, and no two Android keys share a Linux
  key: for key constants that are non-zero and pairwise different, as the kernel's are, a key code
  is mapped to a non-zero code exactly when the table lists it, and mapped codes determine the
  Android key.
\<close>

theorem keycode_map_injective:
  assumes "\<forall>n \<in> set (map snd android_to_linux_keycode). key n \<noteq> 0"
    and "inj_on key (set (map snd android_to_linux_keycode))"
  shows "(android_keycode_to_linux key a \<noteq> 0 \<longleftrightarrow>
       0 \<le> a \<and> nat a \<in> set (map fst android_to_linux_keycode)) \<and>
    (android_keycode_to_linux key a = android_keycode_to_linux key b \<and>
       android_keycode_to_linux key a \<noteq> 0 \<longrightarrow> a = b)"
proof -
  let ?T = android_to_linux_keycode
  have entry: "\<exists>n. (nat c, n) \<in> set ?T \<and> android_keycode_to_linux key c = key n \<and> 0 \<le> c"
    if "android_keycode_to_linux key c \<noteq> 0" for c
    using that by (auto simp: android_keycode_to_linux_def dest: map_of_SomeD split: if_splits option.splits)
  have listed: "android_keycode_to_linux key c \<noteq> 0"
    if c: "0 \<le> c" "nat c \<in> set (map fst ?T)" for c
  proof -
    obtain n where n: "(nat c, n) \<in> set ?T" using c(2) by auto
    then have "map_of ?T (nat c) = Some n" using keycode_indices_distinct by (simp add: map_of_is_SomeI)
    moreover have "key n \<noteq> 0" using assms(1) n by force
    moreover have "nat c < ANDROID_KEYCODE_MAX" using keycode_indices_bounded c(2) by blast
    ultimately show ?thesis using c(1) by (simp add: android_keycode_to_linux_def nat_less_iff)
  qed
  have same: "a = b" if e: "android_keycode_to_linux key a = android_keycode_to_linux key b"
    "android_keycode_to_linux key a \<noteq> 0"
  proof -
    obtain m where m: "(nat a, m) \<in> set ?T" "android_keycode_to_linux key a = key m" "0 \<le> a"
      using entry [OF e(2)] by blast
    have "android_keycode_to_linux key b \<noteq> 0" using e by simp
    from entry [OF this] obtain n where n: "(nat b, n) \<in> set ?T" "android_keycode_to_linux key b = key n" "0 \<le> b"
      by blast
    have "m = n" using inj_onD [OF assms(2), of m n] m n e(1) by force
    then have "(nat a, n) = (nat b, n)"
      using keycode_names_distinct m(1) n(1) inj_onD [of snd "set ?T" "(nat a, n)" "(nat b, n)"]
      by (simp add: distinct_map)
    then show ?thesis using m(3) n(3) by (simp add: nat_eq_iff)
  qed
  show ?thesis using entry listed same by force
qed

text \<open>Names numbered by their place in the table, as a stand-in for the constants.\<close>

definition key_demo :: "string \<Rightarrow> u16" where
  "key_demo name = (case first_index (\<lambda>e. snd e = name) android_to_linux_keycode of
     None \<Rightarrow> 0 | Some i \<Rightarrow> of_nat (i + 1))"

lemma keycode_table_length: "length android_to_linux_keycode = 109"
  by code_simp

lemma key_demo_index:
  assumes "n \<in> set (map snd android_to_linux_keycode)"
  shows "\<exists>i < 109. key_demo n = of_nat (i + 1) \<and> snd (android_to_linux_keycode ! i) = n"
proof -
  obtain i where i: "first_index (\<lambda>e. snd e = n) android_to_linux_keycode = Some i"
    using assms first_index_None [of "\<lambda>e. snd e = n" android_to_linux_keycode] by fastforce
  from first_index_SomeD [OF i] i show ?thesis
    unfolding key_demo_def keycode_table_length by auto
qed

lemma key_demo_ok:
  "\<forall>n \<in> set (map snd android_to_linux_keycode). key_demo n \<noteq> 0"
  "inj_on key_demo (set (map snd android_to_linux_keycode))"
proof -
  have u: "unat (of_nat (i + 1) :: u16) = i + 1" if "i < 109" for i
    using that by (simp add: unat_of_nat del: of_nat_add of_nat_Suc)
  show "\<forall>n \<in> set (map snd android_to_linux_keycode). key_demo n \<noteq> 0"
  proof
    fix n assume "n \<in> set (map snd android_to_linux_keycode)"
    from key_demo_index [OF this] obtain i where "i < 109" "key_demo n = of_nat (i + 1)" by blast
    with u show "key_demo n \<noteq> 0" by (metis add_is_0 unat_0 zero_neq_one)
  qed
  show "inj_on key_demo (set (map snd android_to_linux_keycode))"
  proof (rule inj_onI)
    fix m n assume mn: "m \<in> set (map snd android_to_linux_keycode)"
      "n \<in> set (map snd android_to_linux_keycode)" "key_demo m = key_demo n"
    from key_demo_index [OF mn(1)] key_demo_index [OF mn(2)] obtain i j where
      "i < 109" "key_demo m = of_nat (i + 1)" "snd (android_to_linux_keycode ! i) = m"
      "j < 109" "key_demo n = of_nat (j + 1)" "snd (android_to_linux_keycode ! j) = n" by blast
    with u mn(3) show "m = n" by (metis add_right_cancel)
  qed
qed

theorem keycode_map_injective_witness:
  "android_keycode_to_linux key_demo 29 \<noteq> 0 \<and> android_keycode_to_linux key_demo 28 = 0"
proof -
  have "(29::nat) \<in> set (map fst android_to_linux_keycode)" "(28::nat) \<notin> set (map fst android_to_linux_keycode)"
    by code_simp+
  with keycode_map_injective [OF key_demo_ok, of 29 29] keycode_map_injective [OF key_demo_ok, of 28 28]
  show ?thesis by simp
qed

end
