(* ===== verification/BoundedQueue.thy ===== *)
theory BoundedQueue
  imports Prelude
begin

text \<open>
  The contract of the two queues that carry Android events from the JNI thread to the compositor
  thread: the input ring (\<^verbatim>\<open>input_handler.c\<close>) and the pending IME operations
  (\<^verbatim>\<open>text_input_handler.c\<close>). Both are bounded, both drop the new element when full, both are
  drained from the front. The locale states the contract over an abstract content (a list) and
  derives, once, that no history of enqueues and dequeues reorders, duplicates, invents or loses an
  accepted element. It is interpreted on the ring in theory \<open>InputRing\<close> and on the
  linked list in theory \<open>TextQueue\<close>.
\<close>

datatype 'a qop = Enq 'a | Deq

text \<open>
  Running a history: the elements accepted, the elements delivered, and the final queue.
\<close>

fun qrun :: "('a \<Rightarrow> 'q \<Rightarrow> bool \<times> 'q) \<Rightarrow> ('q \<Rightarrow> 'a option \<times> 'q) \<Rightarrow> 'a qop list \<Rightarrow> 'q
    \<Rightarrow> 'a list \<times> 'a list \<times> 'q" where
  "qrun enq deq [] q = ([], [], q)"
| "qrun enq deq (Enq x # ops) q =
     (let (ok, q1) = enq x q; (acc, del, q2) = qrun enq deq ops q1
      in (if ok then x # acc else acc, del, q2))"
| "qrun enq deq (Deq # ops) q =
     (let (r, q1) = deq q; (acc, del, q2) = qrun enq deq ops q1
      in (acc, (case r of None \<Rightarrow> del | Some x \<Rightarrow> x # del), q2))"

text \<open>The consumer's loop: dequeue until the queue reports empty; the fuel bounds the rounds.\<close>

fun qdrain :: "nat \<Rightarrow> ('q \<Rightarrow> 'a option \<times> 'q) \<Rightarrow> 'q \<Rightarrow> ('a list \<times> 'q) option" where
  "qdrain 0 deq q = None"
| "qdrain (Suc n) deq q =
     (case deq q of
        (None, q1) \<Rightarrow> Some ([], q1)
      | (Some x, q1) \<Rightarrow> map_option (\<lambda>(xs, q2). (x # xs, q2)) (qdrain n deq q1))"

locale bounded_queue =
  fixes inv :: "'q \<Rightarrow> bool"
    and contents :: "'q \<Rightarrow> 'a list"
    and room :: "'a \<Rightarrow> 'a list \<Rightarrow> bool"
    and enq :: "'a \<Rightarrow> 'q \<Rightarrow> bool \<times> 'q"
    and deq :: "'q \<Rightarrow> 'a option \<times> 'q"
  assumes enq_room: "\<lbrakk>inv q; room x (contents q)\<rbrakk> \<Longrightarrow>
      \<exists>q'. enq x q = (True, q') \<and> inv q' \<and> contents q' = contents q @ [x]"
    and enq_full: "\<lbrakk>inv q; \<not> room x (contents q)\<rbrakk> \<Longrightarrow> enq x q = (False, q)"
    and deq_empty: "\<lbrakk>inv q; contents q = []\<rbrakk> \<Longrightarrow> deq q = (None, q)"
    and deq_front: "\<lbrakk>inv q; contents q = x # xs\<rbrakk> \<Longrightarrow>
      \<exists>q'. deq q = (Some x, q') \<and> inv q' \<and> contents q' = xs"
begin

lemma enq_cases:
  assumes "inv q"
  shows "\<exists>ok q'. enq x q = (ok, q') \<and> ok = room x (contents q) \<and> inv q' \<and>
    contents q' = (if ok then contents q @ [x] else contents q)"
  using enq_room [OF assms] enq_full [OF assms] assms by (cases "room x (contents q)") auto

lemma deq_cases:
  assumes "inv q"
  shows "\<exists>r q'. deq q = (r, q') \<and> inv q' \<and>
    (case r of None \<Rightarrow> contents q = [] \<and> q' = q | Some x \<Rightarrow> contents q = x # contents q')"
proof (cases "contents q")
  case Nil
  then show ?thesis using deq_empty [OF assms] assms by auto
next
  case (Cons x xs)
  then show ?thesis using deq_front [OF assms Cons] by auto
qed

text \<open>First in, first out, over any history.\<close>

lemma fifo:
  assumes "inv q" "qrun enq deq ops q = (acc, del, q')"
  shows "inv q' \<and> contents q @ acc = del @ contents q'"
  using assms
proof (induction ops arbitrary: q acc del q')
  case (Cons op ops)
  show ?case
  proof (cases op)
    case (Enq x)
    from enq_cases [OF Cons.prems(1), of x] obtain ok q1 where e: "enq x q = (ok, q1)" "inv q1"
      "contents q1 = (if ok then contents q @ [x] else contents q)" by blast
    obtain a d q2 where r: "qrun enq deq ops q1 = (a, d, q2)" by (metis prod_cases3)
    from Cons.IH [OF e(2) r] e r Cons.prems(2) Enq show ?thesis by (auto split: if_splits)
  next
    case Deq
    from deq_cases [OF Cons.prems(1)] obtain r q1 where d: "deq q = (r, q1)" "inv q1"
      "case r of None \<Rightarrow> contents q = [] \<and> q1 = q | Some x \<Rightarrow> contents q = x # contents q1" by blast
    obtain a dl q2 where r: "qrun enq deq ops q1 = (a, dl, q2)" by (metis prod_cases3)
    from Cons.IH [OF d(2) r] d r Cons.prems(2) Deq show ?thesis by (auto split: option.splits)
  qed
qed simp

text \<open>Draining delivers the whole content in order and leaves the queue empty.\<close>

lemma drain:
  assumes "inv q" "length (contents q) < n"
  shows "\<exists>q'. qdrain n deq q = Some (contents q, q') \<and> inv q' \<and> contents q' = []"
  using assms
proof (induction n arbitrary: q)
  case (Suc n)
  show ?case
  proof (cases "contents q")
    case Nil
    with deq_empty [OF Suc.prems(1)] Suc.prems show ?thesis by simp
  next
    case (Cons x xs)
    from deq_front [OF Suc.prems(1) Cons] obtain q1 where
      q1: "deq q = (Some x, q1)" "inv q1" "contents q1 = xs" by blast
    with Suc.IH [OF q1(2)] Suc.prems(2) Cons show ?thesis by auto
  qed
qed simp

end

end
