(* ===== verification/WlSeat.thy ===== *)
theory WlSeat
  imports Prelude
begin

text \<open>
  What the compositor's C code sees of wlroots and libwayland: surfaces, tracked toplevels, and the
  trace of the calls it makes into those libraries. The libraries themselves are not modelled: an
  operation appends the call it makes to \<open>cs_calls\<close>, and whatever the code reads back (the
  seat's keyboard focus, the surface under a point, a touch point) is a function of that trace
  passed to the operation that reads it.
\<close>

type_synonym s32 = "32 word"

text \<open>
  A \<^verbatim>\<open>double\<close> is its IEEE-754 bit pattern: coordinates are only carried.
\<close>

type_synonym double = u64

text \<open>
  A \<^verbatim>\<open>struct wlr_surface *\<close>: its identity and the client of its \<^verbatim>\<open>resource\<close> (\<^const>\<open>None\<close> for a
  \<^verbatim>\<open>NULL\<close> resource).
\<close>

record surface =
  su_id :: nat
  su_resource :: "nat option"

text \<open>
  The calls into the libraries, in the order made. \<open>ImeCmd\<close> is the one-byte write to the IME
  request pipe the Kotlin side reads.
\<close>

datatype wl_call =
    KbEnter "surface option" bool
  | KbUpdate u32 u32 bool
  | SeatKey u32 u32 bool
  | TouchDown surface u32 s32 double double
  | TouchMotion u32 s32 double double
  | TouchUp u32 s32
  | TouchCancel nat
  | TouchFrame
  | PtrEnter surface double double
  | PtrMotion u32 double double
  | PtrButton u32 u32 bool
  | PtrAxis u32 bool double s32
  | PtrClearFocus
  | PtrFrame
  | TiEnter nat surface
  | TiLeave nat surface
  | TiCommitString nat bytes
  | TiDeleteSurrounding nat u32 u32
  | TiDone nat u32
  | ImeCmd char
  | SetActivated nat bool
  | RaiseToTop nat
  | SetSize nat int int
  | SetMaximized nat bool
  | SetFullscreen nat bool
  | SetPosition nat int int
  | ScheduleConfigure nat
  | CommitMode int int
  | KeyboardInit
  | KeyboardSetKeymap
  | KeyboardFinish
  | SeatSetKeyboard
  | SeatSetCapabilities
  | XwActivate nat
  | XwConfigure nat int int int int
  | ViewTreeCreate nat
  | ViewTreeDestroy nat
  | ViewRaise nat
  | ViewSetPosition nat int int

text \<open>
  \<^verbatim>\<open>struct compositor_toplevel\<close> with the fields of its \<^verbatim>\<open>wlr_xdg_toplevel\<close> that the code reads.
\<close>

record toplevel =
  ct_id :: nat
  ct_surface :: "surface option"
  ct_rendering_only :: bool
  ct_app_id :: "string option"
  ct_initialized :: bool
  ct_initial_commit :: bool
  ct_fullscreen :: bool
  ct_width :: int
  ct_height :: int

text \<open>
  The part of \<^verbatim>\<open>struct compositor_server\<close> every component uses: whether the seat and the keyboard
  exist, and the list of toplevels (head first).
\<close>

record compositor =
  cs_calls :: "wl_call list"
  cs_seat :: bool
  cs_keyboard :: bool
  cs_toplevels :: "toplevel list"

definition wl_emit :: "wl_call \<Rightarrow> 'a compositor_scheme \<Rightarrow> 'a compositor_scheme" where
  "wl_emit c st = st\<lparr>cs_calls := cs_calls st @ [c]\<rparr>"

lemma wl_emit_simps [simp]:
  "cs_calls (wl_emit c st) = cs_calls st @ [c]" "cs_seat (wl_emit c st) = cs_seat st"
  "cs_keyboard (wl_emit c st) = cs_keyboard st" "cs_toplevels (wl_emit c st) = cs_toplevels st"
  "compositor.more (wl_emit c st) = compositor.more st"
  by (simp_all add: wl_emit_def)

end
