(* ===== verification/InputRing.thy ===== *)
theory InputRing
  imports BoundedQueue WlSeat
begin

text \<open>
  The single-producer single-consumer ring of \<^verbatim>\<open>compositor/native/src/input_handler.c\<close>: the event
  type, the two indices, reserve/commit on the JNI side, peek/consume on the compositor side. The
  ring as a sequential queue interprets \<open>bounded_queue\<close>; the interleaving of the two threads is
  a step relation whose atomic steps are the index accesses (the \<^verbatim>\<open>__atomic\<close> acquire/release pairs
  make those the synchronisation points) with the slot writes of the producer in between.
\<close>

subsection \<open>Events and indices\<close>

text \<open>
  \<^verbatim>\<open>struct input_event\<close>: the tag and the union member it selects, each with the time stamp.
\<close>

datatype input_event =
    INPUT_KEY u32 u32 s32
  | INPUT_TOUCH_DOWN u32 s32 double double
  | INPUT_TOUCH_MOTION u32 s32 double double
  | INPUT_TOUCH_UP u32 s32 double double
  | INPUT_TOUCH_CANCEL u32 s32 double double
  | INPUT_POINTER_MOTION u32 double double
  | INPUT_POINTER_BUTTON u32 u32 s32
  | INPUT_POINTER_SCROLL u32 double double

definition INPUT_RING_SIZE :: nat where
  "INPUT_RING_SIZE = 256"

definition INPUT_RING_MASK :: u32 where
  "INPUT_RING_MASK = of_nat INPUT_RING_SIZE - 1"

record ring =
  ring_slots :: "input_event list"
  ring_head :: u32
  ring_tail :: u32

text \<open>Reserve and peek return the index of the slot, or \<^const>\<open>None\<close> for \<^verbatim>\<open>NULL\<close>.\<close>

definition ring_reserve :: "ring \<Rightarrow> nat option" where
  "ring_reserve r =
     (if (ring_head r + 1) AND INPUT_RING_MASK = ring_tail r AND INPUT_RING_MASK then None
      else Some (unat (ring_head r AND INPUT_RING_MASK)))"

definition ring_commit :: "ring \<Rightarrow> ring" where
  "ring_commit r = r\<lparr>ring_head := (ring_head r + 1) AND INPUT_RING_MASK\<rparr>"

definition ring_peek :: "ring \<Rightarrow> nat option" where
  "ring_peek r =
     (if ring_tail r = ring_head r then None else Some (unat (ring_tail r AND INPUT_RING_MASK)))"

definition ring_consume :: "ring \<Rightarrow> ring" where
  "ring_consume r = r\<lparr>ring_tail := (ring_tail r + 1) AND INPUT_RING_MASK\<rparr>"

text \<open>The stores into the reserved slot.\<close>

definition ring_store :: "nat \<Rightarrow> input_event \<Rightarrow> ring \<Rightarrow> ring" where
  "ring_store i ev r = r\<lparr>ring_slots := (ring_slots r)[i := ev]\<rparr>"

text \<open>
  The body every \<^verbatim>\<open>input_handler_send_*\<close> shares: reserve, fill, commit, or drop when full; and one
  round of the consumer.
\<close>

definition ring_send :: "input_event \<Rightarrow> ring \<Rightarrow> bool \<times> ring" where
  "ring_send ev r = (case ring_reserve r of
      None \<Rightarrow> (False, r)
    | Some i \<Rightarrow> (True, ring_commit (ring_store i ev r)))"

definition ring_next :: "ring \<Rightarrow> input_event option \<times> ring" where
  "ring_next r = (case ring_peek r of
      None \<Rightarrow> (None, r)
    | Some i \<Rightarrow> (Some (ring_slots r ! i), ring_consume r))"

definition ring_init :: "input_event list \<Rightarrow> ring" where
  "ring_init slots = \<lparr>ring_slots = slots, ring_head = 0, ring_tail = 0\<rparr>"

subsection \<open>Indices modulo the size\<close>

definition ring_inv :: "ring \<Rightarrow> bool" where
  "ring_inv r \<longleftrightarrow> length (ring_slots r) = INPUT_RING_SIZE \<and>
     unat (ring_head r) < INPUT_RING_SIZE \<and> unat (ring_tail r) < INPUT_RING_SIZE"

definition ring_count :: "ring \<Rightarrow> nat" where
  "ring_count r = (unat (ring_head r) + INPUT_RING_SIZE - unat (ring_tail r)) mod INPUT_RING_SIZE"

definition ring_contents :: "ring \<Rightarrow> input_event list" where
  "ring_contents r =
     map (\<lambda>k. ring_slots r ! ((unat (ring_tail r) + k) mod INPUT_RING_SIZE)) [0..<ring_count r]"

lemma ring_mask: "unat (x AND INPUT_RING_MASK) = unat x mod INPUT_RING_SIZE"
proof -
  have "INPUT_RING_MASK = mask 8"
    by (simp add: INPUT_RING_MASK_def INPUT_RING_SIZE_def mask_eq_exp_minus_1)
  then have "x AND INPUT_RING_MASK = take_bit 8 x"
    by (simp only: take_bit_eq_mask)
  then have "unat (x AND INPUT_RING_MASK) = take_bit 8 (unat x)"
    by (simp only: unsigned_take_bit_eq)
  then show ?thesis
    by (simp add: take_bit_eq_mod INPUT_RING_SIZE_def)
qed

lemma ring_mask_succ:
  "unat x < INPUT_RING_SIZE \<Longrightarrow> unat ((x + 1) AND INPUT_RING_MASK) = Suc (unat x) mod INPUT_RING_SIZE"
  by (simp add: ring_mask unat_word_ariths INPUT_RING_SIZE_def)

lemma mask_eq_iff:
  "x AND INPUT_RING_MASK = y AND INPUT_RING_MASK \<longleftrightarrow>
   unat x mod INPUT_RING_SIZE = unat y mod INPUT_RING_SIZE"
  by (metis ring_mask unsigned_word_eqI)

lemma ring_reserve_some:
  assumes "ring_inv r"
  shows "ring_reserve r = (if ring_count r = INPUT_RING_SIZE - 1 then None
           else Some (unat (ring_head r)))"
proof -
  have "unat (ring_head r + 1) = Suc (unat (ring_head r))"
    using assms by (simp add: ring_inv_def INPUT_RING_SIZE_def unat_word_ariths)
  then show ?thesis
    using assms unfolding ring_inv_def INPUT_RING_SIZE_def
    by (auto simp: ring_reserve_def mask_eq_iff ring_mask ring_count_def INPUT_RING_SIZE_def
        mod_Suc mod_if split: if_splits)
qed

lemma distance_zero: "\<lbrakk>h < n; t < n\<rbrakk> \<Longrightarrow> (h + n - t) mod n = 0 \<longleftrightarrow> t = (h::nat)"
  by (cases "h < t") (auto simp: mod_if)

lemma ring_peek_some:
  assumes "ring_inv r"
  shows "ring_peek r = (if ring_count r = 0 then None else Some (unat (ring_tail r)))"
proof -
  have "ring_tail r = ring_head r \<longleftrightarrow> unat (ring_tail r) = unat (ring_head r)"
    by (metis unsigned_word_eqI)
  also have "\<dots> \<longleftrightarrow> ring_count r = 0"
    using assms unfolding ring_inv_def ring_count_def by (metis distance_zero)
  finally show ?thesis
    using assms by (simp add: ring_inv_def ring_peek_def ring_mask)
qed

lemma ring_count_less: "ring_count r < INPUT_RING_SIZE"
  by (simp add: ring_count_def INPUT_RING_SIZE_def)

lemma ring_inv_commit [inv_intros]: "ring_inv r \<Longrightarrow> ring_inv (ring_commit r)"
  by (simp add: ring_inv_def ring_commit_def ring_mask_succ INPUT_RING_SIZE_def)

lemma ring_inv_consume [inv_intros]: "ring_inv r \<Longrightarrow> ring_inv (ring_consume r)"
  by (simp add: ring_inv_def ring_consume_def ring_mask_succ INPUT_RING_SIZE_def)

lemma ring_inv_store [inv_intros]: "ring_inv r \<Longrightarrow> ring_inv (ring_store i ev r)"
  by (simp add: ring_inv_def ring_store_def)

lemma ring_inv_init: "length slots = INPUT_RING_SIZE \<Longrightarrow> ring_inv (ring_init slots)"
  by (simp add: ring_inv_def ring_init_def INPUT_RING_SIZE_def)

lemma ring_contents_init [simp]: "ring_contents (ring_init slots) = []"
  by (simp add: ring_contents_def ring_count_def ring_init_def INPUT_RING_SIZE_def)

lemma length_ring_contents [simp]: "length (ring_contents r) = ring_count r"
  by (simp add: ring_contents_def)

lemma ring_store_frame [frame_simps]:
  "ring_head (ring_store i ev r) = ring_head r" "ring_tail (ring_store i ev r) = ring_tail r"
  "ring_count (ring_store i ev r) = ring_count r"
  by (simp_all add: ring_store_def ring_count_def)

text \<open>
  The producer's slot lies outside the content: writing it is not seen until the commit.
\<close>

lemma ring_contents_store:
  assumes "ring_inv r" "ring_count r < INPUT_RING_SIZE"
  shows "ring_contents (ring_store (unat (ring_head r)) ev r) = ring_contents r"
proof -
  have "(unat (ring_tail r) + k) mod INPUT_RING_SIZE \<noteq> unat (ring_head r)"
    if "k < ring_count r" for k
    using that assms unfolding ring_inv_def ring_count_def INPUT_RING_SIZE_def
    by (auto simp: mod_if split: if_splits)
  then show ?thesis
    unfolding ring_contents_def ring_store_frame
    by (intro map_cong refl) (metis atLeastLessThan_iff nth_list_update_neq ring.ext_inject
        ring.surjective ring.update_convs(1) ring_store_def set_upt)
qed

lemma ring_count_commit:
  assumes "ring_inv r" "ring_count r < INPUT_RING_SIZE - 1"
  shows "ring_count (ring_commit r) = Suc (ring_count r)"
proof -
  have h: "unat (ring_head (ring_commit r)) = Suc (unat (ring_head r)) mod INPUT_RING_SIZE"
    using assms(1) by (simp add: ring_commit_def ring_mask_succ ring_inv_def)
  have t: "ring_tail (ring_commit r) = ring_tail r" by (simp add: ring_commit_def)
  show ?thesis
    using assms unfolding ring_count_def h t ring_inv_def INPUT_RING_SIZE_def
    by (auto simp: mod_if split: if_splits)
qed

lemma ring_contents_commit:
  assumes "ring_inv r" "ring_count r < INPUT_RING_SIZE - 1"
  shows "ring_contents (ring_commit r) = ring_contents r @ [ring_slots r ! unat (ring_head r)]"
proof -
  have "(unat (ring_tail r) + ring_count r) mod INPUT_RING_SIZE = unat (ring_head r)"
    using assms unfolding ring_inv_def ring_count_def INPUT_RING_SIZE_def
    by (auto simp: mod_if split: if_splits)
  then show ?thesis
    using ring_count_commit [OF assms] by (simp add: ring_contents_def ring_commit_def)
qed

lemma ring_count_consume:
  assumes "ring_inv r" "0 < ring_count r"
  shows "ring_count (ring_consume r) = ring_count r - 1"
proof -
  have t: "unat (ring_tail (ring_consume r)) = Suc (unat (ring_tail r)) mod INPUT_RING_SIZE"
    using assms(1) by (simp add: ring_consume_def ring_mask_succ ring_inv_def)
  have h: "ring_head (ring_consume r) = ring_head r" by (simp add: ring_consume_def)
  show ?thesis
    using assms unfolding ring_count_def h t ring_inv_def INPUT_RING_SIZE_def
    by (auto simp: mod_if split: if_splits)
qed

lemma ring_contents_consume:
  assumes "ring_inv r" "0 < ring_count r"
  shows "ring_contents r = ring_slots r ! unat (ring_tail r) # ring_contents (ring_consume r)"
proof (rule nth_equalityI)
  show "length (ring_contents r) =
      length (ring_slots r ! unat (ring_tail r) # ring_contents (ring_consume r))"
    using ring_count_consume [OF assms] assms(2) by simp
next
  fix k assume "k < length (ring_contents r)"
  then have k: "k < ring_count r" by simp
  have t: "unat (ring_tail (ring_consume r)) = Suc (unat (ring_tail r)) mod INPUT_RING_SIZE"
    using assms(1) by (simp add: ring_consume_def ring_mask_succ ring_inv_def)
  have s: "ring_slots (ring_consume r) = ring_slots r" by (simp add: ring_consume_def)
  show "ring_contents r ! k =
      (ring_slots r ! unat (ring_tail r) # ring_contents (ring_consume r)) ! k"
  proof (cases k)
    case 0
    with k assms(1) show ?thesis by (simp add: ring_contents_def ring_inv_def)
  next
    case (Suc j)
    with k ring_count_consume [OF assms] have "j < ring_count (ring_consume r)" by simp
    with k Suc show ?thesis by (simp add: ring_contents_def t s mod_simps)
  qed
qed

subsection \<open>The ring as a bounded queue\<close>

definition ring_room :: "input_event \<Rightarrow> input_event list \<Rightarrow> bool" where
  "ring_room ev evs \<longleftrightarrow> length evs < INPUT_RING_SIZE - 1"

interpretation iring: bounded_queue ring_inv ring_contents ring_room ring_send ring_next
proof
  fix r ev assume r: "ring_inv r" and "ring_room ev (ring_contents r)"
  then have c: "ring_count r < INPUT_RING_SIZE - 1" by (simp add: ring_room_def)
  let ?s = "ring_store (unat (ring_head r)) ev r"
  have s: "ring_inv ?s" "ring_count ?s < INPUT_RING_SIZE - 1"
    using r c by (auto intro: inv_intros simp: frame_simps)
  have "ring_slots ?s ! unat (ring_head r) = ev"
    using r by (simp add: ring_store_def ring_inv_def)
  moreover have "ring_contents ?s = ring_contents r"
    using ring_contents_store [OF r ring_count_less] .
  ultimately have "ring_contents (ring_commit ?s) = ring_contents r @ [ev]"
    using ring_contents_commit [OF s] by (simp add: frame_simps)
  moreover have "ring_send ev r = (True, ring_commit ?s)"
    using ring_reserve_some [OF r] c by (simp add: ring_send_def)
  ultimately show "\<exists>r'. ring_send ev r = (True, r') \<and> ring_inv r' \<and>
      ring_contents r' = ring_contents r @ [ev]"
    using ring_inv_commit [OF s(1)] by blast
next
  fix r ev assume "ring_inv r" "\<not> ring_room ev (ring_contents r)"
  then show "ring_send ev r = (False, r)"
    using ring_reserve_some [of r] ring_count_less [of r] by (simp add: ring_send_def ring_room_def)
next
  fix r assume r: "ring_inv r" "ring_contents r = []"
  then have "ring_count r = 0" by (metis length_ring_contents list.size(3))
  with r show "ring_next r = (None, r)"
    using ring_peek_some [of r] by (simp add: ring_next_def)
next
  fix r ev evs assume r: "ring_inv r" "ring_contents r = ev # evs"
  then have c: "0 < ring_count r" by (metis length_ring_contents length_greater_0_conv list.distinct(1))
  from ring_contents_consume [OF r(1) c] r(2)
  show "\<exists>r'. ring_next r = (Some ev, r') \<and> ring_inv r' \<and> ring_contents r' = evs"
    using ring_peek_some [OF r(1)] c ring_inv_consume [OF r(1)] by (simp add: ring_next_def)
qed

end
