(* ===== verification/InputSpsc.thy ===== *)
theory InputSpsc
  imports InputRing
begin

text \<open>
  The two threads on the ring, interleaved. The producer's program counter is idle, holding a
  reserved slot it is still filling, or holding a filled slot; the consumer's is idle or holding the
  slot it peeked (and dispatches from) until it consumes it. Every access to an index is one atomic
  step, the producer's plain stores into its slot are separate steps in between (a slot being
  filled may hold anything), and the ghost fields record what was committed and what was
  dispatched. The acquire/release pairing of the C code is what justifies the sequentially
  consistent interleaving of these steps.
\<close>

datatype producer_pc = P_Idle | P_Filling nat input_event | P_Filled nat input_event
datatype consumer_pc = C_Idle | C_Holding nat

record spsc =
  sp_ring :: ring
  sp_prod :: producer_pc
  sp_cons :: consumer_pc
  sp_sent :: "input_event list"
  sp_seen :: "input_event list"

definition spsc_init :: "input_event list \<Rightarrow> spsc" where
  "spsc_init slots =
     \<lparr>sp_ring = ring_init slots, sp_prod = P_Idle, sp_cons = C_Idle, sp_sent = [], sp_seen = []\<rparr>"

inductive spsc_step :: "spsc \<Rightarrow> spsc \<Rightarrow> bool" where
  reserve: "\<lbrakk>sp_prod s = P_Idle; ring_reserve (sp_ring s) = Some i\<rbrakk> \<Longrightarrow>
     spsc_step s (s\<lparr>sp_prod := P_Filling i ev\<rparr>)"
| drop_full: "\<lbrakk>sp_prod s = P_Idle; ring_reserve (sp_ring s) = None\<rbrakk> \<Longrightarrow> spsc_step s s"
| scribble: "sp_prod s = P_Filling i ev \<Longrightarrow>
     spsc_step s (s\<lparr>sp_ring := ring_store i junk (sp_ring s)\<rparr>)"
| fill: "sp_prod s = P_Filling i ev \<Longrightarrow>
     spsc_step s (s\<lparr>sp_ring := ring_store i ev (sp_ring s), sp_prod := P_Filled i ev\<rparr>)"
| commit: "sp_prod s = P_Filled i ev \<Longrightarrow>
     spsc_step s (s\<lparr>sp_ring := ring_commit (sp_ring s), sp_prod := P_Idle,
                   sp_sent := sp_sent s @ [ev]\<rparr>)"
| peek: "\<lbrakk>sp_cons s = C_Idle; ring_peek (sp_ring s) = Some i\<rbrakk> \<Longrightarrow>
     spsc_step s (s\<lparr>sp_cons := C_Holding i\<rparr>)"
| peek_empty: "\<lbrakk>sp_cons s = C_Idle; ring_peek (sp_ring s) = None\<rbrakk> \<Longrightarrow> spsc_step s s"
| consume: "sp_cons s = C_Holding i \<Longrightarrow>
     spsc_step s (s\<lparr>sp_ring := ring_consume (sp_ring s), sp_cons := C_Idle,
                   sp_seen := sp_seen s @ [ring_slots (sp_ring s) ! i]\<rparr>)"

inductive spsc_reachable :: "spsc \<Rightarrow> bool" where
  start: "length slots = INPUT_RING_SIZE \<Longrightarrow> spsc_reachable (spsc_init slots)"
| step: "\<lbrakk>spsc_reachable s; spsc_step s s'\<rbrakk> \<Longrightarrow> spsc_reachable s'"

inductive_cases spsc_stepE: "spsc_step s s'"

subsection \<open>The invariant\<close>

definition producer_ok :: "producer_pc \<Rightarrow> ring \<Rightarrow> bool" where
  "producer_ok p r \<longleftrightarrow> (case p of
      P_Idle \<Rightarrow> True
    | P_Filling i ev \<Rightarrow> i = unat (ring_head r) \<and> ring_count r < INPUT_RING_SIZE - 1
    | P_Filled i ev \<Rightarrow> i = unat (ring_head r) \<and> ring_count r < INPUT_RING_SIZE - 1 \<and>
        ring_slots r ! i = ev)"

definition consumer_ok :: "consumer_pc \<Rightarrow> ring \<Rightarrow> bool" where
  "consumer_ok c r \<longleftrightarrow> (case c of
      C_Idle \<Rightarrow> True | C_Holding i \<Rightarrow> i = unat (ring_tail r) \<and> 0 < ring_count r)"

definition spsc_inv :: "spsc \<Rightarrow> bool" where
  "spsc_inv s \<longleftrightarrow> ring_inv (sp_ring s) \<and> producer_ok (sp_prod s) (sp_ring s) \<and>
     consumer_ok (sp_cons s) (sp_ring s) \<and> sp_sent s = sp_seen s @ ring_contents (sp_ring s)"

lemma producer_ok_simps [simp]:
  "producer_ok P_Idle r"
  "producer_ok (P_Filling i ev) r \<longleftrightarrow> i = unat (ring_head r) \<and> ring_count r < INPUT_RING_SIZE - 1"
  "producer_ok (P_Filled i ev) r \<longleftrightarrow> i = unat (ring_head r) \<and> ring_count r < INPUT_RING_SIZE - 1 \<and>
     ring_slots r ! i = ev"
  by (simp_all add: producer_ok_def)

lemma consumer_ok_simps [simp]:
  "consumer_ok C_Idle r"
  "consumer_ok (C_Holding i) r \<longleftrightarrow> i = unat (ring_tail r) \<and> 0 < ring_count r"
  by (simp_all add: consumer_ok_def)

lemma ring_store_slot:
  "ring_inv r \<Longrightarrow> ring_slots (ring_store (unat (ring_head r)) ev r) ! unat (ring_head r) = ev"
  by (simp add: ring_store_def ring_inv_def)

lemma consumer_ok_store [simp]: "consumer_ok c (ring_store i ev r) = consumer_ok c r"
  by (simp add: consumer_ok_def frame_simps split: consumer_pc.splits)

lemma consumer_ok_commit:
  "\<lbrakk>ring_inv r; ring_count r < INPUT_RING_SIZE - 1; consumer_ok c r\<rbrakk> \<Longrightarrow> consumer_ok c (ring_commit r)"
  using ring_count_commit [of r]
  by (auto simp: consumer_ok_def ring_commit_def split: consumer_pc.splits)

lemma producer_ok_consume:
  "\<lbrakk>ring_inv r; 0 < ring_count r; producer_ok p r\<rbrakk> \<Longrightarrow> producer_ok p (ring_consume r)"
  using ring_count_consume [of r]
  by (auto simp: producer_ok_def ring_consume_def split: producer_pc.splits)

lemma spsc_inv_store:
  assumes "spsc_inv s" "producer_ok (P_Filling i ev) (sp_ring s)"
  shows "ring_inv (ring_store i e (sp_ring s)) \<and> consumer_ok (sp_cons s) (ring_store i e (sp_ring s)) \<and>
    producer_ok (P_Filling i ev) (ring_store i e (sp_ring s)) \<and>
    sp_sent s = sp_seen s @ ring_contents (ring_store i e (sp_ring s))"
  using assms ring_contents_store [of "sp_ring s" e] ring_count_less [of "sp_ring s"]
  by (auto simp: spsc_inv_def frame_simps intro: inv_intros)

lemma spsc_inv_step:
  assumes "spsc_step s s'" "spsc_inv s"
  shows "spsc_inv s'"
  using assms(1)
proof cases
  case (reserve i ev)
  then show ?thesis
    using assms(2) ring_reserve_some [of "sp_ring s"] ring_count_less [of "sp_ring s"]
    by (auto simp: spsc_inv_def split: if_splits)
next
  case (scribble i ev junk)
  then show ?thesis
    using assms(2) spsc_inv_store [OF assms(2), of i ev junk] by (simp add: spsc_inv_def)
next
  case (fill i ev)
  then show ?thesis
    using assms(2) spsc_inv_store [OF assms(2), of i ev ev] ring_store_slot [of "sp_ring s" ev]
    by (simp add: spsc_inv_def frame_simps)
next
  case (commit i ev)
  then show ?thesis
    using assms(2) ring_contents_commit [of "sp_ring s"] consumer_ok_commit [of "sp_ring s"]
    by (auto simp: spsc_inv_def intro: inv_intros)
next
  case (peek i)
  then show ?thesis
    using assms(2) ring_peek_some [of "sp_ring s"] by (auto simp: spsc_inv_def split: if_splits)
next
  case (consume i)
  then show ?thesis
    using assms(2) ring_contents_consume [of "sp_ring s"] producer_ok_consume [of "sp_ring s"]
    by (auto simp: spsc_inv_def intro: inv_intros)
qed (use assms(2) in simp_all)

lemma spsc_inv_reachable: "spsc_reachable s \<Longrightarrow> spsc_inv s"
proof (induction rule: spsc_reachable.induct)
  case (start slots)
  then show ?case
    using ring_inv_init [OF start] by (simp add: spsc_inv_def spsc_init_def)
next
  case (step s s')
  then show ?case by (blast intro: spsc_inv_step)
qed

lemma ring_ends_differ: "0 < ring_count r \<Longrightarrow> unat (ring_head r) \<noteq> unat (ring_tail r)"
  by (auto simp: ring_count_def)

subsection \<open>Properties\<close>

text \<open>
  C12: Under every interleaving of the JNI thread and the compositor thread, the events dispatched
  are a prefix of the events committed, in order; while the compositor holds a slot its event is the
  next one to be seen, whatever the producer is doing, and the producer is never writing that slot;
  at most 255 events wait.
\<close>

theorem input_ring_spsc:
  assumes "spsc_reachable s"
  shows "sp_sent s = sp_seen s @ ring_contents (sp_ring s) \<and>
    length (ring_contents (sp_ring s)) \<le> 255 \<and>
    (\<forall>i. sp_cons s = C_Holding i \<longrightarrow>
       length (sp_seen s) < length (sp_sent s) \<and>
       ring_slots (sp_ring s) ! i = sp_sent s ! length (sp_seen s) \<and>
       (\<forall>j ev. sp_prod s = P_Filling j ev \<or> sp_prod s = P_Filled j ev \<longrightarrow> j \<noteq> i))"
proof -
  have inv: "spsc_inv s" using spsc_inv_reachable [OF assms] .
  then have r: "ring_inv (sp_ring s)" and sent: "sp_sent s = sp_seen s @ ring_contents (sp_ring s)"
    by (simp_all add: spsc_inv_def)
  have held: "length (sp_seen s) < length (sp_sent s) \<and>
      ring_slots (sp_ring s) ! i = sp_sent s ! length (sp_seen s)" if "sp_cons s = C_Holding i" for i
    using that inv ring_contents_consume [OF r] by (simp add: spsc_inv_def nth_append)
  have apart: "j \<noteq> i" if "sp_cons s = C_Holding i"
    "sp_prod s = P_Filling j ev \<or> sp_prod s = P_Filled j ev" for i j ev
  proof -
    have "i = unat (ring_tail (sp_ring s))" "0 < ring_count (sp_ring s)"
      using that(1) inv by (simp_all add: spsc_inv_def)
    moreover have "j = unat (ring_head (sp_ring s))"
      using that(2) inv by (auto simp: spsc_inv_def)
    ultimately show ?thesis using ring_ends_differ by metis
  qed
  show ?thesis
    using sent held apart ring_count_less [of "sp_ring s"] by (simp add: INPUT_RING_SIZE_def)
qed

text \<open>One event through an empty ring, the consumer holding it.\<close>

definition spsc_demo :: spsc where
  "spsc_demo =
     (let ev = INPUT_KEY 0 30 1; r = ring_init (replicate INPUT_RING_SIZE (INPUT_KEY 0 0 0))
      in \<lparr>sp_ring = ring_commit (ring_store 0 ev r), sp_prod = P_Idle, sp_cons = C_Holding 0,
          sp_sent = [ev], sp_seen = []\<rparr>)"

lemma spsc_demo_reachable: "spsc_reachable spsc_demo"
proof -
  let ?ev = "INPUT_KEY 0 30 1"
  let ?r0 = "ring_init (replicate INPUT_RING_SIZE (INPUT_KEY 0 0 0))"
  let ?s0 = "spsc_init (replicate INPUT_RING_SIZE (INPUT_KEY 0 0 0))"
  have i0: "ring_inv ?r0" by (rule ring_inv_init) simp
  have "ring_reserve ?r0 = Some 0"
    using ring_reserve_some [OF i0] by (simp add: ring_count_def ring_init_def INPUT_RING_SIZE_def)
  then have s1: "spsc_step ?s0 (?s0\<lparr>sp_prod := P_Filling 0 ?ev\<rparr>)"
    by (intro spsc_step.reserve) (simp_all add: spsc_init_def)
  have s2: "spsc_step (?s0\<lparr>sp_prod := P_Filling 0 ?ev\<rparr>)
      (?s0\<lparr>sp_ring := ring_store 0 ?ev ?r0, sp_prod := P_Filled 0 ?ev\<rparr>)"
    using spsc_step.fill [of "?s0\<lparr>sp_prod := P_Filling 0 ?ev\<rparr>" 0 ?ev] by (simp add: spsc_init_def)
  have s3: "spsc_step (?s0\<lparr>sp_ring := ring_store 0 ?ev ?r0, sp_prod := P_Filled 0 ?ev\<rparr>)
      (spsc_demo\<lparr>sp_cons := C_Idle\<rparr>)"
    using spsc_step.commit [of "?s0\<lparr>sp_ring := ring_store 0 ?ev ?r0, sp_prod := P_Filled 0 ?ev\<rparr>" 0 ?ev]
    by (simp add: spsc_init_def spsc_demo_def Let_def)
  have "ring_peek (sp_ring spsc_demo) = Some 0"
    by (simp add: spsc_demo_def Let_def ring_peek_def ring_commit_def ring_store_def ring_init_def
        INPUT_RING_MASK_def INPUT_RING_SIZE_def)
  then have s4: "spsc_step (spsc_demo\<lparr>sp_cons := C_Idle\<rparr>) spsc_demo"
    using spsc_step.peek [of "spsc_demo\<lparr>sp_cons := C_Idle\<rparr>" 0] by (simp add: spsc_demo_def Let_def)
  have "spsc_reachable ?s0" by (rule spsc_reachable.start) simp
  with s1 s2 s3 s4 show ?thesis by (blast intro: spsc_reachable.step)
qed

theorem input_ring_spsc_witness:
  "ring_slots (sp_ring spsc_demo) ! 0 = INPUT_KEY 0 30 1 \<and> sp_sent spsc_demo = [INPUT_KEY 0 30 1]"
  using input_ring_spsc [OF spsc_demo_reachable] by (simp add: spsc_demo_def Let_def)

text \<open>
  As a sequential queue the ring is first in, first out over any history of sends and
  dequeues; a send is dropped exactly when 255 events wait, and then changes nothing; the drain loop
  of the event handler delivers everything that waits and returns, within 256 rounds.
\<close>

theorem input_ring_fifo:
  assumes "ring_inv r"
  shows "(\<forall>ops acc del r'. qrun ring_send ring_next ops r = (acc, del, r') \<longrightarrow>
       ring_inv r' \<and> ring_contents r @ acc = del @ ring_contents r') \<and>
    (\<forall>ev. fst (ring_send ev r) = (length (ring_contents r) < 255)) \<and>
    (\<forall>ev. \<not> fst (ring_send ev r) \<longrightarrow> snd (ring_send ev r) = r) \<and>
    (\<exists>r'. qdrain 256 ring_next r = Some (ring_contents r, r') \<and> ring_contents r' = [])"
proof (intro conjI allI impI)
  fix ev
  from iring.enq_cases [OF assms, of ev]
  show "fst (ring_send ev r) = (length (ring_contents r) < 255)"
    by (auto simp: ring_room_def INPUT_RING_SIZE_def)
  show "snd (ring_send ev r) = r" if "\<not> fst (ring_send ev r)"
    using that iring.enq_cases [OF assms, of ev] iring.enq_full [OF assms, of ev] by auto
next
  show "\<exists>r'. qdrain 256 ring_next r = Some (ring_contents r, r') \<and> ring_contents r' = []"
    using iring.drain [OF assms, of 256] ring_count_less [of r] by (auto simp: INPUT_RING_SIZE_def)
qed (use iring.fifo [OF assms] in blast)+

theorem input_ring_fifo_witness:
  "fst (ring_send (INPUT_KEY 1 30 1) (ring_init (replicate INPUT_RING_SIZE (INPUT_KEY 0 0 0))))"
proof -
  have "ring_inv (ring_init (replicate INPUT_RING_SIZE (INPUT_KEY 0 0 0)))"
    by (rule ring_inv_init) simp
  from input_ring_fifo [OF this] show ?thesis by simp
qed

end
