(* ===== verification/TextQueue.thy ===== *)
theory TextQueue
  imports BoundedQueue
begin

text \<open>
  The queue of IME operations of \<^verbatim>\<open>text_input_handler.c\<close>: commits and deletes enqueued by the JNI
  thread under a mutex, bounded in number and in bytes, popped by the compositor thread. It
  interprets \<open>bounded_queue\<close>.
\<close>

definition PENDING_TEXT_MAX_COUNT :: nat where
  "PENDING_TEXT_MAX_COUNT = 256"

definition PENDING_TEXT_MAX_BYTES :: nat where
  "PENDING_TEXT_MAX_BYTES = 256 * 1024"

definition DELETE_SURROUNDING_MAX_COUNT :: u32 where
  "DELETE_SURROUNDING_MAX_COUNT = 256"

definition clamp_delete_count :: "u32 \<Rightarrow> u32" where
  "clamp_delete_count count =
     (if count > DELETE_SURROUNDING_MAX_COUNT then DELETE_SURROUNDING_MAX_COUNT else count)"

text \<open>
  \<^verbatim>\<open>struct pending_text_op\<close>: a commit with its text, or a delete with its two counts and unit; the
  \<^verbatim>\<open>bytes\<close> field is what \<open>op_bytes\<close> computes when the operation is built. The size of the
  struct on the 64-bit targets is 48.
\<close>

datatype pending_text_op =
    PENDING_TEXT_COMMIT bytes
  | PENDING_TEXT_DELETE u32 u32 bool

definition sizeof_pending_text_op :: nat where
  "sizeof_pending_text_op = 48"

fun op_bytes :: "pending_text_op \<Rightarrow> nat" where
  "op_bytes (PENDING_TEXT_COMMIT s) = length s"
| "op_bytes (PENDING_TEXT_DELETE b a c) = sizeof_pending_text_op + unat b + unat a"

text \<open>The linked list between head and tail, with the two counters.\<close>

record text_queue =
  pq_ops :: "pending_text_op list"
  pq_count :: nat
  pq_bytes :: nat

definition empty_text_queue :: text_queue where
  "empty_text_queue = \<lparr>pq_ops = [], pq_count = 0, pq_bytes = 0\<rparr>"

definition enqueue_text_op :: "pending_text_op \<Rightarrow> text_queue \<Rightarrow> bool \<times> text_queue" where
  "enqueue_text_op op q =
     (if pq_count q \<ge> PENDING_TEXT_MAX_COUNT \<or> pq_bytes q + op_bytes op > PENDING_TEXT_MAX_BYTES
      then (False, q)
      else (True, q\<lparr>pq_ops := pq_ops q @ [op], pq_count := pq_count q + 1,
                    pq_bytes := pq_bytes q + op_bytes op\<rparr>))"

text \<open>\<open>alloc_ok\<close> says whether \<^verbatim>\<open>calloc\<close> and \<^verbatim>\<open>strdup\<close> succeed.\<close>

definition enqueue_text_commit :: "bool \<Rightarrow> bytes \<Rightarrow> text_queue \<Rightarrow> bool \<times> text_queue" where
  "enqueue_text_commit alloc_ok text q =
     (if \<not> alloc_ok then (False, q) else enqueue_text_op (PENDING_TEXT_COMMIT text) q)"

definition enqueue_text_delete :: "bool \<Rightarrow> u32 \<Rightarrow> u32 \<Rightarrow> bool \<Rightarrow> text_queue \<Rightarrow> bool \<times> text_queue" where
  "enqueue_text_delete alloc_ok before_length after_length code_points q =
     (if \<not> alloc_ok then (False, q)
      else enqueue_text_op (PENDING_TEXT_DELETE (clamp_delete_count before_length)
             (clamp_delete_count after_length) code_points) q)"

definition pop_text_op :: "text_queue \<Rightarrow> pending_text_op option \<times> text_queue" where
  "pop_text_op q = (case pq_ops q of
      [] \<Rightarrow> (None, q)
    | op # ops \<Rightarrow> (Some op, q\<lparr>pq_ops := ops, pq_count := pq_count q - 1,
                              pq_bytes := pq_bytes q - op_bytes op\<rparr>))"

text \<open>The loop frees what it pops; one more round than there are operations sees the end.\<close>

definition clear_pending_text_ops :: "text_queue \<Rightarrow> text_queue" where
  "clear_pending_text_ops q = (case qdrain (Suc (length (pq_ops q))) pop_text_op q of
      None \<Rightarrow> q | Some (_, q') \<Rightarrow> q')"

subsection \<open>The contract\<close>

definition ops_bytes :: "pending_text_op list \<Rightarrow> nat" where
  "ops_bytes ops = sum_list (map op_bytes ops)"

definition text_queue_inv :: "text_queue \<Rightarrow> bool" where
  "text_queue_inv q \<longleftrightarrow> pq_count q = length (pq_ops q) \<and> pq_bytes q = ops_bytes (pq_ops q) \<and>
     length (pq_ops q) \<le> PENDING_TEXT_MAX_COUNT \<and> ops_bytes (pq_ops q) \<le> PENDING_TEXT_MAX_BYTES"

definition text_queue_room :: "pending_text_op \<Rightarrow> pending_text_op list \<Rightarrow> bool" where
  "text_queue_room op ops \<longleftrightarrow>
     length ops < PENDING_TEXT_MAX_COUNT \<and> ops_bytes ops + op_bytes op \<le> PENDING_TEXT_MAX_BYTES"

lemma ops_bytes_simps [simp]:
  "ops_bytes [] = 0" "ops_bytes (op # ops) = op_bytes op + ops_bytes ops"
  "ops_bytes (xs @ ys) = ops_bytes xs + ops_bytes ys"
  by (simp_all add: ops_bytes_def)

interpretation tq: bounded_queue text_queue_inv pq_ops text_queue_room enqueue_text_op pop_text_op
proof
  fix q op assume "text_queue_inv q" "text_queue_room op (pq_ops q)"
  then show "\<exists>q'. enqueue_text_op op q = (True, q') \<and> text_queue_inv q' \<and> pq_ops q' = pq_ops q @ [op]"
    by (simp add: enqueue_text_op_def text_queue_inv_def text_queue_room_def)
next
  fix q op assume "text_queue_inv q" "\<not> text_queue_room op (pq_ops q)"
  then show "enqueue_text_op op q = (False, q)"
    by (auto simp: enqueue_text_op_def text_queue_inv_def text_queue_room_def)
next
  fix q :: text_queue assume "pq_ops q = []"
  then show "pop_text_op q = (None, q)" by (simp add: pop_text_op_def)
next
  fix q :: text_queue and op ops assume "text_queue_inv q" "pq_ops q = op # ops"
  then show "\<exists>q'. pop_text_op q = (Some op, q') \<and> text_queue_inv q' \<and> pq_ops q' = ops"
    by (simp add: pop_text_op_def text_queue_inv_def)
qed

lemma text_queue_inv_empty [inv_intros]: "text_queue_inv empty_text_queue"
  by (simp add: text_queue_inv_def empty_text_queue_def)

lemma text_queue_inv_enqueue [inv_intros]:
  "text_queue_inv q \<Longrightarrow> text_queue_inv (snd (enqueue_text_op op q))"
  using tq.enq_cases [of q op] by auto

lemma clear_pending_empty:
  assumes "text_queue_inv q"
  shows "pq_ops (clear_pending_text_ops q) = []" "text_queue_inv (clear_pending_text_ops q)"
proof -
  obtain q' where "qdrain (Suc (length (pq_ops q))) pop_text_op q = Some (pq_ops q, q')"
    "text_queue_inv q'" "pq_ops q' = []" using tq.drain [OF assms lessI] by blast
  then show "pq_ops (clear_pending_text_ops q) = []" "text_queue_inv (clear_pending_text_ops q)"
    by (simp_all add: clear_pending_text_ops_def)
qed

text \<open>
  The IME queue is first in, first out over any history; an operation is refused exactly when
  256 wait or when its bytes would carry the total over 256 KiB, and then the queue is unchanged;
  the counters are exact; clearing empties it.
\<close>

theorem text_queue_fifo:
  assumes "text_queue_inv q"
  shows "(\<forall>ops acc del q'. qrun enqueue_text_op pop_text_op ops q = (acc, del, q') \<longrightarrow>
       pq_ops q @ acc = del @ pq_ops q' \<and> pq_count q' = length (pq_ops q') \<and>
       pq_bytes q' = ops_bytes (pq_ops q') \<and> pq_bytes q' \<le> 262144) \<and>
    (\<forall>op. fst (enqueue_text_op op q) =
       (length (pq_ops q) < 256 \<and> ops_bytes (pq_ops q) + op_bytes op \<le> 262144)) \<and>
    (\<forall>op. \<not> fst (enqueue_text_op op q) \<longrightarrow> snd (enqueue_text_op op q) = q) \<and>
    pq_ops (clear_pending_text_ops q) = []"
proof (intro conjI allI impI)
  fix ops acc del q' assume run: "qrun enqueue_text_op pop_text_op ops q = (acc, del, q')"
  from tq.fifo [OF assms run]
  show "pq_ops q @ acc = del @ pq_ops q'" "pq_count q' = length (pq_ops q')"
    "pq_bytes q' = ops_bytes (pq_ops q')" "pq_bytes q' \<le> 262144"
    by (simp_all add: text_queue_inv_def PENDING_TEXT_MAX_BYTES_def)
next
  fix op
  from tq.enq_cases [OF assms, of op]
  show "fst (enqueue_text_op op q) =
      (length (pq_ops q) < 256 \<and> ops_bytes (pq_ops q) + op_bytes op \<le> 262144)"
    by (auto simp: text_queue_room_def PENDING_TEXT_MAX_COUNT_def PENDING_TEXT_MAX_BYTES_def)
  show "snd (enqueue_text_op op q) = q" if "\<not> fst (enqueue_text_op op q)"
    using that tq.enq_cases [OF assms, of op] tq.enq_full [OF assms, of op] by auto
qed (rule clear_pending_empty [OF assms])

theorem text_queue_fifo_witness:
  "fst (enqueue_text_op (PENDING_TEXT_COMMIT [104]) empty_text_queue)"
  using text_queue_fifo [OF text_queue_inv_empty] by (simp add: empty_text_queue_def)

end
