(* ===== verification/Utf8.thy ===== *)
theory Utf8
  imports Prelude
begin

text \<open>
  The UTF-8 arithmetic of \<^verbatim>\<open>text_input_handler.c\<close>: Android counts what to delete in UTF-16 units or
  in code points, the text-input protocol wants bytes. The decoder, the two counting loops, and their
  agreement with a reference encoder on well-formed text. A C string is the list of its bytes
  before the terminating NUL.
\<close>

subsection \<open>The decoder and the loops\<close>

text \<open>
  \<^verbatim>\<open>utf8_codepoint_len(text, pos, len, &cp)\<close>: the code point at \<open>pos\<close> and the bytes it takes; a
  sequence cut off by \<open>len\<close> or an unexpected byte counts as one byte.
\<close>

definition utf8_codepoint_len :: "bytes \<Rightarrow> nat \<Rightarrow> nat \<Rightarrow> u32 \<times> nat" where
  "utf8_codepoint_len text pos len =
     (let c = text ! pos; low6 = (\<lambda>i. ucast (text ! (pos + i) AND 0x3F) :: u32)
      in if c < 0x80 then (ucast c, 1)
         else if c AND 0xE0 = 0xC0 \<and> pos + 1 < len
         then (push_bit 6 (ucast (c AND 0x1F)) OR low6 1, 2)
         else if c AND 0xF0 = 0xE0 \<and> pos + 2 < len
         then (push_bit 12 (ucast (c AND 0x0F)) OR push_bit 6 (low6 1) OR low6 2, 3)
         else if c AND 0xF8 = 0xF0 \<and> pos + 3 < len
         then (push_bit 18 (ucast (c AND 0x07)) OR push_bit 12 (low6 1) OR push_bit 6 (low6 2)
                 OR low6 3, 4)
         else (ucast c, 1))"

definition delete_units_for_codepoint :: "u32 \<Rightarrow> bool \<Rightarrow> u32" where
  "delete_units_for_codepoint cp code_points =
     (if code_points then 1 else if cp > 0xFFFF then 2 else 1)"

lemma codepoint_len_pos: "0 < snd (utf8_codepoint_len text pos len)"
  by (simp add: utf8_codepoint_len_def Let_def)

lemma codepoint_len_advance:
  "\<lbrakk>r = utf8_codepoint_len text pos len; (cp, n) = r; pos < len\<rbrakk> \<Longrightarrow> len - (pos + n) < len - pos"
  using codepoint_len_pos [of "text" pos len] by (metis add_diff_cancel_left' diff_diff_left diff_less snd_conv zero_less_diff)

text \<open>First loop of \<^verbatim>\<open>utf8_delete_bytes_before\<close>: the units before the cursor.\<close>

function count_units :: "bytes \<Rightarrow> nat \<Rightarrow> nat \<Rightarrow> bool \<Rightarrow> u32 \<Rightarrow> u32" where
  "count_units text pos cursor code_points sum_units =
     (if pos < cursor
      then let (cp, n) = utf8_codepoint_len text pos cursor
           in count_units text (pos + n) cursor code_points
                (sum_units + delete_units_for_codepoint cp code_points)
      else sum_units)"
  by auto
termination
  by (relation "measure (\<lambda>(text, pos, cursor, _). cursor - pos)")
    (simp_all add: codepoint_len_advance)

text \<open>Second loop: how far the units that stay reach.\<close>

function find_start :: "bytes \<Rightarrow> nat \<Rightarrow> nat \<Rightarrow> bool \<Rightarrow> u32 \<Rightarrow> u32 \<Rightarrow> nat \<Rightarrow> nat" where
  "find_start text pos cursor code_points target units start =
     (if pos < cursor
      then let (cp, n) = utf8_codepoint_len text pos cursor;
               cp_units = delete_units_for_codepoint cp code_points
           in if units + cp_units \<le> target
              then find_start text (pos + n) cursor code_points target (units + cp_units) (pos + n)
              else start
      else start)"
  by auto
termination
  by (relation "measure (\<lambda>(text, pos, cursor, _). cursor - pos)")
    (simp_all add: codepoint_len_advance)

definition utf8_delete_bytes_before :: "bytes option \<Rightarrow> nat \<Rightarrow> u32 \<Rightarrow> bool \<Rightarrow> u32" where
  "utf8_delete_bytes_before text cursor units_to_delete code_points =
     (case text of None \<Rightarrow> 0
      | Some s \<Rightarrow>
          if units_to_delete = 0 then 0
          else
            let cur = min cursor (length s);
                sum_units = count_units s 0 cur code_points 0;
                target = (if sum_units > units_to_delete then sum_units - units_to_delete else 0);
                start = find_start s 0 cur code_points target 0 0
            in of_nat (cur - start))"

text \<open>The loop of \<^verbatim>\<open>utf8_delete_bytes_after\<close>.\<close>

function scan_after :: "bytes \<Rightarrow> nat \<Rightarrow> nat \<Rightarrow> bool \<Rightarrow> u32 \<Rightarrow> u32 \<Rightarrow> nat" where
  "scan_after text pos len code_points wanted units =
     (if pos < len \<and> units < wanted
      then let (cp, n) = utf8_codepoint_len text pos len
           in scan_after text (pos + n) len code_points wanted
                (units + delete_units_for_codepoint cp code_points)
      else pos)"
  by auto
termination
  by (relation "measure (\<lambda>(text, pos, len, _). len - pos)")
    (simp_all add: codepoint_len_advance)

definition utf8_delete_bytes_after :: "bytes option \<Rightarrow> nat \<Rightarrow> u32 \<Rightarrow> bool \<Rightarrow> u32" where
  "utf8_delete_bytes_after text cursor units_to_delete code_points =
     (case text of None \<Rightarrow> 0
      | Some s \<Rightarrow>
          if units_to_delete = 0 then 0
          else
            let cur = min cursor (length s)
            in of_nat (scan_after s cur (length s) code_points units_to_delete 0 - cur))"

declare count_units.simps [simp del] find_start.simps [simp del] scan_after.simps [simp del]

subsection \<open>Reference encoder\<close>

definition utf8_encode :: "nat \<Rightarrow> bytes" where
  "utf8_encode cp =
     (if cp < 0x80 then [of_nat cp]
      else if cp < 0x800 then [of_nat (0xC0 + cp div 64), of_nat (0x80 + cp mod 64)]
      else if cp < 0x10000
      then [of_nat (0xE0 + cp div 4096), of_nat (0x80 + cp div 64 mod 64), of_nat (0x80 + cp mod 64)]
      else [of_nat (0xF0 + cp div 262144), of_nat (0x80 + cp div 4096 mod 64),
            of_nat (0x80 + cp div 64 mod 64), of_nat (0x80 + cp mod 64)])"

definition utf8_encode_all :: "nat list \<Rightarrow> bytes" where
  "utf8_encode_all cps = concat (map utf8_encode cps)"

definition scalar :: "nat \<Rightarrow> bool" where
  "scalar cp \<longleftrightarrow> cp < 0x110000"

text \<open>The byte-level facts, each over the few values a byte part can take.\<close>

lemma byte_facts:
  "\<forall>a \<in> set [0..<128]. (of_nat a :: u8) < 0x80 \<and> ucast (of_nat a :: u8) = (of_nat a :: u32)"
  "\<forall>a \<in> set [0..<32]. (let c = of_nat (0xC0 + a) :: u8 in \<not> c < 0x80 \<and> c AND 0xE0 = 0xC0 \<and>
     ucast (c AND 0x1F) = (of_nat a :: u32))"
  "\<forall>a \<in> set [0..<16]. (let c = of_nat (0xE0 + a) :: u8 in \<not> c < 0x80 \<and> c AND 0xE0 \<noteq> 0xC0 \<and>
     c AND 0xF0 = 0xE0 \<and> ucast (c AND 0x0F) = (of_nat a :: u32))"
  "\<forall>a \<in> set [0..<8]. (let c = of_nat (0xF0 + a) :: u8 in \<not> c < 0x80 \<and> c AND 0xE0 \<noteq> 0xC0 \<and>
     c AND 0xF0 \<noteq> 0xE0 \<and> c AND 0xF8 = 0xF0 \<and> ucast (c AND 0x07) = (of_nat a :: u32))"
  "\<forall>a \<in> set [0..<64]. (let c = of_nat (0x80 + a) :: u8 in c AND 0xC0 = 0x80 \<and>
     ucast (c AND 0x3F) = (of_nat a :: u32))"
  by code_simp+

lemma byte_lead:
  "a < 128 \<Longrightarrow> (of_nat a :: u8) < 0x80" "a < 128 \<Longrightarrow> ucast (of_nat a :: u8) = (of_nat a :: u32)"
  "a < 32 \<Longrightarrow> \<not> (of_nat (0xC0 + a) :: u8) < 0x80"
  "a < 32 \<Longrightarrow> (of_nat (0xC0 + a) :: u8) AND 0xE0 = 0xC0"
  "a < 32 \<Longrightarrow> ucast ((of_nat (0xC0 + a) :: u8) AND 0x1F) = (of_nat a :: u32)"
  "a < 16 \<Longrightarrow> \<not> (of_nat (0xE0 + a) :: u8) < 0x80"
  "a < 16 \<Longrightarrow> (of_nat (0xE0 + a) :: u8) AND 0xE0 \<noteq> 0xC0"
  "a < 16 \<Longrightarrow> (of_nat (0xE0 + a) :: u8) AND 0xF0 = 0xE0"
  "a < 16 \<Longrightarrow> ucast ((of_nat (0xE0 + a) :: u8) AND 0x0F) = (of_nat a :: u32)"
  "a < 8 \<Longrightarrow> \<not> (of_nat (0xF0 + a) :: u8) < 0x80"
  "a < 8 \<Longrightarrow> (of_nat (0xF0 + a) :: u8) AND 0xE0 \<noteq> 0xC0"
  "a < 8 \<Longrightarrow> (of_nat (0xF0 + a) :: u8) AND 0xF0 \<noteq> 0xE0"
  "a < 8 \<Longrightarrow> (of_nat (0xF0 + a) :: u8) AND 0xF8 = 0xF0"
  "a < 8 \<Longrightarrow> ucast ((of_nat (0xF0 + a) :: u8) AND 0x07) = (of_nat a :: u32)"
  "a < 64 \<Longrightarrow> (of_nat (0x80 + a) :: u8) AND 0xC0 = 0x80"
  "a < 64 \<Longrightarrow> ucast ((of_nat (0x80 + a) :: u8) AND 0x3F) = (of_nat a :: u32)"
  using byte_facts by (simp_all only: Ball_def set_upt atLeastLessThan_iff Let_def zero_le simp_thms)

lemma shifted_or:
  assumes "y < 2 ^ k"
  shows "push_bit k (of_nat x :: u32) OR of_nat y = of_nat (x * 2 ^ k + y)"
proof -
  have "take_bit k (of_nat y :: u32) = of_nat y"
    using assms by (simp add: take_bit_of_nat take_bit_nat_eq_self)
  then have "\<not> bit (of_nat y :: u32) n" if "k \<le> n" for n
    using that by (metis bit_take_bit_iff not_less)
  then have "push_bit k (of_nat x :: u32) OR of_nat y = push_bit k (of_nat x) + of_nat y"
    by (intro disjunctive_add [symmetric]) (auto simp: bit_push_bit_iff)
  then show ?thesis by (simp add: push_bit_eq_mult mult.commute)
qed

lemma push_bit_of_nat_word: "push_bit k (of_nat x :: u32) = of_nat (x * 2 ^ k)"
  by (simp add: push_bit_eq_mult mult.commute)

text \<open>Joining two six-bit groups below a shift.\<close>

lemma or_part:
  "(of_nat (q div 64 * 2 ^ (k + 6)) :: u32) OR of_nat (q mod 64 * 2 ^ k) = of_nat (q * 2 ^ k)"
proof -
  have "q mod 64 * 2 ^ k < 64 * (2::nat) ^ k" by (intro mult_strict_right_mono) simp_all
  then have lt: "q mod 64 * 2 ^ k < (2::nat) ^ (k + 6)" by (simp add: power_add)
  have "q div 64 * 2 ^ (k + 6) + q mod 64 * 2 ^ k = (q div 64 * 64 + q mod 64) * 2 ^ k"
    by (simp only: power_add add_mult_distrib power.simps) simp
  also have "\<dots> = q * 2 ^ k" by simp
  finally have "q div 64 * 2 ^ (k + 6) + q mod 64 * 2 ^ k = q * 2 ^ k" .
  with shifted_or [OF lt, of "q div 64"] show ?thesis by (simp add: push_bit_of_nat_word)
qed

lemma length_utf8_encode: "length (utf8_encode cp) =
    (if cp < 0x80 then 1 else if cp < 0x800 then 2 else if cp < 0x10000 then 3 else 4)"
  by (simp add: utf8_encode_def)

lemma nth_after: "n < length ys \<Longrightarrow> (xs @ ys @ zs) ! (length xs + n) = ys ! n"
  by (simp add: nth_append)

text \<open>The decoder inverts the reference encoder, wherever the sequence stands.\<close>

lemma codepoint_len_encode:
  assumes "scalar cp" "length xs + length (utf8_encode cp) \<le> len"
  shows "utf8_codepoint_len (xs @ utf8_encode cp @ ys) (length xs) len =
    (of_nat cp, length (utf8_encode cp))"
proof -
  let ?t = "xs @ utf8_encode cp @ ys"
  have at: "?t ! (length xs + n) = utf8_encode cp ! n" if "n < length (utf8_encode cp)" for n
    using nth_after that .
  have at0: "?t ! length xs = utf8_encode cp ! 0"
    using at [of 0] by (simp add: length_utf8_encode)
  consider "cp < 0x80" | "0x80 \<le> cp" "cp < 0x800" | "0x800 \<le> cp" "cp < 0x10000" | "0x10000 \<le> cp" "cp < 0x110000"
    using assms(1) unfolding scalar_def by linarith
  then show ?thesis
  proof cases
    case 1
    then show ?thesis
      using at0 byte_lead(1,2) [of cp] by (simp add: utf8_codepoint_len_def utf8_encode_def)
  next
    case 2
    then have a: "cp div 64 < 32" "cp mod 64 < 64" by auto
    have e: "utf8_encode cp = [of_nat (0xC0 + cp div 64), of_nat (0x80 + cp mod 64)]"
      using 2 by (simp add: utf8_encode_def)
    have b: "?t ! length xs = of_nat (0xC0 + cp div 64)" "?t ! (length xs + 1) = of_nat (0x80 + cp mod 64)"
      using at [of 1] at0 by (simp_all add: e)
    have v: "push_bit 6 (of_nat (cp div 64) :: u32) OR of_nat (cp mod 64) = of_nat cp"
      using shifted_or [of "cp mod 64" 6 "cp div 64"] by simp
    have "length xs + 1 < len" using assms(2) e by simp
    then show ?thesis
      unfolding utf8_codepoint_len_def Let_def b using a
      by (simp only: byte_lead if_False if_True simp_thms v e) simp
  next
    case 3
    then have a: "cp div 4096 < 16" "cp div 64 mod 64 < 64" "cp mod 64 < 64" by auto
    have e: "utf8_encode cp = [of_nat (0xE0 + cp div 4096), of_nat (0x80 + cp div 64 mod 64), of_nat (0x80 + cp mod 64)]"
      using 3 by (simp add: utf8_encode_def)
    have b: "?t ! length xs = of_nat (0xE0 + cp div 4096)"
      "?t ! (length xs + 1) = of_nat (0x80 + cp div 64 mod 64)" "?t ! (length xs + 2) = of_nat (0x80 + cp mod 64)"
      using at [of 1] at [of 2] at0 by (simp_all add: e)
    have v: "push_bit 12 (of_nat (cp div 4096) :: u32) OR push_bit 6 (of_nat (cp div 64 mod 64)) OR of_nat (cp mod 64)
        = of_nat cp"
    proof -
      have "cp div 4096 = cp div 64 div 64" by (simp add: div_mult2_eq [of cp 64 64, simplified])
      with or_part [of "cp div 64" 6] shifted_or [of "cp mod 64" 6 "cp div 64"] show ?thesis
        unfolding push_bit_of_nat_word or.assoc [symmetric] by simp
    qed
    have "length xs + 2 < len" "length xs + 1 < len" using assms(2) e by simp_all
    then show ?thesis
      unfolding utf8_codepoint_len_def Let_def b using a
      by (simp only: byte_lead if_False if_True simp_thms v e) simp
  next
    case 4
    then have a: "cp div 262144 < 8" "cp div 4096 mod 64 < 64" "cp div 64 mod 64 < 64" "cp mod 64 < 64" by auto
    have e: "utf8_encode cp = [of_nat (0xF0 + cp div 262144), of_nat (0x80 + cp div 4096 mod 64),
        of_nat (0x80 + cp div 64 mod 64), of_nat (0x80 + cp mod 64)]"
      using 4 by (simp add: utf8_encode_def)
    have b: "?t ! length xs = of_nat (0xF0 + cp div 262144)"
      "?t ! (length xs + 1) = of_nat (0x80 + cp div 4096 mod 64)"
      "?t ! (length xs + 2) = of_nat (0x80 + cp div 64 mod 64)" "?t ! (length xs + 3) = of_nat (0x80 + cp mod 64)"
      using at [of 1] at [of 2] at [of 3] at0 by (simp_all add: e)
    have v: "push_bit 18 (of_nat (cp div 262144) :: u32) OR push_bit 12 (of_nat (cp div 4096 mod 64))
        OR push_bit 6 (of_nat (cp div 64 mod 64)) OR of_nat (cp mod 64) = of_nat cp"
    proof -
      have "cp div 4096 = cp div 64 div 64" "cp div 262144 = cp div 4096 div 64"
        by (simp_all add: div_mult2_eq [of cp 64 64, simplified] div_mult2_eq [of cp 4096 64, simplified])
      with or_part [of "cp div 4096" 12] or_part [of "cp div 64" 6] shifted_or [of "cp mod 64" 6 "cp div 64"]
      show ?thesis unfolding push_bit_of_nat_word or.assoc [symmetric] by simp
    qed
    have "length xs + 3 < len" using assms(2) e by simp_all
    then show ?thesis
      unfolding utf8_codepoint_len_def Let_def b using a
      by (simp only: byte_lead if_False if_True simp_thms v e) simp
  qed
qed

subsection \<open>The loops on encoded text\<close>

text \<open>The units a code point counts for, as a number.\<close>

definition units_of :: "bool \<Rightarrow> nat \<Rightarrow> nat" where
  "units_of code_points cp = (if code_points then 1 else if cp > 0xFFFF then 2 else 1)"

definition units_all :: "bool \<Rightarrow> nat list \<Rightarrow> nat" where
  "units_all m cps = sum_list (map (units_of m) cps)"

lemma units_all_simps [simp]:
  "units_all m [] = 0" "units_all m (cp # cps) = units_of m cp + units_all m cps"
  "units_all m (xs @ ys) = units_all m xs + units_all m ys"
  by (simp_all add: units_all_def)

lemma units_of_bounds: "0 < units_of m cp" "units_of m cp \<le> 2" "units_of True cp = 1"
  by (simp_all add: units_of_def)

lemma units_all_bounds: "length cps \<le> units_all m cps" "units_all m cps \<le> 2 * length cps"
  "units_all True cps = length cps"
proof -
  show "length cps \<le> units_all m cps"
  proof (induction cps)
    case (Cons cp cps)
    then show ?case using units_of_bounds(1) [of m cp] by simp
  qed simp
  show "units_all m cps \<le> 2 * length cps"
  proof (induction cps)
    case (Cons cp cps)
    then show ?case using units_of_bounds(2) [of m cp] by simp
  qed simp
  show "units_all True cps = length cps"
    by (induction cps) (simp_all add: units_of_def)
qed

lemma encode_all_simps [simp]:
  "utf8_encode_all [] = []" "utf8_encode_all (cp # cps) = utf8_encode cp @ utf8_encode_all cps"
  "utf8_encode_all (xs @ ys) = utf8_encode_all xs @ utf8_encode_all ys"
  by (simp_all add: utf8_encode_all_def)

lemma delete_units_of_nat:
  "scalar cp \<Longrightarrow> delete_units_for_codepoint (of_nat cp) m = of_nat (units_of m cp)"
  by (auto simp: delete_units_for_codepoint_def units_of_def scalar_def word_less_nat_alt unat_of_nat)

lemma encode_nonempty: "0 < length (utf8_encode cp)"
  by (simp add: length_utf8_encode)

lemma length_encode_all: "length cps \<le> length (utf8_encode_all cps)"
proof (induction cps)
  case (Cons cp cps)
  then show ?case
    using encode_nonempty [of cp] unfolding encode_all_simps length_append list.size by linarith
qed simp

lemma count_units_encode:
  "\<lbrakk>list_all scalar cps; cursor = length xs + length (utf8_encode_all cps)\<rbrakk> \<Longrightarrow>
   count_units (xs @ utf8_encode_all cps @ ys) (length xs) cursor m t = t + of_nat (units_all m cps)"
proof (induction cps arbitrary: xs t)
  case Nil
  then show ?case by (simp add: count_units.simps)
next
  case (Cons cp cps)
  have d: "utf8_codepoint_len (xs @ utf8_encode cp @ utf8_encode_all cps @ ys) (length xs) cursor =
      (of_nat cp, length (utf8_encode cp))"
    using Cons.prems by (intro codepoint_len_encode) simp_all
  have lt: "length xs < cursor" using Cons.prems(2) encode_nonempty [of cp] by simp
  have "count_units (xs @ utf8_encode_all (cp # cps) @ ys) (length xs) cursor m t =
      count_units ((xs @ utf8_encode cp) @ utf8_encode_all cps @ ys) (length (xs @ utf8_encode cp)) cursor m
        (t + delete_units_for_codepoint (of_nat cp) m)"
    by (subst count_units.simps) (use lt d in simp)
  also have "\<dots> = t + of_nat (units_of m cp) + of_nat (units_all m cps)"
    using Cons.prems Cons.IH [of "xs @ utf8_encode cp"] by (simp add: delete_units_of_nat)
  finally show ?case by (simp add: algebra_simps)
qed

text \<open>Which code points stay before the cursor when \<open>target\<close> units may stay.\<close>

fun keep_units :: "bool \<Rightarrow> nat \<Rightarrow> nat list \<Rightarrow> nat list" where
  "keep_units m target [] = []"
| "keep_units m target (cp # cps) =
     (if units_of m cp \<le> target then cp # keep_units m (target - units_of m cp) cps else [])"

lemma find_start_encode:
  assumes "list_all scalar cps" "cursor = length xs + length (utf8_encode_all cps)"
    "units + units_all m cps < 2 ^ 32" "units \<le> target" "target < 2 ^ 32"
  shows "find_start (xs @ utf8_encode_all cps @ ys) (length xs) cursor m (of_nat target) (of_nat units)
      (length xs) = length xs + length (utf8_encode_all (keep_units m (target - units) cps))"
  using assms
proof (induction cps arbitrary: xs units)
  case Nil
  then show ?case by (simp add: find_start.simps)
next
  case (Cons cp cps)
  have d: "utf8_codepoint_len (xs @ utf8_encode cp @ utf8_encode_all cps @ ys) (length xs) cursor =
      (of_nat cp, length (utf8_encode cp))"
    using Cons.prems by (intro codepoint_len_encode) simp_all
  have lt: "length xs < cursor" using Cons.prems(2) encode_nonempty [of cp] by simp
  have le: "(of_nat units + of_nat (units_of m cp) \<le> (of_nat target :: u32)) =
      (units_of m cp \<le> target - units)"
  proof -
    have "(of_nat (units + units_of m cp) \<le> (of_nat target :: u32)) = (units + units_of m cp \<le> target)"
      using Cons.prems(3,5) by (simp add: word_le_nat_alt unat_of_nat del: of_nat_add)
    with Cons.prems(4) show ?thesis by auto
  qed
  have step: "find_start (xs @ utf8_encode_all (cp # cps) @ ys) (length xs) cursor m (of_nat target)
      (of_nat units) (length xs) =
    (if units_of m cp \<le> target - units
     then find_start ((xs @ utf8_encode cp) @ utf8_encode_all cps @ ys) (length (xs @ utf8_encode cp))
        cursor m (of_nat target) (of_nat (units + units_of m cp)) (length (xs @ utf8_encode cp))
     else length xs)"
    using Cons.prems(1) by (subst find_start.simps) (use lt d le in \<open>simp add: delete_units_of_nat\<close>)
  show ?case
  proof (cases "units_of m cp \<le> target - units")
    case True
    have "find_start ((xs @ utf8_encode cp) @ utf8_encode_all cps @ ys) (length (xs @ utf8_encode cp))
        cursor m (of_nat target) (of_nat (units + units_of m cp)) (length (xs @ utf8_encode cp)) =
      length (xs @ utf8_encode cp) +
        length (utf8_encode_all (keep_units m (target - (units + units_of m cp)) cps))"
      using Cons.prems True by (intro Cons.IH) simp_all
    with True step show ?thesis by simp
  next
    case False
    then show ?thesis using step by simp
  qed
qed

lemma keep_units_prefix:
  "\<exists>dropped. cps = keep_units m target cps @ dropped \<and> units_all m (keep_units m target cps) \<le> target \<and>
     (\<forall>d ds. dropped = d # ds \<longrightarrow> target < units_all m (keep_units m target cps) + units_of m d)"
proof (induction cps arbitrary: target)
  case (Cons cp cps)
  show ?case
  proof (cases "units_of m cp \<le> target")
    case True
    from Cons.IH [of "target - units_of m cp"] True show ?thesis by auto
  qed auto
qed simp

text \<open>Which code points after the cursor go when \<open>n\<close> units are wanted.\<close>

fun take_units :: "bool \<Rightarrow> nat \<Rightarrow> nat list \<Rightarrow> nat list" where
  "take_units m n [] = []"
| "take_units m n (cp # cps) = (if n = 0 then [] else cp # take_units m (n - units_of m cp) cps)"

lemma scan_after_encode:
  assumes "list_all scalar cps" "len = length xs + length (utf8_encode_all cps)"
    "units + units_all m cps < 2 ^ 32" "n < 2 ^ 32"
  shows "scan_after (xs @ utf8_encode_all cps) (length xs) len m (of_nat n) (of_nat units) =
    length xs + length (utf8_encode_all (take_units m (n - units) cps))"
  using assms
proof (induction cps arbitrary: xs units)
  case Nil
  then show ?case by (simp add: scan_after.simps)
next
  case (Cons cp cps)
  have d: "utf8_codepoint_len (xs @ utf8_encode cp @ utf8_encode_all cps) (length xs) len =
      (of_nat cp, length (utf8_encode cp))"
    using Cons.prems by (intro codepoint_len_encode) simp_all
  have lt: "length xs < len" using Cons.prems(2) encode_nonempty [of cp] by simp
  have le: "((of_nat units :: u32) < of_nat n) = (units < n)"
    using Cons.prems(3,4) by (simp add: word_less_nat_alt unat_of_nat)
  have step: "scan_after (xs @ utf8_encode_all (cp # cps)) (length xs) len m (of_nat n) (of_nat units) =
    (if units < n
     then scan_after ((xs @ utf8_encode cp) @ utf8_encode_all cps) (length (xs @ utf8_encode cp)) len m
        (of_nat n) (of_nat (units + units_of m cp))
     else length xs)"
    using Cons.prems(1) by (subst scan_after.simps) (use lt d le in \<open>simp add: delete_units_of_nat\<close>)
  show ?case
  proof (cases "units < n")
    case True
    have "scan_after ((xs @ utf8_encode cp) @ utf8_encode_all cps) (length (xs @ utf8_encode cp)) len m
        (of_nat n) (of_nat (units + units_of m cp)) =
      length (xs @ utf8_encode cp) +
        length (utf8_encode_all (take_units m (n - (units + units_of m cp)) cps))"
      using Cons.prems by (intro Cons.IH) simp_all
    with True step show ?thesis by simp
  next
    case False
    then show ?thesis using step by simp
  qed
qed

lemma take_units_prefix:
  "\<exists>kept. cps = take_units m n cps @ kept \<and> (n \<le> units_all m (take_units m n cps) \<or> kept = []) \<and>
     (take_units m n cps \<noteq> [] \<longrightarrow> units_all m (butlast (take_units m n cps)) < n)"
proof (induction cps arbitrary: n)
  case (Cons cp cps)
  show ?case
  proof (cases "n = 0")
    case False
    let ?k = "n - units_of m cp"
    from Cons.IH [of ?k] obtain kept where k: "cps = take_units m ?k cps @ kept"
      "?k \<le> units_all m (take_units m ?k cps) \<or> kept = []"
      "take_units m ?k cps \<noteq> [] \<longrightarrow> units_all m (butlast (take_units m ?k cps)) < ?k" by blast
    have "units_all m (butlast (cp # take_units m ?k cps)) < n"
      using k(3) False by (cases "take_units m ?k cps = []") auto
    with k False show ?thesis by auto
  qed simp
qed simp

subsection \<open>Properties\<close>

lemma delete_bytes_before_keep:
  assumes "list_all scalar before" "2 * length before < 2 ^ 32" "n \<noteq> 0"
  shows "utf8_delete_bytes_before (Some (utf8_encode_all before @ rest)) (length (utf8_encode_all before)) n m =
    of_nat (length (utf8_encode_all before) -
      length (utf8_encode_all (keep_units m (units_all m before - unat n) before)))"
proof -
  let ?cur = "length (utf8_encode_all before)" and ?T = "units_all m before"
  let ?s = "utf8_encode_all before @ rest"
  let ?target = "?T - unat n"
  have T: "?T < 2 ^ 32" using units_all_bounds(2) [of m before] assms(2) by linarith
  have c: "count_units ?s 0 ?cur m 0 = of_nat ?T"
    using count_units_encode [OF assms(1), of ?cur "[]" rest m 0] by simp
  have t: "(if of_nat ?T > n then of_nat ?T - n else 0) = (of_nat ?target :: u32)"
  proof (cases "unat n < ?T")
    case True
    then have "n < of_nat ?T" using T by (simp add: word_less_nat_alt unat_of_nat)
    then show ?thesis using True by (simp add: of_nat_diff)
  next
    case False
    then have "\<not> n < of_nat ?T" using T by (simp add: word_less_nat_alt unat_of_nat)
    then show ?thesis using False by simp
  qed
  have f: "find_start ?s 0 ?cur m (of_nat ?target) 0 0 =
      length (utf8_encode_all (keep_units m ?target before))"
    using find_start_encode [OF assms(1), of ?cur "[]" 0 m ?target rest] T by simp
  have "min ?cur (length ?s) = ?cur" by simp
  then show ?thesis
    unfolding utf8_delete_bytes_before_def Let_def option.case if_not_P [OF assms(3)]
    by (simp only: c t f)
qed

text \<open>
  C16: On well-formed text with the cursor between two code points, the bytes to delete before the
  cursor are those of the shortest run of whole code points just before the cursor that makes up the
  requested units, or of everything when there are fewer; with code-point counting that is exactly
  the requested number of code points. No code point is ever split, so the protocol's requirement
  that the byte counts end at code-point boundaries holds.
\<close>

theorem delete_before_spec:
  assumes "list_all scalar before" "2 * length before < 2 ^ 32" "n \<noteq> 0"
  shows "\<exists>kept dropped. before = kept @ dropped \<and>
    utf8_delete_bytes_before (Some (utf8_encode_all before @ rest)) (length (utf8_encode_all before)) n m
      = of_nat (length (utf8_encode_all dropped)) \<and>
    (unat n \<le> units_all m dropped \<or> kept = []) \<and>
    (dropped \<noteq> [] \<longrightarrow> units_all m (tl dropped) < unat n) \<and>
    (m \<longrightarrow> length dropped = min (unat n) (length before))"
proof -
  let ?cur = "length (utf8_encode_all before)" and ?T = "units_all m before"
  let ?s = "utf8_encode_all before @ rest"
  let ?target = "?T - unat n"
  obtain dropped where dr: "before = keep_units m ?target before @ dropped"
    "units_all m (keep_units m ?target before) \<le> ?target"
    "\<And>d ds. dropped = d # ds \<Longrightarrow> ?target < units_all m (keep_units m ?target before) + units_of m d"
    using keep_units_prefix [of before m ?target] by blast
  define kept where "kept = keep_units m ?target before"
  note dr = dr [folded kept_def]
  have sum: "?T = units_all m kept + units_all m dropped" by (subst dr(1)) simp
  have "?cur - length (utf8_encode_all kept) = length (utf8_encode_all dropped)" by (subst dr(1)) simp
  then have res: "utf8_delete_bytes_before (Some ?s) ?cur n m = of_nat (length (utf8_encode_all dropped))"
    using delete_bytes_before_keep [OF assms, of rest m] by (simp only: kept_def)
  have enough: "unat n \<le> units_all m dropped \<or> kept = []"
  proof (cases "unat n \<le> ?T")
    case True
    then show ?thesis using sum dr(2) by linarith
  next
    case False
    then have "units_all m kept = 0" using dr(2) by simp
    then show ?thesis using units_all_bounds(1) [of kept m] by simp
  qed
  have shortest: "units_all m (tl dropped) < unat n" if ne: "dropped \<noteq> []"
  proof -
    obtain d ds where d: "dropped = d # ds" using ne by (cases dropped) auto
    have "unat n > 0" using assms(3) by (simp add: unat_gt_0)
    then show ?thesis using dr(3) [OF d] sum d by simp
  qed
  have exact: "length dropped = min (unat n) (length before)" if "m"
  proof -
    have u: "units_all m xs = length xs" for xs using that units_all_bounds(3) [of xs] by simp
    have "length before = length kept + length dropped" by (subst dr(1)) simp
    then show ?thesis using enough shortest unfolding u by (cases dropped) auto
  qed
  show ?thesis
    using dr(1) res enough shortest exact by (intro exI [of _ kept] exI [of _ dropped] conjI impI) auto
qed

theorem delete_before_spec_witness:
  "utf8_delete_bytes_before (Some (utf8_encode_all [65, 0x1F600])) 5 1 True = 4"
proof -
  have "utf8_delete_bytes_before (Some (utf8_encode_all [65, 0x1F600] @ []))
      (length (utf8_encode_all [65, 0x1F600])) 1 True = 4"
    using delete_before_spec [of "[65, 0x1F600]" 1 "[]" True]
    by (auto simp: scalar_def length_utf8_encode Cons_eq_append_conv)
  then show ?thesis by (simp add: length_utf8_encode)
qed

text \<open>
  After the cursor, likewise: the shortest run of whole code points that makes up the requested
  units.
\<close>

theorem delete_after_spec:
  assumes "list_all scalar after" "2 * length after < 2 ^ 32" "n \<noteq> 0"
  shows "\<exists>dropped kept. after = dropped @ kept \<and>
    utf8_delete_bytes_after (Some (front @ utf8_encode_all after)) (length front) n m
      = of_nat (length (utf8_encode_all dropped)) \<and>
    (unat n \<le> units_all m dropped \<or> kept = []) \<and>
    (dropped \<noteq> [] \<longrightarrow> units_all m (butlast dropped) < unat n) \<and>
    (m \<longrightarrow> length dropped = min (unat n) (length after))"
proof -
  have T: "units_all m after < 2 ^ 32" using units_all_bounds(2) [of m after] assms(2) by linarith
  have "unat n < 2 ^ 32" using unsigned_less [of n] by simp
  with scan_after_encode [OF assms(1), of _ front 0 m "unat n"] T
  have sc: "scan_after (front @ utf8_encode_all after) (length front)
      (length front + length (utf8_encode_all after)) m n 0 =
      length front + length (utf8_encode_all (take_units m (unat n) after))" by simp
  define dropped where "dropped = take_units m (unat n) after"
  obtain kept where k: "after = dropped @ kept" "unat n \<le> units_all m dropped \<or> kept = []"
    "dropped \<noteq> [] \<longrightarrow> units_all m (butlast dropped) < unat n"
    using take_units_prefix [of after m "unat n"] unfolding dropped_def by blast
  have res: "utf8_delete_bytes_after (Some (front @ utf8_encode_all after)) (length front) n m
      = of_nat (length (utf8_encode_all dropped))"
    using assms(3) sc by (simp add: utf8_delete_bytes_after_def Let_def dropped_def)
  have exact: "length dropped = min (unat n) (length after)" if "m"
  proof -
    have u: "units_all m xs = length xs" for xs using that units_all_bounds(3) [of xs] by simp
    have "length after = length dropped + length kept" by (subst k(1)) simp
    then show ?thesis using k(2,3) unfolding u by (cases "dropped = []") auto
  qed
  show ?thesis
    using k res exact by (intro exI [of _ dropped] exI [of _ kept] conjI impI) auto
qed

theorem delete_after_spec_witness:
  "utf8_delete_bytes_after (Some ([65] @ utf8_encode_all [0x1F600, 66])) 1 1 False = 4"
  using delete_after_spec [of "[0x1F600, 66]" 1 "[65]" False]
  by (auto simp: scalar_def length_utf8_encode Cons_eq_append_conv append_eq_Cons_conv units_of_def)

lemma codepoint_len_le: "pos < len \<Longrightarrow> pos + snd (utf8_codepoint_len text pos len) \<le> len"
  by (simp add: utf8_codepoint_len_def Let_def)

lemma find_start_le:
  "\<lbrakk>start \<le> cursor\<rbrakk> \<Longrightarrow> find_start text pos cursor m target units start \<le> cursor"
proof (induction "text" pos cursor m target units start rule: find_start.induct)
  case (1 "text" pos cursor m target units start)
  obtain cp n where d: "utf8_codepoint_len text pos cursor = (cp, n)" by fastforce
  then have "pos < cursor \<Longrightarrow> pos + n \<le> cursor" using codepoint_len_le [of pos cursor "text"] by simp
  then show ?case
    using 1 d by (subst find_start.simps) (simp add: Let_def)
qed

lemma scan_after_le:
  "pos \<le> len \<Longrightarrow> pos \<le> scan_after text pos len m wanted units \<and> scan_after text pos len m wanted units \<le> len"
proof (induction "text" pos len m wanted units rule: scan_after.induct)
  case (1 "text" pos len m wanted units)
  obtain cp n where d: "utf8_codepoint_len text pos len = (cp, n)" by fastforce
  then have "pos < len \<Longrightarrow> pos + n \<le> len" using codepoint_len_le [of pos len "text"] by simp
  then show ?case
    using 1 d add_leD1 by (subst (1 2) scan_after.simps) (auto simp: Let_def intro: le_trans [OF le_add1])
qed

text \<open>
  On any bytes and any cursor, well-formed or not, the byte counts never reach beyond the text:
  before the cursor at most the bytes up to it, after the cursor at most the bytes that follow.
\<close>

theorem delete_counts_bounded:
  "unat (utf8_delete_bytes_before (Some s) cursor n m) \<le> min cursor (length s) \<and>
   min cursor (length s) + unat (utf8_delete_bytes_after (Some s) cursor n m) \<le> length s"
proof -
  have of_nat_le: "unat (of_nat k :: u32) \<le> k" for k
    by (simp add: unat_of_nat)
  have "unat (utf8_delete_bytes_before (Some s) cursor n m) \<le> min cursor (length s)"
  proof (cases "n = 0")
    case False
    show ?thesis
      unfolding utf8_delete_bytes_before_def Let_def option.case if_not_P [OF False]
      by (rule le_trans [OF of_nat_le diff_le_self])
  qed (simp add: utf8_delete_bytes_before_def)
  moreover have "min cursor (length s) + unat (utf8_delete_bytes_after (Some s) cursor n m) \<le> length s"
  proof -
    let ?c = "min cursor (length s)"
    have sc: "?c \<le> scan_after s ?c (length s) m n 0 \<and> scan_after s ?c (length s) m n 0 \<le> length s"
      by (rule scan_after_le) simp
    have "unat (of_nat (scan_after s ?c (length s) m n 0 - ?c) :: u32) \<le> scan_after s ?c (length s) m n 0 - ?c"
      by (rule of_nat_le)
    with sc have "?c + unat (of_nat (scan_after s ?c (length s) m n 0 - ?c) :: u32) \<le> length s"
      by linarith
    then show ?thesis
      by (cases "n = 0") (simp_all add: utf8_delete_bytes_after_def Let_def del: of_nat_diff)
  qed
  ultimately show ?thesis by simp
qed

end
