(* ===== verification/TextInput.thy ===== *)
theory TextInput
  imports WlSeat
begin

text \<open>
  The text-input-v3 objects of \<^verbatim>\<open>compositor/native/src/text_input_handler.c\<close>: the per-resource state
  with its pending and committed halves, the request handlers, the routing of keyboard focus to
  enter and leave events, and the \<^verbatim>\<open>'S'\<close>/\<^verbatim>\<open>'H'\<close> commands that show and hide the Android
  keyboard.
\<close>

subsection \<open>State\<close>

text \<open>A cursor rectangle: x, y, width, height.\<close>

type_synonym rect = "s32 \<times> s32 \<times> s32 \<times> s32"

text \<open>
  \<^verbatim>\<open>struct text_input\<close>. The object is identified by its resource; \<open>ti_client\<close> is the client that
  owns it; a \<^verbatim>\<open>char *\<close> is \<^const>\<open>None\<close> when \<^verbatim>\<open>NULL\<close>.
\<close>

record text_input =
  ti_res :: nat
  ti_client :: nat
  ti_pending_enabled :: bool
  ti_current_enabled :: bool
  ti_serial :: u32
  ti_entered :: bool
  ti_entered_surface :: "surface option"
  ti_surrounding :: "bytes option"
  ti_cursor :: int
  ti_anchor :: int
  ti_pending_surrounding :: "bytes option"
  ti_pending_cursor :: int
  ti_pending_anchor :: int
  ti_pending_set :: bool
  ti_pending_rect_set :: bool
  ti_pending_rect :: rect
  ti_rect_set :: bool
  ti_rect :: rect

text \<open>
  The statics of the file, on top of the compositor: the list of objects, the active one, the
  atomic flag the JNI thread reads, the server pointer (set or not), the surface with text focus,
  the surface whose destroy signal the listener is linked to, and the write end of the IME pipe.
\<close>

record text_state = compositor +
  ts_inputs :: "text_input list"
  ts_active :: "nat option"
  ts_committed :: bool
  ts_server :: bool
  ts_focused :: "surface option"
  ts_listener :: "surface option"
  ts_ime_fd :: int

definition ti_find :: "nat \<Rightarrow> 'a text_state_scheme \<Rightarrow> text_input option" where
  "ti_find i st = find (\<lambda>t. ti_res t = i) (ts_inputs st)"

definition ti_update :: "nat \<Rightarrow> (text_input \<Rightarrow> text_input) \<Rightarrow> 'a text_state_scheme \<Rightarrow> 'a text_state_scheme" where
  "ti_update i f st =
     st\<lparr>ts_inputs := map (\<lambda>t. if ti_res t = i then f t else t) (ts_inputs st)\<rparr>"

text \<open>\<^verbatim>\<open>set_active_text_input(ti)\<close>: the pointer and the flag, from the object's current state.\<close>

definition set_active_text_input :: "nat option \<Rightarrow> 'a text_state_scheme \<Rightarrow> 'a text_state_scheme" where
  "set_active_text_input i st =
     st\<lparr>ts_active := i,
        ts_committed := (case i of None \<Rightarrow> False
                          | Some n \<Rightarrow> (case ti_find n st of None \<Rightarrow> False
                                        | Some t \<Rightarrow> ti_current_enabled t))\<rparr>"

definition text_input_has_active_text_input :: "'a text_state_scheme \<Rightarrow> bool" where
  "text_input_has_active_text_input st = ts_committed st"

text \<open>A command is written only when the pipe exists; a full pipe loses it silently.\<close>

definition request_ime_command :: "char \<Rightarrow> 'a text_state_scheme \<Rightarrow> 'a text_state_scheme" where
  "request_ime_command c st = (if ts_ime_fd st < 0 then st else wl_emit (ImeCmd c) st)"

definition request_ime_show :: "'a text_state_scheme \<Rightarrow> 'a text_state_scheme" where
  "request_ime_show st = request_ime_command (CHR ''S'') st"

definition request_ime_hide :: "'a text_state_scheme \<Rightarrow> 'a text_state_scheme" where
  "request_ime_hide st = request_ime_command (CHR ''H'') st"

subsection \<open>Clearing an object's state\<close>

definition clear_committed_surrounding_text_state :: "text_input \<Rightarrow> text_input" where
  "clear_committed_surrounding_text_state t =
     t\<lparr>ti_surrounding := None, ti_cursor := 0, ti_anchor := 0\<rparr>"

definition clear_surrounding_text_state :: "text_input \<Rightarrow> text_input" where
  "clear_surrounding_text_state t =
     (clear_committed_surrounding_text_state t)
       \<lparr>ti_pending_surrounding := None, ti_pending_cursor := 0, ti_pending_anchor := 0,
        ti_pending_set := False\<rparr>"

definition clear_pending_text_input_state :: "text_input \<Rightarrow> text_input" where
  "clear_pending_text_input_state t =
     t\<lparr>ti_pending_enabled := False, ti_pending_rect_set := False, ti_pending_rect := (0, 0, 0, 0)\<rparr>"

definition clear_committed_text_input_state :: "text_input \<Rightarrow> text_input" where
  "clear_committed_text_input_state t =
     t\<lparr>ti_current_enabled := False, ti_rect_set := False, ti_rect := (0, 0, 0, 0)\<rparr>"

definition reset_text_input_request_state :: "text_input \<Rightarrow> text_input" where
  "reset_text_input_request_state t =
     clear_surrounding_text_state (clear_committed_text_input_state (clear_pending_text_input_state t))"

subsection \<open>Keyboard focus\<close>

definition text_input_matches_surface_client :: "text_input \<Rightarrow> surface \<Rightarrow> bool" where
  "text_input_matches_surface_client t s \<longleftrightarrow> su_resource s = Some (ti_client t)"

definition send_leave_event :: "text_input \<Rightarrow> bool \<Rightarrow> 'a text_state_scheme \<Rightarrow> 'a text_state_scheme" where
  "send_leave_event t send_leave st =
     (case ti_entered_surface t of
        Some s \<Rightarrow> (if send_leave \<and> su_resource s \<noteq> None then wl_emit (TiLeave (ti_res t) s) st else st)
      | None \<Rightarrow> st)"

definition maybe_send_leave :: "nat \<Rightarrow> bool \<Rightarrow> 'a text_state_scheme \<Rightarrow> 'a text_state_scheme" where
  "maybe_send_leave i send_leave st =
     (case ti_find i st of
        None \<Rightarrow> st
      | Some t \<Rightarrow>
         if \<not> ti_entered t then st
         else
           let was_enabled = ti_current_enabled t;
               st1 = send_leave_event t send_leave st;
               st2 = ti_update i (\<lambda>t. t\<lparr>ti_entered := False, ti_entered_surface := None\<rparr>) st1;
               st3 = (if ts_active st2 = Some i
                      then let st' = set_active_text_input None st2
                           in if was_enabled \<and> ts_server st' then request_ime_hide st' else st'
                      else st2)
           in ti_update i reset_text_input_request_state st3)"

definition leave_if_on :: "surface option \<Rightarrow> bool \<Rightarrow> nat \<Rightarrow> 'a text_state_scheme \<Rightarrow> 'a text_state_scheme" where
  "leave_if_on surface send_leave i st =
     (case ti_find i st of
        None \<Rightarrow> st
      | Some t \<Rightarrow> if ti_entered t \<and> (surface = None \<or> ti_entered_surface t = surface)
                   then maybe_send_leave i send_leave st else st)"

definition clear_text_input_focus :: "surface option \<Rightarrow> bool \<Rightarrow> 'a text_state_scheme \<Rightarrow> 'a text_state_scheme" where
  "clear_text_input_focus surface send_leave st =
     (let st1 = fold (leave_if_on surface send_leave) (map ti_res (ts_inputs st)) st
      in if surface = None \<or> ts_focused st1 = surface
         then st1\<lparr>ts_focused := None, ts_listener := None\<rparr> else st1)"

text \<open>The destroy signal of a surface reaches the listener only when it is linked there.\<close>

definition handle_focused_text_input_surface_destroy ::
    "surface \<Rightarrow> 'a text_state_scheme \<Rightarrow> 'a text_state_scheme" where
  "handle_focused_text_input_surface_destroy surface st = clear_text_input_focus (Some surface) False st"

definition surface_destroyed :: "surface \<Rightarrow> 'a text_state_scheme \<Rightarrow> 'a text_state_scheme" where
  "surface_destroyed surface st =
     (if ts_listener st = Some surface
      then handle_focused_text_input_surface_destroy surface st else st)"

definition text_input_handle_keyboard_leave ::
    "surface option \<Rightarrow> 'a text_state_scheme \<Rightarrow> 'a text_state_scheme" where
  "text_input_handle_keyboard_leave surface st = clear_text_input_focus surface True st"

definition enter_if_client :: "surface \<Rightarrow> nat \<Rightarrow> 'a text_state_scheme \<Rightarrow> 'a text_state_scheme" where
  "enter_if_client surface i st =
     (case ti_find i st of
        None \<Rightarrow> st
      | Some t \<Rightarrow>
         if \<not> text_input_matches_surface_client t surface then st
         else wl_emit (TiEnter i surface)
                (ti_update i (\<lambda>t. (reset_text_input_request_state t)
                    \<lparr>ti_entered := True, ti_entered_surface := Some surface\<rparr>) st))"

definition text_input_handle_keyboard_enter ::
    "surface option \<Rightarrow> 'a text_state_scheme \<Rightarrow> 'a text_state_scheme" where
  "text_input_handle_keyboard_enter surface st =
     (case surface of
        None \<Rightarrow> st
      | Some s \<Rightarrow>
         if su_resource s = None then st
         else if ts_focused st = Some s then st
         else
           let st1 = clear_text_input_focus None True st;
               st2 = st1\<lparr>ts_focused := Some s, ts_listener := Some s\<rparr>
           in fold (enter_if_client s) (map ti_res (ts_inputs st2)) st2)"

subsection \<open>Requests\<close>

text \<open>The frame of every request handler: no object, or an object without focus.\<close>

definition ti_enable :: "nat \<Rightarrow> 'a text_state_scheme \<Rightarrow> 'a text_state_scheme" where
  "ti_enable i st = (case ti_find i st of
      None \<Rightarrow> st
    | Some t \<Rightarrow> if \<not> ti_entered t then st
        else ti_update i (\<lambda>t. (clear_committed_surrounding_text_state t)\<lparr>ti_pending_enabled := True\<rparr>) st)"

definition ti_disable :: "nat \<Rightarrow> 'a text_state_scheme \<Rightarrow> 'a text_state_scheme" where
  "ti_disable i st = (case ti_find i st of
      None \<Rightarrow> st
    | Some t \<Rightarrow> if \<not> ti_entered t then st
        else ti_update i (\<lambda>t. (clear_committed_surrounding_text_state t)\<lparr>ti_pending_enabled := False\<rparr>) st)"

text \<open>The clamp of a position to the text, with the C cast \<^verbatim>\<open>(int32_t)len\<close>.\<close>

definition clamp_position :: "int \<Rightarrow> nat \<Rightarrow> int" where
  "clamp_position p len =
     (let len32 = sint (of_nat len :: s32)
      in if p < 0 then 0 else if p > len32 then len32 else p)"

definition ti_set_surrounding_text ::
    "nat \<Rightarrow> bool \<Rightarrow> bytes option \<Rightarrow> int \<Rightarrow> int \<Rightarrow> 'a text_state_scheme \<Rightarrow> 'a text_state_scheme" where
  "ti_set_surrounding_text i strdup_ok text cursor anchor st = (case ti_find i st of
      None \<Rightarrow> st
    | Some t \<Rightarrow>
        if \<not> ti_entered t then st
        else if \<not> strdup_ok then st
        else
          let copy = (case text of None \<Rightarrow> [] | Some s \<Rightarrow> s); len = length copy
          in ti_update i (\<lambda>t. t\<lparr>ti_pending_surrounding := Some copy,
                 ti_pending_cursor := clamp_position cursor len,
                 ti_pending_anchor := clamp_position anchor len,
                 ti_pending_set := True\<rparr>) st)"

definition ti_set_cursor_rectangle :: "nat \<Rightarrow> rect \<Rightarrow> 'a text_state_scheme \<Rightarrow> 'a text_state_scheme" where
  "ti_set_cursor_rectangle i r st = (case ti_find i st of
      None \<Rightarrow> st
    | Some t \<Rightarrow> if \<not> ti_entered t then st
        else ti_update i (\<lambda>t. t\<lparr>ti_pending_rect_set := True, ti_pending_rect := r\<rparr>) st)"

definition commit_surrounding :: "text_input \<Rightarrow> text_input" where
  "commit_surrounding t =
     (if ti_pending_set t
      then t\<lparr>ti_surrounding := ti_pending_surrounding t, ti_cursor := ti_pending_cursor t,
             ti_anchor := ti_pending_anchor t, ti_pending_surrounding := None,
             ti_pending_cursor := 0, ti_pending_anchor := 0, ti_pending_set := False\<rparr>
      else t)"

definition commit_rectangle :: "text_input \<Rightarrow> text_input" where
  "commit_rectangle t =
     (if ti_pending_rect_set t
      then t\<lparr>ti_rect_set := True, ti_rect := ti_pending_rect t, ti_pending_rect_set := False\<rparr>
      else t)"

definition ti_commit :: "nat \<Rightarrow> 'a text_state_scheme \<Rightarrow> 'a text_state_scheme" where
  "ti_commit i st = (case ti_find i st of
      None \<Rightarrow> st
    | Some t \<Rightarrow>
        if \<not> ti_entered t
        then ti_update i (\<lambda>t. clear_surrounding_text_state (clear_pending_text_input_state t)) st
        else
          let was_enabled = ti_current_enabled t;
              was_active = (ts_active st = Some i);
              st1 = ti_update i (\<lambda>t. commit_surrounding
                      (t\<lparr>ti_serial := ti_serial t + 1, ti_current_enabled := ti_pending_enabled t\<rparr>)) st;
              st2 = (if ti_pending_enabled t
                     then let st' = set_active_text_input (Some i) st1
                          in if \<not> was_enabled \<and> ts_server st' then request_ime_show st' else st'
                     else let st' = (if was_active
                                     then let st'' = set_active_text_input None st1
                                          in if was_enabled \<and> ts_server st''
                                             then request_ime_hide st'' else st''
                                     else st1)
                          in ti_update i clear_surrounding_text_state st')
          in ti_update i commit_rectangle st2)"

definition ti_resource_destroy :: "nat \<Rightarrow> 'a text_state_scheme \<Rightarrow> 'a text_state_scheme" where
  "ti_resource_destroy i st = (case ti_find i st of
      None \<Rightarrow> st
    | Some t \<Rightarrow>
        let st1 = (if ts_active st = Some i
                   then let st' = set_active_text_input None st
                        in if ti_current_enabled t \<and> ts_server st' then request_ime_hide st' else st'
                   else st)
        in st1\<lparr>ts_inputs := filter (\<lambda>t. ti_res t \<noteq> i) (ts_inputs st1)\<rparr>)"

text \<open>\<^verbatim>\<open>calloc\<close>: every field zero but the resource.\<close>

definition new_text_input :: "nat \<Rightarrow> nat \<Rightarrow> text_input" where
  "new_text_input i client =
     \<lparr>ti_res = i, ti_client = client, ti_pending_enabled = False, ti_current_enabled = False,
      ti_serial = 0, ti_entered = False, ti_entered_surface = None, ti_surrounding = None,
      ti_cursor = 0, ti_anchor = 0, ti_pending_surrounding = None, ti_pending_cursor = 0,
      ti_pending_anchor = 0, ti_pending_set = False, ti_pending_rect_set = False,
      ti_pending_rect = (0, 0, 0, 0), ti_rect_set = False, ti_rect = (0, 0, 0, 0)\<rparr>"

text \<open>
  \<^verbatim>\<open>get_text_input\<close>: \<open>alloc_ok\<close> says whether \<^verbatim>\<open>calloc\<close> and \<^verbatim>\<open>wl_resource_create\<close> succeed (on
  failure the client gets \<^verbatim>\<open>no_memory\<close> and nothing is kept).
\<close>

definition manager_get_text_input ::
    "bool \<Rightarrow> nat \<Rightarrow> nat \<Rightarrow> 'a text_state_scheme \<Rightarrow> 'a text_state_scheme" where
  "manager_get_text_input alloc_ok client i st =
     (if \<not> alloc_ok then st
      else
        let t = new_text_input i client;
            st1 = st\<lparr>ts_inputs := t # ts_inputs st\<rparr>
        in case ts_focused st1 of
             None \<Rightarrow> st1
           | Some s \<Rightarrow>
               if text_input_matches_surface_client t s
               then wl_emit (TiEnter i s)
                      (ti_update i (\<lambda>t. t\<lparr>ti_entered := True, ti_entered_surface := Some s\<rparr>) st1)
               else st1)"

end
