(* ===== verification/TextInputInv.thy ===== *)
theory TextInputInv
  imports TextInput
begin

text \<open>
  The invariant of the text-input objects: entered exactly on the client of the focused surface,
  everything cleared otherwise, committed surrounding text only while enabled, the active object
  entered and enabled, the flag the JNI thread reads in step with it. Every operation preserves it.
\<close>

subsection \<open>Objects by resource\<close>

lemma ti_update_simps [simp]:
  "ts_inputs (ti_update i f st) = map (\<lambda>t. if ti_res t = i then f t else t) (ts_inputs st)"
  "ts_active (ti_update i f st) = ts_active st" "ts_committed (ti_update i f st) = ts_committed st"
  "ts_server (ti_update i f st) = ts_server st" "ts_focused (ti_update i f st) = ts_focused st"
  "ts_listener (ti_update i f st) = ts_listener st" "ts_ime_fd (ti_update i f st) = ts_ime_fd st"
  "cs_calls (ti_update i f st) = cs_calls st"
  by (simp_all add: ti_update_def)

lemma wl_emit_text_simps [simp]:
  "ts_inputs (wl_emit c st) = ts_inputs st" "ts_active (wl_emit c st) = ts_active st"
  "ts_committed (wl_emit c st) = ts_committed st" "ts_server (wl_emit c st) = ts_server st"
  "ts_focused (wl_emit c st) = ts_focused st" "ts_listener (wl_emit c st) = ts_listener st"
  "ts_ime_fd (wl_emit c st) = ts_ime_fd st"
  by (simp_all add: wl_emit_def)

lemma set_active_simps [simp]:
  "ts_inputs (set_active_text_input i st) = ts_inputs st"
  "ts_active (set_active_text_input i st) = i"
  "ts_server (set_active_text_input i st) = ts_server st"
  "ts_focused (set_active_text_input i st) = ts_focused st"
  "ts_listener (set_active_text_input i st) = ts_listener st"
  "ts_ime_fd (set_active_text_input i st) = ts_ime_fd st"
  "cs_calls (set_active_text_input i st) = cs_calls st"
  "ts_committed (set_active_text_input None st) = False"
  by (simp_all add: set_active_text_input_def)

lemma request_ime_simps [simp]:
  "ts_inputs (request_ime_command c st) = ts_inputs st"
  "ts_active (request_ime_command c st) = ts_active st"
  "ts_committed (request_ime_command c st) = ts_committed st"
  "ts_server (request_ime_command c st) = ts_server st"
  "ts_focused (request_ime_command c st) = ts_focused st"
  "ts_listener (request_ime_command c st) = ts_listener st"
  "ts_ime_fd (request_ime_command c st) = ts_ime_fd st"
  "cs_calls (request_ime_command c st) = cs_calls st @ (if ts_ime_fd st < 0 then [] else [ImeCmd c])"
  by (simp_all add: request_ime_command_def)

lemma request_ime_show_hide: "request_ime_show = request_ime_command (CHR ''S'')"
  "request_ime_hide = request_ime_command (CHR ''H'')"
  by (simp_all add: fun_eq_iff request_ime_show_def request_ime_hide_def)

lemma find_id_iff:
  "distinct (map f xs) \<Longrightarrow> find (\<lambda>x. f x = i) xs = Some x \<longleftrightarrow> x \<in> set xs \<and> f x = i"
  by (induction xs) (auto simp: rev_image_eqI)

lemma find_id_None: "find (\<lambda>x. f x = i) xs = None \<longleftrightarrow> i \<notin> f ` set xs"
  by (induction xs) auto

abbreviation ti_ids :: "'a text_state_scheme \<Rightarrow> nat list" where
  "ti_ids st \<equiv> map ti_res (ts_inputs st)"

lemma ti_find_iff:
  "distinct (ti_ids st) \<Longrightarrow> ti_find i st = Some t \<longleftrightarrow> t \<in> set (ts_inputs st) \<and> ti_res t = i"
  unfolding ti_find_def by (rule find_id_iff)

lemma ti_find_None: "ti_find i st = None \<longleftrightarrow> i \<notin> set (ti_ids st)"
  unfolding ti_find_def by (simp add: find_id_None)

lemma find_map_id: "(\<And>x. k (f x) = k x) \<Longrightarrow> find (\<lambda>x. k x = i) (map f xs) = map_option f (find (\<lambda>x. k x = i) xs)"
  by (induction xs) auto

lemma ti_find_map:
  "\<lbrakk>\<And>t. ti_res (f t) = ti_res t; ts_inputs st' = map f (ts_inputs st)\<rbrakk> \<Longrightarrow>
   ti_find i st' = map_option f (ti_find i st)"
  unfolding ti_find_def by (simp add: find_map_id)

lemma ti_update_update:
  "(\<And>t. ti_res (f t) = ti_res t) \<Longrightarrow> ti_update i g (ti_update i f st) = ti_update i (\<lambda>t. g (f t)) st"
  by (simp add: ti_update_def comp_def if_distrib cong: if_cong)

subsection \<open>Frames of the object operations\<close>

lemma clear_frames [simp]:
  "ti_res (clear_committed_surrounding_text_state t) = ti_res t"
  "ti_res (clear_surrounding_text_state t) = ti_res t"
  "ti_res (clear_pending_text_input_state t) = ti_res t"
  "ti_res (reset_text_input_request_state t) = ti_res t"
  "ti_res (commit_surrounding t) = ti_res t" "ti_res (commit_rectangle t) = ti_res t"
  "ti_client (clear_committed_surrounding_text_state t) = ti_client t"
  "ti_client (clear_surrounding_text_state t) = ti_client t"
  "ti_client (clear_pending_text_input_state t) = ti_client t"
  "ti_client (reset_text_input_request_state t) = ti_client t"
  "ti_client (commit_surrounding t) = ti_client t" "ti_client (commit_rectangle t) = ti_client t"
  by (simp_all add: clear_committed_surrounding_text_state_def clear_surrounding_text_state_def
      clear_pending_text_input_state_def clear_committed_text_input_state_def
      reset_text_input_request_state_def commit_surrounding_def commit_rectangle_def)

text \<open>An object without any request state.\<close>

definition ti_blank :: "text_input \<Rightarrow> bool" where
  "ti_blank t \<longleftrightarrow> \<not> ti_entered t \<and> ti_entered_surface t = None \<and>
     reset_text_input_request_state t = t"

definition leave_object :: "text_input \<Rightarrow> text_input" where
  "leave_object t =
     reset_text_input_request_state (t\<lparr>ti_entered := False, ti_entered_surface := None\<rparr>)"

definition enter_object :: "surface \<Rightarrow> text_input \<Rightarrow> text_input" where
  "enter_object s t =
     (reset_text_input_request_state t)\<lparr>ti_entered := True, ti_entered_surface := Some s\<rparr>"

lemma leave_object_simps [simp]:
  "ti_res (leave_object t) = ti_res t" "ti_client (leave_object t) = ti_client t"
  "\<not> ti_entered (leave_object t)" "\<not> ti_current_enabled (leave_object t)"
  "ti_entered_surface (leave_object t) = None" "ti_blank (leave_object t)"
  "ti_serial (leave_object t) = ti_serial t"
  by (simp_all add: leave_object_def ti_blank_def clear_committed_surrounding_text_state_def
      clear_surrounding_text_state_def clear_pending_text_input_state_def
      clear_committed_text_input_state_def reset_text_input_request_state_def)

lemma enter_object_simps [simp]:
  "ti_res (enter_object s t) = ti_res t" "ti_client (enter_object s t) = ti_client t"
  "ti_entered (enter_object s t)" "ti_entered_surface (enter_object s t) = Some s"
  "\<not> ti_current_enabled (enter_object s t)" "ti_surrounding (enter_object s t) = None"
  by (simp_all add: enter_object_def clear_committed_surrounding_text_state_def
      clear_surrounding_text_state_def clear_pending_text_input_state_def
      clear_committed_text_input_state_def reset_text_input_request_state_def)

subsection \<open>Leaving\<close>

definition leaves_on :: "surface option \<Rightarrow> text_input \<Rightarrow> bool" where
  "leaves_on sf t \<longleftrightarrow> ti_entered t \<and> (sf = None \<or> ti_entered_surface t = sf)"

text \<open>What leaving one object sends.\<close>

definition leave_calls :: "bool \<Rightarrow> 'a text_state_scheme \<Rightarrow> text_input \<Rightarrow> wl_call list" where
  "leave_calls send st t =
     (case ti_entered_surface t of
        Some s \<Rightarrow> (if send \<and> su_resource s \<noteq> None then [TiLeave (ti_res t) s] else [])
      | None \<Rightarrow> []) @
     (if ts_active st = Some (ti_res t) \<and> ti_current_enabled t \<and> ts_server st \<and> \<not> ts_ime_fd st < 0
      then [ImeCmd (CHR ''H'')] else [])"

lemma leave_if_on_eq:
  assumes "distinct (ti_ids st)" "t \<in> set (ts_inputs st)" "ti_res t = i"
  shows "leave_if_on sf send i st =
    (if leaves_on sf t
     then st\<lparr>cs_calls := cs_calls st @ leave_calls send st t,
             ts_inputs := map (\<lambda>u. if ti_res u = i then leave_object u else u) (ts_inputs st),
             ts_active := (if ts_active st = Some i then None else ts_active st),
             ts_committed := (if ts_active st = Some i then False else ts_committed st)\<rparr>
     else st)"
proof -
  have f: "ti_find i st = Some t" using assms ti_find_iff by blast
  have snd: "send_leave_event t send st = st\<lparr>cs_calls := cs_calls st @
      (case ti_entered_surface t of
         Some s \<Rightarrow> (if send \<and> su_resource s \<noteq> None then [TiLeave (ti_res t) s] else [])
       | None \<Rightarrow> [])\<rparr>"
    by (simp add: send_leave_event_def wl_emit_def split: option.split)
  show ?thesis
  proof (cases "leaves_on sf t")
    case True
    then have e: "ti_entered t" by (simp add: leaves_on_def)
    have "leave_if_on sf send i st = maybe_send_leave i send st"
      using True by (auto simp: leave_if_on_def f leaves_on_def)
    also have "\<dots> = st\<lparr>cs_calls := cs_calls st @ leave_calls send st t,
             ts_inputs := map (\<lambda>u. if ti_res u = i then leave_object u else u) (ts_inputs st),
             ts_active := (if ts_active st = Some i then None else ts_active st),
             ts_committed := (if ts_active st = Some i then False else ts_committed st)\<rparr>"
      unfolding maybe_send_leave_def f option.case Let_def snd leave_calls_def leave_object_def
      by (simp add: e assms(3) ti_update_def set_active_text_input_def request_ime_hide_def
          request_ime_command_def wl_emit_def comp_def if_distrib cong: if_cong)
    finally show ?thesis using True by simp
  next
    case False
    then show ?thesis by (auto simp: leave_if_on_def f leaves_on_def)
  qed
qed

text \<open>The loop over the list: which objects leave, and what is sent, in list order.\<close>

definition left_ids :: "surface option \<Rightarrow> nat list \<Rightarrow> 'a text_state_scheme \<Rightarrow> nat set" where
  "left_ids sf is st = {i \<in> set is. \<exists>u \<in> set (ts_inputs st). ti_res u = i \<and> leaves_on sf u}"

definition calls_of_leaves :: "surface option \<Rightarrow> bool \<Rightarrow> 'a text_state_scheme \<Rightarrow> nat \<Rightarrow> wl_call list" where
  "calls_of_leaves sf send st i =
     (case ti_find i st of None \<Rightarrow> []
      | Some t \<Rightarrow> if leaves_on sf t then leave_calls send st t else [])"

definition after_leaves :: "surface option \<Rightarrow> bool \<Rightarrow> nat list \<Rightarrow> 'a text_state_scheme \<Rightarrow> 'a text_state_scheme" where
  "after_leaves sf send is st =
     st\<lparr>cs_calls := cs_calls st @ concat (map (calls_of_leaves sf send st) is),
        ts_inputs := map (\<lambda>u. if ti_res u \<in> set is \<and> leaves_on sf u then leave_object u else u) (ts_inputs st),
        ts_active := (if ts_active st \<in> Some ` left_ids sf is st then None else ts_active st),
        ts_committed := (if ts_active st \<in> Some ` left_ids sf is st then False else ts_committed st)\<rparr>"

lemma not_leaves_leave_object [simp]: "\<not> leaves_on sf (leave_object t)"
  by (simp add: leaves_on_def)

lemma after_leaves_Cons:
  assumes "distinct (ti_ids st)" "t \<in> set (ts_inputs st)" "ti_res t = i" "i \<notin> set is"
  shows "after_leaves sf send is (leave_if_on sf send i st) = after_leaves sf send (i # is) st"
proof (cases "leaves_on sf t")
  case True
  define st1 where "st1 = leave_if_on sf send i st"
  note eq = leave_if_on_eq [OF assms(1-3), of sf send, folded st1_def]
  have uniq: "u = t" if "u \<in> set (ts_inputs st)" "ti_res u = i" for u
    using assms(1-3) that by (auto simp: distinct_map inj_on_def)
  have inp: "ts_inputs st1 = map (\<lambda>u. if ti_res u = i then leave_object u else u) (ts_inputs st)"
    and act: "ts_active st1 = (if ts_active st = Some i then None else ts_active st)"
    and srv: "ts_server st1 = ts_server st" "ts_ime_fd st1 = ts_ime_fd st"
    and calls: "cs_calls st1 = cs_calls st @ leave_calls send st t"
    using eq True by simp_all
  have same: "calls_of_leaves sf send st1 j = calls_of_leaves sf send st j" if "j \<in> set is" for j
  proof -
    have "j \<noteq> i" using that assms(4) by auto
    have "ti_find j st1 = map_option (\<lambda>u. if ti_res u = i then leave_object u else u) (ti_find j st)"
      by (rule ti_find_map) (simp_all add: inp)
    moreover have "ti_res u = j" if "ti_find j st = Some u" for u
      using that ti_find_iff [OF assms(1)] by blast
    ultimately show ?thesis using \<open>j \<noteq> i\<close>
      by (auto simp: calls_of_leaves_def leave_calls_def act srv split: option.splits)
  qed
  have first: "calls_of_leaves sf send st i = leave_calls send st t"
    using ti_find_iff [OF assms(1), of i t] assms(2,3) True by (simp add: calls_of_leaves_def)
  have ids: "left_ids sf (i # is) st = insert i (left_ids sf is st1)"
    using True assms(2-4) by (auto simp: left_ids_def inp)
  have inputs: "map (\<lambda>u. if ti_res u \<in> set is \<and> leaves_on sf u then leave_object u else u) (ts_inputs st1)
      = map (\<lambda>u. if ti_res u \<in> set (i # is) \<and> leaves_on sf u then leave_object u else u) (ts_inputs st)"
    using assms(4) True uniq by (auto simp: inp)
  have nin: "i \<notin> left_ids sf is st1" using assms(4) by (simp add: left_ids_def)
  have cs: "concat (map (calls_of_leaves sf send st1) is) = concat (map (calls_of_leaves sf send st) is)"
    by (metis same map_cong)
  show ?thesis
    unfolding after_leaves_def st1_def [symmetric] inputs cs calls ids
    using nin eq True by (simp add: first act image_iff split: if_splits)
next
  case False
  have "calls_of_leaves sf send st i = []"
    using False ti_find_iff [OF assms(1), of i t] assms(2,3) by (simp add: calls_of_leaves_def)
  moreover have uniq: "u = t" if "u \<in> set (ts_inputs st)" "ti_res u = i" for u
    using assms(1-3) that by (auto simp: distinct_map inj_on_def)
  moreover have "left_ids sf (i # is) st = left_ids sf is st"
    using False uniq by (auto simp: left_ids_def)
  moreover have "map (\<lambda>u. if ti_res u \<in> set is \<and> leaves_on sf u then leave_object u else u) (ts_inputs st)
      = map (\<lambda>u. if ti_res u \<in> set (i # is) \<and> leaves_on sf u then leave_object u else u) (ts_inputs st)"
    using False uniq by auto
  ultimately show ?thesis
    using leave_if_on_eq [OF assms(1-3), of sf send] False by (simp add: after_leaves_def)
qed

lemma leave_if_on_ids:
  assumes "distinct (ti_ids st)" "i \<in> set (ti_ids st)"
  shows "ti_ids (leave_if_on sf send i st) = ti_ids st"
proof -
  obtain t where "t \<in> set (ts_inputs st)" "ti_res t = i" using assms(2) by auto
  from leave_if_on_eq [OF assms(1) this, of sf send] show ?thesis by auto
qed

lemma fold_leaves:
  assumes "distinct (ti_ids st)" "distinct is" "set is \<subseteq> set (ti_ids st)"
  shows "fold (leave_if_on sf send) is st = after_leaves sf send is st"
  using assms
proof (induction "is" arbitrary: st)
  case Nil
  have "(\<lambda>u. if False then leave_object u else u) = id" by auto
  then show ?case by (simp add: after_leaves_def left_ids_def)
next
  case (Cons i "is")
  then obtain t where t: "t \<in> set (ts_inputs st)" "ti_res t = i" by auto
  have ids: "ti_ids (leave_if_on sf send i st) = ti_ids st"
    using Cons.prems leave_if_on_ids [of st i sf send] by simp
  have "fold (leave_if_on sf send) is (leave_if_on sf send i st)
      = after_leaves sf send is (leave_if_on sf send i st)"
    using Cons.prems ids by (intro Cons.IH) simp_all
  with after_leaves_Cons [OF Cons.prems(1) t, of "is"] Cons.prems(2) show ?case by simp
qed

lemma clear_text_input_focus_eq:
  assumes "distinct (ti_ids st)"
  shows "clear_text_input_focus sf send st =
    (let st1 = after_leaves sf send (ti_ids st) st
     in if sf = None \<or> ts_focused st = sf then st1\<lparr>ts_focused := None, ts_listener := None\<rparr> else st1)"
  using fold_leaves [OF assms assms, of sf send]
  by (simp add: clear_text_input_focus_def Let_def after_leaves_def)

text \<open>What all the leaves send, by object.\<close>

lemma calls_of_all_leaves:
  assumes "distinct (ti_ids st)"
  shows "concat (map (calls_of_leaves sf send st) (ti_ids st)) =
    concat (map (\<lambda>t. if leaves_on sf t then leave_calls send st t else []) (ts_inputs st))"
proof -
  have "calls_of_leaves sf send st (ti_res t) = (if leaves_on sf t then leave_calls send st t else [])"
    if "t \<in> set (ts_inputs st)" for t
    using ti_find_iff [OF assms, of "ti_res t" t] that by (simp add: calls_of_leaves_def)
  then have "map (\<lambda>t. calls_of_leaves sf send st (ti_res t)) (ts_inputs st) =
      map (\<lambda>t. if leaves_on sf t then leave_calls send st t else []) (ts_inputs st)" by simp
  then show ?thesis by (metis (no_types, lifting) comp_def list.map_comp map_eq_conv)
qed

subsection \<open>Entering\<close>

definition enter_calls :: "surface \<Rightarrow> text_input list \<Rightarrow> wl_call list" where
  "enter_calls s ts = map (\<lambda>t. TiEnter (ti_res t) s) (filter (\<lambda>t. text_input_matches_surface_client t s) ts)"

lemma matches_enter_object [simp]:
  "text_input_matches_surface_client (enter_object s t) s' = text_input_matches_surface_client t s'"
  "text_input_matches_surface_client (leave_object t) s' = text_input_matches_surface_client t s'"
  by (simp_all add: text_input_matches_surface_client_def)

lemma enter_if_client_eq:
  assumes "distinct (ti_ids st)" "t \<in> set (ts_inputs st)" "ti_res t = i"
  shows "enter_if_client s i st =
    (if text_input_matches_surface_client t s
     then st\<lparr>cs_calls := cs_calls st @ [TiEnter i s],
             ts_inputs := map (\<lambda>u. if ti_res u = i then enter_object s u else u) (ts_inputs st)\<rparr>
     else st)"
proof -
  have "ti_find i st = Some t" using assms ti_find_iff by blast
  then show ?thesis
    by (simp add: enter_if_client_def ti_update_def wl_emit_def enter_object_def)
qed

lemma enter_if_client_prefix:
  assumes "distinct (map ti_res (xs @ t # ys))" "ts_inputs st = xs @ t # ys"
  shows "enter_if_client s (ti_res t) st =
    (if text_input_matches_surface_client t s
     then st\<lparr>cs_calls := cs_calls st @ [TiEnter (ti_res t) s], ts_inputs := xs @ enter_object s t # ys\<rparr>
     else st)"
proof -
  have "map (\<lambda>u. if ti_res u = ti_res t then enter_object s u else u) xs = xs"
    "map (\<lambda>u. if ti_res u = ti_res t then enter_object s u else u) ys = ys"
    using assms(1) by (auto intro!: map_idI simp: rev_image_eqI)
  with enter_if_client_eq [of st t "ti_res t" s] assms show ?thesis by simp
qed

lemma fold_enters_suffix:
  assumes "distinct (map ti_res (xs @ ys))" "ts_inputs st = xs @ ys"
  shows "fold (enter_if_client s) (map ti_res ys) st =
    st\<lparr>cs_calls := cs_calls st @ enter_calls s ys,
       ts_inputs := xs @ map (\<lambda>u. if text_input_matches_surface_client u s then enter_object s u else u) ys\<rparr>"
  using assms
proof (induction ys arbitrary: xs st)
  case Nil
  then show ?case by (simp add: enter_calls_def)
next
  case (Cons t ys)
  let ?t = "if text_input_matches_surface_client t s then enter_object s t else t"
  have d: "distinct (map ti_res ((xs @ [?t]) @ ys))" using Cons.prems(1) by simp
  have "ts_inputs (enter_if_client s (ti_res t) st) = (xs @ [?t]) @ ys"
    using enter_if_client_prefix [OF Cons.prems, of s] Cons.prems(2) by simp
  from Cons.IH [OF d this] show ?case
    using enter_if_client_prefix [OF Cons.prems, of s] by (simp add: enter_calls_def)
qed

lemma fold_enters:
  assumes "distinct (ti_ids st)"
  shows "fold (enter_if_client s) (ti_ids st) st =
    st\<lparr>cs_calls := cs_calls st @ enter_calls s (ts_inputs st),
       ts_inputs := map (\<lambda>u. if text_input_matches_surface_client u s then enter_object s u else u)
         (ts_inputs st)\<rparr>"
  using fold_enters_suffix [of "[]" "ts_inputs st" st s] assms by simp

subsection \<open>The invariant\<close>

definition position_ok :: "bytes option \<Rightarrow> int \<Rightarrow> bool" where
  "position_ok s p \<longleftrightarrow> 0 \<le> p \<and> p \<le> (case s of None \<Rightarrow> 0 | Some bs \<Rightarrow> int (length bs))"

definition object_ok :: "surface option \<Rightarrow> text_input \<Rightarrow> bool" where
  "object_ok focused t \<longleftrightarrow>
     (ti_entered t \<longleftrightarrow> (\<exists>s. focused = Some s \<and> text_input_matches_surface_client t s)) \<and>
     (ti_entered t \<longrightarrow> ti_entered_surface t = focused) \<and>
     (\<not> ti_entered t \<longrightarrow> ti_blank t) \<and>
     (ti_surrounding t \<noteq> None \<longrightarrow> ti_current_enabled t) \<and>
     position_ok (ti_surrounding t) (ti_cursor t) \<and> position_ok (ti_surrounding t) (ti_anchor t) \<and>
     position_ok (ti_pending_surrounding t) (ti_pending_cursor t) \<and>
     position_ok (ti_pending_surrounding t) (ti_pending_anchor t)"

definition active_ok :: "nat option \<Rightarrow> text_input list \<Rightarrow> bool" where
  "active_ok a ts \<longleftrightarrow> (case a of None \<Rightarrow> True
     | Some i \<Rightarrow> \<exists>t \<in> set ts. ti_res t = i \<and> ti_entered t \<and> ti_current_enabled t)"

definition text_inv :: "'a text_state_scheme \<Rightarrow> bool" where
  "text_inv st \<longleftrightarrow> distinct (ti_ids st) \<and> (\<forall>t \<in> set (ts_inputs st). object_ok (ts_focused st) t) \<and>
     active_ok (ts_active st) (ts_inputs st) \<and> ts_committed st = (ts_active st \<noteq> None) \<and>
     ts_listener st = ts_focused st"

text \<open>An object without focus: all that \<open>object_ok\<close> asks of a blank one.\<close>

lemma blank_fields:
  assumes "ti_blank t"
  shows "\<not> ti_entered t \<and> \<not> ti_current_enabled t \<and> ti_surrounding t = None \<and> ti_cursor t = 0 \<and>
    ti_anchor t = 0 \<and> ti_pending_surrounding t = None \<and> ti_pending_cursor t = 0 \<and>
    ti_pending_anchor t = 0 \<and> \<not> ti_pending_enabled t \<and> ti_entered_surface t = None"
proof -
  have "reset_text_input_request_state t = t" "\<not> ti_entered t" "ti_entered_surface t = None"
    using assms by (auto simp: ti_blank_def)
  moreover have "\<not> ti_current_enabled (reset_text_input_request_state t) \<and>
      ti_surrounding (reset_text_input_request_state t) = None \<and>
      ti_cursor (reset_text_input_request_state t) = 0 \<and> ti_anchor (reset_text_input_request_state t) = 0 \<and>
      ti_pending_surrounding (reset_text_input_request_state t) = None \<and>
      ti_pending_cursor (reset_text_input_request_state t) = 0 \<and>
      ti_pending_anchor (reset_text_input_request_state t) = 0 \<and>
      \<not> ti_pending_enabled (reset_text_input_request_state t)"
    by (simp add: clear_committed_surrounding_text_state_def
      clear_surrounding_text_state_def clear_pending_text_input_state_def
      clear_committed_text_input_state_def reset_text_input_request_state_def)
  ultimately show ?thesis by simp
qed

lemma object_ok_blank:
  "\<lbrakk>ti_blank t; \<And>s. focused = Some s \<Longrightarrow> \<not> text_input_matches_surface_client t s\<rbrakk> \<Longrightarrow> object_ok focused t"
  using blank_fields [of t] by (auto simp: object_ok_def position_ok_def)

lemma object_ok_enter:
  "text_input_matches_surface_client t s \<Longrightarrow> object_ok (Some s) (enter_object s t)"
  by (simp add: object_ok_def position_ok_def)
     (simp add: enter_object_def clear_committed_surrounding_text_state_def
      clear_surrounding_text_state_def clear_pending_text_input_state_def
      clear_committed_text_input_state_def reset_text_input_request_state_def)

lemma leaves_on_inv:
  "object_ok focused t \<Longrightarrow> leaves_on sf t \<longleftrightarrow> ti_entered t \<and> (sf = None \<or> focused = sf)"
  by (auto simp: leaves_on_def object_ok_def)

text \<open>
  Leaving under the invariant: either every entered object leaves, or (another surface) none does.
\<close>

definition cleared :: "bool \<Rightarrow> 'a text_state_scheme \<Rightarrow> 'a text_state_scheme" where
  "cleared send st =
     st\<lparr>cs_calls := cs_calls st @ concat (map (leave_calls send st) (filter ti_entered (ts_inputs st))),
        ts_inputs := map (\<lambda>t. if ti_entered t then leave_object t else t) (ts_inputs st),
        ts_active := None, ts_committed := False, ts_focused := None, ts_listener := None\<rparr>"

lemma concat_map_if: "concat (map (\<lambda>x. if P x then f x else []) xs) = concat (map f (filter P xs))"
  by (induction xs) auto

lemma clear_under_inv:
  assumes inv: "text_inv st"
  shows "clear_text_input_focus sf send st =
    (if sf = None \<or> ts_focused st = sf then cleared send st else st)"
proof (cases "sf = None \<or> ts_focused st = sf")
  case True
  have d: "distinct (ti_ids st)" and ok: "\<And>t. t \<in> set (ts_inputs st) \<Longrightarrow> object_ok (ts_focused st) t"
    and act: "active_ok (ts_active st) (ts_inputs st)" "ts_committed st = (ts_active st \<noteq> None)"
    using inv by (auto simp: text_inv_def)
  have l: "leaves_on sf t = ti_entered t" if "t \<in> set (ts_inputs st)" for t
    using leaves_on_inv [OF ok [OF that], of sf] True by auto
  have a: "ts_active st \<in> Some ` left_ids sf (ti_ids st) st \<or> ts_active st = None"
    using act(1) l by (cases "ts_active st") (auto simp: active_ok_def left_ids_def)
  have calls: "concat (map (calls_of_leaves sf send st) (ti_ids st)) =
      concat (map (leave_calls send st) (filter ti_entered (ts_inputs st)))"
    unfolding calls_of_all_leaves [OF d] concat_map_if by (metis (mono_tags, lifting) filter_cong l)
  have inputs: "map (\<lambda>u. if ti_res u \<in> set (ti_ids st) \<and> leaves_on sf u then leave_object u else u) (ts_inputs st)
      = map (\<lambda>t. if ti_entered t then leave_object t else t) (ts_inputs st)"
    using l by auto
  show ?thesis
    using True a act(2) unfolding clear_text_input_focus_eq [OF d] after_leaves_def calls inputs cleared_def
    by (cases "ts_active st") auto
next
  case False
  have d: "distinct (ti_ids st)" and ok: "\<And>t. t \<in> set (ts_inputs st) \<Longrightarrow> object_ok (ts_focused st) t"
    using inv by (auto simp: text_inv_def)
  have l: "\<not> leaves_on sf t" if "t \<in> set (ts_inputs st)" for t
    using leaves_on_inv [OF ok [OF that], of sf] False by auto
  have calls: "concat (map (calls_of_leaves sf send st) (ti_ids st)) = []"
    unfolding calls_of_all_leaves [OF d] using l by auto
  have inputs: "map (\<lambda>u. if ti_res u \<in> set (ti_ids st) \<and> leaves_on sf u then leave_object u else u) (ts_inputs st)
      = ts_inputs st"
    using l by (auto intro: map_idI)
  have "left_ids sf (ti_ids st) st = {}" using l by (auto simp: left_ids_def)
  then show ?thesis
    using False unfolding clear_text_input_focus_eq [OF d] after_leaves_def calls inputs by auto
qed

lemma text_inv_cleared:
  assumes "text_inv st"
  shows "text_inv (cleared send st)"
proof -
  have "object_ok None u" if u: "u \<in> set (ts_inputs (cleared send st))" for u
  proof -
    obtain t where t: "t \<in> set (ts_inputs st)" "u = (if ti_entered t then leave_object t else t)"
      using u by (auto simp: cleared_def)
    then have "ti_blank u"
      using assms by (auto simp: text_inv_def object_ok_def)
    then show ?thesis by (rule object_ok_blank) simp
  qed
  moreover have "distinct (ti_ids (cleared send st))"
    using assms by (simp add: text_inv_def cleared_def comp_def if_distrib cong: if_cong)
  moreover have "ts_focused (cleared send st) = None" "ts_listener (cleared send st) = None"
    "ts_active (cleared send st) = None" "\<not> ts_committed (cleared send st)"
    by (simp_all add: cleared_def)
  ultimately show ?thesis by (simp add: text_inv_def active_ok_def)
qed

lemma text_inv_clear [inv_intros]: "text_inv st \<Longrightarrow> text_inv (clear_text_input_focus sf send st)"
  by (simp add: clear_under_inv text_inv_cleared)

subsection \<open>Preservation: focus\<close>

text \<open>The state after a real change of focus, written out.\<close>

definition focus_moved :: "surface \<Rightarrow> 'a text_state_scheme \<Rightarrow> 'a text_state_scheme" where
  "focus_moved s st =
     (let st1 = cleared True st
      in st1\<lparr>cs_calls := cs_calls st1 @ enter_calls s (ts_inputs st1),
             ts_inputs := map (\<lambda>t. if text_input_matches_surface_client t s then enter_object s t else t)
               (ts_inputs st1),
             ts_focused := Some s, ts_listener := Some s\<rparr>)"

lemma keyboard_enter_under_inv:
  assumes "text_inv st"
  shows "text_input_handle_keyboard_enter sf st = (case sf of None \<Rightarrow> st
    | Some s \<Rightarrow> if su_resource s = None \<or> ts_focused st = Some s then st else focus_moved s st)"
proof -
  let ?c = "cleared True st"
  have "distinct (ti_ids ?c)" using text_inv_cleared [OF assms] by (simp add: text_inv_def)
  then have d: "distinct (ti_ids (?c\<lparr>ts_focused := Some s, ts_listener := Some s\<rparr>))" for s by simp
  show ?thesis
    using fold_enters [OF d]
    by (simp add: text_input_handle_keyboard_enter_def clear_under_inv [OF assms] Let_def
        focus_moved_def split: option.split)
qed

lemma text_inv_focus_moved:
  assumes "text_inv st"
  shows "text_inv (focus_moved s st)"
proof -
  let ?c = "cleared True st"
  have c: "text_inv ?c" "ts_focused ?c = None" "ts_active ?c = None" "\<not> ts_committed ?c"
    using text_inv_cleared [OF assms] by (simp_all add: cleared_def)
  have inp: "ts_inputs (focus_moved s st) =
      map (\<lambda>t. if text_input_matches_surface_client t s then enter_object s t else t) (ts_inputs ?c)"
    by (simp add: focus_moved_def Let_def)
  have "object_ok (Some s) u" if u: "u \<in> set (ts_inputs (focus_moved s st))" for u
  proof -
    obtain t where t: "t \<in> set (ts_inputs ?c)"
      "u = (if text_input_matches_surface_client t s then enter_object s t else t)"
      using u inp by auto
    then have "ti_blank t" using c by (auto simp: text_inv_def object_ok_def)
    then show ?thesis using t(2) object_ok_enter object_ok_blank [of t "Some s"] by auto
  qed
  moreover have "distinct (ti_ids (focus_moved s st))"
    unfolding inp using c(1) by (simp add: text_inv_def comp_def if_distrib cong: if_cong)
  moreover have "ts_focused (focus_moved s st) = Some s" "ts_listener (focus_moved s st) = Some s"
    "ts_active (focus_moved s st) = None" "\<not> ts_committed (focus_moved s st)"
    using c by (simp_all add: focus_moved_def Let_def)
  ultimately show ?thesis by (simp add: text_inv_def active_ok_def)
qed

lemma text_inv_keyboard_enter [inv_intros]:
  "text_inv st \<Longrightarrow> text_inv (text_input_handle_keyboard_enter sf st)"
  by (simp add: keyboard_enter_under_inv text_inv_focus_moved split: option.split)

lemma text_inv_keyboard_leave [inv_intros]:
  "text_inv st \<Longrightarrow> text_inv (text_input_handle_keyboard_leave sf st)"
  by (simp add: text_input_handle_keyboard_leave_def text_inv_clear)

lemma text_inv_surface_destroyed [inv_intros]: "text_inv st \<Longrightarrow> text_inv (surface_destroyed s st)"
  by (simp add: surface_destroyed_def handle_focused_text_input_surface_destroy_def text_inv_clear)

subsection \<open>Preservation: requests\<close>

lemma text_inv_update:
  assumes inv: "text_inv st" and t: "ti_find i st = Some t" and res: "\<And>u. ti_res (f u) = ti_res u"
    and ok: "object_ok (ts_focused st) (f t)"
    and act: "ts_active st = Some i \<Longrightarrow> ti_entered (f t) \<and> ti_current_enabled (f t)"
  shows "text_inv (ti_update i f st)"
proof -
  have d: "distinct (ti_ids st)" using inv by (simp add: text_inv_def)
  have uniq: "u = t" if "u \<in> set (ts_inputs st)" "ti_res u = i" for u
    using d t that ti_find_iff [OF d] by (auto simp: distinct_map inj_on_def)
  have tin: "t \<in> set (ts_inputs st)" "ti_res t = i" using t ti_find_iff [OF d] by auto
  have "object_ok (ts_focused st) u" if u: "u \<in> set (ts_inputs (ti_update i f st))" for u
  proof -
    obtain v where v: "v \<in> set (ts_inputs st)" "u = (if ti_res v = i then f v else v)" using u by auto
    then show ?thesis using ok uniq [of v] inv by (auto simp: text_inv_def)
  qed
  moreover have "distinct (ti_ids (ti_update i f st))"
    using d res by (simp add: comp_def if_distrib cong: if_cong)
  moreover have "active_ok (ts_active st) (ts_inputs (ti_update i f st))"
  proof (cases "ts_active st")
    case (Some j)
    then obtain v where v: "v \<in> set (ts_inputs st)" "ti_res v = j" "ti_entered v" "ti_current_enabled v"
      using inv by (auto simp: text_inv_def active_ok_def)
    show ?thesis
    proof (cases "j = i")
      case True
      then show ?thesis using Some act tin res by (auto simp: active_ok_def intro!: bexI [of _ "f t"])
    next
      case False
      then show ?thesis using Some v by (auto simp: active_ok_def intro!: bexI [of _ v])
    qed
  qed (simp add: active_ok_def)
  ultimately show ?thesis using inv by (simp add: text_inv_def)
qed

lemma found_ok:
  assumes "text_inv st" "ti_find i st = Some t"
  shows "object_ok (ts_focused st) t \<and> ti_res t = i \<and>
    (ts_active st = Some i \<longrightarrow> ti_entered t \<and> ti_current_enabled t)"
proof -
  have d: "distinct (ti_ids st)" using assms(1) by (simp add: text_inv_def)
  have t: "t \<in> set (ts_inputs st)" "ti_res t = i" using assms(2) ti_find_iff [OF d] by auto
  have ok: "object_ok (ts_focused st) t" using assms(1) t(1) by (simp add: text_inv_def)
  have "ti_entered t \<and> ti_current_enabled t" if a: "ts_active st = Some i"
  proof -
    obtain u where u: "u \<in> set (ts_inputs st)" "ti_res u = i" "ti_entered u" "ti_current_enabled u"
      using a assms(1) by (auto simp: text_inv_def active_ok_def)
    moreover have "u = t" using d t u by (auto simp: distinct_map inj_on_def)
    ultimately show ?thesis by simp
  qed
  with ok t(2) show ?thesis by blast
qed

text \<open>What \<open>object_ok\<close> asks of an entered object, field by field.\<close>

lemma object_ok_entered:
  "ti_entered t \<Longrightarrow> object_ok focused t \<longleftrightarrow>
     (\<exists>s. focused = Some s \<and> su_resource s = Some (ti_client t)) \<and> ti_entered_surface t = focused \<and>
     (ti_surrounding t \<noteq> None \<longrightarrow> ti_current_enabled t) \<and>
     position_ok (ti_surrounding t) (ti_cursor t) \<and> position_ok (ti_surrounding t) (ti_anchor t) \<and>
     position_ok (ti_pending_surrounding t) (ti_pending_cursor t) \<and>
     position_ok (ti_pending_surrounding t) (ti_pending_anchor t)"
  by (simp add: object_ok_def text_input_matches_surface_client_def)

lemma position_ok_None [simp]: "position_ok None p \<longleftrightarrow> p = 0"
  by (auto simp: position_ok_def)

text \<open>The shape every request handler but commit has.\<close>

lemma text_inv_request:
  assumes "text_inv st" "\<And>u. ti_res (f u) = ti_res u"
    and "\<And>t. \<lbrakk>ti_entered t; object_ok (ts_focused st) t\<rbrakk> \<Longrightarrow>
      object_ok (ts_focused st) (f t) \<and> ti_entered (f t) \<and> ti_current_enabled (f t) = ti_current_enabled t"
  shows "text_inv (case ti_find i st of None \<Rightarrow> st | Some t \<Rightarrow>
           if \<not> ti_entered t then st else ti_update i f st)"
proof (cases "ti_find i st")
  case (Some t)
  show ?thesis
  proof (cases "ti_entered t")
    case True
    have "text_inv (ti_update i f st)"
      using found_ok [OF assms(1) Some] assms(3) [OF True]
      by (intro text_inv_update [OF assms(1) Some assms(2)]) auto
    with Some True show ?thesis by simp
  qed (simp add: Some assms(1))
qed (simp add: assms(1))

lemma text_inv_enable [inv_intros]: "text_inv st \<Longrightarrow> text_inv (ti_enable i st)"
  unfolding ti_enable_def
  by (rule text_inv_request) (simp_all add: clear_committed_surrounding_text_state_def object_ok_entered)

lemma text_inv_disable [inv_intros]: "text_inv st \<Longrightarrow> text_inv (ti_disable i st)"
  unfolding ti_disable_def
  by (rule text_inv_request) (simp_all add: clear_committed_surrounding_text_state_def object_ok_entered)

lemma sint_small: "n < 2 ^ 31 \<Longrightarrow> sint (of_nat n :: s32) = int n"
  by (simp add: signed_of_nat signed_take_bit_int_eq_self)

lemma clamp_position_ok:
  "length s < 2 ^ 31 \<Longrightarrow> position_ok (Some s) (clamp_position p (length s))"
  by (simp add: clamp_position_def Let_def position_ok_def sint_small)

lemma text_inv_set_surrounding [inv_intros]:
  assumes "text_inv st" "length (case text of None \<Rightarrow> [] | Some s \<Rightarrow> s) < 2 ^ 31"
  shows "text_inv (ti_set_surrounding_text i ok text cursor anchor st)"
proof (cases ok)
  case True
  define copy where "copy = (case text of None \<Rightarrow> [] | Some s \<Rightarrow> s)"
  have "text_inv (case ti_find i st of None \<Rightarrow> st | Some t \<Rightarrow>
      if \<not> ti_entered t then st else ti_update i (\<lambda>t. t\<lparr>ti_pending_surrounding := Some copy,
        ti_pending_cursor := clamp_position cursor (length copy),
        ti_pending_anchor := clamp_position anchor (length copy), ti_pending_set := True\<rparr>) st)"
    by (rule text_inv_request)
      (use assms in \<open>simp_all add: object_ok_entered clamp_position_ok copy_def\<close>)
  then show ?thesis
    unfolding ti_set_surrounding_text_def Let_def copy_def by (simp add: True cong: if_cong option.case_cong)
next
  case False
  with assms(1) show ?thesis by (simp add: ti_set_surrounding_text_def split: option.split)
qed

lemma text_inv_set_rectangle [inv_intros]: "text_inv st \<Longrightarrow> text_inv (ti_set_cursor_rectangle i r st)"
  unfolding ti_set_cursor_rectangle_def
  by (rule text_inv_request) (simp_all add: object_ok_entered)

subsection \<open>Preservation: commit, creation, destruction\<close>

definition commit_object :: "bool \<Rightarrow> text_input \<Rightarrow> text_input" where
  "commit_object pend t =
     (let t1 = commit_surrounding (t\<lparr>ti_serial := ti_serial t + 1, ti_current_enabled := pend\<rparr>)
      in commit_rectangle (if pend then t1 else clear_surrounding_text_state t1))"

definition commit_calls :: "'a text_state_scheme \<Rightarrow> text_input \<Rightarrow> wl_call list" where
  "commit_calls st t =
     (if ts_ime_fd st < 0 \<or> \<not> ts_server st then []
      else if ti_pending_enabled t \<and> \<not> ti_current_enabled t then [ImeCmd (CHR ''S'')]
      else if \<not> ti_pending_enabled t \<and> ti_current_enabled t \<and> ts_active st = Some (ti_res t)
      then [ImeCmd (CHR ''H'')] else [])"

lemma commit_object_simps [simp]:
  "ti_res (commit_object p t) = ti_res t" "ti_client (commit_object p t) = ti_client t"
  "ti_entered (commit_object p t) = ti_entered t" "ti_current_enabled (commit_object p t) = p"
  "ti_serial (commit_object p t) = ti_serial t + 1"
  "ti_entered_surface (commit_object p t) = ti_entered_surface t"
  "ti_surrounding (commit_object p t) =
     (if \<not> p then None else if ti_pending_set t then ti_pending_surrounding t else ti_surrounding t)"
  "ti_cursor (commit_object p t) =
     (if \<not> p then 0 else if ti_pending_set t then ti_pending_cursor t else ti_cursor t)"
  "ti_anchor (commit_object p t) =
     (if \<not> p then 0 else if ti_pending_set t then ti_pending_anchor t else ti_anchor t)"
  "ti_pending_surrounding (commit_object p t) =
     (if \<not> p \<or> ti_pending_set t then None else ti_pending_surrounding t)"
  "ti_pending_cursor (commit_object p t) = (if \<not> p \<or> ti_pending_set t then 0 else ti_pending_cursor t)"
  "ti_pending_anchor (commit_object p t) = (if \<not> p \<or> ti_pending_set t then 0 else ti_pending_anchor t)"
  by (simp_all add: commit_object_def Let_def commit_rectangle_def commit_surrounding_def
      clear_surrounding_text_state_def clear_committed_surrounding_text_state_def)

lemma ti_commit_eq:
  assumes t: "ti_find i st = Some t" and d: "distinct (ti_ids st)" and e: "ti_entered t"
  shows "ti_commit i st =
    st\<lparr>cs_calls := cs_calls st @ commit_calls st t,
       ts_inputs := map (\<lambda>u. if ti_res u = i then commit_object (ti_pending_enabled t) u else u) (ts_inputs st),
       ts_active := (if ti_pending_enabled t then Some i
                     else if ts_active st = Some i then None else ts_active st),
       ts_committed := (if ti_pending_enabled t then True
                        else if ts_active st = Some i then False else ts_committed st)\<rparr>"
proof -
  have i: "ti_res t = i" using t ti_find_iff [OF d] by auto
  let ?f = "\<lambda>t. commit_surrounding (t\<lparr>ti_serial := ti_serial t + 1, ti_current_enabled := ti_pending_enabled t\<rparr>)"
  have f: "ti_find i (ti_update i ?f st) = Some (?f t)"
    using ti_find_map [of "\<lambda>u. if ti_res u = i then ?f u else u" "ti_update i ?f st" st i] t i by simp
  have cur: "ti_current_enabled (?f t) = ti_pending_enabled t" by (simp add: commit_surrounding_def)
  have same: "map (\<lambda>u. if ti_res u = i then h (ti_pending_enabled u) u else u) (ts_inputs st) =
      map (\<lambda>u. if ti_res u = i then h (ti_pending_enabled t) u else u) (ts_inputs st)" for h
    using t d ti_find_iff [OF d] by (auto simp: distinct_map inj_on_def)
  show ?thesis
  proof (cases "ti_pending_enabled t")
    case True
    have "ti_commit i st = ti_update i commit_rectangle
        (let st' = set_active_text_input (Some i) (ti_update i ?f st)
         in if \<not> ti_current_enabled t \<and> ts_server st' then request_ime_show st' else st')"
      using t e True by (simp add: ti_commit_def Let_def)
    also have "set_active_text_input (Some i) (ti_update i ?f st) =
        (ti_update i ?f st)\<lparr>ts_active := Some i, ts_committed := True\<rparr>"
      using f cur True by (simp add: set_active_text_input_def)
    finally show ?thesis
      using True same [of "\<lambda>p u. commit_rectangle (commit_surrounding
          (u\<lparr>ti_serial := ti_serial u + 1, ti_current_enabled := p\<rparr>))"]
      by (simp add: Let_def request_ime_show_def request_ime_command_def wl_emit_def ti_update_def
          commit_calls_def commit_object_def comp_def if_distrib cong: if_cong)
  next
    case False
    then show ?thesis
      using t e i same [of "\<lambda>p u. commit_rectangle (clear_surrounding_text_state (commit_surrounding
          (u\<lparr>ti_serial := ti_serial u + 1, ti_current_enabled := p\<rparr>)))"]
      by (simp add: ti_commit_def Let_def set_active_text_input_def request_ime_hide_def
          request_ime_command_def wl_emit_def ti_update_def
          commit_calls_def commit_object_def comp_def if_distrib cong: if_cong)
  qed
qed

lemma in_map: "x \<in> set xs \<Longrightarrow> f x \<in> set (map f xs)"
  by simp

lemma text_inv_commit [inv_intros]:
  assumes inv: "text_inv st"
  shows "text_inv (ti_commit i st)"
proof (cases "ti_find i st")
  case None
  with inv show ?thesis by (simp add: ti_commit_def)
next
  case (Some t)
  have d: "distinct (ti_ids st)" using inv by (simp add: text_inv_def)
  note fo = found_ok [OF inv Some]
  show ?thesis
  proof (cases "ti_entered t")
    case False
    let ?f = "\<lambda>t. clear_surrounding_text_state (clear_pending_text_input_state t)"
    have b: "ti_blank t" using fo False by (simp add: object_ok_def)
    have "?f t = t"
      using b by (cases t) (simp add: ti_blank_def clear_committed_surrounding_text_state_def
        clear_surrounding_text_state_def clear_pending_text_input_state_def
        clear_committed_text_input_state_def reset_text_input_request_state_def)
    then have "object_ok (ts_focused st) (?f t)" using fo by simp
    moreover have "ts_active st \<noteq> Some i" using fo False by blast
    ultimately have "text_inv (ti_update i ?f st)"
      by (intro text_inv_update [OF inv Some]) simp_all
    with Some False show ?thesis by (simp add: ti_commit_def)
  next
    case True
    let ?p = "ti_pending_enabled t"
    have tin: "t \<in> set (ts_inputs st)" "ti_res t = i" using Some ti_find_iff [OF d] by auto
    have inp: "ts_inputs (ti_commit i st) =
        map (\<lambda>u. if ti_res u = i then commit_object ?p u else u) (ts_inputs st)"
      and act: "ts_active (ti_commit i st) =
        (if ?p then Some i else if ts_active st = Some i then None else ts_active st)"
      by (subst ti_commit_eq [OF Some d True], simp)+
    have ok_t: "object_ok (ts_focused st) (commit_object ?p t)"
      using fo True by (simp add: object_ok_entered)
    have "object_ok (ts_focused st) u" if u: "u \<in> set (ts_inputs (ti_commit i st))" for u
    proof -
      obtain v where v: "v \<in> set (ts_inputs st)" "u = (if ti_res v = i then commit_object ?p v else v)"
        using u inp by auto
      have "v = t" if "ti_res v = i" using d v(1) tin that by (auto simp: distinct_map inj_on_def)
      moreover have "object_ok (ts_focused st) v" using inv v(1) by (simp add: text_inv_def)
      ultimately show ?thesis using ok_t v(2) by (cases "ti_res v = i") simp_all
    qed
    moreover have "map ti_res (map (\<lambda>u. if ti_res u = i then commit_object ?p u else u) ts) = map ti_res ts"
      for ts by (induction ts) simp_all
    then have "distinct (ti_ids (ti_commit i st))"
      using d inp by metis
    moreover have "active_ok (ts_active (ti_commit i st)) (ts_inputs (ti_commit i st))"
    proof -
      let ?g = "\<lambda>u. if ti_res u = i then commit_object ?p u else u"
      have "commit_object ?p t \<in> set (map ?g (ts_inputs st))"
        using in_map [OF tin(1), of ?g] tin(2) by simp
      then have new: "active_ok (Some i) (map ?g (ts_inputs st))" if ?p
        unfolding active_ok_def option.case
        by (rule bexI [rotated]) (use that tin(2) True in simp)
      have old: "active_ok (ts_active st) (map ?g (ts_inputs st))" if "ts_active st \<noteq> Some i"
      proof (cases "ts_active st")
        case (Some j)
        then obtain v where v: "v \<in> set (ts_inputs st)" "ti_res v = j" "ti_entered v" "ti_current_enabled v"
          using inv by (auto simp: text_inv_def active_ok_def)
        then have "?g v = v" using that Some by simp
        with in_map [OF v(1), of ?g] have "v \<in> set (map ?g (ts_inputs st))" by simp
        with v Some show ?thesis unfolding active_ok_def by auto
      qed (simp add: active_ok_def)
      have none: "active_ok None ts" for ts by (simp add: active_ok_def)
      show ?thesis unfolding inp act using new old none by presburger
    qed
    moreover have "ts_focused (ti_commit i st) = ts_focused st" "ts_listener (ti_commit i st) = ts_listener st"
      "ts_committed (ti_commit i st) = (ts_active (ti_commit i st) \<noteq> None)"
      using inv by (subst ti_commit_eq [OF Some d True], simp add: text_inv_def act)+
    ultimately show ?thesis
      using inv by (simp add: text_inv_def)
  qed
qed

lemma ti_resource_destroy_eq:
  assumes "text_inv st" "ti_find i st = Some t"
  shows "ti_resource_destroy i st =
    st\<lparr>cs_calls := cs_calls st @ (if ts_active st = Some i \<and> ts_server st \<and> \<not> ts_ime_fd st < 0
                                  then [ImeCmd (CHR ''H'')] else []),
       ts_inputs := filter (\<lambda>u. ti_res u \<noteq> i) (ts_inputs st),
       ts_active := (if ts_active st = Some i then None else ts_active st),
       ts_committed := (if ts_active st = Some i then False else ts_committed st)\<rparr>"
  using found_ok [OF assms] assms(2)
  by (simp add: ti_resource_destroy_def Let_def set_active_text_input_def request_ime_hide_def
      request_ime_command_def wl_emit_def)

lemma text_inv_destroy [inv_intros]:
  assumes inv: "text_inv st"
  shows "text_inv (ti_resource_destroy i st)"
proof (cases "ti_find i st")
  case None
  with inv show ?thesis by (simp add: ti_resource_destroy_def)
next
  case (Some t)
  have "distinct (map ti_res (filter (\<lambda>u. ti_res u \<noteq> i) (ts_inputs st)))"
    using inv by (simp add: text_inv_def distinct_map_filter)
  moreover have "active_ok (if ts_active st = Some i then None else ts_active st)
      (filter (\<lambda>u. ti_res u \<noteq> i) (ts_inputs st))"
    using inv by (cases "ts_active st") (auto simp: text_inv_def active_ok_def)
  ultimately show ?thesis
    using inv by (auto simp: text_inv_def ti_resource_destroy_eq [OF inv Some])
qed

lemma new_text_input_simps [simp]:
  "ti_res (new_text_input i c) = i" "ti_client (new_text_input i c) = c" "ti_blank (new_text_input i c)"
  by (simp_all add: new_text_input_def ti_blank_def clear_committed_surrounding_text_state_def
      clear_surrounding_text_state_def clear_pending_text_input_state_def
      clear_committed_text_input_state_def reset_text_input_request_state_def)

text \<open>A new object is entered at once when its client has the focus.\<close>

lemma manager_get_text_input_eq:
  assumes "i \<notin> set (ti_ids st)"
  shows "manager_get_text_input True c i st =
    (case ts_focused st of
       Some s \<Rightarrow> if su_resource s = Some c
         then st\<lparr>cs_calls := cs_calls st @ [TiEnter i s],
                 ts_inputs := (new_text_input i c)\<lparr>ti_entered := True, ti_entered_surface := Some s\<rparr> # ts_inputs st\<rparr>
         else st\<lparr>ts_inputs := new_text_input i c # ts_inputs st\<rparr>
     | None \<Rightarrow> st\<lparr>ts_inputs := new_text_input i c # ts_inputs st\<rparr>)"
proof -
  have "map (\<lambda>t. if ti_res t = i then f t else t) (ts_inputs st) = ts_inputs st" for f
    using assms by (auto intro!: map_idI simp: rev_image_eqI)
  then show ?thesis
    by (simp add: manager_get_text_input_def Let_def text_input_matches_surface_client_def ti_update_def
        wl_emit_def split: option.split)
qed

lemma text_inv_get_text_input [inv_intros]:
  assumes "text_inv st" "i \<notin> set (ti_ids st)"
  shows "text_inv (manager_get_text_input ok c i st)"
proof (cases ok)
  case True
  have act: "active_ok a ts \<Longrightarrow> active_ok a (t # ts)" for a t ts
    by (auto simp: active_ok_def split: option.splits)
  have fields: "ti_surrounding (new_text_input i c) = None" "ti_cursor (new_text_input i c) = 0"
    "ti_anchor (new_text_input i c) = 0" "ti_pending_surrounding (new_text_input i c) = None"
    "ti_pending_cursor (new_text_input i c) = 0" "ti_pending_anchor (new_text_input i c) = 0"
    by (simp_all add: new_text_input_def)
  have entered: "object_ok (Some s) ((new_text_input i c)\<lparr>ti_entered := True, ti_entered_surface := Some s\<rparr>)"
    if "su_resource s = Some c" for s
    using that by (simp add: object_ok_entered fields)
  have blank: "object_ok None (new_text_input i c)"
    "su_resource s \<noteq> Some c \<Longrightarrow> object_ok (Some s) (new_text_input i c)" for s
    by (auto intro!: object_ok_blank simp: text_input_matches_surface_client_def)
  show ?thesis
    using assms True entered blank act
    by (auto simp: manager_get_text_input_eq [OF assms(2)] text_inv_def split: option.split)
qed (simp add: manager_get_text_input_def assms(1))

end
