(* ===== verification/TextInputProps.thy ===== *)
theory TextInputProps
  imports TextInputInv
begin

text \<open>
  Histories of the text-input module: which requests and focus changes can happen, the reachable
  states, and the properties of the objects and of the keyboard commands sent to Android.
\<close>

subsection \<open>Histories\<close>

datatype ti_op =
    GetTextInput bool nat nat
  | Enable nat
  | Disable nat
  | SetSurrounding nat bool "bytes option" int int
  | SetRectangle nat rect
  | Commit nat
  | DestroyResource nat
  | KeyboardEnter "surface option"
  | KeyboardLeave "surface option"
  | SurfaceDestroyed surface

fun ti_exec :: "ti_op \<Rightarrow> 'a text_state_scheme \<Rightarrow> 'a text_state_scheme" where
  "ti_exec (GetTextInput ok c i) st = manager_get_text_input ok c i st"
| "ti_exec (Enable i) st = ti_enable i st"
| "ti_exec (Disable i) st = ti_disable i st"
| "ti_exec (SetSurrounding i ok s c a) st = ti_set_surrounding_text i ok s c a st"
| "ti_exec (SetRectangle i r) st = ti_set_cursor_rectangle i r st"
| "ti_exec (Commit i) st = ti_commit i st"
| "ti_exec (DestroyResource i) st = ti_resource_destroy i st"
| "ti_exec (KeyboardEnter s) st = text_input_handle_keyboard_enter s st"
| "ti_exec (KeyboardLeave s) st = text_input_handle_keyboard_leave s st"
| "ti_exec (SurfaceDestroyed s) st = surface_destroyed s st"

text \<open>
  What libwayland guarantees of a request: object ids are fresh, a string fits in a message (far
  below \<open>2\<^sup>3\<^sup>1\<close> bytes). With \<open>single\<close>, a client moreover keeps at most one text input, as
  toolkits do.
\<close>

definition ti_op_ok :: "bool \<Rightarrow> ti_op \<Rightarrow> 'a text_state_scheme \<Rightarrow> bool" where
  "ti_op_ok single op st = (case op of
      GetTextInput ok c i \<Rightarrow> i \<notin> set (ti_ids st) \<and> (single \<longrightarrow> c \<notin> ti_client ` set (ts_inputs st))
    | SetSurrounding i ok s c a \<Rightarrow> length (case s of None \<Rightarrow> [] | Some bs \<Rightarrow> bs) < 2 ^ 31
    | _ \<Rightarrow> True)"

text \<open>The state \<^verbatim>\<open>text_input_handler_init\<close> leaves, nothing sent yet.\<close>

definition text_fresh :: "'a text_state_scheme \<Rightarrow> bool" where
  "text_fresh st \<longleftrightarrow> ts_inputs st = [] \<and> ts_active st = None \<and> \<not> ts_committed st \<and> ts_server st \<and>
     ts_focused st = None \<and> ts_listener st = None \<and> 0 \<le> ts_ime_fd st \<and> cs_calls st = []"

inductive ti_reachable :: "bool \<Rightarrow> text_state \<Rightarrow> bool" for single :: bool where
  start: "text_fresh st \<Longrightarrow> ti_reachable single st"
| step: "\<lbrakk>ti_reachable single st; ti_op_ok single op st\<rbrakk> \<Longrightarrow> ti_reachable single (ti_exec op st)"

lemma text_inv_exec: "\<lbrakk>text_inv st; ti_op_ok single op st\<rbrakk> \<Longrightarrow> text_inv (ti_exec op st)"
  by (cases op) (simp_all add: ti_op_ok_def inv_intros)

lemma text_inv_fresh: "text_fresh st \<Longrightarrow> text_inv st"
  by (simp add: text_fresh_def text_inv_def active_ok_def)

lemma text_inv_reachable: "ti_reachable single st \<Longrightarrow> text_inv st"
  by (induction rule: ti_reachable.induct) (auto intro: text_inv_fresh text_inv_exec)

text \<open>Running a list of operations from a reachable state.\<close>

fun ti_run :: "bool \<Rightarrow> ti_op list \<Rightarrow> text_state \<Rightarrow> text_state option" where
  "ti_run single [] st = Some st"
| "ti_run single (op # ops) st = (if ti_op_ok single op st then ti_run single ops (ti_exec op st) else None)"

lemma ti_run_reachable:
  "\<lbrakk>ti_reachable single st; ti_run single ops st = Some st'\<rbrakk> \<Longrightarrow> ti_reachable single st'"
  by (induction ops arbitrary: st) (auto intro: ti_reachable.step split: if_splits)

definition text_state0 :: text_state where
  "text_state0 =
     \<lparr>cs_calls = [], cs_seat = True, cs_keyboard = True, cs_toplevels = [], ts_inputs = [],
      ts_active = None, ts_committed = False, ts_server = True, ts_focused = None,
      ts_listener = None, ts_ime_fd = 9\<rparr>"

definition surface_a :: surface where
  "surface_a = \<lparr>su_id = 1, su_resource = Some 7\<rparr>"

lemma text_state0_reachable: "ti_reachable single text_state0"
  by (rule ti_reachable.start) (simp add: text_fresh_def text_state0_def)

lemmas ti_run_simps = ti_op_ok_def text_state0_def surface_a_def manager_get_text_input_def
  new_text_input_def text_input_matches_surface_client_def ti_update_def ti_find_def wl_emit_def
  text_input_handle_keyboard_enter_def clear_text_input_focus_def leave_if_on_def enter_if_client_def
  reset_text_input_request_state_def clear_pending_text_input_state_def
  clear_committed_text_input_state_def clear_surrounding_text_state_def
  clear_committed_surrounding_text_state_def ti_enable_def ti_disable_def ti_commit_def
  set_active_text_input_def request_ime_show_def request_ime_hide_def request_ime_command_def
  commit_surrounding_def commit_rectangle_def Let_def

subsection \<open>Properties of the objects\<close>

text \<open>
  C13: In every reachable state: an object is entered exactly when its client owns the surface with
  text focus, and then on that surface; an object that is not entered holds no request state at all;
  committed surrounding text exists only while the object is enabled, with its cursor and anchor
  inside the text; the active object is entered and enabled; the flag the JNI thread reads says
  whether there is an active object; the destroy listener sits on the focused surface.
\<close>

theorem text_input_invariant:
  assumes "ti_reachable single st"
  shows "(\<forall>t \<in> set (ts_inputs st).
       (ti_entered t = (\<exists>s. ts_focused st = Some s \<and> su_resource s = Some (ti_client t))) \<and>
       (ti_entered t \<longrightarrow> ti_entered_surface t = ts_focused st) \<and>
       (\<not> ti_entered t \<longrightarrow> \<not> ti_current_enabled t \<and> \<not> ti_pending_enabled t \<and>
          ti_surrounding t = None \<and> ti_pending_surrounding t = None \<and> ti_entered_surface t = None) \<and>
       (\<forall>bs. ti_surrounding t = Some bs \<longrightarrow> ti_current_enabled t \<and>
          0 \<le> ti_cursor t \<and> ti_cursor t \<le> int (length bs) \<and>
          0 \<le> ti_anchor t \<and> ti_anchor t \<le> int (length bs))) \<and>
    (\<forall>i. ts_active st = Some i \<longrightarrow>
       (\<exists>t \<in> set (ts_inputs st). ti_res t = i \<and> ti_entered t \<and> ti_current_enabled t)) \<and>
    text_input_has_active_text_input st = (ts_active st \<noteq> None) \<and>
    ts_listener st = ts_focused st"
proof (intro conjI ballI)
  note inv = text_inv_reachable [OF assms]
  fix t assume "t \<in> set (ts_inputs st)"
  then have ok: "object_ok (ts_focused st) t" using inv by (simp add: text_inv_def)
  show "ti_entered t = (\<exists>s. ts_focused st = Some s \<and> su_resource s = Some (ti_client t))"
    using ok unfolding object_ok_def text_input_matches_surface_client_def by blast
  show "ti_entered t \<longrightarrow> ti_entered_surface t = ts_focused st"
    using ok unfolding object_ok_def by blast
  show "\<not> ti_entered t \<longrightarrow> \<not> ti_current_enabled t \<and> \<not> ti_pending_enabled t \<and>
      ti_surrounding t = None \<and> ti_pending_surrounding t = None \<and> ti_entered_surface t = None"
  proof
    assume "\<not> ti_entered t"
    then have "ti_blank t" using ok unfolding object_ok_def by blast
    from blank_fields [OF this] show "\<not> ti_current_enabled t \<and> \<not> ti_pending_enabled t \<and>
      ti_surrounding t = None \<and> ti_pending_surrounding t = None \<and> ti_entered_surface t = None"
      by simp
  qed
  show "\<forall>bs. ti_surrounding t = Some bs \<longrightarrow> ti_current_enabled t \<and>
      0 \<le> ti_cursor t \<and> ti_cursor t \<le> int (length bs) \<and> 0 \<le> ti_anchor t \<and> ti_anchor t \<le> int (length bs)"
  proof (intro allI impI)
    fix bs assume bs: "ti_surrounding t = Some bs"
    have "ti_surrounding t \<noteq> None \<longrightarrow> ti_current_enabled t"
      "position_ok (ti_surrounding t) (ti_cursor t)" "position_ok (ti_surrounding t) (ti_anchor t)"
      using ok unfolding object_ok_def by blast+
    with bs show "ti_current_enabled t \<and> 0 \<le> ti_cursor t \<and> ti_cursor t \<le> int (length bs) \<and>
        0 \<le> ti_anchor t \<and> ti_anchor t \<le> int (length bs)" by (simp add: position_ok_def)
  qed
next
  note inv = text_inv_reachable [OF assms]
  show "\<forall>i. ts_active st = Some i \<longrightarrow>
      (\<exists>t \<in> set (ts_inputs st). ti_res t = i \<and> ti_entered t \<and> ti_current_enabled t)"
    using inv by (auto simp: text_inv_def active_ok_def)
  show "text_input_has_active_text_input st = (ts_active st \<noteq> None)" "ts_listener st = ts_focused st"
    using inv by (simp_all add: text_inv_def text_input_has_active_text_input_def)
qed

text \<open>One client, one object, focused, enabled, with surrounding text.\<close>

definition enable_history :: "ti_op list" where
  "enable_history = [GetTextInput True 7 3, KeyboardEnter (Some surface_a), Enable 3,
     SetSurrounding 3 True (Some [104, 105]) 9 1, Commit 3]"

definition enabled_state :: text_state where
  "enabled_state = the (ti_run True enable_history text_state0)"

lemma enabled_state_eq:
  "enabled_state = text_state0
     \<lparr>cs_calls := [TiEnter 3 surface_a, ImeCmd (CHR ''S'')],
      ts_inputs := [\<lparr>ti_res = 3, ti_client = 7, ti_pending_enabled = True, ti_current_enabled = True,
        ti_serial = 1, ti_entered = True, ti_entered_surface = Some surface_a,
        ti_surrounding = Some [104, 105], ti_cursor = 2, ti_anchor = 1,
        ti_pending_surrounding = None, ti_pending_cursor = 0, ti_pending_anchor = 0,
        ti_pending_set = False, ti_pending_rect_set = False,
        ti_pending_rect = (0, 0, 0, 0), ti_rect_set = False, ti_rect = (0, 0, 0, 0)\<rparr>],
      ts_active := Some 3, ts_committed := True, ts_focused := Some surface_a,
      ts_listener := Some surface_a\<rparr>"
  and enabled_state_run: "ti_run True enable_history text_state0 = Some enabled_state"
  by (simp_all add: enabled_state_def enable_history_def ti_run_simps ti_set_surrounding_text_def
      clamp_position_def)

lemma enabled_state_reachable: "ti_reachable True enabled_state"
  by (rule ti_run_reachable [OF text_state0_reachable enabled_state_run])

theorem text_input_invariant_witness:
  "text_input_has_active_text_input enabled_state \<and> ti_cursor (hd (ts_inputs enabled_state)) = 2"
  using text_input_invariant [OF enabled_state_reachable] by (simp add: enabled_state_eq)

subsection \<open>Focus and requests\<close>

lemma enter_calls_left:
  "enter_calls s (map (\<lambda>t. if ti_entered t then leave_object t else t) ts) =
   map (\<lambda>t. TiEnter (ti_res t) s) (filter (\<lambda>t. su_resource s = Some (ti_client t)) ts)"
proof (induction ts)
  case (Cons t ts)
  then show ?case
    by (cases "ti_entered t"; cases "su_resource s = Some (ti_client t)")
      (simp_all add: enter_calls_def text_input_matches_surface_client_def)
qed (simp add: enter_calls_def)

text \<open>
  C15: A change of keyboard focus to another surface first sends a leave to every entered object
  in list order (with the hide command right after the leave of the active one), then an enter to
  every object of the new surface's client in list order; afterwards exactly those are entered, none
  is enabled and none is active. Entering the surface that has the focus already sends nothing.
\<close>

theorem keyboard_focus_protocol:
  assumes "ti_reachable single st" "su_resource s \<noteq> None"
  shows "let st' = text_input_handle_keyboard_enter (Some s) st in
    (ts_focused st = Some s \<longrightarrow> st' = st) \<and>
    (ts_focused st \<noteq> Some s \<longrightarrow>
       cs_calls st' = cs_calls st
         @ concat (map (leave_calls True st) (filter ti_entered (ts_inputs st)))
         @ map (\<lambda>t. TiEnter (ti_res t) s)
             (filter (\<lambda>t. su_resource s = Some (ti_client t)) (ts_inputs st)) \<and>
       ts_focused st' = Some s \<and> ts_active st' = None \<and>
       (\<forall>t \<in> set (ts_inputs st'). ti_entered t = (su_resource s = Some (ti_client t)) \<and>
          \<not> ti_current_enabled t))"
proof -
  note inv = text_inv_reachable [OF assms(1)]
  let ?st = "text_input_handle_keyboard_enter (Some s) st"
  have same: "?st = st" if "ts_focused st = Some s"
    using that by (simp add: keyboard_enter_under_inv [OF inv])
  have moved: "?st = focus_moved s st" if "ts_focused st \<noteq> Some s"
    using that assms(2) by (cases "su_resource s") (simp_all add: keyboard_enter_under_inv [OF inv])
  have calls: "cs_calls (focus_moved s st) = cs_calls st
      @ concat (map (leave_calls True st) (filter ti_entered (ts_inputs st)))
      @ map (\<lambda>t. TiEnter (ti_res t) s)
          (filter (\<lambda>t. su_resource s = Some (ti_client t)) (ts_inputs st))"
    by (simp add: focus_moved_def Let_def cleared_def enter_calls_left)
  have fields: "ts_focused (focus_moved s st) = Some s" "ts_active (focus_moved s st) = None"
    by (simp_all add: focus_moved_def Let_def cleared_def)
  have objs: "ti_entered t = (su_resource s = Some (ti_client t)) \<and> \<not> ti_current_enabled t"
    if t: "t \<in> set (ts_inputs (focus_moved s st))" for t
  proof -
    obtain u where u: "u \<in> set (ts_inputs (cleared True st))"
      "t = (if text_input_matches_surface_client u s then enter_object s u else u)"
      using t by (auto simp: focus_moved_def Let_def)
    have "ti_blank u"
    proof -
      have "object_ok None u"
        using text_inv_cleared [OF inv, of True] u(1) by (simp add: text_inv_def cleared_def)
      then show ?thesis unfolding object_ok_def by blast
    qed
    from blank_fields [OF this] u(2) show ?thesis
      by (simp add: text_input_matches_surface_client_def)
  qed
  show ?thesis unfolding Let_def using same moved calls fields objs by simp
qed

theorem keyboard_focus_protocol_witness:
  "cs_calls (text_input_handle_keyboard_enter (Some \<lparr>su_id = 2, su_resource = Some 8\<rparr>) enabled_state) =
     [TiEnter 3 surface_a, ImeCmd (CHR ''S''), TiLeave 3 surface_a, ImeCmd (CHR ''H'')]"
  using keyboard_focus_protocol [OF enabled_state_reachable, of "\<lparr>su_id = 2, su_resource = Some 8\<rparr>"]
  by (simp add: Let_def enabled_state_eq leave_calls_def surface_a_def text_state0_def)

text \<open>
  Requests on an object that is not entered, commit included, change nothing.
\<close>

theorem unfocused_requests_ignored:
  assumes "ti_reachable single st" "t \<in> set (ts_inputs st)" "\<not> ti_entered t"
    and "op \<in> {Enable (ti_res t), Disable (ti_res t), SetSurrounding (ti_res t) ok text c a,
      SetRectangle (ti_res t) r, Commit (ti_res t)}"
  shows "ti_exec op st = st"
proof -
  note inv = text_inv_reachable [OF assms(1)]
  then have d: "distinct (ti_ids st)" by (simp add: text_inv_def)
  have f: "ti_find (ti_res t) st = Some t" using ti_find_iff [OF d] assms(2) by blast
  have "ti_blank t" using inv assms(2,3) unfolding text_inv_def object_ok_def by blast
  then have unchanged: "clear_surrounding_text_state (clear_pending_text_input_state t) = t"
    by (cases t) (simp add: ti_blank_def clear_committed_surrounding_text_state_def
        clear_surrounding_text_state_def clear_pending_text_input_state_def
        clear_committed_text_input_state_def reset_text_input_request_state_def)
  have uniq: "u = t" if "u \<in> set (ts_inputs st)" "ti_res u = ti_res t" for u
    using d assms(2) that by (auto simp: distinct_map inj_on_def)
  have "(if ti_res u = ti_res t then clear_surrounding_text_state (clear_pending_text_input_state u) else u) = u"
    if "u \<in> set (ts_inputs st)" for u
    using unchanged uniq [OF that] by (cases "ti_res u = ti_res t") simp_all
  then have "ti_update (ti_res t) (\<lambda>t. clear_surrounding_text_state (clear_pending_text_input_state t)) st = st"
    unfolding ti_update_def by (simp add: map_idI)
  then show ?thesis
    using assms(3,4) f
    by (auto simp: ti_enable_def ti_disable_def ti_set_surrounding_text_def ti_set_cursor_rectangle_def
        ti_commit_def)
qed

definition unfocused_state :: text_state where
  "unfocused_state = ti_exec (GetTextInput True 7 3) text_state0"

theorem unfocused_requests_ignored_witness:
  "ti_exec (Enable 3) unfocused_state = unfocused_state"
proof -
  have r: "ti_reachable True unfocused_state"
    unfolding unfocused_state_def
    by (rule ti_reachable.step [OF text_state0_reachable]) (simp add: ti_op_ok_def text_state0_def)
  have "new_text_input 3 7 \<in> set (ts_inputs unfocused_state)"
    by (simp add: unfocused_state_def manager_get_text_input_def text_state0_def)
  from unfocused_requests_ignored [OF r this, of "Enable 3"] show ?thesis
    by (simp add: new_text_input_def)
qed

text \<open>
  A commit on an entered object makes its pending state current: the enabled state, the
  surrounding text when one is pending (and none when disabled), a serial one higher. It activates
  the object when enabled, deactivates it when it was the active one, and touches no other object.
\<close>

theorem commit_applies_pending:
  assumes "ti_reachable single st" "t \<in> set (ts_inputs st)" "ti_entered t"
  shows "let p = ti_pending_enabled t; st' = ti_commit (ti_res t) st in
    (\<exists>t' \<in> set (ts_inputs st'). ti_res t' = ti_res t \<and> ti_entered t' \<and> ti_current_enabled t' = p \<and>
       ti_serial t' = ti_serial t + 1 \<and>
       ti_surrounding t' = (if \<not> p then None
          else if ti_pending_set t then ti_pending_surrounding t else ti_surrounding t)) \<and>
    filter (\<lambda>u. ti_res u \<noteq> ti_res t) (ts_inputs st') = filter (\<lambda>u. ti_res u \<noteq> ti_res t) (ts_inputs st) \<and>
    ts_active st' = (if p then Some (ti_res t) else if ts_active st = Some (ti_res t) then None
                     else ts_active st)"
proof -
  have d: "distinct (ti_ids st)" using text_inv_reachable [OF assms(1)] by (simp add: text_inv_def)
  have f: "ti_find (ti_res t) st = Some t" using ti_find_iff [OF d] assms(2) by blast
  let ?g = "\<lambda>u. if ti_res u = ti_res t then commit_object (ti_pending_enabled t) u else u"
  have inp: "ts_inputs (ti_commit (ti_res t) st) = map ?g (ts_inputs st)"
    and act: "ts_active (ti_commit (ti_res t) st) = (if ti_pending_enabled t then Some (ti_res t)
        else if ts_active st = Some (ti_res t) then None else ts_active st)"
    by (subst ti_commit_eq [OF f d assms(3)], simp)+
  have "commit_object (ti_pending_enabled t) t \<in> set (map ?g (ts_inputs st))"
    using in_map [OF assms(2), of ?g] by simp
  moreover have "filter (\<lambda>u. ti_res u \<noteq> ti_res t) (map ?g ts) = filter (\<lambda>u. ti_res u \<noteq> ti_res t) ts" for ts
    by (induction ts) simp_all
  ultimately show ?thesis
    unfolding Let_def inp act using assms(3)
    by (intro conjI bexI [of _ "commit_object (ti_pending_enabled t) t"]) simp_all
qed

theorem commit_applies_pending_witness:
  "ts_active (ti_commit 3 (ti_exec (Disable 3) enabled_state)) = None"
proof -
  have r: "ti_reachable True (ti_exec (Disable 3) enabled_state)"
    by (rule ti_reachable.step [OF enabled_state_reachable]) (simp add: ti_op_ok_def)
  from commit_applies_pending [OF r, of "hd (ts_inputs (ti_exec (Disable 3) enabled_state))"]
  show ?thesis
    by (simp add: Let_def enabled_state_eq ti_disable_def ti_find_def ti_update_def
        clear_committed_surrounding_text_state_def)
qed

subsection \<open>Showing and hiding the Android keyboard\<close>

definition ime_of :: "wl_call list \<Rightarrow> string" where
  "ime_of cs = concat (map (\<lambda>c. case c of ImeCmd x \<Rightarrow> [x] | _ \<Rightarrow> []) cs)"

lemma ime_of_simps [simp]:
  "ime_of [] = []" "ime_of (xs @ ys) = ime_of xs @ ime_of ys"
  "ime_of (c # cs) = (case c of ImeCmd x \<Rightarrow> [x] | _ \<Rightarrow> []) @ ime_of cs"
  by (simp_all add: ime_of_def)

lemma ime_of_enter_calls [simp]: "ime_of (enter_calls s ts) = []"
  by (induction ts) (simp_all add: enter_calls_def)

text \<open>The state from which the keyboard commands follow: pipe open, one object per client.\<close>

definition ime_inv :: "text_state \<Rightarrow> bool" where
  "ime_inv st \<longleftrightarrow> text_inv st \<and> ts_server st \<and> 0 \<le> ts_ime_fd st \<and>
     distinct (map ti_client (ts_inputs st)) \<and>
     (\<forall>t \<in> set (ts_inputs st). ti_current_enabled t \<longrightarrow> ts_active st = Some (ti_res t)) \<and>
     (\<exists>k. ime_of (cs_calls st) =
        concat (replicate k ''SH'') @ (if ts_active st = None then [] else ''S''))"

text \<open>What an operation may do to the commands: nothing, show when idle, hide when active.\<close>

definition ime_moves :: "text_state \<Rightarrow> text_state \<Rightarrow> bool" where
  "ime_moves st st' \<longleftrightarrow>
     ime_of (cs_calls st') = ime_of (cs_calls st) @
       (if (ts_active st = None) = (ts_active st' = None) then []
        else if ts_active st = None then ''S'' else ''H'')"

lemma concat_replicate_snoc: "concat (replicate (Suc k) xs) = concat (replicate k xs) @ xs"
  by (induction k) simp_all

lemma ime_history:
  assumes "ime_moves st st'"
    and "\<exists>k. ime_of (cs_calls st) = concat (replicate k ''SH'') @ (if ts_active st = None then [] else ''S'')"
  shows "\<exists>k. ime_of (cs_calls st') = concat (replicate k ''SH'') @ (if ts_active st' = None then [] else ''S'')"
proof -
  obtain k where k: "ime_of (cs_calls st) = concat (replicate k ''SH'') @ (if ts_active st = None then [] else ''S'')"
    using assms(2) by blast
  show ?thesis
  proof (cases "ts_active st \<noteq> None \<and> ts_active st' = None")
    case True
    then have "ime_of (cs_calls st') = concat (replicate (Suc k) ''SH'')"
      using assms(1) k unfolding ime_moves_def concat_replicate_snoc by auto
    with True show ?thesis by (intro exI [of _ "Suc k"]) simp
  next
    case False
    then show ?thesis using assms(1) k unfolding ime_moves_def by (intro exI [of _ k]) auto
  qed
qed

lemma ime_of_leaves:
  assumes "distinct (map ti_res ts)" "ts_server st" "0 \<le> ts_ime_fd st"
  shows "ime_of (concat (map (leave_calls send st) ts)) =
    (if \<exists>t \<in> set ts. ts_active st = Some (ti_res t) \<and> ti_current_enabled t then ''H'' else [])"
  using assms(1)
proof (induction ts)
  case (Cons t ts)
  have one: "ime_of (leave_calls send st t) =
      (if ts_active st = Some (ti_res t) \<and> ti_current_enabled t then ''H'' else [])"
    using assms(2,3) by (simp add: leave_calls_def split: option.split)
  show ?case
  proof (cases "ts_active st = Some (ti_res t) \<and> ti_current_enabled t")
    case True
    moreover have "ti_res t \<noteq> ti_res u" if "u \<in> set ts" for u
      using Cons.prems that by auto
    ultimately have "\<not> (\<exists>u \<in> set ts. ts_active st = Some (ti_res u) \<and> ti_current_enabled u)"
      by auto
    with Cons one True show ?thesis by simp
  next
    case False
    with Cons one show ?thesis by simp
  qed
qed simp

lemma ime_moves_cleared:
  assumes "ime_inv st"
  shows "ime_moves st (cleared send st)"
proof -
  have inv: "text_inv st" and srv: "ts_server st" "0 \<le> ts_ime_fd st"
    using assms by (simp_all add: ime_inv_def)
  have "distinct (map ti_res (filter ti_entered (ts_inputs st)))"
    using inv by (simp add: text_inv_def distinct_map_filter)
  note h = ime_of_leaves [OF this srv, of send]
  have "(\<exists>t \<in> set (filter ti_entered (ts_inputs st)). ts_active st = Some (ti_res t) \<and> ti_current_enabled t)
      = (ts_active st \<noteq> None)"
    using inv by (cases "ts_active st") (auto simp: text_inv_def active_ok_def)
  with h show ?thesis by (simp add: ime_moves_def cleared_def)
qed

text \<open>The rest of \<open>ime_inv\<close> moves along when an operation keeps clients and enables nothing.\<close>

lemma ime_invI:
  assumes "ime_inv st" "text_inv st'" "ts_server st' = ts_server st" "ts_ime_fd st' = ts_ime_fd st"
    and "distinct (map ti_client (ts_inputs st'))"
    and "\<And>t. \<lbrakk>t \<in> set (ts_inputs st'); ti_current_enabled t\<rbrakk> \<Longrightarrow> ts_active st' = Some (ti_res t)"
    and "ime_moves st st'"
  shows "ime_inv st'"
proof -
  have srv: "ts_server st" "0 \<le> ts_ime_fd st"
    and h: "\<exists>k. ime_of (cs_calls st) = concat (replicate k ''SH'') @ (if ts_active st = None then [] else ''S'')"
    using assms(1) unfolding ime_inv_def by blast+
  show ?thesis
    unfolding ime_inv_def
    by (intro conjI ballI impI) (use assms(2-6) srv ime_history [OF assms(7) h] in simp_all)
qed

lemma map_client_if:
  "(\<And>t. ti_client (f t) = ti_client t) \<Longrightarrow>
   map ti_client (map (\<lambda>t. if P t then f t else t) ts) = map ti_client ts"
  by (induction ts) simp_all

lemma cleared_inputs:
  "ts_inputs (cleared send st) = map (\<lambda>t. if ti_entered t then leave_object t else t) (ts_inputs st)"
  by (simp add: cleared_def)

lemma ime_inv_cleared:
  assumes "ime_inv st"
  shows "ime_inv (cleared send st)"
proof (rule ime_invI [OF assms])
  have inv: "text_inv st" using assms by (simp add: ime_inv_def)
  show "text_inv (cleared send st)" by (rule text_inv_cleared [OF inv])
  show "distinct (map ti_client (ts_inputs (cleared send st)))"
    using assms unfolding cleared_inputs map_client_if [of leave_object, OF leave_object_simps(2)]
    by (simp add: ime_inv_def)
  show "ime_moves st (cleared send st)" by (rule ime_moves_cleared [OF assms])
next
  fix t assume t: "t \<in> set (ts_inputs (cleared send st))" "ti_current_enabled t"
  have "text_inv (cleared send st)" using assms text_inv_cleared by (auto simp: ime_inv_def)
  then have "object_ok None t" using t(1) by (simp add: text_inv_def cleared_def)
  then have "ti_blank t" unfolding object_ok_def by blast
  with t(2) blank_fields show "ts_active (cleared send st) = Some (ti_res t)" by blast
qed (simp_all add: cleared_def)

lemma ime_inv_clear: "ime_inv st \<Longrightarrow> ime_inv (clear_text_input_focus sf send st)"
  using ime_inv_cleared [of st send] clear_under_inv [of st sf send] by (auto simp: ime_inv_def [of st])

lemma ime_inv_focus_moved:
  assumes "ime_inv st"
  shows "ime_inv (focus_moved s st)"
proof (rule ime_invI [OF ime_inv_cleared [OF assms, of True]])
  let ?c = "cleared True st"
  have inv: "text_inv st" using assms by (simp add: ime_inv_def)
  have c: "ime_inv ?c" by (rule ime_inv_cleared [OF assms])
  show "text_inv (focus_moved s st)" by (rule text_inv_focus_moved [OF inv])
  have inp: "ts_inputs (focus_moved s st) =
      map (\<lambda>t. if text_input_matches_surface_client t s then enter_object s t else t) (ts_inputs ?c)"
    by (simp add: focus_moved_def Let_def)
  show "distinct (map ti_client (ts_inputs (focus_moved s st)))"
    using c unfolding inp map_client_if [of "enter_object s", OF enter_object_simps(2)] ime_inv_def by blast
  show "ime_moves ?c (focus_moved s st)"
    by (simp add: ime_moves_def focus_moved_def Let_def cleared_def)
  show "ts_active (focus_moved s st) = Some (ti_res t)"
    if t: "t \<in> set (ts_inputs (focus_moved s st))" "ti_current_enabled t" for t
  proof -
    obtain u where u: "u \<in> set (ts_inputs ?c)"
      "t = (if text_input_matches_surface_client u s then enter_object s u else u)"
      using t(1) inp by auto
    then have "ti_current_enabled u" using t(2) by (simp split: if_splits)
    then have "ts_active ?c = Some (ti_res u)" using c u(1) by (simp add: ime_inv_def)
    then show ?thesis by (simp add: cleared_def)
  qed
qed (simp_all add: focus_moved_def Let_def cleared_def)

lemma ime_inv_keyboard_enter: "ime_inv st \<Longrightarrow> ime_inv (text_input_handle_keyboard_enter sf st)"
  using ime_inv_focus_moved [of st] keyboard_enter_under_inv [of st sf]
  by (cases sf) (auto simp: ime_inv_def [of st])

text \<open>Requests other than commit send nothing and enable nothing.\<close>

lemma ime_inv_update:
  assumes "ime_inv st" "text_inv (ti_update i f st)"
    and "\<And>t. ti_client (f t) = ti_client t" "\<And>t. ti_res (f t) = ti_res t"
    "\<And>t. ti_current_enabled (f t) = ti_current_enabled t"
  shows "ime_inv (ti_update i f st)"
proof (rule ime_invI [OF assms(1,2)])
  show "distinct (map ti_client (ts_inputs (ti_update i f st)))"
    using assms(1) unfolding ti_update_simps map_client_if [of f, OF assms(3)] ime_inv_def by blast
  show "ime_moves st (ti_update i f st)" by (simp add: ime_moves_def)
  fix t assume t: "t \<in> set (ts_inputs (ti_update i f st))" "ti_current_enabled t"
  then obtain u where u: "u \<in> set (ts_inputs st)" "t = (if ti_res u = i then f u else u)" by auto
  then have "ti_current_enabled u" "ti_res t = ti_res u" using t(2) assms(4,5) by (auto split: if_splits)
  then show "ts_active (ti_update i f st) = Some (ti_res t)" using assms(1) u(1) by (simp add: ime_inv_def)
qed simp_all

lemma ime_inv_requests:
  assumes "ime_inv st"
  shows "ime_inv (ti_enable i st)" "ime_inv (ti_disable i st)" "ime_inv (ti_set_cursor_rectangle i r st)"
    "length (case text of None \<Rightarrow> [] | Some s \<Rightarrow> s) < 2 ^ 31 \<Longrightarrow>
     ime_inv (ti_set_surrounding_text i ok text c a st)"
proof -
  have inv: "text_inv st" using assms by (simp add: ime_inv_def)
  note ps = text_inv_enable [OF inv, of i] text_inv_disable [OF inv, of i]
    text_inv_set_rectangle [OF inv, of i r] text_inv_set_surrounding [OF inv, of "text" i ok c a]
  show "ime_inv (ti_enable i st)" "ime_inv (ti_disable i st)" "ime_inv (ti_set_cursor_rectangle i r st)"
    using ps assms
    by (auto simp: ti_enable_def ti_disable_def ti_set_cursor_rectangle_def
        clear_committed_surrounding_text_state_def split: option.splits if_splits intro!: ime_inv_update)
  show "ime_inv (ti_set_surrounding_text i ok text c a st)"
    if "length (case text of None \<Rightarrow> [] | Some s \<Rightarrow> s) < 2 ^ 31"
    using ps(4) [OF that] assms
    by (auto simp: ti_set_surrounding_text_def Let_def split: option.splits if_splits intro!: ime_inv_update)
qed

lemma ime_inv_get_text_input:
  assumes "ime_inv st" "ti_op_ok True (GetTextInput ok c i) st"
  shows "ime_inv (manager_get_text_input ok c i st)"
proof (cases ok)
  case True
  have inv: "text_inv st" and new: "i \<notin> set (ti_ids st)" "c \<notin> ti_client ` set (ts_inputs st)"
    using assms by (auto simp: ime_inv_def ti_op_ok_def)
  note eq = manager_get_text_input_eq [OF new(1), of c]
  have old: "\<And>t. \<lbrakk>t \<in> set (ts_inputs st); ti_current_enabled t\<rbrakk> \<Longrightarrow> ts_active st = Some (ti_res t)"
    "distinct (map ti_client (ts_inputs st))"
    using assms(1) unfolding ime_inv_def by blast+
  have "ime_inv (manager_get_text_input True c i st)"
  proof (rule ime_invI [OF assms(1) text_inv_get_text_input [OF inv new(1)]])
    show "distinct (map ti_client (ts_inputs (manager_get_text_input True c i st)))"
      using old(2) new(2) by (simp add: eq split: option.split)
    show "ts_active (manager_get_text_input True c i st) = Some (ti_res t)"
      if "t \<in> set (ts_inputs (manager_get_text_input True c i st))" "ti_current_enabled t" for t
      using that old(1) [of t]
      by (auto simp: eq new_text_input_def split: option.splits if_splits)
  qed (simp_all add: eq ime_moves_def split: option.split)
  with True show ?thesis by simp
qed (simp add: manager_get_text_input_def assms(1))

lemma ime_inv_destroy:
  assumes "ime_inv st"
  shows "ime_inv (ti_resource_destroy i st)"
proof (cases "ti_find i st")
  case None
  with assms show ?thesis by (simp add: ti_resource_destroy_def)
next
  case (Some t)
  have inv: "text_inv st" and srv: "ts_server st" "\<not> ts_ime_fd st < 0"
    and old: "\<And>t. \<lbrakk>t \<in> set (ts_inputs st); ti_current_enabled t\<rbrakk> \<Longrightarrow> ts_active st = Some (ti_res t)"
      "distinct (map ti_client (ts_inputs st))"
    using assms unfolding ime_inv_def by auto
  note eq = ti_resource_destroy_eq [OF inv Some]
  show ?thesis
  proof (rule ime_invI [OF assms text_inv_destroy [OF inv]])
    show "distinct (map ti_client (ts_inputs (ti_resource_destroy i st)))"
      using old(2) by (simp add: eq distinct_map_filter)
    show "ts_active (ti_resource_destroy i st) = Some (ti_res t)"
      if "t \<in> set (ts_inputs (ti_resource_destroy i st))" "ti_current_enabled t" for t
      using that old(1) [of t] by (auto simp: eq)
    show "ime_moves st (ti_resource_destroy i st)"
      using srv by (simp add: eq ime_moves_def)
  qed (simp_all add: eq)
qed

lemma ime_inv_commit:
  assumes "ime_inv st"
  shows "ime_inv (ti_commit i st)"
proof (cases "ti_find i st")
  case None
  with assms show ?thesis by (simp add: ti_commit_def)
next
  case (Some t)
  have inv: "text_inv st" and srv: "ts_server st" "\<not> ts_ime_fd st < 0"
    and old: "\<And>t. \<lbrakk>t \<in> set (ts_inputs st); ti_current_enabled t\<rbrakk> \<Longrightarrow> ts_active st = Some (ti_res t)"
      "distinct (map ti_client (ts_inputs st))"
    using assms unfolding ime_inv_def by auto
  have d: "distinct (ti_ids st)" using inv by (simp add: text_inv_def)
  have tin: "t \<in> set (ts_inputs st)" "ti_res t = i" using Some ti_find_iff [OF d] by auto
  note fo = found_ok [OF inv Some]
  show ?thesis
  proof (cases "ti_entered t")
    case False
    have "ti_commit i st = ti_update i (\<lambda>t. clear_surrounding_text_state (clear_pending_text_input_state t)) st"
      using Some False by (simp add: ti_commit_def)
    then show ?thesis
      using text_inv_commit [OF inv, of i]
      by (auto intro!: ime_inv_update [OF assms]
          simp: clear_surrounding_text_state_def clear_pending_text_input_state_def
            clear_committed_surrounding_text_state_def)
  next
    case True
    let ?p = "ti_pending_enabled t"
    note eq = ti_commit_eq [OF Some d True]
    have inp: "ts_inputs (ti_commit i st) =
        map (\<lambda>u. if ti_res u = i then commit_object ?p u else u) (ts_inputs st)"
      and act: "ts_active (ti_commit i st) =
        (if ?p then Some i else if ts_active st = Some i then None else ts_active st)"
      and calls: "cs_calls (ti_commit i st) = cs_calls st @ commit_calls st t"
      and rest: "ts_server (ti_commit i st) = ts_server st" "ts_ime_fd (ti_commit i st) = ts_ime_fd st"
      by (subst eq, simp)+
    have only: "u = t" if u: "u \<in> set (ts_inputs st)" "ti_entered u" for u
    proof -
      have "object_ok (ts_focused st) u" "object_ok (ts_focused st) t"
        using inv u(1) tin(1) by (auto simp: text_inv_def)
      then have "ti_client u = ti_client t"
        using u(2) True unfolding object_ok_def text_input_matches_surface_client_def by force
      then show ?thesis using old(2) u(1) tin(1) by (auto simp: distinct_map inj_on_def)
    qed
    have cur: "ti_current_enabled t = (ts_active st = Some i)"
      using old(1) [OF tin(1)] tin(2) fo by blast
    have idle: "ts_active st = None \<or> ts_active st = Some i"
    proof (cases "ts_active st")
      case (Some j)
      then obtain u where "u \<in> set (ts_inputs st)" "ti_res u = j" "ti_entered u"
        using inv by (auto simp: text_inv_def active_ok_def)
      then show ?thesis using only [of u] tin(2) Some by simp
    qed simp
    show ?thesis
    proof (rule ime_invI [OF assms text_inv_commit [OF inv] rest])
      show "distinct (map ti_client (ts_inputs (ti_commit i st)))"
        using old(2) unfolding inp map_client_if [of "commit_object ?p", OF commit_object_simps(2)] .
      show "ime_moves st (ti_commit i st)"
        using srv cur idle tin(2) by (auto simp: ime_moves_def act calls commit_calls_def)
      fix v assume v: "v \<in> set (ts_inputs (ti_commit i st))" "ti_current_enabled v"
      then obtain u where u: "u \<in> set (ts_inputs st)" "v = (if ti_res u = i then commit_object ?p u else u)"
        using inp by auto
      show "ts_active (ti_commit i st) = Some (ti_res v)"
      proof (cases "ti_res u = i")
        case True
        with u v(2) show ?thesis by (simp add: act)
      next
        case False
        then have "ts_active st = Some (ti_res u)" using u v(2) old(1) [of u] by simp
        with idle False show ?thesis by simp
      qed
    qed
  qed
qed

lemma ime_inv_exec:
  assumes "ime_inv st" "ti_op_ok True op st"
  shows "ime_inv (ti_exec op st)"
  using assms
  by (cases op)
    (auto simp: text_input_handle_keyboard_leave_def surface_destroyed_def
      handle_focused_text_input_surface_destroy_def ti_op_ok_def
      intro!: ime_inv_requests ime_inv_commit ime_inv_destroy ime_inv_clear ime_inv_keyboard_enter
        ime_inv_get_text_input)

lemma ime_inv_reachable: "ti_reachable True st \<Longrightarrow> ime_inv st"
proof (induction rule: ti_reachable.induct)
  case (start st)
  then show ?case
    using text_inv_fresh [OF start] by (auto simp: ime_inv_def text_fresh_def intro: exI [of _ 0])
next
  case (step st op)
  then show ?case by (blast intro: ime_inv_exec)
qed

text \<open>
  C14: With at most one text input per client, the commands to Android alternate show, hide,
  show, ... in every history, and the last one says whether an enabled text input has the focus: the
  soft keyboard follows the text field. (A client with two text inputs breaks this, as the history
  below shows.)
\<close>

theorem ime_commands_alternate:
  assumes "ti_reachable True st"
  shows "(\<exists>k. ime_of (cs_calls st) =
       concat (replicate k ''SH'') @ (if ts_active st = None then [] else ''S'')) \<and>
    (\<forall>t \<in> set (ts_inputs st). ti_current_enabled t \<longrightarrow> ts_active st = Some (ti_res t))"
  using ime_inv_reachable [OF assms] unfolding ime_inv_def by blast

theorem ime_commands_alternate_witness:
  "ts_active enabled_state = Some 3"
  using ime_commands_alternate [OF enabled_state_reachable] by (simp add: enabled_state_eq)

definition two_inputs_history :: "ti_op list" where
  "two_inputs_history =
     [GetTextInput True 7 3, GetTextInput True 7 4, KeyboardEnter (Some surface_a),
      Enable 3, Commit 3, Enable 4, Commit 4, Disable 4, Commit 4]"

text \<open>
  With two text inputs of one client this fails: enabling both and disabling the second sends
  show, show, hide. The keyboard is hidden and nothing is active while the first is still enabled,
  and a further commit of the first makes it active again without a show command.
\<close>

theorem two_inputs_lose_keyboard:
  "\<exists>st. ti_run False two_inputs_history text_state0 = Some st \<and> ti_reachable False st \<and>
     ime_of (cs_calls st) = ''SSH'' \<and> \<not> text_input_has_active_text_input st \<and>
     (\<exists>t \<in> set (ts_inputs st). ti_res t = 3 \<and> ti_entered t \<and> ti_current_enabled t) \<and>
     text_input_has_active_text_input (ti_commit 3 st) \<and>
     ime_of (cs_calls (ti_commit 3 st)) = ''SSH''"
proof -
  obtain st where run: "ti_run False two_inputs_history text_state0 = Some st"
    by (simp add: two_inputs_history_def ti_run_simps)
  from run show ?thesis
    using ti_run_reachable [OF text_state0_reachable run]
    by (intro exI [of _ st])
      (auto simp: two_inputs_history_def ti_run_simps text_input_has_active_text_input_def)
qed

end
