(* ===== verification/TextDispatch.thy ===== *)
theory TextDispatch
  imports TextQueue Utf8 TextInputProps
begin

text \<open>
  From the Android keyboard to the Wayland client: the entry points the JNI thread calls, the
  compositor-side handler that drains the queue, and the two ways a text operation is delivered:
  through the active text input, or as synthetic key presses from a table built from the keymap.
\<close>

subsection \<open>State\<close>

text \<open>
  On top of the text-input state: the queue, the wake pipe (its two ends) and its event source, the
  read end of the IME pipe, the protocol global, and the table from ASCII code points to evdev key
  and shift (key 0 is \<^verbatim>\<open>no mapping\<close>).
\<close>

type_synonym key_table = "(u32 \<times> bool) list"

record text_server = text_state +
  tx_queue :: text_queue
  tx_pipe_read :: int
  tx_pipe_fd :: int
  tx_ime_read :: int
  tx_manager :: bool
  tx_event_source :: bool
  tx_table :: key_table
  tx_table_built :: bool

definition ASCII_MAX :: nat where
  "ASCII_MAX = 128"

definition KEY_LEFTSHIFT :: u32 where "KEY_LEFTSHIFT = 42"
definition KEY_BACKSPACE :: u32 where "KEY_BACKSPACE = 14"
definition KEY_DELETE :: u32 where "KEY_DELETE = 111"

subsection \<open>The key table\<close>

text \<open>
  libxkbcommon as the code uses it, a parameter: the keymap's key range, whether the Shift modifier
  exists and a state can be allocated, and what a state answers after a history of key updates
  (key, pressed): the character of a key, and whether Shift is depressed.
\<close>

record keymap =
  km_min :: nat
  km_max :: nat
  km_shift_valid :: bool
  km_state_ok :: bool
  km_shift_state_ok :: bool
  km_utf32 :: "(nat \<times> bool) list \<Rightarrow> nat \<Rightarrow> u32"
  km_shift_active :: "(nat \<times> bool) list \<Rightarrow> bool"

definition km_keys :: "keymap \<Rightarrow> nat list" where
  "km_keys km = [km_min km..<Suc (km_max km)]"

text \<open>One entry: only a code point in range whose slot is still free; xkb codes are evdev + 8.\<close>

definition table_put :: "u32 \<Rightarrow> nat \<Rightarrow> bool \<Rightarrow> key_table \<Rightarrow> key_table" where
  "table_put cp kc shift tab =
     (if 0 < cp \<and> unat cp < ASCII_MAX \<and> fst (tab ! unat cp) = 0
      then tab[unat cp := (of_nat kc - 8, shift)] else tab)"

definition table_pass1 :: "keymap \<Rightarrow> key_table \<Rightarrow> key_table" where
  "table_pass1 km tab = fold (\<lambda>kc. table_put (km_utf32 km [] kc) kc False) (km_keys km) tab"

definition table_shifted :: "keymap \<Rightarrow> (nat \<times> bool) list \<Rightarrow> nat \<Rightarrow> key_table \<Rightarrow> key_table" where
  "table_shifted km hist shift_key tab =
     fold (\<lambda>kc tab. if kc = shift_key then tab else table_put (km_utf32 km hist kc) kc True tab)
       (km_keys km) tab"

text \<open>
  Second pass: press each key in turn until Shift is depressed, then read every other key; each key
  is released again.
\<close>

fun table_pass2 :: "keymap \<Rightarrow> (nat \<times> bool) list \<Rightarrow> nat list \<Rightarrow> key_table \<Rightarrow> key_table" where
  "table_pass2 km hist [] tab = tab"
| "table_pass2 km hist (kc # kcs) tab =
     (let down = hist @ [(kc, True)]
      in if km_shift_active km down then table_shifted km down kc tab
         else table_pass2 km (down @ [(kc, False)]) kcs tab)"

definition build_ascii_table :: "keymap option \<Rightarrow> 'a text_server_scheme \<Rightarrow> 'a text_server_scheme" where
  "build_ascii_table keymap st =
     (case keymap of None \<Rightarrow> st
      | Some km \<Rightarrow>
          if \<not> cs_keyboard st \<or> \<not> km_state_ok km then st
          else
            let tab1 = table_pass1 km (replicate ASCII_MAX (0, False));
                tab2 = (if km_shift_valid km \<and> km_shift_state_ok km
                        then table_pass2 km [] (km_keys km) tab1 else tab1)
            in st\<lparr>tx_table := tab2, tx_table_built := True\<rparr>)"

subsection \<open>Synthetic keys\<close>

text \<open>A key event: time stamp, key, pressed.\<close>

type_synonym key_event = "u32 \<times> u32 \<times> bool"

definition notify_synthetic_key :: "key_event \<Rightarrow> 'a compositor_scheme \<Rightarrow> 'a compositor_scheme" where
  "notify_synthetic_key ev st =
     (case ev of (t, kc, pressed) \<Rightarrow>
        let st1 = wl_emit (KbUpdate t kc pressed) st
        in if cs_seat st1 then wl_emit (SeatKey t kc pressed) st1 else st1)"

text \<open>
  Continuation bytes: the buffer is the text with its NUL; \<^const>\<open>None\<close> is a read outside it.
\<close>

fun decode_rest :: "bytes \<Rightarrow> nat \<Rightarrow> nat \<Rightarrow> u32 \<Rightarrow> u32 option" where
  "decode_rest buf p 0 cp = Some cp"
| "decode_rest buf p (Suc n) cp =
     (if length buf \<le> p then None
      else if buf ! p AND 0xC0 \<noteq> 0x80 then Some 0
      else decode_rest buf (Suc p) n (push_bit 6 cp OR ucast (buf ! p AND 0x3F)))"

definition lead_byte :: "u8 \<Rightarrow> u32 \<times> nat" where
  "lead_byte c =
     (if c < 0x80 then (ucast c, 1)
      else if c < 0xE0 then (ucast (c AND 0x1F), 2)
      else if c < 0xF0 then (ucast (c AND 0x0F), 3)
      else (ucast (c AND 0x07), 4))"

text \<open>The events of one mapped character, starting at time stamp \<open>t\<close>.\<close>

definition key_events :: "u32 \<Rightarrow> bool \<Rightarrow> u32 \<Rightarrow> key_event list \<times> u32" where
  "key_events kc shift t =
     ((if shift then [(t, KEY_LEFTSHIFT, True)] else []) @
      [(t + 1, kc, True), (t + 2, kc, False)] @
      (if shift then [(t + 3, KEY_LEFTSHIFT, False)] else []),
      if shift then t + 4 else t + 3)"

text \<open>The loop over the text.\<close>

function emit_loop :: "key_table \<Rightarrow> bytes \<Rightarrow> nat \<Rightarrow> u32 \<Rightarrow> key_event list option" where
  "emit_loop tab buf p t =
     (if length buf \<le> p then None
      else
        let c = buf ! p
        in if c = 0 then Some []
           else if 0x80 \<le> c \<and> c < 0xC0 then emit_loop tab buf (Suc p) t
           else
             let (lead, n) = lead_byte c
             in case decode_rest buf (Suc p) (n - 1) lead of
                  None \<Rightarrow> None
                | Some cp \<Rightarrow>
                    if cp = 0 \<or> unat cp \<ge> ASCII_MAX then emit_loop tab buf (p + n) t
                    else let (kc, shift) = tab ! unat cp
                         in if kc = 0 then emit_loop tab buf (p + n) t
                            else let (evs, t1) = key_events kc shift t
                                 in map_option (\<lambda>rest. evs @ rest) (emit_loop tab buf (p + n) t1))"
  by auto
termination
  by (relation "measure (\<lambda>(tab, buf, p, t). length buf - p)") (auto simp: lead_byte_def split: if_splits)

declare emit_loop.simps [simp del]

text \<open>
  The seat's keyboard focus is what wlroots makes of the calls so far: the parameter \<open>kbf\<close>.
\<close>

type_synonym focus_fun = "wl_call list \<Rightarrow> surface option"

definition ensure_keyboard_focus :: "focus_fun \<Rightarrow> 'a text_state_scheme \<Rightarrow> 'a text_state_scheme" where
  "ensure_keyboard_focus kbf st =
     (if \<not> cs_seat st \<or> \<not> cs_keyboard st then st
      else if kbf (cs_calls st) \<noteq> None then st
      else case find (\<lambda>ct. \<not> ct_rendering_only ct \<and> ct_surface ct \<noteq> None) (cs_toplevels st) of
             None \<Rightarrow> st
           | Some ct \<Rightarrow>
               text_input_handle_keyboard_enter (ct_surface ct) (wl_emit (KbEnter (ct_surface ct) True) st))"

definition emit_synthetic_keys ::
    "focus_fun \<Rightarrow> keymap option \<Rightarrow> bytes \<Rightarrow> 'a text_server_scheme \<Rightarrow> 'a text_server_scheme option" where
  "emit_synthetic_keys kbf km text st =
     (if \<not> cs_keyboard st then Some st
      else
        let st1 = ensure_keyboard_focus kbf st;
            st2 = (if \<not> tx_table_built st1 then build_ascii_table km st1 else st1)
        in map_option (\<lambda>evs. fold notify_synthetic_key evs st2)
             (emit_loop (tx_table st2) (text @ [0]) 0 0))"

fun delete_key_events :: "u32 \<Rightarrow> nat \<Rightarrow> u32 \<Rightarrow> key_event list" where
  "delete_key_events kc 0 t = []"
| "delete_key_events kc (Suc n) t = (t, kc, True) # (t + 1, kc, False) # delete_key_events kc n (t + 2)"

definition emit_delete_keys ::
    "focus_fun \<Rightarrow> u32 \<Rightarrow> u32 \<Rightarrow> 'a text_state_scheme \<Rightarrow> 'a text_state_scheme" where
  "emit_delete_keys kbf before_length after_length st =
     (if \<not> cs_keyboard st then st
      else
        let st1 = ensure_keyboard_focus kbf st
        in fold notify_synthetic_key
             (delete_key_events KEY_BACKSPACE (unat before_length) 0 @
              delete_key_events KEY_DELETE (unat after_length) (2 * before_length)) st1)"

subsection \<open>Delivery\<close>

text \<open>\<^verbatim>\<open>active_text_input && active_text_input->current_enabled\<close>\<close>

definition active_enabled :: "'a text_state_scheme \<Rightarrow> text_input option" where
  "active_enabled st = (case ts_active st of None \<Rightarrow> None
     | Some i \<Rightarrow> (case ti_find i st of None \<Rightarrow> None
                   | Some t \<Rightarrow> if ti_current_enabled t then Some t else None))"

definition dispatch_commit_text ::
    "focus_fun \<Rightarrow> keymap option \<Rightarrow> bytes \<Rightarrow> 'a text_server_scheme \<Rightarrow> 'a text_server_scheme option" where
  "dispatch_commit_text kbf km text st =
     (if text = [] then Some st
      else case active_enabled st of
             Some t \<Rightarrow> Some (wl_emit (TiDone (ti_res t) (ti_serial t))
                                (wl_emit (TiCommitString (ti_res t) text) st))
           | None \<Rightarrow> emit_synthetic_keys kbf km text st)"

definition text_input_delete_byte_counts :: "text_input \<Rightarrow> u32 \<Rightarrow> u32 \<Rightarrow> bool \<Rightarrow> (u32 \<times> u32) option" where
  "text_input_delete_byte_counts t before_length after_length code_points =
     (case ti_surrounding t of None \<Rightarrow> None
      | Some s \<Rightarrow>
          let cursor = min (if ti_cursor t < 0 then 0 else nat (ti_cursor t)) (length s)
          in Some (utf8_delete_bytes_before (Some s) cursor before_length code_points,
                   utf8_delete_bytes_after (Some s) cursor after_length code_points))"

definition dispatch_delete_surrounding_text ::
    "focus_fun \<Rightarrow> u32 \<Rightarrow> u32 \<Rightarrow> bool \<Rightarrow> 'a text_state_scheme \<Rightarrow> 'a text_state_scheme" where
  "dispatch_delete_surrounding_text kbf before_length0 after_length0 code_points st =
     (let before_length = clamp_delete_count before_length0;
          after_length = clamp_delete_count after_length0
      in if before_length = 0 \<and> after_length = 0 then st
         else
           case active_enabled st of
             None \<Rightarrow> emit_delete_keys kbf before_length after_length st
           | Some t \<Rightarrow>
               (case text_input_delete_byte_counts t before_length after_length code_points of
                  None \<Rightarrow> emit_delete_keys kbf before_length after_length st
                | Some (before_bytes, after_bytes) \<Rightarrow>
                    if before_bytes = 0 \<and> after_bytes = 0 then st
                    else wl_emit (TiDone (ti_res t) (ti_serial t))
                           (wl_emit (TiDeleteSurrounding (ti_res t) before_bytes after_bytes) st)))"

definition dispatch_text_op ::
    "focus_fun \<Rightarrow> keymap option \<Rightarrow> pending_text_op \<Rightarrow> 'a text_server_scheme \<Rightarrow> 'a text_server_scheme option" where
  "dispatch_text_op kbf km op st = (case op of
      PENDING_TEXT_COMMIT s \<Rightarrow> dispatch_commit_text kbf km s st
    | PENDING_TEXT_DELETE b a c \<Rightarrow> Some (dispatch_delete_surrounding_text kbf b a c st))"

text \<open>
  The handler: \<open>read_ok\<close> is false when draining the pipe ends in an error other than \<^verbatim>\<open>EAGAIN\<close>.
  The loop pops until the queue is empty; the fuel is one more than the operations that wait.
\<close>

fun text_event_loop ::
    "nat \<Rightarrow> focus_fun \<Rightarrow> keymap option \<Rightarrow> 'a text_server_scheme \<Rightarrow> 'a text_server_scheme option" where
  "text_event_loop 0 kbf km st = None"
| "text_event_loop (Suc n) kbf km st =
     (case pop_text_op (tx_queue st) of
        (None, _) \<Rightarrow> Some st
      | (Some op, q) \<Rightarrow>
          (case dispatch_text_op kbf km op (st\<lparr>tx_queue := q\<rparr>) of
             None \<Rightarrow> None
           | Some st1 \<Rightarrow> text_event_loop n kbf km st1))"

definition on_text_input_event ::
    "bool \<Rightarrow> focus_fun \<Rightarrow> keymap option \<Rightarrow> 'a text_server_scheme \<Rightarrow> 'a text_server_scheme option" where
  "on_text_input_event read_ok kbf km st =
     (if \<not> read_ok then Some st
      else text_event_loop (Suc (length (pq_ops (tx_queue st)))) kbf km st)"

subsection \<open>Entry points of the JNI thread\<close>

text \<open>The outcome of the one-byte write to the wake pipe.\<close>

datatype wake_write = WakeOk | WakeAgain | WakeError

definition wake_text_input_loop :: "wake_write \<Rightarrow> 'a text_server_scheme \<Rightarrow> bool" where
  "wake_text_input_loop w st \<longleftrightarrow>
     \<not> (tx_pipe_fd st < 0 \<or> \<not> tx_event_source st) \<and> w \<noteq> WakeError"

definition text_enqueued ::
    "wake_write \<Rightarrow> bool \<times> text_queue \<Rightarrow> 'a text_server_scheme \<Rightarrow> 'a text_server_scheme" where
  "text_enqueued w r st =
     (case r of (ok, q) \<Rightarrow>
        if \<not> ok then st\<lparr>tx_queue := q\<rparr>
        else if \<not> wake_text_input_loop w st then st\<lparr>tx_queue := clear_pending_text_ops q\<rparr>
        else st\<lparr>tx_queue := q\<rparr>)"

definition text_input_handle_commit_text ::
    "bool \<Rightarrow> wake_write \<Rightarrow> bytes option \<Rightarrow> 'a text_server_scheme \<Rightarrow> 'a text_server_scheme" where
  "text_input_handle_commit_text alloc_ok w text st =
     (case text of None \<Rightarrow> st
      | Some s \<Rightarrow>
          if s = [] then st
          else if tx_pipe_fd st < 0 \<or> \<not> tx_event_source st then st
          else text_enqueued w (enqueue_text_commit alloc_ok s (tx_queue st)) st)"

definition text_input_handle_delete ::
    "bool \<Rightarrow> wake_write \<Rightarrow> u32 \<Rightarrow> u32 \<Rightarrow> bool \<Rightarrow> 'a text_server_scheme \<Rightarrow> 'a text_server_scheme" where
  "text_input_handle_delete alloc_ok w before_length after_length code_points st =
     (if before_length = 0 \<and> after_length = 0 then st
      else if tx_pipe_fd st < 0 \<or> \<not> tx_event_source st then st
      else text_enqueued w
             (enqueue_text_delete alloc_ok before_length after_length code_points (tx_queue st)) st)"

definition text_input_handle_delete_surrounding_text ::
    "bool \<Rightarrow> wake_write \<Rightarrow> u32 \<Rightarrow> u32 \<Rightarrow> 'a text_server_scheme \<Rightarrow> 'a text_server_scheme" where
  "text_input_handle_delete_surrounding_text alloc_ok w b a st =
     text_input_handle_delete alloc_ok w b a False st"

definition text_input_handle_delete_surrounding_text_in_code_points ::
    "bool \<Rightarrow> wake_write \<Rightarrow> u32 \<Rightarrow> u32 \<Rightarrow> 'a text_server_scheme \<Rightarrow> 'a text_server_scheme" where
  "text_input_handle_delete_surrounding_text_in_code_points alloc_ok w b a st =
     text_input_handle_delete alloc_ok w b a True st"

subsection \<open>Start and stop\<close>

text \<open>
  \<^verbatim>\<open>text_input_handler_init\<close>: the two \<^verbatim>\<open>pipe2\<close> results (the ends, or a failure) and whether the
  event source and the global are created. The result is the return code, the descriptors closed on
  the way, and the state.
\<close>

definition text_statics_reset :: "'a text_server_scheme \<Rightarrow> 'a text_server_scheme" where
  "text_statics_reset st =
     (set_active_text_input None (st\<lparr>ts_inputs := [], ts_focused := None, ts_listener := None\<rparr>))
       \<lparr>ts_server := True, tx_ime_read := -1, ts_ime_fd := -1, tx_pipe_read := -1, tx_pipe_fd := -1,
        tx_event_source := False\<rparr>"

definition text_input_handler_init ::
    "(int \<times> int) option \<Rightarrow> (int \<times> int) option \<Rightarrow> bool \<Rightarrow> bool \<Rightarrow> keymap option
     \<Rightarrow> 'a text_server_scheme \<Rightarrow> int \<times> int list \<times> 'a text_server_scheme" where
  "text_input_handler_init pipe1 pipe2 add_ok global_ok km st =
     (let st0 = text_statics_reset st
      in case pipe1 of None \<Rightarrow> (-1, [], st0)
       | Some (ir, iw) \<Rightarrow>
           (let st1 = st0\<lparr>tx_ime_read := ir, ts_ime_fd := iw\<rparr>
            in case pipe2 of
                 None \<Rightarrow> (-1, [ir, iw], st1\<lparr>tx_ime_read := -1, ts_ime_fd := -1\<rparr>)
               | Some (tr, tw) \<Rightarrow>
                   (let st2 = st1\<lparr>tx_pipe_read := tr, tx_pipe_fd := tw, tx_event_source := add_ok\<rparr>;
                        undo = st2\<lparr>tx_event_source := False, tx_ime_read := -1, ts_ime_fd := -1,
                                   tx_pipe_read := -1, tx_pipe_fd := -1\<rparr>
                    in if \<not> add_ok then (-1, [ir, iw, tr, tw], undo)
                       else if \<not> global_ok then (-1, [ir, iw, tr, tw], undo\<lparr>tx_manager := False\<rparr>)
                       else
                         let st3 = st2\<lparr>tx_manager := True\<rparr>
                         in (0, [], if cs_keyboard st3 then build_ascii_table km st3 else st3))))"

definition close_pair :: "int \<Rightarrow> int \<Rightarrow> int list" where
  "close_pair r w = (if r \<ge> 0 then [r, w] else [])"

definition text_input_handler_destroy :: "'a text_server_scheme \<Rightarrow> int list \<times> 'a text_server_scheme" where
  "text_input_handler_destroy st =
     (let st1 = (clear_text_input_focus None False st)\<lparr>tx_manager := False\<rparr>;
          closed = close_pair (tx_ime_read st1) (ts_ime_fd st1) @ close_pair (tx_pipe_read st1) (tx_pipe_fd st1);
          st2 = (if tx_ime_read st1 \<ge> 0 then st1\<lparr>tx_ime_read := -1, ts_ime_fd := -1\<rparr> else st1);
          st3 = st2\<lparr>tx_event_source := False\<rparr>;
          st4 = (if tx_pipe_read st3 \<ge> 0 then st3\<lparr>tx_pipe_read := -1, tx_pipe_fd := -1\<rparr> else st3);
          st5 = st4\<lparr>tx_queue := clear_pending_text_ops (tx_queue st4)\<rparr>
      in (closed, (set_active_text_input None st5)\<lparr>ts_server := False\<rparr>))"

end
