(* ===== verification/TextDispatchProps.thy ===== *)
theory TextDispatchProps
  imports TextDispatch
begin

text \<open>
  What the delivery of IME operations guarantees: the key table is sound, the synthetic keys type the
  text, a truncated UTF-8 sequence is read past its end, the queue is delivered in order, and
  initialisation leaks no descriptor.
\<close>

subsection \<open>The key table\<close>

definition entry_sound :: "keymap \<Rightarrow> nat \<Rightarrow> u32 \<times> bool \<Rightarrow> bool" where
  "entry_sound km cp e \<longleftrightarrow> (case e of (kc, shift) \<Rightarrow>
     kc = 0 \<or>
     (\<not> shift \<and> (\<exists>k \<in> set (km_keys km). kc = of_nat k - 8 \<and> unat (km_utf32 km [] k) = cp)) \<or>
     (shift \<and> (\<exists>hist. km_shift_active km hist \<and>
        (\<exists>k \<in> set (km_keys km). kc = of_nat k - 8 \<and> unat (km_utf32 km hist k) = cp))))"

definition table_sound :: "keymap \<Rightarrow> key_table \<Rightarrow> bool" where
  "table_sound km tab \<longleftrightarrow> length tab = ASCII_MAX \<and> (\<forall>cp < ASCII_MAX. entry_sound km cp (tab ! cp))"

lemma length_table_put [simp]: "length (table_put cp kc s tab) = length tab"
  by (simp add: table_put_def)

lemma table_sound_put:
  assumes "table_sound km tab" "entry_sound km (unat cp) (of_nat kc - 8, s)"
  shows "table_sound km (table_put cp kc s tab)"
  using assms by (auto simp: table_sound_def table_put_def nth_list_update)

lemma table_sound_pass1:
  assumes "table_sound km tab"
  shows "table_sound km (table_pass1 km tab)"
proof -
  have "table_sound km (fold (\<lambda>kc. table_put (km_utf32 km [] kc) kc False) ks tab)"
    if "set ks \<subseteq> set (km_keys km)" for ks
    using that assms
  proof (induction ks arbitrary: tab)
    case (Cons k ks)
    have "entry_sound km (unat (km_utf32 km [] k)) (of_nat k - 8, False)"
      using Cons.prems(1) by (auto simp: entry_sound_def)
    from table_sound_put [OF Cons.prems(2) this] Cons show ?case by simp
  qed simp
  from this [of "km_keys km"] show ?thesis by (simp add: table_pass1_def)
qed

lemma table_sound_shifted:
  assumes "table_sound km tab" "km_shift_active km hist"
  shows "table_sound km (table_shifted km hist sk tab)"
proof -
  have "table_sound km (fold (\<lambda>kc tab. if kc = sk then tab else table_put (km_utf32 km hist kc) kc True tab) ks tab)"
    if "set ks \<subseteq> set (km_keys km)" for ks
    using that assms(1)
  proof (induction ks arbitrary: tab)
    case (Cons k ks)
    have "entry_sound km (unat (km_utf32 km hist k)) (of_nat k - 8, True)"
      using Cons.prems(1) assms(2) by (auto simp: entry_sound_def)
    from table_sound_put [OF Cons.prems(2) this] Cons show ?case by simp
  qed simp
  from this [of "km_keys km"] show ?thesis by (simp add: table_shifted_def)
qed

lemma table_sound_pass2: "table_sound km tab \<Longrightarrow> table_sound km (table_pass2 km hist ks tab)"
  by (induction km hist ks tab rule: table_pass2.induct) (auto simp: Let_def table_sound_shifted)

lemma table_sound_empty: "table_sound km (replicate ASCII_MAX (0, False))"
  by (simp add: table_sound_def entry_sound_def)

text \<open>A slot once filled stays, and the first pass fills every slot some key reaches.\<close>

lemma put_keeps:
  "fst (tab ! c) \<noteq> 0 \<Longrightarrow> table_put cp kc s tab ! c = tab ! c"
  by (cases "c = unat cp") (auto simp: table_put_def)

lemma put_fills:
  assumes "0 < cp" "unat cp < ASCII_MAX" "length tab = ASCII_MAX" "of_nat kc - 8 \<noteq> (0 :: u32)"
  shows "fst (table_put cp kc s tab ! unat cp) \<noteq> 0"
  using assms by (auto simp: table_put_def)

lemma pass1_keeps: "fst (tab ! c) \<noteq> 0 \<Longrightarrow>
    fold (\<lambda>kc. table_put (km_utf32 km [] kc) kc False) ks tab ! c = tab ! c"
proof (induction ks arbitrary: tab)
  case (Cons k ks)
  then show ?case using put_keeps [OF Cons.prems] by simp
qed simp

lemma shifted_keeps: "fst (tab ! c) \<noteq> 0 \<Longrightarrow> table_shifted km hist sk tab ! c = tab ! c"
proof -
  assume "fst (tab ! c) \<noteq> 0"
  then have "fold (\<lambda>kc tab. if kc = sk then tab else table_put (km_utf32 km hist kc) kc True tab) ks tab ! c = tab ! c" for ks
  proof (induction ks arbitrary: tab)
    case (Cons k ks)
    then show ?case using put_keeps [OF Cons.prems] by simp
  qed simp
  then show ?thesis by (simp add: table_shifted_def)
qed

lemma pass2_keeps: "fst (tab ! c) \<noteq> 0 \<Longrightarrow> table_pass2 km hist ks tab ! c = tab ! c"
  by (induction km hist ks tab rule: table_pass2.induct) (auto simp: Let_def shifted_keeps)

lemma pass1_fills:
  assumes "k \<in> set ks" "0 < km_utf32 km [] k" "unat (km_utf32 km [] k) < ASCII_MAX"
    "of_nat k - 8 \<noteq> (0 :: u32)" "length tab = ASCII_MAX" "\<forall>e < ASCII_MAX. fst (tab ! e) \<noteq> 0 \<longrightarrow> \<not> snd (tab ! e)"
  shows "fst (fold (\<lambda>kc. table_put (km_utf32 km [] kc) kc False) ks tab ! unat (km_utf32 km [] k)) \<noteq> 0 \<and>
    \<not> snd (fold (\<lambda>kc. table_put (km_utf32 km [] kc) kc False) ks tab ! unat (km_utf32 km [] k))"
  using assms(1,5,6)
proof (induction ks arbitrary: tab)
  case (Cons j ks)
  let ?t = "table_put (km_utf32 km [] j) j False tab"
  have u: "\<forall>e < ASCII_MAX. fst (?t ! e) \<noteq> 0 \<longrightarrow> \<not> snd (?t ! e)"
    using Cons.prems(2,3) by (auto simp: table_put_def nth_list_update)
  show ?case
  proof (cases "k = j")
    case True
    have f: "fst (?t ! unat (km_utf32 km [] k)) \<noteq> 0"
      unfolding True [symmetric] by (rule put_fills) (use assms(2-4) Cons.prems(2) in auto)
    with pass1_keeps [OF f, of km ks] u assms(3) show ?thesis by simp
  next
    case False
    then show ?thesis using Cons.IH [of ?t] Cons.prems u by simp
  qed
qed simp

text \<open>
  Every entry of the table built from a keymap is a key that produces that character: without
  modifiers for an unshifted entry, in a state with Shift depressed for a shifted one. A character
  that some key produces without modifiers is mapped, and unshifted (so plain letters and digits
  never need Shift).
\<close>

theorem ascii_table_sound:
  assumes "cs_keyboard st" "km_state_ok km"
  shows "let tab = tx_table (build_ascii_table (Some km) st) in
    length tab = 128 \<and>
    (\<forall>cp < 128. \<forall>kc shift. tab ! cp = (kc, shift) \<and> kc \<noteq> 0 \<longrightarrow>
       (\<exists>k \<in> set (km_keys km). kc = of_nat k - 8 \<and>
          (if shift then \<exists>hist. km_shift_active km hist \<and> unat (km_utf32 km hist k) = cp
           else unat (km_utf32 km [] k) = cp))) \<and>
    (\<forall>k \<in> set (km_keys km). \<forall>cp. 0 < cp \<and> cp < 128 \<and> unat (km_utf32 km [] k) = cp \<and> of_nat k - 8 \<noteq> (0 :: u32) \<longrightarrow>
       fst (tab ! cp) \<noteq> 0 \<and> \<not> snd (tab ! cp))"
proof -
  let ?t1 = "table_pass1 km (replicate ASCII_MAX (0, False))"
  let ?tab = "tx_table (build_ascii_table (Some km) st)"
  have tab: "?tab = (if km_shift_valid km \<and> km_shift_state_ok km
      then table_pass2 km [] (km_keys km) ?t1 else ?t1)"
    using assms by (simp add: build_ascii_table_def Let_def)
  have s: "table_sound km ?tab"
    unfolding tab using table_sound_pass1 [OF table_sound_empty] table_sound_pass2 by auto
  have fills: "fst (?tab ! cp) \<noteq> 0 \<and> \<not> snd (?tab ! cp)"
    if k: "k \<in> set (km_keys km)" "0 < cp" "cp < 128" "unat (km_utf32 km [] k) = cp" "of_nat k - 8 \<noteq> (0 :: u32)" for k cp
  proof -
    have pos: "0 < km_utf32 km [] k" using k(2,4) by (simp add: word_less_nat_alt)
    have small: "unat (km_utf32 km [] k) < ASCII_MAX" using k(3,4) by (simp add: ASCII_MAX_def)
    have f: "fst (?t1 ! cp) \<noteq> 0 \<and> \<not> snd (?t1 ! cp)"
      using pass1_fills [OF k(1) pos small k(5), of "replicate ASCII_MAX (0, False)"] k(4)
      by (simp add: table_pass1_def)
    then show ?thesis unfolding tab using pass2_keeps [of ?t1 cp km "[]" "km_keys km"] by simp
  qed
  have entries: "\<exists>k \<in> set (km_keys km). kc = of_nat k - 8 \<and>
      (if shift then \<exists>hist. km_shift_active km hist \<and> unat (km_utf32 km hist k) = cp
       else unat (km_utf32 km [] k) = cp)"
    if "cp < 128" "?tab ! cp = (kc, shift)" "kc \<noteq> 0" for cp kc shift
  proof -
    have "entry_sound km cp (kc, shift)"
      using s that(1,2) by (auto simp: table_sound_def ASCII_MAX_def)
    then show ?thesis using that(3) by (auto simp: entry_sound_def)
  qed
  show ?thesis
    unfolding Let_def using s fills entries by (auto simp: table_sound_def ASCII_MAX_def)
qed

text \<open>A small keymap: key 38 is a/A, key 50 is Shift, in xkb numbering.\<close>

definition keymap_demo :: keymap where
  "keymap_demo = \<lparr>km_min = 38, km_max = 50, km_shift_valid = True, km_state_ok = True,
     km_shift_state_ok = True,
     km_utf32 = (\<lambda>hist k. if k = 38 then (if hist \<noteq> [] \<and> last hist = (50, True) then 65 else 97) else 0),
     km_shift_active = (\<lambda>hist. hist \<noteq> [] \<and> last hist = (50, True))\<rparr>"

definition text_server0 :: text_server where
  "text_server0 = text_state.extend text_state0
     (text_server.fields empty_text_queue 11 12 8 True True [] False)"

lemma text_server0_simps [simp]:
  "cs_keyboard text_server0" "cs_seat text_server0" "cs_calls text_server0 = []"
  "cs_toplevels text_server0 = []" "ts_active text_server0 = None" "tx_queue text_server0 = empty_text_queue"
  "tx_pipe_fd text_server0 = 12" "tx_event_source text_server0" "\<not> tx_table_built text_server0"
  "ts_inputs text_server0 = []" "ts_focused text_server0 = None"
  by (simp_all add: text_server0_def text_state0_def text_state.defs text_server.defs)

theorem ascii_table_sound_witness:
  "fst (tx_table (build_ascii_table (Some keymap_demo) text_server0) ! 97) \<noteq> 0 \<and>
   \<not> snd (tx_table (build_ascii_table (Some keymap_demo) text_server0) ! 97)"
proof -
  have k: "(38::nat) \<in> set (km_keys keymap_demo)" "km_state_ok keymap_demo"
    "unat (km_utf32 keymap_demo [] 38) = 97"
    by (simp_all add: km_keys_def keymap_demo_def)
  from ascii_table_sound [OF text_server0_simps(1) k(2)] k(1,3) show ?thesis
    by (auto simp: Let_def)
qed

subsection \<open>Typing a text\<close>

lemma lead_facts:
  "\<forall>a \<in> set [0..<128]. lead_byte (of_nat a) = (of_nat a, 1)"
  "\<forall>a \<in> set [2..<32]. lead_byte (of_nat (0xC0 + a)) = (of_nat a, 2) \<and> \<not> (of_nat (0xC0 + a) :: u8) < 0xC0"
  "\<forall>a \<in> set [0..<16]. lead_byte (of_nat (0xE0 + a)) = (of_nat a, 3) \<and> \<not> (of_nat (0xE0 + a) :: u8) < 0xC0"
  "\<forall>a \<in> set [0..<8]. lead_byte (of_nat (0xF0 + a)) = (of_nat a, 4) \<and> \<not> (of_nat (0xF0 + a) :: u8) < 0xC0"
  "\<forall>a \<in> set [1..<128]. (of_nat a :: u8) \<noteq> 0 \<and> \<not> (0x80 \<le> (of_nat a :: u8))"
  by code_simp+

lemma lead_of:
  "a < 128 \<Longrightarrow> lead_byte (of_nat a) = (of_nat a, 1)"
  "\<lbrakk>2 \<le> a; a < 32\<rbrakk> \<Longrightarrow> lead_byte (of_nat (0xC0 + a)) = (of_nat a, 2)"
  "\<lbrakk>2 \<le> a; a < 32\<rbrakk> \<Longrightarrow> \<not> (of_nat (0xC0 + a) :: u8) < 0xC0"
  "a < 16 \<Longrightarrow> lead_byte (of_nat (0xE0 + a)) = (of_nat a, 3)"
  "a < 16 \<Longrightarrow> \<not> (of_nat (0xE0 + a) :: u8) < 0xC0"
  "a < 8 \<Longrightarrow> lead_byte (of_nat (0xF0 + a)) = (of_nat a, 4)"
  "a < 8 \<Longrightarrow> \<not> (of_nat (0xF0 + a) :: u8) < 0xC0"
  "\<lbrakk>1 \<le> a; a < 128\<rbrakk> \<Longrightarrow> (of_nat a :: u8) \<noteq> 0"
  "\<lbrakk>1 \<le> a; a < 128\<rbrakk> \<Longrightarrow> \<not> (0x80 \<le> (of_nat a :: u8))"
  using lead_facts by (simp_all only: Ball_def set_upt atLeastLessThan_iff zero_le simp_thms)

text \<open>Continuation bytes of a well-formed sequence.\<close>

lemma decode_rest_cont:
  assumes "\<forall>b \<in> set bs. b < 64"
  shows "decode_rest (xs @ map (\<lambda>b. of_nat (0x80 + b)) bs @ ys) (length xs) (length bs) (of_nat a) =
    Some (of_nat (fold (\<lambda>b a. a * 64 + b) bs a))"
  using assms
proof (induction bs arbitrary: xs a)
  case (Cons b bs)
  let ?buf = "xs @ map (\<lambda>b. of_nat (0x80 + b)) (b # bs) @ ys"
  have b: "b < 64" using Cons.prems by simp
  have at: "?buf ! length xs = of_nat (0x80 + b)" by (simp add: nth_append)
  have lt: "\<not> length ?buf \<le> length xs" by simp
  have acc: "push_bit 6 (of_nat a :: u32) OR ucast ((of_nat (0x80 + b) :: u8) AND 0x3F) = of_nat (a * 64 + b)"
    using shifted_or [of b 6 a] b by (simp only: byte_lead) simp
  have "decode_rest ?buf (length xs) (Suc (length bs)) (of_nat a) =
      decode_rest ((xs @ [of_nat (0x80 + b)]) @ map (\<lambda>b. of_nat (0x80 + b)) bs @ ys)
        (length (xs @ [of_nat (0x80 + b) :: u8])) (length bs) (of_nat (a * 64 + b))"
    unfolding decode_rest.simps if_not_P [OF lt] at using byte_lead(15) [OF b] acc by simp
  with Cons.IH [of "xs @ [of_nat (0x80 + b)]" "a * 64 + b"] Cons.prems show ?case by simp
qed simp

text \<open>What the loop sees of one encoded code point: its value and its length.\<close>

definition reads_as :: "bytes \<Rightarrow> nat \<Rightarrow> nat \<Rightarrow> nat \<Rightarrow> bool" where
  "reads_as buf p cp n \<longleftrightarrow> p < length buf \<and> buf ! p \<noteq> 0 \<and> \<not> (0x80 \<le> buf ! p \<and> buf ! p < 0xC0) \<and>
     (\<exists>lead. lead_byte (buf ! p) = (lead, n) \<and> decode_rest buf (Suc p) (n - 1) lead = Some (of_nat cp))"

lemma reads_encoded:
  assumes "scalar cp" "0 < cp"
  shows "reads_as (xs @ utf8_encode cp @ ys) (length xs) cp (length (utf8_encode cp))"
proof -
  have multi: "reads_as (xs @ (of_nat h # map (\<lambda>b. of_nat (0x80 + b)) bs) @ ys) (length xs) cp (Suc (length bs))"
    if "lead_byte (of_nat h) = (of_nat a, Suc (length bs))" "\<not> (of_nat h :: u8) < 0xC0" "(of_nat h :: u8) \<noteq> 0"
      "\<forall>b \<in> set bs. b < 64" "cp = fold (\<lambda>b a. a * 64 + b) bs a" for h a bs
    using that decode_rest_cont [OF that(4), of "xs @ [of_nat h]" ys a]
    by (simp add: reads_as_def nth_append)
  consider "cp < 0x80" | "0x80 \<le> cp" "cp < 0x800" | "0x800 \<le> cp" "cp < 0x10000" | "0x10000 \<le> cp" "cp < 0x110000"
    using assms(1) unfolding scalar_def by linarith
  then show ?thesis
  proof cases
    case 1
    then show ?thesis
      using assms(2) lead_of(1,8,9) [of cp] by (simp add: reads_as_def utf8_encode_def nth_append)
  next
    case 2
    then have a: "2 \<le> cp div 64" "cp div 64 < 32" "cp mod 64 < 64" by auto
    have n: "(of_nat (0xC0 + cp div 64) :: u8) \<noteq> 0"
      using byte_lead(3) [OF a(2)] by (force simp del: of_nat_add)
    from multi [OF _ lead_of(3) [OF a(1,2)] n, of "cp div 64" "[cp mod 64]"] lead_of(2) [OF a(1,2)] a 2
    show ?thesis
      by (simp add: utf8_encode_def del: of_nat_add)
  next
    case 3
    then have a: "cp div 4096 < 16" "cp div 64 mod 64 < 64" "cp mod 64 < 64" by auto
    have n: "(of_nat (0xE0 + cp div 4096) :: u8) \<noteq> 0"
      using byte_lead(6) [OF a(1)] by (force simp del: of_nat_add)
    have l: "lead_byte (of_nat (0xE0 + cp div 4096)) = (of_nat (cp div 4096), 3)"
      "\<not> (of_nat (0xE0 + cp div 4096) :: u8) < 0xC0"
      using lead_of(4,5) [OF a(1)] by metis+
    let ?bs = "[cp div 64 mod 64, cp mod 64]"
    have f: "cp = fold (\<lambda>b a. a * 64 + b) ?bs (cp div 4096)"
      by (simp add: div_mult2_eq [of cp 64 64, simplified])
    have "lead_byte (of_nat (0xE0 + cp div 4096)) = (of_nat (cp div 4096), Suc (length ?bs))"
      using l(1) by simp
    from multi [OF this l(2) n _ f] a(2,3) 3 show ?thesis
      by (simp add: utf8_encode_def del: of_nat_add)
  next
    case 4
    then have a: "cp div 262144 < 8" "cp div 4096 mod 64 < 64" "cp div 64 mod 64 < 64" "cp mod 64 < 64" by auto
    have n: "(of_nat (0xF0 + cp div 262144) :: u8) \<noteq> 0"
      using byte_lead(10) [OF a(1)] by (force simp del: of_nat_add)
    have l: "lead_byte (of_nat (0xF0 + cp div 262144)) = (of_nat (cp div 262144), 4)"
      "\<not> (of_nat (0xF0 + cp div 262144) :: u8) < 0xC0"
      using lead_of(6,7) [OF a(1)] by metis+
    let ?bs = "[cp div 4096 mod 64, cp div 64 mod 64, cp mod 64]"
    have f: "cp = fold (\<lambda>b a. a * 64 + b) ?bs (cp div 262144)"
      by (simp add: div_mult2_eq [of cp 64 64, simplified] div_mult2_eq [of cp 4096 64, simplified])
    have "lead_byte (of_nat (0xF0 + cp div 262144)) = (of_nat (cp div 262144), Suc (length ?bs))"
      using l(1) by simp
    from multi [OF this l(2) n _ f] a(2-4) 4 show ?thesis
      by (simp add: utf8_encode_def del: of_nat_add)
  qed
qed

text \<open>The events a list of code points gives: one group per mapped ASCII character.\<close>

definition mapped :: "key_table \<Rightarrow> nat \<Rightarrow> bool" where
  "mapped tab cp \<longleftrightarrow> cp < ASCII_MAX \<and> fst (tab ! cp) \<noteq> 0"

fun events_for :: "key_table \<Rightarrow> nat list \<Rightarrow> u32 \<Rightarrow> key_event list" where
  "events_for tab [] t = []"
| "events_for tab (cp # cps) t =
     (if mapped tab cp
      then let (evs, t1) = key_events (fst (tab ! cp)) (snd (tab ! cp)) t in evs @ events_for tab cps t1
      else events_for tab cps t)"

lemma emit_step:
  assumes "reads_as buf p cp n" "scalar cp" "0 < cp"
  shows "emit_loop tab buf p t =
    (if mapped tab cp
     then let (evs, t1) = key_events (fst (tab ! cp)) (snd (tab ! cp)) t
          in map_option (\<lambda>rest. evs @ rest) (emit_loop tab buf (p + n) t1)
     else emit_loop tab buf (p + n) t)"
proof -
  obtain lead where r: "\<not> length buf \<le> p" "buf ! p \<noteq> 0" "\<not> (0x80 \<le> buf ! p \<and> buf ! p < 0xC0)"
    "lead_byte (buf ! p) = (lead, n)" "decode_rest buf (Suc p) (n - 1) lead = Some (of_nat cp)"
    using assms(1) by (auto simp: reads_as_def)
  have u: "unat (of_nat cp :: u32) = cp" using assms(2) by (simp add: scalar_def unat_of_nat)
  have nz: "(of_nat cp :: u32) \<noteq> 0" using assms(3) u by (metis unat_0 less_numeral_extra(3))
  have cond: "((of_nat cp :: u32) = 0 \<or> ASCII_MAX \<le> cp) = (\<not> cp < ASCII_MAX)" using nz by auto
  show ?thesis
    by (subst emit_loop.simps)
      (simp only: r Let_def if_False u cond prod.case option.case mapped_def split_beta simp_thms prod.sel
        split: if_split, blast)
qed

lemma emit_encoded:
  assumes "list_all (\<lambda>cp. scalar cp \<and> 0 < cp) cps"
  shows "emit_loop tab (xs @ utf8_encode_all cps @ [0]) (length xs) t = Some (events_for tab cps t)"
  using assms
proof (induction cps arbitrary: xs t)
  case Nil
  then show ?case by (subst emit_loop.simps) (simp add: nth_append Let_def)
next
  case (Cons cp cps)
  let ?buf = "(xs @ utf8_encode cp) @ utf8_encode_all cps @ [0]"
  have "reads_as (xs @ utf8_encode cp @ (utf8_encode_all cps @ [0])) (length xs) cp (length (utf8_encode cp))"
    using Cons.prems by (intro reads_encoded) simp_all
  then have "reads_as ?buf (length xs) cp (length (utf8_encode cp))" by simp
  from emit_step [OF this, of tab t] Cons.prems
  have "emit_loop tab ?buf (length xs) t = (if mapped tab cp
     then let (evs, t1) = key_events (fst (tab ! cp)) (snd (tab ! cp)) t
          in map_option (\<lambda>rest. evs @ rest) (emit_loop tab ?buf (length (xs @ utf8_encode cp)) t1)
     else emit_loop tab ?buf (length (xs @ utf8_encode cp)) t)" by simp
  moreover have "emit_loop tab ?buf (length (xs @ utf8_encode cp)) t' = Some (events_for tab cps t')" for t'
    using Cons.IH [of "xs @ utf8_encode cp" t'] Cons.prems by simp
  ultimately show ?case by (simp add: split_beta)
qed

text \<open>
  A keyboard reading the events: Shift is a state, any other key types what \<open>f\<close> says of it in that
  state; the result is the text typed and the final state of Shift.
\<close>

fun typed :: "(bool \<Rightarrow> u32 \<Rightarrow> u32) \<Rightarrow> bool \<Rightarrow> key_event list \<Rightarrow> u32 list \<times> bool" where
  "typed f sh [] = ([], sh)"
| "typed f sh ((t, kc, p) # evs) =
     (if kc = KEY_LEFTSHIFT then typed f p evs
      else if p then (let (xs, sh') = typed f sh evs in (f sh kc # xs, sh'))
      else typed f sh evs)"

lemma typed_events_for:
  assumes "\<forall>cp < ASCII_MAX. fst (tab ! cp) \<noteq> 0 \<longrightarrow>
      fst (tab ! cp) \<noteq> KEY_LEFTSHIFT \<and> f (snd (tab ! cp)) (fst (tab ! cp)) = of_nat cp"
  shows "typed f False (events_for tab cps t) = (map of_nat (filter (mapped tab) cps), False)"
proof (induction cps arbitrary: t)
  case (Cons cp cps)
  show ?case
  proof (cases "mapped tab cp")
    case True
    then have "fst (tab ! cp) \<noteq> KEY_LEFTSHIFT" "f (snd (tab ! cp)) (fst (tab ! cp)) = of_nat cp"
      using assms by (auto simp: mapped_def)
    then show ?thesis using True Cons.IH by (cases "snd (tab ! cp)") (simp_all add: key_events_def)
  next
    case False
    then show ?thesis using Cons.IH by simp
  qed
qed simp

text \<open>
  C17: For any well-formed text the loop ends within the buffer, and a keyboard whose keys mean what
  the table says types exactly the characters of the text that have a key, in order, each once, with
  Shift released at the end; everything else is skipped without a trace.
\<close>

theorem synthetic_keys_type_text:
  assumes "list_all (\<lambda>cp. scalar cp \<and> 0 < cp) cps"
    and "\<forall>cp < 128. fst (tab ! cp) \<noteq> 0 \<longrightarrow>
      fst (tab ! cp) \<noteq> KEY_LEFTSHIFT \<and> f (snd (tab ! cp)) (fst (tab ! cp)) = of_nat cp"
  shows "\<exists>evs. emit_loop tab (utf8_encode_all cps @ [0]) 0 0 = Some evs \<and>
    typed f False evs = (map of_nat (filter (\<lambda>cp. cp < 128 \<and> fst (tab ! cp) \<noteq> 0) cps), False)"
proof -
  have "emit_loop tab (utf8_encode_all cps @ [0]) 0 0 = Some (events_for tab cps 0)"
    using emit_encoded [OF assms(1), of tab "[]" 0] by simp
  moreover have "mapped tab = (\<lambda>cp. cp < 128 \<and> fst (tab ! cp) \<noteq> 0)"
    by (simp add: fun_eq_iff mapped_def ASCII_MAX_def)
  ultimately show ?thesis
    using typed_events_for [of tab f cps 0] assms(2) by (simp add: ASCII_MAX_def)
qed

definition table_demo :: key_table where
  "table_demo = (replicate ASCII_MAX (0, False))[97 := (30, False), 65 := (30, True)]"

theorem synthetic_keys_type_text_witness:
  "\<exists>evs. emit_loop table_demo (utf8_encode_all [65, 0x20AC, 97] @ [0]) 0 0 = Some evs \<and>
     typed (\<lambda>sh kc. if sh then 65 else 97) False evs = ([65, 97], False)"
proof -
  let ?f = "\<lambda>sh kc. (if sh then 65 else 97) :: u32"
  have "\<forall>cp < 128. fst (table_demo ! cp) \<noteq> 0 \<longrightarrow> fst (table_demo ! cp) \<noteq> KEY_LEFTSHIFT \<and>
      ?f (snd (table_demo ! cp)) (fst (table_demo ! cp)) = of_nat cp"
    by (auto simp: table_demo_def ASCII_MAX_def nth_list_update KEY_LEFTSHIFT_def split: if_splits)
  from synthetic_keys_type_text [OF _ this, of "[65, 0x20AC, 97]"] show ?thesis
    by (simp add: scalar_def table_demo_def ASCII_MAX_def nth_list_update)
qed

lemma emit_prefix_none:
  assumes "list_all (\<lambda>cp. scalar cp \<and> 0 < cp) cps"
    and "\<And>t. emit_loop tab (xs @ utf8_encode_all cps @ ys) (length (xs @ utf8_encode_all cps)) t = None"
  shows "emit_loop tab (xs @ utf8_encode_all cps @ ys) (length xs) t = None"
  using assms
proof (induction cps arbitrary: xs t)
  case (Cons cp cps)
  let ?buf = "(xs @ utf8_encode cp) @ utf8_encode_all cps @ ys"
  have "reads_as (xs @ utf8_encode cp @ (utf8_encode_all cps @ ys)) (length xs) cp (length (utf8_encode cp))"
    using Cons.prems(1) by (intro reads_encoded) simp_all
  then have r: "reads_as ?buf (length xs) cp (length (utf8_encode cp))" by simp
  have "emit_loop tab ?buf (length (xs @ utf8_encode cp)) t' = None" for t'
    using Cons.IH [of "xs @ utf8_encode cp" t'] Cons.prems by simp
  then show ?case
    using emit_step [OF r, of tab t] Cons.prems(1) by (simp add: split_beta)
qed simp

text \<open>
  A text that ends in a lead byte whose continuation is missing makes the loop step over the
  terminating NUL and read outside the buffer.
\<close>

theorem truncated_text_overreads:
  assumes "list_all (\<lambda>cp. scalar cp \<and> 0 < cp) cps" "0xC0 \<le> c"
  shows "emit_loop tab ((utf8_encode_all cps @ [c]) @ [0]) 0 0 = None"
proof -
  let ?buf = "utf8_encode_all cps @ [c, 0]" and ?p = "length (utf8_encode_all cps)"
  have "emit_loop tab ?buf ?p t = None" for t
  proof -
    obtain lead n where l: "lead_byte c = (lead, n)" "2 \<le> n"
      using assms(2) by (fastforce simp: lead_byte_def word_le_nat_alt word_less_nat_alt split: if_splits)
    have c: "?buf ! ?p = c" "?buf ! Suc ?p = 0" "\<not> length ?buf \<le> ?p" "\<not> length ?buf \<le> Suc ?p"
      by (simp_all add: nth_append)
    have "c \<noteq> 0" "\<not> c < 0xC0" using assms(2) by auto
    moreover obtain k where "n - 1 = Suc k" using l(2) by (cases "n - 1") auto
    moreover have "emit_loop tab ?buf (?p + n) t = None"
      using l(2) by (subst emit_loop.simps) simp
    ultimately show ?thesis
      by (subst emit_loop.simps) (simp add: Let_def c l)
  qed
  from emit_prefix_none [OF assms(1), of tab "[]" "[c, 0]" 0] this show ?thesis by simp
qed

theorem truncated_text_overreads_witness:
  "emit_loop table_demo [97, 0xC3, 0] 0 0 = None"
  using truncated_text_overreads [of "[97]" "0xC3" table_demo]
  by (simp add: scalar_def utf8_encode_def)

subsection \<open>Delivery\<close>

text \<open>Nothing the dispatcher does touches the queue.\<close>

lemma queue_frames [frame_simps]:
  "tx_queue (wl_emit c st) = tx_queue st" "tx_queue (build_ascii_table km st) = tx_queue st"
  "tx_queue (ti_update i f st) = tx_queue st" "tx_queue (set_active_text_input a st) = tx_queue st"
  "tx_queue (request_ime_command x st) = tx_queue st"
  by (simp_all add: wl_emit_def build_ascii_table_def ti_update_def set_active_text_input_def
      request_ime_command_def Let_def split: option.split)

lemma queue_leave [frame_simps]: "tx_queue (maybe_send_leave i s st) = tx_queue st"
  by (simp add: maybe_send_leave_def Let_def send_leave_event_def request_ime_hide_def frame_simps
      split: option.split)

lemma queue_fold: "(\<And>x st. tx_queue (f x st) = tx_queue st) \<Longrightarrow> tx_queue (fold f xs st) = tx_queue st"
  by (induction xs arbitrary: st) simp_all

lemma queue_clear_focus [frame_simps]: "tx_queue (clear_text_input_focus sf s st) = tx_queue st"
proof -
  have "tx_queue (leave_if_on sf s i st) = tx_queue st" for i and st :: "'a text_server_scheme"
    by (simp add: leave_if_on_def frame_simps split: option.split)
  then show ?thesis by (simp add: clear_text_input_focus_def Let_def queue_fold)
qed

lemma queue_enter [frame_simps]: "tx_queue (text_input_handle_keyboard_enter sf st) = tx_queue st"
proof -
  have "tx_queue (enter_if_client s i st) = tx_queue st" for s i and st :: "'a text_server_scheme"
    by (simp add: enter_if_client_def frame_simps split: option.split)
  then show ?thesis
    by (simp add: text_input_handle_keyboard_enter_def Let_def queue_fold frame_simps split: option.split)
qed

lemma queue_focus [frame_simps]: "tx_queue (ensure_keyboard_focus kbf st) = tx_queue st"
  by (simp add: ensure_keyboard_focus_def frame_simps split: option.split)

lemma queue_keys [frame_simps]: "tx_queue (fold notify_synthetic_key evs st) = tx_queue st"
  by (rule queue_fold) (simp add: notify_synthetic_key_def Let_def frame_simps split: prod.split)

lemma queue_dispatch: "dispatch_text_op kbf km op st = Some st' \<Longrightarrow> tx_queue st' = tx_queue st"
  by (cases op)
    (auto simp: dispatch_text_op_def dispatch_commit_text_def dispatch_delete_surrounding_text_def
      emit_synthetic_keys_def emit_delete_keys_def frame_simps Let_def split: option.splits if_splits prod.splits)

text \<open>A text the JNI thread enqueues from well-formed UTF-8.\<close>

definition op_well_formed :: "pending_text_op \<Rightarrow> bool" where
  "op_well_formed op \<longleftrightarrow> (case op of
      PENDING_TEXT_COMMIT s \<Rightarrow> \<exists>cps. list_all (\<lambda>cp. scalar cp \<and> 0 < cp) cps \<and> s = utf8_encode_all cps
    | PENDING_TEXT_DELETE _ _ _ \<Rightarrow> True)"

lemma dispatch_well_formed:
  assumes "op_well_formed op"
  shows "dispatch_text_op kbf km op st \<noteq> None"
proof (cases op)
  case (PENDING_TEXT_COMMIT s)
  then obtain cps where c: "list_all (\<lambda>cp. scalar cp \<and> 0 < cp) cps" "s = utf8_encode_all cps"
    using assms by (auto simp: op_well_formed_def)
  have "emit_loop tab (s @ [0]) 0 0 = Some (events_for tab cps 0)" for tab
    using emit_encoded [OF c(1), of tab "[]" 0] by (simp add: c(2))
  then show ?thesis
    unfolding PENDING_TEXT_COMMIT
    by (simp add: dispatch_text_op_def dispatch_commit_text_def emit_synthetic_keys_def Let_def
        split: option.split)
qed (simp add: dispatch_text_op_def)

lemma text_event_loop_eq:
  fixes st :: text_server
  assumes "text_queue_inv (tx_queue st)" "length (pq_ops (tx_queue st)) < n"
    "\<forall>op \<in> set (pq_ops (tx_queue st)). op_well_formed op"
  shows "\<exists>st'. text_event_loop n kbf km st = Some st' \<and> pq_ops (tx_queue st') = []"
  using assms
proof (induction n arbitrary: st)
  case (Suc n)
  show ?case
  proof (cases "pq_ops (tx_queue st)")
    case Nil
    then show ?thesis by (simp add: pop_text_op_def)
  next
    case (Cons op ops)
    from tq.deq_front [OF Suc.prems(1) Cons] obtain q where
      q: "pop_text_op (tx_queue st) = (Some op, q)" "text_queue_inv q" "pq_ops q = ops" by blast
    obtain st1 where s1: "dispatch_text_op kbf km op (st\<lparr>tx_queue := q\<rparr>) = Some st1"
      using dispatch_well_formed [of op kbf km] Suc.prems(3) Cons by fastforce
    have "tx_queue st1 = q" using queue_dispatch [OF s1] by simp
    with Suc.IH [of st1] Suc.prems Cons q s1 show ?thesis by simp
  qed
qed simp

text \<open>What one operation sends through an enabled text input.\<close>

definition op_calls :: "text_input \<Rightarrow> pending_text_op \<Rightarrow> wl_call list" where
  "op_calls t op = (case op of
      PENDING_TEXT_COMMIT s \<Rightarrow>
        if s = [] then [] else [TiCommitString (ti_res t) s, TiDone (ti_res t) (ti_serial t)]
    | PENDING_TEXT_DELETE b a c \<Rightarrow>
        (case text_input_delete_byte_counts t (clamp_delete_count b) (clamp_delete_count a) c of
           None \<Rightarrow> []
         | Some (bb, ab) \<Rightarrow>
             if clamp_delete_count b = 0 \<and> clamp_delete_count a = 0 \<or> bb = 0 \<and> ab = 0 then []
             else [TiDeleteSurrounding (ti_res t) bb ab, TiDone (ti_res t) (ti_serial t)]))"

definition needs_surrounding :: "pending_text_op \<Rightarrow> bool" where
  "needs_surrounding op \<longleftrightarrow> (case op of PENDING_TEXT_COMMIT _ \<Rightarrow> False | PENDING_TEXT_DELETE _ _ _ \<Rightarrow> True)"

lemma active_enabled_calls [simp]: "active_enabled (st\<lparr>cs_calls := cs\<rparr>) = active_enabled st"
  by (simp add: active_enabled_def ti_find_def cong: option.case_cong)

lemma active_enabled_queue [simp]: "active_enabled (st\<lparr>tx_queue := q\<rparr>) = active_enabled st"
  by (simp add: active_enabled_def ti_find_def cong: option.case_cong)

lemma dispatch_through_text_input:
  assumes "active_enabled st = Some t" "needs_surrounding op \<longrightarrow> ti_surrounding t \<noteq> None"
  shows "dispatch_text_op kbf km op st = Some (st\<lparr>cs_calls := cs_calls st @ op_calls t op\<rparr>)"
proof (cases op)
  case (PENDING_TEXT_COMMIT s)
  then show ?thesis
    using assms(1) by (simp add: dispatch_text_op_def dispatch_commit_text_def op_calls_def wl_emit_def)
next
  case (PENDING_TEXT_DELETE b a c)
  then obtain bb ab where
    "text_input_delete_byte_counts t (clamp_delete_count b) (clamp_delete_count a) c = Some (bb, ab)"
    using assms(2) by (auto simp: needs_surrounding_def text_input_delete_byte_counts_def Let_def)
  with PENDING_TEXT_DELETE assms(1) show ?thesis
    by (simp add: dispatch_text_op_def dispatch_delete_surrounding_text_def op_calls_def wl_emit_def Let_def)
qed

lemma text_event_loop_calls:
  fixes st :: "'a text_server_scheme"
  assumes "text_queue_inv (tx_queue st)" "length (pq_ops (tx_queue st)) < n" "active_enabled st = Some t"
    "\<forall>op \<in> set (pq_ops (tx_queue st)). needs_surrounding op \<longrightarrow> ti_surrounding t \<noteq> None"
  shows "\<exists>st'. text_event_loop n kbf km st = Some st' \<and> pq_ops (tx_queue st') = [] \<and>
    cs_calls st' = cs_calls st @ concat (map (op_calls t) (pq_ops (tx_queue st)))"
  using assms
proof (induction n arbitrary: st)
  case (Suc n)
  show ?case
  proof (cases "pq_ops (tx_queue st)")
    case Nil
    then show ?thesis by (simp add: pop_text_op_def)
  next
    case (Cons op ops)
    from tq.deq_front [OF Suc.prems(1) Cons] obtain q where
      q: "pop_text_op (tx_queue st) = (Some op, q)" "text_queue_inv q" "pq_ops q = ops" by blast
    let ?st1 = "st\<lparr>tx_queue := q, cs_calls := cs_calls st @ op_calls t op\<rparr>"
    have d: "dispatch_text_op kbf km op (st\<lparr>tx_queue := q\<rparr>) = Some ?st1"
      using dispatch_through_text_input [of "st\<lparr>tx_queue := q\<rparr>" t op kbf km] Suc.prems(3,4) Cons by simp
    have "\<exists>st'. text_event_loop n kbf km ?st1 = Some st' \<and> pq_ops (tx_queue st') = [] \<and>
        cs_calls st' = cs_calls ?st1 @ concat (map (op_calls t) (pq_ops (tx_queue ?st1)))"
      using Suc.prems Cons q by (intro Suc.IH) simp_all
    with d q Cons show ?thesis by simp
  qed
qed simp

text \<open>What the JNI thread enqueues, text by text.\<close>

definition commit_texts :: "bytes list \<Rightarrow> 'a text_server_scheme \<Rightarrow> 'a text_server_scheme" where
  "commit_texts texts st =
     fold (\<lambda>s. text_input_handle_commit_text True WakeOk (Some s)) texts st"

lemma commit_texts_queue:
  assumes "text_queue_inv (tx_queue st)" "0 \<le> tx_pipe_fd st" "tx_event_source st" "[] \<notin> set texts"
    "length (pq_ops (tx_queue st)) + length texts \<le> PENDING_TEXT_MAX_COUNT"
    "ops_bytes (pq_ops (tx_queue st)) + sum_list (map length texts) \<le> PENDING_TEXT_MAX_BYTES"
  shows "\<exists>q. commit_texts texts st = st\<lparr>tx_queue := q\<rparr> \<and> text_queue_inv q \<and>
    pq_ops q = pq_ops (tx_queue st) @ map PENDING_TEXT_COMMIT texts"
  using assms
proof (induction texts arbitrary: st)
  case Nil
  then show ?case by (intro exI [of _ "tx_queue st"]) (simp add: commit_texts_def)
next
  case (Cons s texts)
  have "text_queue_room (PENDING_TEXT_COMMIT s) (pq_ops (tx_queue st))"
    using Cons.prems(5,6) by (simp add: text_queue_room_def)
  from tq.enq_room [OF Cons.prems(1) this] obtain q where
    q: "enqueue_text_op (PENDING_TEXT_COMMIT s) (tx_queue st) = (True, q)" "text_queue_inv q"
    "pq_ops q = pq_ops (tx_queue st) @ [PENDING_TEXT_COMMIT s]" by blast
  have h: "text_input_handle_commit_text True WakeOk (Some s) st = st\<lparr>tx_queue := q\<rparr>"
    using Cons.prems(2-4) q(1)
    by (auto simp: text_input_handle_commit_text_def enqueue_text_commit_def text_enqueued_def
        wake_text_input_loop_def)
  have "\<exists>q'. commit_texts texts (st\<lparr>tx_queue := q\<rparr>) = (st\<lparr>tx_queue := q\<rparr>)\<lparr>tx_queue := q'\<rparr> \<and>
      text_queue_inv q' \<and>
      pq_ops q' = pq_ops (tx_queue (st\<lparr>tx_queue := q\<rparr>)) @ map PENDING_TEXT_COMMIT texts"
    using Cons.prems q by (intro Cons.IH) simp_all
  with h q(3) show ?case by (simp add: commit_texts_def)
qed

text \<open>
  With an enabled text input, the texts the JNI thread commits (non-empty, up to 256 of them and
  256 KiB) reach the client in order, each whole, once and followed by its \<^verbatim>\<open>done\<close> with the object's
  serial; the handler returns and leaves the queue empty.
\<close>

theorem committed_texts_reach_client:
  fixes st :: text_server
  assumes "text_queue_inv (tx_queue st)" "pq_ops (tx_queue st) = []" "0 \<le> tx_pipe_fd st"
    "tx_event_source st" "active_enabled st = Some t" "[] \<notin> set texts" "length texts \<le> 256"
    "sum_list (map length texts) \<le> 262144"
  shows "\<exists>st'. on_text_input_event True kbf km (commit_texts texts st) = Some st' \<and>
    pq_ops (tx_queue st') = [] \<and>
    cs_calls st' = cs_calls st @
      concat (map (\<lambda>s. [TiCommitString (ti_res t) s, TiDone (ti_res t) (ti_serial t)]) texts)"
proof -
  obtain q where q: "commit_texts texts st = st\<lparr>tx_queue := q\<rparr>" "text_queue_inv q"
    "pq_ops q = map PENDING_TEXT_COMMIT texts"
    using commit_texts_queue [OF assms(1,3,4,6)] assms(2,7,8)
    by (auto simp: PENDING_TEXT_MAX_COUNT_def PENDING_TEXT_MAX_BYTES_def)
  have calls: "map (op_calls t) (map PENDING_TEXT_COMMIT texts) =
      map (\<lambda>s. [TiCommitString (ti_res t) s, TiDone (ti_res t) (ti_serial t)]) texts"
    using assms(6) by (auto simp: op_calls_def)
  have "\<exists>st'. text_event_loop (Suc (length texts)) kbf km (st\<lparr>tx_queue := q\<rparr>) = Some st' \<and>
      pq_ops (tx_queue st') = [] \<and>
      cs_calls st' = cs_calls (st\<lparr>tx_queue := q\<rparr>) @ concat (map (op_calls t) (pq_ops (tx_queue (st\<lparr>tx_queue := q\<rparr>))))"
    using assms(5) q(2,3)
    by (intro text_event_loop_calls) (auto simp: needs_surrounding_def)
  then obtain st' where "text_event_loop (Suc (length texts)) kbf km (st\<lparr>tx_queue := q\<rparr>) = Some st'"
    "pq_ops (tx_queue st') = []"
    "cs_calls st' = cs_calls st @ concat (map (op_calls t) (map PENDING_TEXT_COMMIT texts))"
    using q(3) by auto
  then show ?thesis
    unfolding calls using q by (simp add: on_text_input_event_def del: text_event_loop.simps)
qed

text \<open>A server whose one text input is enabled.\<close>

definition text_server1 :: text_server where
  "text_server1 = text_state.extend enabled_state (text_server.fields empty_text_queue 11 12 8 True True [] False)"

theorem committed_texts_reach_client_witness:
  "\<exists>st'. on_text_input_event True (\<lambda>_. None) None (commit_texts [[104], [105]] text_server1) = Some st' \<and>
     cs_calls st' = cs_calls text_server1 @
       [TiCommitString 3 [104], TiDone 3 1, TiCommitString 3 [105], TiDone 3 1]"
proof -
  have "active_enabled text_server1 = Some (hd (ts_inputs enabled_state))"
    by (simp add: text_server1_def active_enabled_def ti_find_def enabled_state_eq text_state0_def
        text_state.defs text_server.defs)
  moreover have "tx_queue text_server1 = empty_text_queue" "tx_pipe_fd text_server1 = 12"
    "tx_event_source text_server1"
    by (simp_all add: text_server1_def text_state.defs text_server.defs)
  ultimately show ?thesis
    using committed_texts_reach_client [of text_server1 "hd (ts_inputs enabled_state)" "[[104], [105]]"
        "\<lambda>_. None" None] text_queue_inv_empty
    by (auto simp: empty_text_queue_def enabled_state_eq text_state0_def)
qed

text \<open>
  When the wake-up write fails, the entry point discards not only its own operation but every
  operation that waits.
\<close>

theorem wake_failure_drops_all:
  assumes "text_queue_inv (tx_queue st)" "text_queue_room (PENDING_TEXT_COMMIT s) (pq_ops (tx_queue st))"
  shows "pq_ops (tx_queue (text_input_handle_commit_text True WakeError (Some s) st)) =
    (if s = [] \<or> tx_pipe_fd st < 0 \<or> \<not> tx_event_source st then pq_ops (tx_queue st) else [])"
proof -
  from tq.enq_room [OF assms] obtain q where
    "enqueue_text_op (PENDING_TEXT_COMMIT s) (tx_queue st) = (True, q)" "text_queue_inv q" by blast
  then show ?thesis
    using clear_pending_empty(1) [of q]
    by (simp add: text_input_handle_commit_text_def enqueue_text_commit_def text_enqueued_def
        wake_text_input_loop_def)
qed

theorem wake_failure_drops_all_witness:
  "pq_ops (tx_queue (text_input_handle_commit_text True WakeError (Some [105])
     (commit_texts [[104]] text_server1))) = []"
proof -
  have s: "tx_queue text_server1 = empty_text_queue" "tx_pipe_fd text_server1 = 12" "tx_event_source text_server1"
    by (simp_all add: text_server1_def text_state.defs text_server.defs)
  obtain q where q: "commit_texts [[104]] text_server1 = text_server1\<lparr>tx_queue := q\<rparr>" "text_queue_inv q"
    "pq_ops q = [PENDING_TEXT_COMMIT [104]]"
    using commit_texts_queue [of text_server1 "[[104]]"] s text_queue_inv_empty
    by (auto simp: empty_text_queue_def PENDING_TEXT_MAX_COUNT_def PENDING_TEXT_MAX_BYTES_def)
  have r: "text_queue_room (PENDING_TEXT_COMMIT [105]) (pq_ops q)"
    by (simp add: q(3) text_queue_room_def PENDING_TEXT_MAX_COUNT_def PENDING_TEXT_MAX_BYTES_def)
  show ?thesis
    using wake_failure_drops_all [of "text_server1\<lparr>tx_queue := q\<rparr>" "[105]"] q r s by simp
qed

subsection \<open>Start and stop\<close>

definition open_ends :: "'a text_server_scheme \<Rightarrow> int list" where
  "open_ends st = filter (\<lambda>fd. 0 \<le> fd) [tx_ime_read st, ts_ime_fd st, tx_pipe_read st, tx_pipe_fd st]"

lemma build_table_frames [frame_simps]:
  "ts_inputs (build_ascii_table km st) = ts_inputs st" "ts_active (build_ascii_table km st) = ts_active st"
  "ts_committed (build_ascii_table km st) = ts_committed st" "ts_server (build_ascii_table km st) = ts_server st"
  "ts_focused (build_ascii_table km st) = ts_focused st" "ts_listener (build_ascii_table km st) = ts_listener st"
  "ts_ime_fd (build_ascii_table km st) = ts_ime_fd st" "cs_calls (build_ascii_table km st) = cs_calls st"
  "tx_ime_read (build_ascii_table km st) = tx_ime_read st" "tx_pipe_read (build_ascii_table km st) = tx_pipe_read st"
  "tx_pipe_fd (build_ascii_table km st) = tx_pipe_fd st" "tx_event_source (build_ascii_table km st) = tx_event_source st"
  by (simp_all add: build_ascii_table_def Let_def split: option.split)

text \<open>
  Initialisation succeeds exactly when both pipes, the event source and the global are made; then
  all four ends are open and the module is in the state the histories start from. A failure at any
  point closes exactly the descriptors opened so far and leaves none behind in the server.
\<close>

theorem text_input_init_no_leak:
  assumes "\<forall>r w. pipe1 = Some (r, w) \<or> pipe2 = Some (r, w) \<longrightarrow> 0 \<le> r \<and> 0 \<le> w" "cs_calls st = []"
  shows "case text_input_handler_init pipe1 pipe2 add_ok global_ok km st of (rc, closed, st') \<Rightarrow>
    (rc = 0 \<longleftrightarrow> pipe1 \<noteq> None \<and> pipe2 \<noteq> None \<and> add_ok \<and> global_ok) \<and>
    (rc = 0 \<longrightarrow> closed = [] \<and> length (open_ends st') = 4 \<and> tx_event_source st' \<and> text_fresh st') \<and>
    (rc \<noteq> 0 \<longrightarrow> open_ends st' = [] \<and> \<not> tx_event_source st' \<and>
       closed = (case pipe1 of None \<Rightarrow> [] | Some (r, w) \<Rightarrow>
         [r, w] @ (case pipe2 of None \<Rightarrow> [] | Some (r, w) \<Rightarrow> [r, w])))"
proof (cases pipe1)
  case None
  then show ?thesis
    by (simp add: text_input_handler_init_def text_statics_reset_def open_ends_def)
next
  case (Some p1)
  obtain r1 w1 where p1: "p1 = (r1, w1)" "0 \<le> r1" "0 \<le> w1" using assms(1) Some by (cases p1) auto
  show ?thesis
  proof (cases pipe2)
    case None
    with Some p1 show ?thesis
      by (simp add: text_input_handler_init_def text_statics_reset_def open_ends_def Let_def)
  next
    case (Some p2)
    obtain r2 w2 where p2: "p2 = (r2, w2)" "0 \<le> r2" "0 \<le> w2" using assms(1) Some by (cases p2) auto
    show ?thesis
      using \<open>pipe1 = Some p1\<close> Some p1 p2 assms(2)
      by (simp add: text_input_handler_init_def text_statics_reset_def open_ends_def Let_def frame_simps
          text_fresh_def set_active_text_input_def)
  qed
qed

theorem text_input_init_no_leak_witness:
  "fst (text_input_handler_init (Some (5, 6)) (Some (7, 8)) False True None text_server0) \<noteq> 0 \<and>
   open_ends (snd (snd (text_input_handler_init (Some (5, 6)) (Some (7, 8)) False True None text_server0))) = []"
  using text_input_init_no_leak [of "Some (5, 6)" "Some (7, 8)" text_server0 False True None]
  by (simp split: prod.splits)

end
