(* ===== verification/InputDispatch.thy ===== *)
theory InputDispatch
  imports KeycodeMap InputSpsc TextDispatchProps
begin

text \<open>
  \<^verbatim>\<open>compositor/native/src/input_handler.c\<close> around the ring: the functions the JNI thread calls, the
  handler on the compositor thread that drains the ring into the seat, the focus bookkeeping of
  touch, keyboard and pointer, and start and stop.
\<close>

subsection \<open>State and environment\<close>

text \<open>
  On top of the text-input state: the ring, the surface that has pointer focus and the one whose
  destroy signal the static listener is linked to (\<^const>\<open>None\<close> for a self-linked listener), the
  ends of the wake pipe with the number of bytes in it, and the event source.
\<close>

record input_server = text_server +
  in_ring :: ring
  in_focused :: "surface option"
  in_listener :: "surface option"
  in_pipe_read :: int
  in_pipe_write :: int
  in_pipe_bytes :: nat
  in_event_source :: bool

text \<open>
  A scene node as the hit test reads it: only a buffer node can belong to a surface
  (\<^verbatim>\<open>wlr_scene_surface_try_from_buffer\<close>).
\<close>

datatype scene_node = SceneTree | SceneRect | SceneBuffer "surface option"

text \<open>
  What the code reads back from wlroots and libm, as parameters: the seat's keyboard focus and touch
  points (the outer option is the point, the inner one its client) after the calls so far, the scene
  node under a point with the surface-local coordinates, \<^verbatim>\<open>dy * 15.0\<close> and
  \<^verbatim>\<open>(int32_t)lround(dy)\<close>.
\<close>

record input_env =
  ie_focus :: focus_fun
  ie_touch_point :: "wl_call list \<Rightarrow> s32 \<Rightarrow> nat option option"
  ie_node_at :: "wl_call list \<Rightarrow> double \<Rightarrow> double \<Rightarrow> (scene_node \<times> double \<times> double) option"
  ie_mul15 :: "double \<Rightarrow> double"
  ie_lround :: "double \<Rightarrow> s32"

text \<open>\<^verbatim>\<open>d != 0.0\<close> on the bit pattern: both zeros compare equal to 0, a NaN does not.\<close>

definition double_nonzero :: "double \<Rightarrow> bool" where
  "double_nonzero d \<longleftrightarrow> d AND 0x7FFFFFFFFFFFFFFF \<noteq> 0"

subsection \<open>Dispatch\<close>

definition surface_at ::
    "input_env \<Rightarrow> double \<Rightarrow> double \<Rightarrow> 'a compositor_scheme \<Rightarrow> (surface \<times> double \<times> double) option" where
  "surface_at env lx ly st =
     (case ie_node_at env (cs_calls st) lx ly of
        Some (SceneBuffer (Some s), sx, sy) \<Rightarrow> Some (s, sx, sy)
      | _ \<Rightarrow> None)"

definition handle_focused_surface_destroy :: "'a input_server_scheme \<Rightarrow> 'a input_server_scheme" where
  "handle_focused_surface_destroy st = st\<lparr>in_focused := None, in_listener := None\<rparr>"

text \<open>
  The destroy signal of a surface: it reaches the pointer's listener and the text input's when they
  are linked to it.
\<close>

definition input_surface_destroyed :: "surface \<Rightarrow> 'a input_server_scheme \<Rightarrow> 'a input_server_scheme" where
  "input_surface_destroyed s st =
     surface_destroyed s
       (if in_listener st = Some s then handle_focused_surface_destroy st else st)"

text \<open>
  The scan of the toplevels: whether one is rendering-only, and the first that is not. The result is
  a pointer that may itself be \<^verbatim>\<open>NULL\<close>: the outer option says whether there is a target.
\<close>

fun redirect_scan :: "toplevel list \<Rightarrow> bool \<Rightarrow> toplevel option \<Rightarrow> bool \<times> toplevel option" where
  "redirect_scan [] has_rendering_only target = (has_rendering_only, target)"
| "redirect_scan (ct # cts) has_rendering_only target =
     (if ct_rendering_only ct then redirect_scan cts True target
      else if target = None then redirect_scan cts has_rendering_only (Some ct)
      else redirect_scan cts has_rendering_only target)"

definition find_touch_redirect_surface :: "'a compositor_scheme \<Rightarrow> surface option" where
  "find_touch_redirect_surface st =
     (case redirect_scan (cs_toplevels st) False None of
        (True, Some ct) \<Rightarrow> ct_surface ct
      | _ \<Rightarrow> None)"

definition key_focus_target :: "'a compositor_scheme \<Rightarrow> surface option" where
  "key_focus_target st =
     (case find_touch_redirect_surface st of
        Some s \<Rightarrow> Some s
      | None \<Rightarrow> (case cs_toplevels st of [] \<Rightarrow> None | ct # _ \<Rightarrow> ct_surface ct))"

text \<open>\<^verbatim>\<open>wlr_seat_keyboard_notify_enter\<close> with the keyboard's state, then the text inputs.\<close>

definition enter_keyboard :: "surface \<Rightarrow> 'a text_state_scheme \<Rightarrow> 'a text_state_scheme" where
  "enter_keyboard s st = text_input_handle_keyboard_enter (Some s) (wl_emit (KbEnter (Some s) True) st)"

definition dispatch_key ::
    "input_env \<Rightarrow> u32 \<Rightarrow> u32 \<Rightarrow> s32 \<Rightarrow> 'a text_state_scheme \<Rightarrow> 'a text_state_scheme" where
  "dispatch_key env time keycode pressed st =
     (if \<not> cs_keyboard st then st
      else
        let st1 = (if ie_focus env (cs_calls st) = None
                   then (case key_focus_target st of
                           None \<Rightarrow> st | Some target \<Rightarrow> enter_keyboard target st)
                   else st);
            down = (pressed \<noteq> 0)
        in wl_emit (SeatKey time keycode down) (wl_emit (KbUpdate time keycode down) st1))"

definition dispatch_touch_down ::
    "input_env \<Rightarrow> u32 \<Rightarrow> s32 \<Rightarrow> double \<Rightarrow> double \<Rightarrow> 'a text_state_scheme \<Rightarrow> 'a text_state_scheme" where
  "dispatch_touch_down env time tid x y st =
     (case surface_at env x y st of
        None \<Rightarrow> st
      | Some (hit, sx, sy) \<Rightarrow>
          let redirect = find_touch_redirect_surface st;
              surface = (case redirect of None \<Rightarrow> hit | Some r \<Rightarrow> r);
              st1 = wl_emit TouchFrame (wl_emit (TouchDown surface time tid sx sy) st)
          in if redirect = None \<and> cs_keyboard st1 then enter_keyboard surface st1 else st1)"

definition dispatch_touch_motion ::
    "input_env \<Rightarrow> u32 \<Rightarrow> s32 \<Rightarrow> double \<Rightarrow> double \<Rightarrow> 'a compositor_scheme \<Rightarrow> 'a compositor_scheme" where
  "dispatch_touch_motion env time tid x y st =
     (case surface_at env x y st of
        None \<Rightarrow> st
      | Some (_, sx, sy) \<Rightarrow> wl_emit TouchFrame (wl_emit (TouchMotion time tid sx sy) st))"

definition dispatch_touch_up :: "u32 \<Rightarrow> s32 \<Rightarrow> 'a compositor_scheme \<Rightarrow> 'a compositor_scheme" where
  "dispatch_touch_up time tid st = wl_emit TouchFrame (wl_emit (TouchUp time tid) st)"

definition dispatch_touch_cancel :: "input_env \<Rightarrow> s32 \<Rightarrow> 'a compositor_scheme \<Rightarrow> 'a compositor_scheme" where
  "dispatch_touch_cancel env tid st =
     (case ie_touch_point env (cs_calls st) tid of
        Some (Some client) \<Rightarrow> wl_emit TouchFrame (wl_emit (TouchCancel client) st)
      | _ \<Rightarrow> st)"

definition dispatch_pointer_motion ::
    "input_env \<Rightarrow> u32 \<Rightarrow> double \<Rightarrow> double \<Rightarrow> 'a input_server_scheme \<Rightarrow> 'a input_server_scheme" where
  "dispatch_pointer_motion env time x y st =
     (let hit = surface_at env x y st;
          surface = map_option fst hit;
          st1 = (if surface \<noteq> in_focused st
                 then
                   let st' = (if in_focused st \<noteq> None
                              then (wl_emit PtrClearFocus st)\<lparr>in_listener := None\<rparr> else st);
                       st'' = st'\<lparr>in_focused := surface\<rparr>
                   in case hit of
                        None \<Rightarrow> st''
                      | Some (s, sx, sy) \<Rightarrow> (wl_emit (PtrEnter s sx sy) st'')\<lparr>in_listener := Some s\<rparr>
                 else st);
          st2 = (case hit of
                   None \<Rightarrow> st1 | Some (_, sx, sy) \<Rightarrow> wl_emit (PtrMotion time sx sy) st1)
      in wl_emit PtrFrame st2)"

definition dispatch_pointer_button :: "u32 \<Rightarrow> u32 \<Rightarrow> s32 \<Rightarrow> 'a compositor_scheme \<Rightarrow> 'a compositor_scheme" where
  "dispatch_pointer_button time button pressed st =
     wl_emit PtrFrame (wl_emit (PtrButton time button (pressed \<noteq> 0)) st)"

text \<open>The flag of \<^const>\<open>PtrAxis\<close>: vertical.\<close>

definition dispatch_pointer_scroll ::
    "input_env \<Rightarrow> u32 \<Rightarrow> double \<Rightarrow> double \<Rightarrow> 'a compositor_scheme \<Rightarrow> 'a compositor_scheme" where
  "dispatch_pointer_scroll env time dx dy st =
     (let st1 = (if double_nonzero dy
                 then wl_emit (PtrAxis time True (ie_mul15 env dy) (ie_lround env dy)) st else st);
          st2 = (if double_nonzero dx
                 then wl_emit (PtrAxis time False (ie_mul15 env dx) (ie_lround env dx)) st1 else st1)
      in wl_emit PtrFrame st2)"

text \<open>The \<^verbatim>\<open>switch\<close> of the handler.\<close>

definition dispatch_event :: "input_env \<Rightarrow> input_event \<Rightarrow> 'a input_server_scheme \<Rightarrow> 'a input_server_scheme" where
  "dispatch_event env ev st = (case ev of
      INPUT_KEY t k p \<Rightarrow> dispatch_key env t k p st
    | INPUT_TOUCH_DOWN t i x y \<Rightarrow> dispatch_touch_down env t i x y st
    | INPUT_TOUCH_MOTION t i x y \<Rightarrow> dispatch_touch_motion env t i x y st
    | INPUT_TOUCH_UP t i x y \<Rightarrow> dispatch_touch_up t i st
    | INPUT_TOUCH_CANCEL t i x y \<Rightarrow> dispatch_touch_cancel env i st
    | INPUT_POINTER_MOTION t x y \<Rightarrow> dispatch_pointer_motion env t x y st
    | INPUT_POINTER_BUTTON t b p \<Rightarrow> dispatch_pointer_button t b p st
    | INPUT_POINTER_SCROLL t dx dy \<Rightarrow> dispatch_pointer_scroll env t dx dy st)"

text \<open>
  The handler: drain the pipe, then peek, dispatch, consume until the ring is empty. The ring never
  holds more than 255 events, so \<^const>\<open>INPUT_RING_SIZE\<close> rounds are enough.
\<close>

definition input_event_step :: "input_env \<Rightarrow> nat \<Rightarrow> 'a input_server_scheme \<Rightarrow> 'a input_server_scheme" where
  "input_event_step env i st =
     (let st1 = dispatch_event env (ring_slots (in_ring st) ! i) st
      in st1\<lparr>in_ring := ring_consume (in_ring st1)\<rparr>)"

fun input_event_loop :: "nat \<Rightarrow> input_env \<Rightarrow> 'a input_server_scheme \<Rightarrow> 'a input_server_scheme option" where
  "input_event_loop 0 env st = None"
| "input_event_loop (Suc n) env st =
     (case ring_peek (in_ring st) of
        None \<Rightarrow> Some st
      | Some i \<Rightarrow> input_event_loop n env (input_event_step env i st))"

definition on_input_event :: "input_env \<Rightarrow> 'a input_server_scheme \<Rightarrow> 'a input_server_scheme option" where
  "on_input_event env st = input_event_loop INPUT_RING_SIZE env (st\<lparr>in_pipe_bytes := 0\<rparr>)"

subsection \<open>The JNI side\<close>

text \<open>
  The wake-up byte: the write is non-blocking and its result ignored, so a full pipe (\<open>cap\<close> bytes)
  stays as it is.
\<close>

definition wake_compositor :: "nat \<Rightarrow> 'a input_server_scheme \<Rightarrow> 'a input_server_scheme" where
  "wake_compositor cap st =
     (if in_pipe_bytes st < cap then st\<lparr>in_pipe_bytes := in_pipe_bytes st + 1\<rparr> else st)"

text \<open>What every send function does with its event: into the ring and wake, or drop.\<close>

definition send_event :: "nat \<Rightarrow> input_event \<Rightarrow> 'a input_server_scheme \<Rightarrow> 'a input_server_scheme" where
  "send_event cap ev st =
     (case ring_send ev (in_ring st) of
        (False, _) \<Rightarrow> st
      | (True, r) \<Rightarrow> wake_compositor cap (st\<lparr>in_ring := r\<rparr>))"

definition input_handler_send_key ::
    "(string \<Rightarrow> u16) \<Rightarrow> nat \<Rightarrow> int \<Rightarrow> s32 \<Rightarrow> u32 \<Rightarrow> 'a input_server_scheme \<Rightarrow> 'a input_server_scheme" where
  "input_handler_send_key key cap android_keycode pressed time st =
     (let linux_key = android_keycode_to_linux key android_keycode
      in if linux_key = 0 then st
         else send_event cap (INPUT_KEY time (ucast linux_key) pressed) st)"

definition input_handler_send_touch_down ::
    "nat \<Rightarrow> s32 \<Rightarrow> double \<Rightarrow> double \<Rightarrow> u32 \<Rightarrow> 'a input_server_scheme \<Rightarrow> 'a input_server_scheme" where
  "input_handler_send_touch_down cap tid x y time = send_event cap (INPUT_TOUCH_DOWN time tid x y)"

definition input_handler_send_touch_motion ::
    "nat \<Rightarrow> s32 \<Rightarrow> double \<Rightarrow> double \<Rightarrow> u32 \<Rightarrow> 'a input_server_scheme \<Rightarrow> 'a input_server_scheme" where
  "input_handler_send_touch_motion cap tid x y time = send_event cap (INPUT_TOUCH_MOTION time tid x y)"

definition input_handler_send_touch_up ::
    "nat \<Rightarrow> s32 \<Rightarrow> u32 \<Rightarrow> 'a input_server_scheme \<Rightarrow> 'a input_server_scheme" where
  "input_handler_send_touch_up cap tid time = send_event cap (INPUT_TOUCH_UP time tid 0 0)"

definition input_handler_send_touch_cancel ::
    "nat \<Rightarrow> s32 \<Rightarrow> u32 \<Rightarrow> 'a input_server_scheme \<Rightarrow> 'a input_server_scheme" where
  "input_handler_send_touch_cancel cap tid time = send_event cap (INPUT_TOUCH_CANCEL time tid 0 0)"

definition input_handler_send_pointer_motion ::
    "nat \<Rightarrow> double \<Rightarrow> double \<Rightarrow> u32 \<Rightarrow> 'a input_server_scheme \<Rightarrow> 'a input_server_scheme" where
  "input_handler_send_pointer_motion cap x y time = send_event cap (INPUT_POINTER_MOTION time x y)"

definition input_handler_send_pointer_button ::
    "nat \<Rightarrow> u32 \<Rightarrow> s32 \<Rightarrow> u32 \<Rightarrow> 'a input_server_scheme \<Rightarrow> 'a input_server_scheme" where
  "input_handler_send_pointer_button cap button pressed time =
     send_event cap (INPUT_POINTER_BUTTON time button pressed)"

definition input_handler_send_pointer_scroll ::
    "nat \<Rightarrow> double \<Rightarrow> double \<Rightarrow> u32 \<Rightarrow> 'a input_server_scheme \<Rightarrow> 'a input_server_scheme" where
  "input_handler_send_pointer_scroll cap dx dy time = send_event cap (INPUT_POINTER_SCROLL time dx dy)"

subsection \<open>Start and stop\<close>

text \<open>
  The outcomes: the pipe (its ends, or a failure), whether the event source, the keyboard, the xkb
  context and the keymap can be created. The result is the return code, the descriptors closed, and
  the state.
\<close>

definition input_handler_init ::
    "(int \<times> int) option \<Rightarrow> bool \<Rightarrow> bool \<Rightarrow> bool \<Rightarrow> bool \<Rightarrow> 'a input_server_scheme
     \<Rightarrow> int \<times> int list \<times> 'a input_server_scheme" where
  "input_handler_init pipe add_ok calloc_ok ctx_ok keymap_ok st =
     (case pipe of
        None \<Rightarrow> (-1, [], st)
      | Some (r, w) \<Rightarrow>
          let st1 = st\<lparr>in_pipe_read := r, in_pipe_write := w, in_pipe_bytes := 0,
                       in_event_source := add_ok\<rparr>
          in if \<not> add_ok then (-1, [r, w], st1)
             else if \<not> calloc_ok then (-1, [r, w], st1)
             else
               let st2 = wl_emit KeyboardInit st1;
                   st3 = (if ctx_ok \<and> keymap_ok then wl_emit KeyboardSetKeymap st2 else st2);
                   st4 = wl_emit SeatSetCapabilities (wl_emit SeatSetKeyboard (st3\<lparr>cs_keyboard := True\<rparr>))
               in (0, [], st4\<lparr>in_ring := ring_init (ring_slots (in_ring st4)),
                              in_focused := None, in_listener := None\<rparr>))"

definition input_handler_destroy :: "'a input_server_scheme \<Rightarrow> int list \<times> 'a input_server_scheme" where
  "input_handler_destroy st =
     (let st1 = st\<lparr>in_event_source := False\<rparr>;
          closed = (if in_pipe_read st1 \<ge> 0 then [in_pipe_read st1] else []) @
                   (if in_pipe_write st1 \<ge> 0 then [in_pipe_write st1] else []);
          st2 = st1\<lparr>in_pipe_read := (if in_pipe_read st1 \<ge> 0 then -1 else in_pipe_read st1),
                    in_pipe_write := (if in_pipe_write st1 \<ge> 0 then -1 else in_pipe_write st1)\<rparr>;
          st3 = (if cs_keyboard st2 then (wl_emit KeyboardFinish st2)\<lparr>cs_keyboard := False\<rparr> else st2)
      in (closed, st3\<lparr>in_listener := None, in_focused := None\<rparr>))"

end
