(* ===== verification/InputProps.thy ===== *)
theory InputProps
  imports InputDispatch
begin

text \<open>
  Properties of the input handler: the drain loop is the events in order, wake-ups are not lost,
  the pointer and keyboard focus protocols, the redirect of touches, start and stop.
\<close>

subsection \<open>Frames\<close>

text \<open>What the text-input code called from here leaves alone.\<close>

definition text_frame :: "'a text_state_scheme \<Rightarrow> 'a text_state_scheme \<Rightarrow> bool" where
  "text_frame st st' \<longleftrightarrow> cs_seat st' = cs_seat st \<and> cs_keyboard st' = cs_keyboard st \<and>
     cs_toplevels st' = cs_toplevels st \<and> text_state.more st' = text_state.more st"

lemma text_frame_refl [simp]: "text_frame st st"
  by (simp add: text_frame_def)

lemma text_frame_trans: "\<lbrakk>text_frame a b; text_frame b c\<rbrakk> \<Longrightarrow> text_frame a c"
  by (simp add: text_frame_def)

lemma text_frame_fold:
  "(\<And>x st. text_frame st (f x st)) \<Longrightarrow> text_frame st (fold f xs st)"
  by (induction xs arbitrary: st) (auto intro: text_frame_trans)

lemma text_frame_prims:
  "text_frame st (wl_emit c st)" "text_frame st (ti_update i f st)"
  "text_frame st (set_active_text_input a st)" "text_frame st (request_ime_command x st)"
  by (simp_all add: text_frame_def wl_emit_def ti_update_def set_active_text_input_def
      request_ime_command_def)

lemma wl_emit_more [simp]: "text_state.more (wl_emit c st) = text_state.more st"
  by (simp add: wl_emit_def)

lemma wl_emit_input [simp]:
  "in_ring (wl_emit c st) = in_ring st" "in_focused (wl_emit c st) = in_focused st"
  "in_listener (wl_emit c st) = in_listener st" "in_pipe_bytes (wl_emit c st) = in_pipe_bytes st"
  "in_event_source (wl_emit c st) = in_event_source st"
  "in_pipe_read (wl_emit c st) = in_pipe_read st" "in_pipe_write (wl_emit c st) = in_pipe_write st"
  by (simp_all add: wl_emit_def)

lemma text_frame_leave: "text_frame st (maybe_send_leave i s st)"
proof -
  have leave: "text_frame st (send_leave_event t s st)" for t and st :: "'a text_state_scheme"
    by (simp add: send_leave_event_def text_frame_prims split: option.split)
  show ?thesis
    using leave text_frame_prims
    unfolding maybe_send_leave_def Let_def request_ime_hide_def
    by (auto simp: text_frame_def send_leave_event_def request_ime_command_def wl_emit_def ti_update_def
        set_active_text_input_def split: option.split)
qed

lemma text_frame_clear: "text_frame st (clear_text_input_focus sf s st)"
proof -
  have "text_frame st (leave_if_on sf s i st)" for i and st :: "'a text_state_scheme"
    by (simp add: leave_if_on_def text_frame_leave split: option.split)
  then have "text_frame st (fold (leave_if_on sf s) (map ti_res (ts_inputs st)) st)"
    by (rule text_frame_fold)
  then show ?thesis by (simp add: clear_text_input_focus_def Let_def text_frame_def)
qed

lemma text_frame_enter: "text_frame st (text_input_handle_keyboard_enter sf st)"
proof -
  have e: "text_frame st (enter_if_client s i st)" for s i and st :: "'a text_state_scheme"
    by (auto simp: enter_if_client_def text_frame_def wl_emit_def ti_update_def split: option.split)
  have f: "text_frame st (fold (enter_if_client s) xs (st1\<lparr>ts_focused := a, ts_listener := b\<rparr>))"
    if "text_frame st st1" for s xs a b and st1 :: "'a text_state_scheme"
    using that text_frame_fold [of "enter_if_client s", OF e] by (rule_tac text_frame_trans) (auto simp: text_frame_def)
  show ?thesis
    using f [OF text_frame_clear] by (simp add: text_input_handle_keyboard_enter_def Let_def split: option.split)
qed

lemma text_frame_enter_keyboard: "text_frame st (enter_keyboard s st)"
  unfolding enter_keyboard_def by (rule text_frame_trans [OF text_frame_prims(1) text_frame_enter])

lemma text_frame_destroyed: "text_frame st (surface_destroyed s st)"
  by (simp add: surface_destroyed_def handle_focused_text_input_surface_destroy_def text_frame_clear)

lemma text_frame_input:
  fixes st :: "'a input_server_scheme"
  assumes "text_frame st st'"
  shows "in_ring st' = in_ring st" "in_focused st' = in_focused st" "in_listener st' = in_listener st"
    "in_pipe_bytes st' = in_pipe_bytes st" "in_event_source st' = in_event_source st"
    "in_pipe_read st' = in_pipe_read st" "in_pipe_write st' = in_pipe_write st"
  using assms by (cases st, cases st', simp add: text_frame_def)+

lemmas enter_keyboard_frame [simp] = text_frame_enter_keyboard [unfolded text_frame_def]

lemmas enter_keyboard_input_frame [simp] = text_frame_input [OF text_frame_enter_keyboard]

lemma text_frame_key: "text_frame st (dispatch_key env t k p st)"
  by (simp add: dispatch_key_def Let_def text_frame_def split: option.split)

lemma text_frame_touch_down: "text_frame st (dispatch_touch_down env t i x y st)"
  by (simp add: dispatch_touch_down_def Let_def text_frame_def split: option.split)

text \<open>Everything but the pointer's motion is an operation on the text-input part.\<close>

lemma text_frame_event:
  assumes "\<forall>t x y. ev \<noteq> INPUT_POINTER_MOTION t x y"
  shows "text_frame st (dispatch_event env ev st)"
proof (cases ev)
  case (INPUT_KEY t k p)
  then show ?thesis by (simp add: dispatch_event_def text_frame_key)
next
  case (INPUT_TOUCH_DOWN t i x y)
  then show ?thesis by (simp add: dispatch_event_def text_frame_touch_down)
qed (use assms in \<open>simp_all add: dispatch_event_def dispatch_touch_motion_def
      dispatch_touch_up_def dispatch_touch_cancel_def dispatch_pointer_button_def
      dispatch_pointer_scroll_def Let_def text_frame_def split: option.split\<close>)

lemma dispatch_event_ring [frame_simps]: "in_ring (dispatch_event env ev st) = in_ring st"
proof (cases "\<exists>t x y. ev = INPUT_POINTER_MOTION t x y")
  case True
  then show ?thesis
    by (auto simp: dispatch_event_def dispatch_pointer_motion_def Let_def wl_emit_def split: option.split)
next
  case False
  then show ?thesis using text_frame_event text_frame_input(1) by blast
qed

subsection \<open>The drain loop\<close>

text \<open>
  C18: For any valid ring, the handler returns; it has dispatched the events that were waiting, each
  once, in the order they were sent, consuming each after its dispatch, and leaves the ring empty.
\<close>

theorem input_events_in_order:
  assumes "ring_inv (in_ring st)"
  shows "\<exists>st'. on_input_event env st = Some st' \<and> ring_contents (in_ring st') = [] \<and>
    st' = fold (\<lambda>ev s. (dispatch_event env ev s)\<lparr>in_ring := ring_consume (in_ring s)\<rparr>)
            (ring_contents (in_ring st)) (st\<lparr>in_pipe_bytes := 0\<rparr>)"
proof -
  let ?step = "\<lambda>ev s. (dispatch_event env ev s)\<lparr>in_ring := ring_consume (in_ring s)\<rparr>"
  have loop: "\<exists>s'. input_event_loop n env s = Some s' \<and> ring_contents (in_ring s') = [] \<and>
      s' = fold ?step (ring_contents (in_ring s)) s"
    if "ring_inv (in_ring s)" "ring_count (in_ring s) < n" for n and s :: "'a input_server_scheme"
    using that
  proof (induction n arbitrary: s)
    case (Suc n)
    show ?case
    proof (cases "ring_count (in_ring s) = 0")
      case True
      then have "ring_contents (in_ring s) = []" by (metis length_ring_contents length_0_conv)
      with True show ?thesis by (simp add: ring_peek_some [OF Suc.prems(1)])
    next
      case False
      let ?s1 = "input_event_step env (unat (ring_tail (in_ring s))) s"
      let ?ev = "ring_slots (in_ring s) ! unat (ring_tail (in_ring s))"
      have s1: "?s1 = ?step ?ev s" by (simp add: input_event_step_def frame_simps)
      have r: "in_ring ?s1 = ring_consume (in_ring s)" by (simp add: s1)
      have c: "ring_contents (in_ring s) = ?ev # ring_contents (in_ring ?s1)"
        "ring_inv (in_ring ?s1)" "ring_count (in_ring ?s1) < n"
        using ring_contents_consume [OF Suc.prems(1)] ring_count_consume [OF Suc.prems(1)]
          ring_inv_consume [OF Suc.prems(1)] Suc.prems(2) False by (simp_all add: r)
      from Suc.IH [OF c(2,3)] False show ?thesis
        by (simp add: ring_peek_some [OF Suc.prems(1)] c(1) s1)
    qed
  qed simp
  show ?thesis
    unfolding on_input_event_def using loop [of "st\<lparr>in_pipe_bytes := 0\<rparr>" INPUT_RING_SIZE] assms ring_count_less
    by simp
qed

subsection \<open>Wake-ups\<close>

text \<open>
  The pipe beside the ring, interleaved: the producer writes its byte after the commit (it is
  \<open>ws_pending\<close> in between); the compositor thread polls the pipe, reads it empty 64 bytes at a
  time, then dispatches until it peeks an empty ring.
\<close>

datatype consumer_phase = C_Poll | C_Drain | C_Loop

record wake_state =
  ws_srv :: input_server
  ws_pending :: bool
  ws_phase :: consumer_phase

text \<open>Every step but a new event.\<close>

inductive wake_quiet :: "input_env \<Rightarrow> nat \<Rightarrow> wake_state \<Rightarrow> wake_state \<Rightarrow> bool" for env cap where
  wake: "ws_pending s \<Longrightarrow>
     wake_quiet env cap s (s\<lparr>ws_srv := wake_compositor cap (ws_srv s), ws_pending := False\<rparr>)"
| ready: "\<lbrakk>ws_phase s = C_Poll; 0 < in_pipe_bytes (ws_srv s)\<rbrakk> \<Longrightarrow>
     wake_quiet env cap s (s\<lparr>ws_phase := C_Drain\<rparr>)"
| read: "\<lbrakk>ws_phase s = C_Drain; 0 < in_pipe_bytes (ws_srv s)\<rbrakk> \<Longrightarrow>
     wake_quiet env cap s (s\<lparr>ws_srv := (ws_srv s)\<lparr>in_pipe_bytes := in_pipe_bytes (ws_srv s) - 64\<rparr>\<rparr>)"
| eagain: "\<lbrakk>ws_phase s = C_Drain; in_pipe_bytes (ws_srv s) = 0\<rbrakk> \<Longrightarrow>
     wake_quiet env cap s (s\<lparr>ws_phase := C_Loop\<rparr>)"
| dispatch: "\<lbrakk>ws_phase s = C_Loop; ring_peek (in_ring (ws_srv s)) = Some i\<rbrakk> \<Longrightarrow>
     wake_quiet env cap s (s\<lparr>ws_srv := input_event_step env i (ws_srv s)\<rparr>)"
| finish: "\<lbrakk>ws_phase s = C_Loop; ring_peek (in_ring (ws_srv s)) = None\<rbrakk> \<Longrightarrow>
     wake_quiet env cap s (s\<lparr>ws_phase := C_Poll\<rparr>)"

inductive wake_reachable :: "input_env \<Rightarrow> nat \<Rightarrow> wake_state \<Rightarrow> bool" for env cap where
  start: "\<lbrakk>ring_inv (in_ring srv); ring_contents (in_ring srv) = []\<rbrakk> \<Longrightarrow>
     wake_reachable env cap \<lparr>ws_srv = srv, ws_pending = False, ws_phase = C_Poll\<rparr>"
| quiet: "\<lbrakk>wake_reachable env cap s; wake_quiet env cap s s'\<rbrakk> \<Longrightarrow> wake_reachable env cap s'"
| send: "\<lbrakk>wake_reachable env cap s; \<not> ws_pending s; ring_send ev (in_ring (ws_srv s)) = (True, r)\<rbrakk> \<Longrightarrow>
     wake_reachable env cap (s\<lparr>ws_srv := (ws_srv s)\<lparr>in_ring := r\<rparr>, ws_pending := True\<rparr>)"

inductive_cases wake_quietE: "wake_quiet env cap s s'"

definition wake_inv :: "wake_state \<Rightarrow> bool" where
  "wake_inv s \<longleftrightarrow> ring_inv (in_ring (ws_srv s)) \<and>
     (0 < ring_count (in_ring (ws_srv s)) \<longrightarrow>
        ws_pending s \<or> 0 < in_pipe_bytes (ws_srv s) \<or> ws_phase s \<noteq> C_Poll)"

text \<open>What still has to happen before everything rests.\<close>

definition wake_measure :: "wake_state \<Rightarrow> nat" where
  "wake_measure s =
     (let b = in_pipe_bytes (ws_srv s)
      in (if ws_pending s then 10 else 0) + ring_count (in_ring (ws_srv s)) +
         (case ws_phase s of
            C_Poll \<Rightarrow> if b = 0 then 0 else b + 3
          | C_Drain \<Rightarrow> b + 2
          | C_Loop \<Rightarrow> if b = 0 then 1 else b + 4))"

lemma dispatch_event_bytes [frame_simps]: "in_pipe_bytes (dispatch_event env ev st) = in_pipe_bytes st"
proof (cases "\<exists>t x y. ev = INPUT_POINTER_MOTION t x y")
  case True
  then show ?thesis
    by (auto simp: dispatch_event_def dispatch_pointer_motion_def Let_def split: option.split)
next
  case False
  then show ?thesis using text_frame_event text_frame_input(4) by blast
qed

lemma input_event_step_simps [simp]:
  "in_ring (input_event_step env i st) = ring_consume (in_ring st)"
  "in_pipe_bytes (input_event_step env i st) = in_pipe_bytes st"
  by (simp_all add: input_event_step_def Let_def frame_simps)

lemma wake_quiet_step:
  assumes "wake_quiet env cap s s'" "wake_inv s" "0 < cap"
  shows "wake_inv s' \<and> wake_measure s' < wake_measure s"
  using assms(1)
proof cases
  case wake
  then show ?thesis using assms(2,3)
    by (auto simp: wake_inv_def wake_measure_def wake_compositor_def Let_def split: consumer_phase.split)
next
  case (dispatch i)
  have "ring_inv (in_ring (ws_srv s))" using assms(2) by (simp add: wake_inv_def)
  then show ?thesis
    using assms(2) dispatch ring_peek_some [of "in_ring (ws_srv s)"] ring_count_consume [of "in_ring (ws_srv s)"]
    by (auto simp: wake_inv_def wake_measure_def Let_def intro: inv_intros split: if_splits)
next
  case finish
  then show ?thesis using assms(2) ring_peek_some [of "in_ring (ws_srv s)"]
    by (auto simp: wake_inv_def wake_measure_def Let_def split: if_splits)
qed (use assms(2) in \<open>auto simp: wake_inv_def wake_measure_def Let_def\<close>)

lemma wake_inv_reachable: "\<lbrakk>wake_reachable env cap s; 0 < cap\<rbrakk> \<Longrightarrow> wake_inv s"
proof (induction rule: wake_reachable.induct)
  case (start srv)
  then have "ring_count (in_ring srv) = 0" by (metis length_ring_contents list.size(3))
  with start show ?case by (simp add: wake_inv_def)
next
  case (quiet s s')
  then show ?case using wake_quiet_step by blast
next
  case (send s ev r)
  then show ?case using iring.enq_cases [of "in_ring (ws_srv s)" ev] by (auto simp: wake_inv_def)
qed

text \<open>
  C19: No event is stranded in the ring: whatever the interleaving of sends, wake-up bytes, pipe reads
  and dispatches, as soon as the producer sends nothing new every schedule of the remaining steps
  ends, and it can only end with the ring empty. So a byte is never drained without the events it
  announces being dispatched, even when the pipe is full and bytes are lost.
\<close>

theorem no_event_stranded:
  assumes "0 < cap"
  shows "wfp (\<lambda>s' s. wake_reachable env cap s \<and> wake_quiet env cap s s') \<and>
    (\<forall>s. wake_reachable env cap s \<and> (\<nexists>s'. wake_quiet env cap s s') \<longrightarrow>
       ring_contents (in_ring (ws_srv s)) = [])"
proof (intro conjI allI impI)
  show "wfp (\<lambda>s' s. wake_reachable env cap s \<and> wake_quiet env cap s s')"
    by (rule wfp_if_convertible_to_nat [of _ wake_measure])
       (use wake_quiet_step wake_inv_reachable assms in blast)
next
  fix s assume "wake_reachable env cap s \<and> (\<nexists>s'. wake_quiet env cap s s')"
  then have s: "wake_reachable env cap s" and stuck: "\<nexists>s'. wake_quiet env cap s s'" by blast+
  have inv: "wake_inv s" using wake_inv_reachable [OF s assms] .
  have "\<not> ws_pending s" "ws_phase s = C_Poll" "in_pipe_bytes (ws_srv s) = 0"
    using stuck wake_quiet.intros [of s] by (metis consumer_phase.exhaust not_gr_zero option.exhaust)+
  then have "ring_count (in_ring (ws_srv s)) = 0" using inv by (simp add: wake_inv_def)
  then show "ring_contents (in_ring (ws_srv s)) = []" by (metis length_ring_contents length_0_conv)
qed

definition input_env_demo :: input_env where
  "input_env_demo =
     \<lparr>ie_focus = \<lambda>_. None, ie_touch_point = \<lambda>_ _. None,
      ie_node_at = \<lambda>_ x y. Some (SceneBuffer (Some surface_a), x, y),
      ie_mul15 = \<lambda>d. d, ie_lround = \<lambda>_. 0\<rparr>"

theorem no_event_stranded_witness:
  "wfp (\<lambda>s' s. wake_reachable input_env_demo 1 s \<and> wake_quiet input_env_demo 1 s s')"
  using no_event_stranded [of 1 input_env_demo] by simp

definition input_server0 :: input_server where
  "input_server0 = text_server.extend text_server0
     \<lparr>in_ring = ring_init (replicate INPUT_RING_SIZE (INPUT_POINTER_SCROLL 0 0 0)), in_focused = None,
      in_listener = None, in_pipe_read = 10, in_pipe_write = 11, in_pipe_bytes = 0,
      in_event_source = True\<rparr>"

theorem input_events_in_order_witness:
  "\<exists>st'. on_input_event input_env_demo input_server0 = Some st' \<and> ring_contents (in_ring st') = []"
  using input_events_in_order [of input_server0 input_env_demo] ring_inv_init
  by (auto simp: input_server0_def text_server.defs)

subsection \<open>Focus\<close>

text \<open>The keyboard and pointer focus a client sees: the last enter, unless cleared.\<close>

definition kb_focus :: "wl_call list \<Rightarrow> surface option" where
  "kb_focus cs = fold (\<lambda>c f. case c of KbEnter s _ \<Rightarrow> s | _ \<Rightarrow> f) cs None"

definition ptr_focus :: "wl_call list \<Rightarrow> surface option" where
  "ptr_focus cs = fold (\<lambda>c f. case c of PtrEnter s _ _ \<Rightarrow> Some s | PtrClearFocus \<Rightarrow> None | _ \<Rightarrow> f) cs None"

text \<open>Motion and clear only while a surface is entered.\<close>

definition ptr_call_ok :: "surface option \<Rightarrow> wl_call \<Rightarrow> bool" where
  "ptr_call_ok f c \<longleftrightarrow> (case c of PtrMotion _ _ _ \<Rightarrow> f \<noteq> None | PtrClearFocus \<Rightarrow> f \<noteq> None | _ \<Rightarrow> True)"

definition ptr_protocol :: "wl_call list \<Rightarrow> bool" where
  "ptr_protocol cs \<longleftrightarrow> (\<forall>k < length cs. ptr_call_ok (ptr_focus (take k cs)) (cs ! k))"

text \<open>Calls of the text-input code.\<close>

definition text_call :: "wl_call \<Rightarrow> bool" where
  "text_call c \<longleftrightarrow> (case c of TiEnter _ _ \<Rightarrow> True | TiLeave _ _ \<Rightarrow> True | ImeCmd _ \<Rightarrow> True | _ \<Rightarrow> False)"

lemma ptr_protocol_snoc [simp]:
  "ptr_protocol (cs @ [c]) \<longleftrightarrow> ptr_protocol cs \<and> ptr_call_ok (ptr_focus cs) c"
  by (auto simp: ptr_protocol_def nth_append less_Suc_eq)

lemma ptr_protocol_Nil [simp]: "ptr_protocol []"
  by (simp add: ptr_protocol_def)

lemma focus_snoc [simp]:
  "kb_focus (cs @ [c]) = (case c of KbEnter s _ \<Rightarrow> s | _ \<Rightarrow> kb_focus cs)"
  "ptr_focus (cs @ [c]) = (case c of PtrEnter s _ _ \<Rightarrow> Some s | PtrClearFocus \<Rightarrow> None | _ \<Rightarrow> ptr_focus cs)"
  by (cases c; simp add: kb_focus_def ptr_focus_def)+

lemma focus_text_calls:
  assumes "\<forall>c \<in> set ds. text_call c"
  shows "kb_focus (cs @ ds) = kb_focus cs \<and> ptr_focus (cs @ ds) = ptr_focus cs \<and>
    (ptr_protocol (cs @ ds) \<longleftrightarrow> ptr_protocol cs)"
  using assms
proof (induction ds rule: rev_induct)
  case (snoc d ds)
  then have "text_call d" by simp
  then have "kb_focus ((cs @ ds) @ [d]) = kb_focus (cs @ ds) \<and>
      ptr_focus ((cs @ ds) @ [d]) = ptr_focus (cs @ ds) \<and>
      (ptr_protocol ((cs @ ds) @ [d]) \<longleftrightarrow> ptr_protocol (cs @ ds))"
    unfolding focus_snoc ptr_protocol_snoc by (cases d) (auto simp: text_call_def ptr_call_ok_def)
  with snoc show ?case by simp
qed simp

lemma text_calls_leave: "\<forall>c \<in> set (leave_calls send st t). text_call c"
  by (auto simp: leave_calls_def text_call_def split: option.split)

lemma text_calls_enter: "\<forall>c \<in> set (enter_calls s ts). text_call c"
  by (auto simp: enter_calls_def text_call_def)

lemma cleared_text_calls:
  "\<exists>ds. cs_calls (cleared send st) = cs_calls st @ ds \<and> (\<forall>c \<in> set ds. text_call c)"
  using text_calls_leave by (auto simp: cleared_def)

lemma focus_moved_text_calls:
  "\<exists>ds. cs_calls (focus_moved s st) = cs_calls st @ ds \<and> (\<forall>c \<in> set ds. text_call c)"
proof -
  obtain ds where "cs_calls (cleared True st) = cs_calls st @ ds" "\<forall>c \<in> set ds. text_call c"
    using cleared_text_calls by blast
  then show ?thesis
    using text_calls_enter [of s "ts_inputs (cleared True st)"]
    by (intro exI [of _ "ds @ enter_calls s (ts_inputs (cleared True st))"])
       (auto simp: focus_moved_def Let_def)
qed

text \<open>wlroots hands out surfaces whose resource is live.\<close>

definition env_live :: "input_env \<Rightarrow> bool" where
  "env_live env \<longleftrightarrow> (\<forall>cs x y s sx sy.
     ie_node_at env cs x y = Some (SceneBuffer (Some s), sx, sy) \<longrightarrow> su_resource s \<noteq> None)"

definition toplevels_live :: "'a compositor_scheme \<Rightarrow> bool" where
  "toplevels_live st \<longleftrightarrow>
     (\<forall>ct \<in> set (cs_toplevels st). \<forall>s. ct_surface ct = Some s \<longrightarrow> su_resource s \<noteq> None)"

text \<open>Histories: an event dispatched in any environment, a surface destroyed.\<close>

inductive input_reachable :: "input_server \<Rightarrow> bool" where
  start: "\<lbrakk>text_fresh st; in_focused st = None; in_listener st = None; toplevels_live st\<rbrakk> \<Longrightarrow>
     input_reachable st"
| event: "\<lbrakk>input_reachable st; env_live env\<rbrakk> \<Longrightarrow> input_reachable (dispatch_event env ev st)"
| destroyed: "input_reachable st \<Longrightarrow> input_reachable (input_surface_destroyed s st)"

definition focus_inv :: "'a input_server_scheme \<Rightarrow> bool" where
  "focus_inv st \<longleftrightarrow> text_inv st \<and> toplevels_live st \<and> in_listener st = in_focused st \<and>
     (in_focused st \<noteq> None \<longrightarrow> ptr_focus (cs_calls st) = in_focused st) \<and>
     (ts_focused st \<noteq> None \<longrightarrow> kb_focus (cs_calls st) = ts_focused st) \<and> ptr_protocol (cs_calls st)"

lemma text_inv_emit [simp]: "text_inv (wl_emit c st) = text_inv st"
  by (simp add: text_inv_def)

lemma toplevels_live_cong: "cs_toplevels st' = cs_toplevels st \<Longrightarrow> toplevels_live st' = toplevels_live st"
  by (simp add: toplevels_live_def)

text \<open>A call that moves neither focus.\<close>

lemma focus_inv_emit:
  assumes "focus_inv st" "\<forall>s b. c \<noteq> KbEnter s b" "\<forall>s x y. c \<noteq> PtrEnter s x y" "c \<noteq> PtrClearFocus"
    "\<forall>t x y. c \<noteq> PtrMotion t x y"
  shows "focus_inv (wl_emit c st)"
  using assms toplevels_live_cong [of "wl_emit c st" st]
  by (cases c) (auto simp: focus_inv_def ptr_call_ok_def)

lemma focus_inv_text_calls:
  assumes "focus_inv st" "text_frame st st'" "text_inv st'" "cs_calls st' = cs_calls st @ ds"
    "\<forall>c \<in> set ds. text_call c" "ts_focused st' \<noteq> None \<longrightarrow> kb_focus (cs_calls st) = ts_focused st'"
  shows "focus_inv st'"
  using assms focus_text_calls [OF assms(5), of "cs_calls st"] toplevels_live_cong [of st' st]
    text_frame_input [OF assms(2)]
  unfolding focus_inv_def by (simp add: text_frame_def)

lemma focus_inv_kb_enter:
  assumes "focus_inv st" "su_resource s \<noteq> None"
  shows "focus_inv (text_input_handle_keyboard_enter (Some s) (wl_emit (KbEnter (Some s) kb) st))"
proof -
  let ?e = "wl_emit (KbEnter (Some s) kb) st"
  have ti: "text_inv ?e" using assms(1) by (simp add: focus_inv_def)
  note enter = keyboard_enter_under_inv [OF ti, of "Some s"]
  show ?thesis
  proof (cases "ts_focused st = Some s")
    case True
    then show ?thesis
      using assms enter toplevels_live_cong [of ?e st]
      by (simp add: focus_inv_def ptr_call_ok_def)
  next
    case False
    then have eq: "text_input_handle_keyboard_enter (Some s) ?e = focus_moved s ?e"
      using assms(2) enter by auto
    have frame: "text_frame ?e (focus_moved s ?e)"
      using text_frame_enter [of ?e "Some s"] eq by simp
    obtain ds where ds: "cs_calls (focus_moved s ?e) = cs_calls ?e @ ds" "\<forall>c \<in> set ds. text_call c"
      using focus_moved_text_calls by blast
    have foc: "ts_focused (focus_moved s ?e) = Some s" by (simp add: focus_moved_def Let_def)
    show ?thesis
      unfolding eq using text_inv_focus_moved [OF ti, of s] assms(1) foc frame ds
        focus_text_calls [OF ds(2), of "cs_calls ?e"] toplevels_live_cong [of "focus_moved s ?e" st]
        text_frame_input [OF frame]
      by (simp add: focus_inv_def text_frame_def ptr_call_ok_def)
  qed
qed

lemma focus_inv_enter_keyboard:
  "\<lbrakk>focus_inv st; su_resource s \<noteq> None\<rbrakk> \<Longrightarrow> focus_inv (enter_keyboard s st)"
  unfolding enter_keyboard_def by (rule focus_inv_kb_enter)

lemma focus_inv_key: "focus_inv st \<Longrightarrow> focus_inv (dispatch_key env t k p st)"
proof -
  assume st: "focus_inv st"
  have live: "su_resource s \<noteq> None" if "key_focus_target st = Some s" for s
  proof -
    have scan: "redirect_scan cts h tg = (b, Some ct) \<Longrightarrow> tg = Some ct \<or> ct \<in> set cts" for cts h tg b ct
      by (induction cts h tg rule: redirect_scan.induct) (auto split: if_splits)
    have "find_touch_redirect_surface st = Some r \<Longrightarrow> \<exists>ct \<in> set (cs_toplevels st). ct_surface ct = Some r" for r
      using scan [of "cs_toplevels st" False None]
      by (fastforce simp: find_touch_redirect_surface_def split: prod.splits bool.splits option.splits)
    then have "\<exists>ct \<in> set (cs_toplevels st). ct_surface ct = Some s"
      using that by (auto simp: key_focus_target_def split: option.splits list.splits)
    then show ?thesis using st by (auto simp: focus_inv_def toplevels_live_def)
  qed
  show ?thesis
    using st live focus_inv_enter_keyboard [OF st]
    by (auto simp: dispatch_key_def Let_def intro!: focus_inv_emit split: option.split)
qed

lemma surface_at_live:
  assumes "env_live env" "surface_at env x y st = Some (s, sx, sy)"
  shows "su_resource s \<noteq> None"
proof -
  have "ie_node_at env (cs_calls st) x y = Some (SceneBuffer (Some s), sx, sy)"
    using assms(2) by (auto simp: surface_at_def split: option.splits prod.splits scene_node.splits)
  then show ?thesis using assms(1) unfolding env_live_def by blast
qed

lemma focus_inv_touch_down:
  assumes "focus_inv st" "env_live env"
  shows "focus_inv (dispatch_touch_down env t i x y st)"
proof (cases "surface_at env x y st")
  case (Some h)
  then obtain s sx sy where h: "surface_at env x y st = Some (s, sx, sy)" by (metis prod_cases3)
  let ?down = "\<lambda>u. wl_emit TouchFrame (wl_emit (TouchDown u t i sx sy) st)"
  have "focus_inv (?down u)" for u by (intro focus_inv_emit assms(1)) simp_all
  then show ?thesis
    using focus_inv_enter_keyboard surface_at_live [OF assms(2) h]
    by (auto simp: dispatch_touch_down_def h Let_def split: option.split)
qed (simp add: dispatch_touch_down_def assms(1))

lemma focus_inv_pointer_motion:
  assumes "focus_inv st"
  shows "focus_inv (dispatch_pointer_motion env t x y st)"
proof -
  let ?s = "dispatch_pointer_motion env t x y st"
  have frame: "text_inv ?s = text_inv st" "ts_focused ?s = ts_focused st" "cs_toplevels ?s = cs_toplevels st"
    by (simp_all add: dispatch_pointer_motion_def Let_def text_inv_def split: option.split)
  have "in_listener ?s = in_focused ?s \<and> (in_focused ?s \<noteq> None \<longrightarrow> ptr_focus (cs_calls ?s) = in_focused ?s) \<and>
      kb_focus (cs_calls ?s) = kb_focus (cs_calls st) \<and> ptr_protocol (cs_calls ?s)"
    using assms
    by (auto simp: dispatch_pointer_motion_def focus_inv_def Let_def ptr_call_ok_def simp del: append_assoc
        split: option.split)
  then show ?thesis
    using assms frame toplevels_live_cong [OF frame(3)] by (simp add: focus_inv_def)
qed

lemma focus_inv_event: "\<lbrakk>focus_inv st; env_live env\<rbrakk> \<Longrightarrow> focus_inv (dispatch_event env ev st)"
  by (cases ev)
    (auto simp: dispatch_event_def dispatch_touch_motion_def dispatch_touch_up_def dispatch_touch_cancel_def
      dispatch_pointer_button_def dispatch_pointer_scroll_def Let_def
      intro!: focus_inv_emit focus_inv_key focus_inv_touch_down focus_inv_pointer_motion split: option.split)

lemma text_frame_cleared: "text_frame st (cleared send st)"
  by (simp add: text_frame_def cleared_def)

lemma focus_inv_clear:
  assumes "focus_inv st"
  shows "focus_inv (clear_text_input_focus sf send st)"
proof -
  have ti: "text_inv st" using assms by (simp add: focus_inv_def)
  obtain ds where ds: "cs_calls (cleared send st) = cs_calls st @ ds" "\<forall>c \<in> set ds. text_call c"
    using cleared_text_calls by blast
  have "focus_inv (cleared send st)"
    by (rule focus_inv_text_calls [OF assms text_frame_cleared text_inv_cleared [OF ti] ds])
       (simp add: cleared_def)
  then show ?thesis by (simp add: clear_under_inv [OF ti] assms)
qed

lemma focus_inv_surface_destroyed: "focus_inv st \<Longrightarrow> focus_inv (surface_destroyed s st)"
  by (simp add: surface_destroyed_def handle_focused_text_input_surface_destroy_def focus_inv_clear)

lemma focus_inv_destroyed:
  assumes "focus_inv st"
  shows "focus_inv (input_surface_destroyed s st)"
proof -
  have "focus_inv (handle_focused_surface_destroy st)"
    using assms toplevels_live_cong [of "handle_focused_surface_destroy st" st]
    by (auto simp: focus_inv_def handle_focused_surface_destroy_def text_inv_def)
  then show ?thesis
    using assms by (simp add: input_surface_destroyed_def focus_inv_surface_destroyed)
qed

lemma focus_inv_reachable: "input_reachable st \<Longrightarrow> focus_inv st"
proof (induction rule: input_reachable.induct)
  case (start st)
  then show ?case using text_inv_fresh [of st] by (simp add: focus_inv_def text_fresh_def)
qed (simp_all add: focus_inv_event focus_inv_destroyed)

text \<open>
  After any history of dispatched events and surface destructions: the pointer's destroy listener
  sits on exactly the surface recorded as focused, and that surface is the one entered last and not
  cleared since; every pointer motion and every clear sent goes to an entered surface; the surface
  with text-input focus is the one the seat's keyboard entered last; and the text-input objects stay
  consistent.
\<close>

theorem input_focus_invariant:
  assumes "input_reachable st"
  shows "in_listener st = in_focused st \<and>
    (in_focused st \<noteq> None \<longrightarrow> ptr_focus (cs_calls st) = in_focused st) \<and>
    ptr_protocol (cs_calls st) \<and>
    (ts_focused st \<noteq> None \<longrightarrow> kb_focus (cs_calls st) = ts_focused st) \<and> text_inv st"
  using focus_inv_reachable [OF assms] unfolding focus_inv_def by blast

lemma input_server0_reachable: "input_reachable input_server0"
  by (rule input_reachable.start)
    (simp_all add: input_server0_def text_server.defs text_server0_def text_state.defs text_state0_def
      text_fresh_def toplevels_live_def)

theorem input_focus_invariant_witness:
  "ptr_focus (cs_calls (dispatch_event input_env_demo (INPUT_POINTER_MOTION 1 2 3) input_server0)) = Some surface_a"
proof -
  have "env_live input_env_demo" by (auto simp: env_live_def input_env_demo_def surface_a_def)
  note r = input_reachable.event [OF input_server0_reachable this, of "INPUT_POINTER_MOTION 1 2 3"]
  have "in_focused (dispatch_event input_env_demo (INPUT_POINTER_MOTION 1 2 3) input_server0) = Some surface_a"
    by (simp add: dispatch_event_def dispatch_pointer_motion_def surface_at_def input_env_demo_def Let_def
        input_server0_def text_server.defs)
  then show ?thesis using input_focus_invariant [OF r] by simp
qed

subsection \<open>Touch\<close>

lemma redirect_scan_eq:
  "redirect_scan cts h tg = (h \<or> (\<exists>ct \<in> set cts. ct_rendering_only ct),
     (case tg of None \<Rightarrow> find (\<lambda>ct. \<not> ct_rendering_only ct) cts | Some ct \<Rightarrow> Some ct))"
  by (induction cts h tg rule: redirect_scan.induct) (auto split: option.split)

text \<open>
  A touch on a surface starts on that surface and moves keyboard and text focus there, unless a
  rendering-only toplevel and an ordinary one are both tracked: then it goes to the first ordinary
  one's surface, whatever was hit, at the coordinates of the hit, and no focus moves. A touch that
  hits nothing sends nothing.
\<close>

theorem touch_down_redirect:
  "dispatch_touch_down env t i x y st =
    (case surface_at env x y st of
       None \<Rightarrow> st
     | Some (hit, sx, sy) \<Rightarrow>
         (case (if \<exists>ct \<in> set (cs_toplevels st). ct_rendering_only ct
                then Option.bind (find (\<lambda>ct. \<not> ct_rendering_only ct) (cs_toplevels st)) ct_surface
                else None) of
            Some ozone \<Rightarrow> st\<lparr>cs_calls := cs_calls st @ [TouchDown ozone t i sx sy, TouchFrame]\<rparr>
          | None \<Rightarrow>
              (let st1 = st\<lparr>cs_calls := cs_calls st @ [TouchDown hit t i sx sy, TouchFrame]\<rparr>
               in if cs_keyboard st
                  then text_input_handle_keyboard_enter (Some hit)
                         (st1\<lparr>cs_calls := cs_calls st1 @ [KbEnter (Some hit) True]\<rparr>)
                  else st1)))"
proof (cases "surface_at env x y st")
  case (Some h)
  then obtain s sx sy where h: "surface_at env x y st = Some (s, sx, sy)" by (metis prod_cases3)
  have f: "find_touch_redirect_surface st =
      (if \<exists>ct \<in> set (cs_toplevels st). ct_rendering_only ct
       then Option.bind (find (\<lambda>ct. \<not> ct_rendering_only ct) (cs_toplevels st)) ct_surface else None)"
    by (auto simp: find_touch_redirect_surface_def redirect_scan_eq split: option.split bool.split)
  show ?thesis
    unfolding dispatch_touch_down_def h f
    by (auto simp: Let_def enter_keyboard_def wl_emit_def split: option.split)
qed (simp add: dispatch_touch_down_def)

subsection \<open>Start and stop\<close>

definition input_ends :: "'a input_server_scheme \<Rightarrow> int list" where
  "input_ends st = filter (\<lambda>fd. 0 \<le> fd) [in_pipe_read st, in_pipe_write st]"

text \<open>
  When initialisation succeeds, the handler starts with an empty ring, no focus and a keyboard,
  and a later destroy closes both pipe ends exactly once. When it fails after the pipe was made, both
  ends are closed but stay recorded in the server, so the destroy that follows (the failure is not
  fatal to the compositor) closes the same two descriptors a second time; and after a failed keyboard
  allocation the removed event source is still recorded as well.
\<close>

theorem input_init_failure_closes_twice:
  assumes "0 \<le> r" "0 \<le> w"
  shows "case input_handler_init (Some (r, w)) add_ok calloc_ok ctx_ok keymap_ok st of (rc, closed, st') \<Rightarrow>
    (rc = 0 \<longleftrightarrow> add_ok \<and> calloc_ok) \<and>
    closed @ fst (input_handler_destroy st') = (if rc = 0 then [r, w] else [r, w, r, w]) \<and>
    input_ends (snd (input_handler_destroy st')) = [] \<and>
    (rc = 0 \<longrightarrow> cs_keyboard st' \<and> in_event_source st' \<and> in_focused st' = None \<and>
       ring_contents (in_ring st') = []) \<and>
    (rc \<noteq> 0 \<longrightarrow> in_event_source st' = add_ok)"
  using assms
  by (simp add: input_handler_init_def input_handler_destroy_def input_ends_def Let_def)

theorem input_init_failure_closes_twice_witness:
  "fst (snd (input_handler_init (Some (10, 11)) True False True True input_server0)) @
   fst (input_handler_destroy (snd (snd (input_handler_init (Some (10, 11)) True False True True input_server0))))
   = [10, 11, 10, 11]"
  using input_init_failure_closes_twice [of 10 11 True False True True input_server0]
  by (simp split: prod.splits)

end
