(* ===== verification/ShellFocus.thy ===== *)
theory ShellFocus
  imports InputProps
begin

text \<open>
  The windows of the compositor: the tracked XDG toplevels and popups, the focus they take when they
  map and give up when they go (\<^verbatim>\<open>compositor/native/src/compositor_server.c\<close>), the X11 windows
  (\<^verbatim>\<open>compositor/native/src/xwayland_surface.c\<close>), the resize of the output and the count of clients.
\<close>

subsection \<open>State\<close>

text \<open>
  \<^verbatim>\<open>struct xwayland_view\<close>: whether its scene tree exists and whether the listeners that depend on
  the surface are linked.
\<close>

record xwayland_view =
  xv_id :: nat
  xv_scene_tree :: bool
  xv_associated :: bool

text \<open>
  On top of the input state: the size of the output (\<^const>\<open>None\<close> before it exists), the size the UI
  thread asked for, the popups with a listener record, the X11 views, the clients that have a
  destroy listener and the counter.
\<close>

record shell = input_server +
  sh_output :: "(int \<times> int) option"
  sh_pending :: "int \<times> int"
  sh_popups :: "nat list"
  sh_views :: "xwayland_view list"
  sh_clients :: "nat list"
  sh_client_count :: s32

subsection \<open>Clients\<close>

definition handle_client_created :: "bool \<Rightarrow> nat \<Rightarrow> 'a shell_scheme \<Rightarrow> 'a shell_scheme" where
  "handle_client_created calloc_ok client st =
     (if \<not> calloc_ok then st
      else st\<lparr>sh_client_count := sh_client_count st + 1, sh_clients := client # sh_clients st\<rparr>)"

text \<open>The signal runs the client's listener when it has one.\<close>

definition handle_client_destroyed :: "nat \<Rightarrow> 'a shell_scheme \<Rightarrow> 'a shell_scheme" where
  "handle_client_destroyed client st =
     (if client \<notin> set (sh_clients st) then st
      else st\<lparr>sh_client_count := sh_client_count st - 1, sh_clients := remove1 client (sh_clients st)\<rparr>)"

definition compositor_server_get_client_count :: "'a shell_scheme option \<Rightarrow> s32" where
  "compositor_server_get_client_count server = (case server of None \<Rightarrow> 0 | Some st \<Rightarrow> sh_client_count st)"

subsection \<open>Toplevels\<close>

definition find_toplevel :: "nat \<Rightarrow> 'a compositor_scheme \<Rightarrow> toplevel option" where
  "find_toplevel i st = find (\<lambda>ct. ct_id ct = i) (cs_toplevels st)"

text \<open>\<^verbatim>\<open>wlr_xdg_toplevel_set_activated(other, false)\<close> for the others, as the loop goes.\<close>

definition deactivate_other :: "toplevel \<Rightarrow> toplevel \<Rightarrow> 'a compositor_scheme \<Rightarrow> 'a compositor_scheme" where
  "deactivate_other ct other st =
     (if ct_id other = ct_id ct then st
      else if ct_rendering_only ct \<and> \<not> ct_rendering_only other then st
      else wl_emit (SetActivated (ct_id other) False) st)"

definition focus_toplevel :: "nat \<Rightarrow> 'a text_state_scheme \<Rightarrow> 'a text_state_scheme" where
  "focus_toplevel i st =
     (case find_toplevel i st of
        None \<Rightarrow> st
      | Some ct \<Rightarrow>
          let st1 = fold (deactivate_other ct) (cs_toplevels st) st;
              st2 = wl_emit (SetActivated i True) (wl_emit (RaiseToTop i) st1);
              st3 = (if ct_rendering_only ct then st2
                     else text_input_handle_keyboard_enter (ct_surface ct)
                            (wl_emit (KbEnter (ct_surface ct) (cs_keyboard st2)) st2))
          in st3\<lparr>cs_toplevels := ct # filter (\<lambda>c. ct_id c \<noteq> i) (cs_toplevels st3)\<rparr>)"

definition get_focused_toplevel :: "'a compositor_scheme \<Rightarrow> toplevel option" where
  "get_focused_toplevel st = (case cs_toplevels st of [] \<Rightarrow> None | ct # _ \<Rightarrow> Some ct)"

definition update_toplevel :: "nat \<Rightarrow> (toplevel \<Rightarrow> toplevel) \<Rightarrow> 'a compositor_scheme \<Rightarrow> 'a compositor_scheme" where
  "update_toplevel i f st =
     st\<lparr>cs_toplevels := map (\<lambda>ct. if ct_id ct = i then f ct else ct) (cs_toplevels st)\<rparr>"

definition on_toplevel_map :: "nat \<Rightarrow> 'a text_state_scheme \<Rightarrow> 'a text_state_scheme" where
  "on_toplevel_map i st =
     focus_toplevel i
       (update_toplevel i (\<lambda>ct. if ct_app_id ct = Some ''com.coder.vscode''
                                then ct\<lparr>ct_rendering_only := True\<rparr> else ct) st)"

text \<open>The seat's keyboard focus is the parameter \<open>kbf\<close>, as in the input handler.\<close>

definition on_toplevel_unmap :: "focus_fun \<Rightarrow> nat \<Rightarrow> 'a text_state_scheme \<Rightarrow> 'a text_state_scheme" where
  "on_toplevel_unmap kbf i st =
     (case find_toplevel i st of
        None \<Rightarrow> st
      | Some ct \<Rightarrow>
          let st1 = (if ct_surface ct \<noteq> None \<and> cs_seat st \<and> kbf (cs_calls st) = ct_surface ct
                     then text_input_handle_keyboard_leave (ct_surface ct) st else st)
          in if map_option ct_id (get_focused_toplevel st1) = Some i
             then (case cs_toplevels st1 of
                     _ # next # _ \<Rightarrow> focus_toplevel (ct_id next) st1
                   | _ \<Rightarrow> st1)
             else st1)"

definition on_toplevel_destroy :: "nat \<Rightarrow> 'a text_state_scheme \<Rightarrow> 'a text_state_scheme" where
  "on_toplevel_destroy i st =
     (case find_toplevel i st of
        None \<Rightarrow> st
      | Some ct \<Rightarrow>
          let st1 = (if ct_surface ct \<noteq> None
                     then text_input_handle_keyboard_leave (ct_surface ct) st else st)
          in st1\<lparr>cs_toplevels := filter (\<lambda>c. ct_id c \<noteq> i) (cs_toplevels st1)\<rparr>)"

definition on_request_fullscreen :: "nat \<Rightarrow> 'a shell_scheme \<Rightarrow> 'a shell_scheme" where
  "on_request_fullscreen i st =
     (case find_toplevel i st of
        None \<Rightarrow> st
      | Some ct \<Rightarrow>
          if \<not> ct_initialized ct then st
          else
            let st1 = (case sh_output st of None \<Rightarrow> st | Some (w, h) \<Rightarrow> wl_emit (SetSize i w h) st)
            in wl_emit (ScheduleConfigure i)
                 (wl_emit (SetFullscreen i True) (wl_emit (SetPosition i 0 0) st1)))"

definition on_toplevel_commit :: "nat \<Rightarrow> 'a shell_scheme \<Rightarrow> 'a shell_scheme" where
  "on_toplevel_commit i st =
     (case find_toplevel i st of
        None \<Rightarrow> st
      | Some ct \<Rightarrow>
          if ct_initial_commit ct
          then
            let (w, h) = (case sh_output st of None \<Rightarrow> (0, 0) | Some s \<Rightarrow> s)
            in if w > 0 \<and> h > 0 then wl_emit (SetMaximized i True) (wl_emit (SetSize i w h) st) else st
          else st)"

text \<open>
  A new toplevel: \<^verbatim>\<open>calloc\<close> leaves the flag false; it goes to the front of the list, unfocused.
\<close>

definition on_new_xdg_toplevel :: "bool \<Rightarrow> toplevel \<Rightarrow> 'a compositor_scheme \<Rightarrow> 'a compositor_scheme" where
  "on_new_xdg_toplevel calloc_ok t st =
     (if \<not> calloc_ok then st
      else st\<lparr>cs_toplevels := t\<lparr>ct_rendering_only := False\<rparr> # cs_toplevels st\<rparr>)"

subsection \<open>Popups\<close>

text \<open>
  A popup: whether its parent is an XDG surface with a scene tree, and whether \<^verbatim>\<open>calloc\<close> succeeds.
\<close>

definition on_new_xdg_popup :: "bool \<Rightarrow> bool \<Rightarrow> bool \<Rightarrow> nat \<Rightarrow> 'a shell_scheme \<Rightarrow> 'a shell_scheme" where
  "on_new_xdg_popup has_parent has_tree calloc_ok i st =
     (if \<not> has_parent then st
      else if \<not> has_tree then st
      else
        let st1 = wl_emit (ViewTreeCreate i) st
        in if \<not> calloc_ok then st1 else st1\<lparr>sh_popups := i # sh_popups st1\<rparr>)"

definition on_popup_commit :: "bool \<Rightarrow> nat \<Rightarrow> 'a shell_scheme \<Rightarrow> 'a shell_scheme" where
  "on_popup_commit initial_commit i st =
     (if i \<in> set (sh_popups st) \<and> initial_commit then wl_emit (ScheduleConfigure i) st else st)"

definition on_popup_destroy :: "nat \<Rightarrow> 'a shell_scheme \<Rightarrow> 'a shell_scheme" where
  "on_popup_destroy i st = st\<lparr>sh_popups := remove1 i (sh_popups st)\<rparr>"

subsection \<open>Resizing the output\<close>

definition resize_toplevel :: "int \<Rightarrow> int \<Rightarrow> int \<Rightarrow> int \<Rightarrow> toplevel \<Rightarrow> 'a compositor_scheme \<Rightarrow> 'a compositor_scheme" where
  "resize_toplevel old_width old_height width height ct st =
     (if ct_fullscreen ct \<or> (ct_width ct = old_width \<and> ct_height ct = old_height)
      then wl_emit (SetPosition (ct_id ct) 0 0) (wl_emit (SetSize (ct_id ct) width height) st)
      else st)"

text \<open>
  \<open>read_ok\<close> is false when draining the pipe fails other than by \<^verbatim>\<open>EAGAIN\<close>; \<open>commit_ok\<close> says
  whether wlroots takes the new mode.
\<close>

definition on_resize_event :: "bool \<Rightarrow> bool \<Rightarrow> 'a shell_scheme \<Rightarrow> 'a shell_scheme" where
  "on_resize_event read_ok commit_ok st =
     (if \<not> read_ok then st
      else case (sh_output st, sh_pending st) of
        (None, _) \<Rightarrow> st
      | (Some (old_width, old_height), (width, height)) \<Rightarrow>
          if width \<le> 0 \<or> height \<le> 0 then st
          else
            let st1 = wl_emit (CommitMode width height) st;
                st2 = (if commit_ok then st1\<lparr>sh_output := Some (width, height)\<rparr> else st1)
            in fold (resize_toplevel old_width old_height width height) (cs_toplevels st2) st2)"

definition compositor_server_resize_output :: "int \<Rightarrow> int \<Rightarrow> int \<Rightarrow> 'a shell_scheme \<Rightarrow> bool \<times> 'a shell_scheme" where
  "compositor_server_resize_output resize_fd width height st =
     (if resize_fd < 0 then (False, st) else (True, st\<lparr>sh_pending := (width, height)\<rparr>))"

subsection \<open>X11 windows\<close>

text \<open>What the code reads of a \<^verbatim>\<open>wlr_xwayland_surface\<close>.\<close>

record xsurface =
  xs_surface :: "surface option"
  xs_override_redirect :: bool
  xs_x :: int
  xs_y :: int

definition find_view :: "nat \<Rightarrow> 'a shell_scheme \<Rightarrow> xwayland_view option" where
  "find_view i st = find (\<lambda>v. xv_id v = i) (sh_views st)"

definition update_view :: "nat \<Rightarrow> (xwayland_view \<Rightarrow> xwayland_view) \<Rightarrow> 'a shell_scheme \<Rightarrow> 'a shell_scheme" where
  "update_view i f st = st\<lparr>sh_views := map (\<lambda>v. if xv_id v = i then f v else v) (sh_views st)\<rparr>"

definition focus_xwayland_view :: "nat \<Rightarrow> bool \<Rightarrow> xsurface \<Rightarrow> 'a text_state_scheme \<Rightarrow> 'a text_state_scheme" where
  "focus_xwayland_view i has_tree xs st =
     (if xs_override_redirect xs then st
      else
        let st1 = wl_emit (XwActivate i) st;
            st2 = (if has_tree then wl_emit (ViewRaise i) st1 else st1)
        in text_input_handle_keyboard_enter (xs_surface xs)
             (wl_emit (KbEnter (xs_surface xs) (cs_keyboard st2)) st2))"

definition on_xwayland_surface_map :: "bool \<Rightarrow> nat \<Rightarrow> xsurface \<Rightarrow> 'a shell_scheme \<Rightarrow> 'a shell_scheme" where
  "on_xwayland_surface_map tree_ok i xs st =
     (let st1 = update_view i (\<lambda>v. v\<lparr>xv_scene_tree := tree_ok\<rparr>) st
      in if \<not> tree_ok then st1
         else focus_xwayland_view i True xs
                (wl_emit (ViewSetPosition i (xs_x xs) (xs_y xs)) (wl_emit (ViewTreeCreate i) st1)))"

definition on_xwayland_surface_unmap :: "focus_fun \<Rightarrow> nat \<Rightarrow> xsurface \<Rightarrow> 'a shell_scheme \<Rightarrow> 'a shell_scheme" where
  "on_xwayland_surface_unmap kbf i xs st =
     (let st1 = (if xs_surface xs \<noteq> None \<and> cs_seat st \<and> kbf (cs_calls st) = xs_surface xs
                 then text_input_handle_keyboard_leave (xs_surface xs) st else st)
      in case find_view i st1 of
           None \<Rightarrow> st1
         | Some v \<Rightarrow>
             if xv_scene_tree v
             then update_view i (\<lambda>v. v\<lparr>xv_scene_tree := False\<rparr>) (wl_emit (ViewTreeDestroy i) st1)
             else st1)"

definition on_xwayland_surface_associate :: "nat \<Rightarrow> 'a shell_scheme \<Rightarrow> 'a shell_scheme" where
  "on_xwayland_surface_associate i st = update_view i (\<lambda>v. v\<lparr>xv_associated := True\<rparr>) st"

definition on_xwayland_surface_dissociate :: "nat \<Rightarrow> xsurface \<Rightarrow> 'a shell_scheme \<Rightarrow> 'a shell_scheme" where
  "on_xwayland_surface_dissociate i xs st =
     (let st1 = (if xs_surface xs \<noteq> None then text_input_handle_keyboard_leave (xs_surface xs) st else st)
      in update_view i (\<lambda>v. v\<lparr>xv_associated := False\<rparr>) st1)"

definition on_xwayland_surface_destroy :: "nat \<Rightarrow> 'a shell_scheme \<Rightarrow> 'a shell_scheme" where
  "on_xwayland_surface_destroy i st = st\<lparr>sh_views := filter (\<lambda>v. xv_id v \<noteq> i) (sh_views st)\<rparr>"

definition on_xwayland_request_configure ::
    "nat \<Rightarrow> int \<Rightarrow> int \<Rightarrow> int \<Rightarrow> int \<Rightarrow> 'a shell_scheme \<Rightarrow> 'a shell_scheme" where
  "on_xwayland_request_configure i x y width height st =
     (let st1 = wl_emit (XwConfigure i x y width height) st
      in case find_view i st1 of
           Some v \<Rightarrow> if xv_scene_tree v then wl_emit (ViewSetPosition i x y) st1 else st1
         | None \<Rightarrow> st1)"

definition on_xwayland_request_fullscreen :: "nat \<Rightarrow> 'a shell_scheme \<Rightarrow> 'a shell_scheme" where
  "on_xwayland_request_fullscreen i st =
     (case (sh_output st, find_view i st) of
        (Some (w, h), Some v) \<Rightarrow>
          if xv_scene_tree v
          then wl_emit (ViewSetPosition i 0 0) (wl_emit (XwConfigure i 0 0 w h) st) else st
      | _ \<Rightarrow> st)"

definition on_new_xwayland_surface :: "bool \<Rightarrow> nat \<Rightarrow> 'a shell_scheme \<Rightarrow> 'a shell_scheme" where
  "on_new_xwayland_surface calloc_ok i st =
     (if \<not> calloc_ok then st
      else st\<lparr>sh_views := \<lparr>xv_id = i, xv_scene_tree = False, xv_associated = False\<rparr> # sh_views st\<rparr>)"

end
