(* ===== verification/ShellProps.thy ===== *)
theory ShellProps
  imports ShellFocus
begin

text \<open>
  Properties of the windows: what focusing a toplevel does, which toplevels are active, and that
  every handler of the compositor keeps the focus bookkeeping of the input and text-input code
  consistent with what was sent to the seat.
\<close>

subsection \<open>Focusing a toplevel\<close>

definition deactivated :: "toplevel \<Rightarrow> toplevel list \<Rightarrow> toplevel list" where
  "deactivated ct cts =
     filter (\<lambda>o'. ct_id o' \<noteq> ct_id ct \<and> \<not> (ct_rendering_only ct \<and> \<not> ct_rendering_only o')) cts"

lemma fold_deactivate:
  "fold (deactivate_other ct) cts st =
     st\<lparr>cs_calls := cs_calls st @ map (\<lambda>o'. SetActivated (ct_id o') False) (deactivated ct cts)\<rparr>"
  by (induction cts arbitrary: st) (auto simp: deactivate_other_def deactivated_def wl_emit_def)

lemma find_toplevel_iff:
  assumes "distinct (map ct_id (cs_toplevels st))"
  shows "find_toplevel i st = Some ct \<longleftrightarrow> ct \<in> set (cs_toplevels st) \<and> ct_id ct = i"
  unfolding find_toplevel_def by (rule find_id_iff [OF assms])

text \<open>The calls of \<^const>\<open>focus_toplevel\<close> before the keyboard is entered.\<close>

definition focus_calls :: "toplevel \<Rightarrow> toplevel list \<Rightarrow> wl_call list" where
  "focus_calls ct cts = map (\<lambda>o'. SetActivated (ct_id o') False) (deactivated ct cts) @
     [RaiseToTop (ct_id ct), SetActivated (ct_id ct) True]"

definition to_front :: "toplevel \<Rightarrow> toplevel list \<Rightarrow> toplevel list" where
  "to_front ct cts = ct # filter (\<lambda>c. ct_id c \<noteq> ct_id ct) cts"

lemma text_enter_toplevels [simp]:
  "cs_toplevels (text_input_handle_keyboard_enter sf st) = cs_toplevels st"
  "cs_keyboard (text_input_handle_keyboard_enter sf st) = cs_keyboard st"
  using text_frame_enter [of st sf] by (simp_all add: text_frame_def)

lemma text_clear_toplevels [simp]:
  "cs_toplevels (clear_text_input_focus sf send st) = cs_toplevels st"
  using text_frame_clear [of st sf send] by (simp add: text_frame_def)

lemma focus_toplevel_eq:
  assumes "find_toplevel i st = Some ct" "ct_id ct = i"
  shows "focus_toplevel i st =
    (let st1 = st\<lparr>cs_calls := cs_calls st @ focus_calls ct (cs_toplevels st)\<rparr>;
         st2 = (if ct_rendering_only ct then st1
                else text_input_handle_keyboard_enter (ct_surface ct)
                       (wl_emit (KbEnter (ct_surface ct) (cs_keyboard st)) st1))
     in st2\<lparr>cs_toplevels := to_front ct (cs_toplevels st)\<rparr>)"
  using assms
  by (simp add: focus_toplevel_def fold_deactivate Let_def focus_calls_def to_front_def wl_emit_def)

subsection \<open>Active toplevels\<close>

text \<open>The last activation state sent to a toplevel.\<close>

definition activated :: "wl_call list \<Rightarrow> nat \<Rightarrow> bool" where
  "activated cs i = fold (\<lambda>c b. case c of SetActivated j v \<Rightarrow> if j = i then v else b | _ \<Rightarrow> b) cs False"

lemma activated_snoc [simp]:
  "activated (cs @ [c]) i = (case c of SetActivated j v \<Rightarrow> if j = i then v else activated cs i | _ \<Rightarrow> activated cs i)"
  by (cases c; simp add: activated_def)

lemma activated_other_calls:
  "(\<forall>c \<in> set ds. \<forall>j v. c \<noteq> SetActivated j v) \<Longrightarrow> activated (cs @ ds) i = activated cs i"
proof (induction ds rule: rev_induct)
  case (snoc d ds)
  have "activated ((cs @ ds) @ [d]) i = activated (cs @ ds) i"
    unfolding activated_snoc using snoc.prems by (cases d) auto
  with snoc show ?case by simp
qed simp

lemma activated_deactivate:
  "activated (cs @ map (\<lambda>o'. SetActivated (ct_id o') False) xs) i =
     (activated cs i \<and> i \<notin> ct_id ` set xs)"
proof (induction xs rule: rev_induct)
  case (snoc x xs)
  have "activated ((cs @ map (\<lambda>o'. SetActivated (ct_id o') False) xs) @ [SetActivated (ct_id x) False]) i =
      (activated cs i \<and> i \<notin> ct_id ` set (xs @ [x]))"
    unfolding activated_snoc using snoc by auto
  then show ?case by simp
qed simp

lemma activated_focus_calls:
  "activated (cs @ focus_calls ct cts) i =
     (i = ct_id ct \<or> activated cs i \<and> i \<notin> ct_id ` set (deactivated ct cts))"
proof -
  have "cs @ focus_calls ct cts =
      ((cs @ map (\<lambda>o'. SetActivated (ct_id o') False) (deactivated ct cts)) @ [RaiseToTop (ct_id ct)])
        @ [SetActivated (ct_id ct) True]"
    by (simp add: focus_calls_def)
  then show ?thesis
    by (simp only: activated_snoc wl_call.case activated_deactivate) auto
qed

lemma text_call_not_activate: "\<forall>c \<in> set ds. text_call c \<Longrightarrow> activated (cs @ ds) i = activated cs i"
  by (rule activated_other_calls) (auto simp: text_call_def)

text \<open>Among the tracked toplevels, at most one ordinary and one rendering-only is active.\<close>

definition active_unique :: "wl_call list \<Rightarrow> toplevel list \<Rightarrow> bool" where
  "active_unique cs cts \<longleftrightarrow> (\<forall>a \<in> set cts. \<forall>b \<in> set cts.
     activated cs (ct_id a) \<and> activated cs (ct_id b) \<and> ct_rendering_only a = ct_rendering_only b \<longrightarrow> a = b)"

definition shell_inv :: "'a input_server_scheme \<Rightarrow> bool" where
  "shell_inv st \<longleftrightarrow> focus_inv st \<and> distinct (map ct_id (cs_toplevels st)) \<and>
     (\<forall>ct \<in> set (cs_toplevels st). ct_surface ct \<noteq> None) \<and>
     active_unique (cs_calls st) (cs_toplevels st)"

lemma active_unique_focus:
  assumes "active_unique cs (filter (\<lambda>c. ct_id c \<noteq> ct_id ct) cts)" "distinct (map ct_id cts)" "ct \<in> set cts"
  shows "active_unique (cs @ focus_calls ct cts) (to_front ct cts)"
proof -
  have same: "a = ct" if "a \<in> set cts" "ct_id a = ct_id ct" for a
    using assms(2,3) that by (metis distinct_map inj_onD)
  have off: "ct_rendering_only ct \<and> \<not> ct_rendering_only a"
    if "a \<in> set cts" "ct_id a \<noteq> ct_id ct" "activated (cs @ focus_calls ct cts) (ct_id a)" for a
    using that by (auto simp: activated_focus_calls deactivated_def)
  show ?thesis
    unfolding active_unique_def
  proof (intro ballI impI)
    fix a b assume a: "a \<in> set (to_front ct cts)" and b: "b \<in> set (to_front ct cts)"
      and ab: "activated (cs @ focus_calls ct cts) (ct_id a) \<and> activated (cs @ focus_calls ct cts) (ct_id b) \<and>
        ct_rendering_only a = ct_rendering_only b"
    have mem: "x \<in> set cts" if "x \<in> set (to_front ct cts)" for x
      using that assms(3) by (auto simp: to_front_def)
    show "a = b"
    proof (cases "ct_id a = ct_id ct \<or> ct_id b = ct_id ct")
      case True
      then show ?thesis using same mem [OF a] mem [OF b] off [of a] off [of b] ab by metis
    next
      case False
      then have "activated cs (ct_id a)" "activated cs (ct_id b)"
        using ab by (auto simp: activated_focus_calls)
      with False ab mem [OF a] mem [OF b] assms(1) show ?thesis by (auto simp: active_unique_def)
    qed
  qed
qed

text \<open>A handler that sends only other calls and keeps the list.\<close>

lemma active_unique_calls:
  "(\<forall>c \<in> set ds. \<forall>j v. c \<noteq> SetActivated j v) \<Longrightarrow> active_unique (cs @ ds) cts = active_unique cs cts"
  by (simp add: active_unique_def activated_other_calls)

lemma active_unique_subset: "\<lbrakk>active_unique cs cts; set cts' \<subseteq> set cts\<rbrakk> \<Longrightarrow> active_unique cs cts'"
  unfolding active_unique_def by blast

subsection \<open>The handlers keep the invariant\<close>

definition neutral :: "wl_call \<Rightarrow> bool" where
  "neutral c \<longleftrightarrow> (case c of KbEnter _ _ \<Rightarrow> False | PtrEnter _ _ _ \<Rightarrow> False | PtrClearFocus \<Rightarrow> False
     | PtrMotion _ _ _ \<Rightarrow> False | _ \<Rightarrow> True)"

lemma focus_inv_neutral_emit: "\<lbrakk>focus_inv st; neutral c\<rbrakk> \<Longrightarrow> focus_inv (wl_emit c st)"
  by (rule focus_inv_emit) (auto simp: neutral_def)

lemma focus_inv_neutral_calls:
  "\<lbrakk>focus_inv st; \<forall>c \<in> set ds. neutral c\<rbrakk> \<Longrightarrow> focus_inv (st\<lparr>cs_calls := cs_calls st @ ds\<rparr>)"
proof (induction ds rule: rev_induct)
  case (snoc d ds)
  then have "focus_inv (wl_emit d (st\<lparr>cs_calls := cs_calls st @ ds\<rparr>))"
    by (intro focus_inv_neutral_emit) simp_all
  then show ?case by (simp add: wl_emit_def)
qed simp

lemma focus_inv_toplevels:
  "\<lbrakk>focus_inv st; \<And>ct s. \<lbrakk>ct \<in> set ts; ct_surface ct = Some s\<rbrakk> \<Longrightarrow> su_resource s \<noteq> None\<rbrakk> \<Longrightarrow>
   focus_inv (st\<lparr>cs_toplevels := ts\<rparr>)"
  by (auto simp: focus_inv_def text_inv_def toplevels_live_def)

lemma text_enter_calls:
  assumes "text_inv st"
  shows "\<exists>ds. cs_calls (text_input_handle_keyboard_enter sf st) = cs_calls st @ ds \<and> (\<forall>c \<in> set ds. text_call c)"
proof (cases "text_input_handle_keyboard_enter sf st = st")
  case False
  then obtain s where "text_input_handle_keyboard_enter sf st = focus_moved s st"
    using keyboard_enter_under_inv [OF assms, of sf] by (auto split: option.splits if_splits)
  then show ?thesis using focus_moved_text_calls [of s st] by simp
qed simp

lemma text_clear_calls:
  assumes "text_inv st"
  shows "\<exists>ds. cs_calls (clear_text_input_focus sf send st) = cs_calls st @ ds \<and> (\<forall>c \<in> set ds. text_call c)"
  using clear_under_inv [OF assms, of sf send] cleared_text_calls [of send st] by (cases "sf = None \<or> ts_focused st = sf") auto

lemma focus_calls_neutral: "\<forall>c \<in> set (focus_calls ct cts). neutral c"
  by (auto simp: focus_calls_def neutral_def)

lemma shell_inv_focus:
  assumes st: "focus_inv st" "distinct (map ct_id (cs_toplevels st))"
    "\<forall>ct \<in> set (cs_toplevels st). ct_surface ct \<noteq> None"
    and act: "active_unique (cs_calls st) (filter (\<lambda>c. ct_id c \<noteq> i) (cs_toplevels st))"
    and i: "find_toplevel i st = Some ct"
  shows "shell_inv (focus_toplevel i st)"
proof -
  have ct: "ct \<in> set (cs_toplevels st)" "ct_id ct = i" using i find_toplevel_iff [OF st(2)] by auto
  obtain s where s: "ct_surface ct = Some s" "su_resource s \<noteq> None"
    using st(1,3) ct(1) by (fastforce simp: focus_inv_def toplevels_live_def)
  let ?st1 = "st\<lparr>cs_calls := cs_calls st @ focus_calls ct (cs_toplevels st)\<rparr>"
  let ?e = "wl_emit (KbEnter (Some s) (cs_keyboard st)) ?st1"
  let ?st2 = "if ct_rendering_only ct then ?st1 else text_input_handle_keyboard_enter (Some s) ?e"
  have f1: "focus_inv ?st1" by (rule focus_inv_neutral_calls [OF st(1) focus_calls_neutral])
  then have f2: "focus_inv ?st2" using focus_inv_kb_enter [OF f1 s(2)] by simp
  have tops: "cs_toplevels ?st2 = cs_toplevels st" by simp
  have ti: "text_inv ?e" using f1 by (simp add: focus_inv_def)
  obtain ds where ds: "cs_calls (text_input_handle_keyboard_enter (Some s) ?e) = cs_calls ?e @ ds"
    "\<forall>c \<in> set ds. text_call c" using text_enter_calls [OF ti] by blast
  have "\<exists>es. cs_calls ?st2 = (cs_calls st @ focus_calls ct (cs_toplevels st)) @ es \<and>
      (\<forall>c \<in> set es. \<forall>j v. c \<noteq> SetActivated j v)"
    using ds by (auto simp: text_call_def intro: exI [of _ "[]"] exI [of _ "KbEnter (Some s) (cs_keyboard st) # ds"])
  then obtain es where es: "cs_calls ?st2 = (cs_calls st @ focus_calls ct (cs_toplevels st)) @ es"
    "\<forall>c \<in> set es. \<forall>j v. c \<noteq> SetActivated j v" by blast
  have act2: "active_unique (cs_calls ?st2) (to_front ct (cs_toplevels st))"
    unfolding es(1) active_unique_calls [OF es(2)]
    by (rule active_unique_focus) (use act ct st(2) in simp_all)
  have eq: "focus_toplevel i st = ?st2\<lparr>cs_toplevels := to_front ct (cs_toplevels st)\<rparr>"
    using focus_toplevel_eq [OF i ct(2)] s(1) by (simp add: Let_def)
  have sub: "set (to_front ct (cs_toplevels st)) = set (cs_toplevels st)"
    using ct st(2) by (auto simp: to_front_def) (metis distinct_map inj_onD)
  have "focus_inv (?st2\<lparr>cs_toplevels := to_front ct (cs_toplevels st)\<rparr>)"
    by (rule focus_inv_toplevels [OF f2]) (use st(1) sub in \<open>auto simp: focus_inv_def toplevels_live_def\<close>)
  moreover have "distinct (map ct_id (to_front ct (cs_toplevels st)))"
    using st(2) by (auto simp: to_front_def distinct_map filter_is_subset inj_on_def)
  ultimately show ?thesis
    unfolding eq shell_inv_def using act2 sub st(3) by simp
qed

lemma shell_inv_clear:
  assumes "shell_inv st"
  shows "shell_inv (clear_text_input_focus sf send st)"
proof -
  have ti: "text_inv st" using assms by (simp add: shell_inv_def focus_inv_def)
  obtain ds where ds: "cs_calls (clear_text_input_focus sf send st) = cs_calls st @ ds" "\<forall>c \<in> set ds. text_call c"
    using text_clear_calls [OF ti] by blast
  have "\<forall>c \<in> set ds. \<forall>j v. c \<noteq> SetActivated j v" using ds(2) by (auto simp: text_call_def)
  then show ?thesis
    using assms focus_inv_clear [of st sf send]
    by (simp add: shell_inv_def ds(1) active_unique_calls)
qed

lemma shell_inv_emit:
  assumes "shell_inv st" "neutral c" "\<forall>j v. c \<noteq> SetActivated j v"
  shows "shell_inv (wl_emit c st)"
  using assms focus_inv_neutral_emit [of st c] active_unique_calls [of "[c]"]
  by (simp add: shell_inv_def)

lemma shell_inv_fields [simp]:
  "shell_inv (st\<lparr>sh_output := a\<rparr>) = shell_inv st" "shell_inv (st\<lparr>sh_pending := b\<rparr>) = shell_inv st"
  "shell_inv (st\<lparr>sh_popups := c\<rparr>) = shell_inv st" "shell_inv (st\<lparr>sh_views := d\<rparr>) = shell_inv st"
  "shell_inv (st\<lparr>sh_clients := e\<rparr>) = shell_inv st" "shell_inv (st\<lparr>sh_client_count := n\<rparr>) = shell_inv st"
  by (simp_all add: shell_inv_def focus_inv_def text_inv_def toplevels_live_def)

lemma shell_inv_update_view [simp]: "shell_inv (update_view i f st) = shell_inv st"
  by (simp add: update_view_def)

lemma shell_inv_new_toplevel:
  assumes "shell_inv st" "ct_id t \<notin> ct_id ` set (cs_toplevels st)" "\<not> activated (cs_calls st) (ct_id t)"
    "ct_surface t = Some s" "su_resource s \<noteq> None"
  shows "shell_inv (on_new_xdg_toplevel ok t st)"
proof (cases ok)
  case True
  let ?t = "t\<lparr>ct_rendering_only := False\<rparr>"
  have "focus_inv (st\<lparr>cs_toplevels := ?t # cs_toplevels st\<rparr>)"
    by (rule focus_inv_toplevels)
       (use assms in \<open>auto simp: shell_inv_def focus_inv_def toplevels_live_def\<close>)
  moreover have "active_unique (cs_calls st) (?t # cs_toplevels st)"
    using assms(1,3) by (auto simp: shell_inv_def active_unique_def)
  ultimately show ?thesis
    using True assms by (simp add: on_new_xdg_toplevel_def shell_inv_def)
qed (simp add: on_new_xdg_toplevel_def assms(1))

lemma shell_inv_map:
  assumes "shell_inv st"
  shows "shell_inv (on_toplevel_map i st)"
proof -
  define f :: "toplevel \<Rightarrow> toplevel" where "f = (\<lambda>ct. if ct_app_id ct = Some ''com.coder.vscode'' then ct\<lparr>ct_rendering_only := True\<rparr> else ct)"
  let ?ts = "map (\<lambda>ct. if ct_id ct = i then f ct else ct) (cs_toplevels st)"
  let ?st = "st\<lparr>cs_toplevels := ?ts\<rparr>"
  have f: "ct_id (f ct) = ct_id ct" "ct_surface (f ct) = ct_surface ct" for ct by (simp_all add: f_def)
  have ids: "map ct_id ?ts = map ct_id (cs_toplevels st)" by (simp add: f)
  have foc: "focus_inv ?st"
    by (rule focus_inv_toplevels) (use assms f in \<open>auto simp: shell_inv_def focus_inv_def toplevels_live_def\<close>)
  have sur: "\<forall>ct \<in> set ?ts. ct_surface ct \<noteq> None" using assms f by (auto simp: shell_inv_def)
  have rest: "filter (\<lambda>c. ct_id c \<noteq> i) (map (\<lambda>ct. if ct_id ct = i then f ct else ct) cts) =
      filter (\<lambda>c. ct_id c \<noteq> i) cts" for cts
    by (induction cts) (simp_all add: f)
  have act: "active_unique (cs_calls st) (filter (\<lambda>c. ct_id c \<noteq> i) ?ts)"
    unfolding rest using assms by (auto simp: shell_inv_def intro: active_unique_subset)
  have tops: "cs_toplevels ?st = ?ts" "cs_calls ?st = cs_calls st" by simp_all
  have dist: "distinct (map ct_id ?ts)" unfolding ids using assms by (simp add: shell_inv_def)
  have eq: "on_toplevel_map i st = focus_toplevel i ?st"
    unfolding on_toplevel_map_def update_toplevel_def f_def by (rule refl)
  show ?thesis
  proof (cases "find_toplevel i ?st")
    case (Some ct)
    show ?thesis
      unfolding eq by (rule shell_inv_focus [OF foc _ _ _ Some]; unfold tops) (fact dist sur act)+
  next
    case None
    then have "\<forall>ct \<in> set ?ts. ct_id ct \<noteq> i" by (auto simp: find_toplevel_def find_None_iff)
    then have "filter (\<lambda>c. ct_id c \<noteq> i) ?ts = ?ts" by (rule filter_True)
    then have "active_unique (cs_calls st) ?ts" using act by (rule subst)
    moreover have "focus_toplevel i ?st = ?st" using None by (simp add: focus_toplevel_def)
    ultimately show ?thesis
      unfolding eq shell_inv_def tops using foc dist sur by (simp only: tops simp_thms)
  qed
qed

lemma shell_inv_leave: "shell_inv st \<Longrightarrow> shell_inv (text_input_handle_keyboard_leave sf st)"
  by (simp add: text_input_handle_keyboard_leave_def shell_inv_clear)

lemma shell_inv_unmap:
  assumes "shell_inv st"
  shows "shell_inv (on_toplevel_unmap kbf i st)"
proof -
  have refocus: "shell_inv (focus_toplevel j st')" if st': "shell_inv st'" for j and st' :: "'a input_server_scheme"
  proof (cases "find_toplevel j st'")
    case (Some ct)
    show ?thesis
      by (rule shell_inv_focus [OF _ _ _ _ Some])
         (use st' in \<open>auto simp: shell_inv_def intro: active_unique_subset\<close>)
  qed (simp add: focus_toplevel_def st')
  show ?thesis
    using assms
    by (auto simp: on_toplevel_unmap_def Let_def split: option.split list.split
        intro!: refocus shell_inv_leave)
qed

lemma shell_inv_destroy:
  assumes "shell_inv st"
  shows "shell_inv (on_toplevel_destroy i st)"
proof -
  have drop: "shell_inv (s\<lparr>cs_toplevels := filter (\<lambda>c. ct_id c \<noteq> i) (cs_toplevels s)\<rparr>)"
    if "shell_inv s" for s :: "'a input_server_scheme"
  proof -
    have "focus_inv (s\<lparr>cs_toplevels := filter (\<lambda>c. ct_id c \<noteq> i) (cs_toplevels s)\<rparr>)"
      by (rule focus_inv_toplevels) (use that in \<open>auto simp: shell_inv_def focus_inv_def toplevels_live_def\<close>)
    moreover have "distinct (map ct_id (filter (\<lambda>c. ct_id c \<noteq> i) (cs_toplevels s)))"
      using that by (auto simp: shell_inv_def distinct_map inj_on_def)
    ultimately show ?thesis
      using that by (auto simp: shell_inv_def intro: active_unique_subset)
  qed
  show ?thesis
    using assms drop [OF shell_inv_leave] drop [OF assms]
    by (auto simp: on_toplevel_destroy_def Let_def split: option.split)
qed

text \<open>Input events, as the seat sees them, never touch activation.\<close>

definition quiet_step :: "'a compositor_scheme \<Rightarrow> 'a compositor_scheme \<Rightarrow> bool" where
  "quiet_step st st' \<longleftrightarrow> cs_toplevels st' = cs_toplevels st \<and>
     (\<exists>ds. cs_calls st' = cs_calls st @ ds \<and> (\<forall>c \<in> set ds. \<forall>j v. c \<noteq> SetActivated j v))"

lemma quiet_step_refl [simp]: "quiet_step st st"
  by (simp add: quiet_step_def)

lemma quiet_step_trans: "\<lbrakk>quiet_step a b; quiet_step b c\<rbrakk> \<Longrightarrow> quiet_step a c"
  unfolding quiet_step_def by force

lemma quiet_step_emit: "\<lbrakk>quiet_step a b; \<forall>j v. c \<noteq> SetActivated j v\<rbrakk> \<Longrightarrow> quiet_step a (wl_emit c b)"
  unfolding quiet_step_def by force

lemma quiet_step_calls: "\<lbrakk>quiet_step a b; cs_calls c = cs_calls b; cs_toplevels c = cs_toplevels b\<rbrakk> \<Longrightarrow> quiet_step a c"
  by (simp add: quiet_step_def)

lemma quiet_step_shell_inv: "\<lbrakk>shell_inv st; quiet_step st st'; focus_inv st'\<rbrakk> \<Longrightarrow> shell_inv st'"
  unfolding quiet_step_def shell_inv_def using active_unique_calls by metis

lemma quiet_step_enter:
  assumes "text_inv st"
  shows "quiet_step st (enter_keyboard s st)"
proof -
  let ?e = "wl_emit (KbEnter (Some s) True) st"
  obtain ds where "cs_calls (text_input_handle_keyboard_enter (Some s) ?e) = cs_calls ?e @ ds" "\<forall>c \<in> set ds. text_call c"
    using text_enter_calls [of ?e] assms by auto
  then show ?thesis
    by (auto simp: quiet_step_def enter_keyboard_def text_call_def intro: exI [of _ "KbEnter (Some s) True # ds"])
qed

lemma quiet_step_event:
  assumes "text_inv st"
  shows "quiet_step st (dispatch_event env ev st)"
proof (cases ev)
  case (INPUT_KEY t k p)
  then show ?thesis
    using quiet_step_enter [OF assms]
    by (auto simp: dispatch_event_def dispatch_key_def Let_def intro!: quiet_step_emit split: option.split)
next
  case (INPUT_TOUCH_DOWN t i x y)
  have down: "quiet_step st (wl_emit TouchFrame (wl_emit (TouchDown u t i sx sy) st))" for u sx sy
    by (intro quiet_step_emit quiet_step_refl) simp_all
  have "quiet_step (wl_emit TouchFrame (wl_emit (TouchDown u t i sx sy) st))
      (enter_keyboard s (wl_emit TouchFrame (wl_emit (TouchDown u t i sx sy) st)))" for u sx sy s
    by (rule quiet_step_enter) (simp add: assms)
  from quiet_step_trans [OF down this] down show ?thesis
    unfolding INPUT_TOUCH_DOWN
    by (simp add: dispatch_event_def dispatch_touch_down_def Let_def split: option.split)
next
  case (INPUT_POINTER_MOTION t x y)
  then show ?thesis
    by (auto simp: dispatch_event_def dispatch_pointer_motion_def Let_def quiet_step_def split: option.split)
qed (auto simp: dispatch_event_def dispatch_touch_motion_def dispatch_touch_up_def dispatch_touch_cancel_def
      dispatch_pointer_button_def dispatch_pointer_scroll_def Let_def intro!: quiet_step_emit split: option.split)

lemma shell_inv_event: "\<lbrakk>shell_inv st; env_live env\<rbrakk> \<Longrightarrow> shell_inv (dispatch_event env ev st)"
  by (rule quiet_step_shell_inv [OF _ quiet_step_event focus_inv_event])
     (simp_all add: shell_inv_def focus_inv_def)

lemma shell_inv_surface_destroyed: "shell_inv st \<Longrightarrow> shell_inv (input_surface_destroyed s st)"
proof -
  assume st: "shell_inv st"
  let ?a = "if in_listener st = Some s then handle_focused_surface_destroy st else st"
  have "quiet_step st ?a"
    by (rule quiet_step_calls [OF quiet_step_refl]) (simp_all add: handle_focused_surface_destroy_def)
  moreover have "focus_inv ?a"
    using st toplevels_live_cong [of "handle_focused_surface_destroy st" st]
    by (auto simp: shell_inv_def focus_inv_def handle_focused_surface_destroy_def text_inv_def)
  ultimately have "shell_inv ?a" using quiet_step_shell_inv [OF st] by blast
  then show ?thesis
    by (auto simp: input_surface_destroyed_def surface_destroyed_def
        handle_focused_text_input_surface_destroy_def shell_inv_clear)
qed

lemma shell_inv_kb_enter:
  assumes "shell_inv st" "su_resource s \<noteq> None"
  shows "shell_inv (text_input_handle_keyboard_enter (Some s) (wl_emit (KbEnter (Some s) kb) st))"
proof (rule quiet_step_shell_inv [OF assms(1)])
  let ?e = "wl_emit (KbEnter (Some s) kb) st"
  have "text_inv ?e" using assms(1) by (simp add: shell_inv_def focus_inv_def)
  then obtain ds where "cs_calls (text_input_handle_keyboard_enter (Some s) ?e) = cs_calls ?e @ ds" "\<forall>c \<in> set ds. text_call c"
    using text_enter_calls by blast
  then show "quiet_step st (text_input_handle_keyboard_enter (Some s) ?e)"
    by (auto simp: quiet_step_def text_call_def intro: exI [of _ "KbEnter (Some s) kb # ds"])
  show "focus_inv (text_input_handle_keyboard_enter (Some s) ?e)"
    using assms by (intro focus_inv_kb_enter) (simp_all add: shell_inv_def)
qed

lemma shell_inv_resize:
  assumes "shell_inv st"
  shows "shell_inv (on_resize_event r c st)"
proof -
  have f: "shell_inv (fold (resize_toplevel a b w h) cts s)" if "shell_inv s" for a b w h cts and s :: "'a shell_scheme"
    using that
  proof (induction cts arbitrary: s)
    case (Cons ct cts)
    have "shell_inv (resize_toplevel a b w h ct s)"
      using Cons.prems by (auto simp: resize_toplevel_def neutral_def intro!: shell_inv_emit)
    then show ?case by (simp add: Cons.IH)
  qed simp
  have "shell_inv (wl_emit (CommitMode w h) st)" for w h
    using assms by (intro shell_inv_emit) (simp_all add: neutral_def)
  then show ?thesis
    using assms by (auto simp: on_resize_event_def Let_def intro!: f split: option.split prod.split)
qed

subsection \<open>Histories of the compositor\<close>

datatype shell_op =
    InputEvent input_env input_event
  | SurfaceGone surface
  | NewToplevel bool toplevel
  | MapToplevel nat
  | UnmapToplevel focus_fun nat
  | DestroyToplevel nat
  | RequestFullscreen nat
  | CommitToplevel nat
  | NewPopup bool bool bool nat
  | CommitPopup bool nat
  | DestroyPopup nat
  | ResizeRequest int int int
  | ResizeEvent bool bool
  | NewView bool nat
  | AssociateView nat
  | MapView bool nat xsurface
  | UnmapView focus_fun nat xsurface
  | DissociateView nat xsurface
  | ConfigureView nat int int int int
  | FullscreenView nat
  | DestroyView nat
  | ClientCreated bool nat
  | ClientDestroyed nat

fun shell_exec :: "shell_op \<Rightarrow> shell \<Rightarrow> shell" where
  "shell_exec (InputEvent env ev) st = dispatch_event env ev st"
| "shell_exec (SurfaceGone s) st = input_surface_destroyed s st"
| "shell_exec (NewToplevel ok t) st = on_new_xdg_toplevel ok t st"
| "shell_exec (MapToplevel i) st = on_toplevel_map i st"
| "shell_exec (UnmapToplevel kbf i) st = on_toplevel_unmap kbf i st"
| "shell_exec (DestroyToplevel i) st = on_toplevel_destroy i st"
| "shell_exec (RequestFullscreen i) st = on_request_fullscreen i st"
| "shell_exec (CommitToplevel i) st = on_toplevel_commit i st"
| "shell_exec (NewPopup p t ok i) st = on_new_xdg_popup p t ok i st"
| "shell_exec (CommitPopup initial i) st = on_popup_commit initial i st"
| "shell_exec (DestroyPopup i) st = on_popup_destroy i st"
| "shell_exec (ResizeRequest fd w h) st = snd (compositor_server_resize_output fd w h st)"
| "shell_exec (ResizeEvent r c) st = on_resize_event r c st"
| "shell_exec (NewView ok i) st = on_new_xwayland_surface ok i st"
| "shell_exec (AssociateView i) st = on_xwayland_surface_associate i st"
| "shell_exec (MapView ok i xs) st = on_xwayland_surface_map ok i xs st"
| "shell_exec (UnmapView kbf i xs) st = on_xwayland_surface_unmap kbf i xs st"
| "shell_exec (DissociateView i xs) st = on_xwayland_surface_dissociate i xs st"
| "shell_exec (ConfigureView i x y w h) st = on_xwayland_request_configure i x y w h st"
| "shell_exec (FullscreenView i) st = on_xwayland_request_fullscreen i st"
| "shell_exec (DestroyView i) st = on_xwayland_surface_destroy i st"
| "shell_exec (ClientCreated ok c) st = handle_client_created ok c st"
| "shell_exec (ClientDestroyed c) st = handle_client_destroyed c st"

text \<open>
  What wlroots guarantees of an event: surfaces it hands out have a live resource, a new toplevel is
  new and has a surface, a mapped X11 window has one.
\<close>

definition shell_op_ok :: "shell_op \<Rightarrow> shell \<Rightarrow> bool" where
  "shell_op_ok op st \<longleftrightarrow> (case op of
      InputEvent env ev \<Rightarrow> env_live env
    | NewToplevel ok t \<Rightarrow> ct_id t \<notin> ct_id ` set (cs_toplevels st) \<and>
        \<not> activated (cs_calls st) (ct_id t) \<and> (\<exists>s. ct_surface t = Some s \<and> su_resource s \<noteq> None)
    | MapView ok i xs \<Rightarrow> \<exists>s. xs_surface xs = Some s \<and> su_resource s \<noteq> None
    | _ \<Rightarrow> True)"

inductive shell_reachable :: "shell \<Rightarrow> bool" where
  start: "\<lbrakk>text_fresh st; in_focused st = None; in_listener st = None; cs_toplevels st = [];
    sh_clients st = []; sh_client_count st = 0\<rbrakk> \<Longrightarrow> shell_reachable st"
| step: "\<lbrakk>shell_reachable st; shell_op_ok op st\<rbrakk> \<Longrightarrow> shell_reachable (shell_exec op st)"

lemma shell_inv_view_map:
  assumes "shell_inv st" "xs_surface xs = Some s" "su_resource s \<noteq> None"
  shows "shell_inv (on_xwayland_surface_map ok i xs st)"
proof -
  let ?a = "update_view i (\<lambda>v. v\<lparr>xv_scene_tree := ok\<rparr>) st"
  let ?b = "wl_emit (ViewSetPosition i (xs_x xs) (xs_y xs)) (wl_emit (ViewTreeCreate i) ?a)"
  let ?c = "wl_emit (ViewRaise i) (wl_emit (XwActivate i) ?b)"
  have b: "shell_inv ?b" by (intro shell_inv_emit) (simp_all add: assms(1) neutral_def)
  have c: "shell_inv ?c" by (intro shell_inv_emit b) (simp_all add: neutral_def)
  show ?thesis
    using assms(1) b shell_inv_kb_enter [OF c assms(3)]
    by (cases ok) (simp_all add: on_xwayland_surface_map_def focus_xwayland_view_def assms(2) Let_def)
qed

lemma shell_inv_exec:
  assumes "shell_inv st" "shell_op_ok op st"
  shows "shell_inv (shell_exec op st)"
proof (cases op)
  case (NewToplevel ok t)
  then show ?thesis using assms shell_inv_new_toplevel [of st t] by (auto simp: shell_op_ok_def)
next
  case (MapView ok i xs)
  then show ?thesis using assms shell_inv_view_map [of st xs] by (auto simp: shell_op_ok_def)
next
  case (InputEvent env ev)
  then show ?thesis using assms by (simp add: shell_op_ok_def shell_inv_event)
next
  case (RequestFullscreen i)
  then show ?thesis using assms
    by (auto simp: on_request_fullscreen_def Let_def neutral_def intro!: shell_inv_emit split: option.split)
next
  case (CommitToplevel i)
  then show ?thesis using assms
    by (auto simp: on_toplevel_commit_def Let_def neutral_def intro!: shell_inv_emit split: option.split prod.split)
next
  case (NewPopup p t ok i)
  then show ?thesis using assms
    by (auto simp: on_new_xdg_popup_def Let_def neutral_def intro!: shell_inv_emit)
next
  case (CommitPopup b i)
  then show ?thesis using assms by (auto simp: on_popup_commit_def neutral_def intro!: shell_inv_emit)
next
  case (UnmapView kbf i xs)
  then show ?thesis using assms
    by (auto simp: on_xwayland_surface_unmap_def Let_def neutral_def intro!: shell_inv_emit shell_inv_leave
        split: option.split)
next
  case (DissociateView i xs)
  then show ?thesis using assms
    by (auto simp: on_xwayland_surface_dissociate_def Let_def intro!: shell_inv_leave)
next
  case (ConfigureView i x y w h)
  then show ?thesis using assms
    by (auto simp: on_xwayland_request_configure_def Let_def neutral_def intro!: shell_inv_emit split: option.split)
next
  case (FullscreenView i)
  then show ?thesis using assms
    by (auto simp: on_xwayland_request_fullscreen_def neutral_def intro!: shell_inv_emit split: option.split prod.split)
qed (use assms in \<open>simp_all add: shell_inv_map shell_inv_unmap shell_inv_destroy shell_inv_resize
      shell_inv_surface_destroyed on_popup_destroy_def compositor_server_resize_output_def
      on_new_xwayland_surface_def on_xwayland_surface_associate_def on_xwayland_surface_destroy_def
      handle_client_created_def handle_client_destroyed_def\<close>)

lemma shell_inv_reachable: "shell_reachable st \<Longrightarrow> shell_inv st"
proof (induction rule: shell_reachable.induct)
  case (start st)
  then show ?case
    using text_inv_fresh [of st]
    by (simp add: shell_inv_def focus_inv_def text_fresh_def toplevels_live_def active_unique_def)
qed (rule shell_inv_exec)

text \<open>
  C23: Composition of windows, input and text input. After any history of input events, toplevels,
  popups and X11 windows coming, mapping, unmapping and going, resizes and surface destructions: the
  text-input focus is on the surface the seat's keyboard entered last; the pointer focus record, its
  destroy listener and the pointer enters and clears sent agree, and every pointer motion goes to an
  entered surface; the text-input objects stay consistent; no toplevel is tracked twice; and at most
  one ordinary and at most one rendering-only toplevel is activated.
\<close>

theorem shell_focus_invariant:
  assumes "shell_reachable st"
  shows "(ts_focused st \<noteq> None \<longrightarrow> kb_focus (cs_calls st) = ts_focused st) \<and>
    in_listener st = in_focused st \<and>
    (in_focused st \<noteq> None \<longrightarrow> ptr_focus (cs_calls st) = in_focused st) \<and> ptr_protocol (cs_calls st) \<and>
    text_inv st \<and> distinct (map ct_id (cs_toplevels st)) \<and>
    (\<forall>a \<in> set (cs_toplevels st). \<forall>b \<in> set (cs_toplevels st).
       activated (cs_calls st) (ct_id a) \<and> activated (cs_calls st) (ct_id b) \<and>
       ct_rendering_only a = ct_rendering_only b \<longrightarrow> a = b)"
  using shell_inv_reachable [OF assms] unfolding shell_inv_def focus_inv_def active_unique_def by blast

definition shell0 :: shell where
  "shell0 = input_server.extend input_server0
     \<lparr>sh_output = Some (1080, 2400), sh_pending = (0, 0), sh_popups = [], sh_views = [],
      sh_clients = [], sh_client_count = 0\<rparr>"

definition toplevel_demo :: "nat \<Rightarrow> string \<Rightarrow> toplevel" where
  "toplevel_demo i app =
     \<lparr>ct_id = i, ct_surface = Some \<lparr>su_id = i, su_resource = Some 7\<rparr>, ct_rendering_only = False,
      ct_app_id = Some app, ct_initialized = True, ct_initial_commit = False, ct_fullscreen = False,
      ct_width = 0, ct_height = 0\<rparr>"

lemmas shell0_simps = shell0_def input_server.defs input_server0_def text_server.defs text_server0_def
  text_state.defs text_state0_def

lemma shell0_reachable: "shell_reachable shell0"
  by (rule shell_reachable.start) (simp_all add: shell0_simps text_fresh_def)

definition shell1 :: shell where
  "shell1 = on_toplevel_map 1 (on_new_xdg_toplevel True (toplevel_demo 1 ''code'') shell0)"

lemma shell1_reachable: "shell_reachable shell1"
proof -
  have "shell_op_ok (NewToplevel True (toplevel_demo 1 ''code'')) shell0"
    by (simp add: shell_op_ok_def shell0_simps toplevel_demo_def activated_def)
  from shell_reachable.step [OF shell0_reachable this]
  have "shell_reachable (on_new_xdg_toplevel True (toplevel_demo 1 ''code'') shell0)" by simp
  from shell_reachable.step [OF this, of "MapToplevel 1"] show ?thesis
    by (simp add: shell_op_ok_def shell1_def)
qed

theorem shell_focus_invariant_witness:
  "kb_focus (cs_calls shell1) = Some \<lparr>su_id = 1, su_resource = Some 7\<rparr>"
proof -
  have "ts_focused shell1 = Some \<lparr>su_id = 1, su_resource = Some 7\<rparr>"
    by (simp add: shell1_def on_new_xdg_toplevel_def on_toplevel_map_def update_toplevel_def
        focus_toplevel_def find_toplevel_def toplevel_demo_def shell0_simps deactivate_other_def wl_emit_def
        text_input_handle_keyboard_enter_def clear_text_input_focus_def Let_def)
  then show ?thesis using shell_focus_invariant [OF shell1_reachable] by simp
qed

text \<open>
  C24: Focusing a tracked toplevel: it moves to the front and the others keep their order; exactly the
  others lose activation, except that a rendering-only toplevel leaves ordinary ones active; then it
  is raised and activated; an ordinary one also gets the keyboard and the text-input focus, while a
  rendering-only one leaves both where they were.
\<close>

theorem focus_toplevel_spec:
  assumes "shell_reachable st" "ct \<in> set (cs_toplevels st)"
  shows "let st' = focus_toplevel (ct_id ct) st;
      off = filter (\<lambda>c. ct_id c \<noteq> ct_id ct \<and> (ct_rendering_only ct \<longrightarrow> ct_rendering_only c)) (cs_toplevels st);
      calls = cs_calls st @ map (\<lambda>c. SetActivated (ct_id c) False) off @
        [RaiseToTop (ct_id ct), SetActivated (ct_id ct) True]
    in cs_toplevels st' = ct # filter (\<lambda>c. ct_id c \<noteq> ct_id ct) (cs_toplevels st) \<and>
      (ct_rendering_only ct \<longrightarrow> cs_calls st' = calls \<and> ts_focused st' = ts_focused st \<and> ts_inputs st' = ts_inputs st) \<and>
      (\<not> ct_rendering_only ct \<longrightarrow> ts_focused st' = ct_surface ct \<and>
         (\<exists>rest. cs_calls st' = calls @ KbEnter (ct_surface ct) (cs_keyboard st) # rest \<and> (\<forall>c \<in> set rest. text_call c)))"
proof -
  have inv: "shell_inv st" using shell_inv_reachable [OF assms(1)] .
  have i: "find_toplevel (ct_id ct) st = Some ct"
    using inv assms(2) find_toplevel_iff [of st] by (simp add: shell_inv_def)
  obtain s where s: "ct_surface ct = Some s" "su_resource s \<noteq> None"
    using inv assms(2) by (fastforce simp: shell_inv_def focus_inv_def toplevels_live_def)
  let ?st1 = "st\<lparr>cs_calls := cs_calls st @ focus_calls ct (cs_toplevels st)\<rparr>"
  let ?e = "wl_emit (KbEnter (Some s) (cs_keyboard st)) ?st1"
  have ti: "text_inv ?e"
    using inv by (simp add: shell_inv_def focus_inv_def text_inv_def)
  obtain ds where ds: "cs_calls (text_input_handle_keyboard_enter (Some s) ?e) = cs_calls ?e @ ds"
    "\<forall>c \<in> set ds. text_call c" using text_enter_calls [OF ti] by blast
  have foc: "ts_focused (text_input_handle_keyboard_enter (Some s) ?e) = Some s"
    using s(2) by (auto simp: keyboard_enter_under_inv [OF ti] focus_moved_def Let_def)
  have off: "deactivated ct (cs_toplevels st) =
      filter (\<lambda>c. ct_id c \<noteq> ct_id ct \<and> (ct_rendering_only ct \<longrightarrow> ct_rendering_only c)) (cs_toplevels st)"
    by (simp add: deactivated_def)
  show ?thesis
    using ds foc s(1) unfolding focus_toplevel_eq [OF i refl] Let_def off [symmetric]
    by (auto simp: focus_calls_def to_front_def)
qed

theorem focus_toplevel_spec_witness:
  "ts_focused (focus_toplevel 1 shell1) = Some \<lparr>su_id = 1, su_resource = Some 7\<rparr>"
proof -
  let ?ct = "toplevel_demo 1 ''code''"
  have "?ct \<in> set (cs_toplevels shell1)"
    by (simp add: shell1_def on_new_xdg_toplevel_def on_toplevel_map_def update_toplevel_def
        focus_toplevel_def find_toplevel_def toplevel_demo_def shell0_simps deactivate_other_def wl_emit_def Let_def)
  from focus_toplevel_spec [OF shell1_reachable this] show ?thesis
    by (simp add: Let_def toplevel_demo_def)
qed

text \<open>
  A toplevel enters the list at its head when it is created, before it maps or is focused. If the
  toplevel that has the focus unmaps in between, no other window is focused in its place: nothing is
  activated, raised or entered, although other mapped windows may wait in the list.
\<close>

theorem new_toplevel_hides_focus:
  assumes "shell_reachable st" "shell_op_ok (NewToplevel True t) st"
    and "cs_toplevels st = focused # next # others"
  shows "let st' = on_toplevel_unmap kbf (ct_id focused) (on_new_xdg_toplevel True t st)
    in \<exists>rest. cs_calls st' = cs_calls st @ rest \<and> (\<forall>c \<in> set rest. text_call c) \<and>
      map ct_id (cs_toplevels st') = ct_id t # ct_id focused # ct_id next # map ct_id others"
proof -
  let ?n = "on_new_xdg_toplevel True t st"
  have n: "shell_inv ?n"
    using shell_inv_new_toplevel [OF shell_inv_reachable [OF assms(1)], of t] assms(2)
    by (auto simp: shell_op_ok_def)
  then have ti: "text_inv ?n" by (simp add: shell_inv_def focus_inv_def)
  have fresh: "ct_id t \<noteq> ct_id focused" using assms(2,3) by (auto simp: shell_op_ok_def)
  have tops: "cs_toplevels ?n = t\<lparr>ct_rendering_only := False\<rparr> # focused # next # others"
    "cs_calls ?n = cs_calls st" by (simp_all add: on_new_xdg_toplevel_def assms(3))
  have f: "find_toplevel (ct_id focused) ?n = Some focused"
    using fresh by (simp add: find_toplevel_def tops)
  obtain ds where ds: "cs_calls (text_input_handle_keyboard_leave (ct_surface focused) ?n) = cs_calls ?n @ ds"
    "\<forall>c \<in> set ds. text_call c"
    using text_clear_calls [OF ti] unfolding text_input_handle_keyboard_leave_def by blast
  show ?thesis
    using fresh ds
    by (auto simp: on_toplevel_unmap_def f get_focused_toplevel_def Let_def tops text_input_handle_keyboard_leave_def)
qed

definition shell2 :: shell where
  "shell2 = on_new_xdg_toplevel True (toplevel_demo 2 ''term'')
     (on_new_xdg_toplevel True (toplevel_demo 1 ''code'') shell0)"

lemma shell2_reachable: "shell_reachable shell2"
proof -
  have a: "shell_op_ok (NewToplevel True (toplevel_demo 1 ''code'')) shell0"
    by (simp add: shell_op_ok_def shell0_simps toplevel_demo_def activated_def)
  have b: "shell_op_ok (NewToplevel True (toplevel_demo 2 ''term''))
      (on_new_xdg_toplevel True (toplevel_demo 1 ''code'') shell0)"
    by (simp add: shell_op_ok_def shell0_simps toplevel_demo_def activated_def on_new_xdg_toplevel_def)
  show ?thesis
    using shell_reachable.step [OF shell_reachable.step [OF shell0_reachable a], of "NewToplevel True (toplevel_demo 2 ''term'')"] b
    by (simp add: shell2_def)
qed

theorem new_toplevel_hides_focus_witness:
  "map ct_id (cs_toplevels (on_toplevel_unmap (\<lambda>_. None) 2
     (on_new_xdg_toplevel True (toplevel_demo 3 ''new'') shell2))) = [3, 2, 1]"
proof -
  have ok: "shell_op_ok (NewToplevel True (toplevel_demo 3 ''new'')) shell2"
    by (simp add: shell_op_ok_def shell2_def shell0_simps toplevel_demo_def activated_def on_new_xdg_toplevel_def)
  have tops: "cs_toplevels shell2 = toplevel_demo 2 ''term'' # toplevel_demo 1 ''code'' # []"
    by (simp add: shell2_def shell0_simps toplevel_demo_def on_new_xdg_toplevel_def)
  from new_toplevel_hides_focus [OF shell2_reachable ok tops, of "\<lambda>_. None"] show ?thesis
    by (auto simp: Let_def toplevel_demo_def)
qed

text \<open>The counter is the number of clients being watched, modulo its width.\<close>

lemma client_count_exact:
  assumes "sh_client_count st = of_nat (length (sh_clients st))"
  shows "sh_client_count (handle_client_created ok c st) =
      of_nat (length (sh_clients (handle_client_created ok c st)))"
    and "sh_client_count (handle_client_destroyed c st) =
      of_nat (length (sh_clients (handle_client_destroyed c st)))"
proof -
  show "sh_client_count (handle_client_created ok c st) =
      of_nat (length (sh_clients (handle_client_created ok c st)))"
    using assms by (simp add: handle_client_created_def)
  have "length (sh_clients st) = Suc (length (remove1 c (sh_clients st)))" if "c \<in> set (sh_clients st)"
    using that by (simp add: length_remove1) (metis Suc_pred length_pos_if_in_set)
  then show "sh_client_count (handle_client_destroyed c st) =
      of_nat (length (sh_clients (handle_client_destroyed c st)))"
    using assms by (auto simp: handle_client_destroyed_def)
qed

end
