(* ===== verification/AndroidOutput.thy ===== *)
theory AndroidOutput
  imports Prelude
begin

text \<open>
  The output bound to an Android window (\<^verbatim>\<open>compositor/native/src/android_output.c\<close>) and its pause
  and resume from the UI thread through a pipe (\<^verbatim>\<open>compositor/native/src/compositor_server.c\<close>): the
  presentation of a buffer, the frame timer, the references to windows.
\<close>

subsection \<open>State\<close>

text \<open>The calls into Android and wlroots, in order.\<close>

datatype out_call =
    WinAcquire nat
  | WinRelease nat
  | WinGeometry nat int int
  | WinPost nat bytes
  | SurfaceTransaction nat
  | ControlCreate nat
  | ControlRelease
  | TimerUpdate int
  | SendPresent bool
  | SendFrame
  | SceneCommit
  | FrameDone

text \<open>
  \<^verbatim>\<open>struct android_output\<close> with the part of \<^verbatim>\<open>struct compositor_server\<close> that pauses it. A window is
  an identity; \<open>os_pipe\<close> holds the bytes of the pause/resume pipe, \<open>os_output\<close> says whether the
  server knows its output yet.
\<close>

record out_server =
  out_window :: "nat option"
  out_control :: bool
  out_frame_delay :: int
  out_width :: int
  out_height :: int
  out_calls :: "out_call list"
  os_output :: bool
  os_scene_output :: bool
  os_paused :: bool
  os_pending :: "nat option"
  os_pipe :: string
  os_pipe_open :: bool

definition out_emit :: "out_call \<Rightarrow> out_server \<Rightarrow> out_server" where
  "out_emit c st = st\<lparr>out_calls := out_calls st @ [c]\<rparr>"

lemma out_emit_simps [simp]:
  "out_window (out_emit c st) = out_window st" "out_control (out_emit c st) = out_control st"
  "out_frame_delay (out_emit c st) = out_frame_delay st" "out_width (out_emit c st) = out_width st"
  "out_height (out_emit c st) = out_height st" "out_calls (out_emit c st) = out_calls st @ [c]"
  "os_output (out_emit c st) = os_output st" "os_paused (out_emit c st) = os_paused st"
  "os_scene_output (out_emit c st) = os_scene_output st"
  "os_pending (out_emit c st) = os_pending st" "os_pipe (out_emit c st) = os_pipe st"
  "os_pipe_open (out_emit c st) = os_pipe_open st"
  by (simp_all add: out_emit_def)

subsection \<open>Presenting a buffer\<close>

text \<open>
  A \<^verbatim>\<open>wlr_buffer\<close>: whether it comes from the AHardwareBuffer allocator, its size, and what
  \<^verbatim>\<open>begin_data_ptr_access\<close> gives (bytes and stride, or a failure).
\<close>

record out_buffer =
  ob_ahb :: bool
  ob_width :: nat
  ob_height :: nat
  ob_data :: "(bytes \<times> nat) option"

text \<open>\<^verbatim>\<open>ANativeWindow_Buffer\<close>: the stride counts pixels.\<close>

record win_buffer =
  wb_width :: nat
  wb_height :: nat
  wb_stride :: nat
  wb_format :: int
  wb_bits :: bytes

definition format_bpp :: "int \<Rightarrow> nat" where
  "format_bpp format =
     (if format = 1 \<or> format = 2 then 4 else if format = 4 then 2 else 4)"

text \<open>One \<^verbatim>\<open>memcpy\<close>; \<^const>\<open>None\<close> is an access outside either block.\<close>

definition copy_row :: "nat \<Rightarrow> nat \<Rightarrow> nat \<Rightarrow> bytes \<Rightarrow> bytes \<Rightarrow> bytes option" where
  "copy_row dst_off src_off n src dst =
     (if dst_off + n \<le> length dst \<and> src_off + n \<le> length src
      then Some (take dst_off dst @ take n (drop src_off src) @ drop (dst_off + n) dst) else None)"

fun copy_rows :: "nat list \<Rightarrow> nat \<Rightarrow> nat \<Rightarrow> nat \<Rightarrow> bytes \<Rightarrow> bytes \<Rightarrow> bytes option" where
  "copy_rows [] dst_stride src_stride n src dst = Some dst"
| "copy_rows (y # ys) dst_stride src_stride n src dst =
     (case copy_row (y * dst_stride) (y * src_stride) n src dst of
        None \<Rightarrow> None
      | Some dst1 \<Rightarrow> copy_rows ys dst_stride src_stride n src dst1)"

text \<open>
  The copy: \<open>lock\<close> is what \<^verbatim>\<open>ANativeWindow_lock\<close> gives. The result is whether it was presented, or
  \<^const>\<open>None\<close> for a wild access.
\<close>

definition commit_cpu_copy ::
    "win_buffer option \<Rightarrow> out_buffer \<Rightarrow> nat \<Rightarrow> out_server \<Rightarrow> (bool \<times> out_server) option" where
  "commit_cpu_copy lock buffer w st =
     (case ob_data buffer of
        None \<Rightarrow> Some (False, st)
      | Some (src, src_stride) \<Rightarrow>
          (case lock of
             None \<Rightarrow> Some (False, st)
           | Some wb \<Rightarrow>
               let bpp = format_bpp (wb_format wb);
                   copy_width = min (ob_width buffer) (wb_width wb);
                   copy_height = min (ob_height buffer) (wb_height wb)
               in map_option (\<lambda>bits. (True, out_emit (WinPost w bits) st))
                    (copy_rows [0..<copy_height] (wb_stride wb * bpp) src_stride (copy_width * bpp)
                       src (wb_bits wb))))"

definition commit_ahb_surface_control :: "bool \<Rightarrow> nat \<Rightarrow> out_server \<Rightarrow> bool \<times> out_server" where
  "commit_ahb_surface_control txn_ok w st =
     (if \<not> out_control st then (False, st)
      else if \<not> txn_ok then (False, st)
      else (True, out_emit (SurfaceTransaction w) st))"

text \<open>The fields of a \<^verbatim>\<open>wlr_output_state\<close> the commit reads.\<close>

record out_state =
  st_mode :: "(int \<times> int) option"
  st_buffer :: "out_buffer option"

text \<open>Zero-copy first, the copy as a fallback, then the presentation event.\<close>

definition present_buffer ::
    "bool \<Rightarrow> win_buffer option \<Rightarrow> nat \<Rightarrow> out_buffer \<Rightarrow> out_server \<Rightarrow> out_server option" where
  "present_buffer txn_ok lock w buffer st =
     (let (presented, st1) = (if ob_ahb buffer then commit_ahb_surface_control txn_ok w st else (False, st))
      in if presented then Some (out_emit (SendPresent True) st1)
         else map_option (\<lambda>(p, st2). out_emit (SendPresent p) st2) (commit_cpu_copy lock buffer w st1))"

definition output_commit ::
    "bool \<Rightarrow> win_buffer option \<Rightarrow> out_state \<Rightarrow> out_server \<Rightarrow> out_server option" where
  "output_commit txn_ok lock s st =
     (case out_window st of
        None \<Rightarrow> Some st
      | Some w \<Rightarrow>
          let st1 = (case st_mode s of None \<Rightarrow> st | Some (mw, mh) \<Rightarrow> out_emit (WinGeometry w mw mh) st);
              st2 = (case st_buffer s of
                       None \<Rightarrow> Some st1 | Some buffer \<Rightarrow> present_buffer txn_ok lock w buffer st1)
          in map_option (out_emit (TimerUpdate (out_frame_delay st))) st2)"

text \<open>
  \<^verbatim>\<open>wlr_output_commit_state\<close>: when wlroots accepts the state it calls the backend's commit, with the
  buffer it may have added; \<open>accept\<close>, \<open>txn_ok\<close> and \<open>lock\<close> are the outcomes of the libraries. The
  output takes over an accepted mode.
\<close>

record out_env =
  oe_accept :: bool
  oe_txn_ok :: bool
  oe_lock :: "win_buffer option"

definition wlr_output_commit_state :: "out_env \<Rightarrow> out_state \<Rightarrow> out_server \<Rightarrow> out_server option" where
  "wlr_output_commit_state env s st =
     (if oe_accept env
      then map_option (\<lambda>st'. case st_mode s of None \<Rightarrow> st' | Some (w, h) \<Rightarrow> st'\<lparr>out_width := w, out_height := h\<rparr>)
             (output_commit (oe_txn_ok env) (oe_lock env) s st)
      else Some st)"

subsection \<open>Attaching and detaching the window\<close>

definition android_output_detach_window :: "out_env \<Rightarrow> out_server \<Rightarrow> out_server option" where
  "android_output_detach_window env st =
     map_option
       (\<lambda>st1.
          let st2 = (if out_control st1 then (out_emit ControlRelease st1)\<lparr>out_control := False\<rparr> else st1)
          in case out_window st2 of
               None \<Rightarrow> st2
             | Some w \<Rightarrow> (out_emit (WinRelease w) st2)\<lparr>out_window := None\<rparr>)
       (wlr_output_commit_state env \<lparr>st_mode = None, st_buffer = None\<rparr> (out_emit (TimerUpdate 0) st))"

text \<open>Enabling the output may commit a first buffer with it.\<close>

definition android_output_attach_window ::
    "out_env \<Rightarrow> bool \<Rightarrow> out_buffer option \<Rightarrow> nat \<Rightarrow> out_server \<Rightarrow> out_server option" where
  "android_output_attach_window env control_ok buffer w st =
     (let st1 = (out_emit (WinAcquire w) st)\<lparr>out_window := Some w\<rparr>;
          st2 = (out_emit (ControlCreate w) st1)\<lparr>out_control := control_ok\<rparr>;
          st3 = out_emit (WinGeometry w (out_width st2) (out_height st2)) st2
      in map_option (\<lambda>st4. out_emit (TimerUpdate (out_frame_delay st4)) st4)
           (wlr_output_commit_state env \<lparr>st_mode = None, st_buffer = buffer\<rparr> st3))"

definition frame_timer_handler :: "out_server \<Rightarrow> out_server" where
  "frame_timer_handler st = out_emit (TimerUpdate (out_frame_delay st)) (out_emit SendFrame st)"

text \<open>The server's frame handler: the scene's commit goes through \<^const>\<open>wlr_output_commit_state\<close>.\<close>

definition on_output_frame :: "out_env \<Rightarrow> out_buffer option \<Rightarrow> out_server \<Rightarrow> out_server option" where
  "on_output_frame env buffer st =
     (if os_paused st then Some st
      else if \<not> os_scene_output st then Some st
      else map_option (out_emit FrameDone)
             (wlr_output_commit_state env \<lparr>st_mode = None, st_buffer = buffer\<rparr> (out_emit SceneCommit st)))"

definition android_output_create :: "bool \<Rightarrow> bool \<Rightarrow> nat \<Rightarrow> int \<Rightarrow> int \<Rightarrow> out_server option" where
  "android_output_create calloc_ok control_ok w width height =
     (if \<not> calloc_ok then None
      else Some \<lparr>out_window = Some w, out_control = control_ok, out_frame_delay = 1000 div 60,
                 out_width = width, out_height = height,
                 out_calls = [WinAcquire w, ControlCreate w, TimerUpdate (1000 div 60)],
                 os_output = False, os_scene_output = False, os_paused = False, os_pending = None,
                 os_pipe = [], os_pipe_open = True\<rparr>)"

text \<open>
  The server's \<^verbatim>\<open>new_output\<close> handler enables the output (no buffer yet: the renderer is not set)
  and records it with its scene output; a state another client of the output requests is committed.
\<close>

definition on_new_output :: "out_env \<Rightarrow> out_server \<Rightarrow> out_server option" where
  "on_new_output env st =
     map_option (\<lambda>st1. st1\<lparr>os_scene_output := True, os_output := True\<rparr>)
       (wlr_output_commit_state env \<lparr>st_mode = None, st_buffer = None\<rparr> st)"

definition on_output_request_state :: "out_env \<Rightarrow> out_state \<Rightarrow> out_server \<Rightarrow> out_server option" where
  "on_output_request_state env s st = wlr_output_commit_state env s st"

definition output_destroy :: "out_server \<Rightarrow> out_server" where
  "output_destroy st =
     (let st1 = (if out_control st then out_emit ControlRelease st else st)
      in case out_window st1 of None \<Rightarrow> st1 | Some w \<Rightarrow> out_emit (WinRelease w) st1)"

subsection \<open>Pause and resume\<close>

definition compositor_server_pause :: "out_server \<Rightarrow> out_server" where
  "compositor_server_pause st =
     (if \<not> os_pipe_open st then st else st\<lparr>os_pipe := os_pipe st @ ''P''\<rparr>)"

definition compositor_server_resume :: "nat option \<Rightarrow> out_server \<Rightarrow> out_server" where
  "compositor_server_resume window st =
     (if \<not> os_pipe_open st then st
      else case window of
        None \<Rightarrow> st
      | Some w \<Rightarrow> (out_emit (WinAcquire w) st)\<lparr>os_pending := Some w, os_pipe := os_pipe st @ ''R''\<rparr>)"

definition on_pause_resume_event ::
    "out_env \<Rightarrow> bool \<Rightarrow> out_buffer option \<Rightarrow> out_server \<Rightarrow> out_server option" where
  "on_pause_resume_event env control_ok buffer st0 =
     (case os_pipe st0 of
        [] \<Rightarrow> Some st0
      | cmd # rest \<Rightarrow>
          let st = st0\<lparr>os_pipe := rest\<rparr>
          in if cmd = CHR ''P''
             then map_option (\<lambda>st1. st1\<lparr>os_paused := True\<rparr>)
                    (if os_output st then android_output_detach_window env st else Some st)
             else if cmd = CHR ''R''
             then
               let st1 = st\<lparr>os_pending := None\<rparr>
               in map_option (\<lambda>st2. st2\<lparr>os_paused := False\<rparr>)
                    (case os_pending st of
                       Some w \<Rightarrow>
                         if os_output st1
                         then map_option (out_emit (WinRelease w))
                                (android_output_attach_window env control_ok buffer w st1)
                         else Some st1
                     | None \<Rightarrow> Some st1)
             else Some st)"

end
