(* ===== verification/OutputProps.thy ===== *)
theory OutputProps
  imports AndroidOutput
begin

text \<open>
  Properties of the output: windows are used only while a reference is held, what overlapping pauses
  and resumes do, the frame timer, the copy into a window.
\<close>

subsection \<open>References to windows\<close>

definition win_refs :: "out_call list \<Rightarrow> nat \<Rightarrow> int" where
  "win_refs cs w = int (count_list cs (WinAcquire w)) - int (count_list cs (WinRelease w))"

text \<open>A call that needs its window alive.\<close>

definition uses_window :: "out_call \<Rightarrow> nat \<Rightarrow> bool" where
  "uses_window c w \<longleftrightarrow> (case c of
      WinRelease v \<Rightarrow> v = w | WinGeometry v _ _ \<Rightarrow> v = w | WinPost v _ \<Rightarrow> v = w
    | SurfaceTransaction v \<Rightarrow> v = w | ControlCreate v \<Rightarrow> v = w | _ \<Rightarrow> False)"

definition calls_owned :: "out_call list \<Rightarrow> bool" where
  "calls_owned cs \<longleftrightarrow> (\<forall>k < length cs. \<forall>w. uses_window (cs ! k) w \<longrightarrow> 0 < win_refs (take k cs) w)"

lemma calls_owned_snoc [simp]:
  "calls_owned (cs @ [c]) \<longleftrightarrow> calls_owned cs \<and> (\<forall>w. uses_window c w \<longrightarrow> 0 < win_refs cs w)"
  by (auto simp: calls_owned_def nth_append less_Suc_eq)

lemma calls_owned_Nil [simp]: "calls_owned []"
  by (simp add: calls_owned_def)

lemma win_refs_snoc [simp]:
  "win_refs (cs @ [c]) w = win_refs cs w + (if c = WinAcquire w then 1 else 0) - (if c = WinRelease w then 1 else 0)"
  by (simp add: win_refs_def)

lemma win_refs_Nil [simp]: "win_refs [] w = 0"
  by (simp add: win_refs_def)

definition holds :: "nat option \<Rightarrow> nat \<Rightarrow> int" where
  "holds v w = (if v = Some w then 1 else 0)"

text \<open>
  At least a reference for the attached window and one for the window handed over.
\<close>

definition owned :: "nat option \<Rightarrow> out_server \<Rightarrow> bool" where
  "owned pending st \<longleftrightarrow> calls_owned (out_calls st) \<and>
     (\<forall>w. holds (out_window st) w + holds pending w \<le> win_refs (out_calls st) w)"

lemma holds_simps [simp]: "0 \<le> holds v w" "holds None w = 0" "holds (Some w) w = 1"
  by (simp_all add: holds_def)

lemma holds_other: "v \<noteq> w \<Longrightarrow> holds (Some v) w = 0"
  by (simp add: holds_def)

lemma ownedD: "owned p st \<Longrightarrow> holds (out_window st) w + holds p w \<le> win_refs (out_calls st) w"
  by (simp add: owned_def)

lemma owned_emit:
  assumes "owned p st" "\<And>w. uses_window c w \<Longrightarrow> out_window st = Some w"
    "\<And>w. c \<noteq> WinAcquire w" "\<And>w. c \<noteq> WinRelease w"
  shows "owned p (out_emit c st)"
proof -
  have "0 < win_refs (out_calls st) w" if "uses_window c w" for w
  proof -
    have "holds (out_window st) w + holds p w \<le> win_refs (out_calls st) w" using assms(1) by (simp add: owned_def)
    then show ?thesis using assms(2) [OF that] by (simp add: holds_def split: if_splits)
  qed
  then show ?thesis using assms by (simp add: owned_def)
qed

lemma owned_cong:
  "\<lbrakk>out_calls st' = out_calls st; out_window st' = out_window st\<rbrakk> \<Longrightarrow> owned p st' = owned p st"
  by (simp add: owned_def)

lemma owned_acquire: "owned None st \<Longrightarrow> owned (Some w) (out_emit (WinAcquire w) st)"
  by (auto simp: owned_def holds_def uses_window_def)

text \<open>What a commit may change: only the trace and the size.\<close>

definition out_frame :: "out_server \<Rightarrow> out_server \<Rightarrow> bool" where
  "out_frame st st' \<longleftrightarrow> out_window st' = out_window st \<and> out_control st' = out_control st \<and>
     out_frame_delay st' = out_frame_delay st \<and> os_output st' = os_output st \<and>
     os_scene_output st' = os_scene_output st \<and> os_paused st' = os_paused st \<and>
     os_pending st' = os_pending st \<and> os_pipe st' = os_pipe st \<and> os_pipe_open st' = os_pipe_open st"

lemma out_frame_emit: "out_frame st st' \<Longrightarrow> out_frame st (out_emit c st')"
  by (simp add: out_frame_def)

text \<open>A call on the attached window, or on none.\<close>

lemma owned_use:
  assumes "owned p st" "out_window st = Some w" "\<And>v. uses_window c v \<Longrightarrow> v = w"
    "\<And>v. c \<noteq> WinAcquire v" "\<And>v. c \<noteq> WinRelease v"
  shows "owned p (out_emit c st)"
  by (rule owned_emit) (use assms in auto)

lemma cpu_copy_owned:
  assumes "owned p st" "out_window st = Some w" "commit_cpu_copy lock buf w st = Some (x, st')"
  shows "owned p st' \<and> out_frame st st'"
proof -
  have "st' = st \<or> (\<exists>bits. st' = out_emit (WinPost w bits) st)"
    using assms(3) by (auto simp: commit_cpu_copy_def Let_def split: option.splits prod.splits)
  then show ?thesis
    using assms(1) owned_use [OF assms(1,2), of "WinPost w _"]
    by (auto simp: uses_window_def out_frame_def)
qed

lemma present_owned:
  assumes "owned p st" "out_window st = Some w" "present_buffer txn_ok lock w buf st = Some st'"
  shows "owned p st' \<and> out_frame st st'"
proof -
  obtain x st1 where st1: "st' = out_emit (SendPresent x) st1" "owned p st1 \<and> out_frame st st1"
  proof (cases "ob_ahb buf \<and> out_control st \<and> txn_ok")
    case True
    then have "st' = out_emit (SendPresent True) (out_emit (SurfaceTransaction w) st)"
      using assms(3) by (simp add: present_buffer_def commit_ahb_surface_control_def)
    moreover have "owned p (out_emit (SurfaceTransaction w) st)"
      by (rule owned_use [OF assms(1,2)]) (simp_all add: uses_window_def)
    ultimately show ?thesis using that by (simp add: out_frame_def)
  next
    case False
    then have "(if ob_ahb buf then commit_ahb_surface_control txn_ok w st else (False, st)) = (False, st)"
      by (simp add: commit_ahb_surface_control_def)
    then obtain x st1 where "commit_cpu_copy lock buf w st = Some (x, st1)" "st' = out_emit (SendPresent x) st1"
      using assms(3) by (auto simp: present_buffer_def)
    then show ?thesis using that cpu_copy_owned [OF assms(1,2)] by blast
  qed
  then have "out_window st1 = Some w" using assms(2) by (simp add: out_frame_def)
  then show ?thesis
    using st1 owned_use [of p st1 w "SendPresent x"] by (simp add: uses_window_def out_frame_emit)
qed

lemma output_commit_owned:
  assumes "owned p st" "output_commit txn_ok lock s st = Some st'"
  shows "owned p st' \<and> out_frame st st'"
proof (cases "out_window st")
  case None
  then show ?thesis using assms by (simp add: output_commit_def out_frame_def)
next
  case (Some w)
  let ?st1 = "case st_mode s of None \<Rightarrow> st | Some (mw, mh) \<Rightarrow> out_emit (WinGeometry w mw mh) st"
  have 1: "owned p ?st1" "out_frame st ?st1" "out_window ?st1 = Some w"
    using Some by (auto simp: out_frame_def assms(1) uses_window_def intro!: owned_use split: option.split)
  obtain st2 where st2: "(case st_buffer s of None \<Rightarrow> Some ?st1 | Some buf \<Rightarrow> present_buffer txn_ok lock w buf ?st1) = Some st2"
    "st' = out_emit (TimerUpdate (out_frame_delay st)) st2"
    using assms(2) Some by (auto simp: output_commit_def Let_def)
  have "owned p st2 \<and> out_frame ?st1 st2"
    using st2(1) 1(1) present_owned [OF 1(1,3), of txn_ok lock _ st2] by (cases "st_buffer s") (simp_all add: out_frame_def)
  then have 2: "owned p st2" "out_frame st st2" using 1(2) by (simp_all add: out_frame_def)
  then have "out_window st2 = Some w" using Some by (simp add: out_frame_def)
  then show ?thesis
    using st2(2) 2 owned_use [OF 2(1), of w "TimerUpdate (out_frame_delay st)"]
    by (simp add: uses_window_def out_frame_emit)
qed

lemma commit_state_owned:
  assumes "owned p st" "wlr_output_commit_state env s st = Some st'"
  shows "owned p st' \<and> out_frame st st'"
proof (cases "oe_accept env")
  case True
  then obtain st1 where st1: "output_commit (oe_txn_ok env) (oe_lock env) s st = Some st1"
    "st' = (case st_mode s of None \<Rightarrow> st1 | Some (w, h) \<Rightarrow> st1\<lparr>out_width := w, out_height := h\<rparr>)"
    using assms(2) by (auto simp: wlr_output_commit_state_def)
  from output_commit_owned [OF assms(1) st1(1)] show ?thesis
    by (auto simp: st1(2) owned_def out_frame_def split: option.split)
qed (use assms in \<open>simp add: wlr_output_commit_state_def out_frame_def\<close>)

subsection \<open>Histories of the window\<close>

lemma owned_release:
  assumes "calls_owned (out_calls st)" "0 < win_refs (out_calls st) w"
    "\<And>v. holds p v \<le> win_refs (out_calls st) v - (if v = w then 1 else 0)"
  shows "owned p ((out_emit (WinRelease w) st)\<lparr>out_window := None\<rparr>)"
proof -
  have "holds p v \<le> win_refs (out_calls st @ [WinRelease w]) v" for v
    using assms(3) [of v] by (cases "v = w") simp_all
  then show ?thesis using assms(1,2) by (simp add: owned_def uses_window_def)
qed

lemma detach_owned:
  assumes "owned p st" "android_output_detach_window env st = Some st'"
  shows "owned p st' \<and> os_pending st' = os_pending st"
proof -
  obtain st1 where st1: "wlr_output_commit_state env \<lparr>st_mode = None, st_buffer = None\<rparr> (out_emit (TimerUpdate 0) st) = Some st1"
    "st' = (let st2 = (if out_control st1 then (out_emit ControlRelease st1)\<lparr>out_control := False\<rparr> else st1)
        in case out_window st2 of None \<Rightarrow> st2 | Some w \<Rightarrow> (out_emit (WinRelease w) st2)\<lparr>out_window := None\<rparr>)"
    using assms(2) by (auto simp: android_output_detach_window_def)
  have "owned p (out_emit (TimerUpdate 0) st)"
    by (rule owned_emit [OF assms(1)]) (simp_all add: uses_window_def)
  from commit_state_owned [OF this st1(1)] have 1: "owned p st1" "os_pending st1 = os_pending st"
    by (simp_all add: out_frame_def)
  let ?s2 = "if out_control st1 then (out_emit ControlRelease st1)\<lparr>out_control := False\<rparr> else st1"
  have "owned p (out_emit ControlRelease st1)" by (rule owned_emit [OF 1(1)]) (simp_all add: uses_window_def)
  then have 2: "owned p ?s2" "os_pending ?s2 = os_pending st"
    using 1 by (simp_all add: owned_def)
  have "owned p ((out_emit (WinRelease w) s)\<lparr>out_window := None\<rparr>)"
    if s: "owned p s" "out_window s = Some w" for s w
  proof -
    have "holds p v \<le> win_refs (out_calls s) v - (if v = w then 1 else 0)" for v
      using ownedD [OF s(1), of v] s(2) holds_other [of w v] by (cases "v = w") auto
    moreover have "0 < win_refs (out_calls s) w"
    proof -
      have "1 + holds p w \<le> win_refs (out_calls s) w" "0 \<le> holds p w"
        using ownedD [OF s(1), of w] s(2) by simp_all
      then show ?thesis by linarith
    qed
    ultimately show ?thesis by (intro owned_release) (use s(1) in \<open>simp_all add: owned_def\<close>)
  qed
  with 2 show ?thesis unfolding st1(2) Let_def by (cases "out_window ?s2") simp_all
qed

lemma owned_handed_back:
  assumes "owned (Some w) st"
  shows "owned None (out_emit (WinRelease w) st)"
proof -
  have "holds (out_window st) v \<le> win_refs (out_calls st) v - (if v = w then 1 else 0)" for v
    using ownedD [OF assms, of v] holds_other [of w v] by (cases "v = w") auto
  moreover have "0 < win_refs (out_calls st) w"
  proof -
    have "holds (out_window st) w + 1 \<le> win_refs (out_calls st) w" "0 \<le> holds (out_window st) w"
      using ownedD [OF assms, of w] by simp_all
    then show ?thesis by linarith
  qed
  ultimately have "owned (out_window st) ((out_emit (WinRelease w) st)\<lparr>out_window := None\<rparr>)"
    by (intro owned_release) (use assms in \<open>simp_all add: owned_def\<close>)
  then show ?thesis by (simp add: owned_def)
qed

lemma attach_owned:
  assumes "owned (Some w) st" "android_output_attach_window env control_ok buffer w st = Some st'"
  shows "owned None (out_emit (WinRelease w) st') \<and> os_pending st' = os_pending st"
proof -
  define p where "p = Some w"
  let ?s1 = "(out_emit (WinAcquire w) st)\<lparr>out_window := Some w\<rparr>"
  have h: "holds (Some w) v + holds p v \<le> win_refs (out_calls (out_emit (WinAcquire w) st)) v" for v
  proof -
    have "holds (out_window st) v + holds p v \<le> win_refs (out_calls st) v"
      using assms(1) by (simp add: owned_def p_def)
    moreover have "0 \<le> holds (out_window st) v" by (simp add: holds_def)
    ultimately show ?thesis by (simp add: holds_def p_def)
  qed
  have 1: "owned p ?s1" using assms(1) h by (simp add: owned_def uses_window_def)
  let ?s2 = "(out_emit (ControlCreate w) ?s1)\<lparr>out_control := control_ok\<rparr>"
  have "owned p (out_emit (ControlCreate w) ?s1)"
    by (rule owned_use [OF 1, of w]) (simp_all add: uses_window_def)
  then have 2: "owned p ?s2" by (simp add: owned_def)
  let ?s3 = "out_emit (WinGeometry w (out_width ?s2) (out_height ?s2)) ?s2"
  have 3: "owned p ?s3" by (rule owned_use [OF 2, of w]) (simp_all add: uses_window_def)
  obtain s4 where s4: "wlr_output_commit_state env \<lparr>st_mode = None, st_buffer = buffer\<rparr> ?s3 = Some s4"
    "st' = out_emit (TimerUpdate (out_frame_delay s4)) s4"
    using assms(2) by (auto simp: android_output_attach_window_def Let_def)
  from commit_state_owned [OF 3 s4(1)] have 4: "owned p s4" "out_window s4 = Some w" "os_pending s4 = os_pending st"
    by (simp_all add: out_frame_def)
  then have "owned p st'" unfolding s4(2) by (intro owned_use [of _ _ w]) (simp_all add: uses_window_def)
  then have "owned None (out_emit (WinRelease w) st')" unfolding p_def by (rule owned_handed_back)
  then show ?thesis using 4(3) by (simp add: s4(2))
qed

inductive win_reachable :: "out_server \<Rightarrow> bool" where
  create: "android_output_create True control_ok w width height = Some st \<Longrightarrow> win_reachable st"
| new_output: "\<lbrakk>win_reachable st; on_new_output env st = Some st'\<rbrakk> \<Longrightarrow> win_reachable st'"
| request: "\<lbrakk>win_reachable st; on_output_request_state env s st = Some st'\<rbrakk> \<Longrightarrow> win_reachable st'"
| timer: "win_reachable st \<Longrightarrow> win_reachable (frame_timer_handler st)"
| frame: "\<lbrakk>win_reachable st; on_output_frame env buf st = Some st'\<rbrakk> \<Longrightarrow> win_reachable st'"
| pause: "win_reachable st \<Longrightarrow> win_reachable (compositor_server_pause st)"
| resume: "win_reachable st \<Longrightarrow> win_reachable (compositor_server_resume window st)"
| event: "\<lbrakk>win_reachable st; on_pause_resume_event env control_ok buf st = Some st'\<rbrakk> \<Longrightarrow> win_reachable st'"

lemma owned_weaken:
  assumes "owned p st"
  shows "owned None st"
proof -
  have "holds (out_window st) w \<le> win_refs (out_calls st) w" for w
  proof -
    have "0 \<le> holds p w" by simp
    with ownedD [OF assms, of w] show ?thesis by linarith
  qed
  then show ?thesis using assms by (simp add: owned_def)
qed

lemma event_owned:
  assumes "owned (os_pending st) st" "on_pause_resume_event env control_ok buf st = Some st'"
  shows "owned (os_pending st') st'"
proof (cases "os_pipe st")
  case Nil
  then show ?thesis using assms by (simp add: on_pause_resume_event_def)
next
  case (Cons cmd rest)
  let ?s = "st\<lparr>os_pipe := rest\<rparr>"
  have s: "owned (os_pending st) ?s" using assms(1) by (simp add: owned_def)
  consider "cmd = CHR ''P''" | "cmd = CHR ''R''" | "cmd \<noteq> CHR ''P''" "cmd \<noteq> CHR ''R''" by blast
  then show ?thesis
  proof cases
    case 1
    then obtain s1 where "(if os_output ?s then android_output_detach_window env ?s else Some ?s) = Some s1"
      "st' = s1\<lparr>os_paused := True\<rparr>"
      using assms(2) Cons by (auto simp: on_pause_resume_event_def Let_def)
    then show ?thesis using s detach_owned [OF s, of env] by (auto simp: owned_def split: if_splits)
  next
    case 2
    show ?thesis
    proof (cases "os_pending st")
      case None
      then show ?thesis using assms(2) Cons 2 s by (auto simp: on_pause_resume_event_def Let_def owned_def)
    next
      case (Some w)
      let ?s1 = "?s\<lparr>os_pending := None\<rparr>"
      have s1: "owned (Some w) ?s1" using s Some by (simp add: owned_def)
      show ?thesis
      proof (cases "os_output st")
        case True
        then obtain s2 where "android_output_attach_window env control_ok buf w ?s1 = Some s2"
          "st' = (out_emit (WinRelease w) s2)\<lparr>os_paused := False\<rparr>"
          using assms(2) Cons 2 Some by (auto simp: on_pause_resume_event_def Let_def)
        then show ?thesis using attach_owned [OF s1, of env control_ok buf s2] by (simp add: owned_def)
      next
        case False
        then have "st' = ?s1\<lparr>os_paused := False\<rparr>"
          using assms(2) Cons 2 Some by (auto simp: on_pause_resume_event_def Let_def)
        then show ?thesis using owned_weaken [OF s1] by (simp add: owned_def)
      qed
    qed
  next
    case 3
    then have "st' = ?s" using assms(2) Cons by (simp add: on_pause_resume_event_def)
    then show ?thesis using s by simp
  qed
qed

lemma win_reachable_owned: "win_reachable st \<Longrightarrow> owned (os_pending st) st"
proof (induction rule: win_reachable.induct)
  case (create control_ok w width height st)
  have "calls_owned ((([] @ [WinAcquire w]) @ [ControlCreate w]) @ [TimerUpdate 16])"
    unfolding calls_owned_snoc by (simp add: uses_window_def win_refs_def)
  moreover have "win_refs [WinAcquire w, ControlCreate w, TimerUpdate 16] v = holds (Some w) v" for v
    by (auto simp: win_refs_def holds_def)
  ultimately show ?case using create by (auto simp: android_output_create_def owned_def)
next
  case (new_output st env st')
  then obtain s1 where s1: "wlr_output_commit_state env \<lparr>st_mode = None, st_buffer = None\<rparr> st = Some s1"
    "st' = s1\<lparr>os_scene_output := True, os_output := True\<rparr>" by (auto simp: on_new_output_def)
  from commit_state_owned [OF new_output.IH s1(1)]
  have "owned (os_pending st) s1" "os_pending s1 = os_pending st" by (simp_all add: out_frame_def)
  then show ?case by (simp add: s1(2) owned_def)
next
  case (request st env s st')
  then show ?case
    using commit_state_owned [OF request.IH, of env s st'] by (simp add: on_output_request_state_def out_frame_def)
next
  case (timer st)
  have "owned (os_pending st) (out_emit SendFrame st)"
    by (rule owned_emit [OF timer.IH]) (simp_all add: uses_window_def)
  then have "owned (os_pending st) (out_emit (TimerUpdate d) (out_emit SendFrame st))" for d
    by (rule owned_emit) (simp_all add: uses_window_def)
  then show ?case by (simp add: frame_timer_handler_def)
next
  case (frame st env buf st')
  show ?case
  proof (cases "os_paused st \<or> \<not> os_scene_output st")
    case True
    then show ?thesis using frame by (auto simp: on_output_frame_def split: if_splits)
  next
    case False
    then obtain s1 where s1: "wlr_output_commit_state env \<lparr>st_mode = None, st_buffer = buf\<rparr> (out_emit SceneCommit st) = Some s1"
      "st' = out_emit FrameDone s1" using frame(2) by (auto simp: on_output_frame_def)
    have "owned (os_pending st) (out_emit SceneCommit st)"
      by (rule owned_emit [OF frame.IH]) (simp_all add: uses_window_def)
    from commit_state_owned [OF this s1(1)] have o: "owned (os_pending st) s1" "os_pending s1 = os_pending st"
      by (simp_all add: out_frame_def)
    have "owned (os_pending st) (out_emit FrameDone s1)" by (rule owned_emit [OF o(1)]) (simp_all add: uses_window_def)
    then show ?thesis by (simp add: s1(2) o(2))
  qed
next
  case (pause st)
  then show ?case by (simp add: compositor_server_pause_def owned_def)
next
  case (resume st window)
  show ?case
  proof (cases "os_pipe_open st \<and> window \<noteq> None")
    case True
    then obtain w where "window = Some w" by blast
    then show ?thesis
      using True owned_acquire [OF owned_weaken [OF resume.IH], of w]
      by (simp add: compositor_server_resume_def owned_def)
  qed (use resume.IH in \<open>auto simp: compositor_server_resume_def split: option.split\<close>)
next
  case (event st env control_ok buf st')
  then show ?case using event_owned by blast
qed

text \<open>
  C25: Whatever the order in which the UI thread pauses and resumes and the compositor thread reads the
  pipe, draws frames, runs its timer and commits modes: every call on a window (geometry, post,
  transaction, surface control, release) is made while the compositor holds a reference to it; the
  attached window and the window handed over are referenced; and destroying the output releases only
  what is held.
\<close>

theorem windows_used_while_owned:
  assumes "win_reachable st"
  shows "(\<forall>k < length (out_calls (output_destroy st)). \<forall>w.
      uses_window (out_calls (output_destroy st) ! k) w \<longrightarrow> 0 < win_refs (take k (out_calls (output_destroy st))) w) \<and>
    (\<forall>w. out_window st = Some w \<or> os_pending st = Some w \<longrightarrow> 0 < win_refs (out_calls st) w)"
proof -
  have o: "owned (os_pending st) st" using win_reachable_owned [OF assms] .
  let ?s = "if out_control st then out_emit ControlRelease st else st"
  have "owned (os_pending st) (out_emit ControlRelease st)"
    by (rule owned_emit [OF o]) (simp_all add: uses_window_def)
  then have s: "owned (os_pending st) ?s" "out_window ?s = out_window st" using o by simp_all
  have held: "0 < win_refs (out_calls s) w"
    if "owned p s" "out_window s = Some w \<or> p = Some w" for p s w
  proof -
    have "0 \<le> holds p w" "0 \<le> holds (out_window s) w" by simp_all
    then show ?thesis using ownedD [OF that(1), of w] that(2) by (auto simp: holds_def split: if_splits)
  qed
  have "calls_owned (out_calls (output_destroy st))"
  proof (cases "out_window st")
    case None
    then show ?thesis using s by (simp add: output_destroy_def Let_def owned_def)
  next
    case (Some w)
    have "calls_owned (out_calls ?s @ [WinRelease w])"
      using s held [OF s(1), of w] Some by (simp add: owned_def uses_window_def)
    then show ?thesis using Some s(2) by (simp add: output_destroy_def Let_def)
  qed
  then show ?thesis using held [OF o] unfolding calls_owned_def by blast
qed

definition output_demo :: out_server where
  "output_demo = the (android_output_create True True 3 1080 2400)"

lemma output_demo_reachable: "win_reachable output_demo"
  by (rule win_reachable.create) (simp add: output_demo_def android_output_create_def)

theorem windows_used_while_owned_witness:
  "0 < win_refs (out_calls (compositor_server_resume (Some 4) output_demo)) 4"
  using windows_used_while_owned [OF win_reachable.resume [OF output_demo_reachable, of "Some 4"]]
  by (simp add: compositor_server_resume_def output_demo_def android_output_create_def)

subsection \<open>Overlapping resumes\<close>

lemma commit_no_buffer:
  "wlr_output_commit_state env \<lparr>st_mode = None, st_buffer = None\<rparr> st =
     Some (if oe_accept env \<and> out_window st \<noteq> None then out_emit (TimerUpdate (out_frame_delay st)) st else st)"
  by (auto simp: wlr_output_commit_state_def output_commit_def split: option.split)

text \<open>
  From a paused output: a resume with one window that is overtaken by a pause and a resume with
  another, before the compositor thread reads the pipe, ends unpaused with no window attached and
  nothing pending, although the last thing asked for was a resume; and the reference taken for the
  first window is never given back.
\<close>

theorem overtaken_resume_loses_window:
  assumes "os_paused st" "out_window st = None" "os_pipe st = []" "os_pipe_open st" "os_output st"
    and "\<not> out_control st" "w1 \<noteq> w2"
  shows "\<exists>st'. Option.bind (Option.bind (on_pause_resume_event env c None
        (compositor_server_resume (Some w2) (compositor_server_pause (compositor_server_resume (Some w1) st))))
        (on_pause_resume_event env c None)) (on_pause_resume_event env c None) = Some st' \<and>
    \<not> os_paused st' \<and> out_window st' = None \<and> os_pending st' = None \<and> os_pipe st' = [] \<and>
    win_refs (out_calls st') w1 = win_refs (out_calls st) w1 + 1 \<and>
    win_refs (out_calls st') w2 = win_refs (out_calls st) w2"
  using assms
  by (cases c; cases "oe_accept env")
    (simp_all add: compositor_server_resume_def compositor_server_pause_def on_pause_resume_event_def
      android_output_attach_window_def android_output_detach_window_def commit_no_buffer Let_def win_refs_def)

definition out_env_demo :: out_env where
  "out_env_demo = \<lparr>oe_accept = True, oe_txn_ok = True, oe_lock = None\<rparr>"

definition output_paused :: out_server where
  "output_paused = output_demo\<lparr>out_window := None, out_control := False, os_output := True, os_paused := True\<rparr>"

theorem overtaken_resume_loses_window_witness:
  "\<exists>st'. Option.bind (Option.bind (on_pause_resume_event out_env_demo True None
      (compositor_server_resume (Some 5) (compositor_server_pause (compositor_server_resume (Some 4) output_paused))))
      (on_pause_resume_event out_env_demo True None)) (on_pause_resume_event out_env_demo True None) = Some st' \<and>
    \<not> os_paused st' \<and> out_window st' = None \<and> win_refs (out_calls st') 4 = 1"
  using overtaken_resume_loses_window [of output_paused 4 5 out_env_demo True]
  by (auto simp: output_paused_def output_demo_def android_output_create_def win_refs_def)

text \<open>
  A resume of an output that was not paused: attaching overwrites the window and its surface control
  without giving either back. The window that was attached keeps its reference for good, even over the
  destruction of the output, and one surface control more is created than is released.
\<close>

theorem resume_without_pause_leaks:
  assumes "out_window st = Some w0" "out_control st" "os_pipe st = []" "os_pipe_open st" "os_output st" "w0 \<noteq> w1"
  shows "\<exists>st'. on_pause_resume_event env True None (compositor_server_resume (Some w1) st) = Some st' \<and>
    out_window st' = Some w1 \<and>
    win_refs (out_calls (output_destroy st')) w0 = win_refs (out_calls st) w0 \<and>
    win_refs (out_calls (output_destroy st')) w1 = win_refs (out_calls st) w1 \<and>
    count_list (out_calls (output_destroy st')) ControlRelease = count_list (out_calls st) ControlRelease + 1 \<and>
    count_list (out_calls (output_destroy st')) (ControlCreate w1) = count_list (out_calls st) (ControlCreate w1) + 1"
  using assms
  by (cases "oe_accept env")
    (simp_all add: compositor_server_resume_def on_pause_resume_event_def android_output_attach_window_def
      commit_no_buffer output_destroy_def Let_def win_refs_def)

theorem resume_without_pause_leaks_witness:
  "\<exists>st'. on_pause_resume_event out_env_demo True None (compositor_server_resume (Some 4) (output_demo\<lparr>os_output := True\<rparr>)) = Some st' \<and>
     win_refs (out_calls (output_destroy st')) 3 = 1"
  using resume_without_pause_leaks [of "output_demo\<lparr>os_output := True\<rparr>" 3 4 out_env_demo]
  by (auto simp: output_demo_def android_output_create_def win_refs_def)

subsection \<open>The frame timer\<close>

definition timer_of :: "out_call list \<Rightarrow> int" where
  "timer_of cs = fold (\<lambda>c d. case c of TimerUpdate t \<Rightarrow> t | _ \<Rightarrow> d) cs 0"

lemma timer_of_snoc [simp]: "timer_of (cs @ [c]) = (case c of TimerUpdate t \<Rightarrow> t | _ \<Rightarrow> timer_of cs)"
  by (cases c; simp add: timer_of_def)

text \<open>
  Pausing detaches the window but does not stop the frame timer: it is disarmed first, and then the
  commit that disables the output, which still has its window, arms it again. From then on every tick
  arms the next one, while no frame is drawn.
\<close>

theorem pause_leaves_timer_running:
  assumes "out_window st = Some w" "oe_accept env" "os_output st" "os_pipe st = CHR ''P'' # rest"
    and "0 < out_frame_delay st"
  shows "\<exists>st'. on_pause_resume_event env c buf st = Some st' \<and> os_paused st' \<and> out_window st' = None \<and>
    timer_of (out_calls st') = out_frame_delay st \<and>
    timer_of (out_calls (frame_timer_handler st')) = out_frame_delay st \<and>
    on_output_frame env2 buf2 st' = Some st'"
  using assms
  by (cases "out_control st")
    (simp_all add: on_pause_resume_event_def android_output_detach_window_def commit_no_buffer Let_def
      frame_timer_handler_def on_output_frame_def timer_of_def)

theorem pause_leaves_timer_running_witness:
  "\<exists>st'. on_pause_resume_event out_env_demo True None (output_demo\<lparr>os_output := True, os_pipe := ''P''\<rparr>) = Some st' \<and>
     timer_of (out_calls st') = 16"
  using pause_leaves_timer_running [of "output_demo\<lparr>os_output := True, os_pipe := ''P''\<rparr>" 3 out_env_demo "[]" True None]
  by (auto simp: output_demo_def android_output_create_def out_env_demo_def)

subsection \<open>The copy into a window\<close>

lemma copy_row_nth:
  assumes "d + n \<le> length dst" "s + n \<le> length src"
  shows "\<exists>out. copy_row d s n src dst = Some out \<and> length out = length dst \<and>
    (\<forall>i < length dst. out ! i = (if d \<le> i \<and> i < d + n then src ! (s + (i - d)) else dst ! i))"
proof -
  let ?out = "take d dst @ take n (drop s src) @ drop (d + n) dst"
  have "?out ! i = (if d \<le> i \<and> i < d + n then src ! (s + (i - d)) else dst ! i)" if "i < length dst" for i
  proof -
    have l: "length (take d dst) = d" "length (take n (drop s src)) = n" using assms by auto
    show ?thesis using that assms l by (auto simp: nth_append)
  qed
  then show ?thesis using assms by (simp add: copy_row_def)
qed

lemma copy_rows_snoc:
  "copy_rows (ys @ [y]) ds ss n src dst =
     (case copy_rows ys ds ss n src dst of None \<Rightarrow> None | Some d \<Rightarrow> copy_row (y * ds) (y * ss) n src d)"
  by (induction ys arbitrary: dst) (auto split: option.split)

lemma row_index:
  assumes "n \<le> ds" "0 < ds"
  shows "k * ds \<le> i \<and> i < k * ds + n \<longleftrightarrow> i div ds = k \<and> i mod ds < (n::nat)"
proof
  assume i: "k * ds \<le> i \<and> i < k * ds + n"
  then have "i - k * ds < ds" using assms by linarith
  moreover have "i = (i - k * ds) + k * ds" using i by simp
  ultimately show "i div ds = k \<and> i mod ds < n"
    using i by (metis add.commute add_less_cancel_left div_less div_mult_self3 mod_less mod_mult_self1 plus_nat.add_0
        less_nat_zero_code not_gr_zero)
next
  assume "i div ds = k \<and> i mod ds < n"
  then show "k * ds \<le> i \<and> i < k * ds + n"
    using div_mult_mod_eq [of i ds] by (metis le_add1 nat_add_left_cancel_less)
qed

lemma copy_rows_spec:
  assumes "n \<le> ds" "0 < ds" "\<forall>y < k. y * ds + n \<le> length dst \<and> y * ss + n \<le> length src"
  shows "\<exists>out. copy_rows [0..<k] ds ss n src dst = Some out \<and> length out = length dst \<and>
    (\<forall>i < length dst. out ! i =
       (if i div ds < k \<and> i mod ds < n then src ! (i div ds * ss + i mod ds) else dst ! i))"
  using assms(3)
proof (induction k)
  case (Suc k)
  then obtain out where out: "copy_rows [0..<k] ds ss n src dst = Some out" "length out = length dst"
    "\<forall>i < length dst. out ! i =
       (if i div ds < k \<and> i mod ds < n then src ! (i div ds * ss + i mod ds) else dst ! i)" by auto
  have b: "k * ds + n \<le> length out" "k * ss + n \<le> length src" using Suc.prems out(2) by simp_all
  obtain out2 where out2: "copy_row (k * ds) (k * ss) n src out = Some out2" "length out2 = length out"
    "\<forall>i < length out. out2 ! i =
       (if k * ds \<le> i \<and> i < k * ds + n then src ! (k * ss + (i - k * ds)) else out ! i)"
    using copy_row_nth [OF b] by blast
  have "out2 ! i = (if i div ds < Suc k \<and> i mod ds < n then src ! (i div ds * ss + i mod ds) else dst ! i)"
    if i: "i < length dst" for i
  proof (cases "i div ds = k \<and> i mod ds < n")
    case True
    then have "i - k * ds = i mod ds" by (metis minus_div_mult_eq_mod)
    then show ?thesis
      using True out2(3) i out(2) row_index [OF assms(1,2), of k i] by simp
  next
    case False
    then show ?thesis
      using out2(3) out(2,3) i row_index [OF assms(1,2), of k i] by (auto simp: less_Suc_eq)
  qed
  then show ?case using out out2 copy_rows_snoc [of "[0..<k]" k] by simp
qed simp

text \<open>The rows of the common rectangle lie inside both blocks.\<close>

lemma rows_fit:
  assumes "ds = wb_stride wb * format_bpp (wb_format wb)" "n = min (ob_width buffer) (wb_width wb) * format_bpp (wb_format wb)"
    and "wb_width wb \<le> wb_stride wb" "0 < wb_stride wb" "n \<le> src_stride"
    and "ob_height buffer * src_stride \<le> length src" "wb_height wb * ds \<le> length (wb_bits wb)"
  shows "n \<le> ds" "0 < ds"
    "\<forall>y < min (ob_height buffer) (wb_height wb). y * ds + n \<le> length (wb_bits wb) \<and> y * src_stride + n \<le> length src"
proof -
  have "0 < format_bpp (wb_format wb)" by (simp add: format_bpp_def)
  then show nds: "n \<le> ds" "0 < ds" using assms(1-4) by (simp_all add: min.coboundedI2)
  show "\<forall>y < min (ob_height buffer) (wb_height wb). y * ds + n \<le> length (wb_bits wb) \<and> y * src_stride + n \<le> length src"
  proof (intro allI impI)
    fix y assume y: "y < min (ob_height buffer) (wb_height wb)"
    have "Suc y * ds \<le> wb_height wb * ds" "Suc y * src_stride \<le> ob_height buffer * src_stride"
      using y by (simp_all only: mult_le_mono1 Suc_leI min_less_iff_conj)
    then show "y * ds + n \<le> length (wb_bits wb) \<and> y * src_stride + n \<le> length src"
      using assms(5-7) nds by simp
  qed
qed

text \<open>
  C26: The copy into a locked window: when both pixel blocks are as large as their strides say and a
  source row holds the copied pixels at the window's depth, every access is inside the blocks, and the
  window receives exactly the common rectangle of the two, row for row, its other bytes (the stride
  padding and what lies outside the rectangle) unchanged; then it is posted once.
\<close>

theorem cpu_copy_spec:
  assumes "ob_data buffer = Some (src, src_stride)"
    and "ds = wb_stride wb * format_bpp (wb_format wb)" "n = min (ob_width buffer) (wb_width wb) * format_bpp (wb_format wb)"
    and "wb_width wb \<le> wb_stride wb" "0 < wb_stride wb" "n \<le> src_stride"
    and "ob_height buffer * src_stride \<le> length src" "wb_height wb * ds \<le> length (wb_bits wb)"
  shows "\<exists>bits. commit_cpu_copy (Some wb) buffer w st = Some (True, st\<lparr>out_calls := out_calls st @ [WinPost w bits]\<rparr>) \<and>
    length bits = length (wb_bits wb) \<and>
    (\<forall>i < length bits. bits ! i =
       (if i div ds < min (ob_height buffer) (wb_height wb) \<and> i mod ds < n
        then src ! (i div ds * src_stride + i mod ds) else wb_bits wb ! i))"
proof -
  let ?k = "min (ob_height buffer) (wb_height wb)"
  note fit = rows_fit [OF assms(2-)]
  from copy_rows_spec [OF fit] obtain out where
    "copy_rows [0..<?k] ds src_stride n src (wb_bits wb) = Some out" "length out = length (wb_bits wb)"
    "\<forall>i < length (wb_bits wb). out ! i =
       (if i div ds < ?k \<and> i mod ds < n then src ! (i div ds * src_stride + i mod ds) else wb_bits wb ! i)" by blast
  moreover have "commit_cpu_copy (Some wb) buffer w st =
      map_option (\<lambda>bits. (True, st\<lparr>out_calls := out_calls st @ [WinPost w bits]\<rparr>))
        (copy_rows [0..<?k] ds src_stride n src (wb_bits wb))"
    by (simp add: commit_cpu_copy_def assms(1-3) Let_def out_emit_def)
  ultimately show ?thesis by (intro exI [of _ out]) simp
qed

theorem cpu_copy_spec_witness:
  "\<exists>bits. commit_cpu_copy (Some \<lparr>wb_width = 1, wb_height = 2, wb_stride = 2, wb_format = 4, wb_bits = [9, 9, 9, 9, 9, 9, 9, 9]\<rparr>)
     \<lparr>ob_ahb = False, ob_width = 1, ob_height = 1, ob_data = Some ([5, 6], 2)\<rparr> 3 output_demo =
     Some (True, output_demo\<lparr>out_calls := out_calls output_demo @ [WinPost 3 bits]\<rparr>) \<and> length bits = 8 \<and> bits ! 1 = 6"
proof -
  let ?wb = "\<lparr>wb_width = 1, wb_height = 2, wb_stride = 2, wb_format = 4, wb_bits = [9, 9, 9, 9, 9, 9, 9, 9]\<rparr> :: win_buffer"
  let ?b = "\<lparr>ob_ahb = False, ob_width = 1, ob_height = 1, ob_data = Some ([5, 6], 2)\<rparr> :: out_buffer"
  obtain bits where bits: "commit_cpu_copy (Some ?wb) ?b 3 output_demo =
      Some (True, output_demo\<lparr>out_calls := out_calls output_demo @ [WinPost 3 bits]\<rparr>)"
    "length bits = length (wb_bits ?wb)"
    "\<forall>i < length bits. bits ! i = (if i div 4 < min (ob_height ?b) (wb_height ?wb) \<and> i mod 4 < 2
        then [5, 6] ! (i div 4 * 2 + i mod 4) else wb_bits ?wb ! i)"
    using cpu_copy_spec [of ?b "[5, 6]" 2 4 ?wb 2 3 output_demo] by (auto simp: format_bpp_def)
  have "bits ! 1 = 6" using bits(2) bits(3) [rule_format, of 1] by simp
  with bits(1,2) show ?thesis by (intro exI [of _ bits]) simp
qed

end
