(* ===== verification/AhbRegistry.thy ===== *)
theory AhbRegistry
  imports Prelude "HOL-Library.Multiset"
begin

text \<open>
  \<^verbatim>\<open>compositor/native/src/ahb_registry.c\<close>: the fixed-capacity array from dma-buf inode to
  \<^verbatim>\<open>AHardwareBuffer\<close>, with the reference counting of the buffers it holds. Every function is one
  critical section of the mutex. The table is stated as a finite map in the locale \<open>inode_map\<close>,
  which the array interprets; the receiver's message loop is proved against the locale.
\<close>

subsection \<open>Buffers\<close>

text \<open>
  A buffer is an identity with a reference count; a count of 0 is a freed buffer. Acquiring or
  releasing a freed buffer is recorded in \<open>rg_fault\<close>. The array is the list of its first
  \<^verbatim>\<open>count\<close> entries.
\<close>

record registry =
  rg_entries :: "(u64 \<times> nat) list"
  rg_refs :: "nat \<Rightarrow> nat"
  rg_fault :: bool

definition AHB_REGISTRY_MAX :: nat where
  "AHB_REGISTRY_MAX = 256"

definition ahb_acquire :: "nat \<Rightarrow> registry \<Rightarrow> registry" where
  "ahb_acquire b r =
     (if rg_refs r b = 0 then r\<lparr>rg_fault := True\<rparr>
      else r\<lparr>rg_refs := (rg_refs r)(b := rg_refs r b + 1)\<rparr>)"

definition ahb_release :: "nat \<Rightarrow> registry \<Rightarrow> registry" where
  "ahb_release b r =
     (if rg_refs r b = 0 then r\<lparr>rg_fault := True\<rparr>
      else r\<lparr>rg_refs := (rg_refs r)(b := rg_refs r b - 1)\<rparr>)"

subsection \<open>Operations\<close>

definition find_inode :: "u64 \<Rightarrow> registry \<Rightarrow> nat option" where
  "find_inode inode r = first_index (\<lambda>e. fst e = inode) (rg_entries r)"

definition ahb_registry_register :: "u64 \<Rightarrow> nat \<Rightarrow> registry \<Rightarrow> registry" where
  "ahb_registry_register inode ahb r =
     (case find_inode inode r of
        Some i \<Rightarrow>
          let r1 = ahb_release (snd (rg_entries r ! i)) r;
              r2 = ahb_acquire ahb r1
          in r2\<lparr>rg_entries := (rg_entries r2)[i := (inode, ahb)]\<rparr>
      | None \<Rightarrow>
          if length (rg_entries r) \<ge> AHB_REGISTRY_MAX then r
          else
            let r1 = ahb_acquire ahb r
            in r1\<lparr>rg_entries := rg_entries r1 @ [(inode, ahb)]\<rparr>)"

definition ahb_registry_unregister :: "u64 \<Rightarrow> registry \<Rightarrow> registry" where
  "ahb_registry_unregister inode r =
     (case find_inode inode r of
        Some i \<Rightarrow>
          let r1 = ahb_release (snd (rg_entries r ! i)) r;
              es = rg_entries r1
          in r1\<lparr>rg_entries := butlast (es[i := last es])\<rparr>
      | None \<Rightarrow> r)"

definition ahb_registry_lookup :: "u64 \<Rightarrow> registry \<Rightarrow> nat option \<times> registry" where
  "ahb_registry_lookup inode r =
     (case find_inode inode r of
        Some i \<Rightarrow> (Some (snd (rg_entries r ! i)), ahb_acquire (snd (rg_entries r ! i)) r)
      | None \<Rightarrow> (None, r))"

definition ahb_registry_destroy :: "registry \<Rightarrow> registry" where
  "ahb_registry_destroy r = (fold (\<lambda>e. ahb_release (snd e)) (rg_entries r) r)\<lparr>rg_entries := []\<rparr>"

subsection \<open>The table as a bounded map\<close>

datatype map_op = Put u64 nat | Del u64

text \<open>What a put or a delete means for the map: a new key is refused when the map is full.\<close>

fun map_spec :: "nat \<Rightarrow> map_op \<Rightarrow> (u64 \<rightharpoonup> nat) \<Rightarrow> (u64 \<rightharpoonup> nat)" where
  "map_spec cap (Put k v) m = (if k \<in> dom m \<or> card (dom m) < cap then m(k \<mapsto> v) else m)"
| "map_spec cap (Del k) m = m(k := None)"

fun map_apply :: "(u64 \<Rightarrow> nat \<Rightarrow> 't \<Rightarrow> 't) \<Rightarrow> (u64 \<Rightarrow> 't \<Rightarrow> 't) \<Rightarrow> map_op \<Rightarrow> 't \<Rightarrow> 't" where
  "map_apply put del (Put k v) t = put k v t"
| "map_apply put del (Del k) t = del k t"

locale inode_map =
  fixes tinv :: "'t \<Rightarrow> bool"
    and tmap :: "'t \<Rightarrow> (u64 \<rightharpoonup> nat)"
    and cap :: nat
    and put :: "u64 \<Rightarrow> nat \<Rightarrow> 't \<Rightarrow> 't"
    and del :: "u64 \<Rightarrow> 't \<Rightarrow> 't"
  assumes put_inv: "tinv t \<Longrightarrow> tinv (put k v t)"
    and del_inv: "tinv t \<Longrightarrow> tinv (del k t)"
    and put_map: "tinv t \<Longrightarrow> tmap (put k v t) = map_spec cap (Put k v) (tmap t)"
    and del_map: "tinv t \<Longrightarrow> tmap (del k t) = map_spec cap (Del k) (tmap t)"
    and dom_bound: "tinv t \<Longrightarrow> finite (dom (tmap t)) \<and> card (dom (tmap t)) \<le> cap"
begin

text \<open>A history of operations is simulated by the same history on the map.\<close>

lemma run_refines:
  "tinv t \<Longrightarrow> tinv (fold (map_apply put del) ops t) \<and> tmap (fold (map_apply put del) ops t) = fold (map_spec cap) ops (tmap t)"
proof (induction ops arbitrary: t)
  case (Cons op ops)
  have "tinv (map_apply put del op t) \<and> tmap (map_apply put del op t) = map_spec cap op (tmap t)"
    using Cons.prems put_inv del_inv put_map del_map by (cases op) simp_all
  with Cons.IH [of "map_apply put del op t"] show ?case by simp
qed simp

text \<open>The last operation on a key decides its value, as long as the keys used fit.\<close>

lemma put_then_present:
  "\<lbrakk>tinv t; k \<in> dom (tmap t) \<or> card (dom (tmap t)) < cap\<rbrakk> \<Longrightarrow> tmap (put k v t) k = Some v"
  by (simp add: put_map)

lemma put_other: "\<lbrakk>tinv t; k' \<noteq> k\<rbrakk> \<Longrightarrow> tmap (put k v t) k' = tmap t k'"
  by (simp add: put_map)

lemma del_gone: "tinv t \<Longrightarrow> tmap (del k t) k = None"
  by (simp add: del_map)

lemma size_after: "tinv t \<Longrightarrow> card (dom (tmap (fold (map_apply put del) ops t))) \<le> cap"
  using run_refines dom_bound by blast

end

subsection \<open>The array implements the map\<close>

definition reg_map :: "registry \<Rightarrow> (u64 \<rightharpoonup> nat)" where
  "reg_map r = map_of (rg_entries r)"

definition reg_inv :: "registry \<Rightarrow> bool" where
  "reg_inv r \<longleftrightarrow> distinct (map fst (rg_entries r)) \<and> length (rg_entries r) \<le> AHB_REGISTRY_MAX"

lemma ahb_count_frame [frame_simps]:
  "rg_entries (ahb_acquire b r) = rg_entries r" "rg_entries (ahb_release b r) = rg_entries r"
  by (simp_all add: ahb_acquire_def ahb_release_def)

lemma find_inode_cases:
  assumes "reg_inv r"
  shows "(case find_inode inode r of
      None \<Rightarrow> reg_map r inode = None
    | Some i \<Rightarrow> i < length (rg_entries r) \<and> fst (rg_entries r ! i) = inode \<and>
        reg_map r inode = Some (snd (rg_entries r ! i)))"
proof (cases "find_inode inode r")
  case None
  then have "\<forall>e \<in> set (rg_entries r). fst e \<noteq> inode"
    by (simp add: find_inode_def first_index_None)
  then show ?thesis by (auto simp: None reg_map_def map_of_eq_None_iff)
next
  case (Some i)
  then have i: "i < length (rg_entries r)" "fst (rg_entries r ! i) = inode"
    using first_index_SomeD [of _ "rg_entries r" i] by (auto simp: find_inode_def)
  then have "(inode, snd (rg_entries r ! i)) \<in> set (rg_entries r)" by (metis nth_mem prod.collapse)
  with Some i assms show ?thesis by (simp add: reg_map_def reg_inv_def)
qed

lemma map_of_update:
  assumes "distinct (map fst es)" "i < length es" "fst (es ! i) = k"
  shows "map_of (es[i := (k, v)]) = (map_of es)(k \<mapsto> v)"
  using assms
proof (induction es arbitrary: i)
  case (Cons e es)
  show ?case
  proof (cases i)
    case 0
    with Cons.prems show ?thesis by (cases e) auto
  next
    case (Suc j)
    then have "k \<in> set (map fst es)" using Cons.prems(2,3) by force
    then have "fst e \<noteq> k" using Cons.prems(1) by auto
    with Suc Cons show ?thesis by (cases e) (auto simp: fun_upd_twist)
  qed
qed simp

text \<open>Removing by moving the last entry into the hole.\<close>

lemma swap_remove:
  assumes "i < length es"
  shows "mset (es ! i # butlast (es[i := last es])) = mset es"
proof (cases "i = length es - 1")
  case True
  then have "es[i := last es] = es" using assms by (metis last_conv_nth list_update_id list.size(3) not_less_zero)
  then show ?thesis using True assms
    by (metis add_mset_add_single append_butlast_last_id last_conv_nth list.size(3) mset.simps(2) mset_append
        mset_single_iff not_less_zero)
next
  case False
  then have "butlast (es[i := last es]) = (butlast es)[i := last es]"
    using assms by (simp add: butlast_list_update)
  moreover have "i < length (butlast es)" using False assms by simp
  moreover have "es ! i = butlast es ! i" using \<open>i < length (butlast es)\<close> by (simp add: nth_butlast)
  moreover have "mset es = mset (butlast es) + {#last es#}"
    using assms by (metis append_butlast_last_id list.size(3) mset_append mset.simps not_less_zero add_mset_add_single)
  ultimately show ?thesis by (simp add: mset_update)
qed

lemma swap_remove_entries:
  assumes "distinct (map fst es)" "i < length es"
  shows "distinct (map fst (butlast (es[i := last es])))"
    and "map_of (butlast (es[i := last es])) = (map_of es)(fst (es ! i) := None)"
    and "length (butlast (es[i := last es])) = length es - 1"
proof -
  let ?es = "butlast (es[i := last es])"
  have m: "mset (map fst (es ! i # ?es)) = mset (map fst es)"
    using swap_remove [OF assms(2)] by (metis mset_map)
  then have d: "distinct (map fst (es ! i # ?es))" using assms(1) by (metis mset_eq_imp_distinct_iff)
  then show "distinct (map fst ?es)" by simp
  have "set (es ! i # ?es) = set es" using swap_remove [OF assms(2)] by (metis set_mset_mset)
  then have "map_of (es ! i # ?es) = map_of es" using d assms(1) by (metis map_of_inject_set)
  then have "(map_of ?es)(fst (es ! i) \<mapsto> snd (es ! i)) = map_of es" by simp
  moreover have "map_of ?es (fst (es ! i)) = None" using d by (simp add: map_of_eq_None_iff)
  ultimately show "map_of ?es = (map_of es)(fst (es ! i) := None)"
    by (metis fun_upd_triv fun_upd_upd)
  show "length ?es = length es - 1" by simp
qed

lemma reg_dom: "dom (reg_map r) = set (map fst (rg_entries r))"
  by (simp add: reg_map_def dom_map_of_conv_image_fst)

lemma card_reg_dom: "reg_inv r \<Longrightarrow> card (dom (reg_map r)) = length (rg_entries r)"
  unfolding reg_dom reg_inv_def by (metis distinct_card length_map)

lemma register_entries:
  assumes "reg_inv r"
  shows "reg_inv (ahb_registry_register k v r) \<and>
    reg_map (ahb_registry_register k v r) = map_spec AHB_REGISTRY_MAX (Put k v) (reg_map r)"
proof (cases "find_inode k r")
  case None
  then have n: "k \<notin> dom (reg_map r)" using find_inode_cases [OF assms, of k] by auto
  then have k: "k \<notin> set (map fst (rg_entries r))" by (simp add: reg_dom)
  show ?thesis
  proof (cases "length (rg_entries r) \<ge> AHB_REGISTRY_MAX")
    case True
    with None n assms card_reg_dom [OF assms] show ?thesis by (simp add: ahb_registry_register_def)
  next
    case False
    have "map_of (rg_entries r @ [(k, v)]) = (map_of (rg_entries r))(k \<mapsto> v)"
      using n by (auto simp: reg_map_def map_of_append fun_eq_iff map_add_def split: option.split)
    with None False k assms card_reg_dom [OF assms] show ?thesis
      by (simp add: ahb_registry_register_def Let_def frame_simps reg_inv_def reg_map_def)
  qed
next
  case (Some i)
  then have i: "i < length (rg_entries r)" "fst (rg_entries r ! i) = k"
    "reg_map r k = Some (snd (rg_entries r ! i))"
    using find_inode_cases [OF assms, of k] by auto
  have "map fst ((rg_entries r)[i := (k, v)]) = map fst (rg_entries r)"
    using i(1,2) by (metis fst_conv list_update_id map_update)
  moreover have "map_spec AHB_REGISTRY_MAX (Put k v) (reg_map r) = (reg_map r)(k \<mapsto> v)"
    using i(3) by (simp add: domI)
  ultimately show ?thesis
    using Some i(1,2) assms map_of_update [of "rg_entries r" i k v]
    by (simp add: ahb_registry_register_def Let_def frame_simps reg_inv_def reg_map_def)
qed

lemma unregister_entries:
  assumes "reg_inv r"
  shows "reg_inv (ahb_registry_unregister k r) \<and>
    reg_map (ahb_registry_unregister k r) = map_spec AHB_REGISTRY_MAX (Del k) (reg_map r)"
proof (cases "find_inode k r")
  case None
  then show ?thesis
    using assms find_inode_cases [OF assms, of k] by (auto simp: ahb_registry_unregister_def fun_upd_idem)
next
  case (Some i)
  then show ?thesis
    using assms find_inode_cases [OF assms, of k] swap_remove_entries [of "rg_entries r" i]
    by (auto simp: ahb_registry_unregister_def Let_def frame_simps reg_inv_def reg_map_def)
qed

interpretation ahb: inode_map reg_inv reg_map AHB_REGISTRY_MAX ahb_registry_register ahb_registry_unregister
proof
  fix r k v assume r: "reg_inv r"
  show "reg_inv (ahb_registry_register k v r)" "reg_inv (ahb_registry_unregister k r)"
    using register_entries [OF r] unregister_entries [OF r] by simp_all
  show "reg_map (ahb_registry_register k v r) = map_spec AHB_REGISTRY_MAX (Put k v) (reg_map r)"
    using register_entries [OF r] by blast
  show "reg_map (ahb_registry_unregister k r) = map_spec AHB_REGISTRY_MAX (Del k) (reg_map r)"
    using unregister_entries [OF r] by blast
  show "finite (dom (reg_map r)) \<and> card (dom (reg_map r)) \<le> AHB_REGISTRY_MAX"
    using card_reg_dom [OF r] r by (simp add: reg_dom reg_inv_def)
qed

text \<open>
  C20: The registry is a map from inodes to buffers with room for 256 keys: any history of
  registrations and removals, starting from a valid array, ends in the map that applying the same
  history to a finite map gives, where a registration replaces the value of a known inode, adds a new
  one while there is room and is dropped otherwise; the array never holds an inode twice and never
  overflows; and a lookup answers the map's value.
\<close>

theorem registry_refines_map:
  assumes "reg_inv r"
  shows "let r' = fold (map_apply ahb_registry_register ahb_registry_unregister) ops r
    in reg_inv r' \<and> reg_map r' = fold (map_spec AHB_REGISTRY_MAX) ops (reg_map r) \<and>
      fst (ahb_registry_lookup k r') = reg_map r' k"
proof -
  let ?r = "fold (map_apply ahb_registry_register ahb_registry_unregister) ops r"
  have r': "reg_inv ?r" "reg_map ?r = fold (map_spec AHB_REGISTRY_MAX) ops (reg_map r)"
    using ahb.run_refines [OF assms] by blast+
  then show ?thesis
    using find_inode_cases [OF r'(1), of k]
    by (auto simp: Let_def ahb_registry_lookup_def split: option.splits)
qed

definition registry0 :: registry where
  "registry0 = \<lparr>rg_entries = [], rg_refs = (\<lambda>b. if b < 10 then 1 else 0), rg_fault = False\<rparr>"

lemma registry0_inv: "reg_inv registry0"
  by (simp add: reg_inv_def registry0_def)

theorem registry_refines_map_witness:
  "fst (ahb_registry_lookup 7 (ahb_registry_unregister 5 (ahb_registry_register 7 2
     (ahb_registry_register 5 1 registry0)))) = Some 2"
  using registry_refines_map [OF registry0_inv, of "[Put 5 1, Put 7 2, Del 5]" 7]
  by (simp add: Let_def reg_map_def registry0_def AHB_REGISTRY_MAX_def)

subsection \<open>Reference counts\<close>

text \<open>
  Callers and the registry together: \<open>rw_held\<close> counts the references callers own. A caller
  registers only a buffer it owns a reference to (as the receiver does), owns what a lookup
  returned, and gives references back; a freed identity may come back as a new buffer.
\<close>

record ref_world =
  rw_reg :: registry
  rw_held :: "nat \<Rightarrow> nat"

inductive ref_reachable :: "ref_world \<Rightarrow> bool" where
  start: "ref_reachable
     \<lparr>rw_reg = \<lparr>rg_entries = [], rg_refs = (\<lambda>_. 0), rg_fault = False\<rparr>, rw_held = (\<lambda>_. 0)\<rparr>"
| allocate: "\<lbrakk>ref_reachable w; rg_refs (rw_reg w) b = 0\<rbrakk> \<Longrightarrow>
     ref_reachable (w\<lparr>rw_reg := (rw_reg w)\<lparr>rg_refs := (rg_refs (rw_reg w))(b := 1)\<rparr>,
                      rw_held := (rw_held w)(b := rw_held w b + 1)\<rparr>)"
| register: "\<lbrakk>ref_reachable w; 0 < rw_held w b\<rbrakk> \<Longrightarrow>
     ref_reachable (w\<lparr>rw_reg := ahb_registry_register k b (rw_reg w)\<rparr>)"
| unregister: "ref_reachable w \<Longrightarrow> ref_reachable (w\<lparr>rw_reg := ahb_registry_unregister k (rw_reg w)\<rparr>)"
| lookup: "\<lbrakk>ref_reachable w; ahb_registry_lookup k (rw_reg w) = (Some b, r)\<rbrakk> \<Longrightarrow>
     ref_reachable (w\<lparr>rw_reg := r, rw_held := (rw_held w)(b := rw_held w b + 1)\<rparr>)"
| release: "\<lbrakk>ref_reachable w; 0 < rw_held w b\<rbrakk> \<Longrightarrow>
     ref_reachable (w\<lparr>rw_reg := ahb_release b (rw_reg w), rw_held := (rw_held w)(b := rw_held w b - 1)\<rparr>)"
| destroy: "ref_reachable w \<Longrightarrow> ref_reachable (w\<lparr>rw_reg := ahb_registry_destroy (rw_reg w)\<rparr>)"

definition entry_refs :: "(u64 \<times> nat) list \<Rightarrow> nat \<Rightarrow> nat" where
  "entry_refs es b = count (mset (map snd es)) b"

definition ref_inv :: "ref_world \<Rightarrow> bool" where
  "ref_inv w \<longleftrightarrow> reg_inv (rw_reg w) \<and> \<not> rg_fault (rw_reg w) \<and>
     (\<forall>b. rg_refs (rw_reg w) b = rw_held w b + entry_refs (rg_entries (rw_reg w)) b)"

lemma entry_refs_simps [simp]:
  "entry_refs [] b = 0" "entry_refs (e # es) b = (if snd e = b then 1 else 0) + entry_refs es b"
  "entry_refs (es @ fs) b = entry_refs es b + entry_refs fs b"
  by (simp_all add: entry_refs_def)

lemma entry_refs_nth: "i < length es \<Longrightarrow> 0 < entry_refs es (snd (es ! i))"
  by (simp add: entry_refs_def count_greater_zero_iff)

lemma entry_refs_update:
  "i < length es \<Longrightarrow> entry_refs (es[i := (k, v)]) b + (if snd (es ! i) = b then 1 else 0) =
    entry_refs es b + (if v = b then 1 else 0)"
proof (induction es arbitrary: i)
  case (Cons e es)
  then show ?case by (cases i) auto
qed simp

lemma entry_refs_swap_remove:
  assumes "i < length es"
  shows "entry_refs es b = entry_refs (butlast (es[i := last es])) b + (if snd (es ! i) = b then 1 else 0)"
proof -
  have "mset (map snd (es ! i # butlast (es[i := last es]))) = mset (map snd es)"
    using swap_remove [OF assms] by (metis mset_map)
  then show ?thesis unfolding entry_refs_def by (metis entry_refs_def entry_refs_simps(2) add.commute)
qed

lemma ref_inv_register:
  assumes "ref_inv w" "0 < rw_held w b"
  shows "ref_inv (w\<lparr>rw_reg := ahb_registry_register k b (rw_reg w)\<rparr>)"
proof -
  let ?r = "rw_reg w"
  have inv: "reg_inv ?r" "\<not> rg_fault ?r" and refs: "rg_refs ?r c = rw_held w c + entry_refs (rg_entries ?r) c" for c
    using assms(1) by (auto simp: ref_inv_def)
  have alive: "0 < rg_refs ?r b" using refs [of b] assms(2) by simp
  show ?thesis
  proof (cases "find_inode k ?r")
    case None
    then show ?thesis
      using alive inv refs register_entries [OF inv(1), of k b]
      by (auto simp: ref_inv_def ahb_registry_register_def ahb_acquire_def Let_def)
  next
    case (Some i)
    let ?old = "snd (rg_entries ?r ! i)"
    have i: "i < length (rg_entries ?r)" using find_inode_cases [OF inv(1), of k] Some by simp
    have old: "0 < entry_refs (rg_entries ?r) ?old" by (rule entry_refs_nth [OF i])
    define upd where "upd = (rg_refs ?r)(?old := rg_refs ?r ?old - 1)"
    have u: "0 < upd b"
      using old refs [of ?old] alive assms(2) by (cases "b = ?old") (auto simp: upd_def)
    have eq: "ahb_registry_register k b ?r =
        ?r\<lparr>rg_refs := upd(b := upd b + 1), rg_entries := (rg_entries ?r)[i := (k, b)]\<rparr>"
      using Some u old refs [of ?old]
      by (simp add: ahb_registry_register_def ahb_acquire_def ahb_release_def Let_def upd_def)
    have "(upd(b := upd b + 1)) c = rw_held w c + entry_refs ((rg_entries ?r)[i := (k, b)]) c" for c
      using entry_refs_update [OF i, of k b c] refs [of c] old u
      by (auto simp: upd_def split: if_splits)
    then show ?thesis
      using register_entries [OF inv(1), of k b] inv(2) unfolding eq ref_inv_def by simp
  qed
qed

lemma ref_inv_unregister:
  assumes "ref_inv w"
  shows "ref_inv (w\<lparr>rw_reg := ahb_registry_unregister k (rw_reg w)\<rparr>)"
proof -
  let ?r = "rw_reg w"
  have inv: "reg_inv ?r" "\<not> rg_fault ?r" and refs: "rg_refs ?r c = rw_held w c + entry_refs (rg_entries ?r) c" for c
    using assms(1) by (auto simp: ref_inv_def)
  show ?thesis
  proof (cases "find_inode k ?r")
    case None
    then show ?thesis using assms by (simp add: ahb_registry_unregister_def)
  next
    case (Some i)
    let ?old = "snd (rg_entries ?r ! i)" and ?es = "butlast ((rg_entries ?r)[i := last (rg_entries ?r)])"
    have i: "i < length (rg_entries ?r)" using find_inode_cases [OF inv(1), of k] Some by simp
    have old: "0 < rg_refs ?r ?old" using entry_refs_nth [OF i] refs [of ?old] by simp
    then have eq: "ahb_registry_unregister k ?r =
        ?r\<lparr>rg_refs := (rg_refs ?r)(?old := rg_refs ?r ?old - 1), rg_entries := ?es\<rparr>"
      using Some by (simp add: ahb_registry_unregister_def ahb_release_def Let_def)
    have "((rg_refs ?r)(?old := rg_refs ?r ?old - 1)) c = rw_held w c + entry_refs ?es c" for c
      using entry_refs_swap_remove [OF i, of c] refs [of c] by auto
    then show ?thesis
      using unregister_entries [OF inv(1), of k] inv(2) unfolding eq ref_inv_def by simp
  qed
qed

lemma release_all:
  "\<lbrakk>\<And>b. rg_refs r b = held b + entry_refs es b; \<not> rg_fault r\<rbrakk> \<Longrightarrow>
   (let r' = fold (\<lambda>e. ahb_release (snd e)) es r in rg_refs r' = held \<and> \<not> rg_fault r')"
proof (induction es arbitrary: r)
  case (Cons e es)
  have alive: "rg_refs r (snd e) \<noteq> 0" using Cons.prems(1) [of "snd e"] by simp
  have "rg_refs (ahb_release (snd e) r) b = held b + entry_refs es b" for b
    using Cons.prems(1) [of b] alive by (auto simp: ahb_release_def)
  moreover have "\<not> rg_fault (ahb_release (snd e) r)" using alive Cons.prems(2) by (simp add: ahb_release_def)
  ultimately show ?case using Cons.IH [of "ahb_release (snd e) r"] by simp
qed (auto simp: Let_def)

lemma ref_inv_reachable: "ref_reachable w \<Longrightarrow> ref_inv w"
proof (induction rule: ref_reachable.induct)
  case start
  then show ?case by (simp add: ref_inv_def reg_inv_def)
next
  case (lookup w k b r)
  then have inv: "reg_inv (rw_reg w)" by (simp add: ref_inv_def)
  obtain i where i: "find_inode k (rw_reg w) = Some i" "b = snd (rg_entries (rw_reg w) ! i)"
    "r = ahb_acquire b (rw_reg w)"
    using lookup(2) by (auto simp: ahb_registry_lookup_def split: option.splits)
  then have "0 < entry_refs (rg_entries (rw_reg w)) b"
    using find_inode_cases [OF inv, of k] entry_refs_nth by simp
  then have "rg_refs (rw_reg w) b \<noteq> 0" using lookup.IH by (simp add: ref_inv_def)
  then show ?case using lookup.IH i(3) by (simp add: ref_inv_def ahb_acquire_def reg_inv_def)
next
  case (release w b)
  then have "rg_refs (rw_reg w) b \<noteq> 0" by (simp add: ref_inv_def)
  then show ?case using release by (auto simp: ref_inv_def ahb_release_def reg_inv_def)
next
  case (destroy w)
  then show ?case
    using release_all [of "rw_reg w" "rw_held w" "rg_entries (rw_reg w)"]
    by (simp add: ref_inv_def ahb_registry_destroy_def Let_def reg_inv_def)
next
  case (allocate w b)
  then show ?case by (auto simp: ref_inv_def reg_inv_def)
qed (simp_all add: ref_inv_register ref_inv_unregister)

text \<open>
  C21: As long as callers register only buffers they hold a reference to and give back only references
  they own, no operation ever touches a freed buffer, the count of a buffer is exactly the references
  its holders own plus one per registry entry, so a looked-up buffer stays alive across a concurrent
  removal, and destroying the registry leaves exactly the callers' references.
\<close>

theorem registry_reference_counts:
  assumes "ref_reachable w"
  shows "\<not> rg_fault (rw_reg w) \<and>
    (\<forall>b. rg_refs (rw_reg w) b = rw_held w b + length (filter (\<lambda>e. snd e = b) (rg_entries (rw_reg w)))) \<and>
    (\<forall>k b r. ahb_registry_lookup k (rw_reg w) = (Some b, r) \<longrightarrow>
       0 < rg_refs (ahb_registry_unregister k r) b) \<and>
    rg_refs (ahb_registry_destroy (rw_reg w)) = rw_held w"
proof -
  have refs: "entry_refs es b = length (filter (\<lambda>e. snd e = b) es)" for es b
    by (induction es) auto
  have inv: "ref_inv w" using ref_inv_reachable [OF assms] .
  have look: "0 < rg_refs (ahb_registry_unregister k r) b"
    if "ahb_registry_lookup k (rw_reg w) = (Some b, r)" for k b r
  proof -
    have "ref_inv (w\<lparr>rw_held := (rw_held w)(b := rw_held w b + 1), rw_reg := ahb_registry_unregister k r\<rparr>)"
      using ref_inv_reachable [OF ref_reachable.unregister [OF ref_reachable.lookup [OF assms that], of k]] by simp
    then show ?thesis by (simp add: ref_inv_def)
  qed
  have "rg_refs (ahb_registry_destroy (rw_reg w)) = rw_held w"
    using inv release_all [of "rw_reg w" "rw_held w" "rg_entries (rw_reg w)"]
    by (simp add: ref_inv_def ahb_registry_destroy_def Let_def)
  with inv refs look show ?thesis unfolding ref_inv_def by simp
qed

definition ref_world1 :: ref_world where
  "ref_world1 = \<lparr>rw_reg = \<lparr>rg_entries = [(5, 3)], rg_refs = (\<lambda>_. 0)(3 := 2), rg_fault = False\<rparr>,
     rw_held = (\<lambda>_. 0)(3 := 1)\<rparr>"

lemma ref_world1_reachable: "ref_reachable ref_world1"
proof -
  let ?w = "\<lparr>rw_reg = \<lparr>rg_entries = [], rg_refs = (\<lambda>_. 0)(3 := 1), rg_fault = False\<rparr>, rw_held = (\<lambda>_. 0)(3 := 1)\<rparr>"
  have "ref_reachable ?w" using ref_reachable.allocate [OF ref_reachable.start, of 3] by simp
  from ref_reachable.register [OF this, of 3 5] show ?thesis
    by (simp add: ref_world1_def ahb_registry_register_def find_inode_def AHB_REGISTRY_MAX_def ahb_acquire_def
        Let_def numeral_2_eq_2)
qed

theorem registry_reference_counts_witness:
  "rg_refs (ahb_registry_destroy (rw_reg ref_world1)) 3 = 1 \<and> rg_refs (rw_reg ref_world1) 3 = 2"
  using registry_reference_counts [OF ref_world1_reachable] by (simp add: ref_world1_def)

text \<open>
  Registering a known inode with the buffer it already has, when the registry's reference is the
  only one, releases the buffer before acquiring it: the registry keeps a freed buffer.
\<close>

lemma reregister_frees_first:
  assumes "reg_inv r" "reg_map r k = Some b" "rg_refs r b = 1" "\<not> rg_fault r"
  shows "let r' = ahb_registry_register k b r
    in rg_fault r' \<and> rg_refs r' b = 0 \<and> reg_map r' k = Some b"
proof -
  obtain i where i: "find_inode k r = Some i" "snd (rg_entries r ! i) = b"
    using find_inode_cases [OF assms(1), of k] assms(2) by (cases "find_inode k r") auto
  have "reg_map (ahb_registry_register k b r) k = Some b"
    using register_entries [OF assms(1), of k b] assms(2) by auto
  then show ?thesis
    using i assms(3) by (simp add: ahb_registry_register_def Let_def ahb_release_def ahb_acquire_def)
qed

end
