(* ===== verification/AhbReceiver.thy ===== *)
theory AhbReceiver
  imports AhbRegistry
begin

text \<open>
  \<^verbatim>\<open>compositor/native/src/ahb_registry_receiver.c\<close>: the thread that accepts one client at a time on
  a Unix socket and turns its messages into registry operations, with start and stop.
\<close>

subsection \<open>The socket\<close>

text \<open>
  A connection is the list of segments its reads will return, in order: a read of \<open>n\<close> bytes takes
  at most the rest of the current segment. The end of the list, and an empty segment, are a
  \<^verbatim>\<open>read\<close> that returns 0 or an error.
\<close>

type_synonym stream_conn = "bytes list"

fun conn_read :: "nat \<Rightarrow> stream_conn \<Rightarrow> bytes \<times> stream_conn" where
  "conn_read n [] = ([], [])"
| "conn_read n (seg # segs) =
     (if length seg \<le> n then (seg, segs) else (take n seg, drop n seg # segs))"

text \<open>
  \<^verbatim>\<open>read_exact\<close>: \<open>got\<close> is what the buffer holds so far; \<^const>\<open>None\<close> is the -1.
\<close>

function read_exact :: "nat \<Rightarrow> bytes \<Rightarrow> stream_conn \<Rightarrow> bytes option \<times> stream_conn" where
  "read_exact n got c =
     (if length got < n
      then (case conn_read (n - length got) c of
              ([], c1) \<Rightarrow> (None, c1)
            | (b # bs, c1) \<Rightarrow> read_exact n (got @ b # bs) c1)
      else (Some got, c))"
  by auto
termination
  by (relation "measure (\<lambda>(n, got, c). n - length got)") auto

declare read_exact.simps [simp del]

definition le64 :: "u64 \<Rightarrow> bytes" where
  "le64 x = le32 (ucast x) @ le32 (ucast (drop_bit 32 x))"

definition un_le64 :: "bytes \<Rightarrow> u64" where
  "un_le64 bs = ucast (un_le32 (take 4 bs)) OR push_bit 32 (ucast (un_le32 (drop 4 bs)))"

definition AHB_MSG_REGISTER :: u8 where "AHB_MSG_REGISTER = 1"
definition AHB_MSG_UNREGISTER :: u8 where "AHB_MSG_UNREGISTER = 2"

subsection \<open>One client\<close>

text \<open>
  \<^verbatim>\<open>AHardwareBuffer_recvHandleFromUnixSocket\<close> is a parameter: its return code, the buffer it stores,
  and what is left of the connection. A buffer it returns carries one new reference.
\<close>

type_synonym recv_handle = "stream_conn \<Rightarrow> int \<times> nat option \<times> stream_conn"

text \<open>
  The two message bodies; the \<^verbatim>\<open>break\<close> after a failed receive leaves the \<^verbatim>\<open>switch\<close>, not the loop.
\<close>

definition handle_register :: "recv_handle \<Rightarrow> u64 \<Rightarrow> stream_conn \<Rightarrow> registry \<Rightarrow> stream_conn \<times> registry" where
  "handle_register recv inode c r =
     (case recv c of
        (ret, ahb, c1) \<Rightarrow>
          (case ahb of
             None \<Rightarrow> (c1, r)
           | Some b \<Rightarrow>
               let r1 = r\<lparr>rg_refs := (rg_refs r)(b := rg_refs r b + 1)\<rparr>
               in if ret \<noteq> 0 then (c1, r1)
                  else (c1, ahb_release b (ahb_registry_register inode b r1))))"

text \<open>
  The loop: \<open>running k\<close> is what the \<open>k\<close>-th test of \<^verbatim>\<open>g_running\<close> reads. Every round takes nine
  bytes, so the bytes on the connection bound the rounds; \<^const>\<open>None\<close> is running out of fuel.
\<close>

fun handle_client ::
    "nat \<Rightarrow> (nat \<Rightarrow> bool) \<Rightarrow> recv_handle \<Rightarrow> nat \<Rightarrow> stream_conn \<Rightarrow> registry \<Rightarrow> (stream_conn \<times> registry) option" where
  "handle_client 0 running recv k c r = None"
| "handle_client (Suc fuel) running recv k c r =
     (if \<not> running k then Some (c, r)
      else case read_exact 1 [] c of
        (None, c1) \<Rightarrow> Some (c1, r)
      | (Some t, c1) \<Rightarrow>
        (case read_exact 8 [] c1 of
           (None, c2) \<Rightarrow> Some (c2, r)
         | (Some inode_buf, c2) \<Rightarrow>
             let tag = hd t; inode = un_le64 inode_buf
             in if tag = AHB_MSG_REGISTER
                then (case handle_register recv inode c2 r of
                        (c3, r1) \<Rightarrow> handle_client fuel running recv (Suc k) c3 r1)
                else if tag = AHB_MSG_UNREGISTER
                then handle_client fuel running recv (Suc k) c2 (ahb_registry_unregister inode r)
                else Some (c2, r)))"

subsection \<open>The thread, start and stop\<close>

text \<open>One round of the accept loop: what \<^verbatim>\<open>poll\<close> and \<^verbatim>\<open>accept\<close> answer.\<close>

datatype poll_result = PollError errno | PollTimeout | PollReady "stream_conn option"

text \<open>
  The thread over the rounds it lives through, each with the \<^verbatim>\<open>g_running\<close> it sees at the loop test
  and after a failed accept, and the view of it the client loop has.
\<close>

fun receiver_thread_func ::
    "recv_handle \<Rightarrow> (bool \<times> bool \<times> (nat \<Rightarrow> bool) \<times> poll_result) list \<Rightarrow> registry \<Rightarrow> registry option" where
  "receiver_thread_func recv [] r = Some r"
| "receiver_thread_func recv ((run, run_after, running, p) # rounds) r =
     (if \<not> run then Some r
      else case p of
        PollError e \<Rightarrow> if e = EINTR then receiver_thread_func recv rounds r else Some r
      | PollTimeout \<Rightarrow> receiver_thread_func recv rounds r
      | PollReady None \<Rightarrow> if \<not> run_after then Some r else receiver_thread_func recv rounds r
      | PollReady (Some c) \<Rightarrow>
          (case handle_client (Suc (length (concat c))) running recv 0 c r of
             None \<Rightarrow> None
           | Some (_, r1) \<Rightarrow> receiver_thread_func recv rounds r1))"

record receiver =
  rv_server_fd :: int
  rv_running :: bool

text \<open>
  Start: the descriptor (or a failure) of \<^verbatim>\<open>socket\<close> and whether \<^verbatim>\<open>bind\<close>, \<^verbatim>\<open>listen\<close> and
  \<^verbatim>\<open>pthread_create\<close> succeed; the result is the return code, the descriptors closed, and the
  statics. Stop: the descriptors closed, whether the thread is joined, and the statics.
\<close>

definition ahb_registry_receiver_start ::
    "int option \<Rightarrow> bool \<Rightarrow> bool \<Rightarrow> bool \<Rightarrow> receiver \<Rightarrow> int \<times> int list \<times> receiver" where
  "ahb_registry_receiver_start sock bind_ok listen_ok create_ok rv =
     (case sock of
        None \<Rightarrow> (-1, [], rv)
      | Some fd \<Rightarrow>
          if \<not> bind_ok then (-1, [fd], rv)
          else if \<not> listen_ok then (-1, [fd], rv)
          else
            let rv1 = rv\<lparr>rv_server_fd := fd, rv_running := True\<rparr>
            in if \<not> create_ok then (-1, [fd], rv1\<lparr>rv_running := False, rv_server_fd := -1\<rparr>)
               else (0, [], rv1))"

definition ahb_registry_receiver_stop :: "receiver \<Rightarrow> int list \<times> bool \<times> receiver" where
  "ahb_registry_receiver_stop rv =
     (if \<not> rv_running rv then ([], False, rv)
      else
        let rv1 = rv\<lparr>rv_running := False\<rparr>
        in if rv_server_fd rv1 \<ge> 0 then ([rv_server_fd rv1], True, rv1\<lparr>rv_server_fd := -1\<rparr>)
           else ([], True, rv1))"

subsection \<open>Reading\<close>

lemma un_le64_le64 [simp]: "un_le64 (le64 x) = x"
  unfolding le64_def un_le64_def
proof (rule bit_word_eqI)
  fix n assume n: "n < LENGTH(64)"
  have "n < 32 \<or> 32 \<le> n" by auto
  then show "bit (ucast (un_le32 (take 4 (le32 (ucast x) @ le32 (ucast (drop_bit 32 x))))) OR
      push_bit 32 (ucast (un_le32 (drop 4 (le32 (ucast x) @ le32 (ucast (drop_bit 32 x)))))) :: u64) n = bit x n"
    using n by (auto simp: bit_or_iff bit_push_bit_iff bit_ucast_iff bit_drop_bit_eq)
qed

lemma length_le64 [simp]: "length (le64 x) = 8"
  by (simp add: le64_def)

definition conn_ok :: "stream_conn \<Rightarrow> bool" where
  "conn_ok c \<longleftrightarrow> [] \<notin> set c"

lemma conn_read_cases:
  assumes "conn_ok c" "0 < n"
  shows "\<exists>bs c1. conn_read n c = (bs, c1) \<and> conn_ok c1 \<and> bs @ concat c1 = concat c \<and>
    length bs \<le> n \<and> (bs = [] \<longleftrightarrow> concat c = [])"
  using assms by (cases c) (auto simp: conn_ok_def)

text \<open>However the stream is cut into segments, reading \<open>n\<close> bytes is taking \<open>n\<close> bytes.\<close>

lemma read_exact_stream:
  assumes "conn_ok c" "length got \<le> n"
  shows "\<exists>c1. conn_ok c1 \<and> read_exact n got c =
    (if n - length got \<le> length (concat c) then Some (got @ take (n - length got) (concat c)) else None, c1) \<and>
    concat c1 = drop (n - length got) (concat c)"
  using assms
proof (induction n got c rule: read_exact.induct)
  case (1 n got c)
  show ?case
  proof (cases "length got < n")
    case True
    then obtain bs c1 where r: "conn_read (n - length got) c = (bs, c1)" "conn_ok c1"
      "bs @ concat c1 = concat c" "length bs \<le> n - length got" "bs = [] \<longleftrightarrow> concat c = []"
      using conn_read_cases [OF 1(2), of "n - length got"] by auto
    show ?thesis
    proof (cases bs)
      case Nil
      have z: "concat c = []" and z1: "concat c1 = []" using r(3,5) Nil by simp_all
      have "read_exact n got c = (None, c1)" using True r(1) Nil by (subst read_exact.simps) simp
      then show ?thesis using True r(2) unfolding z by (simp add: z1 del: concat_eq_Nil_conv)
    next
      case (Cons b bs')
      have le: "length (got @ bs) \<le> n" using r(4) True by simp
      from 1(1) [OF True r(1) [symmetric] _ r(2)] Cons le
      obtain c2 where c2: "conn_ok c2" "read_exact n (got @ bs) c1 =
        (if n - length (got @ bs) \<le> length (concat c1) then Some ((got @ bs) @ take (n - length (got @ bs)) (concat c1)) else None, c2)"
        "concat c2 = drop (n - length (got @ bs)) (concat c1)"
        by auto
      have rec: "read_exact n got c = read_exact n (got @ bs) c1"
        using True r(1) Cons by (subst read_exact.simps) simp
      have whole: "n - length got = length bs + (n - length (got @ bs))" using le by simp
      show ?thesis
        unfolding rec c2(2) r(3) [symmetric] whole using c2(1,3) by (simp add: take_append)
    qed
  next
    case False
    then have "read_exact n got c = (Some got, c)" by (subst read_exact.simps) simp
    then show ?thesis using False 1(2) by auto
  qed
qed

subsection \<open>The client loop\<close>

text \<open>A message as it lies on the wire; \<open>wire b\<close> is how a handle is sent.\<close>

fun msg_bytes :: "(nat \<Rightarrow> bytes) \<Rightarrow> map_op \<Rightarrow> bytes" where
  "msg_bytes wire (Put inode b) = AHB_MSG_REGISTER # le64 inode @ wire b"
| "msg_bytes wire (Del inode) = AHB_MSG_UNREGISTER # le64 inode"

text \<open>
  What the NDK documents of the handle transfer: what was sent for a buffer is received as that
  buffer, and nothing else is taken from the socket.
\<close>

definition recv_ok :: "(nat \<Rightarrow> bytes) \<Rightarrow> recv_handle \<Rightarrow> bool" where
  "recv_ok wire recv \<longleftrightarrow> (\<forall>b rest c. conn_ok c \<and> concat c = wire b @ rest \<longrightarrow>
     (\<exists>c1. recv c = (0, Some b, c1) \<and> conn_ok c1 \<and> concat c1 = rest))"

text \<open>Where the stream stops making sense: a message cut short, or an unknown tag.\<close>

definition stream_end :: "bytes \<Rightarrow> bool" where
  "stream_end bs \<longleftrightarrow> length bs < 9 \<or> hd bs \<notin> {AHB_MSG_REGISTER, AHB_MSG_UNREGISTER}"

lemma read_header:
  assumes "conn_ok c" "concat c = t # le64 inode @ rest"
  shows "\<exists>c1 c2. read_exact 1 [] c = (Some [t], c1) \<and> read_exact 8 [] c1 = (Some (le64 inode), c2) \<and>
    conn_ok c2 \<and> concat c2 = rest"
proof -
  obtain c1 where c1: "conn_ok c1" "read_exact 1 [] c = (Some [t], c1)" "concat c1 = le64 inode @ rest"
    using read_exact_stream [OF assms(1), of "[]" 1] assms(2) by auto
  obtain c2 where "conn_ok c2" "read_exact 8 [] c1 = (Some (le64 inode), c2)" "concat c2 = rest"
    using read_exact_stream [OF c1(1), of "[]" 8] c1(3) by auto
  with c1 show ?thesis by blast
qed

lemma ref_inv_regs: "ref_inv w \<longleftrightarrow> ref_inv \<lparr>rw_reg = rw_reg w, rw_held = rw_held w\<rparr>"
  by (simp add: ref_inv_def)

text \<open>Receiving, registering and giving the own reference back keeps the counts.\<close>

lemma handle_register_ok:
  assumes "recv c = (0, Some b, c1)" "ref_inv \<lparr>rw_reg = r, rw_held = held\<rparr>"
  shows "\<exists>r1. handle_register recv inode c r = (c1, r1) \<and> ref_inv \<lparr>rw_reg = r1, rw_held = held\<rparr> \<and>
    reg_map r1 = map_spec AHB_REGISTRY_MAX (Put inode b) (reg_map r)"
proof -
  let ?ra = "r\<lparr>rg_refs := (rg_refs r)(b := rg_refs r b + 1)\<rparr>" and ?h = "held(b := held b + 1)"
  have a: "ref_inv \<lparr>rw_reg = ?ra, rw_held = ?h\<rparr>"
    using assms(2) by (simp add: ref_inv_def reg_inv_def)
  let ?rb = "ahb_registry_register inode b ?ra"
  have b: "ref_inv \<lparr>rw_reg = ?rb, rw_held = ?h\<rparr>"
    using ref_inv_register [OF a, of b inode] by simp
  then have "rg_refs ?rb b \<noteq> 0" by (simp add: ref_inv_def)
  then have "ref_inv \<lparr>rw_reg = ahb_release b ?rb, rw_held = held\<rparr>"
    using b by (auto simp: ref_inv_def ahb_release_def reg_inv_def)
  moreover have "reg_map ?rb = map_spec AHB_REGISTRY_MAX (Put inode b) (reg_map ?ra)"
    using register_entries [of ?ra inode b] a by (simp add: ref_inv_def)
  ultimately show ?thesis
    using assms(1) by (simp add: handle_register_def Let_def reg_map_def frame_simps)
qed

lemma handle_client_run:
  assumes "recv_ok wire recv" "\<forall>k. running k" "stream_end tail"
    "conn_ok c" "concat c = concat (map (msg_bytes wire) ms) @ tail" "length (concat c) < fuel"
    "ref_inv \<lparr>rw_reg = r, rw_held = held\<rparr>"
  shows "\<exists>c1 r1. handle_client fuel running recv k c r = Some (c1, r1) \<and>
    ref_inv \<lparr>rw_reg = r1, rw_held = held\<rparr> \<and> reg_map r1 = fold (map_spec AHB_REGISTRY_MAX) ms (reg_map r)"
  using assms(4-7)
proof (induction ms arbitrary: fuel k c r)
  case Nil
  obtain n where fuel: "fuel = Suc n" using Nil.prems(3) by (cases fuel) auto
  have c: "concat c = tail" using Nil.prems(2) by simp
  obtain c1 where c1: "conn_ok c1" "read_exact 1 [] c = (if 1 \<le> length tail then Some (take 1 tail) else None, c1)"
    "concat c1 = drop 1 tail"
    using read_exact_stream [OF Nil.prems(1), of "[]" 1] c by auto
  obtain c2 where c2: "read_exact 8 [] c1 = (if 8 \<le> length (concat c1) then Some (take 8 (concat c1)) else None, c2)"
    using read_exact_stream [OF c1(1), of "[]" 8] by auto
  have "handle_client (Suc n) running recv k c r \<in> {Some (c1, r), Some (c2, r)}"
  proof (cases tail)
    case Nil
    then show ?thesis using c1 assms(2) by simp
  next
    case (Cons t ts)
    then show ?thesis using c1 c2 assms(2,3) by (auto simp: stream_end_def Let_def)
  qed
  then show ?case using Nil.prems(4) by (auto simp: fuel)
next
  case (Cons m ms)
  let ?rest = "concat (map (msg_bytes wire) ms) @ tail"
  obtain n where fuel: "fuel = Suc n" using Cons.prems(3) by (cases fuel) auto
  show ?case
  proof (cases m)
    case (Put inode b)
    with Cons.prems(2) have "concat c = AHB_MSG_REGISTER # le64 inode @ (wire b @ ?rest)" by simp
    from read_header [OF Cons.prems(1) this] obtain c1 c2 where
      h: "read_exact 1 [] c = (Some [AHB_MSG_REGISTER], c1)" "read_exact 8 [] c1 = (Some (le64 inode), c2)"
      "conn_ok c2" "concat c2 = wire b @ ?rest" by blast
    then obtain c3 where c3: "recv c2 = (0, Some b, c3)" "conn_ok c3" "concat c3 = ?rest"
      using assms(1) unfolding recv_ok_def by blast
    obtain r1 where r1: "handle_register recv inode c2 r = (c3, r1)" "ref_inv \<lparr>rw_reg = r1, rw_held = held\<rparr>"
      "reg_map r1 = map_spec AHB_REGISTRY_MAX (Put inode b) (reg_map r)"
      using handle_register_ok [of recv c2 b c3 r held inode, OF c3(1) Cons.prems(4)] by blast
    have "length (concat c3) < n" using Cons.prems(2,3) Put c3(3) fuel by simp
    from Cons.IH [OF c3(2,3) this r1(2), of "Suc k"] show ?thesis
      using h r1 assms(2) Put by (simp add: fuel Let_def)
  next
    case (Del inode)
    with Cons.prems(2) have "concat c = AHB_MSG_UNREGISTER # le64 inode @ ?rest" by simp
    from read_header [OF Cons.prems(1) this] obtain c1 c2 where
      h: "read_exact 1 [] c = (Some [AHB_MSG_UNREGISTER], c1)" "read_exact 8 [] c1 = (Some (le64 inode), c2)"
      "conn_ok c2" "concat c2 = ?rest" by blast
    let ?r1 = "ahb_registry_unregister inode r"
    have r1: "ref_inv \<lparr>rw_reg = ?r1, rw_held = held\<rparr>" using ref_inv_unregister [OF Cons.prems(4), of inode] by simp
    have m1: "reg_map ?r1 = map_spec AHB_REGISTRY_MAX (Del inode) (reg_map r)"
      using unregister_entries [of r inode] Cons.prems(4) by (simp add: ref_inv_def)
    have "length (concat c2) < n" using Cons.prems(2,3) Del h(4) fuel by simp
    from Cons.IH [OF h(3,4) this r1, of "Suc k"] obtain c3 r3 where
      i: "handle_client n running recv (Suc k) c2 ?r1 = Some (c3, r3)" "ref_inv \<lparr>rw_reg = r3, rw_held = held\<rparr>"
        "reg_map r3 = fold (map_spec AHB_REGISTRY_MAX) ms (reg_map ?r1)" by blast
    have "handle_client fuel running recv k c r = Some (c3, r3)"
      using h i(1) assms(2) by (simp add: fuel Let_def AHB_MSG_REGISTER_def AHB_MSG_UNREGISTER_def)
    moreover have "reg_map r3 = fold (map_spec AHB_REGISTRY_MAX) (m # ms) (reg_map r)"
      unfolding i(3) m1 Del by simp
    ultimately show ?thesis using i(2) by blast
  qed
qed

text \<open>
  C22: However the kernel cuts the stream into reads, a client that sends well-formed messages and then
  stops (at a message boundary, in the middle of a header, or with an unknown tag) has exactly those
  messages applied to the registry, in order; the loop ends, no freed buffer is touched, and the
  receiver keeps no reference of its own.
\<close>

theorem receiver_applies_messages:
  assumes "recv_ok wire recv" "\<forall>k. running k" "stream_end tail"
    and "conn_ok c" "concat c = concat (map (msg_bytes wire) ms) @ tail"
    and "ref_inv \<lparr>rw_reg = r, rw_held = held\<rparr>"
  shows "\<exists>c1 r1. handle_client (Suc (length (concat c))) running recv 0 c r = Some (c1, r1) \<and>
    reg_map r1 = fold (map_spec AHB_REGISTRY_MAX) ms (reg_map r) \<and> \<not> rg_fault r1 \<and>
    (\<forall>b. rg_refs r1 b = held b + length (filter (\<lambda>e. snd e = b) (rg_entries r1)))"
proof -
  obtain c1 r1 where r1: "handle_client (Suc (length (concat c))) running recv 0 c r = Some (c1, r1)"
    "ref_inv \<lparr>rw_reg = r1, rw_held = held\<rparr>" "reg_map r1 = fold (map_spec AHB_REGISTRY_MAX) ms (reg_map r)"
    using handle_client_run [OF assms(1-5) lessI assms(6), of 0] by blast
  have "entry_refs es b = length (filter (\<lambda>e. snd e = b) es)" for es b by (induction es) auto
  with r1 show ?thesis by (simp add: ref_inv_def)
qed

text \<open>A handle sent as its number in unary.\<close>

definition wire_demo :: "nat \<Rightarrow> bytes" where
  "wire_demo b = replicate b 1 @ [0]"

definition recv_demo :: recv_handle where
  "recv_demo c =
     (let s = concat c; n = length (takeWhile (\<lambda>x. x = 1) s); rest = drop (Suc n) s
      in (0, Some n, if rest = [] then [] else [rest]))"

lemma recv_demo_ok: "recv_ok wire_demo recv_demo"
proof -
  have "takeWhile (\<lambda>x. x = 1) (replicate b 1 @ 0 # rest) = replicate b (1::u8)" for b rest
    by (induction b) simp_all
  then show ?thesis by (auto simp: recv_ok_def wire_demo_def recv_demo_def conn_ok_def Let_def)
qed

theorem receiver_applies_messages_witness:
  "\<exists>c1 r1. handle_client 22 (\<lambda>_. True) recv_demo 0
     [[1, 5, 0, 0], [0, 0, 0, 0, 0, 1, 1], [1, 0, 2, 5, 0, 0, 0], [0, 0, 0]] registry0 = Some (c1, r1) \<and>
     reg_map r1 = (reg_map registry0)(5 \<mapsto> 3)"
proof -
  let ?c = "[[1, 5, 0, 0], [0, 0, 0, 0, 0, 1, 1], [1, 0, 2, 5, 0, 0, 0], [0, 0, 0]] :: stream_conn"
  have s: "concat ?c = concat (map (msg_bytes wire_demo) [Put 5 3]) @ [2, 5, 0, 0, 0, 0, 0, 0]"
    by (simp add: AHB_MSG_REGISTER_def le64_def le32_def wire_demo_def numeral_3_eq_3)
  have inv: "ref_inv \<lparr>rw_reg = registry0, rw_held = rg_refs registry0\<rparr>"
    by (simp add: ref_inv_def registry0_def reg_inv_def)
  have n: "Suc (length (concat ?c)) = 22" by simp
  have m: "fold (map_spec AHB_REGISTRY_MAX) [Put 5 3] (reg_map registry0) = (reg_map registry0)(5 \<mapsto> 3)"
    by (simp add: registry0_def reg_map_def AHB_REGISTRY_MAX_def)
  have "stream_end [2, 5, 0, 0, 0, 0, 0, 0]" "conn_ok ?c" by (simp_all add: stream_end_def conn_ok_def)
  from receiver_applies_messages [OF recv_demo_ok _ this s inv, of "\<lambda>_. True", unfolded n m]
  show ?thesis by blast
qed

end
