(* ===== verification/Ndk.thy ===== *)
theory Ndk
  imports Prelude
begin

text \<open>
  The AHardwareBuffer calls of the Android NDK that both buffer implementations of the repository
  make (\<^verbatim>\<open>shims/native/gbm-shim/src/gbm_ahb.c\<close> and
  \<^verbatim>\<open>compositor/native/src/ahb_allocator.c\<close>), and the ownership discipline they have to keep: one
  buffer per object, locked exactly while the object is mapped, released exactly once and never used
  afterwards. The discipline is the locale \<open>buffer_owner\<close>; both components interpret it.
\<close>

subsection \<open>Buffers\<close>

record ahb_desc =
  d_width :: u32
  d_height :: u32
  d_layers :: u32
  d_format :: u32
  d_usage :: u64
  d_stride :: u32

text \<open>\<^verbatim>\<open>ARect\<close>: left, top, right, bottom as \<^verbatim>\<open>int32_t\<close>.\<close>

type_synonym rect = "int \<times> int \<times> int \<times> int"

text \<open>
  The answers of the platform to one call: the status of an allocation, the descriptor the driver
  reports for a requested one, status and address of a lock, the symbol
  \<^verbatim>\<open>AHardwareBuffer_getNativeHandle\<close> (\<open>None\<close> when \<^verbatim>\<open>dlsym\<close> does not find it) giving the
  descriptors of a buffer's native handle, \<^verbatim>\<open>fcntl(F_DUPFD_CLOEXEC)\<close>, and whether \<^verbatim>\<open>calloc\<close>
  succeeds.
\<close>

record platform =
  pf_allocate :: "ahb_desc \<Rightarrow> int"
  pf_describe :: "ahb_desc \<Rightarrow> ahb_desc"
  pf_lock :: "nat \<Rightarrow> u64 \<Rightarrow> rect option \<Rightarrow> int \<times> nat"
  pf_native_handle :: "(nat \<Rightarrow> int list option) option"
  pf_dup :: "int \<Rightarrow> int"
  pf_calloc :: bool

datatype ndk_call = NAllocate nat ahb_desc | NLock nat u64 "rect option" | NUnlock nat | NRelease nat

text \<open>
  The live buffers with their lock counts, the successful calls in order, and \<open>nk_fault\<close>: a call on
  a buffer that is not live, an unlock of an unlocked buffer, or the release of a locked one.
\<close>

record ndk =
  nk_locks :: "nat \<rightharpoonup> nat"
  nk_descs :: "nat \<Rightarrow> ahb_desc"
  nk_next :: nat
  nk_calls :: "ndk_call list"
  nk_fault :: bool

definition ndk_fault :: "'a ndk_scheme \<Rightarrow> 'a ndk_scheme" where
  "ndk_fault st = st\<lparr>nk_fault := True\<rparr>"

definition ndk_log :: "ndk_call \<Rightarrow> 'a ndk_scheme \<Rightarrow> 'a ndk_scheme" where
  "ndk_log c st = st\<lparr>nk_calls := nk_calls st @ [c]\<rparr>"

definition hb_allocate :: "platform \<Rightarrow> ahb_desc \<Rightarrow> 'a ndk_scheme \<Rightarrow> (int \<times> nat) \<times> 'a ndk_scheme" where
  "hb_allocate pf d st =
     (let rc = pf_allocate pf d; b = nk_next st in
      if rc \<noteq> 0 then ((rc, 0), st)
      else ((0, b), ndk_log (NAllocate b d)
             (st\<lparr>nk_locks := (nk_locks st)(b \<mapsto> 0), nk_descs := (nk_descs st)(b := pf_describe pf d),
                 nk_next := b + 1\<rparr>)))"

definition hb_describe :: "nat \<Rightarrow> 'a ndk_scheme \<Rightarrow> ahb_desc" where
  "hb_describe b st = nk_descs st b"

definition hb_lock ::
  "platform \<Rightarrow> nat \<Rightarrow> u64 \<Rightarrow> rect option \<Rightarrow> 'a ndk_scheme \<Rightarrow> (int \<times> nat) \<times> 'a ndk_scheme" where
  "hb_lock pf b usage rect st =
     (case nk_locks st b of
        None \<Rightarrow> ((-1, 0), ndk_fault st)
      | Some n \<Rightarrow>
          let (rc, addr) = pf_lock pf b usage rect in
          if rc \<noteq> 0 then ((rc, addr), st)
          else ((0, addr), ndk_log (NLock b usage rect) (st\<lparr>nk_locks := (nk_locks st)(b \<mapsto> n + 1)\<rparr>)))"

definition hb_unlock :: "nat \<Rightarrow> 'a ndk_scheme \<Rightarrow> 'a ndk_scheme" where
  "hb_unlock b st =
     (case nk_locks st b of
        Some (Suc n) \<Rightarrow> ndk_log (NUnlock b) (st\<lparr>nk_locks := (nk_locks st)(b \<mapsto> n)\<rparr>)
      | _ \<Rightarrow> ndk_fault st)"

definition hb_release :: "nat \<Rightarrow> 'a ndk_scheme \<Rightarrow> 'a ndk_scheme" where
  "hb_release b st =
     (if nk_locks st b = Some 0 then ndk_log (NRelease b) (st\<lparr>nk_locks := (nk_locks st)(b := None)\<rparr>)
      else ndk_fault st)"

subsection \<open>Ownership\<close>

text \<open>
  The abstract view of a component: the live buffers with their lock counts, and for each object of
  the component its buffer and whether it is mapped. The steps a component may make:
\<close>

type_synonym owners = "nat \<rightharpoonup> nat \<times> bool"

inductive own_step :: "(nat \<rightharpoonup> nat) \<times> owners \<Rightarrow> (nat \<rightharpoonup> nat) \<times> owners \<Rightarrow> bool" where
  own_take: "\<lbrakk>L b = None; W p = None\<rbrakk> \<Longrightarrow> own_step (L, W) (L(b \<mapsto> 0), W(p \<mapsto> (b, False)))"
| own_lock: "\<lbrakk>W p = Some (b, False); L b = Some 0\<rbrakk> \<Longrightarrow> own_step (L, W) (L(b \<mapsto> 1), W(p \<mapsto> (b, True)))"
| own_unlock: "\<lbrakk>W p = Some (b, True); L b = Some 1\<rbrakk> \<Longrightarrow> own_step (L, W) (L(b \<mapsto> 0), W(p \<mapsto> (b, False)))"
| own_drop: "\<lbrakk>W p = Some (b, False); L b = Some 0\<rbrakk> \<Longrightarrow> own_step (L, W) (L(b := None), W(p := None))"

abbreviation own_steps :: "(nat \<rightharpoonup> nat) \<times> owners \<Rightarrow> (nat \<rightharpoonup> nat) \<times> owners \<Rightarrow> bool" where
  "own_steps \<equiv> own_step\<^sup>*\<^sup>*"

definition owner_ok :: "(nat \<rightharpoonup> nat) \<times> owners \<Rightarrow> bool" where
  "owner_ok LW = (case LW of (L, W) \<Rightarrow>
     (\<forall>p b m. W p = Some (b, m) \<longrightarrow> L b = Some (if m then 1 else 0)) \<and>
     (\<forall>p q b m n. W p = Some (b, m) \<longrightarrow> W q = Some (b, n) \<longrightarrow> p = q) \<and>
     (\<forall>b. b \<in> dom L \<longrightarrow> (\<exists>p m. W p = Some (b, m))))"

lemma owner_okI:
  assumes "\<And>p b m. W p = Some (b, m) \<Longrightarrow> L b = Some (if m then 1 else 0)"
    and "\<And>p q b m n. W p = Some (b, m) \<Longrightarrow> W q = Some (b, n) \<Longrightarrow> p = q"
    and "\<And>b. b \<in> dom L \<Longrightarrow> \<exists>p m. W p = Some (b, m)"
  shows "owner_ok (L, W)"
  using assms unfolding owner_ok_def by blast

lemma owner_okD:
  assumes "owner_ok (L, W)"
  shows "W p = Some (b, m) \<Longrightarrow> L b = Some (if m then 1 else 0)"
    and "W p = Some (b, m) \<Longrightarrow> W q = Some (b, n) \<Longrightarrow> p = q"
    and "b \<in> dom L \<Longrightarrow> \<exists>p m. W p = Some (b, m)"
  using assms unfolding owner_ok_def by blast+

lemma owner_ok_empty [simp]: "owner_ok (Map.empty, Map.empty)"
  by (simp add: owner_ok_def)

text \<open>Setting an object's mapped flag together with the lock count of its buffer.\<close>

lemma owner_ok_set:
  assumes ok: "owner_ok (L, W)" and p: "W p = Some (b, m)"
  shows "owner_ok (L(b \<mapsto> (if n then 1 else 0)), W(p \<mapsto> (b, n)))"
proof (rule owner_okI)
  fix q c k assume q: "(W(p \<mapsto> (b, n))) q = Some (c, k)"
  show "(L(b \<mapsto> (if n then 1 else 0))) c = Some (if k then 1 else 0)"
  proof (cases "q = p")
    case False
    then have "W q = Some (c, k)" and "c \<noteq> b" using q owner_okD(2) [OF ok p] by auto
    then show ?thesis using owner_okD(1) [OF ok] by simp
  qed (use q in auto)
next
  fix q r c k l assume "(W(p \<mapsto> (b, n))) q = Some (c, k)" "(W(p \<mapsto> (b, n))) r = Some (c, l)"
  then show "q = r" using owner_okD(2) [OF ok] p by (cases "q = p"; cases "r = p") auto
next
  fix c assume c: "c \<in> dom (L(b \<mapsto> (if n then 1 else 0)))"
  show "\<exists>q k. (W(p \<mapsto> (b, n))) q = Some (c, k)"
  proof (cases "c = b")
    case False
    then have "c \<in> dom L" using c by auto
    then obtain q k where "W q = Some (c, k)" using owner_okD(3) [OF ok] by blast
    then show ?thesis using False p by (intro exI [of _ q] exI [of _ k]) auto
  qed auto
qed

lemma owner_ok_take:
  assumes ok: "owner_ok (L, W)" and b: "L b = None" and p: "W p = None"
  shows "owner_ok (L(b \<mapsto> 0), W(p \<mapsto> (b, False)))"
proof (rule owner_okI)
  have free: "W q \<noteq> Some (b, k)" for q k using owner_okD(1) [OF ok, of q b k] b by auto
  show "(L(b \<mapsto> 0)) c = Some (if k then 1 else 0)" if "(W(p \<mapsto> (b, False))) q = Some (c, k)" for q c k
    using that owner_okD(1) [OF ok, of q c k] free by (cases "q = p"; cases "c = b") auto
  show "q = r" if "(W(p \<mapsto> (b, False))) q = Some (c, k)" "(W(p \<mapsto> (b, False))) r = Some (c, l)" for q r c k l
    using that owner_okD(2) [OF ok, of q c k r l] free by (cases "q = p"; cases "r = p") auto
  show "\<exists>q k. (W(p \<mapsto> (b, False))) q = Some (c, k)" if "c \<in> dom (L(b \<mapsto> 0))" for c
  proof (cases "c = b")
    case False
    then have "c \<in> dom L" using that by auto
    then obtain q k where "W q = Some (c, k)" using owner_okD(3) [OF ok] by blast
    then show ?thesis using p by (intro exI [of _ q] exI [of _ k]) auto
  qed auto
qed

lemma owner_ok_drop:
  assumes ok: "owner_ok (L, W)" and p: "W p = Some (b, m)"
  shows "owner_ok (L(b := None), W(p := None))"
proof (rule owner_okI)
  show "(L(b := None)) c = Some (if k then 1 else 0)" if "(W(p := None)) q = Some (c, k)" for q c k
  proof -
    have "q \<noteq> p" and q: "W q = Some (c, k)" using that by (auto split: if_splits)
    then have "c \<noteq> b" using owner_okD(2) [OF ok p] by auto
    then show ?thesis using owner_okD(1) [OF ok q] by simp
  qed
  show "q = r" if "(W(p := None)) q = Some (c, k)" "(W(p := None)) r = Some (c, l)" for q r c k l
    using that owner_okD(2) [OF ok, of q c k r l] by (cases "q = p"; cases "r = p") auto
  show "\<exists>q k. (W(p := None)) q = Some (c, k)" if "c \<in> dom (L(b := None))" for c
  proof -
    have c: "c \<in> dom L" "c \<noteq> b" using that by (auto split: if_splits)
    then obtain q k where "W q = Some (c, k)" using owner_okD(3) [OF ok] by blast
    then show ?thesis using p c by (intro exI [of _ q] exI [of _ k]) auto
  qed
qed

lemma own_step_ok: "own_step LW LW' \<Longrightarrow> owner_ok LW \<Longrightarrow> owner_ok LW'"
proof (induction rule: own_step.induct)
  case own_take then show ?case by (simp add: owner_ok_take)
next
  case (own_lock W p b L) then show ?case using owner_ok_set [of L W p b False True] by simp
next
  case (own_unlock W p b L) then show ?case using owner_ok_set [of L W p b True False] by simp
next
  case own_drop then show ?case using owner_ok_drop by blast
qed

lemma own_steps_ok: "own_steps LW LW' \<Longrightarrow> owner_ok LW \<Longrightarrow> owner_ok LW'"
  by (induction rule: rtranclp_induct) (simp_all add: own_step_ok)

text \<open>
  The interface: a component with operations \<open>step\<close>, which its caller may call when \<open>allowed\<close>. From
  states in which the component's invariant holds, each operation is a sequence of ownership steps
  and makes no misuse of a buffer.
\<close>

locale buffer_owner =
  fixes view :: "'s \<Rightarrow> (nat \<rightharpoonup> nat) \<times> owners"
    and fault :: "'s \<Rightarrow> bool"
    and inv :: "'s \<Rightarrow> bool"
    and allowed :: "'op \<Rightarrow> 's \<Rightarrow> bool"
    and step :: "'op \<Rightarrow> 's \<Rightarrow> 's"
  assumes step_view: "\<lbrakk>inv s; owner_ok (view s); allowed op s\<rbrakk> \<Longrightarrow> own_steps (view s) (view (step op s))"
    and step_inv: "\<lbrakk>inv s; owner_ok (view s); allowed op s\<rbrakk> \<Longrightarrow> inv (step op s)"
    and step_fault: "\<lbrakk>inv s; owner_ok (view s); allowed op s\<rbrakk> \<Longrightarrow> fault (step op s) = fault s"
begin

fun run :: "'op list \<Rightarrow> 's \<Rightarrow> 's option" where
  "run [] s = Some s"
| "run (op # ops) s = (if allowed op s then run ops (step op s) else None)"

definition good :: "'s \<Rightarrow> bool" where
  "good s \<longleftrightarrow> inv s \<and> owner_ok (view s) \<and> \<not> fault s"

lemma step_good: "\<lbrakk>good s; allowed op s\<rbrakk> \<Longrightarrow> good (step op s)"
  using own_steps_ok [OF step_view] by (auto simp: good_def step_inv step_fault)

lemma run_good: "\<lbrakk>good s; run ops s = Some t\<rbrakk> \<Longrightarrow> good t"
proof (induction ops arbitrary: s)
  case (Cons op ops)
  then have "good (step op s)" "run ops (step op s) = Some t" using step_good by (auto split: if_splits)
  then show ?case by (rule Cons.IH)
qed simp

text \<open>When no object is left, no buffer is.\<close>

lemma good_drained: "\<lbrakk>good s; snd (view s) = Map.empty\<rbrakk> \<Longrightarrow> fst (view s) = Map.empty"
proof (rule ext)
  fix b assume s: "good s" "snd (view s) = Map.empty"
  show "fst (view s) b = None"
  proof (rule ccontr)
    assume "fst (view s) b \<noteq> None"
    then have "b \<in> dom (fst (view s))" by auto
    moreover have "owner_ok (fst (view s), snd (view s))" using s(1) by (simp add: good_def)
    ultimately obtain p m where "snd (view s) p = Some (b, m)" using owner_okD(3) by blast
    then show False using s(2) by simp
  qed
qed

end

end
