(* ===== verification/BufferFormats.thy ===== *)
theory BufferFormats
  imports Prelude
begin

text \<open>
  Pixel formats: the fourcc codes, the table of the GBM shim
  (\<^verbatim>\<open>shims/native/gbm-shim/src/gbm_ahb_formats.c\<close>) and the table of the compositor
  (\<^verbatim>\<open>compositor/native/src/drm_format_table.h\<close>) to AHardwareBuffer formats and back.
\<close>

definition fourcc_code :: "char \<Rightarrow> char \<Rightarrow> char \<Rightarrow> char \<Rightarrow> u32" where
  "fourcc_code a b c d =
     of_char a OR push_bit 8 (of_char b) OR push_bit 16 (of_char c) OR push_bit 24 (of_char d)"

definition FMT_ABGR8888 :: u32 where "FMT_ABGR8888 = fourcc_code (CHR ''A'') (CHR ''B'') (CHR ''2'') (CHR ''4'')"
definition FMT_XBGR8888 :: u32 where "FMT_XBGR8888 = fourcc_code (CHR ''X'') (CHR ''B'') (CHR ''2'') (CHR ''4'')"
definition FMT_ARGB8888 :: u32 where "FMT_ARGB8888 = fourcc_code (CHR ''A'') (CHR ''R'') (CHR ''2'') (CHR ''4'')"
definition FMT_XRGB8888 :: u32 where "FMT_XRGB8888 = fourcc_code (CHR ''X'') (CHR ''R'') (CHR ''2'') (CHR ''4'')"
definition FMT_RGB565 :: u32 where "FMT_RGB565 = fourcc_code (CHR ''R'') (CHR ''G'') (CHR ''1'') (CHR ''6'')"
definition FMT_BGR888 :: u32 where "FMT_BGR888 = fourcc_code (CHR ''B'') (CHR ''G'') (CHR ''2'') (CHR ''4'')"
definition FMT_ABGR16161616F :: u32 where "FMT_ABGR16161616F = fourcc_code (CHR ''A'') (CHR ''B'') (CHR ''4'') (CHR ''H'')"
definition FMT_XBGR16161616F :: u32 where "FMT_XBGR16161616F = fourcc_code (CHR ''X'') (CHR ''B'') (CHR ''4'') (CHR ''H'')"
definition FMT_R8 :: u32 where "FMT_R8 = fourcc_code (CHR ''R'') (CHR ''8'') (CHR '' '') (CHR '' '')"
definition FMT_ABGR2101010 :: u32 where "FMT_ABGR2101010 = fourcc_code (CHR ''A'') (CHR ''B'') (CHR ''3'') (CHR ''0'')"

definition AHB_R8G8B8A8 :: u32 where "AHB_R8G8B8A8 = 1"
definition AHB_R8G8B8X8 :: u32 where "AHB_R8G8B8X8 = 2"
definition AHB_R8G8B8 :: u32 where "AHB_R8G8B8 = 3"
definition AHB_R5G6B5 :: u32 where "AHB_R5G6B5 = 4"
definition AHB_R16G16B16A16_FLOAT :: u32 where "AHB_R16G16B16A16_FLOAT = 0x16"
definition AHB_BLOB :: u32 where "AHB_BLOB = 0x21"
definition AHB_R10G10B10A2 :: u32 where "AHB_R10G10B10A2 = 0x2b"

text \<open>An entry: GBM format, AHardwareBuffer format, bytes per pixel.\<close>

definition format_table :: "(u32 \<times> u32 \<times> u32) list" where
  "format_table =
     [(FMT_ABGR8888, AHB_R8G8B8A8, 4), (FMT_XBGR8888, AHB_R8G8B8X8, 4),
      (FMT_ARGB8888, AHB_R8G8B8A8, 4), (FMT_XRGB8888, AHB_R8G8B8X8, 4),
      (FMT_RGB565, AHB_R5G6B5, 2), (FMT_BGR888, AHB_R8G8B8, 3),
      (FMT_ABGR16161616F, AHB_R16G16B16A16_FLOAT, 8), (FMT_XBGR16161616F, AHB_R16G16B16A16_FLOAT, 8),
      (FMT_R8, AHB_BLOB, 1), (FMT_ABGR2101010, AHB_R10G10B10A2, 4)]"

definition drm_ahb_format_table :: "(u32 \<times> u32) list" where
  "drm_ahb_format_table =
     [(FMT_ABGR8888, AHB_R8G8B8A8), (FMT_XBGR8888, AHB_R8G8B8X8), (FMT_RGB565, AHB_R5G6B5)]"

text \<open>The loop all six lookups share: the value of the first entry whose key matches, else 0.\<close>

definition table_lookup :: "('e \<Rightarrow> u32) \<Rightarrow> ('e \<Rightarrow> u32) \<Rightarrow> 'e list \<Rightarrow> u32 \<Rightarrow> u32" where
  "table_lookup key val tab k = (case find (\<lambda>e. key e = k) tab of None \<Rightarrow> 0 | Some e \<Rightarrow> val e)"

definition gbm_to_ahb_format :: "u32 \<Rightarrow> u32" where
  "gbm_to_ahb_format = table_lookup fst (\<lambda>e. fst (snd e)) format_table"

definition ahb_to_gbm_format :: "u32 \<Rightarrow> u32" where
  "ahb_to_gbm_format = table_lookup (\<lambda>e. fst (snd e)) fst format_table"

definition gbm_format_bpp :: "u32 \<Rightarrow> u32" where
  "gbm_format_bpp = table_lookup fst (\<lambda>e. snd (snd e)) format_table"

definition drm_format_to_ahb :: "u32 \<Rightarrow> u32" where
  "drm_format_to_ahb = table_lookup fst snd drm_ahb_format_table"

definition ahb_format_to_drm :: "u32 \<Rightarrow> u32" where
  "ahb_format_to_drm = table_lookup snd fst drm_ahb_format_table"

text \<open>\<^verbatim>\<open>bpp_for_ahb_format\<close> of the compositor's allocator.\<close>

definition bpp_for_ahb_format :: "u32 \<Rightarrow> u32" where
  "bpp_for_ahb_format f =
     (if f = AHB_R8G8B8A8 \<or> f = AHB_R8G8B8X8 then 4 else if f = AHB_R5G6B5 then 2 else 4)"

subsection \<open>Facts\<close>

lemmas format_codes = FMT_ABGR8888_def FMT_XBGR8888_def FMT_ARGB8888_def FMT_XRGB8888_def FMT_RGB565_def
  FMT_BGR888_def FMT_ABGR16161616F_def FMT_XBGR16161616F_def FMT_R8_def FMT_ABGR2101010_def
  fourcc_code_def

lemmas ahb_codes = AHB_R8G8B8A8_def AHB_R8G8B8X8_def AHB_R8G8B8_def AHB_R5G6B5_def
  AHB_R16G16B16A16_FLOAT_def AHB_BLOB_def AHB_R10G10B10A2_def

lemma format_values:
  "FMT_ABGR8888 = 0x34324241" "FMT_XBGR8888 = 0x34324258" "FMT_ARGB8888 = 0x34325241"
  "FMT_XRGB8888 = 0x34325258" "FMT_RGB565 = 0x36314752" "FMT_BGR888 = 0x34324742"
  "FMT_ABGR16161616F = 0x48344241" "FMT_XBGR16161616F = 0x48344258" "FMT_R8 = 0x20203852"
  "FMT_ABGR2101010 = 0x30334241"
  by (simp_all add: format_codes push_bit_eq_mult)

lemma table_lookup_Nil [simp]: "table_lookup key val [] k = 0"
  and table_lookup_Cons [simp]:
    "table_lookup key val (e # es) k = (if key e = k then val e else table_lookup key val es k)"
  by (simp_all add: table_lookup_def)

text \<open>
  The format tables. In the GBM shim a format has a size exactly when it has an AHardwareBuffer
  format; every AHardwareBuffer format the shim can produce maps back to a GBM format that produces it
  again; and a GBM format survives the round trip unless it is one of the three aliases (ARGB8888,
  XRGB8888, XBGR16161616F). The compositor's three formats are a two-way correspondence, each is
  translated the same way by the shim, with the same number of bytes per pixel, so a client's buffer
  and the compositor's view of it agree in size.
\<close>

theorem format_tables_agree:
  "(gbm_format_bpp f = 0 \<longleftrightarrow> gbm_to_ahb_format f = 0) \<and>
   gbm_to_ahb_format (ahb_to_gbm_format (gbm_to_ahb_format f)) = gbm_to_ahb_format f \<and>
   (gbm_to_ahb_format f \<noteq> 0 \<longrightarrow>
      (ahb_to_gbm_format (gbm_to_ahb_format f) = f \<longleftrightarrow> f \<notin> {FMT_ARGB8888, FMT_XRGB8888, FMT_XBGR16161616F})) \<and>
   (drm_format_to_ahb f \<noteq> 0 \<longrightarrow>
      ahb_format_to_drm (drm_format_to_ahb f) = f \<and> gbm_to_ahb_format f = drm_format_to_ahb f \<and>
      gbm_format_bpp f = bpp_for_ahb_format (drm_format_to_ahb f)) \<and>
   (ahb_format_to_drm a \<noteq> 0 \<longrightarrow> drm_format_to_ahb (ahb_format_to_drm a) = a)"
proof -
  have gbm: "f \<in> {FMT_ABGR8888, FMT_XBGR8888, FMT_ARGB8888, FMT_XRGB8888, FMT_RGB565, FMT_BGR888,
      FMT_ABGR16161616F, FMT_XBGR16161616F, FMT_R8, FMT_ABGR2101010}
    \<or> gbm_to_ahb_format f = 0 \<and> gbm_format_bpp f = 0 \<and> drm_format_to_ahb f = 0"
    by (simp add: gbm_to_ahb_format_def gbm_format_bpp_def drm_format_to_ahb_def format_table_def drm_ahb_format_table_def)
  have ahb: "a \<in> {AHB_R8G8B8A8, AHB_R8G8B8X8, AHB_R5G6B5} \<or> ahb_format_to_drm a = 0"
    by (simp add: ahb_format_to_drm_def drm_ahb_format_table_def)
  note defs = gbm_to_ahb_format_def gbm_format_bpp_def ahb_to_gbm_format_def drm_format_to_ahb_def
    ahb_format_to_drm_def format_table_def drm_ahb_format_table_def bpp_for_ahb_format_def ahb_codes format_values
  have zero: "gbm_to_ahb_format (ahb_to_gbm_format 0) = 0" by (simp add: defs)
  have 1: "(ahb_format_to_drm a \<noteq> 0 \<longrightarrow> drm_format_to_ahb (ahb_format_to_drm a) = a)"
    using ahb by (auto simp: defs)
  show ?thesis
    using gbm zero 1 by (elim disjE insertE) (simp_all add: defs)
qed

theorem format_tables_agree_witness:
  "ahb_to_gbm_format (gbm_to_ahb_format FMT_RGB565) = FMT_RGB565 \<and> gbm_format_bpp FMT_RGB565 = 2"
proof -
  have "drm_format_to_ahb FMT_RGB565 \<noteq> 0" "drm_format_to_ahb FMT_RGB565 = 4"
    by (simp_all add: drm_format_to_ahb_def drm_ahb_format_table_def format_values ahb_codes)
  then show ?thesis
    using format_tables_agree [of FMT_RGB565 0] by (auto simp: format_values bpp_for_ahb_format_def ahb_codes)
qed

end
