(* ===== verification/GbmBo.thy ===== *)
theory GbmBo
  imports Ndk BufferFormats
begin

text \<open>
  \<^verbatim>\<open>shims/native/gbm-shim/src/gbm_ahb.c\<close>: the GBM API on AHardwareBuffers. The state has the live
  devices and buffer objects (the \<^verbatim>\<open>calloc\<close>ed structs, by pointer), \<^verbatim>\<open>errno\<close>, the notified
  user-data destructors, and below them the buffers of the NDK. A pointer argument is \<open>None\<close> for
  \<^verbatim>\<open>NULL\<close>. A successful allocation gives a buffer, so the code's tests of \<^verbatim>\<open>bo->ahb\<close> always hold;
  using a pointer to a freed object sets \<open>nk_fault\<close>. What the user-data destructor does is the
  client's code: the call is recorded.
\<close>

subsection \<open>State\<close>

record gbm_bo =
  bo_device :: nat
  bo_ahb :: nat
  bo_desc :: ahb_desc
  bo_format :: u32
  bo_stride :: u32
  bo_user_data :: "nat option"
  bo_user_data_destroy :: "nat option"
  bo_map_data :: "nat option"
  bo_mapped :: bool

record gbm = ndk +
  gw_devs :: "nat \<rightharpoonup> int"
  gw_bos :: "nat \<rightharpoonup> gbm_bo"
  gw_heap :: nat
  gw_errno :: "errno option"
  gw_notified :: "(nat \<times> nat \<times> nat) list"

text \<open>The constants of \<^verbatim>\<open>gbm.h\<close>, \<^verbatim>\<open>hardware_buffer.h\<close> and \<^verbatim>\<open>drm_fourcc.h\<close>.\<close>

definition GBM_BO_USE_SCANOUT :: u32 where "GBM_BO_USE_SCANOUT = 1"
definition GBM_BO_USE_RENDERING :: u32 where "GBM_BO_USE_RENDERING = 4"
definition GBM_BO_USE_WRITE :: u32 where "GBM_BO_USE_WRITE = 8"
definition GBM_BO_USE_LINEAR :: u32 where "GBM_BO_USE_LINEAR = 16"
definition GBM_BO_TRANSFER_READ :: u32 where "GBM_BO_TRANSFER_READ = 1"
definition GBM_BO_TRANSFER_WRITE :: u32 where "GBM_BO_TRANSFER_WRITE = 2"
definition USAGE_CPU_READ_OFTEN :: u64 where "USAGE_CPU_READ_OFTEN = 3"
definition USAGE_CPU_WRITE_OFTEN :: u64 where "USAGE_CPU_WRITE_OFTEN = 0x30"
definition USAGE_GPU_SAMPLED_IMAGE :: u64 where "USAGE_GPU_SAMPLED_IMAGE = 0x100"
definition USAGE_GPU_FRAMEBUFFER :: u64 where "USAGE_GPU_FRAMEBUFFER = 0x200"
definition USAGE_COMPOSER_OVERLAY :: u64 where "USAGE_COMPOSER_OVERLAY = 0x800"
definition DRM_FORMAT_MOD_INVALID :: u64 where "DRM_FORMAT_MOD_INVALID = 0x00ffffffffffffff"

subsection \<open>Devices\<close>

definition gbm_create_device :: "platform \<Rightarrow> int \<Rightarrow> gbm \<Rightarrow> nat option \<times> gbm" where
  "gbm_create_device pf fd st =
     (if \<not> pf_calloc pf then (None, st)
      else (Some (gw_heap st), st\<lparr>gw_devs := (gw_devs st)(gw_heap st \<mapsto> fd), gw_heap := gw_heap st + 1\<rparr>))"

definition gbm_device_destroy :: "nat option \<Rightarrow> gbm \<Rightarrow> gbm" where
  "gbm_device_destroy dev st =
     (case dev of None \<Rightarrow> st
      | Some d \<Rightarrow> if gw_devs st d = None then ndk_fault st else st\<lparr>gw_devs := (gw_devs st)(d := None)\<rparr>)"

text \<open>The queries take the object pointed to, \<open>None\<close> for a \<^verbatim>\<open>NULL\<close> pointer.\<close>

definition gbm_device_get_fd :: "int option \<Rightarrow> int" where
  "gbm_device_get_fd dev = (case dev of None \<Rightarrow> -1 | Some fd \<Rightarrow> fd)"

definition gbm_device_get_backend_name :: "int option \<Rightarrow> string option" where
  "gbm_device_get_backend_name dev = (case dev of None \<Rightarrow> None | Some _ \<Rightarrow> Some ''android'')"

definition gbm_device_is_format_supported :: "int option \<Rightarrow> u32 \<Rightarrow> u32 \<Rightarrow> int" where
  "gbm_device_is_format_supported dev format usage = (if gbm_to_ahb_format format \<noteq> 0 then 1 else 0)"

definition gbm_device_get_format_modifier_plane_count :: "int option \<Rightarrow> u32 \<Rightarrow> u64 \<Rightarrow> int" where
  "gbm_device_get_format_modifier_plane_count dev format modifier =
     (if gbm_to_ahb_format format \<noteq> 0 then 1 else 0)"

subsection \<open>Buffer objects\<close>

definition gbm_usage :: "u32 \<Rightarrow> u64" where
  "gbm_usage flags =
     (let u1 = (if flags AND GBM_BO_USE_RENDERING \<noteq> 0 then USAGE_GPU_SAMPLED_IMAGE OR USAGE_GPU_FRAMEBUFFER else 0);
          u2 = (if flags AND GBM_BO_USE_LINEAR \<noteq> 0 then u1 OR (USAGE_CPU_READ_OFTEN OR USAGE_CPU_WRITE_OFTEN) else u1);
          u3 = (if flags AND GBM_BO_USE_SCANOUT \<noteq> 0 then u2 OR USAGE_COMPOSER_OVERLAY else u2);
          u4 = (if flags AND GBM_BO_USE_WRITE \<noteq> 0 then u3 OR USAGE_CPU_WRITE_OFTEN else u3)
      in if u4 = 0 then USAGE_GPU_SAMPLED_IMAGE OR USAGE_GPU_FRAMEBUFFER else u4)"

definition gbm_bo_create ::
  "platform \<Rightarrow> nat option \<Rightarrow> u32 \<Rightarrow> u32 \<Rightarrow> u32 \<Rightarrow> u32 \<Rightarrow> gbm \<Rightarrow> nat option \<times> gbm" where
  "gbm_bo_create pf dev width height format flags st =
     (case dev of None \<Rightarrow> (None, st)
      | Some d \<Rightarrow>
        if width = 0 \<or> height = 0 then (None, st)
        else
          let ahb_format = gbm_to_ahb_format format; bpp = gbm_format_bpp format in
          if ahb_format = 0 then (None, st)
          else if bpp = 0 then (None, st)
          else
            let desc = \<lparr>d_width = width, d_height = height, d_layers = 1, d_format = ahb_format,
                        d_usage = gbm_usage flags, d_stride = 0\<rparr>;
                ((rc, ahb), st1) = hb_allocate pf desc st
            in
            if rc \<noteq> 0 then (None, st1)
            else
              let desc' = hb_describe ahb st1 in
              if \<not> pf_calloc pf then (None, hb_release ahb st1)
              else
                let bo = \<lparr>bo_device = d, bo_ahb = ahb, bo_desc = desc', bo_format = format,
                          bo_stride = d_stride desc' * bpp, bo_user_data = None,
                          bo_user_data_destroy = None, bo_map_data = None, bo_mapped = False\<rparr>
                in (Some (gw_heap st1),
                    st1\<lparr>gw_bos := (gw_bos st1)(gw_heap st1 \<mapsto> bo), gw_heap := gw_heap st1 + 1\<rparr>))"

definition gbm_bo_create_with_modifiers ::
  "platform \<Rightarrow> nat option \<Rightarrow> u32 \<Rightarrow> u32 \<Rightarrow> u32 \<Rightarrow> u64 list \<Rightarrow> gbm \<Rightarrow> nat option \<times> gbm" where
  "gbm_bo_create_with_modifiers pf dev width height format modifiers st =
     gbm_bo_create pf dev width height format (GBM_BO_USE_RENDERING OR GBM_BO_USE_LINEAR) st"

definition gbm_bo_create_with_modifiers2 ::
  "platform \<Rightarrow> nat option \<Rightarrow> u32 \<Rightarrow> u32 \<Rightarrow> u32 \<Rightarrow> u64 list \<Rightarrow> u32 \<Rightarrow> gbm \<Rightarrow> nat option \<times> gbm" where
  "gbm_bo_create_with_modifiers2 pf dev width height format modifiers flags st =
     gbm_bo_create pf dev width height format (flags OR GBM_BO_USE_LINEAR) st"

definition gbm_bo_import :: "nat option \<Rightarrow> u32 \<Rightarrow> nat \<Rightarrow> u32 \<Rightarrow> gbm \<Rightarrow> nat option \<times> gbm" where
  "gbm_bo_import dev typ buffer flags st = (None, st\<lparr>gw_errno := Some ENOSYS\<rparr>)"

definition notify_user_data :: "nat \<Rightarrow> gbm_bo \<Rightarrow> gbm \<Rightarrow> gbm" where
  "notify_user_data p b st =
     (case (bo_user_data b, bo_user_data_destroy b) of
        (Some u, Some f) \<Rightarrow> st\<lparr>gw_notified := gw_notified st @ [(f, p, u)]\<rparr>
      | _ \<Rightarrow> st)"

definition gbm_bo_destroy :: "nat option \<Rightarrow> gbm \<Rightarrow> gbm" where
  "gbm_bo_destroy bo st =
     (case bo of None \<Rightarrow> st
      | Some p \<Rightarrow>
        (case gw_bos st p of None \<Rightarrow> ndk_fault st
         | Some b \<Rightarrow>
           let st1 = notify_user_data p b st;
               st2 = (if bo_mapped b then hb_unlock (bo_ahb b) st1 else st1);
               st3 = hb_release (bo_ahb b) st2
           in st3\<lparr>gw_bos := (gw_bos st3)(p := None)\<rparr>))"

subsection \<open>Queries\<close>

definition gbm_bo_get_width :: "gbm_bo option \<Rightarrow> u32" where
  "gbm_bo_get_width bo = (case bo of None \<Rightarrow> 0 | Some b \<Rightarrow> d_width (bo_desc b))"

definition gbm_bo_get_height :: "gbm_bo option \<Rightarrow> u32" where
  "gbm_bo_get_height bo = (case bo of None \<Rightarrow> 0 | Some b \<Rightarrow> d_height (bo_desc b))"

definition gbm_bo_get_format :: "gbm_bo option \<Rightarrow> u32" where
  "gbm_bo_get_format bo = (case bo of None \<Rightarrow> 0 | Some b \<Rightarrow> bo_format b)"

definition gbm_bo_get_stride :: "gbm_bo option \<Rightarrow> u32" where
  "gbm_bo_get_stride bo = (case bo of None \<Rightarrow> 0 | Some b \<Rightarrow> bo_stride b)"

definition gbm_bo_get_stride_for_plane :: "gbm_bo option \<Rightarrow> int \<Rightarrow> u32" where
  "gbm_bo_get_stride_for_plane bo plane =
     (case bo of None \<Rightarrow> 0 | Some b \<Rightarrow> if plane \<noteq> 0 then 0 else bo_stride b)"

definition gbm_bo_get_plane_count :: "gbm_bo option \<Rightarrow> int" where
  "gbm_bo_get_plane_count bo = (case bo of None \<Rightarrow> 0 | Some _ \<Rightarrow> 1)"

definition gbm_bo_get_offset :: "gbm_bo option \<Rightarrow> int \<Rightarrow> u32" where
  "gbm_bo_get_offset bo plane = (if bo = None \<or> plane \<noteq> 0 then 0 else 0)"

definition gbm_bo_get_modifier :: "gbm_bo option \<Rightarrow> u64" where
  "gbm_bo_get_modifier bo = DRM_FORMAT_MOD_INVALID"

text \<open>The handle union is all zero or holds the AHardwareBuffer pointer.\<close>

definition gbm_bo_get_handle :: "gbm_bo option \<Rightarrow> nat option" where
  "gbm_bo_get_handle bo = (case bo of None \<Rightarrow> None | Some b \<Rightarrow> Some (bo_ahb b))"

definition gbm_bo_get_handle_for_plane :: "gbm_bo option \<Rightarrow> int \<Rightarrow> nat option" where
  "gbm_bo_get_handle_for_plane bo plane = (if plane \<noteq> 0 then None else gbm_bo_get_handle bo)"

definition gbm_bo_get_device :: "gbm_bo option \<Rightarrow> nat option" where
  "gbm_bo_get_device bo = (case bo of None \<Rightarrow> None | Some b \<Rightarrow> Some (bo_device b))"

definition gbm_bo_get_ahb :: "gbm_bo option \<Rightarrow> nat option" where
  "gbm_bo_get_ahb bo = (case bo of None \<Rightarrow> None | Some b \<Rightarrow> Some (bo_ahb b))"

text \<open>Export: the first descriptor of the native handle, duplicated for the caller.\<close>

definition gbm_bo_get_fd :: "platform \<Rightarrow> gbm_bo option \<Rightarrow> int" where
  "gbm_bo_get_fd pf bo =
     (case bo of None \<Rightarrow> -1
      | Some b \<Rightarrow>
        (case pf_native_handle pf of None \<Rightarrow> -1
         | Some get \<Rightarrow>
           (case get (bo_ahb b) of None \<Rightarrow> -1
            | Some fds \<Rightarrow> if length fds < 1 then -1 else pf_dup pf (fds ! 0))))"

definition gbm_bo_get_fd_for_plane :: "platform \<Rightarrow> gbm_bo option \<Rightarrow> int \<Rightarrow> int" where
  "gbm_bo_get_fd_for_plane pf bo plane = (if plane \<noteq> 0 then -1 else gbm_bo_get_fd pf bo)"

subsection \<open>Mapping\<close>

definition transfer_usage :: "u32 \<Rightarrow> u64" where
  "transfer_usage flags =
     (let u1 = (if flags AND GBM_BO_TRANSFER_READ \<noteq> 0 then USAGE_CPU_READ_OFTEN else 0);
          u2 = (if flags AND GBM_BO_TRANSFER_WRITE \<noteq> 0 then u1 OR USAGE_CPU_WRITE_OFTEN else u1)
      in if u2 = 0 then USAGE_CPU_READ_OFTEN else u2)"

text \<open>
  The result is the address with the stride written to \<^verbatim>\<open>*stride\<close> and the token written to
  \<^verbatim>\<open>*map_data\<close>; \<open>out\<close> says whether both out pointers are non-null.
\<close>

definition gbm_bo_map ::
  "platform \<Rightarrow> nat option \<Rightarrow> u32 \<Rightarrow> u32 \<Rightarrow> u32 \<Rightarrow> u32 \<Rightarrow> u32 \<Rightarrow> bool \<Rightarrow> gbm \<Rightarrow> (nat \<times> u32 \<times> nat) option \<times> gbm" where
  "gbm_bo_map pf bo x y width height flags out st =
     (case bo of None \<Rightarrow> (None, st\<lparr>gw_errno := Some EINVAL\<rparr>)
      | Some p \<Rightarrow>
        (case gw_bos st p of None \<Rightarrow> (None, ndk_fault st)
         | Some b \<Rightarrow>
             if \<not> out then (None, st\<lparr>gw_errno := Some EINVAL\<rparr>)
             else if bo_mapped b then (None, st\<lparr>gw_errno := Some EBUSY\<rparr>)
             else
               let rect = (sint x, sint y, sint (x + width), sint (y + height));
                   ((rc, addr), st1) = hb_lock pf (bo_ahb b) (transfer_usage flags) (Some rect) st
               in
               if rc \<noteq> 0 then (None, st1\<lparr>gw_errno := Some EACCES\<rparr>)
               else (Some (addr, bo_stride b, addr),
                     st1\<lparr>gw_bos := (gw_bos st1)(p \<mapsto> b\<lparr>bo_map_data := Some addr, bo_mapped := True\<rparr>)\<rparr>)))"

definition gbm_bo_unmap :: "nat option \<Rightarrow> nat \<Rightarrow> gbm \<Rightarrow> gbm" where
  "gbm_bo_unmap bo map_data st =
     (case bo of None \<Rightarrow> st
      | Some p \<Rightarrow>
        (case gw_bos st p of None \<Rightarrow> ndk_fault st
         | Some b \<Rightarrow>
           if \<not> bo_mapped b then st
           else
             let st1 = hb_unlock (bo_ahb b) st
             in st1\<lparr>gw_bos := (gw_bos st1)(p \<mapsto> b\<lparr>bo_map_data := None, bo_mapped := False\<rparr>)\<rparr>))"

definition gbm_bo_write :: "nat option \<Rightarrow> bytes \<Rightarrow> gbm \<Rightarrow> int \<times> gbm" where
  "gbm_bo_write bo buf st = (-1, st\<lparr>gw_errno := Some ENOSYS\<rparr>)"

definition gbm_bo_set_user_data :: "nat option \<Rightarrow> nat option \<Rightarrow> nat option \<Rightarrow> gbm \<Rightarrow> gbm" where
  "gbm_bo_set_user_data bo data destroy st =
     (case bo of None \<Rightarrow> st
      | Some p \<Rightarrow>
        (case gw_bos st p of None \<Rightarrow> ndk_fault st
         | Some b \<Rightarrow> st\<lparr>gw_bos := (gw_bos st)(p \<mapsto> b\<lparr>bo_user_data := data, bo_user_data_destroy := destroy\<rparr>)\<rparr>))"

definition gbm_bo_get_user_data :: "gbm_bo option \<Rightarrow> nat option" where
  "gbm_bo_get_user_data bo = (case bo of None \<Rightarrow> None | Some b \<Rightarrow> bo_user_data b)"

subsection \<open>The operations a client makes, and their discipline\<close>

datatype gbm_op =
    GCreateDevice platform int
  | GDestroyDevice "nat option"
  | GCreate platform "nat option" u32 u32 u32 u32
  | GCreateMod platform "nat option" u32 u32 u32 "u64 list"
  | GCreateMod2 platform "nat option" u32 u32 u32 "u64 list" u32
  | GImport "nat option" u32 nat u32
  | GMap platform "nat option" u32 u32 u32 u32 u32 bool
  | GUnmap "nat option" nat
  | GWrite "nat option" bytes
  | GSetUserData "nat option" "nat option" "nat option"
  | GDestroy "nat option"

fun gbm_step :: "gbm_op \<Rightarrow> gbm \<Rightarrow> gbm" where
  "gbm_step (GCreateDevice pf fd) st = snd (gbm_create_device pf fd st)"
| "gbm_step (GDestroyDevice d) st = gbm_device_destroy d st"
| "gbm_step (GCreate pf d w h f fl) st = snd (gbm_bo_create pf d w h f fl st)"
| "gbm_step (GCreateMod pf d w h f ms) st = snd (gbm_bo_create_with_modifiers pf d w h f ms st)"
| "gbm_step (GCreateMod2 pf d w h f ms fl) st = snd (gbm_bo_create_with_modifiers2 pf d w h f ms fl st)"
| "gbm_step (GImport d t b fl) st = snd (gbm_bo_import d t b fl st)"
| "gbm_step (GMap pf bo x y w h fl out) st = snd (gbm_bo_map pf bo x y w h fl out st)"
| "gbm_step (GUnmap bo m) st = gbm_bo_unmap bo m st"
| "gbm_step (GWrite bo buf) st = snd (gbm_bo_write bo buf st)"
| "gbm_step (GSetUserData bo u f) st = gbm_bo_set_user_data bo u f st"
| "gbm_step (GDestroy bo) st = gbm_bo_destroy bo st"

text \<open>The one rule a client keeps: a pointer is null or refers to an object not yet destroyed.\<close>

definition live :: "nat option \<Rightarrow> (nat \<rightharpoonup> 'a) \<Rightarrow> bool" where
  "live p m = (case p of None \<Rightarrow> True | Some q \<Rightarrow> m q \<noteq> None)"

fun gbm_allowed :: "gbm_op \<Rightarrow> gbm \<Rightarrow> bool" where
  "gbm_allowed (GDestroyDevice d) st = live d (gw_devs st)"
| "gbm_allowed (GMap pf bo x y w h fl out) st = live bo (gw_bos st)"
| "gbm_allowed (GUnmap bo m) st = live bo (gw_bos st)"
| "gbm_allowed (GSetUserData bo u f) st = live bo (gw_bos st)"
| "gbm_allowed (GDestroy bo) st = live bo (gw_bos st)"
| "gbm_allowed _ st = True"

definition bo_owner :: "gbm_bo \<Rightarrow> nat \<times> bool" where
  "bo_owner b = (bo_ahb b, bo_mapped b)"

definition gbm_view :: "gbm \<Rightarrow> (nat \<rightharpoonup> nat) \<times> owners" where
  "gbm_view st = (nk_locks st, map_option bo_owner \<circ> gw_bos st)"

definition gbm_inv :: "gbm \<Rightarrow> bool" where
  "gbm_inv st \<longleftrightarrow> (\<forall>b \<ge> nk_next st. nk_locks st b = None) \<and> (\<forall>p \<ge> gw_heap st. gw_bos st p = None)"

text \<open>What an operation may do: ownership steps that keep the invariant and misuse nothing.\<close>

definition gbm_keeps :: "gbm \<Rightarrow> gbm \<Rightarrow> bool" where
  "gbm_keeps st st' \<longleftrightarrow> own_steps (gbm_view st) (gbm_view st') \<and> gbm_inv st' \<and> nk_fault st' = nk_fault st"

lemma gbm_keepsI:
  "\<lbrakk>own_steps (gbm_view st) (gbm_view st'); gbm_inv st'; nk_fault st' = nk_fault st\<rbrakk> \<Longrightarrow> gbm_keeps st st'"
  by (simp add: gbm_keeps_def)

lemma gbm_keeps_same:
  "\<lbrakk>gbm_inv st; nk_locks st' = nk_locks st; map_option bo_owner \<circ> gw_bos st' = map_option bo_owner \<circ> gw_bos st;
    nk_next st' = nk_next st; gw_heap st \<le> gw_heap st'; nk_fault st' = nk_fault st\<rbrakk> \<Longrightarrow> gbm_keeps st st'"
proof (rule gbm_keepsI)
  assume *: "gbm_inv st" "nk_locks st' = nk_locks st" "map_option bo_owner \<circ> gw_bos st' = map_option bo_owner \<circ> gw_bos st"
    "nk_next st' = nk_next st" "gw_heap st \<le> gw_heap st'"
  show "own_steps (gbm_view st) (gbm_view st')" unfolding gbm_view_def * ..
  have "gw_bos st' p = None \<longleftrightarrow> gw_bos st p = None" for p
    using fun_cong [OF *(3), of p] by (metis comp_apply map_option_is_None)
  then show "gbm_inv st'" using * by (simp add: gbm_inv_def)
qed

lemma gbm_inv_less:
  assumes "gbm_inv st"
  shows "nk_locks st b = Some n \<Longrightarrow> b < nk_next st" and "gw_bos st p = Some x \<Longrightarrow> p < gw_heap st"
  using assms not_less [of b "nk_next st"] not_less [of p "gw_heap st"] by (auto simp: gbm_inv_def)

lemma bo_owner_simps [simp]:
  "bo_owner (b\<lparr>bo_map_data := m, bo_mapped := t\<rparr>) = (bo_ahb b, t)"
  "bo_owner (b\<lparr>bo_user_data := u, bo_user_data_destroy := f\<rparr>) = bo_owner b"
  "bo_owner \<lparr>bo_device = d, bo_ahb = a, bo_desc = e, bo_format = f', bo_stride = s, bo_user_data = u,
     bo_user_data_destroy = f, bo_map_data = m, bo_mapped = t\<rparr> = (a, t)"
  by (simp_all add: bo_owner_def)

lemma notify_frame [simp]:
  "nk_locks (notify_user_data p b st) = nk_locks st" "gw_bos (notify_user_data p b st) = gw_bos st"
  "nk_next (notify_user_data p b st) = nk_next st" "gw_heap (notify_user_data p b st) = gw_heap st"
  "nk_fault (notify_user_data p b st) = nk_fault st"
  by (simp_all add: notify_user_data_def split: option.splits)

lemma create_keeps:
  assumes inv: "gbm_inv st"
  shows "gbm_keeps st (snd (gbm_bo_create pf d w h f fl st))"
proof -
  have L: "nk_locks st (nk_next st) = None" and W: "gw_bos st (gw_heap st) = None"
    using inv by (simp_all add: gbm_inv_def)
  have upd: "(nk_locks st)(nk_next st := None) = nk_locks st" using L by (simp add: fun_upd_idem)
  have steps: "own_steps (gbm_view st)
      ((nk_locks st)(nk_next st \<mapsto> 0), (map_option bo_owner \<circ> gw_bos st)(gw_heap st \<mapsto> (nk_next st, False)))"
    unfolding gbm_view_def by (rule r_into_rtranclp, rule own_take) (simp_all add: L W)
  show ?thesis
    using inv steps upd
    by (auto simp: gbm_bo_create_def hb_allocate_def hb_release_def ndk_log_def gbm_keeps_def gbm_inv_def
      gbm_view_def map_option_o_map_upd Let_def split: option.splits)
qed

text \<open>Setting the mapped flag of one object together with the lock count of its buffer.\<close>

lemma gbm_keeps_flag:
  assumes inv: "gbm_inv st" and ok: "owner_ok (gbm_view st)" and b: "gw_bos st p = Some b"
    and locks: "nk_locks st' = (nk_locks st)(bo_ahb b \<mapsto> (if t then 1 else 0))"
    and bos: "gw_bos st' = (gw_bos st)(p \<mapsto> b\<lparr>bo_map_data := m, bo_mapped := t\<rparr>)"
    and flip: "bo_mapped b = (\<not> t)"
    and rest: "nk_next st' = nk_next st" "gw_heap st' = gw_heap st" "nk_fault st' = nk_fault st"
  shows "gbm_keeps st st'"
proof (rule gbm_keepsI)
  have W: "(map_option bo_owner \<circ> gw_bos st) p = Some (bo_ahb b, \<not> t)" by (simp add: b bo_owner_def flip)
  have L: "nk_locks st (bo_ahb b) = Some (if t then 0 else 1)"
    using owner_okD(1) [OF ok [unfolded gbm_view_def] W] by simp
  have view: "gbm_view st' = ((nk_locks st)(bo_ahb b \<mapsto> (if t then 1 else 0)),
      (map_option bo_owner \<circ> gw_bos st)(p \<mapsto> (bo_ahb b, t)))"
    by (simp add: gbm_view_def locks bos map_option_o_map_upd)
  show "own_steps (gbm_view st) (gbm_view st')"
    unfolding view unfolding gbm_view_def
  proof (rule r_into_rtranclp, cases t)
    case True
    then show "own_step (nk_locks st, map_option bo_owner \<circ> gw_bos st)
        ((nk_locks st)(bo_ahb b \<mapsto> if t then 1 else 0), (map_option bo_owner \<circ> gw_bos st)(p \<mapsto> (bo_ahb b, t)))"
      using own_lock [of "map_option bo_owner \<circ> gw_bos st" p "bo_ahb b" "nk_locks st"] W L by simp
  next
    case False
    then show "own_step (nk_locks st, map_option bo_owner \<circ> gw_bos st)
        ((nk_locks st)(bo_ahb b \<mapsto> if t then 1 else 0), (map_option bo_owner \<circ> gw_bos st)(p \<mapsto> (bo_ahb b, t)))"
      using own_unlock [of "map_option bo_owner \<circ> gw_bos st" p "bo_ahb b" "nk_locks st"] W L by simp
  qed
  show "gbm_inv st'" using inv gbm_inv_less [OF inv] L b by (auto simp: gbm_inv_def locks bos rest)
qed (rule rest)

lemma bo_lock_count:
  assumes ok: "owner_ok (gbm_view st)" and b: "gw_bos st p = Some b"
  shows "nk_locks st (bo_ahb b) = Some (if bo_mapped b then 1 else 0)"
proof -
  have "(map_option bo_owner \<circ> gw_bos st) p = Some (bo_ahb b, bo_mapped b)" by (simp add: b bo_owner_def)
  with ok show ?thesis unfolding gbm_view_def by (rule owner_okD(1))
qed

lemma map_keeps:
  assumes inv: "gbm_inv st" and ok: "owner_ok (gbm_view st)" and bo: "live bo (gw_bos st)"
  shows "gbm_keeps st (snd (gbm_bo_map pf bo x y w h fl out st))"
proof -
  have same: "gbm_keeps st (st\<lparr>gw_errno := e\<rparr>)" for e
    using inv by (simp add: gbm_keeps_def gbm_inv_def gbm_view_def)
  show ?thesis
  proof (cases bo)
    case (Some p)
    then obtain b where b: "gw_bos st p = Some b" using bo by (auto simp: live_def)
    show ?thesis
    proof (cases "out \<and> \<not> bo_mapped b")
      case True
      have L: "nk_locks st (bo_ahb b) = Some 0" using bo_lock_count [OF ok b] True by simp
      obtain rc addr where lk: "pf_lock pf (bo_ahb b) (transfer_usage fl)
          (Some (sint x, sint y, sint (x + w), sint (y + h))) = (rc, addr)" by fastforce
      show ?thesis
      proof (cases "rc = 0")
        case True
        show ?thesis
          by (rule gbm_keeps_flag [OF inv ok b, where t = True and m = "Some addr"])
             (use \<open>out \<and> \<not> bo_mapped b\<close> in \<open>simp_all add: gbm_bo_map_def hb_lock_def ndk_log_def Some b L lk True\<close>)
      qed (use True in \<open>simp add: gbm_bo_map_def hb_lock_def Some b L lk same\<close>)
    qed (auto simp: gbm_bo_map_def Some b same)
  qed (simp add: gbm_bo_map_def same)
qed

lemma unmap_keeps:
  assumes inv: "gbm_inv st" and ok: "owner_ok (gbm_view st)" and bo: "live bo (gw_bos st)"
  shows "gbm_keeps st (gbm_bo_unmap bo m st)"
proof -
  have same: "gbm_keeps st st" using inv by (simp add: gbm_keeps_def)
  show ?thesis
  proof (cases bo)
    case (Some p)
    then obtain b where b: "gw_bos st p = Some b" using bo by (auto simp: live_def)
    show ?thesis
    proof (cases "bo_mapped b")
      case True
      show ?thesis
        by (rule gbm_keeps_flag [OF inv ok b, where t = False and m = None])
           (simp_all add: gbm_bo_unmap_def hb_unlock_def ndk_log_def Some b bo_lock_count [OF ok b] True)
    qed (simp add: gbm_bo_unmap_def Some b same)
  qed (simp add: gbm_bo_unmap_def same)
qed

lemma destroy_keeps:
  assumes inv: "gbm_inv st" and ok: "owner_ok (gbm_view st)" and bo: "live bo (gw_bos st)"
  shows "gbm_keeps st (gbm_bo_destroy bo st)"
proof (cases bo)
  case (Some p)
  then obtain b where b: "gw_bos st p = Some b" using bo by (auto simp: live_def)
  have L: "nk_locks st (bo_ahb b) = Some (if bo_mapped b then 1 else 0)" by (rule bo_lock_count [OF ok b])
  define st2 where "st2 = gbm_bo_destroy bo st"
  have st2: "nk_locks st2 = (nk_locks st)(bo_ahb b := None)" "gw_bos st2 = (gw_bos st)(p := None)"
    "nk_next st2 = nk_next st" "gw_heap st2 = gw_heap st" "nk_fault st2 = nk_fault st"
    by (simp_all add: st2_def gbm_bo_destroy_def Some b hb_unlock_def hb_release_def L
      ndk_log_def Let_def)
  have W: "(map_option bo_owner \<circ> gw_bos st) p = Some (bo_ahb b, bo_mapped b)" by (simp add: b bo_owner_def)
  have view: "gbm_view st2 = ((nk_locks st)(bo_ahb b := None), (map_option bo_owner \<circ> gw_bos st)(p := None))"
    by (simp add: gbm_view_def st2 fun_eq_iff)
  have "own_steps (gbm_view st) (gbm_view st2)"
  proof (cases "bo_mapped b")
    case True
    let ?L = "(nk_locks st)(bo_ahb b \<mapsto> 0)" and ?W = "(map_option bo_owner \<circ> gw_bos st)(p \<mapsto> (bo_ahb b, False))"
    have 1: "own_step (gbm_view st) (?L, ?W)" unfolding gbm_view_def using W L True by (simp add: own_unlock)
    have 2: "own_step (?L, ?W) (?L(bo_ahb b := None), ?W(p := None))" by (rule own_drop) simp_all
    from 1 2 show ?thesis unfolding view by simp
  next
    case False
    then show ?thesis unfolding view unfolding gbm_view_def using W L by (simp add: own_drop r_into_rtranclp)
  qed
  moreover have "gbm_inv st2" using inv by (simp add: gbm_inv_def st2)
  ultimately show ?thesis using st2 by (simp add: gbm_keeps_def st2_def [symmetric])
qed (use inv in \<open>simp add: gbm_bo_destroy_def gbm_keeps_def\<close>)

lemma user_data_keeps:
  assumes inv: "gbm_inv st" and bo: "live bo (gw_bos st)"
  shows "gbm_keeps st (gbm_bo_set_user_data bo u f st)"
proof (cases bo)
  case (Some p)
  then obtain b where b: "gw_bos st p = Some b" using bo by (auto simp: live_def)
  have "map_option bo_owner \<circ> (gw_bos st)(p \<mapsto> b\<lparr>bo_user_data := u, bo_user_data_destroy := f\<rparr>) =
      map_option bo_owner \<circ> gw_bos st"
    using b by (auto simp: fun_eq_iff)
  then show ?thesis using inv by (intro gbm_keeps_same) (simp_all add: gbm_bo_set_user_data_def Some b)
qed (use inv in \<open>simp add: gbm_bo_set_user_data_def gbm_keeps_def\<close>)

lemma gbm_step_keeps:
  assumes inv: "gbm_inv st" and ok: "owner_ok (gbm_view st)" and op: "gbm_allowed op st"
  shows "gbm_keeps st (gbm_step op st)"
proof (cases op)
  case (GDestroyDevice d)
  then show ?thesis using inv op
    by (intro gbm_keeps_same) (auto simp: gbm_device_destroy_def live_def split: option.splits)
qed (use inv ok op in \<open>simp_all add: create_keeps map_keeps unmap_keeps destroy_keeps user_data_keeps
  gbm_bo_create_with_modifiers_def gbm_bo_create_with_modifiers2_def
  gbm_keeps_same gbm_create_device_def gbm_bo_import_def gbm_bo_write_def\<close>)

interpretation gbm: buffer_owner gbm_view nk_fault gbm_inv gbm_allowed gbm_step
  by unfold_locales (use gbm_step_keeps in \<open>auto simp: gbm_keeps_def\<close>)

definition gbm_start :: gbm where
  "gbm_start = \<lparr>nk_locks = Map.empty, nk_descs = (\<lambda>_. \<lparr>d_width = 0, d_height = 0, d_layers = 0,
     d_format = 0, d_usage = 0, d_stride = 0\<rparr>), nk_next = 0, nk_calls = [], nk_fault = False,
     gw_devs = Map.empty, gw_bos = Map.empty, gw_heap = 0, gw_errno = None, gw_notified = []\<rparr>"

fun gbm_run :: "gbm_op list \<Rightarrow> gbm \<Rightarrow> gbm option" where
  "gbm_run [] st = Some st"
| "gbm_run (op # ops) st = (if gbm_allowed op st then gbm_run ops (gbm_step op st) else None)"

lemma gbm_run_eq: "gbm_run ops st = gbm.run ops st"
  by (induction ops arbitrary: st) simp_all

lemma gbm_start_good: "gbm.good gbm_start"
  by (simp add: gbm.good_def gbm_start_def gbm_inv_def gbm_view_def)

end
