(* ===== verification/AhbAllocator.thy ===== *)
theory AhbAllocator
  imports Ndk BufferFormats
begin

text \<open>
  \<^verbatim>\<open>compositor/native/src/ahb_allocator.c\<close>: the wlroots allocator whose buffers are
  AHardwareBuffers. The state has the live allocators and buffers by pointer. wlroots starts an
  access only while none is active, ends only an active one and destroys only a buffer without one
  (its assertions on \<^verbatim>\<open>accessing_data_ptr\<close>, which it sets when the begin call succeeds); that is
  \<open>alloc_allowed\<close>.
\<close>

subsection \<open>State\<close>

record ahb_buffer =
  ab_width :: int
  ab_height :: int
  ab_ahb :: nat
  ab_desc :: ahb_desc
  ab_locked_data :: "nat option"

record ahb_alloc = ndk +
  al_allocators :: "nat set"
  al_bufs :: "nat \<rightharpoonup> ahb_buffer"
  al_heap :: nat

datatype buffer_impl = Ahb_buffer_impl | Other_impl
datatype buffer_cap = Cap_data_ptr | Cap_dmabuf

record dmabuf_attributes =
  da_fd :: int
  da_n_planes :: int
  da_offset :: u32
  da_stride :: u32
  da_width :: int
  da_height :: int
  da_format :: u32
  da_modifier :: u64

definition AHB_MOD_INVALID :: u64 where "AHB_MOD_INVALID = 0x00ffffffffffffff"
definition CPU_READ_OFTEN :: u64 where "CPU_READ_OFTEN = 3"
definition CPU_WRITE_OFTEN :: u64 where "CPU_WRITE_OFTEN = 0x30"
definition GPU_SAMPLED_IMAGE :: u64 where "GPU_SAMPLED_IMAGE = 0x100"
definition GPU_FRAMEBUFFER :: u64 where "GPU_FRAMEBUFFER = 0x200"
definition COMPOSER_OVERLAY :: u64 where "COMPOSER_OVERLAY = 0x800"

subsection \<open>Allocator\<close>

definition ahb_allocator_create :: "platform \<Rightarrow> ahb_alloc \<Rightarrow> (nat \<times> buffer_cap set) option \<times> ahb_alloc" where
  "ahb_allocator_create pf st =
     (if \<not> pf_calloc pf then (None, st)
      else (Some (al_heap st, {Cap_data_ptr, Cap_dmabuf}),
            st\<lparr>al_allocators := insert (al_heap st) (al_allocators st), al_heap := al_heap st + 1\<rparr>))"

definition ahb_alloc_destroy :: "nat \<Rightarrow> ahb_alloc \<Rightarrow> ahb_alloc" where
  "ahb_alloc_destroy a st =
     (if a \<in> al_allocators st then st\<lparr>al_allocators := al_allocators st - {a}\<rparr> else ndk_fault st)"

definition ahb_alloc_create_buffer :: "platform \<Rightarrow> int \<Rightarrow> int \<Rightarrow> u32 \<Rightarrow> ahb_alloc \<Rightarrow> nat option \<times> ahb_alloc" where
  "ahb_alloc_create_buffer pf width height format st =
     (let ahb_format = drm_format_to_ahb format in
      if ahb_format = 0 then (None, st)
      else if \<not> pf_calloc pf then (None, st)
      else
        let desc = \<lparr>d_width = word_of_int width, d_height = word_of_int height, d_layers = 1,
                    d_format = ahb_format,
                    d_usage = CPU_READ_OFTEN OR CPU_WRITE_OFTEN OR GPU_SAMPLED_IMAGE OR GPU_FRAMEBUFFER
                      OR COMPOSER_OVERLAY,
                    d_stride = 0\<rparr>;
            ((rc, ahb), st1) = hb_allocate pf desc st
        in
        if rc \<noteq> 0 then (None, st1)
        else
          let buf = \<lparr>ab_width = width, ab_height = height, ab_ahb = ahb, ab_desc = hb_describe ahb st1,
                     ab_locked_data = None\<rparr>
          in (Some (al_heap st1), st1\<lparr>al_bufs := (al_bufs st1)(al_heap st1 \<mapsto> buf), al_heap := al_heap st1 + 1\<rparr>))"

definition ahb_buffer_try_from_wlr :: "(buffer_impl \<times> nat) option \<Rightarrow> nat option" where
  "ahb_buffer_try_from_wlr buffer =
     (case buffer of None \<Rightarrow> None | Some (impl, p) \<Rightarrow> if impl \<noteq> Ahb_buffer_impl then None else Some p)"

definition ahb_dmabuf_export_available :: "platform \<Rightarrow> bool" where
  "ahb_dmabuf_export_available pf = (pf_native_handle pf \<noteq> None)"

subsection \<open>Buffers\<close>

definition ahb_buffer_destroy :: "nat \<Rightarrow> ahb_alloc \<Rightarrow> ahb_alloc" where
  "ahb_buffer_destroy p st =
     (case al_bufs st p of None \<Rightarrow> ndk_fault st
      | Some b \<Rightarrow> let st1 = hb_release (ab_ahb b) st in st1\<lparr>al_bufs := (al_bufs st1)(p := None)\<rparr>)"

definition ahb_buffer_get_dmabuf :: "platform \<Rightarrow> ahb_buffer \<Rightarrow> dmabuf_attributes option" where
  "ahb_buffer_get_dmabuf pf b =
     (case pf_native_handle pf of None \<Rightarrow> None
      | Some get \<Rightarrow>
        (case get (ab_ahb b) of None \<Rightarrow> None
         | Some fds \<Rightarrow>
           if length fds < 1 then None
           else
             let fd = pf_dup pf (fds ! 0) in
             if fd < 0 then None
             else Some \<lparr>da_fd = fd, da_n_planes = 1, da_offset = 0,
                        da_stride = d_stride (ab_desc b) * bpp_for_ahb_format (d_format (ab_desc b)),
                        da_width = sint (d_width (ab_desc b)), da_height = sint (d_height (ab_desc b)),
                        da_format = ahb_format_to_drm (d_format (ab_desc b)),
                        da_modifier = AHB_MOD_INVALID\<rparr>))"

text \<open>The results of a begin: address, DRM format and the stride as a \<^verbatim>\<open>size_t\<close>.\<close>

definition ahb_buffer_begin_data_ptr_access ::
  "platform \<Rightarrow> nat \<Rightarrow> bool \<Rightarrow> bool \<Rightarrow> ahb_alloc \<Rightarrow> (nat \<times> u32 \<times> u64) option \<times> ahb_alloc" where
  "ahb_buffer_begin_data_ptr_access pf p read write st =
     (case al_bufs st p of None \<Rightarrow> (None, ndk_fault st)
      | Some b \<Rightarrow>
        let usage = (if read then CPU_READ_OFTEN else 0) OR (if write then CPU_WRITE_OFTEN else 0);
            ((rc, addr), st1) = hb_lock pf (ab_ahb b) usage None st
        in
        if rc \<noteq> 0 then (None, st1)
        else (Some (addr, ahb_format_to_drm (d_format (ab_desc b)),
                    ucast (d_stride (ab_desc b)) * ucast (bpp_for_ahb_format (d_format (ab_desc b)))),
              st1\<lparr>al_bufs := (al_bufs st1)(p \<mapsto> b\<lparr>ab_locked_data := Some addr\<rparr>)\<rparr>))"

definition ahb_buffer_end_data_ptr_access :: "nat \<Rightarrow> ahb_alloc \<Rightarrow> ahb_alloc" where
  "ahb_buffer_end_data_ptr_access p st =
     (case al_bufs st p of None \<Rightarrow> ndk_fault st
      | Some b \<Rightarrow>
        let st1 = hb_unlock (ab_ahb b) st
        in st1\<lparr>al_bufs := (al_bufs st1)(p \<mapsto> b\<lparr>ab_locked_data := None\<rparr>)\<rparr>)"

subsection \<open>What wlroots calls, and the discipline\<close>

datatype alloc_op =
    ACreateAllocator platform
  | ADestroyAllocator nat
  | ACreateBuffer platform int int u32
  | ABegin platform nat bool bool
  | AEnd nat
  | ADestroyBuffer nat

fun alloc_step :: "alloc_op \<Rightarrow> ahb_alloc \<Rightarrow> ahb_alloc" where
  "alloc_step (ACreateAllocator pf) st = snd (ahb_allocator_create pf st)"
| "alloc_step (ADestroyAllocator a) st = ahb_alloc_destroy a st"
| "alloc_step (ACreateBuffer pf w h f) st = snd (ahb_alloc_create_buffer pf w h f st)"
| "alloc_step (ABegin pf p r w) st = snd (ahb_buffer_begin_data_ptr_access pf p r w st)"
| "alloc_step (AEnd p) st = ahb_buffer_end_data_ptr_access p st"
| "alloc_step (ADestroyBuffer p) st = ahb_buffer_destroy p st"

definition accessed :: "nat \<Rightarrow> ahb_alloc \<Rightarrow> bool option" where
  "accessed p st = map_option (\<lambda>b. ab_locked_data b \<noteq> None) (al_bufs st p)"

fun alloc_allowed :: "alloc_op \<Rightarrow> ahb_alloc \<Rightarrow> bool" where
  "alloc_allowed (ADestroyAllocator a) st = (a \<in> al_allocators st)"
| "alloc_allowed (ABegin pf p r w) st = (accessed p st = Some False)"
| "alloc_allowed (AEnd p) st = (accessed p st = Some True)"
| "alloc_allowed (ADestroyBuffer p) st = (accessed p st = Some False)"
| "alloc_allowed _ st = True"

definition ab_owner :: "ahb_buffer \<Rightarrow> nat \<times> bool" where
  "ab_owner b = (ab_ahb b, ab_locked_data b \<noteq> None)"

definition alloc_view :: "ahb_alloc \<Rightarrow> (nat \<rightharpoonup> nat) \<times> owners" where
  "alloc_view st = (nk_locks st, map_option ab_owner \<circ> al_bufs st)"

definition alloc_inv :: "ahb_alloc \<Rightarrow> bool" where
  "alloc_inv st \<longleftrightarrow> (\<forall>b \<ge> nk_next st. nk_locks st b = None) \<and> (\<forall>p \<ge> al_heap st. al_bufs st p = None)"

lemma alloc_inv_less:
  assumes "alloc_inv st"
  shows "nk_locks st b = Some n \<Longrightarrow> b < nk_next st" and "al_bufs st p = Some x \<Longrightarrow> p < al_heap st"
  using assms not_less [of b "nk_next st"] not_less [of p "al_heap st"] by (auto simp: alloc_inv_def)

lemma ab_owner_simps [simp]:
  "ab_owner \<lparr>ab_width = w, ab_height = h, ab_ahb = a, ab_desc = d, ab_locked_data = l\<rparr> = (a, l \<noteq> None)"
  "ab_owner (b\<lparr>ab_locked_data := l\<rparr>) = (ab_ahb b, l \<noteq> None)"
  by (simp_all add: ab_owner_def)

text \<open>A step in the terms of the interface.\<close>

definition alloc_keeps :: "ahb_alloc \<Rightarrow> ahb_alloc \<Rightarrow> bool" where
  "alloc_keeps st st' \<longleftrightarrow>
     own_steps (alloc_view st) (alloc_view st') \<and> alloc_inv st' \<and> nk_fault st' = nk_fault st"

lemma buffer_lock_count:
  assumes ok: "owner_ok (alloc_view st)" and b: "al_bufs st p = Some b"
  shows "nk_locks st (ab_ahb b) = Some (if ab_locked_data b \<noteq> None then 1 else 0)"
proof -
  have "(map_option ab_owner \<circ> al_bufs st) p = Some (ab_ahb b, ab_locked_data b \<noteq> None)"
    by (simp add: b ab_owner_def)
  with ok show ?thesis unfolding alloc_view_def by (rule owner_okD(1))
qed

lemma create_buffer_keeps:
  assumes inv: "alloc_inv st"
  shows "alloc_keeps st (snd (ahb_alloc_create_buffer pf w h f st))"
proof -
  have L: "nk_locks st (nk_next st) = None" and W: "al_bufs st (al_heap st) = None"
    using inv by (simp_all add: alloc_inv_def)
  have steps: "own_steps (alloc_view st)
      ((nk_locks st)(nk_next st \<mapsto> 0), (map_option ab_owner \<circ> al_bufs st)(al_heap st \<mapsto> (nk_next st, False)))"
    unfolding alloc_view_def by (rule r_into_rtranclp, rule own_take) (simp_all add: L W)
  show ?thesis
    using inv steps
    by (auto simp: ahb_alloc_create_buffer_def hb_allocate_def ndk_log_def alloc_keeps_def alloc_inv_def
      alloc_view_def map_option_o_map_upd Let_def)
qed

lemma begin_keeps:
  assumes inv: "alloc_inv st" and ok: "owner_ok (alloc_view st)" and p: "accessed p st = Some False"
  shows "alloc_keeps st (snd (ahb_buffer_begin_data_ptr_access pf p r w st))"
proof -
  obtain b where b: "al_bufs st p = Some b" "ab_locked_data b = None" using p by (auto simp: accessed_def)
  have L: "nk_locks st (ab_ahb b) = Some 0" using buffer_lock_count [OF ok b(1)] b(2) by simp
  have steps: "own_steps (alloc_view st)
      ((nk_locks st)(ab_ahb b \<mapsto> 1), (map_option ab_owner \<circ> al_bufs st)(p \<mapsto> (ab_ahb b, True)))"
    unfolding alloc_view_def by (rule r_into_rtranclp, rule own_lock) (simp_all add: L b ab_owner_def)
  define u :: u64 where "u = (if r then CPU_READ_OFTEN else 0) OR (if w then CPU_WRITE_OFTEN else 0)"
  obtain rc addr where lk: "pf_lock pf (ab_ahb b) u None = (rc, addr)" by fastforce
  show ?thesis
  proof (cases "rc = 0")
    case True
    define st' where "st' = snd (ahb_buffer_begin_data_ptr_access pf p r w st)"
    have st': "nk_locks st' = (nk_locks st)(ab_ahb b \<mapsto> 1)"
      "al_bufs st' = (al_bufs st)(p \<mapsto> b\<lparr>ab_locked_data := Some addr\<rparr>)"
      "nk_next st' = nk_next st" "al_heap st' = al_heap st" "nk_fault st' = nk_fault st"
      by (simp_all add: st'_def ahb_buffer_begin_data_ptr_access_def b hb_lock_def L u_def [symmetric] lk True
        ndk_log_def)
    show ?thesis unfolding st'_def [symmetric]
      using inv steps alloc_inv_less [OF inv] L b
      by (auto simp: alloc_keeps_def alloc_view_def alloc_inv_def st' map_option_o_map_upd)
  next
    case False
    then have "snd (ahb_buffer_begin_data_ptr_access pf p r w st) = st"
      by (simp add: ahb_buffer_begin_data_ptr_access_def b hb_lock_def L u_def [symmetric] lk)
    then show ?thesis using inv by (simp add: alloc_keeps_def)
  qed
qed

lemma end_keeps:
  assumes inv: "alloc_inv st" and ok: "owner_ok (alloc_view st)" and p: "accessed p st = Some True"
  shows "alloc_keeps st (ahb_buffer_end_data_ptr_access p st)"
proof -
  obtain b where b: "al_bufs st p = Some b" "ab_locked_data b \<noteq> None" using p by (auto simp: accessed_def)
  have L: "nk_locks st (ab_ahb b) = Some 1" using buffer_lock_count [OF ok b(1)] b(2) by simp
  have steps: "own_steps (alloc_view st)
      ((nk_locks st)(ab_ahb b \<mapsto> 0), (map_option ab_owner \<circ> al_bufs st)(p \<mapsto> (ab_ahb b, False)))"
    unfolding alloc_view_def by (rule r_into_rtranclp, rule own_unlock) (use L b in \<open>simp_all add: ab_owner_def\<close>)
  define st' where "st' = ahb_buffer_end_data_ptr_access p st"
  have st': "nk_locks st' = (nk_locks st)(ab_ahb b \<mapsto> 0)"
    "al_bufs st' = (al_bufs st)(p \<mapsto> b\<lparr>ab_locked_data := None\<rparr>)"
    "nk_next st' = nk_next st" "al_heap st' = al_heap st" "nk_fault st' = nk_fault st"
    by (simp_all add: st'_def ahb_buffer_end_data_ptr_access_def b hb_unlock_def L ndk_log_def Let_def)
  show ?thesis unfolding st'_def [symmetric]
    using inv steps alloc_inv_less [OF inv] L b
    by (auto simp: alloc_keeps_def alloc_view_def alloc_inv_def st' map_option_o_map_upd)
qed

lemma destroy_buffer_keeps:
  assumes inv: "alloc_inv st" and ok: "owner_ok (alloc_view st)" and p: "accessed p st = Some False"
  shows "alloc_keeps st (ahb_buffer_destroy p st)"
proof -
  obtain b where b: "al_bufs st p = Some b" "ab_locked_data b = None" using p by (auto simp: accessed_def)
  have L: "nk_locks st (ab_ahb b) = Some 0" using buffer_lock_count [OF ok b(1)] b(2) by simp
  have steps: "own_steps (alloc_view st)
      ((nk_locks st)(ab_ahb b := None), (map_option ab_owner \<circ> al_bufs st)(p := None))"
    unfolding alloc_view_def by (rule r_into_rtranclp, rule own_drop) (simp_all add: L b ab_owner_def)
  define st' where "st' = ahb_buffer_destroy p st"
  have st': "nk_locks st' = (nk_locks st)(ab_ahb b := None)" "al_bufs st' = (al_bufs st)(p := None)"
    "nk_next st' = nk_next st" "al_heap st' = al_heap st" "nk_fault st' = nk_fault st"
    by (simp_all add: st'_def ahb_buffer_destroy_def b hb_release_def L ndk_log_def Let_def)
  have "map_option ab_owner \<circ> (al_bufs st)(p := None) = (map_option ab_owner \<circ> al_bufs st)(p := None)"
    by (simp add: fun_eq_iff)
  then show ?thesis unfolding st'_def [symmetric]
    using inv steps by (simp add: alloc_keeps_def alloc_view_def alloc_inv_def st')
qed

lemma alloc_step_keeps:
  assumes inv: "alloc_inv st" and ok: "owner_ok (alloc_view st)" and op: "alloc_allowed op st"
  shows "alloc_keeps st (alloc_step op st)"
  using op create_buffer_keeps [OF inv] begin_keeps [OF inv ok] end_keeps [OF inv ok]
    destroy_buffer_keeps [OF inv ok]
proof (cases op)
  case (ACreateAllocator pf)
  then show ?thesis using inv
    by (simp add: ahb_allocator_create_def alloc_keeps_def alloc_view_def alloc_inv_def)
next
  case (ADestroyAllocator a)
  then show ?thesis using inv op
    by (simp add: ahb_alloc_destroy_def alloc_keeps_def alloc_view_def alloc_inv_def)
qed simp_all

interpretation alloc: buffer_owner alloc_view nk_fault alloc_inv alloc_allowed alloc_step
  by unfold_locales (use alloc_step_keeps in \<open>auto simp: alloc_keeps_def\<close>)

definition alloc_start :: ahb_alloc where
  "alloc_start = \<lparr>nk_locks = Map.empty, nk_descs = (\<lambda>_. \<lparr>d_width = 0, d_height = 0, d_layers = 0,
     d_format = 0, d_usage = 0, d_stride = 0\<rparr>), nk_next = 0, nk_calls = [], nk_fault = False,
     al_allocators = {}, al_bufs = Map.empty, al_heap = 0\<rparr>"

fun alloc_run :: "alloc_op list \<Rightarrow> ahb_alloc \<Rightarrow> ahb_alloc option" where
  "alloc_run [] st = Some st"
| "alloc_run (op # ops) st = (if alloc_allowed op st then alloc_run ops (alloc_step op st) else None)"

lemma alloc_run_eq: "alloc_run ops st = alloc.run ops st"
  by (induction ops arbitrary: st) simp_all

lemma alloc_start_good: "alloc.good alloc_start"
  by (simp add: alloc.good_def alloc_start_def alloc_inv_def alloc_view_def)

end
