(* ===== verification/BufferProps.thy ===== *)
theory BufferProps
  imports GbmBo AhbAllocator
begin

text \<open>
  Properties of the two AHardwareBuffer owners: the GBM shim on the client's side and the wlroots
  allocator on the compositor's.
\<close>

subsection \<open>A platform for the witnesses\<close>

text \<open>Allocation succeeds with rows of 64 pixels, locks map at address 4096, handles carry descriptor 7.\<close>

definition plain_platform :: platform where
  "plain_platform = \<lparr>pf_allocate = (\<lambda>_. 0), pf_describe = (\<lambda>d. d\<lparr>d_stride := 64\<rparr>),
     pf_lock = (\<lambda>_ _ _. (0, 4096)), pf_native_handle = Some (\<lambda>_. Some [7]), pf_dup = (\<lambda>fd. fd + 100),
     pf_calloc = True\<rparr>"

lemmas gbm_eval = plain_platform_def gbm_start_def live_def gbm_create_device_def gbm_bo_create_def
  hb_allocate_def hb_describe_def ndk_log_def gbm_bo_map_def hb_lock_def gbm_bo_unmap_def hb_unlock_def
  gbm_bo_destroy_def notify_user_data_def hb_release_def gbm_to_ahb_format_def gbm_format_bpp_def
  format_table_def format_values ahb_codes Let_def

subsection \<open>The GBM shim\<close>

text \<open>
  C27: For every sequence of GBM calls of a client that only passes null pointers or objects it has
  not destroyed, and whatever the platform answers: no AHardwareBuffer call is misused (no use after
  release, no unlock of an unlocked buffer, no release of a locked one); every buffer object has a
  buffer of its own, locked exactly while the object is mapped; and no buffer exists without its
  object, so when the last object is destroyed, mapped or not, every buffer has been released.
\<close>

theorem gbm_buffers_balanced:
  assumes "gbm_run ops gbm_start = Some st"
  shows "\<not> nk_fault st \<and>
    (\<forall>p b. gw_bos st p = Some b \<longrightarrow> nk_locks st (bo_ahb b) = Some (if bo_mapped b then 1 else 0)) \<and>
    (\<forall>p q b c. gw_bos st p = Some b \<longrightarrow> gw_bos st q = Some c \<longrightarrow> bo_ahb b = bo_ahb c \<longrightarrow> p = q) \<and>
    (\<forall>a \<in> dom (nk_locks st). \<exists>p b. gw_bos st p = Some b \<and> bo_ahb b = a)"
proof -
  have good: "gbm.good st" using gbm.run_good [OF gbm_start_good] assms by (simp add: gbm_run_eq)
  then have ok: "owner_ok (nk_locks st, map_option bo_owner \<circ> gw_bos st)"
    by (simp add: gbm.good_def gbm_view_def)
  have "\<exists>p b. gw_bos st p = Some b \<and> bo_ahb b = a" if "a \<in> dom (nk_locks st)" for a
    using owner_okD(3) [OF ok that] by (auto simp: bo_owner_def)
  moreover have "p = q" if "gw_bos st p = Some b" "gw_bos st q = Some c" "bo_ahb b = bo_ahb c" for p q b c
    using that owner_okD(2) [OF ok, of p "bo_ahb b" "bo_mapped b" q "bo_mapped c"] by (simp add: bo_owner_def)
  ultimately show ?thesis
    using good bo_lock_count by (auto simp: gbm.good_def)
qed

theorem gbm_buffers_balanced_witness:
  "\<exists>st. gbm_run [GCreateDevice plain_platform (-1),
        GCreate plain_platform (Some 0) 32 8 FMT_RGB565 GBM_BO_USE_LINEAR,
        GMap plain_platform (Some 1) 0 0 32 8 GBM_BO_TRANSFER_WRITE True,
        GDestroy (Some 1)] gbm_start = Some st \<and> \<not> nk_fault st \<and> gw_bos st 1 = None"
  using gbm_buffers_balanced [of "[GCreateDevice plain_platform (-1),
        GCreate plain_platform (Some 0) 32 8 FMT_RGB565 GBM_BO_USE_LINEAR,
        GMap plain_platform (Some 1) 0 0 32 8 GBM_BO_TRANSFER_WRITE True,
        GDestroy (Some 1)]"]
  by (simp add: gbm_eval)

lemma fresh_locks:
  "nk_locks st (nk_next st) = None \<Longrightarrow> (nk_locks st)(nk_next st := None) = nk_locks st"
  by (simp add: fun_upd_idem)

lemma drm_modes_bpp: "gbm_to_ahb_format f = 0 \<longleftrightarrow> gbm_format_bpp f = 0"
  by (simp add: gbm_to_ahb_format_def gbm_format_bpp_def format_table_def format_values ahb_codes)

text \<open>
  Creation. It fails exactly for a null device, an empty size, a format without an
  AHardwareBuffer counterpart, a refused allocation or failing memory, and then leaves the live
  buffers and objects as they were. Otherwise the new object reports the size, format and pitch of
  the buffer the driver made for exactly one allocation request with the requested size, the mapped
  format and never an empty usage; the reported stride is the driver's pixel pitch times the bytes
  per pixel, exactly when that product fits 32 bits.
\<close>

theorem gbm_create_spec:
  fixes w h f fl :: u32 and pf :: platform
  defines "D \<equiv> \<lparr>d_width = w, d_height = h, d_layers = 1, d_format = gbm_to_ahb_format f,
                d_usage = gbm_usage fl, d_stride = 0\<rparr>"
  assumes inv: "gbm_inv st" and create: "gbm_bo_create pf dev w h f fl st = (r, st')"
  shows "gbm_usage fl \<noteq> 0 \<and>
    (r = None \<longleftrightarrow> dev = None \<or> w = 0 \<or> h = 0 \<or> gbm_to_ahb_format f = 0 \<or> pf_allocate pf D \<noteq> 0 \<or> \<not> pf_calloc pf) \<and>
    (r = None \<longrightarrow> nk_locks st' = nk_locks st \<and> gw_bos st' = gw_bos st) \<and>
    (\<forall>p. r = Some p \<longrightarrow>
      gw_bos st p = None \<and>
      nk_calls st' = nk_calls st @ [NAllocate (nk_next st) D] \<and>
      gbm_bo_get_device (gw_bos st' p) = dev \<and>
      gbm_bo_get_format (gw_bos st' p) = f \<and>
      gbm_bo_get_width (gw_bos st' p) = d_width (pf_describe pf D) \<and>
      gbm_bo_get_height (gw_bos st' p) = d_height (pf_describe pf D) \<and>
      gbm_bo_get_ahb (gw_bos st' p) = Some (nk_next st) \<and>
      (unat (d_stride (pf_describe pf D)) * unat (gbm_format_bpp f) < 2 ^ 32 \<longleftrightarrow>
         unat (gbm_bo_get_stride (gw_bos st' p)) = unat (d_stride (pf_describe pf D)) * unat (gbm_format_bpp f)))"
proof (intro conjI allI impI)
  have orne: "gbm_usage fl \<noteq> 0"
  proof -
    have "(0x100 OR 0x200 :: u64) \<noteq> 0" by simp
    then show ?thesis
      by (simp add: gbm_usage_def Let_def USAGE_GPU_SAMPLED_IMAGE_def USAGE_GPU_FRAMEBUFFER_def)
  qed
  show "gbm_usage fl \<noteq> 0" by (rule orne)
  have L: "nk_locks st (nk_next st) = None" and W: "gw_bos st (gw_heap st) = None"
    using inv by (simp_all add: gbm_inv_def)
  note defs = gbm_bo_create_def hb_allocate_def hb_release_def hb_describe_def ndk_log_def Let_def D_def
  show "(r = None) = (dev = None \<or> w = 0 \<or> h = 0 \<or> gbm_to_ahb_format f = 0 \<or> pf_allocate pf D \<noteq> 0 \<or> \<not> pf_calloc pf)"
    using create drm_modes_bpp by (auto simp: defs split: option.splits if_splits)
  show "nk_locks st' = nk_locks st" "gw_bos st' = gw_bos st" if "r = None"
    using create that fresh_locks [OF L] by (auto simp: defs split: option.splits if_splits)
  fix p assume p: "r = Some p"
  then obtain d where d: "dev = Some d" and new: "p = gw_heap st"
    and st': "st' = (snd (hb_allocate pf D st))
        \<lparr>gw_bos := (gw_bos st)(gw_heap st \<mapsto> \<lparr>bo_device = d, bo_ahb = nk_next st, bo_desc = pf_describe pf D, bo_format = f,
                          bo_stride = d_stride (pf_describe pf D) * gbm_format_bpp f, bo_user_data = None,
                          bo_user_data_destroy = None, bo_map_data = None, bo_mapped = False\<rparr>), gw_heap := gw_heap st + 1\<rparr>"
    and ok: "pf_allocate pf D = 0"
    using create by (auto simp: defs split: option.splits if_splits)
  show "gw_bos st p = None" by (simp add: new W)
  show "nk_calls st' = nk_calls st @ [NAllocate (nk_next st) D]" by (simp add: st' hb_allocate_def ok ndk_log_def Let_def)
  show "gbm_bo_get_device (gw_bos st' p) = dev" "gbm_bo_get_format (gw_bos st' p) = f"
    "gbm_bo_get_width (gw_bos st' p) = d_width (pf_describe pf D)"
    "gbm_bo_get_height (gw_bos st' p) = d_height (pf_describe pf D)"
    "gbm_bo_get_ahb (gw_bos st' p) = Some (nk_next st)"
    by (simp_all add: st' new d gbm_bo_get_device_def gbm_bo_get_format_def gbm_bo_get_width_def
      gbm_bo_get_height_def gbm_bo_get_ahb_def)
  show "(unat (d_stride (pf_describe pf D)) * unat (gbm_format_bpp f) < 2 ^ 32) =
      (unat (gbm_bo_get_stride (gw_bos st' p)) = unat (d_stride (pf_describe pf D)) * unat (gbm_format_bpp f))"
    by (simp add: st' new gbm_bo_get_stride_def unat_word_ariths)
      (metis mod_less mod_less_divisor zero_less_numeral)
qed

theorem gbm_create_spec_witness:
  "\<exists>st. gbm_bo_create plain_platform (Some 0) 32 8 FMT_RGB565 0 gbm_start = (Some 0, st) \<and>
     gbm_bo_get_stride (gw_bos st 0) = 128"
proof -
  obtain r st where c: "gbm_bo_create plain_platform (Some 0) 32 8 FMT_RGB565 0 gbm_start = (r, st)"
    by fastforce
  have r: "r = Some 0" using c by (auto simp: gbm_eval)
  have inv: "gbm_inv gbm_start" by (simp add: gbm_inv_def gbm_start_def)
  have bpp: "unat (gbm_format_bpp FMT_RGB565) = 2" by (simp add: gbm_format_bpp_def format_table_def format_values)
  have "unat (gbm_bo_get_stride (gw_bos st 0)) = 128"
    using gbm_create_spec [OF inv c] r bpp by (simp add: plain_platform_def)
  then have "gbm_bo_get_stride (gw_bos st 0) = 128" by (simp add: word_unat_eq_iff)
  then show ?thesis using c r by blast
qed

lemma sint_coord:
  fixes x :: u32
  assumes "unat x < 2 ^ 31"
  shows "sint x = int (unat x)"
proof -
  have "uint x < 2 ^ 31" using assms by (metis of_nat_less_iff of_nat_numeral of_nat_power uint_nat)
  moreover have "- (2 ^ 31) \<le> uint x" by (rule order_trans [of _ 0]) simp_all
  ultimately show ?thesis
    using signed_take_bit_int_eq_self [of 31 "uint x"] by (simp add: sint_uint uint_nat [symmetric])
qed

lemma sint_coord_sum:
  fixes x w :: u32
  assumes "unat x + unat w < 2 ^ 31"
  shows "sint x = int (unat x)" and "sint (x + w) = int (unat x + unat w)"
proof -
  have "unat (x + w) = unat x + unat w" using assms by (simp add: unat_word_ariths)
  then show "sint (x + w) = int (unat x + unat w)" using sint_coord [of "x + w"] assms by simp
  show "sint x = int (unat x)" using assms by (simp add: sint_coord)
qed

lemma transfer_usage_nonzero: "transfer_usage fl \<noteq> 0"
  by (simp add: transfer_usage_def Let_def USAGE_CPU_READ_OFTEN_def USAGE_CPU_WRITE_OFTEN_def)

text \<open>
  Mapping. Of an object that is mapped, a second map is refused with EBUSY and changes nothing
  else. Of one that is not, it locks the object's buffer once, for reading when the flags ask for
  neither access, on the rectangle from (x, y) to (x + width, y + height) exactly when those fit a
  signed 32-bit coordinate; a refused lock gives EACCES and leaves the object unmapped, a successful
  one gives the address and the object's stride, and the unmap that follows unlocks the buffer and
  restores every object and lock count.
\<close>

theorem gbm_map_spec:
  assumes ok: "owner_ok (gbm_view st)" and b: "gw_bos st p = Some b" and idle: "bo_mapped b \<or> bo_map_data b = None"
    and map: "gbm_bo_map pf (Some p) x y w h fl True st = (r, st')"
  shows "(bo_mapped b \<longrightarrow> r = None \<and> st' = st\<lparr>gw_errno := Some EBUSY\<rparr>) \<and>
    (\<not> bo_mapped b \<longrightarrow>
      (\<exists>u rect. u = transfer_usage fl \<and> u \<noteq> 0 \<and> rect = (sint x, sint y, sint (x + w), sint (y + h)) \<and>
        (unat x + unat w < 2 ^ 31 \<and> unat y + unat h < 2 ^ 31 \<longrightarrow>
           rect = (int (unat x), int (unat y), int (unat x + unat w), int (unat y + unat h))) \<and>
        (if fst (pf_lock pf (bo_ahb b) u (Some rect)) \<noteq> 0 then r = None \<and> st' = st\<lparr>gw_errno := Some EACCES\<rparr>
         else
           r = Some (snd (pf_lock pf (bo_ahb b) u (Some rect)), bo_stride b, snd (pf_lock pf (bo_ahb b) u (Some rect))) \<and>
           nk_locks st' (bo_ahb b) = Some 1 \<and>
           gbm_bo_unmap (Some p) m st' =
             st\<lparr>nk_calls := nk_calls st @ [NLock (bo_ahb b) u (Some rect), NUnlock (bo_ahb b)]\<rparr>)))"
proof (cases "bo_mapped b")
  case True
  then show ?thesis using map b by (simp add: gbm_bo_map_def)
next
  case False
  define u where "u = transfer_usage fl"
  define rect where "rect = (sint x, sint y, sint (x + w), sint (y + h))"
  obtain rc addr where lk: "pf_lock pf (bo_ahb b) u (Some rect) = (rc, addr)" by fastforce
  have L: "nk_locks st (bo_ahb b) = Some 0" using bo_lock_count [OF ok b] False by simp
  have res: "if rc \<noteq> 0 then r = None \<and> st' = st\<lparr>gw_errno := Some EACCES\<rparr>
     else r = Some (addr, bo_stride b, addr) \<and> st' = st\<lparr>nk_locks := (nk_locks st)(bo_ahb b \<mapsto> 1),
       nk_calls := nk_calls st @ [NLock (bo_ahb b) u (Some rect)],
       gw_bos := (gw_bos st)(p \<mapsto> b\<lparr>bo_map_data := Some addr, bo_mapped := True\<rparr>)\<rparr>"
    using map b False L
    by (auto simp: gbm_bo_map_def hb_lock_def u_def [symmetric] rect_def [symmetric] lk ndk_log_def)
  have restore: "b\<lparr>bo_map_data := None, bo_mapped := False\<rparr> = b" using False idle by (cases b) simp
  have undo: "gbm_bo_unmap (Some p) m st' = st\<lparr>nk_calls := nk_calls st @ [NLock (bo_ahb b) u (Some rect), NUnlock (bo_ahb b)]\<rparr>"
    if "rc = 0"
    using res that L b by (simp add: gbm_bo_unmap_def hb_unlock_def ndk_log_def restore fun_upd_idem Let_def)
  have small: "unat x + unat w < 2 ^ 31 \<and> unat y + unat h < 2 ^ 31 \<longrightarrow>
      rect = (int (unat x), int (unat y), int (unat x + unat w), int (unat y + unat h))"
    using sint_coord_sum [of x w] sint_coord_sum [of y h] by (simp add: rect_def)
  show ?thesis
    using False res undo small lk transfer_usage_nonzero [of fl]
    by (intro conjI impI exI [of _ u] exI [of _ rect]) (auto simp: u_def [symmetric] rect_def [symmetric])
qed

theorem gbm_map_spec_witness:
  "fst (gbm_bo_map plain_platform (Some 0) 1 2 3 4 0 True
      (snd (gbm_bo_create plain_platform (Some 9) 32 8 FMT_RGB565 0 gbm_start))) = Some (4096, 128, 4096)"
proof -
  define st where "st = snd (gbm_bo_create plain_platform (Some 9) 32 8 FMT_RGB565 0 gbm_start)"
  obtain r st' where m: "gbm_bo_map plain_platform (Some 0) 1 2 3 4 0 True st = (r, st')" by fastforce
  have good: "gbm.good st"
    unfolding st_def
    using gbm.step_good [OF gbm_start_good, of "GCreate plain_platform (Some 9) 32 8 FMT_RGB565 0"] by simp
  obtain b where b: "gw_bos st 0 = Some b" "bo_stride b = 128" "\<not> bo_mapped b" "bo_map_data b = None" "bo_ahb b = 0"
    by (auto simp: st_def gbm_eval)
  have "r = Some (4096, 128, 4096)"
    using gbm_map_spec [OF _ b(1) _ m, of 0] good b by (simp add: gbm.good_def plain_platform_def)
  then show ?thesis using m by (simp add: st_def)
qed

subsection \<open>The compositor's allocator\<close>

text \<open>
  For every sequence of allocator calls wlroots may make, whatever the platform answers: no
  AHardwareBuffer call is misused, every buffer object owns a buffer of its own that is locked
  exactly while an access is active, and no buffer exists without its object; destroying the last
  object releases the last buffer.
\<close>

theorem alloc_buffers_balanced:
  assumes "alloc_run ops alloc_start = Some st"
  shows "\<not> nk_fault st \<and>
    (\<forall>p b. al_bufs st p = Some b \<longrightarrow> nk_locks st (ab_ahb b) = Some (if ab_locked_data b \<noteq> None then 1 else 0)) \<and>
    (\<forall>p q b c. al_bufs st p = Some b \<longrightarrow> al_bufs st q = Some c \<longrightarrow> ab_ahb b = ab_ahb c \<longrightarrow> p = q) \<and>
    (\<forall>a \<in> dom (nk_locks st). \<exists>p b. al_bufs st p = Some b \<and> ab_ahb b = a)"
proof -
  have good: "alloc.good st" using alloc.run_good [OF alloc_start_good] assms by (simp add: alloc_run_eq)
  then have ok: "owner_ok (nk_locks st, map_option ab_owner \<circ> al_bufs st)"
    by (simp add: alloc.good_def alloc_view_def)
  have "\<exists>p b. al_bufs st p = Some b \<and> ab_ahb b = a" if "a \<in> dom (nk_locks st)" for a
    using owner_okD(3) [OF ok that] by (auto simp: ab_owner_def)
  moreover have "p = q" if "al_bufs st p = Some b" "al_bufs st q = Some c" "ab_ahb b = ab_ahb c" for p q b c
    using that owner_okD(2) [OF ok, of p "ab_ahb b" "ab_locked_data b \<noteq> None" q "ab_locked_data c \<noteq> None"]
    by (simp add: ab_owner_def)
  ultimately show ?thesis
    using good buffer_lock_count by (auto simp: alloc.good_def)
qed

lemmas alloc_eval = plain_platform_def alloc_start_def ahb_alloc_create_buffer_def hb_allocate_def
  hb_describe_def ndk_log_def ahb_buffer_begin_data_ptr_access_def hb_lock_def
  ahb_buffer_end_data_ptr_access_def hb_unlock_def ahb_buffer_destroy_def hb_release_def accessed_def
  drm_format_to_ahb_def drm_ahb_format_table_def format_values ahb_codes Let_def

theorem alloc_buffers_balanced_witness:
  "\<exists>st. alloc_run [ACreateBuffer plain_platform 32 8 FMT_RGB565, ABegin plain_platform 0 True True,
      AEnd 0, ADestroyBuffer 0] alloc_start = Some st \<and> \<not> nk_fault st"
  using alloc_buffers_balanced [of "[ACreateBuffer plain_platform 32 8 FMT_RGB565, ABegin plain_platform 0 True True,
      AEnd 0, ADestroyBuffer 0]"]
  by (simp add: alloc_eval)

text \<open>
  C28: The two sides describe the same memory in the same way. When a GBM object and a buffer of the
  compositor in one of the compositor's three formats are made for the same descriptor, the DMA-BUF
  the compositor exports has the size, format, stride and modifier the GBM object reports and, with
  the same native handle, both export descriptors of the same file; and the stride given to the CPU
  access path, computed in 64 bits, agrees with it modulo 2^32.
\<close>

theorem layouts_agree:
  assumes fmt: "drm_format_to_ahb (bo_format g) \<noteq> 0" "d_format (bo_desc g) = drm_format_to_ahb (bo_format g)"
    and stride: "bo_stride g = d_stride (bo_desc g) * gbm_format_bpp (bo_format g)"
    and same: "ab_desc b = bo_desc g" "ab_ahb b = bo_ahb g"
    and dmabuf: "ahb_buffer_get_dmabuf pf b = Some a"
  shows "da_stride a = gbm_bo_get_stride (Some g) \<and> da_format a = gbm_bo_get_format (Some g) \<and>
    word_of_int (da_width a) = gbm_bo_get_width (Some g) \<and> word_of_int (da_height a) = gbm_bo_get_height (Some g) \<and>
    da_modifier a = gbm_bo_get_modifier (Some g) \<and> da_n_planes a = gbm_bo_get_plane_count (Some g) \<and>
    da_offset a = gbm_bo_get_offset (Some g) 0 \<and> da_fd a = gbm_bo_get_fd pf (Some g) \<and>
    (\<forall>p st addr f s. al_bufs st p = Some b \<longrightarrow> fst (ahb_buffer_begin_data_ptr_access pf p rd wr st) = Some (addr, f, s) \<longrightarrow>
      f = da_format a \<and> ucast s = da_stride a \<and>
      unat s = unat (d_stride (ab_desc b)) * unat (bpp_for_ahb_format (d_format (ab_desc b))))"
proof -
  define d where "d = bo_desc g"
  have bpp: "bpp_for_ahb_format (d_format d) = gbm_format_bpp (bo_format g)"
    and restore: "ahb_format_to_drm (d_format d) = bo_format g"
    using fmt by (auto simp: d_def drm_format_to_ahb_def drm_ahb_format_table_def ahb_format_to_drm_def
      bpp_for_ahb_format_def gbm_format_bpp_def format_table_def format_values ahb_codes split: if_splits)
  have small: "unat (bpp_for_ahb_format x) \<le> 4" for x by (simp add: bpp_for_ahb_format_def)
  obtain get fds where h: "pf_native_handle pf = Some get" "get (bo_ahb g) = Some fds" "\<not> length fds < 1"
    "\<not> pf_dup pf (fds ! 0) < 0"
    and a: "a = \<lparr>da_fd = pf_dup pf (fds ! 0), da_n_planes = 1, da_offset = 0,
      da_stride = d_stride d * bpp_for_ahb_format (d_format d), da_width = sint (d_width d),
      da_height = sint (d_height d), da_format = ahb_format_to_drm (d_format d), da_modifier = AHB_MOD_INVALID\<rparr>"
    using dmabuf by (auto simp: ahb_buffer_get_dmabuf_def same d_def [symmetric] Let_def split: option.splits if_splits)
  have len32: "LENGTH(32) = 32" by simp
  have wide: "unat (ucast x * ucast (bpp_for_ahb_format f) :: u64) = unat x * unat (bpp_for_ahb_format f)" for x f :: u32
  proof -
    have "unat x * unat (bpp_for_ahb_format f) \<le> unat x * 4" using small by (rule mult_le_mono2)
    also have "unat x * 4 < 2 ^ 32 * 4"
      by (rule mult_strict_right_mono) (use unsigned_less [of x, where ?'a = nat] in simp_all)
    also have "(2 ^ 32 * 4 :: nat) \<le> 2 ^ 64" by simp
    finally have "unat x * unat (bpp_for_ahb_format f) < 2 ^ 64" .
    then show ?thesis by (simp add: unat_word_ariths unat_ucast_u64)
  qed
  have cpu: "f = da_format a \<and> ucast s = da_stride a \<and>
      unat s = unat (d_stride (ab_desc b)) * unat (bpp_for_ahb_format (d_format (ab_desc b)))"
    if "al_bufs st p = Some b" "fst (ahb_buffer_begin_data_ptr_access pf p rd wr st) = Some (addr, f, s)" for p st addr f s
  proof -
    have s: "s = ucast (d_stride d) * ucast (bpp_for_ahb_format (d_format d))" "f = ahb_format_to_drm (d_format d)"
      using that by (auto simp: ahb_buffer_begin_data_ptr_access_def same d_def [symmetric] Let_def split: prod.splits if_splits)
    have "unat (ucast s :: u32) = unat s mod 2 ^ 32" by (simp add: unsigned_ucast_eq take_bit_eq_mod)
    also have "unat s = unat (d_stride d) * unat (bpp_for_ahb_format (d_format d))" unfolding s(1) by (rule wide)
    also have "\<dots> mod 2 ^ 32 = unat (d_stride d * bpp_for_ahb_format (d_format d))"
      unfolding unat_word_ariths(2) len32 ..
    finally have "unat (ucast s :: u32) = unat (d_stride d * bpp_for_ahb_format (d_format d))" .
    then have "ucast s = d_stride d * bpp_for_ahb_format (d_format d)" by (rule unsigned_word_eqI)
    then show ?thesis using wide by (simp add: s a same d_def)
  qed
  show ?thesis
    using h stride cpu
    by (simp add: a gbm_bo_get_stride_def gbm_bo_get_format_def gbm_bo_get_width_def gbm_bo_get_height_def
      gbm_bo_get_modifier_def gbm_bo_get_plane_count_def gbm_bo_get_offset_def gbm_bo_get_fd_def
      AHB_MOD_INVALID_def DRM_FORMAT_MOD_INVALID_def restore bpp d_def [symmetric])
qed

theorem layouts_agree_witness:
  "\<exists>a. ahb_buffer_get_dmabuf plain_platform \<lparr>ab_width = 32, ab_height = 8, ab_ahb = 0,
      ab_desc = \<lparr>d_width = 32, d_height = 8, d_layers = 1, d_format = AHB_R5G6B5, d_usage = 0, d_stride = 64\<rparr>,
      ab_locked_data = None\<rparr> = Some a \<and> da_stride a = 128 \<and> da_fd a = 107"
proof -
  let ?d = "\<lparr>d_width = 32, d_height = 8, d_layers = 1, d_format = AHB_R5G6B5, d_usage = 0, d_stride = 64\<rparr>"
  let ?b = "\<lparr>ab_width = 32, ab_height = 8, ab_ahb = 0, ab_desc = ?d, ab_locked_data = None\<rparr>"
  let ?g = "\<lparr>bo_device = 0, bo_ahb = 0, bo_desc = ?d, bo_format = FMT_RGB565, bo_stride = 128,
     bo_user_data = None, bo_user_data_destroy = None, bo_map_data = None, bo_mapped = False\<rparr>"
  obtain a where a: "ahb_buffer_get_dmabuf plain_platform ?b = Some a"
    by (simp add: ahb_buffer_get_dmabuf_def plain_platform_def Let_def)
  have fmt: "drm_format_to_ahb FMT_RGB565 = AHB_R5G6B5" "AHB_R5G6B5 \<noteq> 0"
    by (simp_all add: drm_format_to_ahb_def drm_ahb_format_table_def format_values ahb_codes)
  have bpp: "gbm_format_bpp FMT_RGB565 = 2" by (simp add: gbm_format_bpp_def format_table_def format_values)
  have "da_stride a = gbm_bo_get_stride (Some ?g) \<and> da_fd a = gbm_bo_get_fd plain_platform (Some ?g)"
    using layouts_agree [of ?g ?b plain_platform a] a fmt bpp by simp
  then show ?thesis using a by (auto simp: gbm_bo_get_stride_def gbm_bo_get_fd_def plain_platform_def)
qed

end
