(* ===== verification/Netstub.thy ===== *)
theory Netstub
  imports Prelude "HOL-Library.Signed_Division"
begin

text \<open>
  \<^verbatim>\<open>shims/native/netstub/netstub.c\<close>: the replacement of \<^verbatim>\<open>getifaddrs\<close> and \<^verbatim>\<open>freeifaddrs\<close> that
  reads \<^verbatim>\<open>/proc/net\<close> instead of opening a netlink socket, and the crash handler that comes with it.
  Text is a list of characters without NUL, its end the terminating NUL. The contents of the files
  and the answers of the ioctls are parameters. List nodes live in a heap by pointer.
\<close>

definition blank :: "char \<Rightarrow> bool" where
  "blank c \<longleftrightarrow> c = CHR '' '' \<or> c = CHR 0x09"

definition IFNAMSIZ :: nat where "IFNAMSIZ = 16"
definition MAX_INTERFACES :: nat where "MAX_INTERFACES = 64"

subsection \<open>Hexadecimal numbers\<close>

definition hex_digit :: "char \<Rightarrow> u64 option" where
  "hex_digit c =
     (let n = of_char c :: nat in
      if 48 \<le> n \<and> n \<le> 57 then Some (of_nat (n - 48))
      else if 97 \<le> n \<and> n \<le> 102 then Some (of_nat (n - 97 + 10))
      else if 65 \<le> n \<and> n \<le> 70 then Some (of_nat (n - 65 + 10))
      else None)"

fun parse_hex_loop :: "u64 \<Rightarrow> bool \<Rightarrow> string \<Rightarrow> u64 \<times> bool \<times> string" where
  "parse_hex_loop val found [] = (val, found, [])"
| "parse_hex_loop val found (c # p) =
     (case hex_digit c of Some d \<Rightarrow> parse_hex_loop (val * 16 + d) True p | None \<Rightarrow> (val, found, c # p))"

definition parse_hex :: "string \<Rightarrow> u64 \<times> string" where
  "parse_hex s =
     (case parse_hex_loop 0 False (dropWhile blank s) of
        (val, found, p) \<Rightarrow> (val, if found then p else s))"

subsection \<open>Reading lines\<close>

text \<open>\<^verbatim>\<open>fgets\<close> with a buffer of \<open>n\<close> bytes: at most \<open>n - 1\<close> characters, up to and with a newline.\<close>

fun fgets_take :: "nat \<Rightarrow> string \<Rightarrow> string \<times> string" where
  "fgets_take 0 s = ([], s)"
| "fgets_take (Suc n) [] = ([], [])"
| "fgets_take (Suc n) (c # s) =
     (if c = CHR 0x0A then ([c], s) else case fgets_take n s of (l, r) \<Rightarrow> (c # l, r))"

definition fgets :: "nat \<Rightarrow> string \<Rightarrow> (string \<times> string) option" where
  "fgets n s = (if s = [] then None else Some (fgets_take (n - 1) s))"

lemma fgets_take_length: "fgets_take n s = (l, r) \<Longrightarrow> length r \<le> length s \<and> (0 < n \<longrightarrow> s \<noteq> [] \<longrightarrow> length r < length s)"
proof (induction n s arbitrary: l r rule: fgets_take.induct)
  case (3 n c s)
  then show ?case by (fastforce split: if_splits prod.splits)
qed auto

subsection \<open>List entries\<close>

datatype sockaddr = Sa_zero | Sa_raw bytes | Sa_in6 bytes u32

record ifaddrs =
  ifa_name :: string
  ifa_flags :: u32
  ifa_addr :: sockaddr
  ifa_netmask :: sockaddr
  ifa_broadaddr :: "sockaddr option"
  ifa_next :: "nat option"

text \<open>
  The heap of entries: the live ones, whether the n-th \<^verbatim>\<open>calloc\<close> from now on succeeds, and
  \<open>ns_fault\<close> for the use of a freed entry.
\<close>

record netstub =
  ns_heap :: "nat \<rightharpoonup> ifaddrs"
  ns_fresh :: nat
  ns_calloc :: "bool list"
  ns_fault :: bool

definition alloc_entry :: "string \<Rightarrow> netstub \<Rightarrow> nat option \<times> netstub" where
  "alloc_entry ifname st =
     (case ns_calloc st of
        False # mem \<Rightarrow> (None, st\<lparr>ns_calloc := mem\<rparr>)
      | mem \<Rightarrow>
          (Some (ns_fresh st),
           st\<lparr>ns_heap := (ns_heap st)(ns_fresh st \<mapsto>
                \<lparr>ifa_name = take (IFNAMSIZ - 1) ifname, ifa_flags = 0, ifa_addr = Sa_zero, ifa_netmask = Sa_zero,
                 ifa_broadaddr = Some Sa_zero, ifa_next = None\<rparr>),
              ns_fresh := ns_fresh st + 1, ns_calloc := tl mem\<rparr>))"

definition set_entry :: "nat \<Rightarrow> (ifaddrs \<Rightarrow> ifaddrs) \<Rightarrow> netstub \<Rightarrow> netstub" where
  "set_entry p f st =
     (case ns_heap st p of None \<Rightarrow> st\<lparr>ns_fault := True\<rparr>
      | Some e \<Rightarrow> st\<lparr>ns_heap := (ns_heap st)(p \<mapsto> f e)\<rparr>)"

definition prepend :: "nat option \<Rightarrow> nat \<Rightarrow> netstub \<Rightarrow> nat option \<times> netstub" where
  "prepend head entry st = (Some entry, set_entry entry (\<lambda>e. e\<lparr>ifa_next := head\<rparr>) st)"

subsection \<open>The kernel's answers\<close>

text \<open>Per interface name: address, flags (a \<^verbatim>\<open>short\<close>), netmask and broadcast address.\<close>

record if_ioctl =
  si_addr :: "string \<Rightarrow> bytes option"
  si_flags :: "string \<Rightarrow> u16 option"
  si_netmask :: "string \<Rightarrow> bytes option"
  si_brdaddr :: "string \<Rightarrow> bytes option"

definition IFF_LOOPBACK :: u32 where "IFF_LOOPBACK = 8"
definition IFF_POINTOPOINT :: u32 where "IFF_POINTOPOINT = 16"

definition get_if_flags :: "if_ioctl \<Rightarrow> string \<Rightarrow> u32 option" where
  "get_if_flags k ifname = map_option scast (si_flags k (take (IFNAMSIZ - 1) ifname))"

text \<open>\<^verbatim>\<open>make_ipv6_mask\<close>: the division and remainder are C's, rounding towards zero.\<close>

definition make_ipv6_mask :: "int \<Rightarrow> bytes" where
  "make_ipv6_mask prefix_len =
     (let full_bytes = prefix_len sdiv 8; remaining = prefix_len smod 8;
          i = nat (min full_bytes 16);
          p = replicate i 0xFF @ replicate (16 - i) 0
      in if i < 16 \<and> remaining \<noteq> 0 then p[i := ucast (push_bit (nat (8 - remaining)) (0xFF :: u32))] else p)"

subsection \<open>/proc/net/dev\<close>

text \<open>The name in a line, \<open>None\<close> when the line has no colon or nothing before it.\<close>

definition interface_name :: "string \<Rightarrow> string option" where
  "interface_name line =
     (if CHR '':'' \<notin> set line then None
      else let start = dropWhile blank (takeWhile (\<lambda>c. c \<noteq> CHR '':'') line)
           in if start = [] then None else Some (take (IFNAMSIZ - 1) start))"

function enumerate_loop :: "nat \<Rightarrow> string list \<Rightarrow> string \<Rightarrow> string list" where
  "enumerate_loop limit names fp =
     (case fgets 512 fp of
        None \<Rightarrow> names
      | Some (line, fp') \<Rightarrow>
          if length names < limit
          then enumerate_loop limit (case interface_name line of None \<Rightarrow> names | Some n \<Rightarrow> names @ [n]) fp'
          else names)"
  by pat_completeness auto
termination
proof (relation "measure (\<lambda>(limit, names, fp). length fp)")
  fix limit :: nat and names :: "string list" and fp line fp' p
  assume "fgets 512 fp = Some p" "(line, fp') = p"
  then show "((limit, case interface_name line of None \<Rightarrow> names | Some n \<Rightarrow> names @ [n], fp'), limit, names, fp)
      \<in> measure (\<lambda>(limit, names, fp). length fp)"
    using fgets_take_length [of 511 fp line fp'] by (auto simp: fgets_def split: if_splits)
qed simp

declare enumerate_loop.simps [simp del]

definition enumerate_interfaces :: "string option \<Rightarrow> nat \<Rightarrow> string list" where
  "enumerate_interfaces dev limit =
     (case dev of None \<Rightarrow> []
      | Some fp \<Rightarrow>
        (case fgets 512 fp of None \<Rightarrow> []
         | Some (_, fp1) \<Rightarrow>
           (case fgets 512 fp1 of None \<Rightarrow> []
            | Some (_, fp2) \<Rightarrow> enumerate_loop limit [] fp2)))"

subsection \<open>IPv4 entries\<close>

fun collect_ipv4 :: "if_ioctl \<Rightarrow> string list \<Rightarrow> nat option \<Rightarrow> netstub \<Rightarrow> nat option \<times> netstub" where
  "collect_ipv4 k [] head st = (head, st)"
| "collect_ipv4 k (name # names) head st =
     (case si_addr k (take (IFNAMSIZ - 1) name) of
        None \<Rightarrow> collect_ipv4 k names head st
      | Some a \<Rightarrow>
        (case alloc_entry name st of
           (None, st1) \<Rightarrow> collect_ipv4 k names head st1
         | (Some ifa, st1) \<Rightarrow>
             let st2 = set_entry ifa (\<lambda>e. e\<lparr>ifa_addr := Sa_raw a\<rparr>) st1;
                 flags = (case get_if_flags k name of None \<Rightarrow> 0 | Some fl \<Rightarrow> fl);
                 st3 = (case get_if_flags k name of None \<Rightarrow> st2
                        | Some fl \<Rightarrow> set_entry ifa (\<lambda>e. e\<lparr>ifa_flags := fl\<rparr>) st2);
                 st4 = (case si_netmask k (take (IFNAMSIZ - 1) name) of None \<Rightarrow> st3
                        | Some m \<Rightarrow> set_entry ifa (\<lambda>e. e\<lparr>ifa_netmask := Sa_raw m\<rparr>) st3);
                 st5 = (if flags AND IFF_LOOPBACK = 0 \<and> flags AND IFF_POINTOPOINT = 0
                        then case si_brdaddr k (take (IFNAMSIZ - 1) name) of None \<Rightarrow> st4
                             | Some b \<Rightarrow> set_entry ifa (\<lambda>e. e\<lparr>ifa_broadaddr := Some (Sa_raw b)\<rparr>) st4
                        else st4);
                 (head', st6) = prepend head ifa st5
             in collect_ipv4 k names head' st6))"

subsection \<open>IPv6 entries\<close>

record inet6_line =
  in6_hex :: string
  in6_idx :: u64
  in6_prefix :: u64
  in6_scope :: u64
  in6_name :: string

text \<open>Up to 32 hexadecimal digits and what follows them.\<close>

fun take_hex :: "nat \<Rightarrow> string \<Rightarrow> string \<times> string" where
  "take_hex 0 p = ([], p)"
| "take_hex (Suc n) [] = ([], [])"
| "take_hex (Suc n) (c # p) =
     (if hex_digit c = None then ([], c # p) else case take_hex n p of (h, r) \<Rightarrow> (c # h, r))"

text \<open>One numeric field: a blank, then a number; the position after it.\<close>

definition hex_field :: "string \<Rightarrow> (u64 \<times> string) option" where
  "hex_field p =
     (case p of [] \<Rightarrow> None
      | c # _ \<Rightarrow>
        if \<not> blank c then None
        else let (v, endp) = parse_hex p in if length endp = length p then None else Some (v, endp))"

definition name_char :: "char \<Rightarrow> bool" where
  "name_char c \<longleftrightarrow> c \<noteq> CHR 0x0A \<and> \<not> blank c"

definition parse_inet6_line :: "string \<Rightarrow> inet6_line option" where
  "parse_inet6_line line =
     (case take_hex 32 (dropWhile blank line) of (hex, p0) \<Rightarrow>
        if length hex \<noteq> 32 then None
        else case hex_field p0 of None \<Rightarrow> None | Some (idx, p1) \<Rightarrow>
          (case hex_field p1 of None \<Rightarrow> None | Some (prefix_len, p2) \<Rightarrow>
          (case hex_field p2 of None \<Rightarrow> None | Some (scope, p3) \<Rightarrow>
          (case hex_field p3 of None \<Rightarrow> None | Some (flags, p4) \<Rightarrow>
             let name = takeWhile name_char (take (IFNAMSIZ - 1) (dropWhile blank p4)) in
             if name = [] then None
             else Some \<lparr>in6_hex = hex, in6_idx = idx, in6_prefix = prefix_len, in6_scope = scope, in6_name = name\<rparr>))))"

definition in6_bytes :: "string \<Rightarrow> bytes" where
  "in6_bytes hex = map (\<lambda>i. ucast (fst (parse_hex [hex ! (i * 2), hex ! (i * 2 + 1)]))) [0..<16]"

definition add_ipv6 :: "if_ioctl \<Rightarrow> inet6_line \<Rightarrow> nat option \<Rightarrow> netstub \<Rightarrow> nat option \<times> netstub" where
  "add_ipv6 k l head st =
     (case alloc_entry (in6_name l) st of
        (None, st1) \<Rightarrow> (head, st1)
      | (Some ifa, st1) \<Rightarrow>
          let st2 = set_entry ifa (\<lambda>e. e\<lparr>ifa_addr := Sa_in6 (in6_bytes (in6_hex l))
                      (if in6_scope l = 0x20 then ucast (in6_idx l) else 0)\<rparr>) st1;
              st3 = set_entry ifa (\<lambda>e. e\<lparr>ifa_netmask :=
                      Sa_in6 (make_ipv6_mask (sint (ucast (in6_prefix l) :: u32))) 0\<rparr>) st2;
              st4 = (case get_if_flags k (in6_name l) of None \<Rightarrow> st3
                     | Some fl \<Rightarrow> set_entry ifa (\<lambda>e. e\<lparr>ifa_flags := fl\<rparr>) st3);
              st5 = set_entry ifa (\<lambda>e. e\<lparr>ifa_broadaddr := None\<rparr>) st4
          in prepend head ifa st5)"

function collect_ipv6_loop :: "if_ioctl \<Rightarrow> string \<Rightarrow> nat option \<Rightarrow> netstub \<Rightarrow> nat option \<times> netstub" where
  "collect_ipv6_loop k fp head st =
     (case fgets 256 fp of
        None \<Rightarrow> (head, st)
      | Some (line, fp') \<Rightarrow>
        (case parse_inet6_line line of
           None \<Rightarrow> collect_ipv6_loop k fp' head st
         | Some l \<Rightarrow> let (head', st') = add_ipv6 k l head st in collect_ipv6_loop k fp' head' st'))"
  by pat_completeness auto
termination
proof (relation "measure (\<lambda>(k, fp, head, st). length fp)", goal_cases)
  case (2 k fp head st p line fp')
  then show ?case using fgets_take_length [of 255 fp line fp'] by (auto simp: fgets_def split: if_splits)
next
  case (3 k fp head st p line fp' l q head' st')
  then show ?case using fgets_take_length [of 255 fp line fp'] by (auto simp: fgets_def split: if_splits)
qed simp

declare collect_ipv6_loop.simps [simp del]

definition collect_ipv6 :: "if_ioctl \<Rightarrow> string option \<Rightarrow> nat option \<Rightarrow> netstub \<Rightarrow> nat option \<times> netstub" where
  "collect_ipv6 k inet6 head st =
     (case inet6 of None \<Rightarrow> (head, st) | Some fp \<Rightarrow> collect_ipv6_loop k fp head st)"

subsection \<open>The interposed functions\<close>

text \<open>
  \<open>out\<close> says whether the caller's pointer is non-null, \<open>sock\<close> is the result of \<^verbatim>\<open>socket\<close> (its own
  \<^verbatim>\<open>errno\<close> stands when it fails). The result is the return value with the error this code sets, and
  what is stored through the caller's pointer.
\<close>

definition getifaddrs ::
  "bool \<Rightarrow> int \<Rightarrow> string option \<Rightarrow> string option \<Rightarrow> if_ioctl \<Rightarrow> netstub \<Rightarrow> (int \<times> errno option) \<times> nat option \<times> netstub" where
  "getifaddrs out sock dev inet6 k st =
     (if \<not> out then ((-1, Some EINVAL), None, st)
      else if sock < 0 then ((-1, None), None, st)
      else
        let names = enumerate_interfaces dev MAX_INTERFACES;
            (head, st1) = collect_ipv4 k names None st;
            (head', st2) = collect_ipv6 k inet6 head st1
        in ((0, None), head', st2))"

text \<open>The walk of \<^verbatim>\<open>freeifaddrs\<close>, which follows pointers and may not end on a cyclic list.\<close>

partial_function (option) freeifaddrs :: "nat option \<Rightarrow> netstub \<Rightarrow> netstub option" where
  "freeifaddrs ifa st =
     (case ifa of None \<Rightarrow> Some st
      | Some p \<Rightarrow>
        (case ns_heap st p of
           None \<Rightarrow> Some (st\<lparr>ns_fault := True\<rparr>)
         | Some e \<Rightarrow> freeifaddrs (ifa_next e) (st\<lparr>ns_heap := (ns_heap st)(p := None)\<rparr>)))"

end
