(* ===== verification/NetstubProps.thy ===== *)
theory NetstubProps
  imports Netstub "HOL-Library.Sublist"
begin

text \<open>
  Properties of the address list: the parser reads back what the kernel prints, the netmask is the
  prefix, and the list is well formed, complete and freed exactly once.
\<close>

subsection \<open>What the kernel prints\<close>

text \<open>
  The format of \<^verbatim>\<open>/proc/net/if_inet6\<close>: the address as 32 lower-case digits, then index, prefix
  length, scope and flags as \<^verbatim>\<open>%02x\<close>, then the name right-aligned in eight columns.
\<close>

definition hex_char :: "nat \<Rightarrow> char" where
  "hex_char n = ''0123456789abcdef'' ! n"

fun hex_of :: "nat \<Rightarrow> string" where
  "hex_of n = (if n < 16 then [hex_char n] else hex_of (n div 16) @ [hex_char (n mod 16)])"

declare hex_of.simps [simp del]

definition hex02 :: "nat \<Rightarrow> string" where
  "hex02 n = (if n < 16 then CHR ''0'' # hex_of n else hex_of n)"

definition hex_bytes :: "bytes \<Rightarrow> string" where
  "hex_bytes a = concat (map (\<lambda>b. [hex_char (unat b div 16), hex_char (unat b mod 16)]) a)"

definition kernel_line :: "bytes \<Rightarrow> u64 \<Rightarrow> u64 \<Rightarrow> u64 \<Rightarrow> u64 \<Rightarrow> string \<Rightarrow> string" where
  "kernel_line a idx plen scope flags name =
     hex_bytes a @ '' '' @ hex02 (unat idx) @ '' '' @ hex02 (unat plen) @ '' '' @ hex02 (unat scope) @
     '' '' @ hex02 (unat flags) @ '' '' @ replicate (8 - length name) (CHR '' '') @ name @ [CHR 0x0A]"

lemma hex_digit_char: "n < 16 \<Longrightarrow> hex_digit (hex_char n) = Some (of_nat n)"
proof -
  have "\<forall>n \<in> set [0..<16]. hex_digit (hex_char n) = Some (of_nat n)" by code_simp
  then show "n < 16 \<Longrightarrow> hex_digit (hex_char n) = Some (of_nat n)" by simp
qed

lemma hex_digit_blank: "blank c \<Longrightarrow> hex_digit c = None"
  by (auto simp: blank_def hex_digit_def Let_def)

definition is_hex :: "string \<Rightarrow> bool" where
  "is_hex s \<longleftrightarrow> (\<forall>c \<in> set s. hex_digit c \<noteq> None)"

lemma is_hex_simps [simp]:
  "is_hex []" "is_hex (c # s) \<longleftrightarrow> hex_digit c \<noteq> None \<and> is_hex s" "is_hex (s @ t) \<longleftrightarrow> is_hex s \<and> is_hex t"
  by (auto simp: is_hex_def)

lemma is_hex_of [simp]: "is_hex (hex_of n)"
proof (induction n rule: hex_of.induct)
  case (1 n)
  have "n mod 16 < 16" by simp
  then show ?case using 1 by (subst hex_of.simps) (simp add: hex_digit_char)
qed

lemma is_hex_02 [simp]: "is_hex (hex02 n)"
  by (simp add: hex02_def hex_digit_def Let_def)

lemma is_hex_bytes [simp]: "is_hex (hex_bytes a)"
proof (induction a)
  case (Cons b a)
  have "unat b < 2 ^ 8" using unsigned_less [of b, where ?'a = nat] by simp
  then have "unat b div 16 < 16" by simp
  then show ?case using Cons by (simp add: hex_bytes_def hex_digit_char)
qed (simp add: hex_bytes_def)

definition hex_value :: "u64 \<Rightarrow> string \<Rightarrow> u64" where
  "hex_value v s = foldl (\<lambda>v c. v * 16 + the (hex_digit c)) v s"

lemma parse_hex_loop_digits:
  "is_hex s \<Longrightarrow> parse_hex_loop v f (s @ r) = parse_hex_loop (hex_value v s) (f \<or> s \<noteq> []) r"
  by (induction s arbitrary: v f) (auto simp: hex_value_def)

lemma parse_hex_loop_stop:
  "r = [] \<or> hex_digit (hd r) = None \<Longrightarrow> parse_hex_loop v f r = (v, f, r)"
  by (cases r) auto

lemma hex_value_of: "hex_value 0 (hex_of n) = of_nat n"
proof (induction n rule: hex_of.induct)
  case (1 n)
  show ?case
  proof (cases "n < 16")
    case True
    then show ?thesis by (subst hex_of.simps) (simp add: hex_value_def hex_digit_char)
  next
    case False
    have "of_nat (n div 16) * 16 + of_nat (n mod 16) = (of_nat (n div 16 * 16 + n mod 16) :: u64)"
      by (simp only: of_nat_add of_nat_mult of_nat_numeral)
    then show ?thesis using False 1 by (subst hex_of.simps) (simp add: hex_value_def hex_digit_char)
  qed
qed

lemma hex_of_ne [simp]: "hex_of n \<noteq> []"
  by (subst hex_of.simps) simp

lemma hex02_value: "hex_value 0 (hex02 n) = of_nat n" and hex02_ne: "hex02 n \<noteq> []"
  using hex_value_of [of n] by (simp_all add: hex02_def hex_value_def hex_digit_def Let_def)

lemma dropWhile_hex: "is_hex s \<Longrightarrow> s \<noteq> [] \<Longrightarrow> dropWhile blank (s @ r) = s @ r"
  using hex_digit_blank by (cases s) auto

lemma parse_hex_digits:
  assumes "is_hex s" "s \<noteq> []" "r = [] \<or> hex_digit (hd r) = None"
  shows "parse_hex (s @ r) = (hex_value 0 s, r)"
  using assms by (simp add: parse_hex_def dropWhile_hex parse_hex_loop_digits parse_hex_loop_stop)

lemma hex_field_02:
  assumes "r = [] \<or> hex_digit (hd r) = None"
  shows "hex_field (CHR '' '' # hex02 n @ r) = Some (of_nat n, r)"
proof -
  have "dropWhile blank (CHR '' '' # hex02 n @ r) = hex02 n @ r" using dropWhile_hex [of "hex02 n" r] hex02_ne
    by (simp add: blank_def)
  then have "parse_hex (CHR '' '' # hex02 n @ r) = (of_nat n, r)"
    using assms hex02_value [of n] hex02_ne
    by (simp add: parse_hex_def parse_hex_loop_digits parse_hex_loop_stop)
  then show ?thesis by (simp add: hex_field_def blank_def)
qed

lemma take_hex_digits: "is_hex s \<Longrightarrow> take_hex (length s) (s @ r) = (s, r)"
  by (induction s) auto

lemma length_hex_bytes [simp]: "length (hex_bytes a) = 2 * length a"
  by (induction a) (simp_all add: hex_bytes_def)

lemma hex_bytes_nth:
  "i < length a \<Longrightarrow> hex_bytes a ! (i * 2) = hex_char (unat (a ! i) div 16) \<and>
     hex_bytes a ! (i * 2 + 1) = hex_char (unat (a ! i) mod 16)"
proof (induction a arbitrary: i)
  case (Cons b a)
  then show ?case by (cases i) (simp_all add: hex_bytes_def)
qed simp

lemma ucast_ucast_u8: "(ucast (ucast (b :: u8) :: u64) :: u8) = b"
  by (rule bit_word_eqI) (simp add: bit_simps)

lemma in6_bytes_hex:
  assumes "length a = 16"
  shows "in6_bytes (hex_bytes a) = a"
proof (rule nth_equalityI)
  show "length (in6_bytes (hex_bytes a)) = length a" by (simp add: in6_bytes_def assms)
  fix i assume "i < length (in6_bytes (hex_bytes a))"
  then have i: "i < length a" "i < 16" using assms by (simp_all add: in6_bytes_def)
  define b where "b = a ! i"
  have "unat b < 256" using unsigned_less [of b, where ?'a = nat] by simp
  then have d: "unat b div 16 < 16" "unat b mod 16 < 16" by simp_all
  have "parse_hex ([hex_char (unat b div 16), hex_char (unat b mod 16)] @ []) =
      (hex_value 0 [hex_char (unat b div 16), hex_char (unat b mod 16)], [])"
    using d by (intro parse_hex_digits) (simp_all add: hex_digit_char)
  moreover have "hex_value 0 [hex_char (unat b div 16), hex_char (unat b mod 16)] = of_nat (unat b)"
  proof -
    have "hex_value 0 [hex_char (unat b div 16), hex_char (unat b mod 16)] =
        of_nat (unat b div 16) * 16 + of_nat (unat b mod 16)"
      using d by (simp add: hex_value_def hex_digit_char)
    also have "\<dots> = (of_nat (unat b div 16 * 16 + unat b mod 16) :: u64)"
      by (simp only: of_nat_add of_nat_mult of_nat_numeral)
    finally show ?thesis by simp
  qed
  ultimately have "(ucast (fst (parse_hex [hex_char (unat b div 16), hex_char (unat b mod 16)])) :: u8) = b"
    by (simp add: ucast_ucast_u8)
  then show "in6_bytes (hex_bytes a) ! i = a ! i"
    using i hex_bytes_nth [OF i(1)] by (simp add: in6_bytes_def b_def)
qed

text \<open>At most 117 characters: far from the reader's 255.\<close>

lemma length_hex_of: "n < 16 ^ Suc k \<Longrightarrow> length (hex_of n) \<le> Suc k"
proof (induction k arbitrary: n)
  case 0
  then show ?case by (subst hex_of.simps) simp
next
  case (Suc k)
  have "n div 16 < 16 ^ Suc k" using Suc.prems by (simp add: less_mult_imp_div_less)
  then show ?case using Suc.IH [of "n div 16"] by (subst hex_of.simps) auto
qed

lemma length_hex02: "length (hex02 (unat (x :: u64))) \<le> 16"
proof -
  have "unat x < 16 ^ Suc 15" using unsigned_less [of x, where ?'a = nat] by simp
  then show ?thesis using length_hex_of [of "unat x" 15] length_hex_of [of "unat x" 0] by (auto simp: hex02_def)
qed

lemma fgets_take_line:
  "\<lbrakk>CHR 0x0A \<notin> set l; length l < n\<rbrakk> \<Longrightarrow> fgets_take n (l @ CHR 0x0A # r) = (l @ [CHR 0x0A], r)"
proof (induction l arbitrary: n)
  case Nil
  then show ?case by (cases n) simp_all
next
  case (Cons c l)
  then show ?case by (cases n) auto
qed

lemma newline_not_hex: "is_hex s \<Longrightarrow> CHR 0x0A \<notin> set s"
  by (auto simp: is_hex_def hex_digit_def Let_def)

text \<open>
  C29: Reading \<^verbatim>\<open>/proc/net/if_inet6\<close>. A line as the kernel prints it, for any address, index, prefix
  length, scope, flags and any interface name of at most 15 characters without blanks, is read as one
  line whatever follows it, and parses to exactly these values; the 16 bytes of the address come
  back.
\<close>

theorem inet6_line_roundtrip:
  assumes a: "length a = 16" and name: "name \<noteq> []" "length name < IFNAMSIZ" "\<forall>c \<in> set name. name_char c"
  shows "fgets 256 (kernel_line a idx plen scope flags name @ rest) =
      Some (kernel_line a idx plen scope flags name, rest) \<and>
    (\<exists>l. parse_inet6_line (kernel_line a idx plen scope flags name) = Some l \<and>
      in6_bytes (in6_hex l) = a \<and> in6_idx l = idx \<and> in6_prefix l = plen \<and> in6_scope l = scope \<and> in6_name l = name)"
proof
  let ?pad = "replicate (8 - length name) (CHR '' '')"
  define body where "body = hex_bytes a @ '' '' @ hex02 (unat idx) @ '' '' @ hex02 (unat plen) @ '' '' @
     hex02 (unat scope) @ '' '' @ hex02 (unat flags) @ '' '' @ ?pad @ name"
  have line: "kernel_line a idx plen scope flags name = body @ [CHR 0x0A]"
    by (simp add: kernel_line_def body_def)
  have nl: "CHR 0x0A \<notin> set body"
    using name newline_not_hex [OF is_hex_02] newline_not_hex [OF is_hex_bytes]
    by (auto simp: body_def name_char_def)
  have "length body < 255"
    using a name length_hex02 [of idx] length_hex02 [of plen] length_hex02 [of scope] length_hex02 [of flags]
    by (simp add: body_def IFNAMSIZ_def)
  then have "fgets_take 255 (body @ CHR 0x0A # rest) = (body @ [CHR 0x0A], rest)"
    by (intro fgets_take_line nl) simp
  then show "fgets 256 (kernel_line a idx plen scope flags name @ rest) =
      Some (kernel_line a idx plen scope flags name, rest)"
    by (simp add: line fgets_def)
  have sp: "hex_digit (CHR '' '') = None" by (simp add: hex_digit_blank blank_def)
  have skip: "dropWhile blank (kernel_line a idx plen scope flags name) = kernel_line a idx plen scope flags name"
    unfolding kernel_line_def using a length_hex_bytes [of a] by (intro dropWhile_hex) (simp, fastforce)
  have bl: "blank (CHR '' '')" by (simp add: blank_def)
  have pad: "dropWhile blank (?pad @ name @ [CHR 0x0A]) = name @ [CHR 0x0A]"
  proof -
    have "\<not> blank (hd name)" using name(1,3) by (simp add: name_char_def)
    then have "dropWhile blank (name @ [CHR 0x0A]) = name @ [CHR 0x0A]"
      using name(1) by (subst dropWhile_eq_self_iff) simp
    moreover have "dropWhile blank (?pad @ name @ [CHR 0x0A]) = dropWhile blank (name @ [CHR 0x0A])"
      by (rule dropWhile_append2) (auto simp: blank_def)
    ultimately show ?thesis by simp
  qed
  have nm: "takeWhile name_char (take 15 (name @ [CHR 0x0A])) = name"
  proof -
    have "take 15 (name @ [CHR 0x0A]) = name @ take (15 - length name) [CHR 0x0A]"
      using name by (simp add: IFNAMSIZ_def)
    moreover have "takeWhile name_char (take (15 - length name) [CHR 0x0A]) = []"
      by (cases "15 - length name") (simp_all add: name_char_def)
    ultimately show ?thesis using name by (simp add: takeWhile_append2)
  qed
  have digits: "take_hex 32 (hex_bytes a @ r) = (hex_bytes a, r)" for r
    using take_hex_digits [of "hex_bytes a" r] a by simp
  have "parse_inet6_line (kernel_line a idx plen scope flags name) =
      Some \<lparr>in6_hex = hex_bytes a, in6_idx = idx, in6_prefix = plen, in6_scope = scope, in6_name = name\<rparr>"
    unfolding parse_inet6_line_def skip unfolding kernel_line_def
    using name(1) by (simp add: digits a hex_field_02 sp bl pad nm IFNAMSIZ_def Let_def del: take_append)
  then show "\<exists>l. parse_inet6_line (kernel_line a idx plen scope flags name) = Some l \<and>
      in6_bytes (in6_hex l) = a \<and> in6_idx l = idx \<and> in6_prefix l = plen \<and> in6_scope l = scope \<and> in6_name l = name"
    using in6_bytes_hex [OF a] by simp
qed

theorem inet6_line_roundtrip_witness:
  "\<exists>l. parse_inet6_line (kernel_line (replicate 15 0 @ [1]) 1 0x80 0x10 0x80 ''lo'') = Some l \<and> in6_prefix l = 128"
  using inet6_line_roundtrip [of "replicate 15 0 @ [1]" "''lo''" 1 "0x80" "0x10" "0x80"]
  by (fastforce simp: IFNAMSIZ_def name_char_def blank_def)

subsection \<open>The netmask\<close>

lemma c_div_mod_nonneg:
  fixes p :: int
  assumes "0 \<le> p"
  shows "p sdiv 8 = p div 8" and "p smod 8 = p mod 8"
  using assms by (cases "p = 0"; simp add: signed_divide_int_def signed_modulo_int_def)+

lemma high_bits_u8:
  assumes "r < 8" "j < 8"
  shows "bit (ucast (push_bit (8 - r) (0xFF :: u32)) :: u8) (7 - j) \<longleftrightarrow> j < r"
proof -
  have "\<forall>r \<in> set [0..<8]. \<forall>j \<in> set [0..<8]. bit (ucast (push_bit (8 - r) (0xFF :: u32)) :: u8) (7 - j) = (j < r)"
    by code_simp
  then show ?thesis using assms by simp
qed

lemma full_byte: "j < 8 \<Longrightarrow> bit (0xFF :: u8) (7 - j)"
proof -
  have "\<forall>j \<in> set [0..<8]. bit (0xFF :: u8) (7 - j)" by code_simp
  then show "j < 8 \<Longrightarrow> bit (0xFF :: u8) (7 - j)" by simp
qed

text \<open>
  The netmask of a prefix length from 0 to 128 is 16 bytes whose first bits, most significant
  first, are set, exactly as many as the prefix is long; any other prefix length, which the kernel
  does not report, gives the all-ones or the all-zero mask.
\<close>

theorem ipv6_mask_bits:
  "length (make_ipv6_mask p) = 16 \<and>
   (0 \<le> p \<and> p \<le> 128 \<longrightarrow>
     (\<forall>i < 16. \<forall>j < 8. bit (make_ipv6_mask p ! i) (7 - j) \<longleftrightarrow> int (8 * i + j) < p)) \<and>
   (128 < p \<longrightarrow> make_ipv6_mask p = replicate 16 0xFF) \<and> (p < 0 \<longrightarrow> make_ipv6_mask p = replicate 16 0)"
proof (intro conjI impI)
  show "length (make_ipv6_mask p) = 16" by (simp add: make_ipv6_mask_def Let_def)
next
  assume p: "0 \<le> p \<and> p \<le> 128"
  define q where "q = nat p"
  define f where "f = q div 8"
  define r where "r = q mod 8"
  have q: "p = int q" "q \<le> 128" using p by (simp_all add: q_def nat_le_iff)
  have fr: "q = 8 * f + r" "r < 8" "f \<le> 16" using q(2) by (simp_all add: f_def r_def)
  have m: "make_ipv6_mask p =
      (if f < 16 \<and> r \<noteq> 0 then (replicate f 0xFF @ replicate (16 - f) 0)[f := ucast (push_bit (8 - r) (0xFF :: u32))]
       else replicate f 0xFF @ replicate (16 - f) 0)"
  proof -
    have "nat (min (p div 8) 16) = f" using fr(3) by (simp add: q(1) f_def min_def nat_div_distrib)
    moreover have "p mod 8 = int r" by (simp add: q(1) r_def zmod_int)
    moreover have "nat (8 - int r) = 8 - r" by simp
    ultimately show ?thesis using c_div_mod_nonneg [of p] p by (simp add: make_ipv6_mask_def Let_def)
  qed
  show "\<forall>i<16. \<forall>j<8. bit (make_ipv6_mask p ! i) (7 - j) = (int (8 * i + j) < p)"
  proof (intro allI impI)
    fix i j :: nat assume ij: "i < 16" "j < 8"
    have lt: "(int (8 * i + j) < p) = (8 * i + j < 8 * f + r)"
      unfolding q(1) fr(1) by (rule of_nat_less_iff)
    consider "i < f" | "i = f" | "f < i" by linarith
    then show "bit (make_ipv6_mask p ! i) (7 - j) = (int (8 * i + j) < p)"
    proof cases
      case 1
      then have "make_ipv6_mask p ! i = 0xFF" by (simp add: m nth_append)
      then show ?thesis using 1 ij full_byte unfolding lt by auto
    next
      case 2
      have "make_ipv6_mask p ! i = (if r = 0 then 0 else ucast (push_bit (8 - r) (0xFF :: u32)))"
        using 2 ij by (simp add: m nth_append)
      then show ?thesis using 2 ij fr high_bits_u8 [of r j] unfolding lt by simp
    next
      case 3
      then have "make_ipv6_mask p ! i = 0" using ij by (simp add: m nth_append)
      then show ?thesis using 3 ij fr unfolding lt by simp
    qed
  qed
next
  assume "128 < p"
  then have "p sdiv 8 \<ge> 16" using c_div_mod_nonneg [of p] by simp
  then have "nat (min (p sdiv 8) 16) = 16" by simp
  then show "make_ipv6_mask p = replicate 16 0xFF" by (simp add: make_ipv6_mask_def Let_def)
next
  assume p: "p < 0"
  have d: "p sdiv 8 \<le> 0" using p by (simp add: signed_divide_int_def)
  then have f: "nat (min (p sdiv 8) 16) = 0" by simp
  have r: "- 8 < p smod 8" "p smod 8 \<le> 0"
    using p by (simp_all add: signed_modulo_int_def signed_divide_int_def minus_mod_eq_mult_div [symmetric])
  have "(ucast (push_bit (nat (8 - p smod 8)) (0xFF :: u32)) :: u8) = 0"
    using r by (intro bit_word_eqI) (auto simp: bit_simps)
  then show "make_ipv6_mask p = replicate 16 0"
    using f by (simp add: make_ipv6_mask_def Let_def numeral_eq_Suc)
qed

theorem ipv6_mask_bits_witness:
  "bit (make_ipv6_mask 64 ! 7) 0 \<and> \<not> bit (make_ipv6_mask 64 ! 8) 7"
proof -
  have *: "\<forall>i < 16. \<forall>j < 8. bit (make_ipv6_mask 64 ! i) (7 - j) \<longleftrightarrow> int (8 * i + j) < 64"
    using ipv6_mask_bits [of 64] by simp
  show ?thesis using * [rule_format, of 7 7] * [rule_format, of 8 0] by simp
qed

subsection \<open>The list\<close>

text \<open>What the list should hold, entry by entry; a node is its entry with the link.\<close>

definition ipv4_entry :: "if_ioctl \<Rightarrow> string \<Rightarrow> ifaddrs option" where
  "ipv4_entry k name =
     (let key = take (IFNAMSIZ - 1) name; flags = (case si_flags k key of None \<Rightarrow> 0 | Some fl \<Rightarrow> scast fl) in
      map_option (\<lambda>a. \<lparr>ifa_name = key, ifa_flags = flags, ifa_addr = Sa_raw a,
        ifa_netmask = (case si_netmask k key of None \<Rightarrow> Sa_zero | Some m \<Rightarrow> Sa_raw m),
        ifa_broadaddr = (if flags AND IFF_LOOPBACK = 0 \<and> flags AND IFF_POINTOPOINT = 0
           then (case si_brdaddr k key of None \<Rightarrow> Some Sa_zero | Some b \<Rightarrow> Some (Sa_raw b)) else Some Sa_zero),
        ifa_next = None\<rparr>) (si_addr k key))"

definition ipv6_entry :: "if_ioctl \<Rightarrow> inet6_line \<Rightarrow> ifaddrs" where
  "ipv6_entry k l =
     (let key = take (IFNAMSIZ - 1) (in6_name l) in
      \<lparr>ifa_name = key, ifa_flags = (case si_flags k key of None \<Rightarrow> 0 | Some fl \<Rightarrow> scast fl),
       ifa_addr = Sa_in6 (in6_bytes (in6_hex l)) (if in6_scope l = 0x20 then ucast (in6_idx l) else 0),
       ifa_netmask = Sa_in6 (make_ipv6_mask (sint (ucast (in6_prefix l) :: u32))) 0,
       ifa_broadaddr = None, ifa_next = None\<rparr>)"

fun inet6_lines :: "nat \<Rightarrow> string \<Rightarrow> inet6_line list" where
  "inet6_lines 0 fp = []"
| "inet6_lines (Suc n) fp =
     (case fgets 256 fp of None \<Rightarrow> []
      | Some (line, fp') \<Rightarrow> (case parse_inet6_line line of None \<Rightarrow> inet6_lines n fp' | Some l \<Rightarrow> l # inet6_lines n fp'))"

definition expected_entries :: "string option \<Rightarrow> string option \<Rightarrow> if_ioctl \<Rightarrow> ifaddrs list" where
  "expected_entries dev inet6 k =
     List.map_filter (ipv4_entry k) (enumerate_interfaces dev MAX_INTERFACES) @
     (case inet6 of None \<Rightarrow> [] | Some fp \<Rightarrow> map (ipv6_entry k) (inet6_lines (length fp) fp))"

text \<open>The nodes from a pointer on, in order.\<close>

fun chain :: "(nat \<rightharpoonup> ifaddrs) \<Rightarrow> nat option \<Rightarrow> nat list \<Rightarrow> bool" where
  "chain h p [] = (p = None)"
| "chain h p (q # qs) = (p = Some q \<and> (case h q of None \<Rightarrow> False | Some e \<Rightarrow> chain h (ifa_next e) qs))"

lemma chain_cong: "(\<And>q. q \<in> set qs \<Longrightarrow> h q = h' q) \<Longrightarrow> chain h p qs = chain h' p qs"
  by (induction qs arbitrary: p) (auto split: option.splits)

lemma freeifaddrs_chain:
  "\<lbrakk>chain (ns_heap st) p qs; distinct qs\<rbrakk> \<Longrightarrow>
   freeifaddrs p st = Some (st\<lparr>ns_heap := \<lambda>q. if q \<in> set qs then None else ns_heap st q\<rparr>)"
proof (induction qs arbitrary: p st)
  case Nil
  then show ?case by (subst freeifaddrs.simps) simp
next
  case (Cons q qs)
  then obtain e where e: "p = Some q" "ns_heap st q = Some e" "chain (ns_heap st) (ifa_next e) qs"
    by (auto split: option.splits)
  define st1 where "st1 = st\<lparr>ns_heap := (ns_heap st)(q := None)\<rparr>"
  have h1: "ns_heap st1 = (ns_heap st)(q := None)" by (simp add: st1_def)
  have "chain (ns_heap st1) (ifa_next e) qs"
    using e(3) Cons.prems unfolding h1 by (subst chain_cong [of _ _ "ns_heap st"]) auto
  then have "freeifaddrs (ifa_next e) st1 = Some (st1\<lparr>ns_heap := \<lambda>r. if r \<in> set qs then None else ns_heap st1 r\<rparr>)"
    using Cons.prems(2) by (intro Cons.IH) simp_all
  moreover have "(\<lambda>r. if r \<in> set qs then None else ns_heap st1 r) =
      (\<lambda>r. if r \<in> set (q # qs) then None else ns_heap st r)"
    unfolding h1 by (simp add: fun_eq_iff)
  ultimately show ?case using e by (subst freeifaddrs.simps) (simp add: st1_def)
qed

text \<open>
  \<open>built st0 st head es\<close>: since \<open>st0\<close> the entries \<open>es\<close> have been allocated, linked from \<open>head\<close> in this
  order, and nothing else has changed.
\<close>

definition built :: "netstub \<Rightarrow> netstub \<Rightarrow> nat option \<Rightarrow> ifaddrs list \<Rightarrow> bool" where
  "built st0 st head es \<longleftrightarrow>
     (\<exists>ps. distinct ps \<and> chain (ns_heap st) head ps \<and>
        es = map (\<lambda>p. (the (ns_heap st p))\<lparr>ifa_next := None\<rparr>) ps \<and>
        (\<forall>p. p \<notin> set ps \<longrightarrow> ns_heap st p = ns_heap st0 p) \<and>
        (\<forall>p \<in> set ps. ns_fresh st0 \<le> p \<and> p < ns_fresh st)) \<and>
     (\<forall>p \<ge> ns_fresh st. ns_heap st p = None) \<and> ns_fresh st0 \<le> ns_fresh st \<and> ns_fault st = ns_fault st0"

lemma built_start: "(\<forall>p \<ge> ns_fresh st. ns_heap st p = None) \<Longrightarrow> built st st None []"
  by (auto simp: built_def)

definition add_node :: "ifaddrs \<Rightarrow> nat option \<Rightarrow> netstub \<Rightarrow> netstub" where
  "add_node e head st = st\<lparr>ns_heap := (ns_heap st)(ns_fresh st \<mapsto> e\<lparr>ifa_next := head\<rparr>),
     ns_fresh := ns_fresh st + 1, ns_calloc := tl (ns_calloc st)\<rparr>"

lemma built_add:
  assumes b: "built st0 st head es" and e: "ifa_next e = None"
  shows "built st0 (add_node e head st) (Some (ns_fresh st)) (e # es)"
proof -
  obtain ps where ps: "distinct ps" "chain (ns_heap st) head ps"
    "es = map (\<lambda>p. (the (ns_heap st p))\<lparr>ifa_next := None\<rparr>) ps"
    "\<And>p. p \<notin> set ps \<Longrightarrow> ns_heap st p = ns_heap st0 p"
    "\<And>p. p \<in> set ps \<Longrightarrow> ns_fresh st0 \<le> p \<and> p < ns_fresh st"
    using b unfolding built_def by blast
  have rest: "\<forall>p \<ge> ns_fresh st. ns_heap st p = None" "ns_fresh st0 \<le> ns_fresh st" "ns_fault st = ns_fault st0"
    using b unfolding built_def by blast+
  let ?h = "(ns_heap st)(ns_fresh st \<mapsto> e\<lparr>ifa_next := head\<rparr>)"
  have new: "ns_fresh st \<notin> set ps" using ps(5) by blast
  have "chain ?h head ps" using ps(2) new by (subst chain_cong [of _ _ "ns_heap st"]) auto
  moreover have "e\<lparr>ifa_next := None\<rparr> = e" using e by simp
  moreover have "map (\<lambda>p. (the (?h p))\<lparr>ifa_next := None\<rparr>) ps = es" using ps(3) new by auto
  ultimately show ?thesis
    unfolding built_def add_node_def using ps rest new
    by (intro conjI exI [of _ "ns_fresh st # ps"]) (auto intro: less_SucI)
qed

lemma built_skip: "built st0 st head es \<Longrightarrow> built st0 (st\<lparr>ns_calloc := m\<rparr>) head es"
  by (simp add: built_def)

lemma alloc_fails: "(\<exists>mem. ns_calloc st = False # mem) \<Longrightarrow> alloc_entry n st = (None, st\<lparr>ns_calloc := tl (ns_calloc st)\<rparr>)"
  by (auto simp: alloc_entry_def)

definition blank_entry :: "string \<Rightarrow> ifaddrs" where
  "blank_entry n = \<lparr>ifa_name = take (IFNAMSIZ - 1) n, ifa_flags = 0, ifa_addr = Sa_zero, ifa_netmask = Sa_zero,
     ifa_broadaddr = Some Sa_zero, ifa_next = None\<rparr>"

definition with_node :: "ifaddrs \<Rightarrow> netstub \<Rightarrow> netstub" where
  "with_node e st = st\<lparr>ns_heap := (ns_heap st)(ns_fresh st \<mapsto> e), ns_fresh := ns_fresh st + 1,
     ns_calloc := tl (ns_calloc st)\<rparr>"

lemma alloc_works:
  "\<not> (\<exists>mem. ns_calloc st = False # mem) \<Longrightarrow> alloc_entry n st = (Some (ns_fresh st), with_node (blank_entry n) st)"
  by (auto simp: alloc_entry_def with_node_def blank_entry_def split: list.splits bool.splits)

lemma set_with_node [simp]: "set_entry (ns_fresh st) f (with_node e st) = with_node (f e) st"
  by (simp add: set_entry_def with_node_def)

lemma prepend_with_node [simp]:
  "prepend head (ns_fresh st) (with_node e st) = (Some (ns_fresh st), add_node e head st)"
  by (simp add: prepend_def) (simp add: with_node_def add_node_def)

lemma add_ipv6_cases:
  "add_ipv6 k l head st =
     (if \<exists>mem. ns_calloc st = False # mem then (head, st\<lparr>ns_calloc := tl (ns_calloc st)\<rparr>)
      else (Some (ns_fresh st), add_node (ipv6_entry k l) head st))"
proof (cases "\<exists>mem. ns_calloc st = False # mem")
  case False
  show ?thesis
    using False alloc_works [OF False, of "in6_name l"]
    by (simp add: add_ipv6_def get_if_flags_def ipv6_entry_def Let_def blank_entry_def split: option.splits)
qed (simp add: add_ipv6_def alloc_fails)

text \<open>The two collecting loops: what was built before, and then the expected entries, newest first.\<close>

definition collected :: "netstub \<Rightarrow> netstub \<Rightarrow> ifaddrs list \<Rightarrow> nat option \<times> netstub \<Rightarrow> ifaddrs list \<Rightarrow> bool" where
  "collected st0 st es r spec \<longleftrightarrow> (\<exists>new. built st0 (snd r) (fst r) (rev new @ es) \<and> subseq new spec \<and>
     (False \<notin> set (ns_calloc st) \<longrightarrow> new = spec \<and> False \<notin> set (ns_calloc (snd r))))"

lemma collected_nil: "built st0 st head es \<Longrightarrow> collected st0 st es (head, st) []"
  unfolding collected_def by (rule exI [of _ "[]"]) simp

lemma collected_add:
  assumes b: "built st0 st head es" and e: "ifa_next e = None"
    and mem: "\<not> (\<exists>mem. ns_calloc st = False # mem)"
    and rest: "\<And>head' st'. built st0 st' head' (e # es) \<Longrightarrow> collected st0 st' (e # es) (r head' st') spec"
  shows "collected st0 st es (r (Some (ns_fresh st)) (add_node e head st)) (e # spec)"
proof -
  obtain new where n: "built st0 (snd (r (Some (ns_fresh st)) (add_node e head st)))
      (fst (r (Some (ns_fresh st)) (add_node e head st))) (rev new @ e # es)" "subseq new spec"
    "False \<notin> set (ns_calloc (add_node e head st)) \<longrightarrow>
       new = spec \<and> False \<notin> set (ns_calloc (snd (r (Some (ns_fresh st)) (add_node e head st))))"
    using rest [OF built_add [OF b e]] unfolding collected_def by blast
  have "False \<notin> set (ns_calloc st) \<longrightarrow> False \<notin> set (ns_calloc (add_node e head st))"
    by (cases "ns_calloc st") (auto simp: add_node_def)
  then show ?thesis unfolding collected_def using n by (intro exI [of _ "e # new"]) auto
qed

lemma collected_skip:
  assumes b: "built st0 st head es" and mem: "\<exists>mem. ns_calloc st = False # mem"
    and rest: "\<And>st'. built st0 st' head es \<Longrightarrow> collected st0 st' es (r st') spec"
  shows "collected st0 st es (r (st\<lparr>ns_calloc := tl (ns_calloc st)\<rparr>)) (e # spec)"
proof -
  have "\<exists>new. built st0 (snd (r (st\<lparr>ns_calloc := tl (ns_calloc st)\<rparr>))) (fst (r (st\<lparr>ns_calloc := tl (ns_calloc st)\<rparr>))) (rev new @ es)
      \<and> subseq new spec"
    using rest [OF built_skip [OF b]] unfolding collected_def by blast
  then show ?thesis unfolding collected_def using mem by auto
qed

lemma collect_ipv4_built:
  "built st0 st head es \<Longrightarrow> collected st0 st es (collect_ipv4 k names head st) (List.map_filter (ipv4_entry k) names)"
proof (induction names arbitrary: head st es)
  case Nil
  then show ?case by (simp add: collected_nil List.map_filter_def)
next
  case (Cons name names)
  let ?key = "take (IFNAMSIZ - 1) name"
  show ?case
  proof (cases "si_addr k ?key")
    case None
    then have "ipv4_entry k name = None" by (simp add: ipv4_entry_def Let_def)
    then show ?thesis using Cons None by (simp add: List.map_filter_def)
  next
    case (Some a)
    then obtain e where e: "ipv4_entry k name = Some e" "ifa_next e = None"
      by (auto simp: ipv4_entry_def Let_def)
    have spec: "List.map_filter (ipv4_entry k) (name # names) = e # List.map_filter (ipv4_entry k) names"
      using e by (simp add: List.map_filter_def)
    show ?thesis
    proof (cases "\<exists>mem. ns_calloc st = False # mem")
      case True
      have eq: "collect_ipv4 k (name # names) head st = collect_ipv4 k names head (st\<lparr>ns_calloc := tl (ns_calloc st)\<rparr>)"
        using Some by (simp add: alloc_fails [OF True])
      show ?thesis unfolding eq spec
        by (rule collected_skip [OF Cons.prems True, where r = "\<lambda>st. collect_ipv4 k names head st"]) (rule Cons.IH)
    next
      case False
      have eq: "collect_ipv4 k (name # names) head st = collect_ipv4 k names (Some (ns_fresh st)) (add_node e head st)"
        using Some e(1) by (auto simp: alloc_works [OF False] get_if_flags_def ipv4_entry_def blank_entry_def Let_def
          split: option.splits if_splits)
      show ?thesis unfolding eq spec
        by (rule collected_add [OF Cons.prems e(2) False, where r = "collect_ipv4 k names"]) (rule Cons.IH)
    qed
  qed
qed

lemma collect_ipv6_built:
  "\<lbrakk>built st0 st head es; length fp \<le> n\<rbrakk> \<Longrightarrow>
   collected st0 st es (collect_ipv6_loop k fp head st) (map (ipv6_entry k) (inet6_lines n fp))"
proof (induction n arbitrary: fp head st es)
  case 0
  then show ?case by (subst collect_ipv6_loop.simps) (simp add: fgets_def collected_nil)
next
  case (Suc n)
  show ?case
  proof (cases "fgets 256 fp")
    case None
    then show ?thesis using Suc.prems by (subst collect_ipv6_loop.simps) (simp add: collected_nil)
  next
    case (Some lr)
    obtain line fp' where lr: "lr = (line, fp')" by fastforce
    have short: "length fp' \<le> n"
      using Some lr Suc.prems fgets_take_length [of 255 fp line fp'] by (auto simp: fgets_def split: if_splits)
    note IH = Suc.IH [OF _ short]
    show ?thesis
    proof (cases "parse_inet6_line line")
      case None
      then show ?thesis using IH Suc.prems Some lr by (subst collect_ipv6_loop.simps) simp
    next
      case (Some l)
      have e: "ifa_next (ipv6_entry k l) = None" by (simp add: ipv6_entry_def Let_def)
      have loop: "collect_ipv6_loop k fp head st =
          (if \<exists>mem. ns_calloc st = False # mem
           then collect_ipv6_loop k fp' head (st\<lparr>ns_calloc := tl (ns_calloc st)\<rparr>)
           else collect_ipv6_loop k fp' (Some (ns_fresh st)) (add_node (ipv6_entry k l) head st))"
        using \<open>fgets 256 fp = Some lr\<close> lr Some
        by (subst collect_ipv6_loop.simps) (simp add: add_ipv6_cases)
      have spec: "map (ipv6_entry k) (inet6_lines (Suc n) fp) = ipv6_entry k l # map (ipv6_entry k) (inet6_lines n fp')"
        using \<open>fgets 256 fp = Some lr\<close> lr Some by simp
      show ?thesis
      proof (cases "\<exists>mem. ns_calloc st = False # mem")
        case True
        then show ?thesis
          unfolding spec loop using collected_skip [OF Suc.prems(1) True, where r = "\<lambda>st. collect_ipv6_loop k fp' head st"] IH
          by simp
      next
        case False
        then show ?thesis
          unfolding spec loop using collected_add [OF Suc.prems(1) e False, where r = "collect_ipv6_loop k fp'"] IH
          by simp
      qed
    qed
  qed
qed

text \<open>
  C30: The interface list. With a socket, \<^verbatim>\<open>getifaddrs\<close> returns 0 and a well-formed list of entries it
  has just allocated, without touching anything else: the expected entries in reverse order (one per
  interface of \<^verbatim>\<open>/proc/net/dev\<close> with an IPv4 address, one per line of \<^verbatim>\<open>/proc/net/if_inet6\<close>), all of
  them when memory suffices and otherwise all but those whose allocation failed. \<^verbatim>\<open>freeifaddrs\<close> on it
  terminates, touches no freed entry and gives the heap back as it was.
\<close>

theorem getifaddrs_list:
  assumes fresh: "\<forall>p \<ge> ns_fresh st. ns_heap st p = None" and sock: "0 \<le> sock"
    and get: "getifaddrs True sock dev inet6 k st = (rc, head, st')"
  shows "rc = (0, None) \<and>
    (\<exists>ps es. distinct ps \<and> chain (ns_heap st') head ps \<and> (\<forall>p \<in> set ps. ns_heap st p = None) \<and>
       (\<forall>p. p \<notin> set ps \<longrightarrow> ns_heap st' p = ns_heap st p) \<and>
       map (\<lambda>p. (the (ns_heap st' p))\<lparr>ifa_next := None\<rparr>) ps = rev es \<and>
       subseq es (expected_entries dev inet6 k) \<and>
       (False \<notin> set (ns_calloc st) \<longrightarrow> es = expected_entries dev inet6 k)) \<and>
    ns_fault st' = ns_fault st \<and>
    freeifaddrs head st' = Some (st'\<lparr>ns_heap := ns_heap st\<rparr>)"
proof -
  define names where "names = enumerate_interfaces dev MAX_INTERFACES"
  obtain head1 st1 where c4: "collect_ipv4 k names None st = (head1, st1)" by fastforce
  have r: "rc = (0, None)" "collect_ipv6 k inet6 head1 st1 = (head, st')"
    using get sock by (auto simp: getifaddrs_def names_def [symmetric] c4 split: prod.splits)
  obtain n4 where n4: "built st st1 head1 (rev n4)" "subseq n4 (List.map_filter (ipv4_entry k) names)"
    "False \<notin> set (ns_calloc st) \<longrightarrow> n4 = List.map_filter (ipv4_entry k) names \<and> False \<notin> set (ns_calloc st1)"
    using collect_ipv4_built [OF built_start [OF fresh], of k names] by (auto simp: collected_def c4)
  define s6 where "s6 = (case inet6 of None \<Rightarrow> [] | Some fp \<Rightarrow> map (ipv6_entry k) (inet6_lines (length fp) fp))"
  have "collected st st1 (rev n4) (head, st') s6"
  proof (cases inet6)
    case None
    then show ?thesis using r(2) collected_nil [OF n4(1)] by (simp add: s6_def collect_ipv6_def)
  next
    case (Some fp)
    then show ?thesis using r(2) collect_ipv6_built [OF n4(1), of fp "length fp" k]
      by (simp add: s6_def collect_ipv6_def)
  qed
  then obtain n6 where n6: "built st st' head (rev n6 @ rev n4)" "subseq n6 s6"
    "False \<notin> set (ns_calloc st1) \<longrightarrow> n6 = s6"
    by (auto simp: collected_def)
  define es where "es = n4 @ n6"
  have es: "subseq es (expected_entries dev inet6 k)"
    "False \<notin> set (ns_calloc st) \<longrightarrow> es = expected_entries dev inet6 k"
    using n4 n6 by (simp_all add: es_def expected_entries_def names_def [symmetric] s6_def [symmetric] list_emb_append_mono)
  obtain ps where ps: "distinct ps" "chain (ns_heap st') head ps"
    "rev es = map (\<lambda>p. (the (ns_heap st' p))\<lparr>ifa_next := None\<rparr>) ps"
    "\<forall>p. p \<notin> set ps \<longrightarrow> ns_heap st' p = ns_heap st p"
    "\<forall>p \<in> set ps. ns_fresh st \<le> p \<and> p < ns_fresh st'" and fault: "ns_fault st' = ns_fault st"
    using n6(1) unfolding built_def es_def rev_append by blast
  have free0: "\<forall>p \<in> set ps. ns_heap st p = None" using ps(5) fresh by blast
  have "(\<lambda>q. if q \<in> set ps then None else ns_heap st' q) = ns_heap st"
    using ps(4) free0 by (auto simp: fun_eq_iff)
  then have "freeifaddrs head st' = Some (st'\<lparr>ns_heap := ns_heap st\<rparr>)"
    using freeifaddrs_chain [OF ps(2,1)] by simp
  then show ?thesis using r(1) ps es free0 fault by (intro conjI exI [of _ ps] exI [of _ es]) simp_all
qed

theorem getifaddrs_list_witness:
  "\<exists>head st'. getifaddrs True 3 None (Some (kernel_line (replicate 15 0 @ [1]) 1 0x80 0x10 0x80 ''lo''))
      \<lparr>si_addr = (\<lambda>_. None), si_flags = (\<lambda>_. Some 0x49), si_netmask = (\<lambda>_. None), si_brdaddr = (\<lambda>_. None)\<rparr>
      \<lparr>ns_heap = Map.empty, ns_fresh = 0, ns_calloc = [], ns_fault = False\<rparr> = ((0, None), head, st') \<and>
    freeifaddrs head st' = Some (st'\<lparr>ns_heap := Map.empty\<rparr>)"
proof -
  let ?k = "\<lparr>si_addr = (\<lambda>_. None), si_flags = (\<lambda>_. Some 0x49), si_netmask = (\<lambda>_. None), si_brdaddr = (\<lambda>_. None)\<rparr>"
  let ?st = "\<lparr>ns_heap = Map.empty, ns_fresh = 0, ns_calloc = [], ns_fault = False\<rparr>"
  obtain rc head st' where g: "getifaddrs True 3 None (Some (kernel_line (replicate 15 0 @ [1]) 1 0x80 0x10 0x80 ''lo'')) ?k ?st
      = (rc, head, st')" by (metis prod_cases3)
  show ?thesis using getifaddrs_list [OF _ _ g] g by simp
qed

end
