(* ===== verification/NetstubCrash.thy ===== *)
theory NetstubCrash
  imports Netstub
begin

text \<open>
  The crash handler of \<^verbatim>\<open>netstub.c\<close>: the number printer and the file dump, which may only use
  async-signal-safe calls, the handler itself, the test for Electron's helper processes and the
  installation. What is written to standard error is the list of the \<^verbatim>\<open>write\<close> calls' texts.
\<close>

definition NEWLINE :: char where "NEWLINE = CHR 0x0A"

subsection \<open>Numbers\<close>

text \<open>The digits of \<open>val\<close> put in front of \<open>acc\<close>, as long as the buffer has room (\<open>pos\<close>).\<close>

fun sig_digits :: "nat \<Rightarrow> nat \<Rightarrow> string \<Rightarrow> string" where
  "sig_digits 0 val acc = acc"
| "sig_digits (Suc pos) val acc =
     (if val = 0 then acc else sig_digits pos (val div 10) (char_of (48 + val mod 10) # acc))"

definition sig_to_str :: "int \<Rightarrow> nat \<Rightarrow> string" where
  "sig_to_str sig buflen =
     (let val = unat (word_of_int (if sig < 0 then - sig else sig) :: u32); pos = buflen - 1 in
      if val = 0 then ''0'' else sig_digits pos val [])"

subsection \<open>Dumping a file\<close>

text \<open>
  The scan of one chunk: \<open>Inl n\<close> when the limit is reached with the newline at position \<open>n - 1\<close>,
  else the number of lines so far.
\<close>

fun scan_chunk :: "int \<Rightarrow> int \<Rightarrow> nat \<Rightarrow> string \<Rightarrow> nat + int" where
  "scan_chunk max_lines lines i [] = Inr lines"
| "scan_chunk max_lines lines i (c # buf) =
     (if c = NEWLINE
      then if lines + 1 \<ge> max_lines then Inl (i + 1) else scan_chunk max_lines (lines + 1) (i + 1) buf
      else scan_chunk max_lines lines (i + 1) buf)"

definition truncated_note :: string where
  "truncated_note = ''  ... (truncated)'' @ [NEWLINE]"

text \<open>The read loop; the list holds what the successive reads return, an empty one ends the file.\<close>

fun dump_chunks :: "int \<Rightarrow> int \<Rightarrow> string list \<Rightarrow> string list" where
  "dump_chunks max_lines lines [] = []"
| "dump_chunks max_lines lines (buf # reads) =
     (if buf = [] then []
      else if max_lines \<le> 0 then buf # dump_chunks max_lines lines reads
      else case scan_chunk max_lines lines 0 buf of
             Inl n \<Rightarrow> [take n buf, truncated_note]
           | Inr lines' \<Rightarrow> buf # dump_chunks max_lines lines' reads)"

definition dump_proc_file :: "string list option \<Rightarrow> string \<Rightarrow> int \<Rightarrow> string list" where
  "dump_proc_file file header max_lines =
     header # (case file of None \<Rightarrow> [''  (could not open)'' @ [NEWLINE]] | Some reads \<Rightarrow> dump_chunks max_lines 0 reads)"

subsection \<open>The handler\<close>

datatype crash_action = Crash_write string | Crash_symbols nat | Crash_default int | Crash_raise int

text \<open>\<open>nframes\<close> is what \<^verbatim>\<open>backtrace\<close> returns; \<open>maps\<close> and \<open>status\<close> are the two files of \<^verbatim>\<open>/proc/self\<close>.\<close>

definition crash_handler :: "int \<Rightarrow> int \<Rightarrow> string list option \<Rightarrow> string list option \<Rightarrow> crash_action list" where
  "crash_handler sig nframes maps status =
     map Crash_write [NEWLINE # ''=== NETSTUB CRASH HANDLER: signal '', sig_to_str sig 16,
       '' caught ==='' @ [NEWLINE], NEWLINE # ''--- backtrace ---'' @ [NEWLINE]] @
     [if nframes > 0 then Crash_symbols (nat nframes) else Crash_write (''  (no frames captured)'' @ [NEWLINE])] @
     map Crash_write (dump_proc_file maps (NEWLINE # ''--- /proc/self/maps (first 100 lines) ---'' @ [NEWLINE]) 100) @
     map Crash_write (dump_proc_file status (NEWLINE # ''--- /proc/self/status ---'' @ [NEWLINE]) 0) @
     [Crash_write (NEWLINE # ''=== END CRASH HANDLER ==='' @ [NEWLINE]), Crash_default sig, Crash_raise sig]"

subsection \<open>Installation\<close>

text \<open>The scan of the command line: an argument that begins with \<^verbatim>\<open>--type=\<close>.\<close>

function type_arg_scan :: "string \<Rightarrow> bool" where
  "type_arg_scan [] = False"
| "type_arg_scan (c # cs) =
     (if c = NUL then type_arg_scan cs
      else if has_prefix ''--type='' (c # cs) then True
      else type_arg_scan (drop 1 (dropWhile (\<lambda>x. x \<noteq> NUL) cs)))"
  by pat_completeness auto
termination
  by (relation "measure length") (auto simp: drop_dropWhile_less)

text \<open>With its cache, -1 before the first call.\<close>

definition netstub_is_electron_child :: "(string \<Rightarrow> string option) \<Rightarrow> string option \<Rightarrow> int \<Rightarrow> int \<times> int" where
  "netstub_is_electron_child environ cmdline cached =
     (if cached \<noteq> -1 then (cached, cached)
      else if environ ''ELECTRON_RUN_AS_NODE'' \<noteq> None then (1, 1)
      else let r = (case cmdline of None \<Rightarrow> 0 | Some buf \<Rightarrow> if type_arg_scan (take 4095 buf) then 1 else 0) in (r, r))"

datatype crash_signal = SIGABRT | SIGTRAP | SIGSEGV

text \<open>The one-shot handlers installed, in order, and the cache.\<close>

definition install_crash_handler :: "(string \<Rightarrow> string option) \<Rightarrow> string option \<Rightarrow> int \<Rightarrow> crash_signal list \<times> int" where
  "install_crash_handler environ cmdline cached =
     (case netstub_is_electron_child environ cmdline cached of
        (child, cached') \<Rightarrow> (if child \<noteq> 0 then [] else [SIGABRT, SIGTRAP, SIGSEGV], cached'))"

subsection \<open>Properties\<close>

text \<open>The text up to and with the m-th newline.\<close>

fun first_lines :: "nat \<Rightarrow> string \<Rightarrow> string" where
  "first_lines 0 s = []"
| "first_lines (Suc m) [] = []"
| "first_lines (Suc m) (c # s) = c # (if c = NEWLINE then first_lines m s else first_lines (Suc m) s)"

definition newlines :: "string \<Rightarrow> nat" where
  "newlines s = length (filter (\<lambda>c. c = NEWLINE) s)"

lemma newlines_simps [simp]:
  "newlines [] = 0" "newlines (c # s) = (if c = NEWLINE then Suc (newlines s) else newlines s)"
  "newlines (s @ t) = newlines s + newlines t"
  by (simp_all add: newlines_def)

lemma scan_chunk_below:
  "int (newlines buf) + lines < limit \<Longrightarrow> scan_chunk limit lines i buf = Inr (lines + int (newlines buf))"
  by (induction buf arbitrary: lines i) auto

lemma scan_chunk_reached:
  "\<lbrakk>lines < limit; limit \<le> lines + int (newlines buf)\<rbrakk> \<Longrightarrow>
   \<exists>n. scan_chunk limit lines i buf = Inl (i + n) \<and> take n buf = first_lines (nat (limit - lines)) buf"
proof (induction buf arbitrary: lines i)
  case (Cons c buf)
  show ?case
  proof (cases "c = NEWLINE")
    case True
    show ?thesis
    proof (cases "lines + 1 \<ge> limit")
      case True
      then have "nat (limit - lines) = Suc 0" using Cons.prems by simp
      then show ?thesis using \<open>c = NEWLINE\<close> True by (intro exI [of _ 1]) simp
    next
      case False
      have "\<exists>n. scan_chunk limit (lines + 1) (i + 1) buf = Inl (i + 1 + n) \<and>
          take n buf = first_lines (nat (limit - (lines + 1))) buf"
        using False Cons.prems \<open>c = NEWLINE\<close> by (intro Cons.IH) auto
      then obtain n where "scan_chunk limit (lines + 1) (i + 1) buf = Inl (i + 1 + n)"
        "take n buf = first_lines (nat (limit - (lines + 1))) buf" by blast
      moreover have "nat (limit - lines) = Suc (nat (limit - (lines + 1)))" using False by simp
      ultimately show ?thesis using False \<open>c = NEWLINE\<close> by (intro exI [of _ "Suc n"]) simp
    qed
  next
    case False
    have "\<exists>n. scan_chunk limit lines (i + 1) buf = Inl (i + 1 + n) \<and> take n buf = first_lines (nat (limit - lines)) buf"
      using False Cons.prems by (intro Cons.IH) auto
    then obtain n where "scan_chunk limit lines (i + 1) buf = Inl (i + 1 + n)"
      "take n buf = first_lines (nat (limit - lines)) buf" by blast
    moreover have "nat (limit - lines) = Suc (nat (limit - lines - 1))" using Cons.prems by simp
    ultimately show ?thesis using False by (intro exI [of _ "Suc n"]) simp
  qed
qed simp

lemma first_lines_all: "newlines s < m \<Longrightarrow> first_lines m s = s"
proof (induction s arbitrary: m)
  case (Cons c s)
  then show ?case by (cases m) (auto split: if_splits)
next
  case Nil
  then show ?case by (cases m) simp_all
qed

lemma first_lines_append:
  "first_lines m (s @ t) = (if newlines s < m then s @ first_lines (m - newlines s) t else first_lines m s)"
proof (induction s arbitrary: m)
  case (Cons c s)
  then show ?case by (cases m) auto
next
  case Nil
  then show ?case by (cases m) auto
qed

lemma dump_chunks_all:
  "\<lbrakk>[] \<notin> set reads; limit \<le> 0 \<or> int (newlines (concat reads)) + lines < limit\<rbrakk> \<Longrightarrow>
   concat (dump_chunks limit lines reads) = concat reads"
proof (induction reads arbitrary: lines)
  case (Cons buf reads)
  have ne: "buf \<noteq> []" using Cons.prems(1) by auto
  show ?case
  proof (cases "limit \<le> 0")
    case False
    then have "scan_chunk limit lines 0 buf = Inr (lines + int (newlines buf))"
      using Cons.prems by (intro scan_chunk_below) auto
    moreover have "concat (dump_chunks limit (lines + int (newlines buf)) reads) = concat reads"
      using Cons.prems False by (intro Cons.IH) auto
    ultimately show ?thesis using Cons.prems False ne by simp
  qed (use Cons in auto)
qed simp

lemma dump_chunks_limit:
  "\<lbrakk>[] \<notin> set reads; 0 < limit; lines < limit; limit \<le> int (newlines (concat reads)) + lines\<rbrakk> \<Longrightarrow>
   concat (dump_chunks limit lines reads) = first_lines (nat (limit - lines)) (concat reads) @ truncated_note"
proof (induction reads arbitrary: lines)
  case (Cons buf reads)
  have ne: "buf \<noteq> []" using Cons.prems(1) by auto
  show ?case
  proof (cases "limit \<le> lines + int (newlines buf)")
    case True
    then obtain n where "scan_chunk limit lines 0 buf = Inl (0 + n)" "take n buf = first_lines (nat (limit - lines)) buf"
      using scan_chunk_reached [of lines limit buf 0] Cons.prems by blast
    moreover have "\<not> newlines buf < nat (limit - lines)" using True by simp
    ultimately show ?thesis using Cons.prems ne by (simp add: first_lines_append)
  next
    case False
    then have "scan_chunk limit lines 0 buf = Inr (lines + int (newlines buf))" by (intro scan_chunk_below) simp
    moreover have "concat (dump_chunks limit (lines + int (newlines buf)) reads) =
        first_lines (nat (limit - (lines + int (newlines buf)))) (concat reads) @ truncated_note"
      using Cons.prems False by (intro Cons.IH) auto
    moreover have "newlines buf < nat (limit - lines)" "nat (limit - (lines + int (newlines buf))) = nat (limit - lines) - newlines buf"
      using False by auto
    ultimately show ?thesis using Cons.prems ne by (simp add: first_lines_append)
  qed
qed simp

text \<open>
  Dumping a file. However the kernel cuts the file into non-empty reads, what is written after
  the header is the whole file when no limit is given or the file has fewer newlines than the limit,
  and otherwise exactly its text up to and with the last newline allowed, followed by the note that
  it was cut (which also appears when the file ends right there).
\<close>

theorem dump_proc_file_spec:
  assumes "[] \<notin> set reads"
  shows "concat (dump_proc_file (Some reads) header limit) = header @
    (if limit \<le> 0 \<or> int (newlines (concat reads)) < limit then concat reads
     else first_lines (nat limit) (concat reads) @ truncated_note)"
  using dump_chunks_all [OF assms, of limit 0] dump_chunks_limit [OF assms, of limit 0]
  by (auto simp: dump_proc_file_def)

theorem dump_proc_file_spec_witness:
  "concat (dump_proc_file (Some [''a'' @ [NEWLINE] @ ''b'', ''c'' @ [NEWLINE] @ ''d'']) ''h'' 2) =
   ''ha'' @ [NEWLINE] @ ''bc'' @ [NEWLINE] @ truncated_note"
  using dump_proc_file_spec [of "[''a'' @ [NEWLINE] @ ''b'', ''c'' @ [NEWLINE] @ ''d'']" "''h''" 2]
  by (simp add: NEWLINE_def numeral_2_eq_2)

text \<open>The digits a number is printed with give it back.\<close>

definition decimal :: "string \<Rightarrow> nat" where
  "decimal s = foldl (\<lambda>v c. v * 10 + (of_char c - 48)) 0 s"

lemma decimal_foldl: "foldl (\<lambda>v c. v * 10 + (of_char c - 48)) v (s :: string) = v * 10 ^ length s + decimal s"
proof (induction s arbitrary: v)
  case (Cons c s)
  show ?case
    using Cons.IH [of "v * 10 + (of_char c - 48)"] Cons.IH [of "of_char c - 48"]
    by (simp add: decimal_def algebra_simps)
qed (simp add: decimal_def)

lemma decimal_Cons: "decimal (c # s) = (of_char c - 48) * 10 ^ length s + decimal s"
  using decimal_foldl [of "of_char c - 48" s] by (simp add: decimal_def)

lemma sig_digits_decimal:
  "v < 10 ^ pos \<Longrightarrow> decimal (sig_digits pos v acc) = v * 10 ^ length acc + decimal acc"
proof (induction pos arbitrary: v acc)
  case (Suc pos)
  show ?case
  proof (cases "v = 0")
    case False
    have d: "of_char (char_of (48 + v mod 10) :: char) = 48 + v mod 10" by (simp add: of_char_of)
    have "v div 10 < 10 ^ pos" using Suc.prems by (simp add: less_mult_imp_div_less)
    then have "decimal (sig_digits pos (v div 10) (char_of (48 + v mod 10) # acc)) =
        v div 10 * (10 * 10 ^ length acc) + (v mod 10 * 10 ^ length acc + decimal acc)"
      by (subst Suc.IH) (simp_all add: decimal_Cons d)
    also have "\<dots> = (v div 10 * 10 + v mod 10) * 10 ^ length acc + decimal acc"
      by (simp only: algebra_simps)
    finally show ?thesis using False by simp
  qed simp
qed simp

lemma sig_to_str_decimal:
  assumes "- (2 ^ 31) < sig" "sig < 2 ^ 31"
  shows "int (decimal (sig_to_str sig 16)) = \<bar>sig\<bar>"
proof -
  define v where "v = nat \<bar>sig\<bar>"
  have v: "(if sig < 0 then - sig else sig) = int v" "v < 2 ^ 31" using assms by (auto simp: v_def)
  have u: "unat (word_of_int (int v) :: u32) = v" using v(2) by (simp add: unat_of_nat)
  have "v < 10 ^ 15" using v(2) by simp
  then have "decimal (sig_digits 15 v []) = v" by (subst sig_digits_decimal) (simp_all add: decimal_def)
  then have "decimal (sig_to_str sig 16) = v"
    unfolding sig_to_str_def v(1) u Let_def by (simp add: decimal_def)
  then show ?thesis by (simp add: v_def)
qed

end
