(* ===== verification/EglWindow.thy ===== *)
theory EglWindow
  imports Prelude
begin

text \<open>
  \<^verbatim>\<open>shims/native/egl-override/egl_override.c\<close>, software mode: the windows made of a pbuffer, two
  shared-memory frames and an xdg toplevel, the wrapper's own Wayland connection and its event
  handlers. Mesa, libwayland and the kernel answer through an environment record given to each call;
  the calls made are a trace. Log output and its counters are left out.
\<close>

subsection \<open>State\<close>

text \<open>\<^verbatim>\<open>struct shm_window\<close>; pointers are \<open>None\<close> when null, mappings and Wayland proxies are identities.\<close>

record shm_window =
  sw_surface :: "nat option"
  sw_xdg :: "nat option"
  sw_toplevel :: "nat option"
  sw_buffers :: "nat option list"
  sw_data :: "nat option"
  sw_fd :: int
  sw_current :: nat
  sw_busy :: "bool list"
  sw_readback :: "nat option"
  sw_readback_size :: nat
  sw_pbuffer :: "nat option"
  sw_config :: nat
  sw_display :: nat
  sw_width :: int
  sw_height :: int
  sw_pending_width :: int
  sw_pending_height :: int
  sw_needs_resize :: bool
  sw_total :: nat

text \<open>A window as \<^verbatim>\<open>memset\<close> leaves it.\<close>

definition zero_window :: shm_window where
  "zero_window = \<lparr>sw_surface = None, sw_xdg = None, sw_toplevel = None, sw_buffers = [None, None],
     sw_data = None, sw_fd = 0, sw_current = 0, sw_busy = [False, False], sw_readback = None,
     sw_readback_size = 0, sw_pbuffer = None, sw_config = 0, sw_display = 0, sw_width = 0, sw_height = 0,
     sw_pending_width = 0, sw_pending_height = 0, sw_needs_resize = False, sw_total = 0\<rparr>"

definition MAX_SHM_WINDOWS :: nat where "MAX_SHM_WINDOWS = 8"
definition DEFAULT_WIDTH :: int where "DEFAULT_WIDTH = 1080"
definition DEFAULT_HEIGHT :: int where "DEFAULT_HEIGHT = 2400"

text \<open>The data a listener was registered with: a slot of \<^verbatim>\<open>shm_windows\<close>, or none.\<close>

datatype listener = L_window nat | L_touch | L_none

datatype egl_call =
    C_connect nat | C_get_registry nat | C_bind nat string int nat | C_roundtrip | C_dispatch | C_flush
  | C_create_surface nat | C_get_xdg_surface nat nat | C_get_toplevel nat nat
  | C_set_title nat string | C_set_app_id nat string | C_commit nat
  | C_pong nat u32 | C_ack_configure nat u32
  | C_create_pool nat int int | C_create_buffer nat nat int int int int | C_pool_destroy nat | C_buffer_destroy nat
  | C_attach nat "nat option" | C_damage nat int int
  | C_toplevel_destroy nat | C_xdg_destroy nat | C_surface_destroy nat
  | C_create_pbuffer "nat option" int int | C_destroy_pbuffer "nat option"
  | C_make_current "nat option" | C_gl_finish | C_read_pixels int int | C_real_swap "nat option" | C_real_get_error
  | C_real_window | C_platform_display int "nat option" | C_get_display "nat option" | C_close_drm int

text \<open>
  The wrapper's globals. \<open>eg_fds\<close> and \<open>eg_maps\<close> are the memory files and mappings of frames it has open,
  a mapping with its size and bytes; \<open>eg_conns\<close> are the Wayland connections that are open, newest first,
  each with a socket of libwayland's, and \<open>eg_drm_fds\<close> the open descriptors of the render node. \<open>eg_fault\<close> is set by closing or unmapping what is not open and by
  an access outside a mapping.
\<close>

record egl =
  eg_slots :: "shm_window list"
  eg_count :: nat
  eg_gpu :: bool
  eg_init_failed :: bool
  eg_ready :: bool
  eg_display :: "nat option"
  eg_compositor :: "nat option"
  eg_wm_base :: "nat option"
  eg_shm :: "nat option"
  eg_touch_created :: bool
  eg_touch_surface :: "nat option"
  eg_touch_xdg :: "nat option"
  eg_touch_toplevel :: "nat option"
  eg_listeners :: "nat \<rightharpoonup> listener"
  eg_next :: nat
  eg_fds :: "int set"
  eg_maps :: "nat \<rightharpoonup> nat \<times> (nat \<Rightarrow> u8)"
  eg_next_map :: nat
  eg_fault :: bool
  eg_trace :: "egl_call list"
  eg_suppress :: bool
  eg_gl_loaded :: bool
  eg_mesa_gbm :: "nat option"
  eg_conns :: "nat list"
  eg_drm_fds :: "int set"

text \<open>Events the Wayland connection delivers; a global carries whether the bind succeeds.\<close>

datatype wl_event =
    Ev_global u32 string int bool | Ev_ping nat u32 | Ev_configure nat u32 | Ev_top_configure nat int int
  | Ev_close nat | Ev_release nat

text \<open>
  The answers to one call: which library functions are loaded, and the results of the calls it makes.
\<close>

record egl_env =
  en_wayland :: bool
  en_dispatch_fn :: bool
  en_flush_fn :: bool
  en_compositor_iface :: bool
  en_shm_iface :: bool
  en_pool_iface :: bool
  en_pbuffer_fn :: bool
  en_destroy_fn :: bool
  en_make_current_fn :: bool
  en_swap_fn :: bool
  en_get_error_fn :: bool
  en_gl :: bool
  en_connect :: bool
  en_registry :: bool
  en_surface :: bool
  en_xdg :: bool
  en_toplevel :: bool
  en_memfd :: int
  en_truncate :: bool
  en_mmap_shm :: bool
  en_pool :: bool
  en_buffer :: "nat \<Rightarrow> bool"
  en_mmap_readback :: bool
  en_pbuffer :: "nat option"
  en_roundtrip :: "wl_event list"
  en_dispatch :: "wl_event list"
  en_pixels :: "nat \<Rightarrow> u8"
  en_real_swap :: bool
  en_real_destroy :: bool
  en_window_fn :: bool
  en_window :: "nat option"
  en_platform_fn :: bool
  en_get_display_fn :: bool
  en_egl_display :: "nat option"
  en_gbm_fn :: bool
  en_drm_fd :: int
  en_gbm_device :: "nat option"
  en_initialize :: "bool option"
  en_make_current :: bool
  en_error :: int

subsection \<open>Calls\<close>

definition egl_log :: "egl_call \<Rightarrow> egl \<Rightarrow> egl" where
  "egl_log c st = st\<lparr>eg_trace := eg_trace st @ [c]\<rparr>"

text \<open>A request that creates an object.\<close>

definition new_proxy :: "bool \<Rightarrow> (nat \<Rightarrow> egl_call) \<Rightarrow> egl \<Rightarrow> nat option \<times> egl" where
  "new_proxy ok call st =
     (if ok then (Some (eg_next st), egl_log (call (eg_next st)) (st\<lparr>eg_next := eg_next st + 1\<rparr>)) else (None, st))"

definition add_listener :: "nat \<Rightarrow> listener \<Rightarrow> egl \<Rightarrow> egl" where
  "add_listener p l st = st\<lparr>eg_listeners := (eg_listeners st)(p \<mapsto> l)\<rparr>"

definition slot :: "nat \<Rightarrow> egl \<Rightarrow> shm_window" where
  "slot i st = eg_slots st ! i"

definition set_slot :: "nat \<Rightarrow> (shm_window \<Rightarrow> shm_window) \<Rightarrow> egl \<Rightarrow> egl" where
  "set_slot i f st = st\<lparr>eg_slots := (eg_slots st)[i := f (eg_slots st ! i)]\<rparr>"

definition close_fd :: "int \<Rightarrow> egl \<Rightarrow> egl" where
  "close_fd fd st = (if fd \<in> eg_fds st then st\<lparr>eg_fds := eg_fds st - {fd}\<rparr> else st\<lparr>eg_fault := True\<rparr>)"

definition new_map :: "nat \<Rightarrow> egl \<Rightarrow> nat \<times> egl" where
  "new_map n st =
     (eg_next_map st,
      st\<lparr>eg_maps := (eg_maps st)(eg_next_map st \<mapsto> (n, \<lambda>_. 0)), eg_next_map := eg_next_map st + 1\<rparr>)"

definition munmap :: "nat \<Rightarrow> egl \<Rightarrow> egl" where
  "munmap m st = (if eg_maps st m = None then st\<lparr>eg_fault := True\<rparr> else st\<lparr>eg_maps := (eg_maps st)(m := None)\<rparr>)"

text \<open>\<^verbatim>\<open>find_shm_window\<close>: the first used slot with this pbuffer.\<close>

definition find_shm_window :: "nat option \<Rightarrow> egl \<Rightarrow> nat option" where
  "find_shm_window surface st = find (\<lambda>i. sw_pbuffer (eg_slots st ! i) = surface) [0..<eg_count st]"

subsection \<open>Event handlers\<close>

definition buffer_handle_release :: "nat \<Rightarrow> nat \<Rightarrow> egl \<Rightarrow> egl" where
  "buffer_handle_release i buffer st =
     set_slot i (\<lambda>w. if sw_buffers w ! 0 = Some buffer then w\<lparr>sw_busy := (sw_busy w)[0 := False]\<rparr>
                     else if sw_buffers w ! 1 = Some buffer then w\<lparr>sw_busy := (sw_busy w)[1 := False]\<rparr>
                     else w) st"

definition xdg_wm_base_handle_ping :: "nat \<Rightarrow> u32 \<Rightarrow> egl \<Rightarrow> egl" where
  "xdg_wm_base_handle_ping p serial st = egl_log (C_pong p serial) st"

definition commit_surface :: "nat option \<Rightarrow> egl \<Rightarrow> egl" where
  "commit_surface s st = (case s of None \<Rightarrow> st | Some p \<Rightarrow> egl_log (C_commit p) st)"

definition xdg_surface_handle_configure :: "nat \<Rightarrow> nat \<Rightarrow> u32 \<Rightarrow> egl \<Rightarrow> egl" where
  "xdg_surface_handle_configure i p serial st =
     (let st1 = egl_log (C_ack_configure p serial) st in commit_surface (sw_surface (slot i st1)) st1)"

definition xdg_toplevel_handle_configure :: "nat \<Rightarrow> int \<Rightarrow> int \<Rightarrow> egl \<Rightarrow> egl" where
  "xdg_toplevel_handle_configure i width height st =
     (if width > 0 \<and> height > 0 \<and> (width \<noteq> sw_width (slot i st) \<or> height \<noteq> sw_height (slot i st))
      then set_slot i (\<lambda>w. w\<lparr>sw_pending_width := width, sw_pending_height := height, sw_needs_resize := True\<rparr>) st
      else st)"

definition xdg_toplevel_handle_close :: "nat \<Rightarrow> egl \<Rightarrow> egl" where
  "xdg_toplevel_handle_close i st = st"

definition touch_xdg_surface_handle_configure :: "nat \<Rightarrow> u32 \<Rightarrow> egl \<Rightarrow> egl" where
  "touch_xdg_surface_handle_configure p serial st =
     (let st1 = egl_log (C_ack_configure p serial) st in commit_surface (eg_touch_surface st1) st1)"

text \<open>Binding a global, at the smaller of the offered version and the one supported.\<close>

definition registry_global :: "string \<Rightarrow> int \<Rightarrow> bool \<Rightarrow> bool \<Rightarrow> bool \<Rightarrow> egl \<Rightarrow> egl" where
  "registry_global interface version ok compositor_iface shm_iface st =
     (if interface = ''wl_compositor'' \<and> compositor_iface
      then let (p, st1) = new_proxy ok (\<lambda>n. C_bind n interface (min version 4) 0) st in st1\<lparr>eg_compositor := p\<rparr>
      else if interface = ''xdg_wm_base''
      then let (p, st1) = new_proxy ok (\<lambda>n. C_bind n interface (min version 2) 0) st;
               st2 = st1\<lparr>eg_wm_base := p\<rparr>
           in (case p of None \<Rightarrow> st2 | Some q \<Rightarrow> add_listener q L_none st2)
      else if interface = ''wl_shm'' \<and> shm_iface
      then let (p, st1) = new_proxy ok (\<lambda>n. C_bind n interface (min version 1) 0) st in st1\<lparr>eg_shm := p\<rparr>
      else st)"

text \<open>Dispatch of one event to the listener registered for its object.\<close>

fun deliver :: "egl_env \<Rightarrow> wl_event \<Rightarrow> egl \<Rightarrow> egl" where
  "deliver env (Ev_global name interface version ok) st =
     registry_global interface version ok (en_compositor_iface env) (en_shm_iface env) st"
| "deliver env (Ev_ping p serial) st = xdg_wm_base_handle_ping p serial st"
| "deliver env (Ev_configure p serial) st =
     (case eg_listeners st p of
        Some (L_window i) \<Rightarrow> xdg_surface_handle_configure i p serial st
      | Some L_touch \<Rightarrow> touch_xdg_surface_handle_configure p serial st
      | _ \<Rightarrow> st)"
| "deliver env (Ev_top_configure p w h) st =
     (case eg_listeners st p of Some (L_window i) \<Rightarrow> xdg_toplevel_handle_configure i w h st | _ \<Rightarrow> st)"
| "deliver env (Ev_close p) st =
     (case eg_listeners st p of Some (L_window i) \<Rightarrow> xdg_toplevel_handle_close i st | _ \<Rightarrow> st)"
| "deliver env (Ev_release p) st =
     (case eg_listeners st p of Some (L_window i) \<Rightarrow> buffer_handle_release i p st | _ \<Rightarrow> st)"

definition wl_roundtrip :: "egl_env \<Rightarrow> egl \<Rightarrow> egl" where
  "wl_roundtrip env st = fold (deliver env) (en_roundtrip env) (egl_log C_roundtrip st)"

definition wl_dispatch :: "egl_env \<Rightarrow> egl \<Rightarrow> egl" where
  "wl_dispatch env st = fold (deliver env) (en_dispatch env) (egl_log C_dispatch st)"

subsection \<open>Connection\<close>

definition init_wayland_connection :: "egl_env \<Rightarrow> egl \<Rightarrow> bool \<times> egl" where
  "init_wayland_connection env st =
     (if eg_ready st then (True, st)
      else if \<not> en_wayland env then (False, st)
      else
        let (d, st0) = new_proxy (en_connect env) C_connect st;
            st1 = st0\<lparr>eg_display := d, eg_conns := (case d of None \<Rightarrow> eg_conns st0 | Some c \<Rightarrow> c # eg_conns st0)\<rparr> in
        if d = None then (False, st1)
        else
          let (r, st2) = new_proxy (en_registry env) C_get_registry st1 in
          (case r of None \<Rightarrow> (False, st2)
           | Some reg \<Rightarrow>
             let st3 = wl_roundtrip env (add_listener reg L_none st2) in
             if eg_compositor st3 = None then (False, st3)
             else if eg_wm_base st3 = None then (False, st3)
             else if \<not> eg_gpu st3 \<and> eg_shm st3 = None then (False, st3)
             else (True, st3\<lparr>eg_ready := True\<rparr>)))"

text \<open>The requests every toplevel of the wrapper starts with.\<close>

definition setup_toplevel :: "nat \<Rightarrow> listener \<Rightarrow> nat \<Rightarrow> egl_env \<Rightarrow> egl \<Rightarrow> egl" where
  "setup_toplevel toplevel l surface env st =
     (let st1 = egl_log (C_set_app_id toplevel ''com.coder.vscode'') (egl_log (C_set_title toplevel ''VS Code'') st);
          st2 = egl_log (C_commit surface) (add_listener toplevel l st1)
      in wl_roundtrip env st2)"

definition create_touch_redirect_toplevel :: "egl_env \<Rightarrow> egl \<Rightarrow> egl" where
  "create_touch_redirect_toplevel env st =
     (if eg_touch_created st then st
      else if \<not> eg_ready st \<or> eg_compositor st = None \<or> eg_wm_base st = None then st
      else
        let (s, st0) = new_proxy (en_surface env) C_create_surface st; st1 = st0\<lparr>eg_touch_surface := s\<rparr> in
        (case s of None \<Rightarrow> st1
         | Some surface \<Rightarrow>
           let (x, st2) = new_proxy (en_xdg env) (\<lambda>n. C_get_xdg_surface n surface) st1;
               st3 = st2\<lparr>eg_touch_xdg := x\<rparr> in
           (case x of None \<Rightarrow> st3
            | Some xdg \<Rightarrow>
              let (t, st4) = new_proxy (en_toplevel env) (\<lambda>n. C_get_toplevel n xdg) (add_listener xdg L_touch st3);
                  st5 = st4\<lparr>eg_touch_toplevel := t\<rparr> in
              (case t of None \<Rightarrow> st5
               | Some toplevel \<Rightarrow> (setup_toplevel toplevel L_touch surface env st5)\<lparr>eg_touch_created := True\<rparr>))))"

subsection \<open>Frames\<close>

text \<open>Sizes are C's: an \<^verbatim>\<open>int\<close> stride, and \<^verbatim>\<open>size_t\<close> products.\<close>

definition size_mul :: "int \<Rightarrow> int \<Rightarrow> nat" where
  "size_mul a b = nat ((a * b) mod 2 ^ 64)"

definition as_int32 :: "nat \<Rightarrow> int" where
  "as_int32 n = sint (of_nat n :: u32)"

definition destroy_buffer :: "nat option \<Rightarrow> egl \<Rightarrow> egl" where
  "destroy_buffer b st = (case b of None \<Rightarrow> st | Some p \<Rightarrow> egl_log (C_buffer_destroy p) st)"

definition create_shm_buffers :: "egl_env \<Rightarrow> nat \<Rightarrow> int \<Rightarrow> int \<Rightarrow> egl \<Rightarrow> bool \<times> egl" where
  "create_shm_buffers env i w h st =
     (let stride = w * 4; buf_size = size_mul stride h; total_size = (buf_size * 2) mod 2 ^ 64; fd = en_memfd env in
      if fd < 0 then (False, st)
      else
        let st1 = st\<lparr>eg_fds := insert fd (eg_fds st)\<rparr> in
        if \<not> en_truncate env then (False, close_fd fd st1)
        else if \<not> en_mmap_shm env then (False, close_fd fd st1)
        else
          let (data, st2) = new_map total_size st1 in
          if eg_shm st2 = None \<or> \<not> en_pool_iface env then (False, close_fd fd (munmap data st2))
          else
            (case new_proxy (en_pool env) (\<lambda>n. C_create_pool n fd (as_int32 total_size)) st2 of
               (None, st3) \<Rightarrow> (False, close_fd fd (munmap data st3))
             | (Some pool, st3) \<Rightarrow>
               (case new_proxy (en_buffer env 0) (\<lambda>n. C_create_buffer n pool 0 w h stride) st3 of
                  (None, st4) \<Rightarrow>
                    (False, close_fd fd (munmap data (egl_log (C_pool_destroy pool)
                       (set_slot i (\<lambda>x. x\<lparr>sw_buffers := (sw_buffers x)[0 := None]\<rparr>) st4))))
                | (Some b0, st4) \<Rightarrow>
                  let st5 = add_listener b0 (L_window i)
                        (set_slot i (\<lambda>x. x\<lparr>sw_buffers := (sw_buffers x)[0 := Some b0], sw_busy := (sw_busy x)[0 := False]\<rparr>) st4) in
                  (case new_proxy (en_buffer env 1) (\<lambda>n. C_create_buffer n pool (as_int32 buf_size) w h stride) st5 of
                     (None, st6) \<Rightarrow>
                       (False, close_fd fd (munmap data (egl_log (C_pool_destroy pool) (egl_log (C_buffer_destroy b0)
                          (set_slot i (\<lambda>x. x\<lparr>sw_buffers := (sw_buffers x)[1 := None]\<rparr>) st6)))))
                   | (Some b1, st6) \<Rightarrow>
                     let st7 = egl_log (C_pool_destroy pool) (add_listener b1 (L_window i)
                          (set_slot i (\<lambda>x. x\<lparr>sw_buffers := (sw_buffers x)[1 := Some b1], sw_busy := (sw_busy x)[1 := False]\<rparr>) st6)) in
                     if \<not> en_mmap_readback env
                     then (False, close_fd fd (munmap data (egl_log (C_buffer_destroy b1) (egl_log (C_buffer_destroy b0) st7))))
                     else
                       let (readback, st8) = new_map buf_size st7 in
                       (True, set_slot i (\<lambda>x. x\<lparr>sw_data := Some data, sw_fd := fd, sw_total := total_size,
                          sw_readback := Some readback, sw_readback_size := buf_size, sw_current := 0\<rparr>) st8)))))"

definition destroy_shm_buffers :: "nat \<Rightarrow> egl \<Rightarrow> egl" where
  "destroy_shm_buffers i st =
     (let w = slot i st;
          st1 = destroy_buffer (sw_buffers w ! 1) (destroy_buffer (sw_buffers w ! 0) st);
          st2 = set_slot i (\<lambda>x. x\<lparr>sw_buffers := [None, None]\<rparr>) st1;
          st3 = (case sw_data w of None \<Rightarrow> st2 | Some m \<Rightarrow> set_slot i (\<lambda>x. x\<lparr>sw_data := None\<rparr>) (munmap m st2));
          st4 = (case sw_readback w of None \<Rightarrow> st3 | Some m \<Rightarrow> set_slot i (\<lambda>x. x\<lparr>sw_readback := None\<rparr>) (munmap m st3))
      in if sw_fd w \<ge> 0 then set_slot i (\<lambda>x. x\<lparr>sw_fd := -1\<rparr>) (close_fd (sw_fd w) st4) else st4)"

end
