(* ===== verification/EglText.thy ===== *)
theory EglText
  imports EglWindow
begin

text \<open>
  The string-handling calls of \<^verbatim>\<open>egl_override.c\<close>: the extension list without the fence extension,
  the redirection of entry points, and the choice of the mode.
\<close>

subsection \<open>The extension list\<close>

definition FENCE_EXT :: string where "FENCE_EXT = ''EGL_ANDROID_native_fence_sync''"
definition EGL_EXTENSIONS :: int where "EGL_EXTENSIONS = 0x3055"

text \<open>\<^verbatim>\<open>strstr\<close>: the text before and from the first occurrence of the needle.\<close>

fun split_first :: "string \<Rightarrow> string \<Rightarrow> (string \<times> string) option" where
  "split_first needle [] = (if needle = [] then Some ([], []) else None)"
| "split_first needle (c # s) =
     (if take (length needle) (c # s) = needle then Some ([], c # s)
      else case split_first needle s of None \<Rightarrow> None | Some (a, b) \<Rightarrow> Some (c # a, b))"

text \<open>The word at the first occurrence is cut out with the space after it.\<close>

definition strip_extension :: "string \<Rightarrow> string" where
  "strip_extension s =
     (case split_first FENCE_EXT s of None \<Rightarrow> s
      | Some (before, from) \<Rightarrow>
          let rest = dropWhile (\<lambda>c. c \<noteq> CHR '' '') from
          in before @ (if rest \<noteq> [] then drop 1 rest else rest))"

text \<open>The static buffer of 8192 bytes and whether it has been filled.\<close>

record ext_cache =
  xc_text :: string
  xc_filled :: bool

text \<open>\<open>real\<close> is Mesa's answer, \<open>None\<close> for \<^verbatim>\<open>NULL\<close> (also when it cannot be resolved).\<close>

definition eglQueryString :: "string option \<Rightarrow> int \<Rightarrow> bool \<Rightarrow> ext_cache \<Rightarrow> string option \<times> ext_cache" where
  "eglQueryString real name gpu c =
     (case real of None \<Rightarrow> (None, c)
      | Some result \<Rightarrow>
        if name = EGL_EXTENSIONS \<and> gpu \<and> split_first FENCE_EXT result \<noteq> None
        then
          let c' = (if \<not> xc_filled c \<and> length result < 8191
                    then \<lparr>xc_text = strip_extension result, xc_filled = True\<rparr> else c)
          in (Some (xc_text c'), c')
        else (Some result, c))"

subsection \<open>Entry points\<close>

definition intercepted :: "string list" where
  "intercepted = [''eglGetPlatformDisplay'', ''eglGetPlatformDisplayEXT'', ''eglGetDisplay'', ''eglChooseConfig'',
     ''eglGetConfigAttrib'', ''eglQuerySurface'', ''eglCreateWindowSurface'', ''eglCreatePlatformWindowSurface'',
     ''eglCreatePlatformWindowSurfaceEXT'', ''eglDestroySurface'', ''eglInitialize'', ''eglCreateContext'',
     ''eglMakeCurrent'', ''eglSwapBuffers'', ''eglGetError'', ''eglQueryString'']"

datatype entry_point = Entry_ours string | Entry_null | Entry_real

definition eglGetProcAddress :: "bool \<Rightarrow> string option \<Rightarrow> entry_point" where
  "eglGetProcAddress have_real procname =
     (if \<not> have_real then Entry_null
      else case procname of None \<Rightarrow> Entry_real
      | Some p \<Rightarrow> if p \<in> set intercepted then Entry_ours p
                  else if p = ''eglDupNativeFenceFDANDROID'' then Entry_null else Entry_real)"

subsection \<open>Mode\<close>

definition gpu_mode_env :: "string option \<Rightarrow> bool" where
  "gpu_mode_env mode =
     (mode \<noteq> None \<and> the mode \<in> {''VIRGL_GLES'', ''VIRGL_ZINK'', ''TURNIP_DIRECT'', ''VENUS''})"

text \<open>The constructor: without Mesa, or without its \<^verbatim>\<open>eglGetProcAddress\<close>, nothing is set.\<close>

definition egl_wrapper_init :: "bool \<Rightarrow> string option \<Rightarrow> egl \<Rightarrow> egl" where
  "egl_wrapper_init mesa mode st = (if \<not> mesa then st else st\<lparr>eg_gpu := gpu_mode_env mode\<rparr>)"

subsection \<open>What the filter does to the words\<close>

text \<open>The non-empty words between spaces.\<close>

fun ext_words :: "string \<Rightarrow> string \<Rightarrow> string list" where
  "ext_words acc [] = (if acc = [] then [] else [acc])"
| "ext_words acc (c # s) =
     (if c = CHR '' '' then (if acc = [] then ext_words [] s else acc # ext_words [] s)
      else ext_words (acc @ [c]) s)"

definition extensions :: "string \<Rightarrow> string list" where
  "extensions s = ext_words [] s"

definition unwords :: "string list \<Rightarrow> string" where
  "unwords ws = concat (map (\<lambda>w. w @ '' '') ws)"

definition word :: "string \<Rightarrow> bool" where
  "word w \<longleftrightarrow> w \<noteq> [] \<and> CHR '' '' \<notin> set w"

lemma ext_words_word: "CHR '' '' \<notin> set w \<Longrightarrow> ext_words acc (w @ s) = ext_words (acc @ w) s"
  by (induction w arbitrary: acc) auto

lemma extensions_Cons: "word w \<Longrightarrow> extensions (w @ CHR '' '' # s) = w # extensions s"
  by (simp add: extensions_def word_def ext_words_word)

lemma extensions_last: "word w \<Longrightarrow> extensions w = [w]"
  using ext_words_word [of w "[]" "[]"] by (simp add: extensions_def word_def)

lemma extensions_unwords: "\<forall>w \<in> set ws. word w \<Longrightarrow> extensions (unwords ws @ s) = ws @ extensions s"
  by (induction ws) (simp_all add: unwords_def extensions_Cons)

text \<open>No occurrence inside a word that is not the needle, so none before the first such word.\<close>

definition occurs :: "string \<Rightarrow> string \<Rightarrow> bool" where
  "occurs needle s \<longleftrightarrow> split_first needle s \<noteq> None"

lemma split_first_skip_word:
  assumes "word w" "\<not> occurs n w" "n \<noteq> []" "CHR '' '' \<notin> set n"
  shows "split_first n (w @ CHR '' '' # s) =
    (case split_first n s of None \<Rightarrow> None | Some (a, b) \<Rightarrow> Some (w @ CHR '' '' # a, b))"
  using assms
proof (induction w)
  case (Cons c w)
  have no: "take (length n) (c # w @ CHR '' '' # s) \<noteq> n"
  proof
    assume eq: "take (length n) (c # w @ CHR '' '' # s) = n"
    have "length n \<le> length (c # w)"
    proof (rule ccontr)
      assume "\<not> ?thesis"
      then obtain k where k: "length n = length (c # w) + Suc k"
        using less_imp_Suc_add [of "length (c # w)" "length n"] by auto
      have "take (length (c # w) + Suc k) ((c # w) @ CHR '' '' # s) = (c # w) @ CHR '' '' # take k s"
        by (simp only: take_append) simp
      then have "CHR '' '' \<in> set n" using eq k by (metis append_Cons in_set_conv_decomp)
      then show False using Cons.prems(4) by simp
    qed
    then have "take (length n) (c # w) = n" using eq by (cases "length n") (auto simp: take_append)
    then show False using Cons.prems(2) by (simp add: occurs_def)
  qed
  show ?case
  proof (cases "w = []")
    case True
    have sp: "take (length n) (CHR '' '' # s) \<noteq> n"
      using Cons.prems(3,4) by (cases n) auto
    show ?thesis using no sp True by (simp split: option.splits prod.splits)
  next
    case False
    have "\<not> occurs n w" using Cons.prems(2) no by (auto simp: occurs_def split: if_splits option.splits)
    then have "split_first n (w @ CHR '' '' # s) =
        (case split_first n s of None \<Rightarrow> None | Some (a, b) \<Rightarrow> Some (w @ CHR '' '' # a, b))"
      using Cons.prems False by (intro Cons.IH) (auto simp: word_def)
    then show ?thesis using no by (simp split: option.splits prod.splits)
  qed
qed (simp add: word_def)

lemma split_first_here: "split_first n (n @ s) = Some ([], n @ s)" if "n \<noteq> []"
  using that by (cases n) simp_all

lemma split_first_unwords:
  assumes "\<forall>w \<in> set ws. word w \<and> \<not> occurs n w" "n \<noteq> []" "CHR '' '' \<notin> set n"
  shows "split_first n (unwords ws @ n @ s) = Some (unwords ws, n @ s)"
  using assms
proof (induction ws)
  case Nil
  then show ?case by (simp add: unwords_def split_first_here)
next
  case (Cons w ws)
  then show ?case by (simp add: unwords_def split_first_skip_word)
qed

text \<open>
  The extension filter. In GPU mode the first answer for \<^verbatim>\<open>EGL_EXTENSIONS\<close>, made of
  space-separated names among which the fence extension comes first after names that do not contain
  it, is returned with exactly this name removed and all others kept in order, whether it stands at
  the beginning, in the middle or at the end; the fence entry point is hidden too; and other queries,
  and every query in software mode, are answered unchanged.
\<close>

theorem fence_extension_hidden:
  assumes before: "\<forall>w \<in> set ws. word w \<and> \<not> occurs FENCE_EXT w"
    and after: "\<forall>v \<in> set vs. word v"
    and s: "s = unwords ws @ FENCE_EXT @ concat (map (\<lambda>v. CHR '' '' # v) vs)" and short: "length s < 8191"
  shows "(\<exists>t. eglQueryString (Some s) EGL_EXTENSIONS True \<lparr>xc_text = [], xc_filled = False\<rparr> =
            (Some t, \<lparr>xc_text = t, xc_filled = True\<rparr>) \<and> extensions s = ws @ FENCE_EXT # vs \<and> extensions t = ws @ vs) \<and>
    eglGetProcAddress True (Some ''eglDupNativeFenceFDANDROID'') = Entry_null \<and>
    (name \<noteq> EGL_EXTENSIONS \<or> \<not> gpu \<longrightarrow> eglQueryString (Some s) name gpu c = (Some s, c))"
proof (intro conjI impI)
  have fence: "word FENCE_EXT" "FENCE_EXT \<noteq> []" "CHR '' '' \<notin> set FENCE_EXT" by (simp_all add: word_def FENCE_EXT_def)
  have join: "extensions (concat (map (\<lambda>v. CHR '' '' # v) vs)) = vs" if "\<forall>v \<in> set vs. word v" for vs
    using that
  proof (induction vs)
    case Nil
    then show ?case by (simp add: extensions_def)
  next
    case (Cons v vs)
    have "extensions (v @ concat (map (\<lambda>v. CHR '' '' # v) vs)) = v # vs"
    proof (cases vs)
      case Nil
      then show ?thesis using Cons.prems by (simp add: extensions_last)
    next
      case (Cons u us)
      have "extensions (concat (map (\<lambda>v. CHR '' '' # v) vs)) = vs" using Cons.IH Cons.prems by simp
      then have "extensions (u @ concat (map (\<lambda>v. CHR '' '' # v) us)) = vs"
        unfolding Cons by (simp add: extensions_def)
      then show ?thesis using Cons.prems Cons by (simp add: extensions_Cons)
    qed
    then show ?case by (simp add: extensions_def)
  qed
  have split: "split_first FENCE_EXT s = Some (unwords ws, FENCE_EXT @ concat (map (\<lambda>v. CHR '' '' # v) vs))"
    unfolding s by (rule split_first_unwords [OF before fence(2,3)])
  have rest: "dropWhile (\<lambda>c. c \<noteq> CHR '' '') (FENCE_EXT @ concat (map (\<lambda>v. CHR '' '' # v) vs)) =
      concat (map (\<lambda>v. CHR '' '' # v) vs)"
  proof -
    have "dropWhile (\<lambda>c. c \<noteq> CHR '' '') (FENCE_EXT @ r) = dropWhile (\<lambda>c. c \<noteq> CHR '' '') r" for r
      by (rule dropWhile_append2) (use fence(3) in auto)
    then show ?thesis using fence(3) by (cases vs) auto
  qed
  define t where "t = strip_extension s"
  have t: "t = unwords ws @ drop 1 (concat (map (\<lambda>v. CHR '' '' # v) vs))"
    by (simp add: t_def strip_extension_def split rest)
  have "extensions (FENCE_EXT @ concat (map (\<lambda>v. CHR '' '' # v) vs)) = FENCE_EXT # vs"
    using join [of "FENCE_EXT # vs"] fence(1) after by (simp add: extensions_def)
  then have 1: "extensions s = ws @ FENCE_EXT # vs"
    unfolding s using before by (simp add: extensions_unwords)
  have "extensions (drop 1 (concat (map (\<lambda>v. CHR '' '' # v) vs))) = vs"
    using join [OF after] by (cases vs) (simp_all add: extensions_def)
  then have 2: "extensions t = ws @ vs" unfolding t using before by (simp add: extensions_unwords)
  show "\<exists>t. eglQueryString (Some s) EGL_EXTENSIONS True \<lparr>xc_text = [], xc_filled = False\<rparr> =
            (Some t, \<lparr>xc_text = t, xc_filled = True\<rparr>) \<and> extensions s = ws @ FENCE_EXT # vs \<and> extensions t = ws @ vs"
    using 1 2 short by (intro exI [of _ t]) (simp add: eglQueryString_def split t_def [symmetric])
  show "eglGetProcAddress True (Some ''eglDupNativeFenceFDANDROID'') = Entry_null"
    by (simp add: eglGetProcAddress_def intercepted_def)
  show "name \<noteq> EGL_EXTENSIONS \<or> \<not> gpu \<Longrightarrow> eglQueryString (Some s) name gpu c = (Some s, c)"
    by (auto simp: eglQueryString_def)
qed

theorem fence_extension_hidden_witness:
  "\<exists>t. eglQueryString (Some ''EGL_A EGL_ANDROID_native_fence_sync EGL_B'') EGL_EXTENSIONS True
      \<lparr>xc_text = [], xc_filled = False\<rparr> = (Some t, \<lparr>xc_text = t, xc_filled = True\<rparr>) \<and> extensions t = [''EGL_A'', ''EGL_B'']"
proof -
  have "\<forall>w \<in> set [''EGL_A'']. word w \<and> \<not> occurs FENCE_EXT w" "\<forall>v \<in> set [''EGL_B'']. word v"
    "''EGL_A EGL_ANDROID_native_fence_sync EGL_B'' =
      unwords [''EGL_A''] @ FENCE_EXT @ concat (map (\<lambda>v. CHR '' '' # v) [''EGL_B''])"
    by (simp_all add: word_def occurs_def FENCE_EXT_def unwords_def)
  from fence_extension_hidden [OF this, of 0 False] show ?thesis by auto
qed

end
