(* ===== verification/EglSurface.thy ===== *)
theory EglSurface
  imports EglWindow
begin

text \<open>
  The intercepted EGL calls of \<^verbatim>\<open>egl_override.c\<close> that make, resize, present and destroy windows, and
  the display, context and error calls.
\<close>

subsection \<open>Creating and resizing a window\<close>

definition create_shm_window :: "egl_env \<Rightarrow> nat \<Rightarrow> nat \<Rightarrow> egl \<Rightarrow> nat option \<times> egl" where
  "create_shm_window env dpy config st =
     (if \<not> eg_ready st \<or> eg_compositor st = None \<or> eg_wm_base st = None then (None, st)
      else if eg_count st \<ge> MAX_SHM_WINDOWS then (None, st)
      else
        let i = eg_count st;
            st1 = set_slot i (\<lambda>_. zero_window\<lparr>sw_fd := -1, sw_config := config, sw_display := dpy\<rparr>) st in
        (case new_proxy (en_surface env) C_create_surface st1 of
           (None, st2) \<Rightarrow> (None, st2)
         | (Some surface, st2) \<Rightarrow>
           (case new_proxy (en_xdg env) (\<lambda>n. C_get_xdg_surface n surface)
                  (set_slot i (\<lambda>w. w\<lparr>sw_surface := Some surface\<rparr>) st2) of
              (None, st3) \<Rightarrow> (None, st3)
            | (Some xdg, st3) \<Rightarrow>
              (case new_proxy (en_toplevel env) (\<lambda>n. C_get_toplevel n xdg)
                     (add_listener xdg (L_window i) (set_slot i (\<lambda>w. w\<lparr>sw_xdg := Some xdg\<rparr>) st3)) of
                 (None, st4) \<Rightarrow> (None, st4)
               | (Some toplevel, st4) \<Rightarrow>
                 let st5 = setup_toplevel toplevel (L_window i) surface env
                             (set_slot i (\<lambda>w. w\<lparr>sw_toplevel := Some toplevel\<rparr>) st4);
                     st6 = set_slot i (\<lambda>w. w\<lparr>sw_width := DEFAULT_WIDTH, sw_height := DEFAULT_HEIGHT\<rparr>) st5 in
                 (case create_shm_buffers env i DEFAULT_WIDTH DEFAULT_HEIGHT st6 of
                    (False, st7) \<Rightarrow> (None, st7)
                  | (True, st7) \<Rightarrow>
                    if \<not> en_pbuffer_fn env then (None, destroy_shm_buffers i st7)
                    else
                      let st8 = egl_log (C_create_pbuffer (en_pbuffer env) DEFAULT_WIDTH DEFAULT_HEIGHT) st7 in
                      if en_pbuffer env = None then (None, destroy_shm_buffers i st8)
                      else (Some i, (set_slot i (\<lambda>w. w\<lparr>sw_pbuffer := en_pbuffer env\<rparr>) st8)\<lparr>eg_count := eg_count st8 + 1\<rparr>))))))"

definition handle_shm_resize :: "egl_env \<Rightarrow> nat \<Rightarrow> egl \<Rightarrow> bool \<times> egl" where
  "handle_shm_resize env i st =
     (let new_w = sw_pending_width (slot i st); new_h = sw_pending_height (slot i st);
          st1 = destroy_shm_buffers i st;
          st2 = (if sw_pbuffer (slot i st1) \<noteq> None \<and> en_destroy_fn env
                 then set_slot i (\<lambda>w. w\<lparr>sw_pbuffer := None\<rparr>) (egl_log (C_destroy_pbuffer (sw_pbuffer (slot i st1))) st1)
                 else st1) in
      case create_shm_buffers env i new_w new_h st2 of
        (False, st3) \<Rightarrow> (False, st3)
      | (True, st3) \<Rightarrow>
        let st4 = egl_log (C_create_pbuffer (en_pbuffer env) new_w new_h) st3 in
        if en_pbuffer env = None then (False, st4)
        else (True, set_slot i (\<lambda>w. w\<lparr>sw_pbuffer := en_pbuffer env, sw_width := new_w, sw_height := new_h,
                sw_needs_resize := False\<rparr>) st4))"

subsection \<open>Presenting a frame\<close>

text \<open>\<^verbatim>\<open>memcpy\<close> between mappings and the write of \<^verbatim>\<open>glReadPixels\<close>, with their bounds.\<close>

definition map_memcpy :: "nat option \<Rightarrow> nat \<Rightarrow> nat option \<Rightarrow> nat \<Rightarrow> nat \<Rightarrow> egl \<Rightarrow> egl" where
  "map_memcpy dst doff src soff n st =
     (case (Option.bind dst (eg_maps st), Option.bind src (eg_maps st)) of
        (Some (dn, df), Some (sn, sf)) \<Rightarrow>
          if doff + n \<le> dn \<and> soff + n \<le> sn
          then st\<lparr>eg_maps := (eg_maps st)(the dst \<mapsto>
                 (dn, \<lambda>k. if doff \<le> k \<and> k < doff + n then sf (soff + (k - doff)) else df k))\<rparr>
          else st\<lparr>eg_fault := True\<rparr>
      | _ \<Rightarrow> st\<lparr>eg_fault := True\<rparr>)"

definition gl_read_pixels :: "(nat \<Rightarrow> u8) \<Rightarrow> int \<Rightarrow> int \<Rightarrow> nat option \<Rightarrow> egl \<Rightarrow> egl" where
  "gl_read_pixels px w h m st =
     (let n = nat (w * h * 4); st1 = egl_log (C_read_pixels w h) st in
      case Option.bind m (eg_maps st) of
        None \<Rightarrow> st1\<lparr>eg_fault := True\<rparr>
      | Some (sz, f) \<Rightarrow>
          if n \<le> sz then st1\<lparr>eg_maps := (eg_maps st1)(the m \<mapsto> (sz, \<lambda>k. if k < n then px k else f k))\<rparr>
          else st1\<lparr>eg_fault := True\<rparr>)"

text \<open>The row flip: row \<open>row\<close> of the frame is row \<open>h - 1 - row\<close> of the read-back.\<close>

definition flip_row :: "nat option \<Rightarrow> nat option \<Rightarrow> nat \<Rightarrow> int \<Rightarrow> int \<Rightarrow> nat \<Rightarrow> egl \<Rightarrow> egl" where
  "flip_row data readback base stride h row st =
     map_memcpy data (base + nat (int row * stride)) readback (nat ((h - 1 - int row) * stride)) (nat stride) st"

definition flip_rows :: "nat option \<Rightarrow> nat option \<Rightarrow> nat \<Rightarrow> int \<Rightarrow> int \<Rightarrow> egl \<Rightarrow> egl" where
  "flip_rows data readback base stride h st = fold (flip_row data readback base stride h) [0..<nat h] st"

text \<open>The frame to use: the current one, else the other, else the current one after a dispatch.\<close>

definition pick_buffer :: "egl_env \<Rightarrow> nat \<Rightarrow> egl \<Rightarrow> nat \<times> egl" where
  "pick_buffer env i st =
     (let idx = sw_current (slot i st) in
      if \<not> sw_busy (slot i st) ! idx then (idx, st)
      else if \<not> sw_busy (slot i st) ! (1 - idx) then (1 - idx, st)
      else
        let st1 = (if en_dispatch_fn env then wl_dispatch env st else st); idx' = sw_current (slot i st1)
        in (idx', set_slot i (\<lambda>w. w\<lparr>sw_busy := (sw_busy w)[idx' := False]\<rparr>) st1))"

definition present_frame :: "egl_env \<Rightarrow> nat \<Rightarrow> nat option \<Rightarrow> egl \<Rightarrow> bool \<times> egl" where
  "present_frame env i surface st =
     (let w = sw_width (slot i st); h = sw_height (slot i st); stride = w * 4; buf_size = size_mul stride h;
          (idx, st1) = pick_buffer env i st;
          st2 = gl_read_pixels (en_pixels env) w h (sw_readback (slot i st1)) (egl_log C_gl_finish st1);
          st3 = flip_rows (sw_data (slot i st2)) (sw_readback (slot i st2)) (idx * buf_size) stride h st2;
          surf = the (sw_surface (slot i st3));
          st4 = egl_log (C_commit surf) (egl_log (C_damage surf w h)
                  (egl_log (C_attach surf (sw_buffers (slot i st3) ! idx)) st3));
          st5 = (if en_flush_fn env then egl_log C_flush st4 else st4);
          st6 = set_slot i (\<lambda>x. x\<lparr>sw_busy := (sw_busy x)[idx := True], sw_current := 1 - idx\<rparr>) st5;
          st7 = (if en_swap_fn env then egl_log (C_real_swap surface) (st6\<lparr>eg_suppress := True\<rparr>) else st6);
          st8 = (if en_get_error_fn env then egl_log C_real_get_error st7 else st7)
      in (True, st8\<lparr>eg_suppress := False\<rparr>))"

definition real_swap :: "egl_env \<Rightarrow> nat option \<Rightarrow> egl \<Rightarrow> bool \<times> egl" where
  "real_swap env surface st =
     (if en_swap_fn env then (en_real_swap env, egl_log (C_real_swap surface) st) else (False, st))"

definition ensure_gl_funcs :: "egl_env \<Rightarrow> egl \<Rightarrow> egl" where
  "ensure_gl_funcs env st = (if eg_gl_loaded st then st else st\<lparr>eg_gl_loaded := True\<rparr>)"

definition eglSwapBuffers :: "egl_env \<Rightarrow> nat option \<Rightarrow> egl \<Rightarrow> bool \<times> egl" where
  "eglSwapBuffers env surface st =
     (if eg_gpu st then real_swap env surface st
      else
        (case find_shm_window surface st of
           None \<Rightarrow> real_swap env surface st
         | Some i \<Rightarrow>
           let (ok, st1) = (if sw_needs_resize (slot i st) then handle_shm_resize env i st else (True, st)) in
           if \<not> ok then (False, st1)
           else
             let st2 = (if sw_needs_resize (slot i st) \<and> sw_pbuffer (slot i st1) \<noteq> sw_pbuffer (slot i st) \<and> en_make_current_fn env
                        then egl_log (C_make_current (sw_pbuffer (slot i st1))) st1 else st1);
                 st3 = ensure_gl_funcs env st2 in
             if \<not> en_gl env then (False, st3) else present_frame env i surface st3))"

subsection \<open>Destroying a window\<close>

text \<open>The last used slot moves into the freed one.\<close>

definition remove_slot :: "nat \<Rightarrow> egl \<Rightarrow> egl" where
  "remove_slot i st =
     (let st1 = (if i < eg_count st - 1 then set_slot i (\<lambda>_. eg_slots st ! (eg_count st - 1)) st else st);
          st2 = st1\<lparr>eg_count := eg_count st1 - 1\<rparr>
      in set_slot (eg_count st2) (\<lambda>_. zero_window) st2)"

definition destroy_proxy ::
  "(shm_window \<Rightarrow> nat option) \<Rightarrow> (nat \<Rightarrow> egl_call) \<Rightarrow> (shm_window \<Rightarrow> shm_window) \<Rightarrow> nat \<Rightarrow> egl \<Rightarrow> egl" where
  "destroy_proxy get call clear i st =
     (case get (slot i st) of None \<Rightarrow> st | Some p \<Rightarrow> set_slot i clear (egl_log (call p) st))"

definition eglDestroySurface :: "egl_env \<Rightarrow> nat option \<Rightarrow> egl \<Rightarrow> bool \<times> egl" where
  "eglDestroySurface env surface st =
     (if \<not> en_destroy_fn env then (False, st)
      else if eg_gpu st then (en_real_destroy env, egl_log (C_destroy_pbuffer surface) st)
      else
        let st1 = (case find_shm_window surface st of
                     None \<Rightarrow> st
                   | Some i \<Rightarrow>
                     let a = destroy_shm_buffers i st;
                         b = destroy_proxy sw_toplevel C_toplevel_destroy (\<lambda>w. w\<lparr>sw_toplevel := None\<rparr>) i a;
                         c = destroy_proxy sw_xdg C_xdg_destroy (\<lambda>w. w\<lparr>sw_xdg := None\<rparr>) i b;
                         d = destroy_proxy sw_surface C_surface_destroy (\<lambda>w. w\<lparr>sw_surface := None\<rparr>) i c
                     in remove_slot i d)
        in (en_real_destroy env, egl_log (C_destroy_pbuffer surface) st1))"

subsection \<open>Window surfaces\<close>

text \<open>The three entry points: pass-through with a touch target in GPU mode, a window otherwise.\<close>

definition eglCreateWindowSurface :: "egl_env \<Rightarrow> nat \<Rightarrow> nat \<Rightarrow> egl \<Rightarrow> nat option \<times> egl" where
  "eglCreateWindowSurface env dpy config st =
     (if eg_gpu st
      then let st1 = create_touch_redirect_toplevel env (snd (init_wayland_connection env st)) in
           if \<not> en_window_fn env then (None, st1) else (en_window env, egl_log C_real_window st1)
      else
        (case init_wayland_connection env st of
           (False, st1) \<Rightarrow> (None, st1)
         | (True, st1) \<Rightarrow>
           (case create_shm_window env dpy config st1 of
              (Some i, st2) \<Rightarrow> (sw_pbuffer (slot i st2), st2)
            | (None, st2) \<Rightarrow> (None, st2))))"

definition eglCreatePlatformWindowSurface :: "egl_env \<Rightarrow> nat \<Rightarrow> nat \<Rightarrow> egl \<Rightarrow> nat option \<times> egl" where
  "eglCreatePlatformWindowSurface = eglCreateWindowSurface"

definition eglCreatePlatformWindowSurfaceEXT :: "egl_env \<Rightarrow> nat \<Rightarrow> nat \<Rightarrow> egl \<Rightarrow> nat option \<times> egl" where
  "eglCreatePlatformWindowSurfaceEXT = eglCreateWindowSurface"

subsection \<open>Queries\<close>

definition EGL_SURFACE_TYPE :: int where "EGL_SURFACE_TYPE = 0x3033"
definition EGL_WIDTH :: int where "EGL_WIDTH = 0x3057"
definition EGL_HEIGHT :: int where "EGL_HEIGHT = 0x3058"
definition EGL_WINDOW_BIT :: u32 where "EGL_WINDOW_BIT = 4"
definition EGL_PBUFFER_BIT :: u32 where "EGL_PBUFFER_BIT = 1"

text \<open>\<open>real\<close> is the result and value of Mesa's query, \<open>None\<close> when it cannot be resolved; the value
  is what the caller's pointer receives.\<close>

definition eglQuerySurface :: "(bool \<times> int) option \<Rightarrow> nat option \<Rightarrow> int \<Rightarrow> egl \<Rightarrow> bool \<times> int option" where
  "eglQuerySurface real surface attribute st =
     (case real of None \<Rightarrow> (False, None)
      | Some (ret, v) \<Rightarrow>
        (case (if eg_gpu st then None else find_shm_window surface st) of
           None \<Rightarrow> (ret, Some v)
         | Some i \<Rightarrow>
             if attribute = EGL_SURFACE_TYPE then (True, Some (uint (EGL_WINDOW_BIT OR EGL_PBUFFER_BIT)))
             else if attribute = EGL_WIDTH then (True, Some (sw_width (slot i st)))
             else if attribute = EGL_HEIGHT then (True, Some (sw_height (slot i st)))
             else (ret, Some v)))"

text \<open>\<^verbatim>\<open>eglChooseConfig\<close>: attributes as the pairs before \<^verbatim>\<open>EGL_NONE\<close>; at most 31 are copied.\<close>

definition fix_surface_type :: "int \<times> u32 \<Rightarrow> int \<times> u32" where
  "fix_surface_type a =
     (if fst a = EGL_SURFACE_TYPE \<and> snd a AND EGL_WINDOW_BIT \<noteq> 0
      then (fst a, snd a AND NOT EGL_WINDOW_BIT OR EGL_PBUFFER_BIT) else a)"

definition use_attribs :: "bool \<Rightarrow> (int \<times> u32) list option \<Rightarrow> (int \<times> u32) list option" where
  "use_attribs gpu attrib_list =
     (case attrib_list of None \<Rightarrow> None
      | Some as \<Rightarrow>
        if gpu then Some as
        else
          let copied = take 31 as; modified = map fix_surface_type copied;
              did_modify = (\<exists>a \<in> set copied. fst a = EGL_SURFACE_TYPE \<and> snd a AND EGL_WINDOW_BIT \<noteq> 0)
          in if did_modify then Some modified else Some as)"

definition eglChooseConfig :: "((int \<times> u32) list option \<Rightarrow> 'r) option \<Rightarrow> 'r \<Rightarrow> (int \<times> u32) list option \<Rightarrow> egl \<Rightarrow> 'r" where
  "eglChooseConfig real failed attrib_list st =
     (case real of None \<Rightarrow> failed | Some f \<Rightarrow> f (use_attribs (eg_gpu st) attrib_list))"

definition eglGetConfigAttrib :: "(bool \<times> u32) option \<Rightarrow> int \<Rightarrow> egl \<Rightarrow> bool \<times> u32" where
  "eglGetConfigAttrib real attribute st =
     (case real of None \<Rightarrow> (False, 0)
      | Some (ret, v) \<Rightarrow> (ret, if \<not> eg_gpu st \<and> ret \<and> attribute = EGL_SURFACE_TYPE then v OR EGL_WINDOW_BIT else v))"

subsection \<open>Display, context, errors\<close>

definition eglInitialize :: "egl_env \<Rightarrow> egl \<Rightarrow> bool \<times> egl" where
  "eglInitialize env st =
     (case en_initialize env of None \<Rightarrow> (False, st)
      | Some ret \<Rightarrow>
          (ret, if \<not> eg_gpu st then st
                else if \<not> ret then st\<lparr>eg_init_failed := True\<rparr>
                else if eg_init_failed st then st\<lparr>eg_gpu := False, eg_init_failed := False\<rparr>
                else st))"

definition eglMakeCurrent :: "egl_env \<Rightarrow> nat option \<Rightarrow> egl \<Rightarrow> bool \<times> egl" where
  "eglMakeCurrent env surface st =
     (if \<not> en_make_current_fn env then (False, st)
      else let st1 = egl_log (C_make_current surface) st in
           (en_make_current env, if en_make_current env \<and> \<not> eg_gl_loaded st1 then ensure_gl_funcs env st1 else st1))"

definition eglGetError :: "egl_env \<Rightarrow> egl \<Rightarrow> int \<times> egl" where
  "eglGetError env st =
     (if \<not> en_get_error_fn env then (0x3000, st)
      else
        let err = en_error env; st1 = egl_log C_real_get_error st in
        if eg_gpu st1 then (err, st1)
        else if err = 0x300D \<and> eg_suppress st1 then (0x3000, st1\<lparr>eg_suppress := False\<rparr>)
        else (err, st1))"

definition EGL_PLATFORM_GBM_KHR :: int where "EGL_PLATFORM_GBM_KHR = 0x31D7"
definition EGL_PLATFORM_SURFACELESS_MESA :: int where "EGL_PLATFORM_SURFACELESS_MESA = 0x31DD"

text \<open>A GBM device of Mesa's own, once.\<close>

definition ensure_mesa_gbm :: "egl_env \<Rightarrow> egl \<Rightarrow> egl" where
  "ensure_mesa_gbm env st =
     (if eg_mesa_gbm st = None \<and> en_gbm_fn env \<and> en_drm_fd env \<ge> 0
      then
        let st1 = st\<lparr>eg_drm_fds := insert (en_drm_fd env) (eg_drm_fds st)\<rparr> in
        if en_gbm_device env \<noteq> None then st1\<lparr>eg_mesa_gbm := en_gbm_device env\<rparr>
        else egl_log (C_close_drm (en_drm_fd env)) (st1\<lparr>eg_drm_fds := eg_drm_fds st1 - {en_drm_fd env}\<rparr>)
      else st)"

definition eglGetPlatformDisplay :: "egl_env \<Rightarrow> int \<Rightarrow> nat option \<Rightarrow> egl \<Rightarrow> nat option \<times> egl" where
  "eglGetPlatformDisplay env platform native_display st =
     (if \<not> en_platform_fn env then (None, st)
      else if platform = EGL_PLATFORM_GBM_KHR
      then
        let st1 = snd (init_wayland_connection env st) in
        if eg_gpu st1
        then
          let st2 = ensure_mesa_gbm env st1; st3 = snd (init_wayland_connection env st2);
              native = (if eg_mesa_gbm st2 \<noteq> None then eg_mesa_gbm st2 else native_display)
          in (en_egl_display env, egl_log (C_platform_display platform native) st3)
        else (en_egl_display env, egl_log (C_platform_display EGL_PLATFORM_SURFACELESS_MESA None) st1)
      else (en_egl_display env, egl_log (C_platform_display platform native_display) st))"

definition eglGetPlatformDisplayEXT :: "egl_env \<Rightarrow> int \<Rightarrow> nat option \<Rightarrow> egl \<Rightarrow> nat option \<times> egl" where
  "eglGetPlatformDisplayEXT = eglGetPlatformDisplay"

definition eglGetDisplay :: "egl_env \<Rightarrow> nat option \<Rightarrow> egl \<Rightarrow> nat option \<times> egl" where
  "eglGetDisplay env display_id st =
     (if eg_gpu st
      then if en_get_display_fn env then (en_egl_display env, egl_log (C_get_display display_id) st) else (None, st)
      else if en_platform_fn env
      then let st1 = snd (init_wayland_connection env st)
           in (en_egl_display env, egl_log (C_platform_display EGL_PLATFORM_SURFACELESS_MESA None) st1)
      else if en_get_display_fn env then (en_egl_display env, egl_log (C_get_display display_id) st)
      else (None, st))"

end
