(* ===== verification/EglInv.thy ===== *)
theory EglInv
  imports EglSurface "HOL-Library.Multiset"
begin

text \<open>
  The invariant of the software-mode windows: which descriptors and mappings are open, whose they
  are, and that their sizes fit the windows; and that every call keeps it.
\<close>

subsection \<open>Sizes and resources\<close>

text \<open>Two frames fit a signed 32-bit size (the pool's size is one on the wire).\<close>

definition fits :: "int \<Rightarrow> int \<Rightarrow> bool" where
  "fits w h \<longleftrightarrow> 0 < w \<and> 0 < h \<and> w * h * 8 < 2 ^ 31"

definition frame_size :: "int \<Rightarrow> int \<Rightarrow> nat" where
  "frame_size w h = nat (w * 4 * h)"

lemma size_mul_fits: "fits w h \<Longrightarrow> size_mul (w * 4) h = frame_size w h"
  and frame_size_bound: "fits w h \<Longrightarrow> frame_size w h * 2 < 2 ^ 31"
proof -
  assume f: "fits w h"
  then have b: "0 < w * 4 * h" "w * 4 * h * 2 < 2 ^ 31" by (simp_all add: fits_def algebra_simps)
  then have "w * 4 * h mod 2 ^ 64 = w * 4 * h" by simp
  then show "size_mul (w * 4) h = frame_size w h" unfolding size_mul_def frame_size_def by simp
  have "int (frame_size w h * 2) < int (2 ^ 31)" using b by (simp add: frame_size_def)
  then show "frame_size w h * 2 < 2 ^ 31" by (simp only: of_nat_less_iff)
qed

definition res_of :: "shm_window \<Rightarrow> (int + nat) multiset" where
  "res_of w = (if sw_fd w < 0 then {#} else {#Inl (sw_fd w)#}) +
     (case sw_data w of None \<Rightarrow> {#} | Some m \<Rightarrow> {#Inr m#}) + (case sw_readback w of None \<Rightarrow> {#} | Some m \<Rightarrow> {#Inr m#})"

definition live :: "egl \<Rightarrow> (int + nat) set" where
  "live st = Inl ` eg_fds st \<union> Inr ` dom (eg_maps st)"

definition map_size :: "egl \<Rightarrow> nat \<Rightarrow> nat option" where
  "map_size st m = map_option fst (eg_maps st m)"

definition used :: "egl \<Rightarrow> shm_window list" where
  "used st = take (eg_count st) (eg_slots st)"

definition win_ok :: "egl \<Rightarrow> shm_window \<Rightarrow> bool" where
  "win_ok st w \<longleftrightarrow> sw_surface w \<noteq> None \<and>
     ((sw_fd w < 0 \<and> sw_data w = None \<and> sw_readback w = None \<and> sw_needs_resize w) \<or>
      (0 \<le> sw_fd w \<and> (\<exists>d r n. sw_data w = Some d \<and> sw_readback w = Some r \<and>
         map_size st d = Some (2 * n) \<and> map_size st r = Some n \<and>
         (\<not> sw_needs_resize w \<longrightarrow> fits (sw_width w) (sw_height w) \<and> n = frame_size (sw_width w) (sw_height w)))))"

definition slot_ok :: "shm_window \<Rightarrow> bool" where
  "slot_ok w \<longleftrightarrow> length (sw_buffers w) = 2 \<and> length (sw_busy w) = 2 \<and> sw_current w < 2 \<and>
     (sw_needs_resize w \<longrightarrow> fits (sw_pending_width w) (sw_pending_height w))"

definition egl_inv :: "egl \<Rightarrow> bool" where
  "egl_inv st \<longleftrightarrow> length (eg_slots st) = MAX_SHM_WINDOWS \<and> eg_count st \<le> MAX_SHM_WINDOWS \<and>
     (\<forall>w \<in> set (eg_slots st). slot_ok w) \<and> (\<forall>w \<in> set (used st). win_ok st w) \<and>
     finite (live st) \<and> (\<Sum>w\<leftarrow>used st. res_of w) = mset_set (live st) \<and>
     (\<forall>m \<ge> eg_next_map st. eg_maps st m = None) \<and> \<not> eg_fault st"

subsection \<open>What leaves the resources alone\<close>

text \<open>Handlers only touch the busy flags and the pending size.\<close>

definition core :: "shm_window \<Rightarrow> shm_window" where
  "core w = w\<lparr>sw_busy := [], sw_pending_width := 0, sw_pending_height := 0, sw_needs_resize := False\<rparr>"

definition calm_win :: "shm_window \<Rightarrow> shm_window \<Rightarrow> bool" where
  "calm_win w w' \<longleftrightarrow> core w' = core w \<and> (slot_ok w \<longrightarrow> slot_ok w') \<and> (sw_needs_resize w \<longrightarrow> sw_needs_resize w')"

definition calm :: "egl \<Rightarrow> egl \<Rightarrow> bool" where
  "calm st st' \<longleftrightarrow> eg_fds st' = eg_fds st \<and> eg_maps st' = eg_maps st \<and> eg_next_map st' = eg_next_map st \<and>
     eg_count st' = eg_count st \<and> eg_fault st' = eg_fault st \<and> list_all2 calm_win (eg_slots st) (eg_slots st')"

lemma calm_win_refl [simp]: "calm_win w w" by (simp add: calm_win_def)

lemma calm_win_trans: "\<lbrakk>calm_win u v; calm_win v w\<rbrakk> \<Longrightarrow> calm_win u w" by (simp add: calm_win_def)

lemma calm_refl [simp]: "calm st st"
  by (simp add: calm_def list_all2_same)

lemma calm_trans [trans]: "\<lbrakk>calm a b; calm b c\<rbrakk> \<Longrightarrow> calm a c"
proof -
  assume *: "calm a b" "calm b c"
  have "list_all2 calm_win (eg_slots a) (eg_slots c)"
    by (rule list_all2_trans [of calm_win calm_win calm_win, OF calm_win_trans])
       (use * in \<open>auto simp: calm_def\<close>)
  then show "calm a c" using * by (simp add: calm_def)
qed

lemma calm_same:
  "\<lbrakk>eg_fds st' = eg_fds st; eg_maps st' = eg_maps st; eg_next_map st' = eg_next_map st; eg_count st' = eg_count st;
    eg_fault st' = eg_fault st; eg_slots st' = eg_slots st\<rbrakk> \<Longrightarrow> calm st st'"
  by (simp add: calm_def list_all2_same)

lemma calm_log [simp]: "calm st (egl_log c st)" by (rule calm_same) (simp_all add: egl_log_def)
lemma calm_listener [simp]: "calm st (add_listener p l st)" by (rule calm_same) (simp_all add: add_listener_def)
lemma calm_proxy [simp]: "calm st (snd (new_proxy ok c st))"
  by (rule calm_same) (simp_all add: new_proxy_def egl_log_def)

lemma calm_set_slot: "(\<And>w. calm_win w (f w)) \<Longrightarrow> calm st (set_slot i f st)"
  by (cases "i < length (eg_slots st)")
     (simp_all add: calm_def set_slot_def list_all2_same list_all2_conv_all_nth nth_list_update)

definition event_ok :: "wl_event \<Rightarrow> bool" where
  "event_ok e \<longleftrightarrow> (case e of Ev_top_configure p w h \<Rightarrow> w > 0 \<longrightarrow> h > 0 \<longrightarrow> fits w h | _ \<Rightarrow> True)"

lemma core_simps [simp]:
  "core (w\<lparr>sw_busy := b\<rparr>) = core w"
  "core (w\<lparr>sw_pending_width := x, sw_pending_height := y, sw_needs_resize := z\<rparr>) = core w"
  by (simp_all add: core_def)

lemma calm_release: "calm st (buffer_handle_release i b st)"
  unfolding buffer_handle_release_def by (rule calm_set_slot) (simp add: calm_win_def slot_ok_def)

lemma calm_commit [simp]: "calm st (commit_surface s st)"
  by (cases s) (simp_all add: commit_surface_def)

lemma calm_configure: "calm st (xdg_surface_handle_configure i p serial st)"
  "calm st (touch_xdg_surface_handle_configure p serial st)"
  unfolding xdg_surface_handle_configure_def touch_xdg_surface_handle_configure_def Let_def
  by (rule calm_trans [OF calm_log calm_commit])+

lemma calm_top_configure:
  assumes "w > 0 \<longrightarrow> h > 0 \<longrightarrow> fits w h"
  shows "calm st (xdg_toplevel_handle_configure i w h st)"
  unfolding xdg_toplevel_handle_configure_def
  using assms by (auto intro: calm_set_slot simp: calm_win_def slot_ok_def)

lemma calm_global: "calm st (registry_global f v ok a b st)"
proof -
  have "calm st (st1\<lparr>eg_compositor := p\<rparr>)" "calm st (st1\<lparr>eg_wm_base := p\<rparr>)" "calm st (st1\<lparr>eg_shm := p\<rparr>)"
    "calm st (add_listener q l (st1\<lparr>eg_wm_base := p\<rparr>))"
    if "new_proxy ok c st = (p, st1)" for c p q l st1
    using that by (auto intro!: calm_same simp: new_proxy_def egl_log_def add_listener_def split: if_splits)
  then show ?thesis
    by (auto simp: registry_global_def Let_def split: prod.splits option.splits)
qed

lemma calm_deliver: "event_ok e \<Longrightarrow> calm st (deliver env e st)"
  by (cases e) (auto simp: event_ok_def calm_release calm_configure calm_top_configure calm_global
    xdg_wm_base_handle_ping_def xdg_toplevel_handle_close_def split: option.splits listener.splits)

lemma calm_fold: "\<forall>e \<in> set es. event_ok e \<Longrightarrow> calm st (fold (deliver env) es st)"
proof (induction es arbitrary: st)
  case (Cons e es)
  have "calm st (deliver env e st)" using Cons.prems by (simp add: calm_deliver)
  also have "calm (deliver env e st) (fold (deliver env) es (deliver env e st))" using Cons by simp
  finally show ?case by simp
qed simp

definition env_ok :: "egl_env \<Rightarrow> egl \<Rightarrow> bool" where
  "env_ok env st \<longleftrightarrow> en_memfd env \<notin> eg_fds st \<and> (\<forall>e \<in> set (en_roundtrip env) \<union> set (en_dispatch env). event_ok e)"

lemma calm_roundtrip: "env_ok env st0 \<Longrightarrow> calm st (wl_roundtrip env st)"
  and calm_dispatch: "env_ok env st0 \<Longrightarrow> calm st (wl_dispatch env st)"
  unfolding wl_roundtrip_def wl_dispatch_def env_ok_def
  by (rule calm_trans [OF calm_log calm_fold], blast)+

lemma calm_init:
  assumes "env_ok env st0"
  shows "calm st (snd (init_wayland_connection env st))"
proof -
  obtain d st1 where d: "new_proxy (en_connect env) C_connect st = (d, st1)" by fastforce
  let ?st1 = "st1\<lparr>eg_display := d, eg_conns := (case d of None \<Rightarrow> eg_conns st1 | Some c \<Rightarrow> c # eg_conns st1)\<rparr>"
  obtain r st2 where r: "new_proxy (en_registry env) C_get_registry ?st1 = (r, st2)" by fastforce
  have 1: "calm st ?st1"
    using d by (auto intro!: calm_same simp: new_proxy_def egl_log_def split: if_splits)
  have 2: "calm st st2" using calm_trans [OF 1 calm_proxy] r by (metis snd_conv)
  have 3: "calm st (wl_roundtrip env (add_listener reg L_none st2))" for reg
    using calm_trans [OF calm_trans [OF 2 calm_listener] calm_roundtrip [OF assms]] .
  have 4: "calm st (wl_roundtrip env (add_listener reg L_none st2)\<lparr>eg_ready := True\<rparr>)" for reg
    by (rule calm_trans [OF 3 calm_same]) simp_all
  show ?thesis
    using 1 2 3 4 r by (cases d) (auto simp: init_wayland_connection_def Let_def d split: option.splits)
qed

lemma calm_setup: "env_ok env st0 \<Longrightarrow> calm st (setup_toplevel t l s env st)"
  unfolding setup_toplevel_def Let_def
  by (intro calm_trans [OF calm_log calm_trans [OF calm_log calm_trans [OF calm_listener calm_trans [OF calm_log calm_roundtrip]]]])

lemma calm_used:
  assumes "calm st st'"
  shows "length (used st') = length (used st)" and "map core (used st') = map core (used st)"
    and "list_all2 calm_win (used st) (used st')"
proof -
  have *: "list_all2 calm_win (used st) (used st')"
    using assms by (simp add: calm_def used_def list_all2_takeI)
  show "list_all2 calm_win (used st) (used st')" by (rule *)
  show "length (used st') = length (used st)" using list_all2_lengthD [OF *] by simp
  show "map core (used st') = map core (used st)"
    using * by (induction rule: list_all2_induct) (simp_all add: calm_win_def)
qed

lemma res_of_core: "res_of w = res_of (core w)" by (simp add: res_of_def core_def)

lemma res_of_map_core: "map core xs = map core ys \<Longrightarrow> (\<Sum>w\<leftarrow>xs. res_of w) = (\<Sum>w\<leftarrow>ys. res_of w)"
proof -
  assume eq: "map core xs = map core ys"
  have "map res_of zs = map res_of (map core zs)" for zs by (simp add: res_of_core [symmetric])
  then show ?thesis using eq by metis
qed

lemma core_eqD:
  assumes "core w' = core w"
  shows "sw_surface w' = sw_surface w" "sw_fd w' = sw_fd w" "sw_data w' = sw_data w" "sw_readback w' = sw_readback w"
    "sw_width w' = sw_width w" "sw_height w' = sw_height w" "sw_buffers w' = sw_buffers w"
    "sw_current w' = sw_current w" "sw_pbuffer w' = sw_pbuffer w"
  using arg_cong [OF assms, of sw_surface] arg_cong [OF assms, of sw_fd] arg_cong [OF assms, of sw_data]
    arg_cong [OF assms, of sw_readback] arg_cong [OF assms, of sw_width] arg_cong [OF assms, of sw_height]
    arg_cong [OF assms, of sw_buffers] arg_cong [OF assms, of sw_current] arg_cong [OF assms, of sw_pbuffer]
  by (simp_all add: core_def)

lemma calm_win_ok:
  assumes "calm_win w w'" "map_size st' = map_size st" "win_ok st w"
  shows "win_ok st' w'"
proof -
  have c: "core w' = core w" and r: "sw_needs_resize w \<longrightarrow> sw_needs_resize w'"
    using assms(1) by (simp_all add: calm_win_def)
  show ?thesis using assms(3) r unfolding win_ok_def core_eqD [OF c] assms(2) by blast
qed

lemma calm_inv:
  assumes calm: "calm st st'" and inv: "egl_inv st"
  shows "egl_inv st'"
proof -
  have size: "map_size st' = map_size st" and live: "live st' = live st"
    using calm by (simp_all add: calm_def live_def map_size_def [abs_def])
  have "\<forall>w \<in> set (eg_slots st'). slot_ok w"
    using calm inv unfolding calm_def egl_inv_def list_all2_conv_all_nth calm_win_def
    by (metis in_set_conv_nth nth_mem)
  moreover have "\<forall>w \<in> set (used st'). win_ok st' w"
    using calm_used(3) [OF calm] inv calm_win_ok [OF _ size] unfolding egl_inv_def list_all2_conv_all_nth
    by (metis in_set_conv_nth nth_mem)
  moreover have "(\<Sum>w\<leftarrow>used st'. res_of w) = (\<Sum>w\<leftarrow>used st. res_of w)"
    using calm_used(2) [OF calm] by (rule res_of_map_core)
  moreover have "length (eg_slots st') = length (eg_slots st)"
    using calm list_all2_lengthD by (fastforce simp: calm_def)
  ultimately show ?thesis using inv calm live by (simp add: egl_inv_def calm_def)
qed

subsection \<open>Making and freeing the frames\<close>

text \<open>The fields of a window that are neither frames nor flags.\<close>

definition same_window :: "shm_window \<Rightarrow> shm_window \<Rightarrow> bool" where
  "same_window w w' \<longleftrightarrow> sw_surface w' = sw_surface w \<and> sw_pbuffer w' = sw_pbuffer w \<and> sw_width w' = sw_width w \<and>
     sw_height w' = sw_height w \<and> sw_pending_width w' = sw_pending_width w \<and>
     sw_pending_height w' = sw_pending_height w \<and> sw_needs_resize w' = sw_needs_resize w \<and>
     length (sw_buffers w') = length (sw_buffers w) \<and> length (sw_busy w') = length (sw_busy w)"

text \<open>Only slot \<open>i\<close> has changed, and no call was misused.\<close>

definition only_slot :: "nat \<Rightarrow> egl \<Rightarrow> egl \<Rightarrow> bool" where
  "only_slot i st st' \<longleftrightarrow> eg_count st' = eg_count st \<and> eg_fault st' = eg_fault st \<and>
     length (eg_slots st') = length (eg_slots st) \<and> (\<forall>j. j \<noteq> i \<longrightarrow> eg_slots st' ! j = eg_slots st ! j) \<and>
     same_window (eg_slots st ! i) (eg_slots st' ! i)"

lemmas egl_prims = new_proxy_def egl_log_def set_slot_def add_listener_def close_fd_def new_map_def munmap_def slot_def

text \<open>An invariant with slot \<open>i\<close> taken out: its resources are the ones its fields name, whatever its state.\<close>

definition others :: "nat \<Rightarrow> egl \<Rightarrow> (int + nat) multiset" where
  "others i st = (\<Sum>w\<leftarrow>take i (used st) @ drop (Suc i) (used st). res_of w)"

definition inv_but :: "nat \<Rightarrow> egl \<Rightarrow> bool" where
  "inv_but i st \<longleftrightarrow> length (eg_slots st) = MAX_SHM_WINDOWS \<and> eg_count st \<le> MAX_SHM_WINDOWS \<and> i < MAX_SHM_WINDOWS \<and>
     i \<le> eg_count st \<and> (\<forall>w \<in> set (eg_slots st). slot_ok w) \<and>
     (\<forall>j < eg_count st. j \<noteq> i \<longrightarrow> win_ok st (eg_slots st ! j)) \<and>
     finite (live st) \<and> others i st + res_of (eg_slots st ! i) = mset_set (live st) \<and>
     (\<forall>m \<ge> eg_next_map st. eg_maps st m = None) \<and> \<not> eg_fault st"

lemma used_nth [simp]: "j < eg_count st \<Longrightarrow> used st ! j = eg_slots st ! j"
  by (simp add: used_def)

lemma length_used: "\<lbrakk>length (eg_slots st) = MAX_SHM_WINDOWS; eg_count st \<le> MAX_SHM_WINDOWS\<rbrakk> \<Longrightarrow> length (used st) = eg_count st"
  by (simp add: used_def)

lemma used_sum:
  assumes "length (eg_slots st) = MAX_SHM_WINDOWS" "eg_count st \<le> MAX_SHM_WINDOWS" "i < eg_count st"
  shows "(\<Sum>w\<leftarrow>used st. res_of w) = others i st + res_of (eg_slots st ! i)"
proof -
  have "used st = take i (used st) @ eg_slots st ! i # drop (Suc i) (used st)"
    using id_take_nth_drop [of i "used st"] assms by (simp add: length_used)
  then have "(\<Sum>w\<leftarrow>used st. res_of w) = (\<Sum>w\<leftarrow>take i (used st) @ eg_slots st ! i # drop (Suc i) (used st). res_of w)"
    by (rule arg_cong)
  then show ?thesis by (simp add: others_def algebra_simps)
qed

lemma set_used_conv:
  assumes "length (eg_slots st) = MAX_SHM_WINDOWS" "eg_count st \<le> MAX_SHM_WINDOWS"
  shows "(\<forall>w \<in> set (used st). P w) \<longleftrightarrow> (\<forall>j < eg_count st. P (eg_slots st ! j))"
  using assms by (auto simp: all_set_conv_all_nth length_used)

lemma open_slot: "\<lbrakk>egl_inv st; i < eg_count st\<rbrakk> \<Longrightarrow> inv_but i st"
  by (auto simp: egl_inv_def inv_but_def set_used_conv used_sum)

lemma close_slot: "\<lbrakk>inv_but i st; i < eg_count st; win_ok st (eg_slots st ! i)\<rbrakk> \<Longrightarrow> egl_inv st"
  unfolding egl_inv_def inv_but_def by (metis set_used_conv used_sum)

lemma others_last: "length (used st) \<le> i \<Longrightarrow> others i st = (\<Sum>w\<leftarrow>used st. res_of w)"
  by (simp add: others_def)

lemma close_empty:
  assumes "inv_but (eg_count st) st" "res_of (eg_slots st ! eg_count st) = {#}"
  shows "egl_inv st"
  using assms by (auto simp: egl_inv_def inv_but_def set_used_conv others_last length_used)

lemma close_new:
  assumes inv: "inv_but (eg_count st) st" and w: "win_ok st (eg_slots st ! eg_count st)"
  shows "egl_inv (st\<lparr>eg_count := eg_count st + 1\<rparr>)"
proof -
  let ?st = "st\<lparr>eg_count := eg_count st + 1\<rparr>"
  have *: "length (eg_slots st) = MAX_SHM_WINDOWS" "eg_count st < MAX_SHM_WINDOWS" using inv by (simp_all add: inv_but_def)
  have "used ?st = used st @ [eg_slots st ! eg_count st]"
    using * by (simp add: used_def take_Suc_conv_app_nth)
  then have "others (eg_count st) ?st = others (eg_count st) st"
    using * by (simp add: others_def length_used)
  moreover have "win_ok ?st = win_ok st" "live ?st = live st"
    by (simp_all add: fun_eq_iff win_ok_def live_def map_size_def)
  ultimately have "inv_but (eg_count st) ?st"
    using inv * by (auto simp: inv_but_def less_Suc_eq)
  then show ?thesis by (rule close_slot) (use w \<open>win_ok ?st = win_ok st\<close> in simp_all)
qed

lemma sum_member: "x \<in> set xs \<Longrightarrow> set_mset (f x) \<subseteq> set_mset (\<Sum>w\<leftarrow>xs. f w)"
  by (induction xs) auto

lemma others_member:
  assumes "length (eg_slots st) = MAX_SHM_WINDOWS" "eg_count st \<le> MAX_SHM_WINDOWS" "j < eg_count st" "j \<noteq> i"
  shows "set_mset (res_of (eg_slots st ! j)) \<subseteq> set_mset (others i st)"
proof -
  have "eg_slots st ! j \<in> set (take i (used st) @ drop (Suc i) (used st))"
  proof (cases "j < i")
    case True
    then have "take i (used st) ! j = eg_slots st ! j" using assms by simp
    moreover have "j < length (take i (used st))" using True assms by (simp add: length_used)
    ultimately show ?thesis by (metis UnCI nth_mem set_append)
  next
    case False
    then have "drop (Suc i) (used st) ! (j - Suc i) = eg_slots st ! j" using assms by (simp add: length_used)
    moreover have "j - Suc i < length (drop (Suc i) (used st))" using False assms by (simp add: length_used)
    ultimately show ?thesis by (metis UnCI nth_mem set_append)
  qed
  then show ?thesis unfolding others_def by (rule sum_member)
qed

lemma inv_but_split:
  assumes "inv_but i st"
  shows "set_mset (others i st) \<inter> set_mset (res_of (eg_slots st ! i)) = {}"
    and "set_mset (others i st) \<union> set_mset (res_of (eg_slots st ! i)) = live st"
    and "x \<in># res_of (eg_slots st ! i) \<Longrightarrow> count (res_of (eg_slots st ! i)) x = 1"
proof -
  let ?A = "others i st" and ?B = "res_of (eg_slots st ! i)"
  have eq: "?A + ?B = mset_set (live st)" and fin: "finite (live st)" using assms by (simp_all add: inv_but_def)
  show u: "set_mset ?A \<union> set_mset ?B = live st" using arg_cong [OF eq, of set_mset] fin by simp
  have le: "count ?A y + count ?B y \<le> 1" for y
    using arg_cong [OF eq, of "\<lambda>M. count M y"] by (simp add: count_mset_set')
  show "set_mset ?A \<inter> set_mset ?B = {}" 
  proof (rule ccontr)
    assume "set_mset ?A \<inter> set_mset ?B \<noteq> {}"
    then obtain y where "0 < count ?A y" "0 < count ?B y" by (auto simp: count_greater_zero_iff)
    then show False using le [of y] by linarith
  qed
  show "count ?B x = 1" if "x \<in># ?B" 
    using that le [of x] count_greater_zero_iff [of ?B x] by linarith
qed

lemma inv_but_distinct:
  assumes "inv_but i st" "sw_data (eg_slots st ! i) = Some m"
  shows "sw_readback (eg_slots st ! i) \<noteq> Some m"
proof
  assume "sw_readback (eg_slots st ! i) = Some m"
  then have "2 \<le> count (res_of (eg_slots st ! i)) (Inr m)" using assms(2) by (simp add: res_of_def)
  moreover have "Inr m \<in># res_of (eg_slots st ! i)" using assms(2) by (simp add: res_of_def)
  ultimately show False using inv_but_split(3) [OF assms(1), of "Inr m"] by simp
qed

text \<open>A change confined to slot \<open>i\<close> and its own resources keeps the invariant of the others.\<close>

lemma win_ok_cong:
  "\<lbrakk>win_ok st w; \<And>m. Inr m \<in># res_of w \<Longrightarrow> map_size st' m = map_size st m\<rbrakk> \<Longrightarrow> win_ok st' w"
  unfolding win_ok_def res_of_def by fastforce

lemma others_only:
  assumes "only_slot i st st'"
  shows "others i st' = others i st"
proof -
  have len: "length (used st') = length (used st)" using assms by (simp add: only_slot_def used_def)
  have nth: "used st' ! j = used st ! j" if "j < length (used st)" "j \<noteq> i" for j
    using that assms by (simp add: only_slot_def used_def)
  have "take i (used st') = take i (used st)" "drop (Suc i) (used st') = drop (Suc i) (used st)"
    using len nth by (auto intro!: nth_equalityI)
  then show ?thesis by (simp add: others_def)
qed

lemma inv_but_change:
  assumes inv: "inv_but i st" and only: "only_slot i st st'" and ok: "slot_ok (eg_slots st' ! i)"
    and live: "live st' = set_mset (others i st) \<union> set_mset (res_of (eg_slots st' ! i))"
    and disj: "set_mset (others i st) \<inter> set_mset (res_of (eg_slots st' ! i)) = {}"
    and dist: "\<And>x. count (res_of (eg_slots st' ! i)) x \<le> 1"
    and size: "\<And>m. Inr m \<in># others i st \<Longrightarrow> map_size st' m = map_size st m"
    and fresh: "\<forall>m \<ge> eg_next_map st'. eg_maps st' m = None"
  shows "inv_but i st'"
proof -
  have same: "eg_count st' = eg_count st" "length (eg_slots st') = length (eg_slots st)" "eg_fault st' = eg_fault st"
    "\<And>j. j \<noteq> i \<Longrightarrow> eg_slots st' ! j = eg_slots st ! j" using only by (auto simp: only_slot_def)
  note inv' = inv [unfolded inv_but_def]
  have slots: "\<forall>w \<in> set (eg_slots st'). slot_ok w"
    using inv' ok same unfolding all_set_conv_all_nth by metis
  have wins: "\<forall>j < eg_count st'. j \<noteq> i \<longrightarrow> win_ok st' (eg_slots st' ! j)"
  proof (intro allI impI)
    fix j assume j: "j < eg_count st'" "j \<noteq> i"
    have "win_ok st (eg_slots st ! j)" using inv' j same by simp
    moreover have "set_mset (res_of (eg_slots st ! j)) \<subseteq> set_mset (others i st)"
      by (rule others_member) (use inv' j same in simp_all)
    ultimately have "win_ok st' (eg_slots st ! j)" by (blast intro: win_ok_cong size)
    then show "win_ok st' (eg_slots st' ! j)" using same(4) j by simp
  qed
  have fin: "finite (live st')" unfolding live by simp
  have "others i st + res_of (eg_slots st' ! i) = mset_set (live st')"
  proof (rule multiset_eqI)
    fix x
    have eq: "others i st + res_of (eg_slots st ! i) = mset_set (live st)" using inv' by simp
    have le: "count (others i st) x \<le> 1"
      using arg_cong [OF eq, of "\<lambda>M. count M x"] by (simp add: count_mset_set' split: if_splits)
    have "\<not> (0 < count (others i st) x \<and> 0 < count (res_of (eg_slots st' ! i)) x)"
      using disj by (auto simp: count_greater_zero_iff disjoint_iff)
    then show "count (others i st + res_of (eg_slots st' ! i)) x = count (mset_set (live st')) x"
      using le dist [of x] fin unfolding count_mset_set' live count_union
      by (auto simp: count_greater_zero_iff [symmetric] simp del: count_greater_zero_iff)
  qed
  then show ?thesis
    using inv' same slots wins fin fresh others_only [OF only] by (simp add: inv_but_def)
qed

lemma destroy_buffer_fields [simp]:
  "eg_slots (destroy_buffer b st) = eg_slots st" "eg_fds (destroy_buffer b st) = eg_fds st"
  "eg_maps (destroy_buffer b st) = eg_maps st" "eg_next_map (destroy_buffer b st) = eg_next_map st"
  "eg_count (destroy_buffer b st) = eg_count st" "eg_fault (destroy_buffer b st) = eg_fault st"
  by (cases b; simp add: destroy_buffer_def egl_log_def)+

lemma no_data: "sw_data w = None \<Longrightarrow> w\<lparr>sw_buffers := b, sw_data := None\<rparr> = w\<lparr>sw_buffers := b\<rparr>"
  and no_readback: "sw_readback w = None \<Longrightarrow>
    w\<lparr>sw_buffers := b, sw_data := d, sw_readback := None\<rparr> = w\<lparr>sw_buffers := b, sw_data := d\<rparr>"
  by (cases w; simp)+

lemma destroy_spec:
  fixes i :: nat and st :: egl
  defines "w \<equiv> eg_slots st ! i" and "st' \<equiv> destroy_shm_buffers i st"
  assumes i: "i < length (eg_slots st)" and len: "length (sw_buffers w) = 2"
    and res: "0 \<le> sw_fd w \<longrightarrow> sw_fd w \<in> eg_fds st" "\<forall>m. sw_data w = Some m \<longrightarrow> eg_maps st m \<noteq> None"
      "\<forall>m. sw_readback w = Some m \<longrightarrow> eg_maps st m \<noteq> None" "\<forall>m. sw_data w = Some m \<longrightarrow> sw_readback w \<noteq> Some m"
  shows "only_slot i st st'"
    and "eg_fds st' = (if sw_fd w < 0 then eg_fds st else eg_fds st - {sw_fd w})"
    and "eg_maps st' = (\<lambda>k. if sw_data w = Some k \<or> sw_readback w = Some k then None else eg_maps st k)"
    and "eg_next_map st' = eg_next_map st"
    and "sw_data (eg_slots st' ! i) = None" and "sw_readback (eg_slots st' ! i) = None"
    and "sw_fd (eg_slots st' ! i) < 0" and "sw_current (eg_slots st' ! i) = sw_current w"
proof -
  define st2 where "st2 = set_slot i (\<lambda>x. x\<lparr>sw_buffers := [None, None]\<rparr>)
    (destroy_buffer (sw_buffers w ! 1) (destroy_buffer (sw_buffers w ! 0) st))"
  define st3 where "st3 = (case sw_data w of None \<Rightarrow> st2 | Some m \<Rightarrow> set_slot i (\<lambda>x. x\<lparr>sw_data := None\<rparr>) (munmap m st2))"
  define st4 where "st4 = (case sw_readback w of None \<Rightarrow> st3 | Some m \<Rightarrow> set_slot i (\<lambda>x. x\<lparr>sw_readback := None\<rparr>) (munmap m st3))"
  have st': "st' = (if sw_fd w \<ge> 0 then set_slot i (\<lambda>x. x\<lparr>sw_fd := -1\<rparr>) (close_fd (sw_fd w) st4) else st4)"
    unfolding st'_def st4_def st3_def st2_def destroy_shm_buffers_def slot_def w_def Let_def by (rule refl)
  have 2: "eg_slots st2 = (eg_slots st)[i := w\<lparr>sw_buffers := [None, None]\<rparr>]" "eg_fds st2 = eg_fds st"
    "eg_maps st2 = eg_maps st" "eg_next_map st2 = eg_next_map st" "eg_count st2 = eg_count st" "eg_fault st2 = eg_fault st"
    by (simp_all add: st2_def set_slot_def w_def)
  have 3: "eg_slots st3 = (eg_slots st)[i := w\<lparr>sw_buffers := [None, None], sw_data := None\<rparr>]" "eg_fds st3 = eg_fds st"
    "eg_maps st3 = (\<lambda>k. if sw_data w = Some k then None else eg_maps st k)" "eg_next_map st3 = eg_next_map st"
    "eg_count st3 = eg_count st" "eg_fault st3 = eg_fault st"
    using res(2) i by (auto simp: st3_def 2 no_data set_slot_def munmap_def fun_eq_iff split: option.splits)
  have 4: "eg_slots st4 = (eg_slots st)[i := w\<lparr>sw_buffers := [None, None], sw_data := None, sw_readback := None\<rparr>]"
    "eg_fds st4 = eg_fds st"
    "eg_maps st4 = (\<lambda>k. if sw_data w = Some k \<or> sw_readback w = Some k then None else eg_maps st k)"
    "eg_next_map st4 = eg_next_map st" "eg_count st4 = eg_count st" "eg_fault st4 = eg_fault st"
    using res(2,3,4) i by (auto simp: st4_def 3 no_readback set_slot_def munmap_def fun_eq_iff split: option.splits)
  have 5: "eg_slots st' = (eg_slots st)[i := w\<lparr>sw_buffers := [None, None], sw_data := None, sw_readback := None,
      sw_fd := (if sw_fd w < 0 then sw_fd w else -1)\<rparr>]"
    "eg_fds st' = (if sw_fd w < 0 then eg_fds st else eg_fds st - {sw_fd w})" "eg_maps st' = eg_maps st4"
    "eg_next_map st' = eg_next_map st4" "eg_count st' = eg_count st4" "eg_fault st' = eg_fault st4"
    using res(1) i by (auto simp: st' 4 set_slot_def close_fd_def)
  have "only_slot i st st' \<and> eg_fds st' = (if sw_fd w < 0 then eg_fds st else eg_fds st - {sw_fd w}) \<and>
    eg_maps st' = (\<lambda>k. if sw_data w = Some k \<or> sw_readback w = Some k then None else eg_maps st k) \<and>
    eg_next_map st' = eg_next_map st \<and> sw_data (eg_slots st' ! i) = None \<and> sw_readback (eg_slots st' ! i) = None \<and>
    sw_fd (eg_slots st' ! i) < 0 \<and> sw_current (eg_slots st' ! i) = sw_current w"
    using i len by (simp add: 5 4 only_slot_def same_window_def w_def [symmetric])
  then show "only_slot i st st'"
    "eg_fds st' = (if sw_fd w < 0 then eg_fds st else eg_fds st - {sw_fd w})"
    "eg_maps st' = (\<lambda>k. if sw_data w = Some k \<or> sw_readback w = Some k then None else eg_maps st k)"
    "eg_next_map st' = eg_next_map st" "sw_data (eg_slots st' ! i) = None" "sw_readback (eg_slots st' ! i) = None"
    "sw_fd (eg_slots st' ! i) < 0" "sw_current (eg_slots st' ! i) = sw_current w"
    by blast+
qed

lemma create_shm_buffers_spec:
  assumes i: "i < length (eg_slots st)" and fresh: "\<forall>m \<ge> eg_next_map st. eg_maps st m = None"
    and fd: "en_memfd env \<notin> eg_fds st" and wh: "fits w h"
    and create: "create_shm_buffers env i w h st = (ok, st')"
  shows "only_slot i st st'"
    and "ok \<Longrightarrow> 0 \<le> en_memfd env \<and> eg_fds st' = insert (en_memfd env) (eg_fds st) \<and>
      eg_maps st' = (eg_maps st)(eg_next_map st \<mapsto> (2 * frame_size w h, \<lambda>_. 0), eg_next_map st + 1 \<mapsto> (frame_size w h, \<lambda>_. 0)) \<and>
      eg_next_map st' = eg_next_map st + 2 \<and>
      sw_data (eg_slots st' ! i) = Some (eg_next_map st) \<and> sw_readback (eg_slots st' ! i) = Some (eg_next_map st + 1) \<and>
      sw_fd (eg_slots st' ! i) = en_memfd env \<and> sw_current (eg_slots st' ! i) = 0"
    and "\<not> ok \<Longrightarrow> eg_fds st' = eg_fds st \<and> eg_maps st' = eg_maps st \<and> eg_next_map st \<le> eg_next_map st' \<and>
      sw_data (eg_slots st' ! i) = sw_data (eg_slots st ! i) \<and> sw_readback (eg_slots st' ! i) = sw_readback (eg_slots st ! i) \<and>
      sw_fd (eg_slots st' ! i) = sw_fd (eg_slots st ! i) \<and> sw_current (eg_slots st' ! i) = sw_current (eg_slots st ! i)"
proof -
  have sz: "size_mul (w * 4) h = frame_size w h" using wh by (rule size_mul_fits)
  have b: "frame_size w h * 2 mod 2 ^ 64 = frame_size w h * 2" using frame_size_bound [OF wh] by simp
  have undo: "(eg_maps st)(eg_next_map st := None) = eg_maps st" using fresh by (simp add: fun_upd_idem)
  note facts = create [unfolded create_shm_buffers_def Let_def sz b] i fd undo
  show "only_slot i st st'"
    using facts unfolding only_slot_def same_window_def
    by (auto simp: egl_prims split: if_splits option.splits)
  show "ok \<Longrightarrow> 0 \<le> en_memfd env \<and> eg_fds st' = insert (en_memfd env) (eg_fds st) \<and>
      eg_maps st' = (eg_maps st)(eg_next_map st \<mapsto> (2 * frame_size w h, \<lambda>_. 0), eg_next_map st + 1 \<mapsto> (frame_size w h, \<lambda>_. 0)) \<and>
      eg_next_map st' = eg_next_map st + 2 \<and>
      sw_data (eg_slots st' ! i) = Some (eg_next_map st) \<and> sw_readback (eg_slots st' ! i) = Some (eg_next_map st + 1) \<and>
      sw_fd (eg_slots st' ! i) = en_memfd env \<and> sw_current (eg_slots st' ! i) = 0"
    using facts by (auto simp: egl_prims mult.commute split: if_splits option.splits)
  show "\<not> ok \<Longrightarrow> eg_fds st' = eg_fds st \<and> eg_maps st' = eg_maps st \<and> eg_next_map st \<le> eg_next_map st' \<and>
      sw_data (eg_slots st' ! i) = sw_data (eg_slots st ! i) \<and> sw_readback (eg_slots st' ! i) = sw_readback (eg_slots st ! i) \<and>
      sw_fd (eg_slots st' ! i) = sw_fd (eg_slots st ! i) \<and> sw_current (eg_slots st' ! i) = sw_current (eg_slots st ! i)"
    using facts by (auto simp: egl_prims split: if_splits option.splits)
qed

text \<open>Both keep the invariant of the other windows.\<close>

lemma slot_ok_same: "\<lbrakk>same_window w w'; slot_ok w; sw_current w' < 2\<rbrakk> \<Longrightarrow> slot_ok w'"
  by (simp add: same_window_def slot_ok_def)

lemma inv_but_slot:
  assumes "inv_but i st"
  shows "i < length (eg_slots st)" and "slot_ok (eg_slots st ! i)"
  using assms by (auto simp: inv_but_def)

lemma live_mem [simp]:
  "Inl f \<in> live st \<longleftrightarrow> f \<in> eg_fds st" "Inr m \<in> live st \<longleftrightarrow> eg_maps st m \<noteq> None"
  by (auto simp: live_def)

lemma live_eqI:
  "\<lbrakk>\<And>f. f \<in> eg_fds st \<longleftrightarrow> Inl f \<in> A; \<And>m. eg_maps st m \<noteq> None \<longleftrightarrow> Inr m \<in> A\<rbrakk> \<Longrightarrow> live st = A"
proof (rule set_eqI)
  fix x assume "\<And>f. f \<in> eg_fds st \<longleftrightarrow> Inl f \<in> A" "\<And>m. eg_maps st m \<noteq> None \<longleftrightarrow> Inr m \<in> A"
  then show "x \<in> live st \<longleftrightarrow> x \<in> A" by (cases x) simp_all
qed

lemma res_of_empty: "\<lbrakk>sw_fd w < 0; sw_data w = None; sw_readback w = None\<rbrakk> \<Longrightarrow> res_of w = {#}"
  by (simp add: res_of_def)

lemma inv_but_live:
  assumes "inv_but i st"
  shows "0 \<le> sw_fd (eg_slots st ! i) \<longrightarrow> sw_fd (eg_slots st ! i) \<in> eg_fds st"
    and "\<forall>m. sw_data (eg_slots st ! i) = Some m \<longrightarrow> eg_maps st m \<noteq> None"
    and "\<forall>m. sw_readback (eg_slots st ! i) = Some m \<longrightarrow> eg_maps st m \<noteq> None"
    and "\<forall>m. sw_data (eg_slots st ! i) = Some m \<longrightarrow> sw_readback (eg_slots st ! i) \<noteq> Some m"
proof -
  have sub: "set_mset (res_of (eg_slots st ! i)) \<subseteq> live st" using inv_but_split(2) [OF assms] by blast
  show "0 \<le> sw_fd (eg_slots st ! i) \<longrightarrow> sw_fd (eg_slots st ! i) \<in> eg_fds st"
    using sub by (auto simp: res_of_def live_def split: if_splits)
  show "\<forall>m. sw_data (eg_slots st ! i) = Some m \<longrightarrow> eg_maps st m \<noteq> None"
    and "\<forall>m. sw_readback (eg_slots st ! i) = Some m \<longrightarrow> eg_maps st m \<noteq> None"
    using sub by (auto simp: res_of_def live_def)
  show "\<forall>m. sw_data (eg_slots st ! i) = Some m \<longrightarrow> sw_readback (eg_slots st ! i) \<noteq> Some m"
    using inv_but_distinct [OF assms] by blast
qed

lemma destroy_frame:
  assumes inv: "inv_but i st"
  shows "inv_but i (destroy_shm_buffers i st)" and "only_slot i st (destroy_shm_buffers i st)"
    and "res_of (eg_slots (destroy_shm_buffers i st) ! i) = {#}"
    and "eg_fds (destroy_shm_buffers i st) \<subseteq> eg_fds st"
    and "sw_fd (eg_slots (destroy_shm_buffers i st) ! i) < 0"
    and "sw_data (eg_slots (destroy_shm_buffers i st) ! i) = None"
    and "sw_readback (eg_slots (destroy_shm_buffers i st) ! i) = None"
proof -
  let ?st = "destroy_shm_buffers i st" and ?w = "eg_slots st ! i"
  have len: "length (sw_buffers ?w) = 2" using inv_but_slot(2) [OF inv] by (simp add: slot_ok_def)
  note spec = destroy_spec [OF inv_but_slot(1) [OF inv] len inv_but_live [OF inv]]
  show only: "only_slot i st ?st" by (rule spec(1))
  show "eg_fds ?st \<subseteq> eg_fds st" by (simp add: spec(2))
  show f1: "sw_fd (eg_slots ?st ! i) < 0" by (rule spec(7))
  show f2: "sw_data (eg_slots ?st ! i) = None" by (rule spec(5))
  show f3: "sw_readback (eg_slots ?st ! i) = None" by (rule spec(6))
  from f1 f2 f3 show empty: "res_of (eg_slots ?st ! i) = {#}" by (intro res_of_empty)
  have live: "live ?st = live st - set_mset (res_of ?w)"
    by (rule live_eqI) (auto simp: spec(2,3) res_of_def split: option.splits if_splits)
  then have live': "live ?st = set_mset (others i st)" using inv_but_split(1,2) [OF inv] by blast
  have size: "map_size ?st m = map_size st m" if "Inr m \<in># others i st" for m
  proof -
    have "Inr m \<notin># res_of ?w" using that inv_but_split(1) [OF inv] by blast
    then show ?thesis unfolding map_size_def spec(3) by (auto simp: res_of_def)
  qed
  have fresh: "\<forall>m \<ge> eg_next_map ?st. eg_maps ?st m = None" using inv by (simp add: spec(3,4) inv_but_def)
  have "same_window ?w (eg_slots ?st ! i)" using only by (simp add: only_slot_def)
  then have ok: "slot_ok (eg_slots ?st ! i)"
    by (rule slot_ok_same) (use inv_but_slot(2) [OF inv] spec(8) in \<open>simp_all add: slot_ok_def\<close>)
  show "inv_but i ?st"
    by (rule inv_but_change [OF inv only ok _ _ _ size fresh]) (simp_all add: empty live')
qed

lemma create_frame:
  assumes inv: "inv_but i st" and empty: "res_of (eg_slots st ! i) = {#}"
    and fd: "en_memfd env \<notin> eg_fds st" and wh: "fits w h"
    and create: "create_shm_buffers env i w h st = (ok, st')"
  shows "inv_but i st'" and "only_slot i st st'"
    and "\<not> ok \<Longrightarrow> res_of (eg_slots st' ! i) = {#}"
    and "\<not> ok \<Longrightarrow> sw_data (eg_slots st' ! i) = sw_data (eg_slots st ! i) \<and>
      sw_readback (eg_slots st' ! i) = sw_readback (eg_slots st ! i) \<and> sw_fd (eg_slots st' ! i) = sw_fd (eg_slots st ! i)"
    and "ok \<Longrightarrow> 0 \<le> sw_fd (eg_slots st' ! i) \<and> (\<exists>d r. sw_data (eg_slots st' ! i) = Some d \<and>
      sw_readback (eg_slots st' ! i) = Some r \<and> map_size st' d = Some (2 * frame_size w h) \<and> map_size st' r = Some (frame_size w h))"
proof -
  have fresh: "\<forall>m \<ge> eg_next_map st. eg_maps st m = None" using inv by (simp add: inv_but_def)
  note spec = create_shm_buffers_spec [OF inv_but_slot(1) [OF inv] fresh fd wh create]
  show only: "only_slot i st st'" by (rule spec(1))
  show fail: "sw_data (eg_slots st' ! i) = sw_data (eg_slots st ! i) \<and>
      sw_readback (eg_slots st' ! i) = sw_readback (eg_slots st ! i) \<and> sw_fd (eg_slots st' ! i) = sw_fd (eg_slots st ! i)"
    if "\<not> ok" using spec(3) [OF that] by blast
  show empty': "res_of (eg_slots st' ! i) = {#}" if "\<not> ok"
  proof -
    have "res_of (eg_slots st' ! i) = res_of (eg_slots st ! i)" using fail [OF that] by (simp add: res_of_def)
    then show ?thesis using empty by simp
  qed
  show "0 \<le> sw_fd (eg_slots st' ! i) \<and> (\<exists>d r. sw_data (eg_slots st' ! i) = Some d \<and>
      sw_readback (eg_slots st' ! i) = Some r \<and> map_size st' d = Some (2 * frame_size w h) \<and> map_size st' r = Some (frame_size w h))"
    if "ok" using spec(2) [OF that] by (simp add: map_size_def)
  have live: "live st = set_mset (others i st)" using inv_but_split(2) [OF inv] empty by simp
  have cur: "sw_current (eg_slots st ! i) < 2" using inv_but_slot(2) [OF inv] by (simp add: slot_ok_def)
  have "same_window (eg_slots st ! i) (eg_slots st' ! i)" using only by (simp add: only_slot_def)
  moreover have "sw_current (eg_slots st' ! i) < 2"
    by (cases ok) (simp_all add: spec(2,3) cur)
  ultimately have sok: "slot_ok (eg_slots st' ! i)" using slot_ok_same inv_but_slot(2) [OF inv] by blast
  show "inv_but i st'"
  proof (cases ok)
    case False
    note f = spec(3) [OF False]
    have live': "live st' = set_mset (others i st) \<union> set_mset (res_of (eg_slots st' ! i))"
      unfolding live [symmetric] empty' [OF False] by (rule live_eqI) (simp_all add: f)
    have size: "map_size st' m = map_size st m" for m by (simp add: f map_size_def)
    have fresh': "\<forall>m \<ge> eg_next_map st'. eg_maps st' m = None" using f fresh by (metis order_trans)
    show ?thesis
      by (rule inv_but_change [OF inv only sok live' _ _ size fresh']) (simp_all add: empty' [OF False])
  next
    case True
    note t = spec(2) [OF True]
    let ?a = "eg_next_map st"
    have res: "res_of (eg_slots st' ! i) = {#Inl (en_memfd env), Inr ?a, Inr (?a + 1)#}"
      using t by (simp add: res_of_def)
    have new: "Inl (en_memfd env) \<notin># others i st" "Inr ?a \<notin># others i st" "Inr (?a + 1) \<notin># others i st"
      unfolding live [symmetric] using fd fresh by simp_all
    have live': "live st' = set_mset (others i st) \<union> set_mset (res_of (eg_slots st' ! i))"
      unfolding live [symmetric] res by (rule live_eqI) (use t in auto)
    have disj: "set_mset (others i st) \<inter> set_mset (res_of (eg_slots st' ! i)) = {}" using new unfolding res by simp
    have size: "map_size st' m = map_size st m" if "Inr m \<in># others i st" for m
    proof -
      have "m \<noteq> ?a" "m \<noteq> ?a + 1" using that new by blast+
      then show ?thesis using t by (simp add: map_size_def)
    qed
    have fresh': "\<forall>m \<ge> eg_next_map st'. eg_maps st' m = None" using t fresh by simp
    show ?thesis
      by (rule inv_but_change [OF inv only sok live' disj _ size fresh']) (auto simp: res)
  qed
qed

subsection \<open>Calls that change one window\<close>

lemma set_slot_fields [simp]:
  "eg_fds (set_slot i f st) = eg_fds st" "eg_maps (set_slot i f st) = eg_maps st"
  "eg_next_map (set_slot i f st) = eg_next_map st" "eg_count (set_slot i f st) = eg_count st"
  "eg_fault (set_slot i f st) = eg_fault st" "length (eg_slots (set_slot i f st)) = length (eg_slots st)"
  "map_size (set_slot i f st) = map_size st" "live (set_slot i f st) = live st"
  by (simp_all add: set_slot_def map_size_def [abs_def] live_def)

lemma set_slot_nth:
  "i < length (eg_slots st) \<Longrightarrow> eg_slots (set_slot i f st) ! i = f (eg_slots st ! i)"
  "j \<noteq> i \<Longrightarrow> eg_slots (set_slot i f st) ! j = eg_slots st ! j"
  by (simp_all add: set_slot_def)

lemma others_set [simp]: "others i (set_slot i f st) = others i st"
  by (simp add: others_def used_def set_slot_def take_update_swap list_update_beyond)

lemma win_ok_set [simp]: "win_ok (set_slot i f st) = win_ok st"
  by (simp add: win_ok_def fun_eq_iff)

lemma inv_but_set:
  assumes inv: "inv_but i st" and res: "res_of (f (eg_slots st ! i)) = res_of (eg_slots st ! i)" and ok: "slot_ok (f (eg_slots st ! i))"
  shows "inv_but i (set_slot i f st)"
proof -
  note inv' = inv [unfolded inv_but_def]
  have "\<forall>w \<in> set (eg_slots (set_slot i f st)). slot_ok w"
    using inv' ok by (simp add: all_set_conv_all_nth set_slot_def nth_list_update)
  moreover have "res_of (eg_slots (set_slot i f st) ! i) = res_of (eg_slots st ! i)"
    using res inv_but_slot(1) [OF inv] by (simp add: set_slot_nth)
  ultimately show ?thesis using inv' unfolding inv_but_def by (simp add: set_slot_nth)
qed

lemma calm_inv_but:
  assumes calm: "calm st st'" and inv: "inv_but i st"
  shows "inv_but i st'" and "calm_win (eg_slots st ! i) (eg_slots st' ! i)"
proof -
  have win: "calm_win (eg_slots st ! j) (eg_slots st' ! j)" if "j < length (eg_slots st)" for j
    using calm that by (simp add: calm_def list_all2_conv_all_nth)
  have len: "length (eg_slots st') = length (eg_slots st)"
    using calm list_all2_lengthD by (fastforce simp: calm_def)
  have same: "eg_count st' = eg_count st" "live st' = live st" "map_size st' = map_size st" "eg_next_map st' = eg_next_map st"
    "eg_maps st' = eg_maps st" "eg_fault st' = eg_fault st"
    using calm by (simp_all add: calm_def live_def map_size_def [abs_def])
  show "calm_win (eg_slots st ! i) (eg_slots st' ! i)" by (rule win [OF inv_but_slot(1) [OF inv]])
  then have res: "res_of (eg_slots st' ! i) = res_of (eg_slots st ! i)"
    unfolding calm_win_def by (metis res_of_core)
  have "map core (take i (used st') @ drop (Suc i) (used st')) = map core (take i (used st) @ drop (Suc i) (used st))"
    using calm_used(2) [OF calm] by (simp add: take_map [symmetric] drop_map [symmetric])
  then have "others i st' = others i st" unfolding others_def by (rule res_of_map_core)
  moreover have "\<forall>w \<in> set (eg_slots st'). slot_ok w"
    using inv win unfolding all_set_conv_all_nth len by (simp add: inv_but_def all_set_conv_all_nth calm_win_def)
  moreover have "\<forall>j < eg_count st'. j \<noteq> i \<longrightarrow> win_ok st' (eg_slots st' ! j)"
  proof (intro allI impI)
    fix j assume j: "j < eg_count st'" "j \<noteq> i"
    then have "win_ok st (eg_slots st ! j)" and "j < length (eg_slots st)" using inv same(1) by (simp_all add: inv_but_def)
    then show "win_ok st' (eg_slots st' ! j)" using calm_win_ok [OF win same(3)] by blast
  qed
  ultimately show "inv_but i st'" using inv same len res by (simp add: inv_but_def)
qed

end
