(* ===== verification/EglPresent.thy ===== *)
theory EglPresent
  imports EglInv
begin

text \<open>
  The frame a present writes, as an equation on the mappings, and that presenting keeps the invariant.
\<close>

subsection \<open>The row flip\<close>

text \<open>Byte \<open>k\<close> of a frame of \<open>H\<close> rows of \<open>S\<close> bytes comes from this byte of the read-back.\<close>

definition flip_offset :: "nat \<Rightarrow> nat \<Rightarrow> nat \<Rightarrow> nat" where
  "flip_offset S H k = (H - 1 - k div S) * S + k mod S"

lemma row_div:
  assumes "0 < (S::nat)" "m * S \<le> k" "k < m * S + S"
  shows "k div S = m" and "k mod S = k - m * S"
proof -
  show q: "k div S = m" by (rule div_nat_eqI) (use assms in \<open>simp_all add: mult.commute\<close>)
  show "k mod S = k - m * S" using minus_mult_div_eq_mod [of k S] q by (simp add: mult.commute)
qed

lemma flip_rows_step:
  assumes d: "eg_maps st d = Some (N, df)" and r: "eg_maps st r = Some (S * H, rb)" and dr: "d \<noteq> r"
    and S: "0 < S" and base: "base + S * H \<le> N" and m: "m \<le> H"
  shows "fold (flip_row (Some d) (Some r) base (int S) (int H)) [0..<m] st =
    st\<lparr>eg_maps := (eg_maps st)(d \<mapsto> (N, \<lambda>k. if base \<le> k \<and> k < base + m * S then rb (flip_offset S H (k - base)) else df k))\<rparr>"
  using m
proof (induction m)
  case 0
  have "(\<lambda>k. if base \<le> k \<and> k < base + 0 * S then rb (flip_offset S H (k - base)) else df k) = df"
    by (auto simp: fun_eq_iff)
  then have "(eg_maps st)(d \<mapsto> (N, \<lambda>k. if base \<le> k \<and> k < base + 0 * S then rb (flip_offset S H (k - base)) else df k)) = eg_maps st"
    using d by (metis fun_upd_triv)
  then show ?case by simp
next
  case (Suc m)
  have m: "m < H" using Suc.prems by simp
  define fr where "fr = (\<lambda>k. if base \<le> k \<and> k < base + m * S then rb (flip_offset S H (k - base)) else df k)"
  define src where "src = (H - 1 - m) * S"
  have s1: "nat ((int H - 1 - int m) * int S) = src"
  proof -
    have "(int H - 1 - int m) * int S = int src" using m by (simp add: src_def of_nat_diff)
    then show ?thesis by simp
  qed
  have s2: "nat (int m * int S) = m * S" by (simp add: nat_mult_distrib)
  have b1: "base + m * S + S \<le> N"
  proof -
    have "(m + 1) * S \<le> H * S" using m by (intro mult_le_mono1) simp
    then show ?thesis using base by (simp add: algebra_simps)
  qed
  have b2: "src + S \<le> S * H"
  proof -
    have "(H - 1 - m + 1) * S \<le> H * S" using m by (intro mult_le_mono1) simp
    then show ?thesis by (simp add: src_def algebra_simps)
  qed
  have new: "(if base + m * S \<le> k \<and> k < base + m * S + S then rb (src + (k - (base + m * S))) else fr k) =
      (if base \<le> k \<and> k < base + Suc m * S then rb (flip_offset S H (k - base)) else df k)" for k
  proof (cases "base + m * S \<le> k \<and> k < base + m * S + S")
    case True
    then have "m * S \<le> k - base" and "k - base < m * S + S" by linarith+
    then have "flip_offset S H (k - base) = src + (k - base - m * S)"
      unfolding flip_offset_def using row_div [OF S] by (simp add: src_def)
    then show ?thesis using True by (simp add: algebra_simps)
  next
    case False
    then show ?thesis unfolding fr_def by (auto simp: algebra_simps)
  qed
  have "fold (flip_row (Some d) (Some r) base (int S) (int H)) [0..<Suc m] st =
      flip_row (Some d) (Some r) base (int S) (int H) m (st\<lparr>eg_maps := (eg_maps st)(d \<mapsto> (N, fr))\<rparr>)"
  proof -
    have "fold (flip_row (Some d) (Some r) base (int S) (int H)) [0..<m] st = st\<lparr>eg_maps := (eg_maps st)(d \<mapsto> (N, fr))\<rparr>"
      unfolding fr_def by (rule Suc.IH) (use m in simp)
    then show ?thesis by (simp only: upt_Suc_append le0 fold_append comp_apply fold_simps)
  qed
  also have "\<dots> = st\<lparr>eg_maps := (eg_maps st)(d \<mapsto> (N, \<lambda>k. if base + m * S \<le> k \<and> k < base + m * S + S
      then rb (src + (k - (base + m * S))) else fr k))\<rparr>"
    unfolding flip_row_def map_memcpy_def s1 s2 using r dr b1 b2 by simp
  finally show ?case unfolding new .
qed

lemma flip_offset_less:
  assumes "k < S * H"
  shows "flip_offset S H k < S * H"
proof -
  have S: "0 < S" using assms by (cases S) simp_all
  have "k div S < H" using assms by (simp add: less_mult_imp_div_less mult.commute)
  then have "H - 1 - k div S + 1 \<le> H" by linarith
  then have "(H - 1 - k div S + 1) * S \<le> H * S" by (rule mult_le_mono1)
  moreover have "k mod S < S" using S by simp
  ultimately show ?thesis unfolding flip_offset_def by (simp add: algebra_simps)
qed

lemma flip_offset_twice:
  assumes "k < S * H"
  shows "flip_offset S H (flip_offset S H k) = k"
proof -
  have S: "0 < S" using assms by (cases S) simp_all
  have q: "k div S < H" using assms by (simp add: less_mult_imp_div_less mult.commute)
  have "flip_offset S H k div S = H - 1 - k div S" and "flip_offset S H k mod S = k mod S"
    unfolding flip_offset_def using S by simp_all
  then have "flip_offset S H (flip_offset S H k) = (H - 1 - (H - 1 - k div S)) * S + k mod S"
    unfolding flip_offset_def by simp
  also have "H - 1 - (H - 1 - k div S) = k div S" using q by simp
  finally show ?thesis by simp
qed

text \<open>The read-back and the flip of one frame.\<close>

definition flipped :: "(nat \<Rightarrow> u8) \<Rightarrow> int \<Rightarrow> int \<Rightarrow> nat \<Rightarrow> (nat \<Rightarrow> u8) \<Rightarrow> nat \<Rightarrow> u8" where
  "flipped px w h idx old = (let n = frame_size w h in
     (\<lambda>k. if idx * n \<le> k \<and> k < idx * n + n then px (flip_offset (nat (w * 4)) (nat h) (k - idx * n)) else old k))"

lemma blit:
  assumes d: "eg_maps st d = Some (2 * frame_size w h, df)" and r: "eg_maps st r = Some (frame_size w h, rb)"
    and dr: "d \<noteq> r" and wh: "fits w h" and idx: "idx < 2"
  shows "flip_rows (Some d) (Some r) (idx * frame_size w h) (w * 4) h (gl_read_pixels px w h (Some r) st) =
    (egl_log (C_read_pixels w h) st)\<lparr>eg_maps := (eg_maps st)
      (r \<mapsto> (frame_size w h, \<lambda>k. if k < frame_size w h then px k else rb k),
       d \<mapsto> (2 * frame_size w h, flipped px w h idx df))\<rparr>"
proof -
  let ?S = "nat (w * 4)" and ?H = "nat h" and ?n = "frame_size w h"
  define rb' where "rb' = (\<lambda>k. if k < ?n then px k else rb k)"
  have pos: "0 < w" "0 < h" using wh by (simp_all add: fits_def)
  have n: "?S * ?H = ?n" using pos by (simp add: frame_size_def nat_mult_distrib)
  have ints: "int ?S = w * 4" "int ?H = h" using pos by simp_all
  have nbytes: "nat (w * h * 4) = ?n" by (simp add: frame_size_def algebra_simps)
  let ?st = "(egl_log (C_read_pixels w h) st)\<lparr>eg_maps := (eg_maps st)(r \<mapsto> (?n, rb'))\<rparr>"
  have read: "gl_read_pixels px w h (Some r) st = ?st"
    unfolding gl_read_pixels_def Let_def nbytes rb'_def using r by (simp add: egl_log_def)
  have "flip_rows (Some d) (Some r) (idx * ?n) (w * 4) h ?st =
      fold (flip_row (Some d) (Some r) (idx * ?n) (int ?S) (int ?H)) [0..<?H] ?st"
    unfolding flip_rows_def ints by (rule refl)
  also have "\<dots> = ?st\<lparr>eg_maps := (eg_maps ?st)(d \<mapsto> (2 * ?n, \<lambda>k. if idx * ?n \<le> k \<and> k < idx * ?n + ?H * ?S
      then rb' (flip_offset ?S ?H (k - idx * ?n)) else df k))\<rparr>"
  proof (rule flip_rows_step [OF _ _ dr])
    show "eg_maps ?st d = Some (2 * ?n, df)" using d dr by simp
    show "eg_maps ?st r = Some (?S * ?H, rb')" using n by simp
    have "idx * ?n + ?n \<le> 2 * ?n" using mult_le_mono1 [of "idx + 1" 2 ?n] idx by simp
    then show "idx * ?n + ?S * ?H \<le> 2 * ?n" unfolding n .
  qed (use pos in simp_all)
  also have "(\<lambda>k. if idx * ?n \<le> k \<and> k < idx * ?n + ?H * ?S then rb' (flip_offset ?S ?H (k - idx * ?n)) else df k)
      = flipped px w h idx df"
  proof
    fix k
    have "flip_offset ?S ?H (k - idx * ?n) < ?n" if "idx * ?n \<le> k" "k < idx * ?n + ?n"
      using flip_offset_less [of "k - idx * ?n" ?S ?H] that unfolding n by linarith
    then show "(if idx * ?n \<le> k \<and> k < idx * ?n + ?H * ?S then rb' (flip_offset ?S ?H (k - idx * ?n)) else df k)
        = flipped px w h idx df k"
      using n by (simp add: flipped_def Let_def rb'_def mult.commute [of ?H])
  qed
  finally show ?thesis unfolding read rb'_def by (simp del: fun_upd_apply)
qed

subsection \<open>A present\<close>

text \<open>The calls a present makes after choosing frame \<open>idx\<close>.\<close>

definition present_trace :: "egl_env \<Rightarrow> nat option \<Rightarrow> shm_window \<Rightarrow> nat \<Rightarrow> egl_call list" where
  "present_trace env surface w idx =
     [C_gl_finish, C_read_pixels (sw_width w) (sw_height w), C_attach (the (sw_surface w)) (sw_buffers w ! idx),
      C_damage (the (sw_surface w)) (sw_width w) (sw_height w), C_commit (the (sw_surface w))] @
     (if en_flush_fn env then [C_flush] else []) @ (if en_swap_fn env then [C_real_swap surface] else []) @
     (if en_get_error_fn env then [C_real_get_error] else [])"

lemma present_frame_spec:
  fixes i :: nat and st :: egl and env :: egl_env and surface :: "nat option"
  defines "w \<equiv> eg_slots st ! i" and "st' \<equiv> snd (present_frame env i surface st)"
  assumes pick: "pick_buffer env i st = (idx, st1)" and idx: "idx < 2" and i: "i < length (eg_slots st)"
    and calm: "calm st st1"
    and d: "sw_data w = Some d" "eg_maps st d = Some (2 * frame_size (sw_width w) (sw_height w), df)"
    and r: "sw_readback w = Some r" "eg_maps st r = Some (frame_size (sw_width w) (sw_height w), rb)"
    and dr: "d \<noteq> r" and wh: "fits (sw_width w) (sw_height w)"
  shows "eg_slots st' = eg_slots (set_slot i (\<lambda>x. x\<lparr>sw_busy := (sw_busy x)[idx := True], sw_current := 1 - idx\<rparr>) st1)"
    and "eg_maps st' = (eg_maps st)(r \<mapsto> (frame_size (sw_width w) (sw_height w),
        \<lambda>k. if k < frame_size (sw_width w) (sw_height w) then en_pixels env k else rb k),
      d \<mapsto> (2 * frame_size (sw_width w) (sw_height w), flipped (en_pixels env) (sw_width w) (sw_height w) idx df))"
    and "eg_fds st' = eg_fds st" and "eg_next_map st' = eg_next_map st" and "eg_count st' = eg_count st"
    and "eg_fault st' = eg_fault st" and "eg_trace st' = eg_trace st1 @ present_trace env surface w idx"
    and "fst (present_frame env i surface st)" and "\<not> eg_suppress st'"
proof -
  let ?W = "sw_width w" and ?H = "sw_height w"
  have c1: "calm_win w (eg_slots st1 ! i)"
    using calm i by (simp add: calm_def list_all2_conv_all_nth w_def)
  then have "core (eg_slots st1 ! i) = core w" by (simp add: calm_win_def)
  note same = core_eqD [OF this]
  have maps: "eg_maps st1 = eg_maps st" using calm by (simp add: calm_def)
  define st2 where "st2 = egl_log C_gl_finish st1"
  define st3 where "st3 = flip_rows (Some d) (Some r) (idx * frame_size ?W ?H) (?W * 4) ?H
    (gl_read_pixels (en_pixels env) ?W ?H (Some r) st2)"
  have st3: "st3 = (egl_log (C_read_pixels ?W ?H) st2)\<lparr>eg_maps := (eg_maps st2)
      (r \<mapsto> (frame_size ?W ?H, \<lambda>k. if k < frame_size ?W ?H then en_pixels env k else rb k),
       d \<mapsto> (2 * frame_size ?W ?H, flipped (en_pixels env) ?W ?H idx df))\<rparr>"
    unfolding st3_def by (rule blit) (use d r dr wh idx maps in \<open>simp_all add: st2_def egl_log_def\<close>)
  have slots: "eg_slots st3 = eg_slots st1" by (simp add: st3 st2_def egl_log_def)
  have mid: "eg_slots (gl_read_pixels (en_pixels env) ?W ?H (Some r) st2) = eg_slots st1"
    by (simp add: gl_read_pixels_def st2_def egl_log_def Let_def split: option.splits)
  define st4 where "st4 = egl_log (C_commit (the (sw_surface w))) (egl_log (C_damage (the (sw_surface w)) ?W ?H)
    (egl_log (C_attach (the (sw_surface w)) (sw_buffers w ! idx)) st3))"
  define st5 where "st5 = (if en_flush_fn env then egl_log C_flush st4 else st4)"
  define st6 where "st6 = set_slot i (\<lambda>x. x\<lparr>sw_busy := (sw_busy x)[idx := True], sw_current := 1 - idx\<rparr>) st5"
  define st7 where "st7 = (if en_swap_fn env then egl_log (C_real_swap surface) (st6\<lparr>eg_suppress := True\<rparr>) else st6)"
  define st8 where "st8 = (if en_get_error_fn env then egl_log C_real_get_error st7 else st7)"
  have whole: "present_frame env i surface st = (True, st8\<lparr>eg_suppress := False\<rparr>)"
    unfolding present_frame_def Let_def pick prod.case slot_def w_def [symmetric] size_mul_fits [OF wh] same r(1) st2_def [symmetric]
      mid d(1) st3_def [symmetric] slots st4_def [symmetric] st5_def [symmetric] st6_def [symmetric] st7_def [symmetric] st8_def [symmetric]
    by (rule refl)
  have fields: "eg_slots st8 = eg_slots st6" "eg_maps st8 = eg_maps st3" "eg_fds st8 = eg_fds st1"
    "eg_next_map st8 = eg_next_map st1" "eg_count st8 = eg_count st1" "eg_fault st8 = eg_fault st1"
    by (simp_all add: st8_def st7_def st6_def st5_def st4_def st3 st2_def egl_log_def)
  have st6: "eg_slots st6 = eg_slots (set_slot i (\<lambda>x. x\<lparr>sw_busy := (sw_busy x)[idx := True], sw_current := 1 - idx\<rparr>) st1)"
    by (simp add: st6_def st5_def st4_def egl_log_def set_slot_def slots)
  show "fst (present_frame env i surface st)" and "\<not> eg_suppress st'" by (simp_all add: whole st'_def)
  show "eg_trace st' = eg_trace st1 @ present_trace env surface w idx"
    by (simp add: st'_def whole present_trace_def st8_def st7_def st6_def st5_def st4_def st3 st2_def egl_log_def set_slot_def)
  show "eg_slots st' = eg_slots (set_slot i (\<lambda>x. x\<lparr>sw_busy := (sw_busy x)[idx := True], sw_current := 1 - idx\<rparr>) st1)"
    using fields st6 by (simp add: st'_def whole)
  show "eg_maps st' = (eg_maps st)(r \<mapsto> (frame_size ?W ?H, \<lambda>k. if k < frame_size ?W ?H then en_pixels env k else rb k),
      d \<mapsto> (2 * frame_size ?W ?H, flipped (en_pixels env) ?W ?H idx df))"
    using fields(2) by (simp add: st'_def whole st3 st2_def egl_log_def maps del: fun_upd_apply)
  show "eg_fds st' = eg_fds st" and "eg_next_map st' = eg_next_map st" and "eg_count st' = eg_count st" and "eg_fault st' = eg_fault st"
    using fields calm by (simp_all add: st'_def whole calm_def)
qed

lemma calm_busy: "calm st (set_slot i (\<lambda>w. w\<lparr>sw_busy := (sw_busy w)[k := b]\<rparr>) st)"
  by (rule calm_set_slot) (simp add: calm_win_def slot_ok_def)

lemma pick_buffer_spec:
  assumes "env_ok env st0" "slot_ok (eg_slots st ! i)" "i < length (eg_slots st)" "pick_buffer env i st = (idx, st1)"
  shows "idx < 2" and "calm st st1"
proof -
  let ?st = "if en_dispatch_fn env then wl_dispatch env st else st"
  have c: "calm st ?st" using calm_dispatch [OF assms(1)] by simp
  then have "core (eg_slots ?st ! i) = core (eg_slots st ! i)"
    using assms(3) by (simp add: calm_def list_all2_conv_all_nth calm_win_def)
  then have cur: "sw_current (eg_slots ?st ! i) = sw_current (eg_slots st ! i)" by (rule core_eqD)
  have "sw_current (eg_slots st ! i) < 2" using assms(2) by (simp add: slot_ok_def)
  then show "idx < 2" using assms(4) cur unfolding pick_buffer_def Let_def slot_def by (auto split: if_splits)
  have "calm st (set_slot i (\<lambda>w. w\<lparr>sw_busy := (sw_busy w)[k := b]\<rparr>) ?st)" for k b
    by (rule calm_trans [OF c calm_busy])
  then show "calm st st1" using assms(4) unfolding pick_buffer_def Let_def by (auto split: if_splits)
qed

lemma egl_inv_sizes:
  assumes "eg_slots b = eg_slots a" "eg_fds b = eg_fds a" "map_size b = map_size a" "eg_next_map b = eg_next_map a"
    "eg_count b = eg_count a" "eg_fault b = eg_fault a" "egl_inv a"
  shows "egl_inv b"
proof -
  have none: "eg_maps b m = None \<longleftrightarrow> eg_maps a m = None" for m
    using fun_cong [OF assms(3), of m] by (auto simp: map_size_def)
  have "live b = live a" by (rule live_eqI) (simp_all add: assms(2) none)
  moreover have "win_ok b = win_ok a" by (simp add: win_ok_def fun_eq_iff assms(3))
  moreover have "used b = used a" by (simp add: used_def assms)
  ultimately show ?thesis using assms(7) by (simp add: egl_inv_def assms none)
qed

lemma inv_win_ok: "\<lbrakk>egl_inv st; i < eg_count st\<rbrakk> \<Longrightarrow> win_ok st (eg_slots st ! i)"
  using set_used_conv [of st "win_ok st"] unfolding egl_inv_def by blast

text \<open>The mappings of a window that needs no resize.\<close>

lemma window_maps:
  assumes inv: "egl_inv st" and i: "i < eg_count st" and nr: "\<not> sw_needs_resize (eg_slots st ! i)"
  obtains d r df rb where "sw_data (eg_slots st ! i) = Some d" "sw_readback (eg_slots st ! i) = Some r" "d \<noteq> r"
    "eg_maps st d = Some (2 * frame_size (sw_width (eg_slots st ! i)) (sw_height (eg_slots st ! i)), df)"
    "eg_maps st r = Some (frame_size (sw_width (eg_slots st ! i)) (sw_height (eg_slots st ! i)), rb)"
    "fits (sw_width (eg_slots st ! i)) (sw_height (eg_slots st ! i))"
proof -
  note but = open_slot [OF inv i]
  have "win_ok st (eg_slots st ! i)" by (rule inv_win_ok [OF inv i])
  then obtain d r n where dr: "sw_data (eg_slots st ! i) = Some d" "sw_readback (eg_slots st ! i) = Some r"
    and sz: "map_size st d = Some (2 * n)" "map_size st r = Some n"
    and wh: "fits (sw_width (eg_slots st ! i)) (sw_height (eg_slots st ! i))"
    and n: "n = frame_size (sw_width (eg_slots st ! i)) (sw_height (eg_slots st ! i))"
    using nr by (auto simp: win_ok_def)
  have ne: "d \<noteq> r" using inv_but_distinct [OF but dr(1)] dr(2) by auto
  obtain df rb where "eg_maps st d = Some (2 * n, df)" "eg_maps st r = Some (n, rb)"
    using sz by (auto simp: map_size_def)
  then show thesis using that dr ne wh n by blast
qed

lemma present_inv:
  assumes env: "env_ok env st0" and inv: "egl_inv st" and i: "i < eg_count st" and nr: "\<not> sw_needs_resize (eg_slots st ! i)"
  shows "egl_inv (snd (present_frame env i surface st))"
proof -
  let ?w = "eg_slots st ! i" and ?st = "snd (present_frame env i surface st)"
  let ?f = "\<lambda>idx x. x\<lparr>sw_busy := (sw_busy x)[idx := True], sw_current := 1 - idx\<rparr>"
  have len: "i < length (eg_slots st)" and ok: "slot_ok ?w" using inv_but_slot [OF open_slot [OF inv i]] by blast+
  obtain idx st1 where pick: "pick_buffer env i st = (idx, st1)" by fastforce
  have idx: "idx < 2" and calm: "calm st st1" by (rule pick_buffer_spec [OF env ok len pick])+
  obtain d r df rb where w: "sw_data ?w = Some d" "sw_readback ?w = Some r" "d \<noteq> r"
    "eg_maps st d = Some (2 * frame_size (sw_width ?w) (sw_height ?w), df)"
    "eg_maps st r = Some (frame_size (sw_width ?w) (sw_height ?w), rb)" "fits (sw_width ?w) (sw_height ?w)"
    by (rule window_maps [OF inv i nr])
  note spec = present_frame_spec [OF pick idx len calm w(1,4,2,5,3,6), of surface]
  have inv1: "egl_inv st1" by (rule calm_inv [OF calm inv])
  have i1: "i < eg_count st1" using i calm by (simp add: calm_def)
  note but1 = open_slot [OF inv1 i1]
  have "inv_but i (set_slot i (?f idx) st1)"
    by (rule inv_but_set [OF but1]) (use inv_but_slot(2) [OF but1] idx in \<open>simp_all add: res_of_def slot_ok_def\<close>)
  moreover have "win_ok st1 (eg_slots st1 ! i)" by (rule inv_win_ok [OF inv1 i1])
  then have "win_ok st1 (?f idx (eg_slots st1 ! i))" by (simp add: win_ok_def)
  ultimately have inv2: "egl_inv (set_slot i (?f idx) st1)"
    by (intro close_slot [of i]) (use i1 inv_but_slot(1) [OF but1] in \<open>simp_all add: set_slot_nth\<close>)
  have size: "map_size ?st = map_size st"
    using w(3,4,5) unfolding fun_eq_iff map_size_def spec(2) by auto
  show ?thesis
    by (rule egl_inv_sizes [OF _ _ _ _ _ _ inv2])
       (use calm size in \<open>simp_all add: spec calm_def map_size_def [abs_def]\<close>)
qed

end
