(* ===== verification/EglLife.thy ===== *)
theory EglLife
  imports EglPresent
begin

text \<open>
  Resizing, creating and destroying a window keep the invariant, on every failure path; so does any
  sequence of the intercepted calls.
\<close>

subsection \<open>Resizing, creating and destroying windows\<close>

lemma inv_but_calm: "\<lbrakk>inv_but i st; calm st st'\<rbrakk> \<Longrightarrow> inv_but i st'"
  by (rule calm_inv_but(1))

lemma log_slots [simp]: "eg_slots (egl_log c st) = eg_slots st" "eg_fds (egl_log c st) = eg_fds st"
  "eg_count (egl_log c st) = eg_count st" "map_size (egl_log c st) = map_size st" "win_ok (egl_log c st) = win_ok st"
  by (simp_all add: egl_log_def map_size_def [abs_def] fun_eq_iff win_ok_def)

text \<open>The old frames and pbuffer released.\<close>

definition resize_release :: "egl_env \<Rightarrow> nat \<Rightarrow> egl \<Rightarrow> egl" where
  "resize_release env i st =
     (let st1 = destroy_shm_buffers i st in
      if sw_pbuffer (slot i st1) \<noteq> None \<and> en_destroy_fn env
      then set_slot i (\<lambda>w. w\<lparr>sw_pbuffer := None\<rparr>) (egl_log (C_destroy_pbuffer (sw_pbuffer (slot i st1))) st1)
      else st1)"

lemma resize_release_spec:
  assumes inv: "inv_but i st"
  shows "inv_but i (resize_release env i st)" and "eg_count (resize_release env i st) = eg_count st"
    and "eg_fds (resize_release env i st) \<subseteq> eg_fds st"
    and "sw_fd (eg_slots (resize_release env i st) ! i) < 0"
    and "sw_data (eg_slots (resize_release env i st) ! i) = None"
    and "sw_readback (eg_slots (resize_release env i st) ! i) = None"
    and "sw_surface (eg_slots (resize_release env i st) ! i) = sw_surface (eg_slots st ! i)"
    and "sw_needs_resize (eg_slots (resize_release env i st) ! i) = sw_needs_resize (eg_slots st ! i)"
proof -
  let ?a = "destroy_shm_buffers i st"
  note d = destroy_frame [OF inv]
  have same: "same_window (eg_slots st ! i) (eg_slots ?a ! i)" "eg_count ?a = eg_count st"
    using d(2) by (simp_all add: only_slot_def)
  have len: "i < length (eg_slots ?a)" and ok: "slot_ok (eg_slots ?a ! i)" by (rule inv_but_slot [OF d(1)])+
  have log: "inv_but i (egl_log c ?a)" for c by (rule inv_but_calm [OF d(1) calm_log])
  have "inv_but i (set_slot i (\<lambda>w. w\<lparr>sw_pbuffer := None\<rparr>) (egl_log c ?a))" for c
    by (rule inv_but_set [OF log]) (use ok in \<open>simp_all add: res_of_def slot_ok_def\<close>)
  then show "inv_but i (resize_release env i st)" using d(1) by (simp add: resize_release_def Let_def)
  show "eg_count (resize_release env i st) = eg_count st" using same by (simp add: resize_release_def Let_def)
  show "eg_fds (resize_release env i st) \<subseteq> eg_fds st" using d(4) by (simp add: resize_release_def Let_def)
  show "sw_fd (eg_slots (resize_release env i st) ! i) < 0"
    and "sw_data (eg_slots (resize_release env i st) ! i) = None"
    and "sw_readback (eg_slots (resize_release env i st) ! i) = None"
    using d(5,6,7) len by (simp_all add: resize_release_def Let_def set_slot_nth)
  show "sw_surface (eg_slots (resize_release env i st) ! i) = sw_surface (eg_slots st ! i)"
    and "sw_needs_resize (eg_slots (resize_release env i st) ! i) = sw_needs_resize (eg_slots st ! i)"
    using same len by (simp_all add: resize_release_def Let_def set_slot_nth same_window_def)
qed

lemma handle_shm_resize_conv:
  "handle_shm_resize env i st =
     (case create_shm_buffers env i (sw_pending_width (slot i st)) (sw_pending_height (slot i st)) (resize_release env i st) of
        (False, st3) \<Rightarrow> (False, st3)
      | (True, st3) \<Rightarrow>
        let st4 = egl_log (C_create_pbuffer (en_pbuffer env) (sw_pending_width (slot i st)) (sw_pending_height (slot i st))) st3 in
        if en_pbuffer env = None then (False, st4)
        else (True, set_slot i (\<lambda>w. w\<lparr>sw_pbuffer := en_pbuffer env, sw_width := sw_pending_width (slot i st),
                sw_height := sw_pending_height (slot i st), sw_needs_resize := False\<rparr>) st4))"
  unfolding handle_shm_resize_def resize_release_def Let_def by (rule refl)

lemma resize_inv:
  assumes env: "env_ok env st" and inv: "egl_inv st" and i: "i < eg_count st" and nr: "sw_needs_resize (eg_slots st ! i)"
    and resize: "handle_shm_resize env i st = (ok, st')"
  shows "egl_inv st'" and "eg_count st' = eg_count st" and "ok \<longrightarrow> \<not> sw_needs_resize (eg_slots st' ! i)"
proof -
  let ?w = "eg_slots st ! i" and ?a = "resize_release env i st"
  let ?W = "sw_pending_width ?w" and ?H = "sw_pending_height ?w"
  note but = open_slot [OF inv i]
  note a = resize_release_spec [OF but, of env]
  have fits: "fits ?W ?H" using inv_but_slot(2) [OF but] nr by (simp add: slot_ok_def)
  have surf: "sw_surface ?w \<noteq> None" using inv_win_ok [OF inv i] by (simp add: win_ok_def)
  have fd: "en_memfd env \<notin> eg_fds ?a" using env a(3) by (auto simp: env_ok_def)
  obtain c st3 where create: "create_shm_buffers env i ?W ?H ?a = (c, st3)" by fastforce
  note cr = create_frame [OF a(1) res_of_empty [OF a(4,5,6)] fd fits create]
  have same: "eg_count st3 = eg_count st" "sw_surface (eg_slots st3 ! i) = sw_surface ?w" "sw_needs_resize (eg_slots st3 ! i)"
    using cr(2) a nr by (simp_all add: only_slot_def same_window_def)
  have len: "i < length (eg_slots st3)" and sok: "slot_ok (eg_slots st3 ! i)" by (rule inv_but_slot [OF cr(1)])+
  note res = resize [unfolded handle_shm_resize_conv slot_def create Let_def]
  show "eg_count st' = eg_count st" using res same by (auto split: bool.splits if_splits)
  show "ok \<longrightarrow> \<not> sw_needs_resize (eg_slots st' ! i)"
    using res len by (auto simp: set_slot_nth split: bool.splits if_splits)
  show "egl_inv st'"
  proof (cases c)
    case False
    have win: "win_ok st3 (eg_slots st3 ! i)" using cr(4) [OF False] a same surf by (simp add: win_ok_def)
    have "egl_inv st3" by (rule close_slot [OF cr(1) _ win]) (use i same in simp)
    then show ?thesis using res False by simp
  next
    case True
    let ?p = "egl_log (C_create_pbuffer (en_pbuffer env) ?W ?H) st3"
    let ?f = "\<lambda>w. w\<lparr>sw_pbuffer := en_pbuffer env, sw_width := ?W, sw_height := ?H, sw_needs_resize := False\<rparr>"
    have p: "inv_but i ?p" by (rule inv_but_calm [OF cr(1) calm_log])
    have wp: "win_ok ?p (eg_slots ?p ! i)" and wf: "win_ok ?p (?f (eg_slots ?p ! i))"
      using cr(5) [OF True] same surf fits by (auto simp: win_ok_def)
    have "egl_inv ?p" by (rule close_slot [OF p _ wp]) (use i same in simp)
    moreover have "inv_but i (set_slot i ?f ?p)"
      by (rule inv_but_set [OF p]) (use sok in \<open>simp_all add: res_of_def slot_ok_def\<close>)
    then have "egl_inv (set_slot i ?f ?p)"
      by (rule close_slot) (use i same wf len in \<open>simp_all add: set_slot_nth\<close>)
    ultimately show ?thesis using res True by (simp split: if_splits)
  qed
qed

lemma resize_slots:
  assumes env: "env_ok env st" and inv: "egl_inv st" and i: "i < eg_count st" and nr: "sw_needs_resize (eg_slots st ! i)"
    and resize: "handle_shm_resize env i st = (True, st')"
  shows "sw_pbuffer (eg_slots st' ! i) = en_pbuffer env" and "en_pbuffer env \<noteq> None"
    and "j \<noteq> i \<Longrightarrow> eg_slots st' ! j = eg_slots st ! j"
proof -
  let ?w = "eg_slots st ! i" and ?a = "resize_release env i st"
  note but = open_slot [OF inv i]
  note a = resize_release_spec [OF but, of env]
  have fits: "fits (sw_pending_width ?w) (sw_pending_height ?w)" using inv_but_slot(2) [OF but] nr by (simp add: slot_ok_def)
  have fd: "en_memfd env \<notin> eg_fds ?a" using env a(3) by (auto simp: env_ok_def)
  obtain c st3 where create: "create_shm_buffers env i (sw_pending_width ?w) (sw_pending_height ?w) ?a = (c, st3)" by fastforce
  note cr = create_frame [OF a(1) res_of_empty [OF a(4,5,6)] fd fits create]
  have len: "i < length (eg_slots st3)" by (rule inv_but_slot [OF cr(1)])
  note res = resize [unfolded handle_shm_resize_conv slot_def create Let_def]
  show "sw_pbuffer (eg_slots st' ! i) = en_pbuffer env" and "en_pbuffer env \<noteq> None"
    using res len by (auto simp: set_slot_nth split: bool.splits if_splits)
  have "eg_slots ?a ! j = eg_slots st ! j" if "j \<noteq> i" for j
    using destroy_frame(2) [OF but] that by (simp add: resize_release_def Let_def set_slot_nth only_slot_def)
  moreover have "eg_slots st3 ! j = eg_slots ?a ! j" if "j \<noteq> i" for j
    using cr(2) that by (simp add: only_slot_def)
  ultimately show "j \<noteq> i \<Longrightarrow> eg_slots st' ! j = eg_slots st ! j"
    using res by (auto simp: set_slot_nth split: bool.splits if_splits)
qed

text \<open>A new window is built in the first unused slot.\<close>

definition new_window :: "nat \<Rightarrow> nat \<Rightarrow> shm_window" where
  "new_window dpy config = zero_window\<lparr>sw_fd := -1, sw_config := config, sw_display := dpy\<rparr>"

lemma new_window_ok [simp]: "slot_ok (new_window dpy config)" "res_of (new_window dpy config) = {#}"
  by (simp_all add: new_window_def zero_window_def slot_ok_def res_of_def)

lemma open_new:
  assumes inv: "egl_inv st" and room: "eg_count st < MAX_SHM_WINDOWS" and w: "slot_ok w" "res_of w = {#}"
  shows "inv_but (eg_count st) (set_slot (eg_count st) (\<lambda>_. w) st)"
proof -
  let ?st = "set_slot (eg_count st) (\<lambda>_. w) st"
  note inv' = inv [unfolded egl_inv_def]
  have used: "used ?st = used st" by (simp add: used_def set_slot_def)
  have slots: "\<forall>w \<in> set (eg_slots ?st). slot_ok w"
    using inv' w(1) room by (simp add: all_set_conv_all_nth set_slot_def nth_list_update)
  have sum: "others (eg_count st) ?st = (\<Sum>w\<leftarrow>used st. res_of w)"
    using others_last [of ?st "eg_count st"] unfolding used by (simp add: used_def)
  have wins: "\<forall>j < eg_count ?st. j \<noteq> eg_count st \<longrightarrow> win_ok ?st (eg_slots ?st ! j)"
    using inv_win_ok [OF inv] by (simp add: set_slot_nth)
  show ?thesis
    using inv' room slots sum wins w(2) by (simp add: inv_but_def set_slot_nth)
qed

lemma proxy_calm: "new_proxy ok c st = (p, st') \<Longrightarrow> calm st st'"
  using calm_proxy [of st ok c] by simp

lemma set_keeps:
  assumes "inv_but i st" "\<And>w. res_of (f w) = res_of w" "\<And>w. slot_ok w \<Longrightarrow> slot_ok (f w)"
  shows "inv_but i (set_slot i f st)"
  by (rule inv_but_set) (use assms inv_but_slot in auto)

text \<open>A slot under construction: no resources yet, the invariant for the rest.\<close>

definition building :: "nat \<Rightarrow> egl \<Rightarrow> egl \<Rightarrow> bool" where
  "building i st0 st \<longleftrightarrow> inv_but i st \<and> eg_count st = eg_count st0 \<and> eg_fds st = eg_fds st0 \<and> res_of (eg_slots st ! i) = {#}"

lemma building_calm:
  assumes "building i st0 st" "calm st st'"
  shows "building i st0 st'"
proof -
  have "core (eg_slots st' ! i) = core (eg_slots st ! i)"
    using calm_inv_but(2) [OF assms(2)] assms(1) by (simp add: building_def calm_win_def)
  then have "res_of (eg_slots st' ! i) = res_of (eg_slots st ! i)" by (metis res_of_core)
  then show ?thesis using calm_inv_but(1) [OF assms(2)] assms by (simp add: building_def calm_def)
qed

lemma building_set:
  assumes "building i st0 st" "\<And>w. res_of (f w) = res_of w" "\<And>w. slot_ok w \<Longrightarrow> slot_ok (f w)"
  shows "building i st0 (set_slot i f st)"
  using assms set_keeps [of i st f] inv_but_slot(1) [of i st] by (simp add: building_def set_slot_nth)

lemma building_inv: "building (eg_count st0) st0 st \<Longrightarrow> egl_inv st"
  using close_empty [of st] by (simp add: building_def)

text \<open>The Wayland objects of a window, then its frames and pbuffer.\<close>

definition window_objects :: "egl_env \<Rightarrow> nat \<Rightarrow> egl \<Rightarrow> (nat \<times> nat) option \<times> egl" where
  "window_objects env i st1 =
     (case new_proxy (en_surface env) C_create_surface st1 of
        (None, st2) \<Rightarrow> (None, st2)
      | (Some surface, st2) \<Rightarrow>
        (case new_proxy (en_xdg env) (\<lambda>n. C_get_xdg_surface n surface)
               (set_slot i (\<lambda>w. w\<lparr>sw_surface := Some surface\<rparr>) st2) of
           (None, st3) \<Rightarrow> (None, st3)
         | (Some xdg, st3) \<Rightarrow>
           (case new_proxy (en_toplevel env) (\<lambda>n. C_get_toplevel n xdg)
                  (add_listener xdg (L_window i) (set_slot i (\<lambda>w. w\<lparr>sw_xdg := Some xdg\<rparr>) st3)) of
              (None, st4) \<Rightarrow> (None, st4)
            | (Some toplevel, st4) \<Rightarrow>
                (Some (surface, toplevel), set_slot i (\<lambda>w. w\<lparr>sw_toplevel := Some toplevel\<rparr>) st4))))"

definition window_frames :: "egl_env \<Rightarrow> nat \<Rightarrow> nat \<times> nat \<Rightarrow> egl \<Rightarrow> nat option \<times> egl" where
  "window_frames env i st_ids st4 =
     (let st5 = setup_toplevel (snd st_ids) (L_window i) (fst st_ids) env st4;
          st6 = set_slot i (\<lambda>w. w\<lparr>sw_width := DEFAULT_WIDTH, sw_height := DEFAULT_HEIGHT\<rparr>) st5 in
      (case create_shm_buffers env i DEFAULT_WIDTH DEFAULT_HEIGHT st6 of
         (False, st7) \<Rightarrow> (None, st7)
       | (True, st7) \<Rightarrow>
         if \<not> en_pbuffer_fn env then (None, destroy_shm_buffers i st7)
         else
           let st8 = egl_log (C_create_pbuffer (en_pbuffer env) DEFAULT_WIDTH DEFAULT_HEIGHT) st7 in
           if en_pbuffer env = None then (None, destroy_shm_buffers i st8)
           else (Some i, (set_slot i (\<lambda>w. w\<lparr>sw_pbuffer := en_pbuffer env\<rparr>) st8)\<lparr>eg_count := eg_count st8 + 1\<rparr>)))"

lemma create_shm_window_conv:
  "create_shm_window env dpy config st =
     (if \<not> eg_ready st \<or> eg_compositor st = None \<or> eg_wm_base st = None \<or> eg_count st \<ge> MAX_SHM_WINDOWS then (None, st)
      else case window_objects env (eg_count st) (set_slot (eg_count st) (\<lambda>_. new_window dpy config) st) of
        (None, st2) \<Rightarrow> (None, st2)
      | (Some ids, st2) \<Rightarrow> window_frames env (eg_count st) ids st2)"
proof (cases "\<not> eg_ready st \<or> eg_compositor st = None \<or> eg_wm_base st = None \<or> eg_count st \<ge> MAX_SHM_WINDOWS")
  case True
  then show ?thesis by (auto simp: create_shm_window_def)
next
  case False
  then have g: "eg_ready st" "eg_compositor st \<noteq> None" "eg_wm_base st \<noteq> None" "\<not> eg_count st \<ge> MAX_SHM_WINDOWS"
    by auto
  show ?thesis
    by (simp only: create_shm_window_def window_objects_def window_frames_def new_window_def Let_def g
        not_True_eq_False not_False_eq_True if_False simp_thms)
       (simp split: prod.split option.split)
qed

lemma building_proxy: "\<lbrakk>building i st0 st; new_proxy ok c st = (p, st')\<rbrakk> \<Longrightarrow> building i st0 st'"
  by (blast intro: building_calm proxy_calm)

lemma proxy_slots: "new_proxy ok c st = (p, st') \<Longrightarrow> eg_slots st' = eg_slots st"
  by (auto simp: new_proxy_def split: if_splits)

lemma building_objects:
  "building i st0 st \<Longrightarrow> building i st0 (set_slot i (\<lambda>w. w\<lparr>sw_surface := s\<rparr>) st)"
  "building i st0 st \<Longrightarrow> building i st0 (set_slot i (\<lambda>w. w\<lparr>sw_xdg := x\<rparr>) st)"
  "building i st0 st \<Longrightarrow> building i st0 (set_slot i (\<lambda>w. w\<lparr>sw_toplevel := x\<rparr>) st)"
  "building i st0 st \<Longrightarrow> building i st0 (set_slot i (\<lambda>w. w\<lparr>sw_width := n, sw_height := k\<rparr>) st)"
  by (rule building_set; simp add: res_of_def slot_ok_def)+

lemma window_objects_spec:
  assumes b: "building i st0 st"
  shows "building i st0 (snd (window_objects env i st))"
    and "fst (window_objects env i st) \<noteq> None \<Longrightarrow> sw_surface (eg_slots (snd (window_objects env i st)) ! i) \<noteq> None"
proof -
  show "building i st0 (snd (window_objects env i st))"
    unfolding window_objects_def
    by (auto split: prod.split option.split
        intro!: building_objects building_calm [OF _ calm_listener] elim!: building_proxy [rotated] simp: b)
  have "i < length (eg_slots st)" using b by (auto simp: building_def dest: inv_but_slot)
  then show "fst (window_objects env i st) \<noteq> None \<Longrightarrow> sw_surface (eg_slots (snd (window_objects env i st)) ! i) \<noteq> None"
    unfolding window_objects_def
    by (auto split: prod.splits option.splits dest!: proxy_slots simp: set_slot_def add_listener_def)
qed

lemma fits_default: "fits DEFAULT_WIDTH DEFAULT_HEIGHT"
  by (simp add: fits_def DEFAULT_WIDTH_def DEFAULT_HEIGHT_def)

lemma window_frames_inv:
  assumes env: "env_ok env st0" and b: "building i st0 st" and i: "i = eg_count st0" and s: "sw_surface (eg_slots st ! i) \<noteq> None"
  shows "egl_inv (snd (window_frames env i ids st))"
proof -
  let ?f = "\<lambda>w. w\<lparr>sw_width := DEFAULT_WIDTH, sw_height := DEFAULT_HEIGHT\<rparr>"
  define st5 where "st5 = setup_toplevel (snd ids) (L_window i) (fst ids) env st"
  define st6 where "st6 = set_slot i ?f st5"
  have c5: "calm st st5" unfolding st5_def by (rule calm_setup [OF env])
  have b5: "building i st0 st5" by (rule building_calm [OF b c5])
  have b6: "building i st0 st6" unfolding st6_def by (rule building_objects(4) [OF b5])
  have but: "inv_but i st" "inv_but i st5" using b b5 by (simp_all add: building_def)
  have "core (eg_slots st5 ! i) = core (eg_slots st ! i)"
    using calm_inv_but(2) [OF c5 but(1)] by (simp add: calm_win_def)
  then have s6: "sw_surface (eg_slots st6 ! i) \<noteq> None"
    using s inv_but_slot(1) [OF but(2)] core_eqD(1) [of "eg_slots st5 ! i" "eg_slots st ! i"] by (simp add: st6_def set_slot_nth)
  have wh6: "sw_width (eg_slots st6 ! i) = DEFAULT_WIDTH" "sw_height (eg_slots st6 ! i) = DEFAULT_HEIGHT"
    using inv_but_slot(1) [OF but(2)] by (simp_all add: st6_def set_slot_nth)
  have fd: "en_memfd env \<notin> eg_fds st6" using b6 env by (simp add: building_def env_ok_def)
  obtain c st7 where create: "create_shm_buffers env i DEFAULT_WIDTH DEFAULT_HEIGHT st6 = (c, st7)" by fastforce
  have "inv_but i st6" "res_of (eg_slots st6 ! i) = {#}" using b6 by (simp_all add: building_def)
  note cr = create_frame [OF this fd fits_default create]
  have n7: "i = eg_count st7" using cr(2) b6 i by (simp add: only_slot_def building_def)
  have same7: "sw_surface (eg_slots st7 ! i) \<noteq> None" "sw_width (eg_slots st7 ! i) = DEFAULT_WIDTH" "sw_height (eg_slots st7 ! i) = DEFAULT_HEIGHT"
    using cr(2) s6 wh6 by (simp_all add: only_slot_def same_window_def)
  let ?p = "egl_log (C_create_pbuffer (en_pbuffer env) DEFAULT_WIDTH DEFAULT_HEIGHT) st7"
  let ?q = "set_slot i (\<lambda>w. w\<lparr>sw_pbuffer := en_pbuffer env\<rparr>) ?p"
  have p: "inv_but i ?p" by (rule inv_but_calm [OF cr(1) calm_log])
  have undo: "egl_inv (destroy_shm_buffers i st)" if "inv_but i st" "i = eg_count st" for st
    using close_empty [of "destroy_shm_buffers i st"] destroy_frame [OF that(1)] that(2) by (simp add: only_slot_def)
  have fail: "egl_inv st7" if "\<not> c" using close_empty [of st7] cr(1) cr(3) [OF that] n7 by simp
  have final: "egl_inv (?q\<lparr>eg_count := eg_count ?p + 1\<rparr>)" if c
  proof -
    have q: "inv_but i ?q" by (rule set_keeps [OF p]) (simp_all add: res_of_def slot_ok_def)
    have "win_ok ?q (eg_slots ?q ! i)"
      using cr(5) [OF that] same7 fits_default inv_but_slot(1) [OF cr(1)] by (auto simp: set_slot_nth win_ok_def)
    then show ?thesis using close_new [of ?q] q n7 by simp
  qed
  show ?thesis
    unfolding window_frames_def Let_def st5_def [symmetric] st6_def [symmetric] create
    using fail final undo [OF cr(1) n7] undo [OF p] n7
    by (cases "en_pbuffer env"; simp split: bool.split)
qed

lemma create_window_inv:
  assumes env: "env_ok env st" and inv: "egl_inv st"
  shows "egl_inv (snd (create_shm_window env dpy config st))"
proof (cases "\<not> eg_ready st \<or> eg_compositor st = None \<or> eg_wm_base st = None \<or> eg_count st \<ge> MAX_SHM_WINDOWS")
  case True
  then show ?thesis using inv by (simp add: create_shm_window_conv)
next
  case False
  let ?i = "eg_count st"
  define st1 where "st1 = set_slot ?i (\<lambda>_. new_window dpy config) st"
  have len: "?i < length (eg_slots st)" using inv False by (simp add: egl_inv_def)
  have "building ?i st st1"
    unfolding building_def st1_def using open_new [OF inv] False len by (simp add: set_slot_nth)
  note ob = window_objects_spec [OF this, of env]
  obtain ids st2 where w: "window_objects env ?i st1 = (ids, st2)" by fastforce
  have "egl_inv st2" using building_inv ob(1) by (simp add: w)
  moreover have "egl_inv (snd (window_frames env ?i p st2))" if "ids = Some p" for p
    by (rule window_frames_inv [OF env]) (use ob that in \<open>simp_all add: w\<close>)
  ultimately show ?thesis
    unfolding create_shm_window_conv st1_def [symmetric] w using inv by (simp split: option.split)
qed

text \<open>The last window takes the place of the removed one.\<close>

lemma mset_move_last:
  assumes "i < length xs"
  shows "mset (take (length xs - 1) (xs[i := xs ! (length xs - 1)])) = mset (take i xs @ drop (Suc i) xs)"
proof (cases xs rule: rev_cases)
  case Nil
  then show ?thesis using assms by simp
next
  case (snoc ys l)
  show ?thesis
  proof (cases "i < length ys")
    case True
    have "mset ys = mset (take i ys @ ys ! i # drop (Suc i) ys)" using id_take_nth_drop [OF True] by (rule arg_cong)
    then show ?thesis using snoc True by (simp add: list_update_append mset_update)
  next
    case False
    then show ?thesis using snoc assms by simp
  qed
qed

lemma remove_slot_inv:
  assumes inv: "inv_but i st" and i: "i < eg_count st" and empty: "res_of (eg_slots st ! i) = {#}"
  shows "egl_inv (remove_slot i st)"
proof -
  let ?c = "eg_count st" and ?xs = "eg_slots st"
  let ?st = "remove_slot i st"
  note inv' = inv [unfolded inv_but_def]
  have len: "?c \<le> length ?xs" "i < length ?xs" "length (used st) = ?c" using inv' i by (simp_all add: used_def)
  define ys where "ys = ?xs[i := ?xs ! (?c - 1)]"
  have slots: "eg_slots ?st = ys[?c - 1 := zero_window]" and cnt: "eg_count ?st = ?c - 1"
    and rest: "live ?st = live st" "map_size ?st = map_size st" "eg_next_map ?st = eg_next_map st" "eg_maps ?st = eg_maps st"
      "eg_fault ?st = eg_fault st"
    using i by (auto simp: remove_slot_def Let_def set_slot_def ys_def live_def map_size_def [abs_def] not_less_iff_gr_or_eq list_update_same_conv)
  have used: "used ?st = take (?c - 1) ((used st)[i := used st ! (?c - 1)])"
  proof -
    have "used ?st = take (?c - 1) (take ?c ys)" by (simp add: used_def slots cnt)
    also have "take ?c ys = (used st)[i := used st ! (?c - 1)]" using i by (simp add: used_def ys_def take_update_swap)
    finally show ?thesis .
  qed
  have mset: "mset (used ?st) = mset (take i (used st) @ drop (Suc i) (used st))"
    using mset_move_last [of i "used st"] i len unfolding used by simp
  have sum: "(\<Sum>w\<leftarrow>used ?st. res_of w) = mset_set (live ?st)"
  proof -
    have "(\<Sum>w\<leftarrow>used ?st. res_of w) = others i st"
      unfolding others_def by (simp only: sum_mset_sum_list [symmetric] mset_map mset)
    then show ?thesis using inv' empty rest by simp
  qed
  have zero: "slot_ok zero_window" by (simp add: zero_window_def slot_ok_def)
  have slots_ok: "\<forall>w \<in> set (eg_slots ?st). slot_ok w"
  proof
    fix w assume "w \<in> set (eg_slots ?st)"
    then have "w \<in> insert zero_window (set ys)" unfolding slots using set_update_subset_insert by fast
    moreover have "set ys \<subseteq> insert (?xs ! (?c - 1)) (set ?xs)" unfolding ys_def by (rule set_update_subset_insert)
    moreover have "?xs ! (?c - 1) \<in> set ?xs" using i len by simp
    ultimately show "slot_ok w" using inv' zero by blast
  qed
  have wins: "\<forall>w \<in> set (used ?st). win_ok ?st w"
  proof
    fix w assume "w \<in> set (used ?st)"
    then have "w \<in> set (take i (used st) @ drop (Suc i) (used st))" using mset by (metis set_mset_mset)
    then have "\<exists>j < ?c. j \<noteq> i \<and> w = ?xs ! j"
      using len by (auto simp: in_set_conv_nth used_def) (metis (no_types, lifting) Suc_leI add.commute add_Suc_right less_diff_conv min.absorb2 n_not_Suc_n nat_neq_iff not_add_less1)
    then have "win_ok st w" using inv' by blast
    then show "win_ok ?st w" by (simp add: win_ok_def rest)
  qed
  have "?c \<le> MAX_SHM_WINDOWS" and "length (eg_slots ?st) = MAX_SHM_WINDOWS" using inv' by (simp_all add: slots ys_def)
  then have "length (eg_slots ?st) = MAX_SHM_WINDOWS" "?c - 1 \<le> MAX_SHM_WINDOWS" by simp_all
  then show ?thesis
    using inv' slots_ok wins sum rest cnt unfolding egl_inv_def by simp
qed

lemma find_shm_window_some:
  assumes "find_shm_window surface st = Some i"
  shows "i < eg_count st" and "sw_pbuffer (eg_slots st ! i) = surface"
  using assms by (auto simp: find_shm_window_def find_Some_iff)

text \<open>The xdg objects of a window go one by one.\<close>

definition destroy_objects :: "nat \<Rightarrow> egl \<Rightarrow> egl" where
  "destroy_objects i st =
     destroy_proxy sw_surface C_surface_destroy (\<lambda>w. w\<lparr>sw_surface := None\<rparr>) i
       (destroy_proxy sw_xdg C_xdg_destroy (\<lambda>w. w\<lparr>sw_xdg := None\<rparr>) i
         (destroy_proxy sw_toplevel C_toplevel_destroy (\<lambda>w. w\<lparr>sw_toplevel := None\<rparr>) i st))"

lemma destroy_proxy_inv:
  assumes inv: "inv_but i st" and res: "res_of (eg_slots st ! i) = {#}"
    and clear: "\<And>w. res_of (clear w) = res_of w" "\<And>w. slot_ok w \<Longrightarrow> slot_ok (clear w)"
  shows "inv_but i (destroy_proxy get call clear i st) \<and> res_of (eg_slots (destroy_proxy get call clear i st) ! i) = {#} \<and>
    eg_count (destroy_proxy get call clear i st) = eg_count st"
proof (cases "get (slot i st)")
  case None
  then show ?thesis using inv res by (simp add: destroy_proxy_def)
next
  case (Some p)
  have "inv_but i (set_slot i clear (egl_log (call p) st))"
    by (rule set_keeps [OF inv_but_calm [OF inv calm_log]]) (use clear in auto)
  then show ?thesis using Some res clear inv_but_slot(1) [OF inv] by (simp add: destroy_proxy_def set_slot_nth)
qed

lemma destroy_surface_inv:
  assumes inv: "egl_inv st"
  shows "egl_inv (snd (eglDestroySurface env surface st))"
proof -
  have log: "egl_inv (egl_log c st)" if "egl_inv st" for c st by (rule calm_inv [OF calm_log that])
  show ?thesis
  proof (cases "find_shm_window surface st")
    case None
    then show ?thesis using inv log by (simp add: eglDestroySurface_def Let_def)
  next
    case (Some i)
    have i: "i < eg_count st" by (rule find_shm_window_some [OF Some])
    note a = destroy_frame [OF open_slot [OF inv i]]
    have cnt: "eg_count (destroy_shm_buffers i st) = eg_count st" using a(2) by (simp add: only_slot_def)
    let ?d = "destroy_objects i (destroy_shm_buffers i st)"
    have "inv_but i ?d \<and> res_of (eg_slots ?d ! i) = {#} \<and> eg_count ?d = eg_count st"
      unfolding destroy_objects_def
      using destroy_proxy_inv [of i "destroy_shm_buffers i st" "\<lambda>w. w\<lparr>sw_toplevel := None\<rparr>" sw_toplevel C_toplevel_destroy]
        destroy_proxy_inv [of i _ "\<lambda>w. w\<lparr>sw_xdg := None\<rparr>" sw_xdg C_xdg_destroy]
        destroy_proxy_inv [of i _ "\<lambda>w. w\<lparr>sw_surface := None\<rparr>" sw_surface C_surface_destroy] a(1,3) cnt
      by (simp add: res_of_def slot_ok_def)
    then have "egl_inv (remove_slot i ?d)" using i by (intro remove_slot_inv) simp_all
    then show ?thesis
      using Some inv log by (simp add: eglDestroySurface_def Let_def destroy_objects_def)
  qed
qed

lemma swap_inv:
  assumes env: "env_ok env st" and inv: "egl_inv st"
  shows "egl_inv (snd (eglSwapBuffers env surface st))"
proof -
  have real: "egl_inv (snd (real_swap env surface st))"
    using calm_inv [OF calm_log inv] inv by (simp add: real_swap_def)
  show ?thesis
  proof (cases "eg_gpu st \<or> find_shm_window surface st = None")
    case True
    then show ?thesis using real by (auto simp: eglSwapBuffers_def)
  next
    case False
    then obtain i where f: "find_shm_window surface st = Some i" and g: "\<not> eg_gpu st" by blast
    have i: "i < eg_count st" by (rule find_shm_window_some [OF f])
    obtain ok st1 where r: "(if sw_needs_resize (slot i st) then handle_shm_resize env i st else (True, st)) = (ok, st1)"
      by fastforce
    have 1: "egl_inv st1" "eg_count st1 = eg_count st" "ok \<longrightarrow> \<not> sw_needs_resize (eg_slots st1 ! i)"
      using resize_inv [OF env inv i, of ok st1] r inv by (auto simp: slot_def split: if_splits)
    define st2 where "st2 = (if sw_needs_resize (slot i st) \<and> sw_pbuffer (slot i st1) \<noteq> sw_pbuffer (slot i st) \<and> en_make_current_fn env
       then egl_log (C_make_current (sw_pbuffer (slot i st1))) st1 else st1)"
    have c: "calm st1 (ensure_gl_funcs env st2)"
      by (rule calm_same) (simp_all add: st2_def ensure_gl_funcs_def egl_log_def)
    have 3: "egl_inv (ensure_gl_funcs env st2)" by (rule calm_inv [OF c 1(1)])
    have "egl_inv (snd (present_frame env i surface (ensure_gl_funcs env st2)))" if ok
      by (rule present_inv [OF env 3]) (use that i 1 c in \<open>simp_all add: calm_def ensure_gl_funcs_def st2_def\<close>)
    then show ?thesis
      unfolding eglSwapBuffers_def if_not_P [OF g] f option.case r Let_def prod.case st2_def [symmetric]
      using 1 3 by simp
  qed
qed

subsection \<open>Runs of the intercepted calls\<close>

datatype egl_op =
    Op_create nat nat | Op_swap "nat option" | Op_destroy "nat option" | Op_initialize | Op_make_current "nat option"
  | Op_get_error | Op_platform_display int "nat option" | Op_display "nat option"

fun egl_step :: "egl_op \<Rightarrow> egl_env \<Rightarrow> egl \<Rightarrow> egl" where
  "egl_step (Op_create dpy config) env st = snd (eglCreateWindowSurface env dpy config st)"
| "egl_step (Op_swap surface) env st = snd (eglSwapBuffers env surface st)"
| "egl_step (Op_destroy surface) env st = snd (eglDestroySurface env surface st)"
| "egl_step Op_initialize env st = snd (eglInitialize env st)"
| "egl_step (Op_make_current surface) env st = snd (eglMakeCurrent env surface st)"
| "egl_step Op_get_error env st = snd (eglGetError env st)"
| "egl_step (Op_platform_display platform native) env st = snd (eglGetPlatformDisplay env platform native st)"
| "egl_step (Op_display native) env st = snd (eglGetDisplay env native st)"

fun egl_run :: "(egl_op \<times> egl_env) list \<Rightarrow> egl \<Rightarrow> egl" where
  "egl_run [] st = st"
| "egl_run ((p, env) # ops) st = egl_run ops (egl_step p env st)"

text \<open>Every call's descriptor is fresh and the compositor only configures sizes that fit.\<close>

fun run_ok :: "(egl_op \<times> egl_env) list \<Rightarrow> egl \<Rightarrow> bool" where
  "run_ok [] st \<longleftrightarrow> True"
| "run_ok ((p, env) # ops) st \<longleftrightarrow> env_ok env st \<and> run_ok ops (egl_step p env st)"

text \<open>The wrapper as loaded, in GPU or software mode.\<close>

definition egl_start :: "bool \<Rightarrow> egl" where
  "egl_start gpu = \<lparr>eg_slots = replicate MAX_SHM_WINDOWS zero_window, eg_count = 0, eg_gpu = gpu, eg_init_failed = False,
     eg_ready = False, eg_display = None, eg_compositor = None, eg_wm_base = None, eg_shm = None,
     eg_touch_created = False, eg_touch_surface = None, eg_touch_xdg = None, eg_touch_toplevel = None,
     eg_listeners = Map.empty, eg_next = 0, eg_fds = {}, eg_maps = Map.empty, eg_next_map = 0, eg_fault = False,
     eg_trace = [], eg_suppress = False, eg_gl_loaded = False, eg_mesa_gbm = None, eg_conns = [], eg_drm_fds = {}\<rparr>"

lemma start_inv: "egl_inv (egl_start gpu)"
  by (simp add: egl_inv_def egl_start_def used_def live_def zero_window_def slot_ok_def)

lemma calm_touch:
  assumes env: "env_ok env st0"
  shows "calm st (create_touch_redirect_toplevel env st)"
proof -
  obtain s a where s: "new_proxy (en_surface env) C_create_surface st = (s, a)" by fastforce
  define b where "b = a\<lparr>eg_touch_surface := s\<rparr>"
  have 1: "calm st b" unfolding b_def by (rule calm_trans [OF proxy_calm [OF s] calm_same]) simp_all
  have 2: "calm st (c\<lparr>eg_touch_xdg := x\<rparr>)" if "new_proxy (en_xdg env) k b = (x, c)" for x c k
    by (rule calm_trans [OF calm_trans [OF 1 proxy_calm [OF that]] calm_same]) simp_all
  have 3: "calm st (e\<lparr>eg_touch_toplevel := t\<rparr>)"
    if "new_proxy (en_toplevel env) l (add_listener x L_touch (c\<lparr>eg_touch_xdg := Some x\<rparr>)) = (t, e)"
      "new_proxy (en_xdg env) k b = (Some x, c)" for x c k e t l
    by (rule calm_trans [OF calm_trans [OF calm_trans [OF 2 [OF that(2)] calm_listener] proxy_calm [OF that(1)]] calm_same]) simp_all
  have 4: "calm a ((setup_toplevel t L_touch q env a)\<lparr>eg_touch_created := True\<rparr>)" for a t q
    by (rule calm_trans [OF calm_setup [OF env] calm_same]) simp_all
  show ?thesis
    unfolding create_touch_redirect_toplevel_def Let_def s prod.case b_def [symmetric]
    by (auto split: option.split prod.split intro: 1 2 3 calm_trans [OF 3 4])
qed

lemma step_inv:
  assumes env: "env_ok env st" and inv: "egl_inv st"
  shows "egl_inv (egl_step p env st)"
proof (cases p)
  case (Op_create dpy config)
  obtain c st1 where init: "init_wayland_connection env st = (c, st1)" by fastforce
  have calm: "calm st st1" using calm_init [OF env, of st] by (simp add: init)
  have 1: "egl_inv st1" by (rule calm_inv [OF calm inv])
  have env1: "env_ok env st1" using env calm by (simp add: env_ok_def calm_def)
  have touch: "egl_inv (create_touch_redirect_toplevel env st1)" by (rule calm_inv [OF calm_touch [OF env] 1])
  have log: "egl_inv (egl_log C_real_window (create_touch_redirect_toplevel env st1))" by (rule calm_inv [OF calm_log touch])
  show ?thesis
    unfolding Op_create egl_step.simps eglCreateWindowSurface_def init Let_def
    using touch log 1 create_window_inv [OF env1 1, of dpy config]
    by (cases "create_shm_window env dpy config st1") (simp split: option.split bool.split)
next
  case (Op_swap surface)
  then show ?thesis using swap_inv [OF env inv] by simp
next
  case (Op_destroy surface)
  then show ?thesis using destroy_surface_inv [OF inv] by simp
next
  case Op_initialize
  have "calm st (snd (eglInitialize env st))"
    by (rule calm_same) (simp_all add: eglInitialize_def split: option.split)
  then show ?thesis using Op_initialize calm_inv [OF _ inv] by simp
next
  case (Op_make_current surface)
  have "calm st (snd (eglMakeCurrent env surface st))"
    by (rule calm_same) (simp_all add: eglMakeCurrent_def ensure_gl_funcs_def egl_log_def Let_def)
  then show ?thesis using Op_make_current calm_inv [OF _ inv] by simp
next
  case Op_get_error
  have "calm st (snd (eglGetError env st))"
    by (rule calm_same) (simp_all add: eglGetError_def egl_log_def Let_def)
  then show ?thesis using Op_get_error calm_inv [OF _ inv] by simp
next
  case (Op_platform_display platform native)
  have gbm: "calm a (ensure_mesa_gbm env a)" for a
    by (rule calm_same) (simp_all add: ensure_mesa_gbm_def egl_log_def Let_def)
  have "calm st (snd (eglGetPlatformDisplay env platform native st))"
    unfolding eglGetPlatformDisplay_def Let_def
    by (auto intro: calm_trans [OF calm_trans [OF calm_init [OF env] calm_trans [OF gbm calm_init [OF env]]] calm_log]
      calm_trans [OF calm_init [OF env] calm_log])
  then show ?thesis using Op_platform_display calm_inv [OF _ inv] by simp
next
  case (Op_display native)
  have "calm st (snd (eglGetDisplay env native st))"
    unfolding eglGetDisplay_def Let_def by (auto intro: calm_trans [OF calm_init [OF env] calm_log])
  then show ?thesis using Op_display calm_inv [OF _ inv] by simp
qed

lemma run_inv: "\<lbrakk>egl_inv st; run_ok ops st\<rbrakk> \<Longrightarrow> egl_inv (egl_run ops st)"
  by (induction ops st rule: egl_run.induct) (simp_all add: step_inv)

end
