(* ===== verification/EglLinks.thy ===== *)
theory EglLinks
  imports EglLife
begin

text \<open>
  The other descriptors of the EGL override: those of its Wayland connections and of the render node
  behind its GBM device. Only two functions open or close any.
\<close>

definition connects :: "egl_call list \<Rightarrow> nat list" where
  "connects cs = concat (map (\<lambda>c. case c of C_connect d \<Rightarrow> [d] | _ \<Rightarrow> []) cs)"

text \<open>What the invariant is about.\<close>

definition links :: "egl \<Rightarrow> nat list \<times> int set \<times> nat option \<times> bool \<times> nat option \<times> nat list" where
  "links st = (eg_conns st, eg_drm_fds st, eg_mesa_gbm st, eg_ready st, eg_display st, connects (eg_trace st))"

definition plain :: "egl_call \<Rightarrow> bool" where
  "plain c \<longleftrightarrow> (case c of C_connect d \<Rightarrow> False | _ \<Rightarrow> True)"

lemma links_log [simp]: "plain c \<Longrightarrow> links (egl_log c st) = links st"
  by (cases c) (simp_all add: links_def egl_log_def connects_def plain_def)

lemma links_fields [simp]:
  "links (set_slot i f st) = links st" "links (add_listener p l st) = links st" "links (close_fd fd st) = links st"
  "links (munmap m st) = links st" "links (st\<lparr>eg_fds := fds\<rparr>) = links st" "links (st\<lparr>eg_count := n\<rparr>) = links st"
  "links (st\<lparr>eg_gpu := b\<rparr>) = links st" "links (st\<lparr>eg_init_failed := b\<rparr>) = links st" "links (st\<lparr>eg_suppress := b\<rparr>) = links st"
  "links (st\<lparr>eg_gl_loaded := b\<rparr>) = links st" "links (st\<lparr>eg_maps := ms\<rparr>) = links st" "links (st\<lparr>eg_fault := b\<rparr>) = links st"
  "links (st\<lparr>eg_compositor := p'\<rparr>) = links st" "links (st\<lparr>eg_wm_base := p'\<rparr>) = links st" "links (st\<lparr>eg_shm := p'\<rparr>) = links st"
  "links (st\<lparr>eg_touch_surface := p'\<rparr>) = links st" "links (st\<lparr>eg_touch_xdg := p'\<rparr>) = links st"
  "links (st\<lparr>eg_touch_toplevel := p'\<rparr>) = links st" "links (st\<lparr>eg_touch_created := b\<rparr>) = links st"
  "links (st\<lparr>eg_next := n\<rparr>) = links st"
  by (simp_all add: links_def set_slot_def add_listener_def close_fd_def munmap_def)

lemma plain_calls [simp]:
  "plain (C_get_registry n)" "plain (C_bind n s v k)" "plain C_roundtrip" "plain C_dispatch" "plain C_flush"
  "plain (C_create_surface n)" "plain (C_get_xdg_surface n k)" "plain (C_get_toplevel n k)" "plain (C_set_title n s)"
  "plain (C_set_app_id n s)" "plain (C_commit n)" "plain (C_pong n u)" "plain (C_ack_configure n u)"
  "plain (C_create_pool n a b)" "plain (C_create_buffer n k a b c d)" "plain (C_pool_destroy n)" "plain (C_buffer_destroy n)"
  "plain (C_attach n ob)" "plain (C_damage n a b)" "plain (C_toplevel_destroy n)" "plain (C_xdg_destroy n)"
  "plain (C_surface_destroy n)" "plain (C_create_pbuffer ob a b)" "plain (C_destroy_pbuffer ob)" "plain (C_make_current ob)"
  "plain C_gl_finish" "plain (C_read_pixels a b)" "plain (C_real_swap ob)" "plain C_real_get_error" "plain C_real_window"
  "plain (C_platform_display a ob)" "plain (C_get_display ob)" "plain (C_close_drm a)"
  by (simp_all add: plain_def)

lemma links_new [simp]: "plain (call (eg_next st)) \<Longrightarrow> links (snd (new_proxy ok call st)) = links st"
  by (simp add: new_proxy_def)

lemma links_proxy: "\<lbrakk>new_proxy ok call st = (p, st'); plain (call (eg_next st))\<rbrakk> \<Longrightarrow> links st' = links st"
  using links_new [of call st ok] by simp

lemma links_map: "new_map n st = (m, st') \<Longrightarrow> links st' = links st"
  by (auto simp: new_map_def links_def)

lemma links_global [simp]: "links (registry_global i v ok a b st) = links st"
  by (simp add: registry_global_def split_beta Let_def split: option.split)

lemma links_deliver [simp]: "links (deliver env ev st) = links st"
  by (cases ev) (auto simp: xdg_wm_base_handle_ping_def xdg_surface_handle_configure_def touch_xdg_surface_handle_configure_def
      xdg_toplevel_handle_configure_def xdg_toplevel_handle_close_def buffer_handle_release_def commit_surface_def Let_def
      split: option.split listener.split)

lemma links_events [simp]: "links (fold (deliver env) evs st) = links st"
  by (induction evs arbitrary: st) simp_all

lemma links_loops [simp]: "links (wl_roundtrip env st) = links st" "links (wl_dispatch env st) = links st"
  by (simp_all add: wl_roundtrip_def wl_dispatch_def)

lemma links_toplevel [simp]: "links (setup_toplevel t l s env st) = links st"
  by (simp add: setup_toplevel_def Let_def)

lemma links_touch [simp]: "links (create_touch_redirect_toplevel env st) = links st"
  by (simp add: create_touch_redirect_toplevel_def split_beta Let_def split: option.split)

lemma links_buffer [simp]: "links (destroy_buffer b st) = links st"
  by (simp add: destroy_buffer_def split: option.split)

lemma links_buffers [simp]: "links (snd (create_shm_buffers env i w h st)) = links st"
  by (auto simp: create_shm_buffers_def Let_def dest!: links_proxy links_map split: prod.split option.split)

lemma links_destroy_buffers [simp]: "links (destroy_shm_buffers i st) = links st"
  by (simp add: destroy_shm_buffers_def Let_def split: option.split)

lemma links_window [simp]: "links (snd (create_shm_window env dpy config st)) = links st"
proof -
  have "links st' = links st" if "create_shm_buffers env i w h st = (ok, st')" for env i w h st ok st'
    using links_buffers [of env i w h st] that by simp
  then show ?thesis
    by (auto simp: create_shm_window_def Let_def dest!: links_proxy split: prod.split option.split bool.split)
qed

lemma links_resize [simp]: "links (snd (handle_shm_resize env i st)) = links st"
proof -
  have "links st' = links st" if "create_shm_buffers env i w h st = (ok, st')" for env i w h st ok st'
    using links_buffers [of env i w h st] that by simp
  then show ?thesis by (auto simp: handle_shm_resize_def Let_def split: prod.split bool.split)
qed

lemma links_copy [simp]: "links (map_memcpy dst a src b n st) = links st" "links (gl_read_pixels px w h m st) = links st"
  by (auto simp: map_memcpy_def gl_read_pixels_def Let_def split: option.split)

lemma links_flip [simp]: "links (flip_rows data readback base stride h st) = links st"
proof -
  have "links (fold (flip_row data readback base stride h) xs st) = links st" for xs
    by (induction xs arbitrary: st) (simp_all add: flip_row_def)
  then show ?thesis by (simp add: flip_rows_def)
qed

lemma links_pick [simp]: "links (snd (pick_buffer env i st)) = links st"
  by (simp add: pick_buffer_def Let_def)

lemma links_present [simp]: "links (snd (present_frame env i surface st)) = links st"
proof -
  have "links st' = links st" if "pick_buffer env i st = (idx, st')" for idx st'
    using links_pick [of env i st] that by simp
  then show ?thesis by (auto simp: present_frame_def Let_def split: prod.split)
qed

lemma links_swap [simp]: "links (snd (eglSwapBuffers env surface st)) = links st"
proof -
  have "links st' = links st" if "handle_shm_resize env i st = (ok, st')" for i ok st'
    using links_resize [of env i st] that by simp
  then show ?thesis
    by (auto simp: eglSwapBuffers_def real_swap_def ensure_gl_funcs_def Let_def split: prod.split option.split if_splits)
qed

lemma links_destroy [simp]: "links (snd (eglDestroySurface env surface st)) = links st"
  by (auto simp: eglDestroySurface_def destroy_proxy_def remove_slot_def Let_def split: option.split)

lemma links_small [simp]:
  "links (snd (eglInitialize env st)) = links st" "links (snd (eglMakeCurrent env surface st)) = links st"
  "links (snd (eglGetError env st)) = links st"
  by (auto simp: eglInitialize_def eglMakeCurrent_def eglGetError_def ensure_gl_funcs_def Let_def split: option.split)

subsection \<open>The invariant\<close>

text \<open>
  At most one descriptor of the render node is open, that of the device in use. The open connections
  are all that were made; when the wrapper is ready the newest is the one in use.
\<close>

definition links_inv :: "egl \<Rightarrow> bool" where
  "links_inv st \<longleftrightarrow>
     (if eg_mesa_gbm st = None then eg_drm_fds st = {} else \<exists>fd \<ge> 0. eg_drm_fds st = {fd}) \<and>
     eg_conns st = rev (connects (eg_trace st)) \<and>
     (eg_ready st \<longrightarrow> eg_conns st \<noteq> [] \<and> eg_display st = Some (hd (eg_conns st)))"

lemma links_inv_cong: "links st' = links st \<Longrightarrow> links_inv st' = links_inv st"
  by (simp add: links_def links_inv_def)

lemma init_links:
  assumes "links_inv st"
  shows "links_inv (snd (init_wayland_connection env st))" "eg_mesa_gbm (snd (init_wayland_connection env st)) = eg_mesa_gbm st"
proof -
  obtain d st0 where d: "new_proxy (en_connect env) C_connect st = (d, st0)" by fastforce
  define st1 where "st1 = st0\<lparr>eg_display := d, eg_conns := (case d of None \<Rightarrow> eg_conns st0 | Some c \<Rightarrow> c # eg_conns st0)\<rparr>"
  obtain r st2 where r: "new_proxy (en_registry env) C_get_registry st1 = (r, st2)" by fastforce
  have r2: "links st2 = links st1" using links_proxy [OF r] by simp
  define st3 where "st3 = wl_roundtrip env (add_listener (the r) L_none st2)"
  have r3: "links st3 = links st1" by (simp add: st3_def r2)
  have i1: "links_inv st1 \<and> eg_mesa_gbm st1 = eg_mesa_gbm st" if "\<not> eg_ready st"
    using assms d that
    by (auto simp: st1_def links_inv_def new_proxy_def egl_log_def connects_def split: if_splits)
  have up: "links_inv (st3\<lparr>eg_ready := True\<rparr>) \<and> eg_mesa_gbm (st3\<lparr>eg_ready := True\<rparr>) = eg_mesa_gbm st"
    if "\<not> eg_ready st" "d = Some c" for c
  proof -
    have f: "eg_conns st3 \<noteq> []" "hd (eg_conns st3) = c" "eg_display st3 = Some c" "eg_mesa_gbm st3 = eg_mesa_gbm st1"
      using r3 that(2) by (simp_all add: links_def st1_def)
    have "links_inv st3" using i1 [OF that(1)] links_inv_cong [OF r3] by simp
    then show ?thesis using f i1 [OF that(1)] unfolding links_inv_def by simp
  qed
  have "links_inv (snd (init_wayland_connection env st)) \<and> eg_mesa_gbm (snd (init_wayland_connection env st)) = eg_mesa_gbm st"
  proof (cases "eg_ready st \<or> \<not> en_wayland env")
    case True
    then show ?thesis using assms by (auto simp: init_wayland_connection_def)
  next
    case False
    then have n: "\<not> eg_ready st" by simp
    have same: "links_inv s \<and> eg_mesa_gbm s = eg_mesa_gbm st" if "links s = links st1" for s
      using i1 [OF n] that links_inv_cong [OF that] by (simp add: links_def)
    have st1: "links_inv st1 \<and> eg_mesa_gbm st1 = eg_mesa_gbm st" by (rule i1 [OF n])
    have e: "init_wayland_connection env st =
        (if d = None then (False, st1)
         else case r of None \<Rightarrow> (False, st2)
           | Some reg \<Rightarrow> if eg_compositor st3 = None then (False, st3) else if eg_wm_base st3 = None then (False, st3)
               else if \<not> eg_gpu st3 \<and> eg_shm st3 = None then (False, st3) else (True, st3\<lparr>eg_ready := True\<rparr>))"
      using False r unfolding init_wayland_connection_def Let_def d prod.case st1_def [symmetric] st3_def
      by (cases r) (simp_all add: st1_def [symmetric])
    show ?thesis
    proof (cases d)
      case None
      then show ?thesis using e st1 by simp
    next
      case (Some c)
      then show ?thesis using e same [OF r2] same [OF r3] up [OF n Some] by (cases r) simp_all
    qed
  qed
  then show "links_inv (snd (init_wayland_connection env st))"
    "eg_mesa_gbm (snd (init_wayland_connection env st)) = eg_mesa_gbm st" by simp_all
qed

lemma gbm_links: "links_inv st \<Longrightarrow> links_inv (ensure_mesa_gbm env st)"
  by (auto simp: ensure_mesa_gbm_def links_inv_def Let_def egl_log_def connects_def)

lemma step_links: "links_inv st \<Longrightarrow> links_inv (egl_step p env st)"
proof (cases p)
  case (Op_create dpy config)
  assume inv: "links_inv st"
  obtain c st1 where i: "init_wayland_connection env st = (c, st1)" by fastforce
  have st1: "links_inv st1" using init_links(1) [OF inv, of env] i by simp
  have w: "links st2 = links st1" if "create_shm_window env dpy config st1 = (r, st2)" for r st2
    using links_window [of env dpy config st1] that by simp
  have "links (snd (eglCreateWindowSurface env dpy config st)) = links st1"
    using i w by (auto simp: eglCreateWindowSurface_def Let_def split: bool.split prod.split option.split)
  then show ?thesis using Op_create st1 links_inv_cong [of "snd (eglCreateWindowSurface env dpy config st)" st1] by simp
next
  case (Op_platform_display platform native)
  assume inv: "links_inv st"
  let ?a = "ensure_mesa_gbm env (snd (init_wayland_connection env st))"
  have "links_inv (snd (init_wayland_connection env ?a))" using inv by (intro init_links(1) gbm_links)
  moreover have "links_inv (egl_log c s) = links_inv s" if "plain c" for c s by (rule links_inv_cong) (simp add: that)
  ultimately show ?thesis using Op_platform_display inv init_links(1) [OF inv, of env]
    by (simp add: eglGetPlatformDisplay_def Let_def)
next
  case (Op_display native)
  assume inv: "links_inv st"
  have "links_inv (egl_log c s) = links_inv s" if "plain c" for c s by (rule links_inv_cong) (simp add: that)
  then show ?thesis using Op_display inv init_links(1) [OF inv, of env] by (simp add: eglGetDisplay_def Let_def)
qed (use links_inv_cong [of "egl_step p env st" st] in simp_all)

lemma start_links: "links_inv (egl_start gpu)"
  by (simp add: links_inv_def egl_start_def connects_def)

lemma run_links: "links_inv st \<Longrightarrow> links_inv (egl_run ops st)"
  by (induction ops st rule: egl_run.induct) (simp_all add: step_links)

end
