(* ===== verification/EglProps.thy ===== *)
theory EglProps
  imports EglLinks
begin

text \<open>
  What the software-mode windows guarantee: no misuse of a descriptor or mapping over any sequence of
  calls, the frame a swap presents, and two defects around resizing and destroying windows.
\<close>

lemma sum_member_iff: "x \<in># (\<Sum>w\<leftarrow>xs. f w) \<longleftrightarrow> (\<exists>w \<in> set xs. x \<in># f w)"
  by (induction xs) auto

lemma inv_live_iff: "egl_inv st \<Longrightarrow> x \<in> live st \<longleftrightarrow> (\<exists>w \<in> set (used st). x \<in># res_of w)"
proof -
  assume inv: "egl_inv st"
  then have "(\<Sum>w\<leftarrow>used st. res_of w) = mset_set (live st)" "finite (live st)" by (simp_all add: egl_inv_def)
  then have "x \<in> live st \<longleftrightarrow> x \<in># (\<Sum>w\<leftarrow>used st. res_of w)" by simp
  then show ?thesis by (simp only: sum_member_iff)
qed

lemma res_of_mem: "Inl f \<in># res_of w \<longleftrightarrow> sw_fd w = f \<and> 0 \<le> f"
  "Inr m \<in># res_of w \<longleftrightarrow> sw_data w = Some m \<or> sw_readback w = Some m"
  by (auto simp: res_of_def split: option.splits)

section \<open>Properties\<close>

text \<open>
  C31: Descriptors and memory over any sequence of the intercepted calls in which each new memory file
  is fresh and the compositor configures sizes whose two frames fit 31 bits. No memory file or mapping
  is closed twice and no byte outside a mapping is touched; at every point the open memory files and
  mappings are exactly those of the windows in use, so no failed creation, failed resize or destruction
  leaves one. Beside them the wrapper holds only two kinds of descriptors: that of the render node,
  exactly one while there is a GBM device and none otherwise (it is closed again when the device cannot
  be made), and those of its Wayland connections. Of these none is ever closed: the open ones are all
  that were ever made, so each attempt that fails after connecting leaves one behind, and once the
  wrapper is ready the newest is the one it uses.
\<close>

theorem egl_memory_safe:
  assumes "run_ok ops (egl_start gpu)"
  shows "let st = egl_run ops (egl_start gpu); ws = take (eg_count st) (eg_slots st) in
    \<not> eg_fault st \<and> eg_count st \<le> MAX_SHM_WINDOWS \<and> eg_fds st = {fd. \<exists>w \<in> set ws. sw_fd w = fd \<and> 0 \<le> fd} \<and>
    dom (eg_maps st) = {m. \<exists>w \<in> set ws. sw_data w = Some m \<or> sw_readback w = Some m} \<and>
    (if eg_mesa_gbm st = None then eg_drm_fds st = {} else \<exists>fd \<ge> 0. eg_drm_fds st = {fd}) \<and>
    eg_conns st = rev (connects (eg_trace st)) \<and>
    (eg_ready st \<longrightarrow> eg_conns st \<noteq> [] \<and> eg_display st = Some (hd (eg_conns st)))"
proof -
  let ?st = "egl_run ops (egl_start gpu)"
  have inv: "egl_inv ?st" by (rule run_inv [OF start_inv assms])
  have "eg_fds ?st = {fd. \<exists>w \<in> set (used ?st). sw_fd w = fd \<and> 0 \<le> fd}"
    using inv_live_iff [OF inv, of "Inl _"] by (auto simp: res_of_mem)
  moreover have "dom (eg_maps ?st) = {m. \<exists>w \<in> set (used ?st). sw_data w = Some m \<or> sw_readback w = Some m}"
    using inv_live_iff [OF inv, of "Inr _"] by (auto simp: res_of_mem dom_def)
  moreover have "\<not> eg_fault ?st" "eg_count ?st \<le> MAX_SHM_WINDOWS" using inv by (simp_all add: egl_inv_def)
  ultimately show ?thesis
    using run_links [OF start_links, of ops gpu, unfolded links_inv_def] unfolding Let_def used_def by blast
qed

text \<open>An environment in which every call succeeds.\<close>

definition sample_env :: "int \<Rightarrow> nat option \<Rightarrow> wl_event list \<Rightarrow> egl_env" where
  "sample_env fd pbuffer events = \<lparr>en_wayland = True, en_dispatch_fn = True, en_flush_fn = True, en_compositor_iface = True,
     en_shm_iface = True, en_pool_iface = True, en_pbuffer_fn = True, en_destroy_fn = True, en_make_current_fn = True,
     en_swap_fn = True, en_get_error_fn = True, en_gl = True, en_connect = True, en_registry = True, en_surface = True,
     en_xdg = True, en_toplevel = True, en_memfd = fd, en_truncate = True, en_mmap_shm = True, en_pool = True,
     en_buffer = (\<lambda>_. True), en_mmap_readback = True, en_pbuffer = pbuffer, en_roundtrip = events,
     en_dispatch = [], en_pixels = of_nat, en_real_swap = True, en_real_destroy = True, en_window_fn = True, en_window = None,
     en_platform_fn = True, en_get_display_fn = True, en_egl_display = None, en_gbm_fn = False, en_drm_fd = -1,
     en_gbm_device = None, en_initialize = Some True, en_make_current = True, en_error = 0x3000\<rparr>"

definition sample_globals :: "wl_event list" where
  "sample_globals = [Ev_global 1 ''wl_compositor'' 5 True, Ev_global 2 ''xdg_wm_base'' 3 True, Ev_global 3 ''wl_shm'' 1 True]"

lemmas egl_eval = eglCreateWindowSurface_def init_wayland_connection_def create_shm_window_def setup_toplevel_def
  create_shm_buffers_def wl_roundtrip_def registry_global_def egl_prims zero_window_def Let_def MAX_SHM_WINDOWS_def
  commit_surface_def size_mul_def DEFAULT_WIDTH_def DEFAULT_HEIGHT_def

lemma sample_env_fields [simp]: "en_pbuffer (sample_env fd pbuffer events) = pbuffer" "en_destroy_fn (sample_env fd pbuffer events)"
  "en_gl (sample_env fd pbuffer events)"
  by (simp_all add: sample_env_def)

lemma sample_ok: "env_ok (sample_env fd pbuffer sample_globals) st \<longleftrightarrow> fd \<notin> eg_fds st"
  by (simp add: env_ok_def sample_env_def sample_globals_def event_ok_def)

theorem egl_memory_safe_witness:
  "\<not> eg_fault (egl_run [(Op_create 1 7, sample_env 5 (Some 70) sample_globals), (Op_swap (Some 70), sample_env 6 (Some 71) sample_globals)]
     (egl_start False))"
proof -
  have "eg_fds (egl_step (Op_create 1 7) (sample_env 5 (Some 70) sample_globals) (egl_start False)) = {5}"
    by (simp add: egl_eval sample_env_def sample_globals_def egl_start_def replicate_eqI)
  then show ?thesis
    using egl_memory_safe [of "[(Op_create 1 7, sample_env 5 (Some 70) sample_globals), (Op_swap (Some 70), sample_env 6 (Some 71) sample_globals)]" False]
    by (simp add: sample_ok Let_def egl_start_def)
qed

text \<open>Byte \<open>k\<close> of one of a window's two frames.\<close>

definition frame_byte :: "egl \<Rightarrow> shm_window \<Rightarrow> nat \<Rightarrow> nat \<Rightarrow> u8" where
  "frame_byte st w idx k =
     snd (the (eg_maps st (the (sw_data w)))) (idx * frame_size (sw_width w) (sw_height w) + k)"

text \<open>
  C32: A swap on a managed surface whose current frame the compositor has released fills that frame
  with the rendered image, its rows in reverse order, and leaves the other frame (which the
  compositor may be reading) as it was; it attaches, damages and commits that frame's buffer, marks
  it busy, makes the other frame current, and touches no other window.
\<close>

theorem swap_presents_flipped_frame:
  assumes inv: "egl_inv st" and gpu: "\<not> eg_gpu st" and f: "find_shm_window surface st = Some i"
    and nr: "\<not> sw_needs_resize (slot i st)" and gl: "en_gl env"
    and free: "\<not> sw_busy (slot i st) ! sw_current (slot i st)"
  shows "let w = slot i st; idx = sw_current w; n = frame_size (sw_width w) (sw_height w);
      st' = snd (eglSwapBuffers env surface st) in
    fst (eglSwapBuffers env surface st) \<and> \<not> eg_fault st' \<and>
    (\<forall>k < n. frame_byte st' w idx k = en_pixels env (flip_offset (nat (sw_width w * 4)) (nat (sw_height w)) k)) \<and>
    (\<forall>k < n. frame_byte st' w (1 - idx) k = frame_byte st w (1 - idx) k) \<and>
    eg_slots st' = (eg_slots st)[i := w\<lparr>sw_busy := (sw_busy w)[idx := True], sw_current := 1 - idx\<rparr>] \<and>
    eg_trace st' = eg_trace st @ present_trace env surface w idx"
proof -
  let ?w = "eg_slots st ! i" and ?st = "ensure_gl_funcs env st"
  have i: "i < eg_count st" by (rule find_shm_window_some [OF f])
  have swap: "eglSwapBuffers env surface st = present_frame env i surface ?st"
    using gpu f nr gl by (simp add: eglSwapBuffers_def Let_def)
  have calm: "calm st ?st" and gst: "eg_slots ?st = eg_slots st" "eg_maps ?st = eg_maps st" "eg_fault ?st = eg_fault st"
    "eg_trace ?st = eg_trace st"
    by (auto intro: calm_same simp: ensure_gl_funcs_def)
  have len: "i < length (eg_slots st)" and ok: "slot_ok ?w" using inv_but_slot [OF open_slot [OF inv i]] by blast+
  then have idx: "sw_current ?w < 2" by (simp add: slot_ok_def)
  have pick: "pick_buffer env i ?st = (sw_current ?w, ?st)"
    using free by (simp add: pick_buffer_def slot_def Let_def gst)
  obtain d r df rb where w: "sw_data ?w = Some d" "sw_readback ?w = Some r" "d \<noteq> r"
    "eg_maps st d = Some (2 * frame_size (sw_width ?w) (sw_height ?w), df)"
    "eg_maps st r = Some (frame_size (sw_width ?w) (sw_height ?w), rb)" "fits (sw_width ?w) (sw_height ?w)"
    by (rule window_maps [OF inv i]) (use nr in \<open>simp add: slot_def\<close>)
  note spec = present_frame_spec [of env i ?st "sw_current ?w" ?st d df r rb surface, unfolded gst,
      OF pick idx len calm_refl w(1,4,2,5,3,6)]
  have data: "eg_maps (snd (eglSwapBuffers env surface st)) d = Some (2 * frame_size (sw_width ?w) (sw_height ?w),
      flipped (en_pixels env) (sw_width ?w) (sw_height ?w) (sw_current ?w) df)"
    unfolding swap spec(2) by simp
  have cur: "sw_current ?w = 0 \<or> sw_current ?w = 1" using idx by linarith
  show ?thesis
    unfolding Let_def slot_def frame_byte_def w(1) option.sel data w(4)
    using cur spec inv by (auto simp: swap egl_inv_def flipped_def Let_def set_slot_def gst)
qed

text \<open>Two windows of one pixel, the second with a frame on screen.\<close>

definition sample_shm :: "nat \<Rightarrow> int \<Rightarrow> nat \<Rightarrow> nat \<Rightarrow> nat \<Rightarrow> bool \<Rightarrow> shm_window" where
  "sample_shm surface fd m pbuffer b busy = zero_window\<lparr>sw_surface := Some surface, sw_buffers := [Some b, Some (b + 1)],
     sw_data := Some m, sw_fd := fd, sw_busy := [busy, False], sw_readback := Some (m + 1), sw_readback_size := 4,
     sw_pbuffer := Some pbuffer, sw_width := 1, sw_height := 1, sw_total := 8\<rparr>"

definition sample_two :: egl where
  "sample_two = (egl_start False)
     \<lparr>eg_slots := [sample_shm 10 5 0 70 12 False, sample_shm 20 6 2 71 22 True] @ replicate 6 zero_window, eg_count := 2,
      eg_ready := True, eg_display := Some 0, eg_compositor := Some 1, eg_wm_base := Some 2, eg_shm := Some 3,
      eg_listeners := [12 \<mapsto> L_window 0, 13 \<mapsto> L_window 0, 22 \<mapsto> L_window 1, 23 \<mapsto> L_window 1], eg_next := 24, eg_fds := {5, 6},
      eg_maps := [0 \<mapsto> (8, \<lambda>_. 0), 1 \<mapsto> (4, \<lambda>_. 0), 2 \<mapsto> (8, \<lambda>_. 0), 3 \<mapsto> (4, \<lambda>_. 0)], eg_next_map := 4\<rparr>"

lemma sample_two_eval:
  "eg_gpu sample_two = False" "eg_count sample_two = 2" "eg_slots sample_two ! 0 = sample_shm 10 5 0 70 12 False"
  "eg_slots sample_two ! Suc 0 = sample_shm 20 6 2 71 22 True" "eg_listeners sample_two 22 = Some (L_window 1)"
  "eg_fds sample_two = {5, 6}" "eg_fault sample_two = False" "length (eg_slots sample_two) = 8"
  by (simp_all add: sample_two_def egl_start_def)

lemma sample_shm_fields [simp]:
  "sw_pbuffer (sample_shm s fd m p b busy) = Some p" "sw_needs_resize (sample_shm s fd m p b busy) = False"
  "sw_current (sample_shm s fd m p b busy) = 0" "sw_busy (sample_shm s fd m p b busy) = [busy, False]"
  "sw_buffers (sample_shm s fd m p b busy) = [Some b, Some (b + 1)]"
  by (simp_all add: sample_shm_def zero_window_def)

lemma sample_two_inv: "egl_inv sample_two"
proof -
  have ok: "slot_ok (sample_shm s fd m p b busy)" "slot_ok zero_window"
    and res: "0 \<le> fd \<Longrightarrow> res_of (sample_shm s fd m p b busy) = {#Inl fd, Inr m, Inr (m + 1)#}" for s fd m p b busy
    by (simp_all add: sample_shm_def zero_window_def slot_ok_def res_of_def)
  have win: "\<lbrakk>0 \<le> fd; map_size st m = Some 8; map_size st (m + 1) = Some 4\<rbrakk> \<Longrightarrow> win_ok st (sample_shm s fd m p b busy)"
    for st s fd m p b busy
    by (simp add: sample_shm_def zero_window_def win_ok_def fits_def frame_size_def)
  have used: "used sample_two = [sample_shm 10 5 0 70 12 False, sample_shm 20 6 2 71 22 True]"
    by (simp add: used_def sample_two_def)
  have live: "live sample_two = set [Inl 5, Inr 0, Inr 1, Inl 6, Inr 2, Inr 3]"
    by (rule live_eqI) (auto simp: sample_two_def split: if_splits)
  show ?thesis
    unfolding egl_inv_def used live
    using ok by (simp add: res win map_size_def sample_two_def egl_start_def MAX_SHM_WINDOWS_def mset_set.insert_remove)
qed

lemma sample_two_find: "find_shm_window (Some 70) sample_two = Some 0"
  by (simp add: find_shm_window_def sample_two_eval upt_conv_Cons)

theorem swap_presents_flipped_frame_witness:
  "let w = slot 0 sample_two; st' = snd (eglSwapBuffers (sample_env 7 None []) (Some 70) sample_two) in
     \<not> eg_fault st' \<and> eg_slots st' = (eg_slots sample_two)[0 := w\<lparr>sw_busy := (sw_busy w)[0 := True], sw_current := 1\<rparr>]"
  using swap_presents_flipped_frame [OF sample_two_inv, of "Some 70" 0 "sample_env 7 None []"]
  by (simp add: sample_two_find sample_two_eval slot_def Let_def)

lemma present_pbuffers:
  assumes env: "env_ok env st0" and inv: "egl_inv st" and i: "i < eg_count st" and nr: "\<not> sw_needs_resize (eg_slots st ! i)"
  shows "eg_count (snd (present_frame env i surface st)) = eg_count st"
    and "j < length (eg_slots st) \<Longrightarrow> sw_pbuffer (eg_slots (snd (present_frame env i surface st)) ! j) = sw_pbuffer (eg_slots st ! j)"
proof -
  let ?w = "eg_slots st ! i"
  have len: "i < length (eg_slots st)" and ok: "slot_ok ?w" using inv_but_slot [OF open_slot [OF inv i]] by blast+
  obtain idx st1 where pick: "pick_buffer env i st = (idx, st1)" by fastforce
  have idx: "idx < 2" and calm: "calm st st1" by (rule pick_buffer_spec [OF env ok len pick])+
  obtain d r df rb where w: "sw_data ?w = Some d" "sw_readback ?w = Some r" "d \<noteq> r"
    "eg_maps st d = Some (2 * frame_size (sw_width ?w) (sw_height ?w), df)"
    "eg_maps st r = Some (frame_size (sw_width ?w) (sw_height ?w), rb)" "fits (sw_width ?w) (sw_height ?w)"
    by (rule window_maps [OF inv i nr])
  note spec = present_frame_spec [OF pick idx len calm w(1,4,2,5,3,6), of surface]
  show "eg_count (snd (present_frame env i surface st)) = eg_count st" by (rule spec(5))
  assume j: "j < length (eg_slots st)"
  have c: "core (eg_slots st1 ! j) = core (eg_slots st ! j)" and "length (eg_slots st1) = length (eg_slots st)"
    using calm j by (simp_all add: calm_def list_all2_conv_all_nth calm_win_def)
  then show "sw_pbuffer (eg_slots (snd (present_frame env i surface st)) ! j) = sw_pbuffer (eg_slots st ! j)"
    unfolding spec(1) using core_eqD(9) [OF c] j by (cases "j = i") (simp_all add: set_slot_nth)
qed

text \<open>
  C33: A resize gives the window a new pbuffer, but the application keeps the handle it was returned
  at creation. Once the swap that resizes has returned success, that handle names no window: every
  later swap of it goes straight to Mesa's pbuffer swap, and nothing is presented again.
\<close>

theorem resize_loses_surface:
  assumes inv: "egl_inv st" and env: "env_ok env st" and gpu: "\<not> eg_gpu st" and f: "find_shm_window surface st = Some i"
    and nr: "sw_needs_resize (slot i st)" and fresh: "en_pbuffer env \<noteq> surface"
    and unique: "\<And>j. \<lbrakk>j < eg_count st; sw_pbuffer (slot j st) = surface\<rbrakk> \<Longrightarrow> j = i"
    and ok: "fst (eglSwapBuffers env surface st)"
  shows "let st' = snd (eglSwapBuffers env surface st) in
    find_shm_window surface st' = None \<and> sw_pbuffer (slot i st') = en_pbuffer env \<and>
    eglSwapBuffers env' surface st' = real_swap env' surface st'"
proof -
  have i: "i < eg_count st" by (rule find_shm_window_some [OF f])
  have nr': "sw_needs_resize (eg_slots st ! i)" using nr by (simp add: slot_def)
  obtain okr st1 where r: "handle_shm_resize env i st = (okr, st1)" by fastforce
  have okr: okr and gl: "en_gl env"
    using ok unfolding eglSwapBuffers_def if_not_P [OF gpu] f option.case if_P [OF nr] r Let_def prod.case
    by (auto split: if_splits)
  note 1 = resize_inv [OF env inv i nr' r]
  note sl = resize_slots [OF env inv i nr' r [unfolded eqTrueI [OF okr]]]
  define st2 where "st2 = (if sw_needs_resize (slot i st) \<and> sw_pbuffer (slot i st1) \<noteq> sw_pbuffer (slot i st) \<and> en_make_current_fn env
     then egl_log (C_make_current (sw_pbuffer (slot i st1))) st1 else st1)"
  define st3 where "st3 = ensure_gl_funcs env st2"
  have c: "calm st1 st3"
    unfolding st3_def by (rule calm_same) (simp_all add: st2_def ensure_gl_funcs_def egl_log_def)
  have s3: "eg_slots st3 = eg_slots st1" "eg_count st3 = eg_count st"
    using 1(2) by (simp_all add: st3_def st2_def ensure_gl_funcs_def egl_log_def)
  have swap: "eglSwapBuffers env surface st = present_frame env i surface st3"
    unfolding eglSwapBuffers_def if_not_P [OF gpu] f option.case if_P [OF nr] r Let_def prod.case
    using okr gl nr by (simp add: st2_def st3_def)
  note pr = present_pbuffers [OF env calm_inv [OF c 1(1)], where i = i and surface = surface]
  have nr3: "\<not> sw_needs_resize (eg_slots st3 ! i)" and i3: "i < eg_count st3" using 1 okr i s3 by simp_all
  let ?st = "snd (eglSwapBuffers env surface st)"
  have len: "eg_count st \<le> length (eg_slots st3)" using calm_inv [OF c 1(1)] s3 by (simp add: egl_inv_def)
  have cnt: "eg_count ?st = eg_count st" unfolding swap using pr(1) [OF i3 nr3] s3 by simp
  have pb: "sw_pbuffer (eg_slots ?st ! j) = sw_pbuffer (eg_slots st1 ! j)" if "j < eg_count st" for j
    unfolding swap using pr(2) [OF i3 nr3, of j] that len s3 by simp
  have "sw_pbuffer (eg_slots ?st ! j) \<noteq> surface" if j: "j < eg_count st" for j
    using pb [OF j] sl(1) sl(3) [of j] fresh unique [OF j] by (cases "j = i") (auto simp: slot_def)
  then have none: "find_shm_window surface ?st = None" by (simp add: find_shm_window_def find_None_iff cnt)
  then show ?thesis using pb [OF i] sl(1) by (simp add: Let_def slot_def eglSwapBuffers_def)
qed

text \<open>The first of them after a configure of 800 by 600.\<close>

definition sample_resize :: egl where
  "sample_resize = set_slot 0 (\<lambda>w. w\<lparr>sw_pending_width := 800, sw_pending_height := 600, sw_needs_resize := True\<rparr>) sample_two"

lemma sample_resize_inv: "egl_inv sample_resize"
proof -
  have "calm sample_two sample_resize"
    unfolding sample_resize_def by (rule calm_set_slot) (simp add: calm_win_def slot_ok_def fits_def)
  then show ?thesis by (rule calm_inv [OF _ sample_two_inv])
qed

lemma sample_resize_eval:
  "eg_gpu sample_resize = False" "eg_count sample_resize = 2" "sw_pbuffer (eg_slots sample_resize ! 0) = Some 70"
  "sw_pbuffer (eg_slots sample_resize ! Suc 0) = Some 71"
  "sw_needs_resize (eg_slots sample_resize ! 0)" "eg_fds sample_resize = {5, 6}"
  by (simp_all add: sample_resize_def set_slot_def sample_two_eval)

lemma sample_resize_find: "find_shm_window (Some 70) sample_resize = Some 0"
  by (simp add: find_shm_window_def sample_resize_eval upt_conv_Cons)

lemma sample_resize_ok: "fst (eglSwapBuffers (sample_env 7 (Some 72) sample_globals) (Some 70) sample_resize)"
proof -
  obtain ok st1 where r: "handle_shm_resize (sample_env 7 (Some 72) sample_globals) 0 sample_resize = (ok, st1)" by fastforce
  have "fst (handle_shm_resize (sample_env 7 (Some 72) sample_globals) 0 sample_resize)"
    by (simp add: sample_resize_def sample_two_def sample_shm_def egl_prims zero_window_def Let_def sample_env_def
        create_shm_buffers_def handle_shm_resize_def destroy_shm_buffers_def destroy_buffer_def)
  then have ok using r by simp
  then show ?thesis
    by (simp add: eglSwapBuffers_def sample_resize_eval sample_resize_find slot_def r Let_def present_frame_def split: prod.split)
qed

theorem resize_loses_surface_witness:
  "find_shm_window (Some 70) (snd (eglSwapBuffers (sample_env 7 (Some 72) sample_globals) (Some 70) sample_resize)) = None"
proof -
  have "j = 0" if "j < eg_count sample_resize" "sw_pbuffer (slot j sample_resize) = Some 70" for j
    using that by (cases j) (auto simp: sample_resize_eval slot_def less_Suc_eq numeral_2_eq_2)
  then show ?thesis
    using resize_loses_surface [OF sample_resize_inv, of "sample_env 7 (Some 72) sample_globals" "Some 70" 0 undefined]
      sample_resize_ok
    by (simp add: sample_resize_find sample_resize_eval slot_def sample_ok Let_def)
qed

lemma listeners_kept [simp]:
  "eg_listeners (set_slot i f st) = eg_listeners st" "eg_listeners (egl_log c st) = eg_listeners st"
  "eg_listeners (munmap m st) = eg_listeners st" "eg_listeners (close_fd fd st) = eg_listeners st"
  "eg_listeners (destroy_buffer b st) = eg_listeners st" "eg_listeners (remove_slot i st) = eg_listeners st"
  by (simp_all add: set_slot_def egl_log_def munmap_def close_fd_def destroy_buffer_def remove_slot_def Let_def split: option.split)

lemma destroy_listeners [simp]:
  "eg_listeners (destroy_shm_buffers i st) = eg_listeners st" "eg_listeners (destroy_objects i st) = eg_listeners st"
  by (simp_all add: destroy_shm_buffers_def destroy_objects_def destroy_proxy_def Let_def split: option.split)

lemma destroy_objects_other:
  "j \<noteq> i \<Longrightarrow> eg_slots (destroy_objects i st) ! j = eg_slots st ! j"
  "length (eg_slots (destroy_objects i st)) = length (eg_slots st)" "eg_count (destroy_objects i st) = eg_count st"
  by (auto simp: destroy_objects_def destroy_proxy_def set_slot_nth split: option.split)

text \<open>
  C34: Destroying a window that is not the last moves the last one into its place, but the listeners
  of the moved window's buffers keep the slot they were registered with. A release of one of its
  frames then reaches the emptied slot: it changes nothing, and the frame stays marked busy.
\<close>

theorem moved_window_listener:
  assumes inv: "egl_inv st" and gpu: "\<not> eg_gpu st" and fn: "en_destroy_fn env" and f: "find_shm_window surface st = Some i"
    and last: "i < eg_count st - 1" and k: "k < 2" and b: "sw_buffers (slot (eg_count st - 1) st) ! k = Some b"
    and listener: "eg_listeners st b = Some (L_window (eg_count st - 1))"
    and busy: "sw_busy (slot (eg_count st - 1) st) ! k"
  shows "let st' = snd (eglDestroySurface env surface st) in
    slot i st' = slot (eg_count st - 1) st \<and> deliver env' (Ev_release b) st' = st' \<and> sw_busy (slot i st') ! k"
proof -
  let ?l = "eg_count st - 1"
  have i: "i < eg_count st" by (rule find_shm_window_some [OF f])
  note a = destroy_frame [OF open_slot [OF inv i]]
  define d where "d = destroy_objects i (destroy_shm_buffers i st)"
  have d: "eg_slots d ! ?l = eg_slots st ! ?l" "length (eg_slots d) = length (eg_slots st)" "eg_count d = eg_count st"
    "eg_listeners d = eg_listeners st"
    using a(2) last by (simp_all add: d_def destroy_objects_other only_slot_def)
  let ?st = "snd (eglDestroySurface env surface st)"
  have st: "?st = egl_log (C_destroy_pbuffer surface) (remove_slot i d)"
    using gpu fn f by (simp add: eglDestroySurface_def Let_def d_def destroy_objects_def)
  have "eg_count st \<le> length (eg_slots st)" using inv by (simp add: egl_inv_def)
  then have len: "?l < length (eg_slots st)" using last by linarith
  have slots: "eg_slots ?st = ((eg_slots d)[i := eg_slots st ! ?l])[?l := zero_window]"
    unfolding st using last d by (simp add: remove_slot_def Let_def set_slot_def)
  have moved: "eg_slots ?st ! i = eg_slots st ! ?l" and zero: "eg_slots ?st ! ?l = zero_window"
    using last len d(2) by (simp_all add: slots)
  have "eg_listeners ?st b = Some (L_window ?l)" using listener d(4) by (simp add: st)
  then have "deliver env' (Ev_release b) ?st = buffer_handle_release ?l b ?st" by simp
  also have "\<dots> = ?st" unfolding buffer_handle_release_def set_slot_def zero by (simp add: zero_window_def slots)
  finally show ?thesis using moved busy by (simp add: Let_def slot_def)
qed

theorem moved_window_listener_witness:
  "let st' = snd (eglDestroySurface (sample_env 7 None []) (Some 70) sample_two) in
     sw_busy (slot 0 (deliver (sample_env 7 None []) (Ev_release 22) st')) ! 0"
  using moved_window_listener [OF sample_two_inv, of "sample_env 7 None []" "Some 70" 0 0 22 "sample_env 7 None []"]
  by (simp add: sample_two_find sample_two_eval slot_def Let_def del: deliver.simps)

end
