(* ===== verification/EglSymbols.thy ===== *)
theory EglSymbols
  imports EglText
begin

text \<open>
  What \<^verbatim>\<open>egl_override.c\<close> takes from other libraries and hands to them: the functions its constructor
  resolves, their lazy resolution at a call, the tables of the xdg-shell protocol it gives libwayland,
  and the integers it logs.
\<close>

subsection \<open>The constructor\<close>

text \<open>
  The dynamic loader: which libraries \<^verbatim>\<open>dlopen\<close> finds, which symbols \<^verbatim>\<open>dlsym\<close> finds in them, and
  which functions Mesa's \<^verbatim>\<open>eglGetProcAddress\<close> knows.
\<close>

record loader =
  ld_open :: "string \<Rightarrow> bool"
  ld_sym :: "string \<Rightarrow> string \<Rightarrow> bool"
  ld_proc :: "string \<Rightarrow> bool"

text \<open>The statics: the pointers that are set.\<close>

record symbols =
  sy_get_proc :: bool
  sy_egl :: "string list"
  sy_wl :: "string list"
  sy_ifaces :: "string list"
  sy_gpu :: bool
  sy_gbm :: "string list"

definition no_symbols :: symbols where
  "no_symbols = \<lparr>sy_get_proc = False, sy_egl = [], sy_wl = [], sy_ifaces = [], sy_gpu = False, sy_gbm = []\<rparr>"

definition MESA_EGL :: string where "MESA_EGL = ''/usr/lib/aarch64-linux-gnu/libEGL.so.1''"
definition MESA_EGL_VENDOR :: string where "MESA_EGL_VENDOR = ''/usr/lib/aarch64-linux-gnu/libEGL_mesa.so.0''"
definition WAYLAND_CLIENT :: string where "WAYLAND_CLIENT = ''libwayland-client.so.0''"
definition MESA_GBM :: string where "MESA_GBM = ''/usr/lib/aarch64-linux-gnu/libgbm.so.1''"
definition ANY_GBM :: string where "ANY_GBM = ''libgbm.so.1''"

definition egl_functions :: "string list" where
  "egl_functions = [''eglGetPlatformDisplay'', ''eglGetPlatformDisplayEXT'', ''eglGetDisplay'', ''eglChooseConfig'',
     ''eglGetConfigAttrib'', ''eglCreateWindowSurface'', ''eglCreatePlatformWindowSurface'',
     ''eglCreatePlatformWindowSurfaceEXT'', ''eglCreatePbufferSurface'', ''eglDestroySurface'', ''eglQuerySurface'',
     ''eglSwapBuffers'', ''eglMakeCurrent'', ''eglInitialize'', ''eglCreateContext'', ''eglGetError'', ''eglQueryString'']"

definition wl_functions :: "string list" where
  "wl_functions = [''wl_display_connect'', ''wl_display_disconnect'', ''wl_display_roundtrip'', ''wl_display_dispatch'',
     ''wl_display_flush'', ''wl_proxy_marshal_flags'', ''wl_proxy_add_listener'', ''wl_proxy_get_version'']"

definition wl_interfaces :: "string list" where
  "wl_interfaces = [''wl_registry_interface'', ''wl_compositor_interface'', ''wl_surface_interface'',
     ''wl_shm_interface'', ''wl_shm_pool_interface'', ''wl_buffer_interface'']"

definition gbm_functions :: "string list" where
  "gbm_functions = [''gbm_create_device'', ''gbm_device_destroy'']"

text \<open>The first library of a list that opens.\<close>

definition first_open :: "loader \<Rightarrow> string list \<Rightarrow> string option" where
  "first_open ld names = find (ld_open ld) names"

definition load_symbols :: "loader \<Rightarrow> string option \<Rightarrow> symbols \<Rightarrow> symbols" where
  "load_symbols ld mode sy =
     (case first_open ld [MESA_EGL, MESA_EGL_VENDOR] of
        None \<Rightarrow> sy
      | Some egl \<Rightarrow>
          if \<not> ld_sym ld egl ''eglGetProcAddress'' then sy
          else
            let sy1 = sy\<lparr>sy_get_proc := True, sy_egl := filter (ld_proc ld) egl_functions\<rparr>;
                sy2 = (if ld_open ld WAYLAND_CLIENT
                       then sy1\<lparr>sy_wl := filter (ld_sym ld WAYLAND_CLIENT) wl_functions,
                                sy_ifaces := filter (ld_sym ld WAYLAND_CLIENT) wl_interfaces\<rparr>
                       else sy1)
            in if gpu_mode_env mode
               then (case first_open ld [MESA_GBM, ANY_GBM] of
                       None \<Rightarrow> sy2\<lparr>sy_gpu := True\<rparr>
                     | Some gbm \<Rightarrow> sy2\<lparr>sy_gpu := True, sy_gbm := filter (ld_sym ld gbm) gbm_functions\<rparr>)
               else sy2\<lparr>sy_gpu := False\<rparr>)"

subsection \<open>Lazy resolution\<close>

text \<open>
  What the interceptors do before they call the real function \<open>f\<close>: when its pointer is not set, ask
  \<^verbatim>\<open>real_getProcAddress\<close>. \<^const>\<open>None\<close> is a call through a null pointer; the flag says whether the
  function is there.
\<close>

definition resolve_lazily :: "loader \<Rightarrow> string \<Rightarrow> symbols \<Rightarrow> (bool \<times> symbols) option" where
  "resolve_lazily ld f sy =
     (if f \<in> set (sy_egl sy) then Some (True, sy)
      else if \<not> sy_get_proc sy then None
      else if ld_proc ld f then Some (True, sy\<lparr>sy_egl := f # sy_egl sy\<rparr>) else Some (False, sy))"

text \<open>\<open>ctx\<close> is what Mesa returns.\<close>

definition eglCreateContext :: "loader \<Rightarrow> nat option \<Rightarrow> symbols \<Rightarrow> (nat option \<times> symbols) option" where
  "eglCreateContext ld ctx sy =
     (case resolve_lazily ld ''eglCreateContext'' sy of
        None \<Rightarrow> None
      | Some (present, sy1) \<Rightarrow> if \<not> present then Some (None, sy1) else Some (ctx, sy1))"

text \<open>
  The lazy resolution is there, its comment says, for the case that the constructor did not run. In
  that case, and when the constructor finds no Mesa, it is a call through a null pointer: no
  interceptor that resolves lazily can be called. Once the constructor has found
  \<^verbatim>\<open>eglGetProcAddress\<close> no call goes wrong, and it resolves nothing that the constructor did not.
\<close>

theorem safety_net_needs_constructor:
  assumes "f \<in> set egl_functions"
  shows "resolve_lazily ld f no_symbols = None \<and> eglCreateContext ld ctx no_symbols = None \<and>
    (let sy = load_symbols ld mode no_symbols in
     resolve_lazily ld f sy =
       (if first_open ld [MESA_EGL, MESA_EGL_VENDOR] = None \<or>
           \<not> ld_sym ld (the (first_open ld [MESA_EGL, MESA_EGL_VENDOR])) ''eglGetProcAddress''
        then None else Some (ld_proc ld f, sy)))"
proof -
  let ?sy = "load_symbols ld mode no_symbols"
  have none: "resolve_lazily ld g no_symbols = None" for g by (simp add: resolve_lazily_def no_symbols_def)
  show ?thesis
  proof (cases "first_open ld [MESA_EGL, MESA_EGL_VENDOR]")
    case None
    then show ?thesis using none by (simp add: load_symbols_def eglCreateContext_def Let_def)
  next
    case (Some egl)
    show ?thesis
    proof (cases "ld_sym ld egl ''eglGetProcAddress''")
      case True
      have "sy_get_proc ?sy" "sy_egl ?sy = filter (ld_proc ld) egl_functions"
        using Some True by (simp_all add: load_symbols_def Let_def split: option.split)
      then show ?thesis using Some True none assms by (simp add: resolve_lazily_def [of ld f ?sy] eglCreateContext_def Let_def)
    qed (use Some none in \<open>simp add: load_symbols_def eglCreateContext_def Let_def\<close>)
  qed
qed

definition loader_demo :: loader where
  "loader_demo = \<lparr>ld_open = (\<lambda>_. True), ld_sym = (\<lambda>_ _. True), ld_proc = (\<lambda>_. True)\<rparr>"

theorem safety_net_needs_constructor_witness:
  "eglCreateContext loader_demo (Some 7) no_symbols = None \<and>
   resolve_lazily loader_demo ''eglQueryString'' (load_symbols loader_demo None no_symbols) =
     Some (True, load_symbols loader_demo None no_symbols)"
  using safety_net_needs_constructor [of "''eglQueryString''" loader_demo "Some 7" None]
  by (simp add: egl_functions_def loader_demo_def first_open_def Let_def)

subsection \<open>The protocol tables\<close>

text \<open>\<^verbatim>\<open>struct wl_message_stub\<close> (without the types, all null) and \<^verbatim>\<open>struct wl_interface_stub\<close>.\<close>

record wl_message_stub =
  wm_name :: string
  wm_signature :: string

record wl_interface_stub =
  wi_name :: string
  wi_version :: nat
  wi_method_count :: nat
  wi_methods :: "wl_message_stub list"
  wi_event_count :: nat
  wi_events :: "wl_message_stub list"

definition stub :: "string \<times> string \<Rightarrow> wl_message_stub" where
  "stub m = \<lparr>wm_name = fst m, wm_signature = snd m\<rparr>"

definition null_types :: nat where "null_types = 5"

definition xdg_wm_base_iface :: wl_interface_stub where
  "xdg_wm_base_iface =
     \<lparr>wi_name = ''xdg_wm_base'', wi_version = 2, wi_method_count = 4,
      wi_methods = map stub [(''destroy'', ''''), (''create_positioner'', ''n''), (''get_xdg_surface'', ''no''), (''pong'', ''u'')],
      wi_event_count = 1, wi_events = map stub [(''ping'', ''u'')]\<rparr>"

definition xdg_surface_iface :: wl_interface_stub where
  "xdg_surface_iface =
     \<lparr>wi_name = ''xdg_surface'', wi_version = 2, wi_method_count = 5,
      wi_methods = map stub [(''destroy'', ''''), (''get_toplevel'', ''n''), (''get_popup'', ''noo''),
        (''set_window_geometry'', ''iiii''), (''ack_configure'', ''u'')],
      wi_event_count = 1, wi_events = map stub [(''configure'', ''u'')]\<rparr>"

definition xdg_toplevel_iface :: wl_interface_stub where
  "xdg_toplevel_iface =
     \<lparr>wi_name = ''xdg_toplevel'', wi_version = 2, wi_method_count = 14,
      wi_methods = map stub [(''destroy'', ''''), (''set_parent'', ''?o''), (''set_title'', ''s''), (''set_app_id'', ''s''),
        (''show_window_menu'', ''ouii''), (''move'', ''ou''), (''resize'', ''ouu''), (''set_max_size'', ''ii''),
        (''set_min_size'', ''ii''), (''set_maximized'', ''''), (''unset_maximized'', ''''), (''set_fullscreen'', ''?o''),
        (''unset_fullscreen'', ''''), (''set_minimized'', '''')],
      wi_event_count = 2, wi_events = map stub [(''configure'', ''iia''), (''close'', '''')]\<rparr>"

definition XDG_WM_BASE_DESTROY :: nat where "XDG_WM_BASE_DESTROY = 0"
definition XDG_WM_BASE_GET_XDG_SURFACE :: nat where "XDG_WM_BASE_GET_XDG_SURFACE = 2"
definition XDG_WM_BASE_PONG :: nat where "XDG_WM_BASE_PONG = 3"
definition XDG_SURFACE_DESTROY :: nat where "XDG_SURFACE_DESTROY = 0"
definition XDG_SURFACE_GET_TOPLEVEL :: nat where "XDG_SURFACE_GET_TOPLEVEL = 1"
definition XDG_SURFACE_ACK_CONFIGURE :: nat where "XDG_SURFACE_ACK_CONFIGURE = 4"
definition XDG_TOPLEVEL_DESTROY :: nat where "XDG_TOPLEVEL_DESTROY = 0"
definition XDG_TOPLEVEL_SET_TITLE :: nat where "XDG_TOPLEVEL_SET_TITLE = 2"
definition XDG_TOPLEVEL_SET_APP_ID :: nat where "XDG_TOPLEVEL_SET_APP_ID = 3"

text \<open>
  libwayland's reading of a table: a request is legal when its opcode is in the table and the
  arguments are those of the signature, each with an entry in the array of types; an event the
  compositor may send at the version is known.
\<close>

definition arguments :: "string \<Rightarrow> string" where
  "arguments = filter (\<lambda>c. c \<noteq> CHR ''?'')"

definition request_ok :: "wl_interface_stub \<Rightarrow> nat \<Rightarrow> string \<Rightarrow> string \<Rightarrow> bool" where
  "request_ok i opcode name args \<longleftrightarrow> opcode < wi_method_count i \<and> opcode < length (wi_methods i) \<and>
     wm_name (wi_methods i ! opcode) = name \<and> arguments (wm_signature (wi_methods i ! opcode)) = args \<and>
     length args \<le> null_types"

text \<open>
  The tables libwayland reads are consistent: the counts are the lengths, no message has more
  arguments than the array of types has entries, and every request the wrapper marshals has the opcode
  and the arguments of the message it means.
\<close>

theorem xdg_tables_consistent:
  "list_all (\<lambda>i. wi_method_count i = length (wi_methods i) \<and> wi_event_count i = length (wi_events i) \<and>
     list_all (\<lambda>m. length (arguments (wm_signature m)) \<le> null_types) (wi_methods i @ wi_events i))
     [xdg_wm_base_iface, xdg_surface_iface, xdg_toplevel_iface] \<and>
   request_ok xdg_wm_base_iface XDG_WM_BASE_DESTROY ''destroy'' '''' \<and>
   request_ok xdg_wm_base_iface XDG_WM_BASE_GET_XDG_SURFACE ''get_xdg_surface'' ''no'' \<and>
   request_ok xdg_wm_base_iface XDG_WM_BASE_PONG ''pong'' ''u'' \<and>
   request_ok xdg_surface_iface XDG_SURFACE_DESTROY ''destroy'' '''' \<and>
   request_ok xdg_surface_iface XDG_SURFACE_GET_TOPLEVEL ''get_toplevel'' ''n'' \<and>
   request_ok xdg_surface_iface XDG_SURFACE_ACK_CONFIGURE ''ack_configure'' ''u'' \<and>
   request_ok xdg_toplevel_iface XDG_TOPLEVEL_DESTROY ''destroy'' '''' \<and>
   request_ok xdg_toplevel_iface XDG_TOPLEVEL_SET_TITLE ''set_title'' ''s'' \<and>
   request_ok xdg_toplevel_iface XDG_TOPLEVEL_SET_APP_ID ''set_app_id'' ''s''"
  by (simp add: xdg_wm_base_iface_def xdg_surface_iface_def xdg_toplevel_iface_def stub_def null_types_def arguments_def
      request_ok_def XDG_WM_BASE_DESTROY_def XDG_WM_BASE_GET_XDG_SURFACE_def XDG_WM_BASE_PONG_def XDG_SURFACE_DESTROY_def
      XDG_SURFACE_GET_TOPLEVEL_def XDG_SURFACE_ACK_CONFIGURE_def XDG_TOPLEVEL_DESTROY_def XDG_TOPLEVEL_SET_TITLE_def
      XDG_TOPLEVEL_SET_APP_ID_def nth_Cons numeral_eq_Suc)

subsection \<open>Logged integers\<close>

text \<open>The digits as the loop finds them, the lowest first.\<close>

function low_digits :: "nat \<Rightarrow> string" where
  "low_digits n = (if n = 0 then [] else char_of (48 + n mod 10) # low_digits (n div 10))"
  by auto
termination
  by (relation "measure id") auto

declare low_digits.simps [simp del]

text \<open>\<^const>\<open>None\<close> is the overflow of the negation. Both arrays of the C function have 16 bytes.\<close>

definition log_int :: "int \<Rightarrow> string option" where
  "log_int n =
     (if n = - (2 ^ 31) then None
      else
        let sign = (if n < 0 then ''-'' else []);
            m = nat \<bar>n\<bar>
        in Some (if m = 0 then sign @ ''0'' else sign @ rev (low_digits m)))"

definition digit_value :: "char \<Rightarrow> int" where
  "digit_value c = int (of_char c) - 48"

definition numeral_value :: "string \<Rightarrow> int" where
  "numeral_value s =
     (case s of
        [] \<Rightarrow> 0
      | c # cs \<Rightarrow> if c = CHR ''-'' then - fold (\<lambda>d v. 10 * v + digit_value d) cs 0
                  else fold (\<lambda>d v. 10 * v + digit_value d) s 0)"

lemma digit_value_char: "d < 10 \<Longrightarrow> digit_value (char_of (48 + d :: nat)) = int d"
  by (simp add: digit_value_def)

lemma low_digits_value: "foldr (\<lambda>d v. 10 * v + digit_value d) (low_digits n) 0 = int n"
proof (induction n rule: low_digits.induct)
  case (1 n)
  show ?case
  proof (cases "n = 0")
    case False
    have "foldr (\<lambda>d v. 10 * v + digit_value d) (low_digits n) 0 = 10 * int (n div 10) + int (n mod 10)"
      using 1 False by (subst low_digits.simps) (simp add: digit_value_char)
    moreover have "int (10 * (n div 10) + n mod 10) = int n" by (simp only: mult_div_mod_eq)
    ultimately show ?thesis by (simp only: of_nat_add of_nat_mult of_nat_numeral)
  qed (simp add: low_digits.simps)
qed

lemma low_digits_length: "n < 10 ^ k \<Longrightarrow> length (low_digits n) \<le> k"
proof (induction k arbitrary: n)
  case (Suc k)
  then have "n div 10 < 10 ^ k" by (simp add: less_mult_imp_div_less mult.commute)
  with Suc.IH [OF this] show ?case by (subst low_digits.simps) simp
qed (simp add: low_digits.simps)

lemma low_digits_no_sign: "c \<in> set (low_digits n) \<Longrightarrow> c \<noteq> CHR ''-''"
proof (induction n rule: low_digits.induct)
  case (1 n)
  have "char_of (48 + n mod 10) \<noteq> CHR ''-''"
  proof
    assume "char_of (48 + n mod 10) = CHR ''-''"
    then have "of_char (char_of (48 + n mod 10)) = (45 :: nat)" by simp
    then show False by simp
  qed
  then show ?case using 1 by (subst (asm) low_digits.simps) (auto split: if_splits)
qed

text \<open>
  Every \<^verbatim>\<open>int\<close> but the least is written as its decimal numeral, in at most 11 characters, inside both
  arrays; for the least the negation overflows.
\<close>

theorem log_int_decimal:
  assumes "- (2 ^ 31) \<le> n" "n < 2 ^ 31"
  shows "case log_int n of None \<Rightarrow> n = - (2 ^ 31) | Some s \<Rightarrow> length s \<le> 11 \<and> numeral_value s = n"
proof (cases "n = - (2 ^ 31)")
  case False
  let ?m = "nat \<bar>n\<bar>"
  have "?m < 10 ^ 10" using assms by auto
  then have len: "length (low_digits ?m) \<le> 10" by (rule low_digits_length)
  have val: "fold (\<lambda>d v. 10 * v + digit_value d) (rev (low_digits ?m)) 0 = \<bar>n\<bar>"
    using low_digits_value [of ?m] by (simp add: foldr_conv_fold)
  have head: "numeral_value (rev (low_digits ?m)) = fold (\<lambda>d v. 10 * v + digit_value d) (rev (low_digits ?m)) 0"
  proof (cases "rev (low_digits ?m)")
    case (Cons c cs)
    then have "c \<in> set (low_digits ?m)" by (metis list.set_intros(1) set_rev)
    then have "c \<noteq> CHR ''-''" by (rule low_digits_no_sign)
    then show ?thesis using Cons by (simp add: numeral_value_def)
  qed (simp add: numeral_value_def)
  show ?thesis
  proof (cases "n < 0")
    case True
    then have "log_int n = Some (CHR ''-'' # rev (low_digits ?m))" using False by (simp add: log_int_def)
    then show ?thesis using True len val by (simp add: numeral_value_def)
  next
    case pos: False
    show ?thesis
    proof (cases "n = 0")
      case True
      have "digit_value CHR ''0'' = 0" by (simp add: digit_value_def)
      then show ?thesis using True by (simp add: log_int_def numeral_value_def)
    next
      case False
      then have "log_int n = Some (rev (low_digits ?m))" using pos \<open>n \<noteq> - (2 ^ 31)\<close> by (simp add: log_int_def)
      then show ?thesis using pos len val head by simp
    qed
  qed
qed (simp add: log_int_def)

theorem log_int_decimal_witness: "log_int (-7) \<noteq> None \<and> numeral_value (the (log_int (-7))) = -7"
  using log_int_decimal [of "-7"] by (cases "log_int (-7)") simp_all

end
