(* ===== verification/ServerLifecycle.thy ===== *)
theory ServerLifecycle
  imports ShellFocus OutputProps AhbReceiver AhbAllocator
begin

text \<open>
  \<^verbatim>\<open>compositor/native/src/compositor_server.c\<close> (creation, error path, destruction, renderer) and
  \<^verbatim>\<open>android_backend.c\<close>: the order in which the compositor makes and releases its descriptors, library
  objects and window references, composed of the start and stop functions of its parts.
\<close>

subsection \<open>State\<close>

text \<open>Library objects the server creates and destroys itself; the others belong to the display.\<close>

datatype lib_obj =
    L_display | L_backend | L_egl_context | L_wlr_egl | L_renderer | L_scene | L_resize_source | L_pause_source | L_xwayland

text \<open>
  The process: open descriptors, live objects, the allocators and buffers of the AHB allocator, the
  receiver and the registry (statics), the handlers' statics and the server's fields they use
  (\<open>pr_shell\<close>), and the window calls of destroyed outputs. \<open>pr_fault\<close> is set by closing a descriptor
  or destroying an object that is not there.
\<close>

record process =
  pr_fds :: "int set"
  pr_objs :: "lib_obj set"
  pr_alloc :: ahb_alloc
  pr_receiver :: receiver
  pr_registry :: registry
  pr_shell :: shell
  pr_windows :: "out_call list"
  pr_fault :: bool

text \<open>\<^verbatim>\<open>struct android_backend\<close>; the server's remaining fields.\<close>

record android_backend =
  bk_started :: bool
  bk_dmabuf :: bool
  bk_outputs :: "out_server list"

record server =
  sv_backend :: android_backend
  sv_allocator :: nat
  sv_resize_pipe :: "int \<times> int"
  sv_resize_source :: bool
  sv_pause_pipe :: "int \<times> int"
  sv_pause_source :: bool
  sv_xwayland :: bool
  sv_socket :: string

text \<open>The outcomes of the calls \<^verbatim>\<open>compositor_server_create\<close> makes.\<close>

record create_env =
  ce_calloc :: bool
  ce_display :: bool
  ce_backend :: bool
  ce_egl_display :: bool
  ce_egl_init :: bool
  ce_egl_context :: bool
  ce_wlr_egl :: bool
  ce_gles2 :: bool
  ce_autocreate :: bool
  ce_platform :: platform
  ce_out_calloc :: bool
  ce_control :: bool
  ce_size :: "int \<times> int"
  ce_resize_pipe :: "(int \<times> int) option"
  ce_resize_add :: bool
  ce_pause_pipe :: "(int \<times> int) option"
  ce_pause_add :: bool
  ce_input_pipe :: "(int \<times> int) option"
  ce_input_add :: bool
  ce_keyboard :: bool
  ce_xkb :: bool
  ce_keymap :: bool
  ce_ime_pipe :: "(int \<times> int) option"
  ce_text_pipe :: "(int \<times> int) option"
  ce_text_add :: bool
  ce_text_global :: bool
  ce_text_keymap :: "keymap option"
  ce_ahb_socket :: bool
  ce_receiver_socket :: "int option"
  ce_bind :: bool
  ce_listen :: bool
  ce_thread :: bool
  ce_xwayland :: bool
  ce_socket :: "string option"
  ce_out_env :: out_env

subsection \<open>Descriptors and objects\<close>

definition open_fds :: "int list \<Rightarrow> process \<Rightarrow> process" where
  "open_fds fds p = p\<lparr>pr_fds := pr_fds p \<union> set fds\<rparr>"

definition close_fd1 :: "int \<Rightarrow> process \<Rightarrow> process" where
  "close_fd1 fd p = (if fd \<in> pr_fds p then p\<lparr>pr_fds := pr_fds p - {fd}\<rparr> else p\<lparr>pr_fault := True\<rparr>)"

definition close_fds :: "int list \<Rightarrow> process \<Rightarrow> process" where
  "close_fds fds p = fold close_fd1 fds p"

definition make_obj :: "lib_obj \<Rightarrow> process \<Rightarrow> process" where
  "make_obj x p = p\<lparr>pr_objs := insert x (pr_objs p)\<rparr>"

definition drop_obj :: "lib_obj \<Rightarrow> process \<Rightarrow> process" where
  "drop_obj x p = (if x \<in> pr_objs p then p\<lparr>pr_objs := pr_objs p - {x}\<rparr> else p\<lparr>pr_fault := True\<rparr>)"

definition pipe_ends :: "(int \<times> int) option \<Rightarrow> int list" where
  "pipe_ends pp = (case pp of None \<Rightarrow> [] | Some (r, w) \<Rightarrow> [r, w])"

subsection \<open>Backend\<close>

definition android_backend_create :: "bool \<Rightarrow> platform \<Rightarrow> android_backend option" where
  "android_backend_create calloc_ok pf =
     (if \<not> calloc_ok then None
      else Some \<lparr>bk_started = False, bk_dmabuf = ahb_dmabuf_export_available pf, bk_outputs = []\<rparr>)"

text \<open>
  Starting emits \<^verbatim>\<open>new_output\<close> for each output and always returns true; \<open>notify\<close> is the server's
  handler, \<open>None\<close> for its undefined behaviour.
\<close>

definition backend_start :: "(out_server \<Rightarrow> out_server option) \<Rightarrow> android_backend \<Rightarrow> android_backend option" where
  "backend_start notify b =
     (case those (map notify (bk_outputs b)) of
        None \<Rightarrow> None
      | Some outs \<Rightarrow> Some (b\<lparr>bk_started := True, bk_outputs := outs\<rparr>))"

definition backend_destroy :: "android_backend \<Rightarrow> process \<Rightarrow> process" where
  "backend_destroy b p =
     drop_obj L_backend (p\<lparr>pr_windows := pr_windows p @ concat (map (out_calls \<circ> output_destroy) (bk_outputs b))\<rparr>)"

definition android_backend_is_android :: "bool option \<Rightarrow> bool" where
  "android_backend_is_android same_impl = (case same_impl of None \<Rightarrow> False | Some same \<Rightarrow> same)"

subsection \<open>Renderer\<close>

text \<open>
  The wlroots EGL takes the context over, the renderer takes the wlroots EGL over; destroying each
  destroys what it took over.
\<close>

definition try_create_gles2_renderer :: "create_env \<Rightarrow> process \<Rightarrow> bool \<times> process" where
  "try_create_gles2_renderer e p =
     (if \<not> ce_egl_display e then (False, p)
      else if \<not> ce_egl_init e then (False, p)
      else if \<not> ce_egl_context e then (False, p)
      else
        let p1 = make_obj L_egl_context p in
        if \<not> ce_wlr_egl e then (False, drop_obj L_egl_context p1)
        else
          let p2 = make_obj L_wlr_egl (drop_obj L_egl_context p1) in
          if \<not> ce_gles2 e then (False, drop_obj L_wlr_egl p2)
          else (True, make_obj L_renderer (drop_obj L_wlr_egl p2)))"

definition create_renderer :: "create_env \<Rightarrow> process \<Rightarrow> bool \<times> process" where
  "create_renderer e p =
     (let (ok, p1) = try_create_gles2_renderer e p in
      if ok then (True, p1) else if ce_autocreate e then (True, make_obj L_renderer p1) else (False, p1))"

text \<open>The formats advertised for dma-bufs.\<close>

definition dmabuf_formats :: "u32 list" where
  "dmabuf_formats = [FMT_ABGR8888, FMT_XBGR8888, FMT_RGB565]"

subsection \<open>Creation\<close>

text \<open>
  \<^verbatim>\<open>calloc\<close>: the handlers' statics stay, the server's fields are zero; the new display has seen no call
  and has no client.
\<close>

definition calloc_server :: "shell \<Rightarrow> shell" where
  "calloc_server st = st\<lparr>cs_calls := [], cs_seat := False, cs_keyboard := False, cs_toplevels := [], ts_ime_fd := 0,
     tx_pipe_read := 0, tx_pipe_fd := 0, tx_ime_read := 0, tx_manager := False, tx_event_source := False,
     in_pipe_read := 0, in_pipe_write := 0, in_pipe_bytes := 0, in_event_source := False,
     sh_output := None, sh_pending := (0, 0), sh_popups := [], sh_views := [], sh_clients := [], sh_client_count := 0\<rparr>"

text \<open>The resize and pause/resume pipes: the ends, or -1 twice.\<close>

definition pipe_fields :: "(int \<times> int) option \<Rightarrow> int \<times> int" where
  "pipe_fields pp = (case pp of None \<Rightarrow> (-1, -1) | Some ends \<Rightarrow> ends)"

definition make_pipe :: "lib_obj \<Rightarrow> (int \<times> int) option \<Rightarrow> bool \<Rightarrow> process \<Rightarrow> process" where
  "make_pipe source pp add_ok p =
     (case pp of None \<Rightarrow> p
      | Some (r, w) \<Rightarrow> let p1 = open_fds [r, w] p in if add_ok then make_obj source p1 else p1)"

definition start_input :: "create_env \<Rightarrow> process \<Rightarrow> process" where
  "start_input e p =
     (let (_, closed, sh) = input_handler_init (ce_input_pipe e) (ce_input_add e) (ce_keyboard e) (ce_xkb e) (ce_keymap e) (pr_shell p)
      in close_fds closed ((open_fds (pipe_ends (ce_input_pipe e)) p)\<lparr>pr_shell := sh\<rparr>))"

definition start_text :: "create_env \<Rightarrow> process \<Rightarrow> process" where
  "start_text e p =
     (let (_, closed, sh) = text_input_handler_init (ce_ime_pipe e) (ce_text_pipe e) (ce_text_add e) (ce_text_global e) (ce_text_keymap e) (pr_shell p);
          made = pipe_ends (ce_ime_pipe e) @ (if ce_ime_pipe e = None then [] else pipe_ends (ce_text_pipe e))
      in close_fds closed ((open_fds made p)\<lparr>pr_shell := sh\<rparr>))"

text \<open>The receiver starts when \<^verbatim>\<open>AHB_REGISTRY_SOCKET\<close> is set.\<close>

definition start_receiver :: "create_env \<Rightarrow> process \<Rightarrow> process" where
  "start_receiver e p =
     (if \<not> ce_ahb_socket e then p
      else
        let (_, closed, rv) = ahb_registry_receiver_start (ce_receiver_socket e) (ce_bind e) (ce_listen e) (ce_thread e) (pr_receiver p);
            made = (case ce_receiver_socket e of None \<Rightarrow> [] | Some fd \<Rightarrow> [fd])
        in close_fds closed ((open_fds made p)\<lparr>pr_receiver := rv\<rparr>))"

text \<open>The size of \<^verbatim>\<open>server->output\<close>, which the \<^verbatim>\<open>new_output\<close> handler sets.\<close>

definition output_size :: "android_backend \<Rightarrow> (int \<times> int) option" where
  "output_size b =
     (case bk_outputs b of [] \<Rightarrow> None
      | out # _ \<Rightarrow> if os_output out then Some (out_width out, out_height out) else None)"

definition set_server_output :: "android_backend \<Rightarrow> process \<Rightarrow> process" where
  "set_server_output b p = p\<lparr>pr_shell := (pr_shell p)\<lparr>sh_output := output_size b\<rparr>\<rparr>"

text \<open>The labels of the error path, each falling through to the next.\<close>

definition err_display :: "process \<Rightarrow> process" where
  "err_display p = drop_obj L_display p"

definition err_backend :: "android_backend \<Rightarrow> process \<Rightarrow> process" where
  "err_backend b p = err_display (backend_destroy b p)"

definition err_renderer :: "android_backend \<Rightarrow> process \<Rightarrow> process" where
  "err_renderer b p = err_backend b (drop_obj L_renderer p)"

definition destroy_allocator :: "nat \<Rightarrow> process \<Rightarrow> process" where
  "destroy_allocator a p = p\<lparr>pr_alloc := ahb_alloc_destroy a (pr_alloc p)\<rparr>"

definition err_alloc :: "nat \<Rightarrow> android_backend \<Rightarrow> process \<Rightarrow> process" where
  "err_alloc a b p = err_renderer b (destroy_allocator a p)"

text \<open>Everything between the output and the socket; nothing here fails the creation.\<close>

definition create_parts :: "create_env \<Rightarrow> bool \<Rightarrow> process \<Rightarrow> bool \<times> process" where
  "create_parts e xwayland_enabled p =
     (let p1 = make_obj L_scene p;
          p2 = make_pipe L_resize_source (ce_resize_pipe e) (ce_resize_add e) p1;
          p3 = make_pipe L_pause_source (ce_pause_pipe e) (ce_pause_add e) p2;
          p4 = p3\<lparr>pr_shell := (pr_shell p3)\<lparr>cs_seat := True\<rparr>\<rparr>;
          p5 = start_receiver e (start_text e (start_input e p4));
          xw = xwayland_enabled \<and> ce_xwayland e
      in (xw, if xw then make_obj L_xwayland p5 else p5))"

definition compositor_server_create :: "create_env \<Rightarrow> nat \<Rightarrow> bool \<Rightarrow> process \<Rightarrow> server option \<times> process" where
  "compositor_server_create e window xwayland_enabled p =
     (if \<not> ce_calloc e then (None, p)
      else
        let p0 = p\<lparr>pr_shell := calloc_server (pr_shell p)\<rparr> in
        if \<not> ce_display e then (None, p0)
        else
          let p1 = make_obj L_display p0 in
          (case android_backend_create (ce_backend e) (ce_platform e) of
             None \<Rightarrow> (None, err_display p1)
           | Some b \<Rightarrow>
             let (ok, p2) = create_renderer e (make_obj L_backend p1) in
             if \<not> ok then (None, err_backend b p2)
             else
               (case ahb_allocator_create (ce_platform e) (pr_alloc p2) of
                  (None, al) \<Rightarrow> (None, err_renderer b (p2\<lparr>pr_alloc := al\<rparr>))
                | (Some (a, _), al) \<Rightarrow>
                  let p3 = p2\<lparr>pr_alloc := al\<rparr> in
                  (case android_output_create (ce_out_calloc e) (ce_control e) window (fst (ce_size e)) (snd (ce_size e)) of
                     None \<Rightarrow> (None, err_alloc a b p3)
                   | Some out \<Rightarrow>
                     let out1 = out\<lparr>os_pipe_open := (ce_pause_pipe e \<noteq> None)\<rparr>;
                         b1 = b\<lparr>bk_outputs := out1 # bk_outputs b\<rparr>;
                         (xw, p4) = create_parts e xwayland_enabled p3 in
                     (case ce_socket e of
                        None \<Rightarrow> (None, err_alloc a b1 p4)
                      | Some name \<Rightarrow>
                        (case backend_start (on_new_output (ce_out_env e)) b1 of
                           None \<Rightarrow> (None, p4\<lparr>pr_fault := True\<rparr>)
                         | Some b2 \<Rightarrow>
                             (Some \<lparr>sv_backend = b2, sv_allocator = a,
                                sv_resize_pipe = pipe_fields (ce_resize_pipe e), sv_resize_source = ce_resize_pipe e \<noteq> None \<and> ce_resize_add e,
                                sv_pause_pipe = pipe_fields (ce_pause_pipe e), sv_pause_source = ce_pause_pipe e \<noteq> None \<and> ce_pause_add e,
                                sv_xwayland = xw, sv_socket = name\<rparr>,
                              set_server_output b2 p4)))))))"

subsection \<open>Destruction\<close>

text \<open>Both ends of a pipe, each closed when it is not negative.\<close>

definition valid_ends :: "int \<times> int \<Rightarrow> int list" where
  "valid_ends pp = filter (\<lambda>fd. 0 \<le> fd) [fst pp, snd pp]"

definition pending_windows :: "android_backend \<Rightarrow> nat list" where
  "pending_windows b = concat (map (\<lambda>out. case os_pending out of None \<Rightarrow> [] | Some w \<Rightarrow> [w]) (bk_outputs b))"

definition stop_pipe :: "lib_obj \<Rightarrow> bool \<Rightarrow> int \<times> int \<Rightarrow> process \<Rightarrow> process" where
  "stop_pipe source present ends p = close_fds (valid_ends ends) (if present then drop_obj source p else p)"

definition stop_receiver :: "process \<Rightarrow> process" where
  "stop_receiver p =
     (let (closed, _, rv) = ahb_registry_receiver_stop (pr_receiver p)
      in (close_fds closed (p\<lparr>pr_receiver := rv\<rparr>))\<lparr>pr_registry := ahb_registry_destroy (pr_registry p)\<rparr>)"

definition stop_text :: "process \<Rightarrow> process" where
  "stop_text p = (let (closed, sh) = text_input_handler_destroy (pr_shell p) in close_fds closed (p\<lparr>pr_shell := sh\<rparr>))"

definition stop_input :: "process \<Rightarrow> process" where
  "stop_input p = (let (closed, sh) = input_handler_destroy (pr_shell p) in close_fds closed (p\<lparr>pr_shell := sh\<rparr>))"

text \<open>
  \<open>clients_gone\<close> is the effect of \<^verbatim>\<open>wl_display_destroy_clients\<close>: libwayland runs the destroy
  listeners of every client and of its surfaces.
\<close>

definition compositor_server_destroy :: "(shell \<Rightarrow> shell) \<Rightarrow> server option \<Rightarrow> process \<Rightarrow> process" where
  "compositor_server_destroy clients_gone server p =
     (case server of None \<Rightarrow> p
      | Some sv \<Rightarrow>
        let p1 = (if sv_xwayland sv then drop_obj L_xwayland p else p);
            p2 = p1\<lparr>pr_shell := clients_gone (pr_shell p1)\<rparr>;
            p3 = stop_pipe L_resize_source (sv_resize_source sv) (sv_resize_pipe sv) p2;
            p4 = stop_pipe L_pause_source (sv_pause_source sv) (sv_pause_pipe sv) p3;
            p5 = p4\<lparr>pr_windows := pr_windows p4 @ map WinRelease (pending_windows (sv_backend sv))\<rparr>;
            p6 = stop_input (stop_text (stop_receiver p5));
            p7 = destroy_allocator (sv_allocator sv) (drop_obj L_scene p6);
            p8 = backend_destroy (sv_backend sv) (drop_obj L_renderer p7)
        in drop_obj L_display p8)"

text \<open>The small calls.\<close>

definition compositor_server_get_socket :: "server option \<Rightarrow> string option" where
  "compositor_server_get_socket server = map_option sv_socket server"

definition compositor_server_get_xwayland_display :: "string \<Rightarrow> server option \<Rightarrow> string option" where
  "compositor_server_get_xwayland_display name server =
     (case server of None \<Rightarrow> None | Some sv \<Rightarrow> if sv_xwayland sv then Some name else None)"

text \<open>Stopping asks the event loop to end; the loop ends when it was asked.\<close>

definition compositor_server_stop :: "server option \<Rightarrow> bool \<Rightarrow> bool" where
  "compositor_server_stop server asked = (case server of None \<Rightarrow> asked | Some _ \<Rightarrow> True)"

end
