(* ===== verification/ServerProps.thy ===== *)
theory ServerProps
  imports ServerLifecycle
begin

text \<open>
  What the compositor's creation and destruction guarantee: an early failure leaves nothing behind, a
  server that was created is taken down completely; and what a late failure leaves open.
\<close>

subsection \<open>Descriptors\<close>

lemma close_fds_simps [simp]:
  "pr_objs (close_fds fds p) = pr_objs p" "pr_alloc (close_fds fds p) = pr_alloc p"
  "pr_receiver (close_fds fds p) = pr_receiver p" "pr_registry (close_fds fds p) = pr_registry p"
  "pr_shell (close_fds fds p) = pr_shell p" "pr_windows (close_fds fds p) = pr_windows p"
proof -
  have "pr_objs (close_fds fds p) = pr_objs p \<and> pr_alloc (close_fds fds p) = pr_alloc p \<and>
    pr_receiver (close_fds fds p) = pr_receiver p \<and> pr_registry (close_fds fds p) = pr_registry p \<and>
    pr_shell (close_fds fds p) = pr_shell p \<and> pr_windows (close_fds fds p) = pr_windows p"
    by (induction fds arbitrary: p) (simp_all add: close_fds_def close_fd1_def)
  then show "pr_objs (close_fds fds p) = pr_objs p" "pr_alloc (close_fds fds p) = pr_alloc p"
    "pr_receiver (close_fds fds p) = pr_receiver p" "pr_registry (close_fds fds p) = pr_registry p"
    "pr_shell (close_fds fds p) = pr_shell p" "pr_windows (close_fds fds p) = pr_windows p" by blast+
qed

lemma close_fds_ok:
  "\<lbrakk>distinct fds; set fds \<subseteq> pr_fds p\<rbrakk> \<Longrightarrow> pr_fds (close_fds fds p) = pr_fds p - set fds"
  "\<lbrakk>distinct fds; set fds \<subseteq> pr_fds p\<rbrakk> \<Longrightarrow> pr_fault (close_fds fds p) = pr_fault p"
proof -
  have "\<lbrakk>distinct fds; set fds \<subseteq> pr_fds p\<rbrakk> \<Longrightarrow>
    pr_fds (close_fds fds p) = pr_fds p - set fds \<and> pr_fault (close_fds fds p) = pr_fault p"
  proof (induction fds arbitrary: p)
    case (Cons fd fds)
    have "close_fds (fd # fds) p = close_fds fds (close_fd1 fd p)" by (simp add: close_fds_def)
    moreover have "close_fd1 fd p = p\<lparr>pr_fds := pr_fds p - {fd}\<rparr>" using Cons.prems by (simp add: close_fd1_def)
    moreover have "set fds \<subseteq> pr_fds (p\<lparr>pr_fds := pr_fds p - {fd}\<rparr>)" using Cons.prems by auto
    ultimately show ?case using Cons.IH [of "p\<lparr>pr_fds := pr_fds p - {fd}\<rparr>"] Cons.prems by auto
  qed (simp add: close_fds_def)
  then show "\<lbrakk>distinct fds; set fds \<subseteq> pr_fds p\<rbrakk> \<Longrightarrow> pr_fds (close_fds fds p) = pr_fds p - set fds"
    "\<lbrakk>distinct fds; set fds \<subseteq> pr_fds p\<rbrakk> \<Longrightarrow> pr_fault (close_fds fds p) = pr_fault p" by blast+
qed

lemma open_fds_simps [simp]:
  "pr_fds (open_fds fds p) = pr_fds p \<union> set fds" "pr_objs (open_fds fds p) = pr_objs p"
  "pr_alloc (open_fds fds p) = pr_alloc p" "pr_receiver (open_fds fds p) = pr_receiver p"
  "pr_registry (open_fds fds p) = pr_registry p" "pr_shell (open_fds fds p) = pr_shell p"
  "pr_windows (open_fds fds p) = pr_windows p" "pr_fault (open_fds fds p) = pr_fault p"
  by (simp_all add: open_fds_def)

lemma make_obj_simps [simp]:
  "pr_fds (make_obj x p) = pr_fds p" "pr_objs (make_obj x p) = insert x (pr_objs p)" "pr_alloc (make_obj x p) = pr_alloc p"
  "pr_receiver (make_obj x p) = pr_receiver p" "pr_registry (make_obj x p) = pr_registry p"
  "pr_shell (make_obj x p) = pr_shell p" "pr_windows (make_obj x p) = pr_windows p" "pr_fault (make_obj x p) = pr_fault p"
  by (simp_all add: make_obj_def)

lemma drop_obj_simps [simp]:
  "pr_fds (drop_obj x p) = pr_fds p" "pr_alloc (drop_obj x p) = pr_alloc p"
  "pr_receiver (drop_obj x p) = pr_receiver p" "pr_registry (drop_obj x p) = pr_registry p"
  "pr_shell (drop_obj x p) = pr_shell p" "pr_windows (drop_obj x p) = pr_windows p"
  "pr_objs (drop_obj x p) = pr_objs p - {x}" "pr_fault (drop_obj x p) \<longleftrightarrow> pr_fault p \<or> x \<notin> pr_objs p"
  by (simp_all add: drop_obj_def)

subsection \<open>What a server holds\<close>

definition shell_fds :: "'a shell_scheme \<Rightarrow> int list" where
  "shell_fds st = close_pair (tx_ime_read st) (ts_ime_fd st) @ close_pair (tx_pipe_read st) (tx_pipe_fd st) @ input_ends st"

definition receiver_fds :: "receiver \<Rightarrow> int list" where
  "receiver_fds rv = (if rv_running rv \<and> 0 \<le> rv_server_fd rv then [rv_server_fd rv] else [])"

definition server_fds :: "server \<Rightarrow> process \<Rightarrow> int list" where
  "server_fds sv p = valid_ends (sv_resize_pipe sv) @ valid_ends (sv_pause_pipe sv) @ receiver_fds (pr_receiver p) @ shell_fds (pr_shell p)"

definition server_objs :: "server \<Rightarrow> lib_obj set" where
  "server_objs sv = {L_display, L_backend, L_renderer, L_scene} \<union> (if sv_resize_source sv then {L_resize_source} else {}) \<union>
     (if sv_pause_source sv then {L_pause_source} else {}) \<union> (if sv_xwayland sv then {L_xwayland} else {})"

definition server_holds :: "process \<Rightarrow> server \<Rightarrow> process \<Rightarrow> bool" where
  "server_holds p0 sv p \<longleftrightarrow> distinct (server_fds sv p) \<and> set (server_fds sv p) \<inter> pr_fds p0 = {} \<and>
     pr_fds p = pr_fds p0 \<union> set (server_fds sv p) \<and> pr_objs p0 = {} \<and> pr_objs p = server_objs sv \<and>
     pr_fault p = pr_fault p0 \<and> sv_allocator sv \<notin> al_allocators (pr_alloc p0) \<and>
     al_allocators (pr_alloc p) = insert (sv_allocator sv) (al_allocators (pr_alloc p0))"

text \<open>What the handlers' start and stop leave in the fields that hold descriptors.\<close>

lemma ime_fd_clear: "ts_ime_fd (clear_text_input_focus sf s st) = ts_ime_fd st"
proof -
  have prims: "ts_ime_fd (wl_emit c st) = ts_ime_fd st" "ts_ime_fd (ti_update i f st) = ts_ime_fd st"
    "ts_ime_fd (set_active_text_input a st) = ts_ime_fd st" "ts_ime_fd (request_ime_command x st) = ts_ime_fd st"
    for c i f a x and st :: "'a text_state_scheme"
    by (simp_all add: wl_emit_def ti_update_def set_active_text_input_def request_ime_command_def)
  have "ts_ime_fd (leave_if_on sf s i st) = ts_ime_fd st" for i and st :: "'a text_state_scheme"
    by (simp add: leave_if_on_def maybe_send_leave_def Let_def send_leave_event_def request_ime_hide_def prims split: option.split)
  then have "ts_ime_fd (fold (leave_if_on sf s) xs st) = ts_ime_fd st" for xs and st :: "'a text_state_scheme"
    by (induction xs arbitrary: st) simp_all
  then show ?thesis by (simp add: clear_text_input_focus_def Let_def)
qed

lemma more_fields:
  assumes "text_state.more st' = text_state.more (st :: 'a input_server_scheme)"
  shows "tx_pipe_read st' = tx_pipe_read st" "tx_pipe_fd st' = tx_pipe_fd st" "tx_ime_read st' = tx_ime_read st"
    "in_pipe_read st' = in_pipe_read st" "in_pipe_write st' = in_pipe_write st"
  using assms by (cases st; cases st'; simp)+

lemma clear_fields:
  fixes st :: "'a input_server_scheme"
  shows "tx_pipe_read (clear_text_input_focus sf s st) = tx_pipe_read st"
    "tx_pipe_fd (clear_text_input_focus sf s st) = tx_pipe_fd st"
    "tx_ime_read (clear_text_input_focus sf s st) = tx_ime_read st"
    "in_pipe_read (clear_text_input_focus sf s st) = in_pipe_read st"
    "in_pipe_write (clear_text_input_focus sf s st) = in_pipe_write st"
  using more_fields [of "clear_text_input_focus sf s st" st] text_frame_clear [of st sf s]
  by (simp_all add: text_frame_def)

lemma text_destroy_fds:
  fixes st :: "'a shell_scheme"
  shows "fst (text_input_handler_destroy st) = close_pair (tx_ime_read st) (ts_ime_fd st) @ close_pair (tx_pipe_read st) (tx_pipe_fd st)"
    and "input_ends (snd (text_input_handler_destroy st)) = input_ends st"
    and "shell_fds (snd (text_input_handler_destroy st)) = input_ends st"
  by (simp_all add: text_input_handler_destroy_def Let_def ime_fd_clear clear_fields input_ends_def set_active_text_input_def
      shell_fds_def close_pair_def)

lemma input_destroy_fds:
  fixes st :: "'a shell_scheme"
  shows "fst (input_handler_destroy st) = input_ends st"
  by (simp add: input_handler_destroy_def Let_def input_ends_def)

definition same_handles :: "'a shell_scheme \<Rightarrow> 'a shell_scheme \<Rightarrow> bool" where
  "same_handles st st' \<longleftrightarrow> tx_ime_read st' = tx_ime_read st \<and> ts_ime_fd st' = ts_ime_fd st \<and>
     tx_pipe_read st' = tx_pipe_read st \<and> tx_pipe_fd st' = tx_pipe_fd st \<and>
     in_pipe_read st' = in_pipe_read st \<and> in_pipe_write st' = in_pipe_write st"

lemma same_handles_fds: "same_handles st st' \<Longrightarrow> shell_fds st' = shell_fds st"
  by (simp add: same_handles_def shell_fds_def input_ends_def)

lemma receiver_stop_fds:
  "ahb_registry_receiver_stop rv = (receiver_fds rv, rv_running rv, snd (snd (ahb_registry_receiver_stop rv)))"
  "receiver_fds (snd (snd (ahb_registry_receiver_stop rv))) = []" "\<not> rv_running (snd (snd (ahb_registry_receiver_stop rv)))"
  by (simp_all add: ahb_registry_receiver_stop_def receiver_fds_def Let_def)

lemma backend_destroy_simps [simp]:
  "pr_fds (backend_destroy b p) = pr_fds p" "pr_objs (backend_destroy b p) = pr_objs p - {L_backend}"
  "pr_fault (backend_destroy b p) \<longleftrightarrow> pr_fault p \<or> L_backend \<notin> pr_objs p" "pr_alloc (backend_destroy b p) = pr_alloc p"
  "pr_receiver (backend_destroy b p) = pr_receiver p" "pr_shell (backend_destroy b p) = pr_shell p"
  by (simp_all add: backend_destroy_def)

lemma destroy_allocator_simps [simp]:
  "pr_fds (destroy_allocator a p) = pr_fds p" "pr_objs (destroy_allocator a p) = pr_objs p"
  "pr_fault (destroy_allocator a p) = pr_fault p" "pr_windows (destroy_allocator a p) = pr_windows p"
  "pr_receiver (destroy_allocator a p) = pr_receiver p" "pr_shell (destroy_allocator a p) = pr_shell p"
  "pr_alloc (destroy_allocator a p) = ahb_alloc_destroy a (pr_alloc p)"
  by (simp_all add: destroy_allocator_def)

lemma alloc_destroy_allocators:
  "al_allocators (ahb_alloc_destroy a al) = al_allocators al - {a}"
  by (simp add: ahb_alloc_destroy_def ndk_fault_def)

lemma stop_pipe_simps [simp]:
  "pr_objs (stop_pipe x b pp p) = (if b then pr_objs p - {x} else pr_objs p)" "pr_alloc (stop_pipe x b pp p) = pr_alloc p"
  "pr_receiver (stop_pipe x b pp p) = pr_receiver p" "pr_shell (stop_pipe x b pp p) = pr_shell p"
  by (simp_all add: stop_pipe_def)

lemma stop_pipe_fds:
  assumes "distinct (valid_ends pp)" "set (valid_ends pp) \<subseteq> pr_fds p" "b \<longrightarrow> x \<in> pr_objs p"
  shows "pr_fds (stop_pipe x b pp p) = pr_fds p - set (valid_ends pp)" "pr_fault (stop_pipe x b pp p) = pr_fault p"
  using assms by (simp_all add: stop_pipe_def close_fds_ok)

lemma stop_receiver_simps [simp]:
  "pr_objs (stop_receiver p) = pr_objs p" "pr_alloc (stop_receiver p) = pr_alloc p" "pr_shell (stop_receiver p) = pr_shell p"
  "\<not> rv_running (pr_receiver (stop_receiver p))"
  using receiver_stop_fds [of "pr_receiver p"]
  by (cases "ahb_registry_receiver_stop (pr_receiver p)"; simp add: stop_receiver_def)+

lemma stop_receiver_fds:
  assumes "set (receiver_fds (pr_receiver p)) \<subseteq> pr_fds p"
  shows "pr_fds (stop_receiver p) = pr_fds p - set (receiver_fds (pr_receiver p))" "pr_fault (stop_receiver p) = pr_fault p"
proof -
  obtain b rv where "ahb_registry_receiver_stop (pr_receiver p) = (receiver_fds (pr_receiver p), b, rv)"
    using receiver_stop_fds(1) by metis
  moreover have "distinct (receiver_fds (pr_receiver p))" by (simp add: receiver_fds_def)
  ultimately show "pr_fds (stop_receiver p) = pr_fds p - set (receiver_fds (pr_receiver p))" "pr_fault (stop_receiver p) = pr_fault p"
    using assms by (simp_all add: stop_receiver_def close_fds_ok)
qed

definition text_fds :: "'a shell_scheme \<Rightarrow> int list" where
  "text_fds st = close_pair (tx_ime_read st) (ts_ime_fd st) @ close_pair (tx_pipe_read st) (tx_pipe_fd st)"

lemma stop_text_simps [simp]:
  "pr_objs (stop_text p) = pr_objs p" "pr_alloc (stop_text p) = pr_alloc p" "pr_receiver (stop_text p) = pr_receiver p"
  "input_ends (pr_shell (stop_text p)) = input_ends (pr_shell p)"
  using text_destroy_fds(2) [of "pr_shell p"]
  by (cases "text_input_handler_destroy (pr_shell p)"; simp add: stop_text_def)+

lemma stop_text_fds:
  assumes "distinct (text_fds (pr_shell p))" "set (text_fds (pr_shell p)) \<subseteq> pr_fds p"
  shows "pr_fds (stop_text p) = pr_fds p - set (text_fds (pr_shell p))" "pr_fault (stop_text p) = pr_fault p"
proof -
  obtain sh where "text_input_handler_destroy (pr_shell p) = (text_fds (pr_shell p), sh)"
    using text_destroy_fds(1) [of "pr_shell p"] by (cases "text_input_handler_destroy (pr_shell p)") (simp add: text_fds_def)
  then show "pr_fds (stop_text p) = pr_fds p - set (text_fds (pr_shell p))" "pr_fault (stop_text p) = pr_fault p"
    using assms by (simp_all add: stop_text_def close_fds_ok)
qed

lemma stop_input_simps [simp]:
  "pr_objs (stop_input p) = pr_objs p" "pr_alloc (stop_input p) = pr_alloc p" "pr_receiver (stop_input p) = pr_receiver p"
  by (cases "input_handler_destroy (pr_shell p)"; simp add: stop_input_def)+

lemma stop_input_fds:
  assumes "distinct (input_ends (pr_shell p))" "set (input_ends (pr_shell p)) \<subseteq> pr_fds p"
  shows "pr_fds (stop_input p) = pr_fds p - set (input_ends (pr_shell p))" "pr_fault (stop_input p) = pr_fault p"
proof -
  obtain sh where "input_handler_destroy (pr_shell p) = (input_ends (pr_shell p), sh)"
    using input_destroy_fds [of "pr_shell p"] by (cases "input_handler_destroy (pr_shell p)") simp
  then show "pr_fds (stop_input p) = pr_fds p - set (input_ends (pr_shell p))" "pr_fault (stop_input p) = pr_fault p"
    using assms by (simp_all add: stop_input_def close_fds_ok)
qed

lemma destroy_balanced:
  assumes holds: "server_holds p0 sv p" and clients: "same_handles (pr_shell p) (clients_gone (pr_shell p))"
  shows "pr_fds (compositor_server_destroy clients_gone (Some sv) p) = pr_fds p0"
    and "pr_objs (compositor_server_destroy clients_gone (Some sv) p) = {}"
    and "pr_fault (compositor_server_destroy clients_gone (Some sv) p) = pr_fault p0"
    and "al_allocators (pr_alloc (compositor_server_destroy clients_gone (Some sv) p)) = al_allocators (pr_alloc p0)"
    and "\<not> rv_running (pr_receiver (compositor_server_destroy clients_gone (Some sv) p))"
proof -
  note h = holds [unfolded server_holds_def server_objs_def]
  define p2 where "p2 = (if sv_xwayland sv then drop_obj L_xwayland p else p)\<lparr>pr_shell := clients_gone (pr_shell p)\<rparr>"
  define A where "A = valid_ends (sv_resize_pipe sv)"
  define B where "B = valid_ends (sv_pause_pipe sv)"
  define C where "C = receiver_fds (pr_receiver p)"
  define D where "D = text_fds (clients_gone (pr_shell p))"
  define E where "E = input_ends (clients_gone (pr_shell p))"
  have fds: "server_fds sv p = A @ B @ C @ D @ E"
    using clients by (simp add: server_fds_def shell_fds_def A_def B_def C_def D_def E_def text_fds_def same_handles_def input_ends_def)
  have dist: "distinct (A @ B @ C @ D @ E)" and all: "pr_fds p = pr_fds p0 \<union> set (A @ B @ C @ D @ E)"
    and new: "set (A @ B @ C @ D @ E) \<inter> pr_fds p0 = {}" using h fds by auto
  have d: "distinct A" "distinct B" "distinct C" "distinct D" "distinct E" using dist by simp_all
  have sub: "set A \<subseteq> pr_fds p" "set B \<subseteq> pr_fds p - set A" "set C \<subseteq> pr_fds p - set A - set B"
    "set D \<subseteq> pr_fds p - set A - set B - set C" "set E \<subseteq> pr_fds p - set A - set B - set C - set D"
    unfolding all using dist by auto
  have left: "pr_fds p - set A - set B - set C - set D - set E = pr_fds p0" unfolding all using new by auto
  have objs: "pr_objs p = server_objs sv" and fault: "pr_fault p = pr_fault p0"
    and al: "al_allocators (pr_alloc p) - {sv_allocator sv} = al_allocators (pr_alloc p0)"
    using holds by (simp_all add: server_holds_def)
  have 2: "pr_fds p2 = pr_fds p" "pr_fault p2 = pr_fault p" "pr_objs p2 = pr_objs p - {L_xwayland}" "pr_receiver p2 = pr_receiver p"
    "pr_shell p2 = clients_gone (pr_shell p)" "pr_alloc p2 = pr_alloc p"
    unfolding p2_def using objs by (auto simp: server_objs_def)
  have has: "sv_resize_source sv \<longrightarrow> L_resize_source \<in> pr_objs p2" "sv_pause_source sv \<longrightarrow> L_pause_source \<in> pr_objs p2"
    unfolding 2(3) objs by (simp_all add: server_objs_def)
  define p3 where "p3 = stop_pipe L_resize_source (sv_resize_source sv) (sv_resize_pipe sv) p2"
  have 3: "pr_fds p3 = pr_fds p - set A" "pr_fault p3 = pr_fault p" "sv_pause_source sv \<longrightarrow> L_pause_source \<in> pr_objs p3"
    using stop_pipe_fds [OF d(1) [unfolded A_def], of p2, OF _ has(1)] sub(1) has(2) by (simp_all add: p3_def A_def 2)
  define p4 where "p4 = stop_pipe L_pause_source (sv_pause_source sv) (sv_pause_pipe sv) p3"
  have 4: "pr_fds p4 = pr_fds p - set A - set B" "pr_fault p4 = pr_fault p"
    using stop_pipe_fds [OF d(2) [unfolded B_def], of p3, OF _ 3(3)] sub(2) by (simp_all add: p4_def B_def 3)
  define p5 where "p5 = p4\<lparr>pr_windows := pr_windows p4 @ map WinRelease (pending_windows (sv_backend sv))\<rparr>"
  have 5: "pr_fds p5 = pr_fds p4" "pr_fault p5 = pr_fault p4" "receiver_fds (pr_receiver p5) = C" "pr_shell p5 = clients_gone (pr_shell p)"
    "pr_alloc p5 = pr_alloc p" "pr_objs p5 = {L_display, L_backend, L_renderer, L_scene}"
    by (auto simp: p5_def p4_def p3_def C_def 2 objs server_objs_def)
  define p6 where "p6 = stop_input (stop_text (stop_receiver p5))"
  have 6: "pr_fds (stop_receiver p5) = pr_fds p - set A - set B - set C" "pr_fault (stop_receiver p5) = pr_fault p"
    using stop_receiver_fds [of p5] sub(3) by (simp_all add: 5 4)
  have 7: "pr_fds (stop_text (stop_receiver p5)) = pr_fds p - set A - set B - set C - set D" "pr_fault (stop_text (stop_receiver p5)) = pr_fault p"
    using stop_text_fds [of "stop_receiver p5"] d(4) sub(4) by (simp_all add: 5 6 D_def)
  have 8: "pr_fds p6 = pr_fds p0" "pr_fault p6 = pr_fault p0"
    using stop_input_fds [of "stop_text (stop_receiver p5)"] d(5) sub(5) left fault by (simp_all add: p6_def 5 7 E_def)
  have 9: "pr_objs p6 = {L_display, L_backend, L_renderer, L_scene}" "pr_alloc p6 = pr_alloc p" "\<not> rv_running (pr_receiver p6)"
    by (simp_all add: p6_def 5)
  have destroy: "compositor_server_destroy clients_gone (Some sv) p = drop_obj L_display (backend_destroy (sv_backend sv)
      (drop_obj L_renderer (destroy_allocator (sv_allocator sv) (drop_obj L_scene p6))))"
    by (simp add: compositor_server_destroy_def Let_def p6_def p5_def p4_def p3_def p2_def)
  show "pr_fds (compositor_server_destroy clients_gone (Some sv) p) = pr_fds p0"
    and "pr_objs (compositor_server_destroy clients_gone (Some sv) p) = {}"
    and "pr_fault (compositor_server_destroy clients_gone (Some sv) p) = pr_fault p0"
    and "al_allocators (pr_alloc (compositor_server_destroy clients_gone (Some sv) p)) = al_allocators (pr_alloc p0)"
    and "\<not> rv_running (pr_receiver (compositor_server_destroy clients_gone (Some sv) p))"
    unfolding destroy using 8 9 al by (simp_all add: alloc_destroy_allocators insert_Diff_if)
qed

subsection \<open>What creation opens\<close>

definition new_fds :: "create_env \<Rightarrow> int list" where
  "new_fds e = pipe_ends (ce_resize_pipe e) @ pipe_ends (ce_pause_pipe e) @ pipe_ends (ce_input_pipe e) @
     pipe_ends (ce_ime_pipe e) @ pipe_ends (ce_text_pipe e) @ (case ce_receiver_socket e of None \<Rightarrow> [] | Some fd \<Rightarrow> [fd])"

definition socket_fds :: "create_env \<Rightarrow> int list" where
  "socket_fds e = (case ce_receiver_socket e of None \<Rightarrow> [] | Some fd \<Rightarrow> [fd])"

text \<open>Every descriptor made is fresh, and the input handler starts.\<close>

definition parts_ok :: "create_env \<Rightarrow> process \<Rightarrow> bool" where
  "parts_ok e p \<longleftrightarrow> distinct (new_fds e) \<and> (\<forall>fd \<in> set (new_fds e). 0 \<le> fd \<and> fd \<notin> pr_fds p) \<and>
     ce_input_pipe e \<noteq> None \<and> ce_input_add e \<and> ce_keyboard e \<and> \<not> rv_running (pr_receiver p)"

lemma make_pipe_simps [simp]:
  "pr_fds (make_pipe x pp b p) = pr_fds p \<union> set (pipe_ends pp)"
  "pr_objs (make_pipe x pp b p) = (if pp \<noteq> None \<and> b then insert x (pr_objs p) else pr_objs p)"
  "pr_alloc (make_pipe x pp b p) = pr_alloc p" "pr_receiver (make_pipe x pp b p) = pr_receiver p"
  "pr_shell (make_pipe x pp b p) = pr_shell p" "pr_fault (make_pipe x pp b p) = pr_fault p"
  by (auto simp: make_pipe_def pipe_ends_def Let_def split: option.split)

lemma valid_ends_fields: "\<forall>fd \<in> set (pipe_ends pp). 0 \<le> fd \<Longrightarrow> valid_ends (pipe_fields pp) = pipe_ends pp"
  by (cases pp) (auto simp: valid_ends_def pipe_fields_def pipe_ends_def)

lemma start_input_spec:
  assumes "ce_input_pipe e = Some (r, w)" "ce_input_add e" "ce_keyboard e" "0 \<le> r" "0 \<le> w"
  shows "pr_fds (start_input e p) = pr_fds p \<union> {r, w}" "pr_fault (start_input e p) = pr_fault p"
    "pr_objs (start_input e p) = pr_objs p" "pr_alloc (start_input e p) = pr_alloc p" "pr_receiver (start_input e p) = pr_receiver p"
    "input_ends (pr_shell (start_input e p)) = [r, w]"
  using assms by (simp_all add: start_input_def input_handler_init_def Let_def close_fds_def pipe_ends_def input_ends_def)

lemma table_fds [simp]: "text_fds (build_ascii_table km st) = text_fds st" "input_ends (build_ascii_table km (st :: shell)) = input_ends st"
  by (simp_all add: build_ascii_table_def text_fds_def input_ends_def Let_def split: option.split)

lemma text_init_fds:
  fixes st :: shell
  assumes "text_input_handler_init p1 p2 a g km st = (rc, closed, st')"
    and "\<forall>fd \<in> set (pipe_ends p1 @ pipe_ends p2). 0 \<le> fd" and "made = pipe_ends p1 @ (if p1 = None then [] else pipe_ends p2)"
  shows "closed = made \<and> text_fds st' = [] \<or> closed = [] \<and> text_fds st' = pipe_ends p1 @ pipe_ends p2 \<and> p1 \<noteq> None"
proof (cases p1)
  case None
  then show ?thesis using assms
    by (auto simp: text_input_handler_init_def Let_def pipe_ends_def text_fds_def close_pair_def text_statics_reset_def)
next
  case p1: (Some rw)
  obtain r w where rw: "rw = (r, w)" by fastforce
  show ?thesis
  proof (cases p2)
    case None
    then show ?thesis using assms p1 rw
      by (auto simp: text_input_handler_init_def Let_def pipe_ends_def text_fds_def close_pair_def text_statics_reset_def)
  next
    case (Some xy)
    obtain x y where xy: "xy = (x, y)" by fastforce
    show ?thesis
    proof (cases "a \<and> g")
      case True
      have "\<exists>s3. (st' = build_ascii_table km s3 \<or> st' = s3) \<and> tx_ime_read s3 = r \<and> ts_ime_fd s3 = w \<and>
          tx_pipe_read s3 = x \<and> tx_pipe_fd s3 = y \<and> closed = []"
        using assms(1) p1 rw Some xy True
        by (force simp: text_input_handler_init_def Let_def split: if_splits)
      then obtain s3 where s3: "st' = build_ascii_table km s3 \<or> st' = s3" "tx_ime_read s3 = r" "ts_ime_fd s3 = w"
        "tx_pipe_read s3 = x" "tx_pipe_fd s3 = y" "closed = []" by blast
      have "text_fds s3 = [r, w, x, y]" using s3 assms(2) p1 rw Some xy by (simp add: text_fds_def close_pair_def pipe_ends_def)
      then have "closed = [] \<and> text_fds st' = [r, w, x, y]" using s3 by auto
      then show ?thesis using p1 rw Some xy by (simp add: pipe_ends_def)
    next
      case False
      then have "closed = [r, w, x, y] \<and> text_fds st' = []"
        using assms(1) p1 rw Some xy
        by (auto simp: text_input_handler_init_def Let_def text_fds_def close_pair_def split: if_splits)
      then show ?thesis using p1 rw Some xy assms(3) by (simp add: pipe_ends_def)
    qed
  qed
qed

lemma text_init_input:
  fixes st :: shell
  shows "input_ends (snd (snd (text_input_handler_init p1 p2 a g km st))) = input_ends st"
  by (simp add: text_input_handler_init_def Let_def input_ends_def text_statics_reset_def set_active_text_input_def
      build_ascii_table_def split: option.split prod.split)

lemma start_text_spec:
  assumes fresh: "distinct (pipe_ends (ce_ime_pipe e) @ pipe_ends (ce_text_pipe e))"
    "\<forall>fd \<in> set (pipe_ends (ce_ime_pipe e) @ pipe_ends (ce_text_pipe e)). 0 \<le> fd \<and> fd \<notin> pr_fds p"
  shows "pr_fds (start_text e p) = pr_fds p \<union> set (text_fds (pr_shell (start_text e p)))" "pr_fault (start_text e p) = pr_fault p"
    and "text_fds (pr_shell (start_text e p)) = [] \<or>
      text_fds (pr_shell (start_text e p)) = pipe_ends (ce_ime_pipe e) @ pipe_ends (ce_text_pipe e)"
    and "pr_objs (start_text e p) = pr_objs p" "pr_alloc (start_text e p) = pr_alloc p" "pr_receiver (start_text e p) = pr_receiver p"
    and "input_ends (pr_shell (start_text e p)) = input_ends (pr_shell p)"
proof -
  let ?init = "text_input_handler_init (ce_ime_pipe e) (ce_text_pipe e) (ce_text_add e) (ce_text_global e) (ce_text_keymap e) (pr_shell p)"
  obtain rc closed sh where init: "?init = (rc, closed, sh)" by (metis prod_cases3)
  have sh: "pr_shell (start_text e p) = sh" by (simp add: start_text_def init)
  show "input_ends (pr_shell (start_text e p)) = input_ends (pr_shell p)"
    unfolding sh using text_init_input [of "ce_ime_pipe e" "ce_text_pipe e" "ce_text_add e" "ce_text_global e" "ce_text_keymap e" "pr_shell p"]
    by (simp add: init)
  show "pr_objs (start_text e p) = pr_objs p" "pr_alloc (start_text e p) = pr_alloc p" "pr_receiver (start_text e p) = pr_receiver p"
    by (simp_all add: start_text_def init)
  let ?made = "pipe_ends (ce_ime_pipe e) @ (if ce_ime_pipe e = None then [] else pipe_ends (ce_text_pipe e))"
  have nn: "\<forall>fd \<in> set ?made. 0 \<le> fd" and dj: "set ?made \<inter> pr_fds p = {}" and di: "distinct ?made"
    using fresh by (auto split: if_splits)
  have made: "closed = ?made \<and> text_fds sh = [] \<or> closed = [] \<and> text_fds sh = ?made"
    using text_init_fds [OF init _ refl] fresh(2) by (auto split: if_splits)
  let ?q = "(open_fds ?made p)\<lparr>pr_shell := sh\<rparr>"
  have st: "start_text e p = close_fds closed ?q" by (simp add: start_text_def init Let_def)
  show "pr_fds (start_text e p) = pr_fds p \<union> set (text_fds (pr_shell (start_text e p)))"
    unfolding st using made
  proof
    assume "closed = ?made \<and> text_fds sh = []"
    then show "pr_fds (close_fds closed ?q) = pr_fds p \<union> set (text_fds (pr_shell (close_fds closed ?q)))"
      using close_fds_ok(1) [OF di, of ?q] dj by auto
  qed (simp add: close_fds_def)
  show "pr_fault (start_text e p) = pr_fault p"
    unfolding st using made
  proof
    assume "closed = ?made \<and> text_fds sh = []"
    then show "pr_fault (close_fds closed ?q) = pr_fault p" using close_fds_ok(2) [OF di, of ?q] by simp
  qed (simp add: close_fds_def)
  show "text_fds (pr_shell (start_text e p)) = [] \<or>
      text_fds (pr_shell (start_text e p)) = pipe_ends (ce_ime_pipe e) @ pipe_ends (ce_text_pipe e)"
    unfolding sh using text_init_fds [OF init _ refl] fresh(2) by auto
qed

lemma start_receiver_spec:
  assumes fresh: "\<forall>fd \<in> set (socket_fds e). 0 \<le> fd \<and> fd \<notin> pr_fds p" and idle: "\<not> rv_running (pr_receiver p)"
  shows "pr_fds (start_receiver e p) = pr_fds p \<union> set (receiver_fds (pr_receiver (start_receiver e p)))"
    and "pr_fault (start_receiver e p) = pr_fault p"
    and "receiver_fds (pr_receiver (start_receiver e p)) = [] \<or> receiver_fds (pr_receiver (start_receiver e p)) = socket_fds e"
    and "pr_objs (start_receiver e p) = pr_objs p" "pr_alloc (start_receiver e p) = pr_alloc p" "pr_shell (start_receiver e p) = pr_shell p"
proof -
  show "pr_objs (start_receiver e p) = pr_objs p" "pr_alloc (start_receiver e p) = pr_alloc p" "pr_shell (start_receiver e p) = pr_shell p"
    by (auto simp: start_receiver_def Let_def split: prod.split)
  show "pr_fds (start_receiver e p) = pr_fds p \<union> set (receiver_fds (pr_receiver (start_receiver e p)))"
    and "pr_fault (start_receiver e p) = pr_fault p"
    and "receiver_fds (pr_receiver (start_receiver e p)) = [] \<or> receiver_fds (pr_receiver (start_receiver e p)) = socket_fds e"
    using assms
    by (cases "ce_receiver_socket e"; cases "ce_bind e"; cases "ce_listen e"; cases "ce_thread e";
        simp add: start_receiver_def ahb_registry_receiver_start_def Let_def receiver_fds_def close_fds_def close_fd1_def socket_fds_def)+
qed

lemma create_parts_spec:
  assumes ok: "parts_ok e p" and parts: "create_parts e x p = (xw, p')"
  shows "\<exists>tx rx. pr_fds p' = pr_fds p \<union> set (pipe_ends (ce_resize_pipe e) @ pipe_ends (ce_pause_pipe e) @ rx @ tx @ pipe_ends (ce_input_pipe e)) \<and>
      receiver_fds (pr_receiver p') = rx \<and> text_fds (pr_shell p') = tx \<and> input_ends (pr_shell p') = pipe_ends (ce_input_pipe e) \<and>
      (rx = [] \<or> rx = socket_fds e) \<and> (tx = [] \<or> tx = pipe_ends (ce_ime_pipe e) @ pipe_ends (ce_text_pipe e))"
    and "pr_fault p' = pr_fault p" "pr_alloc p' = pr_alloc p" "xw \<longleftrightarrow> x \<and> ce_xwayland e"
    and "pr_objs p' = pr_objs p \<union> {L_scene} \<union> (if ce_resize_pipe e \<noteq> None \<and> ce_resize_add e then {L_resize_source} else {}) \<union>
      (if ce_pause_pipe e \<noteq> None \<and> ce_pause_add e then {L_pause_source} else {}) \<union> (if xw then {L_xwayland} else {})"
proof -
  note ok' = ok [unfolded parts_ok_def new_fds_def, folded socket_fds_def]
  obtain r w where rw: "ce_input_pipe e = Some (r, w)" using ok' by auto
  have in_ok: "ce_input_add e" "ce_keyboard e" "0 \<le> r" "0 \<le> w" using ok' rw by (simp_all add: pipe_ends_def)
  define p3 where "p3 = make_pipe L_pause_source (ce_pause_pipe e) (ce_pause_add e) (make_pipe L_resize_source (ce_resize_pipe e) (ce_resize_add e) (make_obj L_scene p))"
  define p4 where "p4 = p3\<lparr>pr_shell := (pr_shell p3)\<lparr>cs_seat := True\<rparr>\<rparr>"
  have 4: "pr_fds p4 = pr_fds p \<union> set (pipe_ends (ce_resize_pipe e)) \<union> set (pipe_ends (ce_pause_pipe e))" "pr_fault p4 = pr_fault p"
    "pr_alloc p4 = pr_alloc p" "pr_receiver p4 = pr_receiver p"
    "pr_objs p4 = pr_objs p \<union> {L_scene} \<union> (if ce_resize_pipe e \<noteq> None \<and> ce_resize_add e then {L_resize_source} else {}) \<union>
      (if ce_pause_pipe e \<noteq> None \<and> ce_pause_add e then {L_pause_source} else {})"
    by (auto simp: p4_def p3_def)
  note i = start_input_spec [OF rw in_ok, of p4]
  let ?i = "start_input e p4" and ?t = "start_text e (start_input e p4)" and ?r = "start_receiver e (start_text e (start_input e p4))"
  have ends: "pipe_ends (ce_input_pipe e) = [r, w]" by (simp add: rw pipe_ends_def)
  have dist: "distinct (pipe_ends (ce_resize_pipe e) @ pipe_ends (ce_pause_pipe e) @ pipe_ends (ce_input_pipe e) @
      pipe_ends (ce_ime_pipe e) @ pipe_ends (ce_text_pipe e) @ socket_fds e)"
    and new: "\<forall>fd \<in> set (pipe_ends (ce_resize_pipe e) @ pipe_ends (ce_pause_pipe e) @ pipe_ends (ce_input_pipe e) @
      pipe_ends (ce_ime_pipe e) @ pipe_ends (ce_text_pipe e) @ socket_fds e). 0 \<le> fd \<and> fd \<notin> pr_fds p"
    using ok' by blast+
  have ft: "distinct (pipe_ends (ce_ime_pipe e) @ pipe_ends (ce_text_pipe e))"
    "\<forall>fd \<in> set (pipe_ends (ce_ime_pipe e) @ pipe_ends (ce_text_pipe e)). 0 \<le> fd \<and> fd \<notin> pr_fds ?i"
    using dist new unfolding i(1) 4(1) ends by auto
  note t = start_text_spec [OF ft]
  have "set (text_fds (pr_shell ?t)) \<subseteq> set (pipe_ends (ce_ime_pipe e) @ pipe_ends (ce_text_pipe e))" using t(3) by auto
  moreover have "\<forall>fd \<in> set (socket_fds e). 0 \<le> fd \<and> fd \<notin> pr_fds ?i \<and> fd \<notin> set (pipe_ends (ce_ime_pipe e) @ pipe_ends (ce_text_pipe e))"
    using dist new unfolding i(1) 4(1) ends by auto
  ultimately have fr: "\<forall>fd \<in> set (socket_fds e). 0 \<le> fd \<and> fd \<notin> pr_fds ?t" unfolding t(1) by blast
  have idle: "\<not> rv_running (pr_receiver ?t)" using ok' by (simp add: t(6) i(5) 4(4))
  note r = start_receiver_spec [OF fr idle]
  have p': "xw = (x \<and> ce_xwayland e)" "p' = (if xw then make_obj L_xwayland ?r else ?r)"
    using parts unfolding create_parts_def Let_def p3_def [symmetric] p4_def [symmetric] by auto
  have same: "pr_fds p' = pr_fds ?r" "pr_receiver p' = pr_receiver ?r" "pr_shell p' = pr_shell ?r" "pr_fault p' = pr_fault ?r"
    "pr_alloc p' = pr_alloc ?r" "pr_objs p' = pr_objs ?r \<union> (if xw then {L_xwayland} else {})" by (auto simp: p'(2))
  show "pr_fault p' = pr_fault p" "pr_alloc p' = pr_alloc p" by (simp_all add: same r t i 4)
  show "xw \<longleftrightarrow> x \<and> ce_xwayland e" by (simp add: p'(1))
  show "pr_objs p' = pr_objs p \<union> {L_scene} \<union> (if ce_resize_pipe e \<noteq> None \<and> ce_resize_add e then {L_resize_source} else {}) \<union>
      (if ce_pause_pipe e \<noteq> None \<and> ce_pause_add e then {L_pause_source} else {}) \<union> (if xw then {L_xwayland} else {})"
    by (simp only: same(6) r(4) t(4) i(3) 4(5))
  have "pr_fds p' = pr_fds p \<union> set (pipe_ends (ce_resize_pipe e) @ pipe_ends (ce_pause_pipe e) @ receiver_fds (pr_receiver ?r) @
      text_fds (pr_shell ?t) @ pipe_ends (ce_input_pipe e))"
    unfolding same(1) r(1) t(1) i(1) 4(1) ends by auto
  moreover have "input_ends (pr_shell p') = pipe_ends (ce_input_pipe e)" by (simp add: same(3) r(6) t(7) i(6) ends)
  moreover have "text_fds (pr_shell p') = text_fds (pr_shell ?t)" by (simp add: same(3) r(6))
  ultimately show "\<exists>tx rx. pr_fds p' = pr_fds p \<union> set (pipe_ends (ce_resize_pipe e) @ pipe_ends (ce_pause_pipe e) @ rx @ tx @ pipe_ends (ce_input_pipe e)) \<and>
      receiver_fds (pr_receiver p') = rx \<and> text_fds (pr_shell p') = tx \<and> input_ends (pr_shell p') = pipe_ends (ce_input_pipe e) \<and>
      (rx = [] \<or> rx = socket_fds e) \<and> (tx = [] \<or> tx = pipe_ends (ce_ime_pipe e) @ pipe_ends (ce_text_pipe e))"
    using r(3) t(3) same(2) by metis
qed

subsection \<open>A created server\<close>

text \<open>The steps before the output succeed.\<close>

definition core_ok :: "create_env \<Rightarrow> bool" where
  "core_ok e \<longleftrightarrow> ce_calloc e \<and> ce_display e \<and> ce_backend e \<and>
     (ce_egl_display e \<and> ce_egl_init e \<and> ce_egl_context e \<and> ce_wlr_egl e \<and> ce_gles2 e \<or> ce_autocreate e) \<and>
     pf_calloc (ce_platform e) \<and> ce_out_calloc e"

lemma renderer_spec:
  assumes "L_egl_context \<notin> pr_objs p" "L_wlr_egl \<notin> pr_objs p"
  shows "fst (create_renderer e p) \<longleftrightarrow> ce_egl_display e \<and> ce_egl_init e \<and> ce_egl_context e \<and> ce_wlr_egl e \<and> ce_gles2 e \<or> ce_autocreate e"
    and "snd (create_renderer e p) = (if fst (create_renderer e p) then make_obj L_renderer p else p)"
proof -
  have [simp]: "drop_obj x (make_obj x p) = p" if "x \<notin> pr_objs p" for x
    using that by (simp add: drop_obj_def make_obj_def)
  show "fst (create_renderer e p) \<longleftrightarrow> ce_egl_display e \<and> ce_egl_init e \<and> ce_egl_context e \<and> ce_wlr_egl e \<and> ce_gles2 e \<or> ce_autocreate e"
    by (simp add: create_renderer_def try_create_gles2_renderer_def Let_def)
  show "snd (create_renderer e p) = (if fst (create_renderer e p) then make_obj L_renderer p else p)"
    using assms by (simp add: create_renderer_def try_create_gles2_renderer_def Let_def)
qed

text \<open>The process and the output when only the socket is missing.\<close>

definition before_parts :: "create_env \<Rightarrow> process \<Rightarrow> process" where
  "before_parts e p =
     (let p2 = make_obj L_renderer (make_obj L_backend (make_obj L_display (p\<lparr>pr_shell := calloc_server (pr_shell p)\<rparr>)))
      in p2\<lparr>pr_alloc := snd (ahb_allocator_create (ce_platform e) (pr_alloc p))\<rparr>)"

definition first_output :: "create_env \<Rightarrow> nat \<Rightarrow> out_server" where
  "first_output e window =
     (the (android_output_create True (ce_control e) window (fst (ce_size e)) (snd (ce_size e))))\<lparr>os_pipe_open := (ce_pause_pipe e \<noteq> None)\<rparr>"

definition first_backend :: "create_env \<Rightarrow> nat \<Rightarrow> android_backend" where
  "first_backend e window = \<lparr>bk_started = False, bk_dmabuf = ahb_dmabuf_export_available (ce_platform e), bk_outputs = [first_output e window]\<rparr>"

lemma create_conv:
  assumes core: "core_ok e" and fresh: "pr_objs p = {}"
  shows "compositor_server_create e window x p =
    (let (xw, p4) = create_parts e x (before_parts e p); a = al_heap (pr_alloc p) in
     case ce_socket e of
       None \<Rightarrow> (None, err_alloc a (first_backend e window) p4)
     | Some name \<Rightarrow>
       (case backend_start (on_new_output (ce_out_env e)) (first_backend e window) of
          None \<Rightarrow> (None, p4\<lparr>pr_fault := True\<rparr>)
        | Some b2 \<Rightarrow>
            (Some \<lparr>sv_backend = b2, sv_allocator = a,
               sv_resize_pipe = pipe_fields (ce_resize_pipe e), sv_resize_source = ce_resize_pipe e \<noteq> None \<and> ce_resize_add e,
               sv_pause_pipe = pipe_fields (ce_pause_pipe e), sv_pause_source = ce_pause_pipe e \<noteq> None \<and> ce_pause_add e,
               sv_xwayland = xw, sv_socket = name\<rparr>, set_server_output b2 p4)))"
proof -
  note c = core [unfolded core_ok_def]
  let ?p1 = "make_obj L_backend (make_obj L_display (p\<lparr>pr_shell := calloc_server (pr_shell p)\<rparr>))"
  have r: "create_renderer e ?p1 = (True, make_obj L_renderer ?p1)"
    using renderer_spec [of ?p1 e] c fresh by (simp add: prod_eq_iff)
  show ?thesis
    using c unfolding compositor_server_create_def Let_def r
    by (simp add: android_backend_create_def ahb_allocator_create_def android_output_create_def before_parts_def
        first_backend_def first_output_def Let_def cong: option.case_cong split: prod.split)
qed

lemma set_server_output_simps [simp]:
  "pr_fds (set_server_output b p) = pr_fds p" "pr_objs (set_server_output b p) = pr_objs p" "pr_alloc (set_server_output b p) = pr_alloc p"
  "pr_receiver (set_server_output b p) = pr_receiver p" "pr_windows (set_server_output b p) = pr_windows p"
  "pr_fault (set_server_output b p) = pr_fault p" "text_fds (pr_shell (set_server_output b p)) = text_fds (pr_shell p)"
  "shell_fds (pr_shell (set_server_output b p)) = shell_fds (pr_shell p)"
  "input_ends (pr_shell (set_server_output b p)) = input_ends (pr_shell p)"
  "tx_ime_read (pr_shell (set_server_output b p)) = tx_ime_read (pr_shell p)" "ts_ime_fd (pr_shell (set_server_output b p)) = ts_ime_fd (pr_shell p)"
  "tx_pipe_read (pr_shell (set_server_output b p)) = tx_pipe_read (pr_shell p)" "tx_pipe_fd (pr_shell (set_server_output b p)) = tx_pipe_fd (pr_shell p)"
  by (simp_all add: set_server_output_def text_fds_def input_ends_def shell_fds_def)

lemma start_output: "backend_start (on_new_output env) (first_backend e window) \<noteq> None"
  by (simp add: backend_start_def first_backend_def first_output_def on_new_output_def wlr_output_commit_state_def
      output_commit_def android_output_create_def)

lemma before_parts_simps [simp]:
  "pr_fds (before_parts e p) = pr_fds p" "pr_fault (before_parts e p) = pr_fault p" "pr_windows (before_parts e p) = pr_windows p"
  "pr_receiver (before_parts e p) = pr_receiver p" "pr_objs (before_parts e p) = pr_objs p \<union> {L_display, L_backend, L_renderer}"
  "pr_alloc (before_parts e p) = snd (ahb_allocator_create (ce_platform e) (pr_alloc p))"
  by (auto simp: before_parts_def Let_def)

lemma create_holds:
  assumes core: "core_ok e" and fresh: "pr_objs p = {}" and al: "al_heap (pr_alloc p) \<notin> al_allocators (pr_alloc p)"
    and ok: "parts_ok e p" and create: "compositor_server_create e window x p = (Some sv, p')"
  shows "server_holds p sv p'" and "ce_socket e \<noteq> None"
proof -
  obtain xw p4 where parts: "create_parts e x (before_parts e p) = (xw, p4)" by fastforce
  have okb: "parts_ok e (before_parts e p)" using ok by (simp add: parts_ok_def)
  obtain tx rx where
    fds: "pr_fds p4 = pr_fds p \<union> set (pipe_ends (ce_resize_pipe e) @ pipe_ends (ce_pause_pipe e) @ rx @ tx @ pipe_ends (ce_input_pipe e))"
    and held: "receiver_fds (pr_receiver p4) = rx" "text_fds (pr_shell p4) = tx" "input_ends (pr_shell p4) = pipe_ends (ce_input_pipe e)"
    and which: "rx = [] \<or> rx = socket_fds e" "tx = [] \<or> tx = pipe_ends (ce_ime_pipe e) @ pipe_ends (ce_text_pipe e)"
    using create_parts_spec(1) [OF okb parts] by auto
  note p4 = create_parts_spec(2-5) [OF okb parts]
  obtain name b2 where n: "ce_socket e = Some name"
    and b: "backend_start (on_new_output (ce_out_env e)) (first_backend e window) = Some b2"
    and sv: "sv = \<lparr>sv_backend = b2, sv_allocator = al_heap (pr_alloc p),
       sv_resize_pipe = pipe_fields (ce_resize_pipe e), sv_resize_source = ce_resize_pipe e \<noteq> None \<and> ce_resize_add e,
       sv_pause_pipe = pipe_fields (ce_pause_pipe e), sv_pause_source = ce_pause_pipe e \<noteq> None \<and> ce_pause_add e,
       sv_xwayland = xw, sv_socket = name\<rparr>" "p' = set_server_output b2 p4"
    using create unfolding create_conv [OF core fresh] parts by (auto simp: Let_def split: option.splits)
  show "ce_socket e \<noteq> None" using n by simp
  have nn: "\<forall>fd \<in> set (pipe_ends (ce_resize_pipe e)). 0 \<le> fd" "\<forall>fd \<in> set (pipe_ends (ce_pause_pipe e)). 0 \<le> fd"
    and dist: "distinct (pipe_ends (ce_resize_pipe e) @ pipe_ends (ce_pause_pipe e) @ pipe_ends (ce_input_pipe e) @
      pipe_ends (ce_ime_pipe e) @ pipe_ends (ce_text_pipe e) @ socket_fds e)"
    and new: "\<forall>fd \<in> set (pipe_ends (ce_resize_pipe e) @ pipe_ends (ce_pause_pipe e) @ pipe_ends (ce_input_pipe e) @
      pipe_ends (ce_ime_pipe e) @ pipe_ends (ce_text_pipe e) @ socket_fds e). fd \<notin> pr_fds p"
    using ok unfolding parts_ok_def new_fds_def socket_fds_def by auto
  have sfds: "server_fds sv p' = pipe_ends (ce_resize_pipe e) @ pipe_ends (ce_pause_pipe e) @ rx @ tx @ pipe_ends (ce_input_pipe e)"
    using held by (simp add: server_fds_def sv shell_fds_def text_fds_def valid_ends_fields nn)
  have "distinct (server_fds sv p')" unfolding sfds using which dist by auto
  moreover have "set (server_fds sv p') \<inter> pr_fds p = {}" unfolding sfds using which new by auto
  moreover have "pr_objs p' = server_objs sv"
    unfolding sv(2) set_server_output_simps p4(4) server_objs_def sv(1) using fresh by auto
  moreover have "al_allocators (pr_alloc p') = insert (al_heap (pr_alloc p)) (al_allocators (pr_alloc p))"
    using core by (simp add: sv(2) p4(2) ahb_allocator_create_def core_ok_def)
  moreover have "pr_fds p' = pr_fds p \<union> set (server_fds sv p')" using fds unfolding sfds by (simp only: sv(2) set_server_output_simps)
  moreover have "sv_allocator sv = al_heap (pr_alloc p)" "pr_fault p' = pr_fault p" using p4(1) by (simp_all add: sv)
  ultimately show "server_holds p sv p'" using fresh al unfolding server_holds_def by simp
qed

section \<open>Properties\<close>

lemma err_alloc_simps:
  assumes "pr_objs p \<supseteq> {L_display, L_backend, L_renderer}"
  shows "pr_fds (err_alloc a b p) = pr_fds p" "pr_objs (err_alloc a b p) = pr_objs p - {L_display, L_backend, L_renderer}"
    "pr_fault (err_alloc a b p) = pr_fault p" "pr_receiver (err_alloc a b p) = pr_receiver p"
    "al_allocators (pr_alloc (err_alloc a b p)) = al_allocators (pr_alloc p) - {a}"
  using assms by (auto simp: err_alloc_def err_renderer_def err_backend_def err_display_def alloc_destroy_allocators)

lemma early_failure:
  assumes fail: "\<not> core_ok e" and idle: "pr_objs p = {}" and al: "al_heap (pr_alloc p) \<notin> al_allocators (pr_alloc p)"
  shows "let (r, q) = compositor_server_create e window x p in
    r = None \<and> pr_fds q = pr_fds p \<and> pr_objs q = {} \<and> pr_fault q = pr_fault p \<and> pr_windows q = pr_windows p \<and>
    al_allocators (pr_alloc q) = al_allocators (pr_alloc p) \<and> pr_receiver q = pr_receiver p \<and>
    al_heap (pr_alloc p) \<le> al_heap (pr_alloc q)"
proof -
  let ?p1 = "make_obj L_backend (make_obj L_display (p\<lparr>pr_shell := calloc_server (pr_shell p)\<rparr>))"
  have f: "L_egl_context \<notin> pr_objs ?p1" "L_wlr_egl \<notin> pr_objs ?p1" using idle by simp_all
  obtain ok p2 where r: "create_renderer e ?p1 = (ok, p2)" by fastforce
  have p2: "p2 = (if ok then make_obj L_renderer ?p1 else ?p1)"
    and ok: "ok \<longleftrightarrow> ce_egl_display e \<and> ce_egl_init e \<and> ce_egl_context e \<and> ce_wlr_egl e \<and> ce_gles2 e \<or> ce_autocreate e"
    using renderer_spec [OF f, of e] r by simp_all
  note errs = err_alloc_def err_renderer_def err_backend_def err_display_def backend_destroy_def drop_obj_def
  consider "\<not> ce_calloc e" | "ce_calloc e" "\<not> ce_display e" | "ce_calloc e" "ce_display e" "\<not> ce_backend e"
    | "ce_calloc e" "ce_display e" "ce_backend e" "\<not> ok"
    | "ce_calloc e" "ce_display e" "ce_backend e" ok "\<not> pf_calloc (ce_platform e)"
    | "ce_calloc e" "ce_display e" "ce_backend e" ok "pf_calloc (ce_platform e)" "\<not> ce_out_calloc e"
    using fail ok by (auto simp: core_ok_def)
  then show ?thesis
  proof cases
    case 4
    then show ?thesis using idle unfolding compositor_server_create_def Let_def r
      by (simp add: android_backend_create_def errs p2)
  next
    case 5
    then show ?thesis using idle unfolding compositor_server_create_def Let_def r
      by (simp add: android_backend_create_def errs p2 ahb_allocator_create_def)
  next
    case 6
    then show ?thesis using idle al unfolding compositor_server_create_def Let_def r
      by (simp add: android_backend_create_def errs p2 ahb_allocator_create_def android_output_create_def
          destroy_allocator_def ahb_alloc_destroy_def)
  qed (use idle in \<open>simp_all add: compositor_server_create_def android_backend_create_def errs Let_def\<close>)
qed

text \<open>
  A creation that fails before the output exists (no memory, no display, no backend, no renderer,
  no allocator, no output) releases everything it made: descriptors, library objects, allocators and
  window references are as before, and nothing was released twice.
\<close>

theorem early_failure_clean:
  assumes fail: "\<not> core_ok e" and idle: "pr_objs p = {}" and al: "al_heap (pr_alloc p) \<notin> al_allocators (pr_alloc p)"
  shows "let (r, q) = compositor_server_create e window x p in
    r = None \<and> pr_fds q = pr_fds p \<and> pr_objs q = {} \<and> pr_fault q = pr_fault p \<and> pr_windows q = pr_windows p \<and>
    al_allocators (pr_alloc q) = al_allocators (pr_alloc p) \<and> pr_receiver q = pr_receiver p"
  using early_failure [OF assms, of window x] by (auto simp: Let_def split: prod.splits)

lemma receiver_running:
  assumes "\<not> rv_running (pr_receiver p)"
  shows "rv_running (pr_receiver (start_receiver e p)) \<longleftrightarrow>
    ce_ahb_socket e \<and> ce_receiver_socket e \<noteq> None \<and> ce_bind e \<and> ce_listen e \<and> ce_thread e"
  using assms by (simp add: start_receiver_def ahb_registry_receiver_start_def Let_def split: option.split)

lemma parts_receiver:
  assumes "\<not> rv_running (pr_receiver p)" "create_parts e x p = (xw, p')"
  shows "rv_running (pr_receiver p') \<longleftrightarrow> ce_ahb_socket e \<and> ce_receiver_socket e \<noteq> None \<and> ce_bind e \<and> ce_listen e \<and> ce_thread e"
proof -
  have t: "pr_receiver (start_text e q) = pr_receiver q" "pr_receiver (start_input e q) = pr_receiver q" for q
    by (simp_all add: start_text_def start_input_def Let_def split: prod.split)
  define q where "q = (make_pipe L_pause_source (ce_pause_pipe e) (ce_pause_add e) (make_pipe L_resize_source (ce_resize_pipe e) (ce_resize_add e) (make_obj L_scene p)))
    \<lparr>pr_shell := (pr_shell (make_pipe L_pause_source (ce_pause_pipe e) (ce_pause_add e) (make_pipe L_resize_source (ce_resize_pipe e) (ce_resize_add e) (make_obj L_scene p))))\<lparr>cs_seat := True\<rparr>\<rparr>"
  have "pr_receiver q = pr_receiver p" by (simp add: q_def)
  then have "\<not> rv_running (pr_receiver (start_text e (start_input e q)))" using assms(1) t by simp
  from receiver_running [OF this, of e] assms(2) show ?thesis
    unfolding create_parts_def Let_def q_def [symmetric] by auto
qed

text \<open>
  C36: When only the Wayland socket cannot be added, creation fails but the error path releases just the
  allocator, the renderer, the backend with its output and the display. The pipes of resizing, pausing
  and input stay open, the scene, the event sources and XWayland are never destroyed, and the registry
  receiver's thread keeps running with its socket.
\<close>

theorem late_failure_leaks:
  assumes core: "core_ok e" and idle: "pr_objs p = {}" and al: "al_heap (pr_alloc p) \<notin> al_allocators (pr_alloc p)"
    and parts: "parts_ok e p" and socket: "ce_socket e = None"
  shows "let (r, q) = compositor_server_create e window x p in
    r = None \<and> pr_fault q = pr_fault p \<and> al_allocators (pr_alloc q) = al_allocators (pr_alloc p) \<and>
    set (pipe_ends (ce_resize_pipe e) @ pipe_ends (ce_pause_pipe e) @ pipe_ends (ce_input_pipe e)) \<subseteq> pr_fds q - pr_fds p \<and>
    pr_objs q = {L_scene} \<union> (if ce_resize_pipe e \<noteq> None \<and> ce_resize_add e then {L_resize_source} else {}) \<union>
      (if ce_pause_pipe e \<noteq> None \<and> ce_pause_add e then {L_pause_source} else {}) \<union> (if x \<and> ce_xwayland e then {L_xwayland} else {}) \<and>
    (rv_running (pr_receiver q) \<longleftrightarrow> ce_ahb_socket e \<and> ce_receiver_socket e \<noteq> None \<and> ce_bind e \<and> ce_listen e \<and> ce_thread e)"
proof -
  obtain xw p4 where pt: "create_parts e x (before_parts e p) = (xw, p4)" by fastforce
  have okb: "parts_ok e (before_parts e p)" using parts by (simp add: parts_ok_def)
  note sp = create_parts_spec [OF okb pt]
  have run: "rv_running (pr_receiver p4) \<longleftrightarrow> ce_ahb_socket e \<and> ce_receiver_socket e \<noteq> None \<and> ce_bind e \<and> ce_listen e \<and> ce_thread e"
    by (rule parts_receiver [OF _ pt]) (use parts in \<open>simp add: parts_ok_def\<close>)
  have objs: "{L_display, L_backend, L_renderer} \<subseteq> pr_objs p4" unfolding sp(5) by auto
  note err = err_alloc_simps [OF objs, of "al_heap (pr_alloc p)" "first_backend e window"]
  have create: "compositor_server_create e window x p = (None, err_alloc (al_heap (pr_alloc p)) (first_backend e window) p4)"
    using socket by (simp add: create_conv [OF core idle] pt Let_def)
  have new: "set (pipe_ends (ce_resize_pipe e) @ pipe_ends (ce_pause_pipe e) @ pipe_ends (ce_input_pipe e)) \<inter> pr_fds p = {}"
    using parts unfolding parts_ok_def new_fds_def by auto
  have "set (pipe_ends (ce_resize_pipe e) @ pipe_ends (ce_pause_pipe e) @ pipe_ends (ce_input_pipe e)) \<subseteq> pr_fds p4"
    using sp(1) by auto
  then have f1: "set (pipe_ends (ce_resize_pipe e) @ pipe_ends (ce_pause_pipe e) @ pipe_ends (ce_input_pipe e)) \<subseteq> pr_fds p4 - pr_fds p"
    using new by blast
  have f2: "al_allocators (pr_alloc p4) - {al_heap (pr_alloc p)} = al_allocators (pr_alloc p)"
    using core al by (simp add: sp(3) ahb_allocator_create_def core_ok_def)
  have f3: "pr_objs p4 - {L_display, L_backend, L_renderer} = {L_scene} \<union> (if ce_resize_pipe e \<noteq> None \<and> ce_resize_add e then {L_resize_source} else {}) \<union>
      (if ce_pause_pipe e \<noteq> None \<and> ce_pause_add e then {L_pause_source} else {}) \<union> (if x \<and> ce_xwayland e then {L_xwayland} else {})"
    unfolding sp(5) sp(4) using idle by auto
  have f4: "pr_fault p4 = pr_fault p" using sp(2) by simp
  show ?thesis
    unfolding create Let_def prod.case err by (intro conjI refl f1 f2 f3 f4 run)
qed

lemma create_shell_ends:
  assumes core: "core_ok e" and idle: "pr_objs p = {}" and none: "ce_input_pipe e = None"
    and create: "compositor_server_create e window x p = (Some sv, p')"
  shows "input_ends (pr_shell p') = [0, 0]"
proof -
  obtain xw p4 where pt: "create_parts e x (before_parts e p) = (xw, p4)" by fastforce
  obtain b2 where p': "p' = set_server_output b2 p4"
    using create unfolding create_conv [OF core idle] pt by (auto simp: Let_def split: option.splits)
  have r: "pr_shell (start_receiver e q) = pr_shell q" for q by (simp add: start_receiver_def Let_def split: prod.split)
  have t: "input_ends (pr_shell (start_text e q)) = input_ends (pr_shell q)" for q
    using text_init_input [of "ce_ime_pipe e" "ce_text_pipe e" "ce_text_add e" "ce_text_global e" "ce_text_keymap e" "pr_shell q"]
    by (cases "text_input_handler_init (ce_ime_pipe e) (ce_text_pipe e) (ce_text_add e) (ce_text_global e) (ce_text_keymap e) (pr_shell q)")
       (simp add: start_text_def)
  have i: "pr_shell (start_input e q) = pr_shell q" for q using none by (simp add: start_input_def input_handler_init_def)
  have b: "input_ends (pr_shell (before_parts e p)) = [0, 0]" by (simp add: before_parts_def Let_def calloc_server_def input_ends_def)
  have "input_ends (sh\<lparr>cs_seat := True\<rparr>) = input_ends sh" for sh :: shell by (simp add: input_ends_def)
  then show ?thesis
    using pt b unfolding p' set_server_output_simps create_parts_def Let_def by (auto simp: r t i split: if_splits)
qed

text \<open>
  C37: When \<^verbatim>\<open>pipe2\<close> fails for the input handler, the failure is tolerated but the handler's descriptors
  stay zero as \<^verbatim>\<open>calloc\<close> left them: taking the compositor down closes descriptor 0 of the process, and
  then closes it again.
\<close>

theorem failed_input_pipe_closes_stdin:
  assumes core: "core_ok e" and idle: "pr_objs p = {}" and none: "ce_input_pipe e = None"
    and create: "compositor_server_create e window x p = (Some sv, p')"
    and clients: "same_handles (pr_shell p') (clients_gone (pr_shell p'))"
  shows "let q = compositor_server_destroy clients_gone (Some sv) p' in 0 \<notin> pr_fds q \<and> pr_fault q"
proof -
  let ?sh = "clients_gone (pr_shell p')"
  have ends: "input_ends ?sh = [0, 0]"
    using create_shell_ends [OF core idle none create] clients by (simp add: same_handles_def input_ends_def)
  define p5 where "p5 = (let p1 = (if sv_xwayland sv then drop_obj L_xwayland p' else p'); p2 = p1\<lparr>pr_shell := clients_gone (pr_shell p1)\<rparr>;
      p4 = stop_pipe L_pause_source (sv_pause_source sv) (sv_pause_pipe sv) (stop_pipe L_resize_source (sv_resize_source sv) (sv_resize_pipe sv) p2)
    in stop_text (stop_receiver (p4\<lparr>pr_windows := pr_windows p4 @ map WinRelease (pending_windows (sv_backend sv))\<rparr>)))"
  have q: "compositor_server_destroy clients_gone (Some sv) p' = drop_obj L_display (backend_destroy (sv_backend sv)
      (drop_obj L_renderer (destroy_allocator (sv_allocator sv) (drop_obj L_scene (stop_input p5)))))"
    by (simp add: compositor_server_destroy_def p5_def Let_def)
  have "input_ends (pr_shell p5) = [0, 0]" using ends by (simp add: p5_def Let_def)
  then obtain sh where "input_handler_destroy (pr_shell p5) = ([0, 0], sh)"
    using input_destroy_fds [of "pr_shell p5"] by (cases "input_handler_destroy (pr_shell p5)") simp
  then have "stop_input p5 = close_fds [0, 0] (p5\<lparr>pr_shell := sh\<rparr>)" by (simp add: stop_input_def)
  then have "0 \<notin> pr_fds (stop_input p5)" "pr_fault (stop_input p5)" by (simp_all add: close_fds_def close_fd1_def)
  then show ?thesis by (simp add: q Let_def)
qed

subsection \<open>Witnesses\<close>

definition sample_platform :: platform where
  "sample_platform = \<lparr>pf_allocate = (\<lambda>_. 0), pf_describe = (\<lambda>d. d), pf_lock = (\<lambda>_ _ _. (0, 1)), pf_native_handle = None,
     pf_dup = (\<lambda>fd. fd), pf_calloc = True\<rparr>"

definition sample_create :: create_env where
  "sample_create = \<lparr>ce_calloc = True, ce_display = True, ce_backend = True, ce_egl_display = True, ce_egl_init = True,
     ce_egl_context = True, ce_wlr_egl = True, ce_gles2 = False, ce_autocreate = True, ce_platform = sample_platform,
     ce_out_calloc = True, ce_control = True, ce_size = (1080, 2400), ce_resize_pipe = Some (10, 11), ce_resize_add = True,
     ce_pause_pipe = Some (12, 13), ce_pause_add = True, ce_input_pipe = Some (14, 15), ce_input_add = True,
     ce_keyboard = True, ce_xkb = True, ce_keymap = True, ce_ime_pipe = Some (16, 17), ce_text_pipe = Some (18, 19),
     ce_text_add = True, ce_text_global = True, ce_text_keymap = None, ce_ahb_socket = True, ce_receiver_socket = Some 20,
     ce_bind = True, ce_listen = True, ce_thread = True, ce_xwayland = True, ce_socket = Some ''wayland-0'',
     ce_out_env = \<lparr>oe_accept = True, oe_txn_ok = True, oe_lock = None\<rparr>\<rparr>"

definition sample_shell :: shell where
  "sample_shell = input_server.extend input_server0
     \<lparr>sh_output = None, sh_pending = (0, 0), sh_popups = [], sh_views = [], sh_clients = [], sh_client_count = 0\<rparr>"

definition sample_process :: process where
  "sample_process = \<lparr>pr_fds = {0, 1, 2}, pr_objs = {}, pr_alloc = alloc_start,
     pr_receiver = \<lparr>rv_server_fd = -1, rv_running = False\<rparr>, pr_registry = \<lparr>rg_entries = [], rg_refs = (\<lambda>_. 0), rg_fault = False\<rparr>,
     pr_shell = sample_shell, pr_windows = [], pr_fault = False\<rparr>"

lemma sample_core: "core_ok sample_create"
  by (simp add: core_ok_def sample_create_def sample_platform_def)

lemma sample_idle: "pr_objs sample_process = {}" "al_heap (pr_alloc sample_process) \<notin> al_allocators (pr_alloc sample_process)"
  by (simp_all add: sample_process_def alloc_start_def)

lemma sample_parts: "parts_ok sample_create sample_process"
  by (simp add: parts_ok_def new_fds_def sample_create_def sample_process_def pipe_ends_def)

lemma same_handles_refl [simp]: "same_handles st st"
  by (simp add: same_handles_def)

lemma sample_created:
  assumes "core_ok e" "ce_socket e \<noteq> None"
  shows "\<exists>sv p'. compositor_server_create e window x sample_process = (Some sv, p')"
  using assms start_output [of "ce_out_env e" e window] create_conv [OF assms(1) sample_idle(1), of window x]
  by (auto simp: Let_def split: prod.splits)

theorem early_failure_clean_witness:
  "fst (compositor_server_create (sample_create\<lparr>ce_autocreate := False\<rparr>) 3 True sample_process) = None"
proof -
  have "\<not> core_ok (sample_create\<lparr>ce_autocreate := False\<rparr>)" by (simp add: core_ok_def sample_create_def)
  from early_failure_clean [OF this sample_idle, of 3 True] show ?thesis by (auto split: prod.splits)
qed

theorem late_failure_leaks_witness:
  "10 \<in> pr_fds (snd (compositor_server_create (sample_create\<lparr>ce_socket := None\<rparr>) 3 True sample_process))"
proof -
  have "core_ok (sample_create\<lparr>ce_socket := None\<rparr>)" "parts_ok (sample_create\<lparr>ce_socket := None\<rparr>) sample_process"
    using sample_core sample_parts by (simp_all add: core_ok_def parts_ok_def new_fds_def)
  from late_failure_leaks [OF this(1) sample_idle this(2), of 3 True]
  show ?thesis by (auto simp: pipe_ends_def sample_create_def split: prod.splits)
qed

theorem failed_input_pipe_closes_stdin_witness:
  "\<exists>sv p'. compositor_server_create (sample_create\<lparr>ce_input_pipe := None\<rparr>) 3 True sample_process = (Some sv, p') \<and>
     0 \<notin> pr_fds (compositor_server_destroy (\<lambda>st. st) (Some sv) p')"
proof -
  have core: "core_ok (sample_create\<lparr>ce_input_pipe := None\<rparr>)" using sample_core by (simp add: core_ok_def)
  obtain sv p' where c: "compositor_server_create (sample_create\<lparr>ce_input_pipe := None\<rparr>) 3 True sample_process = (Some sv, p')"
    using sample_created [OF core, of 3 True] by (auto simp: sample_create_def)
  have "0 \<notin> pr_fds (compositor_server_destroy (\<lambda>st. st) (Some sv) p')"
    using failed_input_pipe_closes_stdin [OF core sample_idle(1) _ c, of "\<lambda>st. st"] by (simp add: Let_def)
  then show ?thesis using c by blast
qed

end
