(* ===== verification/JniBridge.thy ===== *)
theory JniBridge
  imports ServerProps
begin

text \<open>
  \<^verbatim>\<open>compositor/native/src/jni_bridge.c\<close>: the entry points the app calls. Each takes the server mutex for
  its whole body, so a call is one step; the event-loop thread runs between them. Log output is left
  out; what a Java object yields (a window, the bytes of a string) is an argument.
\<close>

subsection \<open>State\<close>

text \<open>
  The statics of the bridge, the process it runs in, whether the event loop was asked to end, the
  environment variables, the directories made, and the bridge's own window calls.
\<close>

record jni =
  g_server :: "server option"
  g_thread_running :: bool
  g_stop_asked :: bool
  g_process :: process
  g_environ :: "string \<rightharpoonup> string"
  g_mkdirs :: "string list"
  g_windows :: "out_call list"

definition with_server :: "(server \<Rightarrow> process \<Rightarrow> server \<times> process) \<Rightarrow> jni \<Rightarrow> jni" where
  "with_server f st =
     (case g_server st of None \<Rightarrow> st
      | Some sv \<Rightarrow> let (sv', p) = f sv (g_process st) in st\<lparr>g_server := Some sv', g_process := p\<rparr>)"

definition with_shell :: "(shell \<Rightarrow> shell) \<Rightarrow> jni \<Rightarrow> jni" where
  "with_shell f = with_server (\<lambda>sv p. (sv, p\<lparr>pr_shell := f (pr_shell p)\<rparr>))"

definition with_output :: "(out_server \<Rightarrow> out_server) \<Rightarrow> jni \<Rightarrow> jni" where
  "with_output f = with_server (\<lambda>sv p. (sv\<lparr>sv_backend := (sv_backend sv)\<lparr>bk_outputs := map f (bk_outputs (sv_backend sv))\<rparr>\<rparr>, p))"

subsection \<open>Start and stop\<close>

definition set_env :: "string \<Rightarrow> string \<Rightarrow> jni \<Rightarrow> jni" where
  "set_env name v st = st\<lparr>g_environ := (g_environ st)(name \<mapsto> v)\<rparr>"

definition window_call :: "out_call \<Rightarrow> jni \<Rightarrow> jni" where
  "window_call c st = st\<lparr>g_windows := g_windows st @ [c]\<rparr>"

text \<open>
  \<open>window\<close> is what \<^verbatim>\<open>ANativeWindow_fromSurface\<close> returns (with a reference), the strings are the bytes
  \<^verbatim>\<open>GetStringUTFChars\<close> yields (the outer option of \<open>xkb\<close> is the Java reference), \<open>thread_ok\<close> is
  \<^verbatim>\<open>pthread_create\<close>.
\<close>

definition native_start_compositor ::
    "create_env \<Rightarrow> bool \<Rightarrow> (shell \<Rightarrow> shell) \<Rightarrow> nat option \<Rightarrow> string option \<Rightarrow> string option option \<Rightarrow> bool \<Rightarrow> jni \<Rightarrow> jni" where
  "native_start_compositor e thread_ok clients_gone window cache_dir xkb xwayland_enabled st =
     (if g_server st \<noteq> None then st
      else
        (case window of None \<Rightarrow> st
         | Some w \<Rightarrow>
           let st1 = window_call (WinAcquire w) st;
               st2 = (case cache_dir of None \<Rightarrow> st1
                      | Some dir \<Rightarrow> (set_env ''XDG_RUNTIME_DIR'' dir st1)\<lparr>g_mkdirs := g_mkdirs st1 @ [dir]\<rparr>);
               st3 = (case xkb of Some (Some path) \<Rightarrow> set_env ''XKB_CONFIG_ROOT'' path st2 | _ \<Rightarrow> st2);
               (server, p) = compositor_server_create e w xwayland_enabled (g_process st3);
               st4 = window_call (WinRelease w) (st3\<lparr>g_server := server, g_process := p\<rparr>) in
           (case server of None \<Rightarrow> st4
            | Some sv \<Rightarrow>
                if thread_ok then st4\<lparr>g_thread_running := True, g_stop_asked := False\<rparr>
                else st4\<lparr>g_process := compositor_server_destroy clients_gone (Some sv) p, g_server := None,
                         g_thread_running := False\<rparr>)))"

definition native_stop_compositor :: "(shell \<Rightarrow> shell) \<Rightarrow> jni \<Rightarrow> jni" where
  "native_stop_compositor clients_gone st =
     (case g_server st of None \<Rightarrow> st
      | Some sv \<Rightarrow>
        let st1 = st\<lparr>g_stop_asked := compositor_server_stop (Some sv) (g_stop_asked st)\<rparr>;
            st2 = (if g_thread_running st1 then st1\<lparr>g_thread_running := False\<rparr> else st1)
        in st2\<lparr>g_process := compositor_server_destroy clients_gone (Some sv) (g_process st2), g_server := None\<rparr>)"

subsection \<open>Queries\<close>

definition native_get_client_count :: "jni \<Rightarrow> s32" where
  "native_get_client_count st =
     (case g_server st of None \<Rightarrow> 0 | Some _ \<Rightarrow> compositor_server_get_client_count (Some (pr_shell (g_process st))))"

definition native_get_socket_name :: "jni \<Rightarrow> string option" where
  "native_get_socket_name st = compositor_server_get_socket (g_server st)"

definition native_get_xwayland_display :: "string \<Rightarrow> jni \<Rightarrow> string option" where
  "native_get_xwayland_display name st = compositor_server_get_xwayland_display name (g_server st)"

definition native_get_ime_pipe_fd :: "jni \<Rightarrow> int" where
  "native_get_ime_pipe_fd st = (case g_server st of None \<Rightarrow> -1 | Some _ \<Rightarrow> tx_ime_read (pr_shell (g_process st)))"

definition native_has_active_text_input :: "jni \<Rightarrow> bool" where
  "native_has_active_text_input st \<longleftrightarrow> g_server st \<noteq> None \<and> text_input_has_active_text_input (pr_shell (g_process st))"

subsection \<open>Output\<close>

definition native_resize_output :: "int \<Rightarrow> int \<Rightarrow> jni \<Rightarrow> jni" where
  "native_resize_output width height =
     with_server (\<lambda>sv p. (sv, p\<lparr>pr_shell := snd (compositor_server_resize_output (snd (sv_resize_pipe sv)) width height (pr_shell p))\<rparr>))"

definition native_pause_compositor :: "jni \<Rightarrow> jni" where
  "native_pause_compositor st =
     (if g_server st = None \<or> \<not> g_thread_running st then st else with_output compositor_server_pause st)"

definition native_resume_compositor :: "nat option \<Rightarrow> jni \<Rightarrow> jni" where
  "native_resume_compositor window st =
     (if g_server st = None \<or> \<not> g_thread_running st then st
      else case window of None \<Rightarrow> st
        | Some w \<Rightarrow> window_call (WinRelease w) (with_output (compositor_server_resume (Some w)) (window_call (WinAcquire w) st)))"

subsection \<open>Input\<close>

text \<open>
  \<open>cap\<close> is the room of the wake pipe, \<open>widen\<close> the conversion of a Java float to a C double; a
  timestamp is truncated to 32 bits.
\<close>

definition timestamp :: "u64 \<Rightarrow> u32" where
  "timestamp ms = ucast ms"

definition native_send_touch_event ::
    "nat \<Rightarrow> (u32 \<Rightarrow> double) \<Rightarrow> s32 \<Rightarrow> int \<Rightarrow> u32 \<Rightarrow> u32 \<Rightarrow> u64 \<Rightarrow> jni \<Rightarrow> jni" where
  "native_send_touch_event cap widen tid action x y timestamp_ms =
     with_shell (let ts = timestamp timestamp_ms in
       if action = 0 then input_handler_send_touch_down cap tid (widen x) (widen y) ts
       else if action = 1 then input_handler_send_touch_up cap tid ts
       else if action = 2 then input_handler_send_touch_motion cap tid (widen x) (widen y) ts
       else if action = 3 then input_handler_send_touch_cancel cap tid ts
       else (\<lambda>sh. sh))"

definition native_send_key_event :: "(string \<Rightarrow> u16) \<Rightarrow> nat \<Rightarrow> int \<Rightarrow> int \<Rightarrow> u64 \<Rightarrow> jni \<Rightarrow> jni" where
  "native_send_key_event key cap android_key_code action timestamp_ms =
     with_shell (input_handler_send_key key cap android_key_code (if action = 0 then 1 else 0) (timestamp timestamp_ms))"

definition native_send_pointer_motion :: "nat \<Rightarrow> (u32 \<Rightarrow> double) \<Rightarrow> u32 \<Rightarrow> u32 \<Rightarrow> u64 \<Rightarrow> jni \<Rightarrow> jni" where
  "native_send_pointer_motion cap widen x y timestamp_ms =
     with_shell (input_handler_send_pointer_motion cap (widen x) (widen y) (timestamp timestamp_ms))"

definition native_send_pointer_button :: "nat \<Rightarrow> u32 \<Rightarrow> int \<Rightarrow> u64 \<Rightarrow> jni \<Rightarrow> jni" where
  "native_send_pointer_button cap button action timestamp_ms =
     with_shell (input_handler_send_pointer_button cap button (if action = 0 then 1 else 0) (timestamp timestamp_ms))"

definition native_send_pointer_scroll :: "nat \<Rightarrow> (u32 \<Rightarrow> double) \<Rightarrow> u32 \<Rightarrow> u32 \<Rightarrow> u64 \<Rightarrow> jni \<Rightarrow> jni" where
  "native_send_pointer_scroll cap widen dx dy timestamp_ms =
     with_shell (input_handler_send_pointer_scroll cap (widen dx) (widen dy) (timestamp timestamp_ms))"

subsection \<open>Text\<close>

text \<open>\<open>text\<close> is null, or a string whose characters may not be available.\<close>

definition native_commit_text :: "bool \<Rightarrow> wake_write \<Rightarrow> bytes option option \<Rightarrow> jni \<Rightarrow> jni" where
  "native_commit_text alloc_ok w jtext st =
     (case jtext of None \<Rightarrow> st
      | Some chars \<Rightarrow>
        with_shell (\<lambda>sh. case chars of None \<Rightarrow> sh | Some s \<Rightarrow> text_input_handle_commit_text alloc_ok w (Some s) sh) st)"

definition sanitize_delete_count :: "s32 \<Rightarrow> u32" where
  "sanitize_delete_count n = (if sint n \<le> 0 then 0 else if sint n > 256 then 256 else n)"

definition native_delete_surrounding_text :: "bool \<Rightarrow> wake_write \<Rightarrow> s32 \<Rightarrow> s32 \<Rightarrow> jni \<Rightarrow> jni" where
  "native_delete_surrounding_text alloc_ok w before_length after_length =
     with_shell (text_input_handle_delete_surrounding_text alloc_ok w
       (sanitize_delete_count before_length) (sanitize_delete_count after_length))"

definition native_delete_surrounding_text_in_code_points :: "bool \<Rightarrow> wake_write \<Rightarrow> s32 \<Rightarrow> s32 \<Rightarrow> jni \<Rightarrow> jni" where
  "native_delete_surrounding_text_in_code_points alloc_ok w before_length after_length =
     with_shell (text_input_handle_delete_surrounding_text_in_code_points alloc_ok w
       (sanitize_delete_count before_length) (sanitize_delete_count after_length))"

text \<open>The handler only notes that the keyboard was shown or hidden.\<close>

definition native_ime_shown :: "jni \<Rightarrow> jni" where "native_ime_shown = with_shell (\<lambda>sh. sh)"
definition native_ime_hidden :: "jni \<Rightarrow> jni" where "native_ime_hidden = with_shell (\<lambda>sh. sh)"

subsection \<open>Runs\<close>

text \<open>
  A call from the app, or a step of the event loop: any change of the handlers' state and of the
  outputs the loop's handlers make.
\<close>

datatype jni_op =
    J_start create_env bool "shell \<Rightarrow> shell" "nat option" "string option" "string option option" bool
  | J_stop "shell \<Rightarrow> shell"
  | J_resize int int
  | J_pause
  | J_resume "nat option"
  | J_touch nat "u32 \<Rightarrow> double" s32 int u32 u32 u64
  | J_key "string \<Rightarrow> u16" nat int int u64
  | J_motion nat "u32 \<Rightarrow> double" u32 u32 u64
  | J_button nat u32 int u64
  | J_scroll nat "u32 \<Rightarrow> double" u32 u32 u64
  | J_commit bool wake_write "bytes option option"
  | J_delete bool wake_write s32 s32
  | J_delete_code_points bool wake_write s32 s32
  | J_loop "shell \<Rightarrow> shell" "out_server \<Rightarrow> out_server"

fun jni_step :: "jni_op \<Rightarrow> jni \<Rightarrow> jni" where
  "jni_step (J_start e t cg w dir xkb xw) st = native_start_compositor e t cg w dir xkb xw st"
| "jni_step (J_stop cg) st = native_stop_compositor cg st"
| "jni_step (J_resize w h) st = native_resize_output w h st"
| "jni_step J_pause st = native_pause_compositor st"
| "jni_step (J_resume w) st = native_resume_compositor w st"
| "jni_step (J_touch cap wd i a x y ts) st = native_send_touch_event cap wd i a x y ts st"
| "jni_step (J_key k cap c a ts) st = native_send_key_event k cap c a ts st"
| "jni_step (J_motion cap wd x y ts) st = native_send_pointer_motion cap wd x y ts st"
| "jni_step (J_button cap b a ts) st = native_send_pointer_button cap b a ts st"
| "jni_step (J_scroll cap wd dx dy ts) st = native_send_pointer_scroll cap wd dx dy ts st"
| "jni_step (J_commit a w t) st = native_commit_text a w t st"
| "jni_step (J_delete a w b f) st = native_delete_surrounding_text a w b f st"
| "jni_step (J_delete_code_points a w b f) st = native_delete_surrounding_text_in_code_points a w b f st"
| "jni_step (J_loop f g) st = (if g_thread_running st then with_output g (with_shell f st) else st)"

fun jni_run :: "jni_op list \<Rightarrow> jni \<Rightarrow> jni" where
  "jni_run [] st = st"
| "jni_run (x # xs) st = jni_run xs (jni_step x st)"

end
