(* ===== verification/JniProps.thy ===== *)
theory JniProps
  imports JniBridge
begin

text \<open>
  The life of the compositor as the app drives it: over any sequence of calls and event-loop steps the
  bridge holds a server exactly while its thread runs, and gives back everything when it stops, for the
  starts \<open>clean_start\<close> names.
\<close>

subsection \<open>What the calls leave alone\<close>

lemma same_handles_trans: "\<lbrakk>same_handles a b; same_handles b c\<rbrakk> \<Longrightarrow> same_handles a c"
  by (simp add: same_handles_def)

lemma send_handles [simp]: "same_handles sh (send_event cap ev sh)"
  by (simp add: send_event_def wake_compositor_def same_handles_def split: prod.split bool.split)

lemma input_handles [simp]:
  "same_handles sh (input_handler_send_key key cap c a ts sh)"
  "same_handles sh (input_handler_send_touch_down cap i x y ts sh)" "same_handles sh (input_handler_send_touch_up cap i ts sh)"
  "same_handles sh (input_handler_send_touch_motion cap i x y ts sh)" "same_handles sh (input_handler_send_touch_cancel cap i ts sh)"
  "same_handles sh (input_handler_send_pointer_motion cap x y ts sh)" "same_handles sh (input_handler_send_pointer_button cap b a ts sh)"
  "same_handles sh (input_handler_send_pointer_scroll cap x y ts sh)"
  by (simp_all add: input_handler_send_key_def input_handler_send_touch_down_def input_handler_send_touch_up_def
      input_handler_send_touch_motion_def input_handler_send_touch_cancel_def input_handler_send_pointer_motion_def
      input_handler_send_pointer_button_def input_handler_send_pointer_scroll_def Let_def)

lemma text_handles [simp]:
  "same_handles sh (text_enqueued w r sh)" "same_handles sh (text_input_handle_commit_text a w t sh)"
  "same_handles sh (text_input_handle_delete a w b f cp sh)"
  "same_handles sh (text_input_handle_delete_surrounding_text a w b f sh)"
  "same_handles sh (text_input_handle_delete_surrounding_text_in_code_points a w b f sh)"
proof -
  have e: "same_handles sh (text_enqueued w r sh)" for w r
    by (simp add: text_enqueued_def same_handles_def split: prod.split)
  then show "same_handles sh (text_enqueued w r sh)" .
  show "same_handles sh (text_input_handle_commit_text a w t sh)"
    by (simp add: text_input_handle_commit_text_def e split: option.split)
  have d: "same_handles sh (text_input_handle_delete a w b f cp sh)" for cp
    by (simp add: text_input_handle_delete_def e)
  then show "same_handles sh (text_input_handle_delete a w b f cp sh)" .
  show "same_handles sh (text_input_handle_delete_surrounding_text a w b f sh)"
    "same_handles sh (text_input_handle_delete_surrounding_text_in_code_points a w b f sh)"
    by (simp_all add: text_input_handle_delete_surrounding_text_def text_input_handle_delete_surrounding_text_in_code_points_def d)
qed

subsection \<open>Invariant\<close>

text \<open>
  The starts the invariants are about: one that fails before the output exists, or one in which every
  descriptor made is fresh, the input handler gets its pipe, its event source and its keyboard, and the
  Wayland socket is added. A start without the socket or without the input pipe is not among them: what
  those leave behind or close twice is stated in \<open>ServerProps\<close>.
\<close>

definition clean_start :: "create_env \<Rightarrow> process \<Rightarrow> bool" where
  "clean_start e p \<longleftrightarrow> \<not> core_ok e \<or> parts_ok e p \<and> ce_socket e \<noteq> None"

text \<open>
  \<open>starts\<close> says which starts the history may contain. What libwayland and the event loop run does not
  touch the handlers' descriptors.
\<close>

fun op_ok :: "(create_env \<Rightarrow> process \<Rightarrow> bool) \<Rightarrow> jni_op \<Rightarrow> jni \<Rightarrow> bool" where
  "op_ok starts (J_start e t cg w dir xkb xw) st \<longleftrightarrow> (\<forall>sh. same_handles sh (cg sh)) \<and>
     (g_server st = None \<longrightarrow> starts e (g_process st))"
| "op_ok starts (J_stop cg) st \<longleftrightarrow> (\<forall>sh. same_handles sh (cg sh))"
| "op_ok starts (J_loop f g) st \<longleftrightarrow> (\<forall>sh. same_handles sh (f sh))"
| "op_ok starts _ st \<longleftrightarrow> True"

fun jni_ok :: "(create_env \<Rightarrow> process \<Rightarrow> bool) \<Rightarrow> jni_op list \<Rightarrow> jni \<Rightarrow> bool" where
  "jni_ok starts [] st \<longleftrightarrow> True"
| "jni_ok starts (x # xs) st \<longleftrightarrow> op_ok starts x st \<and> jni_ok starts xs (jni_step x st)"

text \<open>\<open>p0\<close> is the process before the first start.\<close>

definition idle :: "process \<Rightarrow> process \<Rightarrow> bool" where
  "idle p0 p \<longleftrightarrow> pr_fds p = pr_fds p0 \<and> pr_objs p = {} \<and> pr_fault p = pr_fault p0 \<and> \<not> rv_running (pr_receiver p) \<and>
     al_allocators (pr_alloc p) = al_allocators (pr_alloc p0)"

definition heap_ok :: "process \<Rightarrow> bool" where
  "heap_ok p \<longleftrightarrow> (\<forall>a \<in> al_allocators (pr_alloc p). a < al_heap (pr_alloc p))"

definition jni_inv :: "process \<Rightarrow> jni \<Rightarrow> bool" where
  "jni_inv p0 st \<longleftrightarrow> pr_objs p0 = {} \<and> heap_ok (g_process st) \<and> (\<forall>w. win_refs (g_windows st) w = 0) \<and>
     (case g_server st of None \<Rightarrow> \<not> g_thread_running st \<and> idle p0 (g_process st)
      | Some sv \<Rightarrow> g_thread_running st \<and> server_holds p0 sv (g_process st))"

lemma holds_idle: "\<lbrakk>idle p0 p; server_holds p sv p'; pr_objs p0 = {}\<rbrakk> \<Longrightarrow> server_holds p0 sv p'"
  by (simp add: idle_def server_holds_def)

lemma inv_with_server:
  assumes inv: "jni_inv p0 st"
    and keep: "\<And>sv p. server_holds p0 sv p \<Longrightarrow> server_holds p0 (fst (f sv p)) (snd (f sv p)) \<and> pr_alloc (snd (f sv p)) = pr_alloc p"
  shows "jni_inv p0 (with_server f st)"
proof (cases "g_server st")
  case None
  then show ?thesis using inv by (simp add: with_server_def)
next
  case (Some sv)
  obtain sv' p where f: "f sv (g_process st) = (sv', p)" by fastforce
  show ?thesis using inv keep [of sv "g_process st"] Some f by (simp add: with_server_def jni_inv_def heap_ok_def)
qed

lemma holds_shell: "\<lbrakk>server_holds p0 sv p; same_handles (pr_shell p) sh\<rbrakk> \<Longrightarrow> server_holds p0 sv (p\<lparr>pr_shell := sh\<rparr>)"
  using same_handles_fds [of "pr_shell p" sh] by (simp add: server_holds_def server_fds_def)

lemma holds_backend: "server_holds p0 (sv\<lparr>sv_backend := b\<rparr>) p \<longleftrightarrow> server_holds p0 sv p"
  by (simp add: server_holds_def server_fds_def server_objs_def)

lemma inv_with_shell: "\<lbrakk>jni_inv p0 st; \<And>sh. same_handles sh (f sh)\<rbrakk> \<Longrightarrow> jni_inv p0 (with_shell f st)"
  unfolding with_shell_def by (rule inv_with_server) (simp_all add: holds_shell)

lemma inv_with_output: "jni_inv p0 st \<Longrightarrow> jni_inv p0 (with_output f st)"
  unfolding with_output_def by (rule inv_with_server) (simp_all add: holds_backend)

lemma heap_create:
  assumes "heap_ok p" "compositor_server_create e w x p = (r, q)" "core_ok e" "pr_objs p = {}" "parts_ok e p"
  shows "heap_ok q"
proof -
  obtain xw p4 where pt: "create_parts e x (before_parts e p) = (xw, p4)" by fastforce
  have okb: "parts_ok e (before_parts e p)" using assms(5) by (simp add: parts_ok_def)
  have "pr_alloc p4 = snd (ahb_allocator_create (ce_platform e) (pr_alloc p))" using create_parts_spec(3) [OF okb pt] by simp
  then have p4: "heap_ok p4" using assms(1,3) by (auto simp: heap_ok_def ahb_allocator_create_def core_ok_def)
  then have "heap_ok (err_alloc a b p4)" for a b
    by (auto simp: heap_ok_def err_alloc_def err_renderer_def err_backend_def err_display_def ahb_alloc_destroy_def ndk_fault_def)
  then show ?thesis using assms(2) p4 unfolding create_conv [OF assms(3,4)] pt
    by (auto simp: Let_def heap_ok_def split: option.splits)
qed

lemma heap_destroy: "heap_ok p \<Longrightarrow> heap_ok (compositor_server_destroy cg (Some sv) p)"
proof -
  assume h: "heap_ok p"
  have "pr_alloc (compositor_server_destroy cg (Some sv) p) = ahb_alloc_destroy (sv_allocator sv) (pr_alloc p)"
    by (simp add: compositor_server_destroy_def Let_def)
  then show ?thesis using h by (auto simp: heap_ok_def ahb_alloc_destroy_def ndk_fault_def)
qed

lemma destroy_idle:
  assumes "server_holds p0 sv p" "\<And>sh. same_handles sh (cg sh)"
  shows "idle p0 (compositor_server_destroy cg (Some sv) p)"
  using destroy_balanced [OF assms(1), of cg] assms(2) by (simp add: idle_def)

text \<open>What a creation leaves, in the bridge's terms.\<close>

lemma create_inv:
  assumes idle: "idle p0 p" and p0: "pr_objs p0 = {}" and heap: "heap_ok p"
    and ok: "\<not> core_ok e \<or> parts_ok e p \<and> ce_socket e \<noteq> None"
    and create: "compositor_server_create e w x p = (r, q)"
  shows "heap_ok q" and "case r of None \<Rightarrow> idle p0 q | Some sv \<Rightarrow> server_holds p0 sv q"
proof -
  have objs: "pr_objs p = {}" using idle by (simp add: idle_def)
  have al: "al_heap (pr_alloc p) \<notin> al_allocators (pr_alloc p)" using heap by (auto simp: heap_ok_def)
  have "heap_ok q \<and> (case r of None \<Rightarrow> idle p0 q | Some sv \<Rightarrow> server_holds p0 sv q)"
  proof (cases "core_ok e")
    case False
    from early_failure [OF False objs al, of w x] create idle heap show ?thesis
      by (auto simp: idle_def heap_ok_def)
  next
    case True
    then have parts: "parts_ok e p" and sock: "ce_socket e \<noteq> None" using ok by blast+
    obtain xw p4 where pt: "create_parts e x (before_parts e p) = (xw, p4)" by fastforce
    have "r \<noteq> None" using create start_output [of "ce_out_env e" e w] sock
      unfolding create_conv [OF True objs] pt by (auto simp: Let_def split: option.splits)
    then obtain sv where r: "r = Some sv" by blast
    have "server_holds p sv q" by (rule create_holds(1) [OF True objs al parts create [unfolded r]])
    then show ?thesis using heap_create [OF heap create True objs parts] holds_idle [OF idle _ p0] r by simp
  qed
  then show "heap_ok q" and "case r of None \<Rightarrow> idle p0 q | Some sv \<Rightarrow> server_holds p0 sv q" by blast+
qed

lemma refs_pair: "win_refs (cs @ [WinAcquire w]) v = win_refs cs v + (if v = w then 1 else 0)"
  "win_refs (cs @ [WinRelease w]) v = win_refs cs v - (if v = w then 1 else 0)"
  by (auto simp: win_refs_def)

lemma start_compositor_inv:
  assumes inv: "jni_inv p0 st" and ok: "op_ok clean_start (J_start e t cg w dir xkb xw) st"
  shows "jni_inv p0 (native_start_compositor e t cg w dir xkb xw st)"
proof (cases "g_server st = None \<and> w \<noteq> None")
  case False
  then show ?thesis using inv by (auto simp: native_start_compositor_def split: option.split)
next
  case True
  then obtain win where w: "w = Some win" and none: "g_server st = None" by blast
  define st2 where "st2 = (case dir of None \<Rightarrow> window_call (WinAcquire win) st
    | Some d \<Rightarrow> (set_env ''XDG_RUNTIME_DIR'' d (window_call (WinAcquire win) st))\<lparr>g_mkdirs := g_mkdirs (window_call (WinAcquire win) st) @ [d]\<rparr>)"
  define st3 where "st3 = (case xkb of Some (Some path) \<Rightarrow> set_env ''XKB_CONFIG_ROOT'' path st2 | _ \<Rightarrow> st2)"
  have 3: "g_process st3 = g_process st" "g_windows st3 = g_windows st @ [WinAcquire win]" "g_thread_running st3 = g_thread_running st"
    by (simp_all add: st3_def st2_def set_env_def window_call_def split: option.split)
  obtain r q where create: "compositor_server_create e win xw (g_process st) = (r, q)" by fastforce
  have i: "idle p0 (g_process st)" "pr_objs p0 = {}" "heap_ok (g_process st)" "\<not> g_thread_running st" "\<forall>v. win_refs (g_windows st) v = 0"
    using inv none by (simp_all add: jni_inv_def)
  have e: "\<not> core_ok e \<or> parts_ok e (g_process st) \<and> ce_socket e \<noteq> None" and cg: "\<And>sh. same_handles sh (cg sh)"
    using ok none by (simp_all add: clean_start_def)
  note c = create_inv [OF i(1-3) e create]
  have refs: "win_refs ((g_windows st @ [WinAcquire win]) @ [WinRelease win]) v = 0" for v
    using i(5) unfolding refs_pair by simp
  have start: "native_start_compositor e t cg w dir xkb xw st =
    (let st4 = window_call (WinRelease win) (st3\<lparr>g_server := r, g_process := q\<rparr>) in
     case r of None \<Rightarrow> st4
     | Some sv \<Rightarrow> if t then st4\<lparr>g_thread_running := True, g_stop_asked := False\<rparr>
         else st4\<lparr>g_process := compositor_server_destroy cg (Some sv) q, g_server := None, g_thread_running := False\<rparr>)"
    unfolding native_start_compositor_def w option.case Let_def st2_def [symmetric] st3_def [symmetric] 3(1) create
    using none by simp
  show ?thesis
  proof (cases r)
    case None
    then show ?thesis using c i refs 3 by (simp add: start jni_inv_def window_call_def)
  next
    case (Some sv)
    then show ?thesis using c i(2) refs 3 heap_destroy [OF c(1)] destroy_idle [of p0 sv q, OF _ cg]
      by (simp add: start jni_inv_def window_call_def Let_def)
  qed
qed

lemma stop_inv:
  assumes inv: "jni_inv p0 st" and cg: "\<And>sh. same_handles sh (cg sh)"
  shows "jni_inv p0 (native_stop_compositor cg st)"
proof (cases "g_server st")
  case None
  then show ?thesis using inv by (simp add: native_stop_compositor_def)
next
  case (Some sv)
  then have h: "server_holds p0 sv (g_process st)" "heap_ok (g_process st)" "pr_objs p0 = {}" "\<forall>v. win_refs (g_windows st) v = 0"
    using inv by (simp_all add: jni_inv_def)
  show ?thesis
    using Some h heap_destroy [OF h(2)] destroy_idle [OF h(1) cg]
    by (simp add: native_stop_compositor_def jni_inv_def Let_def)
qed

lemma window_pair_eq:
  "window_call (WinRelease w) (with_output f (window_call (WinAcquire w) st)) =
   (with_output f st)\<lparr>g_windows := g_windows st @ [WinAcquire w, WinRelease w]\<rparr>"
  by (simp add: with_output_def with_server_def window_call_def split: option.split)

lemma with_output_windows [simp]: "g_windows (with_output f st) = g_windows st"
  by (simp add: with_output_def with_server_def split: option.split)

lemma inv_window_pair:
  assumes "jni_inv p0 st"
  shows "jni_inv p0 (window_call (WinRelease w) (with_output f (window_call (WinAcquire w) st)))"
proof -
  have "win_refs (g_windows st @ [WinAcquire w, WinRelease w]) v = win_refs (g_windows st) v" for v
    using refs_pair [of "g_windows st" w v] refs_pair(2) [of "g_windows st @ [WinAcquire w]" w v] by simp
  then show ?thesis using inv_with_output [OF assms, of f] unfolding window_pair_eq
    by (cases "g_server (with_output f st)") (simp_all add: jni_inv_def)
qed

lemma jni_step_inv:
  assumes inv: "jni_inv p0 st" and ok: "op_ok clean_start x st"
  shows "jni_inv p0 (jni_step x st)"
proof (cases x)
  case (J_start e t cg w dir xkb xw)
  then show ?thesis using start_compositor_inv [OF inv] ok by simp
next
  case (J_stop cg)
  then show ?thesis using stop_inv [OF inv] ok by simp
next
  case (J_resize w h)
  have "same_handles sh (snd (compositor_server_resize_output fd w h sh))" for fd and sh :: shell
    by (simp add: compositor_server_resize_output_def same_handles_def)
  then show ?thesis unfolding J_resize jni_step.simps native_resize_output_def
    by (intro inv_with_server [OF inv]) (simp add: holds_shell)
next
  case J_pause
  then show ?thesis using inv inv_with_output [OF inv] by (simp add: native_pause_compositor_def)
next
  case (J_resume w)
  then show ?thesis using inv inv_window_pair [OF inv] by (simp add: native_resume_compositor_def split: option.split)
next
  case (J_touch cap wd i a px py ts)
  show ?thesis unfolding J_touch jni_step.simps native_send_touch_event_def Let_def by (rule inv_with_shell [OF inv]) simp
next
  case (J_key k cap c a ts)
  show ?thesis unfolding J_key jni_step.simps native_send_key_event_def Let_def by (rule inv_with_shell [OF inv]) simp
next
  case (J_motion cap wd px py ts)
  show ?thesis unfolding J_motion jni_step.simps native_send_pointer_motion_def Let_def by (rule inv_with_shell [OF inv]) simp
next
  case (J_button cap b a ts)
  show ?thesis unfolding J_button jni_step.simps native_send_pointer_button_def Let_def by (rule inv_with_shell [OF inv]) simp
next
  case (J_scroll cap wd dx dy ts)
  show ?thesis unfolding J_scroll jni_step.simps native_send_pointer_scroll_def Let_def by (rule inv_with_shell [OF inv]) simp
next
  case (J_commit a w t)
  have "same_handles sh (case chars of None \<Rightarrow> sh | Some s \<Rightarrow> text_input_handle_commit_text a w (Some s) sh)" for chars and sh :: shell
    by (simp split: option.split)
  then show ?thesis using J_commit inv inv_with_shell [OF inv] by (simp add: native_commit_text_def split: option.split)
next
  case (J_delete a w b f)
  show ?thesis unfolding J_delete jni_step.simps native_delete_surrounding_text_def Let_def by (rule inv_with_shell [OF inv]) simp
next
  case (J_delete_code_points a w b f)
  show ?thesis unfolding J_delete_code_points jni_step.simps native_delete_surrounding_text_in_code_points_def Let_def by (rule inv_with_shell [OF inv]) simp
next
  case (J_loop f g)
  then show ?thesis using inv inv_with_output [OF inv_with_shell [OF inv]] ok by simp
qed

lemma jni_run_inv: "\<lbrakk>jni_inv p0 st; jni_ok clean_start xs st\<rbrakk> \<Longrightarrow> jni_inv p0 (jni_run xs st)"
  by (induction xs st rule: jni_run.induct) (simp_all add: jni_step_inv)

section \<open>Properties\<close>

text \<open>The bridge before the first start.\<close>

definition jni_start :: "process \<Rightarrow> jni" where
  "jni_start p = \<lparr>g_server = None, g_thread_running = False, g_stop_asked = False, g_process = p,
     g_environ = Map.empty, g_mkdirs = [], g_windows = []\<rparr>"

text \<open>
  Over any sequence of calls from the app, with the event loop's steps between them: the bridge
  has a server exactly while the event-loop thread runs; whenever it has none, every descriptor,
  library object and allocator of the compositor has been given back and no receiver runs, however
  often it was started and stopped, provided every start is a \<^const>\<open>clean_start\<close>; nothing is released
  twice; and every window reference the bridge itself took for a call has been released.
\<close>

theorem jni_lifecycle:
  assumes "jni_ok clean_start ops (jni_start p)" and "pr_objs p = {}" and "\<not> rv_running (pr_receiver p)"
    and "\<forall>a \<in> al_allocators (pr_alloc p). a < al_heap (pr_alloc p)"
  shows "let st = jni_run ops (jni_start p) in
    (g_server st \<noteq> None \<longleftrightarrow> g_thread_running st) \<and> pr_fault (g_process st) = pr_fault p \<and>
    (g_server st = None \<longrightarrow> pr_fds (g_process st) = pr_fds p \<and> pr_objs (g_process st) = {} \<and>
       \<not> rv_running (pr_receiver (g_process st)) \<and> al_allocators (pr_alloc (g_process st)) = al_allocators (pr_alloc p)) \<and>
    (\<forall>w. win_refs (g_windows st) w = 0)"
proof -
  let ?st = "jni_run ops (jni_start p)"
  have "jni_inv p (jni_start p)" using assms by (simp add: jni_inv_def jni_start_def idle_def heap_ok_def)
  from jni_run_inv [OF this assms(1)] have inv: "jni_inv p ?st" .
  show ?thesis
  proof (cases "g_server ?st")
    case None
    then show ?thesis using inv by (simp add: jni_inv_def idle_def Let_def)
  next
    case (Some sv)
    then show ?thesis using inv by (simp add: jni_inv_def server_holds_def Let_def)
  qed
qed

theorem jni_lifecycle_witness:
  "pr_fds (g_process (jni_run [J_start sample_create True (\<lambda>st. st) (Some 3) (Some ''/cache'') None True,
     J_pause, J_resume (Some 4), J_stop (\<lambda>st. st)] (jni_start sample_process))) = {0, 1, 2}"
proof -
  let ?ops = "[J_start sample_create True (\<lambda>st. st) (Some 3) (Some ''/cache'') None True, J_pause, J_resume (Some 4), J_stop (\<lambda>st. st)]"
  have ok: "jni_ok clean_start ?ops (jni_start sample_process)"
    using sample_parts by (simp add: jni_start_def sample_create_def clean_start_def)
  have "g_server (jni_run ?ops (jni_start sample_process)) = None"
    by (simp add: native_stop_compositor_def Let_def split: option.split)
  then show ?thesis
    using jni_lifecycle [OF ok] by (simp add: Let_def sample_process_def alloc_start_def)
qed

end
