(* ===== verification/JniMethods.thy ===== *)
theory JniMethods
  imports Prelude
begin

text \<open>
  The registration of the native methods (\<^verbatim>\<open>g_methods\<close> and \<^verbatim>\<open>JNI_OnLoad\<close> of
  \<^verbatim>\<open>compositor/native/src/jni_bridge.c\<close>): a table of names, type descriptors and functions which the
  Java virtual machine trusts. It calls a function with the arguments its descriptor names, whatever
  the C function expects, so the table has to agree with the C signatures.
\<close>

subsection \<open>Types and descriptors\<close>

text \<open>The types of the JNI the methods use; \<open>J_object\<close> is a class other than \<^verbatim>\<open>String\<close>.\<close>

datatype jtype = J_void | J_boolean | J_int | J_long | J_float | J_string | J_object string

text \<open>Descriptors as the specification of the virtual machine writes them.\<close>

fun class_name :: "string \<Rightarrow> (string \<times> string) option" where
  "class_name [] = None"
| "class_name (c # cs) =
     (if c = CHR '';'' then Some ([], cs) else map_option (\<lambda>(n, rest). (c # n, rest)) (class_name cs))"

lemma class_name_shorter: "class_name s = Some (n, rest) \<Longrightarrow> length rest < length s"
  by (induction s arbitrary: n) (auto split: if_splits)

definition field_type :: "string \<Rightarrow> (jtype \<times> string) option" where
  "field_type s =
     (case s of
        [] \<Rightarrow> None
      | c # cs \<Rightarrow>
          if c = CHR ''Z'' then Some (J_boolean, cs)
          else if c = CHR ''I'' then Some (J_int, cs)
          else if c = CHR ''J'' then Some (J_long, cs)
          else if c = CHR ''F'' then Some (J_float, cs)
          else if c = CHR ''L''
          then map_option (\<lambda>(n, rest). (if n = ''java/lang/String'' then J_string else J_object n, rest)) (class_name cs)
          else None)"

lemma field_type_shorter: "field_type s = Some (t, rest) \<Longrightarrow> length rest < length s"
  by (auto simp: field_type_def dest!: class_name_shorter split: list.splits if_splits)

function parameters :: "string \<Rightarrow> (jtype list \<times> string) option" where
  "parameters s =
     (case s of
        [] \<Rightarrow> None
      | c # cs \<Rightarrow>
          if c = CHR '')'' then Some ([], cs)
          else (case field_type s of
                  None \<Rightarrow> None
                | Some (t, rest) \<Rightarrow> map_option (\<lambda>(ts, r). (t # ts, r)) (parameters rest)))"
  by auto
termination
  by (relation "measure length") (auto dest: field_type_shorter)

declare parameters.simps [simp del]

definition method_type :: "string \<Rightarrow> (jtype list \<times> jtype) option" where
  "method_type s =
     (case s of
        [] \<Rightarrow> None
      | c # cs \<Rightarrow>
          if c \<noteq> CHR ''('' then None
          else (case parameters cs of
                  None \<Rightarrow> None
                | Some (ts, r) \<Rightarrow>
                    if r = ''V'' then Some (ts, J_void)
                    else (case field_type r of Some (t, []) \<Rightarrow> Some (ts, t) | _ \<Rightarrow> None)))"

subsection \<open>The table\<close>

text \<open>The C functions of the bridge, and their signatures after \<^verbatim>\<open>(JNIEnv *env, jobject thiz\<close>.\<close>

datatype native_fn =
    native_start_compositor_fn | native_stop_compositor_fn | native_get_socket_name_fn | native_get_client_count_fn
  | native_get_xwayland_display_fn | native_resize_output_fn | native_pause_compositor_fn | native_resume_compositor_fn
  | native_send_touch_event_fn | native_send_key_event_fn | native_send_pointer_motion_fn | native_send_pointer_button_fn
  | native_send_pointer_scroll_fn | native_commit_text_fn | native_delete_surrounding_text_fn
  | native_delete_surrounding_text_in_code_points_fn | native_ime_shown_fn | native_ime_hidden_fn
  | native_get_ime_pipe_fd_fn | native_has_active_text_input_fn | native_start_test_client_fn

definition SURFACE :: jtype where
  "SURFACE = J_object ''android/view/Surface''"

fun c_signature :: "native_fn \<Rightarrow> jtype list \<times> jtype" where
  "c_signature native_start_compositor_fn = ([SURFACE, J_string, J_string, J_boolean], J_void)"
| "c_signature native_stop_compositor_fn = ([], J_void)"
| "c_signature native_get_socket_name_fn = ([], J_string)"
| "c_signature native_get_client_count_fn = ([], J_int)"
| "c_signature native_get_xwayland_display_fn = ([], J_string)"
| "c_signature native_resize_output_fn = ([J_int, J_int], J_void)"
| "c_signature native_pause_compositor_fn = ([], J_void)"
| "c_signature native_resume_compositor_fn = ([SURFACE], J_void)"
| "c_signature native_send_touch_event_fn = ([J_int, J_int, J_float, J_float, J_long], J_void)"
| "c_signature native_send_key_event_fn = ([J_int, J_int, J_long], J_void)"
| "c_signature native_send_pointer_motion_fn = ([J_float, J_float, J_long], J_void)"
| "c_signature native_send_pointer_button_fn = ([J_int, J_int, J_long], J_void)"
| "c_signature native_send_pointer_scroll_fn = ([J_float, J_float, J_long], J_void)"
| "c_signature native_commit_text_fn = ([J_string], J_void)"
| "c_signature native_delete_surrounding_text_fn = ([J_int, J_int], J_void)"
| "c_signature native_delete_surrounding_text_in_code_points_fn = ([J_int, J_int], J_void)"
| "c_signature native_ime_shown_fn = ([], J_void)"
| "c_signature native_ime_hidden_fn = ([], J_void)"
| "c_signature native_get_ime_pipe_fd_fn = ([], J_int)"
| "c_signature native_has_active_text_input_fn = ([], J_boolean)"
| "c_signature native_start_test_client_fn = ([], J_void)"

text \<open>The identifiers of the functions in the source.\<close>

fun c_name :: "native_fn \<Rightarrow> string" where
  "c_name native_start_compositor_fn = ''native_start_compositor''"
| "c_name native_stop_compositor_fn = ''native_stop_compositor''"
| "c_name native_get_socket_name_fn = ''native_get_socket_name''"
| "c_name native_get_client_count_fn = ''native_get_client_count''"
| "c_name native_get_xwayland_display_fn = ''native_get_xwayland_display''"
| "c_name native_resize_output_fn = ''native_resize_output''"
| "c_name native_pause_compositor_fn = ''native_pause_compositor''"
| "c_name native_resume_compositor_fn = ''native_resume_compositor''"
| "c_name native_send_touch_event_fn = ''native_send_touch_event''"
| "c_name native_send_key_event_fn = ''native_send_key_event''"
| "c_name native_send_pointer_motion_fn = ''native_send_pointer_motion''"
| "c_name native_send_pointer_button_fn = ''native_send_pointer_button''"
| "c_name native_send_pointer_scroll_fn = ''native_send_pointer_scroll''"
| "c_name native_commit_text_fn = ''native_commit_text''"
| "c_name native_delete_surrounding_text_fn = ''native_delete_surrounding_text''"
| "c_name native_delete_surrounding_text_in_code_points_fn = ''native_delete_surrounding_text_in_code_points''"
| "c_name native_ime_shown_fn = ''native_ime_shown''"
| "c_name native_ime_hidden_fn = ''native_ime_hidden''"
| "c_name native_get_ime_pipe_fd_fn = ''native_get_ime_pipe_fd''"
| "c_name native_has_active_text_input_fn = ''native_has_active_text_input''"
| "c_name native_start_test_client_fn = ''native_start_test_client''"

definition g_methods :: "(string \<times> string \<times> native_fn) list" where
  "g_methods =
     [(''nativeStartCompositor'', ''(Landroid/view/Surface;Ljava/lang/String;Ljava/lang/String;Z)V'', native_start_compositor_fn),
      (''nativeStopCompositor'', ''()V'', native_stop_compositor_fn),
      (''nativeGetSocketName'', ''()Ljava/lang/String;'', native_get_socket_name_fn),
      (''nativeGetClientCount'', ''()I'', native_get_client_count_fn),
      (''nativeGetXWaylandDisplay'', ''()Ljava/lang/String;'', native_get_xwayland_display_fn),
      (''nativeResizeOutput'', ''(II)V'', native_resize_output_fn),
      (''nativePauseCompositor'', ''()V'', native_pause_compositor_fn),
      (''nativeResumeCompositor'', ''(Landroid/view/Surface;)V'', native_resume_compositor_fn),
      (''nativeSendTouchEvent'', ''(IIFFJ)V'', native_send_touch_event_fn),
      (''nativeSendKeyEvent'', ''(IIJ)V'', native_send_key_event_fn),
      (''nativeSendPointerMotion'', ''(FFJ)V'', native_send_pointer_motion_fn),
      (''nativeSendPointerButton'', ''(IIJ)V'', native_send_pointer_button_fn),
      (''nativeSendPointerScroll'', ''(FFJ)V'', native_send_pointer_scroll_fn),
      (''nativeCommitText'', ''(Ljava/lang/String;)V'', native_commit_text_fn),
      (''nativeDeleteSurroundingText'', ''(II)V'', native_delete_surrounding_text_fn),
      (''nativeDeleteSurroundingTextInCodePoints'', ''(II)V'', native_delete_surrounding_text_in_code_points_fn),
      (''nativeImeShown'', ''()V'', native_ime_shown_fn),
      (''nativeImeHidden'', ''()V'', native_ime_hidden_fn),
      (''nativeGetImePipeFd'', ''()I'', native_get_ime_pipe_fd_fn),
      (''nativeHasActiveTextInput'', ''()Z'', native_has_active_text_input_fn),
      (''nativeStartTestClient'', ''()V'', native_start_test_client_fn)]"

subsection \<open>Loading\<close>

definition JNI_ERR :: int where "JNI_ERR = -1"
definition JNI_VERSION_1_6 :: int where "JNI_VERSION_1_6 = 0x00010006"

definition JNI_CLASS_PATH :: string where
  "JNI_CLASS_PATH = ''nu/shel/wldroid/compositor/CompositorServer''"

text \<open>
  A class as the virtual machine has it: its native methods, name and descriptor.
  \<^verbatim>\<open>RegisterNatives\<close> fails at the first entry the class does not declare.
\<close>

definition register_natives :: "(string \<times> string) set \<Rightarrow> (string \<times> string \<times> 'f) list \<Rightarrow> bool" where
  "register_natives declared methods \<longleftrightarrow> (\<forall>(n, d, f) \<in> set methods. (n, d) \<in> declared)"

definition JNI_OnLoad :: "bool \<Rightarrow> (string \<Rightarrow> (string \<times> string) set option) \<Rightarrow> int" where
  "JNI_OnLoad get_env find_class =
     (if \<not> get_env then JNI_ERR
      else case find_class JNI_CLASS_PATH of
        None \<Rightarrow> JNI_ERR
      | Some declared \<Rightarrow> if \<not> register_natives declared g_methods then JNI_ERR else JNI_VERSION_1_6)"

text \<open>
  The declarations of \<^verbatim>\<open>CompositorServer.kt\<close>, in its order, with the descriptors the Kotlin compiler
  gives them.
\<close>

definition jdescriptor :: "jtype \<Rightarrow> string" where
  "jdescriptor t =
     (case t of J_void \<Rightarrow> ''V'' | J_boolean \<Rightarrow> ''Z'' | J_int \<Rightarrow> ''I'' | J_long \<Rightarrow> ''J'' | J_float \<Rightarrow> ''F''
      | J_string \<Rightarrow> ''Ljava/lang/String;'' | J_object n \<Rightarrow> ''L'' @ n @ '';'')"

definition method_descriptor :: "jtype list \<times> jtype \<Rightarrow> string" where
  "method_descriptor t = ''('' @ concat (map jdescriptor (fst t)) @ '')'' @ jdescriptor (snd t)"

definition external_funs :: "(string \<times> jtype list \<times> jtype) list" where
  "external_funs =
     [(''nativeStartCompositor'', [SURFACE, J_string, J_string, J_boolean], J_void),
      (''nativeStopCompositor'', [], J_void),
      (''nativePauseCompositor'', [], J_void),
      (''nativeResumeCompositor'', [SURFACE], J_void),
      (''nativeGetSocketName'', [], J_string),
      (''nativeGetClientCount'', [], J_int),
      (''nativeGetXWaylandDisplay'', [], J_string),
      (''nativeResizeOutput'', [J_int, J_int], J_void),
      (''nativeSendTouchEvent'', [J_int, J_int, J_float, J_float, J_long], J_void),
      (''nativeSendKeyEvent'', [J_int, J_int, J_long], J_void),
      (''nativeSendPointerMotion'', [J_float, J_float, J_long], J_void),
      (''nativeSendPointerButton'', [J_int, J_int, J_long], J_void),
      (''nativeSendPointerScroll'', [J_float, J_float, J_long], J_void),
      (''nativeCommitText'', [J_string], J_void),
      (''nativeDeleteSurroundingText'', [J_int, J_int], J_void),
      (''nativeDeleteSurroundingTextInCodePoints'', [J_int, J_int], J_void),
      (''nativeImeShown'', [], J_void),
      (''nativeImeHidden'', [], J_void),
      (''nativeGetImePipeFd'', [], J_int),
      (''nativeHasActiveTextInput'', [], J_boolean),
      (''nativeStartTestClient'', [], J_void)]"

definition kotlin_class :: "(string \<times> string) set" where
  "kotlin_class = (\<lambda>(n, t). (n, method_descriptor t)) ` set external_funs"

text \<open>The class's package and name, and the name the virtual machine knows it by.\<close>

definition kotlin_package :: string where "kotlin_package = ''nu.shel.wldroid.compositor''"
definition kotlin_name :: string where "kotlin_name = ''CompositorServer''"

definition binary_name :: "string \<Rightarrow> string \<Rightarrow> string" where
  "binary_name package name = map (\<lambda>c. if c = CHR ''.'' then CHR ''/'' else c) package @ ''/'' @ name"

text \<open>
  The two naming styles: \<^verbatim>\<open>nativeStopCompositor\<close> and \<^verbatim>\<open>native_stop_compositor\<close> have the same letters.
  In ASCII a small letter is its capital with bit 5 set; digits have that bit already.
\<close>

fun lower :: "char \<Rightarrow> char" where
  "lower (Char b0 b1 b2 b3 b4 b5 b6 b7) = Char b0 b1 b2 b3 b4 (b5 \<or> b6 \<and> \<not> b7) b6 b7"

definition letters :: "string \<Rightarrow> string" where
  "letters s = map lower (filter (\<lambda>c. c \<noteq> CHR ''_'') s)"

subsection \<open>The table agrees with both sides\<close>

text \<open>A descriptor written from a type reads back as it.\<close>

definition class_ok :: "jtype \<Rightarrow> bool" where
  "class_ok t \<longleftrightarrow> (case t of J_void \<Rightarrow> False | J_object n \<Rightarrow> n \<noteq> ''java/lang/String'' \<and> CHR '';'' \<notin> set n | _ \<Rightarrow> True)"

lemma class_name_written: "CHR '';'' \<notin> set n \<Longrightarrow> class_name (n @ CHR '';'' # s) = Some (n, s)"
  by (induction n) auto

lemma field_type_written:
  assumes "class_ok t"
  shows "field_type (jdescriptor t @ s) = Some (t, s)"
  using assms class_name_written [of _ s] class_name_written [of "''java/lang/String''" s]
  by (cases t) (auto simp: jdescriptor_def field_type_def class_ok_def)

lemma descriptor_head: "class_ok t \<Longrightarrow> \<exists>c cs. jdescriptor t = c # cs \<and> c \<noteq> CHR '')''"
  by (cases t) (auto simp: jdescriptor_def class_ok_def)

lemma parameters_written:
  "list_all class_ok ts \<Longrightarrow> parameters (concat (map jdescriptor ts) @ CHR '')'' # s) = Some (ts, s)"
proof (induction ts)
  case Nil
  then show ?case by (subst parameters.simps) simp
next
  case (Cons t ts)
  obtain c cs where c: "jdescriptor t = c # cs" "c \<noteq> CHR '')''" using Cons.prems descriptor_head [of t] by auto
  have f: "field_type (c # cs @ concat (map jdescriptor ts) @ CHR '')'' # s) = Some (t, concat (map jdescriptor ts) @ CHR '')'' # s)"
    using field_type_written [of t "concat (map jdescriptor ts) @ CHR '')'' # s"] Cons.prems c(1) by simp
  show ?case using Cons c by (subst parameters.simps) (simp add: f)
qed

lemma method_type_written:
  assumes "list_all class_ok ts" "class_ok t \<or> t = J_void"
  shows "method_type (method_descriptor (ts, t)) = Some (ts, t)"
proof -
  have p: "parameters (concat (map jdescriptor ts) @ CHR '')'' # jdescriptor t) = Some (ts, jdescriptor t)"
    by (rule parameters_written [OF assms(1)])
  show ?thesis
  proof (cases "t = J_void")
    case True
    then show ?thesis using p by (simp add: method_type_def method_descriptor_def jdescriptor_def [of J_void])
  next
    case False
    then have "field_type (jdescriptor t) = Some (t, [])" using field_type_written [of t "[]"] assms(2) by simp
    moreover have "jdescriptor t \<noteq> ''V''" using False by (cases t) (auto simp: jdescriptor_def)
    ultimately show ?thesis using p by (simp add: method_type_def method_descriptor_def)
  qed
qed

text \<open>Every entry's descriptor is written from the signature of its function.\<close>

lemma methods_written: "map (\<lambda>(n, d, f). d) g_methods = map (\<lambda>(n, d, f). method_descriptor (c_signature f)) g_methods"
  by (simp add: g_methods_def method_descriptor_def jdescriptor_def SURFACE_def)

lemma methods_declared: "map (\<lambda>(n, d, f). (n, c_signature f)) g_methods =
    map (\<lambda>i. external_funs ! i) [0, 1, 4, 5, 6, 7, 2, 3, 8, 9, 10, 11, 12, 13, 14, 15, 16, 17, 18, 19, 20]"
  by (simp add: g_methods_def external_funs_def)

lemma signatures_ok: "list_all class_ok (fst (c_signature f)) \<and> (class_ok (snd (c_signature f)) \<or> snd (c_signature f) = J_void)"
  by (cases f) (simp_all add: class_ok_def SURFACE_def)

lemma methods_named: "list_all (\<lambda>(n, d, f). letters n = letters (c_name f)) g_methods"
  by (simp add: g_methods_def letters_def)

lemma class_path: "JNI_CLASS_PATH = binary_name kotlin_package kotlin_name"
  by (simp add: JNI_CLASS_PATH_def binary_name_def kotlin_package_def kotlin_name_def)

text \<open>
  C39: The table handed to \<^verbatim>\<open>RegisterNatives\<close> agrees with both sides. Each entry's C function is the
  one whose identifier has the letters of the Java name, so no two are exchanged; its descriptor
  parses to exactly the parameter and result types of that function; every function of the bridge is
  registered, and once. Loading asks for the class by the name the Kotlin class has, and succeeds
  precisely when that class declares all of the Kotlin class's methods, which are the entries.
\<close>

theorem jni_table_matches:
  "(\<forall>(n, d, f) \<in> set g_methods. letters n = letters (c_name f) \<and> method_type d = Some (c_signature f)) \<and>
   distinct (map fst g_methods) \<and> distinct (map (snd \<circ> snd) g_methods) \<and> (\<forall>f. f \<in> set (map (snd \<circ> snd) g_methods)) \<and>
   (\<forall>declared. JNI_OnLoad True (\<lambda>path. if path = binary_name kotlin_package kotlin_name then Some declared else None) =
      (if kotlin_class \<subseteq> declared then JNI_VERSION_1_6 else JNI_ERR)) \<and>
   kotlin_class = (\<lambda>(n, d, f). (n, d)) ` set g_methods"
proof -
  have written: "d = method_descriptor (c_signature f)" if "(n, d, f) \<in> set g_methods" for n d f
    using methods_written that by (auto simp: map_eq_conv)
  have "kotlin_class = (\<lambda>(n, t). (n, method_descriptor t)) ` set (map (\<lambda>(n, d, f). (n, c_signature f)) g_methods)"
    unfolding kotlin_class_def methods_declared by (simp add: external_funs_def insert_commute)
  also have "\<dots> = (\<lambda>(n, d, f). (n, method_descriptor (c_signature f))) ` set g_methods"
    by (force simp: image_image)
  also have "\<dots> = (\<lambda>(n, d, f). (n, d)) ` set g_methods"
    using written by (intro image_cong refl) auto
  finally have k: "kotlin_class = (\<lambda>(n, d, f). (n, d)) ` set g_methods" .
  have "method_type d = Some (c_signature f)" if "(n, d, f) \<in> set g_methods" for n d f
    using written [OF that] method_type_written signatures_ok by (metis prod.collapse)
  then have "\<forall>(n, d, f) \<in> set g_methods. letters n = letters (c_name f) \<and> method_type d = Some (c_signature f)"
    using methods_named by (auto simp: list_all_iff)
  moreover have "distinct (map fst g_methods)" "distinct (map (snd \<circ> snd) g_methods)" by (simp_all add: g_methods_def)
  moreover have "f \<in> set (map (snd \<circ> snd) g_methods)" for f by (cases f) (simp_all add: g_methods_def)
  moreover have "JNI_OnLoad True (\<lambda>path. if path = binary_name kotlin_package kotlin_name then Some declared else None) =
      (if kotlin_class \<subseteq> declared then JNI_VERSION_1_6 else JNI_ERR)" for declared
    unfolding k class_path [symmetric] by (auto simp: JNI_OnLoad_def register_natives_def)
  ultimately show ?thesis using k by blast
qed

theorem jni_table_matches_witness:
  "method_type ''(IIFFJ)V'' = Some ([J_int, J_int, J_float, J_float, J_long], J_void)"
proof -
  have "(''nativeSendTouchEvent'', ''(IIFFJ)V'', native_send_touch_event_fn) \<in> set g_methods" by (simp add: g_methods_def)
  then show ?thesis using jni_table_matches by fastforce
qed

end
