(* ===== verification/CompositorLoop.thy ===== *)
theory CompositorLoop
  imports JniProps ShellProps
begin

text \<open>
  The compositor as one system: the calls the app makes through the JNI bridge
  (\<^verbatim>\<open>compositor/native/src/jni_bridge.c\<close>) and, between them, the steps of the event loop its thread
  runs (\<^verbatim>\<open>compositor_server_run\<close>): the handlers of the input, text, resize and pause/resume pipes, the
  requests of the clients, the windows' events, the output's timer and frames. A step is the handler
  itself, as modelled in the theory of its component, on the state the bridge keeps.
\<close>

subsection \<open>Steps\<close>

text \<open>
  What the event loop can run next, with the outcomes of the libraries the handler calls.
\<close>

datatype loop_op =
    WindowEvent shell_op
  | InputReady input_env
  | TextReady bool focus_fun "keymap option"
  | TextRequest ti_op
  | ResizeReady bool out_env
  | PauseReady out_env bool "out_buffer option"
  | RequestState out_env out_state
  | FrameTimer
  | OutputFrame out_env "out_buffer option"

definition loop_shell :: "(shell \<Rightarrow> shell option) \<Rightarrow> jni \<Rightarrow> jni option" where
  "loop_shell f st =
     map_option (\<lambda>sh. st\<lparr>g_process := (g_process st)\<lparr>pr_shell := sh\<rparr>\<rparr>) (f (pr_shell (g_process st)))"

text \<open>A handler of the output; the size the windows' handlers read is the output's.\<close>

definition loop_output :: "(out_server \<Rightarrow> out_server option) \<Rightarrow> jni \<Rightarrow> jni option" where
  "loop_output f st =
     (case g_server st of
        None \<Rightarrow> Some st
      | Some sv \<Rightarrow>
          map_option
            (\<lambda>outs. let b = (sv_backend sv)\<lparr>bk_outputs := outs\<rparr>
                    in st\<lparr>g_server := Some (sv\<lparr>sv_backend := b\<rparr>), g_process := set_server_output b (g_process st)\<rparr>)
            (those (map f (bk_outputs (sv_backend sv)))))"

text \<open>The mode \<^const>\<open>on_resize_event\<close> commits to the output.\<close>

definition resize_mode :: "bool \<Rightarrow> shell \<Rightarrow> (int \<times> int) option" where
  "resize_mode read_ok sh =
     (if \<not> read_ok \<or> sh_output sh = None \<or> fst (sh_pending sh) \<le> 0 \<or> snd (sh_pending sh) \<le> 0 then None
      else Some (sh_pending sh))"

definition loop_resize :: "bool \<Rightarrow> out_env \<Rightarrow> jni \<Rightarrow> jni option" where
  "loop_resize read_ok env st =
     (case resize_mode read_ok (pr_shell (g_process st)) of
        None \<Rightarrow> Some st
      | Some mode \<Rightarrow>
          Option.bind (loop_shell (\<lambda>sh. Some (on_resize_event read_ok (oe_accept env) sh)) st)
            (loop_output (wlr_output_commit_state env \<lparr>st_mode = Some mode, st_buffer = None\<rparr>)))"

text \<open>
  A step: nothing without a running thread; \<^const>\<open>None\<close> is undefined behaviour of the handler.
\<close>

definition loop_exec :: "loop_op \<Rightarrow> jni \<Rightarrow> jni option" where
  "loop_exec x st =
     (if g_server st = None \<or> \<not> g_thread_running st then Some st
      else case x of
        WindowEvent ev \<Rightarrow> loop_shell (\<lambda>sh. Some (shell_exec ev sh)) st
      | InputReady env \<Rightarrow> loop_shell (on_input_event env) st
      | TextReady read_ok kbf km \<Rightarrow> loop_shell (on_text_input_event read_ok kbf km) st
      | TextRequest rq \<Rightarrow> loop_shell (\<lambda>sh. Some (ti_exec rq sh)) st
      | ResizeReady read_ok env \<Rightarrow> loop_resize read_ok env st
      | PauseReady env control_ok buffer \<Rightarrow> loop_output (on_pause_resume_event env control_ok buffer) st
      | RequestState env s \<Rightarrow> loop_output (on_output_request_state env s) st
      | FrameTimer \<Rightarrow> loop_output (\<lambda>out. Some (frame_timer_handler out)) st
      | OutputFrame env buffer \<Rightarrow> loop_output (on_output_frame env buffer) st)"

text \<open>
  The windows' events that are not steps of their own, and what wlroots and libwayland guarantee of the
  others: surfaces are live, object ids are fresh, a string fits in a message.
\<close>

definition loop_ok :: "loop_op \<Rightarrow> jni \<Rightarrow> bool" where
  "loop_ok x st \<longleftrightarrow>
     (let sh = pr_shell (g_process st)
      in case x of
           WindowEvent ev \<Rightarrow> shell_op_ok ev sh \<and>
             (case ev of InputEvent _ _ \<Rightarrow> False | ResizeRequest _ _ _ \<Rightarrow> False | ResizeEvent _ _ \<Rightarrow> False | _ \<Rightarrow> True)
         | InputReady env \<Rightarrow> env_live env
         | TextRequest rq \<Rightarrow> ti_op_ok False rq sh \<and>
             (case rq of KeyboardEnter _ \<Rightarrow> False | KeyboardLeave _ \<Rightarrow> False | SurfaceDestroyed _ \<Rightarrow> False | _ \<Rightarrow> True)
         | _ \<Rightarrow> True)"

text \<open>
  What the app hands over is text: the bytes of a Java string without NUL encode its code units (a
  character beyond the basic plane as its two surrogates). When the clients go, libwayland runs their
  destroy listeners, which touch neither the ring nor the queue.
\<close>

definition app_call :: "jni_op \<Rightarrow> bool" where
  "app_call x \<longleftrightarrow>
     (case x of
        J_loop _ _ \<Rightarrow> False
      | J_start e t cg w dir xkb xw \<Rightarrow> \<forall>sh. in_ring (cg sh) = in_ring sh \<and> tx_queue (cg sh) = tx_queue sh
      | J_stop cg \<Rightarrow> \<forall>sh. in_ring (cg sh) = in_ring sh \<and> tx_queue (cg sh) = tx_queue sh
      | J_commit a w (Some (Some s)) \<Rightarrow> op_well_formed (PENDING_TEXT_COMMIT s)
      | _ \<Rightarrow> True)"

text \<open>
  The states the system can be in: \<open>p\<close> is the process before the first start, \<open>starts\<close> the starts that
  may occur.
\<close>

inductive system_reachable :: "(create_env \<Rightarrow> process \<Rightarrow> bool) \<Rightarrow> process \<Rightarrow> jni \<Rightarrow> bool"
  for starts :: "create_env \<Rightarrow> process \<Rightarrow> bool" and p :: process where
  start: "system_reachable starts p (jni_start p)"
| call: "\<lbrakk>system_reachable starts p st; op_ok starts x st; app_call x\<rbrakk> \<Longrightarrow> system_reachable starts p (jni_step x st)"
| loop: "\<lbrakk>system_reachable starts p st; loop_ok x st; loop_exec x st = Some st'\<rbrakk> \<Longrightarrow> system_reachable starts p st'"

end
