(* ===== verification/CompositorLoopProps.thy ===== *)
theory CompositorLoopProps
  imports CompositorLoop
begin

text \<open>
  The invariant of the handlers' state as the event loop keeps it: what each handler leaves alone, that
  the windows, the input and the text-input code keep the bookkeeping together, what creation leaves,
  and that the output's steps keep its windows.
\<close>

subsection \<open>What the handlers leave alone\<close>

definition untouched :: "shell \<Rightarrow> shell \<Rightarrow> bool" where
  "untouched a b \<longleftrightarrow> same_handles a b \<and> sh_output b = sh_output a \<and> in_ring b = in_ring a \<and> tx_queue b = tx_queue a"

lemma untouched_refl [simp]: "untouched a a"
  by (simp add: untouched_def same_handles_def)

lemma untouched_trans: "\<lbrakk>untouched a b; untouched b c\<rbrakk> \<Longrightarrow> untouched a c"
  by (simp add: untouched_def same_handles_def)

lemma untouched_frame:
  assumes "text_frame a b" "ts_ime_fd b = ts_ime_fd a"
  shows "untouched a b"
  using assms by (cases a; cases b) (simp add: text_frame_def untouched_def same_handles_def)

lemma ime_fd_enter [simp]: "ts_ime_fd (text_input_handle_keyboard_enter sf st) = ts_ime_fd st"
proof -
  have "ts_ime_fd (enter_if_client s i st) = ts_ime_fd st" for s i and st :: "'a text_state_scheme"
    by (simp add: enter_if_client_def wl_emit_def ti_update_def split: option.split)
  then have "ts_ime_fd (fold (enter_if_client s) xs st) = ts_ime_fd st" for s xs and st :: "'a text_state_scheme"
    by (induction xs arbitrary: st) simp_all
  then show ?thesis by (simp add: text_input_handle_keyboard_enter_def Let_def ime_fd_clear split: option.split)
qed

lemma untouched_enter: "untouched st (text_input_handle_keyboard_enter sf st)"
  by (rule untouched_frame [OF text_frame_enter]) simp

lemma untouched_clear: "untouched st (clear_text_input_focus sf s st)"
  by (rule untouched_frame [OF text_frame_clear]) (simp add: ime_fd_clear)

lemma untouched_emit [simp]: "untouched a (wl_emit c b) = untouched a b"
  by (simp add: untouched_def same_handles_def wl_emit_def)

lemma untouched_fields [simp]:
  "untouched a (b\<lparr>cs_calls := cs\<rparr>) = untouched a b" "untouched a (b\<lparr>cs_toplevels := ts\<rparr>) = untouched a b"
  "untouched a (b\<lparr>in_focused := u\<rparr>) = untouched a b" "untouched a (b\<lparr>in_listener := v\<rparr>) = untouched a b"
  "untouched a (b\<lparr>sh_popups := ps\<rparr>) = untouched a b" "untouched a (b\<lparr>sh_views := vs\<rparr>) = untouched a b"
  "untouched a (b\<lparr>sh_clients := ks\<rparr>) = untouched a b" "untouched a (b\<lparr>sh_client_count := n\<rparr>) = untouched a b"
  by (simp_all add: untouched_def same_handles_def)

lemma untouched_update_view [simp]: "untouched a (update_view i f b) = untouched a b"
  by (simp add: update_view_def)

lemma untouched_update_toplevel [simp]: "untouched a (update_toplevel i f b) = untouched a b"
  by (simp add: update_toplevel_def)

lemma untouched_entered: "untouched a b \<Longrightarrow> untouched a (text_input_handle_keyboard_enter sf b)"
  by (rule untouched_trans [OF _ untouched_enter])

lemma untouched_left: "untouched a b \<Longrightarrow> untouched a (text_input_handle_keyboard_leave sf b)"
  unfolding text_input_handle_keyboard_leave_def by (rule untouched_trans [OF _ untouched_clear])

lemma untouched_focus: "untouched a b \<Longrightarrow> untouched a (focus_toplevel i b)"
proof -
  assume b: "untouched a b"
  have "fold (deactivate_other ct) cts c = c\<lparr>cs_calls := cs_calls c @ map (\<lambda>o'. SetActivated (ct_id o') False) (deactivated ct cts)\<rparr>"
    for ct cts and c :: shell by (rule fold_deactivate)
  then show ?thesis
    using b by (auto simp: focus_toplevel_def Let_def intro!: untouched_entered split: option.split)
qed

text \<open>The windows' events and the input events.\<close>

lemma untouched_event: "untouched st (dispatch_event env ev st)"
proof (cases "\<exists>t x y. ev = INPUT_POINTER_MOTION t x y")
  case True
  then show ?thesis
    by (auto simp: dispatch_event_def dispatch_pointer_motion_def Let_def split: option.split)
next
  case False
  have "ts_ime_fd (dispatch_event env ev st) = ts_ime_fd st"
    using False by (cases ev) (auto simp: dispatch_event_def dispatch_key_def dispatch_touch_down_def dispatch_touch_motion_def
        dispatch_touch_up_def dispatch_touch_cancel_def dispatch_pointer_button_def dispatch_pointer_scroll_def
        enter_keyboard_def wl_emit_def Let_def split: option.split)
  then show ?thesis using False by (intro untouched_frame text_frame_event) auto
qed

lemma untouched_window_event:
  assumes "case ev of InputEvent _ _ \<Rightarrow> False | ResizeRequest _ _ _ \<Rightarrow> False | ResizeEvent _ _ \<Rightarrow> False | _ \<Rightarrow> True"
  shows "untouched st (shell_exec ev st)"
proof (cases ev)
  case (UnmapToplevel kbf i)
  then show ?thesis
    by (auto simp: on_toplevel_unmap_def Let_def intro!: untouched_focus untouched_left split: option.split list.split)
next
  case (SurfaceGone s)
  have "untouched a (surface_destroyed s a)" for a
    by (simp add: surface_destroyed_def handle_focused_text_input_surface_destroy_def untouched_clear)
  then show ?thesis using SurfaceGone untouched_trans [of st "handle_focused_surface_destroy st"]
    by (auto simp: input_surface_destroyed_def handle_focused_surface_destroy_def)
qed (use assms in \<open>auto simp: on_new_xdg_toplevel_def on_toplevel_map_def on_toplevel_destroy_def on_request_fullscreen_def
    on_toplevel_commit_def on_new_xdg_popup_def on_popup_commit_def on_popup_destroy_def on_new_xwayland_surface_def
    on_xwayland_surface_associate_def on_xwayland_surface_map_def focus_xwayland_view_def on_xwayland_surface_unmap_def
    on_xwayland_surface_dissociate_def on_xwayland_request_configure_def on_xwayland_request_fullscreen_def
    on_xwayland_surface_destroy_def handle_client_created_def handle_client_destroyed_def Let_def
    intro!: untouched_focus untouched_entered untouched_left split: option.split prod.split\<close>)

subsection \<open>Text\<close>

lemma untouched_request: "untouched st (ti_exec rq st)"
proof (cases rq)
  case (SurfaceDestroyed s)
  then show ?thesis
    by (simp add: surface_destroyed_def handle_focused_text_input_surface_destroy_def untouched_clear)
qed (auto simp: untouched_def same_handles_def manager_get_text_input_def ti_enable_def ti_disable_def
    ti_set_surrounding_text_def ti_set_cursor_rectangle_def ti_commit_def ti_resource_destroy_def ti_update_def
    set_active_text_input_def request_ime_show_def request_ime_hide_def request_ime_command_def wl_emit_def Let_def
    untouched_enter [unfolded untouched_def same_handles_def] untouched_left [OF untouched_refl, unfolded untouched_def same_handles_def]
    split: option.split)

text \<open>A client's request sends only text-input calls, which no other part of the invariant reads.\<close>

definition text_step :: "'a text_state_scheme \<Rightarrow> 'a text_state_scheme \<Rightarrow> bool" where
  "text_step a b \<longleftrightarrow> text_frame a b \<and> ts_focused b = ts_focused a \<and>
     (\<exists>ds. cs_calls b = cs_calls a @ ds \<and> (\<forall>c \<in> set ds. text_call c))"

lemma text_step_refl [simp]: "text_step a a"
  by (simp add: text_step_def)

lemma text_step_emit: "\<lbrakk>text_step a b; text_call c\<rbrakk> \<Longrightarrow> text_step a (wl_emit c b)"
  unfolding text_step_def by (auto simp: text_frame_def wl_emit_def)

lemma text_step_fields [simp]:
  "text_step a (ti_update i f b) = text_step a b" "text_step a (set_active_text_input x b) = text_step a b"
  "text_step a (b\<lparr>ts_inputs := ts\<rparr>) = text_step a b"
  by (simp_all add: text_step_def text_frame_def ti_update_def set_active_text_input_def)

lemma text_step_ime: "text_step a b \<Longrightarrow> text_step a (request_ime_command c b)"
  by (simp add: request_ime_command_def text_step_emit text_call_def)

lemma text_step_request:
  assumes "case rq of KeyboardEnter _ \<Rightarrow> False | KeyboardLeave _ \<Rightarrow> False | SurfaceDestroyed _ \<Rightarrow> False | _ \<Rightarrow> True"
  shows "text_step st (ti_exec rq st)"
  using assms
  by (cases rq)
    (auto simp: manager_get_text_input_def ti_enable_def ti_disable_def ti_set_surrounding_text_def
      ti_set_cursor_rectangle_def ti_commit_def ti_resource_destroy_def request_ime_show_def request_ime_hide_def
      text_call_def Let_def intro!: text_step_emit text_step_ime split: option.split)

lemma shell_inv_text_step:
  assumes "shell_inv st" "text_step st st'" "text_inv st'"
  shows "shell_inv st'"
proof -
  obtain ds where ds: "text_frame st st'" "ts_focused st' = ts_focused st" "cs_calls st' = cs_calls st @ ds" "\<forall>c \<in> set ds. text_call c"
    using assms(2) by (auto simp: text_step_def)
  have "quiet_step st st'" using ds by (auto simp: quiet_step_def text_frame_def text_call_def)
  moreover have "focus_inv st'"
    by (rule focus_inv_text_calls [OF _ ds(1) assms(3) ds(3,4)]) (use assms(1) ds(2) in \<open>simp_all add: shell_inv_def focus_inv_def\<close>)
  ultimately show ?thesis using quiet_step_shell_inv [OF assms(1)] by blast
qed

lemma shell_inv_request:
  fixes st :: shell
  assumes "shell_inv st" "ti_op_ok single rq st"
    "case rq of KeyboardEnter _ \<Rightarrow> False | KeyboardLeave _ \<Rightarrow> False | SurfaceDestroyed _ \<Rightarrow> False | _ \<Rightarrow> True"
  shows "shell_inv (ti_exec rq st)"
  using assms text_inv_exec [of st single rq]
  by (intro shell_inv_text_step [OF _ text_step_request]) (simp_all add: shell_inv_def focus_inv_def)

text \<open>Delivering an operation: what an enabled text input or a keyboard is sent is neutral.\<close>

lemma shell_inv_focus_keyboard:
  assumes "shell_inv st"
  shows "shell_inv (ensure_keyboard_focus kbf st)"
proof (cases "find (\<lambda>ct. \<not> ct_rendering_only ct \<and> ct_surface ct \<noteq> None) (cs_toplevels st)")
  case (Some ct)
  then have ct: "ct \<in> set (cs_toplevels st)" "ct_surface ct \<noteq> None"
    by (auto simp: find_Some_iff)
  then obtain s where s: "ct_surface ct = Some s" "su_resource s \<noteq> None"
    using assms by (auto simp: shell_inv_def focus_inv_def toplevels_live_def)
  show ?thesis using assms Some s(1) shell_inv_kb_enter [OF assms s(2)]
    by (simp add: ensure_keyboard_focus_def)
qed (simp add: ensure_keyboard_focus_def assms)

lemma shell_inv_table [simp]: "shell_inv (build_ascii_table km st) = shell_inv st"
  by (simp add: build_ascii_table_def Let_def shell_inv_def focus_inv_def text_inv_def toplevels_live_def split: option.split)

lemma shell_inv_key: "shell_inv st \<Longrightarrow> shell_inv (notify_synthetic_key ev st)"
  by (auto simp: notify_synthetic_key_def Let_def neutral_def intro!: shell_inv_emit split: prod.split)

lemma shell_inv_keys: "shell_inv st \<Longrightarrow> shell_inv (fold notify_synthetic_key evs st)"
  by (induction evs arbitrary: st) (simp_all add: shell_inv_key)

lemma shell_inv_dispatch:
  assumes "shell_inv st" "dispatch_text_op kbf km op st = Some st'"
  shows "shell_inv st'"
proof (cases op)
  case (PENDING_TEXT_COMMIT s)
  have "shell_inv (fold notify_synthetic_key evs (if \<not> tx_table_built (ensure_keyboard_focus kbf st)
      then build_ascii_table km (ensure_keyboard_focus kbf st) else ensure_keyboard_focus kbf st))" for evs
    by (rule shell_inv_keys) (simp add: shell_inv_focus_keyboard assms(1))
  then show ?thesis
    using assms PENDING_TEXT_COMMIT
    by (auto simp: dispatch_text_op_def dispatch_commit_text_def emit_synthetic_keys_def Let_def neutral_def
        intro!: shell_inv_emit split: option.splits if_splits)
next
  case (PENDING_TEXT_DELETE b a cp)
  show ?thesis
    using assms PENDING_TEXT_DELETE shell_inv_focus_keyboard [OF assms(1), of kbf]
    by (auto simp: dispatch_text_op_def dispatch_delete_surrounding_text_def emit_delete_keys_def Let_def neutral_def
        intro!: shell_inv_emit shell_inv_keys split: option.splits if_splits)
qed

lemma untouched_keys: "untouched a b \<Longrightarrow> untouched a (fold notify_synthetic_key evs b)"
  by (induction evs arbitrary: b) (simp_all add: notify_synthetic_key_def Let_def split: prod.split)

lemma untouched_focus_keyboard: "untouched st (ensure_keyboard_focus kbf st)"
  by (auto simp: ensure_keyboard_focus_def intro!: untouched_entered split: option.split)

lemma untouched_table [simp]: "untouched a (build_ascii_table km b) = untouched a b"
  by (simp add: build_ascii_table_def untouched_def same_handles_def Let_def split: option.split)

lemma untouched_dispatch:
  assumes "dispatch_text_op kbf km op st = Some st'"
  shows "untouched st st'"
proof (cases op)
  case (PENDING_TEXT_COMMIT s)
  then show ?thesis
    using assms untouched_focus_keyboard [of st kbf]
    by (auto simp: dispatch_text_op_def dispatch_commit_text_def emit_synthetic_keys_def Let_def
        intro!: untouched_keys split: option.splits if_splits)
next
  case (PENDING_TEXT_DELETE b a cp)
  then show ?thesis
    using assms untouched_focus_keyboard [of st kbf]
    by (auto simp: dispatch_text_op_def dispatch_delete_surrounding_text_def emit_delete_keys_def Let_def
        intro!: untouched_keys split: option.splits if_splits)
qed

subsection \<open>The invariant of the handlers\<close>

text \<open>The statics that outlive a server: the ring's slots and the queue of texts.\<close>

definition statics_ok :: "shell \<Rightarrow> bool" where
  "statics_ok sh \<longleftrightarrow> length (ring_slots (in_ring sh)) = INPUT_RING_SIZE \<and> text_queue_inv (tx_queue sh) \<and>
     (\<forall>op \<in> set (pq_ops (tx_queue sh)). op_well_formed op)"

definition live_inv :: "shell \<Rightarrow> bool" where
  "live_inv sh \<longleftrightarrow> shell_inv sh \<and> ring_inv (in_ring sh) \<and> statics_ok sh"

lemma live_step: "\<lbrakk>live_inv a; untouched a b; shell_inv b\<rbrakk> \<Longrightarrow> live_inv b"
  by (simp add: live_inv_def untouched_def statics_ok_def)

lemma live_window_event:
  assumes "live_inv sh" "shell_op_ok ev sh"
    "case ev of InputEvent _ _ \<Rightarrow> False | ResizeRequest _ _ _ \<Rightarrow> False | ResizeEvent _ _ \<Rightarrow> False | _ \<Rightarrow> True"
  shows "live_inv (shell_exec ev sh)"
  using assms by (intro live_step [OF assms(1) untouched_window_event] shell_inv_exec) (simp_all add: live_inv_def)

lemma live_request:
  assumes "live_inv sh" "ti_op_ok False rq sh"
    "case rq of KeyboardEnter _ \<Rightarrow> False | KeyboardLeave _ \<Rightarrow> False | SurfaceDestroyed _ \<Rightarrow> False | _ \<Rightarrow> True"
  shows "live_inv (ti_exec rq sh)"
  using assms by (intro live_step [OF assms(1) untouched_request] shell_inv_request) (simp_all add: live_inv_def)

text \<open>Draining the ring.\<close>

lemma shell_inv_ring [simp]: "shell_inv (st\<lparr>in_ring := r\<rparr>) = shell_inv st" "shell_inv (st\<lparr>in_pipe_bytes := n\<rparr>) = shell_inv st"
  by (simp_all add: shell_inv_def focus_inv_def text_inv_def toplevels_live_def)

lemma ring_inv_slots: "ring_inv r \<Longrightarrow> length (ring_slots r) = INPUT_RING_SIZE"
  by (simp add: ring_inv_def)

lemma input_loop_live:
  fixes st :: shell
  assumes "live_inv st" "env_live env" "ring_count (in_ring st) < n"
  shows "\<exists>st'. input_event_loop n env st = Some st' \<and> live_inv st' \<and> ring_contents (in_ring st') = [] \<and>
    same_handles st st' \<and> sh_output st' = sh_output st"
  using assms(1,3)
proof (induction n arbitrary: st)
  case (Suc n)
  note r = Suc.prems(1) [unfolded live_inv_def, THEN conjunct2, THEN conjunct1]
  show ?case
  proof (cases "ring_count (in_ring st) = 0")
    case True
    then have "ring_contents (in_ring st) = []" by (metis length_ring_contents length_0_conv)
    with True show ?thesis using Suc.prems(1) by (simp add: ring_peek_some [OF r] same_handles_def)
  next
    case False
    let ?i = "unat (ring_tail (in_ring st))"
    let ?d = "dispatch_event env (ring_slots (in_ring st) ! ?i) st"
    have "shell_inv st" using Suc.prems(1) by (simp add: live_inv_def)
    then have d: "shell_inv ?d" by (rule shell_inv_event [OF _ assms(2)])
    have u: "untouched st ?d" by (rule untouched_event)
    have eq: "input_event_step env ?i st = ?d\<lparr>in_ring := ring_consume (in_ring st)\<rparr>"
      using u by (simp add: input_event_step_def untouched_def Let_def)
    have c: "ring_inv (ring_consume (in_ring st))" "ring_count (ring_consume (in_ring st)) < n"
      using ring_inv_consume [OF r] ring_count_consume [OF r] False Suc.prems(2) by simp_all
    have l: "live_inv (input_event_step env ?i st)"
      using d u c(1) ring_inv_slots [OF c(1)] Suc.prems(1) by (simp add: eq live_inv_def untouched_def statics_ok_def)
    have h: "same_handles st (input_event_step env ?i st)" "sh_output (input_event_step env ?i st) = sh_output st"
      using u by (simp_all add: eq untouched_def same_handles_def)
    obtain st' where st': "input_event_loop n env (input_event_step env ?i st) = Some st'" "live_inv st'"
      "ring_contents (in_ring st') = []" "same_handles (input_event_step env ?i st) st'"
      "sh_output st' = sh_output (input_event_step env ?i st)"
      using Suc.IH [OF l] c(2) by (auto simp: eq)
    then show ?thesis
      using False h same_handles_trans [OF h(1) st'(4)] by (simp add: ring_peek_some [OF r])
  qed
qed simp

lemma input_ready:
  assumes "live_inv st" "env_live env"
  shows "\<exists>st'. on_input_event env st = Some st' \<and> live_inv st' \<and> ring_contents (in_ring st') = [] \<and>
    same_handles st st' \<and> sh_output st' = sh_output st"
proof -
  have "live_inv (st\<lparr>in_pipe_bytes := 0\<rparr>)" "ring_count (in_ring (st\<lparr>in_pipe_bytes := 0\<rparr>)) < INPUT_RING_SIZE"
    using assms(1) ring_count_less [of "in_ring st"] by (simp_all add: live_inv_def statics_ok_def)
  from input_loop_live [OF this(1) assms(2) this(2)] show ?thesis
    by (auto simp: on_input_event_def same_handles_def)
qed

text \<open>Draining the queue.\<close>

lemma shell_inv_queue [simp]: "shell_inv (st\<lparr>tx_queue := q\<rparr>) = shell_inv st"
  by (simp add: shell_inv_def focus_inv_def text_inv_def toplevels_live_def)

lemma text_loop_live:
  fixes st :: shell
  assumes "live_inv st" "length (pq_ops (tx_queue st)) < n"
  shows "\<exists>st'. text_event_loop n kbf km st = Some st' \<and> live_inv st' \<and> pq_ops (tx_queue st') = [] \<and>
    same_handles st st' \<and> sh_output st' = sh_output st"
  using assms
proof (induction n arbitrary: st)
  case (Suc n)
  have q0: "text_queue_inv (tx_queue st)" using Suc.prems(1) by (simp add: live_inv_def statics_ok_def)
  show ?case
  proof (cases "pq_ops (tx_queue st)")
    case Nil
    then show ?thesis using Suc.prems(1) by (simp add: pop_text_op_def same_handles_def)
  next
    case (Cons op ops)
    from tq.deq_front [OF q0 Cons] obtain q where
      q: "pop_text_op (tx_queue st) = (Some op, q)" "text_queue_inv q" "pq_ops q = ops" by blast
    let ?st = "st\<lparr>tx_queue := q\<rparr>"
    have l0: "live_inv ?st" using Suc.prems(1) q(2,3) Cons by (simp add: live_inv_def statics_ok_def)
    obtain st1 where s1: "dispatch_text_op kbf km op ?st = Some st1"
      using dispatch_well_formed [of op kbf km ?st] Suc.prems(1) Cons by (auto simp: live_inv_def statics_ok_def)
    have u: "untouched ?st st1" by (rule untouched_dispatch [OF s1])
    have l1: "live_inv st1"
      by (rule live_step [OF l0 u shell_inv_dispatch [OF _ s1]]) (use l0 in \<open>simp add: live_inv_def\<close>)
    have "length (pq_ops (tx_queue st1)) < n" using u Suc.prems(2) Cons q(3) by (simp add: untouched_def)
    from Suc.IH [OF l1 this] obtain st' where st': "text_event_loop n kbf km st1 = Some st'" "live_inv st'"
      "pq_ops (tx_queue st') = []" "same_handles st1 st'" "sh_output st' = sh_output st1" by blast
    then show ?thesis using q(1) s1 u by (simp add: untouched_def same_handles_def)
  qed
qed simp

lemma text_ready:
  assumes "live_inv st"
  shows "\<exists>st'. on_text_input_event read_ok kbf km st = Some st' \<and> live_inv st' \<and>
    (read_ok \<longrightarrow> pq_ops (tx_queue st') = []) \<and> same_handles st st' \<and> sh_output st' = sh_output st"
  using text_loop_live [OF assms lessI] assms by (auto simp: on_text_input_event_def same_handles_def)

subsection \<open>The handlers at creation and destruction\<close>

lemma neutral_protocol: "\<forall>c \<in> set cs. neutral c \<Longrightarrow> ptr_protocol cs"
proof (induction cs rule: rev_induct)
  case (snoc c cs)
  then show ?case by (cases c) (auto simp: neutral_def ptr_call_ok_def)
qed simp

lemma fresh_shell_inv:
  assumes "ts_inputs st = []" "ts_active st = None" "\<not> ts_committed st" "ts_focused st = None" "ts_listener st = None"
    "in_focused st = None" "in_listener st = None" "cs_toplevels st = []" "\<forall>c \<in> set (cs_calls st). neutral c"
  shows "shell_inv st"
  using assms neutral_protocol [OF assms(9)]
  by (simp add: shell_inv_def focus_inv_def text_inv_def active_ok_def toplevels_live_def active_unique_def)

lemma text_init_fields:
  fixes st :: shell
  assumes "st' = snd (snd (text_input_handler_init p1 p2 a g km st))"
  shows "ts_inputs st' = [] \<and> ts_active st' = None \<and> \<not> ts_committed st' \<and> ts_focused st' = None \<and> ts_listener st' = None \<and>
    in_focused st' = in_focused st \<and> in_listener st' = in_listener st \<and> cs_toplevels st' = cs_toplevels st \<and>
    cs_calls st' = cs_calls st \<and> in_ring st' = in_ring st \<and> tx_queue st' = tx_queue st"
proof -
  have t: "ts_inputs (build_ascii_table km s) = ts_inputs s \<and> ts_active (build_ascii_table km s) = ts_active s \<and>
    ts_committed (build_ascii_table km s) = ts_committed s \<and> ts_focused (build_ascii_table km s) = ts_focused s \<and>
    ts_listener (build_ascii_table km s) = ts_listener s \<and> in_focused (build_ascii_table km s) = in_focused s \<and>
    in_listener (build_ascii_table km s) = in_listener s \<and> cs_toplevels (build_ascii_table km s) = cs_toplevels s \<and>
    cs_calls (build_ascii_table km s) = cs_calls s \<and> in_ring (build_ascii_table km s) = in_ring s \<and>
    tx_queue (build_ascii_table km s) = tx_queue s" for s :: shell
    by (simp add: build_ascii_table_def Let_def split: option.split)
  show ?thesis
    unfolding assms
    by (cases p1; cases p2; cases a; cases g; cases "cs_keyboard st")
      (simp_all add: text_input_handler_init_def text_statics_reset_def set_active_text_input_def Let_def t split: prod.split)
qed

lemma created_live:
  fixes sh :: shell
  assumes "statics_ok sh"
    and i: "i = snd (snd (input_handler_init (Some rw) True True ctx keymap ((calloc_server sh)\<lparr>cs_seat := True\<rparr>)))"
    and t: "t = snd (snd (text_input_handler_init p1 p2 a g km i))"
  shows "live_inv (t\<lparr>sh_output := out\<rparr>)"
proof -
  obtain r w where rw: "rw = (r, w)" by fastforce
  have f: "in_focused i = None" "in_listener i = None" "cs_toplevels i = []" "\<forall>c \<in> set (cs_calls i). neutral c"
    "in_ring i = ring_init (ring_slots (in_ring sh))" "tx_queue i = tx_queue sh"
    by (auto simp: i rw input_handler_init_def calloc_server_def wl_emit_def neutral_def Let_def)
  note tf = text_init_fields [OF t]
  have "shell_inv t" using tf f by (intro fresh_shell_inv) simp_all
  moreover have "ring_inv (in_ring t)" "length (ring_slots (in_ring t)) = INPUT_RING_SIZE"
    using tf f(5) ring_inv_init [of "ring_slots (in_ring sh)"] ring_inv_slots [of "ring_init (ring_slots (in_ring sh))"] assms(1)
    by (simp_all add: statics_ok_def)
  ultimately show ?thesis using tf f(6) assms(1) by (simp add: live_inv_def statics_ok_def)
qed

text \<open>What a destruction leaves in the handlers.\<close>

lemma stop_shells: "pr_shell (stop_text p) = snd (text_input_handler_destroy (pr_shell p))"
  "pr_shell (stop_input p) = snd (input_handler_destroy (pr_shell p))"
  by (simp_all add: stop_text_def stop_input_def split_beta Let_def)

lemma destroyed_shell:
  "in_ring (pr_shell (compositor_server_destroy cg (Some sv) p)) = in_ring (cg (pr_shell p))"
  "tx_queue (pr_shell (compositor_server_destroy cg (Some sv) p)) = clear_pending_text_ops (tx_queue (cg (pr_shell p)))"
proof -
  let ?t = "snd (text_input_handler_destroy (cg (pr_shell p)))"
  have c: "in_ring (clear_text_input_focus None False s) = in_ring s" "tx_queue (clear_text_input_focus None False s) = tx_queue s" for s :: shell
    using untouched_clear [of s None False] by (simp_all add: untouched_def)
  have d: "in_ring (snd (text_input_handler_destroy s)) = in_ring s"
    "tx_queue (snd (text_input_handler_destroy s)) = clear_pending_text_ops (tx_queue s)" for s :: shell
    by (simp_all add: text_input_handler_destroy_def set_active_text_input_def c Let_def)
  have i: "in_ring (snd (input_handler_destroy s)) = in_ring s" "tx_queue (snd (input_handler_destroy s)) = tx_queue s" for s :: shell
    by (simp_all add: input_handler_destroy_def wl_emit_def Let_def)
  have sh: "pr_shell (compositor_server_destroy cg (Some sv) p) = snd (input_handler_destroy ?t)"
    by (simp add: compositor_server_destroy_def stop_shells Let_def)
  show "in_ring (pr_shell (compositor_server_destroy cg (Some sv) p)) = in_ring (cg (pr_shell p))"
    "tx_queue (pr_shell (compositor_server_destroy cg (Some sv) p)) = clear_pending_text_ops (tx_queue (cg (pr_shell p)))"
    by (simp_all only: sh i d)
qed

lemma destroyed_statics:
  assumes "statics_ok (cg (pr_shell p))"
  shows "statics_ok (pr_shell (compositor_server_destroy cg (Some sv) p))"
  using assms clear_pending_empty [of "tx_queue (cg (pr_shell p))"] by (simp add: statics_ok_def destroyed_shell)

lemma destroyed_queue:
  assumes "text_queue_inv (tx_queue (cg (pr_shell p)))"
  shows "pq_ops (tx_queue (pr_shell (compositor_server_destroy cg (Some sv) p))) = []"
  using clear_pending_empty [OF assms] by (simp only: destroyed_shell)

lemma err_shells [simp]:
  "pr_shell (err_display p) = pr_shell p" "pr_shell (err_backend b p) = pr_shell p" "pr_shell (err_renderer b p) = pr_shell p"
  "pr_shell (err_alloc i b p) = pr_shell p" "pr_shell (snd (create_renderer e p)) = pr_shell p"
  by (simp_all add: err_display_def err_backend_def err_renderer_def err_alloc_def destroy_allocator_def create_renderer_def
      try_create_gles2_renderer_def Let_def)

lemma calloc_statics [simp]: "statics_ok (calloc_server sh) = statics_ok sh"
  by (simp add: statics_ok_def calloc_server_def)

lemma early_failure_shell:
  assumes "\<not> core_ok e" "compositor_server_create e w x p = (r, q)"
  shows "pr_shell q = pr_shell p \<or> pr_shell q = calloc_server (pr_shell p)"
proof -
  let ?p = "make_obj L_backend (make_obj L_display (p\<lparr>pr_shell := calloc_server (pr_shell p)\<rparr>))"
  obtain ok p2 where cr: "create_renderer e ?p = (ok, p2)" by fastforce
  have p2: "pr_shell p2 = calloc_server (pr_shell p)" using err_shells(5) [of e ?p] by (simp add: cr)
  have ok: "ok = (ce_egl_display e \<and> ce_egl_init e \<and> ce_egl_context e \<and> ce_wlr_egl e \<and> ce_gles2 e \<or> ce_autocreate e)"
    using cr by (auto simp: create_renderer_def try_create_gles2_renderer_def Let_def split: if_splits)
  show ?thesis
    using assms p2 ok unfolding compositor_server_create_def Let_def cr core_ok_def
    by (auto simp: android_backend_create_def ahb_allocator_create_def android_output_create_def cr Let_def
        split: if_splits option.splits)
qed

lemma create_parts_shell:
  assumes "create_parts e x p = (xw, p')" "ce_input_pipe e = Some rw"
  shows "pr_shell p' = snd (snd (text_input_handler_init (ce_ime_pipe e) (ce_text_pipe e) (ce_text_add e) (ce_text_global e) (ce_text_keymap e)
     (snd (snd (input_handler_init (Some rw) (ce_input_add e) (ce_keyboard e) (ce_xkb e) (ce_keymap e) ((pr_shell p)\<lparr>cs_seat := True\<rparr>))))))"
proof -
  have r: "pr_shell (start_receiver e q) = pr_shell q" for q
    by (simp add: start_receiver_def Let_def split: prod.split)
  have i: "pr_shell (start_input e q) = snd (snd (input_handler_init (Some rw) (ce_input_add e) (ce_keyboard e) (ce_xkb e) (ce_keymap e) (pr_shell q)))" for q
    using assms(2) by (simp add: start_input_def split: prod.split)
  have t: "pr_shell (start_text e q) = snd (snd (text_input_handler_init (ce_ime_pipe e) (ce_text_pipe e) (ce_text_add e) (ce_text_global e)
      (ce_text_keymap e) (pr_shell q)))" for q
    by (simp add: start_text_def Let_def split: prod.split)
  show ?thesis using assms(1) by (auto simp: create_parts_def Let_def r i t split: if_splits)
qed

subsection \<open>The outputs\<close>

definition output_ok :: "server \<Rightarrow> shell \<Rightarrow> bool" where
  "output_ok sv sh \<longleftrightarrow> (\<exists>out. bk_outputs (sv_backend sv) = [out] \<and> os_output out \<and> owned (os_pending out) out) \<and>
     sh_output sh = output_size (sv_backend sv)"

text \<open>The windows', input and text state of a created server.\<close>

definition parts_shell :: "create_env \<Rightarrow> int \<times> int \<Rightarrow> shell \<Rightarrow> shell" where
  "parts_shell e rw sh =
     snd (snd (text_input_handler_init (ce_ime_pipe e) (ce_text_pipe e) (ce_text_add e) (ce_text_global e) (ce_text_keymap e)
       (snd (snd (input_handler_init (Some rw) True True (ce_xkb e) (ce_keymap e) ((calloc_server sh)\<lparr>cs_seat := True\<rparr>))))))"

lemma created_shell:
  assumes core: "core_ok e" and objs: "pr_objs p = {}" and parts: "parts_ok e p"
    and create: "compositor_server_create e w x p = (Some sv, q)" and rw: "ce_input_pipe e = Some rw"
  shows "pr_shell q = (parts_shell e rw (pr_shell p))\<lparr>sh_output := output_size (sv_backend sv)\<rparr>"
proof -
  obtain xw p4 where pt: "create_parts e x (before_parts e p) = (xw, p4)" by fastforce
  have q: "q = set_server_output (sv_backend sv) p4"
    using create unfolding create_conv [OF core objs] pt by (auto simp: Let_def split: option.splits)
  have "pr_shell (before_parts e p) = calloc_server (pr_shell p)" by (simp add: before_parts_def Let_def)
  then show ?thesis
    using create_parts_shell [OF pt rw] parts by (auto simp: q set_server_output_def parts_shell_def parts_ok_def)
qed

lemma parts_shell_fresh:
  "cs_toplevels (parts_shell e rw sh) = []" "ts_inputs (parts_shell e rw sh) = []" "ts_active (parts_shell e rw sh) = None"
  "ts_focused (parts_shell e rw sh) = None" "in_focused (parts_shell e rw sh) = None"
  "ring_contents (in_ring (parts_shell e rw sh)) = []" "tx_queue (parts_shell e rw sh) = tx_queue sh"
proof -
  obtain r w where rw: "rw = (r, w)" by fastforce
  define i where "i = snd (snd (input_handler_init (Some rw) True True (ce_xkb e) (ce_keymap e) ((calloc_server sh)\<lparr>cs_seat := True\<rparr>)))"
  have i: "in_focused i = None" "cs_toplevels i = []" "ring_contents (in_ring i) = []" "tx_queue i = tx_queue sh"
    by (simp_all add: i_def rw input_handler_init_def calloc_server_def wl_emit_def Let_def)
  note t = text_init_fields [OF refl, of "ce_ime_pipe e" "ce_text_pipe e" "ce_text_add e" "ce_text_global e" "ce_text_keymap e" i]
  have p: "parts_shell e rw sh = snd (snd (text_input_handler_init (ce_ime_pipe e) (ce_text_pipe e) (ce_text_add e)
      (ce_text_global e) (ce_text_keymap e) i))" by (simp add: parts_shell_def i_def)
  show "cs_toplevels (parts_shell e rw sh) = []" "ts_inputs (parts_shell e rw sh) = []" "ts_active (parts_shell e rw sh) = None"
    "ts_focused (parts_shell e rw sh) = None" "in_focused (parts_shell e rw sh) = None"
    "ring_contents (in_ring (parts_shell e rw sh)) = []" "tx_queue (parts_shell e rw sh) = tx_queue sh"
    using t i by (simp_all add: p)
qed

lemma create_live:
  assumes core: "core_ok e" and objs: "pr_objs p = {}" and parts: "parts_ok e p"
    and create: "compositor_server_create e w x p = (Some sv, q)" and st: "statics_ok (pr_shell p)"
  shows "live_inv (pr_shell q)" "output_ok sv (pr_shell q)"
proof -
  obtain xw p4 where pt: "create_parts e x (before_parts e p) = (xw, p4)" by fastforce
  obtain b2 where b: "backend_start (on_new_output (ce_out_env e)) (first_backend e w) = Some b2"
    and q: "sv_backend sv = b2" "q = set_server_output b2 p4"
    using create unfolding create_conv [OF core objs] pt by (auto simp: Let_def split: option.splits)
  obtain rw where rw: "ce_input_pipe e = Some rw" using parts by (auto simp: parts_ok_def)
  show "live_inv (pr_shell q)"
    unfolding created_shell [OF core objs parts create rw] parts_shell_def by (rule created_live [OF st refl refl])
  obtain out where out: "on_new_output (ce_out_env e) (first_output e w) = Some out" "bk_outputs b2 = [out]"
    using b by (auto simp: backend_start_def first_backend_def split: option.splits)
  have "android_output_create True (ce_control e) w (fst (ce_size e)) (snd (ce_size e)) \<noteq> None"
    by (simp add: android_output_create_def)
  then obtain o1 where o1: "android_output_create True (ce_control e) w (fst (ce_size e)) (snd (ce_size e)) = Some o1" by blast
  have "owned (os_pending o1) o1" by (rule win_reachable_owned [OF win_reachable.create [OF o1]])
  then have o: "owned (os_pending (first_output e w)) (first_output e w)" by (simp add: first_output_def o1 owned_def)
  obtain s1 where s1: "wlr_output_commit_state (ce_out_env e) \<lparr>st_mode = None, st_buffer = None\<rparr> (first_output e w) = Some s1"
    "out = s1\<lparr>os_scene_output := True, os_output := True\<rparr>" using out(1) by (auto simp: on_new_output_def)
  from commit_state_owned [OF o s1(1)] have "owned (os_pending out) s1" by (auto simp: s1(2) out_frame_def)
  then have "owned (os_pending out) out" "os_output out" using owned_cong [of out s1] by (simp_all add: s1(2))
  then show "output_ok sv (pr_shell q)" using out(2) q by (simp add: output_ok_def set_server_output_def)
qed

text \<open>Every step of the output keeps its window references.\<close>

definition out_step :: "(out_server \<Rightarrow> out_server option) \<Rightarrow> bool" where
  "out_step f \<longleftrightarrow> (\<forall>out out'. owned (os_pending out) out \<longrightarrow> f out = Some out' \<longrightarrow>
     owned (os_pending out') out' \<and> os_output out' = os_output out)"

lemma out_step_commit: "out_step (wlr_output_commit_state env s)"
  unfolding out_step_def
proof (intro allI impI)
  fix out out' assume "owned (os_pending out) out" "wlr_output_commit_state env s out = Some out'"
  from commit_state_owned [OF this] show "owned (os_pending out') out' \<and> os_output out' = os_output out"
    by (simp add: out_frame_def)
qed

lemma owned_neutral:
  assumes "owned p st" "\<And>w. \<not> uses_window c w" "\<And>w. c \<noteq> WinAcquire w"
  shows "owned p (out_emit c st)"
proof (rule owned_emit [OF assms(1)])
  show "c \<noteq> WinRelease w" for w using assms(2) [of w] by (auto simp: uses_window_def)
qed (use assms in simp_all)

lemma out_step_timer: "out_step (\<lambda>out. Some (frame_timer_handler out))"
  by (auto simp: out_step_def frame_timer_handler_def uses_window_def intro!: owned_neutral)

lemma out_step_frame: "out_step (on_output_frame env buffer)"
  unfolding out_step_def
proof (intro allI impI)
  fix out out' assume o: "owned (os_pending out) out" "on_output_frame env buffer out = Some out'"
  show "owned (os_pending out') out' \<and> os_output out' = os_output out"
  proof (cases "os_paused out \<or> \<not> os_scene_output out")
    case False
    then obtain s1 where s1: "wlr_output_commit_state env \<lparr>st_mode = None, st_buffer = buffer\<rparr> (out_emit SceneCommit out) = Some s1"
      "out' = out_emit FrameDone s1" using o(2) by (auto simp: on_output_frame_def)
    have "owned (os_pending out) (out_emit SceneCommit out)" by (rule owned_neutral [OF o(1)]) (simp_all add: uses_window_def)
    from commit_state_owned [OF this s1(1)] have "owned (os_pending out) s1" "os_pending s1 = os_pending out" "os_output s1 = os_output out"
      by (simp_all add: out_frame_def)
    then show ?thesis unfolding s1(2) by (auto simp: uses_window_def intro!: owned_neutral)
  qed (use o in \<open>auto simp: on_output_frame_def split: if_splits\<close>)
qed

text \<open>What attaching and detaching keep of the output.\<close>

lemma window_keeps_output:
  "android_output_detach_window env st = Some st' \<Longrightarrow> os_output st' = os_output st"
  "android_output_attach_window env c buffer w st = Some st' \<Longrightarrow> os_output st' = os_output st"
proof -
  have commit: "wlr_output_commit_state env s a = Some b \<Longrightarrow> os_output b = os_output a" for s a b
  proof -
    assume c: "wlr_output_commit_state env s a = Some b"
    have cpu: "commit_cpu_copy l buf v y = Some (x, z) \<Longrightarrow> os_output z = os_output y" for l buf v x y z
      by (auto simp: commit_cpu_copy_def Let_def split: option.splits prod.splits)
    have "present_buffer t l v buf y = Some z \<Longrightarrow> os_output z = os_output y" for t l v buf y z
      using cpu by (fastforce simp: present_buffer_def commit_ahb_surface_control_def split: if_splits)
    then have "output_commit t l s y = Some z \<Longrightarrow> os_output z = os_output y" for t l y z
      by (fastforce simp: output_commit_def Let_def split: option.splits prod.splits)
    then show ?thesis using c by (auto simp: wlr_output_commit_state_def split: if_splits option.splits)
  qed
  show "android_output_detach_window env st = Some st' \<Longrightarrow> os_output st' = os_output st"
    by (auto simp: android_output_detach_window_def commit_no_buffer Let_def split: option.splits if_splits)
  show "android_output_attach_window env c buffer w st = Some st' \<Longrightarrow> os_output st' = os_output st"
    by (auto simp: android_output_attach_window_def Let_def dest!: commit)
qed

lemma out_step_pause: "out_step (on_pause_resume_event env c buffer)"
  unfolding out_step_def
proof (intro allI impI)
  fix out out' assume o: "owned (os_pending out) out" "on_pause_resume_event env c buffer out = Some out'"
  have "os_output out' = os_output out"
    using o(2) by (fastforce simp: on_pause_resume_event_def Let_def dest: window_keeps_output split: list.splits if_splits option.splits)
  then show "owned (os_pending out') out' \<and> os_output out' = os_output out" using event_owned [OF o] by blast
qed

end
