(* ===== verification/SystemProps.thy ===== *)
theory SystemProps
  imports CompositorLoopProps
begin

text \<open>
  What holds of the compositor whatever the app calls and the event loop runs: the parts' invariants
  together, the agreement between the parts, and that the loop's handlers return.
\<close>

subsection \<open>The whole system: calls\<close>

definition sys_inv :: "process \<Rightarrow> jni \<Rightarrow> bool" where
  "sys_inv p0 st \<longleftrightarrow> jni_inv p0 st \<and> statics_ok (pr_shell (g_process st)) \<and>
     (case g_server st of None \<Rightarrow> True
      | Some sv \<Rightarrow> live_inv (pr_shell (g_process st)) \<and> output_ok sv (pr_shell (g_process st)))"

lemma sys_with_shell:
  assumes "sys_inv p0 st" "\<And>sh. same_handles sh (f sh)"
    and "\<And>sh. live_inv sh \<Longrightarrow> live_inv (f sh) \<and> sh_output (f sh) = sh_output sh"
  shows "sys_inv p0 (with_shell f st)"
proof (cases "g_server st")
  case None
  then show ?thesis using assms(1) by (simp add: with_shell_def with_server_def)
next
  case (Some sv)
  have "jni_inv p0 (with_shell f st)" using assms(1) inv_with_shell [OF _ assms(2)] by (simp add: sys_inv_def)
  then show ?thesis using assms(1) assms(3) [of "pr_shell (g_process st)"] Some
    by (simp add: sys_inv_def with_shell_def with_server_def output_ok_def live_inv_def)
qed

lemma sys_with_output:
  assumes "sys_inv p0 st"
    and "\<And>out. owned (os_pending out) out \<Longrightarrow> owned (os_pending (f out)) (f out)"
    and "\<And>out. os_output (f out) = os_output out \<and> out_width (f out) = out_width out \<and> out_height (f out) = out_height out"
  shows "sys_inv p0 (with_output f st)"
proof (cases "g_server st")
  case None
  then show ?thesis using assms(1) by (simp add: with_output_def with_server_def)
next
  case (Some sv)
  have j: "jni_inv p0 (with_output f st)" using assms(1) inv_with_output by (simp add: sys_inv_def)
  obtain out where out: "bk_outputs (sv_backend sv) = [out]" "os_output out" "owned (os_pending out) out"
    "sh_output (pr_shell (g_process st)) = output_size (sv_backend sv)"
    using assms(1) Some by (auto simp: sys_inv_def output_ok_def)
  then show ?thesis using j assms Some
    by (simp add: sys_inv_def with_output_def with_server_def output_ok_def output_size_def)
qed

lemma sys_window_pair:
  assumes "sys_inv p0 (with_output f st)" "jni_inv p0 st"
  shows "sys_inv p0 (window_call (WinRelease w) (with_output f (window_call (WinAcquire w) st)))"
proof -
  have "jni_inv p0 (window_call (WinRelease w) (with_output f (window_call (WinAcquire w) st)))"
    by (rule inv_window_pair [OF assms(2)])
  then show ?thesis using assms(1) unfolding sys_inv_def window_pair_eq
    by (cases "g_server (with_output f st)") simp_all
qed

lemma send_live:
  assumes "live_inv sh"
  shows "live_inv (send_event cap ev sh) \<and> sh_output (send_event cap ev sh) = sh_output sh"
proof -
  obtain ok r where r: "ring_send ev (in_ring sh) = (ok, r)" by fastforce
  have "ring_inv r" using iring.enq_cases [of "in_ring sh" ev] assms r by (auto simp: live_inv_def)
  then show ?thesis using assms r ring_inv_slots [of r]
    by (simp add: send_event_def wake_compositor_def live_inv_def statics_ok_def split: bool.split)
qed

lemma send_key_live: "live_inv sh \<Longrightarrow> live_inv (input_handler_send_key key cap c a ts sh) \<and>
    sh_output (input_handler_send_key key cap c a ts sh) = sh_output sh"
  by (simp add: input_handler_send_key_def Let_def send_live)

lemma queue_live:
  "\<lbrakk>live_inv sh; text_queue_inv q; \<forall>op \<in> set (pq_ops q). op_well_formed op\<rbrakk> \<Longrightarrow>
   live_inv (text_enqueued w (ok, q) sh) \<and> sh_output (text_enqueued w (ok, q) sh) = sh_output sh"
  using clear_pending_empty [of q] by (simp add: text_enqueued_def live_inv_def statics_ok_def)

lemma enqueue_live:
  assumes "live_inv sh" "op_well_formed op"
  shows "live_inv (text_enqueued w (enqueue_text_op op (tx_queue sh)) sh) \<and>
    sh_output (text_enqueued w (enqueue_text_op op (tx_queue sh)) sh) = sh_output sh"
proof -
  obtain ok q where q: "enqueue_text_op op (tx_queue sh) = (ok, q)" by fastforce
  have "text_queue_inv q" "\<forall>x \<in> set (pq_ops q). op_well_formed x"
    using tq.enq_cases [of "tx_queue sh" op] assms q by (auto simp: live_inv_def statics_ok_def split: if_splits)
  then show ?thesis unfolding q by (rule queue_live [OF assms(1)])
qed

lemma refused_live:
  "live_inv sh \<Longrightarrow> live_inv (text_enqueued w (False, tx_queue sh) sh) \<and> sh_output (text_enqueued w (False, tx_queue sh) sh) = sh_output sh"
  by (rule queue_live) (simp_all add: live_inv_def statics_ok_def)

lemma commit_live:
  assumes "live_inv sh" "op_well_formed (PENDING_TEXT_COMMIT s)"
  shows "live_inv (text_input_handle_commit_text a w (Some s) sh) \<and>
    sh_output (text_input_handle_commit_text a w (Some s) sh) = sh_output sh"
  using assms enqueue_live [OF assms, of w] refused_live [OF assms(1), of w]
  by (simp add: text_input_handle_commit_text_def enqueue_text_commit_def)

lemma delete_live:
  assumes "live_inv sh"
  shows "live_inv (text_input_handle_delete a w b f cp sh) \<and> sh_output (text_input_handle_delete a w b f cp sh) = sh_output sh"
proof -
  have "op_well_formed (PENDING_TEXT_DELETE x y cp)" for x y by (simp add: op_well_formed_def)
  from enqueue_live [OF assms this, of w] show ?thesis
    using assms refused_live [OF assms, of w] by (simp add: text_input_handle_delete_def enqueue_text_delete_def)
qed

text \<open>The server and the process a start leaves.\<close>

lemma start_result:
  assumes none: "g_server st = None" and create: "compositor_server_create e win xw (g_process st) = (r, q)"
  defines "st' \<equiv> \<lambda>t cg dir xkb. native_start_compositor e t cg (Some win) dir xkb xw st"
  shows "g_server (st' t cg dir xkb) = (case r of None \<Rightarrow> None | Some sv \<Rightarrow> if t then Some sv else None)"
    "g_process (st' t cg dir xkb) =
      (case r of None \<Rightarrow> q | Some sv \<Rightarrow> if t then q else compositor_server_destroy cg (Some sv) q)"
    "\<lbrakk>t; r \<noteq> None\<rbrakk> \<Longrightarrow> g_thread_running (st' t cg dir xkb)"
proof -
  define st2 where "st2 = (case dir of None \<Rightarrow> window_call (WinAcquire win) st
    | Some d \<Rightarrow> (set_env ''XDG_RUNTIME_DIR'' d (window_call (WinAcquire win) st))\<lparr>g_mkdirs := g_mkdirs (window_call (WinAcquire win) st) @ [d]\<rparr>)"
  define st3 where "st3 = (case xkb of Some (Some path) \<Rightarrow> set_env ''XKB_CONFIG_ROOT'' path st2 | _ \<Rightarrow> st2)"
  have 3: "g_process st3 = g_process st" by (simp add: st3_def st2_def set_env_def window_call_def split: option.split)
  have eq: "st' t cg dir xkb =
    (let st4 = window_call (WinRelease win) (st3\<lparr>g_server := r, g_process := q\<rparr>) in
     case r of None \<Rightarrow> st4
     | Some sv \<Rightarrow> if t then st4\<lparr>g_thread_running := True, g_stop_asked := False\<rparr>
         else st4\<lparr>g_process := compositor_server_destroy cg (Some sv) q, g_server := None, g_thread_running := False\<rparr>)"
    unfolding st'_def native_start_compositor_def option.case Let_def st2_def [symmetric] st3_def [symmetric] 3 create
    using none by simp
  show "g_server (st' t cg dir xkb) = (case r of None \<Rightarrow> None | Some sv \<Rightarrow> if t then Some sv else None)"
    "g_process (st' t cg dir xkb) =
      (case r of None \<Rightarrow> q | Some sv \<Rightarrow> if t then q else compositor_server_destroy cg (Some sv) q)"
    by (cases r; simp add: eq Let_def window_call_def)+
  show "g_thread_running (st' t cg dir xkb)" if "t" "r \<noteq> None"
    using that unfolding eq Let_def by (cases r) (simp_all add: window_call_def)
qed

lemma sys_start:
  assumes inv: "sys_inv p0 st" and ok: "op_ok clean_start (J_start e t cg w dir xkb xw) st" and app: "app_call (J_start e t cg w dir xkb xw)"
  shows "sys_inv p0 (native_start_compositor e t cg w dir xkb xw st)"
proof (cases "g_server st = None \<and> w \<noteq> None")
  case False
  then show ?thesis using inv by (auto simp: native_start_compositor_def split: option.split)
next
  case True
  then obtain win where w: "w = Some win" and none: "g_server st = None" by blast
  have j: "jni_inv p0 (native_start_compositor e t cg w dir xkb xw st)"
    using start_compositor_inv [OF _ ok] inv by (simp add: sys_inv_def)
  have i: "statics_ok (pr_shell (g_process st))" "pr_objs (g_process st) = {}"
    using inv none by (simp_all add: sys_inv_def jni_inv_def idle_def)
  obtain r q where create: "compositor_server_create e win xw (g_process st) = (r, q)" by fastforce
  note start = start_result [OF none create, of t cg dir xkb, folded w]
  show ?thesis
  proof (cases "core_ok e")
    case False
    then have r: "r = None" using create i(2) early_failure [OF False i(2), of win xw] inv none
      by (auto simp: sys_inv_def jni_inv_def heap_ok_def)
    have "statics_ok (pr_shell q)" using early_failure_shell [OF False create] i(1) by auto
    then show ?thesis using j start r by (simp add: sys_inv_def)
  next
    case True
    then have parts: "parts_ok e (g_process st)" "ce_socket e \<noteq> None" using ok none by (auto simp: clean_start_def)
    obtain sv where r: "r = Some sv"
      using create_inv [of p0 "g_process st" e win xw r q] create True parts inv none start_output [of "ce_out_env e" e win]
      by (auto simp: create_conv [OF True i(2)] Let_def split: option.splits prod.splits)
    have l: "live_inv (pr_shell q)" "output_ok sv (pr_shell q)"
      by (rule create_live [OF True i(2) parts(1) create [unfolded r] i(1)])+
    have "statics_ok (cg (pr_shell q))" using l(1) app by (simp add: live_inv_def statics_ok_def app_call_def)
    then have "statics_ok (pr_shell (compositor_server_destroy cg (Some sv) q))" by (rule destroyed_statics)
    then show ?thesis using j l unfolding sys_inv_def start r option.case
      by (cases t) (simp_all add: live_inv_def start r)
  qed
qed

lemma sys_stop:
  assumes inv: "sys_inv p0 st" and ok: "op_ok clean_start (J_stop cg) st" and app: "app_call (J_stop cg)"
  shows "sys_inv p0 (native_stop_compositor cg st)"
proof (cases "g_server st")
  case None
  then show ?thesis using inv by (simp add: native_stop_compositor_def)
next
  case (Some sv)
  have "statics_ok (cg (pr_shell (g_process st)))" using inv app by (simp add: sys_inv_def statics_ok_def app_call_def)
  then have "statics_ok (pr_shell (compositor_server_destroy cg (Some sv) (g_process st)))" by (rule destroyed_statics)
  moreover have "jni_inv p0 (native_stop_compositor cg st)" using stop_inv [of p0 st cg] inv ok by (simp add: sys_inv_def)
  ultimately show ?thesis using Some by (simp add: sys_inv_def native_stop_compositor_def Let_def)
qed

lemma sys_call:
  assumes inv: "sys_inv p0 st" and ok: "op_ok clean_start x st" and app: "app_call x"
  shows "sys_inv p0 (jni_step x st)"
proof (cases x)
  case (J_start e t cg w dir xkb xw)
  then show ?thesis using sys_start [OF inv] ok app by simp
next
  case (J_stop cg)
  then show ?thesis using sys_stop [OF inv] ok app by simp
next
  case (J_resize w h)
  have h: "same_handles sh (snd (compositor_server_resize_output fd w h sh)) \<and> (live_inv sh \<longrightarrow> live_inv (snd (compositor_server_resize_output fd w h sh))) \<and>
      sh_output (snd (compositor_server_resize_output fd w h sh)) = sh_output sh" for fd and sh :: shell
    by (simp add: compositor_server_resize_output_def same_handles_def live_inv_def statics_ok_def)
  have j: "jni_inv p0 (jni_step x st)" by (rule jni_step_inv [OF _ ok]) (use inv in \<open>simp add: sys_inv_def\<close>)
  show ?thesis
  proof (cases "g_server st")
    case (Some sv)
    then show ?thesis using inv j h [of "pr_shell (g_process st)" "snd (sv_resize_pipe sv)"]
      by (simp add: J_resize native_resize_output_def with_server_def sys_inv_def output_ok_def live_inv_def)
  qed (use inv in \<open>simp add: J_resize native_resize_output_def with_server_def\<close>)
next
  case J_pause
  have "sys_inv p0 (with_output compositor_server_pause st)"
    by (rule sys_with_output [OF inv]) (simp_all add: compositor_server_pause_def owned_def)
  then show ?thesis using J_pause inv by (simp add: native_pause_compositor_def)
next
  case (J_resume w)
  have res: "owned (os_pending (compositor_server_resume win out)) (compositor_server_resume win out)"
    if "owned (os_pending out) out" for win out
    using that owned_acquire [OF owned_weaken [OF that]] owned_cong [of "_\<lparr>os_pending := _, os_pipe := _\<rparr>"]
    by (cases win) (auto simp: compositor_server_resume_def owned_def)
  have "sys_inv p0 (with_output (compositor_server_resume win) st)" for win
    by (rule sys_with_output [OF inv res]) (simp_all add: compositor_server_resume_def split: option.split)
  then show ?thesis using J_resume inv sys_window_pair [of p0 _ st]
    by (simp add: native_resume_compositor_def sys_inv_def [of p0 st] split: option.split)
next
  case (J_touch cap wd i a px py ts)
  show ?thesis unfolding J_touch jni_step.simps native_send_touch_event_def Let_def
    by (rule sys_with_shell [OF inv])
      (auto simp: input_handler_send_touch_down_def input_handler_send_touch_up_def input_handler_send_touch_motion_def
        input_handler_send_touch_cancel_def send_live)
next
  case (J_key k cap c a ts)
  show ?thesis unfolding J_key jni_step.simps native_send_key_event_def Let_def
    by (rule sys_with_shell [OF inv]) (simp_all add: send_key_live)
next
  case (J_motion cap wd px py ts)
  show ?thesis unfolding J_motion jni_step.simps native_send_pointer_motion_def Let_def
    by (rule sys_with_shell [OF inv]) (simp_all add: input_handler_send_pointer_motion_def send_live)
next
  case (J_button cap b a ts)
  show ?thesis unfolding J_button jni_step.simps native_send_pointer_button_def Let_def
    by (rule sys_with_shell [OF inv]) (simp_all add: input_handler_send_pointer_button_def send_live)
next
  case (J_scroll cap wd dx dy ts)
  show ?thesis unfolding J_scroll jni_step.simps native_send_pointer_scroll_def Let_def
    by (rule sys_with_shell [OF inv]) (simp_all add: input_handler_send_pointer_scroll_def send_live)
next
  case (J_commit a w t)
  show ?thesis
  proof (cases t)
    case (Some chars)
    then show ?thesis using app commit_live unfolding J_commit jni_step.simps native_commit_text_def
      by (cases chars) (auto intro!: sys_with_shell [OF inv] simp: app_call_def J_commit Some same_handles_def [of x x for x])
  qed (use inv in \<open>simp add: J_commit native_commit_text_def\<close>)
next
  case (J_delete a w b f)
  show ?thesis unfolding J_delete jni_step.simps native_delete_surrounding_text_def Let_def
    by (rule sys_with_shell [OF inv]) (simp_all add: text_input_handle_delete_surrounding_text_def delete_live)
next
  case (J_delete_code_points a w b f)
  show ?thesis unfolding J_delete_code_points jni_step.simps native_delete_surrounding_text_in_code_points_def Let_def
    by (rule sys_with_shell [OF inv]) (simp_all add: text_input_handle_delete_surrounding_text_in_code_points_def delete_live)
next
  case (J_loop f g)
  then show ?thesis using app by (simp add: app_call_def)
qed

subsection \<open>The whole system: steps of the event loop\<close>

lemma sys_running:
  assumes "sys_inv p0 st" "g_server st = Some sv"
  shows "g_thread_running st" "server_holds p0 sv (g_process st)" "live_inv (pr_shell (g_process st))" "output_ok sv (pr_shell (g_process st))"
    "jni_inv p0 st"
  using assms by (simp_all add: sys_inv_def jni_inv_def)

lemma sys_shell_changed:
  assumes inv: "sys_inv p0 st" "g_server st = Some sv" and sh: "live_inv sh" "same_handles (pr_shell (g_process st)) sh"
  shows "jni_inv p0 (st\<lparr>g_process := (g_process st)\<lparr>pr_shell := sh\<rparr>\<rparr>)"
    and "sh_output sh = sh_output (pr_shell (g_process st)) \<Longrightarrow> sys_inv p0 (st\<lparr>g_process := (g_process st)\<lparr>pr_shell := sh\<rparr>\<rparr>)"
proof -
  show j: "jni_inv p0 (st\<lparr>g_process := (g_process st)\<lparr>pr_shell := sh\<rparr>\<rparr>)"
    using holds_shell [OF sys_running(2) [OF inv] sh(2)] inv by (simp add: sys_inv_def jni_inv_def heap_ok_def)
  show "sys_inv p0 (st\<lparr>g_process := (g_process st)\<lparr>pr_shell := sh\<rparr>\<rparr>)" if "sh_output sh = sh_output (pr_shell (g_process st))"
    using j inv sh(1) that by (simp add: sys_inv_def output_ok_def live_inv_def)
qed

lemma those_single: "those (map f [x]) = (case f x of None \<Rightarrow> None | Some y \<Rightarrow> Some [y])"
  by (simp split: option.split)

lemma live_output [simp]: "live_inv (sh\<lparr>sh_output := out\<rparr>) = live_inv sh" "statics_ok (sh\<lparr>sh_output := out\<rparr>) = statics_ok sh"
  by (simp_all add: live_inv_def statics_ok_def)

lemma sys_loop_output:
  assumes j: "jni_inv p0 st" and sv: "g_server st = Some sv" and live: "live_inv (pr_shell (g_process st))"
    and out: "bk_outputs (sv_backend sv) = [out]" "os_output out" "owned (os_pending out) out"
    and f: "out_step f" and st': "loop_output f st = Some st'"
  shows "sys_inv p0 st'"
proof -
  note lo = st' [unfolded loop_output_def sv option.case out(1) those_single]
  obtain out' where f': "f out = Some out'" using lo by (cases "f out") simp_all
  have o'': "st' = (let b = (sv_backend sv)\<lparr>bk_outputs := [out']\<rparr>
      in st\<lparr>g_server := Some (sv\<lparr>sv_backend := b\<rparr>), g_process := set_server_output b (g_process st)\<rparr>)"
    using lo unfolding f' option.case option.map option.inject by (rule sym)
  note o' = f' o''
  have ok: "owned (os_pending out') out'" "os_output out'" using f [unfolded out_step_def, rule_format, OF out(3) f'] out(2) by simp_all
  have h: "server_holds p0 sv (g_process st)" using j sv by (simp add: jni_inv_def)
  have "same_handles (pr_shell (g_process st)) (pr_shell (set_server_output b (g_process st)))" for b
    by (simp add: same_handles_def set_server_output_def)
  from holds_shell [OF h this] have "server_holds p0 sv (set_server_output b (g_process st))" for b
    by (simp add: set_server_output_def)
  then have "jni_inv p0 st'" using j sv by (simp add: jni_inv_def o'(2) Let_def holds_backend heap_ok_def)
  then show ?thesis
    using live ok by (simp add: sys_inv_def o'(2) Let_def output_ok_def set_server_output_def live_inv_def)
qed

lemma resize_untouched:
  fixes sh :: shell
  shows "same_handles sh (on_resize_event r c sh) \<and> in_ring (on_resize_event r c sh) = in_ring sh \<and> tx_queue (on_resize_event r c sh) = tx_queue sh"
proof -
  have f: "same_handles s (fold (resize_toplevel a b w h) cts s) \<and> in_ring (fold (resize_toplevel a b w h) cts s) = in_ring s \<and>
      tx_queue (fold (resize_toplevel a b w h) cts s) = tx_queue s" for a b w h cts and s :: shell
  proof (induction cts arbitrary: s)
    case (Cons ct cts)
    have "same_handles s (resize_toplevel a b w h ct s) \<and> in_ring (resize_toplevel a b w h ct s) = in_ring s \<and>
        tx_queue (resize_toplevel a b w h ct s) = tx_queue s"
      by (simp add: resize_toplevel_def wl_emit_def same_handles_def)
    with Cons [of "resize_toplevel a b w h ct s"] show ?case by (auto intro: same_handles_trans)
  qed (simp add: same_handles_def)
  show ?thesis
    using f [where s = "wl_emit (CommitMode (fst (sh_pending sh)) (snd (sh_pending sh))) sh"]
      f [where s = "(wl_emit (CommitMode (fst (sh_pending sh)) (snd (sh_pending sh))) sh)\<lparr>sh_output := Some (sh_pending sh)\<rparr>"]
    by (auto simp: on_resize_event_def Let_def same_handles_def wl_emit_def split: option.split prod.split)
qed

lemma sys_resize:
  assumes inv: "sys_inv p0 st" "g_server st = Some sv" and st': "loop_resize read_ok env st = Some st'"
  shows "sys_inv p0 st'"
proof (cases "resize_mode read_ok (pr_shell (g_process st))")
  case None
  then show ?thesis using st' inv by (simp add: loop_resize_def)
next
  case (Some mode)
  let ?sh = "on_resize_event read_ok (oe_accept env) (pr_shell (g_process st))"
  let ?st = "st\<lparr>g_process := (g_process st)\<lparr>pr_shell := ?sh\<rparr>\<rparr>"
  have live: "live_inv ?sh"
    using sys_running(3) [OF inv] resize_untouched [of "pr_shell (g_process st)" read_ok "oe_accept env"]
      shell_inv_resize [of "pr_shell (g_process st)" read_ok "oe_accept env"]
    by (simp add: live_inv_def statics_ok_def)
  have j: "jni_inv p0 ?st"
    using resize_untouched by (intro sys_shell_changed(1) [OF inv live]) blast
  obtain out where out: "bk_outputs (sv_backend sv) = [out]" "os_output out" "owned (os_pending out) out"
    using sys_running(4) [OF inv] by (auto simp: output_ok_def)
  show ?thesis
    by (rule sys_loop_output [OF j _ _ out out_step_commit [of env "\<lparr>st_mode = Some mode, st_buffer = None\<rparr>"]])
      (use inv live st' Some in \<open>simp_all add: loop_resize_def loop_shell_def\<close>)
qed

lemma sys_step:
  assumes inv: "sys_inv p0 st" and ok: "loop_ok x st" and st': "loop_exec x st = Some st'"
  shows "sys_inv p0 st'"
proof (cases "g_server st")
  case None
  then show ?thesis using inv st' by (simp add: loop_exec_def)
next
  case (Some sv)
  note run = sys_running [OF inv Some]
  obtain out where out: "bk_outputs (sv_backend sv) = [out]" "os_output out" "owned (os_pending out) out"
    using run(4) by (auto simp: output_ok_def)
  note o = sys_loop_output [OF run(5) Some run(3) out]
  note shell = sys_shell_changed(2) [OF inv Some]
  show ?thesis
  proof (cases x)
    case (WindowEvent ev)
    then show ?thesis
      using st' ok Some run(1) live_window_event [OF run(3), of ev] untouched_window_event [of ev]
      by (auto simp: loop_exec_def loop_shell_def loop_ok_def Let_def untouched_def intro!: shell)
  next
    case (InputReady env)
    then have "env_live env" using ok by (simp add: loop_ok_def Let_def)
    from input_ready [OF run(3) this] show ?thesis
      using InputReady st' Some run(1) by (auto simp: loop_exec_def loop_shell_def intro!: shell)
  next
    case (TextReady r kbf km)
    from text_ready [OF run(3), of r kbf km] show ?thesis
      using TextReady st' Some run(1) by (auto simp: loop_exec_def loop_shell_def intro!: shell)
  next
    case (TextRequest rq)
    then show ?thesis
      using st' ok Some run(1) live_request [OF run(3), of rq] untouched_request [of _ rq]
      by (auto simp: loop_exec_def loop_shell_def loop_ok_def Let_def untouched_def intro!: shell)
  next
    case (ResizeReady r env)
    then show ?thesis using st' Some run(1) sys_resize [OF inv Some] by (simp add: loop_exec_def)
  next
    case (PauseReady env c buffer)
    then show ?thesis using st' Some run(1) o [OF out_step_pause] by (simp add: loop_exec_def)
  next
    case (RequestState env s)
    then show ?thesis using st' Some run(1) o [OF out_step_commit, of env s]
      by (simp add: loop_exec_def on_output_request_state_def [abs_def])
  next
    case FrameTimer
    then show ?thesis using st' Some run(1) o [OF out_step_timer] by (simp add: loop_exec_def)
  next
    case (OutputFrame env buffer)
    then show ?thesis using st' Some run(1) o [OF out_step_frame] by (simp add: loop_exec_def)
  qed
qed

lemma system_inv:
  assumes "system_reachable clean_start p st" "sys_inv p (jni_start p)"
  shows "sys_inv p st"
  using assms
proof (induction rule: system_reachable.induct)
  case (call st x)
  then show ?case using sys_call by blast
next
  case (loop st x st')
  then show ?case using sys_step by blast
qed simp

subsection \<open>The handlers return\<close>

text \<open>What wlroots and Android promise of a buffer and a locked window: their blocks hold their rows.\<close>

definition copy_fits :: "win_buffer option \<Rightarrow> out_buffer option \<Rightarrow> bool" where
  "copy_fits lock buffer \<longleftrightarrow>
     (case (lock, buffer) of
        (Some wb, Some b) \<Rightarrow>
          (case ob_data b of None \<Rightarrow> True
           | Some (src, stride) \<Rightarrow>
               wb_width wb \<le> wb_stride wb \<and> 0 < wb_stride wb \<and>
               min (ob_width b) (wb_width wb) * format_bpp (wb_format wb) \<le> stride \<and>
               ob_height b * stride \<le> length src \<and>
               wb_height wb * (wb_stride wb * format_bpp (wb_format wb)) \<le> length (wb_bits wb))
      | _ \<Rightarrow> True)"

definition loop_buffers_fit :: "loop_op \<Rightarrow> bool" where
  "loop_buffers_fit x \<longleftrightarrow>
     (case x of
        PauseReady env c buffer \<Rightarrow> copy_fits (oe_lock env) buffer
      | RequestState env s \<Rightarrow> copy_fits (oe_lock env) (st_buffer s)
      | OutputFrame env buffer \<Rightarrow> copy_fits (oe_lock env) buffer
      | _ \<Rightarrow> True)"

lemma cpu_copy_returns:
  assumes "copy_fits lock (Some b)"
  shows "commit_cpu_copy lock b w st \<noteq> None"
proof (cases "lock = None \<or> ob_data b = None")
  case True
  then show ?thesis by (auto simp: commit_cpu_copy_def split: option.split)
next
  case False
  then obtain wb src stride where d: "lock = Some wb" "ob_data b = Some (src, stride)" by auto
  note fits = assms [unfolded copy_fits_def d option.case prod.case]
  note fit = rows_fit [OF refl refl fits [THEN conjunct1] fits [THEN conjunct2, THEN conjunct1]
      fits [THEN conjunct2, THEN conjunct2, THEN conjunct1] fits [THEN conjunct2, THEN conjunct2, THEN conjunct2, THEN conjunct1]
      fits [THEN conjunct2, THEN conjunct2, THEN conjunct2, THEN conjunct2]]
  from copy_rows_spec [OF fit] show ?thesis by (auto simp: commit_cpu_copy_def d Let_def)
qed

lemma commit_returns:
  assumes "copy_fits (oe_lock env) (st_buffer s)"
  shows "wlr_output_commit_state env s st \<noteq> None"
proof -
  have p: "present_buffer t (oe_lock env) w b y \<noteq> None" if "st_buffer s = Some b" for t w b y
    using cpu_copy_returns [of "oe_lock env" b w] assms that
    by (auto simp: present_buffer_def Let_def split: prod.split)
  then show ?thesis
    by (auto simp: wlr_output_commit_state_def output_commit_def Let_def split: option.split)
qed

lemma output_steps_return:
  "copy_fits (oe_lock env) buffer \<Longrightarrow> on_pause_resume_event env c buffer out \<noteq> None"
  "copy_fits (oe_lock env) buffer \<Longrightarrow> on_output_frame env buffer out \<noteq> None"
  using commit_returns [of env "\<lparr>st_mode = None, st_buffer = buffer\<rparr>"]
  by (auto simp: on_pause_resume_event_def on_output_frame_def android_output_attach_window_def android_output_detach_window_def
      commit_no_buffer Let_def split: list.split option.split)

section \<open>Properties\<close>

text \<open>A started compositor.\<close>

definition sample_running :: jni where
  "sample_running = jni_step (J_start sample_create True (\<lambda>sh. sh) (Some 3) (Some ''/cache'') None True) (jni_start sample_process)"

lemma sample_reachable: "system_reachable clean_start sample_process sample_running"
  unfolding sample_running_def
  by (rule system_reachable.call [OF system_reachable.start])
    (use sample_parts in \<open>simp_all add: jni_start_def sample_create_def app_call_def clean_start_def\<close>)

lemma sample_statics: "statics_ok (pr_shell sample_process)"
  by (simp add: sample_process_def sample_shell_def input_server.defs input_server0_def statics_ok_def ring_init_def
      text_server0_def text_server.defs text_state.defs text_state0_def empty_text_queue_def text_queue_inv_def)

lemma sample_assms: "pr_objs sample_process = {}" "\<not> rv_running (pr_receiver sample_process)"
  "\<forall>a \<in> al_allocators (pr_alloc sample_process). a < al_heap (pr_alloc sample_process)"
  by (simp_all add: sample_process_def alloc_start_def)

lemma sample_server: "g_server sample_running \<noteq> None"
proof -
  obtain sv q where c: "compositor_server_create sample_create 3 True (g_process (jni_start sample_process)) = (Some sv, q)"
    using sample_created [OF sample_core, of 3 True] by (auto simp: sample_create_def jni_start_def)
  have "g_server (jni_start sample_process) = None" by (simp add: jni_start_def)
  from start_result(1) [OF this c] show ?thesis by (simp add: sample_running_def)
qed

text \<open>
  C1: Composition of the whole compositor. Take any interleaving of the app's calls (starts and stops,
  input, text, resizes, pauses and resumes) with steps of the event loop (each the real handler: input
  and text delivery, clients' requests, windows coming and going, resizes, frames, the timer) in which
  every start is a \<^const>\<open>clean_start\<close>: it fails before the output exists, or all its descriptors are
  fresh, its input handler gets pipe, event source and keyboard, and the Wayland socket is added. (A start
  that loses only the socket or the input pipe does leak, or closes a descriptor twice: \<open>ServerProps\<close>.)
  Then the server exists exactly while its thread runs. While it does, the process holds exactly the
  server's descriptors and objects beside the descriptors it had before, and the focus, input,
  text-input and queue invariants hold together; the size the windows' handlers use is the output's;
  every call on the output's window was made with a reference held, and the references taken are at
  least those the output still has to give back (a resume without a pause before it leaves one over).
  Without a server the descriptors, library objects and allocators of the process are those of before
  the first start and no registry receiver runs. No descriptor is closed and no object destroyed twice,
  and the bridge keeps no window reference of its own.
\<close>

theorem system_invariant:
  assumes "system_reachable clean_start p st" and "pr_objs p = {}" and "\<not> rv_running (pr_receiver p)"
    and "\<forall>a \<in> al_allocators (pr_alloc p). a < al_heap (pr_alloc p)" and "statics_ok (pr_shell p)"
  shows "let q = g_process st; sh = pr_shell q in
    pr_fault q = pr_fault p \<and> (\<forall>w. win_refs (g_windows st) w = 0) \<and>
    (case g_server st of
       None \<Rightarrow> \<not> g_thread_running st \<and> pr_fds q = pr_fds p \<and> pr_objs q = {} \<and> \<not> rv_running (pr_receiver q) \<and>
         al_allocators (pr_alloc q) = al_allocators (pr_alloc p)
     | Some sv \<Rightarrow> g_thread_running st \<and>
         distinct (server_fds sv q) \<and> set (server_fds sv q) \<inter> pr_fds p = {} \<and> pr_fds q = pr_fds p \<union> set (server_fds sv q) \<and>
         pr_objs q = server_objs sv \<and>
         (ts_focused sh \<noteq> None \<longrightarrow> kb_focus (cs_calls sh) = ts_focused sh) \<and>
         (in_focused sh \<noteq> None \<longrightarrow> ptr_focus (cs_calls sh) = in_focused sh) \<and> ptr_protocol (cs_calls sh) \<and>
         text_inv sh \<and> distinct (map ct_id (cs_toplevels sh)) \<and> ring_inv (in_ring sh) \<and> text_queue_inv (tx_queue sh) \<and>
         (\<exists>out. bk_outputs (sv_backend sv) = [out] \<and> sh_output sh = Some (out_width out, out_height out) \<and>
            calls_owned (out_calls out) \<and>
            (\<forall>w. holds (out_window out) w + holds (os_pending out) w \<le> win_refs (out_calls out) w)))"
proof -
  have "sys_inv p (jni_start p)"
    using assms(2-5) by (simp add: sys_inv_def jni_inv_def jni_start_def idle_def heap_ok_def)
  from system_inv [OF assms(1) this] have inv: "sys_inv p st" .
  then have j: "jni_inv p st" by (simp add: sys_inv_def)
  show ?thesis
  proof (cases "g_server st")
    case None
    then show ?thesis using j by (simp add: jni_inv_def idle_def Let_def)
  next
    case (Some sv)
    note run = sys_running [OF inv Some]
    obtain out where out: "bk_outputs (sv_backend sv) = [out]" "os_output out" "owned (os_pending out) out"
      using run(4) by (auto simp: output_ok_def)
    have "sh_output (pr_shell (g_process st)) = Some (out_width out, out_height out)"
      using run(4) out(1,2) by (simp add: output_ok_def output_size_def)
    then show ?thesis
      using j Some run(1,2,3) out
      by (simp add: jni_inv_def server_holds_def live_inv_def statics_ok_def shell_inv_def focus_inv_def owned_def Let_def)
  qed
qed

theorem system_invariant_witness:
  "\<exists>sv out. g_server sample_running = Some sv \<and> bk_outputs (sv_backend sv) = [out] \<and>
     sh_output (pr_shell (g_process sample_running)) = Some (out_width out, out_height out)"
proof -
  obtain sv where "g_server sample_running = Some sv" using sample_server by blast
  then show ?thesis
    using system_invariant [OF sample_reachable sample_assms sample_statics] by (auto simp: Let_def)
qed

text \<open>What a stop leaves, and a clean start after it.\<close>

lemma stop_system:
  assumes inv: "sys_inv p st" and server: "g_server st \<noteq> None"
    and gone: "\<And>sh. same_handles sh (gone sh)" "\<And>sh. tx_queue (gone sh) = tx_queue sh"
  shows "g_server (native_stop_compositor gone st) = None" "\<not> g_thread_running (native_stop_compositor gone st)"
    "idle p (g_process (native_stop_compositor gone st))" "jni_inv p (native_stop_compositor gone st)"
    "pq_ops (tx_queue (pr_shell (g_process (native_stop_compositor gone st)))) = []"
proof -
  obtain sv where sv: "g_server st = Some sv" using server by blast
  show j: "jni_inv p (native_stop_compositor gone st)" using stop_inv [OF _ gone(1), of p st] inv by (simp add: sys_inv_def)
  have "text_queue_inv (tx_queue (gone (pr_shell (g_process st))))"
    using inv gone(2) by (simp add: sys_inv_def statics_ok_def)
  then show none: "g_server (native_stop_compositor gone st) = None"
    and "pq_ops (tx_queue (pr_shell (g_process (native_stop_compositor gone st)))) = []"
    by (simp_all add: native_stop_compositor_def sv Let_def destroyed_queue)
  show "\<not> g_thread_running (native_stop_compositor gone st)" "idle p (g_process (native_stop_compositor gone st))"
    using j none by (simp_all add: jni_inv_def)
qed

lemma start_system:
  assumes j: "jni_inv p st" and none: "g_server st = None" and start: "core_ok e" "parts_ok e p" "ce_socket e \<noteq> None"
    and st': "st' = native_start_compositor e True gone (Some w) dir xkb xw st"
  shows "\<exists>sv. g_server st' = Some sv \<and> g_thread_running st' \<and> server_holds p sv (g_process st') \<and>
    (\<exists>rw out. pr_shell (g_process st') = (parts_shell e rw (pr_shell (g_process st)))\<lparr>sh_output := out\<rparr>)"
proof -
  have idle: "idle p (g_process st)" "pr_objs p = {}" "heap_ok (g_process st)" using j none by (simp_all add: jni_inv_def)
  then have objs: "pr_objs (g_process st) = {}" and parts: "parts_ok e (g_process st)"
    using start(2) by (simp_all add: idle_def parts_ok_def)
  obtain rw where rw: "ce_input_pipe e = Some rw" using start(2) by (auto simp: parts_ok_def)
  obtain r q where create: "compositor_server_create e w xw (g_process st) = (r, q)" by fastforce
  obtain sv where r: "r = Some sv"
    using create start(3) start_output [of "ce_out_env e" e w]
    by (auto simp: create_conv [OF start(1) objs] Let_def split: option.splits prod.splits)
  have h: "server_holds p sv q" using create_inv(2) [OF idle _ create] start(3) parts r by simp
  have s: "g_server st' = Some sv" "g_process st' = q" "g_thread_running st'"
    using start_result [OF none create, of True gone dir xkb] r by (simp_all add: st')
  show ?thesis using s h created_shell [OF start(1) objs parts create [unfolded r] rw] by blast
qed

text \<open>
  C35: The compositor can be restarted. Stop it in any state a running system can reach (through the
  real handlers of its event loop and any calls, with every earlier start a \<^const>\<open>clean_start\<close>); the
  destroy listeners libwayland runs for the clients leave the handlers' descriptors and the text queue
  alone. Then no
  server and no thread is left, and every descriptor, library object and allocator the compositor had
  is given back, each once, and its registry receiver is stopped. A start after that in which the
  required parts succeed, with descriptors that were free before the very first start, succeeds: its
  server holds exactly its own descriptors and objects, and nothing of the previous run is left in it:
  no window, no text input, no focus, no queued input event and no queued text.
\<close>

theorem system_restarts:
  assumes "system_reachable clean_start p st" and "pr_objs p = {}" and "\<not> rv_running (pr_receiver p)"
    and "\<forall>a \<in> al_allocators (pr_alloc p). a < al_heap (pr_alloc p)" and "statics_ok (pr_shell p)"
    and server: "g_server st \<noteq> None" and gone: "\<forall>sh. same_handles sh (gone sh) \<and> tx_queue (gone sh) = tx_queue sh"
    and start: "core_ok e" "parts_ok e p" "ce_socket e \<noteq> None"
  shows "let st1 = jni_step (J_stop gone) st; q1 = g_process st1;
      st2 = jni_step (J_start e True gone2 (Some w) dir xkb xw) st1; q2 = g_process st2; sh = pr_shell q2 in
    g_server st1 = None \<and> \<not> g_thread_running st1 \<and> pr_fault q1 = pr_fault p \<and> pr_fds q1 = pr_fds p \<and> pr_objs q1 = {} \<and>
    al_allocators (pr_alloc q1) = al_allocators (pr_alloc p) \<and> \<not> rv_running (pr_receiver q1) \<and>
    (\<exists>sv. g_server st2 = Some sv \<and> g_thread_running st2 \<and> pr_fault q2 = pr_fault p \<and>
       distinct (server_fds sv q2) \<and> set (server_fds sv q2) \<inter> pr_fds p = {} \<and> pr_fds q2 = pr_fds p \<union> set (server_fds sv q2) \<and>
       pr_objs q2 = server_objs sv) \<and>
    cs_toplevels sh = [] \<and> ts_inputs sh = [] \<and> ts_active sh = None \<and> ts_focused sh = None \<and> in_focused sh = None \<and>
    ring_contents (in_ring sh) = [] \<and> pq_ops (tx_queue sh) = []"
proof -
  let ?st1 = "native_stop_compositor gone st"
  have "sys_inv p (jni_start p)"
    using assms(2-5) by (simp add: sys_inv_def jni_inv_def jni_start_def idle_def heap_ok_def)
  from system_inv [OF assms(1) this] have inv: "sys_inv p st" .
  note s1 = stop_system [OF inv server gone [rule_format, THEN conjunct1] gone [rule_format, THEN conjunct2]]
  obtain sv rw out where s2: "g_server (native_start_compositor e True gone2 (Some w) dir xkb xw ?st1) = Some sv"
    "g_thread_running (native_start_compositor e True gone2 (Some w) dir xkb xw ?st1)"
    "server_holds p sv (g_process (native_start_compositor e True gone2 (Some w) dir xkb xw ?st1))"
    "pr_shell (g_process (native_start_compositor e True gone2 (Some w) dir xkb xw ?st1)) =
       (parts_shell e rw (pr_shell (g_process ?st1)))\<lparr>sh_output := out\<rparr>"
    using start_system [OF s1(4,1) start refl, of gone2 w dir xkb xw] by blast
  then show ?thesis using s1 by (simp add: Let_def parts_shell_fresh idle_def server_holds_def)
qed

theorem system_restarts_witness:
  "g_server (jni_step (J_start sample_create True (\<lambda>sh. sh) (Some 5) None None True) (jni_step (J_stop (\<lambda>sh. sh)) sample_running)) \<noteq> None"
proof -
  have "ce_socket sample_create \<noteq> None" "\<forall>sh :: shell. same_handles sh sh \<and> tx_queue sh = tx_queue sh" by (simp_all add: sample_create_def)
  from system_restarts [OF sample_reachable sample_assms sample_statics sample_server this(2) sample_core sample_parts this(1),
      of "\<lambda>sh. sh" 5 None None True]
  show ?thesis by (auto simp: Let_def simp del: jni_step.simps)
qed

text \<open>
  C2: No handler of the event loop gets stuck or runs into undefined behaviour. In every reachable
  state of the compositor, whatever step the loop runs next returns, provided only that the pixel
  blocks wlroots and Android hand over are as large as they say; the input handler then leaves no event
  waiting and the text handler no operation. So an over-long wait, a malformed text or a full queue can
  never come from what the app sent.
\<close>

theorem system_handlers_return:
  assumes "system_reachable clean_start p st" and "pr_objs p = {}" and "\<not> rv_running (pr_receiver p)"
    and "\<forall>a \<in> al_allocators (pr_alloc p). a < al_heap (pr_alloc p)" and "statics_ok (pr_shell p)"
    and "loop_ok x st" and "loop_buffers_fit x"
  shows "\<exists>st'. loop_exec x st = Some st' \<and> system_reachable clean_start p st' \<and>
    (g_server st \<noteq> None \<longrightarrow>
       (\<forall>env. x = InputReady env \<longrightarrow> ring_contents (in_ring (pr_shell (g_process st'))) = []) \<and>
       (\<forall>kbf km. x = TextReady True kbf km \<longrightarrow> pq_ops (tx_queue (pr_shell (g_process st'))) = []))"
proof -
  have "sys_inv p (jni_start p)"
    using assms(2-5) by (simp add: sys_inv_def jni_inv_def jni_start_def idle_def heap_ok_def)
  from system_inv [OF assms(1) this] have inv: "sys_inv p st" .
  have "\<exists>st'. loop_exec x st = Some st' \<and> (g_server st \<noteq> None \<longrightarrow>
       (\<forall>env. x = InputReady env \<longrightarrow> ring_contents (in_ring (pr_shell (g_process st'))) = []) \<and>
       (\<forall>kbf km. x = TextReady True kbf km \<longrightarrow> pq_ops (tx_queue (pr_shell (g_process st'))) = []))"
  proof (cases "g_server st")
    case None
    then show ?thesis by (simp add: loop_exec_def)
  next
    case (Some sv)
    note run = sys_running [OF inv Some]
    obtain out where out: "bk_outputs (sv_backend sv) = [out]" using run(4) by (auto simp: output_ok_def)
    have lo: "loop_output f s \<noteq> None" if "g_server s = Some sv" "f out \<noteq> None" for f s
      using that out by (auto simp: loop_output_def those_single split: option.split)
    show ?thesis
    proof (cases x)
      case (InputReady env)
      then have "env_live env" using assms(6) by (simp add: loop_ok_def Let_def)
      from input_ready [OF run(3) this] show ?thesis
        using InputReady Some run(1) by (auto simp: loop_exec_def loop_shell_def)
    next
      case (TextReady r kbf km)
      from text_ready [OF run(3), of r kbf km] show ?thesis
        using TextReady Some run(1) by (auto simp: loop_exec_def loop_shell_def)
    next
      case (ResizeReady r env)
      have "wlr_output_commit_state env \<lparr>st_mode = Some m, st_buffer = None\<rparr> out \<noteq> None" for m
        by (rule commit_returns) (simp add: copy_fits_def split: option.split)
      then have "loop_resize r env st \<noteq> None"
        using Some lo by (auto simp: loop_resize_def loop_shell_def split: option.split)
      then show ?thesis using ResizeReady Some run(1) by (auto simp: loop_exec_def)
    next
      case (PauseReady env c buffer)
      then have "loop_output (on_pause_resume_event env c buffer) st \<noteq> None"
        using assms(7) output_steps_return(1) by (intro lo [OF Some]) (simp add: loop_buffers_fit_def)
      then show ?thesis using PauseReady Some run(1) by (auto simp: loop_exec_def)
    next
      case (RequestState env s)
      then have "loop_output (on_output_request_state env s) st \<noteq> None"
        using assms(7) commit_returns by (intro lo [OF Some]) (simp add: loop_buffers_fit_def on_output_request_state_def)
      then show ?thesis using RequestState Some run(1) by (auto simp: loop_exec_def)
    next
      case FrameTimer
      have "loop_output (\<lambda>out. Some (frame_timer_handler out)) st \<noteq> None" by (rule lo [OF Some]) simp
      then show ?thesis using FrameTimer Some run(1) by (auto simp: loop_exec_def)
    next
      case (OutputFrame env buffer)
      then have "loop_output (on_output_frame env buffer) st \<noteq> None"
        using assms(7) output_steps_return(2) by (intro lo [OF Some]) (simp add: loop_buffers_fit_def)
      then show ?thesis using OutputFrame Some run(1) by (auto simp: loop_exec_def)
    qed (use Some run(1) in \<open>simp_all add: loop_exec_def loop_shell_def\<close>)
  qed
  then obtain st' where st': "loop_exec x st = Some st'" "g_server st \<noteq> None \<longrightarrow>
       (\<forall>env. x = InputReady env \<longrightarrow> ring_contents (in_ring (pr_shell (g_process st'))) = []) \<and>
       (\<forall>kbf km. x = TextReady True kbf km \<longrightarrow> pq_ops (tx_queue (pr_shell (g_process st'))) = [])" by blast
  then show ?thesis using system_reachable.loop [OF assms(1,6) st'(1)] by blast
qed

theorem system_handlers_return_witness:
  "\<exists>st'. loop_exec (TextReady True (\<lambda>_. None) None) (jni_step (J_commit True WakeOk (Some (Some [104]))) sample_running) = Some st' \<and>
     pq_ops (tx_queue (pr_shell (g_process st'))) = []"
proof -
  let ?st = "jni_step (J_commit True WakeOk (Some (Some [104]))) sample_running"
  have "op_well_formed (PENDING_TEXT_COMMIT [104])"
    by (auto simp: op_well_formed_def utf8_encode_all_def utf8_encode_def scalar_def intro!: exI [of _ "[104]"])
  then have r: "system_reachable clean_start sample_process ?st"
    by (intro system_reachable.call [OF sample_reachable]) (simp_all add: app_call_def)
  have g: "g_server ?st \<noteq> None"
    using sample_server by (auto simp: native_commit_text_def with_shell_def with_server_def split: option.split)
  have ok: "loop_ok (TextReady True (\<lambda>_. None) None) ?st" "loop_buffers_fit (TextReady True (\<lambda>_. None) None)"
    by (simp_all add: loop_ok_def loop_buffers_fit_def Let_def)
  from system_handlers_return [OF r sample_assms sample_statics ok] g show ?thesis by blast
qed

end
