(* ===== verification/EndToEnd.thy ===== *)
theory EndToEnd
  imports SystemProps
begin

text \<open>
  The way of a text through the whole compositor: from the application's calls of the JNI method, over
  the queue and its pipe, to the protocol object of the client whose window has the keyboard focus.
\<close>

subsection \<open>A run of the system\<close>

text \<open>
  What a list of steps does, \<^const>\<open>None\<close> when one of them is not possible or has undefined
  behaviour.
\<close>

datatype system_step = AppCall jni_op | LoopStep loop_op

fun system_run :: "system_step list \<Rightarrow> jni \<Rightarrow> jni option" where
  "system_run [] st = Some st"
| "system_run (AppCall x # xs) st = system_run xs (jni_step x st)"
| "system_run (LoopStep x # xs) st = (case loop_exec x st of None \<Rightarrow> None | Some st1 \<Rightarrow> system_run xs st1)"

fun system_run_ok :: "system_step list \<Rightarrow> jni \<Rightarrow> bool" where
  "system_run_ok [] st \<longleftrightarrow> True"
| "system_run_ok (AppCall x # xs) st \<longleftrightarrow> op_ok clean_start x st \<and> app_call x \<and> system_run_ok xs (jni_step x st)"
| "system_run_ok (LoopStep x # xs) st \<longleftrightarrow> loop_ok x st \<and>
     (case loop_exec x st of None \<Rightarrow> True | Some st1 \<Rightarrow> system_run_ok xs st1)"

lemma system_run_reachable:
  "\<lbrakk>system_reachable clean_start p st; system_run_ok xs st; system_run xs st = Some st'\<rbrakk> \<Longrightarrow> system_reachable clean_start p st'"
proof (induction xs st rule: system_run.induct)
  case (2 x xs st)
  then show ?case by (auto intro: system_reachable.call)
next
  case (3 x xs st)
  then show ?case by (auto intro: system_reachable.loop split: option.splits)
qed simp

lemma system_run_append:
  "system_run (xs @ ys) st = (case system_run xs st of None \<Rightarrow> None | Some st1 \<Rightarrow> system_run ys st1)"
  by (induction xs st rule: system_run.induct) (auto split: option.split)

subsection \<open>Committing\<close>

definition commit_call :: "bytes \<Rightarrow> system_step" where
  "commit_call s = AppCall (J_commit True WakeOk (Some (Some s)))"

lemma commits_run:
  assumes "g_server st = Some sv"
  shows "system_run (map commit_call texts) st =
    Some (st\<lparr>g_process := (g_process st)\<lparr>pr_shell := commit_texts texts (pr_shell (g_process st))\<rparr>\<rparr>)"
  using assms
proof (induction texts arbitrary: st)
  case Nil
  then show ?case by (simp add: commit_texts_def)
next
  case (Cons s texts)
  let ?st1 = "st\<lparr>g_process := (g_process st)\<lparr>pr_shell := text_input_handle_commit_text True WakeOk (Some s) (pr_shell (g_process st))\<rparr>\<rparr>"
  have "jni_step (J_commit True WakeOk (Some (Some s))) st = ?st1"
    using Cons.prems by (simp add: native_commit_text_def with_shell_def with_server_def)
  moreover have "system_run (map commit_call texts) ?st1 =
      Some (?st1\<lparr>g_process := (g_process ?st1)\<lparr>pr_shell := commit_texts texts (pr_shell (g_process ?st1))\<rparr>\<rparr>)"
    using Cons.prems by (intro Cons.IH) simp
  ultimately show ?case by (simp add: commit_call_def [of s] commit_texts_def)
qed

lemma commits_ok:
  assumes "\<forall>s \<in> set texts. op_well_formed (PENDING_TEXT_COMMIT s)"
  shows "system_run_ok (map commit_call texts @ [LoopStep (TextReady read_ok kbf km)]) st"
  using assms
  by (induction texts arbitrary: st) (auto simp: commit_call_def app_call_def loop_ok_def split: option.split)

text \<open>The object texts go through belongs to the client of the window with the keyboard focus.\<close>

lemma active_has_focus:
  assumes inv: "live_inv sh" and t: "active_enabled sh = Some t"
  shows "\<exists>s. kb_focus (cs_calls sh) = Some s \<and> ts_focused sh = Some s \<and> su_resource s = Some (ti_client t)"
proof -
  obtain i where i: "ti_find i sh = Some t" "ts_active sh = Some i" "ti_current_enabled t"
    using t by (auto simp: active_enabled_def split: option.splits if_splits)
  then have mem: "t \<in> set (ts_inputs sh)" "ti_res t = i" by (auto simp: ti_find_def find_Some_iff)
  have "text_inv sh" using inv by (simp add: live_inv_def shell_inv_def focus_inv_def)
  then have obj: "object_ok (ts_focused sh) t" using mem by (simp add: text_inv_def)
  have "\<not> ti_blank t" using i(3) blank_fields by blast
  then have "ti_entered t" using obj by (auto simp: object_ok_def)
  then obtain s where "ts_focused sh = Some s" "su_resource s = Some (ti_client t)"
    using obj by (auto simp: object_ok_def text_input_matches_surface_client_def)
  then show ?thesis using inv by (simp add: live_inv_def shell_inv_def focus_inv_def)
qed

text \<open>
  C3: A typed text reaches the window with the keyboard focus, through the whole compositor, when a text
  input is there to take it. Take a reachable state of the running system (every start a
  \<^const>\<open>clean_start\<close>) whose text pipe is open, in which the active text input is enabled and no
  operation waits in the queue. Let the application commit up to 256 texts, each non-empty and well-formed,
  256 KiB together, through the JNI method, in a row and with the pipe taking each wake-up; then let the
  event loop run the text handler. All of it succeeds; the client of the surface that has the keyboard
  focus gets each text, whole, once and in order, each followed by \<^verbatim>\<open>done\<close> with the serial of its
  object; nothing else is sent and nothing waits any more. (Without an enabled text input the handler
  types the text as keys instead.)
\<close>

theorem typed_text_end_to_end:
  assumes "system_reachable clean_start p st" "pr_objs p = {}" "\<not> rv_running (pr_receiver p)"
    "\<forall>a \<in> al_allocators (pr_alloc p). a < al_heap (pr_alloc p)" "statics_ok (pr_shell p)"
    and server: "g_server st \<noteq> None"
    and pipe: "0 \<le> tx_pipe_fd (pr_shell (g_process st))" "tx_event_source (pr_shell (g_process st))"
    and idle: "pq_ops (tx_queue (pr_shell (g_process st))) = []"
    and t: "active_enabled (pr_shell (g_process st)) = Some t"
    and texts: "\<forall>s \<in> set texts. s \<noteq> [] \<and> op_well_formed (PENDING_TEXT_COMMIT s)"
      "length texts \<le> 256" "sum_list (map length texts) \<le> 262144"
  shows "\<exists>st'. system_run (map commit_call texts @ [LoopStep (TextReady True kbf km)]) st = Some st' \<and>
    system_reachable clean_start p st' \<and>
    (\<exists>s. kb_focus (cs_calls (pr_shell (g_process st))) = Some s \<and> su_resource s = Some (ti_client t)) \<and>
    cs_calls (pr_shell (g_process st')) = cs_calls (pr_shell (g_process st)) @
      concat (map (\<lambda>s. [TiCommitString (ti_res t) s, TiDone (ti_res t) (ti_serial t)]) texts) \<and>
    pq_ops (tx_queue (pr_shell (g_process st'))) = []"
proof -
  let ?sh = "pr_shell (g_process st)"
  obtain sv where sv: "g_server st = Some sv" using server by blast
  have "sys_inv p (jni_start p)"
    using assms(2-5) by (simp add: sys_inv_def jni_inv_def jni_start_def idle_def heap_ok_def)
  note run = sys_running [OF system_inv [OF assms(1) this] sv]
  have queue: "text_queue_inv (tx_queue ?sh)" using run(3) by (simp add: live_inv_def statics_ok_def)
  obtain q where q: "commit_texts texts ?sh = ?sh\<lparr>tx_queue := q\<rparr>" "text_queue_inv q"
    "pq_ops q = map PENDING_TEXT_COMMIT texts"
    using commit_texts_queue [OF queue pipe, of texts] idle texts
    by (auto simp: PENDING_TEXT_MAX_COUNT_def PENDING_TEXT_MAX_BYTES_def)
  have calls: "map (op_calls t) (pq_ops q) =
      map (\<lambda>s. [TiCommitString (ti_res t) s, TiDone (ti_res t) (ti_serial t)]) texts"
    using texts(1) q(3) by (auto simp: op_calls_def)
  obtain sh' where sh': "text_event_loop (Suc (length texts)) kbf km (?sh\<lparr>tx_queue := q\<rparr>) = Some sh'"
    "pq_ops (tx_queue sh') = []"
    "cs_calls sh' = cs_calls ?sh @ concat (map (op_calls t) (pq_ops q))"
    using text_event_loop_calls [of "?sh\<lparr>tx_queue := q\<rparr>" "Suc (length texts)" t kbf km] q t
    by (auto simp: needs_surrounding_def)
  define st1 where "st1 = st\<lparr>g_process := (g_process st)\<lparr>pr_shell := ?sh\<lparr>tx_queue := q\<rparr>\<rparr>\<rparr>"
  have st1: "system_run (map commit_call texts) st = Some st1" using commits_run [OF sv] q(1) by (simp add: st1_def)
  have "on_text_input_event True kbf km (pr_shell (g_process st1)) = Some sh'"
    using sh'(1) q(3) by (simp add: st1_def on_text_input_event_def del: text_event_loop.simps)
  then have "loop_exec (TextReady True kbf km) st1 = Some (st1\<lparr>g_process := (g_process st1)\<lparr>pr_shell := sh'\<rparr>\<rparr>)"
    using sv run(1) by (simp add: loop_exec_def loop_shell_def st1_def)
  then have steps: "system_run (map commit_call texts @ [LoopStep (TextReady True kbf km)]) st =
      Some (st1\<lparr>g_process := (g_process st1)\<lparr>pr_shell := sh'\<rparr>\<rparr>)"
    by (simp add: system_run_append st1)
  have "system_reachable clean_start p (st1\<lparr>g_process := (g_process st1)\<lparr>pr_shell := sh'\<rparr>\<rparr>)"
    using texts(1) by (intro system_run_reachable [OF assms(1) commits_ok steps]) simp
  then show ?thesis using steps sh' calls active_has_focus [OF run(3) t] by auto
qed

subsection \<open>An example\<close>

text \<open>
  A started compositor in which a client has bound a text input, mapped a window and enabled the
  object.
\<close>

definition typing_history :: "system_step list" where
  "typing_history = map LoopStep
     [TextRequest (GetTextInput True 7 3), WindowEvent (NewToplevel True (toplevel_demo 1 ''code'')),
      WindowEvent (MapToplevel 1), TextRequest (Enable 3), TextRequest (Commit 3)]"

lemma loop_shell_steps:
  assumes "g_server st = Some sv" "g_thread_running st"
  shows "loop_exec (TextRequest rq) st = Some (st\<lparr>g_process := (g_process st)\<lparr>pr_shell := ti_exec rq (pr_shell (g_process st))\<rparr>\<rparr>)"
    "loop_exec (WindowEvent ev) st = Some (st\<lparr>g_process := (g_process st)\<lparr>pr_shell := shell_exec ev (pr_shell (g_process st))\<rparr>\<rparr>)"
  using assms by (simp_all add: loop_exec_def loop_shell_def)

definition idle_shell :: "shell \<Rightarrow> bool" where
  "idle_shell sh \<longleftrightarrow> ts_inputs sh = [] \<and> ts_active sh = None \<and> \<not> ts_committed sh \<and> ts_focused sh = None \<and> ts_listener sh = None \<and>
     cs_toplevels sh = [] \<and> cs_seat sh \<and> cs_keyboard sh \<and> ts_server sh \<and> ts_ime_fd sh = 17 \<and> tx_pipe_fd sh = 19 \<and>
     tx_event_source sh \<and> pq_ops (tx_queue sh) = [] \<and> cs_calls sh = [KeyboardInit, KeyboardSetKeymap, SeatSetKeyboard, SeatSetCapabilities]"

lemma sample_running_idle: "idle_shell (pr_shell (g_process sample_running))"
proof -
  obtain sv q where c: "compositor_server_create sample_create 3 True (g_process (jni_start sample_process)) = (Some sv, q)"
    using sample_created [OF sample_core, of 3 True] by (auto simp: sample_create_def jni_start_def)
  have "g_server (jni_start sample_process) = None" by (simp add: jni_start_def)
  from start_result(2) [OF this c] have p: "g_process sample_running = q" by (simp add: sample_running_def)
  have "pr_shell q = (parts_shell sample_create (14, 15) (pr_shell sample_process))\<lparr>sh_output := output_size (sv_backend sv)\<rparr>"
    using c by (intro created_shell [OF sample_core sample_idle(1) sample_parts]) (simp_all add: jni_start_def sample_create_def)
  then show ?thesis
    by (simp add: p idle_shell_def parts_shell_def sample_create_def sample_process_def sample_shell_def input_server.defs input_server0_def
      text_server0_def text_server.defs text_state.defs text_state0_def empty_text_queue_def
      text_input_handler_init_def input_handler_init_def calloc_server_def text_statics_reset_def set_active_text_input_def
      build_ascii_table_def wl_emit_def Let_def)
qed

lemmas typing_simps = idle_shell_def manager_get_text_input_def new_text_input_def text_input_matches_surface_client_def ti_update_def
  ti_find_def wl_emit_def text_input_handle_keyboard_enter_def clear_text_input_focus_def leave_if_on_def enter_if_client_def
  reset_text_input_request_state_def clear_pending_text_input_state_def clear_committed_text_input_state_def
  clear_surrounding_text_state_def clear_committed_surrounding_text_state_def ti_enable_def ti_commit_def
  set_active_text_input_def request_ime_show_def request_ime_hide_def request_ime_command_def commit_surrounding_def
  commit_rectangle_def on_new_xdg_toplevel_def on_toplevel_map_def update_toplevel_def focus_toplevel_def find_toplevel_def
  toplevel_demo_def deactivate_other_def Let_def

lemma typing_shell:
  fixes sh :: shell
  assumes "idle_shell sh"
  shows "let sh1 = ti_exec (GetTextInput True 7 3) sh; sh2 = shell_exec (NewToplevel True (toplevel_demo 1 ''code'')) sh1;
      sh3 = shell_exec (MapToplevel 1) sh2; sh4 = ti_exec (Enable 3) sh3; sh5 = ti_exec (Commit 3) sh4
    in ti_ids sh = [] \<and> cs_toplevels sh1 = [] \<and> cs_calls sh1 = cs_calls sh \<and>
      tx_pipe_fd sh5 = 19 \<and> tx_event_source sh5 \<and> pq_ops (tx_queue sh5) = [] \<and>
      (\<exists>t. active_enabled sh5 = Some t \<and> ti_res t = 3 \<and> ti_client t = 7 \<and> ti_serial t = 1)"
  using assms by (simp add: typing_simps active_enabled_def)

definition sample_typing :: jni where
  "sample_typing = the (system_run typing_history sample_running)"

lemma sample_typing:
  "system_reachable clean_start sample_process sample_typing" "g_server sample_typing \<noteq> None"
  "0 \<le> tx_pipe_fd (pr_shell (g_process sample_typing))" "tx_event_source (pr_shell (g_process sample_typing))"
  "pq_ops (tx_queue (pr_shell (g_process sample_typing))) = []"
  "\<exists>t. active_enabled (pr_shell (g_process sample_typing)) = Some t \<and> ti_res t = 3 \<and> ti_client t = 7 \<and> ti_serial t = 1"
proof -
  let ?sh = "pr_shell (g_process sample_running)"
  define sh1 where "sh1 = ti_exec (GetTextInput True 7 3) ?sh"
  define sh2 where "sh2 = shell_exec (NewToplevel True (toplevel_demo 1 ''code'')) sh1"
  define sh5 where "sh5 = ti_exec (Commit 3) (ti_exec (Enable 3) (shell_exec (MapToplevel 1) sh2))"
  have f: "ti_ids ?sh = []" "cs_toplevels sh1 = []" "cs_calls sh1 = cs_calls ?sh" "tx_pipe_fd sh5 = 19" "tx_event_source sh5"
    "pq_ops (tx_queue sh5) = []"
    and t: "\<exists>t. active_enabled sh5 = Some t \<and> ti_res t = 3 \<and> ti_client t = 7 \<and> ti_serial t = 1"
    using typing_shell [OF sample_running_idle] by (simp_all only: Let_def sh1_def sh2_def sh5_def)
  obtain sv where sv: "g_server sample_running = Some sv" using sample_server by blast
  have "sys_inv sample_process (jni_start sample_process)"
    using sample_assms sample_statics by (simp add: sys_inv_def jni_inv_def jni_start_def idle_def heap_ok_def)
  note run = sys_running(1) [OF system_inv [OF sample_reachable this] sv]
  have steps: "system_run typing_history sample_running =
      Some (sample_running\<lparr>g_process := (g_process sample_running)\<lparr>pr_shell := sh5\<rparr>\<rparr>)"
    unfolding typing_history_def using sv run
    by (simp add: loop_shell_steps sh1_def sh2_def sh5_def del: ti_exec.simps shell_exec.simps)
  have "cs_calls ?sh = [KeyboardInit, KeyboardSetKeymap, SeatSetKeyboard, SeatSetCapabilities]"
    using sample_running_idle by (simp add: idle_shell_def)
  then have new: "shell_op_ok (NewToplevel True (toplevel_demo 1 ''code'')) sh1"
    using f(2,3) by (simp add: shell_op_ok_def toplevel_demo_def activated_def)
  have "system_run_ok typing_history sample_running"
    unfolding typing_history_def using sv run f(1) new
    by (simp add: loop_shell_steps loop_ok_def ti_op_ok_def shell_op_ok_def sh1_def [symmetric] Let_def
        del: ti_exec.simps shell_exec.simps)
  then have "system_reachable clean_start sample_process sample_typing"
    using system_run_reachable [OF sample_reachable _ steps] steps by (simp add: sample_typing_def)
  then show "system_reachable clean_start sample_process sample_typing" "g_server sample_typing \<noteq> None"
    "0 \<le> tx_pipe_fd (pr_shell (g_process sample_typing))" "tx_event_source (pr_shell (g_process sample_typing))"
    "pq_ops (tx_queue (pr_shell (g_process sample_typing))) = []"
    "\<exists>t. active_enabled (pr_shell (g_process sample_typing)) = Some t \<and> ti_res t = 3 \<and> ti_client t = 7 \<and> ti_serial t = 1"
    using sv f t by (simp_all add: sample_typing_def steps)
qed

theorem typed_text_end_to_end_witness:
  "\<exists>st'. system_run (map commit_call [[104], [105]] @ [LoopStep (TextReady True (\<lambda>_. None) None)]) sample_typing = Some st' \<and>
    cs_calls (pr_shell (g_process st')) = cs_calls (pr_shell (g_process sample_typing)) @
      [TiCommitString 3 [104], TiDone 3 1, TiCommitString 3 [105], TiDone 3 1]"
proof -
  obtain t where t: "active_enabled (pr_shell (g_process sample_typing)) = Some t" "ti_res t = 3" "ti_serial t = 1"
    using sample_typing(6) by blast
  have "op_well_formed (PENDING_TEXT_COMMIT [104])"
    by (auto simp: op_well_formed_def utf8_encode_all_def utf8_encode_def scalar_def intro!: exI [of _ "[104]"])
  moreover have "op_well_formed (PENDING_TEXT_COMMIT [105])"
    by (auto simp: op_well_formed_def utf8_encode_all_def utf8_encode_def scalar_def intro!: exI [of _ "[105]"])
  ultimately have "\<forall>s \<in> set [[104], [105]]. s \<noteq> [] \<and> op_well_formed (PENDING_TEXT_COMMIT s)" by simp
  from typed_text_end_to_end [OF sample_typing(1) sample_assms sample_statics sample_typing(2-5) t(1) this, of "\<lambda>_. None" None]
  show ?thesis using t(2,3) by auto
qed

end
