(* ===== verification/TestClient.thy ===== *)
theory TestClient
  imports JniBridge
begin

text \<open>
  \<^verbatim>\<open>compositor/native/src/test_client.c\<close>: the built-in client. It draws four coloured quadrants into a
  shared-memory buffer on each configure, on a thread of its own, connected by a socket pair.
\<close>

subsection \<open>Pixels\<close>

definition COLOR_RED :: u32 where "COLOR_RED = 0xFFFF0000"
definition COLOR_GREEN :: u32 where "COLOR_GREEN = 0xFF00FF00"
definition COLOR_BLUE :: u32 where "COLOR_BLUE = 0xFF0000FF"
definition COLOR_YELLOW :: u32 where "COLOR_YELLOW = 0xFFFFFF00"

definition fill_row :: "int \<Rightarrow> int \<Rightarrow> int \<Rightarrow> int \<Rightarrow> int \<Rightarrow> u32 list \<Rightarrow> u32 list" where
  "fill_row w half_w half_h n y pixels =
     fold (\<lambda>x px. px[nat (y * w + x) :=
         (if y < half_h then (if x < half_w then COLOR_RED else COLOR_GREEN)
          else (if x < half_w then COLOR_BLUE else COLOR_YELLOW))]) [0..n - 1] pixels"

definition fill_pattern :: "int \<Rightarrow> int \<Rightarrow> u32 list \<Rightarrow> u32 list" where
  "fill_pattern w h pixels = fold (fill_row w (w div 2) (h div 2) w) [0..h - 1] pixels"

subsection \<open>State\<close>

text \<open>
  The requests a client sends. A buffer is recorded with what its pool's file holds when the pool is
  made; nothing writes the file afterwards.
\<close>

datatype tc_request =
    C_bind nat string
  | C_pong u32
  | C_ack_configure u32
  | C_create_surface
  | C_get_xdg_surface
  | C_get_toplevel
  | C_set_title string
  | C_create_pool int int
  | C_create_buffer int int int "u32 list"
  | C_destroy_pool
  | C_attach
  | C_damage int int
  | C_commit

text \<open>\<^verbatim>\<open>struct test_client_state\<close>, with the client's descriptors, mappings and requests.\<close>

record test_client_state =
  tc_compositor :: bool
  tc_shm :: bool
  tc_wm_base :: bool
  tc_width :: int
  tc_height :: int
  tc_configured :: bool
  tc_fds :: "int set"
  tc_maps :: nat
  tc_fault :: bool
  tc_sent :: "tc_request list"

definition tc_send :: "tc_request list \<Rightarrow> test_client_state \<Rightarrow> test_client_state" where
  "tc_send rs st = st\<lparr>tc_sent := tc_sent st @ rs\<rparr>"

definition tc_close :: "int \<Rightarrow> test_client_state \<Rightarrow> test_client_state" where
  "tc_close fd st = (if fd \<in> tc_fds st then st\<lparr>tc_fds := tc_fds st - {fd}\<rparr> else st\<lparr>tc_fault := True\<rparr>)"

subsection \<open>Drawing\<close>

text \<open>What \<^verbatim>\<open>memfd_create\<close>, \<^verbatim>\<open>ftruncate\<close> and \<^verbatim>\<open>mmap\<close> return for one frame.\<close>

record frame_env =
  fe_memfd :: "int option"
  fe_truncate :: bool
  fe_mmap :: bool

definition fits_int :: "int \<Rightarrow> bool" where
  "fits_int n \<longleftrightarrow> - (2 ^ 31) \<le> n \<and> n < 2 ^ 31"

text \<open>\<open>None\<close> is the signed overflow of the size computation. The file is zero-filled by \<^verbatim>\<open>ftruncate\<close>.\<close>

definition draw_frame :: "frame_env \<Rightarrow> test_client_state \<Rightarrow> test_client_state option" where
  "draw_frame e st =
     (let w = tc_width st; h = tc_height st; stride = w * 4; frame_size = stride * h in
      if \<not> fits_int stride \<or> \<not> fits_int frame_size then None
      else
        (case fe_memfd e of None \<Rightarrow> Some st
         | Some fd \<Rightarrow>
           let st1 = st\<lparr>tc_fds := insert fd (tc_fds st)\<rparr> in
           if \<not> fe_truncate e then Some (tc_close fd st1)
           else if \<not> fe_mmap e then Some (tc_close fd st1)
           else
             let st2 = st1\<lparr>tc_maps := tc_maps st1 + 1\<rparr>;
                 pixels = fill_pattern w h (replicate (nat (frame_size div 4)) 0);
                 st3 = tc_send [C_create_pool fd frame_size, C_create_buffer w h stride pixels, C_destroy_pool] st2;
                 st4 = tc_close fd (st3\<lparr>tc_maps := tc_maps st3 - 1\<rparr>)
             in Some (tc_send [C_attach, C_damage w h, C_commit] st4)))"

subsection \<open>Listeners\<close>

definition xdg_wm_base_handle_ping_tc :: "u32 \<Rightarrow> test_client_state \<Rightarrow> test_client_state" where
  "xdg_wm_base_handle_ping_tc serial = tc_send [C_pong serial]"

definition xdg_surface_handle_configure_tc :: "frame_env \<Rightarrow> u32 \<Rightarrow> test_client_state \<Rightarrow> test_client_state option" where
  "xdg_surface_handle_configure_tc e serial st =
     draw_frame e ((tc_send [C_ack_configure serial] st)\<lparr>tc_configured := True\<rparr>)"

definition xdg_toplevel_handle_configure_tc :: "int \<Rightarrow> int \<Rightarrow> test_client_state \<Rightarrow> test_client_state" where
  "xdg_toplevel_handle_configure_tc width height st =
     (if width > 0 \<and> height > 0 then st\<lparr>tc_width := width, tc_height := height\<rparr> else st)"

definition xdg_toplevel_handle_close_tc :: "test_client_state \<Rightarrow> test_client_state" where
  "xdg_toplevel_handle_close_tc st = st"

definition xdg_toplevel_handle_configure_bounds :: "int \<Rightarrow> int \<Rightarrow> test_client_state \<Rightarrow> test_client_state" where
  "xdg_toplevel_handle_configure_bounds width height st = st"

definition xdg_toplevel_handle_wm_capabilities :: "test_client_state \<Rightarrow> test_client_state" where
  "xdg_toplevel_handle_wm_capabilities st = st"

definition registry_handle_global :: "nat \<Rightarrow> string \<Rightarrow> test_client_state \<Rightarrow> test_client_state" where
  "registry_handle_global name iface st =
     (if iface = ''wl_compositor'' then tc_send [C_bind name iface] (st\<lparr>tc_compositor := True\<rparr>)
      else if iface = ''wl_shm'' then tc_send [C_bind name iface] (st\<lparr>tc_shm := True\<rparr>)
      else if iface = ''xdg_wm_base'' then tc_send [C_bind name iface] (st\<lparr>tc_wm_base := True\<rparr>)
      else st)"

definition registry_handle_global_remove :: "nat \<Rightarrow> test_client_state \<Rightarrow> test_client_state" where
  "registry_handle_global_remove name st = st"

subsection \<open>Thread\<close>

datatype tc_event =
    E_global nat string
  | E_global_remove nat
  | E_ping u32
  | E_surface_configure frame_env u32
  | E_toplevel_configure int int
  | E_close
  | E_bounds int int
  | E_capabilities

fun tc_handle :: "tc_event \<Rightarrow> test_client_state \<Rightarrow> test_client_state option" where
  "tc_handle (E_global name iface) st = Some (registry_handle_global name iface st)"
| "tc_handle (E_global_remove name) st = Some (registry_handle_global_remove name st)"
| "tc_handle (E_ping serial) st = Some (xdg_wm_base_handle_ping_tc serial st)"
| "tc_handle (E_surface_configure e serial) st = xdg_surface_handle_configure_tc e serial st"
| "tc_handle (E_toplevel_configure w h) st = Some (xdg_toplevel_handle_configure_tc w h st)"
| "tc_handle E_close st = Some (xdg_toplevel_handle_close_tc st)"
| "tc_handle (E_bounds w h) st = Some (xdg_toplevel_handle_configure_bounds w h st)"
| "tc_handle E_capabilities st = Some (xdg_toplevel_handle_wm_capabilities st)"

text \<open>The dispatch loop over the events that arrive before the compositor disconnects.\<close>

fun tc_dispatch :: "tc_event list \<Rightarrow> test_client_state \<Rightarrow> test_client_state option" where
  "tc_dispatch [] st = Some st"
| "tc_dispatch (ev # evs) st = (case tc_handle ev st of None \<Rightarrow> None | Some st' \<Rightarrow> tc_dispatch evs st')"

definition tc_start :: "int \<Rightarrow> test_client_state" where
  "tc_start client_fd = \<lparr>tc_compositor = False, tc_shm = False, tc_wm_base = False, tc_width = 1080, tc_height = 2400,
     tc_configured = False, tc_fds = {client_fd}, tc_maps = 0, tc_fault = False, tc_sent = []\<rparr>"

text \<open>
  \<^verbatim>\<open>wl_display_connect_to_fd\<close> takes the descriptor over: disconnecting closes it, and so does a failed
  connection. \<open>globals\<close> is what the first roundtrip announces.
\<close>

definition test_client_thread ::
    "bool \<Rightarrow> (nat \<times> string) list \<Rightarrow> tc_event list \<Rightarrow> int \<Rightarrow> test_client_state option" where
  "test_client_thread connect_ok globals events client_fd =
     (let st0 = tc_start client_fd in
      if \<not> connect_ok then Some (tc_close client_fd (tc_close client_fd st0))
      else
        let st1 = fold (\<lambda>(name, iface). registry_handle_global name iface) globals st0 in
        if \<not> tc_compositor st1 \<or> \<not> tc_shm st1 \<or> \<not> tc_wm_base st1 then Some (tc_close client_fd st1)
        else
          (case tc_dispatch events (tc_send [C_create_surface, C_get_xdg_surface, C_get_toplevel, C_set_title ''Test Pattern'', C_commit] st1) of
             None \<Rightarrow> None
           | Some st2 \<Rightarrow> Some (tc_close client_fd st2)))"

subsection \<open>Start\<close>

text \<open>The process side: open descriptors, those owned by server-side clients, and by client threads.\<close>

record tc_host =
  th_fds :: "int set"
  th_clients :: "int list"
  th_threads :: "int list"

definition test_client_start ::
    "bool \<Rightarrow> (int \<times> int) option \<Rightarrow> bool \<Rightarrow> bool \<Rightarrow> tc_host \<Rightarrow> int \<times> tc_host" where
  "test_client_start server_ok pair client_ok thread_ok h =
     (if \<not> server_ok then (-1, h)
      else
        (case pair of None \<Rightarrow> (-1, h)
         | Some (fd0, fd1) \<Rightarrow>
           let h1 = h\<lparr>th_fds := th_fds h \<union> {fd0, fd1}\<rparr> in
           if \<not> client_ok then (-1, h1\<lparr>th_fds := th_fds h1 - {fd0} - {fd1}\<rparr>)
           else
             let h2 = h1\<lparr>th_clients := th_clients h1 @ [fd0]\<rparr> in
             if \<not> thread_ok then (-1, h2\<lparr>th_fds := th_fds h2 - {fd1}\<rparr>)
             else (0, h2\<lparr>th_threads := th_threads h2 @ [fd1]\<rparr>)))"

definition native_start_test_client ::
    "(int \<times> int) option \<Rightarrow> bool \<Rightarrow> bool \<Rightarrow> jni \<Rightarrow> tc_host \<Rightarrow> tc_host" where
  "native_start_test_client pair client_ok thread_ok st h =
     (if g_server st = None then h else snd (test_client_start True pair client_ok thread_ok h))"

end
