(* ===== verification/TestClientProps.thy ===== *)
theory TestClientProps
  imports TestClient
begin

text \<open>
  The test client: what the pixel loops write, which frames the thread presents over any sequence of
  events, and that it gives back every descriptor and mapping, or closes one too often.
\<close>

subsection \<open>The pattern\<close>

definition quadrant :: "nat \<Rightarrow> nat \<Rightarrow> nat \<Rightarrow> nat \<Rightarrow> u32" where
  "quadrant w h x y = (if y < h div 2 then (if x < w div 2 then COLOR_RED else COLOR_GREEN)
     else (if x < w div 2 then COLOR_BLUE else COLOR_YELLOW))"

text \<open>The image as it is meant: pixel \<open>i\<close> lies in column \<open>i mod w\<close> of row \<open>i div w\<close>.\<close>

definition pattern_image :: "nat \<Rightarrow> nat \<Rightarrow> u32 list" where
  "pattern_image w h = map (\<lambda>i. quadrant w h (i mod w) (i div w)) [0..<w * h]"

lemma upto_upt: "[0..int n - 1] = map int [0..<n]"
proof (induction n)
  case 0
  then show ?case by simp
next
  case (Suc n)
  have "[0..int (Suc n) - 1] = [0..int n - 1] @ [int n]" using upto_rec2 [of 0 "int n"] by simp
  then show ?case using Suc by simp
qed

lemma fill_row_upt:
  "fill_row (int w) (int w div 2) (int h div 2) (int n) (int y) px =
     fold (\<lambda>x px. px[y * w + x := quadrant w h x y]) [0..<n] px"
proof -
  have q: "(if int y < int h div 2 then (if int x < int w div 2 then COLOR_RED else COLOR_GREEN)
      else (if int x < int w div 2 then COLOR_BLUE else COLOR_YELLOW)) = quadrant w h x y" for x
    using zdiv_int [of h 2] zdiv_int [of w 2] by (simp add: quadrant_def del: of_nat_div)
  have i: "nat (int y * int w + int x) = y * w + x" for x
    by (metis nat_int of_nat_add of_nat_mult)
  show ?thesis unfolding fill_row_def upto_upt fold_map comp_def q i ..
qed

lemma row_nth:
  assumes "y * w + n \<le> length px"
  shows "length (fold (\<lambda>x px. px[y * w + x := quadrant w h x y]) [0..<n] px) = length px \<and>
    (\<forall>i < length px. fold (\<lambda>x px. px[y * w + x := quadrant w h x y]) [0..<n] px ! i =
       (if y * w \<le> i \<and> i < y * w + n then quadrant w h (i - y * w) y else px ! i))"
  using assms by (induction n) (auto simp: nth_list_update)

lemma rows_nth:
  assumes "w > 0" "k * w \<le> length px"
  shows "length (fold (\<lambda>y. fill_row (int w) (int w div 2) (int h div 2) (int w) (int y)) [0..<k] px) = length px \<and>
    (\<forall>i < length px. fold (\<lambda>y. fill_row (int w) (int w div 2) (int h div 2) (int w) (int y)) [0..<k] px ! i =
       (if i < k * w then quadrant w h (i mod w) (i div w) else px ! i))"
  using assms(2)
proof (induction k)
  case 0
  then show ?case by simp
next
  case (Suc k)
  define q where "q = fold (\<lambda>y. fill_row (int w) (int w div 2) (int h div 2) (int w) (int y)) [0..<k] px"
  have ih: "length q = length px" "\<And>i. i < length px \<Longrightarrow> q ! i = (if i < k * w then quadrant w h (i mod w) (i div w) else px ! i)"
    using Suc by (simp_all add: q_def)
  have fit: "k * w + w \<le> length q" using Suc.prems ih(1) by simp
  have last: "i mod w = i - k * w \<and> i div w = k" if "k * w \<le> i" "i < k * w + w" for i
  proof -
    obtain j where j: "i = k * w + j" "j < w" using \<open>k * w \<le> i\<close> \<open>i < k * w + w\<close> by (metis le_iff_add nat_add_left_cancel_less)
    then show ?thesis by simp
  qed
  have step: "fold (\<lambda>y. fill_row (int w) (int w div 2) (int h div 2) (int w) (int y)) [0..<Suc k] px =
      fold (\<lambda>x px. px[k * w + x := quadrant w h x k]) [0..<w] q"
    by (simp add: q_def fill_row_upt)
  show ?case unfolding step using row_nth [OF fit, of h] ih last by (auto simp: not_less)
qed

lemma fill_pattern_image:
  assumes "w > 0" "length px = w * h"
  shows "fill_pattern (int w) (int h) px = pattern_image w h"
proof -
  let ?r = "fold (\<lambda>y. fill_row (int w) (int w div 2) (int h div 2) (int w) (int y)) [0..<h] px"
  have "fill_pattern (int w) (int h) px = ?r"
    unfolding fill_pattern_def upto_upt fold_map comp_def ..
  moreover have "?r = pattern_image w h"
    using rows_nth [of w h px h] assms by (intro nth_equalityI) (simp_all add: pattern_image_def mult.commute)
  ultimately show ?thesis by simp
qed

subsection \<open>What a run presents\<close>

text \<open>
  The compositor's side, written from the protocol and not from the client: a buffer lies in a pool
  that is open and large enough, \<^verbatim>\<open>attach\<close> makes the newest buffer the pending one, and a \<^verbatim>\<open>commit\<close>
  shows the pending buffer, once, when the damage covers it (without damage the compositor may keep
  showing the old picture).
\<close>

type_synonym frame = "int \<times> int \<times> int \<times> u32 list"

record viewer =
  vw_pool :: "int option"
  vw_buffer :: "frame option"
  vw_pending :: "frame option"
  vw_damage :: "(int \<times> int) option"
  vw_shown :: "frame list"

definition view_commit :: "viewer \<Rightarrow> viewer" where
  "view_commit v =
     (case vw_pending v of
        None \<Rightarrow> v\<lparr>vw_damage := None\<rparr>
      | Some (w, h, stride, pixels) \<Rightarrow>
          v\<lparr>vw_pending := None, vw_damage := None,
            vw_shown := vw_shown v @ (if vw_damage v = Some (w, h) then [(w, h, stride, pixels)] else [])\<rparr>)"

definition view_step :: "tc_request \<Rightarrow> viewer \<Rightarrow> viewer" where
  "view_step r v =
     (case r of
        C_create_pool fd n \<Rightarrow> v\<lparr>vw_pool := Some n\<rparr>
      | C_create_buffer w h stride pixels \<Rightarrow>
          (case vw_pool v of None \<Rightarrow> v | Some n \<Rightarrow> if stride * h \<le> n then v\<lparr>vw_buffer := Some (w, h, stride, pixels)\<rparr> else v)
      | C_destroy_pool \<Rightarrow> v\<lparr>vw_pool := None\<rparr>
      | C_attach \<Rightarrow> v\<lparr>vw_pending := vw_buffer v\<rparr>
      | C_damage w h \<Rightarrow> v\<lparr>vw_damage := Some (w, h)\<rparr>
      | C_commit \<Rightarrow> view_commit v
      | _ \<Rightarrow> v)"

definition view :: "tc_request list \<Rightarrow> viewer" where
  "view rs = fold view_step rs \<lparr>vw_pool = None, vw_buffer = None, vw_pending = None, vw_damage = None, vw_shown = []\<rparr>"

definition presented_frames :: "tc_request list \<Rightarrow> frame list" where
  "presented_frames rs = vw_shown (view rs)"

text \<open>Between two frames nothing is pending.\<close>

definition resting :: "tc_request list \<Rightarrow> bool" where
  "resting rs \<longleftrightarrow> vw_pending (view rs) = None \<and> vw_damage (view rs) = None"

lemma view_append: "view (a @ b) = fold view_step b (view a)"
  by (simp add: view_def)

lemmas view_simps = presented_frames_def resting_def view_append view_step_def view_commit_def

definition sent_acks :: "tc_request list \<Rightarrow> u32 list" where
  "sent_acks rs = concat (map (\<lambda>r. case r of C_ack_configure s \<Rightarrow> [s] | _ \<Rightarrow> []) rs)"

definition sent_pongs :: "tc_request list \<Rightarrow> u32 list" where
  "sent_pongs rs = concat (map (\<lambda>r. case r of C_pong s \<Rightarrow> [s] | _ \<Rightarrow> []) rs)"

definition fe_ok :: "frame_env \<Rightarrow> bool" where
  "fe_ok e \<longleftrightarrow> fe_memfd e \<noteq> None \<and> fe_truncate e \<and> fe_mmap e"

text \<open>The frames asked for: at each configure of the surface, the size last configured (if positive).\<close>

fun wanted_frames :: "nat \<times> nat \<Rightarrow> tc_event list \<Rightarrow> (nat \<times> nat) list" where
  "wanted_frames _ [] = []"
| "wanted_frames sz (E_surface_configure e _ # evs) = (if fe_ok e then [sz] else []) @ wanted_frames sz evs"
| "wanted_frames sz (E_toplevel_configure w h # evs) = wanted_frames (if w > 0 \<and> h > 0 then (nat w, nat h) else sz) evs"
| "wanted_frames sz (_ # evs) = wanted_frames sz evs"

definition wanted_acks :: "tc_event list \<Rightarrow> u32 list" where
  "wanted_acks evs = concat (map (\<lambda>e. case e of E_surface_configure _ s \<Rightarrow> [s] | _ \<Rightarrow> []) evs)"

definition wanted_pongs :: "tc_event list \<Rightarrow> u32 list" where
  "wanted_pongs evs = concat (map (\<lambda>e. case e of E_ping s \<Rightarrow> [s] | _ \<Rightarrow> []) evs)"

text \<open>The kernel hands out descriptors that are not open; sizes whose frame fits an \<^verbatim>\<open>int\<close>.\<close>

fun event_ok :: "int \<Rightarrow> tc_event \<Rightarrow> bool" where
  "event_ok fd (E_surface_configure e _) \<longleftrightarrow> fe_memfd e \<noteq> Some fd"
| "event_ok fd (E_toplevel_configure w h) \<longleftrightarrow> w > 0 \<and> h > 0 \<longrightarrow> w * 4 * h < 2 ^ 31"
| "event_ok fd _ \<longleftrightarrow> True"

definition image_of :: "nat \<times> nat \<Rightarrow> int \<times> int \<times> int \<times> u32 list" where
  "image_of sz = (int (fst sz), int (snd sz), int (fst sz) * 4, pattern_image (fst sz) (snd sz))"

definition tc_clean :: "int \<Rightarrow> nat \<times> nat \<Rightarrow> test_client_state \<Rightarrow> bool" where
  "tc_clean fd sz st \<longleftrightarrow> tc_fds st = {fd} \<and> tc_maps st = 0 \<and> \<not> tc_fault st \<and>
     resting (tc_sent st) \<and> tc_width st = int (fst sz) \<and> tc_height st = int (snd sz) \<and> 0 < fst sz \<and> 0 < snd sz \<and> fst sz * 4 * snd sz < 2 ^ 31"

lemma projections [simp]:
  "sent_acks (a @ b) = sent_acks a @ sent_acks b"
  "sent_pongs (a @ b) = sent_pongs a @ sent_pongs b"
  by (simp_all add: sent_acks_def sent_pongs_def)

lemma draw_frame_spec:
  assumes clean: "tc_clean fd sz st" and fresh: "fe_memfd e \<noteq> Some fd"
  obtains st' where "draw_frame e st = Some st'" "tc_clean fd sz st'"
    "presented_frames (tc_sent st') = presented_frames (tc_sent st) @ (if fe_ok e then [image_of sz] else [])"
    "sent_acks (tc_sent st') = sent_acks (tc_sent st)" "sent_pongs (tc_sent st') = sent_pongs (tc_sent st)"
proof -
  obtain w h where sz: "sz = (w, h)" by fastforce
  have c: "tc_fds st = {fd}" "tc_maps st = 0" "\<not> tc_fault st" "tc_width st = int w" "tc_height st = int h" "0 < w" "0 < h" "w * 4 * h < 2 ^ 31"
    using clean by (simp_all add: tc_clean_def sz)
  have "int (w * 4 * h) < int (2 ^ 31)" using c(8) by (simp only: of_nat_less_iff)
  then have area: "int w * 4 * int h < 2 ^ 31" by simp
  have "int (w * 4) \<le> int (w * 4 * h)" using c(7) by (simp only: of_nat_le_iff) simp
  then have "int w * 4 < 2 ^ 31" using area by simp
  then have fits: "fits_int (int w * 4)" "fits_int (int w * 4 * int h)" using area order_trans [of "- (2 ^ 31)" 0 "int (w * 4 * h)"]
    by (simp_all add: fits_int_def)
  have "int w * 4 * int h div 4 = int (w * h)" by (simp add: mult.assoc mult.commute)
  then have px: "fill_pattern (int w) (int h) (replicate (nat (int w * 4 * int h div 4)) 0) = pattern_image w h"
    using fill_pattern_image [OF c(6), of "replicate (w * h) 0" h] by (metis length_replicate nat_int)
  show thesis
  proof (cases "fe_memfd e")
    case None
    then show thesis using that [of st] clean fits by (simp add: draw_frame_def c(4,5) fe_ok_def)
  next
    case (Some m)
    then have m: "m \<noteq> fd" using fresh by simp
    have draw: "draw_frame e st = Some (if fe_ok e then st\<lparr>tc_sent := tc_sent st @ [C_create_pool m (int w * 4 * int h),
        C_create_buffer (int w) (int h) (int w * 4) (pattern_image w h), C_destroy_pool, C_attach, C_damage (int w) (int h), C_commit]\<rparr> else st)"
      using fits m Some c(1,2) px by (simp add: draw_frame_def Let_def c(4,5) tc_close_def tc_send_def fe_ok_def insert_Diff_if)
    show thesis using that [OF draw] clean
      by (simp add: tc_clean_def view_simps sent_acks_def sent_pongs_def image_of_def sz)
  qed
qed

lemma dispatch_spec:
  assumes "tc_clean fd sz st" "list_all (event_ok fd) evs"
  shows "\<exists>st' sz'. tc_dispatch evs st = Some st' \<and> tc_clean fd sz' st' \<and>
    presented_frames (tc_sent st') = presented_frames (tc_sent st) @ map image_of (wanted_frames sz evs) \<and>
    sent_acks (tc_sent st') = sent_acks (tc_sent st) @ wanted_acks evs \<and>
    sent_pongs (tc_sent st') = sent_pongs (tc_sent st) @ wanted_pongs evs"
  using assms
proof (induction evs arbitrary: st sz)
  case Nil
  then show ?case by (intro exI [of _ st] exI [of _ sz]) (simp add: wanted_acks_def wanted_pongs_def)
next
  case (Cons ev evs)
  have rest: "list_all (event_ok fd) evs" and ok: "event_ok fd ev" using Cons.prems by simp_all
  have go: ?case if h: "tc_handle ev st = Some st1" and c: "tc_clean fd sz1 st1"
    and f: "map image_of (wanted_frames sz (ev # evs)) = f1 @ map image_of (wanted_frames sz1 evs)"
      "presented_frames (tc_sent st1) = presented_frames (tc_sent st) @ f1"
    and a: "sent_acks (tc_sent st1) = sent_acks (tc_sent st) @ wanted_acks [ev]"
      "sent_pongs (tc_sent st1) = sent_pongs (tc_sent st) @ wanted_pongs [ev]" for st1 sz1 f1
    using Cons.IH [OF c rest] h f a by (auto simp: wanted_acks_def wanted_pongs_def)
  show ?case
  proof (cases ev)
    case (E_global name iface)
    show ?thesis
      by (rule go [of "registry_handle_global name iface st" sz "[]"])
        (use Cons.prems(1) E_global in \<open>simp_all add: registry_handle_global_def tc_send_def tc_clean_def wanted_acks_def wanted_pongs_def
          view_simps sent_acks_def sent_pongs_def\<close>)
  next
    case (E_ping s)
    show ?thesis
      by (rule go [of "tc_send [C_pong s] st" sz "[]"])
        (use E_ping Cons.prems(1) in \<open>simp_all add: xdg_wm_base_handle_ping_tc_def wanted_acks_def wanted_pongs_def\<close>,
         simp_all add: tc_clean_def tc_send_def view_simps sent_acks_def sent_pongs_def)
  next
    case (E_surface_configure e s)
    let ?s = "(tc_send [C_ack_configure s] st)\<lparr>tc_configured := True\<rparr>"
    have c: "tc_clean fd sz ?s" using Cons.prems(1) by (simp add: tc_clean_def tc_send_def view_simps)
    have fr: "fe_memfd e \<noteq> Some fd" using ok E_surface_configure by simp
    have base: "presented_frames (tc_sent ?s) = presented_frames (tc_sent st)" "sent_acks (tc_sent ?s) = sent_acks (tc_sent st) @ [s]"
      "sent_pongs (tc_sent ?s) = sent_pongs (tc_sent st)"
      by (simp_all add: tc_send_def, simp_all add: view_simps sent_acks_def sent_pongs_def)
    obtain st' where d: "draw_frame e ?s = Some st'" "tc_clean fd sz st'"
      "presented_frames (tc_sent st') = presented_frames (tc_sent ?s) @ (if fe_ok e then [image_of sz] else [])"
      "sent_acks (tc_sent st') = sent_acks (tc_sent ?s)" "sent_pongs (tc_sent st') = sent_pongs (tc_sent ?s)"
      by (rule draw_frame_spec [OF c fr])
    show ?thesis
      by (rule go [of st' sz "if fe_ok e then [image_of sz] else []"])
        (use E_surface_configure d base in \<open>simp_all add: xdg_surface_handle_configure_tc_def wanted_acks_def wanted_pongs_def\<close>)
  next
    case (E_toplevel_configure w h)
    have "nat w * 4 * nat h < 2 ^ 31" if "w > 0" "h > 0"
    proof -
      have "w * 4 * h < 2 ^ 31" using ok that E_toplevel_configure by simp
      then have "int (nat w * 4 * nat h) < int (2 ^ 31)" using that by simp
      then show ?thesis by (simp only: of_nat_less_iff)
    qed
    then show ?thesis
      by (intro go [of "xdg_toplevel_handle_configure_tc w h st" "if w > 0 \<and> h > 0 then (nat w, nat h) else sz" "[]"])
        (use Cons.prems(1) E_toplevel_configure in \<open>simp_all add: xdg_toplevel_handle_configure_tc_def tc_clean_def wanted_acks_def wanted_pongs_def mult.commute\<close>)
  qed (rule go [of st sz "[]"]; use Cons.prems(1) in \<open>simp add: registry_handle_global_remove_def xdg_toplevel_handle_close_tc_def
      xdg_toplevel_handle_configure_bounds_def xdg_toplevel_handle_wm_capabilities_def wanted_acks_def wanted_pongs_def\<close>)+
qed

subsection \<open>Properties\<close>

definition globals_ok :: "(nat \<times> string) list \<Rightarrow> bool" where
  "globals_ok gs \<longleftrightarrow> {''wl_compositor'', ''wl_shm'', ''xdg_wm_base''} \<subseteq> snd ` set gs"

lemma globals_fold:
  defines "g \<equiv> fold (\<lambda>(name, iface). registry_handle_global name iface)"
  assumes "tc_clean fd sz st"
  shows "tc_clean fd sz (g gs st)"
    and "presented_frames (tc_sent (g gs st)) = presented_frames (tc_sent st)" "sent_acks (tc_sent (g gs st)) = sent_acks (tc_sent st)"
      "sent_pongs (tc_sent (g gs st)) = sent_pongs (tc_sent st)"
    and "tc_compositor (g gs st) \<longleftrightarrow> tc_compositor st \<or> ''wl_compositor'' \<in> snd ` set gs"
      "tc_shm (g gs st) \<longleftrightarrow> tc_shm st \<or> ''wl_shm'' \<in> snd ` set gs"
      "tc_wm_base (g gs st) \<longleftrightarrow> tc_wm_base st \<or> ''xdg_wm_base'' \<in> snd ` set gs"
proof -
  have "tc_clean fd sz (g gs st) \<and> presented_frames (tc_sent (g gs st)) = presented_frames (tc_sent st) \<and>
     sent_acks (tc_sent (g gs st)) = sent_acks (tc_sent st) \<and> sent_pongs (tc_sent (g gs st)) = sent_pongs (tc_sent st) \<and>
     (tc_compositor (g gs st) \<longleftrightarrow> tc_compositor st \<or> ''wl_compositor'' \<in> snd ` set gs) \<and>
     (tc_shm (g gs st) \<longleftrightarrow> tc_shm st \<or> ''wl_shm'' \<in> snd ` set gs) \<and>
     (tc_wm_base (g gs st) \<longleftrightarrow> tc_wm_base st \<or> ''xdg_wm_base'' \<in> snd ` set gs)"
    using assms(2) unfolding g_def
  proof (induction gs arbitrary: st)
    case Nil
    then show ?case by simp
  next
    case (Cons x gs)
    obtain n i where x: "x = (n, i)" by fastforce
    let ?s = "registry_handle_global n i st"
    have s: "tc_clean fd sz ?s" "presented_frames (tc_sent ?s) = presented_frames (tc_sent st)" "sent_acks (tc_sent ?s) = sent_acks (tc_sent st)"
      "sent_pongs (tc_sent ?s) = sent_pongs (tc_sent st)"
      "tc_compositor ?s \<longleftrightarrow> tc_compositor st \<or> i = ''wl_compositor''" "tc_shm ?s \<longleftrightarrow> tc_shm st \<or> i = ''wl_shm''"
      "tc_wm_base ?s \<longleftrightarrow> tc_wm_base st \<or> i = ''xdg_wm_base''"
      using Cons.prems by (auto simp: registry_handle_global_def tc_clean_def tc_send_def view_simps sent_acks_def sent_pongs_def)
    show ?case using Cons.IH [OF s(1)]
      by (simp only: x fold.simps comp_def prod.case list.set image_insert insert_iff snd_conv s(2-)) blast
  qed
  then show "tc_clean fd sz (g gs st)" "presented_frames (tc_sent (g gs st)) = presented_frames (tc_sent st)"
    "sent_acks (tc_sent (g gs st)) = sent_acks (tc_sent st)" "sent_pongs (tc_sent (g gs st)) = sent_pongs (tc_sent st)"
    "tc_compositor (g gs st) \<longleftrightarrow> tc_compositor st \<or> ''wl_compositor'' \<in> snd ` set gs"
    "tc_shm (g gs st) \<longleftrightarrow> tc_shm st \<or> ''wl_shm'' \<in> snd ` set gs"
    "tc_wm_base (g gs st) \<longleftrightarrow> tc_wm_base st \<or> ''xdg_wm_base'' \<in> snd ` set gs" by blast+
qed

text \<open>
  C38: The thread of the test client, once it is connected to a compositor that announces the three
  globals, returns after any sequence of events whose sizes fit an \<^verbatim>\<open>int\<close> and whose memory files get
  descriptors of their own. It acknowledges each configure and answers each ping, in order. A
  compositor that reads its requests is shown one frame, attached, damaged as a whole and committed,
  for each configure whose memory could be had, of the size last configured, and its pixels are the
  four quadrants of the pattern; nothing else is shown. At the end every descriptor the thread had,
  that of its connection included, has been closed once and every mapping undone.
\<close>

theorem test_client_frames:
  assumes "globals_ok globals" and "list_all (event_ok fd) events"
  shows "\<exists>st. test_client_thread True globals events fd = Some st \<and>
    presented_frames (tc_sent st) = map image_of (wanted_frames (1080, 2400) events) \<and>
    sent_acks (tc_sent st) = wanted_acks events \<and> sent_pongs (tc_sent st) = wanted_pongs events \<and>
    tc_fds st = {} \<and> tc_maps st = 0 \<and> \<not> tc_fault st"
proof -
  have start: "tc_clean fd (1080, 2400) (tc_start fd)" "presented_frames (tc_sent (tc_start fd)) = []"
    by (simp_all add: tc_clean_def tc_start_def view_simps view_def)
  define st1 where "st1 = fold (\<lambda>(name, iface). registry_handle_global name iface) globals (tc_start fd)"
  note g = globals_fold [OF start(1), of globals, folded st1_def]
  have have_all: "tc_compositor st1" "tc_shm st1" "tc_wm_base st1" using assms(1) g(5-7) by (auto simp: globals_ok_def)
  let ?s = "tc_send [C_create_surface, C_get_xdg_surface, C_get_toplevel, C_set_title ''Test Pattern'', C_commit] st1"
  have s: "tc_clean fd (1080, 2400) ?s" "presented_frames (tc_sent ?s) = []" "sent_acks (tc_sent ?s) = []" "sent_pongs (tc_sent ?s) = []"
    using g(1-4) start(2) by (simp_all add: tc_send_def tc_clean_def view_simps, simp_all add: tc_start_def sent_acks_def sent_pongs_def)
  obtain st' sz' where d: "tc_dispatch events ?s = Some st'" "tc_clean fd sz' st'"
    "presented_frames (tc_sent st') = map image_of (wanted_frames (1080, 2400) events)"
    "sent_acks (tc_sent st') = wanted_acks events" "sent_pongs (tc_sent st') = wanted_pongs events"
    using dispatch_spec [OF s(1) assms(2)] s(2-4) by auto
  have "test_client_thread True globals events fd = Some (tc_close fd st')"
    using have_all d(1) by (simp add: test_client_thread_def st1_def [symmetric])
  then show ?thesis using d by (simp add: tc_clean_def tc_close_def)
qed

theorem test_client_frames_witness:
  "\<exists>st. test_client_thread True [(1, ''wl_compositor''), (2, ''wl_shm''), (3, ''xdg_wm_base'')]
      [E_toplevel_configure 2 2, E_surface_configure \<lparr>fe_memfd = Some 9, fe_truncate = True, fe_mmap = True\<rparr> 5] 4 = Some st \<and>
     presented_frames (tc_sent st) = [(2, 2, 8, [COLOR_RED, COLOR_GREEN, COLOR_BLUE, COLOR_YELLOW])]"
proof -
  have "pattern_image 2 2 = [COLOR_RED, COLOR_GREEN, COLOR_BLUE, COLOR_YELLOW]"
    by (simp add: pattern_image_def quadrant_def upt_rec)
  then show ?thesis
    using test_client_frames [of "[(1, ''wl_compositor''), (2, ''wl_shm''), (3, ''xdg_wm_base'')]" 4
      "[E_toplevel_configure 2 2, E_surface_configure \<lparr>fe_memfd = Some 9, fe_truncate = True, fe_mmap = True\<rparr> 5]"]
    by (auto simp: globals_ok_def fe_ok_def image_of_def)
qed

text \<open>
  The start of the test client on every path. When the connection to the socket pair fails, the
  thread closes the descriptor that \<^verbatim>\<open>wl_display_connect_to_fd\<close> has already closed. When the thread
  cannot be created, the call reports failure and closes its own end, but the client it registered
  stays with its descriptor; when the client cannot be made, both ends are closed.
\<close>

theorem test_client_start_failures:
  assumes "a \<noteq> b" and "a \<notin> th_fds h" and "b \<notin> th_fds h"
  shows "map_option tc_fault (test_client_thread False globals events b) = Some True \<and>
    test_client_start True (Some (a, b)) True False h =
      (-1, h\<lparr>th_fds := insert a (th_fds h), th_clients := th_clients h @ [a]\<rparr>) \<and>
    test_client_start True (Some (a, b)) False t h = (-1, h)"
proof -
  have "insert a (insert b (th_fds h)) - {b} = insert a (th_fds h)" "insert a (insert b (th_fds h)) - {a} - {b} = th_fds h"
    using assms by auto
  then show ?thesis by (simp add: test_client_thread_def tc_start_def tc_close_def test_client_start_def)
qed

theorem test_client_start_failures_witness:
  "fst (test_client_start True (Some (5, 6)) True False \<lparr>th_fds = {0, 1, 2}, th_clients = [], th_threads = []\<rparr>) = -1"
  using test_client_start_failures [of 5 6 "\<lparr>th_fds = {0, 1, 2}, th_clients = [], th_threads = []\<rparr>"] by simp

end
