(* ===== verification/DrmStartup.thy ===== *)
theory DrmStartup
  imports DrmIntercept
begin

text \<open>
  The rest of \<^verbatim>\<open>drm_shim.c\<close>: the libdrm calls that free or name things, the wrappers around the
  interposed \<open>open\<close> and \<open>fcntl\<close>, and the constructor.
\<close>

subsection \<open>Freeing\<close>

text \<open>
  A device pointer is a heap block or \<^verbatim>\<open>NULL\<close>. The first result is the blocks given to \<^verbatim>\<open>free\<close>, in
  order; an index outside the array is undefined behaviour (\<open>None\<close>).
\<close>

fun free_slots :: "nat \<Rightarrow> nat option list \<Rightarrow> (nat list \<times> nat option list) option" where
  "free_slots 0 ds = Some ([], ds)"
| "free_slots (Suc n) [] = None"
| "free_slots (Suc n) (d # ds) =
     (case free_slots n ds of None \<Rightarrow> None
      | Some (freed, ds') \<Rightarrow> Some ((case d of None \<Rightarrow> [] | Some p \<Rightarrow> [p]) @ freed, None # ds'))"

definition drmFreeDevices :: "nat option list option \<Rightarrow> int \<Rightarrow> (nat list \<times> nat option list option) option" where
  "drmFreeDevices devices n =
     (case devices of None \<Rightarrow> Some ([], None)
      | Some ds \<Rightarrow> map_option (\<lambda>(freed, ds'). (freed, Some ds')) (free_slots (nat n) ds))"

definition drmFreeDevice :: "nat option option \<Rightarrow> nat list \<times> nat option option" where
  "drmFreeDevice device =
     (case device of Some (Some p) \<Rightarrow> ([p], Some None) | _ \<Rightarrow> ([], device))"

record version_blocks =
  vb_self :: nat
  vb_name :: "nat option"
  vb_date :: "nat option"
  vb_desc :: "nat option"

definition drmFreeVersion :: "version_blocks option \<Rightarrow> nat list" where
  "drmFreeVersion v =
     (case v of None \<Rightarrow> []
      | Some b \<Rightarrow> concat (map (\<lambda>p. case p of None \<Rightarrow> [] | Some x \<Rightarrow> [x]) [vb_name b, vb_date b, vb_desc b]) @ [vb_self b])"

definition drmGetDevices :: "fake_device list option \<Rightarrow> int \<Rightarrow> world
    \<Rightarrow> (errno + nat) \<times> fake_device list option \<times> world" where
  "drmGetDevices devices max_devices w = drmGetDevices2 devices max_devices w"

definition drmGetDevice :: "int \<Rightarrow> bool \<Rightarrow> shim \<Rightarrow> rc \<times> fake_device option \<times> shim" where
  "drmGetDevice fd device s = drmGetDevice2 fd device s"

subsection \<open>Names\<close>

definition DRM_SHIM_BUS_ID :: string where "DRM_SHIM_BUS_ID = ''platform:virtio-gpu:00''"
definition DRM_NODE_RENDER :: int where "DRM_NODE_RENDER = 2"

definition strdup :: "string \<Rightarrow> world \<Rightarrow> string option \<times> world" where
  "strdup str w = (let (ok, w1) = sys_alloc w in (if ok then Some str else None, w1))"

definition drmAuthMagic :: "int \<Rightarrow> u32 \<Rightarrow> int" where "drmAuthMagic fd magic = 0"

definition drmGetBusid :: "int \<Rightarrow> world \<Rightarrow> string option \<times> world" where
  "drmGetBusid fd = strdup DRM_SHIM_BUS_ID"

definition drmFreeBusid :: "nat option \<Rightarrow> nat list" where
  "drmFreeBusid busid = (case busid of None \<Rightarrow> [] | Some p \<Rightarrow> [p])"

definition drmGetNodeTypeFromFd :: "int \<Rightarrow> int" where "drmGetNodeTypeFromFd fd = DRM_NODE_RENDER"

definition drmGetRenderDeviceNameFromFd :: "int \<Rightarrow> world \<Rightarrow> string option \<times> world" where
  "drmGetRenderDeviceNameFromFd fd = strdup DRM_SHIM_RENDER_NODE"

definition drmGetDeviceNameFromFd2 :: "int \<Rightarrow> world \<Rightarrow> string option \<times> world" where
  "drmGetDeviceNameFromFd2 fd = strdup DRM_SHIM_RENDER_NODE"

subsection \<open>Wrappers\<close>

text \<open>
  \<open>creates\<close> says whether the flags ask for a file to be created; only then is the mode an argument.
  The real \<^verbatim>\<open>openat\<close> gets the directory, path, flags and mode.
\<close>

definition AT_FDCWD :: int where "AT_FDCWD = -100"

definition openat_wrapper :: "(int \<Rightarrow> string option \<Rightarrow> int \<Rightarrow> int \<Rightarrow> int) \<Rightarrow> (int \<Rightarrow> bool) \<Rightarrow> int \<Rightarrow> string option \<Rightarrow> int \<Rightarrow> int
    \<Rightarrow> int list \<Rightarrow> int \<times> int list" where
  "openat_wrapper real_openat creates dirfd pathname flags mode_arg fds =
     shim_openat (real_openat dirfd pathname flags (if creates flags then mode_arg else 0)) pathname fds"

definition open_wrapper :: "(int \<Rightarrow> string option \<Rightarrow> int \<Rightarrow> int \<Rightarrow> int) \<Rightarrow> (int \<Rightarrow> bool) \<Rightarrow> string option \<Rightarrow> int \<Rightarrow> int
    \<Rightarrow> int list \<Rightarrow> int \<times> int list" where
  "open_wrapper real_openat creates pathname flags mode_arg fds =
     openat_wrapper real_openat creates AT_FDCWD pathname flags (if creates flags then mode_arg else 0) fds"

text \<open>The process exits (\<open>None\<close>) when no real function can be found.\<close>

type_synonym fcntl_fn = "int \<Rightarrow> fcntl_cmd \<Rightarrow> int \<Rightarrow> world \<Rightarrow> int \<times> world"

definition fcntl_wrapper :: "fcntl_fn option \<Rightarrow> int \<Rightarrow> fcntl_cmd \<Rightarrow> int \<Rightarrow> shim \<Rightarrow> (int \<times> shim) option" where
  "fcntl_wrapper real_fcntl fd cmd arg s = map_option (\<lambda>f. shim_fcntl_impl f fd cmd arg s) real_fcntl"

definition fcntl64_wrapper :: "fcntl_fn option \<Rightarrow> fcntl_fn option \<Rightarrow> int \<Rightarrow> fcntl_cmd \<Rightarrow> int \<Rightarrow> shim \<Rightarrow> (int \<times> shim) option" where
  "fcntl64_wrapper real_fcntl64 real_fcntl fd cmd arg s =
     (let f = (if real_fcntl64 = None then real_fcntl else real_fcntl64) in map_option (\<lambda>f. shim_fcntl_impl f fd cmd arg s) f)"

subsection \<open>Constructor\<close>

text \<open>The cells of the descriptor table, the disposition of \<^verbatim>\<open>SIGPIPE\<close>, and the resolved functions.\<close>

record startup =
  su_cells :: "int list"
  su_count :: nat
  su_sigpipe_ignored :: bool
  su_real :: "string \<rightharpoonup> nat"

definition startup_zero :: startup where
  "startup_zero = \<lparr>su_cells = replicate MAX_DRM_FDS 0, su_count = 0, su_sigpipe_ignored = False, su_real = Map.empty\<rparr>"

definition drm_shim_init :: "bool \<Rightarrow> (string \<rightharpoonup> nat) \<Rightarrow> startup \<Rightarrow> startup" where
  "drm_shim_init electron_child next_sym st =
     (if electron_child then st
      else st\<lparr>su_cells := replicate MAX_DRM_FDS (-1), su_sigpipe_ignored := True,
        su_real := (\<lambda>name.
          if name \<in> {''mmap'', ''ioctl'', ''open'', ''openat'', ''fstatat'', ''dlopen'', ''fcntl''} then next_sym name
          else if name = ''fcntl64'' then (case next_sym ''fcntl64'' of None \<Rightarrow> next_sym ''fcntl'' | Some f \<Rightarrow> Some f)
          else su_real st name)\<rparr>)"

subsection \<open>Facts\<close>

lemma free_slots_spec:
  "n \<le> length ds \<Longrightarrow> free_slots n ds = Some (concat (map (\<lambda>p. case p of None \<Rightarrow> [] | Some x \<Rightarrow> [x]) (take n ds)),
     replicate n None @ drop n ds)"
  by (induction n ds rule: free_slots.induct) auto

text \<open>Each device is freed once; a second call on the same array frees nothing.\<close>

lemma free_devices_twice:
  assumes "nat n \<le> length ds"
  shows "\<exists>freed ds'. drmFreeDevices (Some ds) n = Some (freed, Some ds') \<and> drmFreeDevices (Some ds') n = Some ([], Some ds')"
proof -
  have "concat (map (\<lambda>p. case p of None \<Rightarrow> [] | Some x \<Rightarrow> [x]) (replicate m None)) = []" for m :: nat
    by (induction m) simp_all
  then show ?thesis using assms free_slots_spec [of "nat n" "replicate (nat n) None @ drop (nat n) ds"]
    by (simp add: drmFreeDevices_def free_slots_spec)
qed

lemma open_is_openat:
  "open_wrapper real_openat creates p flags m fds = openat_wrapper real_openat creates AT_FDCWD p flags m fds"
  by (simp add: open_wrapper_def openat_wrapper_def)

text \<open>In a helper process nothing is set up, but an empty table tracks nothing either, whatever its cells hold.\<close>

lemma init_tracks_nothing:
  "su_count (drm_shim_init child next_sym startup_zero) = 0"
  by (simp add: drm_shim_init_def startup_zero_def)

end
