(* ===== verification/DrmResolve.thy ===== *)
theory DrmResolve
  imports DrmStartup EglSymbols
begin

text \<open>
  How the interposed calls of \<^verbatim>\<open>drm_shim.c\<close> find the functions they stand for, and the interposed
  \<^verbatim>\<open>dlopen\<close>. \<^verbatim>\<open>split_first\<close> (\<^verbatim>\<open>strstr\<close>) and the decimal loop \<open>low_digits\<close> are those of the
  EGL override, which has the same helpers.
\<close>

subsection \<open>Resolution\<close>

text \<open>
  The dynamic linker: whether \<^verbatim>\<open>dlvsym\<close> has \<^verbatim>\<open>dlsym@GLIBC_2.17\<close>, and the next definition of a name.
  The state: whether \<open>real_dlsym\<close> is set, and the function pointers that are.
\<close>

record provider =
  pv_dlvsym :: bool
  pv_next :: "string \<Rightarrow> nat option"

record resolver =
  rs_dlsym :: bool
  rs_real :: "string \<rightharpoonup> nat"

definition unresolved :: resolver where
  "unresolved = \<lparr>rs_dlsym = False, rs_real = Map.empty\<rparr>"

definition ensure_real_dlsym :: "provider \<Rightarrow> resolver \<Rightarrow> resolver" where
  "ensure_real_dlsym pv rs = (if \<not> rs_dlsym rs then rs\<lparr>rs_dlsym := pv_dlvsym pv\<rparr> else rs)"

text \<open>The macro calls \<open>real_dlsym\<close> without a test: \<^const>\<open>None\<close> is the call through a null pointer.\<close>

definition SHIM_DLSYM :: "provider \<Rightarrow> string \<Rightarrow> resolver \<Rightarrow> (nat option \<times> resolver) option" where
  "SHIM_DLSYM pv symbol rs =
     (let rs1 = ensure_real_dlsym pv rs in if rs_dlsym rs1 then Some (pv_next pv symbol, rs1) else None)"

definition resolve :: "provider \<Rightarrow> string \<Rightarrow> resolver \<Rightarrow> (nat option \<times> resolver) option" where
  "resolve pv name rs =
     (case rs_real rs name of
        Some f \<Rightarrow> Some (Some f, rs)
      | None \<Rightarrow> (case SHIM_DLSYM pv name rs of
          None \<Rightarrow> None
        | Some (f, rs1) \<Rightarrow> Some (f, rs1\<lparr>rs_real := (rs_real rs1)(name := f)\<rparr>)))"

definition resolve_fcntl64 :: "provider \<Rightarrow> resolver \<Rightarrow> (nat option \<times> resolver) option" where
  "resolve_fcntl64 pv rs =
     (case rs_real rs ''fcntl64'' of
        Some f \<Rightarrow> Some (Some f, rs)
      | None \<Rightarrow> (case SHIM_DLSYM pv ''fcntl64'' rs of
          None \<Rightarrow> None
        | Some (Some f, rs1) \<Rightarrow> Some (Some f, rs1\<lparr>rs_real := (rs_real rs1)(''fcntl64'' := Some f)\<rparr>)
        | Some (None, rs1) \<Rightarrow> (case resolve pv ''fcntl'' rs1 of
            None \<Rightarrow> None
          | Some (g, rs2) \<Rightarrow> Some (g, rs2\<lparr>rs_real := (rs_real rs2)(''fcntl64'' := g)\<rparr>))))"

text \<open>
  What a call does when there is no real function: the process exits, or the call fails. A call that
  found one calls it (\<^verbatim>\<open>dlsym\<close> its own).
\<close>

datatype missing = Exits int | Fails_enosys | Gives_null | Gives_minus_one

datatype call_result = Calls nat | Calls_dlsym | Missing missing | Null_call

definition or_missing :: "missing \<Rightarrow> resolver \<Rightarrow> (nat option \<times> resolver) option \<Rightarrow> call_result \<times> resolver" where
  "or_missing m rs r =
     (case r of None \<Rightarrow> (Null_call, rs) | Some (None, rs1) \<Rightarrow> (Missing m, rs1) | Some (Some f, rs1) \<Rightarrow> (Calls f, rs1))"

text \<open>The first lines of each interposed call.\<close>

definition mmap_real :: "provider \<Rightarrow> resolver \<Rightarrow> call_result \<times> resolver" where
  "mmap_real pv rs = or_missing (Exits 99) rs (resolve pv ''mmap'' rs)"

definition ioctl_real :: "provider \<Rightarrow> resolver \<Rightarrow> call_result \<times> resolver" where
  "ioctl_real pv rs = or_missing (Exits 99) rs (resolve pv ''ioctl'' rs)"

definition openat_real :: "provider \<Rightarrow> resolver \<Rightarrow> call_result \<times> resolver" where
  "openat_real pv rs = or_missing (Exits 99) rs (resolve pv ''openat'' rs)"

definition fcntl_real :: "provider \<Rightarrow> resolver \<Rightarrow> call_result \<times> resolver" where
  "fcntl_real pv rs = or_missing (Exits 99) rs (resolve pv ''fcntl'' rs)"

definition fcntl64_real :: "provider \<Rightarrow> resolver \<Rightarrow> call_result \<times> resolver" where
  "fcntl64_real pv rs = or_missing (Exits 99) rs (resolve_fcntl64 pv rs)"

definition stat_real :: "provider \<Rightarrow> string \<Rightarrow> resolver \<Rightarrow> call_result \<times> resolver" where
  "stat_real pv name rs = or_missing Fails_enosys rs (resolve pv name rs)"

definition dlopen_real :: "provider \<Rightarrow> resolver \<Rightarrow> call_result \<times> resolver" where
  "dlopen_real pv rs = or_missing Gives_null rs (resolve pv ''dlopen'' rs)"

definition wl_display_connect_real :: "provider \<Rightarrow> resolver \<Rightarrow> call_result \<times> resolver" where
  "wl_display_connect_real pv rs = or_missing Gives_null rs (resolve pv ''wl_display_connect'' rs)"

definition wl_proxy_add_listener_real :: "provider \<Rightarrow> resolver \<Rightarrow> call_result \<times> resolver" where
  "wl_proxy_add_listener_real pv rs = or_missing Gives_minus_one rs (resolve pv ''wl_proxy_add_listener'' rs)"

definition dlsym_real :: "provider \<Rightarrow> resolver \<Rightarrow> call_result \<times> resolver" where
  "dlsym_real pv rs =
     (let rs1 = ensure_real_dlsym pv rs in (if rs_dlsym rs1 then Calls_dlsym else Missing Gives_null, rs1))"

text \<open>
  The interposed calls. \<^verbatim>\<open>mmap64\<close>, \<^verbatim>\<open>openat64\<close> and \<^verbatim>\<open>open64\<close> are aliases, and \<^verbatim>\<open>open\<close> calls
  \<^verbatim>\<open>openat\<close>; each call of the \<^verbatim>\<open>stat\<close> family has the same lines with its own name.
\<close>

datatype entry =
    I_mmap | I_mmap64 | I_ioctl | I_open | I_open64 | I_openat
  | I_openat64 | I_fcntl | I_fcntl64 | I_fstatat | I_fstatat64 | I_stat
  | I_lstat | I_stat64 | I_lstat64 | I_fstat | I_fstat64 | I_xstat
  | I_lxstat | I_fxstat | I_xstat64 | I_lxstat64 | I_fxstat64 | I_fxstatat
  | I_fxstatat64 | I_dlopen | I_dlsym | I_wl_display_connect | I_wl_proxy_add_listener

fun interposed :: "provider \<Rightarrow> entry \<Rightarrow> resolver \<Rightarrow> call_result \<times> resolver" where
  "interposed pv I_mmap = mmap_real pv"
| "interposed pv I_mmap64 = mmap_real pv"
| "interposed pv I_ioctl = ioctl_real pv"
| "interposed pv I_open = openat_real pv"
| "interposed pv I_open64 = openat_real pv"
| "interposed pv I_openat = openat_real pv"
| "interposed pv I_openat64 = openat_real pv"
| "interposed pv I_fcntl = fcntl_real pv"
| "interposed pv I_fcntl64 = fcntl64_real pv"
| "interposed pv I_fstatat = stat_real pv ''fstatat''"
| "interposed pv I_fstatat64 = stat_real pv ''fstatat64''"
| "interposed pv I_stat = stat_real pv ''stat''"
| "interposed pv I_lstat = stat_real pv ''lstat''"
| "interposed pv I_stat64 = stat_real pv ''stat64''"
| "interposed pv I_lstat64 = stat_real pv ''lstat64''"
| "interposed pv I_fstat = stat_real pv ''fstat''"
| "interposed pv I_fstat64 = stat_real pv ''fstat64''"
| "interposed pv I_xstat = stat_real pv ''__xstat''"
| "interposed pv I_lxstat = stat_real pv ''__lxstat''"
| "interposed pv I_fxstat = stat_real pv ''__fxstat''"
| "interposed pv I_xstat64 = stat_real pv ''__xstat64''"
| "interposed pv I_lxstat64 = stat_real pv ''__lxstat64''"
| "interposed pv I_fxstat64 = stat_real pv ''__fxstat64''"
| "interposed pv I_fxstatat = stat_real pv ''__fxstatat''"
| "interposed pv I_fxstatat64 = stat_real pv ''__fxstatat64''"
| "interposed pv I_dlopen = dlopen_real pv"
| "interposed pv I_dlsym = dlsym_real pv"
| "interposed pv I_wl_display_connect = wl_display_connect_real pv"
| "interposed pv I_wl_proxy_add_listener = wl_proxy_add_listener_real pv"

text \<open>The constructor, with the bootstrap that \<^const>\<open>drm_shim_init\<close> leaves out.\<close>

definition construct :: "bool \<Rightarrow> provider \<Rightarrow> resolver \<Rightarrow> resolver option" where
  "construct electron_child pv rs =
     (if electron_child then Some rs
      else case SHIM_DLSYM pv ''mmap'' rs of
        None \<Rightarrow> None
      | Some (_, rs1) \<Rightarrow>
          Some (rs1\<lparr>rs_real := su_real (drm_shim_init electron_child (pv_next pv)
            (startup_zero\<lparr>su_real := rs_real rs1\<rparr>))\<rparr>))"

text \<open>A process: the constructor and the calls, in any order, until one of them ends it.\<close>

datatype event = Constructor bool | Call entry

definition ends :: "call_result \<Rightarrow> bool" where
  "ends r = (case r of Calls _ \<Rightarrow> False | Calls_dlsym \<Rightarrow> False | Missing (Exits _) \<Rightarrow> True | Missing _ \<Rightarrow> False | Null_call \<Rightarrow> True)"

fun process :: "provider \<Rightarrow> resolver \<Rightarrow> event list \<Rightarrow> call_result list" where
  "process pv rs [] = []"
| "process pv rs (Constructor electron_child # es) =
     (case construct electron_child pv rs of None \<Rightarrow> [Null_call] | Some rs1 \<Rightarrow> process pv rs1 es)"
| "process pv rs (Call entry # es) =
     (let (r, rs1) = interposed pv entry rs in r # (if ends r then [] else process pv rs1 es))"

subsection \<open>What the calls reach\<close>






















text \<open>With glibc's \<^verbatim>\<open>fcntl\<close> only, a helper process that calls \<^verbatim>\<open>fcntl64\<close>, and then an \<^verbatim>\<open>open\<close> without \<^verbatim>\<open>openat\<close>.\<close>

lemma process_example:
  "process \<lparr>pv_dlvsym = True, pv_next = [''fcntl'' \<mapsto> 7]\<rparr> unresolved
     [Call I_fcntl64, Constructor False, Call I_stat, Call I_open, Call I_fcntl]
   = [Calls 7, Missing Fails_enosys, Missing (Exits 99)]"
  by code_simp

subsection \<open>\<^verbatim>\<open>dlopen\<close>\<close>

text \<open>
  The state: \<open>trace_all\<close>, the error \<^verbatim>\<open>dlerror\<close> has pending, and the lines written. \<^verbatim>\<open>dlerror\<close> returns
  the error of the last failed call and clears it. The real \<^verbatim>\<open>dlopen\<close> gives a handle, or \<^verbatim>\<open>NULL\<close> and an
  error; \<^const>\<open>None\<close> is that it cannot be found.
\<close>

record dl_state =
  dl_trace :: int
  dl_error :: "string option"
  dl_log :: "string list"

type_synonym dlopen_fn = "string option \<Rightarrow> int \<Rightarrow> string + nat"

definition dlerror :: "dl_state \<Rightarrow> string option \<times> dl_state" where
  "dlerror st = (dl_error st, st\<lparr>dl_error := None\<rparr>)"

definition strstr :: "string \<Rightarrow> string \<Rightarrow> bool" where
  "strstr needle s = (split_first needle s \<noteq> None)"

definition is_dri :: "string option \<Rightarrow> bool" where
  "is_dri filename = (case filename of None \<Rightarrow> False | Some f \<Rightarrow> strstr ''_dri.so'' f)"

definition is_gpu :: "string option \<Rightarrow> bool" where
  "is_gpu filename =
     (case filename of None \<Rightarrow> False
      | Some f \<Rightarrow> is_dri filename \<or> strstr ''libdrm'' f \<or> strstr ''libEGL'' f \<or> strstr ''libgbm'' f \<or>
          strstr ''libLLVM'' f \<or> strstr ''virgl'' f)"

definition trace_setting :: "string option \<Rightarrow> int" where
  "trace_setting setting = (case setting of Some (c # _) \<Rightarrow> if c = CHR ''1'' then 1 else 0 | _ \<Rightarrow> 0)"

text \<open>The dash of the message is the three bytes of U+2014.\<close>

definition opening_line :: "string option \<Rightarrow> string" where
  "opening_line filename =
     (case filename of
        Some f \<Rightarrow> ''[drm-shim] dlopen: '' @ f
      | None \<Rightarrow> ''[drm-shim] dlopen: (NULL '' @ [char_of (226 :: nat), char_of (128 :: nat), char_of (148 :: nat)] @ '' self)'')"

definition report :: "bool \<Rightarrow> bool \<Rightarrow> bool \<Rightarrow> dl_state \<Rightarrow> dl_state" where
  "report loaded dri all st =
     (if loaded then
        if dri then st\<lparr>dl_log := dl_log st @ [''[drm-shim] dlopen: DRI driver loaded OK'']\<rparr>
        else if all then st\<lparr>dl_log := dl_log st @ [''[drm-shim] dlopen: OK'']\<rparr>
        else st
      else
        let st1 = st\<lparr>dl_log := dl_log st @
               [if dri then ''[drm-shim] dlopen: DRI driver FAILED'' else ''[drm-shim] dlopen: FAILED'']\<rparr>;
            (err, st2) = dlerror st1
        in case err of None \<Rightarrow> st2
           | Some e \<Rightarrow> st2\<lparr>dl_log := dl_log st2 @ [''[drm-shim] dlopen error: '' @ e]\<rparr>)"

definition dlopen :: "dlopen_fn option \<Rightarrow> string option \<Rightarrow> string option \<Rightarrow> int \<Rightarrow> dl_state \<Rightarrow> nat option \<times> dl_state" where
  "dlopen real setting filename flags st =
     (case real of None \<Rightarrow> (None, st)
      | Some f \<Rightarrow>
        let st1 = (if dl_trace st < 0 then st\<lparr>dl_trace := trace_setting setting\<rparr> else st);
            should_log = is_gpu filename \<or> dl_trace st1 \<noteq> 0;
            st2 = (if should_log then st1\<lparr>dl_log := dl_log st1 @ [opening_line filename]\<rparr> else st1);
            (result, st3) = (case f filename flags of
               Inr h \<Rightarrow> (Some h, st2) | Inl e \<Rightarrow> (None, st2\<lparr>dl_error := Some e\<rparr>));
            st4 = (if should_log then report (result \<noteq> None) (is_dri filename) (dl_trace st1 \<noteq> 0) st3 else st3)
        in (result, st4))"

lemma report_facts:
  "dl_trace (report loaded dri all_calls st) = dl_trace st"
  "dl_error (report loaded dri all_calls st) = (if loaded then dl_error st else None)"
  by (auto simp: report_def dlerror_def Let_def split: option.split)

text \<open>
  The interposed \<^verbatim>\<open>dlopen\<close> returns what the real one does, and the environment is read by the
  first call only. It is not transparent for \<^verbatim>\<open>dlerror\<close>: after a failed load that is logged, of a
  graphics library or with tracing on, the caller's \<^verbatim>\<open>dlerror\<close> gives \<^verbatim>\<open>NULL\<close>, because the shim has
  asked first; after another failed load it gives the error, and a load that succeeds leaves it alone.
\<close>

theorem dlopen_hides_error:
  assumes "dlopen (Some real) setting filename flags st = (h, st')"
  shows "h = (case real filename flags of Inl e \<Rightarrow> None | Inr p \<Rightarrow> Some p) \<and>
    dl_trace st' = (if dl_trace st < 0 then trace_setting setting else dl_trace st) \<and>
    fst (dlerror st') =
      (case real filename flags of
         Inr p \<Rightarrow> fst (dlerror st)
       | Inl e \<Rightarrow> if is_gpu filename \<or> dl_trace st' \<noteq> 0 then None else Some e)"
proof -
  define st1 where "st1 = (if dl_trace st < 0 then st\<lparr>dl_trace := trace_setting setting\<rparr> else st)"
  define log where "log = (is_gpu filename \<or> dl_trace st1 \<noteq> 0)"
  define st2 where "st2 = (if log then st1\<lparr>dl_log := dl_log st1 @ [opening_line filename]\<rparr> else st1)"
  have st2: "dl_trace st2 = dl_trace st1" "dl_error st2 = dl_error st" by (simp_all add: st2_def st1_def)
  have st1: "dl_trace st1 = (if dl_trace st < 0 then trace_setting setting else dl_trace st)" by (simp add: st1_def)
  have eq: "(h, st') =
      (let (result, st3) = (case real filename flags of
           Inr h \<Rightarrow> (Some h, st2) | Inl e \<Rightarrow> (None, st2\<lparr>dl_error := Some e\<rparr>))
       in (result, if log then report (result \<noteq> None) (is_dri filename) (dl_trace st1 \<noteq> 0) st3 else st3))"
    unfolding assms [symmetric] st2_def log_def st1_def by (simp only: dlopen_def Let_def option.case)
  show ?thesis
  proof (cases "real filename flags")
    case (Inl e)
    then have "h = None" "dl_trace st' = dl_trace st1" "dl_error st' = (if log then None else Some e)"
      using eq st2 by (simp_all add: report_facts)
    then show ?thesis using Inl st1 by (simp add: dlerror_def log_def)
  next
    case (Inr p)
    then have "h = Some p" "dl_trace st' = dl_trace st1" "dl_error st' = dl_error st"
      using eq st2 by (simp_all add: report_facts)
    then show ?thesis using Inr st1 by (simp add: dlerror_def)
  qed
qed

theorem dlopen_hides_error_witness:
  "fst (dlerror (snd (dlopen (Some (\<lambda>_ _. Inl ''no such file'')) None (Some ''libEGL.so.1'') 2
     \<lparr>dl_trace = -1, dl_error = None, dl_log = []\<rparr>))) = None"
proof -
  let ?d = "dlopen (Some (\<lambda>_ _. Inl ''no such file'')) None (Some ''libEGL.so.1'') 2
     \<lparr>dl_trace = -1, dl_error = None, dl_log = []\<rparr>"
  have "is_gpu (Some ''libEGL.so.1'')" by code_simp
  then show ?thesis using dlopen_hides_error [of _ _ _ _ _ "fst ?d" "snd ?d", OF prod.collapse [symmetric]] by simp
qed

subsection \<open>The message of \<^verbatim>\<open>openat\<close>\<close>

text \<open>The line \<^verbatim>\<open>openat\<close> assembles in an array of 64 bytes, for a descriptor that is not negative.\<close>

definition tracked_line :: "int \<Rightarrow> string" where
  "tracked_line fd =
     ''[drm-shim] Tracked DRM fd='' @ (if fd = 0 then ''0'' else rev (low_digits (nat fd))) @ '' via openat()'' @ [CHR 0x0A]"

lemma tracked_line_fits:
  assumes "0 \<le> fd" "fd < 2 ^ 31"
  shows "length (tracked_line fd) \<le> 51"
proof -
  have "length (low_digits (nat fd)) \<le> 10" using assms by (intro low_digits_length) auto
  then show ?thesis by (simp add: tracked_line_def)
qed

end
