(* ===== verification/Spec2Isabelle.thy ===== *)
theory Spec2Isabelle
  imports Vtest DrmData DrmIntercept ShellProps OutputProps AhbReceiver BufferProps NetstubProps NetstubCrash
    EglText EglProps EglSymbols JniProps JniMethods EndToEnd TestClientProps DrmStartup DrmResolve
begin

text \<open>
  A verification development for WLDroid: a Wayland compositor that runs inside an Android application,
  and the shims preloaded into Linux programs in a proot container so that they reach its GPU, windows
  and input. The C code is modelled, function by function under the source's names; this theory imports
  everything and holds this overview.

  \<^bold>\<open>The program and its parts.\<close>

  A Linux program renders through Mesa. \<^verbatim>\<open>drm-shim\<close> pretends to be a virtio-gpu kernel driver: it
  intercepts the C library and answers each ioctl by messages to a rendering server over a socket (the
  vtest protocol). \<^verbatim>\<open>gbm-shim\<close> implements the GBM buffer API on Android's AHardwareBuffers;
  \<^verbatim>\<open>egl-override\<close> intercepts EGL and, without a GPU, turns each window into a Wayland shared-memory
  surface; \<^verbatim>\<open>netstub\<close> replaces \<^verbatim>\<open>getifaddrs\<close> and prints crash reports. The compositor
  (\<^verbatim>\<open>compositor/native\<close>) is started by the application through JNI: one thread runs the Wayland event
  loop, and the application's threads reach it only through a ring of input events, a queue of text
  operations and byte pipes. A receiver thread collects AHardwareBuffers by inode from the rendering
  server, for clients that name them in dma-buf requests.

  \<^bold>\<open>Theories and sources\<close> (paths under \<^verbatim>\<open>src/\<close>).

  \<^item> Prelude: machine types, error codes, little-endian dwords, lists. \<open>frame_simps\<close> and \<open>inv_intros\<close>
    collect what the components' proofs share. Interfaces are the locales \<open>handle_table\<close>, \<open>keyed_cache\<close>,
    \<open>framed_sink\<close>, \<open>framed_source\<close>, \<open>bounded_queue\<close>, \<open>inode_map\<close> and \<open>buffer_owner\<close>, each interpreted on the
    code's own operations in the theory of the component that provides it (\<open>bounded_queue\<close> by both the
    input ring and the text queue, \<open>buffer_owner\<close> by both owners of hardware buffers).
  \<^item> \<^verbatim>\<open>shims/native/drm-shim/src/drm_shim.c\<close>: World (the system calls it makes), Vtest (connection,
    handshake, blocking transfers), BoTable (the growing object table with its free list, \<open>bo_state\<close>),
    KeyedCache and InodeCache (resources remembered by inode), DrmFds (tracked descriptors), DrmIoctl
    (the VIRTGPU handlers on the record \<open>shim\<close>), DrmApi (PRIME, fake device, version, \<open>drmIoctl\<close>),
    DrmIntercept (\<open>mmap\<close>, \<open>openat\<close>, the \<open>stat\<close> family, \<open>ioctl\<close>, \<open>fcntl\<close>, \<open>dlsym\<close>, the Wayland entry points),
    DrmStartup (frees, names, constructor), DrmResolve (how real functions are found; \<open>dlopen\<close>). DrmInvariant, DrmProps, DrmShare, DrmData: the invariant of
    all tables over every ioctl, then the properties.
  \<^item> \<^verbatim>\<open>compositor/native/src/input_handler.c\<close>, \<^verbatim>\<open>keycode_map.h\<close>: KeycodeMap, InputRing (the ring as a
    queue), InputSpsc (its two threads interleaved), InputDispatch, InputProps.
  \<^item> \<^verbatim>\<open>compositor/native/src/text_input_handler.c\<close>: TextInput, TextInputInv, TextInputProps (protocol
    objects and keyboard focus), Utf8 (deletion counts), TextQueue, TextDispatch, TextDispatchProps (the
    way of a text from Android to the client). WlSeat: what this code sees of wlroots, as a trace of
    calls.
  \<^item> \<^verbatim>\<open>compositor/native/src/compositor_server.c\<close>: ShellFocus, ShellProps (windows and focus, with
    \<^verbatim>\<open>xwayland_surface.c\<close>), AndroidOutput, OutputProps (with \<^verbatim>\<open>android_output.c\<close>), ServerLifecycle,
    ServerProps (creation, error path, destruction, with \<^verbatim>\<open>android_backend.c\<close>).
  \<^item> \<^verbatim>\<open>compositor/native/src/ahb_registry.c\<close>, \<^verbatim>\<open>ahb_registry_receiver.c\<close>: AhbRegistry, AhbReceiver.
    \<^verbatim>\<open>ahb_allocator.c\<close>, \<^verbatim>\<open>drm_format_table.h\<close> and \<^verbatim>\<open>shims/native/gbm-shim\<close>: BufferFormats, Ndk (the
    AHardwareBuffer calls), GbmBo, AhbAllocator, BufferProps.
  \<^item> \<^verbatim>\<open>compositor/native/src/jni_bridge.c\<close>: JniBridge, JniProps (the native methods), JniMethods
    (their registration, beside \<^verbatim>\<open>CompositorServer.kt\<close>). \<^verbatim>\<open>test_client.c\<close>: TestClient, TestClientProps.
  \<^item> The whole compositor (\<open>compositor_server_run\<close> under the bridge): CompositorLoop (steps of the event
    loop between the application's calls), CompositorLoopProps, SystemProps, EndToEnd.
  \<^item> \<^verbatim>\<open>shims/native/netstub/netstub.c\<close>: Netstub, NetstubProps, NetstubCrash.
  \<^item> \<^verbatim>\<open>shims/native/egl-override/egl_override.c\<close>: EglWindow (connection, listeners, frames), EglSurface
    (presentation, surfaces), EglText (the calls on strings and attributes), EglSymbols
    (constructor, symbols, protocol tables), EglInv, EglPresent, EglLife (memory files and mappings over
    a run), EglLinks (connections and the render node's descriptor), EglProps.

  The theories are composed as the code is: TextDispatch runs on the objects of TextInput, InputDispatch
  on both, ShellFocus on that; ServerLifecycle starts and stops them with the output, the allocator and
  the receiver; JniBridge drives the server. CompositorLoop puts the handlers of all parts on the state of
  the bridge: \<open>system_reachable\<close> is any interleaving of calls and handlers from a fresh process, its starts restricted
  to those its first argument admits (\<open>clean_start\<close> in all properties).

  \<^bold>\<open>How code is represented.\<close> A C struct is a record with the fields its code reads or writes, a
  static is a field of the component's state, a function maps states to states. \<^verbatim>\<open>uint32_t\<close> and
  \<^verbatim>\<open>uint64_t\<close> are words where width or wrap-around matters, \<^verbatim>\<open>int\<close> is \<open>int\<close> with overflow written out.
  Errors are values: \<open>rc\<close> for the errno convention, \<open>option\<close> for null, a sum for a count or an error. Where
  the C code has no defined behaviour (a null or freed pointer, signed overflow, a map past its file),
  the model has a value of its own, \<open>None\<close> or a fault flag, and the safety theorems say it does not arise.
  Calls that leave the program (wlroots, libwayland, the NDK, Mesa, the kernel) are recorded in a trace;
  what they answer is a parameter: a \<open>world\<close> with schedules of short and interrupted reads and writes, an
  environment record (\<open>create_env\<close>, \<open>egl_env\<close>, \<open>frame_env\<close>, \<open>out_env\<close>, \<open>input_env\<close>) or a function argument. A theorem
  that needs an answer to be sane assumes it by name (fresh descriptors, \<open>parts_ok\<close>, \<open>event_ok\<close>), and has a
  witness that evaluates it on a concrete input. Log output is left out, except where it
  has a buffer to fit or an effect.

  \<^bold>\<open>What is shown.\<close>

  \<^item> DRM shim: over any run of ioctls every object's descriptor is open, owned once and not the server's
    socket (\<open>shim_descriptors_owned\<close>); the bytes of handshake, resource creation and command submission;
    what closing, exporting, importing and re-importing do, including a resource that is reused after the
    server was told to drop it; fresh handles below \<open>2 ^ 31\<close>, and the growth loop that never ends there.
  \<^item> Input: the ring under every interleaving of its two threads; the dispatcher handles the waiting
    events once, in order; none is stranded.
  \<^item> Text: well-formed protocol objects, show and hide alternate (with one text input per client), texts reach the client whole and in
    order, the deletion counts are those of the shortest run of whole code points, the synthetic keys
    type the text.
  \<^item> Windows, output, buffers: focus bookkeeping, windows used only while a reference is held, the copy
    into a window in bounds, hardware buffers neither leaked nor misused by either owner, registry and
    receiver as a map fed by the well-formed messages of the stream.
  \<^item> Life of the compositor: a late failure of creation leaks, and a failed input pipe closes descriptor 0
    twice (ServerProps). The starts that do neither, \<open>clean_start\<close>, fail before the output exists or get fresh
    descriptors, their input handler and their socket.
  \<^item> The compositor as a whole, with clean starts: over every interleaving of the application's calls with
    the handlers of the event loop the invariants of all parts hold together, with descriptors and objects
    accounted for exactly and the references of the output's window from below (\<open>system_invariant\<close>; a resume
    without a pause leaves one over), every handler returns, the input ring and the text queue empty after
    theirs (\<open>system_handlers_return\<close>), and a stop gives everything back so that the next start begins afresh
    (\<open>system_restarts\<close>). A text goes from the application's call to the client whose window has the keyboard
    focus when a text input is enabled there (\<open>typed_text_end_to_end\<close>).
  \<^item> Tables others trust: each native method is registered with the C function of its name, its descriptor
    agrees with the C signature and the Kotlin class; the xdg-shell tables agree with the requests
    marshalled through them. The real functions behind the interposed calls are the same whatever resolves
    them first, and each call fails in the way of its kind without one.
  \<^item> Netstub and EGL: the parser against the kernel's format, the list well formed and freed once; no
    memory file or mapping misused or left over in any run of the EGL calls, which other descriptors stay
    open (every Wayland connection, one of the render node), the frame a swap shows, and two defects of
    resizing and destroying.

  \<^bold>\<open>Bounds and fuel.\<close> The growth loop of the object table and the walk of \<^verbatim>\<open>freeifaddrs\<close> are partial
  functions into \<open>option\<close>, so not returning is the value \<open>None\<close>. The input handler runs at most 256 rounds
  (the ring holds at most 255 events) and the text handler one more than the operations that wait; the
  properties show that the queue is empty at the end, so the fuel is enough. The receiver's message loop
  has fuel of one more than the bytes that arrive, and each message consumes at least one. Every other loop
  is structural recursion or has its termination proved.

  \<^bold>\<open>Not modelled.\<close> libwayland, wlroots, xkbcommon, Mesa, the NDK and the kernel (parameters, as
  above) and the string conversions of the Java virtual machine; log output other than what is named;
  the vendored headers beyond the constants used; data races outside the ring and the queues (each
  JNI call is one step, as it holds the server's mutex; each handler of the event loop is one step; in
  CompositorLoop both run one at a time, so what they share without a lock is covered by InputSpsc and
  the pipe theorems only); the Kotlin application, the launcher and the build scripts, which are not C.
\<close>

end
